(* ===== verification/Prelude.thy ===== *)
theory Prelude
  imports Main "HOL-Library.Word" "HOL-Library.Multiset"
begin

unbundle bit_operations_syntax

text \<open>
  Shared vocabulary of the development: bytes, results with an error value, the
  JavaScript containers the sources use (insertion-ordered \<open>Map\<close> and \<open>Set\<close>), stable
  sorting by a key, and the collections of hints the component theories add to.

  A fallible TypeScript function is modelled by a function into \<open>'e + 'a\<close>: \<open>Inl\<close> is
  the exception it throws, \<open>Inr\<close> the value it returns. \<open>ebind\<close> is sequencing, as
  a statement that may throw before the next one runs.
\<close>

named_theorems codec_simps "reading back what a writer produced"
named_theorems guard_defs "definitions a case analysis on guards unfolds"

type_synonym byte = "8 word"
type_synonym bytes = "byte list"

lemma unat_byte [simp]: "unat (b :: byte) < 256"
  using unsigned_less [of b, where 'a = nat] by simp

lemma unat_byte_of_nat [simp]: "n < 256 \<Longrightarrow> unat (word_of_nat n :: byte) = n"
  by (simp add: unsigned_of_nat take_bit_nat_eq_self)

lemma byte_of_nat_unat [simp]: "word_of_nat (unat (b :: byte)) = b"
  by simp

section \<open>Results\<close>

definition ebind :: "'e + 'a \<Rightarrow> ('a \<Rightarrow> 'e + 'b) \<Rightarrow> 'e + 'b" where
  "ebind r f = (case r of Inl e \<Rightarrow> Inl e | Inr x \<Rightarrow> f x)"

lemma ebind_Inl [simp]: "ebind (Inl e) f = Inl e"
  by (simp add: ebind_def)

lemma ebind_Inr [simp]: "ebind (Inr x) f = f x"
  by (simp add: ebind_def)

lemma ebind_eq_Inr: "ebind r f = Inr y \<longleftrightarrow> (\<exists>x. r = Inr x \<and> f x = Inr y)"
  by (cases r) auto

lemma ebind_eq_InrE:
  assumes "ebind r f = Inr y"
  obtains x where "r = Inr x" and "f x = Inr y"
  using assms by (auto simp: ebind_eq_Inr)

lemma if_Inl_eq_Inr [simp]:
  "((if c then Inl e else r) = Inr y) \<longleftrightarrow> (\<not> c \<and> r = Inr y)"
  by auto

definition is_ok :: "'e + 'a \<Rightarrow> bool" where
  "is_ok r = (case r of Inl _ \<Rightarrow> False | Inr _ \<Rightarrow> True)"

lemma is_ok_simps [simp]: "is_ok (Inr x)" "\<not> is_ok (Inl e)"
  by (simp_all add: is_ok_def)

lemma is_okE:
  assumes "is_ok r"
  obtains x where "r = Inr x"
  using assms by (cases r) auto

text \<open>\<open>Array.map\<close> with a callback that may throw: the first failure ends it.\<close>

fun emap :: "('a \<Rightarrow> 'e + 'b) \<Rightarrow> 'a list \<Rightarrow> 'e + 'b list" where
  "emap f [] = Inr []"
| "emap f (x # xs) = ebind (f x) (\<lambda>y. ebind (emap f xs) (\<lambda>ys. Inr (y # ys)))"

lemma emap_eq_Inr: "emap f xs = Inr ys \<longleftrightarrow> list_all2 (\<lambda>x y. f x = Inr y) xs ys"
proof (induction xs arbitrary: ys)
  case Nil
  show ?case by auto
next
  case (Cons x xs)
  show ?case by (cases ys) (auto simp: ebind_eq_Inr Cons.IH)
qed

lemma emap_ok: "(\<And>x. x \<in> set xs \<Longrightarrow> is_ok (f x)) \<Longrightarrow> is_ok (emap f xs)"
proof (induction xs)
  case Nil
  show ?case by simp
next
  case (Cons x xs)
  have "is_ok (f x)" and "is_ok (emap f xs)"
    using Cons by auto
  then show ?case by (auto elim!: is_okE)
qed

section \<open>Insertion-ordered maps and sets\<close>

text \<open>
  A JavaScript \<open>Map\<close> iterates in insertion order, and \<open>set\<close> on a key it already
  holds keeps the key's place. It is an association list with distinct keys.
\<close>

fun js_set :: "'k \<Rightarrow> 'v \<Rightarrow> ('k \<times> 'v) list \<Rightarrow> ('k \<times> 'v) list" where
  "js_set k v [] = [(k, v)]"
| "js_set k v ((k', v') # m) = (if k' = k then (k, v) # m else (k', v') # js_set k v m)"

definition js_get :: "('k \<times> 'v) list \<Rightarrow> 'k \<Rightarrow> 'v option" where
  "js_get m k = map_of m k"

lemma js_get_Nil [simp]: "js_get [] k = None"
  by (simp add: js_get_def)

lemma js_get_set [simp]: "js_get (js_set k v m) k' = (if k' = k then Some v else js_get m k')"
  by (induction m rule: js_set.induct) (auto simp: js_get_def)

lemma js_set_keys: "fst ` set (js_set k v m) = insert k (fst ` set m)"
  by (induction k v m rule: js_set.induct) auto

lemma js_set_distinct: "distinct (map fst m) \<Longrightarrow> distinct (map fst (js_set k v m))"
  by (induction k v m rule: js_set.induct) (auto simp: js_set_keys)

lemma js_get_mem: "distinct (map fst m) \<Longrightarrow> js_get m k = Some v \<longleftrightarrow> (k, v) \<in> set m"
  by (simp add: js_get_def)

lemma js_get_None: "js_get m k = None \<longleftrightarrow> k \<notin> fst ` set m"
  by (simp add: js_get_def map_of_eq_None_iff)

text \<open>A JavaScript \<open>Set\<close> is a list in insertion order without repetition.\<close>

definition js_add :: "'a \<Rightarrow> 'a list \<Rightarrow> 'a list" where
  "js_add x xs = (if x \<in> set xs then xs else xs @ [x])"

lemma set_js_add [simp]: "set (js_add x xs) = insert x (set xs)"
  by (auto simp: js_add_def)

lemma distinct_js_add [simp]: "distinct xs \<Longrightarrow> distinct (js_add x xs)"
  by (simp add: js_add_def)

definition js_set_of :: "'a list \<Rightarrow> 'a list" where
  "js_set_of xs = fold js_add xs []"

lemma set_fold_js_add: "set (fold js_add xs acc) = set xs \<union> set acc"
  by (induction xs arbitrary: acc) auto

lemma distinct_fold_js_add: "distinct acc \<Longrightarrow> distinct (fold js_add xs acc)"
  by (induction xs arbitrary: acc) auto

lemma set_js_set_of [simp]: "set (js_set_of xs) = set xs"
  by (simp add: js_set_of_def set_fold_js_add)

lemma distinct_js_set_of [simp]: "distinct (js_set_of xs)"
  by (simp add: js_set_of_def distinct_fold_js_add)

section \<open>Options\<close>

text \<open>The nullish-coalescing operator \<open>a ?? b\<close>.\<close>

definition nullish :: "'a option \<Rightarrow> 'a \<Rightarrow> 'a" where
  "nullish a b = (case a of None \<Rightarrow> b | Some x \<Rightarrow> x)"

lemma nullish_simps [simp]: "nullish None b = b" "nullish (Some x) b = x"
  by (simp_all add: nullish_def)

section \<open>Integer division of bigints\<close>

text \<open>
  \<open>/\<close> on JavaScript bigints truncates toward zero, unlike \<open>div\<close> on \<open>int\<close>.
\<close>

definition bdiv :: "int \<Rightarrow> int \<Rightarrow> int" where
  "bdiv a b = sgn a * sgn b * (\<bar>a\<bar> div \<bar>b\<bar>)"

lemma bdiv_nonneg: "0 \<le> a \<Longrightarrow> 0 \<le> b \<Longrightarrow> bdiv a b = a div b"
  by (cases "a = 0"; cases "b = 0") (simp_all add: bdiv_def)

lemma bdiv_neg: "0 \<le> a \<Longrightarrow> 0 < b \<Longrightarrow> bdiv (- a) b = - (a div b)"
  by (cases "a = 0") (simp_all add: bdiv_def sgn_if)

text \<open>\<open>(x + 999_999n) / 1_000_000n\<close> and its kin: a ceiling on nonnegative amounts.\<close>

lemma ceil_div_bounds:
  assumes "0 \<le> (a::int)" and "0 < d"
  shows "a \<le> ((a + (d - 1)) div d) * d" and "((a + (d - 1)) div d) * d < a + d"
proof -
  let ?q = "(a + (d - 1)) div d"
  have eq: "?q * d = (a + (d - 1)) - (a + (d - 1)) mod d"
    by (simp add: minus_mod_eq_div_mult)
  have "0 \<le> (a + (d - 1)) mod d" and "(a + (d - 1)) mod d < d"
    using assms(2) by (simp_all)
  then show "a \<le> ?q * d" and "?q * d < a + d"
    using eq by linarith+
qed

section \<open>Bigints as numbers\<close>

text \<open>
  \<open>Number(n)\<close> of a bigint: the nearest double, ties to even. It keeps 53 significant bits, so it
  is the identity up to \<open>2 ^ 53\<close>. (Above \<open>2 ^ 1024\<close> JavaScript gives infinity, which no
  amount here reaches.)
\<close>

fun bit_length :: "nat \<Rightarrow> nat" where
  "bit_length n = (if n = 0 then 0 else Suc (bit_length (n div 2)))"

declare bit_length.simps [simp del]

definition js_number :: "int \<Rightarrow> int" where
  "js_number n =
    (let a = nat \<bar>n\<bar>; k = bit_length a - 53; q = a div 2 ^ k; r = a mod 2 ^ k;
         up = (2 * r > 2 ^ k \<or> (2 * r = 2 ^ k \<and> odd q))
     in sgn n * int ((if up then q + 1 else q) * 2 ^ k))"

lemma bit_length_le: "n < 2 ^ k \<Longrightarrow> bit_length n \<le> k"
proof (induction k arbitrary: n)
  case 0
  then show ?case by (simp add: bit_length.simps)
next
  case (Suc k)
  have "n div 2 < 2 ^ k" using Suc.prems by (simp add: div_less_iff_less_mult mult.commute)
  then show ?case using Suc.IH by (subst bit_length.simps) simp
qed

lemma js_number_exact: "\<bar>n\<bar> < 2 ^ 53 \<Longrightarrow> js_number n = n"
proof -
  assume "\<bar>n\<bar> < 2 ^ 53"
  then have "nat \<bar>n\<bar> < 2 ^ 53" by (simp add: nat_less_iff)
  then have "bit_length (nat \<bar>n\<bar>) - 53 = 0" using bit_length_le by simp
  then show ?thesis by (simp add: js_number_def Let_def sgn_mult_abs)
qed

section \<open>Searching and stable sorting\<close>

lemma find_SomeD: "find P xs = Some x \<Longrightarrow> x \<in> set xs \<and> P x"
  by (auto simp: find_Some_iff)

lemma sorted_sort_key_map: "sorted (map f (sort_key f xs))"
  by simp

lemma distinct_map_sort_key: "distinct (map f (sort_key g xs)) \<longleftrightarrow> distinct (map f xs)"
  by (rule mset_eq_imp_distinct_iff) simp

lemma sort_key_filter_stable: "filter (\<lambda>x. f x = k) (sort_key f xs) = filter (\<lambda>x. f x = k) xs"
  by (rule sort_key_stable)

lemma sum_list_sort_key [simp]: "sum_list (map f (sort_key k xs)) = sum_list (map (f :: 'a \<Rightarrow> int) xs)"
  by (metis mset_map mset_sort sum_mset_sum_list)

lemma map_sort_key: "map f (sort_key (\<lambda>x. g (f x)) xs) = sort_key g (map f xs)"
proof (induction xs)
  case (Cons a xs)
  have "map f (insort_key (\<lambda>x. g (f x)) a ys) = insort_key g (f a) (map f ys)" for ys
    by (induction ys) simp_all
  then show ?case using Cons by simp
qed simp

text \<open>A sorted list splits at a key.\<close>

lemma sort_key_split:
  "sort_key f xs = sort_key f (filter (\<lambda>x. f x \<le> t) xs) @ sort_key f (filter (\<lambda>x. \<not> f x \<le> (t :: int)) xs)"
proof (induction xs)
  case (Cons a xs)
  have low: "f a \<le> t \<Longrightarrow> insort_key f a (us @ vs) = insort_key f a us @ vs" if "\<forall>v \<in> set vs. t < f v" for us vs
    using that by (induction us) (auto, cases vs, auto)
  have high: "t < f a \<Longrightarrow> insort_key f a (us @ vs) = us @ insort_key f a vs" if "\<forall>u \<in> set us. f u \<le> t" for us vs
    using that by (induction us) auto
  show ?case
    using low [of "sort_key f (filter (\<lambda>x. \<not> f x \<le> t) xs)" "sort_key f (filter (\<lambda>x. f x \<le> t) xs)"]
      high [of "sort_key f (filter (\<lambda>x. f x \<le> t) xs)" "sort_key f (filter (\<lambda>x. \<not> f x \<le> t) xs)"] Cons
    by auto
qed simp

section \<open>Lengths of concatenations\<close>

lemma length_le_concat: "x \<in> set xs \<Longrightarrow> length (f x) \<le> length (concat (map f xs))"
  by (induction xs) auto

lemma length_concat_mult: "(\<forall>x \<in> set xs. length (f x) = n) \<Longrightarrow> length (concat (map f xs)) = n * length xs"
  by (induction xs) auto

lemma list_all2_same_map: "list_all2 (\<lambda>x y. P x \<and> y = f x) xs ys \<longleftrightarrow> (\<forall>x \<in> set xs. P x) \<and> ys = map f xs"
  by (induction xs arbitrary: ys) (auto simp: list_all2_Cons1)


section \<open>Sweeps over keyed rows\<close>

text \<open>
  A store whose rows have a key, and a step that rewrites the one row it is given. A sweep
  over some of the rows, read before it starts, then rewrites exactly those.
\<close>

locale row_sweep =
  fixes rows :: "'d \<Rightarrow> 'r list" and key :: "'r \<Rightarrow> 'k" and after :: "'r \<Rightarrow> 'r" and step :: "'r \<Rightarrow> 'd \<Rightarrow> 'd"
  assumes step_rows: "\<forall>r \<in> set (rows d). key r = key a \<longrightarrow> r = a \<Longrightarrow>
      rows (step a d) = map (\<lambda>r. if r = a then after r else r) (rows d)"
    and key_after: "key (after r) = key r"
begin

lemma sweep:
  "distinct (map key as) \<Longrightarrow> \<forall>a \<in> set as. \<forall>r \<in> set (rows d). key r = key a \<longrightarrow> r = a \<Longrightarrow>
   rows (fold step as d) = map (\<lambda>r. if r \<in> set as then after r else r) (rows d)"
proof (induction as arbitrary: d)
  case Nil
  then show ?case by simp
next
  case (Cons a as)
  have one: "rows (step a d) = map (\<lambda>r. if r = a then after r else r) (rows d)"
    using Cons.prems(2) by (intro step_rows) simp
  have fresh: "key a \<notin> key ` set as" using Cons.prems(1) by simp
  have "rows (fold step as (step a d)) = map (\<lambda>r. if r \<in> set as then after r else r) (rows (step a d))"
    using Cons.prems fresh by (intro Cons.IH) (auto simp: one key_after)
  moreover have "after a \<notin> set as" "a \<notin> set as" using fresh key_after by (metis imageI)+
  ultimately show ?case by (simp add: one)
qed

end

text \<open>\<open>split\<close> at line feeds.\<close>

fun split_lines :: "string \<Rightarrow> string list" where
  "split_lines [] = [[]]"
| "split_lines (c # s) =
    (if c = CHR 0x0A then [] # split_lines s
     else case split_lines s of [] \<Rightarrow> [[c]] | l # ls \<Rightarrow> (c # l) # ls)"

end
