(* ===== verification/Base58.thy ===== *)
theory Base58
  imports Prelude
begin

text \<open>
  \<open>packages/solana/src/base58.ts\<close>: the Base58 codec. Both directions are the same
  schoolbook base conversion: a little-endian digit array is multiplied by the source
  base and the next source digit is added with carries (\<open>dec_push\<close>, \<open>enc_push\<close>).
  Leading zero digits are carried over one for one. The theory shows that each
  direction inverts the other, that only the alphabet is accepted, and that the
  intermediate numbers stay far inside a 32-bit integer.
\<close>

section \<open>The alphabet\<close>

definition ALPHABET :: string where
  "ALPHABET = ''123456789ABCDEFGHJKLMNPQRSTUVWXYZabcdefghijkmnopqrstuvwxyz''"

definition charCode :: "char \<Rightarrow> nat" where
  "charCode c = of_char c"

text \<open>
  \<open>new Int8Array(128).fill(-1)\<close>, then \<open>m[ALPHABET.charCodeAt(i)] = i\<close> for every index.
\<close>

definition DECODE_MAP :: "int list" where
  "DECODE_MAP = fold (\<lambda>i m. m[charCode (ALPHABET ! i) := int i]) [0..<length ALPHABET] (replicate 128 (- 1))"

definition decode_value :: "char \<Rightarrow> int" where
  "decode_value c = (if charCode c < 128 then DECODE_MAP ! charCode c else - 1)"

datatype base58_error = TooLong nat nat | InvalidCharacter nat | NotAPubkey string

definition BASE58_DEFAULT_MAX_LENGTH :: nat where
  "BASE58_DEFAULT_MAX_LENGTH = 128"

definition BASE58_INSTRUCTION_DATA_MAX_LENGTH :: nat where
  "BASE58_INSTRUCTION_DATA_MAX_LENGTH = 2048"

section \<open>Decoding\<close>

text \<open>\<open>while (carry > 0) { bytes.push(carry & 0xff); carry >>= 8; }\<close>\<close>

fun dec_carry :: "nat \<Rightarrow> nat list" where
  "dec_carry carry = (if carry > 0 then (carry mod 256) # dec_carry (carry div 256) else [])"

text \<open>The inner loop over \<open>bytes\<close> for one character, then the carry loop.\<close>

fun dec_push :: "nat \<Rightarrow> nat list \<Rightarrow> nat list" where
  "dec_push carry [] = dec_carry carry"
| "dec_push carry (b # bs) =
     (let c = carry + b * 58 in (c mod 256) # dec_push (c div 256) bs)"

fun decode_loop :: "nat \<Rightarrow> string \<Rightarrow> nat list \<Rightarrow> base58_error + nat list" where
  "decode_loop i [] bs = Inr bs"
| "decode_loop i (c # cs) bs =
     (let v = decode_value c in
      if v < 0 then Inl (InvalidCharacter i)
      else decode_loop (Suc i) cs (dec_push (nat v) bs))"

definition leading_ones :: "string \<Rightarrow> nat" where
  "leading_ones s = length (takeWhile (\<lambda>c. c = CHR ''1'') s)"

definition base58Decode_max :: "nat \<Rightarrow> string \<Rightarrow> base58_error + bytes" where
  "base58Decode_max maxLength input =
     (if length input = 0 then Inr []
      else if length input > maxLength then Inl (TooLong (length input) maxLength)
      else ebind (decode_loop 0 input []) (\<lambda>bs.
        Inr (map word_of_nat (rev (bs @ replicate (leading_ones input) 0)))))"

definition base58Decode :: "string \<Rightarrow> base58_error + bytes" where
  "base58Decode input = base58Decode_max BASE58_DEFAULT_MAX_LENGTH input"

section \<open>Encoding\<close>

text \<open>\<open>while (carry > 0) { digits.push(carry % 58); carry = (carry / 58) | 0; }\<close>\<close>

fun enc_carry :: "nat \<Rightarrow> nat list" where
  "enc_carry carry = (if carry > 0 then (carry mod 58) # enc_carry (carry div 58) else [])"

fun enc_push :: "nat \<Rightarrow> nat list \<Rightarrow> nat list" where
  "enc_push carry [] = enc_carry carry"
| "enc_push carry (d # ds) =
     (let c = carry + push_bit 8 d in (c mod 58) # enc_push (c div 58) ds)"

definition encode_digits :: "bytes \<Rightarrow> nat list" where
  "encode_digits bs = fold (\<lambda>b ds. enc_push (unat b) ds) bs []"

definition leading_zeros :: "bytes \<Rightarrow> nat" where
  "leading_zeros bs = length (takeWhile (\<lambda>b. b = 0) bs)"

definition base58Encode :: "bytes \<Rightarrow> string" where
  "base58Encode bs =
     (if length bs = 0 then ''''
      else replicate (leading_zeros bs) (CHR ''1'') @ map (\<lambda>d. ALPHABET ! d) (rev (encode_digits bs)))"

section \<open>Public keys\<close>

definition isValidPubkey :: "string \<Rightarrow> bool" where
  "isValidPubkey input =
     (if length input < 32 \<or> length input > 44 then False
      else case base58Decode input of Inl _ \<Rightarrow> False | Inr bs \<Rightarrow> length bs = 32)"

definition assertPubkey :: "string \<Rightarrow> string \<Rightarrow> base58_error + string" where
  "assertPubkey input label = (if isValidPubkey input then Inr input else Inl (NotAPubkey label))"

declare dec_carry.simps [simp del] enc_carry.simps [simp del]


section \<open>Positional notation\<close>

text \<open>Little-endian value of a digit list, and lists with no leading zero.\<close>

fun radix_val :: "nat \<Rightarrow> nat list \<Rightarrow> nat" where
  "radix_val b [] = 0"
| "radix_val b (d # ds) = d + b * radix_val b ds"

definition canonical :: "nat \<Rightarrow> nat list \<Rightarrow> bool" where
  "canonical b ds \<longleftrightarrow> (\<forall>d \<in> set ds. d < b) \<and> (ds \<noteq> [] \<longrightarrow> last ds \<noteq> 0)"

lemma canonical_Nil [simp]: "canonical b []"
  by (simp add: canonical_def)

lemma canonical_Cons: "canonical b (d # ds) \<longleftrightarrow> d < b \<and> canonical b ds \<and> (ds = [] \<longrightarrow> d \<noteq> 0)"
  by (auto simp: canonical_def)

lemma radix_val_append: "radix_val b (ds @ es) = radix_val b ds + b ^ length ds * radix_val b es"
  by (induction ds) (auto simp: algebra_simps)

lemma radix_val_zeros [simp]: "radix_val b (replicate n 0) = 0"
  by (induction n) auto

lemma canonical_pos: "canonical b ds \<Longrightarrow> ds \<noteq> [] \<Longrightarrow> 0 < b \<Longrightarrow> 0 < radix_val b ds"
proof (induction ds)
  case Nil
  then show ?case by simp
next
  case (Cons d ds)
  then show ?case by (cases "ds = []") (auto simp: canonical_Cons)
qed

lemma canonical_unique:
  assumes "0 < b"
  shows "canonical b ds \<Longrightarrow> canonical b es \<Longrightarrow> radix_val b ds = radix_val b es \<Longrightarrow> ds = es"
proof (induction ds arbitrary: es)
  case Nil
  then show ?case using canonical_pos [of b es] assms by force
next
  case (Cons d ds)
  then obtain e es' where es: "es = e # es'"
    using canonical_pos [of b "d # ds"] assms by (cases es) auto
  have d: "d < b" and e: "e < b" and cds: "canonical b ds" and ces: "canonical b es'"
    using Cons.prems es by (auto simp: canonical_Cons)
  have eq: "d + b * radix_val b ds = e + b * radix_val b es'"
    using Cons.prems(3) es by simp
  have "d = (d + b * radix_val b ds) mod b" and "e = (e + b * radix_val b es') mod b"
    using d e by simp_all
  with eq have "d = e" by simp
  with eq assms have "radix_val b ds = radix_val b es'" by simp
  with Cons.IH cds ces \<open>d = e\<close> es show ?case by blast
qed

text \<open>
  The contract of one step of the conversion loop: multiply by the source base and
  add the next digit, keeping the target digits canonical.
\<close>

locale radix_push =
  fixes b m :: nat and push :: "nat \<Rightarrow> nat list \<Rightarrow> nat list"
  assumes base_pos: "0 < b"
    and push_val: "radix_val b (push c ds) = c + m * radix_val b ds"
    and push_canonical: "canonical b ds \<Longrightarrow> canonical b (push c ds)"
begin

lemma fold_val: "radix_val b (fold push xs acc) = radix_val m (rev xs) + m ^ length xs * radix_val b acc"
  by (induction xs arbitrary: acc) (auto simp: push_val radix_val_append algebra_simps)

lemma conv_val: "radix_val b (fold push xs []) = radix_val m (rev xs)"
  by (simp add: fold_val)

lemma fold_canonical: "canonical b acc \<Longrightarrow> canonical b (fold push xs acc)"
  by (induction xs arbitrary: acc) (auto simp: push_canonical)

lemma conv_canonical: "canonical b (fold push xs [])"
  by (rule fold_canonical) simp

end

lemma canonical_rev_dropWhile:
  assumes "\<forall>x \<in> set xs. x < m"
  shows "canonical m (rev (dropWhile (\<lambda>x. x = 0) xs))"
proof (cases "dropWhile (\<lambda>x. x = 0) xs")
  case Nil
  then show ?thesis by (simp only: rev.simps canonical_Nil)
next
  case (Cons y ys)
  then have "y \<noteq> 0" using hd_dropWhile [of "\<lambda>x. x = 0" xs] by simp
  moreover have "set (y # ys) \<subseteq> set xs"
    using Cons set_dropWhileD by (metis subsetI)
  ultimately show ?thesis using assms Cons by (auto simp: canonical_def)
qed

lemma radix_val_rev_dropWhile:
  "radix_val m (rev (dropWhile (\<lambda>x. x = 0) xs)) = radix_val m (rev xs)"
  by (induction xs) (auto simp: radix_val_append)

locale radix_pair = fwd: radix_push b m push + bwd: radix_push m b push'
  for b m :: nat and push push' :: "nat \<Rightarrow> nat list \<Rightarrow> nat list"
begin

lemma conv_back:
  assumes "\<forall>x \<in> set xs. x < m"
  shows "rev (fold push' (rev (fold push xs [])) []) = dropWhile (\<lambda>x. x = 0) xs"
proof -
  have "radix_val m (fold push' (rev (fold push xs [])) []) = radix_val m (rev (dropWhile (\<lambda>x. x = 0) xs))"
    by (simp add: bwd.conv_val fwd.conv_val radix_val_rev_dropWhile)
  then have "fold push' (rev (fold push xs [])) [] = rev (dropWhile (\<lambda>x. x = 0) xs)"
    by (intro canonical_unique [OF bwd.base_pos] bwd.conv_canonical canonical_rev_dropWhile [OF assms])
  then show ?thesis by simp
qed

end

lemma dec_carry_val: "radix_val 256 (dec_carry c) = c"
  by (induction c rule: dec_carry.induct) (subst dec_carry.simps, auto)

lemma dec_carry_canonical: "canonical 256 (dec_carry c)"
proof (induction c rule: dec_carry.induct)
  case (1 c)
  show ?case
  proof (cases "0 < c")
    case True
    have "c mod 256 \<noteq> 0" if "dec_carry (c div 256) = []"
      using that True dec_carry_val [of "c div 256"] by auto
    with True "1.IH" show ?thesis by (subst dec_carry.simps) (auto simp: canonical_Cons)
  next
    case False
    then show ?thesis by (subst dec_carry.simps) simp
  qed
qed

lemma enc_carry_val: "radix_val 58 (enc_carry c) = c"
  by (induction c rule: enc_carry.induct) (subst enc_carry.simps, auto)

lemma enc_carry_canonical: "canonical 58 (enc_carry c)"
proof (induction c rule: enc_carry.induct)
  case (1 c)
  show ?case
  proof (cases "0 < c")
    case True
    have "c mod 58 \<noteq> 0" if "enc_carry (c div 58) = []"
      using that True enc_carry_val [of "c div 58"] by auto
    with True "1.IH" show ?thesis by (subst enc_carry.simps) (auto simp: canonical_Cons)
  next
    case False
    then show ?thesis by (subst enc_carry.simps) simp
  qed
qed

lemma dec_push_val: "radix_val 256 (dec_push c ds) = c + 58 * radix_val 256 ds"
proof (induction c ds rule: dec_push.induct)
  case (1 c)
  show ?case by (simp add: dec_carry_val)
next
  case (2 c b bs)
  have "(c + b * 58) mod 256 + 256 * ((c + b * 58) div 256) = c + b * 58" by simp
  with 2 show ?case by (simp add: Let_def algebra_simps)
qed

lemma enc_push_val: "radix_val 58 (enc_push c ds) = c + 256 * radix_val 58 ds"
proof (induction c ds rule: enc_push.induct)
  case (1 c)
  show ?case by (simp add: enc_carry_val)
next
  case (2 c d ds)
  have "(c + d * 256) mod 58 + 58 * ((c + d * 256) div 58) = c + d * 256" by simp
  with 2 show ?case by (simp add: Let_def push_bit_eq_mult algebra_simps)
qed

lemma canonical_val_0: "canonical b ds \<Longrightarrow> 0 < b \<Longrightarrow> radix_val b ds = 0 \<Longrightarrow> ds = []"
  using canonical_pos [of b ds] by auto

lemma dec_push_canonical: "canonical 256 ds \<Longrightarrow> canonical 256 (dec_push c ds)"
proof (induction c ds rule: dec_push.induct)
  case (1 c)
  show ?case by (simp add: dec_carry_canonical)
next
  case (2 c b bs)
  let ?c = "c + b * 58"
  have "?c mod 256 \<noteq> 0" if e: "dec_push (?c div 256) bs = []"
  proof -
    from e have "?c div 256 + 58 * radix_val 256 bs = 0"
      using dec_push_val [of "?c div 256" bs] by simp
    then have "?c div 256 = 0" and "bs = []"
      using 2 by (auto simp: canonical_Cons intro: canonical_val_0)
    with "2.prems" show ?thesis by (auto simp: canonical_Cons)
  qed
  with 2 show ?case by (auto simp: Let_def canonical_Cons)
qed

lemma enc_push_canonical: "canonical 58 ds \<Longrightarrow> canonical 58 (enc_push c ds)"
proof (induction c ds rule: enc_push.induct)
  case (1 c)
  show ?case by (simp add: enc_carry_canonical)
next
  case (2 c d ds)
  let ?c = "c + push_bit 8 d"
  have "?c mod 58 \<noteq> 0" if e: "enc_push (?c div 58) ds = []"
  proof -
    from e have "?c div 58 + 256 * radix_val 58 ds = 0"
      using enc_push_val [of "?c div 58" ds] by simp
    then have "?c div 58 = 0" and "ds = []"
      using 2 by (auto simp: canonical_Cons intro: canonical_val_0)
    with "2.prems" show ?thesis by (auto simp: canonical_Cons push_bit_eq_mult)
  qed
  with 2 show ?case by (auto simp: Let_def canonical_Cons)
qed

interpretation dec58: radix_push 256 58 dec_push
  by unfold_locales (simp_all add: dec_push_val dec_push_canonical)

interpretation enc58: radix_push 58 256 enc_push
  by unfold_locales (simp_all add: enc_push_val enc_push_canonical)

interpretation dec_then_enc: radix_pair 256 58 dec_push enc_push
  by unfold_locales

interpretation enc_then_dec: radix_pair 58 256 enc_push dec_push
  by unfold_locales

section \<open>The alphabet table\<close>

lemma length_ALPHABET [simp]: "length ALPHABET = 58"
  by (simp add: ALPHABET_def)

lemma distinct_ALPHABET: "distinct ALPHABET"
  by (simp add: ALPHABET_def)

lemma ALPHABET_ascii: "d < 58 \<Longrightarrow> charCode (ALPHABET ! d) < 128"
proof -
  have "\<forall>c \<in> set ALPHABET. charCode c < 128"
    by (simp add: ALPHABET_def charCode_def)
  then show "d < 58 \<Longrightarrow> charCode (ALPHABET ! d) < 128" by simp
qed

lemma ALPHABET_inj: "d < 58 \<Longrightarrow> e < 58 \<Longrightarrow> ALPHABET ! d = ALPHABET ! e \<longleftrightarrow> d = e"
  by (simp add: nth_eq_iff_index_eq distinct_ALPHABET)

lemma charCode_inj: "charCode c = charCode c' \<longleftrightarrow> c = c'"
  by (simp add: charCode_def)

abbreviation table :: "nat \<Rightarrow> int list" where
  "table n \<equiv> fold (\<lambda>i m. m[charCode (ALPHABET ! i) := int i]) [0..<n] (replicate 128 (- 1))"

lemma length_table: "length (table n) = 128"
  by (induction n) simp_all

lemma table_hit: "j < n \<Longrightarrow> n \<le> 58 \<Longrightarrow> table n ! charCode (ALPHABET ! j) = int j"
proof (induction n)
  case 0
  then show ?case by simp
next
  case (Suc n)
  show ?case
  proof (cases "j = n")
    case True
    with Suc.prems ALPHABET_ascii [of n] length_table [of n] show ?thesis by simp
  next
    case False
    with Suc.prems have "j < n" and "charCode (ALPHABET ! n) \<noteq> charCode (ALPHABET ! j)"
      using ALPHABET_inj [of n j] by (auto simp: charCode_inj)
    with Suc show ?thesis by (simp add: nth_list_update_neq)
  qed
qed

lemma table_miss: "k < 128 \<Longrightarrow> (\<forall>j < n. charCode (ALPHABET ! j) \<noteq> k) \<Longrightarrow> table n ! k = - 1"
  by (induction n) (simp_all add: nth_list_update_neq)

lemma decode_value_ALPHABET: "d < 58 \<Longrightarrow> decode_value (ALPHABET ! d) = int d"
  by (simp add: decode_value_def ALPHABET_ascii DECODE_MAP_def table_hit)

lemma decode_value_nonneg:
  assumes "0 \<le> decode_value c"
  shows "nat (decode_value c) < 58" and "ALPHABET ! nat (decode_value c) = c"
proof -
  have "charCode c < 128" and "table 58 ! charCode c \<noteq> - 1"
    using assms by (auto simp: decode_value_def DECODE_MAP_def split: if_splits)
  then obtain d where "d < 58" and "charCode (ALPHABET ! d) = charCode c"
    using table_miss [of "charCode c" 58] by auto
  then have "c = ALPHABET ! d" by (simp add: charCode_inj)
  then show "nat (decode_value c) < 58" and "ALPHABET ! nat (decode_value c) = c"
    using decode_value_ALPHABET [OF \<open>d < 58\<close>] \<open>d < 58\<close> by simp_all
qed

lemma ALPHABET_0: "ALPHABET ! 0 = CHR ''1''"
  by (simp add: ALPHABET_def)

section \<open>Round trips\<close>

lemma decode_loop_alphabet:
  "(\<forall>d \<in> set ds. d < 58) \<Longrightarrow>
   decode_loop i (map (\<lambda>d. ALPHABET ! d) ds) acc = Inr (fold dec_push ds acc)"
  by (induction ds arbitrary: i acc) (auto simp: decode_value_ALPHABET Let_def)

lemma decode_loop_Inr:
  "decode_loop i s acc = Inr bs \<Longrightarrow>
   \<exists>ds. s = map (\<lambda>d. ALPHABET ! d) ds \<and> (\<forall>d \<in> set ds. d < 58) \<and> bs = fold dec_push ds acc"
proof (induction s arbitrary: i acc)
  case Nil
  then show ?case by auto
next
  case (Cons c cs)
  let ?d = "nat (decode_value c)"
  have nn: "0 \<le> decode_value c"
    and rest: "decode_loop (Suc i) cs (dec_push ?d acc) = Inr bs"
    using Cons.prems by (auto simp: Let_def split: if_splits)
  from Cons.IH [OF rest] obtain ds where "cs = map (\<lambda>d. ALPHABET ! d) ds"
    and "\<forall>d \<in> set ds. d < 58" and "bs = fold dec_push ds (dec_push ?d acc)" by blast
  with decode_value_nonneg [OF nn] show ?case
    by (intro exI [of _ "?d # ds"]) simp
qed

lemma leading_ones_alphabet:
  "(\<forall>d \<in> set ds. d < 58) \<Longrightarrow>
   leading_ones (map (\<lambda>d. ALPHABET ! d) ds) = length (takeWhile (\<lambda>d. d = 0) ds)"
  unfolding leading_ones_def
  by (induction ds) (auto simp: ALPHABET_inj [of _ 0, unfolded ALPHABET_0])

lemma encode_digits_conv: "encode_digits bs = fold enc_push (map unat bs) []"
proof -
  have "fold (\<lambda>b ds. enc_push (unat b) ds) bs acc = fold enc_push (map unat bs) acc" for acc
    by (induction bs arbitrary: acc) auto
  then show ?thesis by (simp add: encode_digits_def)
qed

lemma takeWhile_zero_replicate:
  "takeWhile (\<lambda>x. x = 0) xs = replicate (length (takeWhile (\<lambda>x. x = 0) xs)) 0"
  by (induction xs) auto

lemma leading_zeros_unat: "leading_zeros bs = length (takeWhile (\<lambda>x. x = 0) (map unat bs))"
  by (induction bs) (auto simp: leading_zeros_def unat_eq_0)

lemma base58Encode_alphabet:
  "base58Encode bs = map (\<lambda>d. ALPHABET ! d) (replicate (leading_zeros bs) 0 @ rev (encode_digits bs))"
  by (auto simp: base58Encode_def ALPHABET_0 leading_zeros_def encode_digits_def)

lemma encode_digits_bound: "\<forall>d \<in> set (encode_digits bs). d < 58"
  using enc58.conv_canonical [of "map unat bs"] by (simp add: encode_digits_conv canonical_def)

lemma takeWhile_rev_canonical: "canonical b ds \<Longrightarrow> takeWhile (\<lambda>x. x = 0) (rev ds) = []"
  by (cases ds rule: rev_cases) (auto simp: canonical_def)

lemma fold_dec_push_zeros: "fold dec_push (replicate n 0 @ ds) [] = fold dec_push ds []"
  by (induction n) (simp_all add: dec_carry.simps)

lemma fold_enc_push_zeros: "fold enc_push (replicate n 0 @ ds) [] = fold enc_push ds []"
  by (induction n) (simp_all add: enc_carry.simps)

lemma conv_dropWhile_zero:
  "fold enc_push (dropWhile (\<lambda>x. x = 0) xs) [] = fold enc_push xs []"
proof -
  have "fold enc_push xs [] = fold enc_push (takeWhile (\<lambda>x. x = 0) xs @ dropWhile (\<lambda>x. x = 0) xs) []"
    by simp
  also have "\<dots> = fold enc_push (dropWhile (\<lambda>x. x = 0) xs) []"
    by (subst takeWhile_zero_replicate) (rule fold_enc_push_zeros)
  finally show ?thesis by simp
qed

lemma takeWhile_replicate_canonical:
  "canonical b ds \<Longrightarrow> takeWhile (\<lambda>x. x = 0) (replicate n 0 @ rev ds) = replicate n 0"
  by (induction n) (auto simp: takeWhile_rev_canonical)

lemma dropWhile_replicate_canonical:
  "canonical b ds \<Longrightarrow> dropWhile (\<lambda>x. x = 0) (replicate n 0 @ rev ds) = rev ds"
  by (induction n) (cases ds rule: rev_cases, auto simp: canonical_def)

lemma base58Decode_encode_max:
  assumes "length (base58Encode bs) \<le> maxLength"
  shows "base58Decode_max maxLength (base58Encode bs) = Inr bs"
proof (cases "bs = []")
  case True
  then show ?thesis by (simp add: base58Encode_def base58Decode_max_def)
next
  case False
  let ?xs = "map unat bs" and ?ds = "replicate (leading_zeros bs) 0 @ rev (encode_digits bs)"
  have can: "canonical 58 (encode_digits bs)"
    by (simp add: encode_digits_conv enc58.conv_canonical)
  have bound: "\<forall>d \<in> set ?ds. d < 58"
    using encode_digits_bound by auto
  have loop: "decode_loop 0 (base58Encode bs) [] = Inr (fold dec_push ?ds [])"
    unfolding base58Encode_alphabet by (rule decode_loop_alphabet [OF bound])
  have bytes: "rev (fold dec_push ?ds []) = dropWhile (\<lambda>x. x = 0) ?xs"
    by (simp only: fold_dec_push_zeros encode_digits_conv)
      (rule enc_then_dec.conv_back, auto)
  have ones: "leading_ones (base58Encode bs) = leading_zeros bs"
    unfolding base58Encode_alphabet leading_ones_alphabet [OF bound]
    by (simp add: takeWhile_replicate_canonical [OF can])
  have all: "replicate (leading_zeros bs) 0 @ dropWhile (\<lambda>x. x = 0) ?xs = ?xs"
    by (simp add: leading_zeros_unat takeWhile_zero_replicate [symmetric])
  have ne: "base58Encode bs \<noteq> []"
  proof
    assume "base58Encode bs = []"
    with loop bytes ones all have "?xs = []" by (simp add: leading_ones_def)
    with False show False by simp
  qed
  have "map word_of_nat (rev (fold dec_push ?ds [] @ replicate (leading_zeros bs) 0)) =
      (map word_of_nat (replicate (leading_zeros bs) 0 @ dropWhile (\<lambda>x. x = 0) ?xs) :: bytes)"
    by (simp only: rev_append rev_replicate bytes)
  also have "\<dots> = bs"
    by (simp only: all map_map) (simp add: comp_def)
  finally show ?thesis
    using assms ne loop ones by (simp add: base58Decode_max_def)
qed

lemma base58Encode_decode_max:
  assumes "base58Decode_max maxLength s = Inr bs"
  shows "base58Encode bs = s"
proof (cases "s = []")
  case True
  with assms show ?thesis by (simp add: base58Decode_max_def base58Encode_def)
next
  case False
  from assms False obtain acc where loop: "decode_loop 0 s [] = Inr acc"
    and bs: "bs = map word_of_nat (rev (acc @ replicate (leading_ones s) 0))"
    by (auto simp: base58Decode_max_def ebind_eq_Inr split: if_splits)
  from decode_loop_Inr [OF loop] obtain ds where s: "s = map (\<lambda>d. ALPHABET ! d) ds"
    and ds: "\<forall>d \<in> set ds. d < 58" and acc: "acc = fold dec_push ds []" by blast
  let ?n = "leading_ones s"
  have n: "?n = length (takeWhile (\<lambda>d. d = 0) ds)"
    unfolding s by (rule leading_ones_alphabet [OF ds])
  have can: "canonical 256 acc"
    unfolding acc by (rule dec58.conv_canonical)
  have un: "map unat bs = replicate ?n 0 @ rev acc"
    using can by (auto simp: bs canonical_def intro!: map_idI)
  have digits: "rev (encode_digits bs) = dropWhile (\<lambda>d. d = 0) ds"
    by (simp only: encode_digits_conv un fold_enc_push_zeros acc)
      (rule dec_then_enc.conv_back [OF ds])
  have zeros: "leading_zeros bs = ?n"
    by (simp add: leading_zeros_unat un takeWhile_replicate_canonical [OF can])
  have "replicate ?n 0 @ dropWhile (\<lambda>d. d = 0) ds = ds"
    by (simp add: n takeWhile_zero_replicate [symmetric])
  then show ?thesis
    by (simp add: base58Encode_alphabet digits zeros s)
qed

section \<open>Lengths\<close>

lemma canonical_val_bounds:
  "canonical b ds \<Longrightarrow> 0 < b \<Longrightarrow> radix_val b ds < b ^ length ds"
proof (induction ds)
  case Nil
  then show ?case by simp
next
  case (Cons d ds)
  then have "d < b" and "radix_val b ds < b ^ length ds" by (auto simp: canonical_Cons)
  then have "d + b * radix_val b ds < b + b * radix_val b ds" by simp
  also have "\<dots> = b * Suc (radix_val b ds)" by simp
  also have "\<dots> \<le> b * b ^ length ds"
    using \<open>radix_val b ds < _\<close> by (intro mult_le_mono2) simp
  finally show ?case by simp
qed

lemma canonical_val_lower:
  "canonical b ds \<Longrightarrow> ds \<noteq> [] \<Longrightarrow> 0 < b \<Longrightarrow> b ^ (length ds - 1) \<le> radix_val b ds"
proof (induction ds)
  case Nil
  then show ?case by simp
next
  case (Cons d ds)
  show ?case
  proof (cases "ds = []")
    case True
    with Cons.prems show ?thesis by (auto simp: canonical_Cons)
  next
    case False
    with Cons have "b ^ (length ds - 1) \<le> radix_val b ds" by (simp add: canonical_Cons)
    then have "b * b ^ (length ds - 1) \<le> b * radix_val b ds" by simp
    then have "b ^ length ds \<le> b * radix_val b ds"
      using False by (cases ds) auto
    then show ?thesis by simp
  qed
qed

lemma encode_digits_val: "radix_val 58 (encode_digits bs) = radix_val 256 (rev (map unat bs))"
  by (simp add: encode_digits_conv enc58.conv_val)

lemma encode_digits_canonical: "canonical 58 (encode_digits bs)"
  by (simp add: encode_digits_conv enc58.conv_canonical)

lemma length_base58Encode:
  "length (base58Encode bs) = leading_zeros bs + length (encode_digits bs)"
  by (simp add: base58Encode_alphabet)

text \<open>The significant bytes: what is left after the leading zero bytes.\<close>

lemma significant_bytes:
  obtains sig where "canonical 256 sig" and "length bs = leading_zeros bs + length sig"
    and "radix_val 58 (encode_digits bs) = radix_val 256 sig"
proof -
  let ?sig = "rev (dropWhile (\<lambda>x. x = 0) (map unat bs))"
  have "canonical 256 ?sig" by (rule canonical_rev_dropWhile) auto
  moreover have "length bs = leading_zeros bs + length ?sig"
    unfolding leading_zeros_unat length_rev
    by (metis length_append length_map takeWhile_dropWhile_id)
  moreover have "radix_val 58 (encode_digits bs) = radix_val 256 ?sig"
    by (simp add: encode_digits_val radix_val_rev_dropWhile)
  ultimately show ?thesis by (rule that)
qed

lemma length_encode_digits_le:
  assumes "radix_val 58 (encode_digits bs) < 58 ^ n"
  shows "length (encode_digits bs) \<le> n"
proof (cases "encode_digits bs = []")
  case True
  then show ?thesis by simp
next
  case False
  have "(58::nat) ^ (length (encode_digits bs) - 1) < 58 ^ n"
    using canonical_val_lower [OF encode_digits_canonical False] assms by linarith
  then show ?thesis using power_less_imp_less_exp [of 58 "length (encode_digits bs) - 1" n] by simp
qed

lemma length_base58Encode_double: "length (base58Encode bs) \<le> 2 * length bs"
proof -
  obtain sig where sig: "canonical 256 sig" "length bs = leading_zeros bs + length sig"
    "radix_val 58 (encode_digits bs) = radix_val 256 sig"
    by (rule significant_bytes)
  have "radix_val 256 sig < 256 ^ length sig"
    using canonical_val_bounds [OF sig(1)] by simp
  also have "\<dots> \<le> (58 ^ 2) ^ length sig"
    by (rule power_mono) simp_all
  also have "\<dots> = 58 ^ (2 * length sig)"
    by (rule power_mult [symmetric])
  finally have "length (encode_digits bs) \<le> 2 * length sig"
    using sig(3) by (intro length_encode_digits_le) simp
  with sig(2) show ?thesis by (simp add: length_base58Encode)
qed

lemma length_base58Encode_32:
  assumes "length bs = 32"
  shows "32 \<le> length (base58Encode bs)" and "length (base58Encode bs) \<le> 44"
proof -
  obtain sig where sig: "canonical 256 sig" "length bs = leading_zeros bs + length sig"
    "radix_val 58 (encode_digits bs) = radix_val 256 sig"
    by (rule significant_bytes)
  let ?z = "leading_zeros bs"
  have z: "?z + length sig = 32" using sig(2) assms by simp
  have "58 ^ ?z * radix_val 256 sig \<le> 256 ^ ?z * radix_val 256 sig"
    by (intro mult_right_mono power_mono) simp_all
  also have "\<dots> < 256 ^ ?z * 256 ^ length sig"
    using canonical_val_bounds [OF sig(1)] by simp
  also have "\<dots> = 256 ^ 32" using z by (simp add: power_add [symmetric])
  also have "\<dots> < (58::nat) ^ 44" by simp
  also have "\<dots> = 58 ^ ?z * 58 ^ (44 - ?z)"
    using z by (simp add: power_add [symmetric])
  finally have "radix_val 256 sig < 58 ^ (44 - ?z)" by simp
  then have "length (encode_digits bs) \<le> 44 - ?z"
    using sig(3) by (intro length_encode_digits_le) simp
  with z show "length (base58Encode bs) \<le> 44" by (simp add: length_base58Encode)
  have "length sig \<le> length (encode_digits bs)"
  proof (cases "sig = []")
    case True
    then show ?thesis by simp
  next
    case False
    have "(58::nat) ^ (length sig - 1) \<le> 256 ^ (length sig - 1)" by (rule power_mono) simp_all
    also have "\<dots> \<le> radix_val 256 sig" using canonical_val_lower [OF sig(1) False] by simp
    also have "\<dots> < 58 ^ length (encode_digits bs)"
      using canonical_val_bounds [OF encode_digits_canonical, of bs] sig(3) by simp
    finally show ?thesis using power_less_imp_less_exp [of 58] by fastforce
  qed
  with z show "32 \<le> length (base58Encode bs)" by (simp add: length_base58Encode)
qed

lemma base58Decode_Inr_iff: "base58Decode s = Inr bs \<longleftrightarrow> length s \<le> 128 \<and> s = base58Encode bs"
proof
  assume "base58Decode s = Inr bs"
  then show "length s \<le> 128 \<and> s = base58Encode bs"
    using base58Encode_decode_max [of 128 s bs]
    by (auto simp: base58Decode_def BASE58_DEFAULT_MAX_LENGTH_def base58Decode_max_def split: if_splits)
next
  assume "length s \<le> 128 \<and> s = base58Encode bs"
  then show "base58Decode s = Inr bs"
    using base58Decode_encode_max [of bs 128]
    by (auto simp: base58Decode_def BASE58_DEFAULT_MAX_LENGTH_def)
qed

lemma base58Decode_Encode [simp]: "length bs \<le> 64 \<Longrightarrow> base58Decode (base58Encode bs) = Inr bs"
  using length_base58Encode_double [of bs] by (simp add: base58Decode_Inr_iff)

lemma base58Encode_Decode: "base58Decode s = Inr bs \<Longrightarrow> base58Encode bs = s"
  by (simp add: base58Decode_Inr_iff)

lemma base58Encode_inj: "base58Encode bs = base58Encode bs' \<Longrightarrow> bs = bs'"
  using base58Decode_encode_max [of bs "length (base58Encode bs)"]
    base58Decode_encode_max [of bs' "length (base58Encode bs)"] by simp

lemma isValidPubkey_iff: "isValidPubkey s \<longleftrightarrow> (\<exists>bs. length bs = 32 \<and> s = base58Encode bs)"
proof
  assume "isValidPubkey s"
  then show "\<exists>bs. length bs = 32 \<and> s = base58Encode bs"
    by (auto simp: isValidPubkey_def base58Decode_Inr_iff split: if_splits sum.splits)
next
  assume "\<exists>bs. length bs = 32 \<and> s = base58Encode bs"
  then show "isValidPubkey s"
    using length_base58Encode_32 by (auto simp: isValidPubkey_def not_less)
qed

lemma isValidPubkey_digits:
  assumes "s = map (\<lambda>d. ALPHABET ! d) ds" and "\<forall>d \<in> set ds. d < 58" and "ds \<noteq> []" and "hd ds \<noteq> 0"
    and "32 \<le> length ds" and "length ds \<le> 44"
    and "256 ^ 31 \<le> radix_val 58 (rev ds)" and "radix_val 58 (rev ds) < 256 ^ 32"
  shows "isValidPubkey s"
proof -
  define bs where "bs = fold dec_push ds []"
  have val: "radix_val 256 bs = radix_val 58 (rev ds)" unfolding bs_def by (rule dec58.conv_val)
  have can: "canonical 256 bs" unfolding bs_def by (rule dec58.conv_canonical)
  have "bs \<noteq> []" using val assms(7) by auto
  have "length bs = 32"
  proof (rule antisym)
    have "(256 :: nat) ^ (length bs - 1) < 256 ^ 32"
      using canonical_val_lower [OF can \<open>bs \<noteq> []\<close>] val assms(8) by simp
    then have "length bs - 1 < 32" by (rule power_less_imp_less_exp [rotated]) simp
    then show "length bs \<le> 32" by simp
    have "(256 :: nat) ^ 31 < 256 ^ length bs"
      using canonical_val_bounds [OF can] val assms(7) by simp
    then have "31 < length bs" by (rule power_less_imp_less_exp [rotated]) simp
    then show "32 \<le> length bs" by simp
  qed
  moreover have "leading_ones s = 0"
    using assms(3, 4) unfolding assms(1) leading_ones_alphabet [OF assms(2)] by (cases ds) simp_all
  moreover have "decode_loop 0 s [] = Inr bs"
    unfolding assms(1) bs_def by (rule decode_loop_alphabet [OF assms(2)])
  ultimately have "\<exists>out. base58Decode s = Inr out \<and> length out = 32"
    using assms(3, 6)
    by (simp add: base58Decode_def base58Decode_max_def BASE58_DEFAULT_MAX_LENGTH_def assms(1))
  then show ?thesis using assms(5, 6) by (auto simp: isValidPubkey_def assms(1))
qed

end
