(* ===== verification/Wire.thy ===== *)
theory Wire
  imports Base58
begin

text \<open>
  The byte-level primitives of \<open>packages/solana/src/transaction.ts\<close> (class \<open>Reader\<close>) and
  \<open>packages/solana/src/encode.ts\<close> (class \<open>Writer\<close>).

  A \<open>Reader\<close> is a buffer and an offset that only moves forward; its state is modelled by
  the bytes not yet read, so \<open>remaining\<close> is their number and \<open>position\<close> is what has been
  dropped. A \<open>Writer\<close> is the list of bytes written so far; each write is the list it
  appends. The interface between the two is the locale \<open>codec\<close>: reading inverts writing,
  and a successful read accepts nothing but what the writer would have written.
\<close>

datatype tx_error =
    UnexpectedEnd
  | BytesPastEnd nat
  | NonMinimalShortVec
  | ShortVecTooLong
  | ImplausibleSignatureCount nat
  | UnsupportedVersion nat
  | ImplausibleKeyCount nat
  | ImplausibleInstructionCount nat
  | ImplausibleLookupCount nat
  | TrailingBytes nat
  | InvalidNumRequiredSignatures nat
  | ProgramIndexOutsideStaticKeys nat

type_synonym 'a reader = "bytes \<Rightarrow> tx_error + ('a \<times> bytes)"

section \<open>Reader\<close>

definition Reader_u8 :: "nat reader" where
  "Reader_u8 r = (case r of [] \<Rightarrow> Inl UnexpectedEnd | b # rest \<Rightarrow> Inr (unat b, rest))"

definition Reader_bytes :: "nat \<Rightarrow> bytes reader" where
  "Reader_bytes n r = (if length r < n then Inl (BytesPastEnd n) else Inr (take n r, drop n r))"

function Reader_shortVec_loop :: "nat \<Rightarrow> nat \<Rightarrow> nat \<Rightarrow> nat reader" where
  "Reader_shortVec_loop i v shift r =
     (if i < 3 then
        ebind (Reader_u8 r) (\<lambda>(byte, rest).
          let v' = v OR push_bit shift (byte AND 127) in
          if byte AND 128 = 0 then
            (if i > 0 \<and> byte AND 127 = 0 then Inl NonMinimalShortVec else Inr (v', rest))
          else Reader_shortVec_loop (Suc i) v' (shift + 7) rest)
      else Inl ShortVecTooLong)"
  by pat_completeness auto
termination
  by (relation "measure (\<lambda>(i, _). 3 - i)") auto

declare Reader_shortVec_loop.simps [simp del]

definition Reader_shortVec :: "nat reader" where
  "Reader_shortVec r = Reader_shortVec_loop 0 0 0 r"

text \<open>A \<open>for (j = 0; j < n; j++)\<close> loop that pushes one element read per iteration.\<close>

fun read_times :: "nat \<Rightarrow> 'a reader \<Rightarrow> 'a list reader" where
  "read_times 0 rd r = Inr ([], r)"
| "read_times (Suc n) rd r =
     ebind (rd r) (\<lambda>(x, r'). ebind (read_times n rd r') (\<lambda>(xs, r''). Inr (x # xs, r'')))"

section \<open>Writer\<close>

text \<open>\<open>parts.push(v & 0xff)\<close>\<close>

definition Writer_u8 :: "nat \<Rightarrow> bytes" where
  "Writer_u8 v = [word_of_nat (v AND 255)]"

function Writer_shortVec :: "nat \<Rightarrow> bytes" where
  "Writer_shortVec rem =
     (let elem = rem AND 127; rem' = drop_bit 7 rem in
      if rem' = 0 then [word_of_nat elem]
      else word_of_nat (elem OR 128) # Writer_shortVec rem')"
  by pat_completeness auto
termination
proof (relation "measure id")
  show "wf (measure id)" by simp
next
  fix rem elem rem' :: nat
  assume "rem' = drop_bit 7 rem" and "rem' \<noteq> 0"
  then show "(rem', rem) \<in> measure id" by (simp add: drop_bit_eq_div div_eq_0_iff not_less)
qed

declare Writer_shortVec.simps [simp del]

section \<open>Bit operations as arithmetic\<close>

lemma and_127: "(n::nat) AND 127 = n mod 128"
  using take_bit_eq_mask [of 7 n] by (simp add: mask_eq_exp_minus_1 take_bit_eq_mod)

lemma and_255: "(n::nat) AND 255 = n mod 256"
  using take_bit_eq_mask [of 8 n] by (simp add: mask_eq_exp_minus_1 take_bit_eq_mod)

lemma or_shift_nat:
  assumes "(a::nat) < 2 ^ n"
  shows "a OR push_bit n b = a + push_bit n b"
proof -
  have "a = take_bit n a" using assms by (simp add: take_bit_nat_eq_self)
  then have lt: "bit a k \<Longrightarrow> k < n" for k by (metis bit_take_bit_iff)
  have "a AND push_bit n b = 0" by (auto simp: bit_eq_iff bit_simps dest!: lt)
  then show ?thesis by (simp add: disjunctive_add_eq_or)
qed

lemma or_128: "(a::nat) < 128 \<Longrightarrow> a OR 128 = a + 128"
  using or_shift_nat [of a 7 1] by simp

lemma and_128_eq_0: "(n::nat) < 256 \<Longrightarrow> n AND 128 = 0 \<longleftrightarrow> n < 128"
proof -
  assume "n < 256"
  then have "n div 128 = (if n < 128 then 0 else 1)" by auto
  moreover have "n AND 128 = 0 \<longleftrightarrow> \<not> bit n 7"
    using and_exp_eq_0_iff_not_bit [of n 7] by simp
  ultimately show ?thesis by (simp add: bit_iff_odd)
qed

section \<open>Compact-u16\<close>

lemma Writer_shortVec_1: "v < 128 \<Longrightarrow> Writer_shortVec v = [word_of_nat v]"
  by (subst Writer_shortVec.simps) (simp add: and_127 drop_bit_eq_div)

lemma Writer_shortVec_step:
  "128 \<le> v \<Longrightarrow> Writer_shortVec v = word_of_nat (v mod 128 + 128) # Writer_shortVec (v div 128)"
  by (subst Writer_shortVec.simps) (simp add: and_127 or_128 drop_bit_eq_div div_eq_0_iff)

lemma Writer_shortVec_2:
  "128 \<le> v \<Longrightarrow> v < 16384 \<Longrightarrow> Writer_shortVec v = [word_of_nat (v mod 128 + 128), word_of_nat (v div 128)]"
  by (simp add: Writer_shortVec_step Writer_shortVec_1)

lemma Writer_shortVec_3:
  "16384 \<le> v \<Longrightarrow> v < 2097152 \<Longrightarrow> Writer_shortVec v =
    [word_of_nat (v mod 128 + 128), word_of_nat (v div 128 mod 128 + 128), word_of_nat (v div 16384)]"
  by (simp add: Writer_shortVec_step Writer_shortVec_1 div_mult2_eq [symmetric])

text \<open>The reader's loop, unrolled over its three iterations.\<close>

lemma Reader_shortVec_unroll:
  "Reader_shortVec r = (case r of [] \<Rightarrow> Inl UnexpectedEnd | b0 # r1 \<Rightarrow>
     if unat b0 < 128 then Inr (unat b0, r1) else
     (case r1 of [] \<Rightarrow> Inl UnexpectedEnd | b1 # r2 \<Rightarrow>
       if unat b1 < 128 then
         if unat b1 = 0 then Inl NonMinimalShortVec else Inr (unat b0 mod 128 + 128 * unat b1, r2)
       else
       (case r2 of [] \<Rightarrow> Inl UnexpectedEnd | b2 # r3 \<Rightarrow>
         if unat b2 < 128 then
           if unat b2 = 0 then Inl NonMinimalShortVec
           else Inr (unat b0 mod 128 + 128 * (unat b1 mod 128) + 16384 * unat b2, r3)
         else Inl ShortVecTooLong)))"
proof -
  have or7: "x mod 128 OR push_bit 7 y = x mod 128 + 128 * y" for x y :: nat
    using or_shift_nat [of "x mod 128" 7 y] by (simp add: push_bit_eq_mult)
  have or14: "(x mod 128 + 128 * (y mod 128)) OR push_bit 14 z = x mod 128 + 128 * (y mod 128) + 16384 * z" for x y z :: nat
  proof -
    have "x mod 128 < 128" and "y mod 128 < 128" by simp_all
    then have "x mod 128 + 128 * (y mod 128) < 2 ^ 14" by simp
    from or_shift_nat [OF this, of z] show ?thesis by (simp add: push_bit_eq_mult)
  qed
  have m: "n < 128 \<Longrightarrow> n mod 128 = n" for n :: nat by simp
  show ?thesis
    unfolding Reader_shortVec_def
    by (auto simp: Reader_shortVec_loop.simps [of 0] Reader_shortVec_loop.simps [of "Suc 0"]
        Reader_shortVec_loop.simps [of "Suc (Suc 0)"] Reader_shortVec_loop.simps [of "Suc (Suc (Suc 0))"]
        Reader_u8_def and_128_eq_0 and_127 or7 or14 Let_def m numeral_2_eq_2 split: list.splits)
qed

lemma unat_high_bit [simp]: "unat (word_of_nat (v mod 128) + 128 :: byte) = v mod 128 + 128"
proof -
  have "v mod 128 < 128" by simp
  then have "unat (word_of_nat (v mod 128 + 128) :: byte) = v mod 128 + 128"
    by (intro unat_byte_of_nat) linarith
  then show ?thesis by simp
qed

lemma word_high_bit: "128 \<le> unat (b :: byte) \<Longrightarrow> word_of_nat (unat b mod 128) + 128 = b"
proof -
  assume "128 \<le> unat b"
  have "n mod 128 + 128 = n" if "128 \<le> n" "n < 256" for n :: nat
    using that by (simp add: le_mod_geq)
  with \<open>128 \<le> unat b\<close> have eq: "unat b mod 128 + 128 = unat b" by simp
  have "(word_of_nat (unat b mod 128 + 128) :: byte) = b"
    unfolding eq by (rule byte_of_nat_unat)
  then show ?thesis by simp
qed

lemma base_128_digits:
  assumes "(a::nat) < 128"
  shows "(a + 128 * w) mod 128 = a" and "(a + 128 * w) div 128 = w"
  using assms by simp_all

lemma base_128_join: "(a::nat) + 128 * w = v \<Longrightarrow> b + 128 * c = w \<Longrightarrow> a + 128 * b + 16384 * c = v"
  by simp

lemma Reader_Writer_shortVec:
  assumes "v < 2097152"
  shows "Reader_shortVec (Writer_shortVec v @ r) = Inr (v, r)"
proof -
  consider "v < 128" | "128 \<le> v" "v < 16384" | "16384 \<le> v" by linarith
  then show ?thesis
  proof cases
    case 1
    then show ?thesis by (simp add: Writer_shortVec_1 Reader_shortVec_unroll)
  next
    case 2
    have "v mod 128 + 128 < 256" and "v div 128 < 128" and "v div 128 \<noteq> 0"
      using 2 by (auto simp: div_eq_0_iff)
    then show ?thesis using 2
      by (simp add: Writer_shortVec_2 Reader_shortVec_unroll)
  next
    case 3
    have small: "v div 16384 < 128" "0 < v div 16384"
      using 3 assms by (auto simp: div_greater_zero_iff)
    have "v mod 128 + 128 * (v div 128 mod 128) + 16384 * (v div 16384) = v"
      by (rule base_128_join [where w = "v div 128"]) (simp_all add: div_mult2_eq [of v 128 128, simplified])
    then show ?thesis using 3 assms small
      by (simp add: Writer_shortVec_3 Reader_shortVec_unroll)
  qed
qed

lemma Writer_Reader_shortVec:
  assumes "Reader_shortVec bs = Inr (v, r)"
  shows "v < 2097152 \<and> bs = Writer_shortVec v @ r"
proof (cases bs)
  case Nil
  with assms show ?thesis by (simp add: Reader_shortVec_unroll)
next
  case (Cons b0 r1)
  show ?thesis
  proof (cases "unat b0 < 128")
    case True
    with assms Cons show ?thesis by (auto simp: Reader_shortVec_unroll Writer_shortVec_1)
  next
    case b0: False
    with assms Cons obtain b1 r2 where r1: "r1 = b1 # r2"
      by (auto simp: Reader_shortVec_unroll split: list.splits)
    show ?thesis
    proof (cases "unat b1 < 128")
      case True
      with assms Cons r1 b0 have v: "v = unat b0 mod 128 + 128 * unat b1" "unat b1 \<noteq> 0" "r = r2"
        by (auto simp: Reader_shortVec_unroll split: if_splits)
      have lt: "unat b0 mod 128 < 128" by simp
      have "v mod 128 = unat b0 mod 128" "v div 128 = unat b1"
        unfolding v(1) by (rule base_128_digits [OF lt])+
      moreover have "128 \<le> v" "v < 16384" using v True lt by linarith+
      ultimately show ?thesis using Cons r1 b0 v(3) by (simp add: Writer_shortVec_2 word_high_bit)
    next
      case b1: False
      with assms Cons r1 b0 obtain b2 r3 where r2: "r2 = b2 # r3"
        by (auto simp: Reader_shortVec_unroll split: list.splits)
      have v: "v = unat b0 mod 128 + 128 * (unat b1 mod 128) + 16384 * unat b2"
        and b2: "unat b2 \<noteq> 0" "unat b2 < 128" and r: "r = r3"
        using assms Cons r1 b0 b1 r2 by (auto simp: Reader_shortVec_unroll split: if_splits)
      let ?w = "unat b1 mod 128 + 128 * unat b2"
      have vw: "v = unat b0 mod 128 + 128 * ?w" using v by simp
      have lt: "unat b0 mod 128 < 128" "unat b1 mod 128 < 128" by simp_all
      have m: "v mod 128 = unat b0 mod 128" and q: "v div 128 = ?w"
        unfolding vw by (rule base_128_digits [OF lt(1)])+
      have wm: "?w mod 128 = unat b1 mod 128" and wq: "?w div 128 = unat b2"
        by (rule base_128_digits [OF lt(2)])+
      have q2: "v div 16384 = unat b2"
        using q wq by (simp add: div_mult2_eq [of v 128 128, simplified])
      have "16384 \<le> v" "v < 2097152"
        using v b2 lt by linarith+
      then show ?thesis using Cons r1 r2 r b0 b1 m q wm q2
        by (simp add: Writer_shortVec_3 word_high_bit)
    qed
  qed
qed


section \<open>The codec interface\<close>

text \<open>
  What a reader and a writer of one kind of field owe each other, whatever bytes follow:
  reading what was written gives the value back, and a successful read consumed exactly
  what the writer would have written. The second law is what makes the wire format
  canonical: no two byte sequences decode to the same value.
\<close>

locale codec =
  fixes enc :: "'a \<Rightarrow> bytes" and dec :: "'a reader" and valid :: "'a \<Rightarrow> bool"
  assumes dec_enc: "valid x \<Longrightarrow> dec (enc x @ r) = Inr (x, r)"
    and enc_dec: "dec bs = Inr (x, r) \<Longrightarrow> valid x \<and> bs = enc x @ r"
begin

lemma read_times_enc:
  "(\<forall>x \<in> set xs. valid x) \<Longrightarrow> n = length xs \<Longrightarrow>
   read_times n dec (concat (map enc xs) @ r) = Inr (xs, r)"
  by (induction xs arbitrary: n) (auto simp: dec_enc)

lemma read_times_dec:
  "read_times n dec bs = Inr (xs, r) \<Longrightarrow>
   length xs = n \<and> (\<forall>x \<in> set xs. valid x) \<and> bs = concat (map enc xs) @ r"
proof (induction n arbitrary: bs xs)
  case 0
  then show ?case by simp
next
  case (Suc n)
  then obtain x bs' xs' where "dec bs = Inr (x, bs')" and "read_times n dec bs' = Inr (xs', r)"
    and "xs = x # xs'"
    by (auto simp: ebind_eq_Inr)
  with Suc.IH [of bs' xs'] enc_dec [of bs x bs'] show ?case by simp
qed

lemma enc_inject: "valid x \<Longrightarrow> valid y \<Longrightarrow> enc x @ r = enc y @ r' \<Longrightarrow> x = y \<and> r = r'"
  by (metis dec_enc sum.inject(2) prod.inject)

end

text \<open>A length prefix and that many elements, the shape of every list in a message.\<close>

definition write_vec :: "('a \<Rightarrow> bytes) \<Rightarrow> 'a list \<Rightarrow> bytes" where
  "write_vec enc xs = Writer_shortVec (length xs) @ concat (map enc xs)"

definition read_vec :: "'a reader \<Rightarrow> 'a list reader" where
  "read_vec dec bs = ebind (Reader_shortVec bs) (\<lambda>(n, r). read_times n dec r)"

definition short_list :: "('a \<Rightarrow> bool) \<Rightarrow> 'a list \<Rightarrow> bool" where
  "short_list ok xs \<longleftrightarrow> length xs < 2097152 \<and> (\<forall>x \<in> set xs. ok x)"

context codec begin

lemma vec_codec: "codec (write_vec enc) (read_vec dec) (short_list valid)"
proof
  fix xs r
  assume "short_list valid xs"
  then show "read_vec dec (write_vec enc xs @ r) = Inr (xs, r)"
    by (simp add: read_vec_def write_vec_def short_list_def Reader_Writer_shortVec read_times_enc)
next
  fix bs xs r
  assume "read_vec dec bs = Inr (xs, r)"
  then obtain n r' where "Reader_shortVec bs = Inr (n, r')" and "read_times n dec r' = Inr (xs, r)"
    by (auto simp: read_vec_def ebind_eq_Inr)
  with Writer_Reader_shortVec [of bs n r'] read_times_dec [of n r' xs r]
  show "short_list valid xs \<and> bs = write_vec enc xs @ r"
    by (simp add: short_list_def write_vec_def)
qed

end

interpretation shortVec: codec Writer_shortVec Reader_shortVec "\<lambda>v. v < 2097152"
  by unfold_locales (simp_all add: Reader_Writer_shortVec Writer_Reader_shortVec)

interpretation u8: codec Writer_u8 Reader_u8 "\<lambda>v. v < 256"
  by unfold_locales (auto simp: Writer_u8_def Reader_u8_def and_255 split: list.splits)

interpretation u8_vec: codec "write_vec Writer_u8" "read_vec Reader_u8" "short_list (\<lambda>v. v < 256)"
  by (rule u8.vec_codec)

text \<open>A length-prefixed byte string.\<close>

lemma Reader_bytes_append: "n = length xs \<Longrightarrow> Reader_bytes n (xs @ r) = Inr (xs, r)"
  by (simp add: Reader_bytes_def)

lemma Reader_bytes_Inr: "Reader_bytes n bs = Inr (xs, r) \<longleftrightarrow> length xs = n \<and> bs = xs @ r"
  by (auto simp: Reader_bytes_def)

definition write_data :: "bytes \<Rightarrow> bytes" where
  "write_data xs = Writer_shortVec (length xs) @ xs"

definition read_data :: "bytes reader" where
  "read_data bs = ebind (Reader_shortVec bs) (\<lambda>(n, r). Reader_bytes n r)"

interpretation data_vec: codec write_data read_data "\<lambda>xs. length xs < 2097152"
proof
  fix xs r :: bytes
  assume "length xs < 2097152"
  then show "read_data (write_data xs @ r) = Inr (xs, r)"
    by (simp add: read_data_def write_data_def Reader_Writer_shortVec Reader_bytes_append)
next
  fix bs xs r :: bytes
  assume "read_data bs = Inr (xs, r)"
  then obtain n r' where "Reader_shortVec bs = Inr (n, r')" and "Reader_bytes n r' = Inr (xs, r)"
    by (auto simp: read_data_def ebind_eq_Inr)
  with Writer_Reader_shortVec [of bs n r'] show "length xs < 2097152 \<and> bs = write_data xs @ r"
    by (simp add: write_data_def Reader_bytes_Inr)
qed

end
