(* ===== verification/Transaction.thy ===== *)
theory Transaction
  imports Wire
begin

text \<open>
  \<open>packages/solana/src/transaction.ts\<close> and the serializer of \<open>packages/solana/src/encode.ts\<close>:
  the wire format of a Solana transaction. \<open>decodeTransaction\<close> is the strict decoder the
  signer relies on, \<open>encodeMessage\<close> and \<open>encodeUnsignedTransaction\<close> the independently
  written encoder. Loop bodies of the source are definitions of their own
  (\<open>read_instruction\<close>, \<open>read_lookup\<close>); the positional rule that says which keys a
  message may write is \<open>writableStaticKeys\<close>.
\<close>

section \<open>Data\<close>

record CompiledInstruction =
  programIdIndex :: nat
  accountIndexes :: "nat list"
  ix_data :: bytes

record AddressTableLookup =
  accountKey :: string
  writableIndexes :: "nat list"
  readonlyIndexes :: "nat list"

datatype tx_version = Legacy | V0

record DecodedTransaction =
  tx_version :: tx_version
  signatureCount :: nat
  numRequiredSignatures :: nat
  numReadonlySignedAccounts :: nat
  numReadonlyUnsignedAccounts :: nat
  staticAccountKeys :: "string list"
  recentBlockhash :: string
  instructions :: "CompiledInstruction list"
  addressTableLookups :: "AddressTableLookup list"
  messageBytes :: bytes

definition SIGNATURE_LEN :: nat where "SIGNATURE_LEN = 64"
definition PUBKEY_LEN :: nat where "PUBKEY_LEN = 32"

section \<open>Decoder\<close>

text \<open>\<open>base58Encode(r.bytes(PUBKEY_LEN))\<close>\<close>

definition read_key :: "string reader" where
  "read_key r = ebind (Reader_bytes PUBKEY_LEN r) (\<lambda>(bs, r'). Inr (base58Encode bs, r'))"

text \<open>The body of the instruction loop.\<close>

definition read_instruction :: "CompiledInstruction reader" where
  "read_instruction r =
     ebind (Reader_u8 r) (\<lambda>(programIdIndex, r).
     ebind (Reader_shortVec r) (\<lambda>(accLen, r).
     ebind (read_times accLen Reader_u8 r) (\<lambda>(accountIndexes, r).
     ebind (Reader_shortVec r) (\<lambda>(dataLen, r).
     ebind (Reader_bytes dataLen r) (\<lambda>(data, r).
       Inr (\<lparr>programIdIndex = programIdIndex, accountIndexes = accountIndexes, ix_data = data\<rparr>, r))))))"

text \<open>The body of the lookup-table loop.\<close>

definition read_lookup :: "AddressTableLookup reader" where
  "read_lookup r =
     ebind (read_key r) (\<lambda>(accountKey, r).
     ebind (Reader_shortVec r) (\<lambda>(wLen, r).
     ebind (read_times wLen Reader_u8 r) (\<lambda>(writableIndexes, r).
     ebind (Reader_shortVec r) (\<lambda>(rLen, r).
     ebind (read_times rLen Reader_u8 r) (\<lambda>(readonlyIndexes, r).
       Inr (\<lparr>accountKey = accountKey, writableIndexes = writableIndexes,
             readonlyIndexes = readonlyIndexes\<rparr>, r))))))"

text \<open>The version prefix and the first header byte.\<close>

definition read_version :: "(tx_version \<times> nat) reader" where
  "read_version r =
     ebind (Reader_u8 r) (\<lambda>(prefix, r).
       if prefix AND 128 = 0 then Inr ((Legacy, prefix), r)
       else
         let v = prefix AND 127 in
         if v \<noteq> 0 then Inl (UnsupportedVersion v)
         else ebind (Reader_u8 r) (\<lambda>(header0, r). Inr ((V0, header0), r)))"

definition read_lookups :: "tx_version \<Rightarrow> AddressTableLookup list reader" where
  "read_lookups v r =
     (if v = V0 then
        ebind (Reader_shortVec r) (\<lambda>(lookupCount, r).
          if lookupCount > 16 then Inl (ImplausibleLookupCount lookupCount)
          else read_times lookupCount read_lookup r)
      else Inr ([], r))"

definition decodeTransaction :: "bytes \<Rightarrow> tx_error + DecodedTransaction" where
  "decodeTransaction raw =
     ebind (Reader_shortVec raw) (\<lambda>(signatureCount, r).
     if signatureCount = 0 \<or> signatureCount > 8 then Inl (ImplausibleSignatureCount signatureCount)
     else ebind (Reader_bytes (signatureCount * SIGNATURE_LEN) r) (\<lambda>(_, message).
     ebind (read_version message) (\<lambda>((version, header0), r).
     ebind (Reader_u8 r) (\<lambda>(numReadonlySigned, r).
     ebind (Reader_u8 r) (\<lambda>(numReadonlyUnsigned, r).
     ebind (Reader_shortVec r) (\<lambda>(keyCount, r).
     if keyCount = 0 \<or> keyCount > 256 then Inl (ImplausibleKeyCount keyCount)
     else ebind (read_times keyCount read_key r) (\<lambda>(keys, r).
     ebind (read_key r) (\<lambda>(blockhash, r).
     ebind (Reader_shortVec r) (\<lambda>(ixCount, r).
     if ixCount > 64 then Inl (ImplausibleInstructionCount ixCount)
     else ebind (read_times ixCount read_instruction r) (\<lambda>(ixs, r).
     ebind (read_lookups version r) (\<lambda>(lookups, r).
     if length r \<noteq> 0 then Inl (TrailingBytes (length r))
     else if header0 = 0 \<or> header0 > length keys then Inl (InvalidNumRequiredSignatures header0)
     else (case find (\<lambda>ix. programIdIndex ix \<ge> length keys) ixs of
         Some ix \<Rightarrow> Inl (ProgramIndexOutsideStaticKeys (programIdIndex ix))
       | None \<Rightarrow> Inr
          \<lparr>tx_version = version, signatureCount = signatureCount,
           numRequiredSignatures = header0,
           numReadonlySignedAccounts = numReadonlySigned,
           numReadonlyUnsignedAccounts = numReadonlyUnsigned,
           staticAccountKeys = keys, recentBlockhash = blockhash, instructions = ixs,
           addressTableLookups = lookups, messageBytes = message\<rparr>))))))))))))"


section \<open>Encoder\<close>

datatype encode_code =
    MISSING_BLOCKHASH | MISSING_ROUTE_PLAN | MISSING_LOOKUP_TABLE | MISSING_CONTEXT_SLOT
  | MISSING_MINIMUM_OUTPUT | NO_FEE_PAYER | TOO_MANY_ACCOUNTS | TOO_MANY_SIGNERS | OVERSIZED | BAD_ACCOUNT

datatype encode_error = EncodeError encode_code | Base58Thrown base58_error

record CompiledMessage =
  cm_numRequiredSignatures :: nat
  cm_numReadonlySignedAccounts :: nat
  cm_numReadonlyUnsignedAccounts :: nat
  cm_staticAccountKeys :: "string list"
  cm_recentBlockhash :: string
  cm_instructions :: "CompiledInstruction list"
  cm_addressTableLookups :: "AddressTableLookup list"
  cm_feePayer :: string
  cm_writableAccounts :: "string list"
  cm_readonlyAccounts :: "string list"

definition MAX_PACKET_BYTES :: nat where "MAX_PACKET_BYTES = 1232"

definition base58_bytes :: "string \<Rightarrow> encode_error + bytes" where
  "base58_bytes k = (case base58Decode k of Inl e \<Rightarrow> Inl (Base58Thrown e) | Inr bs \<Rightarrow> Inr bs)"

text \<open>The body of the static-key loop: the decoded key, refused unless it is 32 bytes.\<close>

definition encode_key :: "string \<Rightarrow> encode_error + bytes" where
  "encode_key k = ebind (base58_bytes k) (\<lambda>bs.
     if length bs \<noteq> PUBKEY_LEN then Inl (EncodeError BAD_ACCOUNT) else Inr bs)"

definition encode_blockhash :: "string \<Rightarrow> encode_error + bytes" where
  "encode_blockhash h = ebind (base58_bytes h) (\<lambda>bh.
     if length bh \<noteq> PUBKEY_LEN then Inl (EncodeError MISSING_BLOCKHASH) else Inr bh)"

definition encode_instruction :: "CompiledInstruction \<Rightarrow> bytes" where
  "encode_instruction ix =
     Writer_u8 (programIdIndex ix) @
     Writer_shortVec (length (accountIndexes ix)) @ concat (map Writer_u8 (accountIndexes ix)) @
     Writer_shortVec (length (ix_data ix)) @ ix_data ix"

text \<open>The body of the lookup loop. The source does not check this key's length.\<close>

definition encode_lookup :: "AddressTableLookup \<Rightarrow> encode_error + bytes" where
  "encode_lookup lut = ebind (base58_bytes (accountKey lut)) (\<lambda>bs. Inr (
     bs @
     Writer_shortVec (length (writableIndexes lut)) @ concat (map Writer_u8 (writableIndexes lut)) @
     Writer_shortVec (length (readonlyIndexes lut)) @ concat (map Writer_u8 (readonlyIndexes lut))))"

definition encodeMessage :: "CompiledMessage \<Rightarrow> encode_error + bytes" where
  "encodeMessage m =
     ebind (emap encode_key (cm_staticAccountKeys m)) (\<lambda>keys.
     ebind (encode_blockhash (cm_recentBlockhash m)) (\<lambda>bh.
     ebind (emap encode_lookup (cm_addressTableLookups m)) (\<lambda>luts. Inr (
       Writer_u8 128 @
       Writer_u8 (cm_numRequiredSignatures m) @
       Writer_u8 (cm_numReadonlySignedAccounts m) @
       Writer_u8 (cm_numReadonlyUnsignedAccounts m) @
       Writer_shortVec (length (cm_staticAccountKeys m)) @ concat keys @
       bh @
       Writer_shortVec (length (cm_instructions m)) @ concat (map encode_instruction (cm_instructions m)) @
       Writer_shortVec (length (cm_addressTableLookups m)) @ concat luts))))"

definition encodeUnsignedTransaction :: "CompiledMessage \<Rightarrow> encode_error + bytes" where
  "encodeUnsignedTransaction m =
     ebind (encodeMessage m) (\<lambda>message.
       let out = Writer_shortVec (cm_numRequiredSignatures m) @
                 concat (replicate (cm_numRequiredSignatures m) (replicate SIGNATURE_LEN 0)) @ message
       in if length out > MAX_PACKET_BYTES then Inl (EncodeError OVERSIZED) else Inr out)"

section \<open>Positional privilege\<close>

text \<open>
  Differences of header counts are JavaScript numbers, so they may be negative.
  The result is a \<open>Set\<close>, in the order of the keys.
\<close>

definition static_writable :: "nat \<Rightarrow> nat \<Rightarrow> nat \<Rightarrow> nat \<Rightarrow> nat \<Rightarrow> bool" where
  "static_writable n nrs nros nrou i =
     (let writableSigners = int nrs - int nros;
          lastWritableNonSigner = int n - int nrou;
          isSigner = i < nrs
      in if isSigner then int i < writableSigners else int i < lastWritableNonSigner)"

definition writableStaticKeys :: "DecodedTransaction \<Rightarrow> string list" where
  "writableStaticKeys tx =
     (let n = length (staticAccountKeys tx) in
      js_set_of (map (\<lambda>i. staticAccountKeys tx ! i)
        (filter (static_writable n (numRequiredSignatures tx)
                  (numReadonlySignedAccounts tx) (numReadonlyUnsignedAccounts tx)) [0..<n])))"

section \<open>Codecs of the parts\<close>

definition write_key :: "string \<Rightarrow> bytes" where
  "write_key k = (case base58Decode k of Inl _ \<Rightarrow> [] | Inr bs \<Rightarrow> bs)"

lemma write_key_Encode [simp]: "length bs \<le> 64 \<Longrightarrow> write_key (base58Encode bs) = bs"
  by (simp add: write_key_def)

lemma encode_key_Inr: "encode_key k = Inr bs \<longleftrightarrow> isValidPubkey k \<and> bs = write_key k"
  by (auto simp: encode_key_def base58_bytes_def ebind_eq_Inr PUBKEY_LEN_def isValidPubkey_iff
      base58Decode_Inr_iff dest: base58Encode_inj split: sum.splits)

lemma encode_blockhash_Inr: "encode_blockhash k = Inr bs \<longleftrightarrow> isValidPubkey k \<and> bs = write_key k"
  by (auto simp: encode_blockhash_def base58_bytes_def ebind_eq_Inr PUBKEY_LEN_def isValidPubkey_iff
      base58Decode_Inr_iff dest: base58Encode_inj split: sum.splits)

interpretation pubkey: codec write_key read_key isValidPubkey
proof
  fix k and r :: bytes
  assume "isValidPubkey k"
  then show "read_key (write_key k @ r) = Inr (k, r)"
    by (auto simp: isValidPubkey_iff read_key_def PUBKEY_LEN_def Reader_bytes_append)
next
  fix bs k r
  assume "read_key bs = Inr (k, r)"
  then show "isValidPubkey k \<and> bs = write_key k @ r"
    by (auto simp: read_key_def ebind_eq_Inr Reader_bytes_Inr PUBKEY_LEN_def isValidPubkey_iff)
qed

definition instruction_ok :: "CompiledInstruction \<Rightarrow> bool" where
  "instruction_ok ix \<longleftrightarrow> programIdIndex ix < 256 \<and> short_list (\<lambda>v. v < 256) (accountIndexes ix) \<and>
     length (ix_data ix) < 2097152"

definition lookup_ok :: "AddressTableLookup \<Rightarrow> bool" where
  "lookup_ok lut \<longleftrightarrow> isValidPubkey (accountKey lut) \<and> short_list (\<lambda>v. v < 256) (writableIndexes lut) \<and>
     short_list (\<lambda>v. v < 256) (readonlyIndexes lut)"

definition write_lookup :: "AddressTableLookup \<Rightarrow> bytes" where
  "write_lookup lut = write_key (accountKey lut) @ write_vec Writer_u8 (writableIndexes lut) @
     write_vec Writer_u8 (readonlyIndexes lut)"

lemma encode_instruction_vec:
  "encode_instruction ix =
     Writer_u8 (programIdIndex ix) @ write_vec Writer_u8 (accountIndexes ix) @ write_data (ix_data ix)"
  by (simp add: encode_instruction_def write_vec_def write_data_def)

lemma read_instruction_vec:
  "read_instruction r =
     ebind (Reader_u8 r) (\<lambda>(p, r). ebind (read_vec Reader_u8 r) (\<lambda>(accs, r). ebind (read_data r) (\<lambda>(d, r).
       Inr (\<lparr>programIdIndex = p, accountIndexes = accs, ix_data = d\<rparr>, r))))"
  unfolding read_instruction_def read_vec_def read_data_def ebind_def
  by (auto split: sum.splits)

lemma read_lookup_vec:
  "read_lookup r =
     ebind (read_key r) (\<lambda>(k, r). ebind (read_vec Reader_u8 r) (\<lambda>(ws, r). ebind (read_vec Reader_u8 r) (\<lambda>(rs, r).
       Inr (\<lparr>accountKey = k, writableIndexes = ws, readonlyIndexes = rs\<rparr>, r))))"
  unfolding read_lookup_def read_vec_def ebind_def
  by (auto split: sum.splits)

interpretation instruction: codec encode_instruction read_instruction instruction_ok
proof
  fix ix r
  assume "instruction_ok ix"
  then show "read_instruction (encode_instruction ix @ r) = Inr (ix, r)"
    by (simp add: instruction_ok_def encode_instruction_vec read_instruction_vec
        u8.dec_enc u8_vec.dec_enc data_vec.dec_enc)
next
  fix bs ix r
  assume "read_instruction bs = Inr (ix, r)"
  then show "instruction_ok ix \<and> bs = encode_instruction ix @ r"
    by (auto simp: read_instruction_vec ebind_eq_Inr instruction_ok_def encode_instruction_vec
        dest!: u8.enc_dec u8_vec.enc_dec data_vec.enc_dec)
qed

interpretation lookup: codec write_lookup read_lookup lookup_ok
proof
  fix lut r
  assume "lookup_ok lut"
  then show "read_lookup (write_lookup lut @ r) = Inr (lut, r)"
    by (simp add: lookup_ok_def write_lookup_def read_lookup_vec pubkey.dec_enc u8_vec.dec_enc)
next
  fix bs lut r
  assume "read_lookup bs = Inr (lut, r)"
  then show "lookup_ok lut \<and> bs = write_lookup lut @ r"
    by (auto simp: read_lookup_vec ebind_eq_Inr lookup_ok_def write_lookup_def
        dest!: pubkey.enc_dec u8_vec.enc_dec)
qed


section \<open>The encoder in codec form\<close>

lemma length_write_key: "isValidPubkey k \<Longrightarrow> length (write_key k) = 32"
  by (auto simp: isValidPubkey_iff)

lemma emap_encode_key: "emap encode_key ks = Inr bss \<longleftrightarrow> (\<forall>k \<in> set ks. isValidPubkey k) \<and> bss = map write_key ks"
  by (simp add: emap_eq_Inr encode_key_Inr list_all2_same_map)

lemma encode_lookup_Inr:
  "isValidPubkey (accountKey lut) \<Longrightarrow> encode_lookup lut = Inr (write_lookup lut)"
  by (auto simp: encode_lookup_def base58_bytes_def isValidPubkey_iff write_lookup_def write_vec_def)

lemma emap_encode_lookup:
  "(\<forall>lut \<in> set luts. isValidPubkey (accountKey lut)) \<Longrightarrow> emap encode_lookup luts = Inr (map write_lookup luts)"
  by (induction luts) (simp_all add: encode_lookup_Inr)

text \<open>The bytes of a message whose keys are all real public keys.\<close>

definition write_message :: "CompiledMessage \<Rightarrow> bytes" where
  "write_message m =
     Writer_u8 128 @ Writer_u8 (cm_numRequiredSignatures m) @
     Writer_u8 (cm_numReadonlySignedAccounts m) @ Writer_u8 (cm_numReadonlyUnsignedAccounts m) @
     write_vec write_key (cm_staticAccountKeys m) @ write_key (cm_recentBlockhash m) @
     write_vec encode_instruction (cm_instructions m) @ write_vec write_lookup (cm_addressTableLookups m)"

lemma encodeMessage_write:
  assumes "\<forall>lut \<in> set (cm_addressTableLookups m). isValidPubkey (accountKey lut)"
  shows "encodeMessage m = Inr bs \<longleftrightarrow>
    (\<forall>k \<in> set (cm_staticAccountKeys m). isValidPubkey k) \<and> isValidPubkey (cm_recentBlockhash m) \<and>
    bs = write_message m"
  using assms
  by (auto simp: encodeMessage_def ebind_eq_Inr emap_encode_key encode_blockhash_Inr emap_encode_lookup
      write_message_def write_vec_def)

text \<open>
  What the decoder's plausibility limits ask of a message beyond its encoding having
  succeeded and fitting a packet.
\<close>

definition sendable :: "CompiledMessage \<Rightarrow> bool" where
  "sendable m \<longleftrightarrow>
     0 < cm_numRequiredSignatures m \<and> cm_numRequiredSignatures m \<le> 8 \<and>
     cm_numRequiredSignatures m \<le> length (cm_staticAccountKeys m) \<and>
     cm_numReadonlySignedAccounts m < 256 \<and> cm_numReadonlyUnsignedAccounts m < 256 \<and>
     length (cm_instructions m) \<le> 64 \<and> length (cm_addressTableLookups m) \<le> 16 \<and>
     (\<forall>ix \<in> set (cm_instructions m). programIdIndex ix < length (cm_staticAccountKeys m) \<and>
        (\<forall>a \<in> set (accountIndexes ix). a < 256)) \<and>
     (\<forall>lut \<in> set (cm_addressTableLookups m). isValidPubkey (accountKey lut) \<and>
        (\<forall>i \<in> set (writableIndexes lut) \<union> set (readonlyIndexes lut). i < 256))"

definition decoded_message :: "CompiledMessage \<Rightarrow> bytes \<Rightarrow> DecodedTransaction" where
  "decoded_message m bs =
     \<lparr>tx_version = V0, signatureCount = cm_numRequiredSignatures m,
      numRequiredSignatures = cm_numRequiredSignatures m,
      numReadonlySignedAccounts = cm_numReadonlySignedAccounts m,
      numReadonlyUnsignedAccounts = cm_numReadonlyUnsignedAccounts m,
      staticAccountKeys = cm_staticAccountKeys m, recentBlockhash = cm_recentBlockhash m,
      instructions = cm_instructions m, addressTableLookups = cm_addressTableLookups m,
      messageBytes = bs\<rparr>"

lemma encodeUnsigned_parts:
  assumes "encodeUnsignedTransaction m = Inr raw" and "sendable m"
  shows "encodeMessage m = Inr (write_message m)" and "\<forall>k \<in> set (cm_staticAccountKeys m). isValidPubkey k"
    and "isValidPubkey (cm_recentBlockhash m)" and "length (write_message m) \<le> 1232"
    and "raw = Writer_shortVec (cm_numRequiredSignatures m) @
      concat (replicate (cm_numRequiredSignatures m) (replicate 64 0)) @ write_message m"
proof -
  have luts: "\<forall>lut \<in> set (cm_addressTableLookups m). isValidPubkey (accountKey lut)"
    using assms(2) by (simp add: sendable_def)
  from assms(1) obtain bs where bs: "encodeMessage m = Inr bs"
    and raw: "raw = Writer_shortVec (cm_numRequiredSignatures m) @
      concat (replicate (cm_numRequiredSignatures m) (replicate 64 0)) @ bs"
    and len: "length raw \<le> 1232"
    by (auto simp: encodeUnsignedTransaction_def ebind_eq_Inr Let_def SIGNATURE_LEN_def
        MAX_PACKET_BYTES_def split: if_splits)
  from bs encodeMessage_write [OF luts] have "bs = write_message m"
    and "\<forall>k \<in> set (cm_staticAccountKeys m). isValidPubkey k" and "isValidPubkey (cm_recentBlockhash m)"
    by auto
  with bs raw len
  show "encodeMessage m = Inr (write_message m)" and "\<forall>k \<in> set (cm_staticAccountKeys m). isValidPubkey k"
    and "isValidPubkey (cm_recentBlockhash m)" and "length (write_message m) \<le> 1232"
    and "raw = Writer_shortVec (cm_numRequiredSignatures m) @
      concat (replicate (cm_numRequiredSignatures m) (replicate 64 0)) @ write_message m"
    by auto
qed

lemma message_part_lengths:
  assumes "length (write_message m) \<le> 1232" and "\<forall>k \<in> set (cm_staticAccountKeys m). isValidPubkey k"
  shows "length (cm_staticAccountKeys m) \<le> 38"
    and "ix \<in> set (cm_instructions m) \<Longrightarrow> length (encode_instruction ix) \<le> 1232"
    and "lut \<in> set (cm_addressTableLookups m) \<Longrightarrow> length (write_lookup lut) \<le> 1232"
proof -
  have "length (concat (map write_key (cm_staticAccountKeys m))) = 32 * length (cm_staticAccountKeys m)"
    using assms(2) by (intro length_concat_mult) (simp add: length_write_key)
  moreover have "length (concat (map write_key (cm_staticAccountKeys m))) \<le> length (write_message m)"
    by (simp add: write_message_def write_vec_def)
  ultimately show "length (cm_staticAccountKeys m) \<le> 38" using assms(1) by linarith
next
  assume "ix \<in> set (cm_instructions m)"
  then have "length (encode_instruction ix) \<le> length (concat (map encode_instruction (cm_instructions m)))"
    by (rule length_le_concat)
  also have "\<dots> \<le> length (write_message m)" by (simp add: write_message_def write_vec_def)
  finally show "length (encode_instruction ix) \<le> 1232" using assms(1) by simp
next
  assume "lut \<in> set (cm_addressTableLookups m)"
  then have "length (write_lookup lut) \<le> length (concat (map write_lookup (cm_addressTableLookups m)))"
    by (rule length_le_concat)
  also have "\<dots> \<le> length (write_message m)" by (simp add: write_message_def write_vec_def)
  finally show "length (write_lookup lut) \<le> 1232" using assms(1) by simp
qed

lemma length_concat_u8: "length (concat (map Writer_u8 xs)) = length xs"
  by (induction xs) (auto simp: Writer_u8_def)

lemma instruction_ok_small:
  "length (encode_instruction ix) \<le> 1232 \<Longrightarrow> programIdIndex ix < 256 \<Longrightarrow>
   \<forall>a \<in> set (accountIndexes ix). a < 256 \<Longrightarrow> instruction_ok ix"
  by (simp add: instruction_ok_def short_list_def encode_instruction_def length_concat_u8)

lemma lookup_ok_small:
  "length (write_lookup lut) \<le> 1232 \<Longrightarrow> isValidPubkey (accountKey lut) \<Longrightarrow>
   \<forall>i \<in> set (writableIndexes lut) \<union> set (readonlyIndexes lut). i < 256 \<Longrightarrow> lookup_ok lut"
  by (simp add: lookup_ok_def short_list_def write_lookup_def write_vec_def length_concat_u8)

lemma read_version_write: "v < 256 \<Longrightarrow> read_version (Writer_u8 128 @ Writer_u8 v @ r) = Inr ((V0, v), r)"
  by (simp add: read_version_def u8.dec_enc)


section \<open>The round trip\<close>

lemma find_None: "(\<forall>x \<in> set xs. \<not> P x) \<Longrightarrow> find P xs = None"
  by (simp add: find_None_iff)

lemma read_lookups_V0:
  assumes "length luts \<le> 16" and "\<forall>lut \<in> set luts. lookup_ok lut"
  shows "read_lookups V0 (Writer_shortVec (length luts) @ concat (map write_lookup luts) @ r) = Inr (luts, r)"
  using assms by (simp add: read_lookups_def Reader_Writer_shortVec lookup.read_times_enc)

lemma decode_written_message:
  assumes "sendable m" and keys: "\<forall>k \<in> set (cm_staticAccountKeys m). isValidPubkey k"
    and bh: "isValidPubkey (cm_recentBlockhash m)" and len: "length (write_message m) \<le> 1232"
    and n: "0 < n" "n \<le> 8" and sigs: "length sigs = n * 64"
  shows "decodeTransaction (Writer_shortVec n @ sigs @ write_message m) =
    Inr (decoded_message m (write_message m) \<lparr>signatureCount := n\<rparr>)"
proof -
  have nrs: "0 < cm_numRequiredSignatures m" "cm_numRequiredSignatures m \<le> length (cm_staticAccountKeys m)"
      "cm_numRequiredSignatures m < 256"
    and ro: "cm_numReadonlySignedAccounts m < 256" "cm_numReadonlyUnsignedAccounts m < 256"
    and cnt: "length (cm_instructions m) \<le> 64" "length (cm_addressTableLookups m) \<le> 16"
    and pid: "\<forall>ix \<in> set (cm_instructions m). programIdIndex ix < length (cm_staticAccountKeys m)"
    using assms(1) by (auto simp: sendable_def)
  have k38: "length (cm_staticAccountKeys m) \<le> 38"
    by (rule message_part_lengths [OF len keys])
  have ixs: "\<forall>ix \<in> set (cm_instructions m). instruction_ok ix"
  proof
    fix ix assume ix: "ix \<in> set (cm_instructions m)"
    with assms(1) k38 have "programIdIndex ix < 256" "\<forall>a \<in> set (accountIndexes ix). a < 256"
      by (auto simp: sendable_def)
    with message_part_lengths(2) [OF len keys ix] show "instruction_ok ix"
      by (rule instruction_ok_small)
  qed
  have luts: "\<forall>lut \<in> set (cm_addressTableLookups m). lookup_ok lut"
  proof
    fix lut assume lut: "lut \<in> set (cm_addressTableLookups m)"
    with assms(1) have "isValidPubkey (accountKey lut)"
      "\<forall>i \<in> set (writableIndexes lut) \<union> set (readonlyIndexes lut). i < 256"
      by (auto simp: sendable_def)
    with message_part_lengths(3) [OF len keys lut] show "lookup_ok lut"
      by (rule lookup_ok_small)
  qed
  have version: "read_version (write_message m) = Inr ((V0, cm_numRequiredSignatures m),
     Writer_u8 (cm_numReadonlySignedAccounts m) @ Writer_u8 (cm_numReadonlyUnsignedAccounts m) @
     Writer_shortVec (length (cm_staticAccountKeys m)) @ concat (map write_key (cm_staticAccountKeys m)) @
     write_key (cm_recentBlockhash m) @
     Writer_shortVec (length (cm_instructions m)) @ concat (map encode_instruction (cm_instructions m)) @
     Writer_shortVec (length (cm_addressTableLookups m)) @ concat (map write_lookup (cm_addressTableLookups m)))"
    using nrs by (simp add: write_message_def write_vec_def read_version_write)
  have found: "find (\<lambda>ix. programIdIndex ix \<ge> length (cm_staticAccountKeys m)) (cm_instructions m) = None"
    using pid by (auto intro!: find_None)
  have sig: "Reader_bytes (n * SIGNATURE_LEN) (sigs @ write_message m) = Inr (sigs, write_message m)"
    using sigs by (simp add: Reader_bytes_append SIGNATURE_LEN_def)
  have k0: "0 < length (cm_staticAccountKeys m)"
    using nrs by linarith
  show ?thesis
    unfolding decodeTransaction_def
    using n nrs ro cnt k38 k0 found bh
    by (simp add: Reader_Writer_shortVec sig version u8.dec_enc pubkey.dec_enc
        pubkey.read_times_enc [OF keys refl] instruction.read_times_enc [OF ixs refl]
        read_lookups_V0 [OF cnt(2) luts, of "[]", simplified] decoded_message_def)
qed


text \<open>The message a decoded v0 transaction carries, as the encoder's input.\<close>

definition as_message :: "DecodedTransaction \<Rightarrow> CompiledMessage" where
  "as_message tx =
     \<lparr>cm_numRequiredSignatures = numRequiredSignatures tx,
      cm_numReadonlySignedAccounts = numReadonlySignedAccounts tx,
      cm_numReadonlyUnsignedAccounts = numReadonlyUnsignedAccounts tx,
      cm_staticAccountKeys = staticAccountKeys tx, cm_recentBlockhash = recentBlockhash tx,
      cm_instructions = instructions tx, cm_addressTableLookups = addressTableLookups tx,
      cm_feePayer = hd (staticAccountKeys tx), cm_writableAccounts = [], cm_readonlyAccounts = []\<rparr>"

lemma as_message_decoded:
  "write_message (as_message (decoded_message m bs)) = write_message m"
  by (simp add: write_message_def as_message_def decoded_message_def)

lemma read_version_V0:
  assumes "read_version bs = Inr ((V0, h), r)"
  shows "h < 256 \<and> bs = Writer_u8 128 @ Writer_u8 h @ r"
proof -
  from assms obtain p r' where p: "Reader_u8 bs = Inr (p, r')" and "p AND 128 \<noteq> 0" "p AND 127 = 0"
    and h: "Reader_u8 r' = Inr (h, r)"
    by (auto simp: read_version_def ebind_eq_Inr Let_def split: if_splits)
  moreover from u8.enc_dec [OF p] have "p < 256" by simp
  ultimately have "p = 128" by (auto simp: and_127 and_128_eq_0)
  with u8.enc_dec [OF p] u8.enc_dec [OF h] show ?thesis by simp
qed

lemma read_lookups_V0_Inr:
  assumes "read_lookups V0 bs = Inr (luts, r)"
  shows "length luts \<le> 16 \<and> (\<forall>lut \<in> set luts. lookup_ok lut) \<and> bs = write_vec write_lookup luts @ r"
proof -
  from assms obtain n r' where "Reader_shortVec bs = Inr (n, r')" and "n \<le> 16"
    and t: "read_times n read_lookup r' = Inr (luts, r)"
    by (auto simp: read_lookups_def ebind_eq_Inr split: if_splits)
  with Writer_Reader_shortVec [of bs n r'] lookup.read_times_dec [OF t] show ?thesis
    by (simp add: write_vec_def)
qed

text \<open>Everything an accepted transaction is known to be.\<close>

lemma decodeTransaction_Inr:
  assumes "decodeTransaction raw = Inr tx"
  obtains sigs where "raw = Writer_shortVec (signatureCount tx) @ sigs @ messageBytes tx"
    and "length sigs = signatureCount tx * 64" and "0 < signatureCount tx" and "signatureCount tx \<le> 8"
    and "0 < numRequiredSignatures tx" and "numRequiredSignatures tx \<le> length (staticAccountKeys tx)"
    and "length (staticAccountKeys tx) \<le> 256" and "\<forall>k \<in> set (staticAccountKeys tx). isValidPubkey k"
    and "isValidPubkey (recentBlockhash tx)" and "length (instructions tx) \<le> 64"
    and "\<forall>ix \<in> set (instructions tx). instruction_ok ix \<and> programIdIndex ix < length (staticAccountKeys tx)"
    and "numReadonlySignedAccounts tx < 256" and "numReadonlyUnsignedAccounts tx < 256"
    and "tx_version tx = V0 \<Longrightarrow> messageBytes tx = write_message (as_message tx)"
    and "tx_version tx = V0 \<Longrightarrow> length (addressTableLookups tx) \<le> 16 \<and> (\<forall>lut \<in> set (addressTableLookups tx). lookup_ok lut)"
proof -
  from assms obtain n r0 sigs msg v h r1 ro r2 ru r3 kc r4 keys r5 bh r6 ic r7 ixs r8 luts where
    sc: "Reader_shortVec raw = Inr (n, r0)" and n: "n \<noteq> 0" "n \<le> 8"
    and sb: "Reader_bytes (n * SIGNATURE_LEN) r0 = Inr (sigs, msg)"
    and ver: "read_version msg = Inr ((v, h), r1)"
    and ro: "Reader_u8 r1 = Inr (ro, r2)" and ru: "Reader_u8 r2 = Inr (ru, r3)"
    and kc: "Reader_shortVec r3 = Inr (kc, r4)" "kc \<noteq> 0" "kc \<le> 256"
    and keys: "read_times kc read_key r4 = Inr (keys, r5)" and bh: "read_key r5 = Inr (bh, r6)"
    and ic: "Reader_shortVec r6 = Inr (ic, r7)" "ic \<le> 64"
    and ixs: "read_times ic read_instruction r7 = Inr (ixs, r8)"
    and luts: "read_lookups v r8 = Inr (luts, [])" and h: "h \<noteq> 0" "h \<le> length keys"
    and found: "find (\<lambda>ix. programIdIndex ix \<ge> length keys) ixs = None"
    and tx: "tx = \<lparr>tx_version = v, signatureCount = n, numRequiredSignatures = h,
      numReadonlySignedAccounts = ro, numReadonlyUnsignedAccounts = ru, staticAccountKeys = keys,
      recentBlockhash = bh, instructions = ixs, addressTableLookups = luts, messageBytes = msg\<rparr>"
    unfolding decodeTransaction_def
    by (auto simp: ebind_eq_Inr split: if_splits option.splits)
  note facts = Writer_Reader_shortVec [OF sc] sb [unfolded Reader_bytes_Inr] u8.enc_dec [OF ro]
    u8.enc_dec [OF ru] Writer_Reader_shortVec [OF kc(1)] pubkey.read_times_dec [OF keys]
    pubkey.enc_dec [OF bh] Writer_Reader_shortVec [OF ic(1)] instruction.read_times_dec [OF ixs]
  have pid: "\<forall>ix \<in> set ixs. programIdIndex ix < length keys"
    using found by (auto simp: find_None_iff)
  have msg: "v = V0 \<Longrightarrow> msg = write_message (as_message tx)"
    using read_version_V0 [of msg h r1] read_lookups_V0_Inr [of r8 luts "[]"] ver luts facts
    by (simp add: write_message_def as_message_def tx write_vec_def)
  have l16: "v = V0 \<Longrightarrow> length luts \<le> 16 \<and> (\<forall>lut \<in> set luts. lookup_ok lut)"
    using read_lookups_V0_Inr [of r8 luts "[]"] luts by simp
  have raw: "raw = Writer_shortVec n @ sigs @ msg" and sl: "length sigs = n * 64"
    using facts(1, 2) by (simp_all add: SIGNATURE_LEN_def)
  have h256: "ro < 256" "ru < 256" using facts(3, 4) by simp_all
  have keysok: "kc = length keys" "\<forall>k \<in> set keys. isValidPubkey k" "isValidPubkey bh"
    using facts(6, 7) by simp_all
  have ixsok: "ic = length ixs" "\<forall>ix \<in> set ixs. instruction_ok ix" using facts(9) by simp_all
  have fields: "tx_version tx = v" "signatureCount tx = n" "numRequiredSignatures tx = h"
      "numReadonlySignedAccounts tx = ro" "numReadonlyUnsignedAccounts tx = ru" "staticAccountKeys tx = keys"
      "recentBlockhash tx = bh" "instructions tx = ixs" "addressTableLookups tx = luts" "messageBytes tx = msg"
    by (simp_all add: tx)
  show ?thesis
  proof (rule that [of sigs], unfold fields)
    show "raw = Writer_shortVec n @ sigs @ msg" by (fact raw)
    show "v = V0 \<Longrightarrow> msg = write_message (as_message tx)" by (fact msg)
    show "v = V0 \<Longrightarrow> length luts \<le> 16 \<and> (\<forall>lut \<in> set luts. lookup_ok lut)" by (fact l16)
  qed (use sl n h h256 keysok ixsok kc(3) ic(2) pid in simp_all)
qed


lemma decode_encoded:
  assumes "sendable m" and "encodeUnsignedTransaction m = Inr raw"
  shows "decodeTransaction raw = Inr (decoded_message m (write_message m))"
proof -
  note parts = encodeUnsigned_parts [OF assms(2, 1)]
  have n: "0 < cm_numRequiredSignatures m" "cm_numRequiredSignatures m \<le> 8"
    using assms(1) by (simp_all add: sendable_def)
  have "length (concat (replicate (cm_numRequiredSignatures m) (replicate 64 (0 :: byte)))) =
      cm_numRequiredSignatures m * 64"
    by (simp add: length_concat sum_list_replicate)
  from decode_written_message [OF assms(1) parts(2, 3, 4) n this] parts(5) show ?thesis
    by (simp add: decoded_message_def)
qed

section \<open>Properties\<close>

text \<open>C29: whatever the encoder emits, the independently written strict decoder reads back field for field: a message within the decoder's plausibility limits, once serialized into a packet, decodes to exactly its own signature count, header, keys, blockhash, instructions and lookups, over exactly the bytes \<open>encodeMessage\<close> produced for signing.\<close>

theorem decode_encodeUnsignedTransaction:
  assumes "sendable m" and "encodeUnsignedTransaction m = Inr raw"
  shows "\<exists>bs. encodeMessage m = Inr bs \<and> decodeTransaction raw = Inr (decoded_message m bs)"
  using decode_encoded [OF assms] encodeUnsigned_parts(1) [OF assms(2, 1)] by simp

text \<open>the decoder is canonical. An accepted v0 transaction re-encodes to the very bytes that were read: its message bytes are the serialization of its own fields, and the packet is the signature count, that many 64-byte signatures and the message. No second byte string decodes to the same signatures and message.\<close>

theorem decodeTransaction_canonical:
  assumes "decodeTransaction raw = Inr tx" and "tx_version tx = V0"
  shows "encodeMessage (as_message tx) = Inr (messageBytes tx) \<and>
    (\<exists>sigs. length sigs = signatureCount tx * SIGNATURE_LEN \<and>
       raw = Writer_shortVec (signatureCount tx) @ sigs @ messageBytes tx)"
  using assms(1)
proof (rule decodeTransaction_Inr)
  fix sigs
  assume d: "raw = Writer_shortVec (signatureCount tx) @ sigs @ messageBytes tx"
    "length sigs = signatureCount tx * 64" "\<forall>k \<in> set (staticAccountKeys tx). isValidPubkey k"
    "isValidPubkey (recentBlockhash tx)"
    "tx_version tx = V0 \<Longrightarrow> messageBytes tx = write_message (as_message tx)"
    "tx_version tx = V0 \<Longrightarrow> length (addressTableLookups tx) \<le> 16 \<and> (\<forall>lut \<in> set (addressTableLookups tx). lookup_ok lut)"
  have "\<forall>lut \<in> set (cm_addressTableLookups (as_message tx)). isValidPubkey (accountKey lut)"
    using d(6) [OF assms(2)] by (simp add: as_message_def lookup_ok_def)
  from encodeMessage_write [OF this] d(3, 4) d(5) [OF assms(2)]
  have "encodeMessage (as_message tx) = Inr (messageBytes tx)"
    by (simp add: as_message_def)
  with d(1, 2) show ?thesis unfolding SIGNATURE_LEN_def by blast
qed

text \<open>C30: everything the signer assumes of an accepted transaction: between one and eight signatures, at least one required signer, no more signers than static keys, every static key and the blockhash a real 32-byte public key, and every instruction's program among the static keys.\<close>

theorem decodeTransaction_wellformed:
  assumes "decodeTransaction raw = Inr tx"
  shows "0 < signatureCount tx \<and> signatureCount tx \<le> 8 \<and>
    0 < numRequiredSignatures tx \<and> numRequiredSignatures tx \<le> length (staticAccountKeys tx) \<and>
    (\<forall>k \<in> set (staticAccountKeys tx). isValidPubkey k) \<and> isValidPubkey (recentBlockhash tx) \<and>
    (\<forall>ix \<in> set (instructions tx). programIdIndex ix < length (staticAccountKeys tx))"
  using assms by (rule decodeTransaction_Inr) auto


section \<open>Witnesses\<close>

text \<open>One transfer-like instruction between two keys, through the program with the all-zero key.\<close>

definition sample_key :: "byte \<Rightarrow> string" where "sample_key b = base58Encode (replicate 32 b)"

definition sample_message :: CompiledMessage where
  "sample_message =
     \<lparr>cm_numRequiredSignatures = 1, cm_numReadonlySignedAccounts = 0, cm_numReadonlyUnsignedAccounts = 1,
      cm_staticAccountKeys = [sample_key 7, sample_key 8, sample_key 0],
      cm_recentBlockhash = sample_key 9,
      cm_instructions = [\<lparr>programIdIndex = 2, accountIndexes = [0, 1], ix_data = [2, 0, 0, 0]\<rparr>],
      cm_addressTableLookups =
        [\<lparr>accountKey = sample_key 3, writableIndexes = [5], readonlyIndexes = [200]\<rparr>],
      cm_feePayer = sample_key 7, cm_writableAccounts = [], cm_readonlyAccounts = []\<rparr>"

definition sample_raw :: bytes where
  "sample_raw = Writer_shortVec 1 @ replicate 64 0 @ write_message sample_message"

lemma sample_key [simp]: "isValidPubkey (sample_key b)" "write_key (sample_key b) = replicate 32 b"
  "base58Decode (sample_key b) = Inr (replicate 32 b)"
  by (auto simp: sample_key_def isValidPubkey_iff intro!: exI [of _ "replicate 32 b"])

lemma length_Writer_shortVec_small [simp]: "n < 128 \<Longrightarrow> length (Writer_shortVec n) = 1"
  by (subst Writer_shortVec.simps) (simp add: drop_bit_eq_div Let_def)

lemma length_Writer_u8 [simp]: "length (Writer_u8 n) = 1"
  by (simp add: Writer_u8_def)

lemma sample_sendable: "sendable sample_message"
  by (simp add: sendable_def sample_message_def)

lemma sample_encoded: "encodeMessage sample_message = Inr (write_message sample_message)"
  by (subst encodeMessage_write) (simp_all add: sample_message_def)

lemma sample_encodeUnsigned: "encodeUnsignedTransaction sample_message = Inr sample_raw"
proof -
  have one: "cm_numRequiredSignatures sample_message = 1" by (simp add: sample_message_def)
  have "length (write_message sample_message) \<le> 1000"
    by (simp add: write_message_def write_vec_def sample_message_def write_lookup_def encode_instruction_def)
  then show ?thesis
    by (simp add: encodeUnsignedTransaction_def sample_encoded sample_raw_def one SIGNATURE_LEN_def MAX_PACKET_BYTES_def)
qed

lemma decode_encodeUnsignedTransaction_witness:
  "\<exists>bs. encodeMessage sample_message = Inr bs \<and> decodeTransaction sample_raw = Inr (decoded_message sample_message bs)"
  by (rule decode_encodeUnsignedTransaction [OF sample_sendable sample_encodeUnsigned])

lemma sample_decoded:
  "decodeTransaction sample_raw = Inr (decoded_message sample_message (write_message sample_message))"
  by (rule decode_encoded [OF sample_sendable sample_encodeUnsigned])

lemma decodeTransaction_canonical_witness:
  "encodeMessage (as_message (decoded_message sample_message (write_message sample_message))) =
     Inr (write_message sample_message)"
  using decodeTransaction_canonical [OF sample_decoded] by (simp add: decoded_message_def)

lemma decodeTransaction_wellformed_witness:
  "numRequiredSignatures (decoded_message sample_message (write_message sample_message)) \<le> 3"
  using decodeTransaction_wellformed [OF sample_decoded]
  by (simp add: decoded_message_def sample_message_def)

end
