(* ===== verification/Compile.thy ===== *)
theory Compile
  imports Transaction
begin

text \<open>
  \<open>compileMessage\<close> of \<open>packages/solana/src/encode.ts\<close>: from router instructions to a v0
  message. The account metas become a \<open>Map\<close> of privileges, the static keys are ordered by
  privilege, the rest is loaded from lookup tables, and every instruction is rewritten to
  indexes into the runtime's key list. The lemmas show that the indexes name the accounts
  the router named, and that position grants exactly the union of the privileges it asked for.
\<close>

section \<open>Base64, as \<open>Buffer\<close> reads and prints it\<close>

definition b64_value :: "char \<Rightarrow> nat option" where
  "b64_value ch = (let c = (of_char ch :: nat) in
     if 65 \<le> c \<and> c \<le> 90 then Some (c - 65)
     else if 97 \<le> c \<and> c \<le> 122 then Some (c - 71)
     else if 48 \<le> c \<and> c \<le> 57 then Some (c + 4)
     else if c = 43 \<or> c = 45 then Some 62
     else if c = 47 \<or> c = 95 then Some 63
     else None)"

definition b64_char :: "nat \<Rightarrow> char" where
  "b64_char v = char_of (if v < 26 then v + 65 else if v < 52 then v + 71
     else if v < 62 then v - 4 else if v = 62 then 43 else 47)"

fun b64_groups :: "nat list \<Rightarrow> bytes" where
  "b64_groups (a # b # c # d # r) =
     word_of_nat (a * 4 + b div 16) # word_of_nat (b mod 16 * 16 + c div 4) #
     word_of_nat (c mod 4 * 64 + d) # b64_groups r"
| "b64_groups [a, b, c] = [word_of_nat (a * 4 + b div 16), word_of_nat (b mod 16 * 16 + c div 4)]"
| "b64_groups [a, b] = [word_of_nat (a * 4 + b div 16)]"
| "b64_groups _ = []"

text \<open>\<open>Buffer.from(s, 'base64')\<close>: characters outside the alphabet are skipped, padding ends the data.\<close>

definition base64_decode :: "string \<Rightarrow> bytes" where
  "base64_decode s = b64_groups (List.map_filter b64_value (takeWhile (\<lambda>c. of_char c \<noteq> (61 :: nat)) s))"

fun base64_encode :: "bytes \<Rightarrow> string" where
  "base64_encode (x # y # z # r) =
     b64_char (unat x div 4) # b64_char (unat x mod 4 * 16 + unat y div 16) #
     b64_char (unat y mod 16 * 4 + unat z div 64) # b64_char (unat z mod 64) # base64_encode r"
| "base64_encode [x, y] =
     [b64_char (unat x div 4), b64_char (unat x mod 4 * 16 + unat y div 16),
      b64_char (unat y mod 16 * 4), char_of (61 :: nat)]"
| "base64_encode [x] =
     [b64_char (unat x div 4), b64_char (unat x mod 4 * 16), char_of (61 :: nat), char_of (61 :: nat)]"
| "base64_encode [] = []"

lemma of_char_b64_char:
  "v < 64 \<Longrightarrow> (of_char (b64_char v) :: nat) = (if v < 26 then v + 65 else if v < 52 then v + 71
     else if v < 62 then v - 4 else if v = 62 then 43 else 47)"
  by (simp add: b64_char_def)

lemma b64_value_char [simp]: "v < 64 \<Longrightarrow> b64_value (b64_char v) = Some v"
  by (simp add: b64_value_def of_char_b64_char Let_def) presburger

lemma b64_char_not_pad [simp]: "v < 64 \<Longrightarrow> of_char (b64_char v) \<noteq> (61 :: nat)"
  by (auto simp: of_char_b64_char)

lemma join_div_mod:
  fixes p q m :: nat
  assumes "p < m"
  shows "(q * m + p) div m = q" and "(q * m + p) mod m = p"
  using assms by simp_all

lemma b64_byte_parts:
  fixes x y z :: nat
  assumes "x < 256" and "y < 256" and "z < 256"
  shows "x div 4 < 64" "x mod 4 * 16 + y div 16 < 64" "y mod 16 * 4 + z div 64 < 64" "z mod 64 < 64"
    "x mod 4 * 16 < 64" "y mod 16 * 4 < 64"
    "x div 4 * 4 + (x mod 4 * 16 + y div 16) div 16 = x"
    "(x mod 4 * 16 + y div 16) mod 16 * 16 + (y mod 16 * 4 + z div 64) div 4 = y"
    "(y mod 16 * 4 + z div 64) mod 4 * 64 + z mod 64 = z"
proof -
  have b: "x div 4 < 64" "y div 16 < 16" "z div 64 < 4" "x mod 4 < 4" "y mod 16 < 16" "z mod 64 < 64"
    using assms by (simp_all add: less_mult_imp_div_less)
  then show "x div 4 < 64" "x mod 4 * 16 + y div 16 < 64" "y mod 16 * 4 + z div 64 < 64" "z mod 64 < 64"
    "x mod 4 * 16 < 64" "y mod 16 * 4 < 64"
    by linarith+
  show "x div 4 * 4 + (x mod 4 * 16 + y div 16) div 16 = x"
    "(x mod 4 * 16 + y div 16) mod 16 * 16 + (y mod 16 * 4 + z div 64) div 4 = y"
    "(y mod 16 * 4 + z div 64) mod 4 * 64 + z mod 64 = z"
    using b by (simp_all add: join_div_mod)
qed

lemma base64_decode_chars:
  assumes "a < 64" and "b < 64" and "c < 64"
  shows "d < 64 \<Longrightarrow> base64_decode (b64_char a # b64_char b # b64_char c # b64_char d # r) =
      word_of_nat (a * 4 + b div 16) # word_of_nat (b mod 16 * 16 + c div 4) #
      word_of_nat (c mod 4 * 64 + d) # base64_decode r"
    and "base64_decode [b64_char a, b64_char b, b64_char c, char_of (61 :: nat)] =
      [word_of_nat (a * 4 + b div 16), word_of_nat (b mod 16 * 16 + c div 4)]"
    and "base64_decode [b64_char a, b64_char b, char_of (61 :: nat), char_of (61 :: nat)] =
      [word_of_nat (a * 4 + b div 16)]"
    and "base64_decode [] = []"
  using assms by (simp_all add: base64_decode_def map_filter_simps del: of_nat_add of_nat_mult)

lemma base64_decode_encode [simp]: "base64_decode (base64_encode bs) = bs"
proof (induction bs rule: base64_encode.induct)
  case (1 x y z r)
  note p = b64_byte_parts [OF unat_byte [of x] unat_byte [of y] unat_byte [of z]]
  show ?case
    by (simp only: base64_encode.simps base64_decode_chars(1) [OF p(1-4)] p(7-9) byte_of_nat_unat 1)
next
  case (2 x y)
  note p = b64_byte_parts [OF unat_byte [of x] unat_byte [of y], of 0]
  show ?case
    using p(8) by (simp only: base64_encode.simps base64_decode_chars(2) [OF p(1, 2, 6)] p(7) byte_of_nat_unat
        div_0 add_0_right zero_less_numeral simp_thms)
next
  case (3 x)
  note p = b64_byte_parts [OF unat_byte [of x], of 0 0]
  show ?case
    using p(7) by (simp only: base64_encode.simps base64_decode_chars(3) [OF p(1, 5, 1)] byte_of_nat_unat
        div_0 add_0_right zero_less_numeral simp_thms)
qed (simp add: base64_decode_def map_filter_simps)


lemma base64_decode_Nil [simp]: "base64_decode [] = []"
  using base64_decode_encode [of "[]"] by simp

section \<open>Instructions and privileges\<close>

record AccountMeta =
  pubkey :: string
  isSigner :: bool
  isWritable :: bool

record RawInstruction =
  programId :: string
  accounts :: "AccountMeta list option"
  ri_data :: "string option"

record privilege =
  p_signer :: bool
  p_writable :: bool

type_synonym metas = "(string \<times> privilege) list"
type_synonym lookup_tables = "(string \<times> string list) list"

text \<open>\<open>ix.accounts ?? []\<close>\<close>

definition ix_accounts :: "RawInstruction \<Rightarrow> AccountMeta list" where
  "ix_accounts ix = (case accounts ix of None \<Rightarrow> [] | Some as \<Rightarrow> as)"

text \<open>The closure \<open>note\<close>: an account's privileges are the union of every appearance.\<close>

definition note_meta :: "string \<Rightarrow> bool \<Rightarrow> bool \<Rightarrow> metas \<Rightarrow> metas" where
  "note_meta k s w m =
     (let prev = js_get m k in
      js_set k \<lparr>p_signer = (case prev of None \<Rightarrow> False | Some p \<Rightarrow> p_signer p) \<or> s,
               p_writable = (case prev of None \<Rightarrow> False | Some p \<Rightarrow> p_writable p) \<or> w\<rparr> m)"

fun note_accounts :: "AccountMeta list \<Rightarrow> metas \<Rightarrow> encode_error + metas" where
  "note_accounts [] m = Inr m"
| "note_accounts (a # as) m =
     (if length (pubkey a) = 0 then Inl (EncodeError BAD_ACCOUNT)
      else note_accounts as (note_meta (pubkey a) (isSigner a) (isWritable a) m))"

fun note_instructions :: "RawInstruction list \<Rightarrow> metas \<Rightarrow> encode_error + metas" where
  "note_instructions [] m = Inr m"
| "note_instructions (ix # ixs) m = ebind (note_accounts (ix_accounts ix) m) (note_instructions ixs)"

fun note_programs :: "RawInstruction list \<Rightarrow> string list \<times> metas \<Rightarrow> string list \<times> metas" where
  "note_programs [] st = st"
| "note_programs (ix # ixs) (ps, m) =
     note_programs ixs (js_add (programId ix) ps, note_meta (programId ix) False False m)"

text \<open>\<open>altAddresses\<close>: the first table and index that provide an address.\<close>

fun alt_entries :: "string \<Rightarrow> string list \<Rightarrow> nat \<Rightarrow> (string \<times> string \<times> nat) list \<Rightarrow> (string \<times> string \<times> nat) list" where
  "alt_entries t [] i m = m"
| "alt_entries t (a # as) i m = alt_entries t as (Suc i) (if js_get m a = None then js_set a (t, i) m else m)"

fun altAddresses :: "lookup_tables \<Rightarrow> (string \<times> string \<times> nat) list \<Rightarrow> (string \<times> string \<times> nat) list" where
  "altAddresses [] m = m"
| "altAddresses ((t, as) # ts) m = altAddresses ts (alt_entries t as 0 m)"

definition static_entry :: "string list \<Rightarrow> (string \<times> string \<times> nat) list \<Rightarrow> string \<times> privilege \<Rightarrow> bool" where
  "static_entry programIds alts = (\<lambda>(k, p). p_signer p \<or> k \<in> set programIds \<or> js_get alts k = None)"

section \<open>Lookups\<close>

type_synonym alt_use = "(string \<times> nat list \<times> nat list) list"

text \<open>The body of the loop that groups loaded addresses by table.\<close>

definition use_alt :: "string list \<Rightarrow> (string \<times> string \<times> nat) list \<Rightarrow> string \<times> privilege \<Rightarrow> alt_use \<Rightarrow> alt_use" where
  "use_alt programIds alts = (\<lambda>(k, p) used.
     case js_get alts k of
       None \<Rightarrow> used
     | Some (t, i) \<Rightarrow>
         if p_signer p \<or> k \<in> set programIds then used
         else
           let (ws, rs) = (case js_get used t of None \<Rightarrow> ([], []) | Some e \<Rightarrow> e)
           in js_set t (if p_writable p then (ws @ [i], rs) else (ws, rs @ [i])) used)"

definition message_lookups :: "alt_use \<Rightarrow> AddressTableLookup list" where
  "message_lookups used =
     map (\<lambda>(k, ws, rs). \<lparr>accountKey = k, writableIndexes = ws, readonlyIndexes = rs\<rparr>)
       (filter (\<lambda>(k, ws, rs). length ws > 0 \<or> length rs > 0) used)"

text \<open>\<open>lookupTables[table]?.[index]\<close>\<close>

definition resolveEntry :: "lookup_tables \<Rightarrow> string \<Rightarrow> nat \<Rightarrow> string option" where
  "resolveEntry tables t i =
     (case js_get tables t of None \<Rightarrow> None | Some as \<Rightarrow> if i < length as then Some (as ! i) else None)"

text \<open>\<open>indexOf\<close>, \<open>next\<close> and the loaded keys in runtime order.\<close>

type_synonym key_index = "(string \<times> nat) list \<times> nat \<times> string list"

definition load_key :: "lookup_tables \<Rightarrow> string \<Rightarrow> nat \<Rightarrow> key_index \<Rightarrow> key_index" where
  "load_key tables t i = (\<lambda>(idx, n, order).
     case resolveEntry tables t i of
       None \<Rightarrow> (idx, n, order)
     | Some k \<Rightarrow> if js_get idx k = None then (js_set k n idx, Suc n, order @ [k]) else (idx, n, order))"

definition load_lookups :: "lookup_tables \<Rightarrow> (AddressTableLookup \<Rightarrow> nat list) \<Rightarrow> AddressTableLookup list \<Rightarrow> key_index \<Rightarrow> key_index" where
  "load_lookups tables sel luts st = fold (\<lambda>lut. fold (load_key tables (accountKey lut)) (sel lut)) luts st"

fun index_static :: "string list \<Rightarrow> nat \<Rightarrow> (string \<times> nat) list \<Rightarrow> (string \<times> nat) list" where
  "index_static [] i idx = idx"
| "index_static (k # ks) i idx = index_static ks (Suc i) (js_set k i idx)"

definition index_of :: "(string \<times> nat) list \<Rightarrow> string \<Rightarrow> encode_error + nat" where
  "index_of idx k = (case js_get idx k of None \<Rightarrow> Inl (EncodeError BAD_ACCOUNT) | Some i \<Rightarrow> Inr i)"

definition compile_instruction :: "(string \<times> nat) list \<Rightarrow> RawInstruction \<Rightarrow> encode_error + CompiledInstruction" where
  "compile_instruction idx ix =
     ebind (index_of idx (programId ix)) (\<lambda>p.
     ebind (emap (\<lambda>a. index_of idx (pubkey a)) (ix_accounts ix)) (\<lambda>as.
       Inr \<lparr>programIdIndex = p, accountIndexes = as,
            ix_data = (case ri_data ix of None \<Rightarrow> [] | Some s \<Rightarrow> base64_decode s)\<rparr>))"

text \<open>Static keys in privilege order, the fee payer first.\<close>

definition keys_where :: "(privilege \<Rightarrow> bool) \<Rightarrow> metas \<Rightarrow> string list" where
  "keys_where P es = map fst (filter (\<lambda>(k, p). P p) es)"

definition compileMessage ::
  "RawInstruction list \<Rightarrow> string \<Rightarrow> string \<Rightarrow> lookup_tables \<Rightarrow> encode_error + CompiledMessage" where
  "compileMessage ixs feePayer blockhash lookupTables =
     (if length blockhash = 0 then Inl (EncodeError MISSING_BLOCKHASH)
      else if length feePayer = 0 then Inl (EncodeError NO_FEE_PAYER)
      else ebind (note_instructions ixs (note_meta feePayer True True [])) (\<lambda>noted.
        let (programIds, metas) = note_programs ixs ([], noted);
            alts = altAddresses lookupTables [];
            staticEntries = filter (static_entry programIds alts) metas;
            writableSigners = keys_where (\<lambda>p. p_signer p \<and> p_writable p) staticEntries;
            readonlySigners = keys_where (\<lambda>p. p_signer p \<and> \<not> p_writable p) staticEntries;
            writableNonSigners = keys_where (\<lambda>p. \<not> p_signer p \<and> p_writable p) staticEntries;
            readonlyNonSigners = keys_where (\<lambda>p. \<not> p_signer p \<and> \<not> p_writable p) staticEntries;
            orderedWritableSigners = feePayer # filter (\<lambda>k. k \<noteq> feePayer) writableSigners;
            staticAccountKeys = orderedWritableSigners @ readonlySigners @ writableNonSigners @ readonlyNonSigners;
            requiredSignatures = length orderedWritableSigners + length readonlySigners
        in if length staticAccountKeys > 255 then Inl (EncodeError TOO_MANY_ACCOUNTS)
           else if requiredSignatures > 8 then Inl (EncodeError TOO_MANY_SIGNERS)
           else
             let luts = message_lookups (fold (use_alt programIds alts) metas []);
                 idx0 = index_static staticAccountKeys 0 [];
                 (idx1, n1, altW) = load_lookups lookupTables writableIndexes luts (idx0, length staticAccountKeys, []);
                 (idx2, n2, altR) = load_lookups lookupTables readonlyIndexes luts (idx1, n1, [])
             in ebind (emap (compile_instruction idx2) ixs) (\<lambda>compiled. Inr
                 \<lparr>cm_numRequiredSignatures = requiredSignatures,
                  cm_numReadonlySignedAccounts = length readonlySigners,
                  cm_numReadonlyUnsignedAccounts = length readonlyNonSigners,
                  cm_staticAccountKeys = staticAccountKeys, cm_recentBlockhash = blockhash,
                  cm_instructions = compiled, cm_addressTableLookups = luts, cm_feePayer = feePayer,
                  cm_writableAccounts = orderedWritableSigners @ writableNonSigners @ altW,
                  cm_readonlyAccounts = readonlySigners @ readonlyNonSigners @ altR\<rparr>)))"


section \<open>The privileges collected\<close>

text \<open>Every call of \<open>note\<close> the compiler makes, in order.\<close>

definition account_notes :: "RawInstruction list \<Rightarrow> (string \<times> bool \<times> bool) list" where
  "account_notes ixs = concat (map (\<lambda>ix. map (\<lambda>a. (pubkey a, isSigner a, isWritable a)) (ix_accounts ix)) ixs)"

definition all_notes :: "string \<Rightarrow> RawInstruction list \<Rightarrow> (string \<times> bool \<times> bool) list" where
  "all_notes fp ixs = ((fp, True, True) # account_notes ixs) @ map (\<lambda>ix. (programId ix, False, False)) ixs"

definition note_all :: "(string \<times> bool \<times> bool) list \<Rightarrow> metas \<Rightarrow> metas" where
  "note_all ns m = fold (\<lambda>(k, s, w). note_meta k s w) ns m"

definition union_privilege :: "(string \<times> bool \<times> bool) list \<Rightarrow> string \<Rightarrow> privilege" where
  "union_privilege ns k =
     \<lparr>p_signer = (\<exists>(k', s, w) \<in> set ns. k' = k \<and> s), p_writable = (\<exists>(k', s, w) \<in> set ns. k' = k \<and> w)\<rparr>"

definition collected :: "(string \<times> bool \<times> bool) list \<Rightarrow> metas \<Rightarrow> bool" where
  "collected ns m \<longleftrightarrow> distinct (map fst m) \<and>
     (\<forall>k. js_get m k = (if k \<in> fst ` set ns then Some (union_privilege ns k) else None))"

lemma collected_Nil: "collected [] []"
  by (simp add: collected_def)

lemma collected_snoc: "collected ns m \<Longrightarrow> collected (ns @ [(k, s, w)]) (note_meta k s w m)"
  by (force simp: collected_def note_meta_def union_privilege_def js_set_distinct Let_def)

lemma collected_note_all: "collected ns m \<Longrightarrow> collected (ns @ ns') (note_all ns' m)"
proof (induction ns' arbitrary: ns m)
  case Nil
  then show ?case by (simp add: note_all_def)
next
  case (Cons n ns')
  obtain k s w where n: "n = (k, s, w)" by (cases n)
  have "collected ((ns @ [n]) @ ns') (note_all ns' (note_meta k s w m))"
    by (rule Cons.IH) (use Cons.prems n in \<open>simp add: collected_snoc\<close>)
  then show ?case by (simp add: note_all_def n)
qed

lemma note_all_append [simp]: "note_all (ns @ ns') m = note_all ns' (note_all ns m)"
  by (simp add: note_all_def)

lemma note_accounts_Inr:
  "note_accounts as m = Inr m' \<Longrightarrow> m' = note_all (map (\<lambda>a. (pubkey a, isSigner a, isWritable a)) as) m"
  by (induction as m rule: note_accounts.induct) (auto simp: note_all_def split: if_splits)

lemma note_instructions_Inr: "note_instructions ixs m = Inr m' \<Longrightarrow> m' = note_all (account_notes ixs) m"
proof (induction ixs arbitrary: m)
  case Nil
  then show ?case by (simp add: account_notes_def note_all_def)
next
  case (Cons ix ixs)
  then show ?case
    by (auto simp: ebind_eq_Inr account_notes_def dest!: note_accounts_Inr)
qed

lemma note_programs_eq:
  "note_programs ixs (ps, m) =
     (fold js_add (map programId ixs) ps, note_all (map (\<lambda>ix. (programId ix, False, False)) ixs) m)"
  by (induction ixs arbitrary: ps m) (simp_all add: note_all_def)

lemma collected_compile:
  assumes "note_instructions ixs (note_meta fp True True []) = Inr m"
  shows "collected (all_notes fp ixs) (note_all (map (\<lambda>ix. (programId ix, False, False)) ixs) m)"
proof -
  have "collected [(fp, True, True)] (note_meta fp True True [])"
    using collected_snoc [OF collected_Nil] by simp
  from collected_note_all [OF collected_note_all [OF this]] show ?thesis
    unfolding note_instructions_Inr [OF assms] all_notes_def by simp
qed

section \<open>Addresses provided by lookup tables\<close>

definition provided :: "lookup_tables \<Rightarrow> (string \<times> string \<times> nat) list \<Rightarrow> bool" where
  "provided tabs m \<longleftrightarrow> (\<forall>k t i. js_get m k = Some (t, i) \<longrightarrow> resolveEntry tabs t i = Some k)"

lemma provided_set: "provided tabs m \<Longrightarrow> resolveEntry tabs t i = Some k \<Longrightarrow> provided tabs (js_set k (t, i) m)"
  by (simp add: provided_def)

lemma provided_entries:
  "provided tabs m \<Longrightarrow> \<forall>j < length as. resolveEntry tabs t (i + j) = Some (as ! j) \<Longrightarrow>
   provided tabs (alt_entries t as i m)"
proof (induction as arbitrary: i m)
  case Nil
  then show ?case by simp
next
  case (Cons a as)
  have tail: "\<forall>j < length as. resolveEntry tabs t (Suc i + j) = Some (as ! j)"
  proof (intro allI impI)
    fix j assume "j < length as"
    with spec [OF Cons.prems(2), of "Suc j"] show "resolveEntry tabs t (Suc i + j) = Some (as ! j)" by simp
  qed
  have "resolveEntry tabs t i = Some a"
    using spec [OF Cons.prems(2), of 0] by simp
  then have "provided tabs (if js_get m a = None then js_set a (t, i) m else m)"
    using Cons.prems(1) by (simp add: provided_set)
  from Cons.IH [OF this tail] show ?case by simp
qed

lemma provided_tables:
  "distinct (map fst tabs) \<Longrightarrow> set ts \<subseteq> set tabs \<Longrightarrow> provided tabs m \<Longrightarrow> provided tabs (altAddresses ts m)"
proof (induction ts arbitrary: m)
  case Nil
  then show ?case by simp
next
  case (Cons e ts)
  obtain t as where e: "e = (t, as)" by (cases e)
  have "js_get tabs t = Some as"
    using Cons.prems e by (simp add: js_get_mem)
  then have "\<forall>j < length as. resolveEntry tabs t (0 + j) = Some (as ! j)"
    by (simp add: resolveEntry_def)
  from provided_entries [OF Cons.prems(3) this] Cons.prems show ?case
    unfolding e altAddresses.simps by (intro Cons.IH) simp_all
qed

lemma altAddresses_resolve:
  "distinct (map fst tabs) \<Longrightarrow> js_get (altAddresses tabs []) k = Some (t, i) \<Longrightarrow> resolveEntry tabs t i = Some k"
  using provided_tables [of tabs tabs "[]"] by (simp add: provided_def)

section \<open>The loaded keys\<close>

text \<open>Is the entry loaded from table \<open>t\<close>?\<close>

definition loaded_from :: "string list \<Rightarrow> (string \<times> string \<times> nat) list \<Rightarrow> string \<Rightarrow> string \<times> privilege \<Rightarrow> bool" where
  "loaded_from ps alts t = (\<lambda>(k, p). \<not> p_signer p \<and> k \<notin> set ps \<and> map_option fst (js_get alts k) = Some t)"

definition alt_index :: "(string \<times> string \<times> nat) list \<Rightarrow> string \<times> privilege \<Rightarrow> nat" where
  "alt_index alts = (\<lambda>(k, p). case js_get alts k of None \<Rightarrow> 0 | Some (t, i) \<Rightarrow> i)"

definition picked :: "string list \<Rightarrow> (string \<times> string \<times> nat) list \<Rightarrow> string \<Rightarrow> bool \<Rightarrow> metas \<Rightarrow> metas" where
  "picked ps alts t w ms = filter (\<lambda>e. loaded_from ps alts t e \<and> p_writable (snd e) = w) ms"

definition grouped :: "string list \<Rightarrow> (string \<times> string \<times> nat) list \<Rightarrow> metas \<Rightarrow> alt_use \<Rightarrow> bool" where
  "grouped ps alts ms used \<longleftrightarrow> distinct (map fst used) \<and>
     (\<forall>t. js_get used t =
        (if picked ps alts t True ms = [] \<and> picked ps alts t False ms = [] then None
         else Some (map (alt_index alts) (picked ps alts t True ms), map (alt_index alts) (picked ps alts t False ms))))"

lemma grouped_step:
  assumes "grouped ps alts ms used"
  shows "grouped ps alts (ms @ [e]) (use_alt ps alts e used)"
proof -
  obtain k p where e: "e = (k, p)" by (cases e)
  show ?thesis
  proof (cases "\<exists>t. loaded_from ps alts t e")
    case True
    then obtain t i where "js_get alts k = Some (t, i)" "\<not> p_signer p" "k \<notin> set ps"
      by (auto simp: loaded_from_def e)
    with assms show ?thesis
      by (auto simp: grouped_def use_alt_def e picked_def loaded_from_def alt_index_def js_set_distinct)
  next
    case False
    then have "use_alt ps alts e used = used"
      by (auto simp: use_alt_def e loaded_from_def split: option.splits)
    with False assms show ?thesis by (simp add: grouped_def picked_def)
  qed
qed

lemma grouped_fold: "grouped ps alts ms (fold (use_alt ps alts) ms [])"
proof (induction ms rule: rev_induct)
  case Nil
  then show ?case by (simp add: grouped_def picked_def)
next
  case (snoc e ms)
  then show ?case by (simp add: grouped_step)
qed


definition resolved_keys :: "lookup_tables \<Rightarrow> string \<Rightarrow> nat list \<Rightarrow> string list" where
  "resolved_keys tabs t is = map (\<lambda>i. case resolveEntry tabs t i of None \<Rightarrow> [] | Some k \<Rightarrow> k) is"

text \<open>
  The addresses the runtime loads: every index of one kind, table by table in the order of
  the message.
\<close>

definition loaded_keys :: "lookup_tables \<Rightarrow> (AddressTableLookup \<Rightarrow> nat list) \<Rightarrow> AddressTableLookup list \<Rightarrow> string list" where
  "loaded_keys tabs sel luts = concat (map (\<lambda>lut. resolved_keys tabs (accountKey lut) (sel lut)) luts)"

lemma resolved_picked:
  assumes "distinct (map fst tabs)" and "alts = altAddresses tabs []"
  shows "resolved_keys tabs t (map (alt_index alts) (picked ps alts t w ms)) = map fst (picked ps alts t w ms)"
proof -
  have "(case resolveEntry tabs t (alt_index alts e) of None \<Rightarrow> [] | Some k \<Rightarrow> k) = fst e"
    if "e \<in> set (picked ps alts t w ms)" for e
  proof -
    obtain k p where e: "e = (k, p)" by (cases e)
    from that obtain i where "js_get alts k = Some (t, i)" by (auto simp: picked_def loaded_from_def e)
    with altAddresses_resolve [OF assms(1), of k t i] assms(2) show ?thesis by (simp add: e alt_index_def)
  qed
  then show ?thesis by (simp add: resolved_keys_def)
qed

lemma message_lookups_mem:
  assumes "grouped ps alts ms used"
  shows "lut \<in> set (message_lookups used) \<longleftrightarrow>
    (let ws = picked ps alts (accountKey lut) True ms; rs = picked ps alts (accountKey lut) False ms
     in (ws \<noteq> [] \<or> rs \<noteq> []) \<and> writableIndexes lut = map (alt_index alts) ws \<and> readonlyIndexes lut = map (alt_index alts) rs)"
proof -
  have "lut \<in> set (message_lookups used) \<longleftrightarrow>
      (accountKey lut, writableIndexes lut, readonlyIndexes lut) \<in> set used \<and>
      (writableIndexes lut \<noteq> [] \<or> readonlyIndexes lut \<noteq> [])"
    by (cases lut) (force simp: message_lookups_def)
  moreover have "(t, e) \<in> set used \<longleftrightarrow> js_get used t = Some e" for t e
    using assms by (metis grouped_def js_get_mem)
  ultimately show ?thesis
    using assms by (auto simp: grouped_def Let_def split: if_splits)
qed

lemma message_lookups_distinct:
  "grouped ps alts ms used \<Longrightarrow> distinct (map accountKey (message_lookups used))"
  by (auto simp: grouped_def message_lookups_def distinct_map inj_on_def split_def filter_def[symmetric] o_def
      intro!: distinct_filter)

lemma distinct_concat_keyed:
  "distinct (map f xs) \<Longrightarrow> \<forall>x \<in> set xs. distinct (g x) \<and> (\<forall>k \<in> set (g x). h k = f x) \<Longrightarrow>
   distinct (concat (map g xs))"
  by (induction xs) force+

definition loads :: "lookup_tables \<Rightarrow> string list \<Rightarrow> metas \<Rightarrow> AddressTableLookup list \<Rightarrow> bool" where
  "loads tabs ps ms luts \<longleftrightarrow> distinct (map fst tabs) \<and> distinct (map fst ms) \<and>
     luts = message_lookups (fold (use_alt ps (altAddresses tabs [])) ms [])"

text \<open>The keys loaded with one privilege are exactly the entries left out of the static list.\<close>

definition wanted :: "lookup_tables \<Rightarrow> string list \<Rightarrow> metas \<Rightarrow> bool \<Rightarrow> string set" where
  "wanted tabs ps ms w = {k. \<exists>p. (k, p) \<in> set ms \<and> \<not> static_entry ps (altAddresses tabs []) (k, p) \<and> p_writable p = w}"

lemma loaded_keys_picked:
  assumes "loads tabs ps ms luts"
  shows "loaded_keys tabs writableIndexes luts =
      concat (map (\<lambda>lut. map fst (picked ps (altAddresses tabs []) (accountKey lut) True ms)) luts)"
    and "loaded_keys tabs readonlyIndexes luts =
      concat (map (\<lambda>lut. map fst (picked ps (altAddresses tabs []) (accountKey lut) False ms)) luts)"
  using assms unfolding loaded_keys_def loads_def
  by (auto intro!: arg_cong [of _ _ concat] simp: message_lookups_mem [OF grouped_fold] Let_def resolved_picked)

lemma loaded_concat:
  assumes "loads tabs ps ms luts"
  defines "ks w \<equiv> concat (map (\<lambda>lut. map fst (picked ps (altAddresses tabs []) (accountKey lut) w ms)) luts)"
  shows "distinct (ks w)" and "set (ks w) = wanted tabs ps ms w"
proof -
  have dist: "distinct (map fst ms)" and luts: "luts = message_lookups (fold (use_alt ps (altAddresses tabs [])) ms [])"
    using assms(1) by (simp_all add: loads_def)
  have "distinct (map fst (picked ps (altAddresses tabs []) t w ms))" for t
    using dist by (simp add: picked_def distinct_map_filter)
  moreover have "fst (the (js_get (altAddresses tabs []) k)) = t"
    if "k \<in> set (map fst (picked ps (altAddresses tabs []) t w ms))" for k t
    using that by (auto simp: picked_def loaded_from_def)
  ultimately show "distinct (ks w)" unfolding ks_def
    using message_lookups_distinct [OF grouped_fold, of ps "altAddresses tabs []" ms]
    by (intro distinct_concat_keyed [where f = accountKey and h = "\<lambda>k. fst (the (js_get (altAddresses tabs []) k))"])
      (auto simp: luts)
  have *: "t \<in> accountKey ` set luts" if "picked ps (altAddresses tabs []) t w ms \<noteq> []" for t
    using that unfolding luts
    by (intro image_eqI [of _ _ "\<lparr>accountKey = t,
          writableIndexes = map (alt_index (altAddresses tabs [])) (picked ps (altAddresses tabs []) t True ms),
          readonlyIndexes = map (alt_index (altAddresses tabs [])) (picked ps (altAddresses tabs []) t False ms)\<rparr>"])
      (cases w; simp add: message_lookups_mem [OF grouped_fold])+
  show "set (ks w) = wanted tabs ps ms w"
  proof
    show "set (ks w) \<subseteq> wanted tabs ps ms w"
      by (force simp: ks_def wanted_def picked_def loaded_from_def static_entry_def)
    show "wanted tabs ps ms w \<subseteq> set (ks w)"
    proof
      fix k assume "k \<in> wanted tabs ps ms w"
      then obtain p t i where "(k, p) \<in> set ms" "p_writable p = w" "\<not> p_signer p" "k \<notin> set ps"
        "js_get (altAddresses tabs []) k = Some (t, i)"
        by (auto simp: wanted_def static_entry_def)
      then have in_t: "(k, p) \<in> set (picked ps (altAddresses tabs []) t w ms)"
        by (simp add: picked_def loaded_from_def)
      then have "t \<in> accountKey ` set luts" by (intro *) auto
      then obtain lut where "lut \<in> set luts" "accountKey lut = t" by auto
      with in_t show "k \<in> set (ks w)" by (force simp: ks_def)
    qed
  qed
qed

lemma loads_resolve:
  assumes "loads tabs ps ms luts" and "lut \<in> set luts"
    and "i \<in> set (writableIndexes lut) \<union> set (readonlyIndexes lut)"
  shows "resolveEntry tabs (accountKey lut) i \<noteq> None"
proof -
  let ?alts = "altAddresses tabs []"
  from assms obtain e where "i = alt_index ?alts e" "\<exists>w. e \<in> set (picked ps ?alts (accountKey lut) w ms)"
    by (auto simp: loads_def message_lookups_mem [OF grouped_fold] Let_def)
  then obtain k p where "js_get ?alts k = Some (accountKey lut, i)"
    by (cases e) (auto simp: picked_def loaded_from_def alt_index_def)
  from altAddresses_resolve [OF _ this] assms(1) show ?thesis by (simp add: loads_def)
qed

section \<open>The key index\<close>

definition indexed :: "string list \<Rightarrow> (string \<times> nat) list \<Rightarrow> bool" where
  "indexed ks idx \<longleftrightarrow> distinct ks \<and> (\<forall>k i. js_get idx k = Some i \<longleftrightarrow> i < length ks \<and> ks ! i = k)"

lemma indexed_snoc:
  assumes "indexed ks idx" and "k \<notin> set ks"
  shows "indexed (ks @ [k]) (js_set k (length ks) idx)" and "js_get idx k = None"
proof -
  show "indexed (ks @ [k]) (js_set k (length ks) idx)"
    using assms by (auto simp: indexed_def nth_append less_Suc_eq in_set_conv_nth)
  show "js_get idx k = None"
    using assms by (cases "js_get idx k") (auto simp: indexed_def in_set_conv_nth)
qed

lemma indexed_static:
  "distinct (ks @ ks') \<Longrightarrow> indexed ks idx \<Longrightarrow> indexed (ks @ ks') (index_static ks' (length ks) idx)"
proof (induction ks' arbitrary: ks idx)
  case Nil
  then show ?case by simp
next
  case (Cons k ks')
  have "indexed ((ks @ [k]) @ ks') (index_static ks' (length (ks @ [k])) (js_set k (length ks) idx))"
    by (rule Cons.IH) (use Cons.prems indexed_snoc(1) in auto)
  then show ?case by simp
qed

lemma load_keys_indexed:
  assumes "indexed ks idx" and "\<forall>i \<in> set is. resolveEntry tabs t i \<noteq> None"
    and "distinct (ks @ resolved_keys tabs t is)"
  shows "\<exists>idx'. fold (load_key tabs t) is (idx, length ks, ord) =
      (idx', length (ks @ resolved_keys tabs t is), ord @ resolved_keys tabs t is) \<and>
    indexed (ks @ resolved_keys tabs t is) idx'"
  using assms
proof (induction "is" arbitrary: ks idx ord)
  case Nil
  then show ?case by (simp add: resolved_keys_def)
next
  case (Cons i "is")
  then obtain k where k: "resolveEntry tabs t i = Some k" by auto
  have fresh: "k \<notin> set ks" using Cons.prems(3) k by (simp add: resolved_keys_def)
  have "\<exists>idx'. fold (load_key tabs t) is (js_set k (length ks) idx, length (ks @ [k]), ord @ [k]) =
      (idx', length ((ks @ [k]) @ resolved_keys tabs t is), (ord @ [k]) @ resolved_keys tabs t is) \<and>
    indexed ((ks @ [k]) @ resolved_keys tabs t is) idx'"
    by (rule Cons.IH) (use Cons.prems k indexed_snoc(1) [OF Cons.prems(1) fresh] in \<open>simp_all add: resolved_keys_def\<close>)
  moreover have "load_key tabs t i (idx, length ks, ord) = (js_set k (length ks) idx, length (ks @ [k]), ord @ [k])"
    using k indexed_snoc(2) [OF Cons.prems(1) fresh] by (simp add: load_key_def)
  ultimately show ?case
    using k by (simp add: resolved_keys_def)
qed

lemma load_lookups_indexed:
  assumes "indexed ks idx" and "\<forall>lut \<in> set luts. \<forall>i \<in> set (sel lut). resolveEntry tabs (accountKey lut) i \<noteq> None"
    and "distinct (ks @ loaded_keys tabs sel luts)"
  shows "\<exists>idx'. load_lookups tabs sel luts (idx, length ks, ord) =
      (idx', length (ks @ loaded_keys tabs sel luts), ord @ loaded_keys tabs sel luts) \<and>
    indexed (ks @ loaded_keys tabs sel luts) idx'"
  using assms
proof (induction luts arbitrary: ks idx ord)
  case Nil
  then show ?case by (simp add: load_lookups_def loaded_keys_def)
next
  case (Cons lut luts)
  let ?r = "resolved_keys tabs (accountKey lut) (sel lut)"
  have "distinct (ks @ ?r)" using Cons.prems(3) by (auto simp: loaded_keys_def)
  then obtain idx1 where one: "fold (load_key tabs (accountKey lut)) (sel lut) (idx, length ks, ord) =
      (idx1, length (ks @ ?r), ord @ ?r)" "indexed (ks @ ?r) idx1"
    using load_keys_indexed [OF Cons.prems(1)] Cons.prems(2) by (metis list.set_intros(1))
  have "\<exists>idx'. load_lookups tabs sel luts (idx1, length (ks @ ?r), ord @ ?r) =
      (idx', length ((ks @ ?r) @ loaded_keys tabs sel luts), (ord @ ?r) @ loaded_keys tabs sel luts) \<and>
    indexed ((ks @ ?r) @ loaded_keys tabs sel luts) idx'"
    by (rule Cons.IH) (use one Cons.prems in \<open>auto simp: loaded_keys_def\<close>)
  then show ?case
    using one(1) by (simp add: load_lookups_def loaded_keys_def)
qed


section \<open>What the router asked for\<close>

definition must_sign :: "string \<Rightarrow> RawInstruction list \<Rightarrow> string \<Rightarrow> bool" where
  "must_sign fp ixs k \<longleftrightarrow> k = fp \<or> (\<exists>ix \<in> set ixs. \<exists>a \<in> set (ix_accounts ix). pubkey a = k \<and> isSigner a)"

definition may_write :: "string \<Rightarrow> RawInstruction list \<Rightarrow> string \<Rightarrow> bool" where
  "may_write fp ixs k \<longleftrightarrow> k = fp \<or> (\<exists>ix \<in> set ixs. \<exists>a \<in> set (ix_accounts ix). pubkey a = k \<and> isWritable a)"

definition mentioned :: "string \<Rightarrow> RawInstruction list \<Rightarrow> string set" where
  "mentioned fp ixs = insert fp (programId ` set ixs \<union> (\<Union>ix \<in> set ixs. pubkey ` set (ix_accounts ix)))"

lemma set_all_notes:
  "set (all_notes fp ixs) = insert (fp, True, True)
     ((\<Union>ix \<in> set ixs. (\<lambda>a. (pubkey a, isSigner a, isWritable a)) ` set (ix_accounts ix)) \<union>
      (\<lambda>ix. (programId ix, False, False)) ` set ixs)"
  by (simp add: all_notes_def account_notes_def)

lemma union_privilege_notes:
  "union_privilege (all_notes fp ixs) k = \<lparr>p_signer = must_sign fp ixs k, p_writable = may_write fp ixs k\<rparr>"
  unfolding union_privilege_def set_all_notes must_sign_def may_write_def by auto

lemma fst_all_notes: "fst ` set (all_notes fp ixs) = mentioned fp ixs"
  unfolding set_all_notes mentioned_def by (simp add: image_Un image_UN image_image) blast

lemma collected_mem:
  assumes "collected (all_notes fp ixs) ms"
  shows "(k, p) \<in> set ms \<longleftrightarrow> k \<in> mentioned fp ixs \<and>
    p = \<lparr>p_signer = must_sign fp ixs k, p_writable = may_write fp ixs k\<rparr>"
proof -
  have "(k, p) \<in> set ms \<longleftrightarrow> js_get ms k = Some p"
    using assms by (metis collected_def js_get_mem)
  with assms show ?thesis
    by (auto simp: collected_def fst_all_notes union_privilege_notes)
qed

text \<open>The key list the runtime builds from the message: static keys, then the loaded ones.\<close>

definition runtime_keys :: "lookup_tables \<Rightarrow> CompiledMessage \<Rightarrow> string list" where
  "runtime_keys tabs m = cm_staticAccountKeys m @
     loaded_keys tabs writableIndexes (cm_addressTableLookups m) @
     loaded_keys tabs readonlyIndexes (cm_addressTableLookups m)"

lemma keys_where_distinct: "distinct (map fst ms) \<Longrightarrow> distinct (keys_where P (filter S ms))"
  by (simp add: keys_where_def distinct_map_filter)

lemma set_keys_where:
  assumes "collected (all_notes fp ixs) ms"
  shows "set (keys_where P (filter S ms)) =
    {k \<in> mentioned fp ixs. let p = \<lparr>p_signer = must_sign fp ixs k, p_writable = may_write fp ixs k\<rparr> in S (k, p) \<and> P p}"
proof -
  have "k \<in> set (keys_where P (filter S ms)) \<longleftrightarrow> (\<exists>p. (k, p) \<in> set ms \<and> S (k, p) \<and> P p)" for k
    by (force simp: keys_where_def)
  then show ?thesis by (auto simp: collected_mem [OF assms] Let_def)
qed

text \<open>The static list and its four parts.\<close>

definition static_part :: "string \<Rightarrow> RawInstruction list \<Rightarrow> lookup_tables \<Rightarrow> string \<Rightarrow> bool" where
  "static_part fp ixs tabs k \<longleftrightarrow>
     must_sign fp ixs k \<or> k \<in> programId ` set ixs \<or> js_get (altAddresses tabs []) k = None"

lemma compileMessage_Inr:
  assumes "compileMessage ixs fp bh tabs = Inr m" and "distinct (map fst tabs)"
  obtains ms ps idx A B C D where
    "collected (all_notes fp ixs) ms" and "set ps = programId ` set ixs"
    and "loads tabs ps ms (cm_addressTableLookups m)"
    and "cm_staticAccountKeys m = A @ B @ C @ D" and "length (cm_staticAccountKeys m) \<le> 255"
    and "distinct (A @ B @ C @ D)" and "hd A = fp" and "A \<noteq> []"
    and "set A = {k \<in> mentioned fp ixs. must_sign fp ixs k \<and> may_write fp ixs k}"
    and "set B = {k \<in> mentioned fp ixs. must_sign fp ixs k \<and> \<not> may_write fp ixs k}"
    and "set C = {k \<in> mentioned fp ixs. static_part fp ixs tabs k \<and> \<not> must_sign fp ixs k \<and> may_write fp ixs k}"
    and "set D = {k \<in> mentioned fp ixs. static_part fp ixs tabs k \<and> \<not> must_sign fp ixs k \<and> \<not> may_write fp ixs k}"
    and "cm_numRequiredSignatures m = length A + length B" and "cm_numRequiredSignatures m \<le> 8"
    and "cm_numReadonlySignedAccounts m = length B" and "cm_numReadonlyUnsignedAccounts m = length D"
    and "cm_recentBlockhash m = bh" and "cm_feePayer m = fp"
    and "indexed (runtime_keys tabs m) idx" and "emap (compile_instruction idx) ixs = Inr (cm_instructions m)"
    and "cm_writableAccounts m = A @ C @ loaded_keys tabs writableIndexes (cm_addressTableLookups m)"
    and "cm_readonlyAccounts m = B @ D @ loaded_keys tabs readonlyIndexes (cm_addressTableLookups m)"
    and "set (loaded_keys tabs writableIndexes (cm_addressTableLookups m)) =
      {k \<in> mentioned fp ixs. \<not> static_part fp ixs tabs k \<and> may_write fp ixs k}"
    and "set (loaded_keys tabs readonlyIndexes (cm_addressTableLookups m)) =
      {k \<in> mentioned fp ixs. \<not> static_part fp ixs tabs k \<and> \<not> may_write fp ixs k}"
proof -
  obtain noted where noted: "note_instructions ixs (note_meta fp True True []) = Inr noted"
    using assms(1) by (auto simp: compileMessage_def ebind_eq_Inr split: if_splits)
  define ms where "ms = note_all (map (\<lambda>ix. (programId ix, False, False)) ixs) noted"
  define ps where "ps = fold js_add (map programId ixs) []"
  define alts where "alts = altAddresses tabs []"
  define se where "se = filter (static_entry ps alts) ms"
  define A where "A = fp # filter (\<lambda>k. k \<noteq> fp) (keys_where (\<lambda>p. p_signer p \<and> p_writable p) se)"
  define B where "B = keys_where (\<lambda>p. p_signer p \<and> \<not> p_writable p) se"
  define C where "C = keys_where (\<lambda>p. \<not> p_signer p \<and> p_writable p) se"
  define D where "D = keys_where (\<lambda>p. \<not> p_signer p \<and> \<not> p_writable p) se"
  define luts where "luts = message_lookups (fold (use_alt ps alts) ms [])"
  have coll: "collected (all_notes fp ixs) ms"
    unfolding ms_def by (rule collected_compile [OF noted])
  then have dist: "distinct (map fst ms)" by (simp add: collected_def)
  have ps: "set ps = programId ` set ixs" by (simp add: ps_def set_fold_js_add)
  have loads: "loads tabs ps ms luts" using assms(2) dist by (simp add: loads_def luts_def alts_def)
  have parts: "set (keys_where P se) = {k \<in> mentioned fp ixs. static_part fp ixs tabs k \<and>
      P \<lparr>p_signer = must_sign fp ixs k, p_writable = may_write fp ixs k\<rparr>}" for P
    unfolding se_def set_keys_where [OF coll] by (auto simp: static_entry_def static_part_def ps alts_def Let_def)
  have fp: "fp \<in> mentioned fp ixs" "must_sign fp ixs fp" "may_write fp ixs fp"
    by (simp_all add: mentioned_def must_sign_def may_write_def)
  have sets: "set A = {k \<in> mentioned fp ixs. must_sign fp ixs k \<and> may_write fp ixs k}"
    "set B = {k \<in> mentioned fp ixs. must_sign fp ixs k \<and> \<not> may_write fp ixs k}"
    "set C = {k \<in> mentioned fp ixs. static_part fp ixs tabs k \<and> \<not> must_sign fp ixs k \<and> may_write fp ixs k}"
    "set D = {k \<in> mentioned fp ixs. static_part fp ixs tabs k \<and> \<not> must_sign fp ixs k \<and> \<not> may_write fp ixs k}"
    using fp by (auto simp: A_def B_def C_def D_def parts static_part_def)
  have "distinct A" "distinct B" "distinct C" "distinct D"
    using keys_where_distinct [OF dist] by (simp_all add: A_def B_def C_def D_def se_def)
  with sets have abcd: "distinct (A @ B @ C @ D)" by auto
  have keys: "length (A @ B @ C @ D) \<le> 255" "length A + length B \<le> 8"
    and rest: "(let idx0 = index_static (A @ B @ C @ D) 0 [];
        (idx1, n1, altW) = load_lookups tabs writableIndexes luts (idx0, length (A @ B @ C @ D), []);
        (idx2, n2, altR) = load_lookups tabs readonlyIndexes luts (idx1, n1, [])
      in ebind (emap (compile_instruction idx2) ixs) (\<lambda>compiled. Inr
        \<lparr>cm_numRequiredSignatures = length A + length B, cm_numReadonlySignedAccounts = length B,
         cm_numReadonlyUnsignedAccounts = length D, cm_staticAccountKeys = A @ B @ C @ D,
         cm_recentBlockhash = bh, cm_instructions = compiled, cm_addressTableLookups = luts,
         cm_feePayer = fp, cm_writableAccounts = A @ C @ altW, cm_readonlyAccounts = B @ D @ altR\<rparr>)) = Inr m"
    using assms(1) noted unfolding compileMessage_def
    by (auto simp: Let_def note_programs_eq A_def B_def C_def D_def se_def luts_def alts_def ps_def ms_def
        split: if_splits prod.splits)
  let ?S = "A @ B @ C @ D" and ?W = "loaded_keys tabs writableIndexes luts" and ?R = "loaded_keys tabs readonlyIndexes luts"
  have W: "distinct ?W" "set ?W = wanted tabs ps ms True" and R: "distinct ?R" "set ?R = wanted tabs ps ms False"
    unfolding loaded_keys_picked [OF loads] by (rule loaded_concat [OF loads])+
  have wanted: "wanted tabs ps ms w = {k \<in> mentioned fp ixs. \<not> static_part fp ixs tabs k \<and> may_write fp ixs k = w}" for w
    by (auto simp: wanted_def collected_mem [OF coll] static_entry_def static_part_def ps)
  have dWR: "distinct ((?S @ ?W) @ ?R)"
    using abcd W R sets by (auto simp: wanted static_part_def)
  have ind: "indexed ?S (index_static ?S 0 [])"
    using indexed_static [of "[]" ?S "[]"] abcd by (simp add: indexed_def)
  have res: "\<forall>lut \<in> set luts. \<forall>i \<in> set (writableIndexes lut). resolveEntry tabs (accountKey lut) i \<noteq> None"
    "\<forall>lut \<in> set luts. \<forall>i \<in> set (readonlyIndexes lut). resolveEntry tabs (accountKey lut) i \<noteq> None"
    using loads_resolve [OF loads] by blast+
  have dW: "distinct (?S @ ?W)" using dWR by (simp only: distinct_append)
  from load_lookups_indexed [OF ind res(1) dW, of "[]"]
  obtain idx1 where one: "load_lookups tabs writableIndexes luts (index_static ?S 0 [], length ?S, []) = (idx1, length (?S @ ?W), ?W)"
    and idx1: "indexed (?S @ ?W) idx1" unfolding append_Nil by blast
  from load_lookups_indexed [OF idx1 res(2) dWR, of "[]"]
  obtain idx2 where two: "load_lookups tabs readonlyIndexes luts (idx1, length (?S @ ?W), []) = (idx2, length ((?S @ ?W) @ ?R), ?R)"
    and "indexed ((?S @ ?W) @ ?R) idx2" unfolding append_Nil by blast
  then have idx2: "indexed (?S @ ?W @ ?R) idx2" by simp
  from rest obtain cs where cs: "emap (compile_instruction idx2) ixs = Inr cs" and
    m: "m = \<lparr>cm_numRequiredSignatures = length A + length B, cm_numReadonlySignedAccounts = length B,
         cm_numReadonlyUnsignedAccounts = length D, cm_staticAccountKeys = ?S,
         cm_recentBlockhash = bh, cm_instructions = cs, cm_addressTableLookups = luts,
         cm_feePayer = fp, cm_writableAccounts = A @ C @ ?W, cm_readonlyAccounts = B @ D @ ?R\<rparr>"
    unfolding Let_def one two prod.case by (auto simp: ebind_eq_Inr)
  show ?thesis
    by (rule that [OF coll ps, of A B C D idx2])
      (use loads keys abcd sets idx2 cs W(2) R(2) wanted in \<open>simp_all add: m runtime_keys_def A_def [THEN arg_cong [of _ _ hd]] A_def [THEN arg_cong [of _ _ "\<lambda>x. x \<noteq> []"]]\<close>)
qed


section \<open>Indexes and positions\<close>

lemma index_of_indexed:
  assumes "indexed ks idx" and "index_of idx k = Inr i"
  shows "i < length ks \<and> ks ! i = k"
  using assms by (auto simp: indexed_def index_of_def split: option.splits)

lemma compile_instruction_indexed:
  assumes "indexed ks idx" and "compile_instruction idx ix = Inr c"
  shows "programIdIndex c < length ks \<and> ks ! programIdIndex c = programId ix"
    and "list_all2 (\<lambda>a i. i < length ks \<and> ks ! i = pubkey a) (ix_accounts ix) (accountIndexes c)"
    and "ix_data c = (case ri_data ix of None \<Rightarrow> [] | Some s \<Rightarrow> base64_decode s)"
proof -
  from assms(2) obtain p as where p: "index_of idx (programId ix) = Inr p"
    and as: "emap (\<lambda>a. index_of idx (pubkey a)) (ix_accounts ix) = Inr as"
    and c: "c = \<lparr>programIdIndex = p, accountIndexes = as,
      ix_data = (case ri_data ix of None \<Rightarrow> [] | Some s \<Rightarrow> base64_decode s)\<rparr>"
    by (auto simp: compile_instruction_def ebind_eq_Inr)
  show "programIdIndex c < length ks \<and> ks ! programIdIndex c = programId ix"
    using index_of_indexed [OF assms(1) p] by (simp add: c)
  show "list_all2 (\<lambda>a i. i < length ks \<and> ks ! i = pubkey a) (ix_accounts ix) (accountIndexes c)"
    using as unfolding emap_eq_Inr c
    by (auto elim!: list_all2_mono dest!: index_of_indexed [OF assms(1)])
  show "ix_data c = (case ri_data ix of None \<Rightarrow> [] | Some s \<Rightarrow> base64_decode s)" by (simp add: c)
qed

lemma nth_static_part:
  assumes "distinct ks" and "distinct ks'" and "ks = us @ ks' @ vs" and "i < length ks" and "ks ! i \<in> set ks'"
  shows "length us \<le> i \<and> i < length us + length ks'"
proof -
  from assms(5) obtain j where "j < length ks'" "ks ! i = ks' ! j" by (auto simp: in_set_conv_nth)
  moreover have "ks ! (length us + j) = ks' ! j" using \<open>j < length ks'\<close> assms(3) by (simp add: nth_append)
  ultimately have "i = length us + j"
    using assms(1, 3, 4) nth_eq_iff_index_eq [of ks i "length us + j"] by simp
  with \<open>j < length ks'\<close> show ?thesis by simp
qed

lemma mentioned_program: "ix \<in> set ixs \<Longrightarrow> programId ix \<in> mentioned fp ixs"
  by (simp add: mentioned_def)

lemma compiled_indexes:
  assumes "compileMessage ixs fp bh tabs = Inr m" and "distinct (map fst tabs)"
  shows "list_all2 (\<lambda>ix c.
      programIdIndex c < length (cm_staticAccountKeys m) \<and>
      cm_staticAccountKeys m ! programIdIndex c = programId ix \<and>
      list_all2 (\<lambda>a i. i < length (runtime_keys tabs m) \<and> runtime_keys tabs m ! i = pubkey a)
        (ix_accounts ix) (accountIndexes c) \<and>
      ix_data c = (case ri_data ix of None \<Rightarrow> [] | Some s \<Rightarrow> base64_decode s))
    ixs (cm_instructions m)"
proof (rule compileMessage_Inr [OF assms])
  fix ms :: metas and ps idx A B C D
  assume idx: "indexed (runtime_keys tabs m) idx" and cs: "emap (compile_instruction idx) ixs = Inr (cm_instructions m)"
    and S: "cm_staticAccountKeys m = A @ B @ C @ D"
    and sets: "set A = {k \<in> mentioned fp ixs. must_sign fp ixs k \<and> may_write fp ixs k}"
    "set B = {k \<in> mentioned fp ixs. must_sign fp ixs k \<and> \<not> may_write fp ixs k}"
    "set C = {k \<in> mentioned fp ixs. static_part fp ixs tabs k \<and> \<not> must_sign fp ixs k \<and> may_write fp ixs k}"
    "set D = {k \<in> mentioned fp ixs. static_part fp ixs tabs k \<and> \<not> must_sign fp ixs k \<and> \<not> may_write fp ixs k}"
  let ?S = "cm_staticAccountKeys m"
  have static: "i < length ?S \<and> ?S ! i = programId ix"
    if "ix \<in> set ixs" "i < length (runtime_keys tabs m)" "runtime_keys tabs m ! i = programId ix" for i ix
  proof -
    have "programId ix \<in> set ?S"
      using that(1) mentioned_program [OF that(1), of fp] by (auto simp: S sets static_part_def)
    then obtain j where j: "j < length ?S" "?S ! j = programId ix" by (auto simp: in_set_conv_nth)
    then have "runtime_keys tabs m ! j = runtime_keys tabs m ! i"
      using that(3) by (simp add: runtime_keys_def nth_append)
    with idx that(2) j(1) have "j = i"
      by (simp add: indexed_def nth_eq_iff_index_eq runtime_keys_def)
    with j show ?thesis by simp
  qed
  from cs have "list_all2 (\<lambda>ix c. compile_instruction idx ix = Inr c) ixs (cm_instructions m)"
    by (simp add: emap_eq_Inr)
  then show ?thesis
  proof (rule list.rel_mono_strong)
    fix ix c assume "ix \<in> set ixs" and c: "compile_instruction idx ix = Inr c"
    note facts = compile_instruction_indexed [OF idx c]
    with static [OF \<open>ix \<in> set ixs\<close>, of "programIdIndex c"]
    show "programIdIndex c < length ?S \<and> ?S ! programIdIndex c = programId ix \<and>
      list_all2 (\<lambda>a i. i < length (runtime_keys tabs m) \<and> runtime_keys tabs m ! i = pubkey a)
        (ix_accounts ix) (accountIndexes c) \<and>
      ix_data c = (case ri_data ix of None \<Rightarrow> [] | Some s \<Rightarrow> base64_decode s)"
      by blast
  qed
qed

lemma compiled_privileges:
  assumes "compileMessage ixs fp bh tabs = Inr m" and "distinct (map fst tabs)"
  defines "S \<equiv> cm_staticAccountKeys m" and "luts \<equiv> cm_addressTableLookups m"
  shows "hd S = fp \<and> distinct (runtime_keys tabs m) \<and> set (runtime_keys tabs m) = mentioned fp ixs \<and>
    (\<forall>i < length S.
       (i < cm_numRequiredSignatures m \<longleftrightarrow> must_sign fp ixs (S ! i)) \<and>
       (static_writable (length S) (cm_numRequiredSignatures m) (cm_numReadonlySignedAccounts m)
          (cm_numReadonlyUnsignedAccounts m) i \<longleftrightarrow> may_write fp ixs (S ! i))) \<and>
    (\<forall>k \<in> set (loaded_keys tabs writableIndexes luts). \<not> must_sign fp ixs k \<and> may_write fp ixs k) \<and>
    (\<forall>k \<in> set (loaded_keys tabs readonlyIndexes luts). \<not> must_sign fp ixs k \<and> \<not> may_write fp ixs k)"
  using assms(1, 2)
proof (rule compileMessage_Inr)
  fix ms :: metas and ps idx A B C D
  let ?W = "loaded_keys tabs writableIndexes (cm_addressTableLookups m)"
  let ?R = "loaded_keys tabs readonlyIndexes (cm_addressTableLookups m)"
  assume idx: "indexed (runtime_keys tabs m) idx"
    and ks: "cm_staticAccountKeys m = A @ B @ C @ D" and dS: "distinct (A @ B @ C @ D)"
    and hd: "hd A = fp" "A \<noteq> []"
    and sets: "set A = {k \<in> mentioned fp ixs. must_sign fp ixs k \<and> may_write fp ixs k}"
    "set B = {k \<in> mentioned fp ixs. must_sign fp ixs k \<and> \<not> may_write fp ixs k}"
    "set C = {k \<in> mentioned fp ixs. static_part fp ixs tabs k \<and> \<not> must_sign fp ixs k \<and> may_write fp ixs k}"
    "set D = {k \<in> mentioned fp ixs. static_part fp ixs tabs k \<and> \<not> must_sign fp ixs k \<and> \<not> may_write fp ixs k}"
    and n: "cm_numRequiredSignatures m = length A + length B"
    "cm_numReadonlySignedAccounts m = length B" "cm_numReadonlyUnsignedAccounts m = length D"
    and W: "set ?W = {k \<in> mentioned fp ixs. \<not> static_part fp ixs tabs k \<and> may_write fp ixs k}"
    and R: "set ?R = {k \<in> mentioned fp ixs. \<not> static_part fp ixs tabs k \<and> \<not> may_write fp ixs k}"
  have position: "(i < length A + length B \<longleftrightarrow> must_sign fp ixs (S ! i)) \<and>
      (static_writable (length S) (length A + length B) (length B) (length D) i \<longleftrightarrow> may_write fp ixs (S ! i))"
    if "i < length S" for i
  proof -
    have dist: "distinct A" "distinct B" "distinct C" "distinct D" "distinct S"
      using dS by (auto simp: S_def ks)
    have lS: "length S = length A + length B + length C + length D" by (simp add: S_def ks)
    note at = nth_static_part [OF dist(5) _ _ that]
    have "S ! i \<in> set A \<union> set B \<union> set C \<union> set D"
      using nth_mem [OF that] by (auto simp: S_def ks)
    then consider "S ! i \<in> set A" | "S ! i \<in> set B" | "S ! i \<in> set C" | "S ! i \<in> set D" by blast
    then show ?thesis
    proof cases
      case 1
      with at [OF dist(1), of "[]" "B @ C @ D"] sets lS show ?thesis
        by (simp add: S_def ks static_writable_def)
    next
      case 2
      with at [OF dist(2), of A "C @ D"] sets lS show ?thesis
        by (simp add: S_def ks static_writable_def)
    next
      case 3
      with at [OF dist(3), of "A @ B" D] sets lS show ?thesis
        by (simp add: S_def ks static_writable_def)
    next
      case 4
      with at [OF dist(4), of "A @ B @ C" "[]"] sets lS show ?thesis
        by (simp add: S_def ks static_writable_def)
    qed
  qed
  have "set (runtime_keys tabs m) = mentioned fp ixs"
    unfolding runtime_keys_def ks set_append W R sets by (auto simp: static_part_def)
  moreover have "distinct (runtime_keys tabs m)" using idx by (simp add: indexed_def)
  moreover have "hd S = fp" using hd by (simp add: S_def ks)
  moreover have "\<forall>k \<in> set ?W. \<not> must_sign fp ixs k \<and> may_write fp ixs k"
    "\<forall>k \<in> set ?R. \<not> must_sign fp ixs k \<and> \<not> may_write fp ixs k"
    using W R by (auto simp: static_part_def)
  ultimately show ?thesis using position unfolding n luts_def by blast
qed


lemma js_set_of_distinct: "distinct xs \<Longrightarrow> js_set_of xs = xs"
proof -
  have "distinct (acc @ xs) \<Longrightarrow> fold js_add xs acc = acc @ xs" for acc
    by (induction xs arbitrary: acc) (simp_all add: js_add_def)
  then show "distinct xs \<Longrightarrow> js_set_of xs = xs" by (simp add: js_set_of_def)
qed

lemma map_nth_filter:
  assumes "\<forall>i < length xs. Q i \<longleftrightarrow> P (xs ! i)"
  shows "map ((!) xs) (filter Q [0..<length xs]) = filter P xs"
proof -
  have "filter Q [0..<length xs] = filter (P \<circ> (!) xs) [0..<length xs]"
    using assms by (intro filter_cong) auto
  then show ?thesis by (metis filter_map map_nth)
qed

lemma emap_length: "emap f xs = Inr ys \<Longrightarrow> length ys = length xs"
  by (auto simp: emap_eq_Inr dest: list_all2_lengthD)

text \<open>What a message's parts must satisfy for the decoder's limits, in the router's terms.\<close>

definition plausible :: "RawInstruction list \<Rightarrow> lookup_tables \<Rightarrow> CompiledMessage \<Rightarrow> bool" where
  "plausible ixs tabs m \<longleftrightarrow> distinct (map fst tabs) \<and> length ixs \<le> 64 \<and> length tabs \<le> 16 \<and>
     (\<forall>(t, as) \<in> set tabs. isValidPubkey t \<and> length as \<le> 256) \<and> length (runtime_keys tabs m) \<le> 256"

lemma lookups_plausible:
  assumes "loads tabs ps ms luts" and "plausible ixs tabs m"
  shows "length luts \<le> 16"
    and "lut \<in> set luts \<Longrightarrow> isValidPubkey (accountKey lut)"
    and "lut \<in> set luts \<Longrightarrow> i \<in> set (writableIndexes lut) \<union> set (readonlyIndexes lut) \<Longrightarrow> i < 256"
proof -
  have entry: "\<exists>as. (accountKey lut, as) \<in> set tabs \<and>
      (\<forall>i \<in> set (writableIndexes lut) \<union> set (readonlyIndexes lut). i < length as)" if lut: "lut \<in> set luts" for lut
  proof -
    have "writableIndexes lut \<noteq> [] \<or> readonlyIndexes lut \<noteq> []"
      using lut assms(1) by (auto simp: loads_def message_lookups_def)
    then obtain j where "j \<in> set (writableIndexes lut) \<union> set (readonlyIndexes lut)"
      by (metis UnCI last_in_set)
    from loads_resolve [OF assms(1) lut this]
    obtain as where as: "js_get tabs (accountKey lut) = Some as"
      by (auto simp: resolveEntry_def split: option.splits)
    moreover have "i < length as" if "i \<in> set (writableIndexes lut) \<union> set (readonlyIndexes lut)" for i
      using loads_resolve [OF assms(1) lut that] as by (auto simp: resolveEntry_def split: if_splits)
    ultimately show ?thesis
      using assms(1) by (metis js_get_mem loads_def)
  qed
  show "lut \<in> set luts \<Longrightarrow> isValidPubkey (accountKey lut)"
    using entry assms(2) by (fastforce simp: plausible_def)
  show "i < 256" if "lut \<in> set luts" "i \<in> set (writableIndexes lut) \<union> set (readonlyIndexes lut)"
  proof -
    from entry [OF that(1)] that(2) obtain as where "(accountKey lut, as) \<in> set tabs" "i < length as" by blast
    with assms(2) show ?thesis by (fastforce simp: plausible_def)
  qed
  have "distinct (map accountKey luts)"
    using assms(1) message_lookups_distinct [OF grouped_fold] by (auto simp: loads_def)
  moreover have "set (map accountKey luts) \<subseteq> set (map fst tabs)"
    using entry by force
  ultimately have "length (map accountKey luts) \<le> length (map fst tabs)"
    by (metis card_mono distinct_card card_length le_trans List.finite_set)
  then show "length luts \<le> 16" using assms(2) by (simp add: plausible_def)
qed

lemma compileMessage_sendable:
  assumes "compileMessage ixs fp bh tabs = Inr m" and pl: "plausible ixs tabs m"
  shows "sendable m"
proof -
  have dt: "distinct (map fst tabs)" using pl by (simp add: plausible_def)
  have small: "\<forall>c \<in> set (cm_instructions m). programIdIndex c < length (cm_staticAccountKeys m) \<and>
      (\<forall>a \<in> set (accountIndexes c). a < 256)"
  proof
    fix c assume "c \<in> set (cm_instructions m)"
    then obtain ix where p: "programIdIndex c < length (cm_staticAccountKeys m)"
      and as: "list_all2 (\<lambda>a i. i < length (runtime_keys tabs m) \<and> runtime_keys tabs m ! i = pubkey a)
        (ix_accounts ix) (accountIndexes c)"
      using compiled_indexes [OF assms(1) dt] by (fastforce simp: list_all2_conv_all_nth in_set_conv_nth)
    from as have "\<forall>a \<in> set (accountIndexes c). a < length (runtime_keys tabs m)"
      by (auto simp: list_all2_conv_all_nth in_set_conv_nth)
    with p pl show "programIdIndex c < length (cm_staticAccountKeys m) \<and> (\<forall>a \<in> set (accountIndexes c). a < 256)"
      by (auto simp: plausible_def)
  qed
  show ?thesis
  proof (rule compileMessage_Inr [OF assms(1) dt])
    fix ms :: metas and ps idx A B C D
    assume loads: "loads tabs ps ms (cm_addressTableLookups m)"
      and ks: "cm_staticAccountKeys m = A @ B @ C @ D" "length (cm_staticAccountKeys m) \<le> 255" "A \<noteq> []"
      and n: "cm_numRequiredSignatures m = length A + length B" "cm_numRequiredSignatures m \<le> 8"
      "cm_numReadonlySignedAccounts m = length B" "cm_numReadonlyUnsignedAccounts m = length D"
      and cs: "emap (compile_instruction idx) ixs = Inr (cm_instructions m)"
    have "length (cm_instructions m) \<le> 64"
      using emap_length [OF cs] pl by (simp add: plausible_def)
    moreover have "0 < length A" using ks(3) by simp
    ultimately show "sendable m"
      unfolding sendable_def
      using ks(1, 2) n small lookups_plausible [OF loads pl] by auto
  qed
qed

section \<open>Properties\<close>

text \<open>indexes name the accounts the router named. In a compiled message every instruction keeps its data, its program index points into the static keys at its own program (never at a lookup-table entry), and each account index, read in the list the runtime builds (static keys, then all writable table entries table by table, then all read-only ones), is the account the instruction listed in that place, for any number of tables and any order of appearance.\<close>

theorem compileMessage_indexes:
  assumes "compileMessage ixs fp bh tabs = Inr m" and "distinct (map fst tabs)"
  shows "list_all2 (\<lambda>ix c.
      programIdIndex c < length (cm_staticAccountKeys m) \<and>
      cm_staticAccountKeys m ! programIdIndex c = programId ix \<and>
      list_all2 (\<lambda>a i. i < length (runtime_keys tabs m) \<and> runtime_keys tabs m ! i = pubkey a)
        (ix_accounts ix) (accountIndexes c) \<and>
      ix_data c = (case ri_data ix of None \<Rightarrow> [] | Some s \<Rightarrow> base64_decode s))
    ixs (cm_instructions m)"
  using assms by (rule compiled_indexes)

text \<open>C21: position is the permission model. The fee payer is the first key, no key appears twice, and a static key's position makes it a signer, or writable, exactly when the fee payer rule or some instruction asks for that: no privilege is dropped and none is invented. Every mentioned account is in the runtime's list, and the accounts loaded from tables are non-signers that are loaded writable exactly when some instruction writes them.\<close>

theorem compileMessage_privileges:
  assumes "compileMessage ixs fp bh tabs = Inr m" and "distinct (map fst tabs)"
  defines "S \<equiv> cm_staticAccountKeys m" and "luts \<equiv> cm_addressTableLookups m"
  shows "hd S = fp \<and> distinct (runtime_keys tabs m) \<and> set (runtime_keys tabs m) = mentioned fp ixs \<and>
    (\<forall>i < length S.
       (i < cm_numRequiredSignatures m \<longleftrightarrow> must_sign fp ixs (S ! i)) \<and>
       (static_writable (length S) (cm_numRequiredSignatures m) (cm_numReadonlySignedAccounts m)
          (cm_numReadonlyUnsignedAccounts m) i \<longleftrightarrow> may_write fp ixs (S ! i))) \<and>
    (\<forall>k \<in> set (loaded_keys tabs writableIndexes luts). \<not> must_sign fp ixs k \<and> may_write fp ixs k) \<and>
    (\<forall>k \<in> set (loaded_keys tabs readonlyIndexes luts). \<not> must_sign fp ixs k \<and> \<not> may_write fp ixs k)"
  unfolding S_def luts_def using assms(1, 2) by (rule compiled_privileges)

text \<open>C27: from router instructions to signed bytes and back. If a plausible route compiles and serializes, the strict decoder accepts the packet and shows the signer the same static keys, header, instructions and lookups, and the keys it computes as writable from position are exactly the static keys the router asked to write, in order.\<close>

theorem compile_encode_decode:
  assumes "compileMessage ixs fp bh tabs = Inr m" and "plausible ixs tabs m"
    and "encodeUnsignedTransaction m = Inr raw"
  shows "\<exists>tx. decodeTransaction raw = Inr tx \<and> staticAccountKeys tx = cm_staticAccountKeys m \<and>
    numRequiredSignatures tx = cm_numRequiredSignatures m \<and> recentBlockhash tx = bh \<and>
    instructions tx = cm_instructions m \<and> addressTableLookups tx = cm_addressTableLookups m \<and>
    writableStaticKeys tx = filter (may_write fp ixs) (cm_staticAccountKeys m)"
proof -
  have dt: "distinct (map fst tabs)" using assms(2) by (simp add: plausible_def)
  have send: "sendable m" by (rule compileMessage_sendable [OF assms(1, 2)])
  note parts = encodeUnsigned_parts [OF assms(3) send]
  have dec: "decodeTransaction raw = Inr (decoded_message m (write_message m))"
    by (rule decode_encoded [OF send assms(3)])
  let ?S = "cm_staticAccountKeys m"
  note priv = compiled_privileges [OF assms(1) dt]
  have dS: "distinct ?S" using priv by (simp add: runtime_keys_def)
  have "map ((!) ?S) (filter (static_writable (length ?S) (cm_numRequiredSignatures m)
      (cm_numReadonlySignedAccounts m) (cm_numReadonlyUnsignedAccounts m)) [0..<length ?S]) =
      filter (may_write fp ixs) ?S"
    using priv by (intro map_nth_filter) blast
  then have "writableStaticKeys (decoded_message m (write_message m)) = filter (may_write fp ixs) ?S"
    using dS by (simp add: writableStaticKeys_def decoded_message_def Let_def js_set_of_distinct)
  moreover have "cm_recentBlockhash m = bh" by (rule compileMessage_Inr [OF assms(1) dt])
  ultimately show ?thesis using dec by (simp add: decoded_message_def)
qed


section \<open>Witnesses\<close>

text \<open>
  Two lookup tables with the metas arriving interleaved, and a table that also provides the
  program id.
\<close>

definition sample_meta :: "byte \<Rightarrow> bool \<Rightarrow> AccountMeta" where
  "sample_meta b w = \<lparr>pubkey = sample_key b, isSigner = False, isWritable = w\<rparr>"

definition sample_route :: "RawInstruction list" where
  "sample_route =
     [\<lparr>programId = sample_key 50,
       accounts = Some [sample_meta 11 True, sample_meta 21 True, sample_meta 12 True, sample_meta 22 False],
       ri_data = None\<rparr>]"

definition sample_tables :: lookup_tables where
  "sample_tables = [(sample_key 1, [sample_key 11, sample_key 12, sample_key 50]),
                    (sample_key 2, [sample_key 22, sample_key 21])]"

definition sample_compiled :: CompiledMessage where
  "sample_compiled =
     \<lparr>cm_numRequiredSignatures = 1, cm_numReadonlySignedAccounts = 0, cm_numReadonlyUnsignedAccounts = 1,
      cm_staticAccountKeys = [sample_key 7, sample_key 50], cm_recentBlockhash = sample_key 9,
      cm_instructions = [\<lparr>programIdIndex = 1, accountIndexes = [2, 4, 3, 5], ix_data = []\<rparr>],
      cm_addressTableLookups =
        [\<lparr>accountKey = sample_key 1, writableIndexes = [0, 1], readonlyIndexes = []\<rparr>,
         \<lparr>accountKey = sample_key 2, writableIndexes = [1], readonlyIndexes = [0]\<rparr>],
      cm_feePayer = sample_key 7,
      cm_writableAccounts = [sample_key 7, sample_key 11, sample_key 12, sample_key 21],
      cm_readonlyAccounts = [sample_key 50, sample_key 22]\<rparr>"

lemma sample_key_eq [simp]: "sample_key a = sample_key b \<longleftrightarrow> a = b"
proof
  assume "sample_key a = sample_key b"
  then have "write_key (sample_key a) = write_key (sample_key b)" by simp
  then have "hd (replicate 32 a) = hd (replicate 32 b)" by (simp only: sample_key)
  then show "a = b" by simp
qed simp

lemma sample_key_length [simp]: "sample_key b \<noteq> []" "length (sample_key b) \<noteq> 0"
proof -
  have "32 \<le> length (sample_key b)" unfolding sample_key_def by (rule length_base58Encode_32) simp
  then show "sample_key b \<noteq> []" "length (sample_key b) \<noteq> 0" by auto
qed

lemma sample_compiles:
  "compileMessage sample_route (sample_key 7) (sample_key 9) sample_tables = Inr sample_compiled"
  by (simp add: compileMessage_def sample_route_def sample_tables_def sample_compiled_def sample_meta_def
      ix_accounts_def note_meta_def js_add_def static_entry_def keys_where_def use_alt_def message_lookups_def
      load_lookups_def load_key_def resolveEntry_def js_get_def compile_instruction_def index_of_def Let_def ebind_def)

lemma sample_tables_distinct: "distinct (map fst sample_tables)"
  by (simp add: sample_tables_def)

lemma compileMessage_indexes_witness:
  "runtime_keys sample_tables sample_compiled ! 4 = sample_key 21"
  using compileMessage_indexes [OF sample_compiles sample_tables_distinct]
  by (simp add: sample_compiled_def sample_route_def ix_accounts_def sample_meta_def)

lemma compileMessage_privileges_witness:
  "hd (cm_staticAccountKeys sample_compiled) = sample_key 7 \<and> \<not> may_write (sample_key 7) sample_route (sample_key 22)"
  using compileMessage_privileges [OF sample_compiles sample_tables_distinct]
  by (simp add: sample_compiled_def loaded_keys_def resolved_keys_def sample_tables_def resolveEntry_def js_get_def)

lemma sample_plausible: "plausible sample_route sample_tables sample_compiled"
  by (simp add: plausible_def sample_tables_def sample_route_def sample_compiled_def runtime_keys_def
      loaded_keys_def resolved_keys_def)

lemma sample_compiled_encodes: "\<exists>raw. encodeUnsignedTransaction sample_compiled = Inr raw"
proof -
  have enc: "encodeMessage sample_compiled = Inr (write_message sample_compiled)"
    by (subst encodeMessage_write) (simp_all add: sample_compiled_def)
  have "length (write_message sample_compiled) \<le> 1000"
    by (simp add: write_message_def write_vec_def sample_compiled_def write_lookup_def encode_instruction_def)
  moreover have "cm_numRequiredSignatures sample_compiled = 1" by (simp add: sample_compiled_def)
  ultimately show ?thesis
    by (simp add: encodeUnsignedTransaction_def enc SIGNATURE_LEN_def MAX_PACKET_BYTES_def)
qed

lemma compile_encode_decode_witness:
  "\<exists>raw tx. encodeUnsignedTransaction sample_compiled = Inr raw \<and> decodeTransaction raw = Inr tx \<and>
     writableStaticKeys tx = [sample_key 7]"
proof -
  obtain raw where raw: "encodeUnsignedTransaction sample_compiled = Inr raw"
    using sample_compiled_encodes ..
  from compile_encode_decode [OF sample_compiles sample_plausible this] raw show ?thesis
    by (auto simp: sample_compiled_def may_write_def sample_route_def ix_accounts_def sample_meta_def)
qed

end
