(* ===== verification/ComputeBudget.thy ===== *)
theory ComputeBudget
  imports Compile
begin

text \<open>
  \<open>readComputeBudget\<close> and \<open>priorityFeeLamports\<close> of \<open>packages/solana/src/transaction.ts\<close>,
  \<open>packages/solana/src/computebudget.ts\<close>, and \<open>evaluateComputeBudget\<close> of
  \<open>packages/solana/src/instructionpolicy.ts\<close>: what a transaction asks to pay for priority, what
  the runtime charges for it, and what the policy says about it. \<open>bigint\<close> and small
  \<open>number\<close> values are \<open>int\<close>; both are exact here, since \<open>Number(...)\<close> is only applied
  to a quotient that is then capped at 1,400,000.
\<close>

section \<open>Reading the settings\<close>

definition COMPUTE_BUDGET_PROGRAM :: string where
  "COMPUTE_BUDGET_PROGRAM = ''ComputeBudget111111111111111111111111111111''"

lemma COMPUTE_BUDGET_PROGRAM_valid: "isValidPubkey COMPUTE_BUDGET_PROGRAM"
  by (rule isValidPubkey_digits [where ds = "[11, 46, 44, 47, 52, 51, 37, 10, 52, 36, 39, 37, 51, 0, 0, 0, 0, 0, 0, 0, 0, 0, 0, 0, 0, 0, 0, 0, 0, 0, 0, 0, 0, 0, 0, 0, 0, 0, 0, 0, 0, 0, 0]"])
    (simp_all add: COMPUTE_BUDGET_PROGRAM_def ALPHABET_def)

record ComputeBudgetSettings =
  unitLimit :: "int option"
  unitPriceMicroLamports :: "int option"

text \<open>Little-endian bytes, as the loop \<open>v = (v << 8n) | BigInt(d[i])\<close> assembles them.\<close>

definition le_uint :: "bytes \<Rightarrow> nat" where
  "le_uint bs = foldr (\<lambda>b v. push_bit 8 v OR unat b) bs 0"

text \<open>\<open>staticAccountKeys[programIdIndex]\<close>, undefined out of range.\<close>

definition key_at :: "string list \<Rightarrow> nat \<Rightarrow> string option" where
  "key_at ks i = (if i < length ks then Some (ks ! i) else None)"

definition read_budget_ix :: "string list \<Rightarrow> CompiledInstruction \<Rightarrow> ComputeBudgetSettings \<Rightarrow> ComputeBudgetSettings" where
  "read_budget_ix ks ix st =
     (let d = ix_data ix in
      if key_at ks (programIdIndex ix) \<noteq> Some COMPUTE_BUDGET_PROGRAM then st
      else if length d = 0 then st
      else if d ! 0 = 2 \<and> length d \<ge> 5 then st\<lparr>unitLimit := Some (int (le_uint (take 4 (drop 1 d))))\<rparr>
      else if d ! 0 = 3 \<and> length d \<ge> 9 then st\<lparr>unitPriceMicroLamports := Some (int (le_uint (take 8 (drop 1 d))))\<rparr>
      else st)"

definition readComputeBudget :: "DecodedTransaction \<Rightarrow> ComputeBudgetSettings" where
  "readComputeBudget tx = fold (read_budget_ix (staticAccountKeys tx)) (instructions tx)
     \<lparr>unitLimit = None, unitPriceMicroLamports = None\<rparr>"

definition priorityFeeLamports :: "ComputeBudgetSettings \<Rightarrow> int" where
  "priorityFeeLamports cb =
     (case unitLimit cb of None \<Rightarrow> 0 | Some l \<Rightarrow>
      case unitPriceMicroLamports cb of None \<Rightarrow> 0 | Some p \<Rightarrow>
        let numerator = l * p in
        if numerator = 0 then 0 else bdiv (numerator + 999999) 1000000)"

section \<open>What the runtime charges\<close>

definition MAX_COMPUTE_UNIT_LIMIT :: int where "MAX_COMPUTE_UNIT_LIMIT = 1400000"
definition DEFAULT_UNITS_PER_INSTRUCTION :: int where "DEFAULT_UNITS_PER_INSTRUCTION = 200000"
definition BUILTIN_UNITS_PER_INSTRUCTION :: int where "BUILTIN_UNITS_PER_INSTRUCTION = 3000"

definition NATIVE_BUILTIN_PROGRAMS :: "string list" where
  "NATIVE_BUILTIN_PROGRAMS =
     [''11111111111111111111111111111111'', COMPUTE_BUDGET_PROGRAM,
      ''Vote111111111111111111111111111111111111111'',
      ''Stake11111111111111111111111111111111111111'',
      ''BPFLoaderUpgradeab1e11111111111111111111111'',
      ''BPFLoader2111111111111111111111111111111111'',
      ''BPFLoader1111111111111111111111111111111111'',
      ''LoaderV411111111111111111111111111111111111'',
      ''Ed25519SigVerify111111111111111111111111111'',
      ''KeccakSecp256k11111111111111111111111111111'']"

definition isNativeBuiltin :: "string \<Rightarrow> bool" where
  "isNativeBuiltin p \<longleftrightarrow> p \<in> set NATIVE_BUILTIN_PROGRAMS"

datatype limit_source = explicit | derived_from_instructions

record AppliedComputeLimit =
  lim_units :: int
  lim_source :: limit_source
  lim_instructionCount :: nat
  lim_builtinCount :: nat
  lim_clamped :: bool

definition native :: "string option \<Rightarrow> bool" where
  "native p = (case p of None \<Rightarrow> False | Some p \<Rightarrow> isNativeBuiltin p)"

text \<open>The loop that allocates units per instruction.\<close>

definition derived_units :: "string option list \<Rightarrow> int" where
  "derived_units ps = fold (\<lambda>p units. units +
     (if native p then BUILTIN_UNITS_PER_INSTRUCTION else DEFAULT_UNITS_PER_INSTRUCTION)) ps 0"

definition appliedComputeLimit :: "string option list \<Rightarrow> int option \<Rightarrow> AppliedComputeLimit" where
  "appliedComputeLimit programIds explicitLimit =
     (let builtinCount = length (filter native programIds) in
      case explicitLimit of
        Some l \<Rightarrow> \<lparr>lim_units = min l MAX_COMPUTE_UNIT_LIMIT, lim_source = explicit,
          lim_instructionCount = length programIds, lim_builtinCount = builtinCount,
          lim_clamped = l > MAX_COMPUTE_UNIT_LIMIT\<rparr>
      | None \<Rightarrow>
          let units = derived_units programIds in
          \<lparr>lim_units = min units MAX_COMPUTE_UNIT_LIMIT, lim_source = derived_from_instructions,
           lim_instructionCount = length programIds, lim_builtinCount = builtinCount,
           lim_clamped = units > MAX_COMPUTE_UNIT_LIMIT\<rparr>)"

definition instructionProgramIds :: "DecodedTransaction \<Rightarrow> string option list" where
  "instructionProgramIds tx = map (\<lambda>ix. key_at (staticAccountKeys tx) (programIdIndex ix)) (instructions tx)"

definition chargedPriorityFee :: "DecodedTransaction \<Rightarrow> ComputeBudgetSettings \<Rightarrow> int \<times> AppliedComputeLimit" where
  "chargedPriorityFee tx cb =
     (let limit = appliedComputeLimit (instructionProgramIds tx) (unitLimit cb) in
      case unitPriceMicroLamports cb of
        None \<Rightarrow> (0, limit)
      | Some p \<Rightarrow>
          if p = 0 \<or> lim_units limit = 0 then (0, limit)
          else (bdiv (lim_units limit * p + 999999) 1000000, limit))"

section \<open>The policy's verdict\<close>

datatype PolicyViolation =
    undecodable | wrong_fee_payer | extra_signers_required | disallowed_program
  | too_many_instructions | priority_fee_too_high | compute_limit_missing | blockhash_missing | oversized

definition MIN_PLAUSIBLE_COMPUTE_UNITS :: int where "MIN_PLAUSIBLE_COMPUTE_UNITS = 200000"
definition MAX_COMPUTE_UNITS :: int where "MAX_COMPUTE_UNITS = 1400000"

record ComputeBudgetVerdict =
  cv_unitLimit :: "int option"
  cv_unitPriceMicroLamports :: "int option"
  cv_affordableUnitLimit :: "int option"
  cv_violation :: "PolicyViolation option"

text \<open>One instruction of the scan; \<open>Buffer.from\<close> does not throw on a string.\<close>

definition scan_budget_ix :: "RawInstruction \<Rightarrow> int option \<times> int option \<Rightarrow> int option \<times> int option" where
  "scan_budget_ix ix = (\<lambda>(lim, price).
     if programId ix \<noteq> COMPUTE_BUDGET_PROGRAM then (lim, price)
     else case ri_data ix of
       None \<Rightarrow> (lim, price)
     | Some s \<Rightarrow>
         let d = base64_decode s in
         if length d = 0 then (lim, price)
         else if d ! 0 = 2 \<and> length d \<ge> 5 then (Some (int (le_uint (take 4 (drop 1 d)))), price)
         else if d ! 0 = 3 \<and> length d \<ge> 9 then (lim, Some (int (le_uint (take 8 (drop 1 d)))))
         else (lim, price))"

definition evaluateComputeBudget :: "RawInstruction list \<Rightarrow> int \<Rightarrow> ComputeBudgetVerdict" where
  "evaluateComputeBudget ixs maxFee =
     (case fold scan_budget_ix ixs (None, None) of
        (Some l, Some p) \<Rightarrow>
          let fee = priorityFeeLamports \<lparr>unitLimit = Some l, unitPriceMicroLamports = Some p\<rparr> in
          \<lparr>cv_unitLimit = Some l, cv_unitPriceMicroLamports = Some p, cv_affordableUnitLimit = Some l,
           cv_violation = (if fee > maxFee then Some priority_fee_too_high else None)\<rparr>
      | (lim, Some p) \<Rightarrow>
          if p = 0 then
            \<lparr>cv_unitLimit = lim, cv_unitPriceMicroLamports = Some p,
             cv_affordableUnitLimit = Some MAX_COMPUTE_UNITS, cv_violation = None\<rparr>
          else
            let affordable = bdiv (maxFee * 1000000) p; capped = min affordable MAX_COMPUTE_UNITS in
            \<lparr>cv_unitLimit = lim, cv_unitPriceMicroLamports = Some p, cv_affordableUnitLimit = Some capped,
             cv_violation = (if capped < MIN_PLAUSIBLE_COMPUTE_UNITS then Some priority_fee_too_high else None)\<rparr>
      | (Some l, None) \<Rightarrow>
          \<lparr>cv_unitLimit = Some l, cv_unitPriceMicroLamports = None, cv_affordableUnitLimit = Some l, cv_violation = None\<rparr>
      | (None, None) \<Rightarrow>
          \<lparr>cv_unitLimit = None, cv_unitPriceMicroLamports = None, cv_affordableUnitLimit = None,
           cv_violation = Some compute_limit_missing\<rparr>)"

text \<open>The decoded instructions re-expressed for that function (\<open>txpolicy.ts\<close>).\<close>

definition cbInstructions :: "DecodedTransaction \<Rightarrow> RawInstruction list" where
  "cbInstructions tx = map (\<lambda>ix.
     \<lparr>programId = (case key_at (staticAccountKeys tx) (programIdIndex ix) of None \<Rightarrow> [] | Some k \<Rightarrow> k),
      accounts = None, ri_data = Some (base64_encode (ix_data ix))\<rparr>) (instructions tx)"


section \<open>Fees\<close>

lemma le_uint_Nil [simp]: "le_uint [] = 0"
  by (simp add: le_uint_def)

lemma le_uint_Cons [simp]: "le_uint (b # bs) = unat b + 256 * le_uint bs"
proof -
  have "push_bit 8 (le_uint bs) OR unat b = unat b + push_bit 8 (le_uint bs)"
    using or_shift_nat [of "unat b" 8 "le_uint bs"] by (simp add: or.commute)
  then show ?thesis by (simp add: le_uint_def push_bit_eq_mult)
qed

lemma ceil_fee_le:
  assumes "0 \<le> n"
  shows "bdiv (n + 999999) 1000000 \<le> c \<longleftrightarrow> n \<le> c * 1000000"
proof -
  have "bdiv (n + 999999) 1000000 = (n + 999999) div 1000000"
    using assms by (simp add: bdiv_nonneg)
  then show ?thesis by linarith
qed

lemma priorityFeeLamports_le:
  assumes "0 \<le> l" and "0 \<le> p" and "0 \<le> c"
  shows "priorityFeeLamports \<lparr>unitLimit = Some l, unitPriceMicroLamports = Some p\<rparr> \<le> c \<longleftrightarrow> l * p \<le> c * 1000000"
  using assms ceil_fee_le [of "l * p" c] by (simp add: priorityFeeLamports_def)

lemma derived_units_eq:
  "derived_units ps = 3000 * int (length (filter native ps)) +
     200000 * int (length (filter (\<lambda>p. \<not> native p) ps))"
proof -
  have "fold (\<lambda>p units. units + (if native p then BUILTIN_UNITS_PER_INSTRUCTION else DEFAULT_UNITS_PER_INSTRUCTION)) ps u =
      u + 3000 * int (length (filter native ps)) + 200000 * int (length (filter (\<lambda>p. \<not> native p) ps))" for u
    by (induction ps arbitrary: u)
      (simp_all add: BUILTIN_UNITS_PER_INSTRUCTION_def DEFAULT_UNITS_PER_INSTRUCTION_def)
  from this [of 0] show ?thesis by (simp add: derived_units_def)
qed

lemma chargedPriorityFee_le:
  assumes "unitPriceMicroLamports cb = Some p" and "0 \<le> p" and "0 \<le> c"
    and "u = lim_units (appliedComputeLimit (instructionProgramIds tx) (unitLimit cb))" and "0 \<le> u"
  shows "fst (chargedPriorityFee tx cb) \<le> c \<longleftrightarrow> u * p \<le> c * 1000000"
  using assms ceil_fee_le [of "u * p" c] by (auto simp: chargedPriorityFee_def Let_def)

section \<open>The two readers agree\<close>

lemma scan_budget_ix_eq:
  "scan_budget_ix \<lparr>programId = (case key_at ks (programIdIndex ix) of None \<Rightarrow> [] | Some k \<Rightarrow> k),
      accounts = None, ri_data = Some (base64_encode (ix_data ix))\<rparr>
     (unitLimit st, unitPriceMicroLamports st) =
   (let st' = read_budget_ix ks ix st in (unitLimit st', unitPriceMicroLamports st'))"
  by (auto simp: scan_budget_ix_def read_budget_ix_def Let_def COMPUTE_BUDGET_PROGRAM_def split: option.splits)

lemma scan_cbInstructions:
  "fold scan_budget_ix (cbInstructions tx) (None, None) =
     (unitLimit (readComputeBudget tx), unitPriceMicroLamports (readComputeBudget tx))"
proof -
  have "fold scan_budget_ix (map (\<lambda>ix. \<lparr>programId = (case key_at ks (programIdIndex ix) of None \<Rightarrow> [] | Some k \<Rightarrow> k),
        accounts = None, ri_data = Some (base64_encode (ix_data ix))\<rparr>) ixs) (unitLimit st, unitPriceMicroLamports st) =
      (let st' = fold (read_budget_ix ks) ixs st in (unitLimit st', unitPriceMicroLamports st'))" for ks ixs and st :: ComputeBudgetSettings
    by (induction ixs arbitrary: st) (simp_all add: scan_budget_ix_eq Let_def)
  from this [of "staticAccountKeys tx" "instructions tx" "\<lparr>unitLimit = None, unitPriceMicroLamports = None\<rparr>"]
  show ?thesis by (simp add: cbInstructions_def readComputeBudget_def Let_def)
qed

definition settings_ok :: "ComputeBudgetSettings \<Rightarrow> bool" where
  "settings_ok st \<longleftrightarrow> (\<forall>l. unitLimit st = Some l \<longrightarrow> 0 \<le> l) \<and> (\<forall>p. unitPriceMicroLamports st = Some p \<longrightarrow> 0 \<le> p)"

lemma read_budget_ix_ok: "settings_ok st \<Longrightarrow> settings_ok (read_budget_ix ks ix st)"
  by (auto simp: settings_ok_def read_budget_ix_def Let_def)

lemma fold_budget_ok: "settings_ok st \<Longrightarrow> settings_ok (fold (read_budget_ix ks) ixs st)"
proof (induction ixs arbitrary: st)
  case Nil
  then show ?case by simp
next
  case (Cons ix ixs)
  show ?case unfolding fold_Cons comp_apply
    by (rule Cons.IH) (rule read_budget_ix_ok [OF Cons.prems])
qed

lemma readComputeBudget_ok: "settings_ok (readComputeBudget tx)"
  unfolding readComputeBudget_def by (rule fold_budget_ok) (simp add: settings_ok_def)


section \<open>Properties\<close>

text \<open>The fee the policies report: \<open>unitLimit ?? affordableUnitLimit\<close> at the router's price.\<close>

definition reported_fee :: "ComputeBudgetVerdict \<Rightarrow> int" where
  "reported_fee cv = priorityFeeLamports
     \<lparr>unitLimit = (case cv_unitLimit cv of None \<Rightarrow> cv_affordableUnitLimit cv | Some l \<Rightarrow> Some l),
      unitPriceMicroLamports = cv_unitPriceMicroLamports cv\<rparr>"

definition verdict :: "DecodedTransaction \<Rightarrow> int \<Rightarrow> ComputeBudgetVerdict" where
  "verdict tx cap = evaluateComputeBudget (cbInstructions tx) cap"

definition applied_units :: "DecodedTransaction \<Rightarrow> int" where
  "applied_units tx = lim_units (appliedComputeLimit (instructionProgramIds tx) (unitLimit (readComputeBudget tx)))"

lemma verdict_settings:
  "cv_unitLimit (verdict tx cap) = unitLimit (readComputeBudget tx)"
  "cv_unitPriceMicroLamports (verdict tx cap) = unitPriceMicroLamports (readComputeBudget tx)"
  by (auto simp: verdict_def evaluateComputeBudget_def scan_cbInstructions Let_def split: option.splits)

lemma applied_units_nonneg: "0 \<le> applied_units tx"
  using readComputeBudget_ok [of tx]
  by (auto simp: applied_units_def appliedComputeLimit_def settings_ok_def derived_units_eq
      MAX_COMPUTE_UNIT_LIMIT_def Let_def split: option.splits)

lemma applied_units_explicit:
  "unitLimit (readComputeBudget tx) = Some l \<Longrightarrow> applied_units tx = min l 1400000"
  by (simp add: applied_units_def appliedComputeLimit_def MAX_COMPUTE_UNIT_LIMIT_def)

lemma charged_le_applied:
  assumes "unitPriceMicroLamports (readComputeBudget tx) = Some p" and "0 \<le> cap"
  shows "fst (chargedPriorityFee tx (readComputeBudget tx)) \<le> cap \<longleftrightarrow> applied_units tx * p \<le> cap * 1000000"
  using chargedPriorityFee_le [OF assms(1) _ assms(2) refl] applied_units_nonneg [of tx]
    readComputeBudget_ok [of tx] assms(1)
  by (simp add: applied_units_def settings_ok_def)

text \<open>the byte-level policy and the fee model read the same compute budget. For every decoded transaction the verdict on its instructions, re-expressed through base64, carries exactly the unit limit and unit price that \<open>readComputeBudget\<close> reads from the bytes, the last setting of each kind winning in both.\<close>

theorem budget_readers_agree:
  "cv_unitLimit (evaluateComputeBudget (cbInstructions tx) cap) = unitLimit (readComputeBudget tx) \<and>
   cv_unitPriceMicroLamports (evaluateComputeBudget (cbInstructions tx) cap) =
     unitPriceMicroLamports (readComputeBudget tx)"
  using verdict_settings [of tx cap] by (simp add: verdict_def)

text \<open>what a passing compute-budget verdict is worth. The fee the policy reports never exceeds the cap, and when the transaction sets an explicit limit neither does the fee the runtime charges. When only a price is set, the charge stays within the cap exactly when the limit the runtime derives from the instruction count, times the price, does: the verdict itself does not imply it.\<close>

theorem budget_verdict_bounds_fee:
  assumes "cv_violation (evaluateComputeBudget (cbInstructions tx) cap) = None" and "0 \<le> cap"
  shows "reported_fee (evaluateComputeBudget (cbInstructions tx) cap) \<le> cap \<and>
    (unitLimit (readComputeBudget tx) \<noteq> None \<longrightarrow> fst (chargedPriorityFee tx (readComputeBudget tx)) \<le> cap) \<and>
    (\<forall>p. unitLimit (readComputeBudget tx) = None \<longrightarrow> unitPriceMicroLamports (readComputeBudget tx) = Some p \<longrightarrow>
      (fst (chargedPriorityFee tx (readComputeBudget tx)) \<le> cap \<longleftrightarrow>
       min (derived_units (instructionProgramIds tx)) MAX_COMPUTE_UNIT_LIMIT * p \<le> cap * 1000000))"
proof -
  let ?st = "readComputeBudget tx" and ?cv = "evaluateComputeBudget (cbInstructions tx) cap"
  have ok: "settings_ok ?st" by (rule readComputeBudget_ok)
  note ev = evaluateComputeBudget_def scan_cbInstructions
  have derived: "applied_units tx = min (derived_units (instructionProgramIds tx)) MAX_COMPUTE_UNIT_LIMIT"
    if "unitLimit ?st = None"
    using that by (simp add: applied_units_def appliedComputeLimit_def Let_def)
  show ?thesis
  proof (cases "unitPriceMicroLamports ?st")
    case None
    have "fst (chargedPriorityFee tx ?st) = 0" by (simp add: chargedPriorityFee_def None Let_def)
    moreover have "reported_fee ?cv = 0"
      using assms(1) by (cases "unitLimit ?st") (simp_all add: ev None reported_fee_def priorityFeeLamports_def)
    ultimately show ?thesis using assms(2) by (simp add: None)
  next
    case (Some p)
    then have p: "0 \<le> p" using ok by (simp add: settings_ok_def)
    show ?thesis
    proof (cases "unitLimit ?st")
      case (Some l)
      with ok have l: "0 \<le> l" by (simp add: settings_ok_def)
      have "priorityFeeLamports \<lparr>unitLimit = Some l, unitPriceMicroLamports = Some p\<rparr> \<le> cap"
        using assms(1) \<open>unitPriceMicroLamports ?st = Some p\<close> Some
        by (simp add: ev Let_def split: if_splits)
      moreover from this have "l * p \<le> cap * 1000000"
        using priorityFeeLamports_le [OF l p assms(2)] by simp
      moreover have "min l 1400000 * p \<le> l * p" using p by (intro mult_right_mono) auto
      ultimately show ?thesis
        using charged_le_applied [OF \<open>unitPriceMicroLamports ?st = Some p\<close> assms(2)] applied_units_explicit [OF Some]
        by (simp add: reported_fee_def ev \<open>unitPriceMicroLamports ?st = Some p\<close> Some Let_def)
    next
      case None
      have "reported_fee ?cv \<le> cap"
      proof (cases "p = 0")
        case True
        then show ?thesis using assms(2)
          by (simp add: reported_fee_def ev \<open>unitPriceMicroLamports ?st = Some p\<close> None priorityFeeLamports_def)
      next
        case False
        with p have "0 < p" by simp
        define q where "q = cap * 1000000 div p"
        have "q * p = cap * 1000000 - cap * 1000000 mod p"
          unfolding q_def by (simp add: minus_mod_eq_div_mult)
        moreover have "0 \<le> cap * 1000000 mod p" using \<open>0 < p\<close> by simp
        ultimately have q: "bdiv (cap * 1000000) p = q" "0 \<le> q" "q * p \<le> cap * 1000000"
          using assms(2) p \<open>0 < p\<close> by (simp_all add: bdiv_nonneg q_def pos_imp_zdiv_nonneg_iff)
        have "min q 1400000 * p \<le> q * p" using p by (intro mult_right_mono) auto
        with q p assms(2) have "priorityFeeLamports \<lparr>unitLimit = Some (min q 1400000), unitPriceMicroLamports = Some p\<rparr> \<le> cap"
          by (subst priorityFeeLamports_le) auto
        with False q(1) show ?thesis
          by (simp add: reported_fee_def ev \<open>unitPriceMicroLamports ?st = Some p\<close> None Let_def MAX_COMPUTE_UNITS_def)
      qed
      with charged_le_applied [OF \<open>unitPriceMicroLamports ?st = Some p\<close> assms(2)] derived [OF None]
      show ?thesis by (simp add: None \<open>unitPriceMicroLamports ?st = Some p\<close>)
    qed
  qed
qed

text \<open>Seven program calls and a price of 10,000 micro-lamports per unit, no limit.\<close>

definition price_only_tx :: DecodedTransaction where
  "price_only_tx =
     \<lparr>tx_version = V0, signatureCount = 1, numRequiredSignatures = 1, numReadonlySignedAccounts = 0,
      numReadonlyUnsignedAccounts = 2, staticAccountKeys = [''payer'', COMPUTE_BUDGET_PROGRAM, ''JUP6''],
      recentBlockhash = ''hash'',
      instructions = \<lparr>programIdIndex = 1, accountIndexes = [], ix_data = [3, 16, 39, 0, 0, 0, 0, 0, 0]\<rparr> #
        replicate 7 \<lparr>programIdIndex = 2, accountIndexes = [], ix_data = []\<rparr>,
      addressTableLookups = [], messageBytes = []\<rparr>"

lemma funpow_fixed: "f x = x \<Longrightarrow> (f ^^ n) x = x"
  by (induction n) simp_all

lemma price_only_settings:
  "readComputeBudget price_only_tx = \<lparr>unitLimit = None, unitPriceMicroLamports = Some 10000\<rparr>"
  by (simp add: readComputeBudget_def price_only_tx_def read_budget_ix_def key_at_def
      COMPUTE_BUDGET_PROGRAM_def Let_def funpow_fixed)

lemma price_only_verdict: "cv_violation (evaluateComputeBudget (cbInstructions price_only_tx) 2000) = None"
  by (simp add: evaluateComputeBudget_def scan_cbInstructions price_only_settings Let_def bdiv_def
      MAX_COMPUTE_UNITS_def MIN_PLAUSIBLE_COMPUTE_UNITS_def)

lemma price_only_derived: "derived_units (instructionProgramIds price_only_tx) = 1403000"
  by (simp add: derived_units_eq instructionProgramIds_def price_only_tx_def key_at_def native_def
      isNativeBuiltin_def NATIVE_BUILTIN_PROGRAMS_def COMPUTE_BUDGET_PROGRAM_def)

lemma budget_verdict_bounds_fee_witness:
  "reported_fee (evaluateComputeBudget (cbInstructions price_only_tx) 2000) \<le> 2000 \<and>
   \<not> fst (chargedPriorityFee price_only_tx (readComputeBudget price_only_tx)) \<le> 2000"
  using budget_verdict_bounds_fee [OF price_only_verdict] price_only_settings
  by (simp add: price_only_derived MAX_COMPUTE_UNIT_LIMIT_def)

text \<open>a cap of 2,000 lamports does not hold. This transaction passes the compute-budget check that the signing policy applies to final bytes, is reported to pay 2,000 lamports, and is charged 14,000.\<close>

theorem price_only_overcharge:
  "cv_violation (evaluateComputeBudget (cbInstructions price_only_tx) 2000) = None \<and>
   reported_fee (evaluateComputeBudget (cbInstructions price_only_tx) 2000) = 2000 \<and>
   fst (chargedPriorityFee price_only_tx (readComputeBudget price_only_tx)) = 14000"
proof -
  have "reported_fee (evaluateComputeBudget (cbInstructions price_only_tx) 2000) = 2000"
    by (simp add: reported_fee_def evaluateComputeBudget_def scan_cbInstructions price_only_settings Let_def
        bdiv_def MAX_COMPUTE_UNITS_def priorityFeeLamports_def)
  moreover have "fst (chargedPriorityFee price_only_tx (readComputeBudget price_only_tx)) = 14000"
    by (simp add: chargedPriorityFee_def price_only_settings appliedComputeLimit_def price_only_derived
        MAX_COMPUTE_UNIT_LIMIT_def bdiv_def Let_def)
  ultimately show ?thesis using price_only_verdict by blast
qed

end
