(* ===== verification/Policy.thy ===== *)
theory Policy
  imports ComputeBudget "HOL-Library.List_Lexorder" "HOL-Library.Char_ord"
begin

text \<open>
  The transaction policies: \<open>evaluateTransactionPolicy\<close> of \<open>packages/solana/src/txpolicy.ts\<close>
  over final bytes, \<open>evaluateInstructionPolicy\<close> of \<open>instructionpolicy.ts\<close> over router
  instructions and \<open>evaluateBuildPolicy\<close> of \<open>buildpolicy.ts\<close> over a whole build response.
  A violation is its kind; the human-readable detail string is left out.
\<close>

section \<open>Programs and limits\<close>

definition SYSTEM_PROGRAM :: string where "SYSTEM_PROGRAM = ''11111111111111111111111111111111''"
definition ASSOCIATED_TOKEN_PROGRAM :: string where
  "ASSOCIATED_TOKEN_PROGRAM = ''ATokenGPvbdGVxr1b2hvZbsiqW5xWH25efTNsLJA8knL''"
definition JUPITER_V6 :: string where "JUPITER_V6 = ''JUP6LkbZbjS1jKKwapdHNy74zcZ3tLUZoi5QNyVTaV4''"
definition MEMO_PROGRAM :: string where "MEMO_PROGRAM = ''MemoSq4gqABAXKb96qnH8TysNcWxMyWCqXgDLGmfcHr''"
definition TOKEN_PROGRAM :: string where "TOKEN_PROGRAM = ''TokenkegQfeZyiNwAJbNbGKPFXCWuBvf9Ss623VQ5DA''"
definition TOKEN_2022_PROGRAM :: string where "TOKEN_2022_PROGRAM = ''TokenzQdBNbLqP5VEhdkAS6EPFLC1PHnBqCXEpPxuEb''"

definition DEFAULT_ALLOWED_PROGRAMS :: "string list" where
  "DEFAULT_ALLOWED_PROGRAMS = [SYSTEM_PROGRAM, COMPUTE_BUDGET_PROGRAM, TOKEN_PROGRAM, TOKEN_2022_PROGRAM,
     ASSOCIATED_TOKEN_PROGRAM, JUPITER_V6, MEMO_PROGRAM]"

definition MAX_TX_BYTES :: nat where "MAX_TX_BYTES = 1232"

record PolicyLimits =
  expectedFeePayer :: string
  allowedPrograms :: "string list"
  maxInstructions :: nat
  maxPriorityFeeLamports :: int
  maxTransactionBytes :: nat

definition defaultLimits :: "string \<Rightarrow> int \<Rightarrow> PolicyLimits" where
  "defaultLimits feePayer maxFee =
     \<lparr>expectedFeePayer = feePayer, allowedPrograms = DEFAULT_ALLOWED_PROGRAMS, maxInstructions = 24,
      maxPriorityFeeLamports = maxFee, maxTransactionBytes = MAX_TX_BYTES\<rparr>"

section \<open>Policy over final bytes\<close>

record PolicyResult =
  allowed :: bool
  violations :: "PolicyViolation list"
  decoded :: "DecodedTransaction option"
  pr_priorityFeeLamports :: int

definition flag :: "bool \<Rightarrow> 'v \<Rightarrow> 'v list" where
  "flag b v = (if b then [v] else [])"

lemma flag_eq_Nil [simp]: "flag b v = [] \<longleftrightarrow> \<not> b" "[] = flag b v \<longleftrightarrow> \<not> b"
  by (simp_all add: flag_def)

lemma set_flag [simp]: "set (flag b v) = (if b then {v} else {})"
  by (simp add: flag_def)

definition disallowed :: "PolicyLimits \<Rightarrow> DecodedTransaction \<Rightarrow> CompiledInstruction \<Rightarrow> bool" where
  "disallowed limits tx ix = (case key_at (staticAccountKeys tx) (programIdIndex ix) of
     None \<Rightarrow> True | Some p \<Rightarrow> p \<notin> set (allowedPrograms limits))"

definition opt_list :: "'a option \<Rightarrow> 'a list" where
  "opt_list v = (case v of None \<Rightarrow> [] | Some x \<Rightarrow> [x])"

lemma opt_list_eq_Nil [simp]: "opt_list v = [] \<longleftrightarrow> v = None"
  by (simp add: opt_list_def split: option.splits)

text \<open>The checks on a decoded transaction, in the order of the source.\<close>

definition transaction_violations :: "PolicyLimits \<Rightarrow> DecodedTransaction \<Rightarrow> PolicyViolation list" where
  "transaction_violations limits tx =
     flag (key_at (staticAccountKeys tx) 0 \<noteq> Some (expectedFeePayer limits)) wrong_fee_payer @
     flag (numRequiredSignatures tx \<noteq> 1) extra_signers_required @
     map (\<lambda>_. disallowed_program) (filter (disallowed limits tx) (instructions tx)) @
     flag (length (instructions tx) > maxInstructions limits) too_many_instructions @
     opt_list (cv_violation (evaluateComputeBudget (cbInstructions tx) (maxPriorityFeeLamports limits))) @
     flag (recentBlockhash tx = replicate 32 (CHR ''1'')) blockhash_missing"

definition evaluateTransactionPolicy :: "bytes \<Rightarrow> PolicyLimits \<Rightarrow> PolicyResult" where
  "evaluateTransactionPolicy raw limits =
     (if length raw > maxTransactionBytes limits then
        \<lparr>allowed = False, violations = [oversized], decoded = None, pr_priorityFeeLamports = 0\<rparr>
      else case decodeTransaction raw of
        Inl e \<Rightarrow> \<lparr>allowed = False, violations = [undecodable], decoded = None, pr_priorityFeeLamports = 0\<rparr>
      | Inr tx \<Rightarrow>
          let vs = transaction_violations limits tx;
              cb = evaluateComputeBudget (cbInstructions tx) (maxPriorityFeeLamports limits)
          in \<lparr>allowed = (length vs = 0), violations = vs, decoded = Some tx,
              pr_priorityFeeLamports = reported_fee cb\<rparr>)"

section \<open>Policy over instructions\<close>

record InstructionPolicyLimits =
  il_expectedSigner :: string
  il_allowedPrograms :: "string list"
  il_maxInstructions :: nat
  il_maxPriorityFeeLamports :: int

definition instructionPolicyLimits :: "string \<Rightarrow> int \<Rightarrow> InstructionPolicyLimits" where
  "instructionPolicyLimits signer maxFee =
     \<lparr>il_expectedSigner = signer, il_allowedPrograms = DEFAULT_ALLOWED_PROGRAMS, il_maxInstructions = 24,
      il_maxPriorityFeeLamports = maxFee\<rparr>"

record InstructionPolicyResult =
  ip_allowed :: bool
  ip_violations :: "PolicyViolation list"
  ip_priorityFeeLamports :: int
  ip_computeUnitLimit :: "int option"
  ip_affordableComputeUnitLimit :: "int option"
  ip_unitPriceMicroLamports :: "int option"
  ip_programIds :: "string list"

definition instruction_signers :: "RawInstruction list \<Rightarrow> string list" where
  "instruction_signers ixs = js_set_of (map pubkey (filter isSigner (concat (map ix_accounts ixs))))"

definition evaluateInstructionPolicy :: "RawInstruction list \<Rightarrow> InstructionPolicyLimits \<Rightarrow> InstructionPolicyResult" where
  "evaluateInstructionPolicy ixs limits =
     (let programIds = map programId ixs;
          cb = evaluateComputeBudget ixs (il_maxPriorityFeeLamports limits);
          vs = map (\<lambda>_. disallowed_program) (filter (\<lambda>p. p \<notin> set (il_allowedPrograms limits)) programIds) @
               flag (length ixs > il_maxInstructions limits) too_many_instructions @
               map (\<lambda>_. extra_signers_required)
                 (filter (\<lambda>s. s \<noteq> il_expectedSigner limits) (instruction_signers ixs)) @
               opt_list (cv_violation cb)
      in \<lparr>ip_allowed = (length vs = 0), ip_violations = vs, ip_priorityFeeLamports = reported_fee cb,
          ip_computeUnitLimit = cv_unitLimit cb, ip_affordableComputeUnitLimit = cv_affordableUnitLimit cb,
          ip_unitPriceMicroLamports = cv_unitPriceMicroLamports cb, ip_programIds = programIds\<rparr>)"

section \<open>Policy over a build response\<close>

record BuildPolicyInput =
  bi_instructions :: "RawInstruction list"
  bi_lookupTables :: lookup_tables
  bi_blockhash :: "string option"
  bi_lastValidBlockHeight :: "nat option"

record BuildPolicyResult =
  bp_allowed :: bool
  bp_violations :: "PolicyViolation list"
  bp_feePayer :: "string option"
  bp_requiredSigners :: "string list"
  bp_writableAccounts :: "string list"
  bp_estimatedBytes :: nat
  bp_computeUnitLimit :: "int option"
  bp_affordableComputeUnitLimit :: "int option"
  bp_unitPriceMicroLamports :: "int option"
  bp_priorityFeeLamports :: int

definition ix_data_length :: "RawInstruction \<Rightarrow> nat" where
  "ix_data_length ix = (case ri_data ix of None \<Rightarrow> 0 | Some s \<Rightarrow> length (base64_decode s))"

definition estimateTransactionBytes :: "BuildPolicyInput \<Rightarrow> nat \<Rightarrow> nat \<Rightarrow> nat" where
  "estimateTransactionBytes inp writableCount altAddressCount =
     (let staticAccounts = js_set_of (concat (map (\<lambda>ix. programId ix # map pubkey (ix_accounts ix)) (bi_instructions inp)));
          inlineAccounts = length staticAccounts - altAddressCount;
          tables = length (bi_lookupTables inp)
      in 1 + 64 + (1 + 3) + (1 + inlineAccounts * 32) + 32 + 1 +
         sum_list (map (\<lambda>ix. 1 + (1 + length (ix_accounts ix)) + (1 + ix_data_length ix)) (bi_instructions inp)) +
         1 + tables * (32 + 2 + altAddressCount))"

definition evaluateBuildPolicy :: "BuildPolicyInput \<Rightarrow> PolicyLimits \<Rightarrow> BuildPolicyResult" where
  "evaluateBuildPolicy inp limits =
     (let ixs = bi_instructions inp;
          metas = concat (map ix_accounts ixs);
          signers = js_set_of (map pubkey (filter isSigner metas));
          writable = js_set_of (map pubkey (filter isWritable metas));
          feePayer = key_at signers 0;
          alts = js_set_of (concat (map snd (bi_lookupTables inp)));
          cb = evaluateComputeBudget ixs (maxPriorityFeeLamports limits);
          est = estimateTransactionBytes inp (length writable) (length alts);
          vs = map (\<lambda>_. disallowed_program) (filter (\<lambda>ix. programId ix \<notin> set (allowedPrograms limits)) ixs) @
               flag (length ixs > maxInstructions limits) too_many_instructions @
               flag (feePayer \<noteq> Some (expectedFeePayer limits)) wrong_fee_payer @
               flag (length signers > 1) extra_signers_required @
               opt_list (cv_violation cb) @
               flag (bi_blockhash inp = None \<or> bi_blockhash inp = Some []) blockhash_missing @
               flag (bi_lastValidBlockHeight inp = None) blockhash_missing @
               flag (est > maxTransactionBytes limits) oversized
      in \<lparr>bp_allowed = (length vs = 0), bp_violations = vs, bp_feePayer = feePayer, bp_requiredSigners = signers,
          bp_writableAccounts = sort writable, bp_estimatedBytes = est, bp_computeUnitLimit = cv_unitLimit cb,
          bp_affordableComputeUnitLimit = cv_affordableUnitLimit cb,
          bp_unitPriceMicroLamports = cv_unitPriceMicroLamports cb, bp_priorityFeeLamports = reported_fee cb\<rparr>)"


section \<open>What a pass means\<close>

definition budget_ok :: "RawInstruction list \<Rightarrow> int \<Rightarrow> bool" where
  "budget_ok ixs cap \<longleftrightarrow> cv_violation (evaluateComputeBudget ixs cap) = None"

lemma transaction_violations_Nil:
  "transaction_violations limits tx = [] \<longleftrightarrow>
     key_at (staticAccountKeys tx) 0 = Some (expectedFeePayer limits) \<and> numRequiredSignatures tx = 1 \<and>
     (\<forall>ix \<in> set (instructions tx). \<exists>p \<in> set (allowedPrograms limits).
        key_at (staticAccountKeys tx) (programIdIndex ix) = Some p) \<and>
     length (instructions tx) \<le> maxInstructions limits \<and>
     budget_ok (cbInstructions tx) (maxPriorityFeeLamports limits) \<and>
     recentBlockhash tx \<noteq> replicate 32 (CHR ''1'')"
  by (auto simp: transaction_violations_def budget_ok_def disallowed_def filter_empty_conv split: option.splits)

lemma evaluateTransactionPolicy_allowed:
  "allowed (evaluateTransactionPolicy raw limits) \<longleftrightarrow>
     length raw \<le> maxTransactionBytes limits \<and>
     (\<exists>tx. decodeTransaction raw = Inr tx \<and> transaction_violations limits tx = [])"
  by (auto simp: evaluateTransactionPolicy_def Let_def split: sum.splits)

lemma allowed_decoded:
  assumes "allowed (evaluateTransactionPolicy raw limits)"
  obtains tx where "decodeTransaction raw = Inr tx" and "transaction_violations limits tx = []"
    and "decoded (evaluateTransactionPolicy raw limits) = Some tx" and "length raw \<le> maxTransactionBytes limits"
  using assms by (auto simp: evaluateTransactionPolicy_def Let_def split: sum.splits if_splits)

lemma instructionPolicy_allowed:
  "ip_allowed (evaluateInstructionPolicy ixs limits) \<longleftrightarrow>
     (\<forall>ix \<in> set ixs. programId ix \<in> set (il_allowedPrograms limits)) \<and> length ixs \<le> il_maxInstructions limits \<and>
     (\<forall>ix \<in> set ixs. \<forall>a \<in> set (ix_accounts ix). isSigner a \<longrightarrow> pubkey a = il_expectedSigner limits) \<and>
     budget_ok ixs (il_maxPriorityFeeLamports limits)"
  by (auto simp: evaluateInstructionPolicy_def Let_def budget_ok_def filter_empty_conv instruction_signers_def)

section \<open>The two policies on a compiled route\<close>

lemma compiled_one_signer:
  assumes "compileMessage ixs fp bh tabs = Inr m" and "distinct (map fst tabs)"
  shows "cm_numRequiredSignatures m = 1 \<longleftrightarrow>
    (\<forall>ix \<in> set ixs. \<forall>a \<in> set (ix_accounts ix). isSigner a \<longrightarrow> pubkey a = fp)"
proof -
  let ?S = "cm_staticAccountKeys m" and ?n = "cm_numRequiredSignatures m"
  note priv = compiled_privileges [OF assms]
  have fp: "must_sign fp ixs fp" "fp \<in> mentioned fp ixs" by (simp_all add: must_sign_def mentioned_def)
  have in_S: "k \<in> set ?S" if "must_sign fp ixs k" "k \<in> mentioned fp ixs" for k
    using priv that by (auto simp: runtime_keys_def)
  have at: "i < ?n \<longleftrightarrow> must_sign fp ixs (?S ! i)" if "i < length ?S" for i using priv that by blast
  have "?S \<noteq> []" using in_S [OF fp] by auto
  then have S0: "0 < length ?S" "?S ! 0 = fp" using priv by (auto simp: hd_conv_nth)
  have n: "?n \<le> length ?S" by (rule compileMessage_Inr [OF assms]) simp
  show ?thesis
  proof
    assume one: "?n = 1"
    show "\<forall>ix \<in> set ixs. \<forall>a \<in> set (ix_accounts ix). isSigner a \<longrightarrow> pubkey a = fp"
    proof (intro ballI impI)
      fix ix a assume a: "ix \<in> set ixs" "a \<in> set (ix_accounts ix)" "isSigner a"
      then have k: "must_sign fp ixs (pubkey a)" "pubkey a \<in> mentioned fp ixs"
        by (auto simp: must_sign_def mentioned_def)
      from in_S [OF k] obtain i where i: "i < length ?S" "?S ! i = pubkey a" by (auto simp: in_set_conv_nth)
      with at [OF i(1)] k(1) one S0(2) show "pubkey a = fp" by simp
    qed
  next
    assume only: "\<forall>ix \<in> set ixs. \<forall>a \<in> set (ix_accounts ix). isSigner a \<longrightarrow> pubkey a = fp"
    have "0 < ?n" using at [OF S0(1)] S0(2) fp by simp
    moreover have "\<not> 1 < ?n"
    proof
      assume "1 < ?n"
      with n have "1 < length ?S" by simp
      with at [OF this] \<open>1 < ?n\<close> only have "?S ! 1 = ?S ! 0" using S0(2) by (auto simp: must_sign_def)
      moreover have "distinct ?S" using priv by (simp add: runtime_keys_def)
      ultimately show False using \<open>1 < length ?S\<close> S0(1) by (simp add: nth_eq_iff_index_eq)
    qed
    ultimately show "?n = 1" by simp
  qed
qed


lemma fold_same: "list_all2 (\<lambda>x y. f x = f y) xs ys \<Longrightarrow> fold f xs = fold f ys"
  by (induction xs ys rule: list_all2_induct) simp_all

lemma scan_compiled:
  assumes "key_at ks (programIdIndex c) = Some (programId ix)"
    and "ix_data c = (case ri_data ix of None \<Rightarrow> [] | Some s \<Rightarrow> base64_decode s)"
  shows "scan_budget_ix \<lparr>programId = (case key_at ks (programIdIndex c) of None \<Rightarrow> [] | Some k \<Rightarrow> k),
      accounts = None, ri_data = Some (base64_encode (ix_data c))\<rparr> = scan_budget_ix ix"
  using assms by (intro ext) (simp add: scan_budget_ix_def Let_def split: option.splits prod.splits)

lemma compiled_programs:
  assumes "compileMessage ixs fp bh tabs = Inr m" and "distinct (map fst tabs)"
  shows "list_all2 (\<lambda>ix c. key_at (cm_staticAccountKeys m) (programIdIndex c) = Some (programId ix) \<and>
      ix_data c = (case ri_data ix of None \<Rightarrow> [] | Some s \<Rightarrow> base64_decode s)) ixs (cm_instructions m)"
  using compiled_indexes [OF assms] by (rule list_all2_mono) (simp add: key_at_def)

lemma compiled_budget_ok:
  assumes "compileMessage ixs fp bh tabs = Inr m" and "distinct (map fst tabs)"
  shows "budget_ok (cbInstructions (decoded_message m bs)) cap \<longleftrightarrow> budget_ok ixs cap"
proof -
  let ?f = "\<lambda>c. \<lparr>programId = (case key_at (cm_staticAccountKeys m) (programIdIndex c) of None \<Rightarrow> [] | Some k \<Rightarrow> k),
      accounts = None, ri_data = Some (base64_encode (ix_data c))\<rparr>"
  have "cbInstructions (decoded_message m bs) = map ?f (cm_instructions m)"
    by (simp add: cbInstructions_def decoded_message_def)
  moreover have "list_all2 (\<lambda>ix c. scan_budget_ix ix = scan_budget_ix (?f c)) ixs (cm_instructions m)"
    using compiled_programs [OF assms] by (rule list_all2_mono) (use scan_compiled in metis)
  ultimately have "list_all2 (\<lambda>c ix. scan_budget_ix c = scan_budget_ix ix) (cbInstructions (decoded_message m bs)) ixs"
    by (simp add: list_all2_conv_all_nth)
  from fold_same [OF this] show ?thesis by (simp add: budget_ok_def evaluateComputeBudget_def)
qed

section \<open>Properties\<close>

text \<open>what the byte-level policy accepts. It passes exactly the byte strings of at most the limit's size that decode to a transaction with no violation, and such a transaction is paid for by the expected fee payer, requires that one signature only, calls only allowed programs, stays within the instruction limit, passes the compute-budget check and names a blockhash that is not all zeros.\<close>

theorem transaction_policy_sound:
  "allowed (evaluateTransactionPolicy raw limits) \<longleftrightarrow>
     length raw \<le> maxTransactionBytes limits \<and>
     (\<exists>tx. decodeTransaction raw = Inr tx \<and> decoded (evaluateTransactionPolicy raw limits) = Some tx \<and>
        key_at (staticAccountKeys tx) 0 = Some (expectedFeePayer limits) \<and> numRequiredSignatures tx = 1 \<and>
        (\<forall>ix \<in> set (instructions tx). \<exists>p \<in> set (allowedPrograms limits).
           key_at (staticAccountKeys tx) (programIdIndex ix) = Some p) \<and>
        length (instructions tx) \<le> maxInstructions limits \<and>
        budget_ok (cbInstructions tx) (maxPriorityFeeLamports limits) \<and>
        recentBlockhash tx \<noteq> replicate 32 (CHR ''1''))"
proof -
  have "allowed (evaluateTransactionPolicy raw limits) \<longleftrightarrow> length raw \<le> maxTransactionBytes limits \<and>
      (\<exists>tx. decodeTransaction raw = Inr tx \<and> decoded (evaluateTransactionPolicy raw limits) = Some tx \<and>
        transaction_violations limits tx = [])"
    using evaluateTransactionPolicy_allowed [of raw limits]
    by (auto simp: evaluateTransactionPolicy_def Let_def)
  then show ?thesis by (simp only: transaction_violations_Nil)
qed

text \<open>the instruction policy and the byte policy are the same policy. For a plausible route that compiles and serializes, the final bytes pass the transaction policy for the fee payer and fee cap exactly when the router's instructions pass the instruction policy for them and the blockhash is not all zeros: neither path is laxer than the other.\<close>

theorem policies_agree_on_compiled:
  assumes "compileMessage ixs fp bh tabs = Inr m" and "plausible ixs tabs m"
    and "encodeUnsignedTransaction m = Inr raw"
  shows "allowed (evaluateTransactionPolicy raw (defaultLimits fp cap)) \<longleftrightarrow>
    ip_allowed (evaluateInstructionPolicy ixs (instructionPolicyLimits fp cap)) \<and>
    bh \<noteq> replicate 32 (CHR ''1'')"
proof -
  have dt: "distinct (map fst tabs)" using assms(2) by (simp add: plausible_def)
  let ?bs = "write_message m" and ?S = "cm_staticAccountKeys m"
  let ?tx = "decoded_message m ?bs"
  have dec: "decodeTransaction raw = Inr ?tx"
    by (rule decode_encoded [OF compileMessage_sendable [OF assms(1, 2)] assms(3)])
  have len: "length raw \<le> 1232"
    using assms(3) by (auto simp: encodeUnsignedTransaction_def ebind_eq_Inr Let_def MAX_PACKET_BYTES_def split: if_splits)
  have bh: "cm_recentBlockhash m = bh" by (rule compileMessage_Inr [OF assms(1) dt])
  have "hd ?S = fp" using compiled_privileges [OF assms(1) dt] by blast
  moreover have "?S \<noteq> []" by (rule compileMessage_Inr [OF assms(1) dt]) auto
  ultimately have payer: "key_at ?S 0 = Some fp" by (simp add: key_at_def hd_conv_nth)
  have progs: "list_all2 (\<lambda>ix c. key_at ?S (programIdIndex c) = Some (programId ix)) ixs (cm_instructions m)"
    using compiled_programs [OF assms(1) dt] by (rule list_all2_mono) simp
  have "(\<forall>c \<in> set (cm_instructions m). \<exists>p \<in> set P. key_at ?S (programIdIndex c) = Some p) \<longleftrightarrow>
      (\<forall>ix \<in> set ixs. programId ix \<in> set P)" for P
    using progs by (auto simp: list_all2_conv_all_nth all_set_conv_all_nth)
  moreover have "length (cm_instructions m) = length ixs" using progs by (simp add: list_all2_lengthD)
  ultimately show ?thesis
    unfolding evaluateTransactionPolicy_allowed instructionPolicy_allowed dec transaction_violations_Nil
    using payer len compiled_one_signer [OF assms(1) dt] compiled_budget_ok [OF assms(1) dt, of ?bs cap]
    by (auto simp: defaultLimits_def instructionPolicyLimits_def decoded_message_def MAX_TX_BYTES_def bh)
qed

lemma policies_agree_on_compiled_witness:
  "\<exists>raw. encodeUnsignedTransaction sample_compiled = Inr raw \<and>
     \<not> allowed (evaluateTransactionPolicy raw (defaultLimits (sample_key 7) 5000))"
proof -
  obtain raw where raw: "encodeUnsignedTransaction sample_compiled = Inr raw"
    using sample_compiled_encodes ..
  have "\<not> budget_ok sample_route 5000"
    by (simp add: budget_ok_def evaluateComputeBudget_def sample_route_def scan_budget_ix_def)
  with policies_agree_on_compiled [OF sample_compiles sample_plausible raw, of 5000] raw show ?thesis
    by (auto simp: instructionPolicy_allowed instructionPolicyLimits_def)
qed

end
