(* ===== verification/Signing.thy ===== *)
theory Signing
  imports Policy
begin

text \<open>
  The signer's three questions and the signature: \<open>packages/execution/src/binding.ts\<close> (is this
  the transaction we asked for), \<open>effect.ts\<close> (what will it do, by simulation) and
  \<open>signer.ts\<close>. The RPC's answers and the Ed25519 primitive are arguments: \<open>verifyEffect\<close>
  takes what \<open>getAccounts\<close> and \<open>simulate\<close> returned (\<open>None\<close> when either threw), and
  \<open>sign\<close> takes \<open>edSign\<close>, the private key's signing function. Detail strings are left out.
\<close>

section \<open>Intents\<close>

datatype side = buy | sell

record TradeIntent =
  intentId :: string
  idempotencyKey :: string
  ti_mint :: string
  ti_side :: side
  inputMint :: string
  outputMint :: string
  maxInputAmount :: int
  minOutputAmount :: int
  maxTotalFeeLamports :: int
  ti_maxPriorityFeeLamports :: int
  deadlineUtcMs :: int
  strategyVersion :: string
  riskSnapshotHash :: string
  createdUtcMs :: int

section \<open>Binding\<close>

datatype BindingViolation =
    intent_expired | priority_fee_exceeds_intent | lamport_outflow_exceeds_intent | undecodable_system_transfer

record BindingResult =
  bound :: bool
  bd_violations :: "BindingViolation list"
  lamportOutflow :: int
  bd_priorityFeeLamports :: int

definition SYSTEM_TRANSFER_TAG :: nat where "SYSTEM_TRANSFER_TAG = 2"
definition SYSTEM_TRANSFER_LEN :: nat where "SYSTEM_TRANSFER_LEN = 12"

definition readU64LE :: "bytes \<Rightarrow> nat \<Rightarrow> int" where
  "readU64LE d off = int (le_uint (take 8 (drop off d)))"

text \<open>The loop body: (total, undecodable).\<close>

definition outflow_ix :: "string list \<Rightarrow> CompiledInstruction \<Rightarrow> int \<times> nat \<Rightarrow> int \<times> nat" where
  "outflow_ix ks ix = (\<lambda>(tot, und).
     let d = ix_data ix in
     if key_at ks (programIdIndex ix) \<noteq> Some SYSTEM_PROGRAM then (tot, und)
     else if length d < 4 then (tot, Suc und)
     else if le_uint (take 4 d) \<noteq> SYSTEM_TRANSFER_TAG then (tot, und)
     else if length d \<noteq> SYSTEM_TRANSFER_LEN then (tot, Suc und)
     else if \<not> (accountIndexes ix \<noteq> [] \<and> accountIndexes ix ! 0 = 0) then (tot, und)
     else (tot + readU64LE d 4, und))"

definition lamportOutflowFromPayer :: "DecodedTransaction \<Rightarrow> int \<times> nat" where
  "lamportOutflowFromPayer tx = fold (outflow_ix (staticAccountKeys tx)) (instructions tx) (0, 0)"

definition outflowCeiling :: "TradeIntent \<Rightarrow> int" where
  "outflowCeiling intent = (case ti_side intent of
     buy \<Rightarrow> maxInputAmount intent + maxTotalFeeLamports intent | sell \<Rightarrow> maxTotalFeeLamports intent)"

definition evaluateBinding :: "DecodedTransaction \<Rightarrow> TradeIntent \<Rightarrow> int \<Rightarrow> BindingResult" where
  "evaluateBinding tx intent nowUtcMs =
     (let fee = priorityFeeLamports (readComputeBudget tx);
          (tot, und) = lamportOutflowFromPayer tx;
          vs = flag (nowUtcMs \<ge> deadlineUtcMs intent) intent_expired @
               flag (fee > ti_maxPriorityFeeLamports intent) priority_fee_exceeds_intent @
               flag (und > 0) undecodable_system_transfer @
               flag (tot > outflowCeiling intent) lamport_outflow_exceeds_intent
      in \<lparr>bound = (length vs = 0), bd_violations = vs, lamportOutflow = tot, bd_priorityFeeLamports = fee\<rparr>)"

section \<open>Effect\<close>

record Account =
  ac_lamports :: int
  ac_owner :: string
  ac_dataBase64 :: string

record TokenAccountView =
  tv_mint :: string
  tv_owner :: string
  tv_amount :: int

definition readTokenAccount :: "Account option \<Rightarrow> TokenAccountView option" where
  "readTokenAccount acc =
     (case acc of
        None \<Rightarrow> None
      | Some a \<Rightarrow>
          if ac_owner a \<noteq> TOKEN_PROGRAM \<and> ac_owner a \<noteq> TOKEN_2022_PROGRAM then None
          else
            let data = base64_decode (ac_dataBase64 a) in
            if length data < 72 then None
            else Some \<lparr>tv_mint = base58Encode (take 32 data), tv_owner = base58Encode (take 32 (drop 32 data)),
                       tv_amount = readU64LE data 64\<rparr>)"

datatype EffectRefusal =
    simulation_failed | simulation_unavailable | output_account_not_found | output_below_minimum
  | input_above_maximum | unexpected_mint_movement

record EffectVerdict =
  verified :: bool
  refusals :: "EffectRefusal list"
  lamportDelta :: "int option"
  outputDelta :: "int option"
  inputDelta :: "int option"
  ev_logs :: "string list"
  unitsConsumed :: "nat option"

record SimulateResult =
  sim_err :: "string option"
  sim_accounts :: "Account option list"
  sim_logs :: "string list"
  sim_unitsConsumed :: "nat option"

definition fail_effect :: "EffectRefusal \<Rightarrow> string list \<Rightarrow> nat option \<Rightarrow> EffectVerdict" where
  "fail_effect r logs units =
     \<lparr>verified = False, refusals = [r], lamportDelta = None, outputDelta = None, inputDelta = None,
      ev_logs = logs, unitsConsumed = units\<rparr>"

definition WRAPPED_SOL :: string where "WRAPPED_SOL = ''So11111111111111111111111111111111111111112''"

text \<open>\<open>xs[i] ?? null\<close>\<close>

definition account_at :: "Account option list \<Rightarrow> nat \<Rightarrow> Account option" where
  "account_at xs i = (if i < length xs then xs ! i else None)"

definition lamports_at :: "Account option list \<Rightarrow> nat \<Rightarrow> int" where
  "lamports_at xs i = (case account_at xs i of None \<Rightarrow> 0 | Some a \<Rightarrow> ac_lamports a)"

type_synonym balances = "(string \<times> int) list"

text \<open>The amount of a view when it is held by \<open>me\<close>.\<close>

definition held :: "string \<Rightarrow> TokenAccountView option \<Rightarrow> int" where
  "held me v = (case v of None \<Rightarrow> 0 | Some a \<Rightarrow> if tv_owner a = me then tv_amount a else 0)"

definition bump :: "string \<Rightarrow> int \<Rightarrow> balances \<Rightarrow> balances" where
  "bump m x bal = js_set m ((case js_get bal m of None \<Rightarrow> 0 | Some y \<Rightarrow> y) + x) bal"

text \<open>The loop body over the static keys: (before, after, seenMints).\<close>

definition effect_step ::
  "string \<Rightarrow> TokenAccountView option \<times> TokenAccountView option \<Rightarrow>
   balances \<times> balances \<times> string list \<Rightarrow> balances \<times> balances \<times> string list" where
  "effect_step me = (\<lambda>(a, b) (before, after, seen).
     case (case b of None \<Rightarrow> a | Some _ \<Rightarrow> b) of
       None \<Rightarrow> (before, after, seen)
     | Some view \<Rightarrow>
         if tv_owner view \<noteq> me then (before, after, seen)
         else (bump (tv_mint view) (held me a) before, bump (tv_mint view) (held me b) after,
               js_add (tv_mint view) seen))"

definition token_views :: "Account option list \<Rightarrow> Account option list \<Rightarrow> nat \<Rightarrow> (TokenAccountView option \<times> TokenAccountView option) list" where
  "token_views pre post n = map (\<lambda>i. (readTokenAccount (account_at pre i), readTokenAccount (account_at post i))) [0..<n]"

definition balance :: "balances \<Rightarrow> string \<Rightarrow> int" where
  "balance bal m = (case js_get bal m of None \<Rightarrow> 0 | Some x \<Rightarrow> x)"

text \<open>\<open>addresses.indexOf(signerPubkey)\<close>; \<open>None\<close> is -1.\<close>

fun js_index_of :: "string list \<Rightarrow> string \<Rightarrow> nat option" where
  "js_index_of [] k = None"
| "js_index_of (x # xs) k = (if x = k then Some 0 else map_option Suc (js_index_of xs k))"

definition verifyEffect ::
  "(Account option list \<times> SimulateResult) option \<Rightarrow> DecodedTransaction \<Rightarrow> TradeIntent \<Rightarrow> string \<Rightarrow> EffectVerdict" where
  "verifyEffect responses tx intent me =
     (let addresses = staticAccountKeys tx in
      case responses of
        None \<Rightarrow> fail_effect simulation_unavailable [] None
      | Some (pre, sim) \<Rightarrow>
          if sim_err sim \<noteq> None then fail_effect simulation_failed (sim_logs sim) (sim_unitsConsumed sim)
          else if length (sim_accounts sim) \<noteq> length addresses then
            fail_effect simulation_unavailable (sim_logs sim) None
          else
            let lamports = map_option (\<lambda>i. lamports_at pre i - lamports_at (sim_accounts sim) i) (js_index_of addresses me);
                (before, after, seen) = fold (effect_step me) (token_views pre (sim_accounts sim) (length addresses)) ([], [], []);
                outDelta = (if outputMint intent \<in> set seen
                  then Some (balance after (outputMint intent) - balance before (outputMint intent)) else None);
                inDelta = (if inputMint intent \<in> set seen
                  then Some (balance before (inputMint intent) - balance after (inputMint intent)) else None);
                outputIsSol = (outputMint intent = WRAPPED_SOL);
                inputIsSol = (inputMint intent = WRAPPED_SOL);
                effectiveOutput = (if outputIsSol then map_option uminus lamports else outDelta);
                effectiveInput = (if inputIsSol then lamports else inDelta);
                rs = (case effectiveOutput of None \<Rightarrow> [output_account_not_found]
                      | Some x \<Rightarrow> flag (x < minOutputAmount intent) output_below_minimum) @
                     (case effectiveInput of None \<Rightarrow> [output_account_not_found]
                      | Some x \<Rightarrow> flag (x > maxInputAmount intent + (if inputIsSol then maxTotalFeeLamports intent else 0)) input_above_maximum) @
                     map (\<lambda>_. unexpected_mint_movement)
                       (filter (\<lambda>m. m \<noteq> inputMint intent \<and> m \<noteq> outputMint intent \<and> m \<noteq> WRAPPED_SOL \<and>
                          balance after m - balance before m \<noteq> 0) seen)
            in \<lparr>verified = (length rs = 0), refusals = rs, lamportDelta = lamports, outputDelta = effectiveOutput,
                inputDelta = effectiveInput, ev_logs = sim_logs sim, unitsConsumed = sim_unitsConsumed sim\<rparr>)"

section \<open>Signing\<close>

datatype sign_refusal_kind = refuse_policy | refuse_binding | refuse_effect

datatype signer_error = BadSignatureLength nat | TooShortForSignature | PlacementAlteredMessage | RecheckUndecodable tx_error

datatype sign_outcome =
    Signed string string DecodedTransaction
  | NotSigned sign_refusal_kind
  | SignerThrew signer_error

definition SIGNATURE_BYTES :: nat where "SIGNATURE_BYTES = 64"

text \<open>The length of the shortvec prefix; \<open>undefined & 0x80\<close> is 0.\<close>

definition byte_at :: "bytes \<Rightarrow> nat \<Rightarrow> nat" where
  "byte_at raw i = (if i < length raw then unat (raw ! i) else 0)"

definition prefix_length :: "bytes \<Rightarrow> nat" where
  "prefix_length raw =
     (if byte_at raw 0 AND 128 = 0 then 1 else if byte_at raw 1 AND 128 = 0 then 2 else 3)"

definition writeSignature :: "bytes \<Rightarrow> bytes \<Rightarrow> signer_error + bytes" where
  "writeSignature raw sig =
     (let n = prefix_length raw in
      if n + SIGNATURE_BYTES > length raw then Inl TooShortForSignature
      else Inr (take n raw @ sig @ drop (n + length sig) raw))"

definition sign :: "(bytes \<Rightarrow> bytes) \<Rightarrow> string \<Rightarrow> bytes \<Rightarrow> TradeIntent \<Rightarrow> EffectVerdict \<Rightarrow> int \<Rightarrow> sign_outcome" where
  "sign edSign publicKey raw intent effect nowUtcMs =
     (let policy = evaluateTransactionPolicy raw (defaultLimits publicKey (ti_maxPriorityFeeLamports intent)) in
      case decoded policy of
        None \<Rightarrow> NotSigned refuse_policy
      | Some tx \<Rightarrow>
          if \<not> allowed policy then NotSigned refuse_policy
          else if \<not> bound (evaluateBinding tx intent nowUtcMs) then NotSigned refuse_binding
          else if \<not> verified effect then NotSigned refuse_effect
          else
            let signature = edSign (messageBytes tx) in
            if length signature \<noteq> SIGNATURE_BYTES then SignerThrew (BadSignatureLength (length signature))
            else case writeSignature raw signature of
              Inl e \<Rightarrow> SignerThrew e
            | Inr out \<Rightarrow>
                (case decodeTransaction out of
                   Inl e \<Rightarrow> SignerThrew (RecheckUndecodable e)
                 | Inr recheck \<Rightarrow>
                     if messageBytes recheck \<noteq> messageBytes tx then SignerThrew PlacementAlteredMessage
                     else Signed (base64_encode out) (base58Encode signature) tx))"


section \<open>What the simulation measured\<close>

type_synonym views = "(TokenAccountView option \<times> TokenAccountView option) list"

text \<open>The amount of mint \<open>m\<close> that \<open>me\<close> holds in one account.\<close>

definition held_mint :: "string \<Rightarrow> string \<Rightarrow> TokenAccountView option \<Rightarrow> int" where
  "held_mint me m v = (case v of None \<Rightarrow> 0 | Some a \<Rightarrow> if tv_owner a = me \<and> tv_mint a = m then tv_amount a else 0)"

definition pre_total :: "string \<Rightarrow> views \<Rightarrow> string \<Rightarrow> int" where
  "pre_total me vs m = sum_list (map (held_mint me m \<circ> fst) vs)"

definition post_total :: "string \<Rightarrow> views \<Rightarrow> string \<Rightarrow> int" where
  "post_total me vs m = sum_list (map (held_mint me m \<circ> snd) vs)"

text \<open>No token account changes its owner or its mint.\<close>

definition stable :: "views \<Rightarrow> bool" where
  "stable vs \<longleftrightarrow> (\<forall>(a, b) \<in> set vs. \<forall>x y. a = Some x \<longrightarrow> b = Some y \<longrightarrow> tv_owner x = tv_owner y \<and> tv_mint x = tv_mint y)"

lemma balance_bump: "balance (bump m x bal) m' = balance bal m' + (if m' = m then x else 0)"
  by (simp add: balance_def bump_def)

lemma balance_Nil [simp]: "balance [] m = 0"
  by (simp add: balance_def)

definition counts :: "string \<Rightarrow> views \<Rightarrow> balances \<times> balances \<times> string list \<Rightarrow> bool" where
  "counts me vs = (\<lambda>(before, after, seen). \<forall>m.
     balance before m = pre_total me vs m \<and> balance after m = post_total me vs m \<and>
     (m \<notin> set seen \<longrightarrow> pre_total me vs m = 0 \<and> post_total me vs m = 0))"

lemma totals_snoc:
  "pre_total me (vs @ [(a, b)]) m = pre_total me vs m + held_mint me m a"
  "post_total me (vs @ [(a, b)]) m = post_total me vs m + held_mint me m b"
  by (simp_all add: pre_total_def post_total_def)

lemma held_view:
  assumes "stable [(a, b)]"
  defines "view \<equiv> (case b of None \<Rightarrow> a | Some _ \<Rightarrow> b)"
  shows "view = Some v \<Longrightarrow> tv_owner v = me \<Longrightarrow>
      held_mint me m a = (if m = tv_mint v then held me a else 0) \<and>
      held_mint me m b = (if m = tv_mint v then held me b else 0)"
    and "\<not> (\<exists>v. view = Some v \<and> tv_owner v = me) \<Longrightarrow> held_mint me m a = 0 \<and> held_mint me m b = 0"
  using assms by (cases a; cases b; auto simp: held_def held_mint_def stable_def)+

lemma counts_step:
  assumes "counts me vs st" and "stable [(a, b)]"
  shows "counts me (vs @ [(a, b)]) (effect_step me (a, b) st)"
proof -
  obtain before after seen where st: "st = (before, after, seen)" by (metis prod_cases3)
  have ih: "balance before m = pre_total me vs m" "balance after m = post_total me vs m"
    "m \<notin> set seen \<Longrightarrow> pre_total me vs m = 0" "m \<notin> set seen \<Longrightarrow> post_total me vs m = 0" for m
    using assms(1) by (simp_all add: counts_def st)
  define view where "view = (case b of None \<Rightarrow> a | Some _ \<Rightarrow> b)"
  show ?thesis
  proof (cases "\<exists>v. view = Some v \<and> tv_owner v = me")
    case True
    then obtain v where v: "view = Some v" "tv_owner v = me" by blast
    have h: "held_mint me m a = (if m = tv_mint v then held me a else 0)"
      "held_mint me m b = (if m = tv_mint v then held me b else 0)" for m
      using held_view(1) [OF assms(2), of v me m] v unfolding view_def by blast+
    have "effect_step me (a, b) st = (bump (tv_mint v) (held me a) before, bump (tv_mint v) (held me b) after,
        js_add (tv_mint v) seen)"
      using v unfolding view_def by (simp add: effect_step_def st)
    then show ?thesis
      unfolding counts_def totals_snoc h balance_bump ih prod.case by (simp add: balance_bump ih)
  next
    case False
    then have "held_mint me m a = 0 \<and> held_mint me m b = 0" for m
      using held_view(2) [OF assms(2)] by (simp add: view_def)
    moreover have "effect_step me (a, b) st = st"
      using False by (auto simp: effect_step_def st view_def [symmetric] split: option.splits)
    ultimately show ?thesis using ih by (simp add: counts_def st totals_snoc)
  qed
qed

lemma stable_append: "stable (vs @ ws) \<longleftrightarrow> stable vs \<and> stable ws"
  by (simp only: stable_def set_append ball_Un)

lemma counts_fold: "stable vs \<Longrightarrow> counts me vs (fold (effect_step me) vs ([], [], []))"
proof (induction vs rule: rev_induct)
  case Nil
  then show ?case by (simp add: counts_def pre_total_def post_total_def)
next
  case (snoc v vs)
  obtain a b where v: "v = (a, b)" by (cases v)
  have st: "stable vs" "stable [(a, b)]" using snoc.prems unfolding v stable_append by blast+
  from counts_step [OF snoc.IH [OF st(1)] st(2)] show ?case
    unfolding v fold_append fold_Cons fold_Nil comp_apply id_apply .
qed

lemma js_index_of_Some: "js_index_of xs k = Some i \<Longrightarrow> i < length xs \<and> xs ! i = k"
  by (induction xs k arbitrary: i rule: js_index_of.induct) (auto split: if_splits)

section \<open>Placing the signature\<close>

lemma decode_signatures_irrelevant:
  assumes "0 < n" and "n \<le> 8" and "length sigs = n * 64" and "length sigs' = n * 64"
  shows "decodeTransaction (Writer_shortVec n @ sigs' @ msg) = decodeTransaction (Writer_shortVec n @ sigs @ msg)"
  using assms unfolding decodeTransaction_def
  by (simp add: Reader_Writer_shortVec Reader_bytes_append SIGNATURE_LEN_def)

lemma Writer_shortVec_small: "n < 128 \<Longrightarrow> Writer_shortVec n = [word_of_nat n]"
  by (subst Writer_shortVec.simps) (simp add: drop_bit_eq_div Let_def and_127)

lemma writeSignature_decoded:
  assumes "decodeTransaction raw = Inr tx" and "length sig = 64"
  shows "\<exists>out. writeSignature raw sig = Inr out \<and> decodeTransaction out = Inr tx \<and>
    length out = length raw \<and> take 64 (drop 1 out) = sig \<and> take 1 out = take 1 raw \<and> drop 65 out = drop 65 raw"
  using assms(1)
proof (rule decodeTransaction_Inr)
  fix sigs
  let ?n = "signatureCount tx"
  assume raw: "raw = Writer_shortVec ?n @ sigs @ messageBytes tx" and sl: "length sigs = ?n * 64"
    and n: "0 < ?n" "?n \<le> 8"
  have sv: "Writer_shortVec ?n = [word_of_nat ?n]" using n by (intro Writer_shortVec_small) simp
  have "byte_at raw 0 = ?n" using n by (simp add: byte_at_def raw sv)
  then have p: "prefix_length raw = 1" using n by (simp add: prefix_length_def and_128_eq_0)
  have "64 \<le> length sigs" using sl n by simp
  let ?sigs' = "sig @ drop 64 sigs"
  have out: "writeSignature raw sig = Inr (Writer_shortVec ?n @ ?sigs' @ messageBytes tx)"
    using \<open>64 \<le> length sigs\<close> assms(2) unfolding writeSignature_def p Let_def
    by (simp add: raw sv SIGNATURE_BYTES_def)
  have "length ?sigs' = ?n * 64" using \<open>64 \<le> length sigs\<close> assms(2) sl by simp
  from decode_signatures_irrelevant [OF n sl this] assms(1) have
    "decodeTransaction (Writer_shortVec ?n @ ?sigs' @ messageBytes tx) = Inr tx" by (simp add: raw)
  with out \<open>64 \<le> length sigs\<close> assms(2) show ?thesis by (simp add: raw sv)
qed


lemma verified_effect:
  assumes "verified (verifyEffect responses tx intent me)"
  obtains pre sim before after seen where "responses = Some (pre, sim)" and "sim_err sim = None"
    and "length (sim_accounts sim) = length (staticAccountKeys tx)"
    and "fold (effect_step me) (token_views pre (sim_accounts sim) (length (staticAccountKeys tx))) ([], [], []) = (before, after, seen)"
    and "outputMint intent \<noteq> WRAPPED_SOL \<Longrightarrow> outputMint intent \<in> set seen \<and>
      minOutputAmount intent \<le> balance after (outputMint intent) - balance before (outputMint intent)"
    and "inputMint intent \<noteq> WRAPPED_SOL \<Longrightarrow> inputMint intent \<in> set seen \<and>
      balance before (inputMint intent) - balance after (inputMint intent) \<le> maxInputAmount intent"
    and "outputMint intent = WRAPPED_SOL \<Longrightarrow> \<exists>i. js_index_of (staticAccountKeys tx) me = Some i \<and>
      minOutputAmount intent \<le> lamports_at (sim_accounts sim) i - lamports_at pre i"
    and "inputMint intent = WRAPPED_SOL \<Longrightarrow> \<exists>i. js_index_of (staticAccountKeys tx) me = Some i \<and>
      lamports_at pre i - lamports_at (sim_accounts sim) i \<le> maxInputAmount intent + maxTotalFeeLamports intent"
    and "\<And>m. m \<in> set seen \<Longrightarrow> m \<noteq> inputMint intent \<Longrightarrow> m \<noteq> outputMint intent \<Longrightarrow> m \<noteq> WRAPPED_SOL \<Longrightarrow>
      balance after m = balance before m"
proof -
  obtain pre sim where r: "responses = Some (pre, sim)"
    using assms by (cases responses) (auto simp: verifyEffect_def fail_effect_def)
  obtain before after seen where f: "fold (effect_step me)
      (token_views pre (sim_accounts sim) (length (staticAccountKeys tx))) ([], [], []) = (before, after, seen)"
    by (metis prod_cases3)
  note ver = assms [unfolded verifyEffect_def r Let_def option.case prod.case f]
  have ok: "sim_err sim = None" "length (sim_accounts sim) = length (staticAccountKeys tx)"
    using ver by (simp_all add: fail_effect_def split: if_splits)
  note ver = ver [unfolded ok, simplified]
  show ?thesis
  proof (rule that [OF r ok f])
    show "outputMint intent \<in> set seen \<and>
      minOutputAmount intent \<le> balance after (outputMint intent) - balance before (outputMint intent)"
      if "outputMint intent \<noteq> WRAPPED_SOL"
      using ver that by (simp split: if_splits)
    show "inputMint intent \<in> set seen \<and>
      balance before (inputMint intent) - balance after (inputMint intent) \<le> maxInputAmount intent"
      if "inputMint intent \<noteq> WRAPPED_SOL"
      using ver that by (simp split: if_splits)
    show "\<exists>i. js_index_of (staticAccountKeys tx) me = Some i \<and>
      minOutputAmount intent \<le> lamports_at (sim_accounts sim) i - lamports_at pre i"
      if "outputMint intent = WRAPPED_SOL"
      using ver that by (cases "js_index_of (staticAccountKeys tx) me") simp_all
    show "\<exists>i. js_index_of (staticAccountKeys tx) me = Some i \<and>
      lamports_at pre i - lamports_at (sim_accounts sim) i \<le> maxInputAmount intent + maxTotalFeeLamports intent"
      if "inputMint intent = WRAPPED_SOL"
      using ver that by (cases "js_index_of (staticAccountKeys tx) me") simp_all
    show "balance after m = balance before m"
      if "m \<in> set seen" "m \<noteq> inputMint intent" "m \<noteq> outputMint intent" "m \<noteq> WRAPPED_SOL" for m
      using ver that by (auto simp: filter_empty_conv)
  qed
qed

section \<open>Properties\<close>

text \<open>C22: what a verified effect guarantees. If the simulated accounts keep their token owners and mints, a verified transaction gains the signer at least the minimum of the output mint over all its token accounts, spends at most the maximum of the input mint, and moves no other mint by a single unit (wrapped SOL apart). When a side is SOL the same bounds hold for the fee payer's lamports, with the fee budget added on the spending side.\<close>

theorem verified_effect_bounds:
  assumes "verified (verifyEffect (Some (pre, sim)) tx intent me)"
    and "vs = token_views pre (sim_accounts sim) (length (staticAccountKeys tx))" and "stable vs"
  shows "(outputMint intent \<noteq> WRAPPED_SOL \<longrightarrow>
      minOutputAmount intent \<le> post_total me vs (outputMint intent) - pre_total me vs (outputMint intent)) \<and>
    (inputMint intent \<noteq> WRAPPED_SOL \<longrightarrow>
      pre_total me vs (inputMint intent) - post_total me vs (inputMint intent) \<le> maxInputAmount intent) \<and>
    (\<forall>m. m \<noteq> inputMint intent \<longrightarrow> m \<noteq> outputMint intent \<longrightarrow> m \<noteq> WRAPPED_SOL \<longrightarrow>
      post_total me vs m = pre_total me vs m) \<and>
    (outputMint intent = WRAPPED_SOL \<longrightarrow> (\<exists>i. js_index_of (staticAccountKeys tx) me = Some i \<and>
      minOutputAmount intent \<le> lamports_at (sim_accounts sim) i - lamports_at pre i)) \<and>
    (inputMint intent = WRAPPED_SOL \<longrightarrow> (\<exists>i. js_index_of (staticAccountKeys tx) me = Some i \<and>
      lamports_at pre i - lamports_at (sim_accounts sim) i \<le> maxInputAmount intent + maxTotalFeeLamports intent))"
  using assms(1)
proof (rule verified_effect)
  fix pre' sim' before after seen
  assume r: "Some (pre, sim) = Some (pre', sim')"
    and f: "fold (effect_step me) (token_views pre' (sim_accounts sim') (length (staticAccountKeys tx))) ([], [], []) = (before, after, seen)"
    and out: "outputMint intent \<noteq> WRAPPED_SOL \<Longrightarrow> outputMint intent \<in> set seen \<and>
      minOutputAmount intent \<le> balance after (outputMint intent) - balance before (outputMint intent)"
    and inp: "inputMint intent \<noteq> WRAPPED_SOL \<Longrightarrow> inputMint intent \<in> set seen \<and>
      balance before (inputMint intent) - balance after (inputMint intent) \<le> maxInputAmount intent"
    and sol: "outputMint intent = WRAPPED_SOL \<Longrightarrow> \<exists>i. js_index_of (staticAccountKeys tx) me = Some i \<and>
      minOutputAmount intent \<le> lamports_at (sim_accounts sim') i - lamports_at pre' i"
    "inputMint intent = WRAPPED_SOL \<Longrightarrow> \<exists>i. js_index_of (staticAccountKeys tx) me = Some i \<and>
      lamports_at pre' i - lamports_at (sim_accounts sim') i \<le> maxInputAmount intent + maxTotalFeeLamports intent"
    and third: "\<And>m. m \<in> set seen \<Longrightarrow> m \<noteq> inputMint intent \<Longrightarrow> m \<noteq> outputMint intent \<Longrightarrow> m \<noteq> WRAPPED_SOL \<Longrightarrow>
      balance after m = balance before m"
  have eq: "pre' = pre" "sim' = sim" using r by simp_all
  from counts_fold [OF assms(3), of me] f have
    c: "balance before m = pre_total me vs m" "balance after m = post_total me vs m"
    "m \<notin> set seen \<Longrightarrow> pre_total me vs m = 0 \<and> post_total me vs m = 0" for m
    by (simp_all add: counts_def assms(2) eq)
  have "post_total me vs m = pre_total me vs m"
    if "m \<noteq> inputMint intent" "m \<noteq> outputMint intent" "m \<noteq> WRAPPED_SOL" for m
    using third [OF _ that] c [of m] by (cases "m \<in> set seen") simp_all
  with out inp sol show ?thesis unfolding c eq by blast
qed

text \<open>C2: a signature is only produced for a transaction that was understood, asked for and measured, and the bytes that leave are the bytes that were checked. Whatever the signing primitive does, a signed outcome means the policy allowed the received bytes, the decoded transaction is bound to the intent at the given time, the effect was verified, and the outgoing bytes have the same length, decode to the same transaction, carry the signature of its message in slot 0 and differ from the received bytes nowhere else.\<close>

theorem sign_sound:
  assumes "sign edSign me raw intent effect now = Signed b64 sig tx"
  shows "allowed (evaluateTransactionPolicy raw (defaultLimits me (ti_maxPriorityFeeLamports intent))) \<and>
    decodeTransaction raw = Inr tx \<and> bound (evaluateBinding tx intent now) \<and> verified effect \<and>
    sig = base58Encode (edSign (messageBytes tx)) \<and>
    (let out = base64_decode b64 in decodeTransaction out = Inr tx \<and> length out = length raw \<and>
       take 64 (drop 1 out) = edSign (messageBytes tx) \<and> take 1 out = take 1 raw \<and> drop 65 out = drop 65 raw)"
proof -
  let ?policy = "evaluateTransactionPolicy raw (defaultLimits me (ti_maxPriorityFeeLamports intent))"
  have al: "allowed ?policy"
    using assms by (auto simp: sign_def Let_def split: option.splits if_splits)
  then obtain tx' where tx': "decodeTransaction raw = Inr tx'" "decoded ?policy = Some tx'"
    by (rule allowed_decoded)
  have ok: "bound (evaluateBinding tx' intent now)" "verified effect" "length (edSign (messageBytes tx')) = 64"
    using assms al tx'(2) by (auto simp: sign_def Let_def SIGNATURE_BYTES_def split: if_splits)
  from writeSignature_decoded [OF tx'(1) ok(3)] obtain out where
    out: "writeSignature raw (edSign (messageBytes tx')) = Inr out" "decodeTransaction out = Inr tx'"
    "length out = length raw" "take 64 (drop 1 out) = edSign (messageBytes tx')" "take 1 out = take 1 raw"
    "drop 65 out = drop 65 raw" by blast
  then have "sign edSign me raw intent effect now = Signed (base64_encode out) (base58Encode (edSign (messageBytes tx'))) tx'"
    using al tx'(2) ok by (simp add: sign_def Let_def SIGNATURE_BYTES_def)
  with assms have eqs: "b64 = base64_encode out" "sig = base58Encode (edSign (messageBytes tx'))" "tx = tx'" by auto
  from al tx' ok out show ?thesis unfolding eqs by (simp add: Let_def)
qed

text \<open>the signer does not get in its own way. With a primitive that yields 64-byte signatures it never throws: it signs exactly when the policy allows the bytes, the binding holds and the effect is verified, and refuses otherwise. In particular writing the signature never damages the message, so the recheck after placement always passes.\<close>

theorem sign_complete:
  assumes "\<And>msg. length (edSign msg) = SIGNATURE_BYTES"
  shows "(\<nexists>e. sign edSign me raw intent effect now = SignerThrew e) \<and>
    ((\<exists>b64 sig tx. sign edSign me raw intent effect now = Signed b64 sig tx) \<longleftrightarrow>
      (\<exists>tx. decodeTransaction raw = Inr tx \<and>
        allowed (evaluateTransactionPolicy raw (defaultLimits me (ti_maxPriorityFeeLamports intent))) \<and>
        bound (evaluateBinding tx intent now) \<and> verified effect))"
proof (cases "allowed (evaluateTransactionPolicy raw (defaultLimits me (ti_maxPriorityFeeLamports intent)))")
  case False
  then show ?thesis by (auto simp: sign_def Let_def split: option.splits)
next
  case True
  then obtain tx where tx: "decodeTransaction raw = Inr tx"
    "decoded (evaluateTransactionPolicy raw (defaultLimits me (ti_maxPriorityFeeLamports intent))) = Some tx"
    by (rule allowed_decoded)
  have "length (edSign (messageBytes tx)) = 64" using assms by (simp add: SIGNATURE_BYTES_def)
  from writeSignature_decoded [OF tx(1) this] obtain out where
    "writeSignature raw (edSign (messageBytes tx)) = Inr out" "decodeTransaction out = Inr tx" by blast
  with True tx assms show ?thesis by (auto simp: sign_def Let_def)
qed


section \<open>Witnesses\<close>

definition token_data :: "byte \<Rightarrow> byte \<Rightarrow> byte \<Rightarrow> bytes" where
  "token_data m ow amt = (0 # replicate 31 m) @ replicate 32 ow @ [amt, 0, 0, 0, 0, 0, 0, 0]"

definition sample_account :: "byte \<Rightarrow> byte \<Rightarrow> byte \<Rightarrow> Account" where
  "sample_account m ow amt = \<lparr>ac_lamports = 2039280, ac_owner = TOKEN_PROGRAM, ac_dataBase64 = base64_encode (token_data m ow amt)\<rparr>"

definition sample_mint :: "byte \<Rightarrow> string" where "sample_mint m = base58Encode (0 # replicate 31 m)"

lemma sample_mint_not_sol [simp]: "sample_mint m \<noteq> WRAPPED_SOL" "WRAPPED_SOL \<noteq> sample_mint m"
  by (simp_all add: sample_mint_def WRAPPED_SOL_def base58Encode_def leading_zeros_def)

lemma sample_mint_eq [simp]: "sample_mint a = sample_mint b \<longleftrightarrow> a = b"
  using base58Encode_inj [of "0 # replicate 31 a" "0 # replicate 31 b"] by (auto simp: sample_mint_def)

lemma read_sample_account [simp]:
  "readTokenAccount (Some (sample_account m ow amt)) =
     Some \<lparr>tv_mint = sample_mint m, tv_owner = sample_key ow, tv_amount = int (unat amt)\<rparr>"
  by (simp add: readTokenAccount_def sample_account_def token_data_def Let_def readU64LE_def sample_key_def sample_mint_def)

definition sample_tx :: DecodedTransaction where
  "sample_tx =
     \<lparr>tx_version = V0, signatureCount = 1, numRequiredSignatures = 1, numReadonlySignedAccounts = 0,
      numReadonlyUnsignedAccounts = 0, staticAccountKeys = [sample_key 7, sample_key 31, sample_key 32],
      recentBlockhash = sample_key 9, instructions = [], addressTableLookups = [], messageBytes = []\<rparr>"

text \<open>Buy at least 100 units of mint 20 for at most 10 lamports and 5 of fees.\<close>

definition sample_intent :: TradeIntent where
  "sample_intent =
     \<lparr>intentId = ''i'', idempotencyKey = ''k'', ti_mint = sample_mint 20, ti_side = buy,
      inputMint = WRAPPED_SOL, outputMint = sample_mint 20, maxInputAmount = 10, minOutputAmount = 100,
      maxTotalFeeLamports = 5, ti_maxPriorityFeeLamports = 5, deadlineUtcMs = 1000, strategyVersion = ''v'',
      riskSnapshotHash = ''h'', createdUtcMs = 0\<rparr>"

definition sample_payer :: "int \<Rightarrow> Account" where
  "sample_payer l = \<lparr>ac_lamports = l, ac_owner = SYSTEM_PROGRAM, ac_dataBase64 = []\<rparr>"

definition sample_sim :: "Account option list \<Rightarrow> SimulateResult" where
  "sample_sim accs = \<lparr>sim_err = None, sim_accounts = accs, sim_logs = [], sim_unitsConsumed = None\<rparr>"


text \<open>The bought mint arrives; with \<open>thief\<close>, a third token account changes its owner.\<close>

definition pre_accounts :: "Account option list" where
  "pre_accounts = [Some (sample_payer 1000), None, Some (sample_account 30 7 200)]"

definition honest_sim :: SimulateResult where
  "honest_sim = sample_sim [Some (sample_payer 990), Some (sample_account 20 7 100), Some (sample_account 30 7 200)]"

definition thief_sim :: SimulateResult where
  "thief_sim = sample_sim [Some (sample_payer 990), Some (sample_account 20 7 100), Some (sample_account 30 66 200)]"

lemma sample_payer_not_token [simp]: "readTokenAccount (Some (sample_payer l)) = None"
  by (simp add: readTokenAccount_def sample_payer_def SYSTEM_PROGRAM_def TOKEN_PROGRAM_def TOKEN_2022_PROGRAM_def)

lemma readTokenAccount_None [simp]: "readTokenAccount None = None"
  by (simp add: readTokenAccount_def)

lemma upt_3: "[0..<3] = [0, 1, 2 :: nat]"
  by (simp add: upt_rec)

lemma token_views_3: "token_views pre post 3 =
    map (\<lambda>i. (readTokenAccount (account_at pre i), readTokenAccount (account_at post i))) [0, 1, 2]"
  by (simp add: token_views_def upt_3)

lemma honest_views: "token_views pre_accounts (sim_accounts honest_sim) 3 =
    [(None, None), (None, Some \<lparr>tv_mint = sample_mint 20, tv_owner = sample_key 7, tv_amount = 100\<rparr>),
     (Some \<lparr>tv_mint = sample_mint 30, tv_owner = sample_key 7, tv_amount = 200\<rparr>,
      Some \<lparr>tv_mint = sample_mint 30, tv_owner = sample_key 7, tv_amount = 200\<rparr>)]"
  by (simp add: token_views_3 account_at_def pre_accounts_def honest_sim_def sample_sim_def)

lemma thief_views: "token_views pre_accounts (sim_accounts thief_sim) 3 =
    [(None, None), (None, Some \<lparr>tv_mint = sample_mint 20, tv_owner = sample_key 7, tv_amount = 100\<rparr>),
     (Some \<lparr>tv_mint = sample_mint 30, tv_owner = sample_key 7, tv_amount = 200\<rparr>,
      Some \<lparr>tv_mint = sample_mint 30, tv_owner = sample_key 66, tv_amount = 200\<rparr>)]"
  by (simp add: token_views_3 account_at_def pre_accounts_def thief_sim_def sample_sim_def)

lemma sample_tx_keys: "staticAccountKeys sample_tx = [sample_key 7, sample_key 31, sample_key 32]"
  by (simp add: sample_tx_def)

lemma honest_fold: "fold (effect_step (sample_key 7)) (token_views pre_accounts (sim_accounts honest_sim) 3) ([], [], []) =
    ([(sample_mint 20, 0), (sample_mint 30, 200)], [(sample_mint 20, 100), (sample_mint 30, 200)], [sample_mint 20, sample_mint 30])"
  unfolding honest_views by (simp add: effect_step_def held_def bump_def js_add_def js_get_def)

lemma thief_fold: "fold (effect_step (sample_key 7)) (token_views pre_accounts (sim_accounts thief_sim) 3) ([], [], []) =
    ([(sample_mint 20, 0)], [(sample_mint 20, 100)], [sample_mint 20])"
  unfolding thief_views by (simp add: effect_step_def held_def bump_def js_add_def js_get_def)

lemma verify_sample:
  assumes "fold (effect_step (sample_key 7)) (token_views pre_accounts (sim_accounts sim) 3) ([], [], []) = (before, after, seen)"
    and "sim_err sim = None" and "length (sim_accounts sim) = 3" and "lamports_at (sim_accounts sim) 0 = 990"
    and "sample_mint 20 \<in> set seen" and "balance after (sample_mint 20) - balance before (sample_mint 20) = 100"
    and "\<forall>m \<in> set seen. m = sample_mint 20 \<or> balance after m = balance before m"
  shows "verified (verifyEffect (Some (pre_accounts, sim)) sample_tx sample_intent (sample_key 7))"
proof -
  have pre: "lamports_at pre_accounts 0 = 1000"
    by (simp add: lamports_at_def account_at_def pre_accounts_def sample_payer_def)
  have intent: "inputMint sample_intent = WRAPPED_SOL" "outputMint sample_intent = sample_mint 20"
    "minOutputAmount sample_intent = 100" "maxInputAmount sample_intent = 10" "maxTotalFeeLamports sample_intent = 5"
    by (simp_all add: sample_intent_def)
  have n: "length (staticAccountKeys sample_tx) = 3" "js_index_of (staticAccountKeys sample_tx) (sample_key 7) = Some 0"
    by (simp_all add: sample_tx_keys)
  have none: "filter (\<lambda>m. m \<noteq> WRAPPED_SOL \<and> m \<noteq> sample_mint 20 \<and> m \<noteq> WRAPPED_SOL \<and> balance after m \<noteq> balance before m) seen = []"
    using assms(7) by (auto simp: filter_empty_conv)
  show ?thesis
    unfolding verifyEffect_def Let_def option.case prod.case n assms(1)
    using assms(2-6) none by (simp add: intent pre flag_def)
qed

lemma honest_verified: "verified (verifyEffect (Some (pre_accounts, honest_sim)) sample_tx sample_intent (sample_key 7))"
  by (rule verify_sample [OF honest_fold])
    (simp_all add: honest_sim_def sample_sim_def lamports_at_def account_at_def sample_payer_def balance_def js_get_def)

lemma thief_verified: "verified (verifyEffect (Some (pre_accounts, thief_sim)) sample_tx sample_intent (sample_key 7))"
  by (rule verify_sample [OF thief_fold])
    (simp_all add: thief_sim_def sample_sim_def lamports_at_def account_at_def sample_payer_def balance_def js_get_def)


lemma honest_stable: "stable (token_views pre_accounts (sim_accounts honest_sim) (length (staticAccountKeys sample_tx)))"
  by (simp add: sample_tx_keys numeral_3_eq_3 [symmetric] honest_views) (simp add: stable_def)

lemma verified_effect_bounds_witness:
  "100 \<le> post_total (sample_key 7) (token_views pre_accounts (sim_accounts honest_sim) 3) (sample_mint 20) \<and>
   post_total (sample_key 7) (token_views pre_accounts (sim_accounts honest_sim) 3) (sample_mint 30) = 200"
  using verified_effect_bounds [OF honest_verified refl honest_stable]
  by (simp add: sample_tx_keys numeral_3_eq_3 [symmetric] honest_views sample_intent_def pre_total_def held_mint_def)

text \<open>stability is not checked, and without it a verified effect bounds nothing. A transaction that hands the signer's whole balance of a third mint to another owner, by changing the owner of the token account, is verified: an account that is no longer the signer's after the simulation is skipped, before its earlier balance is counted.\<close>

theorem owner_change_unseen:
  "pre_total (sample_key 7) (token_views pre_accounts (sim_accounts thief_sim) 3) (sample_mint 30) = 200 \<and>
   post_total (sample_key 7) (token_views pre_accounts (sim_accounts thief_sim) 3) (sample_mint 30) = 0 \<and>
   verified (verifyEffect (Some (pre_accounts, thief_sim)) sample_tx sample_intent (sample_key 7))"
  using thief_verified unfolding thief_views by (simp add: pre_total_def post_total_def held_mint_def)

text \<open>A transaction that only sets its compute-unit limit.\<close>

definition limit_message :: CompiledMessage where
  "limit_message =
     \<lparr>cm_numRequiredSignatures = 1, cm_numReadonlySignedAccounts = 0, cm_numReadonlyUnsignedAccounts = 1,
      cm_staticAccountKeys = [sample_key 7, COMPUTE_BUDGET_PROGRAM], cm_recentBlockhash = sample_key 9,
      cm_instructions = [\<lparr>programIdIndex = 1, accountIndexes = [], ix_data = [2, 64, 66, 15, 0]\<rparr>],
      cm_addressTableLookups = [], cm_feePayer = sample_key 7, cm_writableAccounts = [], cm_readonlyAccounts = []\<rparr>"

definition limit_raw :: bytes where
  "limit_raw = Writer_shortVec 1 @ replicate 64 0 @ write_message limit_message"

lemma limit_length: "length (write_message limit_message) \<le> 1000"
  using length_write_key [OF COMPUTE_BUDGET_PROGRAM_valid]
  by (simp add: write_message_def write_vec_def limit_message_def encode_instruction_def)

lemma limit_decoded: "decodeTransaction limit_raw = Inr (decoded_message limit_message (write_message limit_message))"
proof -
  have send: "sendable limit_message" by (simp add: sendable_def limit_message_def)
  have "decodeTransaction (Writer_shortVec 1 @ replicate 64 0 @ write_message limit_message) =
      Inr (decoded_message limit_message (write_message limit_message) \<lparr>signatureCount := 1\<rparr>)"
  proof (rule decode_written_message [OF send])
    show "length (write_message limit_message) \<le> 1232" using limit_length by simp
  qed (simp_all add: limit_message_def COMPUTE_BUDGET_PROGRAM_valid)
  then show ?thesis by (simp add: limit_raw_def decoded_message_def limit_message_def)
qed

lemma sample_key_0: "sample_key 0 = replicate 32 (CHR ''1'')"
proof -
  have "fold enc_push (replicate 32 0) [] = []" using fold_enc_push_zeros [of 32 "[]"] by simp
  then show ?thesis
    by (simp add: sample_key_def base58Encode_def encode_digits_conv leading_zeros_def)
qed

lemma limit_allowed: "allowed (evaluateTransactionPolicy limit_raw (defaultLimits (sample_key 7) cap))"
proof -
  let ?tx = "decoded_message limit_message (write_message limit_message)"
  have "readComputeBudget ?tx = \<lparr>unitLimit = Some 1000000, unitPriceMicroLamports = None\<rparr>"
    by (simp add: readComputeBudget_def read_budget_ix_def decoded_message_def limit_message_def key_at_def Let_def)
  then have "budget_ok (cbInstructions ?tx) cap"
    by (simp add: budget_ok_def evaluateComputeBudget_def scan_cbInstructions)
  moreover have "length limit_raw \<le> 1232"
    using limit_length by (simp add: limit_raw_def)
  ultimately show ?thesis
    unfolding evaluateTransactionPolicy_allowed limit_decoded transaction_violations_Nil
    by (simp add: defaultLimits_def MAX_TX_BYTES_def decoded_message_def limit_message_def key_at_def
        DEFAULT_ALLOWED_PROGRAMS_def sample_key_0 [symmetric])
qed

lemma transaction_policy_sound_witness:
  "\<exists>tx. decodeTransaction limit_raw = Inr tx \<and> numRequiredSignatures tx = 1 \<and> length limit_raw \<le> MAX_TX_BYTES"
  using transaction_policy_sound [of limit_raw "defaultLimits (sample_key 7) 5"] limit_allowed [of 5]
  by (auto simp: defaultLimits_def)

lemma limit_bound: "bound (evaluateBinding (decoded_message limit_message bs) sample_intent 999)"
  by (simp add: evaluateBinding_def lamportOutflowFromPayer_def outflow_ix_def decoded_message_def limit_message_def
      key_at_def COMPUTE_BUDGET_PROGRAM_def SYSTEM_PROGRAM_def readComputeBudget_def read_budget_ix_def
      priorityFeeLamports_def outflowCeiling_def sample_intent_def flag_def Let_def)

definition sample_effect :: EffectVerdict where
  "sample_effect = verifyEffect (Some (pre_accounts, honest_sim)) sample_tx sample_intent (sample_key 7)"

lemma sign_complete_witness:
  "\<exists>b64 sig tx. sign (\<lambda>_. replicate 64 5) (sample_key 7) limit_raw sample_intent sample_effect 999 = Signed b64 sig tx"
  using sign_complete [of "\<lambda>_. replicate 64 5" "sample_key 7" limit_raw sample_intent sample_effect 999]
    limit_decoded limit_allowed limit_bound honest_verified
  by (auto simp: SIGNATURE_BYTES_def sample_effect_def sample_intent_def)

lemma limit_signed:
  assumes "bound (evaluateBinding (decoded_message limit_message (write_message limit_message)) intent now)" and "verified effect"
  shows "\<exists>b64 sig. sign (\<lambda>_. replicate 64 5) (sample_key 7) limit_raw intent effect now =
    Signed b64 sig (decoded_message limit_message (write_message limit_message))"
proof -
  let ?tx = "decoded_message limit_message (write_message limit_message)"
  obtain out where "writeSignature limit_raw (replicate 64 5) = Inr out" "decodeTransaction out = Inr ?tx"
    using writeSignature_decoded [OF limit_decoded, of "replicate 64 5"] by auto
  moreover have "decoded (evaluateTransactionPolicy limit_raw (defaultLimits (sample_key 7) cap)) = Some ?tx" for cap
    using limit_allowed [of cap] limit_decoded by (auto elim: allowed_decoded)
  ultimately show ?thesis
    using limit_allowed assms by (simp add: sign_def Let_def SIGNATURE_BYTES_def)
qed

lemma sign_sound_witness:
  "\<exists>b64 sig tx. sign (\<lambda>_. replicate 64 5) (sample_key 7) limit_raw sample_intent sample_effect 999 = Signed b64 sig tx \<and>
     take 64 (drop 1 (base64_decode b64)) = replicate 64 5"
proof -
  from limit_signed [OF limit_bound honest_verified, folded sample_effect_def] obtain b64 sig tx where
    s: "sign (\<lambda>_. replicate 64 5) (sample_key 7) limit_raw sample_intent sample_effect 999 = Signed b64 sig tx" by blast
  from sign_sound [OF s] s show ?thesis by (auto simp: Let_def)
qed

end
