(* ===== verification/Executor.thy ===== *)
theory Executor
  imports Signing "HOL-Library.Multiset"
begin

text \<open>
  The execution state machine \<open>packages/execution/src/machine.ts\<close> over the intent and attempt
  tables of \<open>packages/storage/src/repo.ts\<close>. The tables are lists of rows with the schema's
  uniqueness constraints; the RPC's answers, the clock and the fresh attempt id are an
  environment record. A world is the database and, as a ghost, every transaction handed to the
  network with the database as it stood at that moment: what would survive a crash there.
\<close>

section \<open>Tables\<close>

datatype position_state =
    INTENT_CREATED | ORDER_REQUESTED | ORDER_VALIDATED | ST_SIGNED | ST_SUBMITTED
  | ST_CONFIRMED | ST_FAILED | ST_EXPIRED | ST_UNKNOWN

datatype attempt_outcome = SIGNED | SUBMITTED | CONFIRMED | FAILED | EXPIRED | UNKNOWN

record IntentRow =
  ir_intent :: TradeIntent
  ir_state :: position_state
  ir_simulated :: bool

record AttemptRow =
  at_id :: string
  at_intent_id :: string
  at_no :: nat
  at_signature :: string
  at_blockhash :: string
  at_last_valid_height :: nat
  at_signed_utc_ms :: int
  at_sent_utc_ms :: "int option"
  at_send_error :: "string option"
  at_outcome :: attempt_outcome
  at_landed_slot :: "nat option"
  at_chain_error :: "string option"
  at_resolved_utc_ms :: "int option"
  at_simulated_out :: "int option"
  at_simulated_in :: "int option"

datatype refusal_kind = attempt_budget | order_unavailable | undecodable_order | sign_refusal sign_refusal_kind | no_expiry_bound

record Db =
  intents :: "IntentRow list"
  attempts :: "AttemptRow list"
  sign_refusals :: "(string \<times> refusal_kind) list"
  health :: "string list"

text \<open>\<open>INSERT OR IGNORE\<close>: a conflict on either key inserts nothing.\<close>

datatype db_error = NeitherInsertedNorFound | ConstraintViolation

definition claimIntent :: "TradeIntent \<Rightarrow> bool \<Rightarrow> Db \<Rightarrow> db_error + (Db \<times> bool \<times> string)" where
  "claimIntent intent simulated db =
     (if \<not> (\<exists>r \<in> set (intents db). intentId (ir_intent r) = intentId intent \<or>
                idempotencyKey (ir_intent r) = idempotencyKey intent)
      then Inr (db\<lparr>intents := intents db @ [\<lparr>ir_intent = intent, ir_state = INTENT_CREATED, ir_simulated = simulated\<rparr>]\<rparr>,
                True, intentId intent)
      else case find (\<lambda>r. idempotencyKey (ir_intent r) = idempotencyKey intent) (intents db) of
        None \<Rightarrow> Inl NeitherInsertedNorFound
      | Some r \<Rightarrow> Inr (db, False, intentId (ir_intent r)))"

definition setIntentState :: "string \<Rightarrow> position_state \<Rightarrow> Db \<Rightarrow> Db" where
  "setIntentState iid s db =
     db\<lparr>intents := map (\<lambda>r. if intentId (ir_intent r) = iid then r\<lparr>ir_state := s\<rparr> else r) (intents db)\<rparr>"

definition recordAttempt :: "AttemptRow \<Rightarrow> Db \<Rightarrow> db_error + Db" where
  "recordAttempt a db =
     (if \<exists>r \<in> set (attempts db). at_id r = at_id a \<or> at_signature r = at_signature a \<or>
          (at_intent_id r = at_intent_id a \<and> at_no r = at_no a)
      then Inl ConstraintViolation
      else Inr (db\<lparr>attempts := attempts db @ [a]\<rparr>))"

text \<open>The optional fields of an update; \<open>None\<close> leaves the column alone.\<close>

record AttemptUpdate =
  up_outcome :: "attempt_outcome option"
  up_sentUtcMs :: "int option"
  up_sendError :: "string option option"
  up_landedSlot :: "nat option option"
  up_chainError :: "string option option"
  up_resolvedUtcMs :: "int option option"

definition no_update :: AttemptUpdate where
  "no_update = \<lparr>up_outcome = None, up_sentUtcMs = None, up_sendError = None, up_landedSlot = None,
     up_chainError = None, up_resolvedUtcMs = None\<rparr>"

definition apply_update :: "AttemptUpdate \<Rightarrow> AttemptRow \<Rightarrow> AttemptRow" where
  "apply_update u r = r
     \<lparr>at_outcome := nullish (up_outcome u) (at_outcome r),
      at_sent_utc_ms := (case up_sentUtcMs u of None \<Rightarrow> at_sent_utc_ms r | Some v \<Rightarrow> Some v),
      at_send_error := nullish (up_sendError u) (at_send_error r),
      at_landed_slot := nullish (up_landedSlot u) (at_landed_slot r),
      at_chain_error := nullish (up_chainError u) (at_chain_error r),
      at_resolved_utc_ms := nullish (up_resolvedUtcMs u) (at_resolved_utc_ms r)\<rparr>"

definition updateAttempt :: "string \<Rightarrow> AttemptUpdate \<Rightarrow> Db \<Rightarrow> Db" where
  "updateAttempt aid u db = db\<lparr>attempts := map (\<lambda>r. if at_id r = aid then apply_update u r else r) (attempts db)\<rparr>"

definition unresolved :: "attempt_outcome \<Rightarrow> bool" where
  "unresolved out \<longleftrightarrow> out \<in> {SIGNED, SUBMITTED, UNKNOWN}"

definition unresolvedAttempts :: "Db \<Rightarrow> AttemptRow list" where
  "unresolvedAttempts db = sort_key at_signed_utc_ms (filter (\<lambda>r. unresolved (at_outcome r)) (attempts db))"

definition attemptCount :: "string \<Rightarrow> Db \<Rightarrow> nat" where
  "attemptCount iid db = length (filter (\<lambda>r. at_intent_id r = iid) (attempts db))"

definition recordSignRefusal :: "string \<Rightarrow> refusal_kind \<Rightarrow> Db \<Rightarrow> Db" where
  "recordSignRefusal iid k db = db\<lparr>sign_refusals := sign_refusals db @ [(iid, k)]\<rparr>"

section \<open>Resolution against the chain\<close>

record SignatureStatus =
  ss_err :: "string option"
  ss_slot :: nat

text \<open>\<open>None\<close>: the call threw; \<open>Some None\<close>: the cluster knows nothing of the signature.\<close>

type_synonym status_response = "SignatureStatus option option"

text \<open>The update of a landed transaction; the error text is cut to 500 characters.\<close>

definition landed_update :: "SignatureStatus \<Rightarrow> int \<Rightarrow> AttemptUpdate" where
  "landed_update st now = no_update
     \<lparr>up_outcome := Some (if ss_err st \<noteq> None then FAILED else CONFIRMED),
      up_landedSlot := Some (Some (ss_slot st)),
      up_chainError := Some (map_option (take 500) (ss_err st)),
      up_resolvedUtcMs := Some (Some now)\<rparr>"

definition landed_state :: "SignatureStatus \<Rightarrow> position_state" where
  "landed_state st = (if ss_err st \<noteq> None then ST_FAILED else ST_CONFIRMED)"

definition resolveOne :: "status_response \<Rightarrow> int \<Rightarrow> nat option \<Rightarrow> AttemptRow \<Rightarrow> Db \<Rightarrow> Db \<times> bool" where
  "resolveOne response now blockHeight a db =
     (case response of
        None \<Rightarrow> (db, False)
      | Some (Some st) \<Rightarrow>
          (setIntentState (at_intent_id a) (landed_state st) (updateAttempt (at_id a) (landed_update st now) db), True)
      | Some None \<Rightarrow>
          if (case blockHeight of None \<Rightarrow> False | Some h \<Rightarrow> h > at_last_valid_height a) then
            (setIntentState (at_intent_id a) ST_EXPIRED
               (updateAttempt (at_id a) (no_update\<lparr>up_outcome := Some EXPIRED, up_resolvedUtcMs := Some (Some now)\<rparr>) db), True)
          else if at_outcome a \<noteq> UNKNOWN then
            (setIntentState (at_intent_id a) ST_UNKNOWN
               (updateAttempt (at_id a) (no_update\<lparr>up_outcome := Some UNKNOWN\<rparr>) db), False)
          else (db, False))"

text \<open>The loop over the attempts read at the start, each with the cluster's answer for it.\<close>

fun resolve_loop :: "(string \<Rightarrow> status_response) \<Rightarrow> int \<Rightarrow> nat option \<Rightarrow> AttemptRow list \<Rightarrow> Db \<Rightarrow> nat \<Rightarrow> Db \<times> nat" where
  "resolve_loop responses now h [] db n = (db, n)"
| "resolve_loop responses now h (a # as) db n =
     (let (db', resolved) = resolveOne (responses (at_signature a)) now h a db
      in resolve_loop responses now h as db' (if resolved then n else Suc n))"

definition resolveOutstanding :: "(string \<Rightarrow> status_response) \<Rightarrow> int \<Rightarrow> nat option \<Rightarrow> Db \<Rightarrow> Db \<times> nat" where
  "resolveOutstanding responses now height db =
     (let outstanding = unresolvedAttempts db in
      if length outstanding = 0 then (db, 0) else resolve_loop responses now height outstanding db 0)"

section \<open>Execution\<close>

datatype execution_result =
    R_confirmed string nat string
  | R_failed string
  | R_refused refusal_kind
  | R_duplicate string
  | R_unknown string
  | R_threw

record Deps =
  d_publicKey :: string
  d_edSign :: "bytes \<Rightarrow> bytes"
  d_maxAttemptsPerIntent :: nat

text \<open>
  One poll of the confirmation loop: the status answer and the block-height answer. The loop
  body runs once per poll that starts before the deadline.
\<close>

record Poll =
  po_status :: status_response
  po_height :: "nat option"
  po_now :: int

record Env =
  e_order :: "string + bytes"
  e_effect :: "(Account option list \<times> SimulateResult) option"
  e_now :: int
  e_lastValidHeight :: "nat option"
  e_attemptId :: string
  e_send :: "string + string"
  e_polls :: "Poll list"

record World =
  db :: Db
  sends :: "(TradeIntent \<times> string \<times> Db) list"

definition on_db :: "(Db \<Rightarrow> Db) \<Rightarrow> World \<Rightarrow> World" where
  "on_db f w = w\<lparr>db := f (db w)\<rparr>"

definition refuse :: "TradeIntent \<Rightarrow> refusal_kind \<Rightarrow> World \<Rightarrow> World \<times> execution_result" where
  "refuse intent k w =
     (on_db (setIntentState (intentId intent) ST_FAILED \<circ> recordSignRefusal (intentId intent) k) w, R_refused k)"

fun confirm :: "string \<Rightarrow> string \<Rightarrow> string \<Rightarrow> nat \<Rightarrow> Poll list \<Rightarrow> World \<Rightarrow> World \<times> execution_result" where
  "confirm aid iid sig lastValid [] w =
     (on_db (setIntentState iid ST_UNKNOWN \<circ> updateAttempt aid (no_update\<lparr>up_outcome := Some UNKNOWN\<rparr>)) w, R_unknown sig)"
| "confirm aid iid sig lastValid (p # ps) w =
     (case po_status p of
        None \<Rightarrow> confirm aid iid sig lastValid ps w
      | Some (Some st) \<Rightarrow>
          (on_db (setIntentState iid (landed_state st) \<circ> updateAttempt aid (landed_update st (po_now p))) w,
           if ss_err st \<noteq> None then R_failed sig else R_confirmed sig (ss_slot st) aid)
      | Some None \<Rightarrow>
          if (case po_height p of None \<Rightarrow> False | Some h \<Rightarrow> h > lastValid) then
            (on_db (setIntentState iid ST_EXPIRED \<circ>
               updateAttempt aid (no_update\<lparr>up_outcome := Some EXPIRED, up_resolvedUtcMs := Some (Some (po_now p))\<rparr>)) w,
             R_failed sig)
          else confirm aid iid sig lastValid ps w)"

text \<open>From the recorded attempt to the end: the send and the confirmation.\<close>

definition send_and_confirm :: "Env \<Rightarrow> TradeIntent \<Rightarrow> string \<Rightarrow> nat \<Rightarrow> World \<Rightarrow> World \<times> execution_result" where
  "send_and_confirm env intent sig lastValid w =
     (let aid = e_attemptId env; iid = intentId intent;
          w1 = w\<lparr>sends := sends w @ [(intent, sig, db w)]\<rparr>
      in case e_send env of
        Inl err \<Rightarrow>
          (on_db (setIntentState iid ST_UNKNOWN \<circ>
             updateAttempt aid (no_update\<lparr>up_outcome := Some UNKNOWN, up_sendError := Some (Some (take 500 err)),
               up_sentUtcMs := Some (e_now env)\<rparr>)) w1, R_unknown sig)
      | Inr returned \<Rightarrow>
          let w2 = (if returned \<noteq> sig then on_db (\<lambda>d. d\<lparr>health := health d @ [''signature_mismatch'']\<rparr>) w1 else w1);
              w3 = on_db (setIntentState iid ST_SUBMITTED \<circ>
                updateAttempt aid (no_update\<lparr>up_outcome := Some SUBMITTED, up_sentUtcMs := Some (e_now env)\<rparr>)) w2
          in confirm aid iid sig lastValid (e_polls env) w3)"

definition signed_attempt :: "Env \<Rightarrow> TradeIntent \<Rightarrow> nat \<Rightarrow> string \<Rightarrow> DecodedTransaction \<Rightarrow> nat \<Rightarrow> EffectVerdict \<Rightarrow> AttemptRow" where
  "signed_attempt env intent n sig tx lastValid effect =
     \<lparr>at_id = e_attemptId env, at_intent_id = intentId intent, at_no = n, at_signature = sig,
      at_blockhash = recentBlockhash tx, at_last_valid_height = lastValid, at_signed_utc_ms = e_now env,
      at_sent_utc_ms = None, at_send_error = None, at_outcome = SIGNED, at_landed_slot = None,
      at_chain_error = None, at_resolved_utc_ms = None, at_simulated_out = outputDelta effect,
      at_simulated_in = inputDelta effect\<rparr>"

definition executeIntent :: "Deps \<Rightarrow> Env \<Rightarrow> TradeIntent \<Rightarrow> World \<Rightarrow> World \<times> execution_result" where
  "executeIntent deps env intent w =
     (case claimIntent intent False (db w) of
        Inl e \<Rightarrow> (w, R_threw)
      | Inr (db1, created, iid) \<Rightarrow>
          if \<not> created then (w, R_duplicate iid)
          else
            let w1 = w\<lparr>db := db1\<rparr>; n = attemptCount (intentId intent) db1 in
            if n \<ge> d_maxAttemptsPerIntent deps then refuse intent attempt_budget w1
            else
              let w2 = on_db (setIntentState (intentId intent) ORDER_REQUESTED) w1 in
              case e_order env of
                Inl e \<Rightarrow> refuse intent order_unavailable w2
              | Inr raw \<Rightarrow>
                  (case decodeTransaction raw of
                     Inl e \<Rightarrow> refuse intent undecodable_order w2
                   | Inr tx \<Rightarrow>
                       let effect = verifyEffect (e_effect env) tx intent (d_publicKey deps);
                           w3 = on_db (setIntentState (intentId intent) ORDER_VALIDATED) w2
                       in case sign (d_edSign deps) (d_publicKey deps) raw intent effect (e_now env) of
                            SignerThrew e \<Rightarrow> (w3, R_threw)
                          | NotSigned k \<Rightarrow> refuse intent (sign_refusal k) w3
                          | Signed b64 sig _ \<Rightarrow>
                              (case e_lastValidHeight env of
                                 None \<Rightarrow> refuse intent no_expiry_bound w3
                               | Some lastValid \<Rightarrow>
                                   (case recordAttempt (signed_attempt env intent (Suc n) sig tx lastValid effect) (db w3) of
                                      Inl e \<Rightarrow> (w3, R_threw)
                                    | Inr db4 \<Rightarrow>
                                        send_and_confirm env intent sig lastValid
                                          (on_db (setIntentState (intentId intent) ST_SIGNED) (w3\<lparr>db := db4\<rparr>))))))"


section \<open>What every operation keeps\<close>

text \<open>The identity of the tables: which intents, and which attempts for which intent.\<close>

definition attempt_ident :: "AttemptRow \<Rightarrow> string \<times> string \<times> string \<times> nat" where
  "attempt_ident r = (at_id r, at_intent_id r, at_signature r, at_no r)"

definition skel :: "Db \<Rightarrow> TradeIntent list \<times> (string \<times> string \<times> string \<times> nat) list" where
  "skel d = (map ir_intent (intents d), map attempt_ident (attempts d))"

lemma attempt_ident_update [simp]: "attempt_ident (apply_update u r) = attempt_ident r"
  by (simp add: attempt_ident_def apply_update_def)

lemma skel_setIntentState [simp]: "skel (setIntentState iid s d) = skel d"
  by (simp add: skel_def setIntentState_def)

lemma skel_updateAttempt [simp]: "skel (updateAttempt aid u d) = skel d"
  by (simp add: skel_def updateAttempt_def)

lemma skel_recordSignRefusal [simp]: "skel (recordSignRefusal iid k d) = skel d"
  by (simp add: skel_def recordSignRefusal_def)

lemma skel_health [simp]: "skel (d\<lparr>health := h\<rparr>) = skel d"
  by (simp add: skel_def)

lemma on_db_simps [simp]: "db (on_db f w) = f (db w)" "sends (on_db f w) = sends w"
  by (simp_all add: on_db_def)

lemma skel_resolveOne: "skel (fst (resolveOne resp now h a d)) = skel d"
  by (simp add: resolveOne_def split: option.splits)

lemma skel_resolve_loop: "skel (fst (resolve_loop resp now h as d n)) = skel d"
proof (induction as arbitrary: d n)
  case Nil
  then show ?case by simp
next
  case (Cons a as)
  then show ?case using skel_resolveOne [of "resp (at_signature a)" now h a d] by (simp add: split_def Let_def)
qed

lemma skel_resolveOutstanding: "skel (fst (resolveOutstanding resp now h d)) = skel d"
  by (simp add: resolveOutstanding_def skel_resolve_loop Let_def)

lemma confirm_keeps: "skel (db (fst (confirm aid iid sig lv ps w))) = skel (db w) \<and> sends (fst (confirm aid iid sig lv ps w)) = sends w"
  by (induction aid iid sig lv ps w rule: confirm.induct) (auto split: option.splits)

lemma send_and_confirm_keeps:
  "skel (db (fst (send_and_confirm env intent sig lv w))) = skel (db w)"
  "sends (fst (send_and_confirm env intent sig lv w)) = sends w @ [(intent, sig, db w)]"
  by (simp_all add: send_and_confirm_def Let_def confirm_keeps split: sum.splits)

lemma refuse_keeps: "skel (db (fst (refuse intent k w))) = skel (db w)" "sends (fst (refuse intent k w)) = sends w"
  by (simp_all add: refuse_def)

text \<open>What was durable when a transaction went out.\<close>

definition durable :: "TradeIntent \<Rightarrow> string \<Rightarrow> Db \<Rightarrow> bool" where
  "durable intent sig d \<longleftrightarrow>
     (\<exists>a \<in> set (attempts d). at_signature a = sig \<and> at_intent_id a = intentId intent \<and> at_outcome a = SIGNED) \<and>
     (\<exists>r \<in> set (intents d). ir_intent r = intent \<and> ir_state r = ST_SIGNED)"

text \<open>The three shapes of a run: not claimed, claimed without a send, or one send.\<close>

definition new_intent :: "TradeIntent \<Rightarrow> Db \<Rightarrow> bool" where
  "new_intent intent d \<longleftrightarrow> (\<forall>i \<in> set (fst (skel d)). intentId i \<noteq> intentId intent \<and> idempotencyKey i \<noteq> idempotencyKey intent)"

lemma claimIntent_cases:
  assumes "claimIntent intent sim d = Inr (d', created, iid)"
  shows "created \<longleftrightarrow> new_intent intent d"
    and "created \<Longrightarrow> iid = intentId intent \<and> skel d' = (fst (skel d) @ [intent], snd (skel d)) \<and>
      intents d' = intents d @ [\<lparr>ir_intent = intent, ir_state = INTENT_CREATED, ir_simulated = sim\<rparr>] \<and>
      attempts d' = attempts d"
    and "\<not> created \<Longrightarrow> d' = d \<and> (\<exists>i \<in> set (fst (skel d)). idempotencyKey i = idempotencyKey intent \<and> iid = intentId i)"
  using assms by (auto simp: claimIntent_def new_intent_def skel_def find_Some_iff split: if_splits option.splits)

lemma attempts_setIntentState [simp]: "attempts (setIntentState iid s d) = attempts d"
  by (simp add: setIntentState_def)

lemma intents_setIntentState [simp]:
  "intents (setIntentState iid s d) = map (\<lambda>r. if intentId (ir_intent r) = iid then r\<lparr>ir_state := s\<rparr> else r) (intents d)"
  by (simp add: setIntentState_def)

section \<open>Where a run ends\<close>

definition settled :: "string \<Rightarrow> string \<Rightarrow> string \<Rightarrow> (AttemptRow \<Rightarrow> bool) \<Rightarrow> position_state \<Rightarrow> Db \<Rightarrow> bool" where
  "settled iid aid sig P st d \<longleftrightarrow>
     (\<exists>a \<in> set (attempts d). at_id a = aid \<and> at_signature a = sig \<and> at_intent_id a = iid \<and> P a) \<and>
     (\<exists>r \<in> set (intents d). intentId (ir_intent r) = iid \<and> ir_state r = st)"

lemma settled_update:
  assumes "settled iid aid sig (\<lambda>_. True) st d" and "\<And>a. P (apply_update u a)"
  shows "settled iid aid sig P st' (setIntentState iid st' (updateAttempt aid u d))"
proof -
  from assms(1) obtain a r where a: "a \<in> set (attempts d)" "at_id a = aid" "at_signature a = sig" "at_intent_id a = iid"
    and r: "r \<in> set (intents d)" "intentId (ir_intent r) = iid"
    by (auto simp: settled_def)
  have "apply_update u a \<in> set (attempts (updateAttempt aid u d))"
    using a by (auto simp: updateAttempt_def image_iff intro!: bexI [of _ a])
  moreover have "r\<lparr>ir_state := st'\<rparr> \<in> set (intents (setIntentState iid st' (updateAttempt aid u d)))"
    using r by (auto simp: updateAttempt_def image_iff intro!: bexI [of _ r])
  ultimately show ?thesis
    using a r assms(2) [of a] unfolding settled_def
    by (intro conjI bexI [of _ "apply_update u a"] bexI [of _ "r\<lparr>ir_state := st'\<rparr>"])
      (simp_all add: apply_update_def)
qed

text \<open>What each result promises about the database it leaves.\<close>

definition result_ok :: "string \<Rightarrow> string \<Rightarrow> string \<Rightarrow> execution_result \<Rightarrow> Db \<Rightarrow> bool" where
  "result_ok iid aid sig r d \<longleftrightarrow>
     (\<exists>slot. r = R_confirmed sig slot aid \<and>
        settled iid aid sig (\<lambda>a. at_outcome a = CONFIRMED \<and> at_landed_slot a = Some slot \<and> at_chain_error a = None) ST_CONFIRMED d) \<or>
     (r = R_failed sig \<and>
        (settled iid aid sig (\<lambda>a. at_outcome a = FAILED) ST_FAILED d \<or>
         settled iid aid sig (\<lambda>a. at_outcome a = EXPIRED) ST_EXPIRED d)) \<or>
     (r = R_unknown sig \<and> settled iid aid sig (\<lambda>a. at_outcome a = UNKNOWN) ST_UNKNOWN d)"

lemma settled_mono: "settled iid aid sig P st d \<Longrightarrow> settled iid aid sig (\<lambda>_. True) st d"
  by (auto simp: settled_def)

lemma result_unknown:
  assumes "settled iid aid sig P st d" and "up_outcome u = Some UNKNOWN"
  shows "result_ok iid aid sig (R_unknown sig) (setIntentState iid ST_UNKNOWN (updateAttempt aid u d))"
proof -
  have "settled iid aid sig (\<lambda>a. at_outcome a = UNKNOWN) ST_UNKNOWN (setIntentState iid ST_UNKNOWN (updateAttempt aid u d))"
    by (rule settled_update [OF settled_mono [OF assms(1)]]) (simp add: apply_update_def assms(2))
  then show ?thesis by (simp add: result_ok_def)
qed

lemma result_expired:
  assumes "settled iid aid sig P st d" and "up_outcome u = Some EXPIRED"
  shows "result_ok iid aid sig (R_failed sig) (setIntentState iid ST_EXPIRED (updateAttempt aid u d))"
proof -
  have "settled iid aid sig (\<lambda>a. at_outcome a = EXPIRED) ST_EXPIRED (setIntentState iid ST_EXPIRED (updateAttempt aid u d))"
    by (rule settled_update [OF settled_mono [OF assms(1)]]) (simp add: apply_update_def assms(2))
  then show ?thesis by (simp add: result_ok_def)
qed

lemma result_landed:
  assumes "settled iid aid sig P st d"
  shows "result_ok iid aid sig (if ss_err s \<noteq> None then R_failed sig else R_confirmed sig (ss_slot s) aid)
    (setIntentState iid (landed_state s) (updateAttempt aid (landed_update s now) d))"
proof (cases "ss_err s")
  case None
  have "settled iid aid sig (\<lambda>a. at_outcome a = CONFIRMED \<and> at_landed_slot a = Some (ss_slot s) \<and> at_chain_error a = None)
      ST_CONFIRMED (setIntentState iid ST_CONFIRMED (updateAttempt aid (landed_update s now) d))"
    by (rule settled_update [OF settled_mono [OF assms]]) (simp add: apply_update_def landed_update_def None)
  then show ?thesis by (simp add: result_ok_def landed_state_def None)
next
  case (Some e)
  have "settled iid aid sig (\<lambda>a. at_outcome a = FAILED)
      ST_FAILED (setIntentState iid ST_FAILED (updateAttempt aid (landed_update s now) d))"
    by (rule settled_update [OF settled_mono [OF assms]]) (simp add: apply_update_def landed_update_def Some)
  then show ?thesis by (simp add: result_ok_def landed_state_def Some)
qed

lemma confirm_result:
  "settled iid aid sig P st (db w) \<Longrightarrow>
   result_ok iid aid sig (snd (confirm aid iid sig lv ps w)) (db (fst (confirm aid iid sig lv ps w)))"
proof (induction aid iid sig lv ps w rule: confirm.induct)
  case (1 aid iid sig lv w)
  then show ?case by (simp add: result_unknown)
next
  case (2 aid iid sig lv p ps w)
  show ?case
  proof (cases "po_status p")
    case None
    with 2 show ?thesis by simp
  next
    case (Some st)
    show ?thesis
    proof (cases st)
      case None
      show ?thesis
      proof (cases "case po_height p of None \<Rightarrow> False | Some h \<Rightarrow> h > lv")
        case True
        with None Some 2(3) show ?thesis by (simp add: result_expired)
      next
        case False
        with None Some 2 show ?thesis by simp
      qed
    next
      case st: (Some s)
      from result_landed [OF 2(3), of s "po_now p"] Some st show ?thesis by simp
    qed
  qed
qed

lemma send_and_confirm_ends:
  assumes "settled (intentId intent) (e_attemptId env) sig P st (db w)"
  shows "result_ok (intentId intent) (e_attemptId env) sig (snd (send_and_confirm env intent sig lv w))
    (db (fst (send_and_confirm env intent sig lv w)))"
proof (cases "e_send env")
  case (Inl err)
  with assms show ?thesis by (simp add: send_and_confirm_def Let_def result_unknown)
next
  case (Inr returned)
  let ?w1 = "w\<lparr>sends := sends w @ [(intent, sig, db w)]\<rparr>"
  let ?w2 = "if returned \<noteq> sig then on_db (\<lambda>d. d\<lparr>health := health d @ [''signature_mismatch'']\<rparr>) ?w1 else ?w1"
  have "settled (intentId intent) (e_attemptId env) sig (\<lambda>_. True) st (db ?w2)"
    using assms by (auto simp: settled_def)
  then have "settled (intentId intent) (e_attemptId env) sig (\<lambda>_. True) ST_SUBMITTED
      (setIntentState (intentId intent) ST_SUBMITTED
        (updateAttempt (e_attemptId env) (no_update\<lparr>up_outcome := Some SUBMITTED, up_sentUtcMs := Some (e_now env)\<rparr>) (db ?w2)))"
    by (rule settled_update) simp
  then have "settled (intentId intent) (e_attemptId env) sig (\<lambda>_. True) ST_SUBMITTED
      (db (on_db (setIntentState (intentId intent) ST_SUBMITTED \<circ>
        updateAttempt (e_attemptId env) (no_update\<lparr>up_outcome := Some SUBMITTED, up_sentUtcMs := Some (e_now env)\<rparr>)) ?w2))"
    by (simp only: on_db_simps comp_apply)
  from confirm_result [OF this] show ?thesis
    unfolding send_and_confirm_def Let_def Inr sum.case .
qed

section \<open>The shapes of a run\<close>

text \<open>The intent has been claimed and nothing has been sent or recorded since.\<close>

definition claimed :: "TradeIntent \<Rightarrow> World \<Rightarrow> World \<Rightarrow> bool" where
  "claimed intent w w' \<longleftrightarrow> new_intent intent (db w) \<and> sends w' = sends w \<and>
     skel (db w') = (fst (skel (db w)) @ [intent], snd (skel (db w)))"

definition broadcast :: "TradeIntent \<Rightarrow> World \<Rightarrow> World \<Rightarrow> bool" where
  "broadcast intent w w' \<longleftrightarrow> new_intent intent (db w) \<and>
     (\<exists>a d. sends w' = sends w @ [(intent, at_signature a, d)] \<and> skel d = skel (db w') \<and>
        skel (db w') = (fst (skel (db w)) @ [intent], snd (skel (db w)) @ [attempt_ident a]) \<and>
        at_intent_id a = intentId intent \<and>
        (\<forall>b \<in> set (attempts (db w)). at_id b \<noteq> at_id a \<and> at_signature b \<noteq> at_signature a) \<and>
        durable intent (at_signature a) d)"

definition refused_ok :: "TradeIntent \<Rightarrow> execution_result \<Rightarrow> Db \<Rightarrow> bool" where
  "refused_ok intent r d \<longleftrightarrow> (\<exists>k. r = R_refused k \<and> (intentId intent, k) \<in> set (sign_refusals d) \<and>
     (\<exists>row \<in> set (intents d). ir_intent row = intent \<and> ir_state row = ST_FAILED))"

lemma claimed_refuse:
  assumes "claimed intent w w1" and "refuse intent k w1 = (w', r)"
  shows "claimed intent w w' \<and> refused_ok intent r (db w')"
proof -
  have "intent \<in> set (map ir_intent (intents (db w1)))"
    using assms(1) by (simp add: claimed_def skel_def)
  then obtain row where "row \<in> set (intents (db w1))" "ir_intent row = intent" by auto
  then have "row\<lparr>ir_state := ST_FAILED\<rparr> \<in> set (intents (db w'))" "ir_intent (row\<lparr>ir_state := ST_FAILED\<rparr>) = intent"
      "ir_state (row\<lparr>ir_state := ST_FAILED\<rparr>) = ST_FAILED"
    using assms(2) by (auto simp: refuse_def recordSignRefusal_def image_iff intro!: bexI [of _ row])
  moreover have "(intentId intent, k) \<in> set (sign_refusals (db w'))" "r = R_refused k"
    using assms(2) by (auto simp: refuse_def recordSignRefusal_def setIntentState_def)
  moreover have "claimed intent w w'"
    using assms refuse_keeps [of intent k w1] by (simp add: claimed_def)
  ultimately show ?thesis unfolding refused_ok_def by blast
qed

lemma claimed_on_db: "claimed intent w w1 \<Longrightarrow> claimed intent w (on_db (setIntentState iid s) w1)"
  by (simp add: claimed_def)

lemma executed_broadcast:
  assumes "claimed intent w w3" and "attempts (db w3) = attempts (db w)"
    and "recordAttempt (signed_attempt env intent n sig tx lv effect) (db w3) = Inr db4"
    and "send_and_confirm env intent sig lv
      (on_db (setIntentState (intentId intent) ST_SIGNED) (w3\<lparr>db := db4\<rparr>)) = (w', r)"
  shows "broadcast intent w w' \<and> (\<exists>d. sends w' = sends w @ [(intent, sig, d)]) \<and>
    result_ok (intentId intent) (e_attemptId env) sig r (db w')"
proof -
  let ?a = "signed_attempt env intent n sig tx lv effect"
  let ?w5 = "on_db (setIntentState (intentId intent) ST_SIGNED) (w3\<lparr>db := db4\<rparr>)"
  have fresh: "\<forall>b \<in> set (attempts (db w3)). at_id b \<noteq> at_id ?a \<and> at_signature b \<noteq> at_signature ?a"
    and db4: "db4 = (db w3)\<lparr>attempts := attempts (db w3) @ [?a]\<rparr>"
    using assms(3) by (auto simp: recordAttempt_def split: if_splits)
  have a: "at_signature ?a = sig" "at_intent_id ?a = intentId intent" "at_outcome ?a = SIGNED"
    by (simp_all add: signed_attempt_def)
  have skel4: "skel (db ?w5) = (fst (skel (db w)) @ [intent], snd (skel (db w)) @ [attempt_ident ?a])"
  proof -
    have s5: "skel (db ?w5) = skel db4" by simp
    show ?thesis unfolding s5 using assms(1) by (simp add: claimed_def db4 skel_def)
  qed
  have "intent \<in> set (map ir_intent (intents (db w3)))"
    using assms(1) by (simp add: claimed_def skel_def)
  then obtain row where "row \<in> set (intents (db w3))" "ir_intent row = intent" by auto
  then have "row\<lparr>ir_state := ST_SIGNED\<rparr> \<in> set (intents (db ?w5))" "ir_intent (row\<lparr>ir_state := ST_SIGNED\<rparr>) = intent"
    "ir_state (row\<lparr>ir_state := ST_SIGNED\<rparr>) = ST_SIGNED"
    by (auto simp: db4 image_iff intro!: bexI [of _ row])
  moreover have "?a \<in> set (attempts (db ?w5))" by (simp add: db4)
  moreover have aid: "at_id ?a = e_attemptId env" by (simp add: signed_attempt_def)
  ultimately have "settled (intentId intent) (e_attemptId env) sig (\<lambda>_. True) ST_SIGNED (db ?w5)"
    and "durable intent sig (db ?w5)"
    using a unfolding settled_def durable_def by blast+
  moreover have "sends ?w5 = sends w" using assms(1) by (simp add: claimed_def)
  moreover note send_and_confirm_keeps [of env intent sig lv ?w5, unfolded assms(4) fst_conv skel4]
  moreover from send_and_confirm_ends [OF \<open>settled (intentId intent) (e_attemptId env) sig (\<lambda>_. True) ST_SIGNED (db ?w5)\<close>, of lv]
  have "result_ok (intentId intent) (e_attemptId env) sig r (db w')" unfolding assms(4) by simp
  ultimately show ?thesis
    unfolding broadcast_def
    using assms(1, 2) fresh a skel4 by (auto simp: claimed_def intro!: exI [of _ ?a] exI [of _ "db ?w5"])
qed

text \<open>The three shapes of a run.\<close>

lemma executeIntent_shape:
  assumes "executeIntent deps env intent w = (w', r)"
  shows "(w' = w \<and> (r = R_threw \<or> (\<exists>iid. r = R_duplicate iid))) \<or>
    (claimed intent w w' \<and> (r = R_threw \<or> refused_ok intent r (db w'))) \<or>
    (broadcast intent w w' \<and> (\<exists>sig d. sends w' = sends w @ [(intent, sig, d)] \<and>
       result_ok (intentId intent) (e_attemptId env) sig r (db w')))"
proof (cases "claimIntent intent False (db w)")
  case (Inl e)
  with assms show ?thesis by (simp add: executeIntent_def)
next
  case (Inr c)
  obtain d1 created iid where c: "c = (d1, created, iid)" by (cases c)
  note claim = claimIntent_cases [OF Inr [unfolded c]]
  show ?thesis
  proof (cases created)
    case False
    with assms Inr c show ?thesis by (auto simp: executeIntent_def)
  next
    case True
    define w1 where "w1 = w\<lparr>db := d1\<rparr>"
    have w1: "claimed intent w w1" "attempts (db w1) = attempts (db w)"
      using claim True by (simp_all add: claimed_def w1_def)
    define w2 where "w2 = on_db (setIntentState (intentId intent) ORDER_REQUESTED) w1"
    define w3 where "w3 = on_db (setIntentState (intentId intent) ORDER_VALIDATED) w2"
    have w23: "claimed intent w w2" "claimed intent w w3" "attempts (db w3) = attempts (db w)"
      using w1 by (simp_all add: w2_def w3_def claimed_on_db)
    note run = assms [unfolded executeIntent_def Inr sum.case c prod.case Let_def, folded w1_def, folded w2_def, folded w3_def]
    show ?thesis
    proof (cases "d_maxAttemptsPerIntent deps \<le> attemptCount (intentId intent) d1")
      case True
      with run \<open>created\<close> have "refuse intent attempt_budget w1 = (w', r)" by simp
      with claimed_refuse [OF w1(1)] show ?thesis by blast
    next
      case False
      note run = run [simplified \<open>created\<close> False if_False not_True_eq_False]
      show ?thesis
      proof (cases "e_order env")
        case (Inl e)
        with run claimed_refuse [OF w23(1)] show ?thesis by auto
      next
        case (Inr raw)
        note run = run [unfolded Inr sum.case]
        show ?thesis
        proof (cases "decodeTransaction raw")
          case (Inl e)
          with run claimed_refuse [OF w23(1)] show ?thesis by auto
        next
          case (Inr tx)
          define effect where "effect = verifyEffect (e_effect env) tx intent (d_publicKey deps)"
          note run = run [unfolded Inr sum.case, folded effect_def]
          show ?thesis
          proof (cases "sign (d_edSign deps) (d_publicKey deps) raw intent effect (e_now env)")
            case (NotSigned k)
            with run claimed_refuse [OF w23(2)] show ?thesis by auto
          next
            case (SignerThrew e)
            with run w23(2) show ?thesis by simp
          next
            case (Signed b64 sig tx')
            note run = run [unfolded Signed sign_outcome.case]
            show ?thesis
            proof (cases "e_lastValidHeight env")
              case None
              with run claimed_refuse [OF w23(2)] show ?thesis by auto
            next
              case (Some lv)
              note run = run [unfolded Some option.case]
              show ?thesis
              proof (cases "recordAttempt (signed_attempt env intent (Suc (attemptCount (intentId intent) d1)) sig tx lv effect) (db w3)")
                case (Inl e)
                with run w23(2) show ?thesis by simp
              next
                case (Inr db4)
                from executed_broadcast [OF w23(2, 3) Inr run [unfolded Inr sum.case]]
                show ?thesis by blast
              qed
            qed
          qed
        qed
      qed
    qed
  qed
qed


section \<open>Resolution row by row\<close>

text \<open>What the cluster's answer makes of one row.\<close>

definition row_after :: "(string \<Rightarrow> status_response) \<Rightarrow> int \<Rightarrow> nat option \<Rightarrow> AttemptRow \<Rightarrow> AttemptRow" where
  "row_after responses now h a =
     (case responses (at_signature a) of
        None \<Rightarrow> a
      | Some (Some st) \<Rightarrow> apply_update (landed_update st now) a
      | Some None \<Rightarrow>
          if (case h of None \<Rightarrow> False | Some n \<Rightarrow> n > at_last_valid_height a)
          then apply_update (no_update\<lparr>up_outcome := Some EXPIRED, up_resolvedUtcMs := Some (Some now)\<rparr>) a
          else if at_outcome a \<noteq> UNKNOWN then apply_update (no_update\<lparr>up_outcome := Some UNKNOWN\<rparr>) a else a)"

definition resolve_step :: "(string \<Rightarrow> status_response) \<Rightarrow> int \<Rightarrow> nat option \<Rightarrow> AttemptRow \<Rightarrow> Db \<Rightarrow> Db" where
  "resolve_step responses now h a d = fst (resolveOne (responses (at_signature a)) now h a d)"

lemma attempts_updateAttempt:
  "\<forall>r \<in> set (attempts d). at_id r = at_id a \<longrightarrow> r = a \<Longrightarrow>
   attempts (updateAttempt (at_id a) u d) = map (\<lambda>r. if r = a then apply_update u r else r) (attempts d)"
  by (auto simp: updateAttempt_def)

interpretation resolve: row_sweep attempts at_id "row_after responses now h" "resolve_step responses now h"
  for responses :: "string \<Rightarrow> status_response" and now :: int and h :: "nat option"
proof
  fix d :: Db and a :: AttemptRow
  assume "\<forall>r \<in> set (attempts d). at_id r = at_id a \<longrightarrow> r = a"
  note upd = attempts_updateAttempt [OF this]
  show "attempts (resolve_step responses now h a d) =
      map (\<lambda>r. if r = a then row_after responses now h r else r) (attempts d)"
    by (auto simp: resolve_step_def resolveOne_def row_after_def upd intro!: map_idI [symmetric] split: option.splits)
next
  fix r :: AttemptRow
  show "at_id (row_after responses now h r) = at_id r"
    by (simp add: row_after_def apply_update_def split: option.splits)
qed

lemma resolveOne_flag:
  "unresolved (at_outcome a) \<Longrightarrow>
   snd (resolveOne (responses (at_signature a)) now h a d) \<longleftrightarrow> \<not> unresolved (at_outcome (row_after responses now h a))"
  by (auto simp: resolveOne_def row_after_def apply_update_def landed_update_def no_update_def unresolved_def
      split: option.splits)

lemma resolve_loop_fold:
  "\<forall>a \<in> set as. unresolved (at_outcome a) \<Longrightarrow>
   resolve_loop responses now h as d n =
     (fold (resolve_step responses now h) as d,
      n + length (filter (\<lambda>a. unresolved (at_outcome (row_after responses now h a))) as))"
proof (induction as arbitrary: d n)
  case Nil
  then show ?case by simp
next
  case (Cons a as)
  then show ?case
    using resolveOne_flag [of a responses now h d] by (simp add: split_def resolve_step_def Let_def)
qed

lemma resolveOutstanding_rows:
  assumes "distinct (map at_id (attempts d))"
  shows "attempts (fst (resolveOutstanding responses now h d)) =
      map (\<lambda>r. if unresolved (at_outcome r) then row_after responses now h r else r) (attempts d)"
    and "snd (resolveOutstanding responses now h d) =
      length (filter (\<lambda>r. unresolved (at_outcome r)) (attempts (fst (resolveOutstanding responses now h d))))"
proof -
  let ?out = "unresolvedAttempts d" and ?U = "\<lambda>r. unresolved (at_outcome r)"
  have set_out: "set ?out = {r \<in> set (attempts d). ?U r}" by (simp add: unresolvedAttempts_def)
  have un: "\<forall>a \<in> set ?out. ?U a" by (simp add: set_out)
  have loop: "resolveOutstanding responses now h d =
      (fold (resolve_step responses now h) ?out d, length (filter (\<lambda>a. ?U (row_after responses now h a)) ?out))"
    by (simp add: resolveOutstanding_def resolve_loop_fold [OF un] Let_def)
  have "distinct (map at_id ?out)"
    using assms by (simp add: unresolvedAttempts_def distinct_map inj_on_def)
  moreover have "\<forall>a \<in> set ?out. \<forall>r \<in> set (attempts d). at_id r = at_id a \<longrightarrow> r = a"
    using assms by (auto simp: set_out distinct_map dest: inj_onD)
  ultimately have "attempts (fold (resolve_step responses now h) ?out d) =
      map (\<lambda>r. if r \<in> set ?out then row_after responses now h r else r) (attempts d)"
    by (rule resolve.sweep)
  also have "\<dots> = map (\<lambda>r. if ?U r then row_after responses now h r else r) (attempts d)"
    by (auto simp: set_out)
  finally show rows: "attempts (fst (resolveOutstanding responses now h d)) =
      map (\<lambda>r. if ?U r then row_after responses now h r else r) (attempts d)"
    by (simp add: loop)
  have "length (filter (\<lambda>a. ?U (row_after responses now h a)) ?out) =
      size (filter_mset (\<lambda>a. ?U (row_after responses now h a)) (mset ?out))"
    by (simp flip: mset_filter)
  also have "mset ?out = mset (filter ?U (attempts d))" by (simp add: unresolvedAttempts_def)
  finally have "length (filter (\<lambda>a. ?U (row_after responses now h a)) ?out) =
      length (filter (\<lambda>a. ?U a \<and> ?U (row_after responses now h a)) (attempts d))"
    by (simp flip: mset_filter add: conj_commute)
  also have "\<dots> = length (filter ?U (map (\<lambda>r. if ?U r then row_after responses now h r else r) (attempts d)))"
    by (simp add: filter_map comp_def) (rule arg_cong [where f = length], rule filter_cong, auto)
  finally show "snd (resolveOutstanding responses now h d) =
      length (filter ?U (attempts (fst (resolveOutstanding responses now h d))))"
    by (simp add: rows) (simp add: loop)
qed


lemma row_after_expired:
  assumes "unresolved (at_outcome r)" and "at_outcome (row_after responses now h r) = EXPIRED"
  shows "responses (at_signature (row_after responses now h r)) = Some None \<and>
    (\<exists>k. h = Some k \<and> k > at_last_valid_height (row_after responses now h r))"
proof (cases "responses (at_signature r)")
  case None
  with assms show ?thesis by (simp add: row_after_def unresolved_def)
next
  case (Some st)
  with assms show ?thesis
    by (cases st; cases h)
      (simp_all add: row_after_def apply_update_def landed_update_def no_update_def unresolved_def split: if_splits)
qed

section \<open>Histories\<close>

text \<open>
  Any interleaving of executions and resolution passes, and a crash right after a transaction
  went out: what is left is the database as it stood when the bytes were handed over.
\<close>

inductive exec_step :: "Deps \<Rightarrow> World \<Rightarrow> World \<Rightarrow> bool" for deps where
  execute: "executeIntent deps env intent w = (w', r) \<Longrightarrow> exec_step deps w w'"
| resolve: "exec_step deps w (w\<lparr>db := fst (resolveOutstanding responses now h (db w))\<rparr>)"
| crash: "executeIntent deps env intent w = (w', r) \<Longrightarrow> sends w' = sends w @ [(i, sig, d)] \<Longrightarrow>
    exec_step deps w (w'\<lparr>db := d\<rparr>)"

inductive_cases exec_stepE: "exec_step deps w w'"

inductive reachable :: "Deps \<Rightarrow> World \<Rightarrow> bool" for deps where
  start: "reachable deps \<lparr>db = \<lparr>intents = [], attempts = [], sign_refusals = [], health = []\<rparr>, sends = []\<rparr>"
| step: "reachable deps w \<Longrightarrow> exec_step deps w w' \<Longrightarrow> reachable deps w'"

definition key_of :: "TradeIntent \<times> string \<times> Db \<Rightarrow> string" where
  "key_of s = idempotencyKey (fst s)"

definition history_ok :: "World \<Rightarrow> bool" where
  "history_ok w \<longleftrightarrow>
     (let (is, as) = skel (db w) in
      distinct (map intentId is) \<and> distinct (map idempotencyKey is) \<and>
      distinct (map fst as) \<and>
      distinct (map key_of (sends w)) \<and> (\<forall>s \<in> set (sends w). fst s \<in> set is) \<and>
      (\<forall>(i, sig, d) \<in> set (sends w). durable i sig d \<and> (\<exists>aid n. (aid, intentId i, sig, n) \<in> set as)))"

lemma history_ok_skel:
  "history_ok w \<Longrightarrow> skel d = skel (db w) \<Longrightarrow> history_ok (w\<lparr>db := d\<rparr>)"
  by (simp add: history_ok_def)

lemma history_ok_claimed:
  assumes "history_ok w" and "claimed intent w w'"
  shows "history_ok w'"
proof -
  obtain "is" as where sk: "skel (db w) = (is, as)" by (cases "skel (db w)")
  have "skel (db w') = (is @ [intent], as)" "sends w' = sends w"
    and "\<forall>i \<in> set is. intentId i \<noteq> intentId intent \<and> idempotencyKey i \<noteq> idempotencyKey intent"
    using assms(2) by (auto simp: claimed_def new_intent_def sk)
  with assms(1) show ?thesis by (auto simp: history_ok_def sk)
qed

lemma history_ok_broadcast:
  assumes "history_ok w" and "broadcast intent w w'"
  shows "history_ok w'"
proof -
  obtain "is" as where sk: "skel (db w) = (is, as)" by (cases "skel (db w)")
  obtain a d where sends: "sends w' = sends w @ [(intent, at_signature a, d)]"
    and skel': "skel (db w') = (is @ [intent], as @ [attempt_ident a])" and iid: "at_intent_id a = intentId intent"
    and fresh: "\<forall>b \<in> set (attempts (db w)). at_id b \<noteq> at_id a" and dur: "durable intent (at_signature a) d"
    using assms(2) by (auto simp: broadcast_def sk)
  have new: "\<forall>i \<in> set is. intentId i \<noteq> intentId intent \<and> idempotencyKey i \<noteq> idempotencyKey intent"
    using assms(2) by (simp add: broadcast_def new_intent_def sk)
  have "fst ` set as = at_id ` set (attempts (db w))"
    using sk by (force simp: skel_def attempt_ident_def)
  then have "at_id a \<notin> fst ` set as" using fresh by (metis imageE)
  moreover have "\<forall>s \<in> set (sends w). fst s \<in> set is" using assms(1) by (simp add: history_ok_def sk)
  then have "\<forall>s \<in> set (sends w). key_of s \<noteq> idempotencyKey intent" using new by (simp add: key_of_def)
  then have "idempotencyKey intent \<notin> key_of ` set (sends w)" by (metis imageE)
  moreover have "(at_id a, intentId intent, at_signature a, at_no a) \<in> set (as @ [attempt_ident a])"
    using iid by (simp add: attempt_ident_def)
  ultimately show ?thesis
    using assms(1) new dur unfolding history_ok_def sk skel' sends
    by (fastforce simp: key_of_def attempt_ident_def iid)
qed

lemma history_ok_execute:
  assumes "history_ok w" and "executeIntent deps env intent w = (w', r)"
  shows "history_ok w'"
  using executeIntent_shape [OF assms(2)] history_ok_claimed [OF assms(1)] history_ok_broadcast [OF assms(1)] assms(1)
  by blast

lemma broadcast_snapshot:
  assumes "executeIntent deps env intent w = (w', r)" and "sends w' = sends w @ [(i, sig, d)]"
  shows "skel d = skel (db w')"
  using executeIntent_shape [OF assms(1)] assms(2) by (auto simp: claimed_def broadcast_def)

lemma history_ok_step: "exec_step deps w w' \<Longrightarrow> history_ok w \<Longrightarrow> history_ok w'"
proof (induction rule: exec_step.induct)
  case (execute env intent w w' r)
  then show ?case by (simp add: history_ok_execute)
next
  case (resolve w responses now h)
  then show ?case by (intro history_ok_skel skel_resolveOutstanding)
next
  case (crash env intent w w' r i sig d)
  have "history_ok w'" by (rule history_ok_execute [OF crash.prems crash.hyps(1)])
  then show ?case by (intro history_ok_skel broadcast_snapshot [OF crash.hyps])
qed

lemma reachable_ok: "reachable deps w \<Longrightarrow> history_ok w"
proof (induction rule: reachable.induct)
  case start
  show ?case by (simp add: history_ok_def skel_def)
next
  case (step w w')
  then show ?case by (simp add: history_ok_step)
qed

section \<open>Properties\<close>

text \<open>C1: no decision is sent twice. In every history of executions, resolution passes and crashes that follow a send, at most one transaction has gone out per idempotency key, and an execution under a key already claimed changes nothing and sends nothing.\<close>

theorem one_broadcast_per_key:
  assumes "reachable deps w"
  shows "distinct (map key_of (sends w)) \<and>
    ((\<exists>r \<in> set (intents (db w)). idempotencyKey (ir_intent r) = idempotencyKey intent) \<longrightarrow>
       fst (executeIntent deps env intent w) = w)"
proof -
  have "fst (executeIntent deps env intent w) = w"
    if "\<exists>r \<in> set (intents (db w)). idempotencyKey (ir_intent r) = idempotencyKey intent"
  proof -
    obtain w' r where run: "executeIntent deps env intent w = (w', r)" by (metis prod.exhaust)
    have "\<not> new_intent intent (db w)" using that by (auto simp: new_intent_def skel_def)
    with executeIntent_shape [OF run] show ?thesis by (auto simp: run claimed_def broadcast_def)
  qed
  with reachable_ok [OF assms] show ?thesis by (auto simp: history_ok_def split_def Let_def)
qed

text \<open>C37: durable before the wire, and never forgotten. In every history, whenever a transaction was handed to the network the database already held its attempt row, in outcome SIGNED and for its intent in state SIGNED; and the attempt of every transaction ever sent is still recorded, either with a final outcome or among the unresolved attempts that the next resolution pass will look up.\<close>

theorem sent_is_durable_and_tracked:
  assumes "reachable deps w" and "(intent, sig, d) \<in> set (sends w)"
  shows "durable intent sig d \<and>
    (\<exists>a \<in> set (attempts (db w)). at_signature a = sig \<and> at_intent_id a = intentId intent \<and>
       (at_outcome a \<in> {CONFIRMED, FAILED, EXPIRED} \<or> a \<in> set (unresolvedAttempts (db w))))"
proof -
  from reachable_ok [OF assms(1)] have "\<forall>(i, sig, d) \<in> set (sends w). durable i sig d \<and>
      (\<exists>aid n. (aid, intentId i, sig, n) \<in> attempt_ident ` set (attempts (db w)))"
    by (simp add: history_ok_def skel_def split_def Let_def)
  from bspec [OF this assms(2)] obtain aid n where "durable intent sig d"
    and "(aid, intentId intent, sig, n) \<in> attempt_ident ` set (attempts (db w))"
    by blast
  then show ?thesis
    by (auto simp: attempt_ident_def unresolvedAttempts_def unresolved_def)
      (metis attempt_outcome.exhaust)
qed

text \<open>the count a resolution pass returns is the truth. In every history it equals the number of attempts left unresolved in the database, so zero means that the fate of everything sent is known; attempts that already had a final outcome are untouched, and an attempt becomes EXPIRED only if the cluster answered that it knows nothing of it and the block height is past its last valid height.\<close>

theorem resolution_count_exact:
  assumes "reachable deps w" and "resolveOutstanding responses now h (db w) = (d, n)"
  shows "n = length (unresolvedAttempts d) \<and>
    (\<forall>a \<in> set (attempts (db w)). \<not> unresolved (at_outcome a) \<longrightarrow> a \<in> set (attempts d)) \<and>
    (\<forall>a \<in> set (attempts d). at_outcome a = EXPIRED \<longrightarrow> a \<in> set (attempts (db w)) \<or>
       (responses (at_signature a) = Some None \<and> (\<exists>k. h = Some k \<and> k > at_last_valid_height a)))"
proof -
  let ?f = "\<lambda>r. if unresolved (at_outcome r) then row_after responses now h r else r"
  have "distinct (map at_id (attempts (db w)))"
    using reachable_ok [OF assms(1)] by (simp add: history_ok_def skel_def split_def Let_def attempt_ident_def comp_def)
  note rows = resolveOutstanding_rows [OF this, of responses now h, unfolded assms(2) fst_conv snd_conv]
  have "n = length (unresolvedAttempts d)" using rows(2) by (simp add: unresolvedAttempts_def)
  moreover have "a \<in> set (attempts d)" if "a \<in> set (attempts (db w))" "\<not> unresolved (at_outcome a)" for a
  proof -
    have "?f a \<in> ?f ` set (attempts (db w))" using that(1) by (rule imageI)
    then show ?thesis unfolding rows(1) using that(2) by simp
  qed
  moreover have "a \<in> set (attempts (db w)) \<or>
      (responses (at_signature a) = Some None \<and> (\<exists>k. h = Some k \<and> k > at_last_valid_height a))"
    if a: "a \<in> set (attempts d)" "at_outcome a = EXPIRED" for a
  proof -
    from a(1) obtain r where r: "r \<in> set (attempts (db w))" "a = ?f r" unfolding rows(1) by auto
    show ?thesis
    proof (cases "unresolved (at_outcome r)")
      case True
      with r(2) have "a = row_after responses now h r" by simp
      with a(2) row_after_expired [OF True] show ?thesis by blast
    next
      case False
      with r show ?thesis by simp
    qed
  qed
  ultimately show ?thesis by blast
qed


text \<open>the result of an execution tells the truth about the database. A confirmed result names an attempt that is stored as CONFIRMED in that slot with no chain error and an intent in state CONFIRMED; a failed one is stored as FAILED or EXPIRED; an unknown one as UNKNOWN, hence unresolved. A refusal sent nothing, is recorded with its reason and leaves the intent FAILED; a duplicate changed nothing; an exception sent nothing.\<close>

theorem execution_result_truthful:
  assumes "executeIntent deps env intent w = (w', r)"
  shows "(case r of
      R_duplicate iid \<Rightarrow> w' = w
    | R_threw \<Rightarrow> sends w' = sends w
    | R_refused k \<Rightarrow> sends w' = sends w \<and> refused_ok intent r (db w')
    | _ \<Rightarrow> (\<exists>sig d. sends w' = sends w @ [(intent, sig, d)] \<and> durable intent sig d \<and>
             result_ok (intentId intent) (e_attemptId env) sig r (db w')))"
  using executeIntent_shape [OF assms]
  by (cases r) (auto simp: claimed_def broadcast_def refused_ok_def result_ok_def)


section \<open>Witnesses\<close>

text \<open>A wrapped-SOL round trip that only sets a compute limit, confirmed on the second poll.\<close>

definition sol_intent :: TradeIntent where
  "sol_intent =
     \<lparr>intentId = ''i'', idempotencyKey = ''k'', ti_mint = sample_mint 20, ti_side = buy,
      inputMint = WRAPPED_SOL, outputMint = WRAPPED_SOL, maxInputAmount = 10, minOutputAmount = - 5,
      maxTotalFeeLamports = 5, ti_maxPriorityFeeLamports = 5, deadlineUtcMs = 1000, strategyVersion = ''v'',
      riskSnapshotHash = ''h'', createdUtcMs = 0\<rparr>"

definition sample_deps :: Deps where
  "sample_deps = \<lparr>d_publicKey = sample_key 7, d_edSign = (\<lambda>_. replicate 64 5), d_maxAttemptsPerIntent = 1\<rparr>"

definition sample_env :: Env where
  "sample_env = \<lparr>e_order = Inr limit_raw,
     e_effect = Some ([Some (sample_payer 1000), None], sample_sim [Some (sample_payer 998), None]),
     e_now = 999, e_lastValidHeight = Some 50, e_attemptId = ''a1'', e_send = Inr ''echo'',
     e_polls = [\<lparr>po_status = Some None, po_height = Some 49, po_now = 1000\<rparr>,
       \<lparr>po_status = Some (Some \<lparr>ss_err = None, ss_slot = 77\<rparr>), po_height = None, po_now = 2000\<rparr>]\<rparr>"

definition empty_world :: World where
  "empty_world = \<lparr>db = \<lparr>intents = [], attempts = [], sign_refusals = [], health = []\<rparr>, sends = []\<rparr>"

lemma token_views_2: "token_views pre post 2 =
    map (\<lambda>i. (readTokenAccount (account_at pre i), readTokenAccount (account_at post i))) [0, 1]"
  by (simp add: token_views_def upt_rec)

lemma sample_env_effect:
  "verified (verifyEffect (e_effect sample_env) (decoded_message limit_message bs) sol_intent (sample_key 7))"
proof -
  have keys: "staticAccountKeys (decoded_message limit_message bs) = [sample_key 7, COMPUTE_BUDGET_PROGRAM]"
    by (simp add: decoded_message_def limit_message_def)
  have views: "token_views [Some (sample_payer 1000), None] [Some (sample_payer 998), None] 2 = [(None, None), (None, None)]"
    by (simp add: token_views_2 account_at_def)
  have n: "length (staticAccountKeys (decoded_message limit_message bs)) = 2"
    "js_index_of (staticAccountKeys (decoded_message limit_message bs)) (sample_key 7) = Some 0"
    by (simp_all add: keys)
  have fold0: "fold (effect_step (sample_key 7)) [(None, None), (None, None)] ([], [], []) = ([], [], [])"
    by (simp add: effect_step_def)
  have intent: "inputMint sol_intent = WRAPPED_SOL" "outputMint sol_intent = WRAPPED_SOL"
    "minOutputAmount sol_intent = - 5" "maxInputAmount sol_intent = 10" "maxTotalFeeLamports sol_intent = 5"
    by (simp_all add: sol_intent_def)
  show ?thesis
    unfolding verifyEffect_def Let_def sample_env_def Env.simps option.case prod.case n sample_sim_def SimulateResult.simps
      views fold0
    by (simp add: intent flag_def lamports_at_def account_at_def sample_payer_def)
qed

lemma sol_bound: "bound (evaluateBinding (decoded_message limit_message bs) sol_intent 999)"
  using limit_bound [of bs]
  by (simp add: evaluateBinding_def sol_intent_def sample_intent_def outflowCeiling_def Let_def split: prod.splits)

lemma sample_execution:
  obtains w' sig d where "executeIntent sample_deps sample_env sol_intent empty_world = (w', R_confirmed sig 77 ''a1'')"
    and "sends w' = [(sol_intent, sig, d)]" and "idempotencyKey sol_intent = ''k''"
    and "map (idempotencyKey \<circ> ir_intent) (intents (db w')) = [''k'']"
proof -
  let ?tx = "decoded_message limit_message (write_message limit_message)"
  obtain b64 sig where sig: "sign (d_edSign sample_deps) (d_publicKey sample_deps) limit_raw sol_intent
      (verifyEffect (e_effect sample_env) ?tx sol_intent (d_publicKey sample_deps)) (e_now sample_env) = Signed b64 sig ?tx"
    using limit_signed [OF sol_bound sample_env_effect [of "write_message limit_message"]] by (auto simp: sample_deps_def sample_env_def)
  have env: "e_order sample_env = Inr limit_raw" "e_lastValidHeight sample_env = Some 50" "d_maxAttemptsPerIntent sample_deps = 1"
    by (simp_all add: sample_env_def sample_deps_def)
  obtain w' r where run: "executeIntent sample_deps sample_env sol_intent empty_world = (w', r)" by (metis prod.exhaust)
  have "r = R_confirmed sig 77 ''a1'' \<and> (\<exists>d. sends w' = [(sol_intent, sig, d)]) \<and>
      map (idempotencyKey \<circ> ir_intent) (intents (db w')) = [idempotencyKey sol_intent]"
    using run
    by (simp add: executeIntent_def claimIntent_def empty_world_def attemptCount_def env limit_decoded sig recordAttempt_def
        updateAttempt_def send_and_confirm_def Let_def on_db_def setIntentState_def)
      (auto simp: sample_env_def updateAttempt_def setIntentState_def on_db_def split: if_splits)
  moreover have "idempotencyKey sol_intent = ''k''" by (simp add: sol_intent_def)
  ultimately show ?thesis using run that by fastforce
qed

lemma sample_reachable:
  "executeIntent sample_deps sample_env sol_intent empty_world = (w', r) \<Longrightarrow> reachable sample_deps w'"
  by (rule reachable.step [OF reachable.start exec_step.execute]) (simp add: empty_world_def)

lemma execution_result_truthful_witness:
  "\<exists>w' sig. executeIntent sample_deps sample_env sol_intent empty_world = (w', R_confirmed sig 77 ''a1'') \<and>
     (\<exists>a \<in> set (attempts (db w')). at_id a = ''a1'' \<and> at_outcome a = CONFIRMED)"
proof -
  obtain w' sig d where run: "executeIntent sample_deps sample_env sol_intent empty_world = (w', R_confirmed sig 77 ''a1'')"
    by (rule sample_execution)
  from execution_result_truthful [OF run] run show ?thesis by (auto simp: result_ok_def settled_def)
qed

lemma one_broadcast_per_key_witness:
  "\<exists>(w :: World) sig d. sends w = [(sol_intent, sig, d)] \<and> fst (executeIntent sample_deps sample_env sol_intent w) = w"
proof -
  obtain w' sig d where run: "executeIntent sample_deps sample_env sol_intent empty_world = (w', R_confirmed sig 77 ''a1'')"
    and sends: "sends w' = [(sol_intent, sig, d)]" and "idempotencyKey sol_intent = ''k''"
    and "map (idempotencyKey \<circ> ir_intent) (intents (db w')) = [''k'']"
    by (rule sample_execution)
  then have "\<exists>r \<in> set (intents (db w')). idempotencyKey (ir_intent r) = idempotencyKey sol_intent"
    by (cases "intents (db w')") auto
  with one_broadcast_per_key [OF sample_reachable [OF run], of sol_intent sample_env] sends show ?thesis by blast
qed

lemma sent_is_durable_and_tracked_witness:
  "\<exists>(w :: World) sig d. (sol_intent, sig, d) \<in> set (sends w) \<and> durable sol_intent sig d"
proof -
  obtain w' sig d where run: "executeIntent sample_deps sample_env sol_intent empty_world = (w', R_confirmed sig 77 ''a1'')"
    and "sends w' = [(sol_intent, sig, d)]" by (rule sample_execution)
  then have "(sol_intent, sig, d) \<in> set (sends w')" by simp
  with sent_is_durable_and_tracked [OF sample_reachable [OF run] this] show ?thesis by blast
qed

lemma resolution_count_exact_witness:
  "\<exists>(w :: World) d. sends w \<noteq> [] \<and> resolveOutstanding (\<lambda>_. None) 0 None (db w) = (d, length (unresolvedAttempts d))"
proof -
  obtain w' sig d where run: "executeIntent sample_deps sample_env sol_intent empty_world = (w', R_confirmed sig 77 ''a1'')"
    and "sends w' = [(sol_intent, sig, d)]" by (rule sample_execution)
  moreover obtain e n where res: "resolveOutstanding (\<lambda>_. None) 0 None (db w') = (e, n)" by (metis prod.exhaust)
  ultimately show ?thesis using resolution_count_exact [OF sample_reachable [OF run] res]
    by (auto intro!: exI [of _ w'])
qed

end
