(* ===== verification/Amounts.thy ===== *)
theory Amounts
  imports Prelude
begin

text \<open>
  Integer amount arithmetic, \<open>packages/domain/src/amounts.ts\<close>: decimal strings to raw units
  and back, basis points, minima. A bigint is an \<open>int\<close>; \<open>decimals\<close> and \<open>bps\<close> are the
  integers the guards let through (a fractional JavaScript number is refused by the same
  guard and has no counterpart here). \<open>lossBps\<close> and \<open>toDisplayNumber\<close> end in a double and are
  left out; \<open>lossBps_scaled\<close> is the exact integer the former divides by 1000.
\<close>

section \<open>Digits\<close>

definition is_digit :: "char \<Rightarrow> bool" where
  "is_digit c = (48 \<le> (of_char c :: nat) \<and> (of_char c :: nat) \<le> 57)"

definition digit_char :: "nat \<Rightarrow> char" where
  "digit_char d = char_of (48 + d)"

definition digit_value :: "char \<Rightarrow> nat" where
  "digit_value c = of_char c - 48"

text \<open>\<open>BigInt(s)\<close> on a string of decimal digits, and \<open>toString\<close> of a nonnegative bigint.\<close>

definition bigint_of :: "string \<Rightarrow> nat" where
  "bigint_of s = foldl (\<lambda>a c. 10 * a + digit_value c) 0 s"

fun decimal :: "nat \<Rightarrow> string" where
  "decimal n = (if n < 10 then [digit_char n] else decimal (n div 10) @ [digit_char (n mod 10)])"

declare decimal.simps [simp del]

lemma digit_char_simps [simp]:
  assumes "d < 10"
  shows "is_digit (digit_char d)" and "digit_value (digit_char d) = d"
  using assms by (simp_all add: is_digit_def digit_char_def digit_value_def take_bit_nat_eq_self)

lemma digit_char_0 [simp]: "digit_char 0 = CHR ''0''"
proof -
  have "(of_char (digit_char 0) :: nat) = of_char (CHR ''0'')"
    by (simp add: digit_char_def take_bit_nat_eq_self)
  then show ?thesis by (simp only: of_char_eq_iff)
qed

lemma digit_value_0 [simp]: "digit_value (CHR ''0'') = 0"
  by (simp add: digit_value_def)

lemma is_digit_CHR [simp]: "is_digit (CHR ''0'')" "\<not> is_digit (CHR ''.'')" "\<not> is_digit (CHR ''-'')"
  by (simp_all add: is_digit_def)

lemma digit_value_less: "is_digit c \<Longrightarrow> digit_value c < 10"
  by (simp add: is_digit_def digit_value_def) linarith

lemma bigint_of_Nil [simp]: "bigint_of [] = 0"
  by (simp add: bigint_of_def)

lemma bigint_of_append1: "bigint_of (s @ [c]) = 10 * bigint_of s + digit_value c"
  by (simp add: bigint_of_def)

lemma bigint_of_append: "bigint_of (s @ t) = bigint_of s * 10 ^ length t + bigint_of t"
proof (induction t rule: rev_induct)
  case Nil
  show ?case by simp
next
  case (snoc c t)
  have "bigint_of (s @ t @ [c]) = 10 * bigint_of (s @ t) + digit_value c"
    using bigint_of_append1 [of "s @ t" c] by simp
  then show ?case using snoc by (simp add: bigint_of_append1 algebra_simps)
qed

lemma bigint_of_zeros [simp]: "bigint_of (replicate k (CHR ''0'')) = 0"
  by (induction k) (simp_all add: bigint_of_append1 flip: replicate_append_same)

lemma bigint_of_less: "list_all is_digit s \<Longrightarrow> bigint_of s < 10 ^ length s"
proof (induction s rule: rev_induct)
  case Nil
  show ?case by simp
next
  case (snoc c s)
  then have "bigint_of s < 10 ^ length s" and "digit_value c < 10"
    by (simp_all add: digit_value_less)
  then show ?case by (simp add: bigint_of_append1)
qed

lemma decimal_digits: "list_all is_digit (decimal n)"
  by (induction n rule: decimal.induct) (subst decimal.simps, simp)

lemma decimal_nonempty [simp]: "decimal n \<noteq> []"
  by (subst decimal.simps) simp

lemma bigint_of_decimal [simp]: "bigint_of (decimal n) = n"
proof (induction n rule: decimal.induct)
  case (1 n)
  show ?case
  proof (cases "n < 10")
    case True
    then have "decimal n = [] @ [digit_char n]" by (simp add: decimal.simps)
    then show ?thesis using True by (simp only: bigint_of_append1) simp
  next
    case False
    then have "decimal n = decimal (n div 10) @ [digit_char (n mod 10)]"
      by (subst decimal.simps) simp
    then show ?thesis using 1 [OF False] by (simp add: bigint_of_append1)
  qed
qed

lemma decimal_length: "n < 10 ^ Suc k \<Longrightarrow> length (decimal n) \<le> Suc k"
proof (induction k arbitrary: n)
  case 0
  then show ?case by (subst decimal.simps) simp
next
  case (Suc k)
  show ?case
  proof (cases "n < 10")
    case True
    then show ?thesis by (subst decimal.simps) simp
  next
    case False
    have "n div 10 < 10 ^ Suc k" using Suc.prems by (simp add: div_less_iff_less_mult mult.commute)
    then show ?thesis using Suc.IH False by (subst decimal.simps) simp
  qed
qed

section \<open>Parsing and printing\<close>

datatype amount_error = pow10_range int | unsupported_decimals int | unparseable string | bps_range int | no_values

definition MAX_DECIMALS :: int where
  "MAX_DECIMALS = 18"

definition POW10 :: "int list" where
  "POW10 = map (\<lambda>i. 10 ^ i) [0..<Suc (nat (MAX_DECIMALS + 1))]"

definition pow10 :: "int \<Rightarrow> amount_error + int" where
  "pow10 n = (if n < 0 \<or> n > MAX_DECIMALS + 1 then Inl (pow10_range n) else Inr (POW10 ! nat n))"

text \<open>\<open>String.prototype.trim\<close> on the white space below code 256.\<close>

definition is_space :: "char \<Rightarrow> bool" where
  "is_space c = (of_char c \<in> {9 :: nat, 10, 11, 12, 13, 32, 160})"

definition js_trim :: "string \<Rightarrow> string" where
  "js_trim s = rev (dropWhile is_space (rev (dropWhile is_space s)))"

text \<open>The body after an optional sign, and the test \<open>/^-?\d*(\.\d*)?$/\<close>.\<close>

definition unsigned_body :: "string \<Rightarrow> string" where
  "unsigned_body t = (case t of c # r \<Rightarrow> if c = CHR ''-'' then r else t | [] \<Rightarrow> [])"

definition amount_shape :: "string \<Rightarrow> bool" where
  "amount_shape t = (case dropWhile is_digit (unsigned_body t) of
       [] \<Rightarrow> True
     | c # r \<Rightarrow> c = CHR ''.'' \<and> list_all is_digit r)"

definition whole_part :: "string \<Rightarrow> string" where
  "whole_part b = takeWhile (\<lambda>c. c \<noteq> CHR ''.'') b"

definition frac_part :: "string \<Rightarrow> string" where
  "frac_part b = tl (dropWhile (\<lambda>c. c \<noteq> CHR ''.'') b)"

definition padEnd :: "nat \<Rightarrow> string \<Rightarrow> string" where
  "padEnd n s = s @ replicate (n - length s) (CHR ''0'')"

definition padStart :: "nat \<Rightarrow> string \<Rightarrow> string" where
  "padStart n s = replicate (n - length s) (CHR ''0'') @ s"

definition parseAmount :: "string \<Rightarrow> int \<Rightarrow> amount_error + int" where
  "parseAmount value decimals =
    (if decimals < 0 \<or> decimals > MAX_DECIMALS then Inl (unsupported_decimals decimals)
     else
       let trimmed = js_trim value in
       if \<not> amount_shape trimmed \<or> trimmed = [] \<or> trimmed = ''.'' \<or> trimmed = ''-''
       then Inl (unparseable (take 32 value))
       else
         let negative = (hd trimmed = CHR ''-'');
             body = (if negative then tl trimmed else trimmed);
             whole = whole_part body;
             frac = frac_part body;
             fracTrunc = padEnd (nat decimals) (take (nat decimals) frac)
         in ebind (pow10 decimals) (\<lambda>p.
              let raw = int (bigint_of whole) * p + int (bigint_of fracTrunc)
              in Inr (if negative then - raw else raw)))"

text \<open>\<open>replace(/0+$/, '')\<close>.\<close>

definition strip_zeros :: "string \<Rightarrow> string" where
  "strip_zeros s = rev (dropWhile (\<lambda>c. c = CHR ''0'') (rev s))"

definition formatAmount :: "int \<Rightarrow> int \<Rightarrow> amount_error + string" where
  "formatAmount raw decimals =
    (if decimals < 0 \<or> decimals > MAX_DECIMALS then Inl (unsupported_decimals decimals)
     else
       let negative = (raw < 0); magnitude = (if negative then - raw else raw)
       in ebind (pow10 decimals) (\<lambda>d.
            let whole = bdiv magnitude d;
                frac = magnitude mod d;
                sign = (if negative then ''-'' else [])
            in if decimals = 0 then Inr (sign @ decimal (nat whole))
               else
                 let fracStr = strip_zeros (padStart (nat decimals) (decimal (nat frac)))
                 in if fracStr = [] then Inr (sign @ decimal (nat whole))
                    else Inr (sign @ decimal (nat whole) @ ''.'' @ fracStr)))"

section \<open>Basis points\<close>

definition assertBps :: "int \<Rightarrow> amount_error + unit" where
  "assertBps bps = (if bps < 0 \<or> bps > 10000 then Inl (bps_range bps) else Inr ())"

definition applyBpsDown :: "int \<Rightarrow> int \<Rightarrow> amount_error + int" where
  "applyBpsDown amount bps = ebind (assertBps bps) (\<lambda>_. Inr (bdiv (amount * (10000 - bps)) 10000))"

text \<open>\<open>num % 10_000n\<close> is zero exactly when 10000 divides \<open>num\<close>, whatever its sign.\<close>

definition feeFromBpsUp :: "int \<Rightarrow> int \<Rightarrow> amount_error + int" where
  "feeFromBpsUp amount bps = ebind (assertBps bps) (\<lambda>_.
     let num = amount * bps
     in Inr (if num mod 10000 = 0 then bdiv num 10000 else bdiv num 10000 + 1))"

definition lossBps_scaled :: "int \<Rightarrow> int \<Rightarrow> int option" where
  "lossBps_scaled before after =
    (if before \<le> 0 then None else Some (bdiv ((before - after) * 10000 * 1000) before))"

definition minOutWithSlippage :: "int \<Rightarrow> int \<Rightarrow> amount_error + int" where
  "minOutWithSlippage quotedOut slippageBps = applyBpsDown quotedOut slippageBps"

definition maxBigint :: "int \<Rightarrow> int \<Rightarrow> int" where
  "maxBigint a b = (if a > b then a else b)"

definition minBigint :: "int list \<Rightarrow> amount_error + int" where
  "minBigint values =
    (case values of [] \<Rightarrow> Inl no_values
     | v # _ \<Rightarrow> Inr (foldl (\<lambda>m v. if v < m then v else m) v values))"

section \<open>Lemmas\<close>

lemma pow10_ok: "0 \<le> n \<Longrightarrow> n \<le> 18 \<Longrightarrow> pow10 n = Inr (10 ^ nat n)"
  by (simp add: pow10_def MAX_DECIMALS_def POW10_def nat_less_iff del: upt_Suc)

lemma trim_id:
  assumes "s \<noteq> [] \<Longrightarrow> \<not> is_space (hd s) \<and> \<not> is_space (last s)"
  shows "js_trim s = s"
proof (cases "s = []")
  case False
  then have "dropWhile is_space s = s" and "dropWhile is_space (rev s) = rev s"
    using assms by (simp_all add: dropWhile_eq_self_iff hd_rev)
  then show ?thesis by (simp add: js_trim_def)
qed (simp add: js_trim_def)

lemma digit_not_space: "is_digit c \<Longrightarrow> \<not> is_space c"
  by (auto simp: is_digit_def is_space_def)

lemma strip_zeros_pad: "\<exists>k. s = strip_zeros s @ replicate k (CHR ''0'')"
proof -
  define z where "z = takeWhile (\<lambda>c. c = CHR ''0'') (rev s)"
  have "rev s = z @ dropWhile (\<lambda>c. c = CHR ''0'') (rev s)" by (simp add: z_def)
  then have "s = strip_zeros s @ rev z" unfolding strip_zeros_def by (metis rev_append rev_rev_ident)
  moreover have "\<forall>c \<in> set z. c = CHR ''0''" unfolding z_def by (blast dest: set_takeWhileD)
  then have "z = replicate (length z) (CHR ''0'')" by (simp add: replicate_length_same)
  then have "rev z = replicate (length z) (CHR ''0'')" by (metis rev_replicate)
  ultimately show ?thesis by metis
qed

lemma padEnd_strip:
  assumes "length s = n"
  shows "padEnd n (take n (strip_zeros s)) = s"
proof -
  obtain k where k: "s = strip_zeros s @ replicate k (CHR ''0'')" using strip_zeros_pad by blast
  have "length s = length (strip_zeros s) + k" using arg_cong [OF k, of length] by simp
  then have "padEnd n (take n (strip_zeros s)) = strip_zeros s @ replicate k (CHR ''0'')"
    using assms by (simp add: padEnd_def)
  then show ?thesis using k by simp
qed

lemma strip_zeros_digits: "list_all is_digit s \<Longrightarrow> list_all is_digit (strip_zeros s)"
  using strip_zeros_pad [of s] by (metis list_all_append)

text \<open>What \<open>formatAmount\<close> prints is read back part by part.\<close>

lemma whole_frac_dot:
  assumes "list_all is_digit w"
  shows "whole_part (w @ ''.'' @ f) = w" and "frac_part (w @ ''.'' @ f) = f"
proof -
  have "\<forall>c \<in> set w. c \<noteq> CHR ''.''" using assms by (auto simp: list_all_iff)
  then show "whole_part (w @ ''.'' @ f) = w" and "frac_part (w @ ''.'' @ f) = f"
    by (simp_all add: whole_part_def frac_part_def takeWhile_append2 dropWhile_append2)
qed

lemma whole_frac_plain:
  assumes "list_all is_digit w"
  shows "whole_part w = w" and "frac_part w = []"
proof -
  have "\<forall>c \<in> set w. c \<noteq> CHR ''.''" using assms by (auto simp: list_all_iff)
  then have t: "takeWhile (\<lambda>c. c \<noteq> CHR ''.'') w = w" and d: "dropWhile (\<lambda>c. c \<noteq> CHR ''.'') w = []"
    unfolding takeWhile_eq_all_conv dropWhile_eq_Nil_conv by blast+
  show "whole_part w = w" unfolding whole_part_def by (rule t)
  show "frac_part w = []" unfolding frac_part_def d by simp
qed

definition sign_of :: "bool \<Rightarrow> string" where
  "sign_of neg = (if neg then ''-'' else [])"

text \<open>
  Parsing a sign, whole digits, and, with a dot, fraction digits. \<open>dot\<close> says whether the dot is
  there; at least one digit must be, except that a sign and a bare dot also pass.
\<close>

lemma parse_parts:
  assumes w: "list_all is_digit w" and f: "list_all is_digit f"
    and dot: "\<not> dot \<Longrightarrow> f = []" and some: "w \<noteq> [] \<or> f \<noteq> []"
    and d: "0 \<le> decimals" "decimals \<le> 18"
  shows "parseAmount (sign_of neg @ w @ (if dot then ''.'' @ f else [])) decimals =
    Inr ((if neg then - 1 else 1) *
      (int (bigint_of w) * 10 ^ nat decimals +
       int (bigint_of (padEnd (nat decimals) (take (nat decimals) f)))))"
proof -
  let ?t = "w @ (if dot then ''.'' @ f else [])"
  let ?s = "sign_of neg @ ?t"
  have ne: "?t \<noteq> []" and nodash: "?t \<noteq> [] \<Longrightarrow> hd ?t \<noteq> CHR ''-''"
    using some dot w by (cases w; auto)+
  have sp_hd: "\<not> is_space (hd ?s)"
    using w ne some dot by (cases w; cases neg)
      (auto simp: sign_of_def is_space_def list_all_iff is_digit_def)
  have last_t: "last ?t = CHR ''.'' \<or> is_digit (last ?t)"
    using w f some dot by (auto simp: last_append list_all_iff)
  moreover have "\<not> is_space (CHR ''.'')" by (simp add: is_space_def)
  ultimately have "\<not> is_space (last ?t)" using digit_not_space by metis
  then have sp_last: "\<not> is_space (last ?s)" using ne by (simp add: sign_of_def)
  have trim: "js_trim ?s = ?s" using sp_hd sp_last by (intro trim_id) simp
  have body: "unsigned_body ?s = ?t"
    using ne nodash by (cases neg; cases ?t) (auto simp: unsigned_body_def sign_of_def)
  have dw: "dropWhile is_digit ?t = (if dot then ''.'' @ f else [])"
    using w by (auto simp: dropWhile_append list_all_iff)
  have shape: "amount_shape ?s" using f by (simp add: amount_shape_def body dw)
  have hd_s: "hd ?s = CHR ''-'' \<longleftrightarrow> neg" using ne nodash by (simp add: sign_of_def)
  have tl_s: "(if neg then tl ?s else ?s) = ?t" by (simp add: sign_of_def)
  have nodot: "?s \<noteq> ''.''" "?s \<noteq> ''-''"
    using w some dot by (cases w; cases neg; auto simp: sign_of_def list_all_iff)+
  have parts: "whole_part ?t = w" "frac_part ?t = f"
    using whole_frac_dot [OF w, of f] whole_frac_plain [OF w] dot by (cases dot; simp)+
  have ne_s: "?s \<noteq> []" using ne by simp
  show ?thesis
    using d trim shape nodot ne_s
    by (simp only: parseAmount_def hd_s tl_s parts Let_def MAX_DECIMALS_def pow10_ok [OF d] ebind_Inr) simp
qed

lemma nat_mod_frac: "0 \<le> (m::int) \<Longrightarrow> nat (m mod 10 ^ k) < 10 ^ k"
proof -
  have "m mod 10 ^ k < (10::int) ^ k" by simp
  then show ?thesis by (simp add: nat_less_iff)
qed

lemma padStart_decimal:
  assumes "n < 10 ^ k" and "0 < k"
  shows "length (padStart k (decimal n)) = k" and "bigint_of (padStart k (decimal n)) = n"
    and "list_all is_digit (padStart k (decimal n))"
proof -
  obtain j where j: "k = Suc j" using assms(2) by (cases k) auto
  then have "length (decimal n) \<le> k" using assms(1) decimal_length [of n j] by simp
  then show "length (padStart k (decimal n)) = k" by (simp add: padStart_def)
  show "bigint_of (padStart k (decimal n)) = n" by (simp add: padStart_def bigint_of_append)
  show "list_all is_digit (padStart k (decimal n))"
    by (simp add: padStart_def decimal_digits list_all_iff [of _ "replicate _ _"])
qed

section \<open>Properties\<close>

lemma parse_format_parts:
  assumes "0 \<le> decimals" and "decimals \<le> 18"
  shows "\<exists>s. formatAmount raw decimals = Inr s \<and> parseAmount s decimals = Inr raw"
proof -
  let ?neg = "raw < 0" and ?k = "nat decimals"
  define m where "m = \<bar>raw\<bar>"
  define w where "w = decimal (nat (m div 10 ^ ?k))"
  define p where "p = padStart ?k (decimal (nat (m mod 10 ^ ?k)))"
  define f where "f = (if decimals = 0 then [] else strip_zeros p)"
  have mag: "(if raw < 0 then - raw else raw) = m" by (simp add: m_def)
  have div: "bdiv m (10 ^ ?k) = m div 10 ^ ?k" by (intro bdiv_nonneg) (simp_all add: m_def)
  have div1: "bdiv m 1 = m" by (simp add: bdiv_nonneg m_def)
  have printed: "formatAmount raw decimals = Inr (sign_of ?neg @ w @ (if f \<noteq> [] then ''.'' @ f else []))"
    using assms
    by (simp add: formatAmount_def mag div div1 pow10_ok MAX_DECIMALS_def w_def f_def p_def Let_def
        sign_of_def ebind_def del: append.simps)
  have frac: "int (bigint_of (padEnd ?k (take ?k f))) = m mod 10 ^ ?k" and dig_f: "list_all is_digit f"
  proof -
    have lt: "nat (m mod 10 ^ ?k) < 10 ^ ?k" by (intro nat_mod_frac) (simp add: m_def)
    show "int (bigint_of (padEnd ?k (take ?k f))) = m mod 10 ^ ?k"
      using padStart_decimal [OF lt] padEnd_strip [of p ?k] assms(1)
      by (cases "decimals = 0") (simp_all add: f_def p_def padEnd_def)
    show "list_all is_digit f"
      using padStart_decimal(3) [OF lt] strip_zeros_digits assms(1) by (simp add: f_def p_def)
  qed
  have "parseAmount (sign_of ?neg @ w @ (if f \<noteq> [] then ''.'' @ f else [])) decimals =
      Inr ((if ?neg then - 1 else 1) * (int (bigint_of w) * 10 ^ ?k + m mod 10 ^ ?k))"
    unfolding frac [symmetric] using assms dig_f
    by (intro parse_parts) (simp_all add: w_def decimal_digits)
  moreover have "0 \<le> m div 10 ^ ?k" by (simp add: m_def pos_imp_zdiv_nonneg_iff)
  then have "int (bigint_of w) = m div 10 ^ ?k" by (simp add: w_def)
  then have "int (bigint_of w) * 10 ^ ?k + m mod 10 ^ ?k = m" by (simp only: div_mult_mod_eq)
  moreover have "(if ?neg then - 1 else 1) * m = raw" by (simp add: m_def)
  ultimately show ?thesis using printed by metis
qed

text \<open>every raw amount survives printing and parsing: for every number of decimals the module
  supports, \<open>formatAmount\<close> returns a string and \<open>parseAmount\<close> reads exactly that amount from it,
  whatever its sign and size.\<close>

theorem parse_formatAmount:
  assumes "0 \<le> decimals" and "decimals \<le> MAX_DECIMALS"
  shows "\<exists>s. formatAmount raw decimals = Inr s \<and> parseAmount s decimals = Inr raw"
  by (rule parse_format_parts) (use assms in \<open>simp_all add: MAX_DECIMALS_def\<close>)

theorem parse_formatAmount_witness:
  "\<exists>s. formatAmount (- 1500000) 9 = Inr s \<and> parseAmount s 9 = Inr (- 1500000)"
  by (rule parse_formatAmount) (simp_all add: MAX_DECIMALS_def)

lemma truncated_digits:
  assumes "list_all is_digit f"
  shows "bigint_of (padEnd k (take k f)) * 10 ^ length f \<le> bigint_of f * 10 ^ k \<and>
    bigint_of f * 10 ^ k < (bigint_of (padEnd k (take k f)) + 1) * 10 ^ length f"
proof -
  have "?thesis" if "k \<le> length f"
  proof -
    let ?t = "bigint_of (take k f)" and ?r = "bigint_of (drop k f)"
    define j where "j = length f - k"
    have j: "length f = k + j" using that by (simp add: j_def)
    have split: "bigint_of f = ?t * 10 ^ j + ?r"
      using bigint_of_append [of "take k f" "drop k f"] j by simp
    have pad: "padEnd k (take k f) = take k f" using that by (simp add: padEnd_def)
    have "?r < 10 ^ j"
      using bigint_of_less [of "drop k f"] assms j by (simp add: list_all_iff in_set_dropD)
    then have "?r * 10 ^ k < 10 ^ j * 10 ^ k" by simp
    moreover have "(?t * 10 ^ j + ?r) * 10 ^ k = ?t * 10 ^ (k + j) + ?r * 10 ^ k"
      by (simp add: power_add algebra_simps)
    moreover have "(?t + 1) * 10 ^ (k + j) = ?t * 10 ^ (k + j) + 10 ^ j * 10 ^ k"
      by (simp add: power_add algebra_simps)
    ultimately show ?thesis unfolding pad split j by linarith
  qed
  moreover have "?thesis" if long: "length f < k"
  proof -
    have "bigint_of (padEnd k (take k f)) = bigint_of f * 10 ^ (k - length f)"
      using long by (simp add: padEnd_def bigint_of_append)
    moreover have "(10::nat) ^ (k - length f) * 10 ^ length f = 10 ^ k"
      using long by (simp flip: power_add)
    ultimately have "bigint_of (padEnd k (take k f)) * 10 ^ length f = bigint_of f * 10 ^ k"
      by (metis mult.assoc)
    then show ?thesis by (simp add: algebra_simps)
  qed
  ultimately show ?thesis by (metis linorder_not_le)
qed

text \<open>
  The value of a decimal numeral scaled by \<open>10 ^ length f\<close>, which is an integer: whole digits
  \<open>w\<close> followed by fraction digits \<open>f\<close>.
\<close>

definition scaled_value :: "string \<Rightarrow> string \<Rightarrow> int" where
  "scaled_value w f = int (bigint_of (w @ f))"

lemma parse_truncates_mag:
  fixes w f :: string and k :: nat
  assumes f: "list_all is_digit f"
  defines "v \<equiv> int (bigint_of w) * 10 ^ k + int (bigint_of (padEnd k (take k f)))"
  shows "v * 10 ^ length f \<le> scaled_value w f * 10 ^ k"
    and "scaled_value w f * 10 ^ k < (v + 1) * 10 ^ length f"
proof -
  let ?p = "bigint_of (padEnd k (take k f))"
  have "int (?p * 10 ^ length f) \<le> int (bigint_of f * 10 ^ k)"
    using truncated_digits [OF f, of k] by (simp only: of_nat_le_iff)
  then have lo: "int ?p * 10 ^ length f \<le> int (bigint_of f) * 10 ^ k" by simp
  have "int (bigint_of f * 10 ^ k) < int ((?p + 1) * 10 ^ length f)"
    using truncated_digits [OF f, of k] by (simp only: of_nat_less_iff)
  then have hi: "int (bigint_of f) * 10 ^ k < (int ?p + 1) * 10 ^ length f" by (simp add: algebra_simps)
  have "scaled_value w f = int (bigint_of w) * 10 ^ length f + int (bigint_of f)"
    by (simp add: scaled_value_def bigint_of_append)
  then have val_eq: "scaled_value w f * 10 ^ k =
      int (bigint_of w) * 10 ^ length f * 10 ^ k + int (bigint_of f) * 10 ^ k"
    by (simp add: distrib_right)
  have v: "v * 10 ^ length f = int (bigint_of w) * 10 ^ length f * 10 ^ k + int ?p * 10 ^ length f"
    unfolding v_def by (simp add: algebra_simps)
  have v1: "(v + 1) * 10 ^ length f =
      int (bigint_of w) * 10 ^ length f * 10 ^ k + (int ?p + 1) * 10 ^ length f"
    unfolding v_def by (simp add: algebra_simps)
  show "v * 10 ^ length f \<le> scaled_value w f * 10 ^ k"
    and "scaled_value w f * 10 ^ k < (v + 1) * 10 ^ length f"
    unfolding val_eq v v1 using lo hi by linarith+
qed

text \<open>parsing never rounds away from zero. A numeral with whole digits \<open>w\<close>, a dot and fraction
  digits \<open>f\<close>, with or without a minus sign, is parsed for every supported number of decimals, and
  the magnitude of the result is the exact value cut off below the last decimal: at most the value
  written, and less than one raw unit below it. The user never authorises more than was typed.\<close>

theorem parseAmount_truncates:
  assumes "list_all is_digit w" and "list_all is_digit f" and "w \<noteq> [] \<or> f \<noteq> []"
    and "0 \<le> decimals" and "decimals \<le> MAX_DECIMALS"
  shows "\<exists>r. parseAmount (sign_of neg @ w @ ''.'' @ f) decimals = Inr r \<and>
    \<bar>r\<bar> * 10 ^ length f \<le> scaled_value w f * 10 ^ nat decimals \<and>
    scaled_value w f * 10 ^ nat decimals < (\<bar>r\<bar> + 1) * 10 ^ length f \<and>
    (r < 0 \<longrightarrow> neg) \<and> (0 < r \<longrightarrow> \<not> neg)"
proof -
  define v where "v = int (bigint_of w) * 10 ^ nat decimals +
    int (bigint_of (padEnd (nat decimals) (take (nat decimals) f)))"
  have parsed: "parseAmount (sign_of neg @ w @ ''.'' @ f) decimals = Inr ((if neg then - 1 else 1) * v)"
    using parse_parts [of w f True decimals neg] assms by (simp add: MAX_DECIMALS_def v_def)
  have nn: "0 \<le> v" by (simp add: v_def)
  have "v * 10 ^ length f \<le> scaled_value w f * 10 ^ nat decimals"
    and "scaled_value w f * 10 ^ nat decimals < (v + 1) * 10 ^ length f"
    unfolding v_def by (rule parse_truncates_mag [OF assms(2)])+
  moreover have "\<bar>(if neg then - 1 else 1) * v\<bar> = v" using nn by (cases neg) simp_all
  moreover have "(if neg then - 1 else 1) * v < 0 \<longrightarrow> neg" "0 < (if neg then - 1 else 1) * v \<longrightarrow> \<not> neg"
    using nn by auto
  ultimately show ?thesis using parsed by metis
qed

theorem parseAmount_truncates_witness:
  "\<exists>r. parseAmount ''-1.23456789019'' 9 = Inr r \<and> \<bar>r\<bar> * 10 ^ 11 \<le> 123456789019 * 10 ^ 9 \<and>
    123456789019 * 10 ^ 9 < (\<bar>r\<bar> + 1) * 10 ^ 11"
  using parseAmount_truncates [of "''1''" "''23456789019''" 9 True]
  by (simp add: sign_of_def scaled_value_def MAX_DECIMALS_def is_digit_def bigint_of_def digit_value_def)
    blast

lemma bps_split:
  fixes a n :: int
  shows "(a * 10000 - n) div 10000 + (if n mod 10000 = 0 then n div 10000 else n div 10000 + 1) = a"
    and "n \<le> (if n mod 10000 = 0 then n div 10000 else n div 10000 + 1) * 10000"
proof -
  have "(a * 10000 - n) div 10000 = a + (- n) div 10000"
    using div_mult_self3 [of 10000 a "- n"] by (simp add: algebra_simps)
  also have "(- n) div 10000 = (if n mod 10000 = 0 then - (n div 10000) else - (n div 10000) - 1)"
    by (simp add: zdiv_zminus1_eq_if)
  finally show "(a * 10000 - n) div 10000 + (if n mod 10000 = 0 then n div 10000 else n div 10000 + 1) = a"
    by simp
  have "n = n div 10000 * 10000 + n mod 10000" by simp
  moreover have "n mod 10000 < 10000" by simp
  moreover have "q * 10000 + r \<le> (if r = 0 then q else q + 1) * 10000" if "r < 10000" for q r :: int
    using that by simp
  ultimately show "n \<le> (if n mod 10000 = 0 then n div 10000 else n div 10000 + 1) * 10000" by metis
qed

text \<open>slippage and fee split an amount exactly. For a nonnegative amount and a rate in range, the
  output after slippage (rounded down) and the fee at the same rate (rounded up) are both returned,
  both lie between zero and the amount, and they add up to it: no unit is lost or charged twice.\<close>

theorem slippage_and_fee_partition:
  assumes "0 \<le> amount" and "0 \<le> bps" and "bps \<le> 10000"
  shows "\<exists>kept fee. minOutWithSlippage amount bps = Inr kept \<and> feeFromBpsUp amount bps = Inr fee \<and>
    kept + fee = amount \<and> 0 \<le> kept \<and> kept \<le> amount \<and> 0 \<le> fee \<and> fee \<le> amount \<and>
    amount * bps \<le> fee * 10000"
proof -
  let ?n = "amount * bps" and ?keep = "amount * (10000 - bps)"
  define fee where "fee = (if ?n mod 10000 = 0 then ?n div 10000 else ?n div 10000 + 1)"
  define kept where "kept = ?keep div 10000"
  have nn: "0 \<le> ?n" "0 \<le> ?keep" using assms by simp_all
  have sum: "?keep = amount * 10000 - ?n" by (simp add: algebra_simps)
  have parts: "kept + fee = amount" unfolding kept_def fee_def sum by (rule bps_split)
  have up: "?n \<le> fee * 10000" unfolding fee_def by (rule bps_split)
  have lo: "0 \<le> kept" "0 \<le> fee" using nn by (simp_all add: kept_def fee_def pos_imp_zdiv_nonneg_iff)
  have "minOutWithSlippage amount bps = Inr kept" and "feeFromBpsUp amount bps = Inr fee"
    using assms nn
    by (simp_all add: minOutWithSlippage_def applyBpsDown_def feeFromBpsUp_def assertBps_def
        bdiv_nonneg Let_def kept_def fee_def)
  then show ?thesis using parts up lo by auto
qed

theorem slippage_and_fee_partition_witness:
  "\<exists>kept fee. minOutWithSlippage 1001 300 = Inr kept \<and> feeFromBpsUp 1001 300 = Inr fee \<and> kept + fee = 1001"
  using slippage_and_fee_partition [of 1001 300] by auto

text \<open>a sign and a bare dot is accepted. \<open>parseAmount\<close> refuses the empty string, the bare dot and
  the bare sign, which have no digit, but reads a minus sign followed by a dot as the amount zero.\<close>

theorem minus_dot_is_zero:
  "parseAmount ''-.'' 9 = Inr 0 \<and> is_ok (parseAmount ''.'' 9) = False \<and>
   is_ok (parseAmount ''-'' 9) = False \<and> is_ok (parseAmount [] 9) = False"
  by (simp add: parseAmount_def js_trim_def is_space_def amount_shape_def unsigned_body_def
      is_digit_def whole_part_def frac_part_def padEnd_def
      MAX_DECIMALS_def pow10_ok is_ok_def)

end
