(* ===== verification/Settlement.thy ===== *)
theory Settlement
  imports Amounts Signing
begin

text \<open>
  What a trade is booked as: \<open>packages/domain/src/settlement.ts\<close> (one measured leg) and
  \<open>packages/domain/src/trajectory-settlement.ts\<close> (entry, exit and the one net PnL of a
  trajectory). A bigint is an \<open>int\<close>, \<open>null\<close> and an absent optional field are \<open>None\<close>, a thrown
  error is \<open>Inl\<close>. A reason is a constructor with the values its message quotes instead of the
  formatted message.
\<close>

section \<open>A measured leg\<close>

datatype SettlementAsset =
    asset_native_sol (requestedLamports: int) (actualTradeDebitLamports: int) (totalPayerDebitLamports: int)
  | asset_token (asset_mint: string) (asset_tokenProgram: string) (asset_tokenAccount: string)
      (requestedAtoms: int) (actualDebitAtoms: int)

datatype SettlementCredit =
    credit_native_sol (minimumLamports: int) (expectedLamports: "int option") (actualCreditLamports: int)
  | credit_token (credit_mint: string) (credit_tokenProgram: string) (credit_tokenAccount: string)
      (minimumAtoms: int) (expectedAtoms: "int option") (actualCreditAtoms: int)

record SettlementCosts =
  baseFeeLamports :: int
  priorityFeeLamports :: int
  tipLamports :: int
  protocolFeeLamports :: "int option"
  creatorFeeLamports :: "int option"
  lpFeeLamports :: "int option"
  platformFeeLamports :: int
  transferFeeAtoms :: "int option"
  transferFeeLamportsEquivalent :: "int option"
  rentCreatedLamports :: int
  rentRecoveredLamports :: int
  failedAttemptCostLamports :: int
  unexplainedLamports :: int
  valueToUnnamedAccountsLamports :: int

record MeasuredLegSettlement =
  leg_observationId :: string
  leg_simulationJobId :: string
  leg_side :: side
  leg_family :: string
  leg_capabilityFingerprint :: string
  leg_input :: SettlementAsset
  leg_output :: SettlementCredit
  costs :: SettlementCosts
  createdAccounts :: "string list"
  closedAccounts :: "string list"
  residualTokenAtoms :: "int option"
  payerNativeDeltaLamports :: int
  fullAccountCoverage :: bool
  effectValid :: bool
  effectRefusals :: "string list"
  snapshotManifestHash :: "string option"
  replayable :: bool
  leg_complete :: bool
  incompleteness :: "string list"

datatype ineligibility =
    settlement_incomplete "string list"
  | effect_not_verified "string list"
  | not_every_writable_observed
  | lamports_without_named_cost int

definition ineligibilities :: "MeasuredLegSettlement \<Rightarrow> ineligibility list" where
  "ineligibilities s =
     (if \<not> leg_complete s then [settlement_incomplete (incompleteness s)] else []) @
     (if \<not> effectValid s then [effect_not_verified (take 2 (effectRefusals s))] else []) @
     (if \<not> fullAccountCoverage s then [not_every_writable_observed] else []) @
     (if unexplainedLamports (costs s) \<noteq> 0
      then [lamports_without_named_cost (unexplainedLamports (costs s))] else [])"

definition isPnlEligible :: "MeasuredLegSettlement \<Rightarrow> bool \<times> ineligibility list" where
  "isPnlEligible s = (let reasons = ineligibilities s in (reasons = [], reasons))"

datatype settlement_error =
    acquired_on side | no_acquired_token | realized_on side | no_realized_lamports
  | entry_cash_on side | exit_cash_on side

definition acquiredTokens :: "MeasuredLegSettlement \<Rightarrow> settlement_error + int" where
  "acquiredTokens s =
    (if leg_side s \<noteq> buy then Inl (acquired_on (leg_side s))
     else case leg_output s of
       credit_native_sol _ _ _ \<Rightarrow> Inl no_acquired_token
     | credit_token _ _ _ _ _ actual \<Rightarrow> Inr actual)"

definition realizedLamports :: "MeasuredLegSettlement \<Rightarrow> settlement_error + int" where
  "realizedLamports s =
    (if leg_side s \<noteq> sell then Inl (realized_on (leg_side s))
     else case leg_output s of
       credit_native_sol _ _ actual \<Rightarrow> Inr actual
     | credit_token _ _ _ _ _ _ \<Rightarrow> Inl no_realized_lamports)"

text \<open>\<open>{ cashOut, lockedRent }\<close> as a pair.\<close>

definition entryCashOut :: "MeasuredLegSettlement \<Rightarrow> settlement_error + (int \<times> int)" where
  "entryCashOut s =
    (if leg_side s \<noteq> buy then Inl (entry_cash_on (leg_side s))
     else Inr (- payerNativeDeltaLamports s,
               rentCreatedLamports (costs s) - rentRecoveredLamports (costs s)))"

definition exitCashIn :: "MeasuredLegSettlement \<Rightarrow> settlement_error + int" where
  "exitCashIn s =
    (if leg_side s \<noteq> sell then Inl (exit_cash_on (leg_side s)) else Inr (payerNativeDeltaLamports s))"

definition executionCost :: "MeasuredLegSettlement \<Rightarrow> int" where
  "executionCost s =
     baseFeeLamports (costs s) + priorityFeeLamports (costs s) + tipLamports (costs s) +
     (rentCreatedLamports (costs s) - rentRecoveredLamports (costs s)) +
     failedAttemptCostLamports (costs s)"

definition TOKEN_2022 :: string where
  "TOKEN_2022 = ''TokenzQdBNbLqP5VEhdkAS6EPFLC1PHnBqCXEpPxuEb''"

definition touches2022 :: "MeasuredLegSettlement \<Rightarrow> bool" where
  "touches2022 s =
    ((case leg_input s of asset_token _ p _ _ _ \<Rightarrow> p = TOKEN_2022 | asset_native_sol _ _ _ \<Rightarrow> False) \<or>
     (case leg_output s of credit_token _ p _ _ _ _ \<Rightarrow> p = TOKEN_2022 | credit_native_sol _ _ _ \<Rightarrow> False))"

definition transferFeeOrUnknown :: "MeasuredLegSettlement \<Rightarrow> int option" where
  "transferFeeOrUnknown s =
    (if transferFeeLamportsEquivalent (costs s) \<noteq> None then transferFeeLamportsEquivalent (costs s)
     else if \<not> touches2022 s then Some 0
     else None)"

section \<open>The immediate round trip\<close>

datatype round_trip_reason =
    buy_leg ineligibility | sell_leg ineligibility | two_families string string

record RoundTripEconomics =
  cashOutLamports :: int
  cashInLamports :: int
  netLamports :: int
  lossBps :: int
  tradingLossBps :: int
  recoverableRentLamports :: int
  rt_complete :: bool
  rt_reasons :: "round_trip_reason list"

definition immediateRoundTrip ::
  "MeasuredLegSettlement \<Rightarrow> MeasuredLegSettlement \<Rightarrow> settlement_error + RoundTripEconomics" where
  "immediateRoundTrip b s =
    (let (b_ok, b_reasons) = isPnlEligible b;
         (s_ok, s_reasons) = isPnlEligible s;
         reasons =
           (if \<not> b_ok then map buy_leg b_reasons else []) @
           (if \<not> s_ok then map sell_leg s_reasons else []) @
           (if leg_family b \<noteq> leg_family s then [two_families (leg_family b) (leg_family s)] else [])
     in ebind (entryCashOut b) (\<lambda>(cashOut, buyRent).
        ebind (exitCashIn s) (\<lambda>cashIn.
          let net = cashIn - cashOut;
              loss = (if cashOut \<le> 0 then 0 else js_number (bdiv ((cashOut - cashIn) * 10000) cashOut));
              sellRent = rentCreatedLamports (costs s) - rentRecoveredLamports (costs s);
              rentLocked = buyRent + sellRent;
              tradingNet = net + rentLocked;
              tradingBasis = cashOut - buyRent;
              tradingLoss = (if tradingBasis \<le> 0 then 0
                             else js_number (bdiv (- tradingNet * 10000) tradingBasis))
          in Inr \<lparr>cashOutLamports = cashOut, cashInLamports = cashIn, netLamports = net,
                  lossBps = loss, tradingLossBps = tradingLoss,
                  recoverableRentLamports = rentLocked, rt_complete = (reasons = []),
                  rt_reasons = reasons\<rparr>)))"

section \<open>The settlement of a trajectory\<close>

datatype Applicability = MEASURED | NOT_APPLICABLE | UNKNOWN

record CostComponent =
  applicability :: Applicability
  component_lamports :: int

definition notApplicable :: CostComponent where
  "notApplicable = \<lparr>applicability = NOT_APPLICABLE, component_lamports = 0\<rparr>"

definition measured :: "int \<Rightarrow> CostComponent" where
  "measured l = \<lparr>applicability = MEASURED, component_lamports = l\<rparr>"

definition unknownCost :: CostComponent where
  "unknownCost = \<lparr>applicability = UNKNOWN, component_lamports = 0\<rparr>"

definition blocksPnl :: "CostComponent \<Rightarrow> bool" where
  "blocksPnl c = (applicability c = UNKNOWN)"

record LegEvidenceState =
  rawStateDurable :: bool
  linksResolve :: bool
  residualSemanticsKnown :: bool

definition DURABLE_EVIDENCE :: LegEvidenceState where
  "DURABLE_EVIDENCE = \<lparr>rawStateDurable = True, linksResolve = True, residualSemanticsKnown = True\<rparr>"

record CashbackFacts =
  accruedLamports :: int
  claimableLamports :: int
  claimedLamports :: int
  claimCostLamports :: int

definition NO_CASHBACK :: CashbackFacts where
  "NO_CASHBACK = \<lparr>accruedLamports = 0, claimableLamports = 0, claimedLamports = 0, claimCostLamports = 0\<rparr>"

datatype leg_name = entry_leg | exit_leg

datatype block_reason =
    entry_transfer_fee_unmeasured | exit_transfer_fee_unmeasured | not_exited
  | leg_not_eligible leg_name ineligibility
  | durability_not_established leg_name | raw_state_not_durable leg_name
  | links_do_not_resolve leg_name | residual_semantics_unknown leg_name
  | token_atoms_remain int
  | payer_identity_open int

record TrajectorySettlement =
  ts_trajectoryId :: string
  ts_entry :: MeasuredLegSettlement
  ts_exit :: "MeasuredLegSettlement option"
  entryCashOutLamports :: int
  exitCashInLamports :: "int option"
  grossExitCreditLamports :: "int option"
  baseFeesLamports :: int
  priorityFeesLamports :: int
  tipsLamports :: int
  transferFeesLamports :: int
  ts_failedAttemptFeesLamports :: int
  ts_rentCreatedLamports :: int
  ts_rentRecoveredLamports :: int
  ts_rentStillLockedLamports :: int
  cashbackAccruedLamports :: int
  cashbackClaimableLamports :: int
  cashbackClaimedLamports :: int
  cashbackClaimCostLamports :: int
  venueFeesEmbeddedInOutput :: bool
  ts_venueFeeDecompositionKnown :: bool
  ts_residualTokenAtoms :: int
  ts_unexplainedLamports :: int
  executionCostLamports :: int
  netPnlLamports :: "int option"
  pnlBlockedReasons :: "block_reason list"

text \<open>The argument of \<open>buildTrajectorySettlement\<close>; every optional field is an option.\<close>

record TrajectoryInput =
  p_trajectoryId :: string
  p_entry :: MeasuredLegSettlement
  p_exit :: "MeasuredLegSettlement option"
  p_cashback :: "CashbackFacts option"
  failedAttemptFeesLamports :: "int option"
  rentStillLockedLamports :: "int option"
  venueFeeDecompositionKnown :: "bool option"
  evidence_entry :: "LegEvidenceState option"
  evidence_exit :: "LegEvidenceState option"

text \<open>The body of the loop over the two legs.\<close>

definition leg_reasons :: "leg_name \<Rightarrow> MeasuredLegSettlement \<Rightarrow> LegEvidenceState option \<Rightarrow> block_reason list" where
  "leg_reasons nm leg durability =
     (let (ok, reasons) = isPnlEligible leg in if \<not> ok then map (leg_not_eligible nm) reasons else []) @
     (case durability of
        None \<Rightarrow> [durability_not_established nm]
      | Some d \<Rightarrow>
          (if \<not> rawStateDurable d then [raw_state_not_durable nm] else []) @
          (if \<not> linksResolve d then [links_do_not_resolve nm] else []) @
          (if residualSemanticsKnown d = False then [residual_semantics_unknown nm] else []))"

text \<open>A cost of the exit leg, zero when the trajectory has not exited.\<close>

definition exit_cost :: "(SettlementCosts \<Rightarrow> int) \<Rightarrow> MeasuredLegSettlement option \<Rightarrow> int" where
  "exit_cost c x = (case x of None \<Rightarrow> 0 | Some e \<Rightarrow> c (costs e))"

definition native_debit :: "MeasuredLegSettlement \<Rightarrow> int" where
  "native_debit s = (case leg_input s of asset_native_sol _ d _ \<Rightarrow> d | asset_token _ _ _ _ _ \<Rightarrow> 0)"

definition native_credit :: "MeasuredLegSettlement option \<Rightarrow> int option" where
  "native_credit x = (case x of None \<Rightarrow> None
     | Some e \<Rightarrow> (case leg_output e of credit_native_sol _ _ c \<Rightarrow> Some c | credit_token _ _ _ _ _ _ \<Rightarrow> None))"

definition namedFees :: "MeasuredLegSettlement \<Rightarrow> MeasuredLegSettlement option \<Rightarrow> int" where
  "namedFees entry x =
     baseFeeLamports (costs entry) + priorityFeeLamports (costs entry) + tipLamports (costs entry) +
     exit_cost baseFeeLamports x + exit_cost priorityFeeLamports x + exit_cost tipLamports x +
     nullish (protocolFeeLamports (costs entry)) 0 +
     exit_cost (\<lambda>c. nullish (protocolFeeLamports c) 0) x"

definition namedRent :: "MeasuredLegSettlement \<Rightarrow> MeasuredLegSettlement option \<Rightarrow> int" where
  "namedRent entry x =
     (rentCreatedLamports (costs entry) + exit_cost rentCreatedLamports x) -
     (rentRecoveredLamports (costs entry) + exit_cost rentRecoveredLamports x)"

definition namedPayerDelta :: "MeasuredLegSettlement \<Rightarrow> MeasuredLegSettlement option \<Rightarrow> int" where
  "namedPayerDelta entry x =
     nullish (native_credit x) 0 - native_debit entry - namedFees entry x - namedRent entry x"

definition unexplained_of :: "MeasuredLegSettlement \<Rightarrow> MeasuredLegSettlement option \<Rightarrow> int" where
  "unexplained_of entry x = (case x of None \<Rightarrow> 0
     | Some e \<Rightarrow> payerNativeDeltaLamports entry + payerNativeDeltaLamports e - namedPayerDelta entry x)"

definition residual_of :: "MeasuredLegSettlement \<Rightarrow> MeasuredLegSettlement option \<Rightarrow> settlement_error + int" where
  "residual_of entry x = (case x of None \<Rightarrow> acquiredTokens entry
     | Some e \<Rightarrow> Inr (nullish (residualTokenAtoms e) 0))"

definition exit_fee :: "MeasuredLegSettlement option \<Rightarrow> int option" where
  "exit_fee x = (case x of None \<Rightarrow> Some 0 | Some e \<Rightarrow> transferFeeOrUnknown e)"

definition exit_cash :: "MeasuredLegSettlement option \<Rightarrow> settlement_error + int option" where
  "exit_cash x = (case x of None \<Rightarrow> Inr None | Some e \<Rightarrow> ebind (exitCashIn e) (\<lambda>c. Inr (Some c)))"

definition pnl_reasons :: "TrajectoryInput \<Rightarrow> int \<Rightarrow> block_reason list" where
  "pnl_reasons p residual =
    (let x = p_exit p; unexplained = unexplained_of (p_entry p) x in
     (if transferFeeOrUnknown (p_entry p) = None then [entry_transfer_fee_unmeasured] else []) @
     (if x \<noteq> None \<and> exit_fee x = None then [exit_transfer_fee_unmeasured] else []) @
     (if x = None then [not_exited] else []) @
     leg_reasons entry_leg (p_entry p) (evidence_entry p) @
     (case x of None \<Rightarrow> [] | Some e \<Rightarrow> leg_reasons exit_leg e (evidence_exit p)) @
     (if residual \<noteq> 0 \<and> x \<noteq> None then [token_atoms_remain residual] else []) @
     (if unexplained \<noteq> 0 then [payer_identity_open unexplained] else []))"

definition execution_cost_of :: "TrajectoryInput \<Rightarrow> int" where
  "execution_cost_of p =
     executionCost (p_entry p) +
     (case p_exit p of None \<Rightarrow> 0 | Some e \<Rightarrow> executionCost e) +
     (nullish (transferFeeOrUnknown (p_entry p)) 0 + nullish (exit_fee (p_exit p)) 0) +
     nullish (failedAttemptFeesLamports p) 0 +
     claimCostLamports (nullish (p_cashback p) NO_CASHBACK)"

definition buildTrajectorySettlement :: "TrajectoryInput \<Rightarrow> settlement_error + TrajectorySettlement" where
  "buildTrajectorySettlement p =
    (let entry = p_entry p; x = p_exit p; cashback = nullish (p_cashback p) NO_CASHBACK in
     ebind (entryCashOut entry) (\<lambda>(cashOut, _).
     ebind (exit_cash x) (\<lambda>exitCash.
     ebind (residual_of entry x) (\<lambda>residual.
       let reasons = pnl_reasons p residual;
           rentCreated = rentCreatedLamports (costs entry) + exit_cost rentCreatedLamports x;
           rentRecovered = rentRecoveredLamports (costs entry) + exit_cost rentRecoveredLamports x;
           netPnl = (case exitCash of None \<Rightarrow> None
             | Some cash \<Rightarrow> if reasons = []
                 then Some (cash + claimedLamports cashback - cashOut - claimCostLamports cashback)
                 else None)
       in Inr \<lparr>
         ts_trajectoryId = p_trajectoryId p, ts_entry = entry, ts_exit = x,
         entryCashOutLamports = cashOut,
         exitCashInLamports = exitCash,
         grossExitCreditLamports = native_credit x,
         baseFeesLamports = baseFeeLamports (costs entry) + exit_cost baseFeeLamports x,
         priorityFeesLamports = priorityFeeLamports (costs entry) + exit_cost priorityFeeLamports x,
         tipsLamports = tipLamports (costs entry) + exit_cost tipLamports x,
         transferFeesLamports = nullish (transferFeeOrUnknown entry) 0 + nullish (exit_fee x) 0,
         ts_failedAttemptFeesLamports = nullish (failedAttemptFeesLamports p) 0,
         ts_rentCreatedLamports = rentCreated,
         ts_rentRecoveredLamports = rentRecovered,
         ts_rentStillLockedLamports = nullish (rentStillLockedLamports p)
           (if rentCreated > rentRecovered then rentCreated - rentRecovered else 0),
         cashbackAccruedLamports = accruedLamports cashback,
         cashbackClaimableLamports = claimableLamports cashback,
         cashbackClaimedLamports = claimedLamports cashback,
         cashbackClaimCostLamports = claimCostLamports cashback,
         venueFeesEmbeddedInOutput = True,
         ts_venueFeeDecompositionKnown = nullish (venueFeeDecompositionKnown p) False,
         ts_residualTokenAtoms = residual,
         ts_unexplainedLamports = unexplained_of entry x,
         executionCostLamports = execution_cost_of p,
         netPnlLamports = netPnl,
         pnlBlockedReasons = reasons\<rparr>))))"

datatype identity_violation =
    payer_identity_residue int int | pnl_over_residue int int | pnl_not_identity int int
  | principal_in_cost | negative_locked_rent | overclaimed_cashback

definition identity_violations :: "TrajectorySettlement \<Rightarrow> identity_violation list" where
  "identity_violations s =
     (if ts_unexplainedLamports s \<noteq> 0
      then [payer_identity_residue (ts_unexplainedLamports s) (entryCashOutLamports s)] else []) @
     (case netPnlLamports s of
        Some n \<Rightarrow> if ts_unexplainedLamports s \<noteq> 0 then [pnl_over_residue n (ts_unexplainedLamports s)] else []
      | None \<Rightarrow> []) @
     (case (netPnlLamports s, exitCashInLamports s) of
        (Some n, Some cash) \<Rightarrow>
          let expected = cash + cashbackClaimedLamports s - entryCashOutLamports s - cashbackClaimCostLamports s
          in if expected \<noteq> n then [pnl_not_identity n expected] else []
      | _ \<Rightarrow> []) @
     (if executionCostLamports s \<ge> entryCashOutLamports s \<and> entryCashOutLamports s > 0
      then [principal_in_cost] else []) @
     (if ts_rentStillLockedLamports s < 0 then [negative_locked_rent] else []) @
     (if cashbackClaimedLamports s > cashbackAccruedLamports s + cashbackClaimableLamports s
      then [overclaimed_cashback] else [])"

definition checkIdentities :: "TrajectorySettlement \<Rightarrow> bool \<times> identity_violation list" where
  "checkIdentities s = (let v = identity_violations s in (v = [], v))"

section \<open>Lemmas\<close>

lemmas leg_defs = entryCashOut_def exitCashIn_def acquiredTokens_def executionCost_def
  transferFeeOrUnknown_def

lemma eligible_iff: "fst (isPnlEligible s) \<longleftrightarrow>
    leg_complete s \<and> effectValid s \<and> fullAccountCoverage s \<and> unexplainedLamports (costs s) = 0"
  by (simp add: isPnlEligible_def ineligibilities_def Let_def)

lemma leg_reasons_Nil: "leg_reasons nm leg dur = [] \<longleftrightarrow>
    fst (isPnlEligible leg) \<and> dur = Some DURABLE_EVIDENCE"
  by (cases dur) (auto simp: leg_reasons_def isPnlEligible_def DURABLE_EVIDENCE_def Let_def
      split: if_splits)

lemma pnl_reasons_Nil: "pnl_reasons p residual = [] \<longleftrightarrow>
    (\<exists>e. p_exit p = Some e \<and> transferFeeOrUnknown (p_entry p) \<noteq> None \<and> transferFeeOrUnknown e \<noteq> None \<and>
      leg_reasons entry_leg (p_entry p) (evidence_entry p) = [] \<and>
      leg_reasons exit_leg e (evidence_exit p) = [] \<and> residual = 0 \<and>
      unexplained_of (p_entry p) (Some e) = 0)"
  by (cases "p_exit p") (simp_all add: pnl_reasons_def exit_fee_def Let_def)

text \<open>A settlement that was built, field by field.\<close>

lemma build_eq_InrD:
  assumes "buildTrajectorySettlement p = Inr s"
  shows "leg_side (p_entry p) = buy"
    and "entryCashOutLamports s = - payerNativeDeltaLamports (p_entry p)"
    and "exit_cash (p_exit p) = Inr (exitCashInLamports s)"
    and "residual_of (p_entry p) (p_exit p) = Inr (ts_residualTokenAtoms s)"
    and "pnlBlockedReasons s = pnl_reasons p (ts_residualTokenAtoms s)"
    and "ts_unexplainedLamports s = unexplained_of (p_entry p) (p_exit p)"
    and "executionCostLamports s = execution_cost_of p"
    and "netPnlLamports s = (case exitCashInLamports s of None \<Rightarrow> None
       | Some cash \<Rightarrow> if pnlBlockedReasons s = []
           then Some (cash + cashbackClaimedLamports s - entryCashOutLamports s - cashbackClaimCostLamports s)
           else None)"
proof -
  obtain c where c: "entryCashOut (p_entry p) = Inr c"
    using assms by (auto simp: buildTrajectorySettlement_def Let_def elim!: ebind_eq_InrE)
  obtain x where x: "exit_cash (p_exit p) = Inr x"
    using assms by (auto simp: buildTrajectorySettlement_def Let_def c split: prod.splits elim!: ebind_eq_InrE)
  obtain r where r: "residual_of (p_entry p) (p_exit p) = Inr r"
    using assms by (auto simp: buildTrajectorySettlement_def Let_def c x split: prod.splits elim!: ebind_eq_InrE)
  have side: "leg_side (p_entry p) = buy" and
    c': "c = (- payerNativeDeltaLamports (p_entry p),
      rentCreatedLamports (costs (p_entry p)) - rentRecoveredLamports (costs (p_entry p)))"
    using c by (simp_all add: entryCashOut_def split: if_splits)
  note eq = assms [unfolded buildTrajectorySettlement_def Let_def c x r ebind_Inr c' prod.case, simplified]
  show "leg_side (p_entry p) = buy" by (rule side)
  show "entryCashOutLamports s = - payerNativeDeltaLamports (p_entry p)" by (simp flip: eq)
  show "exit_cash (p_exit p) = Inr (exitCashInLamports s)" by (simp add: x flip: eq)
  show "residual_of (p_entry p) (p_exit p) = Inr (ts_residualTokenAtoms s)" by (simp add: r flip: eq)
  show "pnlBlockedReasons s = pnl_reasons p (ts_residualTokenAtoms s)" by (simp flip: eq)
  show "ts_unexplainedLamports s = unexplained_of (p_entry p) (p_exit p)" by (simp flip: eq)
  show "executionCostLamports s = execution_cost_of p" by (simp flip: eq)
  show "netPnlLamports s = (case exitCashInLamports s of None \<Rightarrow> None
       | Some cash \<Rightarrow> if pnlBlockedReasons s = []
           then Some (cash + cashbackClaimedLamports s - entryCashOutLamports s - cashbackClaimCostLamports s)
           else None)"
    by (cases x; cases "pnl_reasons p r = []") (simp_all flip: eq)
qed

text \<open>The cashback of the input, and the money fields that copy it.\<close>

lemma build_cashback:
  assumes "buildTrajectorySettlement p = Inr s"
  shows "cashbackClaimedLamports s = claimedLamports (nullish (p_cashback p) NO_CASHBACK)"
    and "cashbackClaimCostLamports s = claimCostLamports (nullish (p_cashback p) NO_CASHBACK)"
  using assms by (auto simp: buildTrajectorySettlement_def Let_def split: prod.splits elim!: ebind_eq_InrE)

lemma build_fee_fields:
  assumes "buildTrajectorySettlement p = Inr s"
  shows "baseFeesLamports s = baseFeeLamports (costs (p_entry p)) + exit_cost baseFeeLamports (p_exit p)"
    and "priorityFeesLamports s = priorityFeeLamports (costs (p_entry p)) + exit_cost priorityFeeLamports (p_exit p)"
    and "tipsLamports s = tipLamports (costs (p_entry p)) + exit_cost tipLamports (p_exit p)"
    and "transferFeesLamports s = nullish (transferFeeOrUnknown (p_entry p)) 0 + nullish (exit_fee (p_exit p)) 0"
    and "ts_failedAttemptFeesLamports s = nullish (failedAttemptFeesLamports p) 0"
    and "ts_rentCreatedLamports s - ts_rentRecoveredLamports s = namedRent (p_entry p) (p_exit p)"
  using assms by (auto simp: buildTrajectorySettlement_def Let_def namedRent_def split: prod.splits elim!: ebind_eq_InrE)

lemma published_cases:
  assumes "buildTrajectorySettlement p = Inr s" and "netPnlLamports s = Some n"
  obtains e where "p_exit p = Some e" and "pnl_reasons p (ts_residualTokenAtoms s) = []"
    and "exitCashInLamports s = Some (payerNativeDeltaLamports e)"
    and "n = payerNativeDeltaLamports (p_entry p) + payerNativeDeltaLamports e +
      cashbackClaimedLamports s - cashbackClaimCostLamports s"
proof -
  note b = build_eq_InrD [OF assms(1)]
  obtain cash where cash: "exitCashInLamports s = Some cash" and ok: "pnlBlockedReasons s = []"
    and n: "n = cash + cashbackClaimedLamports s - entryCashOutLamports s - cashbackClaimCostLamports s"
    using assms(2) b(8) by (auto split: option.splits if_splits)
  obtain e where e: "p_exit p = Some e" "payerNativeDeltaLamports e = cash"
    using b(3) cash by (auto simp: exit_cash_def exitCashIn_def ebind_def split: option.splits if_splits)
  show thesis
    using that [OF e(1)] ok b(2,5) cash e(2) n by simp
qed

section \<open>Properties\<close>


text \<open>every cost is charged exactly once. The execution cost of a settlement is the sum of its own
  itemised columns (base, priority, tip and transfer fees, failed attempts of the trajectory and of
  each leg, rent created minus recovered, cashback claim cost), and contains neither the
  principal nor the locked rent a second time.\<close>

theorem execution_cost_counts_once:
  assumes "buildTrajectorySettlement p = Inr s"
  shows "executionCostLamports s =
    baseFeesLamports s + priorityFeesLamports s + tipsLamports s + transferFeesLamports s +
    ts_failedAttemptFeesLamports s + (ts_rentCreatedLamports s - ts_rentRecoveredLamports s) +
    (failedAttemptCostLamports (costs (p_entry p)) + exit_cost failedAttemptCostLamports (p_exit p)) +
    cashbackClaimCostLamports s"
  unfolding build_eq_InrD(7) [OF assms] build_fee_fields [OF assms] build_cashback [OF assms]
  by (cases "p_exit p") (simp_all add: execution_cost_of_def executionCost_def exit_cost_def namedRent_def)

text \<open>the identity check never contradicts the writer. On a settlement the writer built, the check
  reports at most an open payer identity, principal inside the cost, negative locked rent or
  overclaimed cashback; it never finds a PnL published over a residue or off its cash identity, and
  it reports the open payer identity exactly when the residue is non-zero, in which case nothing was
  published.\<close>

theorem built_settlement_identities:
  assumes "buildTrajectorySettlement p = Inr s"
  shows "set (snd (checkIdentities s)) \<subseteq>
      {payer_identity_residue (ts_unexplainedLamports s) (entryCashOutLamports s),
       principal_in_cost, negative_locked_rent, overclaimed_cashback} \<and>
    (payer_identity_residue (ts_unexplainedLamports s) (entryCashOutLamports s) \<in> set (snd (checkIdentities s))
       \<longleftrightarrow> ts_unexplainedLamports s \<noteq> 0) \<and>
    (ts_unexplainedLamports s \<noteq> 0 \<longrightarrow> netPnlLamports s = None)"
proof (cases "netPnlLamports s")
  case None
  then show ?thesis by (auto simp: checkIdentities_def identity_violations_def Let_def)
next
  case (Some n)
  obtain e where e: "p_exit p = Some e" "pnl_reasons p (ts_residualTokenAtoms s) = []"
    and cash: "exitCashInLamports s = Some (payerNativeDeltaLamports e)"
    and n: "n = payerNativeDeltaLamports (p_entry p) + payerNativeDeltaLamports e +
      cashbackClaimedLamports s - cashbackClaimCostLamports s"
    using published_cases [OF assms Some] by metis
  have z: "ts_unexplainedLamports s = 0"
    using e build_eq_InrD(6) [OF assms] by (simp add: pnl_reasons_Nil)
  have out: "entryCashOutLamports s = - payerNativeDeltaLamports (p_entry p)"
    by (rule build_eq_InrD(2) [OF assms])
  show ?thesis
    using Some cash n z out by (auto simp: checkIdentities_def identity_violations_def Let_def)
qed

subsection \<open>A trajectory\<close>

definition sample_costs :: SettlementCosts where
  "sample_costs = \<lparr>baseFeeLamports = 5000, priorityFeeLamports = 1000, tipLamports = 0,
     protocolFeeLamports = Some 2000, creatorFeeLamports = None, lpFeeLamports = None,
     platformFeeLamports = 0, transferFeeAtoms = None, transferFeeLamportsEquivalent = Some 0,
     rentCreatedLamports = 0, rentRecoveredLamports = 0, failedAttemptCostLamports = 0,
     unexplainedLamports = 0, valueToUnnamedAccountsLamports = 0\<rparr>"

definition sample_leg :: "side \<Rightarrow> SettlementAsset \<Rightarrow> SettlementCredit \<Rightarrow> int \<Rightarrow> int option \<Rightarrow> MeasuredLegSettlement" where
  "sample_leg sd asset credit delta residual = \<lparr>leg_observationId = ''o'', leg_simulationJobId = ''j'',
     leg_side = sd, leg_family = ''BUILD_CUSTOM'', leg_capabilityFingerprint = ''f'', leg_input = asset,
     leg_output = credit, costs = sample_costs, createdAccounts = [], closedAccounts = [],
     residualTokenAtoms = residual, payerNativeDeltaLamports = delta, fullAccountCoverage = True,
     effectValid = True, effectRefusals = [], snapshotManifestHash = None, replayable = True,
     leg_complete = True, incompleteness = []\<rparr>"

definition sample_buy :: MeasuredLegSettlement where
  "sample_buy = sample_leg buy (asset_native_sol 20000000 20000000 20008000)
     (credit_token ''m'' ''t'' ''a'' 900 (Some 1000) 1000) (- 20008000) (Some 0)"

definition sample_sell :: "int option \<Rightarrow> MeasuredLegSettlement" where
  "sample_sell residual = sample_leg sell (asset_token ''m'' ''t'' ''a'' 1000 1000)
     (credit_native_sol 18000000 (Some 21000000) 21000000) 20992000 residual"

definition sample_trajectory :: "int option \<Rightarrow> TrajectoryInput" where
  "sample_trajectory residual = \<lparr>p_trajectoryId = ''t'', p_entry = sample_buy,
     p_exit = Some (sample_sell residual), p_cashback = None, failedAttemptFeesLamports = None,
     rentStillLockedLamports = None, venueFeeDecompositionKnown = None,
     evidence_entry = Some DURABLE_EVIDENCE, evidence_exit = Some DURABLE_EVIDENCE\<rparr>"

lemmas sample_trajectory_defs = sample_trajectory_def sample_sell_def sample_buy_def sample_leg_def
  sample_costs_def DURABLE_EVIDENCE_def NO_CASHBACK_def

lemmas build_defs = buildTrajectorySettlement_def entryCashOut_def exit_cash_def exitCashIn_def
  residual_of_def pnl_reasons_def unexplained_of_def namedPayerDelta_def namedFees_def namedRent_def
  native_credit_def native_debit_def exit_cost_def exit_fee_def transferFeeOrUnknown_def touches2022_def
  TOKEN_2022_def leg_reasons_def isPnlEligible_def ineligibilities_def

lemma sample_built:
  "\<exists>s. buildTrajectorySettlement (sample_trajectory r) = Inr s \<and>
    netPnlLamports s = (if nullish r 0 = 0 then Some 984000 else None)"
  by (simp add: build_defs sample_trajectory_defs Let_def)


theorem execution_cost_counts_once_witness:
  "\<exists>s. buildTrajectorySettlement (sample_trajectory (Some 0)) = Inr s \<and>
    executionCostLamports s = baseFeesLamports s + priorityFeesLamports s + tipsLamports s +
      transferFeesLamports s + ts_failedAttemptFeesLamports s +
      (ts_rentCreatedLamports s - ts_rentRecoveredLamports s) + cashbackClaimCostLamports s"
proof -
  obtain s where s: "buildTrajectorySettlement (sample_trajectory (Some 0)) = Inr s"
    using sample_built [of "Some 0"] by blast
  show ?thesis
    using execution_cost_counts_once [OF s] s
    by (intro exI [of _ s]) (simp add: sample_trajectory_defs exit_cost_def)
qed

theorem built_settlement_identities_witness:
  "\<exists>s. buildTrajectorySettlement (sample_trajectory (Some 7)) = Inr s \<and>
    set (snd (checkIdentities s)) \<subseteq>
      {payer_identity_residue (ts_unexplainedLamports s) (entryCashOutLamports s),
       principal_in_cost, negative_locked_rent, overclaimed_cashback}"
proof -
  obtain s where s: "buildTrajectorySettlement (sample_trajectory (Some 7)) = Inr s"
    using sample_built [of "Some 7"] by blast
  show ?thesis using built_settlement_identities [OF s] s by blast
qed

text \<open>an exit whose residual balance was never observed is booked as having none. Replacing an
  unobserved residual of the exit by a measured zero changes nothing in the published PnL, whatever
  the trajectory; and there is a trajectory with an unobserved residual that publishes one.\<close>

theorem unobserved_residual_is_zero:
  "map_sum id netPnlLamports (buildTrajectorySettlement (p\<lparr>p_exit := Some (e\<lparr>residualTokenAtoms := None\<rparr>)\<rparr>)) =
   map_sum id netPnlLamports (buildTrajectorySettlement (p\<lparr>p_exit := Some (e\<lparr>residualTokenAtoms := Some 0\<rparr>)\<rparr>)) \<and>
   map_sum id netPnlLamports (buildTrajectorySettlement (sample_trajectory None)) = Inr (Some 984000)"
proof -
  have "pnl_reasons (p\<lparr>p_exit := Some (e\<lparr>residualTokenAtoms := None\<rparr>)\<rparr>) r =
      pnl_reasons (p\<lparr>p_exit := Some (e\<lparr>residualTokenAtoms := Some 0\<rparr>)\<rparr>) r" for r
    by (simp add: build_defs Let_def)
  then have "map_sum id netPnlLamports (buildTrajectorySettlement (p\<lparr>p_exit := Some (e\<lparr>residualTokenAtoms := None\<rparr>)\<rparr>)) =
     map_sum id netPnlLamports (buildTrajectorySettlement (p\<lparr>p_exit := Some (e\<lparr>residualTokenAtoms := Some 0\<rparr>)\<rparr>))"
    by (auto simp: buildTrajectorySettlement_def Let_def ebind_def exit_cash_def exitCashIn_def residual_of_def
        split: sum.splits)
  then show ?thesis using sample_built [of None] by auto
qed

text \<open>fees of failed attempts never reach the net PnL. Whatever the trajectory, the fees actually
  paid on attempts that did not land change the stored execution cost and leave the published net
  PnL, and the verdict of the identity check on it, as they were without them.\<close>

theorem failed_fees_not_in_pnl:
  "map_sum id netPnlLamports (buildTrajectorySettlement (p\<lparr>failedAttemptFeesLamports := Some f\<rparr>)) =
   map_sum id netPnlLamports (buildTrajectorySettlement (p\<lparr>failedAttemptFeesLamports := None\<rparr>)) \<and>
   map_sum id executionCostLamports (buildTrajectorySettlement (p\<lparr>failedAttemptFeesLamports := Some f\<rparr>)) =
   map_sum id (\<lambda>s. executionCostLamports s + f)
     (buildTrajectorySettlement (p\<lparr>failedAttemptFeesLamports := None\<rparr>))"
proof -
  have "pnl_reasons (p\<lparr>failedAttemptFeesLamports := Some f\<rparr>) r = pnl_reasons (p\<lparr>failedAttemptFeesLamports := None\<rparr>) r" for r
    by (cases "p_exit p") (simp_all add: pnl_reasons_def Let_def)
  then show ?thesis
    by (auto simp: buildTrajectorySettlement_def Let_def ebind_def execution_cost_of_def split: sum.splits)
qed

text \<open>The rent a leg locked, and the two numbers of a round trip that depend on it.\<close>

definition net_rent :: "MeasuredLegSettlement \<Rightarrow> int" where
  "net_rent s = rentCreatedLamports (costs s) - rentRecoveredLamports (costs s)"

definition trading_loss :: "int \<Rightarrow> int \<Rightarrow> int" where
  "trading_loss basis net = (if basis \<le> 0 then 0 else js_number (bdiv (- net * 10000) basis))"

lemma immediateRoundTrip_fields:
  assumes "leg_side b = buy" and "leg_side s = sell"
  obtains r where "immediateRoundTrip b s = Inr r"
    and "tradingLossBps r = trading_loss (- payerNativeDeltaLamports b - net_rent b)
      (payerNativeDeltaLamports s + payerNativeDeltaLamports b + (net_rent b + net_rent s))"
    and "netLamports r = payerNativeDeltaLamports s + payerNativeDeltaLamports b"
    and "recoverableRentLamports r = net_rent b + net_rent s"
    and "rt_complete r \<longleftrightarrow> ineligibilities b = [] \<and> ineligibilities s = [] \<and> leg_family b = leg_family s"
  using assms
  by (simp add: immediateRoundTrip_def isPnlEligible_def entryCashOut_def exitCashIn_def Let_def
      trading_loss_def net_rent_def)

lemma immediateRoundTrip_sides:
  assumes "immediateRoundTrip b s = Inr r"
  shows "leg_side b = buy" and "leg_side s = sell"
  using assms
  by (auto simp: immediateRoundTrip_def isPnlEligible_def Let_def entryCashOut_def exitCashIn_def
      elim!: ebind_eq_InrE split: if_splits)

definition lock_rent :: "int \<Rightarrow> MeasuredLegSettlement \<Rightarrow> MeasuredLegSettlement" where
  "lock_rent x s = s\<lparr>payerNativeDeltaLamports := payerNativeDeltaLamports s - x,
     costs := (costs s)\<lparr>rentCreatedLamports := rentCreatedLamports (costs s) + x\<rparr>\<rparr>"

lemma lock_rent_simps [simp]:
  "ineligibilities (lock_rent x l) = ineligibilities l" "leg_family (lock_rent x l) = leg_family l"
  "leg_side (lock_rent x l) = leg_side l" "net_rent (lock_rent x l) = net_rent l + x"
  "payerNativeDeltaLamports (lock_rent x l) = payerNativeDeltaLamports l - x"
  by (simp_all add: lock_rent_def ineligibilities_def net_rent_def)

text \<open>rent is not a trading loss. However much rent is created on either leg and left in the new
  accounts, the trading loss the tradability cap gates on is unchanged to the basis point; the same
  rent lowers the all-in net and is reported as recoverable, and does not affect completeness.\<close>

theorem rent_is_not_trading_loss:
  assumes "immediateRoundTrip b s = Inr r"
  shows "\<exists>r'. immediateRoundTrip (lock_rent x b) (lock_rent y s) = Inr r' \<and>
    tradingLossBps r' = tradingLossBps r \<and> netLamports r' = netLamports r - x - y \<and>
    recoverableRentLamports r' = recoverableRentLamports r + x + y \<and> rt_complete r' = rt_complete r"
proof -
  note sides = immediateRoundTrip_sides [OF assms]
  obtain r1 where r1: "immediateRoundTrip b s = Inr r1"
    "tradingLossBps r1 = trading_loss (- payerNativeDeltaLamports b - net_rent b)
      (payerNativeDeltaLamports s + payerNativeDeltaLamports b + (net_rent b + net_rent s))"
    "netLamports r1 = payerNativeDeltaLamports s + payerNativeDeltaLamports b"
    "recoverableRentLamports r1 = net_rent b + net_rent s"
    "rt_complete r1 \<longleftrightarrow> ineligibilities b = [] \<and> ineligibilities s = [] \<and> leg_family b = leg_family s"
    by (rule immediateRoundTrip_fields [OF sides])
  let ?b = "lock_rent x b" and ?s = "lock_rent y s"
  obtain r2 where r2: "immediateRoundTrip ?b ?s = Inr r2"
    "tradingLossBps r2 = trading_loss (- payerNativeDeltaLamports ?b - net_rent ?b)
      (payerNativeDeltaLamports ?s + payerNativeDeltaLamports ?b + (net_rent ?b + net_rent ?s))"
    "netLamports r2 = payerNativeDeltaLamports ?s + payerNativeDeltaLamports ?b"
    "recoverableRentLamports r2 = net_rent ?b + net_rent ?s"
    "rt_complete r2 \<longleftrightarrow> ineligibilities ?b = [] \<and> ineligibilities ?s = [] \<and> leg_family ?b = leg_family ?s"
    by (rule immediateRoundTrip_fields [of ?b ?s]) (simp_all add: sides)
  have "- payerNativeDeltaLamports ?b - net_rent ?b = - payerNativeDeltaLamports b - net_rent b"
    and "payerNativeDeltaLamports ?s + payerNativeDeltaLamports ?b + (net_rent ?b + net_rent ?s) =
      payerNativeDeltaLamports s + payerNativeDeltaLamports b + (net_rent b + net_rent s)"
    by simp_all
  then have "tradingLossBps r2 = tradingLossBps r1" unfolding r1(2) r2(2) by (simp only:)
  moreover have "r = r1" using assms r1(1) by simp
  ultimately show ?thesis using r1(3-) r2 by auto
qed

theorem rent_is_not_trading_loss_witness:
  "\<exists>r r'. immediateRoundTrip sample_buy (sample_sell None) = Inr r \<and>
    immediateRoundTrip (lock_rent 2039280 sample_buy) (lock_rent 0 (sample_sell None)) = Inr r' \<and>
    tradingLossBps r' = tradingLossBps r \<and> netLamports r' = 984000 - 2039280"
proof -
  have "\<exists>r. immediateRoundTrip sample_buy (sample_sell None) = Inr r \<and> netLamports r = 984000"
    by (simp add: immediateRoundTrip_def sample_trajectory_defs isPnlEligible_def entryCashOut_def
        exitCashIn_def Let_def)
  then obtain r where r: "immediateRoundTrip sample_buy (sample_sell None) = Inr r" "netLamports r = 984000"
    by blast
  show ?thesis using rent_is_not_trading_loss [OF r(1), of 2039280 0] r by auto
qed

end
