(* ===== verification/Accounting.thy ===== *)
theory Accounting
  imports Complex_Main Amounts Signing
begin

text \<open>
  Costs, observations and valuations: \<open>packages/domain/src/accounting.ts\<close> (what a leg costs) and
  \<open>packages/domain/src/execution.ts\<close> (one observation of one route family, what it may claim and
  what it is worth). Rates are doubles in the source; a finite double is a rational, and the
  functions that compute one (\<open>expectedFailureCost\<close>, \<open>failureUpperBound\<close>,
  \<open>sizingFailureCost\<close>) are left out. Detail strings and the SHA-256 of \<open>routePlanHash\<close> are left
  out as well.
\<close>

section \<open>Leg costs\<close>

record LegCosts =
  lc_signatureFeeLamports :: int
  lc_priorityFeeLamports :: int
  lc_ataRentLamports :: int
  lc_broadcasterTipLamports :: int
  lc_platformFeeLamports :: "int option"

datatype failure_basis = observed | upper_confidence_bound | assumed_zero | unknown_basis

record ExpectedFailureCost =
  probability :: rat
  conditionalLamports :: int
  expectedFailureCostLamports :: int
  basis :: failure_basis

datatype missing_cost =
    platform_fee_not_reported | failure_probability_unknown | transfer_fee_not_observed

record LegQuote =
  fixedCostLamports :: int
  lq_lockedCapitalLamports :: int
  expectedFailureLamports :: int
  lq_totalCostLamports :: int
  lq_complete :: bool
  lq_missing :: "missing_cost list"

definition quoteLeg :: "LegCosts \<Rightarrow> ExpectedFailureCost \<Rightarrow> LegQuote" where
  "quoteLeg c failure =
    (let missing =
           (if lc_platformFeeLamports c = None then [platform_fee_not_reported] else []) @
           (if basis failure = unknown_basis then [failure_probability_unknown] else []);
         fixed = lc_signatureFeeLamports c + lc_priorityFeeLamports c + lc_broadcasterTipLamports c +
           nullish (lc_platformFeeLamports c) 0
     in \<lparr>fixedCostLamports = fixed, lq_lockedCapitalLamports = lc_ataRentLamports c,
         expectedFailureLamports = expectedFailureCostLamports failure,
         lq_totalCostLamports = fixed + expectedFailureCostLamports failure,
         lq_complete = (missing = []), lq_missing = missing\<rparr>)"

record RoundTrip =
  rt_entry :: LegQuote
  rt_exit :: LegQuote
  closesAtaInExitTransaction :: bool
  ataRentRecovered :: bool

datatype missing_leg = missing_entry missing_cost | missing_exit missing_cost

record RoundTripCost =
  rc_totalCostLamports :: int
  unrecoveredRentLamports :: int
  rc_complete :: bool
  rc_missing :: "missing_leg list"

definition quoteRoundTrip :: "RoundTrip \<Rightarrow> RoundTripCost" where
  "quoteRoundTrip rt =
    (let missing = map missing_entry (lq_missing (rt_entry rt)) @ map missing_exit (lq_missing (rt_exit rt));
         unrecovered = (if ataRentRecovered rt then 0 else lq_lockedCapitalLamports (rt_entry rt))
     in \<lparr>rc_totalCostLamports = lq_totalCostLamports (rt_entry rt) + lq_totalCostLamports (rt_exit rt) + unrecovered,
         unrecoveredRentLamports = unrecovered,
         rc_complete = (lq_complete (rt_entry rt) \<and> lq_complete (rt_exit rt)),
         rc_missing = missing\<rparr>)"

definition costBps :: "int \<Rightarrow> int \<Rightarrow> int option" where
  "costBps costLamports notionalLamports =
    (if notionalLamports \<le> 0 then None
     else Some (js_number (bdiv (costLamports * 10000 + notionalLamports - 1) notionalLamports)))"

section \<open>Cash flows\<close>

record EntryCashFlow =
  ef_inputLamports :: int
  ef_baseFeeLamports :: int
  ef_priorityFeeLamports :: int
  ef_routeTipLamports :: int
  ef_rentCreatedLamports :: int
  ef_transferFeeLamports :: "int option"
  ef_platformFeeLamports :: "int option"
  ef_failure :: ExpectedFailureCost

record CashFlowResult =
  cashLamports :: int
  lockedCapitalLamports :: int
  spentLamports :: int
  cf_complete :: bool
  cf_missing :: "missing_cost list"

definition entryCashOut :: "EntryCashFlow \<Rightarrow> CashFlowResult" where
  "entryCashOut f =
    (let missing =
           (if ef_transferFeeLamports f = None then [transfer_fee_not_observed] else []) @
           (if ef_platformFeeLamports f = None then [platform_fee_not_reported] else []) @
           (if basis (ef_failure f) = unknown_basis then [failure_probability_unknown] else []);
         cash = ef_inputLamports f + ef_baseFeeLamports f + ef_priorityFeeLamports f +
           ef_routeTipLamports f + ef_rentCreatedLamports f + nullish (ef_transferFeeLamports f) 0 +
           nullish (ef_platformFeeLamports f) 0 + expectedFailureCostLamports (ef_failure f)
     in \<lparr>cashLamports = cash, lockedCapitalLamports = ef_rentCreatedLamports f,
         spentLamports = cash - ef_rentCreatedLamports f,
         cf_complete = (missing = []), cf_missing = missing\<rparr>)"

record ExitCashFlow =
  xf_outputLamports :: int
  xf_baseFeeLamports :: int
  xf_priorityFeeLamports :: int
  xf_routeTipLamports :: int
  xf_transferFeeLamports :: "int option"
  separateCloseTransaction :: bool
  xf_rentRecoveredLamports :: int
  xf_failure :: ExpectedFailureCost

definition exitCashIn :: "ExitCashFlow \<Rightarrow> CashFlowResult" where
  "exitCashIn f =
    (let missing =
           (if xf_transferFeeLamports f = None then [transfer_fee_not_observed] else []) @
           (if basis (xf_failure f) = unknown_basis then [failure_probability_unknown] else []);
         closeFee = (if separateCloseTransaction f then xf_baseFeeLamports f else 0);
         cash = xf_outputLamports f - xf_baseFeeLamports f - xf_priorityFeeLamports f -
           xf_routeTipLamports f - nullish (xf_transferFeeLamports f) 0 - closeFee -
           expectedFailureCostLamports (xf_failure f) + xf_rentRecoveredLamports f
     in \<lparr>cashLamports = cash, lockedCapitalLamports = 0, spentLamports = cash,
         cf_complete = (missing = []), cf_missing = missing\<rparr>)"

section \<open>Route families\<close>

datatype RouteFamily = ORDER_EXECUTE | BUILD_CUSTOM | DIRECT_VENUE | QUOTE_ONLY_BENCHMARK

record FamilyContract =
  fc_family :: RouteFamily
  pnlEligible :: bool
  feeIncludedInAmounts :: bool
  submitViaExecute :: bool

fun FAMILY_CONTRACTS :: "RouteFamily \<Rightarrow> FamilyContract" where
  "FAMILY_CONTRACTS ORDER_EXECUTE = \<lparr>fc_family = ORDER_EXECUTE, pnlEligible = False,
     feeIncludedInAmounts = True, submitViaExecute = True\<rparr>"
| "FAMILY_CONTRACTS BUILD_CUSTOM = \<lparr>fc_family = BUILD_CUSTOM, pnlEligible = True,
     feeIncludedInAmounts = False, submitViaExecute = False\<rparr>"
| "FAMILY_CONTRACTS DIRECT_VENUE = \<lparr>fc_family = DIRECT_VENUE, pnlEligible = False,
     feeIncludedInAmounts = False, submitViaExecute = False\<rparr>"
| "FAMILY_CONTRACTS QUOTE_ONLY_BENCHMARK = \<lparr>fc_family = QUOTE_ONLY_BENCHMARK, pnlEligible = False,
     feeIncludedInAmounts = True, submitViaExecute = False\<rparr>"

section \<open>Failures to observe\<close>

datatype ObservationFailure =
    NO_ROUTE | HTTP_429 | HTTP_4XX | HTTP_5XX | TIMEOUT | SCHEMA_DRIFT | PARSER_ERROR
  | POLICY_REFUSAL | SIMULATION_FAILURE | EXPIRED | MISSING_MINIMUM_OUTPUT | MISSING_BLOCKHASH
  | MISSING_EXPIRY | MISSING_ROUTE_PLAN | MISSING_SWAP_INSTRUCTION | MISSING_LOOKUP_TABLE
  | MISSING_CONTEXT_SLOT | AMOUNT_MISMATCH | MINT_MISMATCH | UNKNOWN_FAILURE

definition isProviderFailure :: "ObservationFailure \<Rightarrow> bool" where
  "isProviderFailure f = (f = HTTP_429 \<or> f = HTTP_4XX \<or> f = HTTP_5XX \<or> f = TIMEOUT \<or> f = SCHEMA_DRIFT)"

definition isTokenFact :: "ObservationFailure \<Rightarrow> bool" where
  "isTokenFact f = (f = NO_ROUTE)"

text \<open>\<open>f.startsWith('MISSING_')\<close> on the literals of the union type.\<close>

definition starts_with_MISSING :: "ObservationFailure \<Rightarrow> bool" where
  "starts_with_MISSING f = (f \<in> {MISSING_MINIMUM_OUTPUT, MISSING_BLOCKHASH, MISSING_EXPIRY,
     MISSING_ROUTE_PLAN, MISSING_SWAP_INSTRUCTION, MISSING_LOOKUP_TABLE, MISSING_CONTEXT_SLOT})"

definition isIncompleteBuild :: "ObservationFailure \<Rightarrow> bool" where
  "isIncompleteBuild f = (starts_with_MISSING f \<or> f = AMOUNT_MISMATCH \<or> f = MINT_MISMATCH)"

record BuildFields =
  bf_inputMint :: "string option"
  bf_outputMint :: "string option"
  inAmount :: "int option"
  outAmount :: "int option"
  otherAmountThreshold :: "int option"
  routePlanEntries :: int
  bf_instructionCount :: int
  hasSwapInstruction :: bool
  lookupTablesResolved :: bool
  bf_blockhash :: "string option"
  bf_lastValidBlockHeight :: "int option"
  bf_contextSlot :: "int option"

record BuildExpectation =
  want_inputMint :: string
  want_outputMint :: string
  requestedBuildAmount :: int

definition not_positive :: "int option \<Rightarrow> bool" where
  "not_positive v = (case v of None \<Rightarrow> True | Some n \<Rightarrow> n \<le> 0)"

definition missingBuildField :: "BuildFields \<Rightarrow> BuildExpectation \<Rightarrow> ObservationFailure option" where
  "missingBuildField f want =
    (if bf_inputMint f = None \<or> bf_outputMint f = None then Some MINT_MISMATCH
     else if bf_inputMint f \<noteq> Some (want_inputMint want) \<or> bf_outputMint f \<noteq> Some (want_outputMint want)
     then Some MINT_MISMATCH
     else if inAmount f = None then Some AMOUNT_MISMATCH
     else if inAmount f \<noteq> Some (requestedBuildAmount want) then Some AMOUNT_MISMATCH
     else if not_positive (outAmount f) then Some MISSING_MINIMUM_OUTPUT
     else if not_positive (otherAmountThreshold f) then Some MISSING_MINIMUM_OUTPUT
     else if routePlanEntries f \<le> 0 then Some MISSING_ROUTE_PLAN
     else if \<not> hasSwapInstruction f \<or> bf_instructionCount f \<le> 0 then Some MISSING_SWAP_INSTRUCTION
     else if \<not> lookupTablesResolved f then Some MISSING_LOOKUP_TABLE
     else if bf_blockhash f = None \<or> bf_blockhash f = Some [] then Some MISSING_BLOCKHASH
     else if not_positive (bf_lastValidBlockHeight f) then Some MISSING_EXPIRY
     else None)"

section \<open>Observations\<close>

datatype PolicyOutcome = PASS | FAIL | NOT_RUN
datatype SimulationOutcome = SIMULATED_OK | SIMULATION_FAILED | NOT_SIMULATED
datatype SimulationEffectOutcome = SIMULATED_EFFECT_OK | EFFECT_REFUSED | NOT_VERIFIED

record ExecutionObservation =
  observationId :: string
  family :: RouteFamily
  ob_mint :: string
  ob_side :: side
  ob_inputMint :: string
  ob_outputMint :: string
  requestedAmount :: int
  expectedOutput :: int
  minimumOutput :: int
  slippageBps :: int
  platformFeeBps :: "int option"
  platformFeeAmount :: "int option"
  platformFeeMint :: "string option"
  ob_signatureFeeLamports :: "int option"
  prioritizationFeeLamports :: "int option"
  rentFeeLamports :: "int option"
  ob_broadcasterTipLamports :: "int option"
  routePlanHash :: string
  routeLabels :: "string list"
  instructionSetHash :: "string option"
  instructionCount :: "int option"
  computeUnitLimit :: "int option"
  transactionBytes :: "int option"
  lastValidBlockHeight :: "int option"
  expireAt :: "int option"
  contextSlot :: "int option"
  rawPayloadHash :: "string option"
  endpoint :: string
  requestId :: "string option"
  instructionPolicy :: PolicyOutcome
  transactionPolicy :: PolicyOutcome
  simulation :: SimulationOutcome
  simulationEffect :: "SimulationEffectOutcome option"
  policyDetail :: "string option"
  simulationDetail :: "string option"
  requestedUtcMs :: int
  receivedUtcMs :: int
  latencyMs :: int
  contextHash :: "string option"

datatype RouteHybrid = different_ids string string | different_families RouteFamily RouteFamily
  | different_amounts int int | different_plans | different_slots "int option" "int option"

definition assertCoherent :: "ExecutionObservation \<Rightarrow> ExecutionObservation \<Rightarrow> RouteHybrid + unit" where
  "assertCoherent a b =
    (if observationId a \<noteq> observationId b then Inl (different_ids (observationId a) (observationId b))
     else if family a \<noteq> family b then Inl (different_families (family a) (family b))
     else if requestedAmount a \<noteq> requestedAmount b then Inl (different_amounts (requestedAmount a) (requestedAmount b))
     else if routePlanHash a \<noteq> routePlanHash b then Inl different_plans
     else if contextSlot a \<noteq> contextSlot b then Inl (different_slots (contextSlot a) (contextSlot b))
     else Inr ())"

datatype leg_reason =
    family_never_eligible RouteFamily | instruction_policy PolicyOutcome
  | transaction_policy PolicyOutcome | simulation_outcome SimulationOutcome
  | simulation_effect SimulationEffectOutcome | no_instruction_set | no_raw_payload
  | no_expected_output | no_minimum_output | no_expiry | no_instructions | no_packet_size
  | no_context_slot

text \<open>The argument \<open>req\<close> is the flag \<open>requireLocalSimulation\<close> of \<open>LegRequirements\<close>.\<close>

definition leg_reasons :: "ExecutionObservation \<Rightarrow> bool \<Rightarrow> leg_reason list" where
  "leg_reasons ob req =
    (let effect = nullish (simulationEffect ob) NOT_VERIFIED in
     (if \<not> pnlEligible (FAMILY_CONTRACTS (family ob)) then [family_never_eligible (family ob)] else []) @
     (if instructionPolicy ob \<noteq> PASS then [instruction_policy (instructionPolicy ob)] else []) @
     (if transactionPolicy ob \<noteq> PASS then [transaction_policy (transactionPolicy ob)] else []) @
     (if req \<and> simulation ob \<noteq> SIMULATED_OK then [simulation_outcome (simulation ob)] else []) @
     (if req \<and> effect \<noteq> SIMULATED_EFFECT_OK then [simulation_effect effect] else []) @
     (if instructionSetHash ob = None then [no_instruction_set] else []) @
     (if rawPayloadHash ob = None then [no_raw_payload] else []) @
     (if expectedOutput ob \<le> 0 then [no_expected_output] else []) @
     (if minimumOutput ob \<le> 0 then [no_minimum_output] else []) @
     (if lastValidBlockHeight ob = None then [no_expiry] else []) @
     (if not_positive (instructionCount ob) then [no_instructions] else []) @
     (if transactionBytes ob = None then [no_packet_size] else []))"

definition legIsExecutable :: "ExecutionObservation \<Rightarrow> bool \<Rightarrow> bool \<times> leg_reason list" where
  "legIsExecutable ob req = (let reasons = leg_reasons ob req in (reasons = [], reasons))"

definition legIsConfirmatory :: "ExecutionObservation \<Rightarrow> bool \<times> leg_reason list" where
  "legIsConfirmatory ob =
    (let reasons = snd (legIsExecutable ob True) @ (if contextSlot ob = None then [no_context_slot] else [])
     in (reasons = [], reasons))"

section \<open>Outputs and valuations\<close>

definition netExpectedOutput :: "ExecutionObservation \<Rightarrow> int" where
  "netExpectedOutput ob =
    (if feeIncludedInAmounts (FAMILY_CONTRACTS (family ob)) then expectedOutput ob
     else case platformFeeAmount ob of
       Some fee \<Rightarrow> expectedOutput ob - fee
     | None \<Rightarrow> (case platformFeeBps ob of
         Some bps \<Rightarrow> if bps > 0 then bdiv (expectedOutput ob * (10000 - bps)) 10000 else expectedOutput ob
       | None \<Rightarrow> expectedOutput ob))"

definition netMinimumOutput :: "ExecutionObservation \<Rightarrow> int" where
  "netMinimumOutput ob =
    (if feeIncludedInAmounts (FAMILY_CONTRACTS (family ob)) then minimumOutput ob
     else case platformFeeBps ob of
         Some bps \<Rightarrow> if bps > 0 then bdiv (minimumOutput ob * (10000 - bps)) 10000 else minimumOutput ob
       | None \<Rightarrow> minimumOutput ob)"

record Valuations =
  v_expectedOutput :: int
  minimumOutputStress :: int
  latencyStressedOutput :: int

definition valuations :: "ExecutionObservation \<Rightarrow> int \<Rightarrow> Valuations" where
  "valuations ob latencyStressBps =
    (let expected = netExpectedOutput ob in
     \<lparr>v_expectedOutput = expected, minimumOutputStress = netMinimumOutput ob,
      latencyStressedOutput = bdiv (expected * (10000 - latencyStressBps)) 10000\<rparr>)"

section \<open>Entry and exit totals\<close>

record EntryCosts =
  ec_inputLamports :: int
  ec_signatureFeeLamports :: int
  ec_priorityFeeLamports :: int
  ec_broadcasterTipLamports :: int
  ataRentLamports :: int
  ec_transferFeeLamports :: int
  ec_platformFeeLamports :: int
  ec_assumedFailedAttemptLamports :: int

definition assumed_failure :: "int \<Rightarrow> ExpectedFailureCost" where
  "assumed_failure l = \<lparr>probability = 1, conditionalLamports = l, expectedFailureCostLamports = l,
     basis = assumed_zero\<rparr>"

definition totalEntryCost :: "EntryCosts \<Rightarrow> int" where
  "totalEntryCost c = cashLamports (entryCashOut
     \<lparr>ef_inputLamports = ec_inputLamports c, ef_baseFeeLamports = ec_signatureFeeLamports c,
      ef_priorityFeeLamports = ec_priorityFeeLamports c, ef_routeTipLamports = ec_broadcasterTipLamports c,
      ef_rentCreatedLamports = ataRentLamports c, ef_transferFeeLamports = Some (ec_transferFeeLamports c),
      ef_platformFeeLamports = Some (ec_platformFeeLamports c),
      ef_failure = assumed_failure (ec_assumedFailedAttemptLamports c)\<rparr>)"

record ExitCosts =
  grossProceedsLamports :: int
  xc_signatureFeeLamports :: int
  xc_priorityFeeLamports :: int
  xc_broadcasterTipLamports :: int
  xc_transferFeeLamports :: int
  closeAccountFeeLamports :: int
  xc_assumedFailedAttemptLamports :: int
  ataRentRecoveredLamports :: int

definition netExitProceeds :: "ExitCosts \<Rightarrow> int" where
  "netExitProceeds c =
    (let base = cashLamports (exitCashIn
       \<lparr>xf_outputLamports = grossProceedsLamports c, xf_baseFeeLamports = xc_signatureFeeLamports c,
        xf_priorityFeeLamports = xc_priorityFeeLamports c, xf_routeTipLamports = xc_broadcasterTipLamports c,
        xf_transferFeeLamports = Some (xc_transferFeeLamports c), separateCloseTransaction = False,
        xf_rentRecoveredLamports = ataRentRecoveredLamports c,
        xf_failure = assumed_failure (xc_assumedFailedAttemptLamports c)\<rparr>)
     in base - closeAccountFeeLamports c)"

section \<open>Lemmas\<close>

lemma bdiv_fraction_bounds:
  assumes "0 \<le> n" and "0 \<le> b" and "b \<le> 10000"
  shows "0 \<le> bdiv (n * (10000 - b)) 10000" and "bdiv (n * (10000 - b)) 10000 \<le> n"
proof -
  have nn: "0 \<le> n * (10000 - b)" using assms by simp
  have "n * (10000 - b) \<le> n * 10000" using assms by (intro mult_left_mono) simp_all
  then have "n * (10000 - b) div 10000 \<le> n * 10000 div 10000" by (intro zdiv_mono1) simp_all
  then show "bdiv (n * (10000 - b)) 10000 \<le> n" using nn by (simp add: bdiv_nonneg)
  show "0 \<le> bdiv (n * (10000 - b)) 10000"
    using nn by (simp add: bdiv_nonneg pos_imp_zdiv_nonneg_iff)
qed

lemma bdiv_fraction_mono:
  assumes "0 \<le> m" and "m \<le> n" and "0 \<le> b" and "b \<le> 10000"
  shows "bdiv (m * (10000 - b)) 10000 \<le> bdiv (n * (10000 - b)) 10000"
proof -
  have "m * (10000 - b) \<le> n * (10000 - b)" using assms by (intro mult_right_mono) simp_all
  then show ?thesis using assms by (simp add: bdiv_nonneg zdiv_mono1)
qed

lemma assertCoherent_iff: "assertCoherent a b = Inr () \<longleftrightarrow>
    observationId a = observationId b \<and> family a = family b \<and> requestedAmount a = requestedAmount b \<and>
    routePlanHash a = routePlanHash b \<and> contextSlot a = contextSlot b"
  by (simp add: assertCoherent_def)

lemma leg_reasons_weaker: "set (leg_reasons ob req) \<subseteq> set (leg_reasons ob True)"
  by (auto simp: leg_reasons_def Let_def)

lemma netMinimum_le_netExpected:
  assumes "platformFeeAmount ob = None" and "0 \<le> minimumOutput ob" and "minimumOutput ob \<le> expectedOutput ob"
    and "nullish (platformFeeBps ob) 0 \<le> 10000"
  shows "0 \<le> netMinimumOutput ob" and "netMinimumOutput ob \<le> netExpectedOutput ob"
    and "netExpectedOutput ob \<le> expectedOutput ob"
  using assms bdiv_fraction_bounds [of "minimumOutput ob"] bdiv_fraction_bounds [of "expectedOutput ob"]
    bdiv_fraction_mono [of "minimumOutput ob" "expectedOutput ob"]
  by (cases "platformFeeBps ob"; simp add: netMinimumOutput_def netExpectedOutput_def)+

section \<open>Properties\<close>

definition entry_flow :: "LegCosts \<Rightarrow> ExpectedFailureCost \<Rightarrow> int \<Rightarrow> int option \<Rightarrow> EntryCashFlow" where
  "entry_flow c failure input fee =
     \<lparr>ef_inputLamports = input, ef_baseFeeLamports = lc_signatureFeeLamports c,
      ef_priorityFeeLamports = lc_priorityFeeLamports c, ef_routeTipLamports = lc_broadcasterTipLamports c,
      ef_rentCreatedLamports = lc_ataRentLamports c, ef_transferFeeLamports = fee,
      ef_platformFeeLamports = lc_platformFeeLamports c, ef_failure = failure\<rparr>"

definition exit_flow :: "LegCosts \<Rightarrow> ExpectedFailureCost \<Rightarrow> int \<Rightarrow> int option \<Rightarrow> int \<Rightarrow> ExitCashFlow" where
  "exit_flow c failure output fee rent =
     \<lparr>xf_outputLamports = output, xf_baseFeeLamports = lc_signatureFeeLamports c,
      xf_priorityFeeLamports = lc_priorityFeeLamports c, xf_routeTipLamports = lc_broadcasterTipLamports c,
      xf_transferFeeLamports = fee, separateCloseTransaction = False, xf_rentRecoveredLamports = rent,
      xf_failure = failure\<rparr>"

text \<open>no cost appears in one path and disappears in another. For the same costs and the same
  expected failure cost, the priced leg and the cash flows agree term by term: the cash of an
  entry is its input plus the leg's total, its locked rent and the transfer fee, it is incomplete
  whenever the priced leg is, and the cash of an exit is its output minus the leg's total (a
  platform fee, which an exit's flow has no field for, apart) and the transfer fee, plus the
  rent that came back.\<close>

theorem priced_leg_agrees_with_cash_flow:
  "cashLamports (entryCashOut (entry_flow c failure input fee)) =
     input + lq_totalCostLamports (quoteLeg c failure) + lq_lockedCapitalLamports (quoteLeg c failure) + nullish fee 0 \<and>
   spentLamports (entryCashOut (entry_flow c failure input fee)) +
     lockedCapitalLamports (entryCashOut (entry_flow c failure input fee)) =
     cashLamports (entryCashOut (entry_flow c failure input fee)) \<and>
   cf_complete (entryCashOut (entry_flow c failure input fee)) =
     (lq_complete (quoteLeg c failure) \<and> fee \<noteq> None) \<and>
   cashLamports (exitCashIn (exit_flow c failure output fee rent)) =
     output - (lq_totalCostLamports (quoteLeg c failure) - nullish (lc_platformFeeLamports c) 0) - nullish fee 0 + rent"
  by (auto simp: entry_flow_def exit_flow_def entryCashOut_def exitCashIn_def quoteLeg_def Let_def)

text \<open>the profit of a round trip through the legacy functions is proceeds minus input minus every
  cost once: nothing that \<open>totalEntryCost\<close> or \<open>netExitProceeds\<close> is given is dropped, doubled or
  taken with the wrong sign when they delegate.\<close>

theorem round_trip_totals:
  "netExitProceeds x - totalEntryCost c =
     grossProceedsLamports x - ec_inputLamports c
     - (ec_signatureFeeLamports c + xc_signatureFeeLamports x)
     - (ec_priorityFeeLamports c + xc_priorityFeeLamports x)
     - (ec_broadcasterTipLamports c + xc_broadcasterTipLamports x)
     - (ec_transferFeeLamports c + xc_transferFeeLamports x)
     - (ec_assumedFailedAttemptLamports c + xc_assumedFailedAttemptLamports x)
     - ec_platformFeeLamports c - closeAccountFeeLamports x
     - (ataRentLamports c - ataRentRecoveredLamports x)"
  by (simp add: totalEntryCost_def netExitProceeds_def entryCashOut_def exitCashIn_def
      assumed_failure_def Let_def)

text \<open>a build that is refused is refused as an incomplete build. Every failure
  \<open>missingBuildField\<close> reports is neither a provider outage nor a fact about the token, the three
  classes never overlap, and it reports none exactly when both mints and the amount are those
  requested and every load-bearing field is present and positive.\<close>

theorem build_refusal_classified:
  "(isIncompleteBuild r \<longrightarrow> \<not> isProviderFailure r \<and> \<not> isTokenFact r) \<and>
   (isProviderFailure r \<longrightarrow> \<not> isTokenFact r) \<and>
   (case missingBuildField f want of Some m \<Rightarrow> isIncompleteBuild m | None \<Rightarrow> True) \<and>
   (missingBuildField f want = None \<longleftrightarrow>
     bf_inputMint f = Some (want_inputMint want) \<and> bf_outputMint f = Some (want_outputMint want) \<and>
     inAmount f = Some (requestedBuildAmount want) \<and>
     0 < nullish (outAmount f) 0 \<and> 0 < nullish (otherAmountThreshold f) 0 \<and>
     0 < routePlanEntries f \<and> hasSwapInstruction f \<and> 0 < bf_instructionCount f \<and>
     lookupTablesResolved f \<and> nullish (bf_blockhash f) [] \<noteq> [] \<and>
     0 < nullish (bf_lastValidBlockHeight f) 0)"
proof -
  have pos: "not_positive v \<longleftrightarrow> \<not> 0 < nullish v 0" for v
    by (cases v) (auto simp: not_positive_def)
  have hash: "(h = None \<or> h = Some []) \<longleftrightarrow> nullish h [] = []" for h :: "string option"
    by (cases h) auto
  have classes: "(isIncompleteBuild r \<longrightarrow> \<not> isProviderFailure r \<and> \<not> isTokenFact r) \<and>
      (isProviderFailure r \<longrightarrow> \<not> isTokenFact r)"
    by (auto simp: isIncompleteBuild_def starts_with_MISSING_def isProviderFailure_def isTokenFact_def)
  have reported: "(case missingBuildField f want of Some m \<Rightarrow> isIncompleteBuild m | None \<Rightarrow> True)"
    by (simp add: missingBuildField_def isIncompleteBuild_def starts_with_MISSING_def)
  have none: "missingBuildField f want = None \<longleftrightarrow>
     bf_inputMint f = Some (want_inputMint want) \<and> bf_outputMint f = Some (want_outputMint want) \<and>
     inAmount f = Some (requestedBuildAmount want) \<and>
     0 < nullish (outAmount f) 0 \<and> 0 < nullish (otherAmountThreshold f) 0 \<and>
     0 < routePlanEntries f \<and> hasSwapInstruction f \<and> 0 < bf_instructionCount f \<and>
     lookupTablesResolved f \<and> nullish (bf_blockhash f) [] \<noteq> [] \<and>
     0 < nullish (bf_lastValidBlockHeight f) 0"
    unfolding missingBuildField_def pos hash by auto
  show ?thesis using classes reported none by blast
qed

theorem build_refusal_classified_witness:
  "isIncompleteBuild MISSING_EXPIRY \<and> \<not> isProviderFailure MISSING_EXPIRY \<and> \<not> isTokenFact MISSING_EXPIRY"
proof -
  have "isIncompleteBuild MISSING_EXPIRY" by (simp add: isIncompleteBuild_def starts_with_MISSING_def)
  then show ?thesis using build_refusal_classified [of MISSING_EXPIRY] by blast
qed

text \<open>confirmatory evidence is executable whatever the operator configured. An observation graded
  confirmatory backs an executable leg with and without the local-simulation requirement, was
  simulated with a verified effect, belongs to the one PnL-eligible family, and carries
  the slot it can be replayed at.\<close>

theorem confirmatory_is_executable:
  assumes "fst (legIsConfirmatory ob)"
  shows "fst (legIsExecutable ob req) \<and> simulation ob = SIMULATED_OK \<and>
    simulationEffect ob = Some SIMULATED_EFFECT_OK \<and> family ob = BUILD_CUSTOM \<and>
    contextSlot ob \<noteq> None \<and> 0 < minimumOutput ob \<and> 0 < expectedOutput ob"
proof -
  have none: "leg_reasons ob True = []" and slot: "contextSlot ob \<noteq> None"
    using assms by (simp_all add: legIsConfirmatory_def legIsExecutable_def Let_def split: if_splits)
  have "family ob = BUILD_CUSTOM"
    using none by (cases "family ob") (simp_all add: leg_reasons_def Let_def)
  moreover have "simulationEffect ob = Some SIMULATED_EFFECT_OK"
    using none by (cases "simulationEffect ob") (simp_all add: leg_reasons_def Let_def split: if_splits)
  moreover have "leg_reasons ob req = []" using leg_reasons_weaker [of ob req] none by simp
  moreover have "simulation ob = SIMULATED_OK" "0 < minimumOutput ob" "0 < expectedOutput ob"
    using none by (simp_all add: leg_reasons_def Let_def split: if_splits)
  ultimately show ?thesis using slot by (simp add: legIsExecutable_def Let_def)
qed

definition sample_observation :: ExecutionObservation where
  "sample_observation = \<lparr>observationId = ''o'', family = BUILD_CUSTOM, ob_mint = ''m'', ob_side = buy,
     ob_inputMint = ''s'', ob_outputMint = ''m'', requestedAmount = 20000000, expectedOutput = 1000,
     minimumOutput = 970, slippageBps = 300, platformFeeBps = None, platformFeeAmount = None,
     platformFeeMint = None, ob_signatureFeeLamports = None, prioritizationFeeLamports = None,
     rentFeeLamports = None, ob_broadcasterTipLamports = None, routePlanHash = ''h'', routeLabels = [],
     instructionSetHash = Some ''i'', instructionCount = Some 4, computeUnitLimit = None,
     transactionBytes = Some 900, lastValidBlockHeight = Some 1, expireAt = None, contextSlot = Some 7,
     rawPayloadHash = Some ''r'', endpoint = ''build'', requestId = None, instructionPolicy = PASS,
     transactionPolicy = PASS, simulation = SIMULATED_OK, simulationEffect = Some SIMULATED_EFFECT_OK,
     policyDetail = None, simulationDetail = None, requestedUtcMs = 0, receivedUtcMs = 0,
     latencyMs = 0, contextHash = None\<rparr>"

theorem confirmatory_is_executable_witness:
  "fst (legIsConfirmatory sample_observation) \<and> fst (legIsExecutable sample_observation False)"
proof -
  have "fst (legIsConfirmatory sample_observation)"
    by (simp add: legIsConfirmatory_def legIsExecutable_def leg_reasons_def sample_observation_def
        not_positive_def Let_def)
  then show ?thesis using confirmatory_is_executable [of sample_observation False] by blast
qed

text \<open>coherence is identity of the trade. Two observations pass \<open>assertCoherent\<close> exactly when they
  agree on the five identity fields, so the check is symmetric and transitive, and coherent
  observations have the same family contract: a chain of pairwise checks cannot blend two
  routes.\<close>

theorem coherence_is_equivalence:
  "assertCoherent a a = Inr () \<and>
   (assertCoherent a b = Inr () \<longleftrightarrow> assertCoherent b a = Inr ()) \<and>
   (assertCoherent a b = Inr () \<longrightarrow> assertCoherent b c = Inr () \<longrightarrow> assertCoherent a c = Inr ()) \<and>
   (assertCoherent a b = Inr () \<longleftrightarrow>
     (observationId a, family a, requestedAmount a, routePlanHash a, contextSlot a) =
     (observationId b, family b, requestedAmount b, routePlanHash b, contextSlot b))"
  by (auto simp: assertCoherent_iff)

theorem coherence_is_equivalence_witness:
  "assertCoherent sample_observation sample_observation = Inr () \<and>
   assertCoherent sample_observation (sample_observation\<lparr>latencyMs := 5\<rparr>) = Inr ()"
  using coherence_is_equivalence [of sample_observation "sample_observation\<lparr>latencyMs := 5\<rparr>" sample_observation]
  by simp

text \<open>the three valuations are ordered when the fee is a rate. Without an explicit fee amount, for
  a minimum between zero and the expected output and rates up to 100 percent, the stressed
  valuations are nonnegative and at most the net expected output, which is at most the gross one:
  the fee is taken at most once and never in the wrong direction.\<close>

theorem valuations_ordered:
  assumes "platformFeeAmount ob = None" and "0 \<le> minimumOutput ob" and "minimumOutput ob \<le> expectedOutput ob"
    and "nullish (platformFeeBps ob) 0 \<le> 10000" and "0 \<le> stress" and "stress \<le> 10000"
  shows "0 \<le> minimumOutputStress (valuations ob stress) \<and>
    minimumOutputStress (valuations ob stress) \<le> v_expectedOutput (valuations ob stress) \<and>
    0 \<le> latencyStressedOutput (valuations ob stress) \<and>
    latencyStressedOutput (valuations ob stress) \<le> v_expectedOutput (valuations ob stress) \<and>
    v_expectedOutput (valuations ob stress) \<le> expectedOutput ob"
  using netMinimum_le_netExpected [OF assms(1-4)] bdiv_fraction_bounds [OF _ assms(5,6), of "netExpectedOutput ob"]
  by (simp add: valuations_def Let_def)

theorem valuations_ordered_witness:
  "minimumOutputStress (valuations sample_observation 100) = 970 \<and>
   v_expectedOutput (valuations sample_observation 100) = 1000 \<and>
   0 \<le> latencyStressedOutput (valuations sample_observation 100)"
  using valuations_ordered [of sample_observation 100]
  by (simp add: sample_observation_def valuations_def netMinimumOutput_def netExpectedOutput_def Let_def)

text \<open>with an explicit fee amount the worst case can exceed the expected one. When a response of the
  PnL-eligible family reports its fee as an amount, \<open>netExpectedOutput\<close> takes it off and
  \<open>netMinimumOutput\<close> does not, so for every fee above the gap between expected and minimum output
  the stress valuation is larger than the base valuation.\<close>

theorem stress_above_expected:
  "minimumOutputStress (valuations (sample_observation\<lparr>platformFeeAmount := Some (30 + fee)\<rparr>) 100) =
   v_expectedOutput (valuations (sample_observation\<lparr>platformFeeAmount := Some (30 + fee)\<rparr>) 100) + fee"
  by (simp add: sample_observation_def valuations_def netMinimumOutput_def netExpectedOutput_def Let_def)

text \<open>a cost in basis points is rounded up and by less than one. For a nonnegative cost and a
  positive notional whose ratio fits a double exactly, \<open>costBps\<close> returns a number that covers the
  cost and would not if it were one smaller; for any other notional it returns null.\<close>

theorem costBps_rounds_up:
  assumes "0 \<le> costL" and "0 < notional" and "costL * 10000 + notional < 2 ^ 53"
  shows "\<exists>b. costBps costL notional = Some b \<and> costL * 10000 \<le> b * notional \<and>
    (b - 1) * notional < costL * 10000"
proof -
  let ?n = "costL * 10000 + (notional - 1)" and ?b = "(costL * 10000 + (notional - 1)) div notional"
  have nn: "0 \<le> ?n" using assms by simp
  have "?b \<le> ?n" using nn assms(2) by (metis div_by_1 zdiv_mono2 zero_less_one int_one_le_iff_zero_less)
  moreover have "0 \<le> ?b" using nn assms(2) by (simp add: pos_imp_zdiv_nonneg_iff)
  ultimately have exact: "js_number ?b = ?b" using assms(3) by (intro js_number_exact) linarith
  have "bdiv (costL * 10000 + notional - 1) notional = ?b"
    using nn assms(2) by (simp add: bdiv_nonneg algebra_simps)
  then have eq: "costBps costL notional = Some ?b" using assms(2) exact by (simp add: costBps_def)
  have "costL * 10000 \<le> ?b * notional" and "?b * notional < costL * 10000 + notional"
    using ceil_div_bounds [of "costL * 10000" notional] assms by simp_all
  then show ?thesis using eq by (auto simp: left_diff_distrib)
qed

theorem costBps_rounds_up_witness:
  "\<exists>b. costBps 5000 20000000 = Some b \<and> 50000000 \<le> b * 20000000 \<and> (b - 1) * 20000000 < 50000000"
  using costBps_rounds_up [of 5000 20000000] by simp

end
