(* ===== verification/TokenAccounts.thy ===== *)
theory TokenAccounts
  imports Amounts Signing
begin

text \<open>
  SPL token accounts and mints as bytes: \<open>packages/solana/src/tokenaccount.ts\<close> (an account is
  written), \<open>mint.ts\<close> (a mint and its Token-2022 extensions are read, and its transfer fee
  applied) and \<open>closeaccount.ts\<close>. A \<open>Uint8Array\<close> is a list of bytes; \<open>u64\<close> amounts and
  fees are \<open>int\<close>, JavaScript numbers below \<open>2 ^ 53\<close> are \<open>nat\<close>. Error messages are
  constructors with the values they quote.
\<close>

section \<open>Writing at an offset\<close>

text \<open>\<open>into.set(bytes, offset)\<close> and the little-endian setters of a \<open>DataView\<close>.\<close>

definition put :: "nat \<Rightarrow> bytes \<Rightarrow> bytes \<Rightarrow> bytes" where
  "put off bs data = take off data @ bs @ drop (off + length bs) data"

fun le_bytes :: "nat \<Rightarrow> nat \<Rightarrow> bytes" where
  "le_bytes 0 v = []"
| "le_bytes (Suc n) v = word_of_nat v # le_bytes n (v div 256)"

text \<open>\<open>setBigUint64(off, v, true)\<close> stores \<open>v\<close> modulo \<open>2 ^ 64\<close>.\<close>

definition setBigUint64 :: "nat \<Rightarrow> int \<Rightarrow> bytes \<Rightarrow> bytes" where
  "setBigUint64 off v = put off (le_bytes 8 (nat (v mod 2 ^ 64)))"

definition setUint16 :: "nat \<Rightarrow> nat \<Rightarrow> bytes \<Rightarrow> bytes" where
  "setUint16 off v = put off (le_bytes 2 (v mod 2 ^ 16))"

section \<open>Token accounts\<close>

definition TOKEN_ACCOUNT_LEN :: nat where "TOKEN_ACCOUNT_LEN = 165"
definition TOKEN_2022_ACCOUNT_TYPE :: byte where "TOKEN_2022_ACCOUNT_TYPE = 2"
definition AMOUNT_OFFSET :: nat where "AMOUNT_OFFSET = 64"
definition STATE_OFFSET :: nat where "STATE_OFFSET = 108"
definition STATE_INITIALIZED :: byte where "STATE_INITIALIZED = 1"

definition rentExemptLamports :: "nat \<Rightarrow> int" where
  "rentExemptLamports dataLen = (int dataLen + 128) * 3480 * 2"

datatype key_label = label_mint | label_owner

datatype token_account_error =
    not_base58 key_label | not_32_bytes key_label nat | negative_amount | amount_over_u64 int

datatype TokenAccountExtension = transfer_fee_amount (withheldAmount: int) | immutable_owner

record TokenAccountFields =
  ta_mint :: string
  ta_owner :: string
  ta_amount :: int
  ta_extensions :: "TokenAccountExtension list option"

definition writePubkey :: "bytes \<Rightarrow> nat \<Rightarrow> string \<Rightarrow> key_label \<Rightarrow> token_account_error + bytes" where
  "writePubkey into off k l =
    (case base58Decode k of
       Inl _ \<Rightarrow> Inl (not_base58 l)
     | Inr bs \<Rightarrow> if length bs \<noteq> 32 then Inl (not_32_bytes l (length bs)) else Inr (put off bs into))"

fun EXTENSION_TYPE :: "TokenAccountExtension \<Rightarrow> nat" where
  "EXTENSION_TYPE (transfer_fee_amount _) = 1"
| "EXTENSION_TYPE immutable_owner = 7"

fun ext_value_len :: "TokenAccountExtension \<Rightarrow> nat" where
  "ext_value_len (transfer_fee_amount _) = 8"
| "ext_value_len immutable_owner = 0"

text \<open>The body of the extension loop, over the position \<open>at\<close> and the data.\<close>

fun put_extension :: "TokenAccountExtension \<Rightarrow> nat \<times> bytes \<Rightarrow> nat \<times> bytes" where
  "put_extension e (at, data) =
    (let d1 = setUint16 at (EXTENSION_TYPE e) data;
         d2 = setUint16 (at + 2) (ext_value_len e) d1;
         d3 = (case e of transfer_fee_amount w \<Rightarrow> setBigUint64 (at + 4) w d2 | immutable_owner \<Rightarrow> d2)
     in (at + (4 + ext_value_len e), d3))"

definition account_len :: "TokenAccountExtension list \<Rightarrow> nat" where
  "account_len extensions =
    (let extBytes = foldl (\<lambda>n e. n + 4 + ext_value_len e) 0 extensions
     in if length extensions = 0 then TOKEN_ACCOUNT_LEN else TOKEN_ACCOUNT_LEN + 1 + extBytes)"

text \<open>What follows the two keys: amount, state, account type and extensions.\<close>

definition put_fields :: "int \<Rightarrow> TokenAccountExtension list \<Rightarrow> bytes \<Rightarrow> bytes" where
  "put_fields amount extensions data =
    (let d = (setBigUint64 AMOUNT_OFFSET amount data)[STATE_OFFSET := STATE_INITIALIZED]
     in if length extensions > 0
        then snd (fold put_extension extensions
          (TOKEN_ACCOUNT_LEN + 1, d[TOKEN_ACCOUNT_LEN := TOKEN_2022_ACCOUNT_TYPE]))
        else d)"

definition encodeTokenAccount :: "TokenAccountFields \<Rightarrow> token_account_error + bytes" where
  "encodeTokenAccount f =
    (if ta_amount f < 0 then Inl negative_amount
     else if ta_amount f > 2 ^ 64 - 1 then Inl (amount_over_u64 (ta_amount f))
     else
       let extensions = nullish (ta_extensions f) [];
           data = replicate (account_len extensions) 0
       in ebind (writePubkey data 0 (ta_mint f) label_mint) (\<lambda>d1.
          ebind (writePubkey d1 32 (ta_owner f) label_owner) (\<lambda>d2.
            Inr (put_fields (ta_amount f) extensions d2))))"

definition decodeTokenAccountAmount :: "bytes \<Rightarrow> int option" where
  "decodeTokenAccountAmount data =
    (if length data < AMOUNT_OFFSET + 8 then None
     else Some (int (le_uint (take 8 (drop AMOUNT_OFFSET data)))))"

section \<open>Mints\<close>

definition BASE_MINT_LEN :: nat where "BASE_MINT_LEN = 82"
definition ACCOUNT_TYPE_OFFSET :: nat where "ACCOUNT_TYPE_OFFSET = 165"
definition TLV_START :: nat where "TLV_START = 166"
definition ACCOUNT_TYPE_MINT :: byte where "ACCOUNT_TYPE_MINT = 1"
definition MAX_KNOWN_EXTENSION :: nat where "MAX_KNOWN_EXTENSION = 28"

definition EXTENSION_NAMES :: "string list" where
  "EXTENSION_NAMES = [''Uninitialized'', ''TransferFeeConfig'', ''TransferFeeAmount'',
     ''MintCloseAuthority'', ''ConfidentialTransferMint'', ''ConfidentialTransferAccount'',
     ''DefaultAccountState'', ''ImmutableOwner'', ''MemoTransfer'', ''NonTransferable'',
     ''InterestBearingConfig'', ''CpiGuard'', ''PermanentDelegate'', ''NonTransferableAccount'',
     ''TransferHook'', ''TransferHookAccount'', ''ConfidentialTransferFeeConfig'',
     ''ConfidentialTransferFeeAmount'', ''MetadataPointer'', ''TokenMetadata'', ''GroupPointer'',
     ''TokenGroup'', ''GroupMemberPointer'', ''TokenGroupMember'', ''ConfidentialMintBurn'',
     ''ScaledUiAmount'', ''Pausable'', ''PausableAccount'', ''PermissionedBurn'']"

definition HOSTILE_EXTENSIONS :: "nat list" where
  "HOSTILE_EXTENSIONS = [9, 12, 14, 26, 28]"

record ExtensionEntry =
  discriminant :: nat
  ext_name :: string
  ext_length :: nat
  ext_offset :: nat

record TransferFee =
  basisPoints :: nat
  maximumFee :: int
  epoch :: int

record TransferFeeConfig =
  older :: TransferFee
  newer :: TransferFee
  fc_withheldAmount :: int

definition transferFeeAtEpoch :: "TransferFeeConfig \<Rightarrow> int \<Rightarrow> TransferFee" where
  "transferFeeAtEpoch config e = (if e \<ge> epoch (newer config) then newer config else older config)"

definition worstCaseTransferFee :: "TransferFeeConfig \<Rightarrow> TransferFee" where
  "worstCaseTransferFee config =
    (let a = older config; b = newer config in
     if basisPoints a \<noteq> basisPoints b then (if basisPoints a > basisPoints b then a else b)
     else if maximumFee a \<ge> maximumFee b then a else b)"

definition amountAfterTransferFee :: "int \<Rightarrow> TransferFee \<Rightarrow> int" where
  "amountAfterTransferFee amount fee =
    (if amount \<le> 0 \<or> basisPoints fee \<le> 0 then amount
     else
       let raw = bdiv (amount * int (basisPoints fee) + 9999) 10000;
           charged = (if raw > maximumFee fee then maximumFee fee else raw)
       in amount - charged)"

record DecodedMint =
  dm_programId :: string
  mintAuthority :: "string option"
  mint_supply :: int
  decimals :: nat
  isInitialized :: bool
  freezeAuthority :: "string option"
  dm_extensions :: "ExtensionEntry list"
  transferFee :: "TransferFee option"
  transferFeeConfig :: "TransferFeeConfig option"
  hostileExtensions :: "string list"

datatype mint_error =
    unknown_program string | wrong_length nat | not_initialized | bad_coption_tag nat nat
  | implausible_decimals nat | truncated_2022 nat | wrong_account_type nat
  | extension_past_end nat nat | unknown_extension nat

definition readU32LE :: "bytes \<Rightarrow> nat \<Rightarrow> nat" where
  "readU32LE b off = le_uint (take 4 (drop off b))"

definition readU16LE :: "bytes \<Rightarrow> nat \<Rightarrow> nat" where
  "readU16LE b off = le_uint (take 2 (drop off b))"

definition readPubkey :: "bytes \<Rightarrow> nat \<Rightarrow> string" where
  "readPubkey b off = base58Encode (take 32 (drop off b))"

definition readCOptionPubkey :: "bytes \<Rightarrow> nat \<Rightarrow> mint_error + string option" where
  "readCOptionPubkey b tagOffset =
    (let tag = readU32LE b tagOffset in
     if tag = 0 then Inr None
     else if tag \<noteq> 1 then Inl (bad_coption_tag tag tagOffset)
     else Inr (Some (readPubkey b (tagOffset + 4))))"

definition readFee :: "bytes \<Rightarrow> nat \<Rightarrow> TransferFee" where
  "readFee data off = \<lparr>basisPoints = readU16LE data (off + 16),
     maximumFee = readU64LE data (off + 8), epoch = readU64LE data off\<rparr>"

definition readFeeConfig :: "bytes \<Rightarrow> nat \<Rightarrow> TransferFeeConfig" where
  "readFeeConfig data valueStart =
    (let withheldOffset = valueStart + 32 + 32;
         olderOffset = withheldOffset + 8;
         newerOffset = olderOffset + 18
     in \<lparr>older = readFee data olderOffset, newer = readFee data newerOffset,
         fc_withheldAmount = readU64LE data withheldOffset\<rparr>)"

definition entry_name :: "nat \<Rightarrow> string" where
  "entry_name d = (if d < length EXTENSION_NAMES then EXTENSION_NAMES ! d
                   else ''Unnamed('' @ decimal d @ '')'')"

text \<open>
  The loop over the TLV area, from \<open>cursor\<close>: the entries in order, and the last transfer-fee
  configuration read (\<open>fee\<close> is the one before).
\<close>

function tlv_loop :: "bytes \<Rightarrow> nat \<Rightarrow> TransferFeeConfig option \<Rightarrow>
    mint_error + ExtensionEntry list \<times> TransferFeeConfig option" where
  "tlv_loop data cursor fee =
    (if \<not> cursor + 4 \<le> length data then Inr ([], fee)
     else
       let d = readU16LE data cursor;
           len = readU16LE data (cursor + 2);
           valueStart = cursor + 4
       in if d = 0 \<and> len = 0 then Inr ([], fee)
          else if valueStart + len > length data then Inl (extension_past_end d len)
          else if d > MAX_KNOWN_EXTENSION then Inl (unknown_extension d)
          else
            ebind (tlv_loop data (valueStart + len)
                (if d = 1 \<and> len \<ge> 108 then Some (readFeeConfig data valueStart) else fee)) (\<lambda>(es, fee').
              Inr (\<lparr>discriminant = d, ext_name = entry_name d, ext_length = len, ext_offset = valueStart\<rparr> # es, fee')))"
  by pat_completeness auto

termination by (relation "measure (\<lambda>(data, cursor, _). length data - cursor)") auto

declare tlv_loop.simps [simp del]

definition decodeMint :: "bytes \<Rightarrow> string \<Rightarrow> mint_error + DecodedMint" where
  "decodeMint data program =
    (if program \<noteq> TOKEN_PROGRAM \<and> program \<noteq> TOKEN_2022_PROGRAM then Inl (unknown_program program)
     else if length data < BASE_MINT_LEN then Inl (wrong_length (length data))
     else ebind (readCOptionPubkey data 0) (\<lambda>authority.
       let sup = readU64LE data 36; dec = unat (data ! 44); ini = (data ! 45 = 1) in
       ebind (readCOptionPubkey data 46) (\<lambda>freeze.
         if \<not> ini then Inl not_initialized
         else if dec > 18 then Inl (implausible_decimals dec)
         else ebind
           (if program = TOKEN_2022_PROGRAM \<and> length data > BASE_MINT_LEN then
              if length data \<le> ACCOUNT_TYPE_OFFSET then Inl (truncated_2022 (length data))
              else if data ! ACCOUNT_TYPE_OFFSET \<noteq> ACCOUNT_TYPE_MINT
              then Inl (wrong_account_type (unat (data ! ACCOUNT_TYPE_OFFSET)))
              else tlv_loop data TLV_START None
            else Inr ([], None)) (\<lambda>(es, fee).
           Inr \<lparr>dm_programId = program, mintAuthority = authority, mint_supply = sup, decimals = dec,
                isInitialized = ini, freezeAuthority = freeze, dm_extensions = es,
                transferFee = map_option worstCaseTransferFee fee, transferFeeConfig = fee,
                hostileExtensions = map ext_name (filter (\<lambda>e. discriminant e \<in> set HOSTILE_EXTENSIONS) es)\<rparr>))))"

section \<open>Closing\<close>

definition CLOSE_ACCOUNT_IX :: byte where "CLOSE_ACCOUNT_IX = 9"

record CloseAccountInstruction =
  ci_programId :: string
  ci_accounts :: "(string \<times> bool \<times> bool) list"
  ci_data :: string

datatype close_error =
    atoms_remain int | withheld_remain int | close_key_thrown base58_error | close_key_length string

record CloseAccountParams =
  cl_tokenAccount :: string
  cl_destination :: string
  cl_owner :: string
  cl_tokenProgram :: string
  residualAtoms :: int
  withheldAtoms :: int
  isNativeWrappedSol :: "bool option"

definition require_address :: "string \<Rightarrow> close_error + unit" where
  "require_address k =
    (case base58Decode k of
       Inl e \<Rightarrow> Inl (close_key_thrown e)
     | Inr bs \<Rightarrow> if length bs \<noteq> 32 then Inl (close_key_length k) else Inr ())"

text \<open>Accounts are (pubkey, isSigner, isWritable).\<close>

definition buildCloseAccount :: "CloseAccountParams \<Rightarrow> close_error + CloseAccountInstruction" where
  "buildCloseAccount p =
    (let native = (isNativeWrappedSol p = Some True) in
     if residualAtoms p \<noteq> 0 \<and> \<not> native then Inl (atoms_remain (residualAtoms p))
     else if withheldAtoms p \<noteq> 0 then Inl (withheld_remain (withheldAtoms p))
     else ebind (emap require_address [cl_tokenAccount p, cl_destination p, cl_owner p, cl_tokenProgram p]) (\<lambda>_.
       Inr \<lparr>ci_programId = cl_tokenProgram p,
            ci_accounts = [(cl_tokenAccount p, False, True), (cl_destination p, False, True), (cl_owner p, True, False)],
            ci_data = base64_encode [CLOSE_ACCOUNT_IX]\<rparr>))"

definition normalizeAddress :: "string \<Rightarrow> close_error + string" where
  "normalizeAddress key =
    (case base58Decode key of
       Inl e \<Rightarrow> Inl (close_key_thrown e)
     | Inr bs \<Rightarrow> if length bs \<noteq> 32 then Inl (close_key_length key) else Inr (base58Encode bs))"

section \<open>Bytes written and read back\<close>

lemma length_le_bytes [simp]: "length (le_bytes n v) = n"
  by (induction n v rule: le_bytes.induct) simp_all

lemma le_uint_le_bytes: "le_uint (le_bytes n v) = v mod 256 ^ n"
proof (induction n v rule: le_bytes.induct)
  case (2 n v)
  have "unat (word_of_nat v :: byte) = v mod 256"
    by (simp add: unsigned_of_nat take_bit_eq_mod)
  then show ?case using 2 by (simp add: mod_mult2_eq)
qed simp

lemma byte_of_nat_low: "word_of_nat (unat b + 256 * n) = (b :: byte)"
proof -
  have "unat (word_of_nat (unat b + 256 * n) :: byte) = (unat b + 256 * n) mod 256"
    by (simp add: unsigned_of_nat take_bit_eq_mod del: of_nat_add of_nat_mult)
  also have "\<dots> = unat b" by (simp add: mod_mult_self2)
  finally show ?thesis by (simp only: unsigned_word_eqI)
qed

lemma le_bytes_le_uint: "le_bytes (length bs) (le_uint bs) = bs"
  by (induction bs) (simp_all add: byte_of_nat_low del: of_nat_add of_nat_mult)

lemma le_uint_less: "le_uint bs < 256 ^ length bs"
  using le_uint_le_bytes [of "length bs" "le_uint bs"] mod_less_divisor [of "256 ^ length bs" "le_uint bs"]
  by (simp only: le_bytes_le_uint) simp

lemma put_append: "length a = off \<Longrightarrow> length bs = length b \<Longrightarrow> put off bs (a @ b @ c) = a @ bs @ c"
  by (simp add: put_def)

text \<open>An entry of a TLV area: a type, the length of the value, the value.\<close>

definition tlv_bytes :: "nat \<times> bytes \<Rightarrow> bytes" where
  "tlv_bytes e = le_bytes 2 (fst e) @ le_bytes 2 (length (snd e)) @ snd e"

fun ext_entry :: "TokenAccountExtension \<Rightarrow> nat \<times> bytes" where
  "ext_entry (transfer_fee_amount w) = (1, le_bytes 8 (nat (w mod 2 ^ 64)))"
| "ext_entry immutable_owner = (7, [])"

lemma length_tlv_bytes [simp]: "length (tlv_bytes e) = 4 + length (snd e)"
  by (simp add: tlv_bytes_def)

lemma length_ext_entry [simp]: "length (snd (ext_entry e)) = ext_value_len e"
  by (cases e) simp_all

lemma put_extension_append:
  assumes "length pre = at" and "length room = 4 + ext_value_len e"
  shows "put_extension e (at, pre @ room @ rest) = (at + (4 + ext_value_len e), pre @ tlv_bytes (ext_entry e) @ rest)"
proof -
  obtain a b v where room: "room = a @ b @ v" "length a = 2" "length b = 2" "length v = ext_value_len e"
    using assms(2) that [of "take 2 room" "take 2 (drop 2 room)" "drop 4 room"]
    by (simp flip: append_assoc take_add)
  have "put at t (pre @ a @ b @ v @ rest) = pre @ t @ b @ v @ rest" if "length t = 2" for t
    using that assms room by (intro put_append) simp_all
  moreover have "put (at + 2) t (pre @ x @ b @ v @ rest) = pre @ x @ t @ v @ rest"
    if "length t = 2" "length x = 2" for t x
    using that assms room put_append [of "pre @ x" "at + 2" t b "v @ rest"] by simp
  moreover have "put (at + 4) t (pre @ x @ y @ v @ rest) = pre @ x @ y @ t @ rest"
    if "length t = length v" "length x = 2" "length y = 2" for t x y
    using that assms room put_append [of "pre @ x @ y" "at + 4" t v rest] by simp
  ultimately show ?thesis
    using room by (cases e) (simp_all add: setUint16_def setBigUint64_def tlv_bytes_def Let_def)
qed

lemma fold_put_extension:
  assumes "length pre = at" and "length room = sum_list (map (\<lambda>e. 4 + ext_value_len e) es)"
  shows "snd (fold put_extension es (at, pre @ room)) = pre @ concat (map (\<lambda>e. tlv_bytes (ext_entry e)) es)"
  using assms
proof (induction es arbitrary: at pre room)
  case Nil
  then show ?case by simp
next
  case (Cons e es)
  let ?n = "4 + ext_value_len e"
  have split: "room = take ?n room @ drop ?n room" by simp
  have "put_extension e (at, pre @ take ?n room @ drop ?n room) =
      (at + ?n, pre @ tlv_bytes (ext_entry e) @ drop ?n room)"
    using Cons.prems by (intro put_extension_append) simp_all
  then have "fold put_extension (e # es) (at, pre @ room) =
      fold put_extension es (at + ?n, (pre @ tlv_bytes (ext_entry e)) @ drop ?n room)"
    by simp
  then show ?case using Cons.IH [of "pre @ tlv_bytes (ext_entry e)" "at + ?n" "drop ?n room"] Cons.prems
    by simp
qed

lemma foldl_ext_bytes: "foldl (\<lambda>n e. n + 4 + ext_value_len e) k es = k + sum_list (map (\<lambda>e. 4 + ext_value_len e) es)"
  by (induction es arbitrary: k) simp_all

text \<open>The bytes of a token account, in the order of the layout.\<close>

definition account_bytes :: "bytes \<Rightarrow> bytes \<Rightarrow> int \<Rightarrow> TokenAccountExtension list \<Rightarrow> bytes" where
  "account_bytes m ow amt es =
     m @ ow @ le_bytes 8 (nat amt) @ replicate 36 0 @ [1] @ replicate 56 0 @
     (if es = [] then [] else [2] @ concat (map (\<lambda>e. tlv_bytes (ext_entry e)) es))"

lemma writePubkey_Inr: "writePubkey into off k l = Inr d \<longleftrightarrow>
    (\<exists>bs. base58Decode k = Inr bs \<and> length bs = 32 \<and> d = put off bs into)"
  by (auto simp: writePubkey_def split: sum.splits)

lemma blank_account:
  assumes "length m = 32" and "length ow = 32" and "length b = 8"
  shows "(put 64 b (put 32 ow (put 0 m (replicate (165 + n) 0))))[108 := 1] =
    m @ ow @ b @ replicate 36 0 @ [1] @ replicate 56 0 @ replicate n 0"
proof -
  have r: "replicate (165 + n) 0 = replicate 32 0 @ replicate 32 0 @ replicate 8 (0 :: byte) @
      replicate 36 0 @ replicate 1 0 @ replicate 56 0 @ replicate n 0"
    by (simp only: replicate_add [symmetric]) simp
  have "put 0 m (replicate (165 + n) 0) = m @ replicate 32 0 @ replicate 8 (0 :: byte) @
      replicate 36 0 @ replicate 1 0 @ replicate 56 0 @ replicate n 0"
    unfolding r using put_append [of "[]" 0 m] assms by simp
  moreover have "put 32 ow (m @ replicate 32 0 @ replicate 8 (0 :: byte) @
      replicate 36 0 @ replicate 1 0 @ replicate 56 0 @ replicate n 0) =
      m @ ow @ replicate 8 0 @ replicate 36 0 @ replicate 1 0 @ replicate 56 0 @ replicate n 0"
    using assms by (intro put_append) simp_all
  moreover have "put 64 b (m @ ow @ replicate 8 0 @ replicate 36 0 @ replicate 1 0 @ replicate 56 0 @ replicate n 0) =
      m @ ow @ b @ replicate 36 0 @ replicate 1 0 @ replicate 56 0 @ replicate n 0"
    using assms put_append [of "m @ ow" 64 b "replicate 8 0"] by simp
  moreover have "(m @ ow @ b @ replicate 36 0 @ [0] @ replicate 56 0 @ replicate n 0)[108 := 1] =
      m @ ow @ b @ replicate 36 0 @ [1] @ replicate 56 0 @ replicate n 0"
    using assms by (simp add: list_update_append)
  ultimately show ?thesis by simp
qed

lemma put_fields_layout:
  assumes "length m = 32" and "length ow = 32" and "0 \<le> amt" and "amt \<le> 2 ^ 64 - 1"
  shows "put_fields amt es (put 32 ow (put 0 m (replicate (account_len es) 0))) = account_bytes m ow amt es"
proof -
  let ?b = "le_bytes 8 (nat amt)" and ?n = "sum_list (map (\<lambda>e. 4 + ext_value_len e) es)"
  have amt: "nat (amt mod 2 ^ 64) = nat amt" using assms(3,4) by simp
  note blank = blank_account [OF assms(1,2), of ?b]
  note layout = AMOUNT_OFFSET_def STATE_OFFSET_def STATE_INITIALIZED_def TOKEN_ACCOUNT_LEN_def
    TOKEN_2022_ACCOUNT_TYPE_def setBigUint64_def amt
  show ?thesis
  proof (cases "es = []")
    case True
    then show ?thesis using blank [of 0] assms(3,4)
      by (simp add: put_fields_def account_len_def account_bytes_def layout)
  next
    case False
    let ?pre = "m @ ow @ ?b @ replicate 36 0 @ [1] @ replicate 56 0 @ [2 :: byte]"
    have len: "account_len es = 165 + (1 + ?n)"
      using False by (simp add: account_len_def TOKEN_ACCOUNT_LEN_def foldl_ext_bytes)
    have mark: "(m @ ow @ ?b @ replicate 36 0 @ [1] @ replicate 56 0 @ replicate (1 + ?n) 0)[165 := 2] =
        ?pre @ replicate ?n 0"
      using assms(1,2) by (simp add: list_update_append)
    have exts: "snd (fold put_extension es (165 + 1, ?pre @ replicate ?n 0)) =
        ?pre @ concat (map (\<lambda>e. tlv_bytes (ext_entry e)) es)"
      using assms(1,2) by (intro fold_put_extension) simp_all
    show ?thesis
      unfolding put_fields_def layout Let_def len blank [OF length_le_bytes] mark exts
      using False by (simp add: account_bytes_def)
  qed
qed

lemma encodeTokenAccount_Inr: "encodeTokenAccount f = Inr d \<longleftrightarrow>
    0 \<le> ta_amount f \<and> ta_amount f \<le> 2 ^ 64 - 1 \<and>
    (\<exists>m ow. base58Decode (ta_mint f) = Inr m \<and> length m = 32 \<and>
       base58Decode (ta_owner f) = Inr ow \<and> length ow = 32 \<and>
       d = account_bytes m ow (ta_amount f) (nullish (ta_extensions f) []))"
  by (auto simp: encodeTokenAccount_def Let_def ebind_eq_Inr writePubkey_Inr put_fields_layout)

lemma le_uint_amount: "0 \<le> x \<Longrightarrow> x \<le> 2 ^ 64 - 1 \<Longrightarrow> int (le_uint (le_bytes 8 (nat x))) = x"
  by (simp add: le_uint_le_bytes nat_less_iff)

section \<open>The TLV area as a list of entries\<close>

definition valid_entry :: "nat \<times> bytes \<Rightarrow> bool" where
  "valid_entry e \<longleftrightarrow> fst e \<le> MAX_KNOWN_EXTENSION \<and> length (snd e) < 2 ^ 16 \<and> \<not> (fst e = 0 \<and> snd e = [])"

text \<open>What ends the area: too few bytes for a header, or the header that marks unused space.\<close>

definition tlv_end :: "bytes \<Rightarrow> bool" where
  "tlv_end t \<longleftrightarrow> length t < 4 \<or> (\<exists>r. t = replicate 4 0 @ r)"

fun entries_at :: "nat \<Rightarrow> (nat \<times> bytes) list \<Rightarrow> ExtensionEntry list" where
  "entries_at off [] = []"
| "entries_at off (e # es) = \<lparr>discriminant = fst e, ext_name = entry_name (fst e),
     ext_length = length (snd e), ext_offset = off + 4\<rparr> # entries_at (off + 4 + length (snd e)) es"

definition entry_fee :: "TransferFeeConfig option \<Rightarrow> nat \<times> bytes \<Rightarrow> TransferFeeConfig option" where
  "entry_fee fee e = (if fst e = 1 \<and> length (snd e) \<ge> 108 then Some (readFeeConfig (snd e) 0) else fee)"

lemma readFeeConfig_within:
  assumes "drop off data = v @ rest" and "108 \<le> length v"
  shows "readFeeConfig data off = readFeeConfig v 0"
proof -
  have "drop (off + k) data = drop k v @ rest" if "k \<le> 108" for k
  proof -
    have "drop (off + k) data = drop k (drop off data)" by (simp add: add.commute)
    then show ?thesis using that assms by simp
  qed
  then have "take n (drop (off + k) data) = take n (drop k v)" if "k + n \<le> 108" for k n
    using that assms(2) by simp
  then show ?thesis
    by (simp add: readFeeConfig_def readFee_def readU64LE_def readU16LE_def Let_def add.assoc)
qed

lemma header_read:
  assumes "drop cursor data = tlv_bytes e @ rest" and "valid_entry e"
  shows "readU16LE data cursor = fst e" and "readU16LE data (cursor + 2) = length (snd e)"
    and "drop (cursor + 4) data = snd e @ rest"
    and "cursor + 4 + length (snd e) \<le> length data"
    and "drop (cursor + 4 + length (snd e)) data = rest"
proof -
  have small: "fst e < 65536" "length (snd e) < 65536"
    using assms(2) by (simp_all add: valid_entry_def MAX_KNOWN_EXTENSION_def)
  have d: "drop cursor data = le_bytes 2 (fst e) @ le_bytes 2 (length (snd e)) @ snd e @ rest"
    using assms(1) by (simp add: tlv_bytes_def)
  have later: "drop (cursor + k) data = drop k (le_bytes 2 (fst e) @ le_bytes 2 (length (snd e)) @ snd e @ rest)" for k
    using d by (metis drop_drop add.commute)
  show "readU16LE data cursor = fst e"
    using small by (simp add: readU16LE_def d le_uint_le_bytes)
  show "readU16LE data (cursor + 2) = length (snd e)"
    using small unfolding readU16LE_def later by (simp add: le_uint_le_bytes)
  show "drop (cursor + 4) data = snd e @ rest" by (simp add: later)
  show "drop (cursor + 4 + length (snd e)) data = rest"
    using later [of "4 + length (snd e)"] by (simp add: add.assoc)
  have "length data - cursor = 4 + length (snd e) + length rest"
    using arg_cong [OF d, of length] by simp
  then show "cursor + 4 + length (snd e) \<le> length data" by linarith
qed

lemma tlv_loop_step:
  assumes "readU16LE data cursor = d" and "readU16LE data (cursor + 2) = len"
    and "cursor + 4 + len \<le> length data" and "\<not> (d = 0 \<and> len = 0)" and "d \<le> MAX_KNOWN_EXTENSION"
  shows "tlv_loop data cursor fee =
    ebind (tlv_loop data (cursor + 4 + len) (if d = 1 \<and> len \<ge> 108 then Some (readFeeConfig data (cursor + 4)) else fee)) (\<lambda>(es, fee').
      Inr (\<lparr>discriminant = d, ext_name = entry_name d, ext_length = len, ext_offset = cursor + 4\<rparr> # es, fee'))"
proof -
  have "cursor + 4 \<le> length data" "\<not> cursor + 4 + len > length data" "\<not> d > MAX_KNOWN_EXTENSION"
    using assms by simp_all
  then show ?thesis
    by (subst tlv_loop.simps) (simp only: Let_def assms(1,2,4) not_True_eq_False if_False if_True simp_thms)
qed

text \<open>The loop over an area that starts with valid entries: it lists them and goes on behind them.\<close>

lemma tlv_loop_prefix:
  "drop cursor data = concat (map tlv_bytes es) @ t \<Longrightarrow> list_all valid_entry es \<Longrightarrow> cursor \<le> length data \<Longrightarrow>
   tlv_loop data cursor fee =
     ebind (tlv_loop data (length data - length t) (foldl entry_fee fee es))
       (\<lambda>(es', fee'). Inr (entries_at cursor es @ es', fee'))"
proof (induction es arbitrary: cursor fee)
  case Nil
  then have "length t = length data - cursor" by auto
  then have "cursor = length data - length t" using Nil.prems(3) by linarith
  then show ?case by (cases "tlv_loop data cursor fee") auto
next
  case (Cons e es)
  let ?next = "cursor + 4 + length (snd e)"
  have v: "valid_entry e" using Cons.prems by simp
  have d: "drop cursor data = tlv_bytes e @ concat (map tlv_bytes es) @ t" using Cons.prems by simp
  note h = header_read [OF d v]
  have fee: "(if fst e = 1 \<and> 108 \<le> length (snd e) then Some (readFeeConfig data (cursor + 4)) else fee) = entry_fee fee e"
    using readFeeConfig_within [OF h(3)] by (auto simp: entry_fee_def)
  have rec: "tlv_loop data ?next (entry_fee fee e) =
      ebind (tlv_loop data (length data - length t) (foldl entry_fee (entry_fee fee e) es))
        (\<lambda>(es', fee'). Inr (entries_at ?next es @ es', fee'))"
    using Cons.prems h by (intro Cons.IH) simp_all
  have nz: "\<not> (fst e = 0 \<and> length (snd e) = 0)" and known: "fst e \<le> MAX_KNOWN_EXTENSION"
    using v by (auto simp: valid_entry_def)
  show ?case
    unfolding tlv_loop_step [OF h(1,2,4) nz known] fee rec
    by (simp add: ebind_def split: sum.split)
qed

lemma tlv_loop_end:
  assumes "tlv_end t" and "drop cursor data = t" and "cursor \<le> length data"
  shows "tlv_loop data cursor fee = Inr ([], fee)"
proof (cases "length t < 4")
  case True
  then have "\<not> cursor + 4 \<le> length data" using assms by auto
  then show ?thesis by (subst tlv_loop.simps) simp
next
  case False
  then obtain r where r: "drop cursor data = replicate 4 0 @ r" using assms by (auto simp: tlv_end_def)
  have r2: "drop (cursor + 2) data = replicate 2 0 @ r"
    using r drop_drop [of 2 cursor data] by (simp add: add.commute)
  have "readU16LE data cursor = 0" "readU16LE data (cursor + 2) = 0"
    unfolding readU16LE_def r r2 by (simp_all add: numeral_2_eq_2 numeral_eq_Suc)
  then show ?thesis by (subst tlv_loop.simps) (simp add: Let_def)
qed

lemma tlv_loop_unknown:
  assumes "drop cursor data = tlv_bytes (d, v) @ r" and "MAX_KNOWN_EXTENSION < d" and "d < 2 ^ 16" and "length v < 2 ^ 16"
  shows "tlv_loop data cursor fee = Inl (unknown_extension d)"
proof -
  have e: "drop cursor data = le_bytes 2 d @ le_bytes 2 (length v) @ v @ r"
    using assms(1) by (simp add: tlv_bytes_def)
  then have e2: "drop (cursor + 2) data = le_bytes 2 (length v) @ v @ r"
    using drop_drop [of 2 cursor data] by (simp add: add.commute)
  have "readU16LE data cursor = d" "readU16LE data (cursor + 2) = length v"
    unfolding readU16LE_def e e2 using assms(3,4) by (simp_all add: le_uint_le_bytes)
  moreover have "length data - cursor = 4 + length v + length r" using arg_cong [OF e, of length] by simp
  then have "cursor + 4 \<le> length data" "\<not> cursor + 4 + length v > length data" by linarith+
  ultimately show ?thesis using assms(2)
    by (subst tlv_loop.simps) (simp only: Let_def if_True if_False not_True_eq_False simp_thms; simp)
qed

lemma le_bytes_readU16:
  assumes "k + 2 \<le> length data"
  shows "le_bytes 2 (readU16LE data k) = take 2 (drop k data)"
proof -
  have "length (take 2 (drop k data)) = 2" using assms by simp
  then show ?thesis using le_bytes_le_uint [of "take 2 (drop k data)"] by (simp only: readU16LE_def)
qed

lemma readU16LE_less: "readU16LE data k < 2 ^ 16"
proof -
  have "readU16LE data k < 256 ^ length (take 2 (drop k data))" unfolding readU16LE_def by (rule le_uint_less)
  also have "\<dots> \<le> 256 ^ 2" by (intro power_increasing) simp_all
  finally show ?thesis by simp
qed

lemma tlv_loop_abs:
  "tlv_loop data cursor fee = Inr (es', fee') \<Longrightarrow> cursor \<le> length data \<Longrightarrow>
   \<exists>es t. drop cursor data = concat (map tlv_bytes es) @ t \<and> list_all valid_entry es \<and> tlv_end t \<and>
     es' = entries_at cursor es \<and> fee' = foldl entry_fee fee es"
proof (induction data cursor fee arbitrary: es' fee' rule: tlv_loop.induct)
  case (1 data cursor fee)
  define d where "d = readU16LE data cursor"
  define len where "len = readU16LE data (cursor + 2)"
  let ?next = "cursor + 4 + len"
  let ?fee = "if d = 1 \<and> len \<ge> 108 then Some (readFeeConfig data (cursor + 4)) else fee"
  note stop = tlv_loop_end [OF _ refl "1.prems"(2), of fee]
  show ?case
  proof (cases "cursor + 4 \<le> length data")
    case False
    then have "length (drop cursor data) < 4" unfolding length_drop by arith
    then have "tlv_end (drop cursor data)" unfolding tlv_end_def by blast
    then show ?thesis using stop "1.prems"(1) by (intro exI [of _ "[]"] exI [of _ "drop cursor data"]) simp
  next
    case True
    have h: "take 2 (drop cursor data) = le_bytes 2 d" "take 2 (drop (cursor + 2) data) = le_bytes 2 len"
      using le_bytes_readU16 [of cursor data] le_bytes_readU16 [of "cursor + 2" data] True
      unfolding d_def len_def by simp_all
    have head: "drop cursor data = le_bytes 2 d @ le_bytes 2 len @ drop (cursor + 4) data"
      unfolding h [symmetric] using drop_drop [of 2 cursor data] drop_drop [of 2 "cursor + 2" data]
      by (metis append_take_drop_id add.commute add.left_commute numeral_Bit0)
    show ?thesis
    proof (cases "d = 0 \<and> len = 0")
      case mark: True
      have "le_bytes 2 0 = replicate 2 (0 :: byte)" by (simp add: numeral_2_eq_2)
      then have "drop cursor data = replicate (2 + 2) 0 @ drop (cursor + 4) data"
        using head mark by (simp only: replicate_add append_assoc)
      then have "tlv_end (drop cursor data)" by (auto simp: tlv_end_def)
      then show ?thesis using stop "1.prems"(1) by (intro exI [of _ "[]"] exI [of _ "drop cursor data"]) simp
    next
      case nz: False
      have inside: "?next \<le> length data" and known: "d \<le> MAX_KNOWN_EXTENSION"
        using "1.prems"(1) True nz d_def len_def
        by (auto simp: tlv_loop.simps [of data cursor fee] Let_def split: if_splits)
      have step: "ebind (tlv_loop data ?next ?fee) (\<lambda>(es, fee').
          Inr (\<lparr>discriminant = d, ext_name = entry_name d, ext_length = len, ext_offset = cursor + 4\<rparr> # es, fee')) =
          Inr (es', fee')"
        using "1.prems"(1) unfolding tlv_loop_step [OF d_def [symmetric] len_def [symmetric] inside nz known] .
      then obtain es1 where rec: "tlv_loop data ?next ?fee = Inr (es1, fee')"
        and es': "es' = \<lparr>discriminant = d, ext_name = entry_name d, ext_length = len, ext_offset = cursor + 4\<rparr> # es1"
        by (auto simp: ebind_eq_Inr)
      have "\<exists>es t. drop ?next data = concat (map tlv_bytes es) @ t \<and> list_all valid_entry es \<and> tlv_end t \<and>
          es1 = entries_at ?next es \<and> fee' = foldl entry_fee ?fee es"
        using "1.IH" [OF _ d_def len_def refl] True nz inside known rec by simp
      then obtain es t where es: "drop ?next data = concat (map tlv_bytes es) @ t" "list_all valid_entry es"
        "tlv_end t" "es1 = entries_at ?next es" "fee' = foldl entry_fee ?fee es" by blast
      define e where "e = (d, take len (drop (cursor + 4) data))"
      have len_v: "length (snd e) = len" using inside by (simp add: e_def)
      have v: "drop (cursor + 4) data = snd e @ drop ?next data"
        unfolding e_def using drop_drop [of len "cursor + 4" data] by (metis add.commute append_take_drop_id snd_conv)
      have "tlv_bytes e = le_bytes 2 d @ le_bytes 2 len @ snd e"
        unfolding tlv_bytes_def len_v by (simp add: e_def)
      then have hd: "drop cursor data = tlv_bytes e @ concat (map tlv_bytes es) @ t"
        by (simp only: head v es(1) append_assoc)
      have valid: "valid_entry e"
        using nz known len_v readU16LE_less [of data "cursor + 2"] by (auto simp: valid_entry_def e_def len_def)
      have "108 \<le> len \<Longrightarrow> readFeeConfig data (cursor + 4) = readFeeConfig (snd e) 0"
        by (rule readFeeConfig_within [OF v]) (simp only: len_v)
      then have fee: "?fee = entry_fee fee e"
        unfolding entry_fee_def len_v by (simp add: e_def)
      have "fst e = d" by (simp add: e_def)
      then have "es' = entries_at cursor (e # es)"
        unfolding es' es(4) entries_at.simps len_v by (simp only:)
      moreover have "fee' = foldl entry_fee fee (e # es)" using es(5) fee by simp
      moreover have "list_all valid_entry (e # es)" using valid es(2) by simp
      moreover have "drop cursor data = concat (map tlv_bytes (e # es)) @ t" using hd by simp
      ultimately show ?thesis using es(3) by blast
    qed
  qed
qed

section \<open>Properties\<close>

lemma account_bytes_fields:
  assumes "length m = 32" and "length ow = 32"
  shows "take 32 (account_bytes m ow amt es) = m"
    and "take 32 (drop 32 (account_bytes m ow amt es)) = ow"
    and "take 8 (drop 64 (account_bytes m ow amt es)) = le_bytes 8 (nat amt)"
    and "length (account_bytes m ow amt es) =
      165 + (if es = [] then 0 else 1 + sum_list (map (\<lambda>e. 4 + ext_value_len e) es))"
  using assms by (simp_all add: account_bytes_def length_concat o_def)

lemma token_account_roundtrip_parts:
  assumes "encodeTokenAccount f = Inr d"
  shows "decodeTokenAccountAmount d = Some (ta_amount f)"
    and "prog = TOKEN_PROGRAM \<or> prog = TOKEN_2022_PROGRAM \<Longrightarrow>
      readTokenAccount (Some \<lparr>ac_lamports = l, ac_owner = prog, ac_dataBase64 = base64_encode d\<rparr>) =
        Some \<lparr>tv_mint = ta_mint f, tv_owner = ta_owner f, tv_amount = ta_amount f\<rparr>"
proof -
  obtain m ow where m: "base58Decode (ta_mint f) = Inr m" "length m = 32"
    and ow: "base58Decode (ta_owner f) = Inr ow" "length ow = 32"
    and amt: "0 \<le> ta_amount f" "ta_amount f \<le> 2 ^ 64 - 1"
    and d: "d = account_bytes m ow (ta_amount f) (nullish (ta_extensions f) [])"
    using assms unfolding encodeTokenAccount_Inr by blast
  note parts = account_bytes_fields [OF m(2) ow(2), of "ta_amount f" "nullish (ta_extensions f) []", folded d]
  have len: "\<not> length d < 72" using parts(4) by simp
  have keys: "base58Encode m = ta_mint f" "base58Encode ow = ta_owner f"
    using base58Encode_Decode m(1) ow(1) by blast+
  show "decodeTokenAccountAmount d = Some (ta_amount f)"
    using len by (simp add: decodeTokenAccountAmount_def AMOUNT_OFFSET_def parts(3) le_uint_amount [OF amt])
  show "readTokenAccount (Some \<lparr>ac_lamports = l, ac_owner = prog, ac_dataBase64 = base64_encode d\<rparr>) =
      Some \<lparr>tv_mint = ta_mint f, tv_owner = ta_owner f, tv_amount = ta_amount f\<rparr>"
    if "prog = TOKEN_PROGRAM \<or> prog = TOKEN_2022_PROGRAM"
    using that len
    by (auto simp: readTokenAccount_def Let_def readU64LE_def parts(1-3) keys le_uint_amount [OF amt])
qed

text \<open>a constructed token account is the account the effect check reads. Whatever fields and
  extensions \<open>encodeTokenAccount\<close> accepts, the bytes decode to exactly the amount asked for, are as
  long as the layout says, and the verifier of simulated effects, given them under either token
  program, sees the mint, owner and amount that were written.\<close>

theorem token_account_roundtrip:
  assumes "encodeTokenAccount f = Inr d" and "prog = TOKEN_PROGRAM \<or> prog = TOKEN_2022_PROGRAM"
  shows "decodeTokenAccountAmount d = Some (ta_amount f) \<and>
    length d = account_len (nullish (ta_extensions f) []) \<and>
    readTokenAccount (Some \<lparr>ac_lamports = l, ac_owner = prog, ac_dataBase64 = base64_encode d\<rparr>) =
      Some \<lparr>tv_mint = ta_mint f, tv_owner = ta_owner f, tv_amount = ta_amount f\<rparr>"
proof -
  have "length d = account_len (nullish (ta_extensions f) [])"
    using assms(1) account_bytes_fields(4)
    by (auto simp: encodeTokenAccount_Inr account_len_def TOKEN_ACCOUNT_LEN_def foldl_ext_bytes)
  then show ?thesis using token_account_roundtrip_parts assms by blast
qed

definition sample_token_account :: TokenAccountFields where
  "sample_token_account = \<lparr>ta_mint = sample_key 5, ta_owner = sample_key 6, ta_amount = 10 ^ 18,
     ta_extensions = Some [immutable_owner, transfer_fee_amount 0]\<rparr>"

theorem token_account_roundtrip_witness:
  "\<exists>d. encodeTokenAccount sample_token_account = Inr d \<and> length d = 182 \<and>
    decodeTokenAccountAmount d = Some (10 ^ 18)"
proof -
  obtain d where d: "encodeTokenAccount sample_token_account = Inr d"
    by (simp add: encodeTokenAccount_Inr sample_token_account_def)
  have "account_len (nullish (ta_extensions sample_token_account) []) = 182"
    by (simp add: sample_token_account_def account_len_def TOKEN_ACCOUNT_LEN_def)
  then show ?thesis using token_account_roundtrip [OF d, of TOKEN_PROGRAM 0] d
    by (auto simp: sample_token_account_def)
qed

text \<open>A Token-2022 mint that was decoded, seen as the entries of its TLV area.\<close>

lemma decodeMint_2022:
  assumes "decodeMint data TOKEN_2022_PROGRAM = Inr m" and "BASE_MINT_LEN < length data"
  shows "tlv_loop data TLV_START None = Inr (dm_extensions m, transferFeeConfig m)"
    and "transferFee m = map_option worstCaseTransferFee (transferFeeConfig m)"
    and "hostileExtensions m = map ext_name (filter (\<lambda>e. discriminant e \<in> set HOSTILE_EXTENSIONS) (dm_extensions m))"
    and "TLV_START \<le> length data"
  using assms
  by (auto simp: decodeMint_def Let_def TLV_START_def ACCOUNT_TYPE_OFFSET_def elim!: ebind_eq_InrE split: if_splits)

lemma entries_at_hostile:
  "map ext_name (filter (\<lambda>e. discriminant e \<in> S) (entries_at off es)) =
   map (\<lambda>e. entry_name (fst e)) (filter (\<lambda>e. fst e \<in> S) es)"
  by (induction off es rule: entries_at.induct) simp_all

text \<open>C39: the mint decoder implements the abstract reading of an extension area. For every Token-2022
  mint it accepts, the area behind the account type is a list of well-formed entries of known
  types up to an end mark, and the extensions, offsets, transfer fee configuration and hostile
  list it reports are those of the whole list: no entry is skipped, invented or misplaced.\<close>

theorem decodeMint_reads_all_extensions:
  assumes "decodeMint data TOKEN_2022_PROGRAM = Inr m" and "BASE_MINT_LEN < length data"
  shows "\<exists>es t. drop TLV_START data = concat (map tlv_bytes es) @ t \<and> list_all valid_entry es \<and> tlv_end t \<and>
    dm_extensions m = entries_at TLV_START es \<and>
    transferFeeConfig m = foldl entry_fee None es \<and>
    transferFee m = map_option worstCaseTransferFee (foldl entry_fee None es) \<and>
    hostileExtensions m = map (\<lambda>e. entry_name (fst e)) (filter (\<lambda>e. fst e \<in> set HOSTILE_EXTENSIONS) es)"
proof -
  note d = decodeMint_2022 [OF assms]
  obtain es t where "drop TLV_START data = concat (map tlv_bytes es) @ t" "list_all valid_entry es" "tlv_end t"
    "dm_extensions m = entries_at TLV_START es" "transferFeeConfig m = foldl entry_fee None es"
    using tlv_loop_abs [OF d(1,4)] by blast
  then show ?thesis using d(2,3) entries_at_hostile by metis
qed

text \<open>An area that carries an entry of an unknown type behind valid ones is refused.\<close>

lemma unknown_entry_refused:
  assumes "drop TLV_START data = concat (map tlv_bytes es) @ tlv_bytes (d, v) @ r"
    and "list_all valid_entry es" and "MAX_KNOWN_EXTENSION < d" and "d < 2 ^ 16" and "length v < 2 ^ 16"
  shows "\<not> is_ok (decodeMint data TOKEN_2022_PROGRAM)"
proof
  assume "is_ok (decodeMint data TOKEN_2022_PROGRAM)"
  then obtain m where m: "decodeMint data TOKEN_2022_PROGRAM = Inr m" by (rule is_okE)
  have long: "TLV_START < length data" using arg_cong [OF assms(1), of length] by simp
  then have "BASE_MINT_LEN < length data" by (simp add: BASE_MINT_LEN_def TLV_START_def)
  then have loop: "tlv_loop data TLV_START None = Inr (dm_extensions m, transferFeeConfig m)"
    using decodeMint_2022(1) m by blast
  let ?rest = "tlv_bytes (d, v) @ r" and ?k = "length data - length (tlv_bytes (d, v) @ r)"
  have "length (drop TLV_START data) = length (concat (map tlv_bytes es)) + length ?rest"
    unfolding assms(1) by simp
  then have k: "?k = TLV_START + length (concat (map tlv_bytes es))" using long by simp
  have "drop ?k data = drop (length (concat (map tlv_bytes es))) (drop TLV_START data)"
    unfolding k by (simp add: add.commute)
  then have "drop ?k data = ?rest" unfolding assms(1) by simp
  then have "tlv_loop data ?k (foldl entry_fee None es) = Inl (unknown_extension d)"
    using assms(3-5) by (intro tlv_loop_unknown)
  then have "tlv_loop data TLV_START None = Inl (unknown_extension d)"
    using tlv_loop_prefix [of TLV_START data es ?rest None] assms(1,2) long by simp
  then show False using loop by simp
qed

text \<open>The loop succeeds exactly on an area of valid entries up to an end mark.\<close>

lemma tlv_loop_accepts:
  assumes "TLV_START \<le> length data"
  shows "is_ok (tlv_loop data TLV_START None) \<longleftrightarrow>
    (\<exists>es t. drop TLV_START data = concat (map tlv_bytes es) @ t \<and> list_all valid_entry es \<and> tlv_end t)"
proof
  assume "is_ok (tlv_loop data TLV_START None)"
  then obtain x where "tlv_loop data TLV_START None = Inr x" by (rule is_okE)
  then show "\<exists>es t. drop TLV_START data = concat (map tlv_bytes es) @ t \<and> list_all valid_entry es \<and> tlv_end t"
    using tlv_loop_abs [of data TLV_START None "fst x" "snd x"] assms by auto
next
  assume "\<exists>es t. drop TLV_START data = concat (map tlv_bytes es) @ t \<and> list_all valid_entry es \<and> tlv_end t"
  then obtain es t where d: "drop TLV_START data = concat (map tlv_bytes es) @ t" "list_all valid_entry es" "tlv_end t" by blast
  have len: "length data = TLV_START + length (concat (map tlv_bytes es)) + length t"
    using arg_cong [OF d(1), of length] assms by simp
  have "drop (length data - length t) data = drop (length (concat (map tlv_bytes es))) (drop TLV_START data)"
    unfolding len by (simp add: add.commute)
  then have "drop (length data - length t) data = t" unfolding d(1) by simp
  then have "tlv_loop data (length data - length t) fee = Inr ([], fee)" for fee by (intro tlv_loop_end [OF d(3)]) simp_all
  then show "is_ok (tlv_loop data TLV_START None)" using tlv_loop_prefix [OF d(1,2) assms, of None] by simp
qed

lemma coption_ok: "is_ok (readCOptionPubkey b off) \<longleftrightarrow> le_uint (take 4 (drop off b)) \<le> 1"
  by (auto simp: readCOptionPubkey_def readU32LE_def Let_def)

text \<open>C40: which accounts are mints. The decoder accepts exactly the accounts of one of the two token programs that hold a
  base mint, with both authority tags zero or one, initialized, with at most 18 decimals, and, when a
  Token-2022 account is longer than that, with the account type of a mint and an extension area that is a
  list of entries of the 28 known types, each inside the account, up to an end mark. So an entry of an unknown type behind such
  entries makes it refuse. Known types are accepted whatever they hold: a fee configuration too short to be read is
  reported as no fee (\<open>short_fee_config_accepted\<close>).\<close>

theorem decodeMint_accepts_exactly:
  "(is_ok (decodeMint data program) \<longleftrightarrow>
     (program = TOKEN_PROGRAM \<or> program = TOKEN_2022_PROGRAM) \<and> 82 \<le> length data \<and>
     le_uint (take 4 data) \<le> 1 \<and> le_uint (take 4 (drop 46 data)) \<le> 1 \<and> data ! 45 = 1 \<and> unat (data ! 44) \<le> 18 \<and>
     (program = TOKEN_2022_PROGRAM \<and> 82 < length data \<longrightarrow> 166 \<le> length data \<and> data ! 165 = 1 \<and>
       (\<exists>es t. drop 166 data = concat (map tlv_bytes es) @ t \<and> list_all valid_entry es \<and> tlv_end t))) \<and>
   (\<forall>es d v r. drop 166 data = concat (map tlv_bytes es) @ tlv_bytes (d, v) @ r \<and> list_all valid_entry es \<and>
     28 < d \<and> d < 2 ^ 16 \<and> length v < 2 ^ 16 \<longrightarrow> \<not> is_ok (decodeMint data TOKEN_2022_PROGRAM))"
proof (rule conjI)
  have loop: "166 \<le> length data \<Longrightarrow> is_ok (tlv_loop data TLV_START None) \<longleftrightarrow>
      (\<exists>es t. drop 166 data = concat (map tlv_bytes es) @ t \<and> list_all valid_entry es \<and> tlv_end t)"
    using tlv_loop_accepts [of data] by (simp add: TLV_START_def)
  have pair: "is_ok (ebind r (\<lambda>(x, y). Inr (g x y))) = is_ok r" for r :: "mint_error + 'x \<times> 'y" and g :: "'x \<Rightarrow> 'y \<Rightarrow> 'z"
    by (cases r) auto
  have dist: "is_ok (if c then r else r') = (if c then is_ok r else is_ok r')" for c and r r' :: "mint_error + 'x" by simp
  show "is_ok (decodeMint data program) \<longleftrightarrow>
     (program = TOKEN_PROGRAM \<or> program = TOKEN_2022_PROGRAM) \<and> 82 \<le> length data \<and>
     le_uint (take 4 data) \<le> 1 \<and> le_uint (take 4 (drop 46 data)) \<le> 1 \<and> data ! 45 = 1 \<and> unat (data ! 44) \<le> 18 \<and>
     (program = TOKEN_2022_PROGRAM \<and> 82 < length data \<longrightarrow> 166 \<le> length data \<and> data ! 165 = 1 \<and>
       (\<exists>es t. drop 166 data = concat (map tlv_bytes es) @ t \<and> list_all valid_entry es \<and> tlv_end t))"
    (is "?L \<longleftrightarrow> ?R")
  proof -
    have area: "is_ok (if program = TOKEN_2022_PROGRAM \<and> length data > BASE_MINT_LEN then
           if length data \<le> ACCOUNT_TYPE_OFFSET then Inl (truncated_2022 (length data))
           else if data ! ACCOUNT_TYPE_OFFSET \<noteq> ACCOUNT_TYPE_MINT then Inl (wrong_account_type (unat (data ! ACCOUNT_TYPE_OFFSET)))
           else tlv_loop data TLV_START None else Inr ([], None)) \<longleftrightarrow>
        (program = TOKEN_2022_PROGRAM \<and> 82 < length data \<longrightarrow> 166 \<le> length data \<and> data ! 165 = 1 \<and>
          (\<exists>es t. drop 166 data = concat (map tlv_bytes es) @ t \<and> list_all valid_entry es \<and> tlv_end t))" (is "is_ok ?A \<longleftrightarrow> ?B")
      using loop by (auto simp: BASE_MINT_LEN_def ACCOUNT_TYPE_OFFSET_def ACCOUNT_TYPE_MINT_def not_le Suc_le_eq)
    have "?L \<longleftrightarrow> (program = TOKEN_PROGRAM \<or> program = TOKEN_2022_PROGRAM) \<and> 82 \<le> length data \<and>
        is_ok (readCOptionPubkey data 0) \<and> is_ok (readCOptionPubkey data 46) \<and> data ! 45 = 1 \<and> unat (data ! 44) \<le> 18 \<and> is_ok ?A"
      unfolding decodeMint_def
      by (cases "readCOptionPubkey data 0"; cases "readCOptionPubkey data 46";
           simp_all add: Let_def BASE_MINT_LEN_def pair dist not_less split del: if_split cong: if_cong;
           auto split: if_splits)
    then show ?thesis unfolding area coption_ok by simp
  qed
  show "\<forall>es d v r. drop 166 data = concat (map tlv_bytes es) @ tlv_bytes (d, v) @ r \<and> list_all valid_entry es \<and>
     28 < d \<and> d < 2 ^ 16 \<and> length v < 2 ^ 16 \<longrightarrow> \<not> is_ok (decodeMint data TOKEN_2022_PROGRAM)"
    using unknown_entry_refused [of data] by (auto simp: TLV_START_def MAX_KNOWN_EXTENSION_def)
qed

subsection \<open>A mint with extensions\<close>

definition sample_mint_data :: "bytes \<Rightarrow> bytes" where
  "sample_mint_data area = replicate 44 0 @ [6, 1] @ replicate 119 0 @ [1] @ area"

definition sample_fee_value :: bytes where
  "sample_fee_value = replicate 72 0 @
     (le_bytes 8 100 @ le_bytes 8 5000 @ le_bytes 2 1000) @ (le_bytes 8 200 @ le_bytes 8 5000 @ le_bytes 2 0)"

lemma sample_mint_fields:
  "length (sample_mint_data area) = 166 + length area" "drop TLV_START (sample_mint_data area) = area"
  "readCOptionPubkey (sample_mint_data area) 0 = Inr None"
  "readCOptionPubkey (sample_mint_data area) 46 = Inr None"
  "sample_mint_data area ! 44 = 6" "sample_mint_data area ! 45 = 1"
  "sample_mint_data area ! ACCOUNT_TYPE_OFFSET = ACCOUNT_TYPE_MINT"
proof -
  have "le_uint (replicate n 0) = 0" for n by (induction n) simp_all
  then show "readCOptionPubkey (sample_mint_data area) 0 = Inr None"
    "readCOptionPubkey (sample_mint_data area) 46 = Inr None"
    by (simp_all add: sample_mint_data_def readCOptionPubkey_def readU32LE_def Let_def min_def drop_Cons')
qed (simp_all add: sample_mint_data_def TLV_START_def ACCOUNT_TYPE_OFFSET_def ACCOUNT_TYPE_MINT_def nth_append)

lemma decode_sample_mint:
  assumes "list_all valid_entry es"
  shows "\<exists>m. decodeMint (sample_mint_data (concat (map tlv_bytes es))) TOKEN_2022_PROGRAM = Inr m \<and>
    dm_extensions m = entries_at TLV_START es \<and> transferFeeConfig m = foldl entry_fee None es"
proof -
  let ?d = "sample_mint_data (concat (map tlv_bytes es))"
  have "tlv_loop ?d TLV_START None =
      ebind (tlv_loop ?d (length ?d - 0) (foldl entry_fee None es)) (\<lambda>(es', fee'). Inr (entries_at TLV_START es @ es', fee'))"
    using tlv_loop_prefix [of TLV_START ?d es "[]" None] assms sample_mint_fields(1,2) by (simp add: TLV_START_def)
  also have "tlv_loop ?d (length ?d - 0) (foldl entry_fee None es) = Inr ([], foldl entry_fee None es)"
    by (rule tlv_loop_end [of "[]"]) (simp_all add: tlv_end_def)
  finally have loop: "tlv_loop ?d TLV_START None = Inr (entries_at TLV_START es, foldl entry_fee None es)" by simp
  have sizes: "\<not> 166 + length a < BASE_MINT_LEN" "BASE_MINT_LEN < 166 + length a" "\<not> 166 + length a \<le> ACCOUNT_TYPE_OFFSET" for a :: bytes
    by (simp_all add: BASE_MINT_LEN_def ACCOUNT_TYPE_OFFSET_def)
  show ?thesis
    unfolding decodeMint_def by (simp add: Let_def sample_mint_fields sizes loop)
qed

definition sample_entries :: "(nat \<times> bytes) list" where
  "sample_entries = [(14, replicate 64 0), (1, sample_fee_value)]"

lemma sample_entries: "list_all valid_entry sample_entries"
  by (simp add: sample_entries_def valid_entry_def MAX_KNOWN_EXTENSION_def sample_fee_value_def)

theorem decodeMint_reads_all_extensions_witness:
  "\<exists>m es t. decodeMint (sample_mint_data (concat (map tlv_bytes sample_entries))) TOKEN_2022_PROGRAM = Inr m \<and>
    length (dm_extensions m) = 2 \<and> concat (map tlv_bytes sample_entries) = concat (map tlv_bytes es) @ t \<and>
    dm_extensions m = entries_at TLV_START es"
proof -
  obtain m where m: "decodeMint (sample_mint_data (concat (map tlv_bytes sample_entries))) TOKEN_2022_PROGRAM = Inr m"
    "dm_extensions m = entries_at TLV_START sample_entries"
    using decode_sample_mint [OF sample_entries] by blast
  have "length (dm_extensions m) = 2" unfolding m(2) by (simp add: sample_entries_def)
  moreover have "BASE_MINT_LEN < length (sample_mint_data (concat (map tlv_bytes sample_entries)))"
    by (simp add: sample_mint_fields BASE_MINT_LEN_def)
  ultimately show ?thesis
    using decodeMint_reads_all_extensions [OF m(1)] m(1) by (auto simp: sample_mint_fields)
qed

text \<open>The sample is accepted; with an entry of type 29 appended, or without its initialized flag, it is refused.\<close>

theorem decodeMint_accepts_exactly_witness:
  "is_ok (decodeMint (sample_mint_data (concat (map tlv_bytes sample_entries))) TOKEN_2022_PROGRAM) \<and>
   \<not> is_ok (decodeMint (sample_mint_data (concat (map tlv_bytes sample_entries) @ tlv_bytes (29, [7]) @ [])) TOKEN_2022_PROGRAM) \<and>
   \<not> is_ok (decodeMint ((sample_mint_data []) [45 := 0]) TOKEN_2022_PROGRAM)"
proof (intro conjI)
  show "is_ok (decodeMint (sample_mint_data (concat (map tlv_bytes sample_entries))) TOKEN_2022_PROGRAM)"
    using decode_sample_mint [OF sample_entries] by auto
  have d: "drop 166 (sample_mint_data area) = area" for area using sample_mint_fields(2) by (simp add: TLV_START_def)
  show "\<not> is_ok (decodeMint (sample_mint_data (concat (map tlv_bytes sample_entries) @ tlv_bytes (29, [7]) @ [])) TOKEN_2022_PROGRAM)"
    using decodeMint_accepts_exactly [THEN conjunct2, rule_format, of _ sample_entries 29 "[7]" "[]"] sample_entries d by simp
  show "\<not> is_ok (decodeMint ((sample_mint_data []) [45 := 0]) TOKEN_2022_PROGRAM)"
    unfolding decodeMint_accepts_exactly [THEN conjunct1] by (simp add: sample_mint_fields)
qed

text \<open>A transfer fee configuration too short to be read is accepted and reported as no fee.\<close>

theorem short_fee_config_accepted:
  "\<exists>m. decodeMint (sample_mint_data (concat (map tlv_bytes [(1, replicate 107 255)]))) TOKEN_2022_PROGRAM = Inr m \<and>
    transferFee m = None \<and> hostileExtensions m = [] \<and> map discriminant (dm_extensions m) = [1]"
proof -
  have v: "list_all valid_entry [(1, replicate 107 255)]" by (simp add: valid_entry_def MAX_KNOWN_EXTENSION_def)
  obtain m where m: "decodeMint (sample_mint_data (concat (map tlv_bytes [(1, replicate 107 255)]))) TOKEN_2022_PROGRAM = Inr m"
    "dm_extensions m = entries_at TLV_START [(1, replicate 107 255)]" "transferFeeConfig m = None"
    using decode_sample_mint [OF v] by (auto simp: entry_fee_def)
  have "BASE_MINT_LEN < length (sample_mint_data (concat (map tlv_bytes [(1, replicate 107 255)])))"
    by (simp add: sample_mint_fields BASE_MINT_LEN_def)
  then show ?thesis using decodeMint_2022(2,3) [OF m(1)] m by (simp add: HOSTILE_EXTENSIONS_def)
qed

section \<open>Transfer fees\<close>

lemma fee_bounds:
  assumes "0 \<le> amount" and "0 \<le> maximumFee fee" and "basisPoints fee \<le> 10000"
  shows "0 \<le> amountAfterTransferFee amount fee" and "amountAfterTransferFee amount fee \<le> amount"
proof -
  let ?raw = "(amount * int (basisPoints fee) + 9999) div 10000"
  have "amount * int (basisPoints fee) \<le> amount * 10000" using assms by (intro mult_left_mono) simp_all
  then have "amount * int (basisPoints fee) + 9999 < (amount + 1) * 10000" by simp
  then have "?raw < amount + 1" by (simp add: div_less_iff_less_mult)
  moreover have "0 \<le> ?raw" using assms by (simp add: pos_imp_zdiv_nonneg_iff)
  ultimately show "0 \<le> amountAfterTransferFee amount fee" "amountAfterTransferFee amount fee \<le> amount"
    using assms by (auto simp: amountAfterTransferFee_def Let_def bdiv_nonneg)
qed

lemma fee_mono:
  assumes "0 \<le> amount" and "basisPoints a \<le> basisPoints b" and "maximumFee a \<le> maximumFee b" and "0 \<le> maximumFee a"
  shows "amountAfterTransferFee amount b \<le> amountAfterTransferFee amount a"
proof -
  have le: "(amount * int (basisPoints a) + 9999) div 10000 \<le> (amount * int (basisPoints b) + 9999) div 10000"
    using assms by (intro zdiv_mono1 add_mono mult_left_mono) simp_all
  have nn: "0 \<le> (amount * int (basisPoints b) + 9999) div 10000"
    using assms by (simp add: pos_imp_zdiv_nonneg_iff)
  show ?thesis
    using assms le nn by (auto simp: amountAfterTransferFee_def Let_def bdiv_nonneg)
qed

text \<open>the worst-case fee is the worst whenever the cap moves with the rate. If the schedule with
  the higher rate does not have the lower cap, then at every epoch and for every amount the
  recipient gets at least what the worst case predicts, between nothing and the amount sent.\<close>

theorem worst_case_fee_bounds:
  assumes "0 \<le> amount" and "0 \<le> maximumFee (older c)" and "0 \<le> maximumFee (newer c)"
    and "basisPoints (older c) \<le> 10000" and "basisPoints (newer c) \<le> 10000"
    and "basisPoints (older c) < basisPoints (newer c) \<Longrightarrow> maximumFee (older c) \<le> maximumFee (newer c)"
    and "basisPoints (newer c) < basisPoints (older c) \<Longrightarrow> maximumFee (newer c) \<le> maximumFee (older c)"
  shows "0 \<le> amountAfterTransferFee amount (worstCaseTransferFee c) \<and>
    amountAfterTransferFee amount (worstCaseTransferFee c) \<le> amountAfterTransferFee amount (transferFeeAtEpoch c e) \<and>
    amountAfterTransferFee amount (transferFeeAtEpoch c e) \<le> amount"
proof -
  have worst: "worstCaseTransferFee c = older c \<or> worstCaseTransferFee c = newer c"
    by (simp add: worstCaseTransferFee_def Let_def)
  have dearer: "basisPoints f \<le> basisPoints (worstCaseTransferFee c) \<and> maximumFee f \<le> maximumFee (worstCaseTransferFee c)"
    if "f = older c \<or> f = newer c" for f
    using that assms(6,7) by (auto simp: worstCaseTransferFee_def Let_def)
  have at: "transferFeeAtEpoch c e = older c \<or> transferFeeAtEpoch c e = newer c"
    by (simp add: transferFeeAtEpoch_def)
  have nn: "0 \<le> maximumFee (transferFeeAtEpoch c e)" "basisPoints (transferFeeAtEpoch c e) \<le> 10000"
    "0 \<le> maximumFee (worstCaseTransferFee c)" "basisPoints (worstCaseTransferFee c) \<le> 10000"
    using at worst assms(2-5) by auto
  show ?thesis
    using fee_bounds(1) [OF assms(1) nn(3,4)] fee_bounds(2) [OF assms(1) nn(1,2)]
      fee_mono [OF assms(1) _ _ nn(1)] dearer [OF at] by blast
qed

theorem worst_case_fee_bounds_witness:
  "amountAfterTransferFee 1000000 (worstCaseTransferFee
      \<lparr>older = \<lparr>basisPoints = 1000, maximumFee = 5000, epoch = 1\<rparr>,
       newer = \<lparr>basisPoints = 0, maximumFee = 5000, epoch = 200\<rparr>, fc_withheldAmount = 0\<rparr>) \<le>
   amountAfterTransferFee 1000000 (transferFeeAtEpoch
      \<lparr>older = \<lparr>basisPoints = 1000, maximumFee = 5000, epoch = 1\<rparr>,
       newer = \<lparr>basisPoints = 0, maximumFee = 5000, epoch = 200\<rparr>, fc_withheldAmount = 0\<rparr> 100)"
  by (rule worst_case_fee_bounds [THEN conjunct2, THEN conjunct1]) simp_all

text \<open>the worst-case fee understates when the dearer rate has the lower cap. There is a
  configuration for which the schedule in force takes five million atoms of a transfer and the
  worst case predicts ten.\<close>

theorem worst_case_fee_understates:
  "amountAfterTransferFee (10 ^ 9) (worstCaseTransferFee
      \<lparr>older = \<lparr>basisPoints = 100, maximumFee = 10, epoch = 1\<rparr>,
       newer = \<lparr>basisPoints = 50, maximumFee = 10 ^ 12, epoch = 2\<rparr>, fc_withheldAmount = 0\<rparr>) = 10 ^ 9 - 10 \<and>
   amountAfterTransferFee (10 ^ 9) (transferFeeAtEpoch
      \<lparr>older = \<lparr>basisPoints = 100, maximumFee = 10, epoch = 1\<rparr>,
       newer = \<lparr>basisPoints = 50, maximumFee = 10 ^ 12, epoch = 2\<rparr>, fc_withheldAmount = 0\<rparr> 3) = 10 ^ 9 - 5000000"
  by (simp add: amountAfterTransferFee_def worstCaseTransferFee_def transferFeeAtEpoch_def bdiv_def Let_def)

end
