(* ===== verification/FeeTiers.thy ===== *)
theory FeeTiers
  imports Prelude
begin

text \<open>
  The market-cap fee tiers of a pool, \<open>packages/solana/src/fee-tiers.ts\<close>. The decoded fee config
  comes from the SDK: an optional table of (threshold, fees) and optional flat fees, each component
  already an integer (the coercions \<open>num\<close> and \<open>big\<close> of the decoder's representations are left
  out, and so is \<open>feeConfigHash\<close>). Fee components are integers below \<open>2 ^ 53\<close>, so their sum is
  exact in a double.
\<close>

section \<open>The table\<close>

record FeeSplit =
  lpFeeBps :: int
  protocolFeeBps :: int
  creatorFeeBps :: int
  totalBps :: int

record FeeTier =
  threshold :: int
  tier_fees :: FeeSplit
  roundTripBps :: int

record RawFees =
  raw_lp :: int
  raw_protocol :: int
  raw_creator :: int

definition splitOf :: "RawFees \<Rightarrow> FeeSplit" where
  "splitOf f = \<lparr>lpFeeBps = raw_lp f, protocolFeeBps = raw_protocol f, creatorFeeBps = raw_creator f,
     totalBps = raw_lp f + raw_protocol f + raw_creator f\<rparr>"

definition feeTiersOf :: "(int \<times> RawFees) list option \<Rightarrow> FeeTier list" where
  "feeTiersOf feeTiers = sort_key threshold (map (\<lambda>(t, f).
     let s = splitOf f in \<lparr>threshold = t, tier_fees = s, roundTripBps = totalBps s * 2\<rparr>) (nullish feeTiers []))"

text \<open>Without flat fees every component is the number 0.\<close>

definition flatFeeOf :: "RawFees option \<Rightarrow> FeeSplit" where
  "flatFeeOf flatFees = splitOf (nullish flatFees \<lparr>raw_lp = 0, raw_protocol = 0, raw_creator = 0\<rparr>)"

section \<open>Choosing a tier\<close>

fun tierFor_loop :: "FeeTier list \<Rightarrow> int \<Rightarrow> FeeTier option \<Rightarrow> FeeTier option" where
  "tierFor_loop [] cap found = found"
| "tierFor_loop (t # ts) cap found = (if threshold t \<le> cap then tierFor_loop ts cap (Some t) else found)"

definition tierFor :: "FeeTier list \<Rightarrow> int \<Rightarrow> FeeTier option" where
  "tierFor tiers cap = tierFor_loop tiers cap None"

text \<open>The SDK's rule: below the first threshold the first tier, otherwise the reverse scan.\<close>

definition selectFeeTier :: "FeeTier list \<Rightarrow> int \<Rightarrow> FeeTier option" where
  "selectFeeTier tiers cap = (case tiers of [] \<Rightarrow> None | first # _ \<Rightarrow>
     if cap < threshold first then Some first
     else case find (\<lambda>t. cap \<ge> threshold t) (rev tiers) of Some t \<Rightarrow> Some t | None \<Rightarrow> Some first)"

record Boundary =
  b_cap :: int
  belowRoundTripBps :: int
  aboveRoundTripBps :: int
  stepBps :: int

fun boundaries :: "FeeTier list \<Rightarrow> Boundary list" where
  "boundaries (lo # hi # tiers) =
    (if roundTripBps lo = roundTripBps hi then boundaries (hi # tiers)
     else \<lparr>b_cap = threshold hi, belowRoundTripBps = roundTripBps lo, aboveRoundTripBps = roundTripBps hi,
           stepBps = roundTripBps hi - roundTripBps lo\<rparr> # boundaries (hi # tiers))"
| "boundaries _ = []"

definition floorRange :: "FeeTier list \<Rightarrow> (int \<times> int \<times> int) option" where
  "floorRange tiers = (if tiers = [] then None else
     let rts = map roundTripBps tiers; lo = Min (set rts); hi = Max (set rts) in Some (lo, hi, hi - lo))"

datatype tier_refusal = no_tier_table | supply_not_read | base_reserve_zero

definition poolMarketCapLamports :: "int \<Rightarrow> int \<Rightarrow> int \<Rightarrow> tier_refusal + int" where
  "poolMarketCapLamports quoteReserve baseReserve baseSupply =
    (if baseReserve = 0 then Inl base_reserve_zero else Inr (bdiv (quoteReserve * baseSupply) baseReserve))"

record SelectedTier =
  sel_tier :: "FeeTier option"
  sel_cap :: "int option"
  sel_refusal :: "tier_refusal option"

definition refuse :: "tier_refusal \<Rightarrow> SelectedTier" where
  "refuse r = \<lparr>sel_tier = None, sel_cap = None, sel_refusal = Some r\<rparr>"

definition tierForPool :: "FeeTier list \<Rightarrow> int \<Rightarrow> int \<Rightarrow> int option \<Rightarrow> SelectedTier" where
  "tierForPool tiers quoteReserve baseReserve baseSupply =
    (if tiers = [] then refuse no_tier_table
     else case baseSupply of None \<Rightarrow> refuse supply_not_read
     | Some supply \<Rightarrow>
       if baseReserve = 0 then refuse base_reserve_zero
       else case poolMarketCapLamports quoteReserve baseReserve supply of
           Inl e \<Rightarrow> refuse e
         | Inr cap \<Rightarrow> \<lparr>sel_tier = selectFeeTier tiers cap, sel_cap = Some cap, sel_refusal = None\<rparr>)"

section \<open>Reference definition\<close>

text \<open>The last tier whose threshold the cap reaches.\<close>

definition reached :: "FeeTier list \<Rightarrow> int \<Rightarrow> FeeTier list" where
  "reached tiers cap = filter (\<lambda>t. threshold t \<le> cap) tiers"

definition last_option :: "'a list \<Rightarrow> 'a option" where
  "last_option xs = (if xs = [] then None else Some (last xs))"

lemma feeTiersOf_sorted: "sorted (map threshold (feeTiersOf cfg))"
  by (simp add: feeTiersOf_def)

lemma feeTiersOf_round_trip: "t \<in> set (feeTiersOf cfg) \<Longrightarrow> roundTripBps t = 2 * totalBps (tier_fees t) \<and>
    totalBps (tier_fees t) = lpFeeBps (tier_fees t) + protocolFeeBps (tier_fees t) + creatorFeeBps (tier_fees t)"
  by (auto simp: feeTiersOf_def Let_def splitOf_def)

lemma reached_above: "sorted (map threshold (t # ts)) \<Longrightarrow> \<not> threshold t \<le> cap \<Longrightarrow> reached ts cap = []"
  by (fastforce simp: reached_def filter_empty_conv)

lemma tierFor_loop_reached:
  "sorted (map threshold tiers) \<Longrightarrow>
   tierFor_loop tiers cap found = (if reached tiers cap = [] then found else Some (last (reached tiers cap)))"
proof (induction tiers arbitrary: found)
  case (Cons t ts)
  then show ?case
    using reached_above [of t ts cap] by (auto simp: reached_def)
qed (simp add: reached_def)

lemma tierFor_reached: "sorted (map threshold tiers) \<Longrightarrow> tierFor tiers cap = last_option (reached tiers cap)"
  by (simp add: tierFor_def tierFor_loop_reached last_option_def)

lemma find_rev: "find P (rev xs) = last_option (filter P xs)"
  by (induction xs rule: rev_induct) (simp_all add: last_option_def)

lemma selectFeeTier_reached:
  assumes "sorted (map threshold tiers)" and "tiers \<noteq> []"
  shows "selectFeeTier tiers cap = Some (if reached tiers cap = [] then hd tiers else last (reached tiers cap))"
proof -
  obtain t ts where tiers: "tiers = t # ts" using assms(2) by (cases tiers) auto
  have find: "find (\<lambda>t. cap \<ge> threshold t) (rev tiers) = last_option (reached tiers cap)"
    by (simp only: find_rev reached_def)
  show ?thesis
  proof (cases "cap < threshold t")
    case True
    then have "reached tiers cap = []" using reached_above [of t ts cap] assms(1) by (simp add: tiers reached_def)
    then show ?thesis using True by (simp add: selectFeeTier_def tiers)
  next
    case False
    then have "reached tiers cap \<noteq> []" by (simp add: tiers reached_def)
    then show ?thesis using False find by (simp add: selectFeeTier_def tiers last_option_def)
  qed
qed

text \<open>What one leg pays twice at a market cap.\<close>

definition charged :: "FeeTier list \<Rightarrow> int \<Rightarrow> int" where
  "charged tiers cap = (case selectFeeTier tiers cap of None \<Rightarrow> 0 | Some t \<Rightarrow> roundTripBps t)"

lemma charged_Cons:
  assumes "sorted_wrt (<) (map threshold (t # u # ts))"
  shows "charged (t # u # ts) cap = (if cap < threshold u then roundTripBps t else charged (u # ts) cap)"
proof -
  have s: "sorted (map threshold (t # u # ts))" "sorted (map threshold (u # ts))"
    using assms unfolding list.map by (auto simp: strict_sorted_iff)
  have "threshold t < threshold u" using assms by simp
  moreover have "cap < threshold u \<Longrightarrow> reached (u # ts) cap = []"
    using reached_above [OF s(2)] by (simp add: reached_def)
  ultimately show ?thesis
    unfolding charged_def selectFeeTier_reached [OF s(1) list.simps(3)] selectFeeTier_reached [OF s(2) list.simps(3)]
    by (auto simp: reached_def)
qed

lemma boundaries_above: "sorted_wrt (<) (map threshold (t # ts)) \<Longrightarrow> b \<in> set (boundaries (t # ts)) \<Longrightarrow> threshold t < b_cap b"
proof (induction ts arbitrary: t)
  case (Cons u ts)
  then show ?case by (fastforce split: if_splits)
qed simp

lemma charged_steps:
  "sorted_wrt (<) (map threshold tiers) \<Longrightarrow>
   charged tiers (cap - 1) \<noteq> charged tiers cap \<longleftrightarrow> cap \<in> b_cap ` set (boundaries tiers)"
proof (induction tiers rule: boundaries.induct)
  case (1 t u ts)
  have sorted: "sorted_wrt (<) (map threshold (u # ts))" using "1.prems" by simp
  have IH: "charged (u # ts) (cap - 1) \<noteq> charged (u # ts) cap \<longleftrightarrow> cap \<in> b_cap ` set (boundaries (u # ts))"
    using "1.IH" sorted by (cases "roundTripBps t = roundTripBps u") simp_all
  have above: "b \<in> set (boundaries (u # ts)) \<Longrightarrow> threshold u < b_cap b" for b
    by (rule boundaries_above [OF sorted])
  have at: "charged (u # ts) (threshold u) = roundTripBps u"
  proof (cases ts)
    case Nil
    then show ?thesis by (simp add: charged_def selectFeeTier_def)
  next
    case (Cons v vs)
    then show ?thesis using charged_Cons [of u v vs "threshold u"] sorted by simp
  qed
  consider "cap < threshold u" | "cap = threshold u" | "cap > threshold u" by linarith
  then show ?case
  proof cases
    case 1
    then show ?thesis using charged_Cons [OF "1.prems"(1)] above by (fastforce split: if_splits)
  next
    case 2
    then show ?thesis using charged_Cons [OF "1.prems"(1)] at above by (fastforce split: if_splits)
  next
    case 3
    then show ?thesis using charged_Cons [OF "1.prems"(1)] IH by (auto split: if_splits)
  qed
qed (simp_all add: charged_def selectFeeTier_def)

section \<open>Properties\<close>

text \<open>The SDK's rule and the table lookup agree: on the decoded table both give the last tier whose
  threshold the market cap reaches, and below the first threshold, where the lookup finds nothing,
  the pool is charged the first tier.\<close>

theorem tier_rules_agree:
  "selectFeeTier (feeTiersOf cfg) cap =
    (case feeTiersOf cfg of [] \<Rightarrow> None
     | first # _ \<Rightarrow> Some (nullish (tierFor (feeTiersOf cfg) cap) first)) \<and>
   tierFor (feeTiersOf cfg) cap = last_option (filter (\<lambda>t. threshold t \<le> cap) (feeTiersOf cfg))"
proof
  show "tierFor (feeTiersOf cfg) cap = last_option (filter (\<lambda>t. threshold t \<le> cap) (feeTiersOf cfg))"
    unfolding tierFor_reached [OF feeTiersOf_sorted] reached_def ..
  show "selectFeeTier (feeTiersOf cfg) cap = (case feeTiersOf cfg of [] \<Rightarrow> None
     | first # _ \<Rightarrow> Some (nullish (tierFor (feeTiersOf cfg) cap) first))"
  proof (cases "feeTiersOf cfg = []")
    case True
    then show ?thesis by (simp add: selectFeeTier_def)
  next
    case False
    then show ?thesis
      unfolding selectFeeTier_reached [OF feeTiersOf_sorted False] tierFor_reached [OF feeTiersOf_sorted]
      by (cases "feeTiersOf cfg") (simp_all add: last_option_def)
  qed
qed

text \<open>The boundary list is exact: with distinct thresholds, the round trip charged at a market cap
  differs from the one charged a lamport below exactly at the listed caps.\<close>

theorem boundaries_exact:
  assumes "distinct (map threshold (feeTiersOf cfg))"
  shows "charged (feeTiersOf cfg) (cap - 1) \<noteq> charged (feeTiersOf cfg) cap \<longleftrightarrow>
    cap \<in> b_cap ` set (boundaries (feeTiersOf cfg))"
  by (rule charged_steps) (simp add: strict_sorted_iff assms feeTiersOf_sorted)

theorem boundaries_exact_witness:
  "let cfg = Some [(100, \<lparr>raw_lp = 20, raw_protocol = 5, raw_creator = 5\<rparr>), (0, \<lparr>raw_lp = 20, raw_protocol = 5, raw_creator = 95\<rparr>)]
   in charged (feeTiersOf cfg) (100 - 1) \<noteq> charged (feeTiersOf cfg) 100 \<longleftrightarrow>
     100 \<in> b_cap ` set (boundaries (feeTiersOf cfg))"
  unfolding Let_def by (rule boundaries_exact) (simp add: feeTiersOf_def Let_def)

text \<open>Classification refuses by name or prices: with a table, a supply and a nonzero base reserve a
  tier is always selected, for the market cap quote * supply / base, and it charges twice the sum of
  its components; otherwise there is a refusal and no tier.\<close>

theorem tierForPool_total:
  "(let s = tierForPool (feeTiersOf cfg) quote base supply in
    if feeTiersOf cfg \<noteq> [] \<and> supply \<noteq> None \<and> base \<noteq> 0
    then sel_refusal s = None \<and> sel_cap s = Some (bdiv (quote * the supply) base) \<and>
      (case sel_tier s of None \<Rightarrow> False
       | Some t \<Rightarrow> t \<in> set (feeTiersOf cfg) \<and> roundTripBps t =
           2 * (lpFeeBps (tier_fees t) + protocolFeeBps (tier_fees t) + creatorFeeBps (tier_fees t)))
    else sel_refusal s \<noteq> None \<and> sel_tier s = None \<and> sel_cap s = None)"
proof -
  have mem: "\<exists>t. selectFeeTier (feeTiersOf cfg) cap = Some t \<and> t \<in> set (feeTiersOf cfg)"
    if "feeTiersOf cfg \<noteq> []" for cap
  proof -
    have "last (reached (feeTiersOf cfg) cap) \<in> set (feeTiersOf cfg)" if "reached (feeTiersOf cfg) cap \<noteq> []"
      using last_in_set [OF that] by (simp add: reached_def)
    then show ?thesis using that by (auto simp: selectFeeTier_reached [OF feeTiersOf_sorted])
  qed
  show ?thesis
  proof (cases "feeTiersOf cfg \<noteq> [] \<and> supply \<noteq> None \<and> base \<noteq> 0")
    case True
    then obtain t where "selectFeeTier (feeTiersOf cfg) (bdiv (quote * the supply) base) = Some t" "t \<in> set (feeTiersOf cfg)"
      using mem by blast
    then show ?thesis
      using True feeTiersOf_round_trip [of t cfg] by (auto simp: tierForPool_def poolMarketCapLamports_def Let_def)
  qed (auto simp: tierForPool_def refuse_def Let_def split: option.splits)
qed

end
