(* ===== verification/Reservation.thy ===== *)
theory Reservation
  imports Amounts
begin

text \<open>
  The sampling slots of the trajectory collectors, \<open>packages/storage/src/reservation-repo.ts\<close>,
  on the table and indexes that \<open>db.ts\<close> declares for them. A transaction under
  \<open>BEGIN IMMEDIATE\<close> is one atomic function on the store, and a rolled-back one leaves the store
  as it was. Rows are kept in insertion order (the order of a \<open>SELECT\<close> without \<open>ORDER BY\<close>
  does not matter here: an index allows at most one row in each loop). SHA-256 is the argument
  \<open>digest\<close>, from the hashed text to its hexadecimal digest; \<open>newWindowId\<close>, which is random, is
  left out.
\<close>

section \<open>The store\<close>

datatype reservation_status = RESERVED | OPENED | ABANDONED

record ReservationRow =
  r_id :: string
  r_window :: string
  r_context :: "string option"
  r_mint :: string
  r_ordinal :: int
  r_max :: int
  r_trajectory :: "string option"
  r_status :: reservation_status
  r_reserved :: int
  r_resolved :: "int option"
  r_owner :: string

record TrajectoryRow =
  t_id :: string
  t_mint :: string
  t_settled :: bool
  t_contexts :: "string list"

record SessionRow =
  s_id :: string
  s_ended :: "int option"
  s_heartbeat :: "int option"
  s_pid :: "int option"

record Store =
  reservations :: "ReservationRow list"
  trajectories :: "TrajectoryRow list"
  sessions :: "SessionRow list"

text \<open>\<open>COALESCE(evidence_context_id, window_id)\<close>.\<close>

definition scope_of :: "ReservationRow \<Rightarrow> string" where
  "scope_of r = nullish (r_context r) (r_window r)"

text \<open>The checks and unique indexes a new row has to pass.\<close>

definition insert_ok :: "ReservationRow list \<Rightarrow> ReservationRow \<Rightarrow> bool" where
  "insert_ok rows r \<longleftrightarrow>
     list_all (\<lambda>q. r_id q \<noteq> r_id r) rows \<and>
     r_ordinal r \<ge> 1 \<and> r_max r \<ge> 1 \<and> r_ordinal r \<le> r_max r \<and>
     (r_status r = RESERVED \<longrightarrow>
       list_all (\<lambda>q. \<not> (r_status q = RESERVED \<and> scope_of q = scope_of r \<and> r_mint q = r_mint r)) rows) \<and>
     (r_status r \<noteq> ABANDONED \<longrightarrow>
       list_all (\<lambda>q. \<not> (r_status q \<noteq> ABANDONED \<and> scope_of q = scope_of r \<and> r_mint q = r_mint r \<and>
         r_ordinal q = r_ordinal r)) rows) \<and>
     (r_trajectory r \<noteq> None \<longrightarrow> list_all (\<lambda>q. r_trajectory q \<noteq> r_trajectory r) rows)"

section \<open>Reserving\<close>

datatype refusal_code = ALREADY_OPEN | CAP_REACHED | RACE_LOST | NO_SESSION

record ReserveOpts =
  windowId :: string
  o_mint :: string
  maxPerMint :: int
  ownerSessionId :: string
  nowMs :: int
  includeHistoric :: bool
  staleReservationMs :: "int option"
  pidAlive :: "int \<Rightarrow> bool"
  evidenceContextId :: "string option"

record ReservationTicket =
  reservationId :: string
  tk_windowId :: string
  tk_mint :: string
  tk_ordinal :: int
  tk_maxPerMint :: int
  tk_ownerSessionId :: string
  reservedUtcMs :: int

definition STALE_RESERVATION_MS :: int where
  "STALE_RESERVATION_MS = 15 * 60 * 1000"

definition bigint_text :: "int \<Rightarrow> string" where
  "bigint_text n = (if n < 0 then ''-'' @ decimal (nat (- n)) else decimal (nat n))"

definition reservation_id :: "(string \<Rightarrow> string) \<Rightarrow> string \<Rightarrow> string \<Rightarrow> int \<Rightarrow> int \<Rightarrow> string" where
  "reservation_id digest window mint ordinal attempt =
     ''resv-'' @ take 32 (digest (window @ ''|'' @ mint @ ''|'' @ bigint_text ordinal @ ''|'' @ bigint_text attempt))"

text \<open>The unresolved rows for the mint in the scope, with the session that owns each (LEFT JOIN).\<close>

definition held_rows :: "string \<Rightarrow> string \<Rightarrow> ReservationRow list \<Rightarrow> ReservationRow list" where
  "held_rows scope mint = filter (\<lambda>r. scope_of r = scope \<and> r_mint r = mint \<and> r_status r = RESERVED)"

definition session_of :: "Store \<Rightarrow> ReservationRow \<Rightarrow> SessionRow option" where
  "session_of st r = find (\<lambda>s. s_id s = r_owner r) (sessions st)"

text \<open>The three signals, any of which makes the owner dead.\<close>

definition owner_dead :: "ReserveOpts \<Rightarrow> Store \<Rightarrow> ReservationRow \<Rightarrow> bool" where
  "owner_dead opts st h =
    (let ses = session_of st h;
         ended = (case ses of None \<Rightarrow> None | Some s \<Rightarrow> s_ended s);
         heartbeat = (case ses of None \<Rightarrow> None | Some s \<Rightarrow> s_heartbeat s);
         pid = (case ses of None \<Rightarrow> None | Some s \<Rightarrow> s_pid s);
         stale = nullish (staleReservationMs opts) STALE_RESERVATION_MS;
         ownerEnded = (ended \<noteq> None);
         ownerPidDead = (case pid of None \<Rightarrow> False | Some p \<Rightarrow> \<not> pidAlive opts p);
         ownerSilent = (case heartbeat of None \<Rightarrow> True | Some b \<Rightarrow> nowMs opts - b \<ge> stale);
         old = (nowMs opts - r_reserved h \<ge> stale)
     in ownerEnded \<or> ownerPidDead \<or> (ownerSilent \<and> old))"

text \<open>\<open>UPDATE \<dots> SET status WHERE reservation_id = ? AND status = 'RESERVED'\<close>.\<close>

definition resolve_row :: "string \<Rightarrow> (ReservationRow \<Rightarrow> ReservationRow) \<Rightarrow> ReservationRow list \<Rightarrow> ReservationRow list" where
  "resolve_row i f = map (\<lambda>r. if r_id r = i \<and> r_status r = RESERVED then f r else r)"

definition abandon :: "int \<Rightarrow> ReservationRow \<Rightarrow> ReservationRow" where
  "abandon now r = r\<lparr>r_status := ABANDONED, r_resolved := Some now\<rparr>"

fun reclaim :: "ReserveOpts \<Rightarrow> Store \<Rightarrow> ReservationRow list \<Rightarrow> ReservationRow list \<Rightarrow>
    refusal_code + ReservationRow list" where
  "reclaim opts st [] rows = Inr rows"
| "reclaim opts st (h # hs) rows =
    (if r_owner h = ownerSessionId opts then Inl ALREADY_OPEN
     else if owner_dead opts st h
     then reclaim opts st hs (resolve_row (r_id h) (abandon (nowMs opts)) rows)
     else Inl ALREADY_OPEN)"

definition count_rows :: "(ReservationRow \<Rightarrow> bool) \<Rightarrow> ReservationRow list \<Rightarrow> int" where
  "count_rows P rows = int (length (filter P rows))"

text \<open>Steps 2 to 4: the ordinal, the cap, the insert.\<close>

definition claim_slot :: "(string \<Rightarrow> string) \<Rightarrow> ReserveOpts \<Rightarrow> Store \<Rightarrow> ReservationRow list \<Rightarrow>
    refusal_code + ReservationTicket \<times> ReservationRow list" where
  "claim_slot digest opts st rows =
    (let scope = nullish (evidenceContextId opts) (windowId opts);
         mine = (\<lambda>r. scope_of r = scope \<and> r_mint r = o_mint opts);
         used = (if includeHistoric opts
                 then count_rows (\<lambda>r. mine r \<and> r_status r = RESERVED) rows
                 else count_rows (\<lambda>r. mine r \<and> r_status r \<noteq> ABANDONED) rows);
         historic = (if includeHistoric opts
                     then int (length (filter (\<lambda>t. t_mint t = o_mint opts) (trajectories st))) else 0);
         ordinal = used + historic + 1
     in if ordinal > maxPerMint opts then Inl CAP_REACHED
        else
          let priorAttempts = count_rows (\<lambda>r. mine r \<and> r_ordinal r = ordinal) rows;
              i = reservation_id digest scope (o_mint opts) ordinal (priorAttempts + 1);
              row = \<lparr>r_id = i, r_window = windowId opts, r_context = evidenceContextId opts,
                     r_mint = o_mint opts, r_ordinal = ordinal, r_max = maxPerMint opts,
                     r_trajectory = None, r_status = RESERVED, r_reserved = nowMs opts,
                     r_resolved = None, r_owner = ownerSessionId opts\<rparr>
          in if \<not> insert_ok rows row then Inl RACE_LOST
             else Inr (\<lparr>reservationId = i, tk_windowId = windowId opts, tk_mint = o_mint opts,
                        tk_ordinal = ordinal, tk_maxPerMint = maxPerMint opts,
                        tk_ownerSessionId = ownerSessionId opts, reservedUtcMs = nowMs opts\<rparr>,
                       rows @ [row]))"

definition open_trajectories :: "ReserveOpts \<Rightarrow> Store \<Rightarrow> TrajectoryRow list" where
  "open_trajectories opts st = filter (\<lambda>t. t_mint t = o_mint opts \<and> \<not> t_settled t \<and>
     (case evidenceContextId opts of None \<Rightarrow> True | Some c \<Rightarrow> c \<in> set (t_contexts t))) (trajectories st)"

definition reserve_rows :: "(string \<Rightarrow> string) \<Rightarrow> ReserveOpts \<Rightarrow> Store \<Rightarrow>
    refusal_code + ReservationTicket \<times> ReservationRow list" where
  "reserve_rows digest opts st =
    (let scope = nullish (evidenceContextId opts) (windowId opts) in
     if maxPerMint opts < 1 then Inl CAP_REACHED
     else if length (open_trajectories opts st) > 0 then Inl ALREADY_OPEN
     else ebind (reclaim opts st (held_rows scope (o_mint opts) (reservations st)) (reservations st))
       (claim_slot digest opts st))"

text \<open>COMMIT, or ROLLBACK and the exception.\<close>

definition reserveCandidate :: "(string \<Rightarrow> string) \<Rightarrow> ReserveOpts \<Rightarrow> Store \<Rightarrow>
    (refusal_code + ReservationTicket) \<times> Store" where
  "reserveCandidate digest opts st =
    (case reserve_rows digest opts st of
       Inl c \<Rightarrow> (Inl c, st)
     | Inr (ticket, rows) \<Rightarrow> (Inr ticket, st\<lparr>reservations := rows\<rparr>))"

section \<open>Resolving\<close>

datatype resolve_error = wrong_row_count int | trajectory_taken string

definition changed_rows :: "string \<Rightarrow> ReservationRow list \<Rightarrow> int" where
  "changed_rows i = count_rows (\<lambda>r. r_id r = i \<and> r_status r = RESERVED)"

definition opened :: "string \<Rightarrow> int \<Rightarrow> ReservationRow \<Rightarrow> ReservationRow" where
  "opened traj now r = r\<lparr>r_trajectory := Some traj, r_status := OPENED, r_resolved := Some now\<rparr>"

definition resolveReservation :: "string \<Rightarrow> string \<Rightarrow> int \<Rightarrow> Store \<Rightarrow> resolve_error + Store" where
  "resolveReservation i traj now st =
    (let rows = reservations st; n = changed_rows i rows in
     if n > 0 \<and> list_ex (\<lambda>q. r_trajectory q = Some traj) rows then Inl (trajectory_taken traj)
     else if n \<noteq> 1 then Inl (wrong_row_count n)
     else Inr (st\<lparr>reservations := resolve_row i (opened traj now) rows\<rparr>))"

definition abandonReservation :: "string \<Rightarrow> int \<Rightarrow> Store \<Rightarrow> resolve_error + Store" where
  "abandonReservation i now st =
    (let n = changed_rows i (reservations st) in
     if n \<noteq> 1 then Inl (wrong_row_count n)
     else Inr (st\<lparr>reservations := resolve_row i (abandon now) (reservations st)\<rparr>))"

text \<open>\<open>GROUP BY mint HAVING n > cap\<close>; (mint, count, cap) per breached mint.\<close>

definition capBreaches :: "string \<Rightarrow> Store \<Rightarrow> (string \<times> int \<times> int) list" where
  "capBreaches window st =
    (let rows = filter (\<lambda>r. r_window r = window \<and> r_status r \<noteq> ABANDONED) (reservations st);
         group = (\<lambda>m. filter (\<lambda>r. r_mint r = m) rows)
     in map (\<lambda>m. (m, int (length (group m)), Max (set (map r_max (group m)))))
          (filter (\<lambda>m. int (length (group m)) > Max (set (map r_max (group m)))) (js_set_of (map r_mint rows))))"

section \<open>Histories\<close>

text \<open>
  What collectors do to the store, one transaction at a time and in any order: reserve (with or
  without counting history, as \<open>hist\<close> says), open, abandon. Everything else in the database
  (trajectories, sessions) may change arbitrarily between them.
\<close>

inductive collector_step :: "(string \<Rightarrow> string) \<Rightarrow> bool \<Rightarrow> Store \<Rightarrow> Store \<Rightarrow> bool" for digest hist where
  step_reserve: "includeHistoric opts = hist \<Longrightarrow> reserveCandidate digest opts st = (result, st') \<Longrightarrow>
    collector_step digest hist st st'"
| step_resolve: "resolveReservation i traj now st = Inr st' \<Longrightarrow> collector_step digest hist st st'"
| step_abandon: "abandonReservation i now st = Inr st' \<Longrightarrow> collector_step digest hist st st'"
| step_other: "reservations st' = reservations st \<Longrightarrow> collector_step digest hist st st'"

inductive collector_reachable :: "(string \<Rightarrow> string) \<Rightarrow> bool \<Rightarrow> Store \<Rightarrow> bool" for digest hist where
  reach_start: "reservations st = [] \<Longrightarrow> collector_reachable digest hist st"
| reach_step: "collector_reachable digest hist st \<Longrightarrow> collector_step digest hist st st' \<Longrightarrow>
    collector_reachable digest hist st'"

section \<open>What the indexes keep\<close>

definition in_slot :: "string \<Rightarrow> string \<Rightarrow> ReservationRow \<Rightarrow> bool" where
  "in_slot scope mint r \<longleftrightarrow> scope_of r = scope \<and> r_mint r = mint"

text \<open>The samples a mint has in a scope: every row that was not abandoned.\<close>

definition samples :: "string \<Rightarrow> string \<Rightarrow> ReservationRow list \<Rightarrow> ReservationRow list" where
  "samples scope mint rows = filter (\<lambda>r. in_slot scope mint r \<and> r_status r \<noteq> ABANDONED) rows"

definition indexes_hold :: "ReservationRow list \<Rightarrow> bool" where
  "indexes_hold rows \<longleftrightarrow>
     distinct (map r_id rows) \<and>
     (\<forall>r \<in> set rows. 1 \<le> r_ordinal r \<and> r_ordinal r \<le> r_max r) \<and>
     (\<forall>scope mint. distinct (map r_ordinal (samples scope mint rows))) \<and>
     (\<forall>scope mint. length (held_rows scope mint rows) \<le> 1)"

lemma held_rows_slot: "held_rows scope mint rows = filter (\<lambda>r. in_slot scope mint r \<and> r_status r = RESERVED) rows"
  by (auto simp: held_rows_def in_slot_def intro!: filter_cong)

lemma indexes_hold_Nil: "indexes_hold []"
  by (simp add: indexes_hold_def samples_def held_rows_def)

lemma samples_append: "samples scope mint (rows @ [r]) =
    samples scope mint rows @ (if in_slot scope mint r \<and> r_status r \<noteq> ABANDONED then [r] else [])"
  by (simp add: samples_def)

lemma held_rows_append: "held_rows scope mint (rows @ [r]) =
    held_rows scope mint rows @ (if in_slot scope mint r \<and> r_status r = RESERVED then [r] else [])"
  by (simp add: held_rows_slot)

lemma insert_keeps_indexes:
  assumes "indexes_hold rows" and "insert_ok rows r" and "r_status r = RESERVED"
  shows "indexes_hold (rows @ [r])"
proof -
  have ins: "r_id r \<notin> r_id ` set rows" "1 \<le> r_ordinal r" "r_ordinal r \<le> r_max r"
    "\<forall>q \<in> set rows. \<not> (r_status q = RESERVED \<and> scope_of q = scope_of r \<and> r_mint q = r_mint r)"
    "\<forall>q \<in> set rows. \<not> (r_status q \<noteq> ABANDONED \<and> scope_of q = scope_of r \<and> r_mint q = r_mint r \<and>
       r_ordinal q = r_ordinal r)"
    using assms(2,3) by (auto simp: insert_ok_def list_all_iff)
  have "distinct (map r_ordinal (samples scope mint (rows @ [r])))" for scope mint
    using assms(1) ins(5) by (auto simp: samples_append indexes_hold_def in_slot_def samples_def)
  moreover have "length (held_rows scope mint (rows @ [r])) \<le> 1" for scope mint
  proof (cases "in_slot scope mint r")
    case True
    then have "held_rows scope mint rows = []" using ins(4) by (auto simp: held_rows_slot in_slot_def filter_empty_conv)
    then show ?thesis by (simp add: held_rows_append)
  next
    case False
    then show ?thesis using assms(1) by (simp add: held_rows_append indexes_hold_def)
  qed
  ultimately show ?thesis using assms(1) ins(1-3) by (auto simp: indexes_hold_def)
qed

text \<open>A resolved row keeps its identity; only its status, trajectory and resolution time change.\<close>

definition keeps_identity :: "(ReservationRow \<Rightarrow> ReservationRow) \<Rightarrow> bool" where
  "keeps_identity f \<longleftrightarrow> (\<forall>r. r_id (f r) = r_id r \<and> scope_of (f r) = scope_of r \<and> r_mint (f r) = r_mint r \<and>
     r_ordinal (f r) = r_ordinal r \<and> r_max (f r) = r_max r \<and> r_status (f r) \<noteq> RESERVED)"

lemma keeps_identity_cases [simp]: "keeps_identity (abandon now)" "keeps_identity (opened traj now)"
  by (simp_all add: keeps_identity_def abandon_def opened_def scope_of_def)

lemma filter_map_mono:
  assumes "\<And>r. r \<in> set xs \<Longrightarrow> P (f r) \<Longrightarrow> P r" and "\<And>r. r \<in> set xs \<Longrightarrow> g (f r) = g r"
  shows "map g (filter P (map f xs)) = map g (filter (\<lambda>r. P r \<and> P (f r)) xs)"
  using assms by (induction xs) auto

lemma resolve_row_identity:
  assumes "keeps_identity f"
  shows "in_slot scope mint (if r_id r = i \<and> r_status r = RESERVED then f r else r) = in_slot scope mint r"
    and "r_ordinal (if r_id r = i \<and> r_status r = RESERVED then f r else r) = r_ordinal r"
    and "r_max (if r_id r = i \<and> r_status r = RESERVED then f r else r) = r_max r"
    and "r_id (if r_id r = i \<and> r_status r = RESERVED then f r else r) = r_id r"
  using assms by (auto simp: keeps_identity_def in_slot_def)

lemma distinct_map_filter_sub: "distinct (map g (filter P xs)) \<Longrightarrow> distinct (map g (filter (\<lambda>x. P x \<and> Q x) xs))"
proof -
  assume d: "distinct (map g (filter P xs))"
  have "filter (\<lambda>x. P x \<and> Q x) xs = filter Q (filter P xs)" by (induction xs) auto
  then show ?thesis by (simp only: distinct_map_filter [OF d])
qed

lemma length_filter_sub: "length (filter (\<lambda>x. P x \<and> Q x) xs) \<le> length (filter P xs)"
  by (induction xs) auto

lemma samples_resolve:
  assumes "keeps_identity f"
  shows "map r_ordinal (samples scope mint (resolve_row i f rows)) =
    map r_ordinal (filter (\<lambda>r. (in_slot scope mint r \<and> r_status r \<noteq> ABANDONED) \<and>
      r_status (if r_id r = i \<and> r_status r = RESERVED then f r else r) \<noteq> ABANDONED) rows)"
proof -
  have "map r_ordinal (samples scope mint (resolve_row i f rows)) =
    map r_ordinal (filter (\<lambda>r. (in_slot scope mint r \<and> r_status r \<noteq> ABANDONED) \<and>
      (in_slot scope mint (if r_id r = i \<and> r_status r = RESERVED then f r else r) \<and>
       r_status (if r_id r = i \<and> r_status r = RESERVED then f r else r) \<noteq> ABANDONED)) rows)"
    unfolding samples_def resolve_row_def
    by (rule filter_map_mono) (use resolve_row_identity [OF assms] in \<open>auto split: if_splits\<close>)
  then show ?thesis unfolding resolve_row_identity [OF assms] by (simp cong: conj_cong)
qed

lemma held_resolve:
  assumes "keeps_identity f"
  shows "length (held_rows scope mint (resolve_row i f rows)) =
    length (filter (\<lambda>r. (in_slot scope mint r \<and> r_status r = RESERVED) \<and> r_id r \<noteq> i) rows)"
proof -
  have "filter (\<lambda>r. in_slot scope mint r \<and> r_status r = RESERVED) (resolve_row i f rows) =
      filter (\<lambda>r. (in_slot scope mint r \<and> r_status r = RESERVED) \<and> r_id r \<noteq> i) rows"
    using assms by (induction rows) (auto simp: resolve_row_def keeps_identity_def)
  then show ?thesis by (simp add: held_rows_slot)
qed

lemma resolve_keeps_indexes:
  assumes "indexes_hold rows" and "keeps_identity f"
  shows "indexes_hold (resolve_row i f rows)"
proof -
  note same = resolve_row_identity [OF assms(2)]
  have "map r_id (resolve_row i f rows) = map r_id rows" by (simp add: resolve_row_def same)
  moreover have "\<forall>r \<in> set (resolve_row i f rows). 1 \<le> r_ordinal r \<and> r_ordinal r \<le> r_max r"
    using assms by (auto simp: resolve_row_def indexes_hold_def keeps_identity_def)
  moreover have "distinct (map r_ordinal (samples scope mint (resolve_row i f rows)))" for scope mint
    using assms(1) unfolding samples_resolve [OF assms(2)]
    by (intro distinct_map_filter_sub [where P = "\<lambda>r. in_slot scope mint r \<and> r_status r \<noteq> ABANDONED"])
      (simp add: indexes_hold_def samples_def)
  moreover have "length (held_rows scope mint (resolve_row i f rows)) \<le> 1" for scope mint
  proof -
    have "length (held_rows scope mint (resolve_row i f rows)) =
        length (filter (\<lambda>r. (in_slot scope mint r \<and> r_status r = RESERVED) \<and> r_id r \<noteq> i) rows)"
      by (rule held_resolve [OF assms(2)])
    also have "\<dots> \<le> length (filter (\<lambda>r. in_slot scope mint r \<and> r_status r = RESERVED) rows)"
      by (rule length_filter_sub)
    also have "\<dots> = length (held_rows scope mint rows)" by (simp only: held_rows_slot)
    also have "\<dots> \<le> 1" using assms(1) unfolding indexes_hold_def by blast
    finally show ?thesis .
  qed
  ultimately show ?thesis using assms(1) by (simp add: indexes_hold_def)
qed

lemma reclaim_keeps_indexes:
  "indexes_hold rows \<Longrightarrow> reclaim opts st hs rows = Inr rows' \<Longrightarrow> indexes_hold rows'"
  by (induction opts st hs rows rule: reclaim.induct) (auto simp: resolve_keeps_indexes split: if_splits)

lemma claim_slot_Inr:
  assumes "claim_slot digest opts st rows = Inr (ticket, rows')"
  obtains row where "rows' = rows @ [row]" and "insert_ok rows row" and "r_status row = RESERVED"
    and "scope_of row = nullish (evidenceContextId opts) (windowId opts)" and "r_mint row = o_mint opts"
    and "r_ordinal row = tk_ordinal ticket" and "r_max row = maxPerMint opts" and "r_id row = reservationId ticket"
    and "tk_ordinal ticket \<le> maxPerMint opts" and "r_window row = windowId opts" and "r_trajectory row = None"
    and "\<not> includeHistoric opts \<Longrightarrow> r_ordinal row =
      int (length (samples (nullish (evidenceContextId opts) (windowId opts)) (o_mint opts) rows)) + 1"
  using assms
  by (auto simp: claim_slot_def Let_def scope_of_def count_rows_def samples_def in_slot_def split: if_splits)

lemma reserve_keeps_indexes:
  assumes "indexes_hold (reservations st)" and "reserveCandidate digest opts st = (result, st')"
  shows "indexes_hold (reservations st')"
proof (cases "reserve_rows digest opts st")
  case (Inl c)
  then show ?thesis using assms by (auto simp: reserveCandidate_def)
next
  case (Inr p)
  obtain ticket rows' where p: "p = (ticket, rows')" by (cases p)
  obtain rows where rec: "reclaim opts st (held_rows (nullish (evidenceContextId opts) (windowId opts)) (o_mint opts)
      (reservations st)) (reservations st) = Inr rows" and claim: "claim_slot digest opts st rows = Inr (ticket, rows')"
    using Inr p by (auto simp: reserve_rows_def Let_def ebind_eq_Inr split: if_splits)
  have "indexes_hold rows" by (rule reclaim_keeps_indexes [OF assms(1) rec])
  then have "indexes_hold rows'" by (metis claim claim_slot_Inr insert_keeps_indexes)
  then show ?thesis using assms(2) Inr p by (auto simp: reserveCandidate_def)
qed

lemma step_keeps_indexes:
  assumes "collector_step digest hist st st'" and "indexes_hold (reservations st)"
  shows "indexes_hold (reservations st')"
  using assms(1)
proof cases
  case (step_reserve opts result)
  then show ?thesis using reserve_keeps_indexes [OF assms(2)] by blast
next
  case (step_resolve i traj now)
  then show ?thesis using assms(2)
    by (auto simp: resolveReservation_def Let_def resolve_keeps_indexes split: if_splits)
next
  case (step_abandon i now)
  then show ?thesis using assms(2)
    by (auto simp: abandonReservation_def Let_def resolve_keeps_indexes split: if_splits)
next
  case step_other
  then show ?thesis using assms(2) by simp
qed

lemma reachable_indexes: "collector_reachable digest hist st \<Longrightarrow> indexes_hold (reservations st)"
  by (induction rule: collector_reachable.induct) (auto simp: indexes_hold_Nil step_keeps_indexes)

lemma samples_bounded:
  assumes "indexes_hold rows" and "\<forall>r \<in> set (samples scope mint rows). r_max r \<le> cap"
  shows "int (length (samples scope mint rows)) \<le> max 0 cap"
proof -
  let ?S = "samples scope mint rows"
  have d: "distinct (map r_ordinal ?S)" using assms(1) by (simp add: indexes_hold_def)
  have "r_ordinal ` set ?S \<subseteq> {1..cap}"
  proof
    fix n assume "n \<in> r_ordinal ` set ?S"
    then obtain r where r: "n = r_ordinal r" "r \<in> set ?S" by auto
    then have "1 \<le> n" "n \<le> r_max r" using assms(1) by (auto simp: indexes_hold_def samples_def)
    then show "n \<in> {1..cap}" using assms(2) r(2) by auto
  qed
  then have "card (set (map r_ordinal ?S)) \<le> card {1..cap}" by (intro card_mono) simp_all
  then show ?thesis using distinct_card [OF d] by simp
qed

section \<open>Slots are numbered without gaps\<close>

text \<open>Without counting history, the samples of a mint are numbered 1, 2, 3 in the order they were
  taken, and only the last can still be unresolved.\<close>

definition contiguous :: "ReservationRow list \<Rightarrow> bool" where
  "contiguous rows \<longleftrightarrow> (\<forall>scope mint.
     map r_ordinal (samples scope mint rows) = [1..int (length (samples scope mint rows))] \<and>
     list_all (\<lambda>r. r_status r = OPENED) (butlast (samples scope mint rows)))"

lemma samples_abandon:
  "samples scope mint (resolve_row i (abandon now) rows) =
   filter (\<lambda>r. \<not> (r_id r = i \<and> r_status r = RESERVED)) (samples scope mint rows)"
  by (induction rows) (auto simp: resolve_row_def samples_def abandon_def in_slot_def scope_of_def)

lemma samples_opened:
  "samples scope mint (resolve_row i (opened traj now) rows) =
   map (\<lambda>r. if r_id r = i \<and> r_status r = RESERVED then opened traj now r else r) (samples scope mint rows)"
  by (induction rows) (auto simp: resolve_row_def samples_def opened_def in_slot_def scope_of_def)

lemma butlast_upto: "butlast [1..int n] = [1..int (n - 1)]"
  by (cases n) (simp_all add: upto_rec2)

lemma filter_all_but_last:
  "filter P (butlast xs) = butlast xs \<Longrightarrow> filter P xs = xs \<or> filter P xs = butlast xs"
  by (cases xs rule: rev_cases) auto

lemma abandon_contiguous:
  assumes "contiguous rows"
  shows "contiguous (resolve_row i (abandon now) rows)"
  unfolding contiguous_def
proof (intro allI)
  fix scope mint
  let ?S = "samples scope mint rows" and ?keep = "\<lambda>r. \<not> (r_id r = i \<and> r_status r = RESERVED)"
  have c: "map r_ordinal ?S = [1..int (length ?S)]" "list_all (\<lambda>r. r_status r = OPENED) (butlast ?S)"
    using assms unfolding contiguous_def by blast+
  have front: "filter ?keep (butlast ?S) = butlast ?S"
    using c(2) by (auto simp: filter_id_conv list_all_iff)
  have "filter ?keep ?S = ?S \<or> filter ?keep ?S = butlast ?S" by (rule filter_all_but_last [OF front])
  then show "map r_ordinal (samples scope mint (resolve_row i (abandon now) rows)) =
      [1..int (length (samples scope mint (resolve_row i (abandon now) rows)))] \<and>
    list_all (\<lambda>r. r_status r = OPENED) (butlast (samples scope mint (resolve_row i (abandon now) rows)))"
    unfolding samples_abandon
  proof
    assume "filter ?keep ?S = ?S"
    then show "map r_ordinal (filter ?keep ?S) = [1..int (length (filter ?keep ?S))] \<and>
        list_all (\<lambda>r. r_status r = OPENED) (butlast (filter ?keep ?S))" using c by simp
  next
    assume eq: "filter ?keep ?S = butlast ?S"
    have "map r_ordinal (butlast ?S) = butlast [1..int (length ?S)]" by (simp add: map_butlast c(1))
    also have "\<dots> = [1..int (length (butlast ?S))]"
      unfolding length_butlast by (rule butlast_upto)
    finally show "map r_ordinal (filter ?keep ?S) = [1..int (length (filter ?keep ?S))] \<and>
        list_all (\<lambda>r. r_status r = OPENED) (butlast (filter ?keep ?S))"
      unfolding eq using c(2) by (auto simp: list_all_iff dest: in_set_butlastD)
  qed
qed

lemma list_all_butlast_map:
  "list_all P (butlast xs) \<Longrightarrow> (\<And>x. P x \<Longrightarrow> P (f x)) \<Longrightarrow> list_all P (butlast (map f xs))"
  by (simp add: map_butlast [symmetric] list_all_iff)

lemma opened_contiguous:
  assumes "contiguous rows"
  shows "contiguous (resolve_row i (opened traj now) rows)"
  unfolding contiguous_def samples_opened
proof (intro allI)
  fix scope mint
  let ?S = "samples scope mint rows" and ?f = "\<lambda>r. if r_id r = i \<and> r_status r = RESERVED then opened traj now r else r"
  have c: "map r_ordinal ?S = [1..int (length ?S)]" "list_all (\<lambda>r. r_status r = OPENED) (butlast ?S)"
    using assms unfolding contiguous_def by blast+
  have f: "r_ordinal \<circ> ?f = r_ordinal" by (auto simp: opened_def)
  have "map r_ordinal (map ?f ?S) = [1..int (length (map ?f ?S))]"
    unfolding map_map f length_map by (rule c(1))
  moreover have "list_all (\<lambda>r. r_status r = OPENED) (butlast (map ?f ?S))"
    by (rule list_all_butlast_map [OF c(2)]) (simp add: opened_def)
  ultimately show "map r_ordinal (map ?f ?S) = [1..int (length (map ?f ?S))] \<and>
      list_all (\<lambda>r. r_status r = OPENED) (butlast (map ?f ?S))" by blast
qed

lemma insert_contiguous:
  assumes "contiguous rows" and "held_rows (scope_of r) (r_mint r) rows = []" and "r_status r = RESERVED"
    and "r_ordinal r = int (length (samples (scope_of r) (r_mint r) rows)) + 1"
  shows "contiguous (rows @ [r])"
  unfolding contiguous_def
proof (intro allI)
  fix scope mint
  let ?S = "samples scope mint rows"
  have c: "map r_ordinal ?S = [1..int (length ?S)]" "list_all (\<lambda>r. r_status r = OPENED) (butlast ?S)"
    using assms(1) unfolding contiguous_def by blast+
  show "map r_ordinal (samples scope mint (rows @ [r])) = [1..int (length (samples scope mint (rows @ [r])))] \<and>
    list_all (\<lambda>r. r_status r = OPENED) (butlast (samples scope mint (rows @ [r])))"
  proof (cases "in_slot scope mint r")
    case True
    then have slot: "scope = scope_of r" "mint = r_mint r" by (simp_all add: in_slot_def)
    have "list_all (\<lambda>r. r_status r = OPENED) ?S"
      using assms(2) unfolding slot samples_def held_rows_slot list_all_iff filter_empty_conv
      by (metis (mono_tags, lifting) mem_Collect_eq reservation_status.exhaust set_filter)
    moreover have "[1..int (length ?S) + 1] = [1..int (length ?S)] @ [int (length ?S) + 1]"
      by (simp add: upto_rec2)
    ultimately show ?thesis
      using True assms(3,4) c(1) by (simp add: samples_append slot add.commute)
  next
    case False
    then show ?thesis using c by (simp add: samples_append)
  qed
qed

lemma reclaim_contiguous:
  "contiguous rows \<Longrightarrow> reclaim opts st hs rows = Inr rows' \<Longrightarrow> contiguous rows'"
  by (induction opts st hs rows rule: reclaim.induct) (auto simp: abandon_contiguous split: if_splits)

lemma held_abandon: "held_rows scope mint (resolve_row i (abandon now) rows) =
    filter (\<lambda>r. r_id r \<noteq> i) (held_rows scope mint rows)"
  by (induction rows) (auto simp: resolve_row_def held_rows_def abandon_def scope_of_def)

lemma reclaim_held:
  "reclaim opts st hs rows = Inr rows' \<Longrightarrow>
   held_rows scope mint rows' = filter (\<lambda>r. r_id r \<notin> r_id ` set hs) (held_rows scope mint rows)"
proof (induction opts st hs rows rule: reclaim.induct)
  case (2 opts st h hs rows)
  then have "held_rows scope mint rows' = filter (\<lambda>r. r_id r \<notin> r_id ` set hs)
      (held_rows scope mint (resolve_row (r_id h) (abandon (nowMs opts)) rows))"
    by (auto split: if_splits)
  then show ?case by (auto simp: held_abandon intro!: filter_cong)
qed simp

lemma reclaim_none_held:
  assumes "reclaim opts st (held_rows scope mint rows) rows = Inr rows'"
  shows "held_rows scope mint rows' = []"
  using reclaim_held [OF assms, of scope mint] by (simp add: filter_empty_conv)

lemma reserve_rows_Inr:
  assumes "reserve_rows digest opts st = Inr (ticket, rows')"
  obtains rows where "reclaim opts st (held_rows (nullish (evidenceContextId opts) (windowId opts)) (o_mint opts)
      (reservations st)) (reservations st) = Inr rows"
    and "claim_slot digest opts st rows = Inr (ticket, rows')"
  using assms by (auto simp: reserve_rows_def Let_def ebind_eq_Inr split: if_splits)

lemma reserve_contiguous:
  assumes "contiguous (reservations st)" and "\<not> includeHistoric opts" and "reserve_rows digest opts st = Inr (ticket, rows')"
  shows "contiguous rows'"
proof -
  obtain rows where rec: "reclaim opts st (held_rows (nullish (evidenceContextId opts) (windowId opts)) (o_mint opts)
      (reservations st)) (reservations st) = Inr rows" and claim: "claim_slot digest opts st rows = Inr (ticket, rows')"
    using assms(3) by (rule reserve_rows_Inr)
  obtain row where row: "rows' = rows @ [row]" "r_status row = RESERVED"
      "scope_of row = nullish (evidenceContextId opts) (windowId opts)" "r_mint row = o_mint opts"
      "r_ordinal row = int (length (samples (nullish (evidenceContextId opts) (windowId opts)) (o_mint opts) rows)) + 1"
    using claim assms(2) by (rule_tac claim_slot_Inr) auto
  show ?thesis
    unfolding row(1) using row reclaim_none_held [OF rec]
    by (intro insert_contiguous reclaim_contiguous [OF assms(1) rec]) simp_all
qed

lemma step_contiguous:
  assumes "collector_step digest False st st'" and "contiguous (reservations st)"
  shows "contiguous (reservations st')"
  using assms(1)
proof cases
  case (step_reserve opts result)
  then show ?thesis using assms(2) reserve_contiguous [OF assms(2), of opts digest]
    by (auto simp: reserveCandidate_def split: sum.splits)
next
  case (step_resolve i traj now)
  then show ?thesis using assms(2)
    by (auto simp: resolveReservation_def Let_def opened_contiguous split: if_splits)
next
  case (step_abandon i now)
  then show ?thesis using assms(2)
    by (auto simp: abandonReservation_def Let_def abandon_contiguous split: if_splits)
next
  case step_other
  then show ?thesis using assms(2) by simp
qed

lemma contiguous_Nil: "contiguous []"
  by (simp add: contiguous_def samples_def)

lemma reachable_contiguous: "collector_reachable digest False st \<Longrightarrow> contiguous (reservations st)"
  by (induction rule: collector_reachable.induct) (metis contiguous_Nil, metis step_contiguous)

section \<open>The abstract slot\<close>

text \<open>
  What a collector may rely on for one mint in one scope, without a table of rows: the numbers of the samples
  that were opened, the slot that is pending and how often each number was handed out. Taking the slot answers with
  the next number, which is one more than the samples opened so far or, when history counts, than the
  trajectories of the mint; it refuses while a trajectory is open, while the pending slot has an owner
  that is the caller or is not gone, above the cap, and when the number is a sample already.
\<close>

record PendingSlot =
  pd_id :: string
  pd_owner :: string
  pd_number :: int
  pd_since :: int

record SlotState =
  slot_opened :: "int set"
  slot_pending :: "PendingSlot option"
  slot_tries :: "int \<Rightarrow> int"

definition holder_gone :: "ReserveOpts \<Rightarrow> Store \<Rightarrow> PendingSlot \<Rightarrow> bool" where
  "holder_gone opts st p =
    (let stale = nullish (staleReservationMs opts) (15 * 60 * 1000); old = (stale \<le> nowMs opts - pd_since p) in
     case find (\<lambda>s. s_id s = pd_owner p) (sessions st) of
       None \<Rightarrow> old
     | Some s \<Rightarrow> s_ended s \<noteq> None \<or> (case s_pid s of None \<Rightarrow> False | Some pid \<Rightarrow> \<not> pidAlive opts pid) \<or>
         old \<and> (case s_heartbeat s of None \<Rightarrow> True | Some b \<Rightarrow> stale \<le> nowMs opts - b))"

definition slot_number :: "ReserveOpts \<Rightarrow> Store \<Rightarrow> SlotState \<Rightarrow> int" where
  "slot_number opts st s =
    (if includeHistoric opts then int (length (filter (\<lambda>t. t_mint t = o_mint opts) (trajectories st))) else int (card (slot_opened s))) + 1"

definition own_scope :: "ReserveOpts \<Rightarrow> string" where
  "own_scope opts = nullish (evidenceContextId opts) (windowId opts)"

definition slot_reserve :: "(string \<Rightarrow> string) \<Rightarrow> ReserveOpts \<Rightarrow> Store \<Rightarrow> SlotState \<Rightarrow> (refusal_code + int) \<times> SlotState" where
  "slot_reserve digest opts st s =
    (let k = slot_number opts st s in
     if maxPerMint opts < 1 then (Inl CAP_REACHED, s)
     else if \<exists>t \<in> set (trajectories st). t_mint t = o_mint opts \<and> \<not> t_settled t \<and>
         (\<forall>c. evidenceContextId opts = Some c \<longrightarrow> c \<in> set (t_contexts t)) then (Inl ALREADY_OPEN, s)
     else if \<exists>p. slot_pending s = Some p \<and> (pd_owner p = ownerSessionId opts \<or> \<not> holder_gone opts st p) then (Inl ALREADY_OPEN, s)
     else if maxPerMint opts < k then (Inl CAP_REACHED, s)
     else if k \<in> slot_opened s then (Inl RACE_LOST, s)
     else (Inr k, s\<lparr>slot_pending := Some \<lparr>pd_id = reservation_id digest (own_scope opts) (o_mint opts) k (slot_tries s k + 1),
         pd_owner = ownerSessionId opts, pd_number = k, pd_since = nowMs opts\<rparr>, slot_tries := (slot_tries s)(k := slot_tries s k + 1)\<rparr>))"

text \<open>Opening the pending slot makes its number a sample; releasing it gives the number back.\<close>

definition pending_is :: "string \<Rightarrow> SlotState \<Rightarrow> bool" where
  "pending_is i s \<longleftrightarrow> (\<exists>p. slot_pending s = Some p \<and> pd_id p = i)"

definition slot_open :: "string \<Rightarrow> SlotState \<Rightarrow> SlotState" where
  "slot_open i s = (if pending_is i s
     then s\<lparr>slot_opened := insert (pd_number (the (slot_pending s))) (slot_opened s), slot_pending := None\<rparr> else s)"

definition slot_release :: "string \<Rightarrow> SlotState \<Rightarrow> SlotState" where
  "slot_release i s = (if pending_is i s then s\<lparr>slot_pending := None\<rparr> else s)"

section \<open>The rows of a slot\<close>

definition opened_rows :: "string \<Rightarrow> string \<Rightarrow> ReservationRow list \<Rightarrow> ReservationRow list" where
  "opened_rows scope mint = filter (\<lambda>r. in_slot scope mint r \<and> r_status r = OPENED)"

text \<open>How often a number of the slot was handed out, abandoned attempts included.\<close>

definition attempts_at :: "string \<Rightarrow> string \<Rightarrow> int \<Rightarrow> ReservationRow list \<Rightarrow> int" where
  "attempts_at scope mint k = count_rows (\<lambda>r. in_slot scope mint r \<and> r_ordinal r = k)"

definition pending_of :: "ReservationRow \<Rightarrow> PendingSlot" where
  "pending_of r = \<lparr>pd_id = r_id r, pd_owner = r_owner r, pd_number = r_ordinal r, pd_since = r_reserved r\<rparr>"

definition slot_abs :: "string \<Rightarrow> string \<Rightarrow> ReservationRow list \<Rightarrow> SlotState" where
  "slot_abs scope mint rows = \<lparr>slot_opened = r_ordinal ` set (opened_rows scope mint rows),
     slot_pending = (case held_rows scope mint rows of [] \<Rightarrow> None | h # _ \<Rightarrow> Some (pending_of h)),
     slot_tries = (\<lambda>k. attempts_at scope mint k rows)\<rparr>"

lemma samples_split: "length (samples scope mint rows) =
    length (opened_rows scope mint rows) + length (held_rows scope mint rows)"
proof (induction rows)
  case (Cons r rows)
  then show ?case by (cases "r_status r") (simp_all add: samples_def opened_rows_def held_rows_slot)
qed (simp add: samples_def opened_rows_def held_rows_def)

lemma opened_rows_samples: "opened_rows scope mint rows = filter (\<lambda>r. r_status r = OPENED) (samples scope mint rows)"
  by (auto simp: opened_rows_def samples_def intro!: filter_cong)

lemma opened_card:
  assumes "indexes_hold rows"
  shows "card (r_ordinal ` set (opened_rows scope mint rows)) = length (opened_rows scope mint rows)"
proof -
  have "distinct (map r_ordinal (opened_rows scope mint rows))"
    using assms unfolding opened_rows_samples indexes_hold_def by (blast intro: distinct_map_filter)
  then show ?thesis by (metis distinct_card length_map set_map)
qed

lemma opened_rows_abandon: "opened_rows scope mint (resolve_row i (abandon now) rows) = opened_rows scope mint rows"
  by (induction rows) (auto simp: opened_rows_def resolve_row_def abandon_def in_slot_def scope_of_def)

lemma opened_rows_opened: "r_ordinal ` set (opened_rows scope mint (resolve_row i (opened traj now) rows)) =
    r_ordinal ` set (opened_rows scope mint rows) \<union> r_ordinal ` set (filter (\<lambda>r. r_id r = i) (held_rows scope mint rows))"
  by (induction rows) (auto simp: opened_rows_def held_rows_def resolve_row_def opened_def in_slot_def scope_of_def)

lemma held_opened: "held_rows scope mint (resolve_row i (opened traj now) rows) =
    filter (\<lambda>r. r_id r \<noteq> i) (held_rows scope mint rows)"
  by (induction rows) (auto simp: resolve_row_def held_rows_def opened_def scope_of_def)

lemma attempts_append: "attempts_at scope mint k (rows @ [r]) =
    attempts_at scope mint k rows + (if in_slot scope mint r \<and> r_ordinal r = k then 1 else 0)"
  by (simp add: attempts_at_def count_rows_def)

lemma attempts_nonneg: "0 \<le> attempts_at scope mint k rows"
  by (simp add: attempts_at_def count_rows_def)

lemma attempts_resolve:
  assumes "keeps_identity f"
  shows "attempts_at scope mint k (resolve_row i f rows) = attempts_at scope mint k rows"
  using assms
  by (induction rows) (auto simp: attempts_at_def count_rows_def resolve_row_def keeps_identity_def in_slot_def)

lemma reclaim_opened_rows:
  "reclaim opts st hs rows = Inr rows' \<Longrightarrow> opened_rows scope mint rows' = opened_rows scope mint rows"
  by (induction opts st hs rows rule: reclaim.induct) (auto simp: opened_rows_abandon split: if_splits)

lemma reclaim_attempts:
  "reclaim opts st hs rows = Inr rows' \<Longrightarrow> attempts_at scope mint k rows' = attempts_at scope mint k rows"
  by (induction opts st hs rows rule: reclaim.induct) (auto simp: attempts_resolve split: if_splits)

lemma one_held:
  assumes "indexes_hold rows"
  obtains "held_rows scope mint rows = []" | h where "held_rows scope mint rows = [h]"
proof -
  have "length (held_rows scope mint rows) \<le> 1" using assms by (simp add: indexes_hold_def)
  then show thesis using that by (cases "held_rows scope mint rows") auto
qed

lemma opened_refines:
  assumes "indexes_hold rows"
  shows "slot_abs scope mint (resolve_row i (opened traj now) rows) = slot_open i (slot_abs scope mint rows)"
  by (rule one_held [OF assms, of scope mint])
    (auto simp: slot_abs_def opened_rows_opened held_opened attempts_resolve slot_open_def pending_is_def pending_of_def)

lemma abandon_refines:
  assumes "indexes_hold rows"
  shows "slot_abs scope mint (resolve_row i (abandon now) rows) = slot_release i (slot_abs scope mint rows)"
  by (rule one_held [OF assms, of scope mint])
    (auto simp: slot_abs_def opened_rows_abandon held_abandon attempts_resolve slot_release_def pending_is_def pending_of_def)

lemma other_slot_ids:
  assumes "indexes_hold rows" and "\<not> (scope = scope' \<and> mint = mint')"
  shows "filter (\<lambda>r. r_id r \<notin> r_id ` set (held_rows scope' mint' rows)) (held_rows scope mint rows) =
    held_rows scope mint rows"
proof -
  have "inj_on r_id (set rows)" using assms(1) by (simp add: indexes_hold_def distinct_map)
  then have "r_id r \<noteq> r_id h"
    if "r \<in> set (held_rows scope mint rows)" "h \<in> set (held_rows scope' mint' rows)" for r h
    using that assms(2) by (auto simp: held_rows_def dest: inj_onD)
  then show ?thesis by (auto simp: filter_id_conv)
qed

text \<open>A reservation id is pending in a slot exactly when one row is reserved under it.\<close>

lemma changed_rows_pending:
  assumes "indexes_hold rows"
  shows "changed_rows i rows = (if \<exists>scope mint. pending_is i (slot_abs scope mint rows) then 1 else 0)"
proof -
  have ids: "distinct (map r_id rows)" using assms by (simp add: indexes_hold_def)
  have "pending_is i (slot_abs scope mint rows) \<longleftrightarrow> (\<exists>r \<in> set (held_rows scope mint rows). r_id r = i)" for scope mint
    by (rule one_held [OF assms, of scope mint]) (simp_all add: pending_is_def slot_abs_def pending_of_def)
  then have pend: "(\<exists>scope mint. pending_is i (slot_abs scope mint rows)) \<longleftrightarrow> (\<exists>r \<in> set rows. r_id r = i \<and> r_status r = RESERVED)"
    by (auto simp: held_rows_def)
  have "length (filter (\<lambda>r. r_id r = i \<and> r_status r = RESERVED) rows) = (if \<exists>r \<in> set rows. r_id r = i \<and> r_status r = RESERVED then 1 else 0)"
    using ids by (induction rows) (auto simp: filter_empty_conv, metis imageI)
  then show ?thesis by (simp add: changed_rows_def count_rows_def pend)
qed

text \<open>Reserving.\<close>

lemma holder_gone_dead: "holder_gone opts st (pending_of h) = owner_dead opts st h"
  by (auto simp: holder_gone_def owner_dead_def pending_of_def session_of_def Let_def STALE_RESERVATION_MS_def split: option.split)

lemma reclaim_exact:
  assumes "indexes_hold rows"
  shows "reclaim opts st (held_rows scope mint rows) rows =
    (case slot_pending (slot_abs scope mint rows) of None \<Rightarrow> Inr rows
     | Some p \<Rightarrow> if pd_owner p = ownerSessionId opts \<or> \<not> holder_gone opts st p then Inl ALREADY_OPEN
        else Inr (resolve_row (pd_id p) (abandon (nowMs opts)) rows))"
  by (rule one_held [OF assms, of scope mint])
    (auto simp: slot_abs_def holder_gone_dead, simp_all add: pending_of_def)

lemma claim_slot_exact:
  assumes "indexes_hold rows" and none: "held_rows (own_scope opts) (o_mint opts) rows = []"
    and k: "k = slot_number opts st (slot_abs (own_scope opts) (o_mint opts) rows)"
    and i: "i = reservation_id digest (own_scope opts) (o_mint opts) k (attempts_at (own_scope opts) (o_mint opts) k rows + 1)"
    and fresh: "i \<notin> r_id ` set rows"
  shows "claim_slot digest opts st rows =
    (if maxPerMint opts < k then Inl CAP_REACHED
     else if k \<in> r_ordinal ` set (opened_rows (own_scope opts) (o_mint opts) rows) then Inl RACE_LOST
     else Inr (\<lparr>reservationId = i, tk_windowId = windowId opts, tk_mint = o_mint opts, tk_ordinal = k, tk_maxPerMint = maxPerMint opts,
         tk_ownerSessionId = ownerSessionId opts, reservedUtcMs = nowMs opts\<rparr>,
       rows @ [\<lparr>r_id = i, r_window = windowId opts, r_context = evidenceContextId opts, r_mint = o_mint opts, r_ordinal = k,
         r_max = maxPerMint opts, r_trajectory = None, r_status = RESERVED, r_reserved = nowMs opts,
         r_resolved = None, r_owner = ownerSessionId opts\<rparr>]))"
proof -
  let ?mine = "\<lambda>r. scope_of r = own_scope opts \<and> r_mint r = o_mint opts"
  have slot: "in_slot (own_scope opts) (o_mint opts) = ?mine" by (simp add: in_slot_def fun_eq_iff)
  have zero: "count_rows (\<lambda>r. ?mine r \<and> r_status r = RESERVED) rows = 0"
    using none by (simp add: count_rows_def held_rows_def)
  have used: "count_rows (\<lambda>r. ?mine r \<and> r_status r \<noteq> ABANDONED) rows = int (card (r_ordinal ` set (opened_rows (own_scope opts) (o_mint opts) rows)))"
    using samples_split [of "own_scope opts" "o_mint opts" rows] none opened_card [OF assms(1)]
    by (simp add: count_rows_def samples_def slot)
  have num: "(if includeHistoric opts then count_rows (\<lambda>r. ?mine r \<and> r_status r = RESERVED) rows
        else count_rows (\<lambda>r. ?mine r \<and> r_status r \<noteq> ABANDONED) rows) +
      (if includeHistoric opts then int (length (filter (\<lambda>t. t_mint t = o_mint opts) (trajectories st))) else 0) + 1 = k"
    using zero used by (simp add: k slot_number_def slot_abs_def)
  have pos: "1 \<le> k" by (simp add: k slot_number_def)
  have prior: "count_rows (\<lambda>r. ?mine r \<and> r_ordinal r = k) rows = attempts_at (own_scope opts) (o_mint opts) k rows"
    by (simp add: attempts_at_def slot)
  have not_res: "\<not> (r_status q = RESERVED \<and> ?mine q)" if "q \<in> set rows" for q
    using none that by (auto simp: held_rows_def filter_empty_conv)
  have taken: "list_all (\<lambda>q. \<not> (r_status q \<noteq> ABANDONED \<and> ?mine q \<and> r_ordinal q = k)) rows \<longleftrightarrow>
      k \<notin> r_ordinal ` set (opened_rows (own_scope opts) (o_mint opts) rows)"
    (is "?L \<longleftrightarrow> ?R")
  proof -
    have "r_status q \<noteq> ABANDONED \<and> ?mine q \<longleftrightarrow> r_status q = OPENED \<and> ?mine q" if "q \<in> set rows" for q
      using not_res [OF that] by (cases "r_status q") simp_all
    then have "?L \<longleftrightarrow> (\<forall>q \<in> set rows. \<not> ((r_status q = OPENED \<and> ?mine q) \<and> r_ordinal q = k))"
      unfolding list_all_iff by blast
    also have "\<dots> \<longleftrightarrow> ?R" unfolding opened_rows_def slot by auto
    finally show ?thesis .
  qed
  let ?row = "\<lparr>r_id = i, r_window = windowId opts, r_context = evidenceContextId opts, r_mint = o_mint opts, r_ordinal = k,
         r_max = maxPerMint opts, r_trajectory = None, r_status = RESERVED, r_reserved = nowMs opts,
         r_resolved = None, r_owner = ownerSessionId opts\<rparr>"
  have sc: "scope_of ?row = own_scope opts" by (simp add: scope_of_def own_scope_def)
  have ins: "insert_ok rows ?row \<longleftrightarrow> k \<notin> r_ordinal ` set (opened_rows (own_scope opts) (o_mint opts) rows)" if "k \<le> maxPerMint opts"
  proof -
    have "list_all (\<lambda>q. r_id q \<noteq> i) rows" using fresh by (auto simp: list_all_iff)
    moreover have "list_all (\<lambda>q. \<not> (r_status q = RESERVED \<and> ?mine q)) rows" using not_res by (simp add: list_all_iff)
    ultimately show ?thesis using that pos taken unfolding insert_ok_def sc by simp
  qed
  show ?thesis unfolding claim_slot_def Let_def own_scope_def [symmetric] num prior i [symmetric]
    using ins by auto
qed

text \<open>What a reserve does to the slot it asks for, and that it leaves the others.\<close>

lemma next_same_slot:
  assumes "indexes_hold rows" and "reclaim opts st (held_rows (own_scope opts) (o_mint opts) rows) rows = Inr rows'"
  shows "slot_number opts st (slot_abs (own_scope opts) (o_mint opts) rows') = slot_number opts st (slot_abs (own_scope opts) (o_mint opts) rows)"
  by (simp add: slot_number_def slot_abs_def reclaim_opened_rows [OF assms(2)])

section \<open>A free slot is granted\<close>

lemma reclaim_all_dead:
  "\<forall>h \<in> set hs. r_owner h \<noteq> ownerSessionId opts \<and> owner_dead opts st h \<Longrightarrow> \<exists>rows'. reclaim opts st hs rows = Inr rows'"
  by (induction hs arbitrary: rows) auto

lemma reclaim_ids: "reclaim opts st hs rows = Inr rows' \<Longrightarrow> map r_id rows' = map r_id rows"
proof (induction opts st hs rows rule: reclaim.induct)
  case (2 opts st h hs rows)
  then have "map r_id rows' = map r_id (resolve_row (r_id h) (abandon (nowMs opts)) rows)"
    by (auto split: if_splits)
  then show ?case by (simp add: resolve_row_def abandon_def o_def if_distrib cong: if_cong)
qed simp

lemma claim_slot_granted:
  assumes "contiguous rows" and "\<not> includeHistoric opts"
    and slot: "scope = nullish (evidenceContextId opts) (windowId opts)" "mint = o_mint opts"
    and none: "held_rows scope mint rows = []"
    and room: "int (length (samples scope mint rows)) < maxPerMint opts"
    and fresh: "reservation_id digest scope mint (int (length (samples scope mint rows)) + 1)
      (attempts_at scope mint (int (length (samples scope mint rows)) + 1) rows + 1) \<notin> r_id ` set rows"
  shows "\<exists>ticket rows'. claim_slot digest opts st rows = Inr (ticket, rows') \<and>
    tk_ordinal ticket = int (length (samples scope mint rows)) + 1"
proof -
  let ?n = "int (length (samples scope mint rows))"
  have "set (map r_ordinal (samples scope mint rows)) = {1..?n}"
    using assms(1) unfolding contiguous_def by (metis set_upto)
  then have taken: "r_ordinal q \<le> ?n" if "q \<in> set rows" "in_slot scope mint q" "r_status q \<noteq> ABANDONED" for q
    using that by (auto simp: samples_def)
  have count: "count_rows (\<lambda>r. (scope_of r = scope \<and> r_mint r = mint) \<and> r_status r \<noteq> ABANDONED) rows = ?n"
    by (simp add: count_rows_def samples_def in_slot_def)
  define i where "i = reservation_id digest scope mint (?n + 1)
    (attempts_at scope mint (?n + 1) rows + 1)"
  define row where "row = \<lparr>r_id = i, r_window = windowId opts, r_context = evidenceContextId opts,
    r_mint = mint, r_ordinal = ?n + 1, r_max = maxPerMint opts, r_trajectory = None, r_status = RESERVED,
    r_reserved = nowMs opts, r_resolved = None, r_owner = ownerSessionId opts\<rparr>"
  have own: "scope_of row = scope" "r_mint row = mint" by (simp_all add: row_def scope_of_def slot)
  have "list_all (\<lambda>q. r_id q \<noteq> r_id row) rows"
    unfolding list_all_iff row_def i_def ReservationRow.simps by (metis fresh imageI)
  moreover have "list_all (\<lambda>q. \<not> (r_status q = RESERVED \<and> scope_of q = scope \<and> r_mint q = mint)) rows"
    using none by (auto simp: held_rows_def filter_empty_conv list_all_iff)
  moreover have "list_all (\<lambda>q. \<not> (r_status q \<noteq> ABANDONED \<and> scope_of q = scope \<and> r_mint q = mint \<and>
      r_ordinal q = ?n + 1)) rows"
    using taken by (fastforce simp: list_all_iff in_slot_def)
  ultimately have "insert_ok rows row"
    using room by (simp add: insert_ok_def own) (simp add: row_def)
  then show ?thesis
    using room assms(2) count unfolding row_def i_def attempts_at_def in_slot_def
    by (simp add: claim_slot_def Let_def slot [symmetric])
qed

text \<open>The identifiers in the table are those of numbered attempts.\<close>

definition used_keys :: "ReservationRow list \<Rightarrow> (string \<times> string \<times> int \<times> int) set" where
  "used_keys rows = (\<Union>r \<in> set rows. (\<lambda>a. (scope_of r, r_mint r, r_ordinal r, a)) `
     {1..attempts_at (scope_of r) (r_mint r) (r_ordinal r) rows})"

definition key_id :: "(string \<Rightarrow> string) \<Rightarrow> string \<times> string \<times> int \<times> int \<Rightarrow> string" where
  "key_id digest = (\<lambda>(scope, mint, k, a). reservation_id digest scope mint k a)"

definition ids_numbered :: "(string \<Rightarrow> string) \<Rightarrow> ReservationRow list \<Rightarrow> bool" where
  "ids_numbered digest rows \<longleftrightarrow> (\<forall>r \<in> set rows.
     \<exists>a \<in> {1..attempts_at (scope_of r) (r_mint r) (r_ordinal r) rows}.
       r_id r = reservation_id digest (scope_of r) (r_mint r) (r_ordinal r) a)"

lemma resolve_numbered:
  assumes "ids_numbered digest rows" and "keeps_identity f"
  shows "ids_numbered digest (resolve_row i f rows)"
  using assms unfolding ids_numbered_def attempts_resolve [OF assms(2)]
  by (auto simp: resolve_row_def keeps_identity_def)

lemma insert_numbered:
  assumes "ids_numbered digest rows"
    and "r_id r = reservation_id digest (scope_of r) (r_mint r) (r_ordinal r)
      (attempts_at (scope_of r) (r_mint r) (r_ordinal r) rows + 1)"
  shows "ids_numbered digest (rows @ [r])"
  unfolding ids_numbered_def
proof
  fix q assume "q \<in> set (rows @ [r])"
  then consider "q \<in> set rows" | "q = r" by auto
  then show "\<exists>a \<in> {1..attempts_at (scope_of q) (r_mint q) (r_ordinal q) (rows @ [r])}.
      r_id q = reservation_id digest (scope_of q) (r_mint q) (r_ordinal q) a"
  proof cases
    case 1
    then obtain a where "a \<in> {1..attempts_at (scope_of q) (r_mint q) (r_ordinal q) rows}"
      "r_id q = reservation_id digest (scope_of q) (r_mint q) (r_ordinal q) a"
      using assms(1) unfolding ids_numbered_def by blast
    then show ?thesis by (intro bexI [of _ a]) (simp_all add: attempts_append)
  next
    case 2
    then show ?thesis
      by (intro bexI [of _ "attempts_at (scope_of r) (r_mint r) (r_ordinal r) rows + 1"])
        (simp_all add: attempts_append in_slot_def assms(2) attempts_nonneg)
  qed
qed

lemma reclaim_numbered:
  "ids_numbered digest rows \<Longrightarrow> reclaim opts st hs rows = Inr rows' \<Longrightarrow> ids_numbered digest rows'"
  by (induction opts st hs rows rule: reclaim.induct) (auto simp: resolve_numbered split: if_splits)

lemma claim_slot_key:
  assumes "claim_slot digest opts st rows = Inr (ticket, rows')"
  shows "\<exists>row. rows' = rows @ [row] \<and> r_id row = reservation_id digest (scope_of row) (r_mint row) (r_ordinal row)
      (attempts_at (scope_of row) (r_mint row) (r_ordinal row) rows + 1)"
  using assms
  by (auto simp: claim_slot_def Let_def scope_of_def attempts_at_def in_slot_def split: if_splits)

lemma step_numbered:
  assumes "collector_step digest hist st st'" and "ids_numbered digest (reservations st)"
  shows "ids_numbered digest (reservations st')"
  using assms(1)
proof cases
  case (step_reserve opts result)
  show ?thesis
  proof (cases "reserve_rows digest opts st")
    case (Inr p)
    obtain ticket rows' where p: "p = (ticket, rows')" by (cases p)
    obtain rows where rec: "reclaim opts st (held_rows (nullish (evidenceContextId opts) (windowId opts)) (o_mint opts)
        (reservations st)) (reservations st) = Inr rows" and claim: "claim_slot digest opts st rows = Inr (ticket, rows')"
      using Inr unfolding p by (rule reserve_rows_Inr)
    have "ids_numbered digest rows'"
      using claim_slot_key [OF claim] insert_numbered [OF reclaim_numbered [OF assms(2) rec]] by metis
    then show ?thesis using step_reserve(2) Inr p by (auto simp: reserveCandidate_def)
  qed (use step_reserve(2) assms(2) in \<open>simp add: reserveCandidate_def\<close>)
next
  case (step_resolve i traj now)
  then show ?thesis using assms(2)
    by (auto simp: resolveReservation_def Let_def resolve_numbered split: if_splits)
next
  case (step_abandon i now)
  then show ?thesis using assms(2)
    by (auto simp: abandonReservation_def Let_def resolve_numbered split: if_splits)
next
  case step_other
  then show ?thesis using assms(2) by simp
qed

lemma reachable_numbered: "collector_reachable digest hist st \<Longrightarrow> ids_numbered digest (reservations st)"
proof (induction rule: collector_reachable.induct)
  case (reach_start st)
  then show ?case by (simp add: ids_numbered_def)
next
  case (reach_step st st')
  then show ?case by (blast intro: step_numbered)
qed

lemma next_id_fresh:
  assumes "ids_numbered digest rows"
    and "inj_on (key_id digest) (insert (scope, mint, k, attempts_at scope mint k rows + 1) (used_keys rows))"
  shows "reservation_id digest scope mint k (attempts_at scope mint k rows + 1) \<notin> r_id ` set rows"
proof
  assume "reservation_id digest scope mint k (attempts_at scope mint k rows + 1) \<in> r_id ` set rows"
  then obtain r where r: "r \<in> set rows"
    "r_id r = reservation_id digest scope mint k (attempts_at scope mint k rows + 1)" by auto
  obtain a where a: "a \<in> {1..attempts_at (scope_of r) (r_mint r) (r_ordinal r) rows}"
    "r_id r = reservation_id digest (scope_of r) (r_mint r) (r_ordinal r) a"
    using assms(1) r(1) unfolding ids_numbered_def by blast
  have "key_id digest (scope_of r, r_mint r, r_ordinal r, a) =
      key_id digest (scope, mint, k, attempts_at scope mint k rows + 1)"
    by (simp add: key_id_def a(2) [symmetric] r(2))
  moreover have "(scope_of r, r_mint r, r_ordinal r, a) \<in> used_keys rows"
    unfolding used_keys_def using r(1) a(1) by blast
  ultimately have "(scope_of r, r_mint r, r_ordinal r, a) = (scope, mint, k, attempts_at scope mint k rows + 1)"
    using inj_onD [OF assms(2)] by blast
  then show False using a(1) by simp
qed

section \<open>A transaction is a transition of the slots\<close>

definition no_collision :: "(string \<Rightarrow> string) \<Rightarrow> ReserveOpts \<Rightarrow> Store \<Rightarrow> bool" where
  "no_collision digest opts st \<longleftrightarrow>
    (let s = slot_abs (own_scope opts) (o_mint opts) (reservations st); k = slot_number opts st s
     in inj_on (key_id digest) (insert (own_scope opts, o_mint opts, k, slot_tries s k + 1) (used_keys (reservations st))))"

lemma reserve_refines:
  assumes ix: "indexes_hold (reservations st)" and num: "ids_numbered digest (reservations st)" and inj: "no_collision digest opts st"
    and res: "reserveCandidate digest opts st = (result, st')"
    and s: "s = slot_abs (own_scope opts) (o_mint opts) (reservations st)"
  shows "map_sum id tk_ordinal result = fst (slot_reserve digest opts st s)"
    and "slot_abs (own_scope opts) (o_mint opts) (reservations st') = snd (slot_reserve digest opts st s)"
    and "\<not> (scope = own_scope opts \<and> mint = o_mint opts) \<Longrightarrow> slot_abs scope mint (reservations st') = slot_abs scope mint (reservations st)"
proof -
  let ?all = "reservations st" and ?sc = "own_scope opts" and ?m = "o_mint opts"
  let ?open = "\<exists>t \<in> set (trajectories st). t_mint t = ?m \<and> \<not> t_settled t \<and> (\<forall>c. evidenceContextId opts = Some c \<longrightarrow> c \<in> set (t_contexts t))"
  let ?held = "\<exists>p. slot_pending s = Some p \<and> (pd_owner p = ownerSessionId opts \<or> \<not> holder_gone opts st p)"
  define k where "k = slot_number opts st s"
  have op: "length (open_trajectories opts st) > 0 \<longleftrightarrow> ?open"
    by (auto simp: open_trajectories_def filter_empty_conv split: option.splits)
  have refused: "result = Inl c \<Longrightarrow> st' = st" for c
    using res by (auto simp: reserveCandidate_def split: sum.splits)
  note rec = reclaim_exact [OF ix, of opts st ?sc ?m, folded s]
  have all: "map_sum id tk_ordinal result = fst (slot_reserve digest opts st s) \<and>
      slot_abs ?sc ?m (reservations st') = snd (slot_reserve digest opts st s) \<and>
      (\<not> (scope = ?sc \<and> mint = ?m) \<longrightarrow> slot_abs scope mint (reservations st') = slot_abs scope mint ?all)" for scope mint
  proof (cases "maxPerMint opts < 1 \<or> ?open \<or> ?held")
    case True
    then have "reserve_rows digest opts st = Inl (if maxPerMint opts < 1 then CAP_REACHED else ALREADY_OPEN)"
      using op rec by (auto simp: reserve_rows_def Let_def own_scope_def [symmetric] ebind_def)
    then have "result = Inl (if maxPerMint opts < 1 then CAP_REACHED else ALREADY_OPEN)" "st' = st"
      using res by (simp_all add: reserveCandidate_def)
    then show ?thesis using True by (auto simp: slot_reserve_def Let_def s)
  next
    case False
    then obtain rows where rows: "reclaim opts st (held_rows ?sc ?m ?all) ?all = Inr rows"
      using rec by (cases "slot_pending s") auto
    have ix': "indexes_hold rows" by (rule reclaim_keeps_indexes [OF ix rows])
    have none: "held_rows ?sc ?m rows = []" by (rule reclaim_none_held [OF rows])
    have k: "k = slot_number opts st (slot_abs ?sc ?m rows)" unfolding s k_def by (rule next_same_slot [OF ix rows, symmetric])
    have tries: "slot_tries s n = attempts_at ?sc ?m n rows" for n by (simp add: s slot_abs_def reclaim_attempts [OF rows])
    have ids: "r_id ` set rows = r_id ` set ?all" by (metis list.set_map reclaim_ids [OF rows])
    let ?i = "reservation_id digest ?sc ?m k (attempts_at ?sc ?m k rows + 1)"
    have fresh: "?i \<notin> r_id ` set rows"
      using next_id_fresh [OF num, of ?sc ?m k] inj unfolding no_collision_def Let_def s [symmetric] k_def [symmetric]
      by (simp add: ids tries [symmetric]) (simp add: s slot_abs_def)
    note claim = claim_slot_exact [OF ix' none k refl fresh]
    have "\<not> length (open_trajectories opts st) > 0" "\<not> maxPerMint opts < 1" using False unfolding op by blast+
    then have run: "reserve_rows digest opts st = claim_slot digest opts st rows"
      using rows by (simp add: reserve_rows_def Let_def own_scope_def [symmetric] ebind_def)
    have opened: "r_ordinal ` set (opened_rows a b rows) = slot_opened (slot_abs a b ?all)" for a b
      by (simp add: slot_abs_def reclaim_opened_rows [OF rows])
    show ?thesis
    proof (cases "maxPerMint opts < k \<or> k \<in> slot_opened s")
      case True
      then have "result = Inl (if maxPerMint opts < k then CAP_REACHED else RACE_LOST)" "st' = st"
        using res run claim by (auto simp: reserveCandidate_def opened s split: if_splits)
      then show ?thesis using True False by (auto simp: slot_reserve_def Let_def s k_def)
    next
      case granted: False
      define row where "row = \<lparr>r_id = ?i, r_window = windowId opts, r_context = evidenceContextId opts, r_mint = ?m, r_ordinal = k,
         r_max = maxPerMint opts, r_trajectory = None, r_status = RESERVED, r_reserved = nowMs opts,
         r_resolved = None, r_owner = ownerSessionId opts\<rparr>"
      have r: "map_sum id tk_ordinal result = Inr k" "reservations st' = rows @ [row]"
        using granted res run claim by (auto simp: reserveCandidate_def opened s [symmetric] row_def)
      have slot: "in_slot a b row \<longleftrightarrow> a = ?sc \<and> b = ?m" for a b by (auto simp: row_def in_slot_def scope_of_def own_scope_def)
      have st: "r_status row = RESERVED" "r_ordinal row = k" by (simp_all add: row_def)
      have heldrow: "held_rows ?sc ?m (rows @ [row]) = [row]" by (simp add: held_rows_append none slot st)
      have opn: "opened_rows a b (rows @ [row]) = opened_rows a b ?all" for a b
        by (simp add: opened_rows_def reclaim_opened_rows [OF rows, unfolded opened_rows_def] st)
      have spec: "slot_reserve digest opts st s = (Inr k, s\<lparr>slot_pending := Some (pending_of row), slot_tries := (slot_tries s)(k := slot_tries s k + 1)\<rparr>)"
        using granted False unfolding slot_reserve_def Let_def k_def [symmetric] by (auto simp: pending_of_def tries row_def)
      have "slot_opened (slot_abs ?sc ?m (reservations st')) = slot_opened s" "slot_pending (slot_abs ?sc ?m (reservations st')) = Some (pending_of row)"
        unfolding r(2) by (simp_all only: slot_abs_def heldrow opn s SlotState.simps list.case)
      moreover have "slot_tries (slot_abs ?sc ?m (reservations st')) = (slot_tries s)(k := slot_tries s k + 1)"
        unfolding r(2) by (simp add: slot_abs_def attempts_append slot tries fun_eq_iff st)
      ultimately have own: "slot_abs ?sc ?m (reservations st') = snd (slot_reserve digest opts st s)"
        unfolding spec by (intro SlotState.equality) simp_all
      have "slot_abs scope mint (reservations st') = slot_abs scope mint ?all" if "\<not> (scope = ?sc \<and> mint = ?m)"
      proof -
        have "held_rows scope mint (rows @ [row]) = held_rows scope mint rows" using that by (auto simp: held_rows_append slot)
        also have "\<dots> = held_rows scope mint ?all" unfolding reclaim_held [OF rows] by (rule other_slot_ids [OF ix that])
        finally show ?thesis using that unfolding r(2) slot_abs_def opn by (auto simp: attempts_append slot reclaim_attempts [OF rows] fun_eq_iff)
      qed
      then show ?thesis using own r(1) spec by simp
    qed
  qed
  show "map_sum id tk_ordinal result = fst (slot_reserve digest opts st s)"
    "slot_abs ?sc ?m (reservations st') = snd (slot_reserve digest opts st s)"
    "\<not> (scope = ?sc \<and> mint = ?m) \<Longrightarrow> slot_abs scope mint (reservations st') = slot_abs scope mint ?all"
    using all by blast+
qed

section \<open>A collector that crashes, and one that shares a window\<close>

definition demo_opts :: "string \<Rightarrow> string option \<Rightarrow> int \<Rightarrow> ReserveOpts" where
  "demo_opts owner context cap = \<lparr>windowId = ''w'', o_mint = ''m'', maxPerMint = cap, ownerSessionId = owner,
     nowMs = 5, includeHistoric = False, staleReservationMs = None, pidAlive = (\<lambda>_. True), evidenceContextId = context\<rparr>"

definition demo_row :: "string \<Rightarrow> string option \<Rightarrow> int \<Rightarrow> ReservationRow" where
  "demo_row owner context cap = \<lparr>r_id = ''resv-'' @ nullish context ''w'' @ ''|m|1|1'', r_window = ''w'', r_context = context,
     r_mint = ''m'', r_ordinal = 1, r_max = cap, r_trajectory = None, r_status = RESERVED, r_reserved = 5,
     r_resolved = None, r_owner = owner\<rparr>"

definition demo_store :: "ReservationRow list \<Rightarrow> SessionRow list \<Rightarrow> Store" where
  "demo_store rows ses = \<lparr>reservations = rows, trajectories = [], sessions = ses\<rparr>"

lemma decimal_small: "decimal 0 = ''0''" "decimal (Suc 0) = ''1''" "decimal 2 = ''2''"
  by code_simp+

lemmas demo_defs = demo_opts_def demo_row_def demo_store_def

lemma demo_first: "reserveCandidate (\<lambda>t. t) (demo_opts owner None 3) (demo_store [] []) =
    (Inr \<lparr>reservationId = ''resv-w|m|1|1'', tk_windowId = ''w'', tk_mint = ''m'', tk_ordinal = 1, tk_maxPerMint = 3,
       tk_ownerSessionId = owner, reservedUtcMs = 5\<rparr>, demo_store [demo_row owner None 3] [])"
  by (simp add: reserveCandidate_def reserve_rows_def claim_slot_def demo_defs Let_def open_trajectories_def
      held_rows_def count_rows_def insert_ok_def reservation_id_def bigint_text_def decimal_small)

lemma demo_reachable: "collector_reachable (\<lambda>t. t) False (demo_store [demo_row owner None 3] ses)"
proof -
  have "collector_reachable (\<lambda>t. t) False (demo_store [] [])" by (rule reach_start) (simp add: demo_store_def)
  moreover have "collector_step (\<lambda>t. t) False (demo_store [] []) (demo_store [demo_row owner None 3] [])"
    by (rule step_reserve [OF _ demo_first]) (simp add: demo_opts_def)
  ultimately have "collector_reachable (\<lambda>t. t) False (demo_store [demo_row owner None 3] [])" by (rule reach_step)
  then show ?thesis by (rule reach_step) (rule step_other, simp add: demo_store_def)
qed

lemma demo_shared: "reserveCandidate (\<lambda>t. t) (demo_opts owner (Some ''d'') 1) (demo_store [demo_row owner (Some ''c'') 1] []) =
    (Inr \<lparr>reservationId = ''resv-d|m|1|1'', tk_windowId = ''w'', tk_mint = ''m'', tk_ordinal = 1, tk_maxPerMint = 1,
       tk_ownerSessionId = owner, reservedUtcMs = 5\<rparr>,
     demo_store [demo_row owner (Some ''c'') 1, demo_row owner (Some ''d'') 1] [])"
  by (simp add: reserveCandidate_def reserve_rows_def claim_slot_def demo_defs Let_def open_trajectories_def
      held_rows_def count_rows_def insert_ok_def reservation_id_def bigint_text_def decimal_small scope_of_def)

lemma demo_shared_first: "reserveCandidate (\<lambda>t. t) (demo_opts owner (Some ''c'') 1) (demo_store [] []) =
    (Inr \<lparr>reservationId = ''resv-c|m|1|1'', tk_windowId = ''w'', tk_mint = ''m'', tk_ordinal = 1, tk_maxPerMint = 1,
       tk_ownerSessionId = owner, reservedUtcMs = 5\<rparr>, demo_store [demo_row owner (Some ''c'') 1] [])"
  by (simp add: reserveCandidate_def reserve_rows_def claim_slot_def demo_defs Let_def open_trajectories_def
      held_rows_def count_rows_def insert_ok_def reservation_id_def bigint_text_def decimal_small)

section \<open>Properties\<close>

text \<open>C4: The cap is a fact of the table: in every store that collectors can reach, whatever
  their order, options and builds, the samples of a mint in a scope have distinct numbers, each of them
  at least one and within the cap it was taken under, so there are no more of them than the largest cap; at
  most one is unresolved; and where history is not counted the numbers are 1, 2, 3 without a gap, in the order they
  were taken.\<close>

theorem cap_never_exceeded:
  assumes "collector_reachable digest hist st"
  shows "distinct (map r_ordinal (samples scope mint (reservations st))) \<and>
    (\<forall>r \<in> set (samples scope mint (reservations st)). 1 \<le> r_ordinal r \<and> r_ordinal r \<le> r_max r) \<and>
    int (length (samples scope mint (reservations st))) \<le>
      Max (insert 0 (r_max ` set (samples scope mint (reservations st)))) \<and>
    length (held_rows scope mint (reservations st)) \<le> 1 \<and>
    (\<not> hist \<longrightarrow> map r_ordinal (samples scope mint (reservations st)) = [1..int (length (samples scope mint (reservations st)))])"
proof -
  let ?S = "samples scope mint (reservations st)" and ?M = "Max (insert 0 (r_max ` set (samples scope mint (reservations st))))"
  have ix: "indexes_hold (reservations st)" by (rule reachable_indexes [OF assms])
  have "\<forall>r \<in> set ?S. r_max r \<le> ?M" by simp
  then have "int (length ?S) \<le> max 0 ?M" by (rule samples_bounded [OF ix])
  moreover have "0 \<le> ?M" by simp
  moreover have "\<forall>r \<in> set ?S. 1 \<le> r_ordinal r \<and> r_ordinal r \<le> r_max r" using ix by (auto simp: indexes_hold_def samples_def)
  moreover have "\<not> hist \<longrightarrow> map r_ordinal ?S = [1..int (length ?S)]"
    using reachable_contiguous [of digest st] assms unfolding contiguous_def by (cases hist) simp_all
  ultimately show ?thesis using ix by (simp add: indexes_hold_def)
qed

theorem cap_never_exceeded_witness:
  "let rows = reservations (demo_store [demo_row ''A'' None 3] []) in
    samples ''w'' ''m'' rows = [demo_row ''A'' None 3] \<and> map r_ordinal (samples ''w'' ''m'' rows) = [1] \<and>
    (\<forall>r \<in> set (samples ''w'' ''m'' rows). 1 \<le> r_ordinal r \<and> r_ordinal r \<le> r_max r) \<and>
    int (length (samples ''w'' ''m'' rows)) \<le> Max (insert 0 (r_max ` set (samples ''w'' ''m'' rows))) \<and>
    length (held_rows ''w'' ''m'' rows) \<le> 1"
proof -
  have "samples ''w'' ''m'' (reservations (demo_store [demo_row ''A'' None 3] [])) = [demo_row ''A'' None 3]"
    by (simp add: samples_def demo_defs in_slot_def scope_of_def)
  then show ?thesis using cap_never_exceeded [OF demo_reachable [of "''A''" "[]"], of "''w''" "''m''"] by (simp add: Let_def)
qed

text \<open>C31: The rows implement the abstract slot. In every store that collectors can reach, with or without counting
  history, a reservation answers what the abstract slot of its mint and scope answers, the granted number or the
  refusal, moves that slot as the abstract transition does and leaves every other slot as it was; resolving and
  abandoning succeed exactly for an id that is pending (and a trajectory that no row has), and open or release the
  slot it is pending in and no other. The id of the new row is assumed not to collide with those in the
  table.\<close>

theorem collector_refines_slot:
  assumes "collector_reachable digest hist st"
  shows "(\<forall>opts result st'. no_collision digest opts st \<and> reserveCandidate digest opts st = (result, st') \<longrightarrow>
      (let s = slot_abs (own_scope opts) (o_mint opts) (reservations st) in
        map_sum id tk_ordinal result = fst (slot_reserve digest opts st s) \<and>
        slot_abs (own_scope opts) (o_mint opts) (reservations st') = snd (slot_reserve digest opts st s) \<and>
        (\<forall>scope mint. \<not> (scope = own_scope opts \<and> mint = o_mint opts) \<longrightarrow>
          slot_abs scope mint (reservations st') = slot_abs scope mint (reservations st)))) \<and>
    (\<forall>i traj now. (\<exists>st'. resolveReservation i traj now st = Inr st') \<longleftrightarrow>
      (\<exists>scope mint. pending_is i (slot_abs scope mint (reservations st))) \<and> Some traj \<notin> r_trajectory ` set (reservations st)) \<and>
    (\<forall>i traj now st' scope mint. resolveReservation i traj now st = Inr st' \<longrightarrow>
      slot_abs scope mint (reservations st') = slot_open i (slot_abs scope mint (reservations st))) \<and>
    (\<forall>i now. (\<exists>st'. abandonReservation i now st = Inr st') \<longleftrightarrow> (\<exists>scope mint. pending_is i (slot_abs scope mint (reservations st)))) \<and>
    (\<forall>i now st' scope mint. abandonReservation i now st = Inr st' \<longrightarrow>
      slot_abs scope mint (reservations st') = slot_release i (slot_abs scope mint (reservations st)))"
proof (intro conjI allI impI)
  note ix = reachable_indexes [OF assms] and num = reachable_numbered [OF assms]
  note n = changed_rows_pending [OF ix]
  show "let s = slot_abs (own_scope opts) (o_mint opts) (reservations st) in
        map_sum id tk_ordinal result = fst (slot_reserve digest opts st s) \<and>
        slot_abs (own_scope opts) (o_mint opts) (reservations st') = snd (slot_reserve digest opts st s) \<and>
        (\<forall>scope mint. \<not> (scope = own_scope opts \<and> mint = o_mint opts) \<longrightarrow>
          slot_abs scope mint (reservations st') = slot_abs scope mint (reservations st))"
    if "no_collision digest opts st \<and> reserveCandidate digest opts st = (result, st')" for opts result st'
    using reserve_refines [OF ix num conjunct1 [OF that] conjunct2 [OF that] refl] unfolding Let_def by blast
  show "(\<exists>st'. resolveReservation i traj now st = Inr st') \<longleftrightarrow>
      (\<exists>scope mint. pending_is i (slot_abs scope mint (reservations st))) \<and> Some traj \<notin> r_trajectory ` set (reservations st)" for i traj now
    by (auto simp: resolveReservation_def Let_def n list_ex_iff image_iff)
  show "(\<exists>st'. abandonReservation i now st = Inr st') \<longleftrightarrow> (\<exists>scope mint. pending_is i (slot_abs scope mint (reservations st)))" for i now
    by (simp add: abandonReservation_def Let_def n)
  show "slot_abs scope mint (reservations st') = slot_open i (slot_abs scope mint (reservations st))"
    if "resolveReservation i traj now st = Inr st'" for i traj now st' scope mint
    using that opened_refines [OF ix] by (auto simp: resolveReservation_def Let_def split: if_splits)
  show "slot_abs scope mint (reservations st') = slot_release i (slot_abs scope mint (reservations st))"
    if "abandonReservation i now st = Inr st'" for i now st' scope mint
    using that abandon_refines [OF ix] by (auto simp: abandonReservation_def Let_def split: if_splits)
qed

text \<open>The pending slot of a session that ended is taken over under the same number.\<close>

theorem collector_refines_slot_witness:
  "let st = demo_store [demo_row ''A'' None 3] [\<lparr>s_id = ''A'', s_ended = Some 9, s_heartbeat = Some 8, s_pid = None\<rparr>];
       (result, st') = reserveCandidate (\<lambda>t. t) (demo_opts ''B'' None 3) st
    in map_sum id tk_ordinal result = Inr 1 \<and>
      slot_pending (slot_abs ''w'' ''m'' (reservations st')) = Some \<lparr>pd_id = ''resv-w|m|1|2'', pd_owner = ''B'', pd_number = 1, pd_since = 5\<rparr> \<and>
      (\<exists>st''. resolveReservation ''resv-w|m|1|1'' ''t'' 9 st = Inr st'' \<and> slot_opened (slot_abs ''w'' ''m'' (reservations st'')) = {1})"
proof -
  let ?st = "demo_store [demo_row ''A'' None 3] [\<lparr>s_id = ''A'', s_ended = Some 9, s_heartbeat = Some 8, s_pid = None\<rparr>]"
  let ?o = "demo_opts ''B'' None 3"
  have s: "slot_abs ''w'' ''m'' (reservations ?st) = \<lparr>slot_opened = {}, slot_pending = Some \<lparr>pd_id = ''resv-w|m|1|1'', pd_owner = ''A'',
      pd_number = 1, pd_since = 5\<rparr>, slot_tries = (\<lambda>k. if k = 1 then 1 else 0)\<rparr>"
    by (simp add: slot_abs_def demo_defs opened_rows_def held_rows_def in_slot_def scope_of_def pending_of_def attempts_at_def count_rows_def fun_eq_iff)
  have own: "own_scope ?o = ''w''" "o_mint ?o = ''m''" by (simp_all add: own_scope_def demo_opts_def)
  have inj: "no_collision (\<lambda>t. t) ?o ?st"
    unfolding no_collision_def own s by (simp add: Let_def slot_number_def demo_defs used_keys_def attempts_at_def count_rows_def in_slot_def
      scope_of_def key_id_def reservation_id_def bigint_text_def decimal_small)
  obtain result st' where r: "reserveCandidate (\<lambda>t. t) ?o ?st = (result, st')" by fastforce
  have res: "slot_reserve (\<lambda>t. t) ?o ?st (slot_abs ''w'' ''m'' (reservations ?st)) = (Inr 1, \<lparr>slot_opened = {},
      slot_pending = Some \<lparr>pd_id = ''resv-w|m|1|2'', pd_owner = ''B'', pd_number = 1, pd_since = 5\<rparr>,
      slot_tries = (\<lambda>k. if k = 1 then 1 else 0)(1 := 2)\<rparr>)"
    unfolding s by (simp add: slot_reserve_def slot_number_def holder_gone_def Let_def demo_defs own_scope_def reservation_id_def bigint_text_def decimal_small)
  note all = collector_refines_slot [OF demo_reachable [of "''A''" "[\<lparr>s_id = ''A'', s_ended = Some 9, s_heartbeat = Some 8, s_pid = None\<rparr>]"]]
  have answer: "map_sum id tk_ordinal result = Inr 1 \<and> slot_pending (slot_abs ''w'' ''m'' (reservations st')) =
      Some \<lparr>pd_id = ''resv-w|m|1|2'', pd_owner = ''B'', pd_number = 1, pd_since = 5\<rparr>"
    using conjunct1 [OF all, rule_format, OF conjI, OF inj r] unfolding own Let_def res by simp
  have "pending_is ''resv-w|m|1|1'' (slot_abs ''w'' ''m'' (reservations ?st))" by (simp add: s pending_is_def)
  have "Some ''t'' \<notin> r_trajectory ` set (reservations ?st)" by (simp add: demo_defs)
  have "\<exists>st2. resolveReservation ''resv-w|m|1|1'' ''t'' 9 ?st = Inr st2"
    using all \<open>pending_is ''resv-w|m|1|1'' (slot_abs ''w'' ''m'' (reservations ?st))\<close> \<open>Some ''t'' \<notin> r_trajectory ` set (reservations ?st)\<close> by blast
  then obtain st2 where st2: "resolveReservation ''resv-w|m|1|1'' ''t'' 9 ?st = Inr st2" ..
  have "slot_abs ''w'' ''m'' (reservations st2) = slot_open ''resv-w|m|1|1'' (slot_abs ''w'' ''m'' (reservations ?st))"
    using all st2 by blast
  then have "slot_opened (slot_abs ''w'' ''m'' (reservations st2)) = {1}" unfolding s by (simp add: slot_open_def pending_is_def)
  then show ?thesis using st2 answer unfolding Let_def r by simp
qed

text \<open>A crashed owner never blocks a mint: when every unresolved reservation of the slot belongs
  to another session that is dead, no trajectory is open and the cap leaves room, the next number
  is granted, provided the digest does not collide on the attempts at hand.\<close>

theorem free_slot_granted:
  assumes "collector_reachable digest False st" and "\<not> includeHistoric opts"
    and "open_trajectories opts st = []"
    and "scope = nullish (evidenceContextId opts) (windowId opts)"
    and "\<forall>h \<in> set (held_rows scope (o_mint opts) (reservations st)).
      r_owner h \<noteq> ownerSessionId opts \<and> owner_dead opts st h"
    and "k = int (card (slot_opened (slot_abs scope (o_mint opts) (reservations st)))) + 1" and "k \<le> maxPerMint opts"
    and "inj_on (key_id digest) (insert (scope, o_mint opts, k,
      attempts_at scope (o_mint opts) k (reservations st) + 1) (used_keys (reservations st)))"
  shows "\<exists>ticket rows'. reserveCandidate digest opts st = (Inr ticket, st\<lparr>reservations := rows'\<rparr>) \<and>
    tk_ordinal ticket = k"
proof -
  obtain rows where rec: "reclaim opts st (held_rows scope (o_mint opts) (reservations st)) (reservations st) = Inr rows"
    using reclaim_all_dead [OF assms(5)] by blast
  have cont: "contiguous rows" by (rule reclaim_contiguous [OF reachable_contiguous [OF assms(1)] rec])
  have none: "held_rows scope (o_mint opts) rows = []" by (rule reclaim_none_held [OF rec])
  have k: "k = int (length (samples scope (o_mint opts) rows)) + 1"
    by (simp add: assms(6) slot_abs_def samples_split none reclaim_opened_rows [OF rec] opened_card [OF reachable_indexes [OF assms(1)]])
  have ids: "r_id ` set rows = r_id ` set (reservations st)"
    by (metis list.set_map reclaim_ids [OF rec])
  have fresh: "reservation_id digest scope (o_mint opts) k (attempts_at scope (o_mint opts) k rows + 1) \<notin> r_id ` set rows"
    unfolding ids reclaim_attempts [OF rec]
    by (rule next_id_fresh [OF reachable_numbered [OF assms(1)] assms(8)])
  have "\<exists>ticket rows'. claim_slot digest opts st rows = Inr (ticket, rows') \<and>
      tk_ordinal ticket = int (length (samples scope (o_mint opts) rows)) + 1"
    by (rule claim_slot_granted [OF cont assms(2,4) refl none _ fresh [unfolded k]]) (use assms(7) k in simp)
  then obtain ticket rows' where claim: "claim_slot digest opts st rows = Inr (ticket, rows')" "tk_ordinal ticket = k"
    unfolding k by blast
  have "0 < k" by (simp add: k)
  then have "reserve_rows digest opts st = Inr (ticket, rows')"
    using assms(3,4,7) rec claim(1) by (simp add: reserve_rows_def Let_def)
  then have "reserveCandidate digest opts st = (Inr ticket, st\<lparr>reservations := rows'\<rparr>)"
    by (simp add: reserveCandidate_def)
  then show ?thesis using claim(2) by blast
qed

theorem free_slot_granted_witness:
  "\<exists>ticket rows'. reserveCandidate (\<lambda>t. t) (demo_opts ''B'' None 3)
      (demo_store [demo_row ''A'' None 3] [\<lparr>s_id = ''A'', s_ended = Some 9, s_heartbeat = Some 8, s_pid = None\<rparr>]) =
    (Inr ticket, demo_store [demo_row ''A'' None 3]
       [\<lparr>s_id = ''A'', s_ended = Some 9, s_heartbeat = Some 8, s_pid = None\<rparr>]\<lparr>reservations := rows'\<rparr>) \<and>
    tk_ordinal ticket = 1"
  by (rule free_slot_granted [OF demo_reachable, where scope = "''w''"])
    (simp_all add: demo_defs open_trajectories_def held_rows_def scope_of_def owner_dead_def session_of_def Let_def
      slot_abs_def opened_rows_def used_keys_def attempts_at_def count_rows_def in_slot_def key_id_def
      reservation_id_def bigint_text_def decimal_small)

text \<open>The breach report counts by window name while the cap is kept per scope: two experiments
  that share a window name, each with one sample of a mint under a cap of one, are reported as a
  breach.\<close>

theorem breach_report_false_alarm:
  "\<exists>st. collector_reachable (\<lambda>t. t) False st \<and> capBreaches ''w'' st = [(''m'', 2, 1)] \<and>
    length (samples ''c'' ''m'' (reservations st)) = 1 \<and> length (samples ''d'' ''m'' (reservations st)) = 1"
proof (intro exI conjI)
  let ?one = "demo_store [demo_row ''A'' (Some ''c'') 1] []"
  let ?st = "demo_store [demo_row ''A'' (Some ''c'') 1, demo_row ''A'' (Some ''d'') 1] []"
  have "collector_reachable (\<lambda>t. t) False (demo_store [] [])" by (rule reach_start) (simp add: demo_store_def)
  moreover have "collector_step (\<lambda>t. t) False (demo_store [] []) ?one"
    by (rule step_reserve [OF _ demo_shared_first]) (simp add: demo_opts_def)
  moreover have "collector_step (\<lambda>t. t) False ?one ?st"
    by (rule step_reserve [OF _ demo_shared]) (simp add: demo_opts_def)
  ultimately show "collector_reachable (\<lambda>t. t) False ?st" by (blast intro: reach_step)
  show "capBreaches ''w'' ?st = [(''m'', 2, 1)]"
    by code_simp
qed (simp_all add: samples_def demo_defs in_slot_def scope_of_def)

end
