(* ===== verification/CollectorLock.thy ===== *)
theory CollectorLock
  imports Amounts
begin

text \<open>
  The single-writer lock of the trajectory collector, \<open>packages/storage/src/collector-lock.ts\<close>:
  the row of \<open>process_locks\<close> (section 1 and 2), the lock file (section 4), and the clean-tree gate
  (section 5). What the operating system answers (which pids live, what \<open>ps\<close> prints for one) is
  an argument; section 3 runs any number of collectors, crashes and pid reuse against the row.
  A transaction under \<open>BEGIN IMMEDIATE\<close> is one atomic function; the calls of the file lock are
  single steps, because nothing makes them atomic. Log lines and timers are left out.
\<close>

section \<open>The row\<close>

record LockRow =
  l_pid :: int
  l_hostname :: string
  l_acquired :: int
  l_heartbeat :: int
  l_mode :: string
  l_commit :: "string option"
  l_command :: "string option"

record LockOwner =
  own_pid :: int
  own_hostname :: string
  own_acquired :: int
  own_heartbeat :: int
  own_mode :: string
  own_commit :: string
  own_command :: string

definition STALE_AFTER_MS :: int where
  "STALE_AFTER_MS = 90000"

definition owner :: "LockRow option \<Rightarrow> LockOwner option" where
  "owner row = (case row of None \<Rightarrow> None | Some r \<Rightarrow>
     Some \<lparr>own_pid = l_pid r, own_hostname = l_hostname r, own_acquired = l_acquired r,
           own_heartbeat = l_heartbeat r, own_mode = l_mode r,
           own_commit = nullish (l_commit r) ''unknown'', own_command = nullish (l_command r) ''''\<rparr>)"

section \<open>Who is behind a pid\<close>

text \<open>A regular expression of single-character classes, searched anywhere in a string.\<close>

fun pattern_at :: "(char \<Rightarrow> bool) list \<Rightarrow> string \<Rightarrow> bool" where
  "pattern_at [] s = True"
| "pattern_at (p # ps) [] = False"
| "pattern_at (p # ps) (c # s) = (p c \<and> pattern_at ps s)"

fun pattern_in :: "(char \<Rightarrow> bool) list \<Rightarrow> string \<Rightarrow> bool" where
  "pattern_in ps [] = pattern_at ps []"
| "pattern_in ps (c # s) = (pattern_at ps (c # s) \<or> pattern_in ps s)"

definition text_pattern :: "string \<Rightarrow> (char \<Rightarrow> bool) list" where
  "text_pattern m = map (=) m"

text \<open>\<open>String.prototype.includes\<close>.\<close>

definition js_includes :: "string \<Rightarrow> string \<Rightarrow> bool" where
  "js_includes s m = pattern_in (text_pattern m) s"

definition slash_or_backslash :: "char \<Rightarrow> bool" where
  "slash_or_backslash c = (c = CHR ''/'' \<or> c = CHR 0x5C)"

definition command_marker :: "string \<Rightarrow> string option" where
  "command_marker recorded =
    (if pattern_in (text_pattern ''trajectory-collect'') recorded then Some ''trajectory-collect''
     else if pattern_in (text_pattern ''collector'' @ [slash_or_backslash] @ text_pattern ''src'' @
         [slash_or_backslash] @ text_pattern ''main'') recorded then Some ''main.ts''
     else None)"

definition pidStillOwns :: "(int \<Rightarrow> string option) \<Rightarrow> int \<Rightarrow> string \<Rightarrow> bool" where
  "pidStillOwns commandLineOfPid pid recorded =
    (if js_trim recorded = [] then True
     else case commandLineOfPid pid of None \<Rightarrow> True
       | Some live \<Rightarrow> (case command_marker recorded of None \<Rightarrow> True | Some m \<Rightarrow> js_includes live m))"

section \<open>Taking, keeping and giving up the lock\<close>

datatype lock_refused = LockRefused int int bool | row_vanished

record LockOpts =
  lo_mode :: string
  lo_commit :: string
  lo_staleAfter :: "int option"
  lo_me :: int
  lo_hostname :: string
  lo_command :: string
  lo_alive :: "int \<Rightarrow> bool"
  lo_stillOwns :: "int \<Rightarrow> string \<Rightarrow> bool"

text \<open>The inspection, inside the transaction; \<open>None\<close> when the claim may be written.\<close>

definition acquire_refusal :: "LockOpts \<Rightarrow> int \<Rightarrow> LockRow option \<Rightarrow> lock_refused option" where
  "acquire_refusal opts now row =
    (let staleAfter = nullish (lo_staleAfter opts) STALE_AFTER_MS in
     case owner row of None \<Rightarrow> None
     | Some e \<Rightarrow>
       if own_pid e = lo_me opts then None
       else
         let age = now - own_heartbeat e;
             ownerAlive = lo_alive opts (own_pid e);
             heartbeatStale = (age \<ge> staleAfter)
         in if ownerAlive \<and> \<not> heartbeatStale then Some (LockRefused (own_pid e) age True)
            else if ownerAlive \<and> lo_stillOwns opts (own_pid e) (own_command e)
            then Some (LockRefused (own_pid e) age True)
            else if \<not> heartbeatStale then Some (LockRefused (own_pid e) age False)
            else None)"

definition claim_row :: "LockOpts \<Rightarrow> int \<Rightarrow> LockRow" where
  "claim_row opts now = \<lparr>l_pid = lo_me opts, l_hostname = lo_hostname opts, l_acquired = now, l_heartbeat = now,
     l_mode = lo_mode opts, l_commit = Some (lo_commit opts), l_command = Some (take 500 (lo_command opts))\<rparr>"

definition acquire :: "LockOpts \<Rightarrow> int \<Rightarrow> LockRow option \<Rightarrow> (lock_refused + LockOwner) \<times> LockRow option" where
  "acquire opts now row =
    (case acquire_refusal opts now row of
       Some e \<Rightarrow> (Inl e, row)
     | None \<Rightarrow> (let row' = Some (claim_row opts now) in
         case owner row' of None \<Rightarrow> (Inl row_vanished, row') | Some taken \<Rightarrow> (Inr taken, row')))"

definition heartbeat :: "bool \<Rightarrow> int \<Rightarrow> int \<Rightarrow> LockRow option \<Rightarrow> LockRow option" where
  "heartbeat is_held me now row =
    (if \<not> is_held then row
     else case row of None \<Rightarrow> None
       | Some r \<Rightarrow> if l_pid r = me then Some (r\<lparr>l_heartbeat := now\<rparr>) else Some r)"

definition stillOwned :: "int \<Rightarrow> LockRow option \<Rightarrow> bool" where
  "stillOwned me row = (case owner row of None \<Rightarrow> False | Some taken \<Rightarrow> own_pid taken = me)"

definition release :: "bool \<Rightarrow> int \<Rightarrow> LockRow option \<Rightarrow> LockRow option" where
  "release is_held me row =
    (if \<not> is_held then row
     else case row of None \<Rightarrow> None | Some r \<Rightarrow> if l_pid r = me then None else Some r)"

section \<open>Collectors, crashes and reused pids\<close>

text \<open>
  The world: the row, the process behind each pid (its command line, and whether it holds the lock
  it took), and the clock, which never has to be right: any step may see any time. A process
  reads the pids and command lines of the moment. A pid may be reused by any program as soon as
  its process is gone; what the system prints for a process is \<open>os_line\<close> of its command line, \<open>None\<close> when it
  prints nothing. The processes that take the lock are collectors run from their source, as the scripts of
  \<open>package.json\<close> run them: a command line that names the other collector, \<open>collector/src/main\<close>, names its file
  \<open>main.ts\<close>. A process that is no collector runs anything.
\<close>

definition runs_from_source :: "string \<Rightarrow> bool" where
  "runs_from_source command \<longleftrightarrow> (command_marker (take 500 command) = Some ''main.ts'' \<longrightarrow> js_includes command ''main.ts'')"

record Process =
  p_command :: string
  p_held :: bool

record LockWorld =
  w_row :: "LockRow option"
  w_procs :: "int \<Rightarrow> Process option"

definition world_opts :: "(string \<Rightarrow> string option) \<Rightarrow> LockWorld \<Rightarrow> string \<Rightarrow> string \<Rightarrow> int option \<Rightarrow> string \<Rightarrow>
    int \<Rightarrow> string \<Rightarrow> LockOpts" where
  "world_opts os_line w mode commit stale host me command =
     \<lparr>lo_mode = mode, lo_commit = commit, lo_staleAfter = stale, lo_me = me, lo_hostname = host,
      lo_command = command, lo_alive = (\<lambda>p. w_procs w p \<noteq> None),
      lo_stillOwns = pidStillOwns (\<lambda>p. case w_procs w p of None \<Rightarrow> None | Some q \<Rightarrow> os_line (p_command q))\<rparr>"

inductive lock_step :: "(string \<Rightarrow> string option) \<Rightarrow> LockWorld \<Rightarrow> LockWorld \<Rightarrow> bool" for os_line where
  lock_acquire: "w_procs w me = Some p \<Longrightarrow> runs_from_source (p_command p) \<Longrightarrow>
    acquire (world_opts os_line w mode commit stale host me (p_command p)) now (w_row w) = (Inr own, row') \<Longrightarrow>
    lock_step os_line w (w\<lparr>w_row := row', w_procs := (w_procs w)(me \<mapsto> p\<lparr>p_held := True\<rparr>)\<rparr>)"
| lock_heartbeat: "w_procs w me = Some p \<Longrightarrow>
    lock_step os_line w (w\<lparr>w_row := heartbeat (p_held p) me now (w_row w)\<rparr>)"
| lock_release: "w_procs w me = Some p \<Longrightarrow>
    lock_step os_line w (w\<lparr>w_row := release (p_held p) me (w_row w),
      w_procs := (w_procs w)(me \<mapsto> p\<lparr>p_held := False\<rparr>)\<rparr>)"
| lock_exit: "lock_step os_line w (w\<lparr>w_procs := (w_procs w)(me := None)\<rparr>)"
| lock_spawn: "w_procs w me = None \<Longrightarrow>
    lock_step os_line w (w\<lparr>w_procs := (w_procs w)(me \<mapsto> \<lparr>p_command = command, p_held = False\<rparr>)\<rparr>)"

inductive lock_reachable :: "(string \<Rightarrow> string option) \<Rightarrow> LockWorld \<Rightarrow> bool" for os_line where
  lock_start: "\<forall>p q. w_procs w p = Some q \<longrightarrow> \<not> p_held q \<Longrightarrow> lock_reachable os_line w"
| lock_next: "lock_reachable os_line w \<Longrightarrow> lock_step os_line w w' \<Longrightarrow> lock_reachable os_line w'"

text \<open>What \<open>ps -o command=\<close> is documented to print: the command with its arguments. What it prints may be trimmed or
  quoted; the names of the two scripts survive that.\<close>

definition ps_prints_command :: "(string \<Rightarrow> string option) \<Rightarrow> bool" where
  "ps_prints_command os_line \<longleftrightarrow> (\<forall>command live. os_line command = Some live \<longrightarrow>
     (\<forall>name \<in> {''trajectory-collect'', ''main.ts''}. js_includes command name \<longrightarrow> js_includes live name))"

lemma faithful_ps: "ps_prints_command Some"
  by (simp add: ps_prints_command_def)

lemma pattern_at_append: "pattern_at ps s \<Longrightarrow> pattern_at ps (s @ t)"
  by (induction ps s rule: pattern_at.induct) simp_all

lemma pattern_in_append: "pattern_in ps s \<Longrightarrow> pattern_in ps (s @ t)"
proof (induction ps s rule: pattern_in.induct)
  case (1 ps)
  then show ?case using pattern_at_append [of ps "[]" t] by (cases t) simp_all
next
  case (2 ps c s)
  then show ?case using pattern_at_append [of ps "c # s" t] by auto
qed

lemma includes_take: "js_includes (take n s) m \<Longrightarrow> js_includes s m"
  using pattern_in_append [of "text_pattern m" "take n s" "drop n s"] by (simp add: js_includes_def)

text \<open>So a collector that lives is recognised by the line that is printed for it.\<close>

lemma printed_marker:
  assumes "ps_prints_command os_line" and "runs_from_source command" and "command_marker (take 500 command) = Some m"
    and "os_line command = Some live"
  shows "js_includes live m"
proof -
  consider "m = ''trajectory-collect''" "js_includes (take 500 command) m" | "m = ''main.ts''"
    using assms(3) unfolding command_marker_def js_includes_def by (simp split: if_splits)
  then have "m \<in> {''trajectory-collect'', ''main.ts''} \<and> js_includes command m"
  proof cases
    case 1
    then show ?thesis using includes_take [OF 1(2)] by simp
  next
    case 2
    then show ?thesis using assms(2,3) unfolding runs_from_source_def by simp
  qed
  then show ?thesis using assms(1,4) unfolding ps_prints_command_def by blast
qed

definition holder_invariant :: "LockWorld \<Rightarrow> bool" where
  "holder_invariant w \<longleftrightarrow> (\<forall>p q. w_procs w p = Some q \<longrightarrow> p_held q \<longrightarrow> runs_from_source (p_command q) \<and>
     (\<exists>r. w_row w = Some r \<and> l_pid r = p \<and> l_command r = Some (take 500 (p_command q))))"

lemma acquire_granted_iff:
  "(\<exists>own row'. acquire opts now row = (Inr own, row')) \<longleftrightarrow>
   (case row of None \<Rightarrow> True
    | Some r \<Rightarrow> l_pid r = lo_me opts \<or>
        (now - l_heartbeat r \<ge> nullish (lo_staleAfter opts) STALE_AFTER_MS \<and>
         \<not> (lo_alive opts (l_pid r) \<and> lo_stillOwns opts (l_pid r) (nullish (l_command r) ''''))))"
  by (auto simp: acquire_def acquire_refusal_def owner_def Let_def split: option.splits if_splits)

lemma acquire_Inr_row:
  "acquire opts now row = (Inr own, row') \<Longrightarrow> row' = Some (claim_row opts now) \<and> owner row' = Some own"
  by (auto simp: acquire_def Let_def owner_def split: option.splits)

lemma holder_not_displaced:
  assumes "ps_prints_command os_line \<and> runs_from_source (p_command p)" and "w_procs w q = Some p" and "l_command r = Some (take 500 (p_command p))"
    and "l_pid r = q" and "me \<noteq> q" and "w_row w = Some r"
  shows "acquire (world_opts os_line w mode commit stale host me command) now (w_row w) \<noteq> (Inr own, row')"
proof
  assume "acquire (world_opts os_line w mode commit stale host me command) now (w_row w) = (Inr own, row')"
  then have "\<not> pidStillOwns (\<lambda>p. case w_procs w p of None \<Rightarrow> None | Some q \<Rightarrow> os_line (p_command q)) q
      (take 500 (p_command p))"
    using acquire_granted_iff [of "world_opts os_line w mode commit stale host me command" now "w_row w"] assms(2-6)
    by (auto simp: world_opts_def)
  then show False using assms(1,2) printed_marker [of os_line "p_command p"]
    by (auto simp: pidStillOwns_def split: if_splits option.splits)
qed

lemma step_keeps_holder:
  assumes "lock_step os_line w w'" and "ps_prints_command os_line" and "holder_invariant w"
  shows "holder_invariant w'"
  using assms(1)
proof cases
  case (lock_acquire me p mode commit stale host now own row')
  have "q = me" if "w_procs w q = Some p'" "p_held p'" for q p'
  proof (rule ccontr)
    assume "q \<noteq> me"
    obtain r where r: "w_row w = Some r" "l_pid r = q" "l_command r = Some (take 500 (p_command p'))" "runs_from_source (p_command p')"
      using assms(3) \<open>w_procs w q = Some p'\<close> \<open>p_held p'\<close> unfolding holder_invariant_def by blast
    then show False using holder_not_displaced [OF _ \<open>w_procs w q = Some p'\<close>] assms(2) lock_acquire(4) \<open>q \<noteq> me\<close> by metis
  qed
  then show ?thesis
    using lock_acquire(1,2,3) acquire_Inr_row [OF lock_acquire(4)]
    by (auto simp: holder_invariant_def claim_row_def world_opts_def split: if_splits)
next
  case (lock_heartbeat me p now)
  then show ?thesis using assms(3)
    by (fastforce simp: holder_invariant_def heartbeat_def split: option.splits)
next
  case (lock_release me p)
  then show ?thesis using assms(3)
    by (fastforce simp: holder_invariant_def release_def split: option.splits if_splits)
next
  case (lock_exit me)
  then show ?thesis using assms(3) by (auto simp: holder_invariant_def)
next
  case (lock_spawn me command)
  then show ?thesis using assms(3) by (auto simp: holder_invariant_def)
qed

lemma reachable_holder: "lock_reachable os_line w \<Longrightarrow> ps_prints_command os_line \<Longrightarrow> holder_invariant w"
proof (induction rule: lock_reachable.induct)
  case (lock_start w)
  then show ?case by (auto simp: holder_invariant_def)
next
  case (lock_next w w')
  then show ?case by (blast intro: step_keeps_holder)
qed

section \<open>The lock file\<close>

text \<open>
  A file system with one path: the inode the path names, and the text of each inode. Each process
  is somewhere inside \<open>acquireFileLock\<close>; every constructor is the state before one system call.
\<close>

datatype file_pc =
    F_idle
  | F_created nat
  | F_exists
  | F_read int
  | F_unlinked int
  | F_held nat
  | F_refused int

record FileWorld =
  f_path :: "nat option"
  f_text :: "nat \<Rightarrow> string"
  f_next :: nat
  f_pc :: "int \<Rightarrow> file_pc"

text \<open>\<open>Number(text.trim())\<close> on what the program writes; an empty file reads 0, other text NaN,
  which the code treats like 0.\<close>

definition holder_of :: "string \<Rightarrow> int" where
  "holder_of text = (let t = js_trim text in if list_all is_digit t then int (bigint_of t) else 0)"

definition goto :: "int \<Rightarrow> file_pc \<Rightarrow> FileWorld \<Rightarrow> FileWorld" where
  "goto me pc w = w\<lparr>f_pc := (f_pc w)(me := pc)\<rparr>"

text \<open>\<open>openSync(p, 'wx')\<close>: creates an empty file, or fails because one is there.\<close>

definition open_wx :: "int \<Rightarrow> file_pc \<Rightarrow> FileWorld \<Rightarrow> FileWorld" where
  "open_wx me otherwise w =
    (if f_path w = None
     then goto me (F_created (f_next w))
       (w\<lparr>f_path := Some (f_next w), f_text := (f_text w)(f_next w := []), f_next := f_next w + 1\<rparr>)
     else goto me otherwise w)"

definition pid_line :: "int \<Rightarrow> string" where
  "pid_line me = decimal (nat me) @ [CHR 0x0A]"

fun file_next :: "(int \<Rightarrow> bool) \<Rightarrow> int \<Rightarrow> FileWorld \<Rightarrow> FileWorld" where
  "file_next alive me w =
    (case f_pc w me of
       F_idle \<Rightarrow> open_wx me F_exists w
     | F_created n \<Rightarrow> goto me (F_held n) (w\<lparr>f_text := (f_text w)(n := pid_line me)\<rparr>)
     | F_exists \<Rightarrow> goto me (F_read (case f_path w of None \<Rightarrow> 0 | Some n \<Rightarrow> holder_of (f_text w n))) w
     | F_read h \<Rightarrow>
         if h > 0 \<and> h \<noteq> me \<and> alive h then goto me (F_refused h) w
         else if f_path w = None then goto me (F_refused h) w
         else goto me (F_unlinked h) (w\<lparr>f_path := None\<rparr>)
     | F_unlinked h \<Rightarrow> open_wx me (F_refused h) w
     | F_held n \<Rightarrow> w
     | F_refused h \<Rightarrow> w)"

definition releaseFileLock :: "int \<Rightarrow> FileWorld \<Rightarrow> FileWorld" where
  "releaseFileLock me w =
    (case f_pc w me of F_held n \<Rightarrow> goto me F_idle (w\<lparr>f_path := None\<rparr>) | _ \<Rightarrow> w)"

text \<open>The whole call, when nothing runs in between, and an interleaving of several.\<close>

definition acquireFileLock :: "(int \<Rightarrow> bool) \<Rightarrow> int \<Rightarrow> FileWorld \<Rightarrow> FileWorld" where
  "acquireFileLock alive me = (file_next alive me ^^ 5)"

definition file_schedule :: "(int \<Rightarrow> bool) \<Rightarrow> int list \<Rightarrow> FileWorld \<Rightarrow> FileWorld" where
  "file_schedule alive = fold (file_next alive)"

definition holds_file :: "FileWorld \<Rightarrow> int \<Rightarrow> bool" where
  "holds_file w me = (case f_pc w me of F_held n \<Rightarrow> True | _ \<Rightarrow> False)"

lemma holder_of_pid_line: "0 \<le> p \<Longrightarrow> holder_of (pid_line p) = p"
proof -
  have digits: "\<forall>c \<in> set (decimal n). \<not> is_space c" for n
    using decimal_digits [of n] by (auto simp: list_all_iff digit_not_space)
  have "dropWhile is_space (decimal n @ [CHR 0x0A]) = decimal n @ [CHR 0x0A]" for n
    using digits [of n] by (cases "decimal n") simp_all
  moreover have "dropWhile is_space (rev (decimal n)) = rev (decimal n)" for n
    using digits [of n] decimal_nonempty [of n] by (cases "rev (decimal n)") (auto simp: dropWhile_eq_self_iff hd_rev)
  ultimately have "js_trim (decimal n @ [CHR 0x0A]) = decimal n" for n
    by (simp add: js_trim_def is_space_def)
  then show "0 \<le> p \<Longrightarrow> holder_of (pid_line p) = p"
    by (simp add: holder_of_def pid_line_def Let_def decimal_digits)
qed

text \<open>Run without interruption the file lock is exclusive: it is refused exactly while the file names
  another live process, and otherwise taken.\<close>

lemma acquireFileLock_alone:
  assumes "f_pc w me = F_idle"
  shows "holds_file (acquireFileLock alive me w) me \<longleftrightarrow>
    (case f_path w of None \<Rightarrow> True
     | Some n \<Rightarrow> (let h = holder_of (f_text w n) in \<not> (h > 0 \<and> h \<noteq> me \<and> alive h)))"
  using assms
  by (cases "f_path w")
    (auto simp: acquireFileLock_def numeral_eq_Suc holds_file_def open_wx_def goto_def Let_def split: if_splits)

section \<open>The clean-tree gate\<close>

record TreeState =
  ts_commit :: string
  ts_dirty :: bool
  dirtyFiles :: "string list"
  dirtyArtifacts :: "string list"

definition chomp_cr :: "string \<Rightarrow> string" where
  "chomp_cr s = (if s \<noteq> [] \<and> last s = CHR 0x0D then butlast s else s)"

fun after_first :: "string \<Rightarrow> string \<Rightarrow> string option" where
  "after_first m [] = (if m = [] then Some [] else None)"
| "after_first m (c # s) = (if take (length m) (c # s) = m then Some (drop (length m) (c # s)) else after_first m s)"

text \<open>\<open>/^(..) (.+)$/\<close>, on a line that holds no line feed.\<close>

definition status_path :: "string \<Rightarrow> string option" where
  "status_path raw =
    (let line = chomp_cr raw in
     if length line \<ge> 4 \<and> line ! 2 = CHR '' '' \<and> CHR 0x0D \<notin> set line
     then let path = drop 3 line in Some (nullish (after_first '' -> '' path) path)
     else None)"

definition OUTPUT_ONLY :: "string \<Rightarrow> bool" where
  "OUTPUT_ONLY f = (take 10 f = ''artifacts/'')"

definition status_paths :: "string \<Rightarrow> string list" where
  "status_paths status = filter (\<lambda>p. p \<noteq> []) (List.map_filter status_path (split_lines status))"

text \<open>The outputs of \<open>git status --porcelain\<close> and \<open>git rev-parse HEAD\<close>; \<open>None\<close> when git fails.\<close>

definition readTreeState :: "string option \<Rightarrow> string option \<Rightarrow> TreeState" where
  "readTreeState status rev_parse =
    (let all = status_paths (nullish status '''');
         artifacts = filter OUTPUT_ONLY all;
         files = filter (\<lambda>f. \<not> OUTPUT_ONLY f) all;
         head = js_trim (nullish rev_parse '''')
     in \<lparr>ts_commit = (if head = [] then ''unknown'' else head), ts_dirty = (files \<noteq> []),
         dirtyFiles = files, dirtyArtifacts = artifacts\<rparr>)"

datatype evidence_validity = DEVELOPMENT_EVIDENCE | INSTRUMENT_DEVELOPMENT_INVALID
datatype gate_error = DirtyEvidenceCollection "string list"

definition evidenceContextValidity :: "TreeState \<Rightarrow> bool \<Rightarrow> gate_error + evidence_validity" where
  "evidenceContextValidity tree instrumentDevelopment =
    (if \<not> ts_dirty tree then Inr DEVELOPMENT_EVIDENCE
     else if instrumentDevelopment then Inr INSTRUMENT_DEVELOPMENT_INVALID
     else Inl (DirtyEvidenceCollection (dirtyFiles tree)))"

text \<open>The gate opens a context exactly when no changed path is outside \<open>artifacts/\<close>. A rename counts
  by its destination, and a failing git counts as no change.\<close>

lemma gate_opens_iff:
  "evidenceContextValidity (readTreeState status rev_parse) False = Inr DEVELOPMENT_EVIDENCE \<longleftrightarrow>
   list_all OUTPUT_ONLY (status_paths (nullish status ''''))"
  by (simp add: evidenceContextValidity_def readTreeState_def Let_def filter_empty_conv list_all_iff)

theorem rename_hides_source:
  "evidenceContextValidity (readTreeState (Some ''R  packages/a.ts -> artifacts/a.ts'') (Some ''c0'')) False =
   Inr DEVELOPMENT_EVIDENCE"
  unfolding gate_opens_iff by code_simp

theorem failing_git_is_clean:
  "evidenceContextValidity (readTreeState None None) False = Inr DEVELOPMENT_EVIDENCE"
  unfolding gate_opens_iff by code_simp

text \<open>A collector takes the lock and crashes, an editor gets its pid, and a second collector takes the lock over when the
  heartbeat is stale: \<open>ps\<close> prints every command line as it is.\<close>

definition demo_command :: string where
  "demo_command = ''tsx apps/collector/src/trajectory-collect.ts''"

definition demo_world :: "LockRow option \<Rightarrow> Process option \<Rightarrow> Process option \<Rightarrow> LockWorld" where
  "demo_world row p q = \<lparr>w_row = row, w_procs = (\<lambda>_. None)(7 := p, 8 := q)\<rparr>"

definition demo_lock_row :: "int \<Rightarrow> int \<Rightarrow> LockRow" where
  "demo_lock_row pid now = \<lparr>l_pid = pid, l_hostname = ''h'', l_acquired = now, l_heartbeat = now, l_mode = ''m'',
     l_commit = Some ''c0'', l_command = Some demo_command\<rparr>"

lemma demo_command_source: "runs_from_source demo_command" "command_marker (take 500 demo_command) = Some ''trajectory-collect''"
  "take 500 demo_command = demo_command" "js_trim demo_command \<noteq> []" "command_marker demo_command = Some ''trajectory-collect''"
  by code_simp+

lemma demo_take:
  assumes "w = demo_world None (Some \<lparr>p_command = demo_command, p_held = False\<rparr>) None"
  shows "lock_step Some w (demo_world (Some (demo_lock_row 7 100)) (Some \<lparr>p_command = demo_command, p_held = True\<rparr>) None)"
proof -
  have "acquire (world_opts Some w ''m'' ''c0'' None ''h'' 7 demo_command) 100 (w_row w) =
      (Inr (the (owner (Some (demo_lock_row 7 100)))), Some (demo_lock_row 7 100))"
    by (simp add: assms demo_world_def acquire_def acquire_refusal_def owner_def claim_row_def world_opts_def demo_lock_row_def
        Let_def demo_command_source)
  from lock_acquire [where me = 7 and p = "\<lparr>p_command = demo_command, p_held = False\<rparr>" and os_line = Some, simplified, OF _ _ this]
  show ?thesis using demo_command_source(1) by (simp add: assms demo_world_def fun_upd_twist)
qed

lemma demo_takeover:
  assumes "w = demo_world (Some (demo_lock_row 7 100)) (Some \<lparr>p_command = ''vim'', p_held = False\<rparr>) (Some \<lparr>p_command = demo_command, p_held = False\<rparr>)"
  shows "lock_step Some w (demo_world (Some (demo_lock_row 8 200000)) (Some \<lparr>p_command = ''vim'', p_held = False\<rparr>)
    (Some \<lparr>p_command = demo_command, p_held = True\<rparr>))"
proof -
  have vim: "\<not> js_includes ''vim'' ''trajectory-collect''" by code_simp
  have "acquire (world_opts Some w ''m'' ''c0'' None ''h'' 8 demo_command) 200000 (w_row w) =
      (Inr (the (owner (Some (demo_lock_row 8 200000)))), Some (demo_lock_row 8 200000))"
    by (simp add: assms demo_world_def acquire_def acquire_refusal_def owner_def claim_row_def world_opts_def demo_lock_row_def
        Let_def demo_command_source STALE_AFTER_MS_def pidStillOwns_def vim)
  from lock_acquire [where me = 8 and p = "\<lparr>p_command = demo_command, p_held = False\<rparr>" and os_line = Some, simplified, OF _ _ this]
  show ?thesis using demo_command_source(1) by (simp add: assms demo_world_def fun_upd_twist)
qed

lemma demo_world_reachable: "lock_reachable Some (demo_world (Some (demo_lock_row 8 200000)) (Some \<lparr>p_command = ''vim'', p_held = False\<rparr>)
    (Some \<lparr>p_command = demo_command, p_held = True\<rparr>))"
proof -
  let ?c = "\<lambda>h. Some \<lparr>p_command = demo_command, p_held = h\<rparr>" and ?v = "Some \<lparr>p_command = ''vim'', p_held = False\<rparr>"
  have "lock_reachable Some (demo_world None (?c False) None)" by (rule lock_start) (simp add: demo_world_def)
  then have "lock_reachable Some (demo_world (Some (demo_lock_row 7 100)) (?c True) None)" by (rule lock_next) (rule demo_take [OF refl])
  then have "lock_reachable Some (demo_world (Some (demo_lock_row 7 100)) None None)"
    by (rule lock_next) (use lock_exit [of Some "demo_world (Some (demo_lock_row 7 100)) (?c True) None" 7] in \<open>simp add: demo_world_def fun_upd_twist\<close>)
  then have "lock_reachable Some (demo_world (Some (demo_lock_row 7 100)) ?v None)"
    by (rule lock_next) (use lock_spawn [of "demo_world (Some (demo_lock_row 7 100)) None None" 7 Some "''vim''"] in \<open>simp add: demo_world_def fun_upd_twist\<close>)
  then have "lock_reachable Some (demo_world (Some (demo_lock_row 7 100)) ?v (?c False))"
    by (rule lock_next) (use lock_spawn [of "demo_world (Some (demo_lock_row 7 100)) ?v None" 8 Some demo_command] in \<open>simp add: demo_world_def fun_upd_twist\<close>)
  then show ?thesis by (rule lock_next) (rule demo_takeover [OF refl])
qed

text \<open>A collector that runs compiled, from \<open>main.js\<close>, is taken for a stranger while it lives and holds the lock.\<close>

theorem compiled_collector_is_displaced:
  "let w = \<lparr>w_row = Some ((demo_lock_row 7 100)\<lparr>l_command := Some ''node apps/collector/src/main.js''\<rparr>),
            w_procs = (\<lambda>_. None)(7 := Some \<lparr>p_command = ''node apps/collector/src/main.js'', p_held = True\<rparr>)\<rparr>
   in fst (acquire (world_opts Some w ''m'' ''c0'' None ''h'' 8 demo_command) 200000 (w_row w)) = Inr (the (owner (Some (demo_lock_row 8 200000))))"
proof -
  have "command_marker ''node apps/collector/src/main.js'' = Some ''main.ts''" "\<not> js_includes ''node apps/collector/src/main.js'' ''main.ts''"
    "js_trim ''node apps/collector/src/main.js'' \<noteq> []" by code_simp+
  then show ?thesis
    by (simp add: acquire_def acquire_refusal_def owner_def claim_row_def world_opts_def demo_lock_row_def
        Let_def demo_command_source STALE_AFTER_MS_def pidStillOwns_def)
qed

section \<open>Properties\<close>

text \<open>The rule the comment of \<open>acquire\<close> states: no owner, our own row, a dead pid with a stale
  heartbeat, or a stale heartbeat on a pid that another program now has.\<close>

definition may_claim :: "LockOpts \<Rightarrow> int \<Rightarrow> LockRow option \<Rightarrow> bool" where
  "may_claim opts now row = (case row of None \<Rightarrow> True | Some r \<Rightarrow>
     if l_pid r = lo_me opts then True
     else if now - l_heartbeat r < nullish (lo_staleAfter opts) STALE_AFTER_MS then False
     else if lo_alive opts (l_pid r) then \<not> lo_stillOwns opts (l_pid r) (nullish (l_command r) '''')
     else True)"

text \<open>The lock is granted exactly by the stated rule, the grant writes the whole row of the new
  owner and returns it, and a refusal leaves the row as it was.\<close>

theorem acquire_follows_rule:
  "acquire opts now row =
    (if may_claim opts now row then (Inr (the (owner (Some (claim_row opts now)))), Some (claim_row opts now))
     else (Inl (the (acquire_refusal opts now row)), row))"
  by (auto simp: acquire_def acquire_refusal_def may_claim_def owner_def Let_def split: option.splits)

text \<open>C23: Mutual exclusion: however collectors start, take the lock, beat, release, crash and have
  their pids reused by any program, and whatever their clocks say, at most one live process holds the lock and the
  row names it; so a heartbeat or a release by a process that lost the lock cannot touch the new
  owner's row. The two conditions: the line \<open>ps\<close> prints of a process has the names of the scripts its command line has,
  and the collectors run from their source (a compiled one is displaced,
  \<open>compiled_collector_is_displaced\<close>).\<close>

theorem lock_mutual_exclusion:
  assumes "lock_reachable os_line w" and "ps_prints_command os_line"
    and "w_procs w a = Some p" and "p_held p" and "w_procs w b = Some q" and "p_held q"
  shows "a = b \<and> stillOwned a (w_row w)"
proof -
  obtain r where "w_row w = Some r" "l_pid r = a" "l_pid r = b"
    using reachable_holder [OF assms(1,2)] assms(3-6) unfolding holder_invariant_def by (metis option.inject)
  then show ?thesis by (simp add: stillOwned_def owner_def)
qed

theorem lock_mutual_exclusion_witness:
  "let w = demo_world (Some (demo_lock_row 8 200000)) (Some \<lparr>p_command = ''vim'', p_held = False\<rparr>) (Some \<lparr>p_command = demo_command, p_held = True\<rparr>)
   in w_procs w 7 \<noteq> None \<and> stillOwned 8 (w_row w) \<and> (\<forall>a p. w_procs w a = Some p \<longrightarrow> p_held p \<longrightarrow> a = 8)"
proof -
  let ?w = "demo_world (Some (demo_lock_row 8 200000)) (Some \<lparr>p_command = ''vim'', p_held = False\<rparr>) (Some \<lparr>p_command = demo_command, p_held = True\<rparr>)"
  have eight: "w_procs ?w 8 = Some \<lparr>p_command = demo_command, p_held = True\<rparr>" by (simp add: demo_world_def)
  note one = lock_mutual_exclusion [OF demo_world_reachable faithful_ps]
  have "a = 8" if "w_procs ?w a = Some p" "p_held p" for a p using one [OF that eight] by simp
  moreover have "stillOwned 8 (w_row ?w)" using one [OF eight _ eight] by simp
  moreover have "w_procs ?w 7 \<noteq> None" by (simp add: demo_world_def)
  ultimately show ?thesis unfolding Let_def by blast
qed

text \<open>The lock file is not exclusive: from a directory without the file, two live processes that
  run \<open>acquireFileLock\<close> concurrently can both come out holding it, because an empty file that was
  just created reads as a stale one and is unlinked.\<close>

theorem file_lock_race:
  "\<exists>schedule. let w = file_schedule (\<lambda>_. True) schedule
      \<lparr>f_path = None, f_text = (\<lambda>_. []), f_next = 0, f_pc = (\<lambda>_. F_idle)\<rparr>
    in holds_file w 10 \<and> holds_file w 20"
  by (rule exI [of _ "[10, 20, 20, 20, 20, 20, 10]"])
    (simp add: file_schedule_def open_wx_def goto_def holds_file_def holder_of_def js_trim_def Let_def)

end
