(* ===== verification/Lifecycle.thy ===== *)
theory Lifecycle
  imports Amounts
begin

text \<open>
  The small state machines of \<open>packages/domain/src\<close>: age cohorts (\<open>cohort.ts\<close>) and the queue that
  opens each of them once (\<open>cohort-queue.ts\<close>), evidence classes (\<open>evidence.ts\<close>), the shadow
  exit machine with its append-only evidence history (\<open>shadow-lifecycle.ts\<close>), and halt modes
  (\<open>halt.ts\<close>). Times are whole milliseconds; an age that is null or not finite is \<open>None\<close>.
  Messages of refusals are reduced to the facts they state. \<open>nearTrigger\<close>, which divides doubles,
  is in the theory ShadowExit.
\<close>

section \<open>Age cohorts\<close>

datatype Cohort = AGE_2M_60M | AGE_1H_5H | AGE_5H_24H | AGE_24H_7D

datatype CohortAssignment = In_cohort Cohort | TOO_YOUNG | TOO_OLD | AGE_UNKNOWN

definition COHORTS :: "Cohort list" where
  "COHORTS = [AGE_2M_60M, AGE_1H_5H, AGE_5H_24H, AGE_24H_7D]"

definition MINUTE :: int where "MINUTE = 60000"
definition HOUR :: int where "HOUR = 60 * MINUTE"
definition DAY :: int where "DAY = 24 * HOUR"

lemmas times = MINUTE_def HOUR_def DAY_def

fun fromMs :: "Cohort \<Rightarrow> int" where
  "fromMs AGE_2M_60M = 2 * MINUTE"
| "fromMs AGE_1H_5H = 1 * HOUR"
| "fromMs AGE_5H_24H = 5 * HOUR"
| "fromMs AGE_24H_7D = 24 * HOUR"

fun toMs :: "Cohort \<Rightarrow> int" where
  "toMs AGE_2M_60M = 60 * MINUTE"
| "toMs AGE_1H_5H = 5 * HOUR"
| "toMs AGE_5H_24H = 24 * HOUR"
| "toMs AGE_24H_7D = 7 * DAY"

definition cohortOf :: "int option \<Rightarrow> CohortAssignment" where
  "cohortOf age = (case age of None \<Rightarrow> AGE_UNKNOWN | Some a \<Rightarrow>
     if a < 0 then AGE_UNKNOWN
     else if a < fromMs AGE_2M_60M then TOO_YOUNG
     else case find (\<lambda>c. a \<ge> fromMs c \<and> a < toMs c) COHORTS of
         Some c \<Rightarrow> In_cohort c
       | None \<Rightarrow> TOO_OLD)"

definition isCohort :: "CohortAssignment \<Rightarrow> bool" where
  "isCohort a = (case a of In_cohort c \<Rightarrow> c \<in> set COHORTS | _ \<Rightarrow> False)"

text \<open>The reasons name the cohort, its count and the required one.\<close>

definition cohortsComparable :: "(Cohort \<Rightarrow> int option) \<Rightarrow> int \<Rightarrow> bool \<times> (Cohort \<times> int) list" where
  "cohortsComparable counts minimum =
    (let reasons = filter (\<lambda>(c, n). n < minimum) (map (\<lambda>c. (c, nullish (counts c) 0)) COHORTS)
     in (reasons = [], reasons))"

lemma COHORTS_all [simp]: "c \<in> set COHORTS" "distinct COHORTS"
  by (cases c) (simp_all add: COHORTS_def)

lemma cohortOf_In: "cohortOf (Some a) = In_cohort c \<longleftrightarrow> fromMs c \<le> a \<and> a < toMs c"
  by (cases c) (auto simp: cohortOf_def COHORTS_def times split: if_splits)

lemma cohortOf_outside:
  "cohortOf (Some a) = AGE_UNKNOWN \<longleftrightarrow> a < 0"
  "cohortOf (Some a) = TOO_YOUNG \<longleftrightarrow> 0 \<le> a \<and> a < 2 * MINUTE"
  "cohortOf (Some a) = TOO_OLD \<longleftrightarrow> 7 * DAY \<le> a"
  by (auto simp: cohortOf_def COHORTS_def times split: if_splits)

section \<open>The queue\<close>

record QueuedCandidate =
  q_mint :: string
  mintCreatedUtcMs :: int
  cohortsSeen :: "Cohort list"

record DueCandidate =
  d_mint :: string
  d_cohort :: Cohort
  d_ageMs :: int

definition LAST_EXIT_MS :: int where
  "LAST_EXIT_MS = Max (set (map toMs COHORTS))"

definition stillRelevant :: "QueuedCandidate \<Rightarrow> int \<Rightarrow> bool" where
  "stillRelevant c now \<longleftrightarrow> now - mintCreatedUtcMs c < LAST_EXIT_MS"

definition dueCohort :: "QueuedCandidate \<Rightarrow> int \<Rightarrow> DueCandidate option" where
  "dueCohort c now =
    (let age = now - mintCreatedUtcMs c in
     case cohortOf (Some age) of
       In_cohort k \<Rightarrow>
         if k \<in> set (cohortsSeen c) then None
         else Some \<lparr>d_mint = q_mint c, d_cohort = k, d_ageMs = age\<rparr>
     | _ \<Rightarrow> None)"

definition cohort_order :: "Cohort \<Rightarrow> nat" where
  "cohort_order c = length (takeWhile (\<lambda>k. k \<noteq> c) COHORTS)"

fun sweep_loop :: "int \<Rightarrow> QueuedCandidate list \<Rightarrow> DueCandidate list \<Rightarrow> string list \<Rightarrow> DueCandidate list \<times> string list" where
  "sweep_loop now [] due expired = (due, expired)"
| "sweep_loop now (c # queue) due expired =
    (if \<not> stillRelevant c now then sweep_loop now queue due (expired @ [q_mint c])
     else case dueCohort c now of
         None \<Rightarrow> sweep_loop now queue due expired
       | Some d \<Rightarrow> sweep_loop now queue (due @ [d]) expired)"

text \<open>The stable sort by descending order.\<close>

definition sweep :: "QueuedCandidate list \<Rightarrow> int \<Rightarrow> DueCandidate list \<times> string list" where
  "sweep queue now =
    (let (due, expired) = sweep_loop now queue [] []
     in (sort_key (\<lambda>d. 3 - cohort_order (d_cohort d)) due, expired))"

definition armCompleteness :: "(Cohort \<Rightarrow> int option) \<Rightarrow> int \<Rightarrow> bool \<times> Cohort list" where
  "armCompleteness counts minimum =
    (let missing = filter (\<lambda>c. nullish (counts c) 0 < minimum) COHORTS in (missing = [], missing))"

lemma LAST_EXIT: "LAST_EXIT_MS = 7 * DAY"
  by (simp add: LAST_EXIT_MS_def COHORTS_def times)

lemma sweep_loop_eq: "sweep_loop now queue due expired =
    (due @ List.map_filter (\<lambda>c. if stillRelevant c now then dueCohort c now else None) queue,
     expired @ map q_mint (filter (\<lambda>c. \<not> stillRelevant c now) queue))"
  by (induction queue arbitrary: due expired) (auto simp: List.map_filter_def split: option.splits)

lemma due_relevant: "dueCohort c now = Some d \<Longrightarrow> stillRelevant c now"
  unfolding dueCohort_def Let_def stillRelevant_def LAST_EXIT
  by (cases "d_cohort d") (auto simp: cohortOf_In times split: CohortAssignment.splits if_splits)

lemma sweep_eq: "sweep queue now =
    (sort_key (\<lambda>d. 3 - cohort_order (d_cohort d)) (List.map_filter (\<lambda>c. dueCohort c now) queue),
     map q_mint (filter (\<lambda>c. now - mintCreatedUtcMs c \<ge> 7 * DAY) queue))"
proof -
  have "(if stillRelevant c now then dueCohort c now else None) = dueCohort c now" for c
    using due_relevant [of c now] by (cases "dueCohort c now") auto
  moreover have "\<not> stillRelevant c now \<longleftrightarrow> now - mintCreatedUtcMs c \<ge> 7 * DAY" for c
    by (auto simp: stillRelevant_def LAST_EXIT)
  ultimately show ?thesis by (simp add: sweep_def sweep_loop_eq)
qed

lemma dueCohort_In: "dueCohort c now = Some d \<longleftrightarrow>
    (\<exists>k. cohortOf (Some (now - mintCreatedUtcMs c)) = In_cohort k \<and> k \<notin> set (cohortsSeen c) \<and>
      d = \<lparr>d_mint = q_mint c, d_cohort = k, d_ageMs = now - mintCreatedUtcMs c\<rparr>)"
  by (auto simp: dueCohort_def Let_def split: CohortAssignment.splits if_splits)

lemmas dueCohort_Some = dueCohort_In [unfolded cohortOf_In]

section \<open>Evidence classes\<close>

datatype EvidenceClass = STRUCTURAL_ONLY | JIT_EFFECT_VALID | OFFLINE_REPRODUCIBLE | CONFIRMATORY

definition EVIDENCE_CLASSES :: "EvidenceClass list" where
  "EVIDENCE_CLASSES = [STRUCTURAL_ONLY, JIT_EFFECT_VALID, OFFLINE_REPRODUCIBLE, CONFIRMATORY]"

record LegEvidence =
  validity :: "string option"
  effectOk :: bool
  offline :: bool
  confirmatory :: bool
  accountCoverageOk :: bool

text \<open>\<open>EVIDENCE_CLASSES.indexOf\<close>.\<close>

definition class_index :: "EvidenceClass \<Rightarrow> nat" where
  "class_index c = length (takeWhile (\<lambda>k. k \<noteq> c) EVIDENCE_CLASSES)"

definition legClass :: "LegEvidence \<Rightarrow> EvidenceClass" where
  "legClass l =
    (if (case validity l of None \<Rightarrow> True | Some v \<Rightarrow> take 6 v \<noteq> ''VALID_'') then STRUCTURAL_ONLY
     else if \<not> effectOk l then STRUCTURAL_ONLY
     else if \<not> accountCoverageOk l then JIT_EFFECT_VALID
     else if \<not> offline l then JIT_EFFECT_VALID
     else if \<not> confirmatory l then OFFLINE_REPRODUCIBLE
     else CONFIRMATORY)"

definition evidenceClassOf :: "LegEvidence option \<Rightarrow> LegEvidence option \<Rightarrow> EvidenceClass" where
  "evidenceClassOf entry exit =
    (case (entry, exit) of
       (Some l, Some m) \<Rightarrow> EVIDENCE_CLASSES ! min (class_index (legClass l)) (class_index (legClass m))
     | _ \<Rightarrow> STRUCTURAL_ONLY)"

definition tallyByClass :: "EvidenceClass list \<Rightarrow> EvidenceClass \<Rightarrow> int" where
  "tallyByClass classes = fold (\<lambda>c out. out(c := out c + 1)) classes (\<lambda>_. 0)"

text \<open>The classes are a linear order, the one of their index.\<close>

instantiation EvidenceClass :: linorder
begin

definition less_eq_EvidenceClass :: "EvidenceClass \<Rightarrow> EvidenceClass \<Rightarrow> bool" where
  "less_eq_EvidenceClass a b \<longleftrightarrow> class_index a \<le> class_index b"

definition less_EvidenceClass :: "EvidenceClass \<Rightarrow> EvidenceClass \<Rightarrow> bool" where
  "less_EvidenceClass a b \<longleftrightarrow> class_index a < class_index b"

lemma class_index_simps [simp]: "class_index STRUCTURAL_ONLY = 0" "class_index JIT_EFFECT_VALID = 1"
  "class_index OFFLINE_REPRODUCIBLE = 2" "class_index CONFIRMATORY = 3"
  by (simp_all add: class_index_def EVIDENCE_CLASSES_def)

lemma class_index_inject [simp]: "class_index a = class_index b \<longleftrightarrow> a = b"
  by (cases a; cases b) simp_all

instance
  by standard (auto simp: less_eq_EvidenceClass_def less_EvidenceClass_def)

end

lemma class_at_index [simp]: "EVIDENCE_CLASSES ! class_index c = c"
  by (cases c) (simp_all add: EVIDENCE_CLASSES_def)

lemma class_at_min: "EVIDENCE_CLASSES ! min (class_index a) (class_index b) = min a b"
  by (auto simp: min_def less_eq_EvidenceClass_def)

lemma tally_count: "tallyByClass classes c = int (count_list classes c)"
proof -
  have "fold (\<lambda>c out. out(c := out c + 1)) classes f c = f c + int (count_list classes c)" for f :: "EvidenceClass \<Rightarrow> int"
    by (induction classes arbitrary: f) auto
  then show ?thesis by (simp add: tallyByClass_def)
qed

lemma structural_least [simp]: "STRUCTURAL_ONLY \<le> c"
  by (simp add: less_eq_EvidenceClass_def)

section \<open>The shadow machine\<close>

datatype ShadowState = POSITION_OPEN | EXIT_TRIGGERED | AWAITING_FILL_OBSERVATION | EXIT_BLOCKED | POSITION_CLOSED

fun ALLOWED :: "ShadowState \<Rightarrow> ShadowState list" where
  "ALLOWED POSITION_OPEN = [EXIT_TRIGGERED]"
| "ALLOWED EXIT_TRIGGERED = [AWAITING_FILL_OBSERVATION]"
| "ALLOWED AWAITING_FILL_OBSERVATION = [POSITION_CLOSED, EXIT_BLOCKED]"
| "ALLOWED EXIT_BLOCKED = [AWAITING_FILL_OBSERVATION, POSITION_CLOSED]"
| "ALLOWED POSITION_CLOSED = []"

definition canTransition :: "ShadowState \<Rightarrow> ShadowState \<Rightarrow> bool" where
  "canTransition from to \<longleftrightarrow> to \<in> set (ALLOWED from)"

datatype transition_reason = must_await_fill | closed_is_terminal | only_reachable "ShadowState list"
datatype transition_error = IllegalShadowTransition ShadowState ShadowState transition_reason

definition assertTransition :: "ShadowState \<Rightarrow> ShadowState \<Rightarrow> transition_error + unit" where
  "assertTransition from to =
    (if canTransition from to then Inr ()
     else Inl (IllegalShadowTransition from to
       (if from = EXIT_TRIGGERED \<and> to = POSITION_CLOSED then must_await_fill
        else if from = POSITION_CLOSED then closed_is_terminal
        else only_reachable (ALLOWED from))))"

definition holdsExposure :: "ShadowState \<Rightarrow> bool" where
  "holdsExposure state \<longleftrightarrow> state \<noteq> POSITION_CLOSED"

definition schedulePriority :: "ShadowState \<Rightarrow> int \<Rightarrow> int \<Rightarrow> int" where
  "schedulePriority state distanceBps overdueMs =
    (let tier = (if state = EXIT_BLOCKED then 0
       else if state = EXIT_TRIGGERED \<or> state = AWAITING_FILL_OBSERVATION then 1
       else if distanceBps < 500 then 2 else 3)
     in tier * 1000000000 - overdueMs)"

text \<open>A history of states in which every move was asserted.\<close>

fun legal_path :: "ShadowState list \<Rightarrow> bool" where
  "legal_path (a # b # path) = (assertTransition a b = Inr () \<and> legal_path (b # path))"
| "legal_path _ = True"

lemma assert_ok: "assertTransition a b = Inr () \<longleftrightarrow> canTransition a b"
  by (simp add: assertTransition_def)

lemma legal_path_nth: "legal_path xs \<Longrightarrow> Suc i < length xs \<Longrightarrow> canTransition (xs ! i) (xs ! Suc i)"
proof (induction xs arbitrary: i rule: legal_path.induct)
  case (1 a b path)
  then show ?case by (cases i) (auto simp: assert_ok)
qed auto

text \<open>Between a state that is not awaiting or blocked and a later closed one, the machine awaits.\<close>

lemma awaits_before_close:
  assumes "legal_path xs" and "i < j" and "j < length xs" and "xs ! j = POSITION_CLOSED"
    and "xs ! i \<in> {POSITION_OPEN, EXIT_TRIGGERED}"
  shows "\<exists>k. i < k \<and> k < j \<and> xs ! k = AWAITING_FILL_OBSERVATION"
  using assms(2-)
proof (induction "j - i" arbitrary: i)
  case 0
  then show ?case by simp
next
  case (Suc n)
  have step: "canTransition (xs ! i) (xs ! Suc i)" using legal_path_nth [OF assms(1)] Suc.prems by simp
  then consider "xs ! Suc i = EXIT_TRIGGERED" | "xs ! Suc i = AWAITING_FILL_OBSERVATION"
    using Suc.prems by (auto simp: canTransition_def)
  then show ?case
  proof cases
    case 1
    then have "Suc i < j" using Suc.prems by (metis ShadowState.distinct Suc_lessI)
    then have "\<exists>k. Suc i < k \<and> k < j \<and> xs ! k = AWAITING_FILL_OBSERVATION"
      using Suc.hyps(1) [of "Suc i"] Suc.hyps(2) Suc.prems 1 by simp
    then show ?thesis using Suc_lessD by blast
  next
    case 2
    then have "Suc i < j" using Suc.prems by (metis ShadowState.distinct Suc_lessI)
    then show ?thesis using 2 by blast
  qed
qed

lemma closed_is_last: "legal_path xs \<Longrightarrow> i < length xs \<Longrightarrow> xs ! i = POSITION_CLOSED \<Longrightarrow> i = length xs - 1"
  using legal_path_nth [of xs i] by (cases "Suc i < length xs") (auto simp: canTransition_def)

text \<open>The evidence history of a position.\<close>

record EvidenceEvent =
  at :: int
  evidenceClass :: EvidenceClass
  e_reason :: string

datatype promote_error = silent_demotion EvidenceClass EvidenceClass

definition promote :: "EvidenceEvent list \<Rightarrow> EvidenceEvent \<Rightarrow> promote_error + EvidenceEvent list" where
  "promote history next_event =
    (if history = [] then Inr [next_event]
     else
       let current = last history;
           from = class_index (evidenceClass current);
           to = class_index (evidenceClass next_event)
       in if to < from then Inl (silent_demotion (evidenceClass current) (evidenceClass next_event))
          else if to = from then Inr history
          else Inr (history @ [next_event]))"

definition currentClass :: "EvidenceEvent list \<Rightarrow> EvidenceClass" where
  "currentClass history = (if history = [] then STRUCTURAL_ONLY else evidenceClass (last history))"

text \<open>A position's history after a run of promotions, refused ones leaving it as it was.\<close>

definition promote_or_keep :: "EvidenceEvent \<Rightarrow> EvidenceEvent list \<Rightarrow> EvidenceEvent list" where
  "promote_or_keep e history = (case promote history e of Inl _ \<Rightarrow> history | Inr h \<Rightarrow> h)"

definition promotions :: "EvidenceEvent list \<Rightarrow> EvidenceEvent list" where
  "promotions events = fold promote_or_keep events []"

lemma promote_or_keep_cases:
  "promote_or_keep e h = h \<or> (promote_or_keep e h = h @ [e] \<and> (h = [] \<or> currentClass h < evidenceClass e))"
  by (auto simp: promote_or_keep_def promote_def currentClass_def Let_def less_EvidenceClass_def)
    (metis class_index_inject linorder_neqE_nat)

lemma promote_class: "currentClass (promote_or_keep e h) = max (currentClass h) (evidenceClass e)"
  by (auto simp: promote_or_keep_def promote_def currentClass_def Let_def max_def less_eq_EvidenceClass_def)

lemma promote_sorted:
  "sorted_wrt (<) (map evidenceClass h) \<Longrightarrow> sorted_wrt (<) (map evidenceClass (promote_or_keep e h))"
proof (cases "promote_or_keep e h = h")
  case False
  assume sorted: "sorted_wrt (<) (map evidenceClass h)"
  have app: "promote_or_keep e h = h @ [e]" and above: "h = [] \<or> currentClass h < evidenceClass e"
    using promote_or_keep_cases [of e h] False by auto
  have "evidenceClass x < evidenceClass e" if "x \<in> set h" for x
  proof -
    have "h = butlast h @ [last h]" using that by (cases h) simp_all
    then have "evidenceClass x \<le> currentClass h"
      using sorted that by (cases h rule: rev_cases) (auto simp: currentClass_def sorted_wrt_append)
    then show ?thesis using above that by auto
  qed
  then show ?thesis using sorted unfolding app by (simp add: sorted_wrt_append)
qed simp

lemma promotions_snoc: "promotions (events @ [e]) = promote_or_keep e (promotions events)"
  by (simp add: promotions_def)

lemma promotions_sorted: "sorted_wrt (<) (map evidenceClass (promotions events))"
  by (induction events rule: rev_induct) (simp_all add: promotions_snoc promote_sorted, simp add: promotions_def)

lemma promotions_class: "currentClass (promotions events) = fold max (map evidenceClass events) STRUCTURAL_ONLY"
  by (induction events rule: rev_induct)
    (simp_all add: promotions_snoc promote_class max.commute, simp add: promotions_def currentClass_def)

lemma promotions_prefix: "\<exists>more. promotions (events @ later) = promotions events @ more"
proof (induction later rule: rev_induct)
  case (snoc e later)
  then obtain more where "promotions (events @ later) = promotions events @ more" ..
  moreover have "promotions (events @ later @ [e]) = promote_or_keep e (promotions (events @ later))"
    using promotions_snoc [of "events @ later" e] by simp
  ultimately show ?case using promote_or_keep_cases [of e "promotions (events @ later)"] by auto
qed simp

section \<open>Halting\<close>

datatype HaltMode = HALT_NEW_ENTRIES | EXIT_ONLY | TERMINATE_WHEN_FLAT | EMERGENCY_RECONCILE

record Halt =
  h_path :: string
  mode :: HaltMode
  defaulted :: bool
  rawLabel :: "string option"

datatype halt_file = Absent | Unreadable | Body string

definition HALT_LABELS :: "(string \<times> HaltMode) list" where
  "HALT_LABELS = [(''HALT_NEW_ENTRIES'', HALT_NEW_ENTRIES), (''EXIT_ONLY'', EXIT_ONLY),
     (''TERMINATE_WHEN_FLAT'', TERMINATE_WHEN_FLAT), (''EMERGENCY_RECONCILE'', EMERGENCY_RECONCILE)]"

definition DEFAULT_MODE :: HaltMode where
  "DEFAULT_MODE = TERMINATE_WHEN_FLAT"

text \<open>\<open>toUpperCase\<close> on ASCII; no other character below code 256 has an upper case in ASCII other
  than the sharp s, which no label can come from.\<close>

definition upper_char :: "char \<Rightarrow> char" where
  "upper_char c = (let n = of_char c :: nat in if 97 \<le> n \<and> n \<le> 122 then char_of (n - 32) else c)"

text \<open>Splitting at line feeds is enough: a carriage return before one is trimmed with its line.\<close>

definition parseMode :: "string \<Rightarrow> HaltMode \<times> bool \<times> string option" where
  "parseMode body =
    (case find (\<lambda>l. length l > 0 \<and> take 1 l \<noteq> ''#'') (map js_trim (split_lines body)) of
       None \<Rightarrow> (DEFAULT_MODE, True, None)
     | Some line \<Rightarrow>
         let label = map upper_char (take 32 line) in
         case map_of HALT_LABELS label of
           None \<Rightarrow> (DEFAULT_MODE, True, Some label)
         | Some m \<Rightarrow> (m, False, Some label))"

fun haltState :: "(string \<Rightarrow> halt_file) \<Rightarrow> string list \<Rightarrow> Halt option" where
  "haltState files [] = None"
| "haltState files (path # paths) =
    (case files path of
       Absent \<Rightarrow> haltState files paths
     | Unreadable \<Rightarrow> Some \<lparr>h_path = path, mode = DEFAULT_MODE, defaulted = True, rawLabel = None\<rparr>
     | Body body \<Rightarrow> (let (m, d, l) = parseMode body in Some \<lparr>h_path = path, mode = m, defaulted = d, rawLabel = l\<rparr>))"

definition entriesAllowed :: "HaltMode \<Rightarrow> bool" where
  "entriesAllowed m = False"

definition exitManagementActive :: "HaltMode \<Rightarrow> bool" where
  "exitManagementActive m \<longleftrightarrow> m \<noteq> EMERGENCY_RECONCILE"

definition mayTerminate :: "HaltMode \<Rightarrow> int \<Rightarrow> bool" where
  "mayTerminate m openPositions =
    (if m = EMERGENCY_RECONCILE then True
     else if m = TERMINATE_WHEN_FLAT then openPositions = 0
     else False)"

lemma halt_some_iff: "haltState files paths = None \<longleftrightarrow> (\<forall>p \<in> set paths. files p = Absent)"
  by (induction paths) (auto split: halt_file.splits prod.splits)

lemma parse_emergency: "fst (parseMode body) = EMERGENCY_RECONCILE \<Longrightarrow>
    snd (snd (parseMode body)) = Some ''EMERGENCY_RECONCILE''"
  by (auto simp: parseMode_def Let_def DEFAULT_MODE_def HALT_LABELS_def split: option.splits if_splits)

lemma halt_emergency:
  "haltState files paths = Some h \<Longrightarrow> mode h = EMERGENCY_RECONCILE \<Longrightarrow> rawLabel h = Some ''EMERGENCY_RECONCILE''"
proof (induction paths)
  case (Cons p paths)
  then show ?case
    by (auto simp: DEFAULT_MODE_def split: halt_file.splits prod.splits dest: parse_emergency [simplified])
      (metis fst_conv snd_conv parse_emergency)
qed simp

section \<open>Properties\<close>

text \<open>The cohorts partition the ages they cover: an age is in a cohort exactly when it is in its
  half-open interval, so no age is in two cohorts, and the three other answers are exactly the ages
  before, after and outside time.\<close>

theorem cohorts_partition:
  "(cohortOf (Some a) = In_cohort c \<longleftrightarrow> fromMs c \<le> a \<and> a < toMs c) \<and>
   (cohortOf (Some a) = TOO_YOUNG \<longleftrightarrow> 0 \<le> a \<and> a < 2 * MINUTE) \<and>
   (cohortOf (Some a) = TOO_OLD \<longleftrightarrow> 7 * DAY \<le> a) \<and>
   (cohortOf (Some a) = AGE_UNKNOWN \<longleftrightarrow> a < 0)"
  by (simp add: cohortOf_In cohortOf_outside)

text \<open>One sweep serves the arms with the oldest cohorts first, and for every queued candidate it
  does exactly one of three things: expire it once it is older than the last cohort, open the cohort
  it is in when that cohort is not yet opened, or neither; a cohort already opened is never due
  again.\<close>

theorem sweep_correct:
  "sorted_wrt (\<lambda>d e. cohort_order (d_cohort e) \<le> cohort_order (d_cohort d)) (fst (sweep queue now)) \<and>
   set (fst (sweep queue now)) =
     {\<lparr>d_mint = q_mint c, d_cohort = k, d_ageMs = now - mintCreatedUtcMs c\<rparr> | c k.
       c \<in> set queue \<and> fromMs k \<le> now - mintCreatedUtcMs c \<and> now - mintCreatedUtcMs c < toMs k \<and>
       k \<notin> set (cohortsSeen c)} \<and>
   snd (sweep queue now) = map q_mint (filter (\<lambda>c. now - mintCreatedUtcMs c \<ge> 7 * DAY) queue)"
proof (intro conjI)
  have order: "cohort_order k \<le> 3" for k
    by (cases k) (simp_all add: cohort_order_def COHORTS_def)
  have down: "3 - cohort_order a \<le> 3 - cohort_order b \<Longrightarrow> cohort_order b \<le> cohort_order a" for a b
    using order [of a] order [of b] by arith
  have "sorted_wrt (\<lambda>d e. 3 - cohort_order (d_cohort d) \<le> 3 - cohort_order (d_cohort e)) (fst (sweep queue now))"
    using sorted_sort_key [of "\<lambda>d. 3 - cohort_order (d_cohort d)" "List.map_filter (\<lambda>c. dueCohort c now) queue"]
    unfolding sweep_eq fst_conv sorted_map .
  then show "sorted_wrt (\<lambda>d e. cohort_order (d_cohort e) \<le> cohort_order (d_cohort d)) (fst (sweep queue now))"
    by (rule sorted_wrt_mono_rel [rotated]) (rule down)
  show "set (fst (sweep queue now)) = {\<lparr>d_mint = q_mint c, d_cohort = k, d_ageMs = now - mintCreatedUtcMs c\<rparr> | c k.
       c \<in> set queue \<and> fromMs k \<le> now - mintCreatedUtcMs c \<and> now - mintCreatedUtcMs c < toMs k \<and>
       k \<notin> set (cohortsSeen c)}"
    unfolding sweep_eq fst_conv set_sort List.map_filter_def
    by (auto simp: dueCohort_Some image_iff) (metis dueCohort_Some option.discI option.sel)+
qed (simp add: sweep_eq)

text \<open>A round trip has the class of its weaker leg, and a class above structural needs both legs
  valid and effect-checked; confirmatory needs everything of both.\<close>

theorem round_trip_class_is_weaker:
  "evidenceClassOf (Some l) (Some m) = min (legClass l) (legClass m) \<and>
   (evidenceClassOf (Some l) (Some m) = CONFIRMATORY \<longleftrightarrow>
     list_all (\<lambda>k. take 6 (nullish (validity k) []) = ''VALID_'' \<and> effectOk k \<and> accountCoverageOk k \<and>
       offline k \<and> confirmatory k) [l, m])"
proof -
  have "legClass k = CONFIRMATORY \<longleftrightarrow> take 6 (nullish (validity k) []) = ''VALID_'' \<and> effectOk k \<and>
      accountCoverageOk k \<and> offline k \<and> confirmatory k" for k
    by (auto simp: legClass_def split: option.splits)
  moreover have "min a b = CONFIRMATORY \<longleftrightarrow> a = CONFIRMATORY \<and> b = CONFIRMATORY" for a b :: EvidenceClass
    by (cases a; cases b) (simp_all add: min_def less_eq_EvidenceClass_def)
  ultimately show ?thesis by (simp add: evidenceClassOf_def class_at_min)
qed

text \<open>No shadow closes at its trigger: on any asserted history, a fill is awaited strictly between
  a trigger (or an opening) and a close; and a close is the end of the history.\<close>

theorem fill_awaited_before_close:
  assumes "legal_path xs" and "i < j" and "j < length xs" and "xs ! j = POSITION_CLOSED"
    and "xs ! i \<in> {POSITION_OPEN, EXIT_TRIGGERED}"
  shows "(\<exists>k. i < k \<and> k < j \<and> xs ! k = AWAITING_FILL_OBSERVATION) \<and> j = length xs - 1"
  using awaits_before_close [OF assms] closed_is_last [OF assms(1,3,4)] by blast

theorem fill_awaited_before_close_witness:
  "(\<exists>k. 1 < k \<and> k < 5 \<and> [POSITION_OPEN, EXIT_TRIGGERED, AWAITING_FILL_OBSERVATION, EXIT_BLOCKED,
      AWAITING_FILL_OBSERVATION, POSITION_CLOSED] ! k = AWAITING_FILL_OBSERVATION) \<and>
   5 = length [POSITION_OPEN, EXIT_TRIGGERED, AWAITING_FILL_OBSERVATION, EXIT_BLOCKED,
      AWAITING_FILL_OBSERVATION, POSITION_CLOSED] - 1"
  by (rule fill_awaited_before_close) (simp_all add: assertTransition_def canTransition_def)

text \<open>Exposure can always be worked off: from every state that still holds tokens there is a
  legal path to a close.\<close>

theorem every_shadow_can_close:
  "\<exists>path. legal_path (state # path) \<and> last (state # path) = POSITION_CLOSED"
proof -
  have "legal_path (AWAITING_FILL_OBSERVATION # [POSITION_CLOSED])"
    "legal_path (EXIT_BLOCKED # [POSITION_CLOSED])" "legal_path [POSITION_CLOSED]"
    "legal_path (EXIT_TRIGGERED # [AWAITING_FILL_OBSERVATION, POSITION_CLOSED])"
    "legal_path (POSITION_OPEN # [EXIT_TRIGGERED, AWAITING_FILL_OBSERVATION, POSITION_CLOSED])"
    by (simp_all add: assertTransition_def canTransition_def)
  then show ?thesis
    by (cases state) (metis last.simps list.distinct(1))+
qed

text \<open>Evidence is append-only and never demoted: whatever events arrive in whatever order, the
  history only grows, its classes strictly increase, and the class in force is the highest class any
  event ever established.\<close>

theorem evidence_monotone:
  "(\<exists>more. promotions (events @ later) = promotions events @ more) \<and>
   sorted_wrt (<) (map evidenceClass (promotions events)) \<and>
   currentClass (promotions events) = fold max (map evidenceClass events) STRUCTURAL_ONLY"
  using promotions_prefix promotions_sorted promotions_class by blast

text \<open>A halt never orphans a position by accident: any halt file that exists halts, even an
  unreadable one; with a position open the process may leave only in emergency mode, which takes the
  word EMERGENCY_RECONCILE in the file.\<close>

theorem halt_never_orphans:
  "(haltState files paths = None \<longleftrightarrow> list_all (\<lambda>p. files p = Absent) paths) \<and>
   (case haltState files paths of None \<Rightarrow> True | Some h \<Rightarrow>
     \<not> entriesAllowed (mode h) \<and>
     (if mayTerminate (mode h) openPositions \<and> openPositions \<noteq> 0
      then rawLabel h = Some ''EMERGENCY_RECONCILE'' \<and> \<not> exitManagementActive (mode h) else True))"
  by (auto simp: halt_some_iff list_all_iff entriesAllowed_def mayTerminate_def exitManagementActive_def
      dest: halt_emergency split: option.splits if_splits)

end
