(* ===== verification/Doubles.thy ===== *)
theory Doubles
  imports Complex_Main Prelude
begin

text \<open>
  JavaScript numbers as exact rationals: \<open>fl\<close> rounds a rational to the nearest double (53-bit
  significand, ties to even), so \<open>fl (x / y)\<close> is the number the program computes from two numbers
  by one operation. The exponent is unbounded: overflow to infinity and subnormal numbers are out
  of scope, and no model here reaches them (its values lie between \<open>2 ^ -100\<close> and \<open>2 ^ 200\<close>).
\<close>

section \<open>Rounding\<close>

definition ilog2 :: "rat \<Rightarrow> int" where
  "ilog2 x = (let (n, d) = quotient_of x;
      k = int (bit_length (nat n)) - int (bit_length (nat d))
    in if 2 powi k \<le> x then k else k - 1)"

definition round_even :: "rat \<Rightarrow> int" where
  "round_even x = (let f = \<lfloor>x\<rfloor>; r = x - of_int f in
     if r < 1 / 2 then f else if r > 1 / 2 then f + 1 else if even f then f else f + 1)"

definition fl :: "rat \<Rightarrow> rat" where
  "fl x = (if x = 0 then 0
     else let e = ilog2 \<bar>x\<bar> - 52 in sgn x * of_int (round_even (\<bar>x\<bar> * 2 powi (- e))) * 2 powi e)"

section \<open>Lemmas\<close>

lemma bit_length_bounds: "0 < n \<Longrightarrow> 2 ^ (bit_length n - 1) \<le> n \<and> n < 2 ^ bit_length n \<and> 1 \<le> bit_length n"
proof (induction n rule: bit_length.induct)
  case (1 n)
  show ?case
  proof (cases "n div 2 = 0")
    case True
    then have "n = 1" using "1.prems" by simp
    then show ?thesis by (simp add: bit_length.simps)
  next
    case False
    then have IH: "2 ^ (bit_length (n div 2) - 1) \<le> n div 2" "n div 2 < 2 ^ bit_length (n div 2)"
      "1 \<le> bit_length (n div 2)" using "1.IH" "1.prems" by simp_all
    have len: "bit_length n = Suc (bit_length (n div 2))" using "1.prems" by (subst bit_length.simps) simp
    have "(2 :: nat) ^ bit_length (n div 2) = 2 * 2 ^ (bit_length (n div 2) - 1)"
      using IH(3) by (cases "bit_length (n div 2)") simp_all
    then have "2 ^ bit_length (n div 2) \<le> n" "n < 2 * 2 ^ bit_length (n div 2)" using IH(1,2) by linarith+
    then show ?thesis unfolding len by simp
  qed
qed

lemma powi_mult: "(2 :: rat) powi i * 2 powi j = 2 powi (i + j)"
  by (simp add: power_int_add)

lemma powi_lessD: "(2 :: rat) powi i < 2 powi j \<Longrightarrow> i < j"
  using power_int_increasing [of j i "2 :: rat"] by (cases "i < j") simp_all

lemma pow_le_rat:
  assumes "2 ^ k \<le> nat m" and "0 < m"
  shows "2 powi int k \<le> (of_int m :: rat)"
proof -
  have "(of_nat (2 ^ k) :: rat) \<le> of_nat (nat m)" using assms(1) by (rule of_nat_mono)
  then show ?thesis using assms(2) by (simp add: power_int_def)
qed

lemma rat_less_pow:
  assumes "nat m < 2 ^ k" and "0 < m"
  shows "(of_int m :: rat) < 2 powi int k"
proof -
  have "(of_nat (nat m) :: rat) < of_nat (2 ^ k)" using assms(1) unfolding of_nat_less_iff .
  then show ?thesis using assms(2) by (simp add: power_int_def)
qed

lemma ilog2_bounds:
  assumes "0 < x"
  shows "2 powi ilog2 x \<le> x" and "x < 2 powi (ilog2 x + 1)"
proof -
  obtain n d where q: "quotient_of x = (n, d)" by (cases "quotient_of x")
  have d: "0 < d" using quotient_of_denom_pos [OF q] .
  have x: "x = of_int n / of_int d" using quotient_of_div [OF q] .
  have n: "0 < n" using assms d unfolding x by (simp add: zero_less_divide_iff)
  let ?a = "bit_length (nat n)" and ?b = "bit_length (nat d)"
  have bn: "2 ^ (?a - 1) \<le> nat n" "nat n < 2 ^ ?a" "1 \<le> ?a" using bit_length_bounds [of "nat n"] n by simp_all
  have bd: "2 ^ (?b - 1) \<le> nat d" "nat d < 2 ^ ?b" "1 \<le> ?b" using bit_length_bounds [of "nat d"] d by simp_all
  have n': "2 powi (int ?a - 1) \<le> (of_int n :: rat)" "(of_int n :: rat) < 2 powi int ?a"
    using pow_le_rat [OF bn(1) n] rat_less_pow [OF bn(2) n] bn(3) by (simp_all add: of_nat_diff)
  have d': "2 powi (int ?b - 1) \<le> (of_int d :: rat)" "(of_int d :: rat) < 2 powi int ?b"
    using pow_le_rat [OF bd(1) d] rat_less_pow [OF bd(2) d] bd(3) by (simp_all add: of_nat_diff)
  have dpos: "(0 :: rat) < of_int d" using d by simp
  have low: "2 powi (int ?a - int ?b - 1) \<le> x"
  proof -
    have "2 powi (int ?a - int ?b - 1) * of_int d \<le> 2 powi (int ?a - int ?b - 1) * (2 powi int ?b :: rat)"
      using d'(2) by (intro mult_left_mono) simp_all
    also have "\<dots> = 2 powi (int ?a - int ?b - 1 + int ?b)" by (rule powi_mult)
    also have "\<dots> = 2 powi (int ?a - 1)" by simp
    also have "\<dots> \<le> of_int n" by (rule n'(1))
    finally show ?thesis unfolding x using dpos by (simp add: pos_le_divide_eq)
  qed
  have high: "x < 2 powi (int ?a - int ?b + 1)"
  proof -
    have "(of_int n :: rat) < 2 powi int ?a" by (rule n'(2))
    also have "\<dots> = 2 powi (int ?a - int ?b + 1) * 2 powi (int ?b - 1)" unfolding powi_mult by simp
    also have "\<dots> \<le> 2 powi (int ?a - int ?b + 1) * of_int d" using d'(1) by (intro mult_left_mono) simp_all
    finally show ?thesis unfolding x using dpos by (simp add: pos_divide_less_eq)
  qed
  show "2 powi ilog2 x \<le> x" and "x < 2 powi (ilog2 x + 1)"
    using low high by (auto simp: ilog2_def q Let_def)
qed

lemma ilog2_unique:
  assumes "2 powi e \<le> x" and "x < 2 powi (e + 1)"
  shows "ilog2 x = e"
proof -
  have "0 < x" using assms(1) by (rule less_le_trans [rotated]) simp
  note b = ilog2_bounds [OF this]
  have "(2 :: rat) powi e < 2 powi (ilog2 x + 1)" using assms(1) b(2) by (rule le_less_trans)
  moreover have "(2 :: rat) powi ilog2 x < 2 powi (e + 1)" using b(1) assms(2) by (rule le_less_trans)
  ultimately have "e < ilog2 x + 1" "ilog2 x < e + 1" by (blast dest: powi_lessD)+
  then show ?thesis by simp
qed

lemma ilog2_mono:
  assumes "0 < x" and "x \<le> y"
  shows "ilog2 x \<le> ilog2 y"
proof -
  have "(2 :: rat) powi ilog2 x \<le> x" using ilog2_bounds(1) [OF assms(1)] .
  also have "\<dots> \<le> y" by (rule assms(2))
  also have "\<dots> < 2 powi (ilog2 y + 1)" using ilog2_bounds(2) assms by (meson less_le_trans)
  finally show ?thesis using powi_lessD by force
qed

lemma round_even_of_int [simp]: "round_even (of_int n) = n"
  by (simp add: round_even_def)

lemma round_even_floor: "\<lfloor>x\<rfloor> \<le> round_even x \<and> round_even x \<le> \<lfloor>x\<rfloor> + 1"
  by (simp add: round_even_def Let_def)

lemma round_even_mono:
  assumes "x \<le> y"
  shows "round_even x \<le> round_even y"
proof (cases "\<lfloor>x\<rfloor> = \<lfloor>y\<rfloor>")
  case True
  then show ?thesis using assms by (simp add: round_even_def Let_def)
next
  case False
  then have "\<lfloor>x\<rfloor> + 1 \<le> \<lfloor>y\<rfloor>" using floor_mono [OF assms] by simp
  then show ?thesis using round_even_floor [of x] round_even_floor [of y] by simp
qed

lemma fl_0 [simp]: "fl 0 = 0"
  by (simp add: fl_def)

lemma fl_minus: "fl (- x) = - fl x"
  by (simp add: fl_def Let_def)

lemma fl_pos_eq: "0 < x \<Longrightarrow> fl x = of_int (round_even (x * 2 powi (52 - ilog2 x))) * 2 powi (ilog2 x - 52)"
  by (simp add: fl_def Let_def)

text \<open>The significand of a positive number lies between \<open>2 ^ 52\<close> and \<open>2 ^ 53\<close>.\<close>

lemma significand_bounds:
  assumes "0 < x"
  shows "2 ^ 52 \<le> x * 2 powi (52 - ilog2 x)" and "x * 2 powi (52 - ilog2 x) < 2 ^ 53"
proof -
  note b = ilog2_bounds [OF assms]
  have "(2 :: rat) powi ilog2 x * 2 powi (52 - ilog2 x) \<le> x * 2 powi (52 - ilog2 x)"
    using b(1) by (intro mult_right_mono) simp_all
  then show "2 ^ 52 \<le> x * 2 powi (52 - ilog2 x)" unfolding powi_mult by (simp add: power_int_def)
  have "x * 2 powi (52 - ilog2 x) < 2 powi (ilog2 x + 1) * 2 powi (52 - ilog2 x)"
    using b(2) by (intro mult_strict_right_mono) simp_all
  then show "x * 2 powi (52 - ilog2 x) < 2 ^ 53" unfolding powi_mult by (simp add: power_int_def)
qed

lemma rounded_bounds:
  assumes "0 < x"
  shows "2 ^ 52 \<le> round_even (x * 2 powi (52 - ilog2 x))" and "round_even (x * 2 powi (52 - ilog2 x)) \<le> 2 ^ 53"
proof -
  have "round_even (of_int (2 ^ 52)) \<le> round_even (x * 2 powi (52 - ilog2 x))"
    using significand_bounds(1) [OF assms] by (intro round_even_mono) simp
  then show "2 ^ 52 \<le> round_even (x * 2 powi (52 - ilog2 x))" unfolding round_even_of_int .
  have "round_even (x * 2 powi (52 - ilog2 x)) \<le> round_even (of_int (2 ^ 53))"
    using significand_bounds(2) [OF assms] by (intro round_even_mono) simp
  then show "round_even (x * 2 powi (52 - ilog2 x)) \<le> 2 ^ 53" unfolding round_even_of_int .
qed

lemma fl_between:
  assumes "0 < x"
  shows "2 powi ilog2 x \<le> fl x" and "fl x \<le> 2 powi (ilog2 x + 1)"
proof -
  let ?m = "round_even (x * 2 powi (52 - ilog2 x))"
  have "(of_int (2 ^ 52) :: rat) \<le> of_int ?m" using rounded_bounds(1) [OF assms] unfolding of_int_le_iff .
  then have "2 powi 52 * 2 powi (ilog2 x - 52) \<le> fl x"
    unfolding fl_pos_eq [OF assms] by (intro mult_right_mono) (simp_all add: power_int_def)
  then show "2 powi ilog2 x \<le> fl x" unfolding powi_mult by simp
  have "(of_int ?m :: rat) \<le> of_int (2 ^ 53)" using rounded_bounds(2) [OF assms] unfolding of_int_le_iff .
  then have "fl x \<le> 2 powi 53 * 2 powi (ilog2 x - 52)"
    unfolding fl_pos_eq [OF assms] by (intro mult_right_mono) (simp_all add: power_int_def)
  also have "\<dots> = 2 powi (53 + (ilog2 x - 52))" by (rule powi_mult)
  finally show "fl x \<le> 2 powi (ilog2 x + 1)" by (simp add: add.commute)
qed

lemma fl_mono_pos:
  assumes "0 < x" and "x \<le> y"
  shows "fl x \<le> fl y"
proof (cases "ilog2 x = ilog2 y")
  case True
  have "round_even (x * 2 powi (52 - ilog2 x)) \<le> round_even (y * 2 powi (52 - ilog2 x))"
    using assms(2) by (intro round_even_mono mult_right_mono) simp_all
  then have "(of_int (round_even (x * 2 powi (52 - ilog2 x))) :: rat) \<le> of_int (round_even (y * 2 powi (52 - ilog2 x)))"
    unfolding of_int_le_iff .
  then show ?thesis
    using assms True fl_pos_eq [of x] fl_pos_eq [of y] by (simp add: mult_right_mono)
next
  case False
  then have "ilog2 x + 1 \<le> ilog2 y" using ilog2_mono [OF assms] by simp
  have "fl x \<le> 2 powi (ilog2 x + 1)" by (rule fl_between(2) [OF assms(1)])
  also have "\<dots> \<le> 2 powi ilog2 y" using \<open>ilog2 x + 1 \<le> ilog2 y\<close> by (intro power_int_increasing) simp_all
  also have "\<dots> \<le> fl y" using fl_between(1) [of y] assms by simp
  finally show ?thesis .
qed

lemma fl_nonneg: "0 \<le> x \<Longrightarrow> 0 \<le> fl x"
proof (cases "x = 0")
  case False
  assume "0 \<le> x"
  then have "0 < x" using False by simp
  have "0 \<le> (2 :: rat) powi ilog2 x" by simp
  also have "\<dots> \<le> fl x" by (rule fl_between(1) [OF \<open>0 < x\<close>])
  finally show ?thesis .
qed simp

lemma fl_mono:
  assumes "x \<le> y"
  shows "fl x \<le> fl y"
proof -
  consider "0 < x" | "x \<le> 0" "0 \<le> y" | "y < 0" by linarith
  then show ?thesis
  proof cases
    case 1
    then show ?thesis using fl_mono_pos assms by blast
  next
    case 2
    then have "fl x \<le> 0" using fl_nonneg [of "- x"] by (simp add: fl_minus)
    also have "0 \<le> fl y" using fl_nonneg 2(2) .
    finally show ?thesis .
  next
    case 3
    then have "fl (- y) \<le> fl (- x)" using assms by (intro fl_mono_pos) simp_all
    then show ?thesis by (simp add: fl_minus)
  qed
qed

section \<open>Exact values\<close>

lemma ilog2_significand:
  assumes "0 < m" and "m < 2 ^ 53"
  shows "ilog2 (of_int m * 2 powi e) \<le> 52 + e"
proof -
  have pos: "0 < (of_int m :: rat) * 2 powi e" using assms(1) by simp
  have "(of_int m :: rat) < of_int (2 ^ 53)" using assms(2) unfolding of_int_less_iff .
  then have "(of_int m :: rat) * 2 powi e < 2 powi 53 * 2 powi e"
    by (intro mult_strict_right_mono) (simp_all add: power_int_def)
  then have "(2 :: rat) powi ilog2 (of_int m * 2 powi e) < 2 powi (53 + e)"
    unfolding powi_mult using ilog2_bounds(1) [OF pos] by (rule le_less_trans [rotated])
  then show ?thesis using powi_lessD by force
qed

lemma fl_exact_pos:
  assumes "0 < m" and "m < 2 ^ 53"
  shows "fl (of_int m * 2 powi e) = of_int m * 2 powi e"
proof -
  let ?x = "(of_int m :: rat) * 2 powi e"
  have pos: "0 < ?x" using assms(1) by simp
  define k where "k = nat (e + 52 - ilog2 ?x)"
  have k: "int k = e + (52 - ilog2 ?x)" using ilog2_significand [OF assms, of e] by (simp add: k_def)
  have "?x * 2 powi (52 - ilog2 ?x) = of_int m * (2 powi e * 2 powi (52 - ilog2 ?x))" by (simp only: mult.assoc)
  also have "\<dots> = of_int m * 2 powi int k" unfolding powi_mult k ..
  also have "\<dots> = of_int (m * 2 ^ k)" by (simp add: power_int_def)
  finally have sig: "?x * 2 powi (52 - ilog2 ?x) = of_int (m * 2 ^ k)" .
  have "fl ?x = of_int (m * 2 ^ k) * 2 powi (ilog2 ?x - 52)"
    unfolding fl_pos_eq [OF pos] sig round_even_of_int ..
  also have "\<dots> = ?x * (2 powi (52 - ilog2 ?x) * 2 powi (ilog2 ?x - 52))" unfolding sig [symmetric] by (simp only: mult.assoc)
  also have "\<dots> = ?x" unfolding powi_mult by simp
  finally show ?thesis .
qed

text \<open>Every number with a significand of at most 53 bits is kept.\<close>

lemma fl_exact:
  assumes "\<bar>m\<bar> < 2 ^ 53"
  shows "fl (of_int m * 2 powi e) = of_int m * 2 powi e"
proof -
  consider "m = 0" | "0 < m" | "m < 0" by linarith
  then show ?thesis
  proof cases
    case 2
    then show ?thesis using fl_exact_pos assms by simp
  next
    case 3
    then have "fl (of_int (- m) * 2 powi e) = of_int (- m) * 2 powi e" using assms by (intro fl_exact_pos) simp_all
    then show ?thesis by (simp add: fl_minus)
  qed simp
qed

lemma fl_int: "\<bar>m\<bar> < 2 ^ 53 \<Longrightarrow> fl (of_int m) = of_int m"
  using fl_exact [of m 0] by simp

text \<open>Comparing a rounded quotient with an integer is comparing the quotient, as long as the integer
  is far from the end of the exact range.\<close>

lemma fl_ge_int_iff:
  assumes "\<bar>s\<bar> < 2 ^ 40" and "0 < d" and "d < 2 ^ 12"
  shows "of_int s \<le> fl (of_int n / of_int d) \<longleftrightarrow> s * d \<le> n"
proof
  assume "s * d \<le> n"
  then have "(of_int s :: rat) \<le> of_int n / of_int d"
    using assms(2) by (simp add: pos_le_divide_eq flip: of_int_mult)
  then have "fl (of_int s) \<le> fl (of_int n / of_int d)" by (rule fl_mono)
  then show "of_int s \<le> fl (of_int n / of_int d)" using fl_int [of s] assms(1) by simp
next
  assume le: "of_int s \<le> fl (of_int n / of_int d)"
  have "- 1099511627776 < s \<and> s < 1099511627776" using assms(1) by (simp add: abs_less_iff)
  then have "\<bar>s * 4096 - 1\<bar> < 9007199254740992" unfolding abs_less_iff by linarith
  then have small: "\<bar>s * 2 ^ 12 - 1\<bar> < 2 ^ 53" by simp
  show "s * d \<le> n"
  proof (rule ccontr)
    assume "\<not> s * d \<le> n"
    then have "n \<le> s * d - 1" by simp
    then have "(of_int n :: rat) \<le> of_int (s * d - 1)" unfolding of_int_le_iff .
    then have "(of_int n / of_int d :: rat) \<le> of_int s - 1 / of_int d"
      using assms(2) by (simp add: pos_divide_le_eq left_diff_distrib)
    also have "\<dots> \<le> of_int s - 1 / 2 ^ 12"
    proof -
      have "(of_int d :: rat) \<le> of_int (2 ^ 12)" using assms(3) by (simp only: of_int_le_iff)
      then have "1 / (2 ^ 12 :: rat) \<le> 1 / of_int d" using assms(2) by (intro divide_left_mono) simp_all
      then show ?thesis by simp
    qed
    also have "\<dots> = of_int (s * 2 ^ 12 - 1) * 2 powi (- 12)" by (simp add: power_int_def field_simps)
    finally have "fl (of_int n / of_int d) \<le> fl (of_int (s * 2 ^ 12 - 1) * 2 powi (- 12))" by (rule fl_mono)
    also have "\<dots> = of_int (s * 2 ^ 12 - 1) * 2 powi (- 12)" by (rule fl_exact [OF small])
    also have "\<dots> = of_int s - 1 / 2 ^ 12" by (simp add: power_int_def field_simps)
    finally show False using le by simp
  qed
qed

section \<open>The size of a rounding\<close>

lemma round_even_half: "of_int (round_even x) \<le> x + 1 / 2"
  by (simp add: round_even_def Let_def) linarith

lemma fl_le:
  assumes "0 \<le> x"
  shows "fl x \<le> x + x / 2 ^ 53"
proof (cases "x = 0")
  case False
  then have x: "0 < x" using assms by simp
  let ?e = "ilog2 x"
  have "fl x = of_int (round_even (x * 2 powi (52 - ?e))) * 2 powi (?e - 52)" by (rule fl_pos_eq [OF x])
  also have "\<dots> \<le> (x * 2 powi (52 - ?e) + 1 / 2) * 2 powi (?e - 52)"
    by (intro mult_right_mono round_even_half) simp
  also have "\<dots> = x * (2 powi (52 - ?e) * 2 powi (?e - 52)) + 2 powi (?e - 52) / 2" by (simp add: algebra_simps)
  also have "\<dots> = x + 2 powi ?e / 2 ^ 53" by (simp add: powi_mult power_int_diff)
  also have "\<dots> \<le> x + x / 2 ^ 53" using ilog2_bounds(1) [OF x] by (simp add: divide_right_mono)
  finally show ?thesis .
qed simp

lemma fl_fl_pos:
  assumes "0 < x"
  shows "fl (fl x) = fl x"
proof -
  define r where "r = round_even (x * 2 powi (52 - ilog2 x))"
  have fl: "fl x = of_int r * 2 powi (ilog2 x - 52)" unfolding r_def by (rule fl_pos_eq [OF assms])
  have r: "2 ^ 52 \<le> r" "r \<le> 2 ^ 53" unfolding r_def by (rule rounded_bounds [OF assms])+
  show ?thesis
  proof (cases "r = 2 ^ 53")
    case True
    then have "fl x = of_int (2 ^ 52) * (2 powi 1 * 2 powi (ilog2 x - 52))" by (simp add: fl)
    then have "fl x = of_int (2 ^ 52) * 2 powi (1 + (ilog2 x - 52))" by (simp only: powi_mult)
    then show ?thesis using fl_exact [of "2 ^ 52" "1 + (ilog2 x - 52)"] by simp
  next
    case False
    then show ?thesis using r fl fl_exact [of r "ilog2 x - 52"] by simp
  qed
qed

lemma fl_fl [simp]: "fl (fl x) = fl x"
proof (cases "x = 0")
  case False
  then consider "0 < x" | "0 < - x" by linarith
  then show ?thesis
  proof cases
    case 2
    then show ?thesis using fl_fl_pos [OF 2] by (simp add: fl_minus)
  qed (rule fl_fl_pos)
qed simp

definition is_double :: "rat \<Rightarrow> bool" where
  "is_double x \<longleftrightarrow> fl x = x"

lemma is_double_simps [simp]: "is_double (fl x)" "is_double 0" "is_double 1"
  using fl_int [of 1] by (simp_all add: is_double_def)

lemma is_double_clamp: "is_double x \<Longrightarrow> is_double (max 0 (min 1 x))"
  by (simp add: max_def min_def)

end
