(* ===== verification/ShadowExit.thy ===== *)
theory ShadowExit
  imports Lifecycle Doubles
begin

text \<open>
  The exit of a shadow position: the exit rules (\<open>packages/strategy/src/exits.ts\<close>), the choice of
  the fill (\<open>packages/domain/src/fill-latency.ts\<close>), the row updates
  (\<open>packages/storage/src/observation-repo.ts\<close>), the loop body that drives them
  (\<open>manageShadowBooks\<close> of \<open>apps/engine/src/paper.ts\<close>), and the distance to a trigger
  (\<open>packages/domain/src/shadow-lifecycle.ts\<close>). What a cycle observes (the quote, the
  jobs and settlements stored for an observation) is an argument. \<open>detail\<close> strings and health
  records are left out; numbers that a double carries are rounded by \<open>fl\<close>.
\<close>

section \<open>The exit rules\<close>

record ExitConfig =
  stopLossBps :: int
  trailingStopBps :: int
  takeProfitBps :: int
  maxHoldMs :: int
  minHoldMs :: int
  liquidityCollapseRatioBps :: int

definition exit_config_ok :: "ExitConfig \<Rightarrow> bool" where
  "exit_config_ok c \<longleftrightarrow> 1 \<le> stopLossBps c \<and> stopLossBps c \<le> 10000 \<and>
     1 \<le> trailingStopBps c \<and> trailingStopBps c \<le> 10000 \<and> 1 \<le> takeProfitBps c \<and>
     1000 \<le> maxHoldMs c \<and> 0 \<le> minHoldMs c \<and>
     1 \<le> liquidityCollapseRatioBps c \<and> liquidityCollapseRatioBps c \<le> 10000"

datatype ExitReason = stop_loss | trailing_stop | take_profit | max_hold | exit_route_lost | liquidity_collapse

record ExitInputs =
  costLamports :: int
  peakValueLamports :: int
  markLamports :: "int option"
  openedUtcMs :: int
  nowUtcMs :: int
  exitRouteExists :: bool

text \<open>\<open>Number(scaled) / 1000\<close>, null when the first amount is not positive.\<close>

definition lossBps :: "int \<Rightarrow> int \<Rightarrow> rat option" where
  "lossBps before after = map_option (\<lambda>n. fl (of_int (js_number n) / 1000)) (lossBps_scaled before after)"

definition at_least :: "rat option \<Rightarrow> int \<Rightarrow> bool" where
  "at_least x bound = (case x of None \<Rightarrow> False | Some v \<Rightarrow> v \<ge> of_int bound)"

text \<open>\<open>None\<close> is no exit, \<open>Some reason\<close> an exit.\<close>

definition decideExit :: "ExitInputs \<Rightarrow> ExitConfig \<Rightarrow> ExitReason option" where
  "decideExit i config =
    (let heldMs = nowUtcMs i - openedUtcMs i in
     if \<not> exitRouteExists i then Some exit_route_lost
     else case markLamports i of None \<Rightarrow> None
     | Some mark \<Rightarrow>
       if costLamports i > 0 \<and> mark \<le> bdiv (costLamports i * liquidityCollapseRatioBps config) 10000
       then Some liquidity_collapse
       else if heldMs < minHoldMs config then None
       else if at_least (lossBps (costLamports i) mark) (stopLossBps config) then Some stop_loss
       else if mark > costLamports i \<and>
           at_least (map_option (\<lambda>up. - up) (lossBps (costLamports i) mark)) (takeProfitBps config)
       then Some take_profit
       else if peakValueLamports i > costLamports i \<and>
           at_least (lossBps (peakValueLamports i) mark) (trailingStopBps config)
       then Some trailing_stop
       else if heldMs \<ge> maxHoldMs config then Some max_hold
       else None)"

section \<open>The fill\<close>

record FillCandidate =
  fc_observationId :: string
  fc_observedUtcMs :: int
  fc_family :: string
  fc_effectValid :: bool
  fc_executable :: "int option"

datatype FillOutcome =
    filled FillCandidate int
  | no_later_observation int
  | no_valid_fill int int int int

definition FROZEN_FILL_LATENCY_MS :: int where
  "FROZEN_FILL_LATENCY_MS = 1200"

fun resolve_loop :: "int \<Rightarrow> string \<Rightarrow> FillCandidate list \<Rightarrow> FillCandidate option" where
  "resolve_loop earliest family [] = None"
| "resolve_loop earliest family (c # cs) =
    (if fc_observedUtcMs c < earliest then resolve_loop earliest family cs
     else if fc_family c \<noteq> family then resolve_loop earliest family cs
     else if \<not> fc_effectValid c then resolve_loop earliest family cs
     else if fc_executable c = None then resolve_loop earliest family cs
     else Some c)"

definition count_where :: "('a \<Rightarrow> bool) \<Rightarrow> 'a list \<Rightarrow> int" where
  "count_where P xs = int (length (filter P xs))"

definition resolveFill :: "int \<Rightarrow> string \<Rightarrow> FillCandidate list \<Rightarrow> int \<Rightarrow> FillOutcome" where
  "resolveFill trigger family candidates latency =
    (let earliest = trigger + latency in
     case resolve_loop earliest family candidates of
       Some c \<Rightarrow> filled c (fc_observedUtcMs c - trigger)
     | None \<Rightarrow>
       let later = filter (\<lambda>c. fc_observedUtcMs c \<ge> earliest) candidates in
       if later = [] then no_later_observation latency
       else no_valid_fill (int (length later)) (count_where (\<lambda>c. fc_family c \<noteq> family) later)
         (count_where (\<lambda>c. \<not> fc_effectValid c) later) (count_where (\<lambda>c. fc_executable c = None) later))"

definition lookAheadBiasLamports :: "int option \<Rightarrow> FillOutcome \<Rightarrow> int option" where
  "lookAheadBiasLamports trigger_value outcome =
    (case outcome of
       filled c latency \<Rightarrow> (case (trigger_value, fc_executable c) of
           (Some t, Some v) \<Rightarrow> Some (t - v)
         | _ \<Rightarrow> None)
     | _ \<Rightarrow> None)"

section \<open>Rows and updates\<close>

record ShadowMark =
  mk_seq :: int
  mk_observed :: int
  mk_observation :: string
  mk_value :: "int option"
  mk_route :: bool

datatype blocked_reason =
    fill_unresolved FillOutcome
  | no_settlement string
  | not_stored string
  | not_executable "string list"

record ShadowRow =
  sh_state :: ShadowState
  sh_tokens :: int
  sh_cost :: int
  sh_peak :: "int option"
  sh_opened :: int
  sh_triggered :: "int option"
  sh_trigger_obs :: "string option"
  sh_trigger_value :: "int option"
  sh_trigger_reason :: "ExitReason option"
  sh_attempts :: int
  sh_blocked :: "blocked_reason option"
  sh_realized :: "int option"
  sh_closed :: "int option"
  sh_exit_obs :: "string option"
  sh_exit_reason :: "ExitReason option"
  sh_latency :: "int option"
  sh_bias :: "int option"
  sh_marks :: "ShadowMark list"

definition openShadowPosition :: "int \<Rightarrow> int \<Rightarrow> int \<Rightarrow> ShadowRow" where
  "openShadowPosition tokens cost now =
     \<lparr>sh_state = POSITION_OPEN, sh_tokens = tokens, sh_cost = cost, sh_peak = Some cost, sh_opened = now,
      sh_triggered = None, sh_trigger_obs = None, sh_trigger_value = None, sh_trigger_reason = None,
      sh_attempts = 0, sh_blocked = None, sh_realized = None, sh_closed = None, sh_exit_obs = None,
      sh_exit_reason = None, sh_latency = None, sh_bias = None, sh_marks = []\<rparr>"

text \<open>\<open>COALESCE(MAX(seq), -1) + 1\<close>, and the insert that does nothing on a taken sequence number.\<close>

definition next_seq :: "ShadowRow \<Rightarrow> int" where
  "next_seq r = Max (insert (- 1) (set (map mk_seq (sh_marks r)))) + 1"

definition insertShadowMark :: "ShadowMark \<Rightarrow> ShadowRow \<Rightarrow> ShadowRow" where
  "insertShadowMark m r =
    (if mk_seq m \<in> set (map mk_seq (sh_marks r)) then r else r\<lparr>sh_marks := sh_marks r @ [m]\<rparr>)"

definition updateShadowPeak :: "int \<Rightarrow> ShadowRow \<Rightarrow> ShadowRow" where
  "updateShadowPeak peak r = r\<lparr>sh_peak := Some peak\<rparr>"

definition triggerShadowExit :: "int \<Rightarrow> string \<Rightarrow> int option \<Rightarrow> ExitReason \<Rightarrow> ShadowRow \<Rightarrow> ShadowRow" where
  "triggerShadowExit now obs val reason r =
    (if sh_state r = POSITION_OPEN
     then r\<lparr>sh_state := AWAITING_FILL_OBSERVATION, sh_triggered := Some now, sh_trigger_obs := Some obs,
            sh_trigger_value := val, sh_trigger_reason := Some reason\<rparr>
     else r)"

definition blockShadowExit :: "blocked_reason \<Rightarrow> ShadowRow \<Rightarrow> ShadowRow" where
  "blockShadowExit reason r =
    (if sh_state r \<in> {AWAITING_FILL_OBSERVATION, EXIT_BLOCKED}
     then r\<lparr>sh_state := EXIT_BLOCKED, sh_attempts := sh_attempts r + 1, sh_blocked := Some reason\<rparr>
     else r)"

definition resumeShadowExit :: "ShadowRow \<Rightarrow> ShadowRow" where
  "resumeShadowExit r = (if sh_state r = EXIT_BLOCKED then r\<lparr>sh_state := AWAITING_FILL_OBSERVATION\<rparr> else r)"

definition fillShadowExit :: "int \<Rightarrow> int \<Rightarrow> ExitReason option \<Rightarrow> string \<Rightarrow> int \<Rightarrow> int option \<Rightarrow> ShadowRow \<Rightarrow> ShadowRow" where
  "fillShadowExit realized now reason obs latency bias r =
    (if sh_state r \<in> {AWAITING_FILL_OBSERVATION, EXIT_BLOCKED}
     then r\<lparr>sh_state := POSITION_CLOSED, sh_realized := Some realized, sh_closed := Some now,
            sh_exit_reason := reason, sh_exit_obs := Some obs, sh_tokens := 0,
            sh_latency := Some latency, sh_bias := bias\<rparr>
     else r)"

section \<open>One cycle of one position\<close>

record LegSettlement =
  ls_sell :: bool
  payerNativeDeltaLamports :: int

text \<open>
  What the cycle meets: the observation of this cycle (its route, its value: the pool's own quote,
  or the router's net output, or nothing), and, for any stored observation, its family, the effect
  verdicts of its simulation jobs (this cycle's simulation included), the measured settlement of
  its latest job, and the verdict of \<open>legIsExecutable\<close> on its stored row.
\<close>

record CycleEnv =
  ce_obs :: string
  ce_now :: int
  ce_route :: bool
  ce_value :: "int option"
  ce_family :: "string \<Rightarrow> string option"
  ce_effects :: "string \<Rightarrow> int option list"
  ce_settlement :: "string \<Rightarrow> LegSettlement option"
  ce_stored :: "string \<Rightarrow> (bool \<times> string list) option"
  ce_primary :: string
  ce_exits :: ExitConfig

text \<open>The marks since the trigger, oldest first, joined with their observation and its jobs: one row
  per job, and one row with a null verdict for a mark without jobs.\<close>

definition fillCandidatesSince :: "CycleEnv \<Rightarrow> ShadowRow \<Rightarrow> int \<Rightarrow> FillCandidate list" where
  "fillCandidatesSince e r since =
     concat (map (\<lambda>m. map (\<lambda>effect.
         \<lparr>fc_observationId = mk_observation m, fc_observedUtcMs = mk_observed m,
          fc_family = nullish (ce_family e (mk_observation m)) ''UNKNOWN'',
          fc_effectValid = (effect = Some 1), fc_executable = mk_value m\<rparr>)
       (if ce_effects e (mk_observation m) = [] then [None] else ce_effects e (mk_observation m)))
     (sort_key mk_observed (filter (\<lambda>m. mk_observed m \<ge> since) (sh_marks r))))"

datatype cycle_error = bad_transition transition_error | exit_cash_on_buy_leg

datatype cycle_result = skipped | no_exit | triggered | still_blocked | fill_booked | raised cycle_error

definition asserting :: "ShadowState \<Rightarrow> ShadowState \<Rightarrow> ShadowRow \<Rightarrow> cycle_result \<times> ShadowRow \<Rightarrow> cycle_result \<times> ShadowRow" where
  "asserting from to r next_step =
    (case assertTransition from to of Inl err \<Rightarrow> (raised (bad_transition err), r) | Inr u \<Rightarrow> next_step)"

definition exitCashIn :: "LegSettlement \<Rightarrow> cycle_error + int" where
  "exitCashIn s = (if \<not> ls_sell s then Inl exit_cash_on_buy_leg else Inr (payerNativeDeltaLamports s))"

definition block_selected :: "blocked_reason \<Rightarrow> ShadowRow \<Rightarrow> cycle_result \<times> ShadowRow" where
  "block_selected reason r =
     asserting AWAITING_FILL_OBSERVATION EXIT_BLOCKED r (still_blocked, blockShadowExit reason r)"

text \<open>From a selected candidate to the close, or to a block that names what is missing.\<close>

definition book_fill :: "CycleEnv \<Rightarrow> FillCandidate \<Rightarrow> int \<Rightarrow> ShadowRow \<Rightarrow> cycle_result \<times> ShadowRow" where
  "book_fill e c latency r =
    (let sel = fc_observationId c in
     case ce_settlement e sel of
       None \<Rightarrow> block_selected (no_settlement sel) r
     | Some settlement \<Rightarrow>
       case ce_stored e sel of
         None \<Rightarrow> block_selected (not_stored sel) r
       | Some (ok, reasons) \<Rightarrow>
         if \<not> ok then block_selected (not_executable reasons) r
         else case exitCashIn settlement of
             Inl err \<Rightarrow> (raised err, r)
           | Inr fillValue \<Rightarrow>
             let bias = lookAheadBiasLamports (Some (nullish (sh_trigger_value r) 0)) (filled c latency) in
             asserting AWAITING_FILL_OBSERVATION POSITION_CLOSED r
               (fill_booked, fillShadowExit (fillValue - sh_cost r) (ce_now e) (sh_trigger_reason r) sel latency bias r))"

definition work_exit :: "CycleEnv \<Rightarrow> ShadowState \<Rightarrow> int \<Rightarrow> ShadowRow \<Rightarrow> cycle_result \<times> ShadowRow" where
  "work_exit e state triggeredAt r =
    (let outcome = resolveFill triggeredAt (ce_primary e) (fillCandidatesSince e r triggeredAt) FROZEN_FILL_LATENCY_MS
     in case outcome of
       filled c latency \<Rightarrow>
         if state = EXIT_BLOCKED
         then asserting EXIT_BLOCKED AWAITING_FILL_OBSERVATION r (book_fill e c latency (resumeShadowExit r))
         else book_fill e c latency r
     | _ \<Rightarrow>
         let blocked = (still_blocked, blockShadowExit (fill_unresolved outcome) r)
         in if state = AWAITING_FILL_OBSERVATION then asserting state EXIT_BLOCKED r blocked else blocked)"

definition record_mark :: "CycleEnv \<Rightarrow> ShadowRow \<Rightarrow> ShadowRow" where
  "record_mark e r = insertShadowMark \<lparr>mk_seq = next_seq r, mk_observed = ce_now e, mk_observation = ce_obs e,
     mk_value = ce_value e, mk_route = ce_route e\<rparr> r"

definition current_peak :: "ShadowRow \<Rightarrow> int" where
  "current_peak r = nullish (sh_peak r) (sh_cost r)"

definition raise_peak :: "CycleEnv \<Rightarrow> ShadowRow \<Rightarrow> ShadowRow" where
  "raise_peak e r = (case ce_value e of None \<Rightarrow> r
     | Some v \<Rightarrow> if v > current_peak r then updateShadowPeak v r else r)"

definition exit_inputs :: "CycleEnv \<Rightarrow> ShadowRow \<Rightarrow> ExitInputs" where
  "exit_inputs e r = \<lparr>costLamports = sh_cost r,
     peakValueLamports = (case ce_value e of None \<Rightarrow> current_peak r
       | Some v \<Rightarrow> if v > current_peak r then v else current_peak r),
     markLamports = ce_value e, openedUtcMs = sh_opened r, nowUtcMs = ce_now e, exitRouteExists = ce_route e\<rparr>"

definition manageShadow :: "CycleEnv \<Rightarrow> ShadowRow \<Rightarrow> cycle_result \<times> ShadowRow" where
  "manageShadow e r =
    (if sh_tokens r \<le> 0 then (skipped, r)
     else
       let marked = raise_peak e (record_mark e r);
           state = sh_state r
       in if state = POSITION_OPEN then
            (case decideExit (exit_inputs e r) (ce_exits e) of
               None \<Rightarrow> (no_exit, marked)
             | Some reason \<Rightarrow>
                 asserting POSITION_OPEN EXIT_TRIGGERED marked
                   (asserting EXIT_TRIGGERED AWAITING_FILL_OBSERVATION marked
                     (triggered, triggerShadowExit (ce_now e) (ce_obs e) (ce_value e) reason marked)))
          else if \<not> holdsExposure state then (skipped, marked)
          else case sh_triggered r of
              None \<Rightarrow> (skipped, marked)
            | Some triggeredAt \<Rightarrow> work_exit e state triggeredAt marked)"

section \<open>Legal moves\<close>

lemma asserting_ok: "canTransition a b \<Longrightarrow> asserting a b r k = k"
  by (simp add: asserting_def assertTransition_def)

lemma can_transitions [simp]:
  "canTransition POSITION_OPEN EXIT_TRIGGERED" "canTransition EXIT_TRIGGERED AWAITING_FILL_OBSERVATION"
  "canTransition AWAITING_FILL_OBSERVATION POSITION_CLOSED" "canTransition AWAITING_FILL_OBSERVATION EXIT_BLOCKED"
  "canTransition EXIT_BLOCKED AWAITING_FILL_OBSERVATION"
  by (simp_all add: canTransition_def)

lemmas asserts [simp] = can_transitions [THEN asserting_ok]

lemma record_mark_new:
  "sh_marks (record_mark e r) = sh_marks r @ [\<lparr>mk_seq = next_seq r, mk_observed = ce_now e,
     mk_observation = ce_obs e, mk_value = ce_value e, mk_route = ce_route e\<rparr>]"
proof -
  have "q < next_seq r" if "q \<in> set (map mk_seq (sh_marks r))" for q
  proof -
    have "q \<le> Max (insert (- 1) (set (map mk_seq (sh_marks r))))" using that by (intro Max_ge) simp_all
    then show ?thesis by (simp add: next_seq_def)
  qed
  then have "next_seq r \<notin> set (map mk_seq (sh_marks r))" by blast
  then show ?thesis by (simp add: record_mark_def insertShadowMark_def)
qed

lemma record_mark_fields [simp]:
  "sh_state (record_mark e r) = sh_state r" "sh_cost (record_mark e r) = sh_cost r"
  "sh_trigger_value (record_mark e r) = sh_trigger_value r" "sh_trigger_reason (record_mark e r) = sh_trigger_reason r"
  "sh_triggered (record_mark e r) = sh_triggered r" "sh_trigger_obs (record_mark e r) = sh_trigger_obs r"
  "sh_exit_obs (record_mark e r) = sh_exit_obs r" "sh_latency (record_mark e r) = sh_latency r"
  "sh_tokens (record_mark e r) = sh_tokens r" "sh_peak (record_mark e r) = sh_peak r"
  by (simp_all add: record_mark_def insertShadowMark_def)

lemma raise_peak_fields [simp]:
  "sh_state (raise_peak e r) = sh_state r" "sh_cost (raise_peak e r) = sh_cost r"
  "sh_trigger_value (raise_peak e r) = sh_trigger_value r" "sh_trigger_reason (raise_peak e r) = sh_trigger_reason r"
  "sh_triggered (raise_peak e r) = sh_triggered r" "sh_trigger_obs (raise_peak e r) = sh_trigger_obs r"
  "sh_exit_obs (raise_peak e r) = sh_exit_obs r" "sh_latency (raise_peak e r) = sh_latency r"
  "sh_tokens (raise_peak e r) = sh_tokens r" "sh_marks (raise_peak e r) = sh_marks r"
  by (simp_all add: raise_peak_def updateShadowPeak_def split: option.splits)

lemmas updates = triggerShadowExit_def blockShadowExit_def resumeShadowExit_def fillShadowExit_def

section \<open>The chosen fill\<close>

definition valid_fill :: "int \<Rightarrow> string \<Rightarrow> FillCandidate \<Rightarrow> bool" where
  "valid_fill earliest family c \<longleftrightarrow> earliest \<le> fc_observedUtcMs c \<and> fc_family c = family \<and> fc_effectValid c \<and>
     fc_executable c \<noteq> None"

lemma resolve_loop_find: "resolve_loop earliest family cs = find (valid_fill earliest family) cs"
  by (induction cs) (auto simp: valid_fill_def)

lemma resolveFill_filled: "resolveFill t family cs latency = filled c l \<longleftrightarrow>
    find (valid_fill (t + latency) family) cs = Some c \<and> l = fc_observedUtcMs c - t"
  by (auto simp: resolveFill_def resolve_loop_find Let_def split: option.splits)

lemma find_valid: "find P xs = Some x \<Longrightarrow> P x \<and> x \<in> set xs"
  by (auto simp: find_Some_iff)

lemma candidate_mark:
  "c \<in> set (fillCandidatesSince e r since) \<Longrightarrow>
   \<exists>m \<in> set (sh_marks r). fc_observationId c = mk_observation m \<and> fc_observedUtcMs c = mk_observed m \<and>
     fc_executable c = mk_value m"
  by (auto simp: fillCandidatesSince_def split: if_splits)

lemma filled_mark:
  assumes "resolveFill t (ce_primary e) (fillCandidatesSince e r t) FROZEN_FILL_LATENCY_MS = filled c l"
  shows "\<exists>m \<in> set (sh_marks r). fc_observationId c = mk_observation m \<and> t + 1200 \<le> mk_observed m \<and>
    l = mk_observed m - t \<and> mk_value m \<noteq> None"
proof -
  have found: "find (valid_fill (t + FROZEN_FILL_LATENCY_MS) (ce_primary e)) (fillCandidatesSince e r t) = Some c"
    and l: "l = fc_observedUtcMs c - t"
    using assms unfolding resolveFill_filled by simp_all
  have "valid_fill (t + 1200) (ce_primary e) c" and "c \<in> set (fillCandidatesSince e r t)"
    using find_valid [OF found] by (simp_all add: FROZEN_FILL_LATENCY_MS_def)
  moreover obtain m where "m \<in> set (sh_marks r)" "fc_observationId c = mk_observation m"
      "fc_observedUtcMs c = mk_observed m" "fc_executable c = mk_value m"
    using candidate_mark [OF calculation(2)] by blast
  ultimately show ?thesis using l by (intro bexI [of _ m]) (simp_all add: valid_fill_def)
qed

section \<open>Invariant of a row\<close>

definition trigger_recorded :: "ShadowRow \<Rightarrow> bool" where
  "trigger_recorded r \<longleftrightarrow> (case sh_triggered r of None \<Rightarrow> True | Some t \<Rightarrow>
     (\<exists>m \<in> set (sh_marks r). mk_observed m = t \<and> sh_trigger_obs r = Some (mk_observation m)))"

definition close_recorded :: "ShadowRow \<Rightarrow> bool" where
  "close_recorded r \<longleftrightarrow> (\<exists>t. sh_triggered r = Some t \<and> sh_tokens r = 0 \<and> (\<exists>m \<in> set (sh_marks r).
     sh_exit_obs r = Some (mk_observation m) \<and> t + 1200 \<le> mk_observed m \<and>
     sh_latency r = Some (mk_observed m - t) \<and> mk_value m \<noteq> None))"

definition shadow_ok :: "ShadowRow \<Rightarrow> bool" where
  "shadow_ok r \<longleftrightarrow> distinct (map mk_observation (sh_marks r)) \<and> trigger_recorded r \<and>
     (case sh_state r of
        POSITION_OPEN \<Rightarrow> sh_triggered r = None
      | EXIT_TRIGGERED \<Rightarrow> False
      | AWAITING_FILL_OBSERVATION \<Rightarrow> sh_triggered r \<noteq> None
      | EXIT_BLOCKED \<Rightarrow> sh_triggered r \<noteq> None
      | POSITION_CLOSED \<Rightarrow> close_recorded r)"

lemma open_ok: "shadow_ok (openShadowPosition tokens cost now)"
  by (simp add: shadow_ok_def trigger_recorded_def openShadowPosition_def)

lemma marked_ok:
  assumes "shadow_ok r" and "ce_obs e \<notin> mk_observation ` set (sh_marks r)" and "sh_state r \<noteq> POSITION_CLOSED"
  shows "shadow_ok (raise_peak e (record_mark e r))"
  using assms
  by (auto simp: shadow_ok_def trigger_recorded_def record_mark_new split: option.splits ShadowState.splits)

lemma marked_mem: "\<exists>m \<in> set (sh_marks (raise_peak e (record_mark e r))). mk_observed m = ce_now e \<and> mk_observation m = ce_obs e"
  by (simp add: record_mark_new)

lemma trigger_ok:
  assumes "shadow_ok r" and "\<exists>m \<in> set (sh_marks r). mk_observed m = now \<and> mk_observation m = obs"
  shows "shadow_ok (triggerShadowExit now obs val reason r)"
  using assms by (auto simp: shadow_ok_def trigger_recorded_def triggerShadowExit_def)

lemma block_ok: "shadow_ok r \<Longrightarrow> shadow_ok (blockShadowExit reason r)"
  by (auto simp: shadow_ok_def trigger_recorded_def blockShadowExit_def split: option.splits)

lemma resume_ok: "shadow_ok r \<Longrightarrow> shadow_ok (resumeShadowExit r)"
  by (auto simp: shadow_ok_def trigger_recorded_def resumeShadowExit_def split: option.splits)

lemma fill_ok:
  assumes "shadow_ok r" and "sh_triggered r = Some t"
    and "\<exists>m \<in> set (sh_marks r). obs = mk_observation m \<and> t + 1200 \<le> mk_observed m \<and>
      latency = mk_observed m - t \<and> mk_value m \<noteq> None"
  shows "shadow_ok (fillShadowExit realized now reason obs latency bias r)"
proof (cases "sh_state r \<in> {AWAITING_FILL_OBSERVATION, EXIT_BLOCKED}")
  case True
  have "close_recorded (fillShadowExit realized now reason obs latency bias r)"
    unfolding close_recorded_def using assms(2,3) True by (intro exI [of _ t]) (auto simp: fillShadowExit_def)
  then show ?thesis using assms(1,2) True
    by (simp add: shadow_ok_def fillShadowExit_def trigger_recorded_def)
qed (use assms(1) in \<open>simp add: fillShadowExit_def\<close>)

lemma block_selected_ok: "shadow_ok r \<Longrightarrow> shadow_ok (snd (block_selected reason r))"
  by (simp add: block_selected_def block_ok)

lemma book_fill_ok:
  assumes "shadow_ok r" and "sh_triggered r = Some t"
    and "\<exists>m \<in> set (sh_marks r). fc_observationId c = mk_observation m \<and> t + 1200 \<le> mk_observed m \<and>
      latency = mk_observed m - t \<and> mk_value m \<noteq> None"
  shows "shadow_ok (snd (book_fill e c latency r))"
  using assms
  by (auto simp: book_fill_def Let_def block_selected_ok fill_ok split: option.splits sum.splits)

lemma resume_fields [simp]:
  "sh_triggered (resumeShadowExit r) = sh_triggered r" "sh_marks (resumeShadowExit r) = sh_marks r"
  "sh_cost (resumeShadowExit r) = sh_cost r" "sh_trigger_value (resumeShadowExit r) = sh_trigger_value r"
  "sh_trigger_reason (resumeShadowExit r) = sh_trigger_reason r"
  by (simp_all add: resumeShadowExit_def)

lemma work_exit_ok:
  assumes "shadow_ok r" and "sh_triggered r = Some t"
  shows "shadow_ok (snd (work_exit e state t r))"
proof (cases "resolveFill t (ce_primary e) (fillCandidatesSince e r t) FROZEN_FILL_LATENCY_MS")
  case (filled c l)
  note m = filled_mark [OF filled]
  show ?thesis
    using book_fill_ok [OF resume_ok [OF assms(1)], of t c l e] book_fill_ok [OF assms(1,2) m] assms(2) m filled
    by (simp add: work_exit_def)
qed (use assms in \<open>simp_all add: work_exit_def Let_def block_ok\<close>)

lemma manage_ok:
  assumes "shadow_ok r" and "ce_obs e \<notin> mk_observation ` set (sh_marks r)"
  shows "shadow_ok (snd (manageShadow e r))"
proof (cases "sh_tokens r \<le> 0 \<or> sh_state r = POSITION_CLOSED")
  case True
  then have "sh_tokens r \<le> 0" using assms(1) by (auto simp: shadow_ok_def close_recorded_def)
  then show ?thesis using assms(1) by (simp add: manageShadow_def)
next
  case False
  have ok: "shadow_ok (raise_peak e (record_mark e r))" using marked_ok [OF assms] False by simp
  show ?thesis
  proof (cases "sh_state r = POSITION_OPEN")
    case True
    then show ?thesis
      using False ok trigger_ok [OF ok marked_mem] by (simp add: manageShadow_def Let_def split: option.split)
  next
    case worked: False
    show ?thesis
      using False worked ok work_exit_ok [OF ok] by (simp add: manageShadow_def Let_def split: option.split)
  qed
qed

section \<open>Rounding does not change a decision\<close>

lemma js_number_minus: "js_number (- n) = - js_number n"
  by (simp add: js_number_def Let_def)

lemma js_number_nonpos: "n \<le> 0 \<Longrightarrow> js_number n \<le> 0"
  by (cases "n = 0") (simp_all add: js_number_def Let_def sgn_if)

lemma js_number_large:
  assumes "2 ^ 53 \<le> n"
  shows "2 ^ 53 \<le> js_number n"
proof -
  define a where "a = nat \<bar>n\<bar>"
  define k where "k = bit_length a - 53"
  define q where "q = a div 2 ^ k"
  define up where "up = (2 * (a mod 2 ^ k) > 2 ^ k \<or> (2 * (a mod 2 ^ k) = 2 ^ k \<and> odd q))"
  have a: "2 ^ 53 \<le> a" using assms by (simp add: a_def nat_le_iff le_nat_iff)
  then have "0 < a" by (rule less_le_trans [rotated]) simp
  note b = bit_length_bounds [OF this]
  have "(2 :: nat) ^ 53 < 2 ^ bit_length a" using a b by linarith
  then have "53 < bit_length a" using power_strict_increasing_iff [of "2 :: nat" 53 "bit_length a"] by simp
  then have k: "1 \<le> k" and len: "bit_length a - 1 = 52 + k" by (simp_all add: k_def)
  have "2 ^ (52 + k) \<le> a" using b unfolding len by blast
  then have "2 ^ 52 * 2 ^ k div 2 ^ k \<le> q" unfolding q_def power_add by (rule div_le_mono)
  then have q: "2 ^ 52 \<le> q" by simp
  have "(2 :: nat) ^ 53 = 2 ^ 52 * 2 ^ 1" by simp
  also have "\<dots> \<le> 2 ^ 52 * 2 ^ k" using k by (intro mult_left_mono power_increasing) simp_all
  also have "\<dots> \<le> (if up then q + 1 else q) * 2 ^ k" using q by (intro mult_right_mono) simp_all
  finally have "int (2 ^ 53) \<le> int ((if up then q + 1 else q) * 2 ^ k)" unfolding of_nat_le_iff .
  moreover have "sgn n = 1" using assms by (simp add: sgn_if)
  moreover have "js_number n = sgn n * int ((if up then q + 1 else q) * 2 ^ k)"
    unfolding js_number_def Let_def up_def q_def k_def a_def ..
  ultimately show ?thesis by simp
qed

lemma js_number_ge_iff:
  assumes "0 < s" and "s < 2 ^ 53"
  shows "s \<le> js_number n \<longleftrightarrow> s \<le> n"
proof -
  consider "n \<le> 0" | "0 < n" "n < 2 ^ 53" | "2 ^ 53 \<le> n" by linarith
  then show ?thesis
  proof cases
    case 1
    then show ?thesis using js_number_nonpos [of n] assms(1) by simp
  next
    case 2
    then show ?thesis using js_number_exact [of n] by simp
  next
    case 3
    then show ?thesis using js_number_large [OF 3] assms(2) by linarith
  qed
qed

lemma rounded_ge_iff:
  assumes "1 \<le> s" and "s < 2 ^ 40"
  shows "of_int s \<le> fl (of_int (js_number n) / 1000) \<longleftrightarrow> s * 1000 \<le> n"
proof -
  have "of_int s \<le> fl (of_int (js_number n) / of_int 1000) \<longleftrightarrow> s * 1000 \<le> js_number n"
    using assms by (intro fl_ge_int_iff) simp_all
  also have "\<dots> \<longleftrightarrow> s * 1000 \<le> n" using assms by (intro js_number_ge_iff) simp_all
  finally show ?thesis by simp
qed

lemma le_div_iff: "0 < b \<Longrightarrow> x \<le> y div b \<longleftrightarrow> x * b \<le> y" for b :: int
proof
  assume "0 < b" and "x \<le> y div b"
  then have "x * b \<le> y div b * b" by simp
  also have "\<dots> \<le> y" using \<open>0 < b\<close> div_mult_mod_eq [of y b] pos_mod_sign [of b y] by linarith
  finally show "x * b \<le> y" .
next
  assume "0 < b" and "x * b \<le> y"
  then show "x \<le> y div b" using zdiv_mono1 [of "x * b" y b] by simp
qed

lemma lossBps_pos: "0 < b \<Longrightarrow> lossBps b a = Some (fl (of_int (js_number (bdiv ((b - a) * 10000 * 1000) b)) / 1000))"
  by (simp only: lossBps_def lossBps_scaled_def not_le [symmetric] if_False option.map)

lemma scaled_ge_iff:
  assumes "0 < b" and "1 \<le> s"
  shows "s * 1000 \<le> bdiv (d * 10000 * 1000) b \<longleftrightarrow> s * b \<le> d * 10000"
proof (cases "0 \<le> d")
  case True
  have "s * 1000 \<le> (d * 10000 * 1000) div b \<longleftrightarrow> s * 1000 * b \<le> d * 10000 * 1000"
    by (rule le_div_iff [OF assms(1)])
  then show ?thesis using True assms(1) by (simp add: bdiv_nonneg) (simp only: mult.commute)
next
  case False
  have "0 < s * b" using assms by simp
  moreover have "bdiv (d * 10000 * 1000) b \<le> 0"
    using bdiv_neg [of "- d * 10000 * 1000" b] False assms(1) by (simp add: div_int_pos_iff)
  ultimately show ?thesis using False assms(2) by (simp add: not_le)
qed

lemma loss_at_least:
  assumes "0 < b" and "1 \<le> s" and "s < 2 ^ 40"
  shows "at_least (lossBps b a) s \<longleftrightarrow> s * b \<le> (b - a) * 10000"
  unfolding lossBps_pos [OF assms(1)] at_least_def option.case rounded_ge_iff [OF assms(2,3)]
  by (rule scaled_ge_iff [OF assms(1,2)])

lemma bdiv_minus: "0 < b \<Longrightarrow> bdiv (- a) b = - bdiv a b"
  using bdiv_neg [of a b] bdiv_neg [of "- a" b] bdiv_nonneg [of a b] bdiv_nonneg [of "- a" b] by (cases "0 \<le> a") simp_all

lemma gain_at_least:
  assumes "0 < b" and "1 \<le> s" and "s < 2 ^ 40"
  shows "at_least (map_option (\<lambda>up. - up) (lossBps b a)) s \<longleftrightarrow> s * b \<le> (a - b) * 10000"
proof -
  have "(b - a) * 10000 * 1000 = - ((a - b) * 10000 * 1000)" by (simp add: algebra_simps)
  then have "bdiv ((b - a) * 10000 * 1000) b = - bdiv ((a - b) * 10000 * 1000) b"
    by (simp only: bdiv_minus [OF assms(1)])
  then have "- fl (of_int (js_number (bdiv ((b - a) * 10000 * 1000) b)) / 1000) =
      fl (of_int (js_number (bdiv ((a - b) * 10000 * 1000) b)) / 1000)"
    by (simp only: js_number_minus of_int_minus minus_divide_left [symmetric] fl_minus minus_minus)
  then show ?thesis
    unfolding lossBps_pos [OF assms(1)] at_least_def option.case option.map
    using rounded_ge_iff [OF assms(2,3)] scaled_ge_iff [OF assms(1,2)] by (simp only:)
qed

text \<open>The exit rules over whole lamports, with no rounding anywhere.\<close>

definition exact_exit :: "ExitInputs \<Rightarrow> ExitConfig \<Rightarrow> ExitReason option" where
  "exact_exit i c =
    (let heldMs = nowUtcMs i - openedUtcMs i; cost = costLamports i; peak = peakValueLamports i in
     if \<not> exitRouteExists i then Some exit_route_lost
     else case markLamports i of None \<Rightarrow> None
     | Some mark \<Rightarrow>
       if mark \<le> cost * liquidityCollapseRatioBps c div 10000 then Some liquidity_collapse
       else if heldMs < minHoldMs c then None
       else if stopLossBps c * cost \<le> (cost - mark) * 10000 then Some stop_loss
       else if takeProfitBps c * cost \<le> (mark - cost) * 10000 then Some take_profit
       else if cost < peak \<and> trailingStopBps c * peak \<le> (peak - mark) * 10000 then Some trailing_stop
       else if heldMs \<ge> maxHoldMs c then Some max_hold
       else None)"

lemma gain_means_above:
  fixes cost :: int
  assumes "0 < cost" and "1 \<le> s" and "s * cost \<le> (mark - cost) * 10000"
  shows "cost < mark"
proof -
  have "0 < s * cost" using assms by simp
  then show ?thesis using assms(3) by simp
qed

lemma decideExit_exact:
  assumes "exit_config_ok c" and "takeProfitBps c < 2 ^ 40" and "0 < costLamports i"
  shows "decideExit i c = exact_exit i c"
proof (cases "markLamports i")
  case (Some mark)
  let ?cost = "costLamports i" and ?peak = "peakValueLamports i"
  have bounds: "1 \<le> stopLossBps c" "stopLossBps c < 2 ^ 40" "1 \<le> trailingStopBps c" "trailingStopBps c < 2 ^ 40"
    "1 \<le> takeProfitBps c" "0 \<le> liquidityCollapseRatioBps c"
    using assms(1) by (simp_all add: exit_config_ok_def)
  have stop: "at_least (lossBps ?cost mark) (stopLossBps c) \<longleftrightarrow> stopLossBps c * ?cost \<le> (?cost - mark) * 10000"
    by (rule loss_at_least [OF assms(3) bounds(1,2)])
  have gain: "(mark > ?cost \<and> at_least (map_option (\<lambda>up. - up) (lossBps ?cost mark)) (takeProfitBps c)) \<longleftrightarrow>
      takeProfitBps c * ?cost \<le> (mark - ?cost) * 10000"
    unfolding gain_at_least [OF assms(3) bounds(5) assms(2)]
    using gain_means_above [OF assms(3) bounds(5), of mark] by blast
  have trail: "(?peak > ?cost \<and> at_least (lossBps ?peak mark) (trailingStopBps c)) \<longleftrightarrow>
      ?cost < ?peak \<and> trailingStopBps c * ?peak \<le> (?peak - mark) * 10000"
    using loss_at_least [of ?peak "trailingStopBps c" mark] bounds(3,4) assms(3) by auto
  have floor: "bdiv (?cost * liquidityCollapseRatioBps c) 10000 = ?cost * liquidityCollapseRatioBps c div 10000"
    using assms(3) bounds(6) by (simp add: bdiv_nonneg)
  show ?thesis
    unfolding decideExit_def exact_exit_def Let_def Some option.case stop gain trail floor using assms(3) by simp
qed (simp add: decideExit_def exact_exit_def Let_def)

section \<open>Histories of a position\<close>

inductive shadow_reachable :: "ShadowRow \<Rightarrow> bool" where
  shadow_opened: "shadow_reachable (openShadowPosition tokens cost now)"
| shadow_cycle: "shadow_reachable r \<Longrightarrow> ce_obs e \<notin> mk_observation ` set (sh_marks r) \<Longrightarrow>
    shadow_reachable (snd (manageShadow e r))"

lemma shadow_reachable_ok: "shadow_reachable r \<Longrightarrow> shadow_ok r"
  by (induction rule: shadow_reachable.induct) (simp_all add: open_ok manage_ok)

lemma distinct_mark:
  assumes "distinct (map mk_observation ms)" and "m \<in> set ms" and "n \<in> set ms" and "mk_observation m = mk_observation n"
  shows "m = n"
  using assms by (auto simp: distinct_map dest: inj_onD)

lemma candidates_marks: "sh_marks r = sh_marks r' \<Longrightarrow> fillCandidatesSince e r t = fillCandidatesSince e r' t"
  by (simp add: fillCandidatesSince_def)

text \<open>What a cycle shows of a position, and what it is meant to make of it: a table over the state, the exit rules, the
  first valid later observation and what is known of it.\<close>

record ShadowView =
  sv_state :: ShadowState
  sv_tokens :: int
  sv_attempts :: int
  sv_realized :: "int option"

definition shadow_view :: "ShadowRow \<Rightarrow> ShadowView" where
  "shadow_view r = \<lparr>sv_state = sh_state r, sv_tokens = sh_tokens r, sv_attempts = sh_attempts r, sv_realized = sh_realized r\<rparr>"

definition first_fill :: "CycleEnv \<Rightarrow> ShadowRow \<Rightarrow> FillCandidate option" where
  "first_fill e r = (case sh_triggered r of None \<Rightarrow> None
     | Some t \<Rightarrow> find (valid_fill (t + 1200) (ce_primary e)) (fillCandidatesSince e (record_mark e r) t))"

definition known_settlement :: "CycleEnv \<Rightarrow> FillCandidate \<Rightarrow> LegSettlement option" where
  "known_settlement e c = (case (ce_settlement e (fc_observationId c), ce_stored e (fc_observationId c)) of
     (Some s, Some (True, _)) \<Rightarrow> Some s | _ \<Rightarrow> None)"

definition cycle_table :: "CycleEnv \<Rightarrow> ShadowRow \<Rightarrow> cycle_result \<times> ShadowView" where
  "cycle_table e r =
    (let v = shadow_view r; wait = (still_blocked, v\<lparr>sv_state := EXIT_BLOCKED, sv_attempts := sv_attempts v + 1\<rparr>) in
     if sh_tokens r \<le> 0 \<or> sh_state r = POSITION_CLOSED then (skipped, v)
     else if sh_state r = POSITION_OPEN then
       (if decideExit (exit_inputs e r) (ce_exits e) = None then (no_exit, v) else (triggered, v\<lparr>sv_state := AWAITING_FILL_OBSERVATION\<rparr>))
     else (case first_fill e r of None \<Rightarrow> wait
       | Some c \<Rightarrow> (case known_settlement e c of None \<Rightarrow> wait
         | Some s \<Rightarrow>
             if ls_sell s then (fill_booked, v\<lparr>sv_state := POSITION_CLOSED, sv_tokens := 0, sv_realized := Some (payerNativeDeltaLamports s - sh_cost r)\<rparr>)
             else (raised exit_cash_on_buy_leg, v\<lparr>sv_state := AWAITING_FILL_OBSERVATION\<rparr>))))"

text \<open>The moves of a single cycle. A trigger and a fill are never in one cycle.\<close>

definition one_cycle :: "(cycle_result \<times> ShadowState \<times> ShadowState) set" where
  "one_cycle = {(no_exit, POSITION_OPEN, POSITION_OPEN), (triggered, POSITION_OPEN, AWAITING_FILL_OBSERVATION),
     (still_blocked, AWAITING_FILL_OBSERVATION, EXIT_BLOCKED), (still_blocked, EXIT_BLOCKED, EXIT_BLOCKED),
     (fill_booked, AWAITING_FILL_OBSERVATION, POSITION_CLOSED), (fill_booked, EXIT_BLOCKED, POSITION_CLOSED),
     (raised exit_cash_on_buy_leg, AWAITING_FILL_OBSERVATION, AWAITING_FILL_OBSERVATION),
     (raised exit_cash_on_buy_leg, EXIT_BLOCKED, AWAITING_FILL_OBSERVATION)}"

text \<open>A fill, from the state the loop has put the row in.\<close>

lemma book_fill_view:
  assumes "sh_state r = AWAITING_FILL_OBSERVATION"
  shows "(fst (book_fill e c l r), shadow_view (snd (book_fill e c l r))) =
    (case known_settlement e c of
       None \<Rightarrow> (still_blocked, (shadow_view r)\<lparr>sv_state := EXIT_BLOCKED, sv_attempts := sh_attempts r + 1\<rparr>)
     | Some s \<Rightarrow>
        if ls_sell s then (fill_booked, (shadow_view r)\<lparr>sv_state := POSITION_CLOSED, sv_tokens := 0,
          sv_realized := Some (payerNativeDeltaLamports s - sh_cost r)\<rparr>)
        else (raised exit_cash_on_buy_leg, shadow_view r))"
  using assms
  by (auto simp: book_fill_def Let_def block_selected_def exitCashIn_def known_settlement_def shadow_view_def
      blockShadowExit_def fillShadowExit_def split: option.split prod.split)

lemma resume_view: "sh_state r = EXIT_BLOCKED \<Longrightarrow> shadow_view (resumeShadowExit r) = (shadow_view r)\<lparr>sv_state := AWAITING_FILL_OBSERVATION\<rparr>"
  by (simp add: resumeShadowExit_def shadow_view_def)

lemma marked_more [simp]: "sh_attempts (raise_peak e (record_mark e r)) = sh_attempts r" "sh_realized (raise_peak e (record_mark e r)) = sh_realized r"
  by (simp_all add: raise_peak_def updateShadowPeak_def record_mark_def insertShadowMark_def split: option.split)

lemma marked_view: "shadow_view (raise_peak e (record_mark e r)) = shadow_view r"
  by (simp add: shadow_view_def)

lemma work_exit_view:
  assumes "sh_state r \<in> {AWAITING_FILL_OBSERVATION, EXIT_BLOCKED}" and "state = sh_state r"
  shows "(fst (work_exit e state t r), shadow_view (snd (work_exit e state t r))) =
    (case find (valid_fill (t + 1200) (ce_primary e)) (fillCandidatesSince e r t) of
       None \<Rightarrow> (still_blocked, (shadow_view r)\<lparr>sv_state := EXIT_BLOCKED, sv_attempts := sh_attempts r + 1\<rparr>)
     | Some c \<Rightarrow> (case known_settlement e c of
         None \<Rightarrow> (still_blocked, (shadow_view r)\<lparr>sv_state := EXIT_BLOCKED, sv_attempts := sh_attempts r + 1\<rparr>)
       | Some s \<Rightarrow>
          if ls_sell s then (fill_booked, (shadow_view r)\<lparr>sv_state := POSITION_CLOSED, sv_tokens := 0,
            sv_realized := Some (payerNativeDeltaLamports s - sh_cost r)\<rparr>)
          else (raised exit_cash_on_buy_leg, (shadow_view r)\<lparr>sv_state := AWAITING_FILL_OBSERVATION\<rparr>)))"
proof -
  let ?f = "find (valid_fill (t + 1200) (ce_primary e)) (fillCandidatesSince e r t)"
  show ?thesis
  proof (cases ?f)
    case None
    then have "\<nexists>c l. resolveFill t (ce_primary e) (fillCandidatesSince e r t) FROZEN_FILL_LATENCY_MS = filled c l"
      unfolding resolveFill_filled by (simp add: FROZEN_FILL_LATENCY_MS_def)
    then have "work_exit e state t r = (still_blocked, blockShadowExit (fill_unresolved
        (resolveFill t (ce_primary e) (fillCandidatesSince e r t) FROZEN_FILL_LATENCY_MS)) r)"
      using assms by (cases "resolveFill t (ce_primary e) (fillCandidatesSince e r t) FROZEN_FILL_LATENCY_MS")
        (auto simp: work_exit_def Let_def)
    then show ?thesis using assms None by (auto simp: blockShadowExit_def shadow_view_def)
  next
    case (Some c)
    then have f: "resolveFill t (ce_primary e) (fillCandidatesSince e r t) FROZEN_FILL_LATENCY_MS = filled c (fc_observedUtcMs c - t)"
      unfolding resolveFill_filled by (simp add: FROZEN_FILL_LATENCY_MS_def)
    show ?thesis
    proof (cases "sh_state r = EXIT_BLOCKED")
      case True
      have "work_exit e state t r = book_fill e c (fc_observedUtcMs c - t) (resumeShadowExit r)"
        using True assms(2) f by (simp add: work_exit_def)
      moreover have "sh_state (resumeShadowExit r) = AWAITING_FILL_OBSERVATION" "sh_attempts (resumeShadowExit r) = sh_attempts r"
        "sh_cost (resumeShadowExit r) = sh_cost r" using True by (simp_all add: resumeShadowExit_def)
      ultimately show ?thesis using book_fill_view [of "resumeShadowExit r" e c "fc_observedUtcMs c - t"] resume_view [OF True] Some
        by (simp split: option.split)
    next
      case False
      then have st: "sh_state r = AWAITING_FILL_OBSERVATION" using assms(1) by simp
      then have "work_exit e state t r = book_fill e c (fc_observedUtcMs c - t) r" using assms(2) f by (simp add: work_exit_def)
      moreover have "(shadow_view r)\<lparr>sv_state := AWAITING_FILL_OBSERVATION\<rparr> = shadow_view r" using st by (simp add: shadow_view_def)
      ultimately show ?thesis using book_fill_view [OF st, of e c "fc_observedUtcMs c - t"] Some by (simp split: option.split)
    qed
  qed
qed

lemma manage_table:
  assumes "shadow_ok r"
  shows "(fst (manageShadow e r), shadow_view (snd (manageShadow e r))) = cycle_table e r"
proof -
  let ?m = "raise_peak e (record_mark e r)"
  have states: "sh_state r = POSITION_OPEN \<or> sh_state r \<in> {AWAITING_FILL_OBSERVATION, EXIT_BLOCKED} \<or> sh_state r = POSITION_CLOSED"
    using assms by (cases "sh_state r") (auto simp: shadow_ok_def)
  consider "sh_tokens r \<le> 0 \<or> sh_state r = POSITION_CLOSED" | "0 < sh_tokens r" "sh_state r = POSITION_OPEN"
    | "0 < sh_tokens r" "sh_state r \<in> {AWAITING_FILL_OBSERVATION, EXIT_BLOCKED}" using states by fastforce
  then show ?thesis
  proof cases
    case 1
    then show ?thesis by (auto simp: manageShadow_def cycle_table_def Let_def marked_view holdsExposure_def)
  next
    case 2
    then show ?thesis
      by (auto simp: manageShadow_def cycle_table_def Let_def marked_view triggerShadowExit_def split: option.split)
        (simp_all add: shadow_view_def)
  next
    case 3
    then obtain t where t: "sh_triggered r = Some t" using assms by (auto simp: shadow_ok_def)
    have st: "sh_state ?m \<in> {AWAITING_FILL_OBSERVATION, EXIT_BLOCKED}" "sh_state r = sh_state ?m" using 3(2) by simp_all
    have "manageShadow e r = work_exit e (sh_state r) t ?m"
      using 3 t by (auto simp: manageShadow_def Let_def holdsExposure_def)
    then have run: "(fst (manageShadow e r), shadow_view (snd (manageShadow e r))) =
        (fst (work_exit e (sh_state r) t ?m), shadow_view (snd (work_exit e (sh_state r) t ?m)))" by simp
    have same: "fillCandidatesSince e ?m t = fillCandidatesSince e (record_mark e r) t" by (rule candidates_marks) simp
    have fields: "sh_attempts ?m = sh_attempts r" "sh_cost ?m = sh_cost r" "sv_attempts (shadow_view r) = sh_attempts r"
      by (simp_all add: shadow_view_def)
    have "\<not> (sh_tokens r \<le> 0 \<or> sh_state r = POSITION_CLOSED)" "sh_state r \<noteq> POSITION_OPEN" using 3 by auto
    then show ?thesis unfolding run work_exit_view [OF st] same marked_view fields cycle_table_def Let_def first_fill_def t by simp
  qed
qed

lemma table_moves:
  assumes "shadow_ok r" and "cycle_table e r = (res, v)"
  shows "(res, sh_state r, sv_state v) \<in> one_cycle \<or> res = skipped \<and> sv_state v = sh_state r"
proof -
  have "sh_state r \<in> {POSITION_OPEN, AWAITING_FILL_OBSERVATION, EXIT_BLOCKED, POSITION_CLOSED}"
    using assms(1) by (cases "sh_state r") (auto simp: shadow_ok_def)
  then show ?thesis using assms(2)
    by (auto simp: cycle_table_def Let_def one_cycle_def shadow_view_def split: option.splits if_splits)
qed

lemma book_fill_books:
  assumes "sh_state r = AWAITING_FILL_OBSERVATION" and "ce_settlement e (fc_observationId c) = Some s" and "ls_sell s"
    and "ce_stored e (fc_observationId c) = Some (True, reasons)"
  shows "book_fill e c l r = (fill_booked, fillShadowExit (payerNativeDeltaLamports s - sh_cost r) (ce_now e)
    (sh_trigger_reason r) (fc_observationId c) l
    (lookAheadBiasLamports (Some (nullish (sh_trigger_value r) 0)) (filled c l)) r)"
  using assms by (simp add: book_fill_def Let_def exitCashIn_def)

lemma manage_books:
  assumes "sh_state r \<in> {AWAITING_FILL_OBSERVATION, EXIT_BLOCKED}" and "0 < sh_tokens r" and "sh_triggered r = Some t"
    and "resolveFill t (ce_primary e) (fillCandidatesSince e (record_mark e r) t) FROZEN_FILL_LATENCY_MS = filled c l"
    and "ce_settlement e (fc_observationId c) = Some s" and "ls_sell s"
    and "ce_stored e (fc_observationId c) = Some (True, reasons)"
  shows "\<exists>r'. manageShadow e r = (fill_booked, r') \<and> sh_state r' = POSITION_CLOSED \<and> sh_tokens r' = 0 \<and>
    sh_realized r' = Some (payerNativeDeltaLamports s - sh_cost r) \<and> sh_exit_obs r' = Some (fc_observationId c) \<and>
    sh_latency r' = Some l \<and>
    sh_bias r' = lookAheadBiasLamports (Some (nullish (sh_trigger_value r) 0)) (filled c l)"
proof -
  let ?m = "raise_peak e (record_mark e r)"
  have held: "holdsExposure (sh_state r)" "sh_state r \<noteq> POSITION_OPEN" using assms(1) by (auto simp: holdsExposure_def)
  have fill: "resolveFill t (ce_primary e) (fillCandidatesSince e ?m t) FROZEN_FILL_LATENCY_MS = filled c l"
    using assms(4) candidates_marks [of ?m "record_mark e r" e t] by simp
  have "manageShadow e r = work_exit e (sh_state r) t ?m"
    using held assms(2,3) by (simp add: manageShadow_def Let_def)
  also have "\<dots> = book_fill e c l (if sh_state r = EXIT_BLOCKED then resumeShadowExit ?m else ?m)"
    by (simp add: work_exit_def fill)
  also have "\<dots> = (fill_booked, fillShadowExit (payerNativeDeltaLamports s - sh_cost r) (ce_now e)
      (sh_trigger_reason r) (fc_observationId c) l
      (lookAheadBiasLamports (Some (nullish (sh_trigger_value r) 0)) (filled c l))
      (if sh_state r = EXIT_BLOCKED then resumeShadowExit ?m else ?m))"
    using assms(1) book_fill_books [OF _ assms(5,6,7), of "if sh_state r = EXIT_BLOCKED then resumeShadowExit ?m else ?m" l]
    by (auto simp: resumeShadowExit_def)
  finally show ?thesis using assms(1) by (auto simp: fillShadowExit_def resumeShadowExit_def)
qed

text \<open>A trigger without a price leaves no look-ahead to measure, and \<open>lookAheadBiasLamports\<close> says so;
  the loop hands it 0 instead, and books the negated fill value as the bias.\<close>

theorem unpriced_trigger_bias:
  "lookAheadBiasLamports None (filled c l) = None \<and>
   (fc_executable c = Some v \<longrightarrow>
    lookAheadBiasLamports (Some (nullish None 0)) (filled c l) = Some (- v))"
  by (simp add: lookAheadBiasLamports_def)

section \<open>Distance to a trigger\<close>

text \<open>\<open>nearTrigger\<close> of \<open>shadow-lifecycle.ts\<close>: basis points to the nearest boundary, time included.\<close>

record TriggerDistance =
  td_executable :: "int option"
  td_peak :: int
  td_cost :: int
  td_stopBps :: int
  td_trailBps :: int
  td_takeProfitBps :: int
  td_ageMs :: int
  td_maxHoldMs :: int

text \<open>\<open>Math.round\<close>, halves up.\<close>

definition js_round :: "rat \<Rightarrow> int" where
  "js_round x = \<lfloor>x + 1 / 2\<rfloor>"

definition bps_to :: "int \<Rightarrow> int \<Rightarrow> int" where
  "bps_to executable target =
    (if executable \<le> 0 then 0 else js_number (bdiv ((executable - target) * 10000) executable))"

definition trigger_distance :: "TriggerDistance \<Rightarrow> int" where
  "trigger_distance d =
    (case td_executable d of None \<Rightarrow> 0
     | Some v \<Rightarrow>
       let stopAt = bdiv (td_cost d * (10000 - td_stopBps d)) 10000;
           trailAt = bdiv (td_peak d * (10000 - td_trailBps d)) 10000;
           takeAt = bdiv (td_cost d * (10000 + td_takeProfitBps d)) 10000;
           distances = [\<bar>bps_to v stopAt\<bar>, \<bar>bps_to v trailAt\<bar>, \<bar>bps_to v takeAt\<bar>,
             (if td_maxHoldMs d \<le> 0 then 10000
              else max 0 (js_round (fl (fl (of_int (td_maxHoldMs d - td_ageMs d) / of_int (td_maxHoldMs d)) * 10000))))]
       in Min (set distances))"

lemma trigger_distance_nonneg: "0 \<le> trigger_distance d"
  by (simp add: trigger_distance_def Let_def split: option.split)

section \<open>A stopped position\<close>

definition demo_exits :: ExitConfig where
  "demo_exits = \<lparr>stopLossBps = 2000, trailingStopBps = 1500, takeProfitBps = 10000, maxHoldMs = 3600000,
     minHoldMs = 10000, liquidityCollapseRatioBps = 1000\<rparr>"

definition demo_env :: "string \<Rightarrow> int \<Rightarrow> int \<Rightarrow> CycleEnv" where
  "demo_env obs now val = \<lparr>ce_obs = obs, ce_now = now, ce_route = True, ce_value = Some val,
     ce_family = (\<lambda>_. Some ''F''), ce_effects = (\<lambda>_. [Some 1]),
     ce_settlement = (\<lambda>_. Some \<lparr>ls_sell = True, payerNativeDeltaLamports = 66\<rparr>),
     ce_stored = (\<lambda>_. Some (True, [])), ce_primary = ''F'', ce_exits = demo_exits\<rparr>"

definition demo_stopped :: ShadowRow where
  "demo_stopped = (openShadowPosition 5 100 0)\<lparr>sh_state := AWAITING_FILL_OBSERVATION, sh_triggered := Some 20000,
     sh_trigger_obs := Some ''a'', sh_trigger_value := Some 70, sh_trigger_reason := Some stop_loss,
     sh_marks := [\<lparr>mk_seq = 0, mk_observed = 20000, mk_observation = ''a'', mk_value = Some 70, mk_route = True\<rparr>]\<rparr>"

lemma demo_stop: "decideExit (exit_inputs (demo_env ''a'' 20000 70) (openShadowPosition 5 100 0)) demo_exits = Some stop_loss"
  by (subst decideExit_exact)
    (simp_all add: exit_config_ok_def demo_exits_def exact_exit_def exit_inputs_def demo_env_def
      openShadowPosition_def current_peak_def Let_def)

lemma demo_triggers: "manageShadow (demo_env ''a'' 20000 70) (openShadowPosition 5 100 0) = (triggered, demo_stopped)"
proof -
  have "ce_exits (demo_env ''a'' 20000 70) = demo_exits" by (simp add: demo_env_def)
  then show ?thesis
    by (simp add: manageShadow_def Let_def demo_stop)
      (simp add: demo_env_def demo_stopped_def openShadowPosition_def record_mark_def insertShadowMark_def next_seq_def
        raise_peak_def current_peak_def triggerShadowExit_def)
qed

lemma demo_stopped_reachable: "shadow_reachable demo_stopped"
  using shadow_cycle [OF shadow_opened [of 5 100 0], of "demo_env ''a'' 20000 70"]
  by (simp add: demo_triggers) (simp add: openShadowPosition_def)

lemma demo_candidates: "find (valid_fill (20000 + FROZEN_FILL_LATENCY_MS) (ce_primary (demo_env ''b'' 25000 65)))
    (fillCandidatesSince (demo_env ''b'' 25000 65) (record_mark (demo_env ''b'' 25000 65) demo_stopped) 20000) =
    Some \<lparr>fc_observationId = ''b'', fc_observedUtcMs = 25000, fc_family = ''F'', fc_effectValid = True, fc_executable = Some 65\<rparr>"
  by (simp add: fillCandidatesSince_def record_mark_new demo_env_def demo_stopped_def openShadowPosition_def
      FROZEN_FILL_LATENCY_MS_def valid_fill_def)

lemma demo_fills: "resolveFill 20000 (ce_primary (demo_env ''b'' 25000 65))
    (fillCandidatesSince (demo_env ''b'' 25000 65) (record_mark (demo_env ''b'' 25000 65) demo_stopped) 20000)
    FROZEN_FILL_LATENCY_MS = filled \<lparr>fc_observationId = ''b'', fc_observedUtcMs = 25000, fc_family = ''F'',
      fc_effectValid = True, fc_executable = Some 65\<rparr> 5000"
  unfolding resolveFill_filled demo_candidates by simp

lemma demo_closes: "sh_state (snd (manageShadow (demo_env ''b'' 25000 65) demo_stopped)) = POSITION_CLOSED"
  using manage_books [OF _ _ _ demo_fills, of "\<lparr>ls_sell = True, payerNativeDeltaLamports = 66\<rparr>" "[]"]
  by (simp add: demo_env_def demo_stopped_def openShadowPosition_def) (metis snd_conv)

lemma demo_closed_reachable: "shadow_reachable (snd (manageShadow (demo_env ''b'' 25000 65) demo_stopped))"
  by (rule shadow_cycle [OF demo_stopped_reachable]) (simp add: demo_env_def demo_stopped_def)

section \<open>Properties\<close>

text \<open>C32: The exit rules decide as the exact rules over whole lamports do: no rounding of a loss or gain
  to a double ever changes whether, or why, a position exits; and the collapse and lost-route rules
  come before the minimum hold.\<close>

theorem exit_rules_exact:
  assumes "exit_config_ok c" and "takeProfitBps c < 2 ^ 40" and "0 < costLamports i"
  shows "decideExit i c = exact_exit i c"
  by (rule decideExit_exact [OF assms])

theorem exit_rules_exact_witness:
  "let i = \<lparr>costLamports = 100, peakValueLamports = 130, markLamports = Some 80, openedUtcMs = 0, nowUtcMs = 20000,
      exitRouteExists = True\<rparr>
   in decideExit i demo_exits = exact_exit i demo_exits \<and> exact_exit i demo_exits = Some stop_loss"
  unfolding Let_def
  by (rule conjI [OF exit_rules_exact]) (simp_all add: exit_config_ok_def demo_exits_def exact_exit_def Let_def)

text \<open>C3: No close is at its trigger: whatever the cycles observe, a closed position has a trigger mark
  and a different, priced mark at least the frozen latency later, that one is its recorded exit, the
  recorded latency is the distance between them, and no tokens are left.\<close>

theorem fill_is_later_mark:
  assumes "shadow_reachable r" and "sh_state r = POSITION_CLOSED"
  shows "\<exists>m n t. m \<in> set (sh_marks r) \<and> n \<in> set (sh_marks r) \<and> sh_triggered r = Some t \<and>
    sh_trigger_obs r = Some (mk_observation m) \<and> mk_observed m = t \<and>
    sh_exit_obs r = Some (mk_observation n) \<and> t + FROZEN_FILL_LATENCY_MS \<le> mk_observed n \<and>
    sh_latency r = Some (mk_observed n - t) \<and> mk_value n \<noteq> None \<and>
    sh_exit_obs r \<noteq> sh_trigger_obs r \<and> sh_tokens r = 0"
proof -
  have ok: "shadow_ok r" by (rule shadow_reachable_ok [OF assms(1)])
  then have ids: "distinct (map mk_observation (sh_marks r))" by (simp add: shadow_ok_def)
  obtain t n where t: "sh_triggered r = Some t" "sh_tokens r = 0" and n: "n \<in> set (sh_marks r)"
      "sh_exit_obs r = Some (mk_observation n)" "t + 1200 \<le> mk_observed n"
      "sh_latency r = Some (mk_observed n - t)" "mk_value n \<noteq> None"
    using ok assms(2) by (auto simp: shadow_ok_def close_recorded_def)
  obtain m where m: "m \<in> set (sh_marks r)" "mk_observed m = t" "sh_trigger_obs r = Some (mk_observation m)"
    using ok t(1) by (auto simp: shadow_ok_def trigger_recorded_def)
  have "mk_observation n \<noteq> mk_observation m"
    using distinct_mark [OF ids n(1) m(1)] n(3) m(2) by auto
  then show ?thesis using t n m unfolding FROZEN_FILL_LATENCY_MS_def by auto
qed

theorem fill_is_later_mark_witness:
  "let r = snd (manageShadow (demo_env ''b'' 25000 65) demo_stopped) in
   \<exists>m n t. m \<in> set (sh_marks r) \<and> n \<in> set (sh_marks r) \<and> sh_triggered r = Some t \<and>
    sh_trigger_obs r = Some (mk_observation m) \<and> mk_observed m = t \<and>
    sh_exit_obs r = Some (mk_observation n) \<and> t + FROZEN_FILL_LATENCY_MS \<le> mk_observed n \<and>
    sh_latency r = Some (mk_observed n - t) \<and> mk_value n \<noteq> None \<and>
    sh_exit_obs r \<noteq> sh_trigger_obs r \<and> sh_tokens r = 0"
  unfolding Let_def by (rule fill_is_later_mark [OF demo_closed_reachable demo_closes])

text \<open>C33: The loop implements the shadow machine: for every reachable position and whatever the cycle meets, its
  result and what it leaves of the position (state, tokens, failed attempts, realized amount) are those of the table:
  an open position is held or triggered by the exit rules; a triggered one is filled at the first valid observation
  at least the latency after the trigger, when its settlement is known and it is executable, for the payer's gain
  less the cost, and is blocked otherwise. So a cycle makes one of nine moves, no transition it asserts is
  ever refused, and an open position is never closed in one cycle.\<close>

theorem cycle_implements_machine:
  assumes "shadow_reachable r"
  shows "(fst (manageShadow e r), shadow_view (snd (manageShadow e r))) = cycle_table e r \<and>
    ((fst (manageShadow e r), sh_state r, sh_state (snd (manageShadow e r))) \<in> one_cycle \<or>
     fst (manageShadow e r) = skipped \<and> sh_state (snd (manageShadow e r)) = sh_state r)"
proof -
  note t = manage_table [OF shadow_reachable_ok [OF assms], of e]
  show ?thesis using t table_moves [OF shadow_reachable_ok [OF assms] t [symmetric]] by (simp add: shadow_view_def)
qed

text \<open>Stopped at one observation, filled at the next, which is five seconds later and sells for 66.\<close>

theorem cycle_implements_machine_witness:
  "fst (manageShadow (demo_env ''b'' 25000 65) demo_stopped) = fill_booked \<and>
   shadow_view (snd (manageShadow (demo_env ''b'' 25000 65) demo_stopped)) =
     \<lparr>sv_state = POSITION_CLOSED, sv_tokens = 0, sv_attempts = 0, sv_realized = Some (- 34)\<rparr>"
proof -
  have c: "first_fill (demo_env ''b'' 25000 65) demo_stopped = Some \<lparr>fc_observationId = ''b'', fc_observedUtcMs = 25000, fc_family = ''F'',
      fc_effectValid = True, fc_executable = Some 65\<rparr>"
    using demo_candidates by (simp add: first_fill_def FROZEN_FILL_LATENCY_MS_def) (simp add: demo_stopped_def)
  have "cycle_table (demo_env ''b'' 25000 65) demo_stopped =
      (fill_booked, \<lparr>sv_state = POSITION_CLOSED, sv_tokens = 0, sv_attempts = 0, sv_realized = Some (- 34)\<rparr>)"
    unfolding cycle_table_def Let_def c
    by (simp add: known_settlement_def demo_env_def shadow_view_def demo_stopped_def openShadowPosition_def)
  then show ?thesis using cycle_implements_machine [OF demo_stopped_reachable, of "demo_env ''b'' 25000 65"] by simp
qed

text \<open>An exit that can be filled is filled: an awaiting or blocked position with a valid later
  observation that is settled on the sell side and executable closes in this very cycle, at the
  first such observation, and realizes the settlement's payer delta less the cost.\<close>

theorem fillable_exit_closes:
  assumes "sh_state r \<in> {AWAITING_FILL_OBSERVATION, EXIT_BLOCKED}" and "0 < sh_tokens r" and "sh_triggered r = Some t"
    and "find (valid_fill (t + FROZEN_FILL_LATENCY_MS) (ce_primary e)) (fillCandidatesSince e (record_mark e r) t) = Some c"
    and "ce_settlement e (fc_observationId c) = Some s" and "ls_sell s"
    and "ce_stored e (fc_observationId c) = Some (True, reasons)"
  shows "\<exists>r'. manageShadow e r = (fill_booked, r') \<and> sh_state r' = POSITION_CLOSED \<and> sh_tokens r' = 0 \<and>
    sh_realized r' = Some (payerNativeDeltaLamports s - sh_cost r) \<and> sh_exit_obs r' = Some (fc_observationId c)"
  using manage_books [OF assms(1-3) _ assms(5-7), of "fc_observedUtcMs c - t"] assms(4)
  unfolding resolveFill_filled by blast

theorem fillable_exit_closes_witness:
  "\<exists>r'. manageShadow (demo_env ''b'' 25000 65) demo_stopped = (fill_booked, r') \<and> sh_state r' = POSITION_CLOSED \<and>
    sh_tokens r' = 0 \<and> sh_realized r' = Some (66 - sh_cost demo_stopped) \<and> sh_exit_obs r' = Some ''b''"
  using fillable_exit_closes [OF _ _ _ demo_candidates, of "\<lparr>ls_sell = True, payerNativeDeltaLamports = 66\<rparr>" "[]"]
  by (simp add: demo_stopped_def openShadowPosition_def demo_env_def)

end
