(* ===== verification/MarkScheduling.thy ===== *)
theory MarkScheduling
  imports ShadowExit "HOL-Library.Product_Lexorder"
begin

text \<open>
  Which shadow positions are marked in a cycle: the ranking of
  \<open>packages/strategy/src/markscheduler.ts\<close>, and the part of \<open>manageShadowBooks\<close>
  (\<open>apps/engine/src/paper.ts\<close>) that feeds it and takes the cap. Times are whole milliseconds below
  \<open>2 ^ 53\<close>; the text of \<open>detail\<close> is left out.
\<close>

section \<open>The ranking\<close>

datatype MarkUrgency = BLOCKED | NEAR_TRIGGER | OVERDUE | DUE | NOT_DUE

record MarkCandidate =
  mc_id :: string
  mc_opened :: int
  mc_lastMark :: "int option"
  mc_blocked :: bool
  mc_nearTrigger :: bool

record ScheduledMark =
  sm_id :: string
  sm_urgency :: MarkUrgency
  sm_dueAt :: int
  sm_lag :: int
  sm_missed :: int

fun TIER :: "MarkUrgency \<Rightarrow> int" where
  "TIER BLOCKED = 0"
| "TIER NEAR_TRIGGER = 1"
| "TIER OVERDUE = 2"
| "TIER DUE = 3"
| "TIER NOT_DUE = 4"

definition urgencyOf :: "MarkCandidate \<Rightarrow> int \<Rightarrow> int \<Rightarrow> MarkUrgency" where
  "urgencyOf c dueAt now =
    (if mc_blocked c then BLOCKED
     else if mc_nearTrigger c then NEAR_TRIGGER
     else let lag = now - dueAt in
       if lag \<le> 0 then NOT_DUE else if lag \<ge> 0 then OVERDUE else DUE)"

definition due_at :: "int \<Rightarrow> MarkCandidate \<Rightarrow> int" where
  "due_at interval c = (case mc_lastMark c of None \<Rightarrow> mc_opened c | Some t \<Rightarrow> t + interval)"

definition score :: "int \<Rightarrow> int \<Rightarrow> MarkCandidate \<Rightarrow> ScheduledMark \<times> int" where
  "score interval now c =
    (let dueAt = due_at interval c; lag = now - dueAt in
     (\<lparr>sm_id = mc_id c, sm_urgency = urgencyOf c dueAt now, sm_dueAt = dueAt, sm_lag = lag,
       sm_missed = (if lag \<le> 0 \<or> interval \<le> 0 then 0 else \<lfloor>fl (of_int lag / of_int interval)\<rfloor>)\<rparr>,
      mc_opened c))"

text \<open>The comparator of the stable sort: tier, then larger lag, then newer.\<close>

definition rank :: "ScheduledMark \<times> int \<Rightarrow> int \<times> int \<times> int" where
  "rank s = (TIER (sm_urgency (fst s)), - sm_lag (fst s), - snd s)"

definition scheduleMarks :: "MarkCandidate list \<Rightarrow> int \<Rightarrow> int \<Rightarrow> ScheduledMark list" where
  "scheduleMarks candidates interval now = map fst (sort_key rank (map (score interval now) candidates))"

record BacklogState =
  bl_due :: int
  bl_marked :: int
  bl_skipped :: int
  bl_worstLag :: int
  bl_totalMissed :: int
  bl_overCapacity :: bool

definition assessBacklog :: "ScheduledMark list \<Rightarrow> int \<Rightarrow> BacklogState" where
  "assessBacklog scheduled capacity =
    (let due_count = int (length (filter (\<lambda>s. sm_urgency s \<noteq> NOT_DUE) scheduled));
         marked_count = min due_count capacity
     in \<lparr>bl_due = due_count, bl_marked = marked_count, bl_skipped = due_count - marked_count,
         bl_worstLag = foldl (\<lambda>a s. if sm_lag s > a then sm_lag s else a) 0 scheduled,
         bl_totalMissed = foldl (\<lambda>a s. a + sm_missed s) 0 scheduled,
         bl_overCapacity = (due_count > capacity)\<rparr>)"

section \<open>What the engine feeds it\<close>

text \<open>\<open>nearTrigger\<close> of \<open>paper.ts\<close>, on a row with its peak and cost.\<close>

definition nearTrigger :: "int option \<Rightarrow> int \<Rightarrow> ExitConfig \<Rightarrow> bool" where
  "nearTrigger peak cost config =
    (case peak of None \<Rightarrow> True
     | Some p \<Rightarrow>
       if cost \<le> 0 then True
       else p \<le> bdiv (cost * (10000 - stopLossBps config)) 10000 + bdiv (cost * stopLossBps config) 50000)"

definition last_mark :: "ShadowRow \<Rightarrow> int option" where
  "last_mark r = (if sh_marks r = [] then None else Some (Max (set (map mk_observed (sh_marks r)))))"

definition candidate_of :: "ExitConfig \<Rightarrow> string \<times> ShadowRow \<Rightarrow> MarkCandidate" where
  "candidate_of config = (\<lambda>(i, r). \<lparr>mc_id = i, mc_opened = sh_opened r, mc_lastMark = last_mark r,
     mc_blocked = (sh_state r = EXIT_BLOCKED), mc_nearTrigger = nearTrigger (sh_peak r) (sh_cost r) config\<rparr>)"

text \<open>\<open>ranked.filter(\<dots>).slice(0, cap)\<close>.\<close>

definition chosen :: "nat \<Rightarrow> ScheduledMark list \<Rightarrow> string list" where
  "chosen cap ranked = map sm_id (take cap (filter (\<lambda>s. sm_urgency s \<noteq> NOT_DUE) ranked))"

section \<open>Lemmas\<close>

lemma urgency_never_due: "urgencyOf c dueAt now \<noteq> DUE"
  by (simp add: urgencyOf_def Let_def)

lemma parts_below: "10000 * a \<le> 10000 * c - x \<Longrightarrow> 50000 * b \<le> x \<Longrightarrow> 0 < x \<Longrightarrow> a + b < c" for a b c x :: int
  by linarith

lemma stop_level_below_cost:
  assumes "0 < cost" and "1 \<le> s" and "s \<le> 10000"
  shows "bdiv (cost * (10000 - s)) 10000 + bdiv (cost * s) 50000 < cost"
proof -
  let ?a = "cost * (10000 - s) div 10000" and ?b = "cost * s div 50000"
  have "0 < cost * s" using assms by simp
  have "10000 * ?a \<le> cost * (10000 - s)" "50000 * ?b \<le> cost * s" by (simp_all add: mult.commute)
  then have "10000 * ?a \<le> 10000 * cost - cost * s" by (simp add: algebra_simps)
  then have "?a + ?b < cost" using \<open>50000 * ?b \<le> cost * s\<close> \<open>0 < cost * s\<close> by (rule parts_below)
  then show ?thesis using assms by (simp add: bdiv_nonneg)
qed

text \<open>The recorded peak starts at the cost and is only raised.\<close>

definition peak_ok :: "ShadowRow \<Rightarrow> bool" where
  "peak_ok r \<longleftrightarrow> (case sh_peak r of None \<Rightarrow> False | Some p \<Rightarrow> sh_cost r \<le> p)"

lemma updates_peak [simp]:
  "sh_peak (triggerShadowExit now obs val reason r) = sh_peak r" "sh_cost (triggerShadowExit now obs val reason r) = sh_cost r"
  "sh_peak (blockShadowExit b r) = sh_peak r" "sh_cost (blockShadowExit b r) = sh_cost r"
  "sh_peak (resumeShadowExit r) = sh_peak r"
  "sh_peak (fillShadowExit x now y obs l bias r) = sh_peak r" "sh_cost (fillShadowExit x now y obs l bias r) = sh_cost r"
  by (simp_all add: updates)

lemma asserting_cases: "snd (asserting a b r k) \<in> {r, snd k}"
  by (simp add: asserting_def split: sum.split)

lemma book_fill_peak: "sh_peak (snd (book_fill e c l r)) = sh_peak r \<and> sh_cost (snd (book_fill e c l r)) = sh_cost r"
  by (simp add: book_fill_def Let_def block_selected_def split: option.split sum.split prod.split)

lemma work_exit_peak: "sh_peak (snd (work_exit e s t r)) = sh_peak r \<and> sh_cost (snd (work_exit e s t r)) = sh_cost r"
  using book_fill_peak [of e _ _ r] book_fill_peak [of e _ _ "resumeShadowExit r"]
  by (simp add: work_exit_def Let_def asserting_def split: FillOutcome.split sum.split)

lemma marked_peak: "peak_ok r \<Longrightarrow> peak_ok (raise_peak e (record_mark e r))"
  by (auto simp: peak_ok_def raise_peak_def updateShadowPeak_def current_peak_def split: option.splits)

lemma manage_peak: "peak_ok r \<Longrightarrow> peak_ok (snd (manageShadow e r))"
proof -
  assume ok: "peak_ok r"
  have marked: "peak_ok (raise_peak e (record_mark e r))" by (rule marked_peak [OF ok])
  have "peak_ok (triggerShadowExit now obs val reason (raise_peak e (record_mark e r)))" for now obs val reason
    using marked by (simp add: peak_ok_def split: option.splits)
  moreover have "peak_ok (snd (work_exit e s t (raise_peak e (record_mark e r))))" for s t
    using marked work_exit_peak [of e s t "raise_peak e (record_mark e r)"] by (simp add: peak_ok_def split: option.splits)
  ultimately show ?thesis
    using ok marked by (simp add: manageShadow_def Let_def split: option.split)
qed

lemma reachable_peak: "shadow_reachable r \<Longrightarrow> peak_ok r"
  by (induction rule: shadow_reachable.induct) (simp_all add: manage_peak, simp add: peak_ok_def openShadowPosition_def)

lemma near_trigger_false:
  assumes "shadow_reachable r" and "0 < sh_cost r" and "exit_config_ok config"
  shows "\<not> nearTrigger (sh_peak r) (sh_cost r) config"
proof -
  obtain p where p: "sh_peak r = Some p" "sh_cost r \<le> p"
    using reachable_peak [OF assms(1)] by (auto simp: peak_ok_def split: option.splits)
  have "bdiv (sh_cost r * (10000 - stopLossBps config)) 10000 + bdiv (sh_cost r * stopLossBps config) 50000 < sh_cost r"
    using assms(2,3) by (intro stop_level_below_cost) (simp_all add: exit_config_ok_def)
  then show ?thesis using p assms(2) by (simp add: nearTrigger_def)
qed

section \<open>Progress\<close>

lemma rank_score: "rank (score interval now c) =
    (TIER (urgencyOf c (due_at interval c) now), due_at interval c - now, - mc_opened c)"
  by (simp add: rank_def score_def Let_def)

definition key :: "int \<Rightarrow> int \<Rightarrow> MarkCandidate \<Rightarrow> int \<times> int \<times> int" where
  "key interval now c = (TIER (urgencyOf c (due_at interval c) now), due_at interval c - now, - mc_opened c)"

text \<open>The chosen ids, on the candidates themselves.\<close>

definition ordered :: "int \<Rightarrow> int \<Rightarrow> MarkCandidate list \<Rightarrow> MarkCandidate list" where
  "ordered interval now cs = filter (\<lambda>c. urgencyOf c (due_at interval c) now \<noteq> NOT_DUE) (sort_key (key interval now) cs)"

lemma chosen_ordered: "chosen cap (scheduleMarks cs interval now) = map mc_id (take cap (ordered interval now cs))"
proof -
  have "sort_key rank (map (score interval now) cs) = map (score interval now) (sort_key (key interval now) cs)"
    unfolding map_sort_key [symmetric] rank_score key_def [symmetric] by (rule refl)
  moreover have "sm_urgency (fst (score interval now c)) = urgencyOf c (due_at interval c) now" for c
    by (simp add: score_def Let_def)
  moreover have "sm_id (fst (score interval now c)) = mc_id c" for c
    by (simp add: score_def Let_def)
  ultimately show ?thesis
    by (simp add: chosen_def scheduleMarks_def ordered_def filter_map take_map o_def)
qed

lemma take_prefix_small:
  assumes "sorted (map f xs)" and "x \<in> set xs" and "x \<notin> set (take n xs)" and "y \<in> set (take n xs)"
  shows "f y \<le> f x"
proof -
  have "x \<in> set (drop n xs)" using assms(2,3) by (metis Un_iff append_take_drop_id set_append)
  moreover have "sorted (map f (take n xs) @ map f (drop n xs))" using assms(1) by (metis append_take_drop_id map_append)
  ultimately show ?thesis using assms(4) by (auto simp: sorted_append)
qed

text \<open>A position is hot when it is blocked or near a trigger. One cycle of marks on a book, and the
  ids marked in a run of cycles.\<close>

definition hot :: "MarkCandidate \<Rightarrow> bool" where
  "hot c \<longleftrightarrow> mc_blocked c \<or> mc_nearTrigger c"

definition mark_cycle :: "nat \<Rightarrow> int \<Rightarrow> int \<Rightarrow> MarkCandidate list \<Rightarrow> MarkCandidate list" where
  "mark_cycle cap interval now cs =
    (let ids = chosen cap (scheduleMarks cs interval now)
     in map (\<lambda>c. if mc_id c \<in> set ids then c\<lparr>mc_lastMark := Some now\<rparr> else c) cs)"

fun marked_in :: "nat \<Rightarrow> int \<Rightarrow> int list \<Rightarrow> MarkCandidate list \<Rightarrow> string set" where
  "marked_in cap interval [] cs = {}"
| "marked_in cap interval (now # later) cs =
     set (chosen cap (scheduleMarks cs interval now)) \<union> marked_in cap interval later (mark_cycle cap interval now cs)"

text \<open>The positions that are served before \<open>c\<close> among those that are not hot.\<close>

definition ahead :: "int \<Rightarrow> MarkCandidate \<Rightarrow> MarkCandidate \<Rightarrow> bool" where
  "ahead interval c y \<longleftrightarrow> \<not> hot y \<and> (due_at interval y, - mc_opened y) \<le> (due_at interval c, - mc_opened c)"

lemma cold_urgency: "\<not> hot c \<Longrightarrow> urgencyOf c d now = (if now \<le> d then NOT_DUE else OVERDUE)"
  by (auto simp: hot_def urgencyOf_def Let_def)

lemma hot_urgency: "hot c \<Longrightarrow> urgencyOf c d now \<in> {BLOCKED, NEAR_TRIGGER}"
  by (auto simp: hot_def urgencyOf_def)

lemma hot_first: "hot y \<Longrightarrow> \<not> hot c \<Longrightarrow> key interval now y < key interval now c"
  using hot_urgency [of y "due_at interval y" now] cold_urgency [of c "due_at interval c" now] by (auto simp: key_def)

lemma cycle_ids: "map mc_id (mark_cycle cap interval now cs) = map mc_id cs"
  by (simp add: mark_cycle_def Let_def)

lemma cycle_hot: "length (filter hot (mark_cycle cap interval now cs)) = length (filter hot cs)"
proof -
  have "hot (if P then c\<lparr>mc_lastMark := Some now\<rparr> else c) = hot c" for P c by (simp add: hot_def)
  then show ?thesis by (simp add: mark_cycle_def Let_def filter_map o_def)
qed

lemma ordered_members: "set (ordered interval now cs) = {c \<in> set cs. urgencyOf c (due_at interval c) now \<noteq> NOT_DUE}"
  by (simp add: ordered_def)

lemma ordered_sorted: "sorted (map (key interval now) (ordered interval now cs))"
  by (simp add: ordered_def sorted_filter)

lemma filter_split_length:
  assumes "\<And>y. Q y \<Longrightarrow> P y"
  shows "length (filter P xs) = length (filter (\<lambda>y. P y \<and> \<not> Q y) xs) + length (filter Q xs)"
  by (induction xs) (auto dest: assms)

text \<open>A due position that is not chosen: the whole cap is spent on positions of the book that come no later.\<close>

lemma not_chosen:
  assumes "distinct (map mc_id cs)" and "c \<in> set (ordered interval now cs)"
    and "mc_id c \<notin> set (chosen cap (scheduleMarks cs interval now))"
  shows "length (filter (\<lambda>y. y \<in> set (take cap (ordered interval now cs))) cs) = cap"
    and "y \<in> set (take cap (ordered interval now cs)) \<Longrightarrow> y \<in> set cs \<and> key interval now y \<le> key interval now c"
proof -
  let ?T = "take cap (ordered interval now cs)"
  have out: "c \<notin> set ?T" using assms(3) unfolding chosen_ordered by auto
  have mem: "y \<in> set cs \<and> key interval now y \<le> key interval now c" if "y \<in> set ?T" for y
    using take_prefix_small [OF ordered_sorted assms(2) out that] in_set_takeD [OF that] by (simp add: ordered_members)
  then show "y \<in> set ?T \<Longrightarrow> y \<in> set cs \<and> key interval now y \<le> key interval now c" .
  have long: "cap < length (ordered interval now cs)" using assms(2) out by (metis linorder_not_less take_all)
  have d: "distinct cs" using assms(1) by (simp add: distinct_map)
  have "distinct (ordered interval now cs)" unfolding ordered_def using d by (intro distinct_filter) simp
  then have "length ?T = card (set ?T)" by (simp add: distinct_card)
  moreover have "set (filter (\<lambda>y. y \<in> set ?T) cs) = set ?T" using mem by auto
  moreover have "distinct (filter (\<lambda>y. y \<in> set ?T) cs)" using d by simp
  ultimately have "length (filter (\<lambda>y. y \<in> set ?T) cs) = length ?T" by (metis distinct_card)
  then show "length (filter (\<lambda>y. y \<in> set ?T) cs) = cap" using long by simp
qed

lemma waiting_behind:
  assumes dist: "distinct (map mc_id cs)" and "c \<in> set cs" and cold: "\<not> hot c" and "due_at interval c < now"
    and out: "mc_id c \<notin> set (chosen cap (scheduleMarks cs interval now))" and "0 \<le> interval"
  shows "cap - length (filter hot cs) + length (filter (ahead interval c) (mark_cycle cap interval now cs)) \<le> length (filter (ahead interval c) cs)"
proof -
  let ?T = "take cap (ordered interval now cs)"
  have c: "c \<in> set (ordered interval now cs)" using assms(2,4) cold_urgency [OF cold] by (simp add: ordered_members)
  have before: "ahead interval c y" if "y \<in> set ?T" "\<not> hot y" for y
  proof -
    have "y \<in> set (ordered interval now cs)" using in_set_takeD [OF that(1)] .
    then have "urgencyOf y (due_at interval y) now \<noteq> NOT_DUE" by (simp add: ordered_members)
    then show ?thesis
      using not_chosen(2) [OF dist c out that(1)] assms(4) cold_urgency [OF that(2)] cold_urgency [OF cold] that(2)
      by (auto simp: key_def ahead_def split: if_splits)
  qed
  let ?f = "\<lambda>y. if mc_id y \<in> mc_id ` set ?T then y\<lparr>mc_lastMark := Some now\<rparr> else y"
  have "set ?T \<subseteq> set cs" using not_chosen(2) [OF dist c out] by blast
  then have same: "mc_id y \<in> mc_id ` set ?T \<longleftrightarrow> y \<in> set ?T" if "y \<in> set cs" for y
    using that dist by (auto simp: distinct_map dest: inj_onD)
  have moved: "ahead interval c (?f y) \<longleftrightarrow> ahead interval c y \<and> y \<notin> set ?T" if "y \<in> set cs" for y
    using same [OF that] assms(4,6) by (auto simp: ahead_def due_at_def hot_def)
  have "mark_cycle cap interval now cs = map ?f cs"
    by (simp add: mark_cycle_def Let_def chosen_ordered)
  then have "length (filter (ahead interval c) (mark_cycle cap interval now cs)) =
      length (filter (\<lambda>y. ahead interval c y \<and> y \<notin> set ?T) cs)"
    using moved by (simp add: filter_map o_def cong: filter_cong)
  moreover have "length (filter (ahead interval c) cs) =
      length (filter (\<lambda>y. ahead interval c y \<and> \<not> (y \<in> set ?T \<and> \<not> hot y)) cs) + length (filter (\<lambda>y. y \<in> set ?T \<and> \<not> hot y) cs)"
    using before by (intro filter_split_length) blast
  moreover have "filter (\<lambda>y. ahead interval c y \<and> \<not> (y \<in> set ?T \<and> \<not> hot y)) cs = filter (\<lambda>y. ahead interval c y \<and> y \<notin> set ?T) cs"
    by (auto simp: ahead_def intro: filter_cong)
  moreover have "cap = length (filter (\<lambda>y. y \<in> set ?T \<and> \<not> (y \<in> set ?T \<and> hot y)) cs) + length (filter (\<lambda>y. y \<in> set ?T \<and> hot y) cs)"
    using filter_split_length [of "\<lambda>y. y \<in> set ?T \<and> hot y" "\<lambda>y. y \<in> set ?T" cs] not_chosen(1) [OF dist c out] by simp
  moreover have "filter (\<lambda>y. y \<in> set ?T \<and> \<not> (y \<in> set ?T \<and> hot y)) cs = filter (\<lambda>y. y \<in> set ?T \<and> \<not> hot y) cs"
    by (rule filter_cong) auto
  moreover have "length (filter (\<lambda>y. y \<in> set ?T \<and> hot y) cs) \<le> length (filter hot cs)"
    using filter_split_length [of "\<lambda>y. y \<in> set ?T \<and> hot y" hot cs] by simp
  ultimately show ?thesis by simp
qed

lemma waiting_kept:
  assumes "c \<in> set cs" and "mc_id c \<notin> set (chosen cap (scheduleMarks cs interval now))"
  shows "c \<in> set (mark_cycle cap interval now cs)"
  using assms by (force simp: mark_cycle_def Let_def)

lemma marked_eventually:
  assumes "distinct (map mc_id cs)" and "c \<in> set cs" and "\<not> hot c" and "0 \<le> interval" and "cycles \<noteq> []"
    and "list_all (\<lambda>now. due_at interval c < now) cycles"
    and "length (filter (ahead interval c) cs) \<le> length cycles * (cap - length (filter hot cs))"
  shows "mc_id c \<in> marked_in cap interval cycles cs"
  using assms
proof (induction cycles arbitrary: cs)
  case (Cons now later)
  show ?case
  proof (rule ccontr)
    assume no: "mc_id c \<notin> marked_in cap interval (now # later) cs"
    then have out: "mc_id c \<notin> set (chosen cap (scheduleMarks cs interval now))" by simp
    have due: "due_at interval c < now" using Cons.prems by simp
    note behind = waiting_behind [OF Cons.prems(1,2,3) due out Cons.prems(4)]
    note kept = waiting_kept [OF Cons.prems(2) out]
    have "c \<in> set (filter (ahead interval c) (mark_cycle cap interval now cs))"
      using kept Cons.prems(3) by (simp add: ahead_def)
    then have "0 < length (filter (ahead interval c) (mark_cycle cap interval now cs))" by (rule length_pos_if_in_set)
    then have "cap - length (filter hot cs) < length (filter (ahead interval c) cs)" using behind by linarith
    then have "later \<noteq> []" using Cons.prems(7) by auto
    moreover have "length (filter (ahead interval c) (mark_cycle cap interval now cs)) \<le>
        length later * (cap - length (filter hot (mark_cycle cap interval now cs)))"
      using behind Cons.prems(7) by (simp add: cycle_hot)
    ultimately have "mc_id c \<in> marked_in cap interval later (mark_cycle cap interval now cs)"
      using Cons.prems kept by (intro Cons.IH) (simp_all add: cycle_ids)
    then show False using no by simp
  qed
qed simp

lemma hot_marked:
  assumes "distinct (map mc_id cs)" and "c \<in> set cs" and "hot c" and "length (filter hot cs) \<le> cap"
  shows "mc_id c \<in> set (chosen cap (scheduleMarks cs interval now))"
proof (rule ccontr)
  assume out: "mc_id c \<notin> set (chosen cap (scheduleMarks cs interval now))"
  let ?T = "take cap (ordered interval now cs)"
  have c: "c \<in> set (ordered interval now cs)" using assms(2) hot_urgency [OF assms(3), of "due_at interval c" now] by (auto simp: ordered_members)
  have "hot y" if "y \<in> set ?T" for y
    using not_chosen(2) [OF assms(1) c out that] hot_first [OF assms(3), of y interval now] by (auto simp: not_le [symmetric])
  moreover have "c \<notin> set ?T" using out unfolding chosen_ordered by auto
  ultimately have "length (filter (\<lambda>y. y \<in> set ?T) cs) < length (filter hot cs)"
    using assms(2,3) filter_split_length [of "\<lambda>y. y \<in> set ?T" hot cs] length_pos_if_in_set [of c "filter (\<lambda>y. hot y \<and> y \<notin> set ?T) cs"] by simp
  then show False using not_chosen(1) [OF assms(1) c out] assms(4) by simp
qed

section \<open>Properties\<close>

text \<open>C36: No starvation while the hot positions leave room. In a book of distinct positions that keeps its members and
  their tiers over the run: when the hot ones, blocked or near a trigger, are no more than the cap, each
  of them is marked in every cycle; and any other position that stays due is marked within as many cycles as the rest of the cap
  needs to go through the rest of the book once. (When the hot ones fill the cap nothing else is ever marked,
  \<open>blocked_starve_the_rest\<close>.)\<close>

theorem no_position_starves:
  assumes "distinct (map mc_id cs)" and "c \<in> set cs" and "0 \<le> interval"
  shows "(hot c \<and> length (filter hot cs) \<le> cap \<longrightarrow> (\<forall>now. mc_id c \<in> set (chosen cap (scheduleMarks cs interval now)))) \<and>
    (\<not> hot c \<and> cycles \<noteq> [] \<and> list_all (\<lambda>now. due_at interval c < now) cycles \<and>
     length (filter (\<lambda>y. \<not> hot y) cs) \<le> length cycles * (cap - length (filter hot cs)) \<longrightarrow>
     mc_id c \<in> marked_in cap interval cycles cs)"
proof (intro conjI impI allI)
  show "mc_id c \<in> set (chosen cap (scheduleMarks cs interval now))" if "hot c \<and> length (filter hot cs) \<le> cap" for now
    using hot_marked [OF assms(1,2)] that by blast
  assume r: "\<not> hot c \<and> cycles \<noteq> [] \<and> list_all (\<lambda>now. due_at interval c < now) cycles \<and>
     length (filter (\<lambda>y. \<not> hot y) cs) \<le> length cycles * (cap - length (filter hot cs))"
  have "length (filter (ahead interval c) cs) \<le> length (filter (\<lambda>y. \<not> hot y) cs)"
    using filter_split_length [of "ahead interval c" "\<lambda>y. \<not> hot y" cs] by (simp add: ahead_def)
  then show "mc_id c \<in> marked_in cap interval cycles cs"
    using r by (intro marked_eventually [OF assms(1,2) _ assms(3)]) auto
qed

definition demo_candidate :: "string \<Rightarrow> int \<Rightarrow> int option \<Rightarrow> bool \<Rightarrow> MarkCandidate" where
  "demo_candidate i start lastMark is_blocked =
     \<lparr>mc_id = i, mc_opened = start, mc_lastMark = lastMark, mc_blocked = is_blocked, mc_nearTrigger = False\<rparr>"

text \<open>One blocked position, two that are due, and two marks a cycle.\<close>

theorem no_position_starves_witness:
  "let cs = [demo_candidate ''o'' 0 None False, demo_candidate ''b'' 5 (Some 40) True, demo_candidate ''n'' 30 None False] in
    ''n'' \<in> marked_in 2 10 [50, 60] cs \<and> ''b'' \<in> set (chosen 2 (scheduleMarks cs 10 41))"
proof -
  let ?cs = "[demo_candidate ''o'' 0 None False, demo_candidate ''b'' 5 (Some 40) True, demo_candidate ''n'' 30 None False]"
  have d: "distinct (map mc_id ?cs)" by (simp add: demo_candidate_def)
  have "mc_id (demo_candidate ''n'' 30 None False) \<in> marked_in 2 10 [50, 60] ?cs"
    by (rule no_position_starves [OF d, THEN conjunct2, THEN mp]) (simp_all add: hot_def demo_candidate_def due_at_def)
  moreover have "mc_id (demo_candidate ''b'' 5 (Some 40) True) \<in> set (chosen 2 (scheduleMarks ?cs 10 41))"
    by (rule no_position_starves [OF d, THEN conjunct1, THEN mp, THEN spec]) (simp_all add: hot_def demo_candidate_def)
  ultimately show ?thesis unfolding Let_def by (simp add: demo_candidate_def)
qed

text \<open>Blocked positions always win, even right after their own mark: while as many positions are
  blocked as the cap allows, no other position is ever marked, however overdue it is.\<close>

theorem blocked_starve_the_rest:
  assumes "cap \<le> length (filter mc_blocked cs)" and "c \<in> set cs" and "\<not> mc_blocked c" and "distinct (map mc_id cs)"
  shows "mc_id c \<notin> set (chosen cap (scheduleMarks cs interval now))"
proof -
  let ?O = "ordered interval now cs"
  have key: "key interval now b < key interval now d" if "mc_blocked b" "\<not> mc_blocked d" for b d
    using that by (auto simp: key_def urgencyOf_def Let_def)
  have count: "length (filter mc_blocked ?O) = length (filter mc_blocked cs)"
  proof -
    have "filter mc_blocked ?O = filter mc_blocked (sort_key (key interval now) cs)"
      by (auto simp: ordered_def urgencyOf_def intro: filter_cong)
    then show ?thesis by (metis length_map mset_filter mset_sort size_mset)
  qed
  show ?thesis
  proof
    assume "mc_id c \<in> set (chosen cap (scheduleMarks cs interval now))"
    then obtain d where d: "d \<in> set (take cap ?O)" "mc_id d = mc_id c" unfolding chosen_ordered by auto
    then have "d \<in> set cs" using in_set_takeD [OF d(1)] by (simp add: ordered_members)
    then have "d = c" using assms(2,4) d(2) by (auto simp: distinct_map dest: inj_onD)
    then obtain j where j: "j < cap" "j < length ?O" "?O ! j = c" using d(1) by (auto simp: in_set_conv_nth)
    have "sorted (map (key interval now) ?O)" by (rule ordered_sorted)
    then have "\<not> mc_blocked y" if "y \<in> set (drop (Suc j) ?O)" for y
      using that key [of y c] assms(3) j(2,3) by (auto simp: in_set_conv_nth sorted_iff_nth_mono not_le [symmetric])
    then have "filter mc_blocked (drop (Suc j) ?O) = []" by (simp add: filter_empty_conv)
    moreover have "?O = take j ?O @ c # drop (Suc j) ?O" using id_take_nth_drop [OF j(2)] j(3) by simp
    then have "filter mc_blocked ?O = filter mc_blocked (take j ?O) @ filter mc_blocked (c # drop (Suc j) ?O)"
      by (metis filter_append)
    ultimately have "length (filter mc_blocked ?O) = length (filter mc_blocked (take j ?O))" using assms(3) by simp
    also have "\<dots> \<le> j" using length_filter_le [of mc_blocked "take j ?O"] by simp
    finally show False using count assms(1) j(1) by simp
  qed
qed

theorem blocked_starve_the_rest_witness:
  "mc_id (demo_candidate ''n'' 0 None False) \<notin> set (chosen 1 (scheduleMarks
    [demo_candidate ''n'' 0 None False, demo_candidate ''b'' 0 (Some 99) True] 10 100))"
  by (rule blocked_starve_the_rest) (simp_all add: demo_candidate_def)

text \<open>The near-trigger tier is empty: for a position with a positive cost, in every state that cycles
  can bring it to and under every valid configuration, the engine's near-trigger test is false,
  because it compares the peak, which never falls below the cost, with a level below the cost. So
  positions near their stop get no priority.\<close>

theorem near_trigger_never:
  assumes "shadow_reachable r" and "0 < sh_cost r" and "exit_config_ok config"
  shows "\<not> nearTrigger (sh_peak r) (sh_cost r) config \<and>
    (if sh_state r = EXIT_BLOCKED then True
     else urgencyOf (candidate_of config (i, r)) d now \<in> {OVERDUE, NOT_DUE})"
  using near_trigger_false [OF assms] by (simp add: candidate_of_def urgencyOf_def Let_def)

theorem near_trigger_never_witness:
  "\<not> nearTrigger (sh_peak demo_stopped) (sh_cost demo_stopped) demo_exits \<and>
    (if sh_state demo_stopped = EXIT_BLOCKED then True
     else urgencyOf (candidate_of demo_exits (''p'', demo_stopped)) 0 9 \<in> {OVERDUE, NOT_DUE})"
  by (rule near_trigger_never [OF demo_stopped_reachable])
    (simp_all add: demo_stopped_def openShadowPosition_def exit_config_ok_def demo_exits_def)

end
