(* ===== verification/Portfolio.thy ===== *)
theory Portfolio
  imports ShadowExit Amounts
begin

text \<open>
  Position sizing (\<open>packages/strategy/src/portfolio.ts\<close>) over the risk configuration and the
  comparisons of two risk configurations (\<open>packages/domain/src/config.ts\<close>). Percentages and scores
  are doubles: rationals with \<open>fl\<close> after every operation. A decision is \<open>Inr\<close> the lamports it
  allows or \<open>Inl\<close> the refusal; detail strings are left out. The configuration record keeps the
  fields the modelled code reads.
\<close>

section \<open>Configuration\<close>

record RiskConfig =
  riskBudgetPctPerTrade :: rat
  maxNotionalPctPerPosition :: rat
  maxSimultaneousPositions :: int
  maxAggregatePlannedLossPct :: rat
  dailyLossHaltPct :: rat
  weeklyLossHaltPct :: rat
  drawdownHaltPct :: rat
  minSolReserveLamports :: int
  maxEntryLamports :: int
  maxTotalExposureLamports :: int
  dailyLossCapLamports :: int
  rc_maxPriorityFeeLamports :: int
  maxSlippageBps :: int

record AppConfig =
  ac_strategyVersion :: string
  risk :: RiskConfig
  exits :: ExitConfig
  paperStartLamports :: int
  maxQuoteAgeMs :: int
  assumedPriorityFeeLamports :: int
  assumedAtaRentLamports :: int
  assumedSignatureFeeLamports :: int
  assumedBroadcasterTipLamports :: int
  assumedRentRecoveryRate :: rat
  maxFeeFractionBps :: int
  minOpportunityScore :: rat
  catastrophicLossFloorPct :: rat
  requireLocalSimulation :: bool
  primaryRouteFamily :: string
  maxRoundTripLossBps :: int

section \<open>Sizing\<close>

record PortfolioState =
  ps_navLamports :: int
  ps_freeLamports :: int
  ps_openPositions :: int
  ps_totalExposureLamports :: int
  ps_realizedTodayLamports :: int
  ps_realizedWeekLamports :: int
  ps_plannedLossLamports :: int
  ps_peakNavLamports :: int
  ps_observedSevereLossBps :: "int option"

datatype SizingRefusal = position_slots_full | exposure_cap | reserve_floor | daily_loss_cap
  | drawdown_halt | daily_loss_halt | weekly_loss_halt | aggregate_planned_loss
  | size_below_viable | score_below_threshold

definition roundTripCostLamports :: "AppConfig \<Rightarrow> int" where
  "roundTripCostLamports config =
    (let perTx = assumedSignatureFeeLamports config + assumedPriorityFeeLamports config;
         rentAtRisk = bdiv (assumedAtaRentLamports config *
           js_round (fl (fl (1 - assumedRentRecoveryRate config) * 10000))) 10000
     in perTx * 2 + rentAtRisk)"

definition viableFloorLamports :: "AppConfig \<Rightarrow> int" where
  "viableFloorLamports config = bdiv (roundTripCostLamports config * 10000) (maxFeeFractionBps config)"

definition plannedLossFractionBps :: "AppConfig \<Rightarrow> int option \<Rightarrow> int" where
  "plannedLossFractionBps config observedSevereLossBps =
    (let nominal = stopLossBps (exits config);
         floor = js_round (fl (catastrophicLossFloorPct config * 100));
         observed = nullish observedSevereLossBps 0
     in max nominal (max observed floor))"

text \<open>\<open>(amount * BigInt(Math.round(pct * 100))) / 10_000n\<close>, which \<open>sizePosition\<close> writes out for the NAV, its
  peak, the budget and the notional.\<close>

definition pct_of :: "int \<Rightarrow> rat \<Rightarrow> int" where
  "pct_of amount pct = bdiv (amount * js_round (fl (pct * 100))) 10000"

text \<open>The checks made before a size is computed, in their order.\<close>

definition sizing_halt :: "PortfolioState \<Rightarrow> AppConfig \<Rightarrow> rat \<Rightarrow> SizingRefusal option" where
  "sizing_halt state config opportunityScore =
    (let r = risk config; nav = ps_navLamports state; peak = ps_peakNavLamports state in
     if ps_openPositions state \<ge> maxSimultaneousPositions r then Some position_slots_full
     else if - ps_realizedTodayLamports state \<ge> dailyLossCapLamports r \<and> dailyLossCapLamports r > 0
     then Some daily_loss_cap
     else if dailyLossHaltPct r > 0 \<and> - ps_realizedTodayLamports state \<ge> pct_of nav (dailyLossHaltPct r)
     then Some daily_loss_halt
     else if weeklyLossHaltPct r > 0 \<and> - ps_realizedWeekLamports state \<ge> pct_of nav (weeklyLossHaltPct r)
     then Some weekly_loss_halt
     else if drawdownHaltPct r > 0 \<and> peak > 0 \<and> peak - nav \<ge> pct_of peak (drawdownHaltPct r)
     then Some drawdown_halt
     else if opportunityScore < minOpportunityScore config then Some score_below_threshold
     else None)"

text \<open>The size the risk budget gives, scaled by the score.\<close>

definition scaled_size :: "PortfolioState \<Rightarrow> AppConfig \<Rightarrow> rat \<Rightarrow> int" where
  "scaled_size state config opportunityScore =
    (let budget = pct_of (ps_navLamports state) (riskBudgetPctPerTrade (risk config));
         plannedLossBps = plannedLossFractionBps config (ps_observedSevereLossBps state);
         riskSized = (if plannedLossBps = 0 then budget else bdiv (budget * 10000) plannedLossBps)
     in bdiv (riskSized * js_round (fl (max 0 (min 1 opportunityScore) * 1000))) 1000)"

definition sizePosition :: "PortfolioState \<Rightarrow> AppConfig \<Rightarrow> rat \<Rightarrow> SizingRefusal + int" where
  "sizePosition state config opportunityScore =
    (case sizing_halt state config opportunityScore of Some refusal \<Rightarrow> Inl refusal
     | None \<Rightarrow>
       let r = risk config;
           plannedLossBps = plannedLossFractionBps config (ps_observedSevereLossBps state);
           notionalCap = pct_of (ps_navLamports state) (maxNotionalPctPerPosition r);
           size = min (min (scaled_size state config opportunityScore) notionalCap) (maxEntryLamports r);
           exposureHeadroom = maxTotalExposureLamports r - ps_totalExposureLamports state
       in if exposureHeadroom \<le> 0 then Inl exposure_cap
       else let size = min size exposureHeadroom;
                spendable = maxBigint 0 (ps_freeLamports state - minSolReserveLamports r)
       in if spendable \<le> 0 then Inl reserve_floor
       else let size = min size spendable
       in if size < viableFloorLamports config then Inl size_below_viable
       else if maxAggregatePlannedLossPct r > 0 \<and>
           ps_plannedLossLamports state + bdiv (size * plannedLossBps) 10000
             \<ge> pct_of (ps_navLamports state) (maxAggregatePlannedLossPct r)
       then Inl aggregate_planned_loss
       else Inr size)"

section \<open>Comparing risk configurations\<close>

datatype RiskKey = RiskBudgetPctPerTrade | MaxNotionalPctPerPosition | MaxSimultaneousPositions
  | MaxAggregatePlannedLossPct | DailyLossHaltPct | WeeklyLossHaltPct | DrawdownHaltPct
  | MinSolReserveLamports | MaxEntryLamports | MaxTotalExposureLamports | DailyLossCapLamports
  | MaxPriorityFeeLamports | MaxSlippageBps

text \<open>The values of TypeScript's \<open>number | bigint\<close>.\<close>

datatype js_numeric = Number rat | Bigint int

fun risk_field :: "RiskConfig \<Rightarrow> RiskKey \<Rightarrow> js_numeric" where
  "risk_field r RiskBudgetPctPerTrade = Number (riskBudgetPctPerTrade r)"
| "risk_field r MaxNotionalPctPerPosition = Number (maxNotionalPctPerPosition r)"
| "risk_field r MaxSimultaneousPositions = Number (of_int (maxSimultaneousPositions r))"
| "risk_field r MaxAggregatePlannedLossPct = Number (maxAggregatePlannedLossPct r)"
| "risk_field r DailyLossHaltPct = Number (dailyLossHaltPct r)"
| "risk_field r WeeklyLossHaltPct = Number (weeklyLossHaltPct r)"
| "risk_field r DrawdownHaltPct = Number (drawdownHaltPct r)"
| "risk_field r MinSolReserveLamports = Bigint (minSolReserveLamports r)"
| "risk_field r MaxEntryLamports = Bigint (maxEntryLamports r)"
| "risk_field r MaxTotalExposureLamports = Bigint (maxTotalExposureLamports r)"
| "risk_field r DailyLossCapLamports = Bigint (dailyLossCapLamports r)"
| "risk_field r MaxPriorityFeeLamports = Bigint (rc_maxPriorityFeeLamports r)"
| "risk_field r MaxSlippageBps = Number (of_int (maxSlippageBps r))"

definition SAFER_WHEN_LOWER :: "RiskKey list" where
  "SAFER_WHEN_LOWER = [RiskBudgetPctPerTrade, MaxNotionalPctPerPosition, MaxSimultaneousPositions,
     MaxAggregatePlannedLossPct, DailyLossHaltPct, WeeklyLossHaltPct, DrawdownHaltPct, MaxEntryLamports,
     MaxTotalExposureLamports, DailyLossCapLamports, MaxPriorityFeeLamports, MaxSlippageBps]"

definition SAFER_WHEN_HIGHER :: "RiskKey list" where
  "SAFER_WHEN_HIGHER = [MinSolReserveLamports]"

text \<open>\<open>scaled\<close>: comparable integers.\<close>

fun comparable :: "js_numeric \<Rightarrow> int" where
  "comparable (Bigint v) = v"
| "comparable (Number v) = js_round (fl (v * 1000000))"

text \<open>The offending keys, each of which the thrown \<open>ConfigError\<close> names; none when it returns.\<close>

definition assertCanaryNoLooserThanLive :: "RiskConfig \<Rightarrow> RiskConfig \<Rightarrow> RiskKey list + unit" where
  "assertCanaryNoLooserThanLive canary live =
    (let offences =
       filter (\<lambda>k. comparable (risk_field canary k) > comparable (risk_field live k)) SAFER_WHEN_LOWER @
       filter (\<lambda>k. comparable (risk_field canary k) < comparable (risk_field live k)) SAFER_WHEN_HIGHER
     in if offences \<noteq> [] then Inl offences else Inr ())"

text \<open>The override is partial: an undefined field is skipped. The first offence throws.\<close>

definition assertNotLoosened :: "RiskConfig \<Rightarrow> (RiskKey \<Rightarrow> js_numeric option) \<Rightarrow> RiskKey + unit" where
  "assertNotLoosened base override =
    (case find (\<lambda>k. case override k of None \<Rightarrow> False | Some v \<Rightarrow> comparable v > comparable (risk_field base k))
       SAFER_WHEN_LOWER of
       Some k \<Rightarrow> Inl k
     | None \<Rightarrow> (case find (\<lambda>k. case override k of None \<Rightarrow> False | Some v \<Rightarrow> comparable v < comparable (risk_field base k))
         SAFER_WHEN_HIGHER of
         Some k \<Rightarrow> Inl k
       | None \<Rightarrow> Inr ()))"

section \<open>Lemmas\<close>

lemma bdiv_mono:
  assumes "a \<le> b" and "0 < c"
  shows "bdiv a c \<le> bdiv b c"
proof (cases "0 \<le> a")
  case True
  then show ?thesis using assms by (simp add: bdiv_nonneg zdiv_mono1)
next
  case False
  have neg: "bdiv x c = - (- x div c)" if "x \<le> 0" for x using bdiv_neg [of "- x" c] that assms(2) by simp
  show ?thesis
  proof (cases "0 \<le> b")
    case True
    have "0 \<le> - a div c" using False assms(2) by (simp add: pos_imp_zdiv_nonneg_iff)
    moreover have "0 \<le> b div c" using True assms(2) by (simp add: pos_imp_zdiv_nonneg_iff)
    ultimately show ?thesis using neg [of a] False True assms(2) by (simp add: bdiv_nonneg)
  next
    case False
    then have "- b div c \<le> - a div c" using assms by (intro zdiv_mono1) simp_all
    then show ?thesis using neg [of a] neg [of b] False assms(1) by simp
  qed
qed

text \<open>A positive truncated quotient gives back at most the dividend.\<close>

lemma bdiv_pos_mult_le:
  assumes "0 < bdiv a c" and "0 < c"
  shows "0 < a" and "bdiv a c * c \<le> a"
proof -
  show "0 < a"
  proof (rule ccontr)
    assume "\<not> 0 < a"
    then have "bdiv a c \<le> bdiv 0 c" using assms(2) by (intro bdiv_mono) simp_all
    then show False using assms(1) by (simp add: bdiv_def)
  qed
  then have "bdiv a c = a div c" using assms(2) by (simp add: bdiv_nonneg)
  moreover have "a div c * c \<le> a" using div_mult_mod_eq [of a c] pos_mod_sign [OF assms(2), of a] by linarith
  ultimately show "bdiv a c * c \<le> a" by simp
qed

lemma js_round_mono: "x \<le> y \<Longrightarrow> js_round x \<le> js_round y"
  unfolding js_round_def by (intro floor_mono) simp

lemma js_round_of_int [simp]: "js_round (of_int n) = n"
  by (simp add: js_round_def floor_unique)

lemma pct_of_mono_pct:
  assumes "0 \<le> amount" and "p \<le> q"
  shows "pct_of amount p \<le> pct_of amount q"
proof -
  have "js_round (fl (p * 100)) \<le> js_round (fl (q * 100))"
    using assms(2) by (intro js_round_mono fl_mono) simp
  then show ?thesis using assms(1) unfolding pct_of_def by (intro bdiv_mono mult_left_mono) simp_all
qed

lemma score_weight_bounds:
  "0 \<le> js_round (fl (max 0 (min 1 s) * 1000))" "js_round (fl (max 0 (min 1 s) * 1000)) \<le> 1000"
proof -
  have "js_round 0 \<le> js_round (fl (max 0 (min 1 s) * 1000))" by (intro js_round_mono fl_nonneg) simp
  then show "0 \<le> js_round (fl (max 0 (min 1 s) * 1000))" using js_round_of_int [of 0] by simp
  have "fl (max 0 (min 1 s) * 1000) \<le> fl (of_int 1000)" by (intro fl_mono) simp
  also have "\<dots> = of_int 1000" by (rule fl_int) simp
  finally show "js_round (fl (max 0 (min 1 s) * 1000)) \<le> 1000"
    using js_round_mono [of _ "of_int 1000"] by (metis js_round_of_int)
qed

lemma risk_update_simps [simp]:
  "viableFloorLamports (config\<lparr>risk := r\<rparr>) = viableFloorLamports config"
  "plannedLossFractionBps (config\<lparr>risk := r\<rparr>) = plannedLossFractionBps config"
  by (simp_all add: viableFloorLamports_def roundTripCostLamports_def plannedLossFractionBps_def fun_eq_iff)

text \<open>Every bound on a size, in one place: the largest size the caps leave room for.\<close>

definition size_limit :: "PortfolioState \<Rightarrow> AppConfig \<Rightarrow> rat \<Rightarrow> int" where
  "size_limit state config score =
    min (min (min (min (scaled_size state config score)
      (pct_of (ps_navLamports state) (maxNotionalPctPerPosition (risk config))))
      (maxEntryLamports (risk config)))
      (maxTotalExposureLamports (risk config) - ps_totalExposureLamports state))
      (ps_freeLamports state - minSolReserveLamports (risk config))"

definition planned_over :: "PortfolioState \<Rightarrow> AppConfig \<Rightarrow> int \<Rightarrow> bool" where
  "planned_over state config s \<longleftrightarrow> maxAggregatePlannedLossPct (risk config) > 0 \<and>
     ps_plannedLossLamports state + bdiv (s * plannedLossFractionBps config (ps_observedSevereLossBps state)) 10000
       \<ge> pct_of (ps_navLamports state) (maxAggregatePlannedLossPct (risk config))"

lemma le_size_limit: "s \<le> size_limit state config score \<longleftrightarrow>
    s \<le> scaled_size state config score \<and> s \<le> pct_of (ps_navLamports state) (maxNotionalPctPerPosition (risk config)) \<and>
    s \<le> maxEntryLamports (risk config) \<and> s \<le> maxTotalExposureLamports (risk config) - ps_totalExposureLamports state \<and>
    s \<le> ps_freeLamports state - minSolReserveLamports (risk config)"
  by (simp add: size_limit_def)

lemma sizePosition_cases: "sizePosition state config score =
    (case sizing_halt state config score of Some refusal \<Rightarrow> Inl refusal
     | None \<Rightarrow>
       if maxTotalExposureLamports (risk config) - ps_totalExposureLamports state \<le> 0 then Inl exposure_cap
       else if ps_freeLamports state - minSolReserveLamports (risk config) \<le> 0 then Inl reserve_floor
       else if size_limit state config score < viableFloorLamports config then Inl size_below_viable
       else if planned_over state config (size_limit state config score) then Inl aggregate_planned_loss
       else Inr (size_limit state config score))"
proof (cases "sizing_halt state config score")
  case None
  have spendable: "maxBigint 0 x \<le> 0 \<longleftrightarrow> x \<le> 0" for x by (simp add: maxBigint_def)
  have positive: "\<not> x \<le> 0 \<Longrightarrow> maxBigint 0 x = x" for x by (simp add: maxBigint_def)
  show ?thesis
  proof (cases "ps_freeLamports state - minSolReserveLamports (risk config) \<le> 0")
    case True
    then show ?thesis unfolding sizePosition_def Let_def None spendable option.case by simp
  next
    case False
    then show ?thesis
      unfolding sizePosition_def size_limit_def planned_over_def Let_def None option.case positive [OF False] by simp
  qed
qed (simp add: sizePosition_def)

lemma size_limit_bounds:
  "size_limit state config score \<le> scaled_size state config score"
  "size_limit state config score \<le> pct_of (ps_navLamports state) (maxNotionalPctPerPosition (risk config))"
  "size_limit state config score \<le> maxEntryLamports (risk config)"
  "size_limit state config score \<le> maxTotalExposureLamports (risk config) - ps_totalExposureLamports state"
  "size_limit state config score \<le> ps_freeLamports state - minSolReserveLamports (risk config)"
  by (simp_all add: size_limit_def)

lemma sizePosition_Inr: "sizePosition state config score = Inr s \<longleftrightarrow>
    sizing_halt state config score = None \<and> ps_totalExposureLamports state < maxTotalExposureLamports (risk config) \<and>
    minSolReserveLamports (risk config) < ps_freeLamports state \<and>
    s = size_limit state config score \<and> viableFloorLamports config \<le> s \<and> \<not> planned_over state config s"
  unfolding sizePosition_cases by (auto split: option.split)

lemma sizing_halt_None: "sizing_halt state config score = None \<longleftrightarrow>
    ps_openPositions state < maxSimultaneousPositions (risk config) \<and>
    (0 < dailyLossCapLamports (risk config) \<longrightarrow> - ps_realizedTodayLamports state < dailyLossCapLamports (risk config)) \<and>
    (0 < dailyLossHaltPct (risk config) \<longrightarrow>
       - ps_realizedTodayLamports state < pct_of (ps_navLamports state) (dailyLossHaltPct (risk config))) \<and>
    (0 < weeklyLossHaltPct (risk config) \<longrightarrow>
       - ps_realizedWeekLamports state < pct_of (ps_navLamports state) (weeklyLossHaltPct (risk config))) \<and>
    (0 < drawdownHaltPct (risk config) \<and> 0 < ps_peakNavLamports state \<longrightarrow>
       ps_peakNavLamports state - ps_navLamports state < pct_of (ps_peakNavLamports state) (drawdownHaltPct (risk config))) \<and>
    minOpportunityScore config \<le> score"
  by (auto simp: sizing_halt_def Let_def not_le not_less)

text \<open>The planned loss of a size that the risk budget gave stays within the budget.\<close>

lemma scaled_size_budget:
  assumes "0 < s" and "s \<le> scaled_size state config score"
    and bps: "0 < plannedLossFractionBps config (ps_observedSevereLossBps state)"
  shows "bdiv (s * plannedLossFractionBps config (ps_observedSevereLossBps state)) 10000
    \<le> pct_of (ps_navLamports state) (riskBudgetPctPerTrade (risk config))"
proof -
  let ?bps = "plannedLossFractionBps config (ps_observedSevereLossBps state)"
  let ?budget = "pct_of (ps_navLamports state) (riskBudgetPctPerTrade (risk config))"
  let ?k = "js_round (fl (max 0 (min 1 score) * 1000))"
  let ?r = "bdiv (?budget * 10000) ?bps"
  have scaled: "scaled_size state config score = bdiv (?r * ?k) 1000"
    using bps by (simp add: scaled_size_def Let_def)
  have pos: "0 < bdiv (?r * ?k) 1000" using assms(1,2) unfolding scaled by simp
  have prod: "0 < ?r * ?k" and le: "bdiv (?r * ?k) 1000 * 1000 \<le> ?r * ?k"
    using bdiv_pos_mult_le [OF pos] by simp_all
  have r: "0 < ?r" using prod score_weight_bounds(1) [of score] by (simp add: zero_less_mult_iff)
  have "?r * ?k \<le> ?r * 1000" using r score_weight_bounds(2) [of score] by simp
  then have "s \<le> ?r" using le assms(2) unfolding scaled by linarith
  then have "s * ?bps \<le> ?r * ?bps" using bps by simp
  also have "\<dots> \<le> ?budget * 10000" using bdiv_pos_mult_le(2) [OF r bps] .
  finally have "bdiv (s * ?bps) 10000 \<le> bdiv (?budget * 10000) 10000" by (intro bdiv_mono) simp_all
  also have "\<dots> = ?budget" by (cases "0 \<le> ?budget") (simp_all add: bdiv_def sgn_if abs_if)
  finally show ?thesis .
qed

lemma plannedLoss_ge_stop: "stopLossBps (exits config) \<le> plannedLossFractionBps config severe"
  by (simp add: plannedLossFractionBps_def Let_def)

section \<open>Properties\<close>

lemma allowed_size_caps:
  assumes "sizePosition state config score = Inr s" and "0 < viableFloorLamports config"
    and "exit_config_ok (exits config)"
  shows "viableFloorLamports config \<le> s" and "ps_openPositions state < maxSimultaneousPositions (risk config)"
    and "s \<le> maxEntryLamports (risk config)"
    and "ps_totalExposureLamports state + s \<le> maxTotalExposureLamports (risk config)"
    and "minSolReserveLamports (risk config) \<le> ps_freeLamports state - s"
    and "s \<le> pct_of (ps_navLamports state) (maxNotionalPctPerPosition (risk config))"
    and "bdiv (s * plannedLossFractionBps config (ps_observedSevereLossBps state)) 10000
      \<le> pct_of (ps_navLamports state) (riskBudgetPctPerTrade (risk config))"
    and "0 < maxAggregatePlannedLossPct (risk config) \<Longrightarrow>
      ps_plannedLossLamports state + bdiv (s * plannedLossFractionBps config (ps_observedSevereLossBps state)) 10000
        < pct_of (ps_navLamports state) (maxAggregatePlannedLossPct (risk config))"
    and "sizing_halt state config score = None"
    and "s \<in> {scaled_size state config score, pct_of (ps_navLamports state) (maxNotionalPctPerPosition (risk config)),
      maxEntryLamports (risk config), maxTotalExposureLamports (risk config) - ps_totalExposureLamports state,
      ps_freeLamports state - minSolReserveLamports (risk config)}"
proof -
  note s = assms(1) [unfolded sizePosition_Inr]
  have bps: "0 < plannedLossFractionBps config (ps_observedSevereLossBps state)"
    using assms(3) plannedLoss_ge_stop [of config "ps_observedSevereLossBps state"] by (simp add: exit_config_ok_def)
  note b = size_limit_bounds [of state config score]
  show "viableFloorLamports config \<le> s" "sizing_halt state config score = None" using s by simp_all
  show "s \<in> {scaled_size state config score, pct_of (ps_navLamports state) (maxNotionalPctPerPosition (risk config)),
      maxEntryLamports (risk config), maxTotalExposureLamports (risk config) - ps_totalExposureLamports state,
      ps_freeLamports state - minSolReserveLamports (risk config)}"
    using s by (simp add: size_limit_def min_def)
  show "ps_openPositions state < maxSimultaneousPositions (risk config)"
    using s by (simp add: sizing_halt_None)
  show "s \<le> maxEntryLamports (risk config)"
    and "ps_totalExposureLamports state + s \<le> maxTotalExposureLamports (risk config)"
    and "minSolReserveLamports (risk config) \<le> ps_freeLamports state - s"
    and "s \<le> pct_of (ps_navLamports state) (maxNotionalPctPerPosition (risk config))"
    using s b by linarith+
  show "bdiv (s * plannedLossFractionBps config (ps_observedSevereLossBps state)) 10000
      \<le> pct_of (ps_navLamports state) (riskBudgetPctPerTrade (risk config))"
    using s assms(2) b(1) bps by (intro scaled_size_budget) simp_all
  show "0 < maxAggregatePlannedLossPct (risk config) \<Longrightarrow>
      ps_plannedLossLamports state + bdiv (s * plannedLossFractionBps config (ps_observedSevereLossBps state)) 10000
        < pct_of (ps_navLamports state) (maxAggregatePlannedLossPct (risk config))"
  proof -
    assume "0 < maxAggregatePlannedLossPct (risk config)"
    moreover have "\<not> planned_over state config s" using s by blast
    ultimately show ?thesis by (simp add: planned_over_def)
  qed
qed

text \<open>C16: 
  Every cap holds at once. A size that is allowed is at least the viability floor, fits a free slot, the
  exposure headroom, the notional and entry caps, and leaves the reserve in the free balance; the loss it plans
  for is within the per-trade budget and, added to the book's, strictly below the aggregate cap; no enabled
  loss halt is met. It is also as large as the caps
  let it be: it equals one of them.
\<close>

theorem allowed_size_respects_caps:
  assumes "sizePosition state config score = Inr s" and "0 < viableFloorLamports config"
    and "exit_config_ok (exits config)"
  shows "viableFloorLamports config \<le> s \<and> ps_openPositions state < maxSimultaneousPositions (risk config) \<and>
    s \<le> maxEntryLamports (risk config) \<and>
    ps_totalExposureLamports state + s \<le> maxTotalExposureLamports (risk config) \<and>
    minSolReserveLamports (risk config) \<le> ps_freeLamports state - s \<and>
    s \<le> pct_of (ps_navLamports state) (maxNotionalPctPerPosition (risk config)) \<and>
    bdiv (s * plannedLossFractionBps config (ps_observedSevereLossBps state)) 10000
      \<le> pct_of (ps_navLamports state) (riskBudgetPctPerTrade (risk config)) \<and>
    (0 < maxAggregatePlannedLossPct (risk config) \<longrightarrow>
      ps_plannedLossLamports state + bdiv (s * plannedLossFractionBps config (ps_observedSevereLossBps state)) 10000
        < pct_of (ps_navLamports state) (maxAggregatePlannedLossPct (risk config))) \<and>
    sizing_halt state config score = None \<and>
    s \<in> {scaled_size state config score, pct_of (ps_navLamports state) (maxNotionalPctPerPosition (risk config)),
      maxEntryLamports (risk config), maxTotalExposureLamports (risk config) - ps_totalExposureLamports state,
      ps_freeLamports state - minSolReserveLamports (risk config)}"
  using allowed_size_caps [OF assms] by blast

text \<open>A percentage with at most six decimals is determined by the integer \<open>scaled\<close> makes of it.\<close>

definition six_decimals :: "rat \<Rightarrow> bool" where
  "six_decimals p \<longleftrightarrow> p = fl (of_int (comparable (Number p)) / 1000000)"

definition percentages :: "RiskConfig \<Rightarrow> rat list" where
  "percentages r = [riskBudgetPctPerTrade r, maxNotionalPctPerPosition r, maxAggregatePlannedLossPct r,
     dailyLossHaltPct r, weeklyLossHaltPct r, drawdownHaltPct r]"

definition halts_enabled :: "RiskConfig \<Rightarrow> bool" where
  "halts_enabled r \<longleftrightarrow> 0 < dailyLossCapLamports r \<and> 0 < dailyLossHaltPct r \<and> 0 < weeklyLossHaltPct r \<and>
     0 < drawdownHaltPct r \<and> 0 < maxAggregatePlannedLossPct r"

lemma six_decimals_mono:
  assumes "six_decimals p" and "six_decimals q" and "comparable (Number p) \<le> comparable (Number q)"
  shows "p \<le> q"
proof -
  have "(of_int (comparable (Number p)) / 1000000 :: rat) \<le> of_int (comparable (Number q)) / 1000000"
    using assms(3) by (intro divide_right_mono) (simp_all only: of_int_le_iff)
  then have "fl (of_int (comparable (Number p)) / 1000000) \<le> fl (of_int (comparable (Number q)) / 1000000)"
    by (rule fl_mono)
  then show ?thesis using assms(1,2) unfolding six_decimals_def by metis
qed

lemma comparable_of_int_mono:
  assumes "\<bar>m\<bar> < 2 ^ 30" and "\<bar>n\<bar> < 2 ^ 30" and "comparable (Number (of_int m)) \<le> comparable (Number (of_int n))"
  shows "m \<le> n"
proof -
  have "comparable (Number (of_int k)) = k * 1000000" if "\<bar>k\<bar> < 2 ^ 30" for k
  proof -
    have "\<bar>k * 1000000\<bar> < 2 ^ 53" using that by (simp add: abs_less_iff)
    then have "fl (of_int (k * 1000000)) = of_int (k * 1000000)" by (rule fl_int)
    moreover have "(of_int k * 1000000 :: rat) = of_int (k * 1000000)" by simp
    ultimately show ?thesis by (metis comparable.simps(2) js_round_of_int)
  qed
  then show ?thesis using assms by simp
qed

lemma no_looser:
  assumes "assertCanaryNoLooserThanLive canary live = Inr ()"
  shows "k \<in> set SAFER_WHEN_LOWER \<Longrightarrow> comparable (risk_field canary k) \<le> comparable (risk_field live k)"
    and "k \<in> set SAFER_WHEN_HIGHER \<Longrightarrow> comparable (risk_field live k) \<le> comparable (risk_field canary k)"
  using assms by (force simp: assertCanaryNoLooserThanLive_def filter_empty_conv not_less split: if_splits)+

lemma no_looser_fields:
  assumes "assertCanaryNoLooserThanLive canary live = Inr ()"
    and "list_all six_decimals (percentages canary @ percentages live)"
    and "\<bar>maxSimultaneousPositions canary\<bar> < 2 ^ 30" and "\<bar>maxSimultaneousPositions live\<bar> < 2 ^ 30"
  shows "riskBudgetPctPerTrade canary \<le> riskBudgetPctPerTrade live"
    and "maxNotionalPctPerPosition canary \<le> maxNotionalPctPerPosition live"
    and "dailyLossHaltPct canary \<le> dailyLossHaltPct live" and "weeklyLossHaltPct canary \<le> weeklyLossHaltPct live"
    and "drawdownHaltPct canary \<le> drawdownHaltPct live"
    and "maxSimultaneousPositions canary \<le> maxSimultaneousPositions live"
    and "minSolReserveLamports live \<le> minSolReserveLamports canary"
    and "maxEntryLamports canary \<le> maxEntryLamports live"
    and "maxTotalExposureLamports canary \<le> maxTotalExposureLamports live"
    and "dailyLossCapLamports canary \<le> dailyLossCapLamports live"
proof -
  note six = assms(2) [unfolded percentages_def, simplified]
  note le = no_looser(1) [OF assms(1)]
  show "riskBudgetPctPerTrade canary \<le> riskBudgetPctPerTrade live"
    using le [of RiskBudgetPctPerTrade] six six_decimals_mono by (simp add: SAFER_WHEN_LOWER_def)
  show "maxNotionalPctPerPosition canary \<le> maxNotionalPctPerPosition live"
    using le [of MaxNotionalPctPerPosition] six six_decimals_mono by (simp add: SAFER_WHEN_LOWER_def)
  show "dailyLossHaltPct canary \<le> dailyLossHaltPct live"
    using le [of DailyLossHaltPct] six six_decimals_mono by (simp add: SAFER_WHEN_LOWER_def)
  show "weeklyLossHaltPct canary \<le> weeklyLossHaltPct live"
    using le [of WeeklyLossHaltPct] six six_decimals_mono by (simp add: SAFER_WHEN_LOWER_def)
  show "drawdownHaltPct canary \<le> drawdownHaltPct live"
    using le [of DrawdownHaltPct] six six_decimals_mono by (simp add: SAFER_WHEN_LOWER_def)
  show "maxSimultaneousPositions canary \<le> maxSimultaneousPositions live"
    using le [of MaxSimultaneousPositions] comparable_of_int_mono [OF assms(3,4)]
    by (simp add: SAFER_WHEN_LOWER_def)
  show "minSolReserveLamports live \<le> minSolReserveLamports canary"
    using no_looser(2) [OF assms(1), of MinSolReserveLamports] by (simp add: SAFER_WHEN_HIGHER_def)
  show "maxEntryLamports canary \<le> maxEntryLamports live"
    using le [of MaxEntryLamports] by (simp add: SAFER_WHEN_LOWER_def)
  show "maxTotalExposureLamports canary \<le> maxTotalExposureLamports live"
    using le [of MaxTotalExposureLamports] by (simp add: SAFER_WHEN_LOWER_def)
  show "dailyLossCapLamports canary \<le> dailyLossCapLamports live"
    using le [of DailyLossCapLamports] by (simp add: SAFER_WHEN_LOWER_def)
qed

lemma scaled_size_mono:
  assumes "0 \<le> ps_navLamports state" and "riskBudgetPctPerTrade r \<le> riskBudgetPctPerTrade r'"
    and "0 < plannedLossFractionBps config (ps_observedSevereLossBps state)"
  shows "scaled_size state (config\<lparr>risk := r\<rparr>) score \<le> scaled_size state (config\<lparr>risk := r'\<rparr>) score"
proof -
  have "pct_of (ps_navLamports state) (riskBudgetPctPerTrade r) \<le> pct_of (ps_navLamports state) (riskBudgetPctPerTrade r')"
    using assms(1,2) by (rule pct_of_mono_pct)
  then have "bdiv (pct_of (ps_navLamports state) (riskBudgetPctPerTrade r) * 10000)
      (plannedLossFractionBps config (ps_observedSevereLossBps state))
    \<le> bdiv (pct_of (ps_navLamports state) (riskBudgetPctPerTrade r') * 10000)
      (plannedLossFractionBps config (ps_observedSevereLossBps state))"
    using assms(3) by (intro bdiv_mono) simp_all
  then show ?thesis
    using assms(3) score_weight_bounds(1) [of score] unfolding scaled_size_def Let_def
    by (simp add: bdiv_mono mult_right_mono)
qed

text \<open>
  A configuration that passes the canary comparison, with its halts switched on and percentages of at most six
  decimals, is tighter in effect: whatever it would allow, the live configuration allows at least at the same
  size, or refuses only because that larger size would cross the aggregate planned-loss cap.
\<close>

theorem canary_is_tighter:
  assumes "assertCanaryNoLooserThanLive canary live = Inr ()"
    and "list_all six_decimals (percentages canary @ percentages live)"
    and "\<bar>maxSimultaneousPositions canary\<bar> < 2 ^ 30" and "\<bar>maxSimultaneousPositions live\<bar> < 2 ^ 30"
    and "halts_enabled canary" and "0 \<le> ps_navLamports state" and "exit_config_ok (exits config)"
    and "sizePosition state (config\<lparr>risk := canary\<rparr>) score = Inr s"
  shows "case sizePosition state (config\<lparr>risk := live\<rparr>) score of
      Inr s' \<Rightarrow> s \<le> s' | Inl refusal \<Rightarrow> refusal = aggregate_planned_loss"
proof -
  note le = no_looser_fields [OF assms(1-4)]
  note s = assms(8) [unfolded sizePosition_Inr sizing_halt_None, simplified]
  have nav: "pct_of (ps_navLamports state) p \<le> pct_of (ps_navLamports state) q" if "p \<le> q" for p q
    using assms(6) that by (rule pct_of_mono_pct)
  have bps: "0 < plannedLossFractionBps config (ps_observedSevereLossBps state)"
    using assms(7) plannedLoss_ge_stop [of config "ps_observedSevereLossBps state"] by (simp add: exit_config_ok_def)
  have halts: "sizing_halt state (config\<lparr>risk := live\<rparr>) score = None"
  proof -
    have peak: "pct_of (ps_peakNavLamports state) (drawdownHaltPct canary) \<le> pct_of (ps_peakNavLamports state) (drawdownHaltPct live)"
      if "0 < ps_peakNavLamports state" using le(5) that by (intro pct_of_mono_pct) simp_all
    show ?thesis
      using s assms(5) le(6,10) nav [OF le(3)] nav [OF le(4)] peak
      unfolding sizing_halt_None halts_enabled_def by (simp; linarith)
  qed
  have limit: "s \<le> size_limit state (config\<lparr>risk := live\<rparr>) score"
  proof -
    note b = size_limit_bounds [of state "config\<lparr>risk := canary\<rparr>" score]
    have "s = size_limit state (config\<lparr>risk := canary\<rparr>) score" using s by blast
    then show ?thesis
      using b le(7-9) nav [OF le(2)] scaled_size_mono [OF assms(6) le(1) bps, of score]
      unfolding le_size_limit by simp
  qed
  have "viableFloorLamports config \<le> s" "ps_totalExposureLamports state < maxTotalExposureLamports live"
    "minSolReserveLamports live < ps_freeLamports state" using s le(7,9) by simp_all
  then show ?thesis
    using halts limit unfolding sizePosition_cases by simp
qed

section \<open>The committed configurations\<close>

text \<open>\<open>config/canary.json\<close> and the risk section of \<open>config/live.json\<close>.\<close>

definition canary_risk :: RiskConfig where
  "canary_risk = \<lparr>riskBudgetPctPerTrade = 1 / 4, maxNotionalPctPerPosition = 1, maxSimultaneousPositions = 1,
     maxAggregatePlannedLossPct = 1, dailyLossHaltPct = 3 / 2, weeklyLossHaltPct = 4, drawdownHaltPct = 6,
     minSolReserveLamports = 100000000, maxEntryLamports = 20000000, maxTotalExposureLamports = 40000000,
     dailyLossCapLamports = 20000000, rc_maxPriorityFeeLamports = 500000, maxSlippageBps = 200\<rparr>"

definition live_risk :: RiskConfig where
  "live_risk = \<lparr>riskBudgetPctPerTrade = 1 / 4, maxNotionalPctPerPosition = 1, maxSimultaneousPositions = 2,
     maxAggregatePlannedLossPct = 1, dailyLossHaltPct = 3 / 2, weeklyLossHaltPct = 4, drawdownHaltPct = 6,
     minSolReserveLamports = 100000000, maxEntryLamports = 100000000, maxTotalExposureLamports = 200000000,
     dailyLossCapLamports = 60000000, rc_maxPriorityFeeLamports = 1000000, maxSlippageBps = 200\<rparr>"

definition canary_config :: AppConfig where
  "canary_config = \<lparr>ac_strategyVersion = ''delayed-momentum-v0.6.0'', risk = canary_risk,
     exits = \<lparr>stopLossBps = 2500, trailingStopBps = 3000, takeProfitBps = 6000, maxHoldMs = 1800000,
       minHoldMs = 60000, liquidityCollapseRatioBps = 1000\<rparr>,
     paperStartLamports = 1000000000, maxQuoteAgeMs = 6000, assumedPriorityFeeLamports = 8000,
     assumedAtaRentLamports = 2039280, assumedSignatureFeeLamports = 5000, assumedBroadcasterTipLamports = 0,
     assumedRentRecoveryRate = 1 / 2, maxFeeFractionBps = 500, minOpportunityScore = 1 / 2,
     catastrophicLossFloorPct = 100, requireLocalSimulation = True, primaryRouteFamily = ''BUILD_CUSTOM'',
     maxRoundTripLossBps = 300\<rparr>"

text \<open>Rounding leaves the numbers of the configurations as they are.\<close>

lemma fl_numeral [simp]: "(numeral n :: int) < 2 ^ 53 \<Longrightarrow> fl (numeral n) = numeral n"
  using fl_int [of "numeral n"] by simp

lemma fl_fractions [simp]: "fl 1 = 1" "fl (1 / 2) = 1 / 2" "fl (1 / 4) = 1 / 4" "fl (3 / 2) = 3 / 2"
  using fl_int [of 1] fl_exact [of 1 "- 1"] fl_exact [of 1 "- 2"] fl_exact [of 3 "- 1"] by (simp_all add: power_int_def power2_eq_square)

lemma js_round_numeral [simp]: "js_round (numeral n) = numeral n" "js_round 0 = 0" "js_round 1 = 1"
  using js_round_of_int [of "numeral n"] js_round_of_int [of 0] js_round_of_int [of 1] by simp_all

lemmas sizing_defs = viableFloorLamports_def roundTripCostLamports_def plannedLossFractionBps_def pct_of_def
  sizing_halt_def scaled_size_def sizePosition_def maxBigint_def bdiv_def Let_def

lemma canary_floor: "viableFloorLamports canary_config = 20912800"
  by (simp add: sizing_defs canary_config_def)

text \<open>
  Zero is not the tightest value. Replacing every loss halt of a configuration by zero passes the comparison
  that promises a tighter canary, and removes the halts: no state whatever is then refused for a loss.
\<close>

theorem zero_halts_pass_as_tighter:
  assumes "0 \<le> dailyLossCapLamports live" and "0 \<le> dailyLossHaltPct live" and "0 \<le> weeklyLossHaltPct live"
    and "0 \<le> drawdownHaltPct live" and "0 \<le> maxAggregatePlannedLossPct live"
    and "canary = live\<lparr>dailyLossCapLamports := 0, dailyLossHaltPct := 0, weeklyLossHaltPct := 0,
      drawdownHaltPct := 0, maxAggregatePlannedLossPct := 0\<rparr>"
  shows "assertCanaryNoLooserThanLive canary live = Inr ()"
    and "sizePosition state (config\<lparr>risk := canary\<rparr>) score \<notin> Inl ` {daily_loss_cap, daily_loss_halt,
      weekly_loss_halt, drawdown_halt, aggregate_planned_loss}"
proof -
  have "js_round (fl (0 * 1000000)) \<le> js_round (fl (p * 1000000))" if "0 \<le> p" for p
    using that by (intro js_round_mono fl_mono) simp
  then show "assertCanaryNoLooserThanLive canary live = Inr ()"
    using assms by (simp add: assertCanaryNoLooserThanLive_def SAFER_WHEN_LOWER_def SAFER_WHEN_HIGHER_def not_less)
  show "sizePosition state (config\<lparr>risk := canary\<rparr>) score \<notin> Inl ` {daily_loss_cap, daily_loss_halt,
      weekly_loss_halt, drawdown_halt, aggregate_planned_loss}"
    unfolding sizePosition_cases sizing_halt_def planned_over_def Let_def assms(6) by (simp add: image_iff)
qed

text \<open>
  The committed canary configuration never trades: its entry cap of 0.02 SOL lies below its own viability floor
  of 0.0209128 SOL, so no state and no score allows a size.
\<close>

theorem canary_never_trades: "\<exists>refusal. sizePosition state canary_config score = Inl refusal"
proof (cases "sizePosition state canary_config score")
  case (Inr s)
  then have "viableFloorLamports canary_config \<le> s" "s \<le> maxEntryLamports (risk canary_config)"
    using size_limit_bounds(3) [of state canary_config score] unfolding sizePosition_Inr by simp_all
  then show ?thesis unfolding canary_floor by (simp add: canary_config_def canary_risk_def)
qed simp

section \<open>Witnesses\<close>

definition demo_book :: PortfolioState where
  "demo_book = \<lparr>ps_navLamports = 10000000000, ps_freeLamports = 9000000000, ps_openPositions = 0,
     ps_totalExposureLamports = 0, ps_realizedTodayLamports = - 1000, ps_realizedWeekLamports = - 1000,
     ps_plannedLossLamports = 0, ps_peakNavLamports = 10000000000, ps_observedSevereLossBps = None\<rparr>"

lemma demo_sized: "sizePosition demo_book (canary_config\<lparr>risk := live_risk\<rparr>) 1 = Inr 25000000"
  by (simp add: sizing_defs demo_book_def canary_config_def live_risk_def)

theorem allowed_size_respects_caps_witness:
  "25000000 \<le> maxEntryLamports (risk (canary_config\<lparr>risk := live_risk\<rparr>))"
proof (rule allowed_size_respects_caps [OF demo_sized, THEN conjunct2, THEN conjunct2, THEN conjunct1])
  show "0 < viableFloorLamports (canary_config\<lparr>risk := live_risk\<rparr>)" by (simp add: canary_floor)
  show "exit_config_ok (exits (canary_config\<lparr>risk := live_risk\<rparr>))" by (simp add: canary_config_def exit_config_ok_def)
qed

lemma demo_canary_sized: "sizePosition demo_book (canary_config\<lparr>risk := live_risk\<lparr>maxEntryLamports := 22000000\<rparr>\<rparr>) 1
    = Inr 22000000"
  by (simp add: sizing_defs demo_book_def canary_config_def live_risk_def)

theorem canary_is_tighter_witness:
  "case sizePosition demo_book (canary_config\<lparr>risk := live_risk\<rparr>) 1 of
      Inr s' \<Rightarrow> 22000000 \<le> s' | Inl refusal \<Rightarrow> refusal = aggregate_planned_loss"
proof (rule canary_is_tighter [OF _ _ _ _ _ _ _ demo_canary_sized])
  show "assertCanaryNoLooserThanLive (live_risk\<lparr>maxEntryLamports := 22000000\<rparr>) live_risk = Inr ()"
    by (simp add: assertCanaryNoLooserThanLive_def SAFER_WHEN_LOWER_def SAFER_WHEN_HIGHER_def live_risk_def)
  show "list_all six_decimals (percentages (live_risk\<lparr>maxEntryLamports := 22000000\<rparr>) @ percentages live_risk)"
    by (simp add: percentages_def six_decimals_def live_risk_def)
  show "halts_enabled (live_risk\<lparr>maxEntryLamports := 22000000\<rparr>)" by (simp add: halts_enabled_def live_risk_def)
  show "0 \<le> ps_navLamports demo_book" by (simp add: demo_book_def)
  show "exit_config_ok (exits canary_config)" by (simp add: canary_config_def exit_config_ok_def)
qed (simp_all add: live_risk_def)

theorem zero_halts_pass_as_tighter_witness:
  "assertCanaryNoLooserThanLive (live_risk\<lparr>dailyLossCapLamports := 0, dailyLossHaltPct := 0, weeklyLossHaltPct := 0,
      drawdownHaltPct := 0, maxAggregatePlannedLossPct := 0\<rparr>) live_risk = Inr ()"
  by (rule zero_halts_pass_as_tighter(1)) (simp_all add: live_risk_def)

end
