(* ===== verification/PaperCore.thy ===== *)
theory PaperCore
  imports Portfolio Accounting Settlement
begin

text \<open>
  The decisions of the paper engine as it injects its collaborators: \<open>apps/engine/src/paper-core.ts\<close>
  (the admission of an entry and of an exit, and which number may move a stop), and the readers of
  measured settlements that \<open>tryEnter\<close> of \<open>apps/engine/src/paper.ts\<close> passes in. A collaborator is a function
  from what it is asked to what it answers in this call; the simulator's answer for an observation is
  read after the simulation ran.
\<close>

section \<open>Collaborators\<close>

record RouteRequest =
  rq_side :: side
  rq_inputMint :: string
  rq_outputMint :: string
  rq_amount :: int
  rq_purpose :: string

record LegToSimulate =
  ls_side :: side
  ls_inputMint :: string
  ls_outputMint :: string
  ls_inputAmount :: int
  ls_expectedOutput :: int
  ls_minimumOutput :: int

record MeasuredRoundTrip =
  mr_tradingLossBps :: int
  mr_allInLossBps :: int
  mr_netLamports :: int
  mr_recoverableRentLamports :: int
  mr_complete :: bool
  mr_reasons :: "round_trip_reason list"

record Collaborators =
  observe :: "RouteRequest \<Rightarrow> ExecutionObservation option"
  simulate :: "string \<Rightarrow> LegToSimulate \<Rightarrow> SimulationOutcome \<times> SimulationEffectOutcome"
  measure_acquired :: "string \<Rightarrow> int option"
  measure_round_trip :: "string \<Rightarrow> string \<Rightarrow> MeasuredRoundTrip option"

record EntryEconomics =
  allInCostLamports :: int
  en_requireLocalSimulation :: bool
  en_maxRoundTripLossBps :: int

definition WSOL :: string where
  "WSOL = ''So11111111111111111111111111111111111111112''"

section \<open>The admission of an entry\<close>

datatype admission_reason =
    entry_not_observed
  | buy_not_executable Accounting.leg_reason
  | no_measured_credit
  | acquires_nothing
  | exit_not_observed
  | family_mismatch RouteFamily RouteFamily
  | sell_not_executable Accounting.leg_reason
  | round_trip_not_measured
  | round_trip_incomplete round_trip_reason
  | round_trip_loses int int

record EntryAdmission =
  ad_ok :: bool
  ad_reasons :: "admission_reason list"
  ad_buy :: "ExecutionObservation option"
  ad_sell :: "ExecutionObservation option"
  ad_tokensAcquired :: "int option"
  ad_roundTripLossBps :: "int option"

definition buy_request :: "string \<Rightarrow> int \<Rightarrow> RouteRequest" where
  "buy_request mint lamportsIn = \<lparr>rq_side = buy, rq_inputMint = WSOL, rq_outputMint = mint,
     rq_amount = lamportsIn, rq_purpose = ''entry''\<rparr>"

definition sell_request :: "string \<Rightarrow> int \<Rightarrow> RouteRequest" where
  "sell_request mint tokens = \<lparr>rq_side = sell, rq_inputMint = mint, rq_outputMint = WSOL,
     rq_amount = tokens, rq_purpose = ''entry_roundtrip''\<rparr>"

text \<open>An observation with the verdict of simulating it as the given leg.\<close>

definition simulated :: "Collaborators \<Rightarrow> RouteRequest \<Rightarrow> ExecutionObservation \<Rightarrow> ExecutionObservation" where
  "simulated deps rq ob =
    (let (sim, effect) = simulate deps (observationId ob)
       \<lparr>ls_side = rq_side rq, ls_inputMint = rq_inputMint rq, ls_outputMint = rq_outputMint rq,
        ls_inputAmount = rq_amount rq, ls_expectedOutput = expectedOutput ob, ls_minimumOutput = minimumOutput ob\<rparr>
     in ob\<lparr>simulation := sim, simulationEffect := Some effect\<rparr>)"

text \<open>The second half: the exit leg and the measured round trip, for the tokens the buy acquired.\<close>

definition admit_exit_half :: "Collaborators \<Rightarrow> string \<Rightarrow> EntryEconomics \<Rightarrow> ExecutionObservation \<Rightarrow> int \<Rightarrow>
    admission_reason list \<Rightarrow> EntryAdmission" where
  "admit_exit_half deps mint economics b tokens reasons =
    (case observe deps (sell_request mint tokens) of
       None \<Rightarrow> \<lparr>ad_ok = False, ad_reasons = reasons @ [exit_not_observed], ad_buy = Some b, ad_sell = None,
         ad_tokensAcquired = Some tokens, ad_roundTripLossBps = None\<rparr>
     | Some s \<Rightarrow>
       let mismatch = (if family s \<noteq> family b then [family_mismatch (family s) (family b)] else []);
           (s_ok, s_reasons) = legIsExecutable (simulated deps (sell_request mint tokens) s) (en_requireLocalSimulation economics);
           reasons = reasons @ mismatch @ (if \<not> s_ok then map sell_not_executable s_reasons else [])
       in case measure_round_trip deps (observationId b) (observationId s) of
         None \<Rightarrow> \<lparr>ad_ok = False, ad_reasons = reasons @ [round_trip_not_measured], ad_buy = Some b, ad_sell = Some s,
           ad_tokensAcquired = Some tokens, ad_roundTripLossBps = None\<rparr>
       | Some m \<Rightarrow>
         if \<not> mr_complete m
         then \<lparr>ad_ok = False, ad_reasons = reasons @ map round_trip_incomplete (mr_reasons m), ad_buy = Some b,
           ad_sell = Some s, ad_tokensAcquired = Some tokens, ad_roundTripLossBps = None\<rparr>
         else
           let reasons = reasons @
             (if mr_tradingLossBps m > en_maxRoundTripLossBps economics
              then [round_trip_loses (mr_tradingLossBps m) (en_maxRoundTripLossBps economics)] else [])
           in \<lparr>ad_ok = (reasons = []), ad_reasons = reasons, ad_buy = Some b, ad_sell = Some s,
             ad_tokensAcquired = Some tokens, ad_roundTripLossBps = Some (mr_tradingLossBps m)\<rparr>)"

definition admitPortfolioEntry :: "Collaborators \<Rightarrow> string \<Rightarrow> int \<Rightarrow> EntryEconomics \<Rightarrow> EntryAdmission" where
  "admitPortfolioEntry deps mint lamportsIn economics =
    (case observe deps (buy_request mint lamportsIn) of
       None \<Rightarrow> \<lparr>ad_ok = False, ad_reasons = [entry_not_observed], ad_buy = None, ad_sell = None,
         ad_tokensAcquired = None, ad_roundTripLossBps = None\<rparr>
     | Some b \<Rightarrow>
       let (b_ok, b_reasons) = legIsExecutable (simulated deps (buy_request mint lamportsIn) b) (en_requireLocalSimulation economics);
           reasons = (if \<not> b_ok then map buy_not_executable b_reasons else [])
       in case measure_acquired deps (observationId b) of
         None \<Rightarrow> \<lparr>ad_ok = False, ad_reasons = reasons @ [no_measured_credit], ad_buy = Some b, ad_sell = None,
           ad_tokensAcquired = None, ad_roundTripLossBps = None\<rparr>
       | Some tokens \<Rightarrow>
         if tokens \<le> 0
         then \<lparr>ad_ok = False, ad_reasons = reasons @ [acquires_nothing], ad_buy = Some b, ad_sell = None,
           ad_tokensAcquired = None, ad_roundTripLossBps = None\<rparr>
         else admit_exit_half deps mint economics b tokens reasons)"

section \<open>The mark that decides\<close>

datatype mark_source = BUILD_CUSTOM_SELL | ORDER_QUOTE_BENCHMARK

record MarkDecision =
  md_source :: mark_source
  md_decisionBearing :: bool
  md_markLamports :: "int option"
  md_benchmarkMinusExecutableBps :: "int option"

definition chooseDecisionMark :: "int option \<Rightarrow> int option \<Rightarrow> int \<Rightarrow> MarkDecision" where
  "chooseDecisionMark executable benchmark priorityFee =
    (let gap = (case (benchmark, executable) of
           (Some q, Some v) \<Rightarrow> if v \<le> 0 then None else Some (js_number (bdiv ((q - v) * 10000) v))
         | _ \<Rightarrow> None)
     in case executable of
       Some v \<Rightarrow> if v \<le> 0
         then \<lparr>md_source = ORDER_QUOTE_BENCHMARK, md_decisionBearing = False, md_markLamports = None,
           md_benchmarkMinusExecutableBps = gap\<rparr>
         else \<lparr>md_source = BUILD_CUSTOM_SELL, md_decisionBearing = True, md_markLamports = Some (v - priorityFee),
           md_benchmarkMinusExecutableBps = gap\<rparr>
     | None \<Rightarrow> \<lparr>md_source = ORDER_QUOTE_BENCHMARK, md_decisionBearing = False, md_markLamports = None,
         md_benchmarkMinusExecutableBps = gap\<rparr>)"

section \<open>The admission of an exit\<close>

record ExitAdmission =
  xa_ok :: bool
  xa_reasons :: "Accounting.leg_reason list"
  xa_blocked :: bool

text \<open>The verdict is the simulator's answer for this exit.\<close>

definition admitPortfolioExit :: "ExecutionObservation \<Rightarrow> SimulationOutcome \<times> SimulationEffectOutcome \<Rightarrow> bool \<Rightarrow> ExitAdmission" where
  "admitPortfolioExit ob answer req =
    (let (sim, effect) = answer;
         (ok, reasons) = legIsExecutable (ob\<lparr>simulation := sim, simulationEffect := Some effect\<rparr>) req
     in \<lparr>xa_ok = ok, xa_reasons = reasons, xa_blocked = (\<not> ok)\<rparr>)"

section \<open>The readers the engine passes in\<close>

text \<open>The argument gives, for an observation, the settlement measured by its latest simulation job.\<close>

definition acquired_reader :: "(string \<Rightarrow> MeasuredLegSettlement option) \<Rightarrow> string \<Rightarrow> int option" where
  "acquired_reader settlementOf obs =
    (case settlementOf obs of None \<Rightarrow> None
     | Some st \<Rightarrow>
       if \<not> fst (isPnlEligible st) then None
       else (case acquiredTokens st of Inl _ \<Rightarrow> None | Inr tokens \<Rightarrow> Some tokens))"

text \<open>\<open>Inl\<close> is an exception of \<open>immediateRoundTrip\<close>, which nothing catches.\<close>

definition round_trip_reader :: "(string \<Rightarrow> MeasuredLegSettlement option) \<Rightarrow> string \<Rightarrow> string \<Rightarrow>
    settlement_error + MeasuredRoundTrip option" where
  "round_trip_reader settlementOf buyId sellId =
    (case (settlementOf buyId, settlementOf sellId) of
       (Some b, Some x) \<Rightarrow> ebind (immediateRoundTrip b x) (\<lambda>rt. Inr (Some
         \<lparr>mr_tradingLossBps = tradingLossBps rt, mr_allInLossBps = Settlement.lossBps rt, mr_netLamports = netLamports rt,
          mr_recoverableRentLamports = recoverableRentLamports rt, mr_complete = rt_complete rt, mr_reasons = rt_reasons rt\<rparr>))
     | _ \<Rightarrow> Inr None)"

section \<open>Lemmas\<close>

lemma executable_iff: "fst (legIsExecutable ob req) \<longleftrightarrow> snd (legIsExecutable ob req) = []"
  by (simp add: legIsExecutable_def Let_def)

lemma admit_exit_half_ok: "ad_ok (admit_exit_half deps mint economics b tokens reasons) \<longleftrightarrow>
    reasons = [] \<and> (\<exists>s m. observe deps (sell_request mint tokens) = Some s \<and> family s = family b \<and>
      fst (legIsExecutable (simulated deps (sell_request mint tokens) s) (en_requireLocalSimulation economics)) \<and>
      measure_round_trip deps (observationId b) (observationId s) = Some m \<and> mr_complete m \<and>
      mr_tradingLossBps m \<le> en_maxRoundTripLossBps economics)"
  by (auto simp: admit_exit_half_def Let_def legIsExecutable_def split: option.splits)

lemma admit_exit_half_fields:
  "ad_buy (admit_exit_half deps mint economics b tokens reasons) = Some b"
  "ad_tokensAcquired (admit_exit_half deps mint economics b tokens reasons) = Some tokens"
  "ad_sell (admit_exit_half deps mint economics b tokens reasons) = observe deps (sell_request mint tokens)"
  by (simp_all add: admit_exit_half_def Let_def split: option.splits prod.splits)

lemma admitted_cases:
  assumes "ad_ok (admitPortfolioEntry deps mint lamportsIn economics)"
  obtains b tokens where "observe deps (buy_request mint lamportsIn) = Some b"
    and "fst (legIsExecutable (simulated deps (buy_request mint lamportsIn) b) (en_requireLocalSimulation economics))"
    and "measure_acquired deps (observationId b) = Some tokens" and "0 < tokens"
    and "admitPortfolioEntry deps mint lamportsIn economics = admit_exit_half deps mint economics b tokens []"
    and "ad_ok (admit_exit_half deps mint economics b tokens [])"
  using assms unfolding admitPortfolioEntry_def
  by (auto simp: Let_def admit_exit_half_ok legIsExecutable_def split: option.splits if_splits)

lemma acquired_reader_Some: "acquired_reader settlementOf obs = Some tokens \<longleftrightarrow>
    (\<exists>st. settlementOf obs = Some st \<and> fst (isPnlEligible st) \<and> acquiredTokens st = Inr tokens)"
  by (auto simp: acquired_reader_def split: option.splits sum.splits)

lemma round_trip_reader_complete:
  assumes "round_trip_reader settlementOf buyId sellId = Inr (Some m)" and "mr_complete m"
  obtains b x cashOut buyRent cashIn where "settlementOf buyId = Some b" and "settlementOf sellId = Some x"
    and "fst (isPnlEligible b)" and "fst (isPnlEligible x)" and "leg_family b = leg_family x"
    and "Settlement.entryCashOut b = Inr (cashOut, buyRent)" and "Settlement.exitCashIn x = Inr cashIn"
    and "mr_tradingLossBps m = (if cashOut - buyRent \<le> 0 then 0 else js_number (bdiv
      (- (cashIn - cashOut + (buyRent + (rentCreatedLamports (costs x) - rentRecoveredLamports (costs x)))) * 10000)
      (cashOut - buyRent)))"
proof -
  obtain b x where bx: "settlementOf buyId = Some b" "settlementOf sellId = Some x"
    using assms(1) by (auto simp: round_trip_reader_def split: option.splits)
  obtain rt where rt: "immediateRoundTrip b x = Inr rt" "mr_complete m = rt_complete rt"
    "mr_tradingLossBps m = tradingLossBps rt"
    using assms(1) bx by (cases "immediateRoundTrip b x") (auto simp: round_trip_reader_def)
  obtain cashOut buyRent where out: "Settlement.entryCashOut b = Inr (cashOut, buyRent)"
    using rt(1) by (cases "Settlement.entryCashOut b") (auto simp: immediateRoundTrip_def Let_def split: prod.splits)
  obtain cashIn where inn: "Settlement.exitCashIn x = Inr cashIn"
    using rt(1) out by (cases "Settlement.exitCashIn x") (auto simp: immediateRoundTrip_def Let_def split: prod.splits)
  have el: "fst (isPnlEligible b)" "fst (isPnlEligible x)" "leg_family b = leg_family x"
    using rt(1,2) assms(2) out inn
    by (auto simp: immediateRoundTrip_def isPnlEligible_def Let_def split: if_splits)
  have "tradingLossBps rt = (if cashOut - buyRent \<le> 0 then 0 else js_number (bdiv
      (- (cashIn - cashOut + (buyRent + (rentCreatedLamports (costs x) - rentRecoveredLamports (costs x)))) * 10000)
      (cashOut - buyRent)))"
    using rt(1) out inn by (auto simp: immediateRoundTrip_def isPnlEligible_def Let_def)
  with rt(3) show ?thesis using that [OF bx el out inn] by simp
qed

section \<open>Properties\<close>

text \<open>
  An entry is admitted only with a demonstrated exit: the buy was observed at exactly the size asked for and is
  executable with its simulated verdict; a positive credit was measured; the sell of exactly that credit was
  observed on the same family and is executable with its own verdict; and the measured round trip is complete
  and within the cap. Nothing else is needed.
\<close>

theorem admitted_iff_exit_demonstrated:
  "ad_ok (admitPortfolioEntry deps mint lamportsIn economics) \<longleftrightarrow>
    (\<exists>b tokens s m. observe deps (buy_request mint lamportsIn) = Some b \<and>
      fst (legIsExecutable (simulated deps (buy_request mint lamportsIn) b) (en_requireLocalSimulation economics)) \<and>
      measure_acquired deps (observationId b) = Some tokens \<and> 0 < tokens \<and>
      observe deps (sell_request mint tokens) = Some s \<and> family s = family b \<and>
      fst (legIsExecutable (simulated deps (sell_request mint tokens) s) (en_requireLocalSimulation economics)) \<and>
      measure_round_trip deps (observationId b) (observationId s) = Some m \<and> mr_complete m \<and>
      mr_tradingLossBps m \<le> en_maxRoundTripLossBps economics)"
  (is "?ok \<longleftrightarrow> ?demonstrated")
proof
  assume ?ok
  then obtain b tokens where "observe deps (buy_request mint lamportsIn) = Some b"
    "fst (legIsExecutable (simulated deps (buy_request mint lamportsIn) b) (en_requireLocalSimulation economics))"
    "measure_acquired deps (observationId b) = Some tokens" "0 < tokens"
    "ad_ok (admit_exit_half deps mint economics b tokens [])"
    by (rule admitted_cases)
  then show ?demonstrated unfolding admit_exit_half_ok by blast
next
  assume ?demonstrated
  then obtain b tokens where b: "observe deps (buy_request mint lamportsIn) = Some b"
    "fst (legIsExecutable (simulated deps (buy_request mint lamportsIn) b) (en_requireLocalSimulation economics))"
    "measure_acquired deps (observationId b) = Some tokens" "0 < tokens"
    "ad_ok (admit_exit_half deps mint economics b tokens [])"
    unfolding admit_exit_half_ok by blast
  then have "admitPortfolioEntry deps mint lamportsIn economics = admit_exit_half deps mint economics b tokens []"
    by (simp add: admitPortfolioEntry_def Let_def legIsExecutable_def)
  then show ?ok using b(5) by simp
qed

lemma trading_loss_bound:
  assumes "(if base \<le> 0 then 0 else js_number (bdiv (loss * 10000) base)) \<le> cap" and "0 < base"
    and "0 \<le> cap" and "cap < 2 ^ 30"
  shows "loss * 10000 < (cap + 1) * base"
proof (rule ccontr)
  assume "\<not> loss * 10000 < (cap + 1) * base"
  then have "bdiv ((cap + 1) * base) base \<le> bdiv (loss * 10000) base"
    using assms(2) by (intro bdiv_mono) simp_all
  moreover have "bdiv ((cap + 1) * base) base = cap + 1" using assms(2,3) by (simp add: bdiv_nonneg)
  ultimately have "cap + 1 \<le> js_number (bdiv (loss * 10000) base)"
    using assms(3,4) js_number_ge_iff [of "cap + 1" "bdiv (loss * 10000) base"] by simp
  then show False using assms(1,2) by simp
qed

text \<open>C20: 
  With the readers of the engine an admitted entry rests on measurement end to end: its tokens are the credit of
  an eligible buy settlement, the exit settlement is eligible and of the same family, and what the pair loses in
  lamports, rent left out, stays below the cap's share of what the entry put in.
\<close>

theorem admitted_entry_is_measured:
  assumes "ad_ok (admitPortfolioEntry deps mint lamportsIn economics)"
    and "measure_acquired deps = acquired_reader settlementOf"
    and "\<And>b x m. measure_round_trip deps b x = Some m \<Longrightarrow> round_trip_reader settlementOf b x = Inr (Some m)"
    and "0 \<le> en_maxRoundTripLossBps economics" and "en_maxRoundTripLossBps economics < 2 ^ 30"
  shows "\<exists>b s bst sst tokens cashOut rent cashIn.
      ad_buy (admitPortfolioEntry deps mint lamportsIn economics) = Some b \<and>
      ad_sell (admitPortfolioEntry deps mint lamportsIn economics) = Some s \<and>
      ad_tokensAcquired (admitPortfolioEntry deps mint lamportsIn economics) = Some tokens \<and>
      settlementOf (observationId b) = Some bst \<and> settlementOf (observationId s) = Some sst \<and>
      fst (isPnlEligible bst) \<and> fst (isPnlEligible sst) \<and> leg_family bst = leg_family sst \<and>
      acquiredTokens bst = Inr tokens \<and> 0 < tokens \<and>
      Settlement.entryCashOut bst = Inr (cashOut, rent) \<and> Settlement.exitCashIn sst = Inr cashIn \<and>
      (cashOut - rent \<le> 0 \<or>
        (cashOut - cashIn - (rent + (rentCreatedLamports (costs sst) - rentRecoveredLamports (costs sst)))) * 10000
          < (en_maxRoundTripLossBps economics + 1) * (cashOut - rent))"
proof -
  obtain b tokens where b: "observe deps (buy_request mint lamportsIn) = Some b"
    "measure_acquired deps (observationId b) = Some tokens" "0 < tokens"
    and half: "admitPortfolioEntry deps mint lamportsIn economics = admit_exit_half deps mint economics b tokens []"
    and ok: "ad_ok (admit_exit_half deps mint economics b tokens [])"
    using assms(1) by (rule admitted_cases)
  obtain s m where s: "observe deps (sell_request mint tokens) = Some s"
    "measure_round_trip deps (observationId b) (observationId s) = Some m" "mr_complete m"
    "mr_tradingLossBps m \<le> en_maxRoundTripLossBps economics"
    using ok unfolding admit_exit_half_ok by blast
  have "round_trip_reader settlementOf (observationId b) (observationId s) = Inr (Some m)"
    using s(2) by (rule assms(3))
  then obtain bst sst cashOut rent cashIn where st: "settlementOf (observationId b) = Some bst"
    "settlementOf (observationId s) = Some sst" "fst (isPnlEligible bst)" "fst (isPnlEligible sst)"
    "leg_family bst = leg_family sst" "Settlement.entryCashOut bst = Inr (cashOut, rent)"
    "Settlement.exitCashIn sst = Inr cashIn"
    and loss: "mr_tradingLossBps m = (if cashOut - rent \<le> 0 then 0 else js_number (bdiv
      (- (cashIn - cashOut + (rent + (rentCreatedLamports (costs sst) - rentRecoveredLamports (costs sst)))) * 10000)
      (cashOut - rent)))"
    using s(3) by (rule round_trip_reader_complete)
  have bound: "- (cashIn - cashOut + (rent + (rentCreatedLamports (costs sst) - rentRecoveredLamports (costs sst)))) * 10000
      < (en_maxRoundTripLossBps economics + 1) * (cashOut - rent)" if "0 < cashOut - rent"
    using s(4) that assms(4,5) unfolding loss by (rule trading_loss_bound)
  have "acquiredTokens bst = Inr tokens"
    using b(2) st(1) unfolding assms(2) acquired_reader_Some by simp
  moreover have "cashOut - rent \<le> 0 \<or>
      (cashOut - cashIn - (rent + (rentCreatedLamports (costs sst) - rentRecoveredLamports (costs sst)))) * 10000
        < (en_maxRoundTripLossBps economics + 1) * (cashOut - rent)"
  proof (cases "cashOut - rent \<le> 0")
    case False
    then show ?thesis using bound by (simp add: algebra_simps)
  qed simp
  ultimately show ?thesis
    using b(3) st s(1) unfolding half admit_exit_half_fields by blast
qed

section \<open>Witness\<close>

definition demo_settlementOf :: "string \<Rightarrow> MeasuredLegSettlement option" where
  "demo_settlementOf obs = (if obs = ''b'' then Some sample_buy else if obs = ''x'' then Some (sample_sell (Some 0)) else None)"

definition demo_deps :: Collaborators where
  "demo_deps = \<lparr>observe = (\<lambda>rq. Some (sample_observation\<lparr>observationId := (if rq_side rq = buy then ''b'' else ''x'')\<rparr>)),
     simulate = (\<lambda>_ _. (SIMULATED_OK, SIMULATED_EFFECT_OK)), measure_acquired = acquired_reader demo_settlementOf,
     measure_round_trip = (\<lambda>b x. case round_trip_reader demo_settlementOf b x of Inr r \<Rightarrow> r | Inl _ \<Rightarrow> None)\<rparr>"

definition demo_economics :: EntryEconomics where
  "demo_economics = \<lparr>allInCostLamports = 20013000, en_requireLocalSimulation = True, en_maxRoundTripLossBps = 400\<rparr>"

lemma demo_executable: "legIsExecutable (simulated demo_deps rq (sample_observation\<lparr>observationId := i\<rparr>)) True = (True, [])"
  by (simp add: simulated_def demo_deps_def legIsExecutable_def Accounting.leg_reasons_def Let_def
      sample_observation_def not_positive_def)

lemma demo_measured: "acquired_reader demo_settlementOf ''b'' = Some 1000"
  "\<exists>m. round_trip_reader demo_settlementOf ''b'' ''x'' = Inr (Some m) \<and> mr_complete m \<and> mr_tradingLossBps m \<le> 400"
  by (simp_all add: acquired_reader_def round_trip_reader_def demo_settlementOf_def sample_trajectory_defs
      isPnlEligible_def ineligibilities_def acquiredTokens_def immediateRoundTrip_def Settlement.entryCashOut_def
      Settlement.exitCashIn_def Let_def js_number_minus js_number_exact bdiv_def)

lemma demo_admitted: "ad_ok (admitPortfolioEntry demo_deps ''m'' 20000000 demo_economics)"
proof -
  obtain m where m: "round_trip_reader demo_settlementOf ''b'' ''x'' = Inr (Some m)" "mr_complete m"
    "mr_tradingLossBps m \<le> 400"
    using demo_measured(2) by blast
  have obs: "observe demo_deps (buy_request ''m'' 20000000) = Some (sample_observation\<lparr>observationId := ''b''\<rparr>)"
    "observe demo_deps (sell_request ''m'' 1000) = Some (sample_observation\<lparr>observationId := ''x''\<rparr>)"
    by (simp_all add: demo_deps_def buy_request_def sell_request_def)
  have fields: "en_requireLocalSimulation demo_economics" "en_maxRoundTripLossBps demo_economics = 400"
    "measure_acquired demo_deps ''b'' = Some 1000" "measure_round_trip demo_deps ''b'' ''x'' = Some m"
    using demo_measured(1) m(1) by (simp_all add: demo_economics_def demo_deps_def)
  show ?thesis
    unfolding admitPortfolioEntry_def admit_exit_half_def obs
    using fields m(2,3) demo_executable by (simp add: Let_def obs)
qed

theorem admitted_entry_is_measured_witness:
  "\<exists>b s tokens. ad_buy (admitPortfolioEntry demo_deps ''m'' 20000000 demo_economics) = Some b \<and>
    ad_sell (admitPortfolioEntry demo_deps ''m'' 20000000 demo_economics) = Some s \<and>
    ad_tokensAcquired (admitPortfolioEntry demo_deps ''m'' 20000000 demo_economics) = Some tokens \<and> 0 < tokens"
proof -
  have readers: "round_trip_reader demo_settlementOf b x = Inr (Some m)" if "measure_round_trip demo_deps b x = Some m" for b x m
    using that by (auto simp: demo_deps_def split: sum.splits)
  show ?thesis
    using admitted_entry_is_measured [OF demo_admitted _ readers]
    by (simp add: demo_deps_def demo_economics_def) blast
qed

end
