(* ===== verification/PaperBook.thy ===== *)
theory PaperBook
  imports PaperCore
begin

text \<open>
  The realizable paper book: its positions (\<open>packages/storage/src/repo.ts\<close>, \<open>observation-repo.ts\<close>,
  \<open>exposure.ts\<close>), its cash ledger (\<open>apps/engine/src/ledger.ts\<close>), the rent of token accounts
  (\<open>packages/domain/src/ata.ts\<close>), and the two loops of \<open>apps/engine/src/paper.ts\<close> that change them:
  \<open>tryEnter\<close> and \<open>manageOpenPositions\<close>. What a call observes is an environment record. Marks, fills, health
  records, ledger events, the shadow books and the pool alarm are left out: no definition here reads them.
  A UTC day is named by its first millisecond, of which the stored date is a printout.
\<close>

section \<open>Rent\<close>

datatype AtaCloseFailure = NONZERO_TOKEN_BALANCE | WITHHELD_TRANSFER_FEES | CLOSE_NOT_BUILDABLE
  | CLOSE_NOT_CONFIRMED | NO_ATA | UNVERIFIED

record AtaState =
  ataCreated :: bool
  ataRentLockedLamports :: int
  ataCloseBuildable :: "bool option"
  ataCloseSimulated :: "bool option"
  ataCloseAttempted :: bool
  ataCloseConfirmed :: bool
  residualTokenAmount :: "int option"
  withheldTransferFeeLamports :: "int option"
  ataCloseFeeLamports :: int

record AtaRentVerdict =
  av_recovered :: int
  av_lost :: int
  av_failure :: "AtaCloseFailure option"

definition settleAtaRent :: "AtaState \<Rightarrow> AtaRentVerdict" where
  "settleAtaRent st =
    (let locked = ataRentLockedLamports st;
         fail = (\<lambda>reason. \<lparr>av_recovered = 0, av_lost = locked, av_failure = Some reason\<rparr>)
     in if \<not> ataCreated st \<or> locked \<le> 0 then \<lparr>av_recovered = 0, av_lost = 0, av_failure = Some NO_ATA\<rparr>
     else case residualTokenAmount st of None \<Rightarrow> fail UNVERIFIED
     | Some residual \<Rightarrow> if residual > 0 then fail NONZERO_TOKEN_BALANCE
     else case withheldTransferFeeLamports st of None \<Rightarrow> fail UNVERIFIED
     | Some withheld \<Rightarrow> if withheld > 0 then fail WITHHELD_TRANSFER_FEES
     else if ataCloseBuildable st \<noteq> Some True
     then (if ataCloseBuildable st = None then fail UNVERIFIED else fail CLOSE_NOT_BUILDABLE)
     else if ataCloseAttempted st \<and> \<not> ataCloseConfirmed st then fail CLOSE_NOT_CONFIRMED
     else let net = locked - ataCloseFeeLamports st in
       if net \<le> 0 then \<lparr>av_recovered = 0, av_lost = locked, av_failure = None\<rparr>
       else \<lparr>av_recovered = net, av_lost = locked - net, av_failure = None\<rparr>)"

section \<open>Positions\<close>

text \<open>The states of a stored position that this file names; any other text is \<open>PS_other\<close>.\<close>

datatype PositionState = PS_POSITION_OPEN | PS_EXIT_INTENT | PS_AWAITING_FILL_OBSERVATION
  | PS_EXIT_BLOCKED | PS_RECONCILING | PS_POSITION_CLOSED | PS_other string

record BookPosition =
  bp_id :: string
  bp_mint :: string
  bp_state :: PositionState
  bp_tokens :: int
  bp_cost :: int
  bp_realized :: int
  bp_opened :: int
  bp_closed :: "int option"
  bp_strategyVersion :: string
  bp_exitReason :: "ExitReason option"
  bp_peak :: "int option"
  bp_executionCost :: "int option"
  bp_grossProceeds :: "int option"
  bp_netPnl :: "int option"
  bp_entryCashOut :: "int option"
  bp_exitCashIn :: "int option"
  bp_lockedRent :: "int option"
  bp_residualAtoms :: "int option"
  bp_blockedSince :: "int option"
  bp_triggered :: "int option"
  bp_triggerReason :: "ExitReason option"
  bp_exitAttempts :: int
  bp_lastExitAttempt :: "int option"
  bp_lastExitFailure :: "Accounting.leg_reason list option"
  bp_fillLatency :: "int option"
  bp_entryObservation :: "string option"
  bp_exitObservation :: "string option"
  bp_routeFamily :: "string option"

definition MANAGED_STATES :: "PositionState list" where
  "MANAGED_STATES = [PS_POSITION_OPEN, PS_EXIT_INTENT, PS_AWAITING_FILL_OBSERVATION, PS_EXIT_BLOCKED, PS_RECONCILING]"

definition managedPositions :: "BookPosition list \<Rightarrow> BookPosition list" where
  "managedPositions ps = sort_key bp_opened (filter (\<lambda>p. bp_state p \<in> set MANAGED_STATES) ps)"

definition unmanagedPositions :: "BookPosition list \<Rightarrow> BookPosition list" where
  "unmanagedPositions ps =
     filter (\<lambda>p. bp_closed p = None \<and> bp_tokens p > 0 \<and> bp_state p \<notin> set MANAGED_STATES) ps"

text \<open>The primary key and the partial unique index over open positions of a mint.\<close>

datatype position_error = position_constraint

definition insertPosition :: "BookPosition \<Rightarrow> BookPosition list \<Rightarrow> position_error + BookPosition list" where
  "insertPosition p ps =
    (if (\<exists>q \<in> set ps. bp_id q = bp_id p) \<or>
        (bp_state p \<in> {PS_POSITION_OPEN, PS_EXIT_INTENT, PS_other ''INTENT_CREATED''} \<and>
         (\<exists>q \<in> set ps. bp_mint q = bp_mint p \<and> bp_strategyVersion q = bp_strategyVersion p \<and>
            bp_state q \<in> {PS_POSITION_OPEN, PS_EXIT_INTENT, PS_other ''INTENT_CREATED''}))
     then Inl position_constraint else Inr (ps @ [p]))"

text \<open>\<open>UPDATE positions SET \<dots> WHERE position_id = ?\<close>.\<close>

definition update_position :: "string \<Rightarrow> (BookPosition \<Rightarrow> BookPosition) \<Rightarrow> BookPosition list \<Rightarrow> BookPosition list" where
  "update_position pid f ps = map (\<lambda>p. if bp_id p = pid then f p else p) ps"

definition markExitBlocked :: "int \<Rightarrow> Accounting.leg_reason list \<Rightarrow> BookPosition \<Rightarrow> BookPosition" where
  "markExitBlocked now failure p = p\<lparr>bp_state := PS_EXIT_BLOCKED,
     bp_blockedSince := (case bp_blockedSince p of None \<Rightarrow> Some now | Some t \<Rightarrow> Some t),
     bp_exitAttempts := bp_exitAttempts p + 1, bp_lastExitAttempt := Some now, bp_lastExitFailure := Some failure\<rparr>"

section \<open>Exposure\<close>

definition KNOWN_NONTERMINAL_STATES :: "PositionState list" where
  "KNOWN_NONTERMINAL_STATES = [PS_POSITION_OPEN, PS_EXIT_INTENT, PS_EXIT_BLOCKED, PS_RECONCILING]"

definition exposedPositions :: "BookPosition list \<Rightarrow> BookPosition list" where
  "exposedPositions ps = filter (\<lambda>p. \<not> bp_tokens p \<le> 0) (sort_key bp_opened (filter (\<lambda>p. bp_closed p = None) ps))"

record ExposureSummary =
  es_positions :: "BookPosition list"
  es_totalCostLamports :: int
  es_ataCount :: int
  es_unknownStatePositions :: "BookPosition list"
  es_blocksNewEntries :: bool

definition summariseExposure :: "BookPosition list \<Rightarrow> ExposureSummary" where
  "summariseExposure ps =
    (let held = exposedPositions ps; unknown = filter (\<lambda>p. bp_state p \<notin> set KNOWN_NONTERMINAL_STATES) held
     in \<lparr>es_positions = held, es_totalCostLamports = sum_list (map bp_cost held), es_ataCount = int (length held),
         es_unknownStatePositions = unknown, es_blocksNewEntries = (unknown \<noteq> [])\<rparr>)"

section \<open>The ledger\<close>

record Ledger =
  lg_navLamports :: int
  lg_freeLamports :: int
  lg_realizedTodayLamports :: int
  lg_dayStartUtcMs :: int
  lg_peakNavLamports :: int
  lg_lockedRentLamports :: int

definition DAY_MS :: int where
  "DAY_MS = 86400000"

definition utcDayStart :: "int \<Rightarrow> int" where
  "utcDayStart t = t - t mod DAY_MS"

definition utcDaysBetween :: "int \<Rightarrow> int \<Rightarrow> int" where
  "utcDaysBetween a b = js_round (fl (of_int (utcDayStart b - utcDayStart a) / of_int DAY_MS))"

definition closed_since :: "int \<Rightarrow> BookPosition \<Rightarrow> bool" where
  "closed_since t p = (case bp_closed p of None \<Rightarrow> False | Some c \<Rightarrow> c \<ge> t)"

definition sumRealized :: "int option \<Rightarrow> BookPosition list \<Rightarrow> int" where
  "sumRealized since ps = sum_list (map bp_realized (case since of None \<Rightarrow> ps | Some t \<Rightarrow> filter (closed_since t) ps))"

text \<open>\<open>{ realized, closed }\<close> as a pair.\<close>

definition realizedForDay :: "int \<Rightarrow> BookPosition list \<Rightarrow> int \<times> int" where
  "realizedForDay dayStart ps =
    (let rows = filter (\<lambda>p. closed_since dayStart p \<and> \<not> closed_since (dayStart + DAY_MS) p) ps
     in (sum_list (map bp_realized rows), int (length rows)))"

text \<open>\<open>ORDER BY closed_utc_ms\<close>: nulls first.\<close>

definition close_order :: "BookPosition list \<Rightarrow> BookPosition list" where
  "close_order ps = filter (\<lambda>p. bp_closed p = None) ps @
     sort_key (\<lambda>p. nullish (bp_closed p) 0) (filter (\<lambda>p. bp_closed p \<noteq> None) ps)"

fun peak_loop :: "int \<Rightarrow> int \<Rightarrow> int list \<Rightarrow> int" where
  "peak_loop nav peak [] = peak"
| "peak_loop nav peak (r # rs) = (let nav = nav + r in peak_loop nav (if nav > peak then nav else peak) rs)"

definition peakNav :: "int \<Rightarrow> BookPosition list \<Rightarrow> int" where
  "peakNav startLamports ps = peak_loop startLamports startLamports (map bp_realized (close_order ps))"

definition restoreLedger :: "AppConfig \<Rightarrow> BookPosition list \<Rightarrow> int \<Rightarrow> Ledger" where
  "restoreLedger config ps now =
    (let exposure = summariseExposure ps;
         nav = paperStartLamports config + sumRealized None ps;
         dayStart = utcDayStart now
     in \<lparr>lg_navLamports = nav, lg_freeLamports = nav - es_totalCostLamports exposure,
         lg_realizedTodayLamports = fst (realizedForDay dayStart ps), lg_dayStartUtcMs = dayStart,
         lg_peakNavLamports = peakNav (paperStartLamports config) ps,
         lg_lockedRentLamports = es_ataCount exposure * assumedAtaRentLamports config\<rparr>)"

definition WEEK_MS :: int where
  "WEEK_MS = 7 * DAY_MS"

definition realizedWeek :: "BookPosition list \<Rightarrow> int \<Rightarrow> int" where
  "realizedWeek ps now = sumRealized (Some (now - WEEK_MS)) ps"

record DayRecord =
  dr_realizedLamports :: int
  dr_positionsClosed :: int
  dr_rolledUtcMs :: int

record DayRoll =
  rolled :: bool
  daysSkipped :: int
  wentBackward :: bool

text \<open>\<open>daily_accounting\<close> by day; \<open>ON CONFLICT\<close> overwrites.\<close>

definition rollDayIfNeeded :: "BookPosition list \<Rightarrow> (int \<rightharpoonup> DayRecord) \<Rightarrow> Ledger \<Rightarrow> int \<Rightarrow>
    (int \<rightharpoonup> DayRecord) \<times> Ledger \<times> DayRoll" where
  "rollDayIfNeeded ps days ledger now =
    (let today = utcDayStart now in
     if today = lg_dayStartUtcMs ledger then (days, ledger, \<lparr>rolled = False, daysSkipped = 0, wentBackward = False\<rparr>)
     else
       let skipped = utcDaysBetween (lg_dayStartUtcMs ledger) today;
           (realized, closed) = realizedForDay (lg_dayStartUtcMs ledger) ps
       in (days(lg_dayStartUtcMs ledger \<mapsto>
             \<lparr>dr_realizedLamports = realized, dr_positionsClosed = closed, dr_rolledUtcMs = now\<rparr>),
           ledger\<lparr>lg_dayStartUtcMs := today, lg_realizedTodayLamports := fst (realizedForDay today ps)\<rparr>,
           \<lparr>rolled = True, daysSkipped = skipped, wentBackward = (skipped < 0)\<rparr>))"

section \<open>Entering\<close>

definition portfolio_state :: "AppConfig \<Rightarrow> BookPosition list \<Rightarrow> Ledger \<Rightarrow> int \<Rightarrow> PortfolioState" where
  "portfolio_state config ps ledger now =
    (let held = managedPositions ps in
     \<lparr>ps_navLamports = lg_navLamports ledger, ps_freeLamports = lg_freeLamports ledger,
      ps_openPositions = int (length held), ps_totalExposureLamports = sum_list (map bp_cost held),
      ps_realizedTodayLamports = lg_realizedTodayLamports ledger, ps_realizedWeekLamports = realizedWeek ps now,
      ps_plannedLossLamports =
        sum_list (map (\<lambda>p. bdiv (bp_cost p * plannedLossFractionBps config None) 10000) held),
      ps_peakNavLamports = lg_peakNavLamports ledger, ps_observedSevereLossBps = None\<rparr>)"

text \<open>
  What one call of \<open>tryEnter\<close> meets: the screened round trip, the clock, the taker, and the answers of the
  route observer, the simulator and the settlement store. A measurement that throws is an exception of the
  call, which like a refusal changes nothing.
\<close>

record EntryEnv =
  ee_mint :: string
  ee_score :: "rat option"
  ee_exitExists :: bool
  ee_quoteReceived :: int
  ee_now :: int
  ee_opened :: int
  ee_taker :: bool
  ee_positionId :: string
  ee_observe :: "RouteRequest \<Rightarrow> ExecutionObservation option"
  ee_simulate :: "string \<Rightarrow> LegToSimulate \<Rightarrow> SimulationOutcome \<times> SimulationEffectOutcome"
  ee_settlementOf :: "string \<Rightarrow> MeasuredLegSettlement option"

datatype entry_outcome =
    no_exit_quoted | quote_too_old int | refused_by_portfolio SizingRefusal | no_taker | entry_unobservable
  | entry_not_admitted "admission_reason list" | transfer_fee_unknown | settlement_vanished
  | entry_raised | entered BookPosition

definition entry_deps :: "EntryEnv \<Rightarrow> Collaborators" where
  "entry_deps e = \<lparr>observe = ee_observe e, simulate = ee_simulate e,
     measure_acquired = acquired_reader (ee_settlementOf e),
     measure_round_trip = (\<lambda>b x. case round_trip_reader (ee_settlementOf e) b x of Inr m \<Rightarrow> m | Inl _ \<Rightarrow> None)\<rparr>"

definition entry_economics :: "AppConfig \<Rightarrow> int \<Rightarrow> EntryEconomics" where
  "entry_economics config lamportsIn =
     \<lparr>allInCostLamports = lamportsIn + assumedSignatureFeeLamports config + assumedPriorityFeeLamports config,
      en_requireLocalSimulation = requireLocalSimulation config, en_maxRoundTripLossBps = maxRoundTripLossBps config\<rparr>"

definition entry_costs :: "AppConfig \<Rightarrow> int \<Rightarrow> int \<Rightarrow> EntryCosts" where
  "entry_costs config lamportsIn transferFee = \<lparr>ec_inputLamports = lamportsIn,
     ec_signatureFeeLamports = assumedSignatureFeeLamports config,
     ec_priorityFeeLamports = assumedPriorityFeeLamports config,
     ec_broadcasterTipLamports = assumedBroadcasterTipLamports config,
     ataRentLamports = assumedAtaRentLamports config, ec_transferFeeLamports = transferFee,
     ec_platformFeeLamports = 0, ec_assumedFailedAttemptLamports = 0\<rparr>"

fun family_text :: "RouteFamily \<Rightarrow> string" where
  "family_text ORDER_EXECUTE = ''ORDER_EXECUTE''"
| "family_text BUILD_CUSTOM = ''BUILD_CUSTOM''"
| "family_text DIRECT_VENUE = ''DIRECT_VENUE''"
| "family_text QUOTE_ONLY_BENCHMARK = ''QUOTE_ONLY_BENCHMARK''"

text \<open>The row written for an admitted entry, with the observation it is bound to.\<close>

definition opened_position :: "AppConfig \<Rightarrow> EntryEnv \<Rightarrow> ExecutionObservation \<Rightarrow> int \<Rightarrow> int \<Rightarrow>
    MeasuredLegSettlement \<Rightarrow> int \<Rightarrow> int \<Rightarrow> BookPosition" where
  "opened_position config e b tokens cost st cashOut rent = \<lparr>bp_id = ee_positionId e, bp_mint = ee_mint e,
     bp_state = PS_POSITION_OPEN, bp_tokens = tokens, bp_cost = cost, bp_realized = 0, bp_opened = ee_opened e,
     bp_closed = None, bp_strategyVersion = ac_strategyVersion config, bp_exitReason = None, bp_peak = Some cost,
     bp_executionCost = Some (executionCost st), bp_grossProceeds = None, bp_netPnl = None,
     bp_entryCashOut = Some cashOut, bp_exitCashIn = None, bp_lockedRent = Some rent, bp_residualAtoms = None,
     bp_blockedSince = None, bp_triggered = None, bp_triggerReason = None, bp_exitAttempts = 0,
     bp_lastExitAttempt = None, bp_lastExitFailure = None, bp_fillLatency = None,
     bp_entryObservation = Some (observationId b), bp_exitObservation = None,
     bp_routeFamily = Some (family_text (family b))\<rparr>"

text \<open>From the admission to the ledger.\<close>

definition book_entry :: "AppConfig \<Rightarrow> EntryEnv \<Rightarrow> int \<Rightarrow> EntryAdmission \<Rightarrow> BookPosition list \<Rightarrow> Ledger \<Rightarrow>
    entry_outcome \<times> BookPosition list \<times> Ledger" where
  "book_entry config e lamportsIn admission ps ledger =
    (case ad_buy admission of None \<Rightarrow> (entry_unobservable, ps, ledger)
     | Some b \<Rightarrow>
       case (ad_ok admission, ad_sell admission, ad_tokensAcquired admission) of
         (True, Some s, Some tokens) \<Rightarrow>
           (case ee_settlementOf e (observationId b) of
              None \<Rightarrow> (transfer_fee_unknown, ps, ledger)
            | Some st \<Rightarrow>
              case transferFeeOrUnknown st of None \<Rightarrow> (transfer_fee_unknown, ps, ledger)
              | Some fee \<Rightarrow>
                let cost = totalEntryCost (entry_costs config lamportsIn fee) in
                case Settlement.entryCashOut st of Inl _ \<Rightarrow> (entry_raised, ps, ledger)
                | Inr (cashOut, rent) \<Rightarrow>
                  let p = opened_position config e b tokens cost st cashOut rent in
                  case insertPosition p ps of Inl _ \<Rightarrow> (entry_raised, ps, ledger)
                  | Inr ps' \<Rightarrow> (entered p, ps',
                      ledger\<lparr>lg_freeLamports := lg_freeLamports ledger - cost,
                             lg_lockedRentLamports := lg_lockedRentLamports ledger + assumedAtaRentLamports config\<rparr>))
       | _ \<Rightarrow> (entry_not_admitted (ad_reasons admission), ps, ledger))"

definition tryEnter :: "AppConfig \<Rightarrow> EntryEnv \<Rightarrow> BookPosition list \<Rightarrow> Ledger \<Rightarrow>
    entry_outcome \<times> BookPosition list \<times> Ledger" where
  "tryEnter config e ps ledger =
    (if \<not> ee_exitExists e then (no_exit_quoted, ps, ledger)
     else if ee_now e - ee_quoteReceived e > maxQuoteAgeMs config
     then (quote_too_old (ee_now e - ee_quoteReceived e), ps, ledger)
     else case sizePosition (portfolio_state config ps ledger (ee_now e)) config (nullish (ee_score e) 0) of
       Inl refusal \<Rightarrow> (refused_by_portfolio refusal, ps, ledger)
     | Inr lamportsIn \<Rightarrow>
       if \<not> ee_taker e then (no_taker, ps, ledger)
       else book_entry config e lamportsIn
         (admitPortfolioEntry (entry_deps e) (ee_mint e) lamportsIn (entry_economics config lamportsIn)) ps ledger)"

section \<open>Managing\<close>

definition EXIT_RETRY_INTERVAL_MS :: int where
  "EXIT_RETRY_INTERVAL_MS = 30000"

text \<open>
  What one pass over a position meets: two readings of the clock, the router's quote (its output), the expected
  output of the exact-size mark, the exit observation (\<open>None\<close> when observing it throws), the simulator's
  verdict on it, and the settlement its simulation measured.
\<close>

record ExitEnv =
  xe_checkedAt :: int
  xe_now :: int
  xe_providerFailed :: bool
  xe_sell :: "int option"
  xe_mark :: "int option"
  xe_exit :: "ExecutionObservation option"
  xe_verdict :: "SimulationOutcome \<times> SimulationEffectOutcome"
  xe_settlement :: "MeasuredLegSettlement option"

datatype exit_outcome =
    retry_later | provider_outage | not_priced | keep | no_sell_route ExitReason | exit_triggered ExitReason
  | fill_pending | exit_raised | exit_blocked "Accounting.leg_reason list" | awaiting_fill FillOutcome
  | exit_closed ExitReason int

definition paper_ata :: "AppConfig \<Rightarrow> AtaState" where
  "paper_ata config = \<lparr>ataCreated = True, ataRentLockedLamports = assumedAtaRentLamports config,
     ataCloseBuildable = None, ataCloseSimulated = None, ataCloseAttempted = False, ataCloseConfirmed = False,
     residualTokenAmount = Some 0, withheldTransferFeeLamports = None,
     ataCloseFeeLamports = assumedSignatureFeeLamports config\<rparr>"

definition exit_proceeds :: "AppConfig \<Rightarrow> int \<Rightarrow> MeasuredLegSettlement option \<Rightarrow> int" where
  "exit_proceeds config gross settlement = netExitProceeds \<lparr>grossProceedsLamports = gross,
     xc_signatureFeeLamports = assumedSignatureFeeLamports config,
     xc_priorityFeeLamports = assumedPriorityFeeLamports config,
     xc_broadcasterTipLamports = assumedBroadcasterTipLamports config,
     xc_transferFeeLamports = (case settlement of None \<Rightarrow> 0 | Some s \<Rightarrow> nullish (transferFeeOrUnknown s) 0),
     closeAccountFeeLamports = assumedSignatureFeeLamports config,
     xc_assumedFailedAttemptLamports = 0,
     ataRentRecoveredLamports = av_recovered (settleAtaRent (paper_ata config))\<rparr>"

text \<open>The closing update of the row and of the ledger; \<open>Inl\<close> is the exception of \<open>exitCashIn\<close>.\<close>

definition close_position :: "AppConfig \<Rightarrow> ExitEnv \<Rightarrow> ExitReason \<Rightarrow> int \<Rightarrow> int \<Rightarrow> BookPosition \<Rightarrow> Ledger \<Rightarrow>
    settlement_error + BookPosition \<times> Ledger" where
  "close_position config e reason gross latency p ledger =
    (let settlement = xe_settlement e;
         proceeds = exit_proceeds config gross settlement;
         realized = proceeds - bp_cost p;
         recovered = av_recovered (settleAtaRent (paper_ata config));
         settledGross = (case settlement of None \<Rightarrow> Inr gross
           | Some s \<Rightarrow> if fst (isPnlEligible s) then Settlement.exitCashIn s else Inr gross);
         bookedCashOut = nullish (bp_entryCashOut p) (bp_cost p);
         bookedEntryExecutionCost = nullish (bp_executionCost p) 0
     in ebind settledGross (\<lambda>settled.
       let nav = lg_navLamports ledger + realized;
           locked = lg_lockedRentLamports ledger - assumedAtaRentLamports config
       in Inr (p\<lparr>bp_state := PS_POSITION_CLOSED, bp_realized := realized, bp_closed := Some (xe_now e),
                  bp_exitReason := Some reason, bp_tokens := 0,
                  bp_executionCost := Some (bookedEntryExecutionCost +
                    (case settlement of None \<Rightarrow> 0 | Some s \<Rightarrow> executionCost s)),
                  bp_grossProceeds := Some settled, bp_fillLatency := Some latency,
                  bp_netPnl := Some (settled - bookedCashOut), bp_exitCashIn := Some settled,
                  bp_entryCashOut := Some bookedCashOut,
                  bp_lockedRent := (case settlement of None \<Rightarrow> bp_lockedRent p
                    | Some s \<Rightarrow> Some (rentCreatedLamports (costs s) - rentRecoveredLamports (costs s))),
                  bp_residualAtoms := (case settlement of None \<Rightarrow> bp_residualAtoms p
                    | Some s \<Rightarrow> (case residualTokenAtoms s of None \<Rightarrow> bp_residualAtoms p | Some r \<Rightarrow> Some r))\<rparr>,
               ledger\<lparr>lg_freeLamports := lg_freeLamports ledger + (proceeds + recovered),
                 lg_navLamports := nav,
                 lg_realizedTodayLamports := lg_realizedTodayLamports ledger + realized,
                 lg_lockedRentLamports := (if locked < 0 then 0 else locked),
                 lg_peakNavLamports := (if nav > lg_peakNavLamports ledger then nav else lg_peakNavLamports ledger)\<rparr>)))"

text \<open>The fill: the exit observation is admitted, then resolved against the recorded trigger.\<close>

definition fill_exit :: "AppConfig \<Rightarrow> ExitEnv \<Rightarrow> ExitReason \<Rightarrow> int \<Rightarrow> BookPosition \<Rightarrow> Ledger \<Rightarrow>
    exit_outcome \<times> BookPosition \<times> Ledger" where
  "fill_exit config e reason triggeredAt p ledger =
    (case xe_exit e of None \<Rightarrow> (exit_raised, p, ledger)
     | Some ob \<Rightarrow>
       let admission = admitPortfolioExit ob (xe_verdict e) (requireLocalSimulation config) in
       if \<not> xa_ok admission
       then (exit_blocked (xa_reasons admission), markExitBlocked (xe_now e) (xa_reasons admission) p, ledger)
       else
         let p = p\<lparr>bp_exitObservation := Some (observationId ob)\<rparr>;
             gross = netExpectedOutput ob;
             fill = resolveFill triggeredAt (nullish (bp_routeFamily p) (primaryRouteFamily config))
               [\<lparr>fc_observationId = observationId ob, fc_observedUtcMs = xe_now e,
                 ShadowExit.FillCandidate.fc_family = family_text (family ob),
                 fc_effectValid = (snd (xe_verdict e) = SIMULATED_EFFECT_OK), fc_executable = Some gross\<rparr>]
               FROZEN_FILL_LATENCY_MS
         in case fill of
              filled c latency \<Rightarrow>
                (case close_position config e reason gross latency p ledger of
                   Inl _ \<Rightarrow> (exit_raised, p, ledger)
                 | Inr (p', ledger') \<Rightarrow> (exit_closed reason latency, p', ledger'))
            | _ \<Rightarrow> (awaiting_fill fill, p, ledger))"

definition raised_peak :: "int \<Rightarrow> BookPosition \<Rightarrow> int" where
  "raised_peak mark p = (let peak = nullish (bp_peak p) (bp_cost p) in if mark > peak then mark else peak)"

definition exit_inputs :: "ExitEnv \<Rightarrow> int \<Rightarrow> BookPosition \<Rightarrow> ExitInputs" where
  "exit_inputs e mark p = \<lparr>costLamports = bp_cost p, peakValueLamports = raised_peak mark p,
     markLamports = Some mark, openedUtcMs = bp_opened p, nowUtcMs = xe_now e,
     exitRouteExists = (case xe_sell e of None \<Rightarrow> False | Some out \<Rightarrow> out > 0)\<rparr>"

text \<open>A priced mark: the peak, the exit rules, the trigger, and the fill of an older trigger.\<close>

definition work_mark :: "AppConfig \<Rightarrow> ExitEnv \<Rightarrow> int \<Rightarrow> BookPosition \<Rightarrow> Ledger \<Rightarrow>
    exit_outcome \<times> BookPosition \<times> Ledger" where
  "work_mark config e mark p0 ledger =
    (let p = (if raised_peak mark p0 \<noteq> nullish (bp_peak p0) (bp_cost p0)
              then p0\<lparr>bp_peak := Some (raised_peak mark p0)\<rparr> else p0)
     in case decideExit (exit_inputs e mark p0) (exits config) of
          None \<Rightarrow> (keep, p, ledger)
        | Some reason \<Rightarrow>
          if xe_sell e = None
          then (no_sell_route reason, p\<lparr>bp_state := PS_EXIT_BLOCKED, bp_exitReason := Some reason\<rparr>, ledger)
          else case bp_triggered p of
            None \<Rightarrow> (exit_triggered reason, p\<lparr>bp_state := PS_AWAITING_FILL_OBSERVATION,
              bp_triggered := Some (xe_now e), bp_triggerReason := Some reason\<rparr>, ledger)
          | Some t \<Rightarrow>
            if xe_now e < t + FROZEN_FILL_LATENCY_MS then (fill_pending, p, ledger)
            else fill_exit config e reason t p ledger)"

definition work_position :: "AppConfig \<Rightarrow> ExitEnv \<Rightarrow> BookPosition \<Rightarrow> Ledger \<Rightarrow> exit_outcome \<times> BookPosition \<times> Ledger" where
  "work_position config e p ledger =
    (if bp_state p = PS_EXIT_BLOCKED \<and>
        (case bp_lastExitAttempt p of None \<Rightarrow> False | Some t \<Rightarrow> xe_checkedAt e - t < EXIT_RETRY_INTERVAL_MS)
     then (retry_later, p, ledger)
     else
       let decision = chooseDecisionMark (xe_mark e) (xe_sell e) (assumedPriorityFeeLamports config) in
       if xe_providerFailed e then (provider_outage, p, ledger)
       else case md_markLamports decision of
         None \<Rightarrow> (not_priced, p, ledger)
       | Some mark \<Rightarrow> work_mark config e mark p ledger)"

text \<open>The loop over the managed rows as they were read; an exception ends it.\<close>

fun manage_rows :: "AppConfig \<Rightarrow> (string \<Rightarrow> ExitEnv) \<Rightarrow> BookPosition list \<Rightarrow> BookPosition list \<Rightarrow> Ledger \<Rightarrow>
    exit_outcome list \<times> BookPosition list \<times> Ledger" where
  "manage_rows config env [] ps ledger = ([], ps, ledger)"
| "manage_rows config env (row # rows) ps ledger =
    (let (out, row', ledger') = work_position config (env (bp_id row)) row ledger;
         ps' = update_position (bp_id row) (\<lambda>_. row') ps
     in if out = exit_raised then ([out], ps', ledger')
        else let (outs, ps'', ledger'') = manage_rows config env rows ps' ledger' in (out # outs, ps'', ledger''))"

definition manageOpenPositions :: "AppConfig \<Rightarrow> bool \<Rightarrow> string list \<Rightarrow> (string \<Rightarrow> ExitEnv) \<Rightarrow> BookPosition list \<Rightarrow> Ledger \<Rightarrow>
    exit_outcome list \<times> BookPosition list \<times> Ledger" where
  "manageOpenPositions config taker urgent env ps ledger =
    (if \<not> taker then ([], ps, ledger)
     else manage_rows config env
       (sort_key (\<lambda>p. if bp_mint p \<in> set urgent then 0 else 1 :: nat) (managedPositions ps)) ps ledger)"

section \<open>Histories\<close>

text \<open>
  A history of the engine over its book: a process starts, restarts, rolls the day, tries an entry, or works one
  managed position, at clock readings that never go back; a position is worked strictly after the last reading.
  \<open>P\<close> restricts what entries may observe.
\<close>

inductive engine :: "AppConfig \<Rightarrow> (EntryEnv \<Rightarrow> bool) \<Rightarrow> int \<Rightarrow> BookPosition list \<Rightarrow> Ledger \<Rightarrow> bool"
  for config P where
  start: "engine config P now [] (restoreLedger config [] now)"
| restart: "engine config P T ps ledger \<Longrightarrow> T \<le> now \<Longrightarrow> engine config P now ps (restoreLedger config ps now)"
| roll: "engine config P T ps ledger \<Longrightarrow> T \<le> now \<Longrightarrow> rollDayIfNeeded ps days ledger now = (days', ledger', r) \<Longrightarrow>
    engine config P now ps ledger'"
| enter: "engine config P T ps ledger \<Longrightarrow> T \<le> ee_now e \<Longrightarrow> P e \<Longrightarrow> tryEnter config e ps ledger = (out, ps', ledger') \<Longrightarrow>
    engine config P (ee_now e) ps' ledger'"
| work: "engine config P T ps ledger \<Longrightarrow> p \<in> set (managedPositions ps) \<Longrightarrow> T < xe_now e \<Longrightarrow>
    work_position config e p ledger = (out, p', ledger') \<Longrightarrow>
    engine config P (xe_now e) (update_position (bp_id p) (\<lambda>_. p') ps) ledger'"

section \<open>Sums over a book\<close>

definition open_rows :: "BookPosition list \<Rightarrow> BookPosition list" where
  "open_rows ps = filter (\<lambda>p. bp_closed p = None) ps"

definition row_ok :: "BookPosition \<Rightarrow> bool" where
  "row_ok p \<longleftrightarrow> (case bp_closed p of
      None \<Rightarrow> 0 < bp_tokens p \<and> bp_realized p = 0 \<and> bp_state p \<in> set MANAGED_STATES
    | Some t \<Rightarrow> bp_tokens p = 0 \<and> bp_state p = PS_POSITION_CLOSED)"

definition book_ok :: "BookPosition list \<Rightarrow> bool" where
  "book_ok ps \<longleftrightarrow> distinct (map bp_id ps) \<and> list_all row_ok ps"

lemma row_ok_managed: "row_ok p \<Longrightarrow> bp_state p \<in> set MANAGED_STATES \<longleftrightarrow> bp_closed p = None"
  by (auto simp: row_ok_def MANAGED_STATES_def split: option.splits)

lemma managed_open_rows: "list_all row_ok ps \<Longrightarrow> managedPositions ps = sort_key bp_opened (open_rows ps)"
proof -
  assume "list_all row_ok ps"
  then have "filter (\<lambda>p. bp_state p \<in> set MANAGED_STATES) ps = open_rows ps"
    unfolding open_rows_def by (intro filter_cong) (auto simp: list_all_iff row_ok_managed)
  then show ?thesis by (simp add: managedPositions_def)
qed

lemma exposed_open_rows: "list_all row_ok ps \<Longrightarrow> exposedPositions ps = sort_key bp_opened (open_rows ps)"
  unfolding exposedPositions_def open_rows_def
  by (intro filter_True) (auto simp: list_all_iff row_ok_def split: option.splits)

lemma summary_open_rows:
  assumes "list_all row_ok ps"
  shows "es_totalCostLamports (summariseExposure ps) = sum_list (map bp_cost (open_rows ps))"
    and "es_ataCount (summariseExposure ps) = int (length (open_rows ps))"
  using exposed_open_rows [OF assms] by (simp_all add: summariseExposure_def Let_def)

lemma portfolio_open_rows:
  assumes "list_all row_ok ps"
  shows "ps_totalExposureLamports (portfolio_state config ps ledger now) = sum_list (map bp_cost (open_rows ps))"
    and "ps_openPositions (portfolio_state config ps ledger now) = int (length (open_rows ps))"
  using managed_open_rows [OF assms] by (simp_all add: portfolio_state_def Let_def)

text \<open>One row of a book with distinct ids.\<close>

lemma split_row:
  assumes "distinct (map bp_id ps)" and "p \<in> set ps"
  obtains xs ys where "ps = xs @ p # ys" and "\<forall>f. update_position (bp_id p) f ps = xs @ f p # ys"
proof -
  obtain xs ys where ps: "ps = xs @ p # ys" using assms(2) by (meson split_list)
  then have "bp_id p \<notin> bp_id ` set xs" "bp_id p \<notin> bp_id ` set ys" using assms(1) by auto
  then have "update_position (bp_id p) f xs = xs" "update_position (bp_id p) f ys = ys" for f
    unfolding update_position_def by (auto intro!: map_idI) (metis imageI)+
  then show ?thesis using that [OF ps] unfolding ps update_position_def by simp
qed

section \<open>The peak\<close>

lemma peak_loop_append: "peak_loop nav peak (xs @ [r]) =
    (let n = nav + sum_list xs + r in if n > peak_loop nav peak xs then n else peak_loop nav peak xs)"
  by (induction nav peak xs rule: peak_loop.induct) (simp_all add: Let_def add.assoc)

lemma peak_loop_zeros: "nav \<le> peak \<Longrightarrow> set xs \<subseteq> {0} \<Longrightarrow> peak_loop nav peak (xs @ ys) = peak_loop nav peak ys"
  by (induction xs) (simp_all add: Let_def)

definition closes :: "BookPosition list \<Rightarrow> BookPosition list" where
  "closes ps = sort_key (\<lambda>p. nullish (bp_closed p) 0) (filter (\<lambda>p. bp_closed p \<noteq> None) ps)"

lemma peakNav_closes:
  assumes "list_all row_ok ps"
  shows "peakNav start ps = peak_loop start start (map bp_realized (closes ps))"
proof -
  have "set (map bp_realized (filter (\<lambda>p. bp_closed p = None) ps)) \<subseteq> {0}"
    using assms by (auto simp: list_all_iff row_ok_def split: option.splits)
  then show ?thesis unfolding peakNav_def close_order_def closes_def map_append by (intro peak_loop_zeros) simp_all
qed

lemma sort_key_last:
  assumes "\<And>x. x \<in> set (xs @ ys) \<Longrightarrow> k x < (k z :: 'b :: linorder)"
  shows "sort_key k (xs @ z # ys) = sort_key k (xs @ ys) @ [z]"
proof (rule properties_for_sort_key)
  show "mset (sort_key k (xs @ ys) @ [z]) = mset (xs @ z # ys)" by simp
  show "sorted (map k (sort_key k (xs @ ys) @ [z]))"
    using assms by (auto simp: sorted_append intro: less_imp_le)
  have "filter (\<lambda>x. k y = k x) (sort_key k (xs @ ys) @ [z]) = filter (\<lambda>x. k y = k x) (xs @ z # ys)" for y
  proof (cases "k y = k z")
    case True
    then have none: "\<forall>x \<in> set (xs @ ys). k y \<noteq> k x" using assms by fastforce
    then have "filter (\<lambda>x. k y = k x) (sort_key k (xs @ ys)) = []" by (simp add: filter_empty_conv)
    moreover have "filter (\<lambda>x. k y = k x) xs = []" "filter (\<lambda>x. k y = k x) ys = []"
      using none by (simp_all add: filter_empty_conv)
    ultimately show ?thesis using True by simp
  next
    case False
    then show ?thesis using sort_key_stable [of k "k y" "xs @ ys"] by (simp add: eq_commute)
  qed
  then show "\<And>y. y \<in> set (sort_key k (xs @ ys) @ [z]) \<Longrightarrow>
      filter (\<lambda>x. k y = k x) (sort_key k (xs @ ys) @ [z]) = filter (\<lambda>x. k y = k x) (xs @ z # ys)" by blast
qed

section \<open>The effect of a close and of an entry\<close>

lemma paper_rent_unrecovered [simp]: "av_recovered (settleAtaRent (paper_ata config)) = 0"
  by (simp add: settleAtaRent_def paper_ata_def Let_def)

lemma close_position_fields:
  assumes "close_position config e reason gross latency p ledger = Inr (p', ledger')"
  shows "bp_id p' = bp_id p" and "bp_cost p' = bp_cost p" and "bp_closed p' = Some (xe_now e)"
    and "bp_state p' = PS_POSITION_CLOSED" and "bp_tokens p' = 0" and "bp_exitReason p' = Some reason"
    and "bp_realized p' = exit_proceeds config gross (xe_settlement e) - bp_cost p"
    and "bp_fillLatency p' = Some latency"
    and "lg_navLamports ledger' = lg_navLamports ledger + bp_realized p'"
    and "lg_freeLamports ledger' = lg_freeLamports ledger + bp_cost p + bp_realized p'"
    and "lg_realizedTodayLamports ledger' = lg_realizedTodayLamports ledger + bp_realized p'"
    and "lg_dayStartUtcMs ledger' = lg_dayStartUtcMs ledger"
    and "lg_peakNavLamports ledger' = (if lg_navLamports ledger' > lg_peakNavLamports ledger
      then lg_navLamports ledger' else lg_peakNavLamports ledger)"
    and "lg_lockedRentLamports ledger' = max 0 (lg_lockedRentLamports ledger - assumedAtaRentLamports config)"
  using assms by (auto simp: close_position_def Let_def ebind_eq_Inr)

text \<open>Everything but a close keeps the money: the row stays open with its tokens and cost, the ledger is untouched.\<close>

definition kept :: "BookPosition \<Rightarrow> BookPosition \<Rightarrow> bool" where
  "kept p p' \<longleftrightarrow> bp_id p' = bp_id p \<and> bp_cost p' = bp_cost p \<and> bp_tokens p' = bp_tokens p \<and>
     bp_realized p' = bp_realized p \<and> bp_closed p' = bp_closed p \<and>
     (bp_state p' = bp_state p \<or> bp_state p' \<in> {PS_AWAITING_FILL_OBSERVATION, PS_EXIT_BLOCKED})"

lemma kept_refl [simp]: "kept p p"
  by (simp add: kept_def)

lemma fill_exit_cases:
  assumes "fill_exit config e reason t p ledger = (out, p', ledger')"
  obtains (kept) "kept p p'" and "ledger' = ledger" and "\<And>r l. out \<noteq> exit_closed r l"
  | (closed) ob l where "out = exit_closed reason l" and "xe_exit e = Some ob"
    and "xa_ok (admitPortfolioExit ob (xe_verdict e) (requireLocalSimulation config))"
    and "snd (xe_verdict e) = SIMULATED_EFFECT_OK" and "t + FROZEN_FILL_LATENCY_MS \<le> xe_now e" and "l = xe_now e - t"
    and "nullish (bp_routeFamily p) (primaryRouteFamily config) = family_text (family ob)"
    and "close_position config e reason (netExpectedOutput ob) l (p\<lparr>bp_exitObservation := Some (observationId ob)\<rparr>) ledger
      = Inr (p', ledger')"
proof (cases "xe_exit e")
  case None
  then show ?thesis using assms by (intro kept) (auto simp: fill_exit_def)
next
  case (Some ob)
  let ?a = "admitPortfolioExit ob (xe_verdict e) (requireLocalSimulation config)"
  show ?thesis
  proof (cases "xa_ok ?a")
    case False
    then show ?thesis
      using assms Some by (intro kept) (auto simp: fill_exit_def Let_def markExitBlocked_def kept_def)
  next
    case ok: True
    let ?p = "p\<lparr>bp_exitObservation := Some (observationId ob)\<rparr>"
    let ?c = "\<lparr>fc_observationId = observationId ob, fc_observedUtcMs = xe_now e,
                 ShadowExit.FillCandidate.fc_family = family_text (family ob),
                 fc_effectValid = (snd (xe_verdict e) = SIMULATED_EFFECT_OK), fc_executable = Some (netExpectedOutput ob)\<rparr>"
    let ?fill = "resolveFill t (nullish (bp_routeFamily p) (primaryRouteFamily config)) [?c] FROZEN_FILL_LATENCY_MS"
    have keep: "kept p ?p" by (simp add: kept_def)
    show ?thesis
    proof (cases "\<exists>c l. ?fill = filled c l")
      case False
      then have "p' = ?p" "ledger' = ledger" "out = awaiting_fill ?fill"
        using assms Some ok by (auto simp: fill_exit_def Let_def split: FillOutcome.splits)
      then show ?thesis using keep by (intro kept) simp_all
    next
      case True
      then obtain c l where fill: "?fill = filled c l" by blast
      have valid: "c = ?c" "l = xe_now e - t" "t + FROZEN_FILL_LATENCY_MS \<le> xe_now e"
        "snd (xe_verdict e) = SIMULATED_EFFECT_OK"
        "nullish (bp_routeFamily p) (primaryRouteFamily config) = family_text (family ob)"
        using fill by (auto simp: resolveFill_def Let_def split: if_splits)
      show ?thesis
      proof (cases "close_position config e reason (netExpectedOutput ob) l ?p ledger")
        case (Inl err)
        then have "p' = ?p" "ledger' = ledger" "out = exit_raised" using assms Some ok fill by (auto simp: fill_exit_def Let_def)
        then show ?thesis using keep by (intro kept) simp_all
      next
        case (Inr res)
        then have "out = exit_closed reason l" "res = (p', ledger')"
          using assms Some ok fill by (auto simp: fill_exit_def Let_def split: prod.splits)
        then show ?thesis using valid Inr Some ok by (intro closed) simp_all
      qed
    qed
  qed
qed

text \<open>What a pass over a position can do: keep the money, or close it at an admitted fill.\<close>

lemma work_position_cases:
  assumes "work_position config e p ledger = (out, p', ledger')"
  obtains (kept) "kept p p'" and "ledger' = ledger" and "\<And>r l. out \<noteq> exit_closed r l"
  | (closed) q mark reason t ob where "kept p q" and "xe_mark e \<noteq> None"
    and "decideExit (exit_inputs e mark p) (exits config) = Some reason" and "bp_triggered p = Some t"
    and "out = exit_closed reason (xe_now e - t)" and "xe_exit e = Some ob"
    and "xa_ok (admitPortfolioExit ob (xe_verdict e) (requireLocalSimulation config))"
    and "snd (xe_verdict e) = SIMULATED_EFFECT_OK" and "t + FROZEN_FILL_LATENCY_MS \<le> xe_now e"
    and "nullish (bp_routeFamily p) (primaryRouteFamily config) = family_text (family ob)"
    and "close_position config e reason (netExpectedOutput ob) (xe_now e - t) q ledger = Inr (p', ledger')"
proof (cases "md_markLamports (chooseDecisionMark (xe_mark e) (xe_sell e) (assumedPriorityFeeLamports config))")
  case None
  then show ?thesis using assms by (intro kept) (auto simp: work_position_def Let_def split: if_splits)
next
  case (Some mark)
  have priced: "xe_mark e \<noteq> None" using Some by (auto simp: chooseDecisionMark_def Let_def split: option.splits)
  define q where "q = (if raised_peak mark p \<noteq> nullish (bp_peak p) (bp_cost p)
    then p\<lparr>bp_peak := Some (raised_peak mark p)\<rparr> else p)"
  have q: "kept p q" "bp_triggered q = bp_triggered p" "bp_routeFamily q = bp_routeFamily p"
    by (simp_all add: q_def kept_def)
  have wm: "work_mark config e mark p ledger =
    (case decideExit (exit_inputs e mark p) (exits config) of None \<Rightarrow> (keep, q, ledger)
     | Some reason \<Rightarrow>
       if xe_sell e = None
       then (no_sell_route reason, q\<lparr>bp_state := PS_EXIT_BLOCKED, bp_exitReason := Some reason\<rparr>, ledger)
       else case bp_triggered p of
         None \<Rightarrow> (exit_triggered reason, q\<lparr>bp_state := PS_AWAITING_FILL_OBSERVATION,
           bp_triggered := Some (xe_now e), bp_triggerReason := Some reason\<rparr>, ledger)
       | Some t \<Rightarrow> if xe_now e < t + FROZEN_FILL_LATENCY_MS then (fill_pending, q, ledger)
           else fill_exit config e reason t q ledger)"
    unfolding work_mark_def Let_def q_def [symmetric] q(2) ..
  have "work_position config e p ledger \<in> {(retry_later, p, ledger), (provider_outage, p, ledger),
      work_mark config e mark p ledger}"
    using Some by (simp add: work_position_def Let_def split del: if_split split: if_splits)
  then consider "work_position config e p ledger = (retry_later, p, ledger)"
    | "work_position config e p ledger = (provider_outage, p, ledger)"
    | (work) "work_position config e p ledger = work_mark config e mark p ledger"
    by blast
  then show ?thesis
  proof cases
    case work
    show ?thesis
    proof (cases "decideExit (exit_inputs e mark p) (exits config)")
      case None
      then have "out = keep" "p' = q" "ledger' = ledger" using assms work by (simp_all add: wm)
      then show ?thesis using q by (intro kept) simp_all
    next
      case decided: (Some reason)
      show ?thesis
      proof (cases "xe_sell e")
        case None
        then have "out = no_sell_route reason" "p' = q\<lparr>bp_state := PS_EXIT_BLOCKED, bp_exitReason := Some reason\<rparr>"
          "ledger' = ledger"
          using assms work decided by (simp_all add: wm)
        then show ?thesis using q(1) by (intro kept) (simp_all add: kept_def)
      next
        case sell: (Some proceeds)
        show ?thesis
        proof (cases "bp_triggered p")
          case None
          then have "out = exit_triggered reason" "ledger' = ledger"
            "p' = q\<lparr>bp_state := PS_AWAITING_FILL_OBSERVATION, bp_triggered := Some (xe_now e), bp_triggerReason := Some reason\<rparr>"
            using assms work decided sell by (simp_all add: wm)
          then show ?thesis using q(1) by (intro kept) (simp_all add: kept_def)
        next
          case trig: (Some t)
          show ?thesis
          proof (cases "xe_now e < t + FROZEN_FILL_LATENCY_MS")
            case True
            then have "out = fill_pending" "p' = q" "ledger' = ledger"
              using assms work decided sell trig by (simp_all add: wm)
            then show ?thesis using q by (intro kept) simp_all
          next
            case False
            then have "fill_exit config e reason t q ledger = (out, p', ledger')"
              using assms work decided sell trig by (simp add: wm)
            then show ?thesis
            proof (cases rule: fill_exit_cases)
              case kept
              have "kept p p'" using q(1) kept(1) unfolding kept_def by auto
              then show ?thesis using kept(2,3) by (intro that(1))
            next
              case (closed ob l)
              have "kept p (q\<lparr>bp_exitObservation := Some (observationId ob)\<rparr>)" using q(1) by (simp add: kept_def)
              then show ?thesis
                using closed decided trig priced q(3) by (intro that(2) [of _ mark reason t ob]) simp_all
            qed
          qed
        qed
      qed
    qed
  qed (use assms in \<open>auto intro: that(1)\<close>)
qed

text \<open>What an entry can do: nothing, or append one open row and pay for it.\<close>

lemma tryEnter_cases:
  assumes "tryEnter config e ps ledger = (out, ps', ledger')"
  obtains (unchanged) "ps' = ps" and "ledger' = ledger" and "\<And>p. out \<noteq> entered p"
  | (opened) s b tokens st fee cashOut rent p where
    "sizePosition (portfolio_state config ps ledger (ee_now e)) config (nullish (ee_score e) 0) = Inr s"
    and "ad_ok (admitPortfolioEntry (entry_deps e) (ee_mint e) s (entry_economics config s))"
    and "ee_settlementOf e (observationId b) = Some st" and "transferFeeOrUnknown st = Some fee"
    and "p = opened_position config e b tokens (totalEntryCost (entry_costs config s fee)) st cashOut rent"
    and "0 < tokens" and "out = entered p" and "ps' = ps @ [p]" and "bp_id p \<notin> bp_id ` set ps"
    and "ledger' = ledger\<lparr>lg_freeLamports := lg_freeLamports ledger - bp_cost p,
      lg_lockedRentLamports := lg_lockedRentLamports ledger + assumedAtaRentLamports config\<rparr>"
proof (cases "\<exists>p. out = entered p")
  case False
  have "ps' = ps \<and> ledger' = ledger"
    using assms False unfolding tryEnter_def book_entry_def
    by (auto simp: Let_def split: if_splits sum.splits option.splits bool.splits prod.splits)
  then show ?thesis using False by (intro unchanged) auto
next
  case True
  then obtain p where out: "out = entered p" by blast
  obtain s where s: "sizePosition (portfolio_state config ps ledger (ee_now e)) config (nullish (ee_score e) 0) = Inr s"
    and book: "book_entry config e s (admitPortfolioEntry (entry_deps e) (ee_mint e) s (entry_economics config s)) ps ledger
      = (out, ps', ledger')"
    using assms out unfolding tryEnter_def by (auto split: if_splits sum.splits)
  let ?a = "admitPortfolioEntry (entry_deps e) (ee_mint e) s (entry_economics config s)"
  obtain b tokens st fee cashOut rent where parts: "ad_ok ?a" "ad_tokensAcquired ?a = Some tokens"
    "ee_settlementOf e (observationId b) = Some st" "transferFeeOrUnknown st = Some fee"
    and p: "p = opened_position config e b tokens (totalEntryCost (entry_costs config s fee)) st cashOut rent"
    and ins: "insertPosition p ps = Inr ps'"
    and led: "ledger' = ledger\<lparr>lg_freeLamports := lg_freeLamports ledger - totalEntryCost (entry_costs config s fee),
      lg_lockedRentLamports := lg_lockedRentLamports ledger + assumedAtaRentLamports config\<rparr>"
    using book out unfolding book_entry_def
    by (auto simp: Let_def split: sum.splits option.splits bool.splits prod.splits)
  have "0 < tokens"
  proof -
    obtain b' tokens' where "0 < tokens'" "?a = admit_exit_half (entry_deps e) (ee_mint e) (entry_economics config s) b' tokens' []"
      using parts(1) by (rule admitted_cases)
    then show ?thesis using parts(2) by (simp add: admit_exit_half_fields)
  qed
  moreover have "ps' = ps @ [p]" "bp_id p \<notin> bp_id ` set ps"
    using ins by (auto simp: insertPosition_def split: if_splits)
  moreover have "bp_cost p = totalEntryCost (entry_costs config s fee)" by (simp add: p opened_position_def)
  ultimately show ?thesis using opened [OF s parts(1,3,4) p] out led by simp
qed

section \<open>The invariant\<close>

definition day_total :: "int \<Rightarrow> BookPosition list \<Rightarrow> int" where
  "day_total dayStart ps = sumRealized (Some dayStart) ps"

definition ledger_ok :: "AppConfig \<Rightarrow> int \<Rightarrow> BookPosition list \<Rightarrow> Ledger \<Rightarrow> bool" where
  "ledger_ok config T ps l \<longleftrightarrow>
     lg_navLamports l = paperStartLamports config + sumRealized None ps \<and>
     lg_freeLamports l = lg_navLamports l - sum_list (map bp_cost (open_rows ps)) \<and>
     lg_lockedRentLamports l = int (length (open_rows ps)) * assumedAtaRentLamports config \<and>
     lg_peakNavLamports l = peakNav (paperStartLamports config) ps \<and>
     lg_realizedTodayLamports l = day_total (lg_dayStartUtcMs l) ps \<and>
     utcDayStart (lg_dayStartUtcMs l) = lg_dayStartUtcMs l \<and> lg_dayStartUtcMs l \<le> T"

definition closed_by :: "int \<Rightarrow> BookPosition list \<Rightarrow> bool" where
  "closed_by T ps \<longleftrightarrow> list_all (\<lambda>p. case bp_closed p of None \<Rightarrow> True | Some c \<Rightarrow> c \<le> T) ps"

lemma utcDayStart_bounds: "utcDayStart t \<le> t" "t < utcDayStart t + DAY_MS" "utcDayStart (utcDayStart t) = utcDayStart t"
proof -
  have "0 \<le> t mod DAY_MS" "t mod DAY_MS < DAY_MS" by (simp_all add: DAY_MS_def)
  then show "utcDayStart t \<le> t" "t < utcDayStart t + DAY_MS" by (simp_all add: utcDayStart_def)
  show "utcDayStart (utcDayStart t) = utcDayStart t" by (simp add: utcDayStart_def mod_simps)
qed

lemma realizedForDay_total:
  assumes "closed_by T ps" and "T < dayStart + DAY_MS"
  shows "fst (realizedForDay dayStart ps) = day_total dayStart ps"
proof -
  have "filter (\<lambda>p. closed_since dayStart p \<and> \<not> closed_since (dayStart + DAY_MS) p) ps = filter (closed_since dayStart) ps"
    using assms by (intro filter_cong) (auto simp: closed_by_def list_all_iff closed_since_def split: option.splits)
  then show ?thesis by (simp add: realizedForDay_def day_total_def sumRealized_def Let_def)
qed

lemma closed_byD: "closed_by T ps \<Longrightarrow> p \<in> set ps \<Longrightarrow> bp_closed p = Some c \<Longrightarrow> c \<le> T"
  by (auto simp: closed_by_def list_all_iff)

lemma closed_by_mono: "closed_by T ps \<Longrightarrow> T \<le> T' \<Longrightarrow> closed_by T' ps"
  by (auto simp: closed_by_def list_all_iff split: option.splits)

lemma today_total:
  assumes "closed_by T ps" and "T \<le> now"
  shows "fst (realizedForDay (utcDayStart now) ps) = day_total (utcDayStart now) ps"
  using closed_by_mono [OF assms] utcDayStart_bounds(2) by (rule realizedForDay_total)

lemma restored_ok:
  assumes "list_all row_ok ps" and "closed_by T ps" and "T \<le> now"
  shows "ledger_ok config now ps (restoreLedger config ps now)"
proof -
  have "fst (realizedForDay (utcDayStart now) ps) = day_total (utcDayStart now) ps"
    using assms(2,3) by (rule today_total)
  then show ?thesis
    using summary_open_rows [OF assms(1)] utcDayStart_bounds [of now]
    by (simp add: ledger_ok_def restoreLedger_def Let_def)
qed

text \<open>The ledger of a consistent book on the current day is the one a restart would compute.\<close>

lemma ledger_ok_restored:
  assumes "ledger_ok config T ps l" and "list_all row_ok ps" and "closed_by T' ps" and "T' \<le> now"
    and "lg_dayStartUtcMs l = utcDayStart now"
  shows "l = restoreLedger config ps now"
proof -
  have "fst (realizedForDay (utcDayStart now) ps) = day_total (utcDayStart now) ps"
    using assms(3,4) by (rule today_total)
  then show ?thesis
    using assms(1,5) summary_open_rows [OF assms(2)] unfolding ledger_ok_def restoreLedger_def Let_def
    by (intro Ledger.equality) simp_all
qed

lemma rolled_ok:
  assumes "ledger_ok config T ps l" and "closed_by T ps" and "T \<le> now"
    and "rollDayIfNeeded ps days l now = (days', l', r)"
  shows "ledger_ok config now ps l'" and "lg_dayStartUtcMs l' = utcDayStart now"
proof -
  have total: "fst (realizedForDay (utcDayStart now) ps) = day_total (utcDayStart now) ps"
    using assms(2,3) by (rule today_total)
  show "ledger_ok config now ps l'" and "lg_dayStartUtcMs l' = utcDayStart now"
    using assms(1,3,4) total utcDayStart_bounds [of now]
    by (auto simp: rollDayIfNeeded_def ledger_ok_def Let_def split: if_splits prod.splits)
qed

lemma kept_sums:
  assumes "ps = xs @ p # ys" and "ps' = xs @ p' # ys" and "kept p p'"
  shows "sumRealized since ps' = sumRealized since ps"
    and "sum_list (map bp_cost (open_rows ps')) = sum_list (map bp_cost (open_rows ps))"
    and "length (open_rows ps') = length (open_rows ps)" and "closed_by T ps' = closed_by T ps"
    and "map bp_id ps' = map bp_id ps"
  using assms by (auto simp: sumRealized_def closed_since_def open_rows_def closed_by_def kept_def split: option.splits)

lemma kept_row_ok: "row_ok p \<Longrightarrow> bp_closed p = None \<Longrightarrow> kept p p' \<Longrightarrow> row_ok p'"
  by (auto simp: row_ok_def kept_def MANAGED_STATES_def)

lemma open_closes:
  assumes "bp_closed p = None" and "bp_closed p' = None"
  shows "closes (xs @ p' # ys) = closes (xs @ p # ys)"
  using assms by (simp add: closes_def)

lemma peakNav_close:
  assumes "list_all row_ok (xs @ p # ys)" and "bp_closed p = None" and "row_ok p'" and "bp_closed p' = Some t"
    and "closed_by T (xs @ p # ys)" and "T < t"
  shows "peakNav start (xs @ p' # ys) =
    (let nav = start + sumRealized None (xs @ p # ys) + bp_realized p'
     in if nav > peakNav start (xs @ p # ys) then nav else peakNav start (xs @ p # ys))"
proof -
  let ?k = "\<lambda>p. nullish (bp_closed p) 0" and ?closed = "filter (\<lambda>p. bp_closed p \<noteq> None)"
  have "closes (xs @ p' # ys) = sort_key ?k (?closed xs @ p' # ?closed ys)"
    using assms(4) by (simp add: closes_def)
  also have "\<dots> = sort_key ?k (?closed xs @ ?closed ys) @ [p']"
    using assms(4,6) closed_byD [OF assms(5)] by (intro sort_key_last) fastforce
  also have "sort_key ?k (?closed xs @ ?closed ys) = closes (xs @ p # ys)"
    using assms(2) by (simp add: closes_def)
  finally have last: "closes (xs @ p' # ys) = closes (xs @ p # ys) @ [p']" .
  have sums: "sum_list (map bp_realized (closes qs)) = sumRealized None qs" if "list_all row_ok qs" for qs
  proof -
    have "sum_list (map bp_realized (?closed qs)) = sum_list (map bp_realized qs)"
      using that by (induction qs) (auto simp: row_ok_def)
    then show ?thesis by (simp add: closes_def sumRealized_def)
  qed
  have ok': "list_all row_ok (xs @ p' # ys)" using assms(1,3) by simp
  show ?thesis
    unfolding peakNav_closes [OF assms(1)] peakNav_closes [OF ok'] last
    using sums [OF assms(1)] by (simp add: peak_loop_append Let_def)
qed

definition consistent :: "AppConfig \<Rightarrow> int \<Rightarrow> BookPosition list \<Rightarrow> Ledger \<Rightarrow> bool" where
  "consistent config T ps l \<longleftrightarrow> book_ok ps \<and> closed_by T ps \<and> ledger_ok config T ps l"

lemma consistent_kept:
  assumes "consistent config T ps l" and "ps = xs @ p # ys" and "bp_closed p = None" and "kept p p'" and "T \<le> T'"
  shows "consistent config T' (xs @ p' # ys) l"
proof -
  note sums = kept_sums [OF assms(2) refl assms(4)]
  have rows: "list_all row_ok ps" "list_all row_ok (xs @ p' # ys)"
    using assms(1,2) kept_row_ok [OF _ assms(3,4)] by (simp_all add: consistent_def book_ok_def)
  have "closes (xs @ p' # ys) = closes ps"
    using assms(2-4) open_closes [of p p'] by (simp add: kept_def)
  then have "peakNav start (xs @ p' # ys) = peakNav start ps" for start
    unfolding peakNav_closes [OF rows(1)] peakNav_closes [OF rows(2)] by (rule arg_cong)
  then show ?thesis
    using assms(1,5) rows(2) sums closed_by_mono [OF _ assms(5), of ps] closed_by_mono [OF _ assms(5), of "xs @ p' # ys"]
    unfolding consistent_def book_ok_def ledger_ok_def day_total_def by simp
qed

lemma consistent_closed:
  assumes "consistent config T ps l" and "ps = xs @ p # ys" and "bp_closed p = None" and "T < xe_now e"
    and "kept p q" and "close_position config e reason gross lat q l = Inr (p', l')"
    and "0 \<le> assumedAtaRentLamports config"
  shows "consistent config (xe_now e) (xs @ p' # ys) l'"
proof -
  note c = close_position_fields [OF assms(6)]
  have q: "bp_id q = bp_id p" "bp_cost q = bp_cost p" using assms(5) by (simp_all add: kept_def)
  have ok: "list_all row_ok ps" "distinct (map bp_id ps)" "closed_by T ps" "ledger_ok config T ps l"
    using assms(1) by (simp_all add: consistent_def book_ok_def)
  have p: "bp_realized p = 0" using ok(1) assms(2,3) by (simp add: row_ok_def)
  have p': "row_ok p'" using c(3-5) by (simp add: row_ok_def)
  have sum: "sumRealized None (xs @ p' # ys) = sumRealized None ps + bp_realized p'"
    using assms(2) p by (simp add: sumRealized_def)
  have costs: "sum_list (map bp_cost (open_rows (xs @ p' # ys))) = sum_list (map bp_cost (open_rows ps)) - bp_cost p"
    using assms(2,3) c(3) by (simp add: open_rows_def)
  have len: "int (length (open_rows (xs @ p' # ys))) = int (length (open_rows ps)) - 1"
    using assms(2,3) c(3) by (simp add: open_rows_def)
  have day: "day_total d (xs @ p' # ys) = day_total d ps + bp_realized p'" if "d \<le> T" for d
    using that assms(2-4) c(3) by (simp add: day_total_def sumRealized_def closed_since_def)
  have peak: "peakNav (paperStartLamports config) (xs @ p' # ys) =
    (let nav = paperStartLamports config + sumRealized None ps + bp_realized p'
     in if nav > peakNav (paperStartLamports config) ps then nav else peakNav (paperStartLamports config) ps)"
    using peakNav_close [OF ok(1) [unfolded assms(2)] assms(3) p' c(3) ok(3) [unfolded assms(2)] assms(4)]
    unfolding assms(2) [symmetric] by blast
  have rent: "lg_lockedRentLamports l' = (int (length (open_rows ps)) - 1) * assumedAtaRentLamports config"
  proof -
    have "0 \<le> int (length (open_rows ps)) - 1" using assms(2,3) by (simp add: open_rows_def)
    then have "0 \<le> (int (length (open_rows ps)) - 1) * assumedAtaRentLamports config"
      using assms(7) by (rule mult_nonneg_nonneg)
    then show ?thesis using ok(4) c(14) by (simp add: ledger_ok_def algebra_simps)
  qed
  have "closed_by (xe_now e) (xs @ p' # ys)"
    using closed_by_mono [OF ok(3), of "xe_now e"] assms(2,4) c(3) by (simp add: closed_by_def)
  moreover have "book_ok (xs @ p' # ys)" using ok(1,2) assms(2) p' c(1) q(1) by (simp add: book_ok_def)
  moreover have "ledger_ok config (xe_now e) (xs @ p' # ys) l'"
    using ok(4) assms(4) sum costs len day peak rent c(9-13) q(2) unfolding ledger_ok_def Let_def by simp
  ultimately show ?thesis by (simp add: consistent_def)
qed

lemma consistent_worked:
  assumes "consistent config T ps l" and "p \<in> set (managedPositions ps)" and "T < xe_now e"
    and "work_position config e p l = (out, p', l')" and "0 \<le> assumedAtaRentLamports config"
  shows "consistent config (xe_now e) (update_position (bp_id p) (\<lambda>_. p') ps) l'"
proof -
  have ok: "list_all row_ok ps" "distinct (map bp_id ps)" using assms(1) by (simp_all add: consistent_def book_ok_def)
  have p: "p \<in> set ps" "bp_closed p = None"
    using assms(2) unfolding managed_open_rows [OF ok(1)] by (simp_all add: open_rows_def)
  obtain xs ys where ps: "ps = xs @ p # ys" and "\<forall>f. update_position (bp_id p) f ps = xs @ f p # ys"
    using ok(2) p(1) by (rule split_row)
  then have upd: "update_position (bp_id p) (\<lambda>_. p') ps = xs @ p' # ys" by simp
  show ?thesis
    using assms(4)
  proof (cases rule: work_position_cases)
    case kept
    then show ?thesis unfolding upd using assms(1,3) ps p(2) by (auto intro: consistent_kept)
  next
    case (closed q mark reason t ob)
    show ?thesis unfolding upd using assms(1) ps p(2) assms(3) closed(1,11) assms(5) by (rule consistent_closed)
  qed
qed

lemma consistent_entered:
  assumes "consistent config T ps l" and "T \<le> T'" and "tryEnter config e ps l = (out, ps', l')"
  shows "consistent config T' ps' l'"
  using assms(3)
proof (cases rule: tryEnter_cases)
  case unchanged
  then show ?thesis
    using assms(1,2) closed_by_mono [OF _ assms(2)] by (auto simp: consistent_def ledger_ok_def)
next
  case (opened s b tokens st fee cashOut rent p)
  have p: "bp_closed p = None" "row_ok p" "bp_realized p = 0"
    using opened(5,6) by (simp_all add: opened_position_def row_ok_def MANAGED_STATES_def)
  have ok: "list_all row_ok ps" "list_all row_ok ps'" using assms(1) p(2) opened(8) by (simp_all add: consistent_def book_ok_def)
  have "closes ps' = closes ps" using p(1) opened(8) by (simp add: closes_def)
  then have "peakNav start ps' = peakNav start ps" for start
    unfolding peakNav_closes [OF ok(1)] peakNav_closes [OF ok(2)] by (rule arg_cong)
  moreover have "closed_by T' ps'"
    using assms(1) closed_by_mono [OF _ assms(2), of ps] p(1) opened(8) by (simp add: consistent_def closed_by_def)
  moreover have "sumRealized None ps' = sumRealized None ps" "day_total d ps' = day_total d ps" for d
    using p(1,3) opened(8) by (simp_all add: sumRealized_def day_total_def closed_since_def)
  moreover have "open_rows ps' = open_rows ps @ [p]" using p(1) opened(8) by (simp add: open_rows_def)
  ultimately show ?thesis
    using assms(1,2) ok(2) opened(8-10) unfolding consistent_def book_ok_def ledger_ok_def
    by (simp add: algebra_simps)
qed

lemma engine_consistent:
  assumes "engine config P T ps l" and "0 \<le> assumedAtaRentLamports config"
  shows "consistent config T ps l"
  using assms(1)
proof (induction rule: engine.induct)
  case (start now)
  have "ledger_ok config now [] (restoreLedger config [] now)"
    by (rule restored_ok [of "[]" now]) (simp_all add: closed_by_def)
  then show ?case by (simp add: consistent_def book_ok_def closed_by_def)
next
  case (restart T ps l now)
  then show ?case
    using restored_ok [of ps T now config] closed_by_mono [of T ps now] by (simp add: consistent_def book_ok_def)
next
  case (roll T ps l now days days' l' r)
  then show ?case using rolled_ok(1) closed_by_mono unfolding consistent_def by blast
next
  case (enter T ps l e out ps' l')
  then show ?case by (blast intro: consistent_entered)
next
  case (work T ps l p e out p' l')
  then show ?case using assms(2) by (blast intro: consistent_worked)
qed

section \<open>Properties\<close>

text \<open>C11: 
  A restart changes nothing. After any history of entries, marks, triggers, blocked and filled exits, day rolls
  and earlier restarts, the ledger the running process holds once it has rolled the day is exactly the ledger a
  fresh process computes from the stored rows: net asset value, free balance, realised total of the day, peak and
  locked rent.
\<close>

theorem restart_changes_nothing:
  assumes "engine config P T ps ledger" and "T \<le> now" and "0 \<le> assumedAtaRentLamports config"
    and "rollDayIfNeeded ps days ledger now = (days', ledger', r)"
  shows "ledger' = restoreLedger config ps now"
proof -
  have c: "consistent config T ps ledger" using assms(1,3) by (rule engine_consistent)
  then have ok: "ledger_ok config T ps ledger" "closed_by T ps" "list_all row_ok ps"
    by (simp_all add: consistent_def book_ok_def)
  note rolled = rolled_ok [OF ok(1,2) assms(2,4)]
  show ?thesis using rolled(1) ok(3,2) assms(2) rolled(2) by (rule ledger_ok_restored)
qed

definition overhead :: "AppConfig \<Rightarrow> int" where
  "overhead config = assumedSignatureFeeLamports config + assumedPriorityFeeLamports config +
     assumedBroadcasterTipLamports config + assumedAtaRentLamports config"

lemma totalEntryCost_overhead: "totalEntryCost (entry_costs config s fee) = s + overhead config + fee"
  by (simp add: totalEntryCost_def Accounting.entryCashOut_def entry_costs_def overhead_def assumed_failure_def Let_def)

definition fees_within :: "int \<Rightarrow> EntryEnv \<Rightarrow> bool" where
  "fees_within F e \<longleftrightarrow> (\<forall>obs. case ee_settlementOf e obs of None \<Rightarrow> True
     | Some st \<Rightarrow> (case transferFeeOrUnknown st of None \<Rightarrow> True | Some fee \<Rightarrow> 0 \<le> fee \<and> fee \<le> F))"

definition within_caps :: "AppConfig \<Rightarrow> int \<Rightarrow> BookPosition list \<Rightarrow> bool" where
  "within_caps config F ps \<longleftrightarrow> list_all (\<lambda>p. 0 \<le> bp_cost p) ps \<and>
     sum_list (map bp_cost (open_rows ps)) \<le> maxTotalExposureLamports (risk config) + overhead config + F \<and>
     int (length (open_rows ps)) \<le> maxSimultaneousPositions (risk config)"

lemma within_caps_replace:
  assumes "within_caps config F (xs @ p # ys)" and "bp_cost p' = bp_cost p" and "bp_closed p = None"
  shows "within_caps config F (xs @ p' # ys)"
  using assms by (cases "bp_closed p'") (auto simp: within_caps_def open_rows_def)

lemma engine_within_caps:
  assumes "engine config (fees_within F) T ps l"
    and "0 < viableFloorLamports config" and "exit_config_ok (exits config)" and "0 \<le> assumedAtaRentLamports config"
    and "0 \<le> overhead config" and "0 \<le> F" and "0 \<le> maxTotalExposureLamports (risk config)"
    and "0 \<le> maxSimultaneousPositions (risk config)"
  shows "within_caps config F ps"
  using assms(1)
proof (induction rule: engine.induct)
  case start
  then show ?case using assms(5-8) by (simp add: within_caps_def open_rows_def)
next
  case (enter T ps l e out ps' l')
  have rows: "list_all row_ok ps"
    using engine_consistent [OF enter.hyps(1) assms(4)] by (simp add: consistent_def book_ok_def)
  show ?case
    using enter.hyps(4)
  proof (cases rule: tryEnter_cases)
    case unchanged
    then show ?thesis using enter.IH by simp
  next
    case (opened s b tokens st fee cashOut rent p)
    note caps = allowed_size_caps [OF opened(1) assms(2,3)]
    have fee: "0 \<le> fee" "fee \<le> F"
      using enter.hyps(3) opened(3,4) unfolding fees_within_def by (auto dest: spec [of _ "observationId b"])
    have cost: "bp_cost p = s + overhead config + fee" "bp_closed p = None"
      by (simp_all add: opened(5) opened_position_def totalEntryCost_overhead)
    show ?thesis
      using enter.IH caps(1,2,4) portfolio_open_rows [OF rows] cost fee assms(2,5) opened(8)
      by (simp add: within_caps_def open_rows_def)
  qed
next
  case (work T ps l p e out p' l')
  have ok: "list_all row_ok ps" "distinct (map bp_id ps)"
    using engine_consistent [OF work.hyps(1) assms(4)] by (simp_all add: consistent_def book_ok_def)
  have p: "p \<in> set ps" "bp_closed p = None"
    using work.hyps(2) unfolding managed_open_rows [OF ok(1)] by (simp_all add: open_rows_def)
  obtain xs ys where ps: "ps = xs @ p # ys" and "\<forall>f. update_position (bp_id p) f ps = xs @ f p # ys"
    using ok(2) p(1) by (rule split_row)
  then have upd: "update_position (bp_id p) (\<lambda>_. p') ps = xs @ p' # ys" by simp
  have "within_caps config F (xs @ p # ys)" using work.IH unfolding ps .
  moreover have "bp_cost p' = bp_cost p"
    using work.hyps(4)
  proof (cases rule: work_position_cases)
    case (closed q mark reason t ob)
    then show ?thesis using close_position_fields(2) [OF closed(11)] by (simp add: kept_def)
  qed (simp add: kept_def)
  ultimately show ?case unfolding upd using p(2) by (rule within_caps_replace)
qed simp_all

text \<open>C14: 
  The book stays within its caps, up to the overhead of one entry. In every history the number of positions held
  never exceeds the slots, and what they cost never exceeds the exposure cap by more than the fixed costs and the
  transfer fee of a single entry, which the sizing does not count.
\<close>

theorem exposure_within_cap_and_overhead:
  assumes "engine config (fees_within F) T ps ledger"
    and "0 < viableFloorLamports config" and "exit_config_ok (exits config)" and "0 \<le> assumedAtaRentLamports config"
    and "0 \<le> overhead config" and "0 \<le> F" and "0 \<le> maxTotalExposureLamports (risk config)"
    and "0 \<le> maxSimultaneousPositions (risk config)"
  shows "int (length (managedPositions ps)) \<le> maxSimultaneousPositions (risk config) \<and>
    sum_list (map bp_cost (managedPositions ps)) \<le> maxTotalExposureLamports (risk config) + overhead config + F \<and>
    unmanagedPositions ps = []"
proof -
  have rows: "list_all row_ok ps"
    using engine_consistent [OF assms(1,4)] by (simp add: consistent_def book_ok_def)
  have "within_caps config F ps" using assms by (rule engine_within_caps)
  then have "int (length (managedPositions ps)) \<le> maxSimultaneousPositions (risk config)"
    and "sum_list (map bp_cost (managedPositions ps))
      \<le> maxTotalExposureLamports (risk config) + overhead config + F"
    by (simp_all add: managed_open_rows [OF rows] within_caps_def)
  moreover have "unmanagedPositions ps = []"
    using rows row_ok_managed by (auto simp: unmanagedPositions_def filter_empty_conv list_all_iff)
  ultimately show ?thesis by blast
qed

text \<open>C13: 
  Capital is released only by a fill. A pass over a position either leaves its tokens, its cost and the whole
  ledger as they were, whatever it observed, or closes it: then an exit rule fired on a priced mark, a trigger was
  recorded at least the frozen latency earlier, the exit leg of the entry's family is executable with a verified
  effect, and the ledger gains what was paid for the position plus what it realised.
\<close>

theorem capital_released_only_by_fill:
  assumes "work_position config e p ledger = (out, p', ledger')"
  shows "(ledger' = ledger \<and> bp_tokens p' = bp_tokens p \<and> bp_cost p' = bp_cost p \<and> bp_closed p' = bp_closed p \<and>
      bp_realized p' = bp_realized p) \<or>
    (\<exists>reason mark t ob. decideExit (PaperBook.exit_inputs e mark p) (exits config) = Some reason \<and>
      bp_triggered p = Some t \<and> t + FROZEN_FILL_LATENCY_MS \<le> xe_now e \<and> xe_exit e = Some ob \<and>
      xa_ok (admitPortfolioExit ob (xe_verdict e) (requireLocalSimulation config)) \<and>
      snd (xe_verdict e) = SIMULATED_EFFECT_OK \<and>
      nullish (bp_routeFamily p) (primaryRouteFamily config) = family_text (family ob) \<and>
      out = exit_closed reason (xe_now e - t) \<and> bp_state p' = PS_POSITION_CLOSED \<and> bp_tokens p' = 0 \<and>
      bp_closed p' = Some (xe_now e) \<and>
      bp_realized p' = exit_proceeds config (netExpectedOutput ob) (xe_settlement e) - bp_cost p \<and>
      lg_freeLamports ledger' = lg_freeLamports ledger + bp_cost p + bp_realized p' \<and>
      lg_navLamports ledger' = lg_navLamports ledger + bp_realized p')"
  using assms
proof (cases rule: work_position_cases)
  case kept
  then show ?thesis by (simp add: kept_def)
next
  case (closed q mark reason t ob)
  note c = close_position_fields [OF closed(11)]
  have "bp_cost q = bp_cost p" using closed(1) by (simp add: kept_def)
  then show ?thesis using closed(3-10) c(3-5,7,9,10) by auto
qed

text \<open>
  An exit with everything it needs closes. A priced mark on which a rule fires, a trigger recorded at least the
  latency earlier, a quoted route, an executable exit of the entry's family with a verified effect and, where a
  settlement is eligible, a sell: the pass closes the position at this very mark's clock reading. Nothing relates the
  recorded trigger to the rule that fires now, so a trigger that lapsed long ago makes the next rule fill at once.
\<close>

theorem fired_rule_fills_old_trigger:
  assumes "bp_triggered p = Some t" and "t + FROZEN_FILL_LATENCY_MS \<le> xe_now e"
    and "xe_mark e = Some v" and "0 < v" and "xe_sell e = Some quoted" and "\<not> xe_providerFailed e"
    and "decideExit (PaperBook.exit_inputs e (v - assumedPriorityFeeLamports config) p) (exits config) = Some reason"
    and "bp_state p \<noteq> PS_EXIT_BLOCKED \<or> bp_lastExitAttempt p = None"
    and "xe_exit e = Some ob" and "xa_ok (admitPortfolioExit ob (xe_verdict e) (requireLocalSimulation config))"
    and "snd (xe_verdict e) = SIMULATED_EFFECT_OK"
    and "nullish (bp_routeFamily p) (primaryRouteFamily config) = family_text (family ob)"
    and "case xe_settlement e of None \<Rightarrow> True | Some s \<Rightarrow> fst (isPnlEligible s) \<longrightarrow> leg_side s = sell"
  shows "\<exists>p' ledger'. work_position config e p ledger = (exit_closed reason (xe_now e - t), p', ledger') \<and>
    bp_closed p' = Some (xe_now e) \<and> bp_exitReason p' = Some reason"
proof -
  define mark where "mark = v - assumedPriorityFeeLamports config"
  define q where "q = (if raised_peak mark p \<noteq> nullish (bp_peak p) (bp_cost p)
    then p\<lparr>bp_peak := Some (raised_peak mark p)\<rparr> else p)"
  have q: "bp_triggered q = Some t" "bp_routeFamily q = bp_routeFamily p" by (simp_all add: q_def assms(1))
  let ?q = "q\<lparr>bp_exitObservation := Some (observationId ob)\<rparr>"
  have "\<exists>p' ledger'. close_position config e reason (netExpectedOutput ob) (xe_now e - t) ?q ledger = Inr (p', ledger')"
    using assms(13) by (cases "xe_settlement e") (auto simp: close_position_def Let_def Settlement.exitCashIn_def)
  then obtain p' ledger' where close: "close_position config e reason (netExpectedOutput ob) (xe_now e - t) ?q ledger = Inr (p', ledger')"
    by blast
  have "fill_exit config e reason t q ledger = (exit_closed reason (xe_now e - t), p', ledger')"
    using assms(2,9-12) close q(2) by (simp add: fill_exit_def Let_def resolveFill_def)
  then have "work_mark config e mark p ledger = (exit_closed reason (xe_now e - t), p', ledger')"
    using assms(2,5,7) q(1) unfolding work_mark_def Let_def q_def [symmetric] mark_def [symmetric] by simp
  moreover have "work_position config e p ledger = work_mark config e mark p ledger"
    using assms(3,4,6,8) by (auto simp: work_position_def chooseDecisionMark_def Let_def mark_def)
  ultimately show ?thesis using close_position_fields(3,6) [OF close] by simp
qed

text \<open>
  The reserve is spent on overhead. When the reserve is what binds the size of an entry, the free balance after the
  entry lies below the reserve by the fees and rent of that entry.
\<close>

theorem entry_spends_the_reserve:
  assumes "tryEnter config e ps ledger = (entered p, ps', ledger')"
    and "sizePosition (portfolio_state config ps ledger (ee_now e)) config (nullish (ee_score e) 0)
      = Inr (lg_freeLamports ledger - minSolReserveLamports (risk config))"
    and "fees_within F e" and "0 < overhead config"
  shows "lg_freeLamports ledger' < minSolReserveLamports (risk config)"
    and "minSolReserveLamports (risk config) - overhead config - F \<le> lg_freeLamports ledger'"
proof -
  from assms(1) obtain fee where fee: "0 \<le> fee" "fee \<le> F"
    and led: "lg_freeLamports ledger' = minSolReserveLamports (risk config) - overhead config - fee"
  proof (cases rule: tryEnter_cases)
    case unchanged
    then show ?thesis by blast
  next
    case (opened s b tokens st fee cashOut rent q)
    have "0 \<le> fee" "fee \<le> F"
      using assms(3) opened(3,4) unfolding fees_within_def by (auto dest: spec [of _ "observationId b"])
    moreover have "s = lg_freeLamports ledger - minSolReserveLamports (risk config)" using opened(1) assms(2) by simp
    ultimately show ?thesis
      using that opened(5,10) by (simp add: opened_position_def totalEntryCost_overhead)
  qed
  show "lg_freeLamports ledger' < minSolReserveLamports (risk config)" using fee(1) led assms(4) by simp
  show "minSolReserveLamports (risk config) - overhead config - F \<le> lg_freeLamports ledger'" using fee(2) led by simp
qed

text \<open>A transfer fee that was never measured is charged as zero at the exit.\<close>

lemma unmeasured_exit_fee_is_free:
  "transferFeeOrUnknown st = None \<Longrightarrow> exit_proceeds config gross (Some st) = exit_proceeds config gross None"
  by (simp add: exit_proceeds_def)

text \<open>
  A triggered position is managed, but the exposure summary does not know its state: while any fill is awaited the
  summary blocks every new entry.
\<close>

theorem awaiting_fill_blocks_entries:
  assumes "p \<in> set ps" and "bp_state p = PS_AWAITING_FILL_OBSERVATION" and "bp_closed p = None" and "0 < bp_tokens p"
  shows "p \<in> set (managedPositions ps)" and "es_blocksNewEntries (summariseExposure ps)"
proof -
  show "p \<in> set (managedPositions ps)" using assms by (simp add: managedPositions_def MANAGED_STATES_def)
  have "p \<in> set (filter (\<lambda>p. bp_state p \<notin> set KNOWN_NONTERMINAL_STATES) (exposedPositions ps))"
    using assms by (simp add: exposedPositions_def KNOWN_NONTERMINAL_STATES_def)
  then have "filter (\<lambda>p. bp_state p \<notin> set KNOWN_NONTERMINAL_STATES) (exposedPositions ps) \<noteq> []" by force
  then show "es_blocksNewEntries (summariseExposure ps)" by (simp add: summariseExposure_def Let_def)
qed

section \<open>The loop is a history\<close>

fun clocked :: "(string \<Rightarrow> ExitEnv) \<Rightarrow> int \<Rightarrow> BookPosition list \<Rightarrow> bool" where
  "clocked env T [] \<longleftrightarrow> True"
| "clocked env T (r # rs) \<longleftrightarrow> T < xe_now (env (bp_id r)) \<and> clocked env (xe_now (env (bp_id r))) rs"

lemma managed_others:
  assumes "r \<in> set (managedPositions ps)" and "bp_id r \<noteq> pid"
  shows "r \<in> set (managedPositions (update_position pid f ps))"
  using assms by (auto simp: managedPositions_def update_position_def image_iff intro!: bexI [of _ r])

lemma manage_rows_engine:
  assumes "engine config P T ps l" and "set rows \<subseteq> set (managedPositions ps)" and "distinct (map bp_id rows)"
    and "clocked env T rows" and "manage_rows config env rows ps l = (outs, ps', l')"
  shows "\<exists>T' \<ge> T. engine config P T' ps' l'"
  using assms
proof (induction rows arbitrary: T ps l outs)
  case (Cons r rows)
  obtain out r' l1 where w: "work_position config (env (bp_id r)) r l = (out, r', l1)" by (metis prod_cases3)
  let ?ps = "update_position (bp_id r) (\<lambda>_. r') ps"
  have step: "engine config P (xe_now (env (bp_id r))) ?ps l1"
    using Cons.prems(1) _ _ w by (rule engine.work) (use Cons.prems(2,4) in simp_all)
  show ?case
  proof (cases "out = exit_raised")
    case True
    then have "ps' = ?ps" "l' = l1" using Cons.prems(5) w by simp_all
    then show ?thesis using step Cons.prems(4) by (intro exI [of _ "xe_now (env (bp_id r))"]) simp
  next
    case False
    then obtain outs' where rest: "manage_rows config env rows ?ps l1 = (outs', ps', l')"
      using Cons.prems(5) w by (auto simp: Let_def split: prod.splits)
    have "set rows \<subseteq> set (managedPositions ?ps)"
    proof
      fix x assume "x \<in> set rows"
      then have "bp_id x \<noteq> bp_id r" using Cons.prems(3) by (metis distinct.simps(2) imageI list.simps(9) set_map)
      then show "x \<in> set (managedPositions ?ps)"
        using \<open>x \<in> set rows\<close> Cons.prems(2) by (intro managed_others) auto
    qed
    then obtain T' where "T' \<ge> xe_now (env (bp_id r))" "engine config P T' ps' l'"
      using Cons.IH [OF step _ _ _ rest] Cons.prems(3,4) by auto
    then show ?thesis using Cons.prems(4) by (intro exI [of _ T']) simp
  qed
qed auto

text \<open>
  The exit loop is a history. One call of \<open>manageOpenPositions\<close>, with the urgent mints first and an exception ending
  it, is a sequence of passes over managed positions: every invariant of histories holds after it.
\<close>

theorem exit_loop_is_history:
  assumes "engine config P T ps ledger" and "0 \<le> assumedAtaRentLamports config"
    and "clocked env T (sort_key (\<lambda>p. if bp_mint p \<in> set urgent then 0 else 1 :: nat) (managedPositions ps))"
    and "manageOpenPositions config taker urgent env ps ledger = (outs, ps', ledger')"
  shows "\<exists>T' \<ge> T. engine config P T' ps' ledger'"
proof (cases taker)
  case False
  then show ?thesis using assms(1,4) by (auto simp: manageOpenPositions_def)
next
  case True
  let ?rows = "sort_key (\<lambda>p. if bp_mint p \<in> set urgent then 0 else 1 :: nat) (managedPositions ps)"
  have ok: "list_all row_ok ps" "distinct (map bp_id ps)"
    using engine_consistent [OF assms(1,2)] by (simp_all add: consistent_def book_ok_def)
  have "mset (map bp_id ?rows) = mset (map bp_id (open_rows ps))"
    unfolding managed_open_rows [OF ok(1)] by simp
  moreover have "distinct (map bp_id (open_rows ps))" using ok(2) by (simp add: open_rows_def distinct_map_filter)
  ultimately have "distinct (map bp_id ?rows)" using mset_eq_imp_distinct_iff by blast
  then show ?thesis
    using assms(1,3,4) True manage_rows_engine [of config P T ps ledger ?rows env outs ps' ledger']
    by (simp add: manageOpenPositions_def)
qed

section \<open>Witnesses\<close>

definition demo_config :: AppConfig where
  "demo_config = canary_config\<lparr>risk := live_risk, paperStartLamports := 10000000000\<rparr>"

definition demo_entry :: EntryEnv where
  "demo_entry = \<lparr>ee_mint = ''m'', ee_score = Some 1, ee_exitExists = True, ee_quoteReceived = 0, ee_now = 1000,
     ee_opened = 1001, ee_taker = True, ee_positionId = ''p'', ee_observe = observe demo_deps,
     ee_simulate = simulate demo_deps, ee_settlementOf = demo_settlementOf\<rparr>"

definition demo_position :: "int \<Rightarrow> BookPosition" where
  "demo_position s = opened_position demo_config demo_entry (sample_observation\<lparr>observationId := ''b''\<rparr>) 1000
     (s + 2052280) sample_buy 20008000 0"

lemma demo_start: "restoreLedger demo_config [] 0 = \<lparr>lg_navLamports = 10000000000, lg_freeLamports = 10000000000,
    lg_realizedTodayLamports = 0, lg_dayStartUtcMs = 0, lg_peakNavLamports = 10000000000, lg_lockedRentLamports = 0\<rparr>"
  by (simp add: restoreLedger_def demo_config_def sumRealized_def summariseExposure_def exposedPositions_def
      realizedForDay_def utcDayStart_def DAY_MS_def peakNav_def close_order_def Let_def)

lemma demo_admission: "ad_ok (admitPortfolioEntry (entry_deps demo_entry) ''m'' s (entry_economics demo_config s))"
  "ad_buy (admitPortfolioEntry (entry_deps demo_entry) ''m'' s (entry_economics demo_config s))
    = Some (sample_observation\<lparr>observationId := ''b''\<rparr>)"
  "ad_tokensAcquired (admitPortfolioEntry (entry_deps demo_entry) ''m'' s (entry_economics demo_config s)) = Some 1000"
  "ad_sell (admitPortfolioEntry (entry_deps demo_entry) ''m'' s (entry_economics demo_config s))
    = Some (sample_observation\<lparr>observationId := ''x''\<rparr>)"
proof -
  have deps: "entry_deps demo_entry = demo_deps"
    by (simp add: entry_deps_def demo_entry_def demo_deps_def)
  have "\<exists>m. round_trip_reader demo_settlementOf ''b'' ''x'' = Inr (Some m) \<and> mr_complete m \<and> mr_tradingLossBps m \<le> 300"
    by (simp add: round_trip_reader_def demo_settlementOf_def sample_trajectory_defs
      isPnlEligible_def ineligibilities_def immediateRoundTrip_def Settlement.entryCashOut_def
      Settlement.exitCashIn_def Let_def js_number_minus js_number_exact bdiv_def)
  then obtain m where m: "round_trip_reader demo_settlementOf ''b'' ''x'' = Inr (Some m)" "mr_complete m"
    "mr_tradingLossBps m \<le> 300"
    by blast
  have obs: "observe demo_deps (buy_request ''m'' s) = Some (sample_observation\<lparr>observationId := ''b''\<rparr>)"
    "observe demo_deps (sell_request ''m'' 1000) = Some (sample_observation\<lparr>observationId := ''x''\<rparr>)"
    by (simp_all add: demo_deps_def buy_request_def sell_request_def)
  have econ: "en_requireLocalSimulation (entry_economics demo_config s)" "en_maxRoundTripLossBps (entry_economics demo_config s) = 300"
    by (simp_all add: entry_economics_def demo_config_def canary_config_def)
  have read: "measure_acquired demo_deps ''b'' = Some 1000" "measure_round_trip demo_deps ''b'' ''x'' = Some m"
    using demo_measured(1) m(1) by (simp_all add: demo_deps_def)
  show "ad_ok (admitPortfolioEntry (entry_deps demo_entry) ''m'' s (entry_economics demo_config s))"
    "ad_buy (admitPortfolioEntry (entry_deps demo_entry) ''m'' s (entry_economics demo_config s))
    = Some (sample_observation\<lparr>observationId := ''b''\<rparr>)"
    "ad_tokensAcquired (admitPortfolioEntry (entry_deps demo_entry) ''m'' s (entry_economics demo_config s)) = Some 1000"
    "ad_sell (admitPortfolioEntry (entry_deps demo_entry) ''m'' s (entry_economics demo_config s))
    = Some (sample_observation\<lparr>observationId := ''x''\<rparr>)"
    unfolding deps admitPortfolioEntry_def obs
    using econ read m(2,3) demo_executable
    by (simp_all add: Let_def obs admit_exit_half_ok admit_exit_half_fields)
qed

lemma demo_fee: "transferFeeOrUnknown sample_buy = Some 0" "Settlement.entryCashOut sample_buy = Inr (20008000, 0)"
  by (simp_all add: transferFeeOrUnknown_def Settlement.entryCashOut_def sample_trajectory_defs)

lemma demo_overhead: "overhead demo_config = 2052280"
  by (simp add: overhead_def demo_config_def canary_config_def)

lemma demo_book_entry:
  "book_entry demo_config demo_entry s (admitPortfolioEntry (entry_deps demo_entry) ''m'' s (entry_economics demo_config s)) [] l =
    (entered (demo_position s), [demo_position s],
      l\<lparr>lg_freeLamports := lg_freeLamports l - (s + 2052280), lg_lockedRentLamports := lg_lockedRentLamports l + 2039280\<rparr>)"
  unfolding book_entry_def demo_admission
  using demo_admission(1) demo_fee demo_overhead
  by (simp add: demo_entry_def demo_settlementOf_def totalEntryCost_overhead demo_position_def insertPosition_def
      demo_config_def canary_config_def opened_position_def Let_def)

lemma demo_sized_at:
  assumes "sizePosition (portfolio_state demo_config [] l 1000) demo_config 1 = Inr s"
  shows "tryEnter demo_config demo_entry [] l = (entered (demo_position s), [demo_position s],
      l\<lparr>lg_freeLamports := lg_freeLamports l - (s + 2052280), lg_lockedRentLamports := lg_lockedRentLamports l + 2039280\<rparr>)"
  using demo_book_entry [of s l] assms
  by (simp add: tryEnter_def demo_entry_def demo_config_def canary_config_def)

lemma demo_portfolio: "portfolio_state demo_config [] l 1000 = \<lparr>ps_navLamports = lg_navLamports l,
    ps_freeLamports = lg_freeLamports l, ps_openPositions = 0, ps_totalExposureLamports = 0,
    ps_realizedTodayLamports = lg_realizedTodayLamports l, ps_realizedWeekLamports = 0, ps_plannedLossLamports = 0,
    ps_peakNavLamports = lg_peakNavLamports l, ps_observedSevereLossBps = None\<rparr>"
  by (simp add: portfolio_state_def managedPositions_def realizedWeek_def sumRealized_def Let_def)

lemma demo_size: "sizePosition (portfolio_state demo_config [] (restoreLedger demo_config [] 0) 1000) demo_config 1 = Inr 25000000"
  unfolding demo_start demo_portfolio
  by (simp add: sizing_defs demo_config_def canary_config_def live_risk_def)

lemma demo_fees: "fees_within 0 demo_entry"
  by (simp add: fees_within_def demo_entry_def demo_settlementOf_def sample_trajectory_defs transferFeeOrUnknown_def)

lemma demo_history: "engine demo_config (fees_within 0) 1000 [demo_position 25000000]
    ((restoreLedger demo_config [] 0)\<lparr>lg_freeLamports := 9972947720, lg_lockedRentLamports := 2039280\<rparr>)"
proof -
  have "engine demo_config (fees_within 0) 0 [] (restoreLedger demo_config [] 0)" by (rule engine.start)
  then have "engine demo_config (fees_within 0) (ee_now demo_entry) [demo_position 25000000]
    ((restoreLedger demo_config [] 0)\<lparr>lg_freeLamports := lg_freeLamports (restoreLedger demo_config [] 0) - (25000000 + 2052280),
      lg_lockedRentLamports := lg_lockedRentLamports (restoreLedger demo_config [] 0) + 2039280\<rparr>)"
    using _ demo_fees demo_sized_at [OF demo_size] by (rule engine.enter) (simp add: demo_entry_def)
  then show ?thesis by (simp add: demo_start) (simp add: demo_entry_def)
qed

theorem restart_changes_nothing_witness:
  "\<exists>days' ledger' r. rollDayIfNeeded [demo_position 25000000] Map.empty
      ((restoreLedger demo_config [] 0)\<lparr>lg_freeLamports := 9972947720, lg_lockedRentLamports := 2039280\<rparr>) 90000000
        = (days', ledger', r) \<and> ledger' = restoreLedger demo_config [demo_position 25000000] 90000000"
proof -
  obtain days' ledger' r where roll: "rollDayIfNeeded [demo_position 25000000] Map.empty
      ((restoreLedger demo_config [] 0)\<lparr>lg_freeLamports := 9972947720, lg_lockedRentLamports := 2039280\<rparr>) 90000000
        = (days', ledger', r)" by (metis prod_cases3)
  have "ledger' = restoreLedger demo_config [demo_position 25000000] 90000000"
    using demo_history _ _ roll by (rule restart_changes_nothing) (simp_all add: demo_config_def canary_config_def)
  then show ?thesis using roll by blast
qed

theorem exposure_within_cap_and_overhead_witness:
  "sum_list (map bp_cost (managedPositions [demo_position 25000000]))
    \<le> maxTotalExposureLamports (risk demo_config) + overhead demo_config + 0"
proof (rule exposure_within_cap_and_overhead [OF demo_history, THEN conjunct2, THEN conjunct1])
  show "0 < viableFloorLamports demo_config" by (simp add: sizing_defs demo_config_def canary_config_def)
  show "exit_config_ok (exits demo_config)" by (simp add: demo_config_def canary_config_def exit_config_ok_def)
qed (simp_all add: demo_overhead, simp_all add: demo_config_def canary_config_def live_risk_def)

definition demo_triggered :: BookPosition where
  "demo_triggered = (demo_position 25000000)\<lparr>bp_state := PS_AWAITING_FILL_OBSERVATION, bp_triggered := Some 5000\<rparr>"

definition demo_pass :: ExitEnv where
  "demo_pass = \<lparr>xe_checkedAt = 100000, xe_now = 100000, xe_providerFailed = False, xe_sell = Some 1008000,
     xe_mark = Some 1008000, xe_exit = Some (sample_observation\<lparr>observationId := ''x''\<rparr>),
     xe_verdict = (SIMULATED_OK, SIMULATED_EFFECT_OK), xe_settlement = None\<rparr>"

lemma demo_pass_fields: "xe_now demo_pass = 100000" "xe_mark demo_pass = Some 1008000" "xe_sell demo_pass = Some 1008000"
    "xe_providerFailed demo_pass = False" "xe_exit demo_pass = Some (sample_observation\<lparr>observationId := ''x''\<rparr>)"
    "xe_verdict demo_pass = (SIMULATED_OK, SIMULATED_EFFECT_OK)" "xe_settlement demo_pass = None"
  by (simp_all add: demo_pass_def)

lemma demo_triggered_fields: "bp_triggered demo_triggered = Some 5000" "bp_cost demo_triggered = 27052280"
    "bp_peak demo_triggered = Some 27052280" "bp_opened demo_triggered = 1001" "bp_tokens demo_triggered = 1000"
    "bp_state demo_triggered = PS_AWAITING_FILL_OBSERVATION" "bp_routeFamily demo_triggered = Some ''BUILD_CUSTOM''"
  by (simp_all add: demo_triggered_def demo_position_def opened_position_def demo_entry_def sample_observation_def)

lemma demo_collapses: "decideExit (PaperBook.exit_inputs demo_pass (1008000 - assumedPriorityFeeLamports demo_config) demo_triggered)
    (exits demo_config) = Some liquidity_collapse"
proof -
  have fee: "assumedPriorityFeeLamports demo_config = 8000" by (simp add: demo_config_def canary_config_def)
  show ?thesis
    unfolding fee by (simp add: decideExit_def PaperBook.exit_inputs_def raised_peak_def demo_pass_fields
      demo_triggered_fields demo_config_def canary_config_def bdiv_def Let_def)
qed

lemma demo_exit_admitted: "xa_ok (admitPortfolioExit (sample_observation\<lparr>observationId := ''x''\<rparr>) (xe_verdict demo_pass)
    (requireLocalSimulation demo_config))"
  by (simp add: admitPortfolioExit_def demo_pass_fields legIsExecutable_def Accounting.leg_reasons_def Let_def
      sample_observation_def not_positive_def)

theorem fired_rule_fills_old_trigger_witness:
  "\<exists>p' ledger'. work_position demo_config demo_pass demo_triggered (restoreLedger demo_config [] 0)
      = (exit_closed liquidity_collapse 95000, p', ledger') \<and> bp_exitReason p' = Some liquidity_collapse"
proof -
  have "\<exists>p' ledger'. work_position demo_config demo_pass demo_triggered (restoreLedger demo_config [] 0)
      = (exit_closed liquidity_collapse (xe_now demo_pass - 5000), p', ledger') \<and>
    bp_closed p' = Some (xe_now demo_pass) \<and> bp_exitReason p' = Some liquidity_collapse"
    using demo_triggered_fields(1) _ demo_pass_fields(2) _ demo_pass_fields(3) _ demo_collapses _ demo_pass_fields(5)
      demo_exit_admitted
    by (rule fired_rule_fills_old_trigger)
      (simp_all add: demo_pass_fields demo_triggered_fields FROZEN_FILL_LATENCY_MS_def sample_observation_def)
  then show ?thesis by (auto simp: demo_pass_fields)
qed

theorem capital_released_only_by_fill_witness:
  "\<exists>out p' ledger'. work_position demo_config (demo_pass\<lparr>xe_mark := None\<rparr>) demo_triggered (restoreLedger demo_config [] 0)
      = (out, p', ledger') \<and> ledger' = restoreLedger demo_config [] 0 \<and> bp_tokens p' = 1000"
proof -
  have w: "work_position demo_config (demo_pass\<lparr>xe_mark := None\<rparr>) demo_triggered (restoreLedger demo_config [] 0)
    = (not_priced, demo_triggered, restoreLedger demo_config [] 0)"
    by (simp add: work_position_def chooseDecisionMark_def demo_pass_fields demo_triggered_fields Let_def)
  show ?thesis using capital_released_only_by_fill [OF w] w by (auto simp: demo_triggered_fields)
qed

theorem entry_spends_the_reserve_witness:
  "\<exists>p ps' ledger'. tryEnter demo_config demo_entry [] ((restoreLedger demo_config [] 0)\<lparr>lg_freeLamports := 122000000\<rparr>)
      = (entered p, ps', ledger') \<and> lg_freeLamports ledger' < minSolReserveLamports (risk demo_config)"
proof -
  let ?l = "(restoreLedger demo_config [] 0)\<lparr>lg_freeLamports := 122000000\<rparr>"
  have size: "sizePosition (portfolio_state demo_config [] ?l 1000) demo_config 1 = Inr 22000000"
    unfolding demo_start demo_portfolio
    by (simp add: sizing_defs demo_config_def canary_config_def live_risk_def)
  note entry = demo_sized_at [OF size]
  have reserve: "minSolReserveLamports (risk demo_config) = 100000000"
    by (simp add: demo_config_def live_risk_def)
  have "lg_freeLamports (?l\<lparr>lg_freeLamports := lg_freeLamports ?l - (22000000 + 2052280),
      lg_lockedRentLamports := lg_lockedRentLamports ?l + 2039280\<rparr>) < minSolReserveLamports (risk demo_config)"
    using entry _ demo_fees
    by (rule entry_spends_the_reserve(1)) (use size reserve in \<open>simp_all add: demo_entry_def demo_overhead\<close>)
  then show ?thesis using entry by blast
qed

theorem awaiting_fill_blocks_entries_witness: "es_blocksNewEntries (summariseExposure [demo_triggered])"
  by (rule awaiting_fill_blocks_entries(2) [of demo_triggered])
    (simp_all add: demo_triggered_def demo_position_def opened_position_def)

theorem exit_loop_is_history_witness:
  "\<exists>outs ps' ledger'. manageOpenPositions demo_config True [] (\<lambda>_. demo_pass) [demo_position 25000000]
      ((restoreLedger demo_config [] 0)\<lparr>lg_freeLamports := 9972947720, lg_lockedRentLamports := 2039280\<rparr>) = (outs, ps', ledger') \<and>
    (\<exists>T' \<ge> 1000. engine demo_config (fees_within 0) T' ps' ledger')"
proof -
  let ?l = "(restoreLedger demo_config [] 0)\<lparr>lg_freeLamports := 9972947720, lg_lockedRentLamports := 2039280\<rparr>"
  obtain outs ps' ledger' where run: "manageOpenPositions demo_config True [] (\<lambda>_. demo_pass) [demo_position 25000000] ?l
      = (outs, ps', ledger')" by (metis prod_cases3)
  have rows: "managedPositions [demo_position 25000000] = [demo_position 25000000]"
    by (simp add: managedPositions_def MANAGED_STATES_def demo_position_def opened_position_def)
  have "\<exists>T' \<ge> 1000. engine demo_config (fees_within 0) T' ps' ledger'"
    using demo_history _ _ run
    by (rule exit_loop_is_history) (simp_all add: rows demo_pass_fields demo_config_def canary_config_def)
  then show ?thesis using run by blast
qed

end
