(* ===== verification/Treatments.thy ===== *)
theory Treatments
  imports Prelude Doubles
begin

text \<open>
  Entry and exit treatments (\<open>packages/strategy/src/treatments.ts\<close>): every policy of the tournament
  decides on the same candidate and on the same stream of marks. Doubles that are only compared are
  rationals; SHA-256 is an argument; a reason is a constructor with the conditions its message
  joins.
\<close>

section \<open>Entry policies\<close>

datatype EntryPolicy = HARD_GATES_RANDOM | CORRECTED_CURRENT_QUALITY_SCORE
  | SURVIVOR_FLOW_CONTINUATION_V1 | MIGRATION_MICROSTRUCTURE_RISK_V1

definition ENTRY_POLICIES :: "EntryPolicy list" where
  "ENTRY_POLICIES = [HARD_GATES_RANDOM, CORRECTED_CURRENT_QUALITY_SCORE, SURVIVOR_FLOW_CONTINUATION_V1,
    MIGRATION_MICROSTRUCTURE_RISK_V1]"

definition PRIMARY_ENTRY_POLICIES :: "EntryPolicy list" where
  "PRIMARY_ENTRY_POLICIES = [HARD_GATES_RANDOM, MIGRATION_MICROSTRUCTURE_RISK_V1, SURVIVOR_FLOW_CONTINUATION_V1]"

definition DESCRIPTIVE_ONLY_POLICIES :: "EntryPolicy list" where
  "DESCRIPTIVE_ONLY_POLICIES = [CORRECTED_CURRENT_QUALITY_SCORE]"

record PreEntryFeatures =
  pf_mint :: string
  hardGatesPass :: bool
  independentBuyerPersistence :: "rat option"
  nonMayhemNetQuoteInflowLamports :: "int option"
  effectiveQuoteReserveTrend :: "rat option"
  executableExitCapacityTrend :: "rat option"
  continuationSlope :: "rat option"
  creatorNetSellingLamports :: "int option"
  entityConcentration :: "rat option"
  mintBehaviourSafe :: "bool option"
  mechanicsViable :: bool
  correctedQualityScore :: "rat option"
  scoreCoverageOk :: bool
  largestFirstBuyerEntityShare :: "rat option"
  buyerRetention :: "rat option"
  lateSellPressure :: "rat option"
  migrationPathEntityDominance :: "rat option"

text \<open>One entry of \<open>fail\<close>: the feature is unknown, or its condition does not hold.\<close>

datatype condition_failure = is_unknown string | not_held string

datatype entry_reason = hard_gate_rejected | mechanics_not_viable | seeded_inclusion | seeded_exclusion
  | coverage_insufficient | score_unavailable | score_against_threshold rat
  | conditions_held | conditions_failed "condition_failure list"

record EntryDecision =
  ed_policy :: EntryPolicy
  ed_enter :: bool
  ed_reason :: entry_reason
  ed_unknowns :: "string list"

definition CONTROL_INCLUSION_RATE :: rat where
  "CONTROL_INCLUSION_RATE = 1 / 2"

definition QUALITY_SCORE_THRESHOLD :: rat where
  "QUALITY_SCORE_THRESHOLD = fl (55 / 100)"

text \<open>\<open>readUInt32BE(0)\<close> and the division by \<open>2 ^ 32\<close>, which is exact in a double.\<close>

definition readUInt32BE :: "bytes \<Rightarrow> int" where
  "readUInt32BE h = foldl (\<lambda>a b. a * 256 + uint b) 0 (take 4 h)"

definition seededInclusion :: "(string \<Rightarrow> bytes) \<Rightarrow> string \<Rightarrow> string \<Rightarrow> rat \<Rightarrow> bool" where
  "seededInclusion sha256 seed mint rate =
    (of_int (readUInt32BE (sha256 (seed @ '':'' @ mint))) / 2 ^ 32 < rate)"

text \<open>The local function \<open>need\<close> of both policies, on its two lists.\<close>

definition need :: "string \<Rightarrow> 'a option \<Rightarrow> ('a \<Rightarrow> bool) \<Rightarrow>
    string list \<times> condition_failure list \<Rightarrow> string list \<times> condition_failure list" where
  "need name v ok = (\<lambda>(unknowns, failed).
    case v of None \<Rightarrow> (unknowns @ [name], failed @ [is_unknown name])
    | Some x \<Rightarrow> if ok x then (unknowns, failed) else (unknowns, failed @ [not_held name]))"

definition decided :: "EntryPolicy \<Rightarrow> string list \<times> condition_failure list \<Rightarrow> EntryDecision" where
  "decided policy uf = \<lparr>ed_policy = policy, ed_enter = (snd uf = []),
     ed_reason = (if snd uf = [] then conditions_held else conditions_failed (snd uf)),
     ed_unknowns = fst uf\<rparr>"

record MicrostructureRiskThresholds =
  maxCreatorNetSellingLamports :: int
  mr_maxEntityConcentration :: rat
  maxFirstBuyerEntityShare :: rat
  minBuyerRetention :: rat
  maxLateSellPressure :: rat
  maxEntityDominance :: rat

definition MICROSTRUCTURE_RISK_DEFAULTS :: MicrostructureRiskThresholds where
  "MICROSTRUCTURE_RISK_DEFAULTS = \<lparr>maxCreatorNetSellingLamports = 0,
     mr_maxEntityConcentration = fl (6 / 10), maxFirstBuyerEntityShare = fl (7 / 10),
     minBuyerRetention = fl (2 / 10), maxLateSellPressure = fl (8 / 10), maxEntityDominance = fl (7 / 10)\<rparr>"

definition migrationMicrostructureRisk :: "PreEntryFeatures \<Rightarrow> MicrostructureRiskThresholds \<Rightarrow> EntryDecision" where
  "migrationMicrostructureRisk f t =
    (let s0 = ([], if \<not> mechanicsViable f then [not_held ''mechanicsViable''] else []);
         s1 = need ''creatorNetSellingLamports'' (creatorNetSellingLamports f)
           (\<lambda>x. x \<le> maxCreatorNetSellingLamports t) s0;
         s2 = need ''mintBehaviourSafe'' (mintBehaviourSafe f) (\<lambda>x. x) s1;
         s3 = need ''entityConcentration'' (entityConcentration f) (\<lambda>x. x \<le> mr_maxEntityConcentration t) s2;
         s4 = need ''largestFirstBuyerEntityShare'' (largestFirstBuyerEntityShare f)
           (\<lambda>x. x \<le> maxFirstBuyerEntityShare t) s3;
         s5 = need ''buyerRetention'' (buyerRetention f) (\<lambda>x. x \<ge> minBuyerRetention t) s4;
         s6 = need ''lateSellPressure'' (lateSellPressure f) (\<lambda>x. x \<le> maxLateSellPressure t) s5;
         s7 = need ''migrationPathEntityDominance'' (migrationPathEntityDominance f)
           (\<lambda>x. x \<le> maxEntityDominance t) s6
     in decided MIGRATION_MICROSTRUCTURE_RISK_V1 s7)"

record SurvivorThresholds =
  minBuyerPersistence :: rat
  minReserveTrend :: rat
  minExitCapacityTrend :: rat
  minContinuationSlope :: rat
  maxContinuationSlope :: rat
  st_maxEntityConcentration :: rat

definition SURVIVOR_DEFAULTS :: SurvivorThresholds where
  "SURVIVOR_DEFAULTS = \<lparr>minBuyerPersistence = 1 / 2, minReserveTrend = 0, minExitCapacityTrend = 0,
     minContinuationSlope = 0, maxContinuationSlope = 5, st_maxEntityConcentration = fl (35 / 100)\<rparr>"

definition survivorFlowContinuation :: "PreEntryFeatures \<Rightarrow> SurvivorThresholds \<Rightarrow> EntryDecision" where
  "survivorFlowContinuation f t =
    (let s1 = need ''independentBuyerPersistence'' (independentBuyerPersistence f)
           (\<lambda>x. x \<ge> minBuyerPersistence t) ([], []);
         s2 = need ''nonMayhemNetQuoteInflow'' (nonMayhemNetQuoteInflowLamports f) (\<lambda>x. x > 0) s1;
         s3 = need ''effectiveQuoteReserveTrend'' (effectiveQuoteReserveTrend f) (\<lambda>x. x \<ge> minReserveTrend t) s2;
         s4 = need ''executableExitCapacityTrend'' (executableExitCapacityTrend f)
           (\<lambda>x. x \<ge> minExitCapacityTrend t) s3;
         s5 = need ''continuationSlope'' (continuationSlope f)
           (\<lambda>x. x > minContinuationSlope t \<and> x \<le> maxContinuationSlope t) s4;
         s6 = need ''creatorNetSelling'' (creatorNetSellingLamports f) (\<lambda>x. x \<le> 0) s5;
         s7 = need ''entityConcentration'' (entityConcentration f) (\<lambda>x. x \<le> st_maxEntityConcentration t) s6;
         s8 = need ''mintBehaviourSafe'' (mintBehaviourSafe f) (\<lambda>x. x) s7
     in decided SURVIVOR_FLOW_CONTINUATION_V1 s8)"

definition decideEntry ::
    "(string \<Rightarrow> bytes) \<Rightarrow> EntryPolicy \<Rightarrow> PreEntryFeatures \<Rightarrow> string \<Rightarrow> SurvivorThresholds \<Rightarrow> EntryDecision" where
  "decideEntry sha256 policy f seed thresholds =
    (let decision = (\<lambda>enter reason unknowns. \<lparr>ed_policy = policy, ed_enter = enter, ed_reason = reason,
           ed_unknowns = unknowns\<rparr>) in
     if \<not> hardGatesPass f then decision False hard_gate_rejected []
     else if \<not> mechanicsViable f then decision False mechanics_not_viable []
     else case policy of
       HARD_GATES_RANDOM \<Rightarrow>
         (let enter = seededInclusion sha256 seed (pf_mint f) CONTROL_INCLUSION_RATE
          in decision enter (if enter then seeded_inclusion else seeded_exclusion) [])
     | CORRECTED_CURRENT_QUALITY_SCORE \<Rightarrow>
         (if \<not> scoreCoverageOk f then decision False coverage_insufficient [''scoreCoverage'']
          else case correctedQualityScore f of
            None \<Rightarrow> decision False score_unavailable [''correctedQualityScore'']
          | Some s \<Rightarrow> decision (s \<ge> QUALITY_SCORE_THRESHOLD) (score_against_threshold s) [])
     | SURVIVOR_FLOW_CONTINUATION_V1 \<Rightarrow> survivorFlowContinuation f thresholds
     | MIGRATION_MICROSTRUCTURE_RISK_V1 \<Rightarrow> migrationMicrostructureRisk f MICROSTRUCTURE_RISK_DEFAULTS)"

section \<open>Exit policies\<close>

datatype ExitPolicy = FIXED_15M_CONTROL | FLOW_LIQUIDITY_DETERIORATION_V1

definition EXIT_POLICIES :: "ExitPolicy list" where
  "EXIT_POLICIES = [FIXED_15M_CONTROL, FLOW_LIQUIDITY_DETERIORATION_V1]"

record MarkPoint =
  mp_at :: int
  mp_executable :: int
  mp_exitCapacity :: "int option"
  mp_effectiveReserve :: "int option"

datatype exit_reason = fixed_horizon | no_horizon_mark
  | capacity_fell int int "int option" | hold_extended | fell_back_to_horizon | no_deterioration_no_mark

record ExitDecision =
  xd_policy :: ExitPolicy
  triggeredAt :: "int option"
  filledAt :: "int option"
  xd_reason :: exit_reason

definition FIXED_HORIZON_MS :: int where
  "FIXED_HORIZON_MS = 15 * 60 * 1000"

definition EXIT_EXTENSION_MS :: int where
  "EXIT_EXTENSION_MS = 15 * 60 * 1000"

definition EXIT_CAPACITY_DROP_BPS :: int where
  "EXIT_CAPACITY_DROP_BPS = 2000"

definition firstValidFillAfter :: "MarkPoint list \<Rightarrow> int \<Rightarrow> MarkPoint option" where
  "firstValidFillAfter ordered afterMs = find (\<lambda>m. mp_at m > afterMs \<and> mp_executable m > 0) ordered"

text \<open>The loop of the challenger over the sorted marks: \<open>Inl\<close> the mark that shows the deterioration, with
  the drop and the time it spans, or \<open>Inr\<close> whether the capacity improved. \<open>lastKnown\<close> is the last mark with a
  capacity. The drop in basis points is compared as the bigint it is before \<open>Number\<close>.\<close>

fun deterioration :: "MarkPoint list \<Rightarrow> (int \<times> int) option \<Rightarrow> bool \<Rightarrow> (MarkPoint \<times> int \<times> int) + bool" where
  "deterioration [] lastKnown improved = Inr improved"
| "deterioration (m # ms) lastKnown improved =
    (case mp_exitCapacity m of None \<Rightarrow> deterioration ms lastKnown improved
     | Some cap \<Rightarrow>
       (case lastKnown of None \<Rightarrow> deterioration ms (Some (mp_at m, cap)) improved
        | Some (at0, cap0) \<Rightarrow>
          if cap0 > 0 then
            (let dropBps = bdiv ((cap0 - cap) * 10000) cap0 in
             if dropBps \<ge> EXIT_CAPACITY_DROP_BPS then Inl (m, dropBps, mp_at m - at0)
             else deterioration ms (Some (mp_at m, cap)) (improved \<or> cap > cap0))
          else deterioration ms (Some (mp_at m, cap)) improved))"

definition at_or_after :: "int \<Rightarrow> MarkPoint list \<Rightarrow> MarkPoint option" where
  "at_or_after t ordered = find (\<lambda>m. mp_at m \<ge> t) ordered"

definition decideExit :: "ExitPolicy \<Rightarrow> int \<Rightarrow> MarkPoint list \<Rightarrow> ExitDecision" where
  "decideExit policy openedAtMs marks =
    (let ordered = sort_key mp_at marks;
         horizon = openedAtMs + FIXED_HORIZON_MS;
         clock = (\<lambda>m reason. \<lparr>xd_policy = policy, triggeredAt = map_option mp_at m, filledAt = map_option mp_at m,
           xd_reason = reason\<rparr>);
         onTime = at_or_after horizon ordered
     in if policy = FIXED_15M_CONTROL
        then clock onTime (if onTime \<noteq> None then fixed_horizon else no_horizon_mark)
        else case deterioration ordered None False of
          Inl (m, dropBps, spanned) \<Rightarrow>
            (let fill = map_option mp_at (firstValidFillAfter ordered (mp_at m))
             in \<lparr>xd_policy = policy, triggeredAt = Some (mp_at m), filledAt = fill,
                 xd_reason = capacity_fell dropBps spanned fill\<rparr>)
        | Inr improvedSinceOpen \<Rightarrow>
            (let extended = (if improvedSinceOpen then at_or_after (horizon + EXIT_EXTENSION_MS) ordered else None)
             in if extended \<noteq> None then clock extended hold_extended
                else clock onTime (if onTime \<noteq> None then fell_back_to_horizon else no_deterioration_no_mark)))"

section \<open>Checkpoints\<close>

datatype CheckpointName = APPARATUS_SANITY | COSTS_AND_FILLABILITY | EARLY_ELIMINATION
  | DEVELOPMENT_SELECTION_PERMITTED

fun CHECKPOINTS :: "CheckpointName \<Rightarrow> int" where
  "CHECKPOINTS APPARATUS_SANITY = 10"
| "CHECKPOINTS COSTS_AND_FILLABILITY = 25"
| "CHECKPOINTS EARLY_ELIMINATION = 50"
| "CHECKPOINTS DEVELOPMENT_SELECTION_PERMITTED = 100"

definition checkpointReached :: "int \<Rightarrow> CheckpointName option" where
  "checkpointReached n =
    (if n \<ge> CHECKPOINTS DEVELOPMENT_SELECTION_PERMITTED then Some DEVELOPMENT_SELECTION_PERMITTED
     else if n \<ge> CHECKPOINTS EARLY_ELIMINATION then Some EARLY_ELIMINATION
     else if n \<ge> CHECKPOINTS COSTS_AND_FILLABILITY then Some COSTS_AND_FILLABILITY
     else if n \<ge> CHECKPOINTS APPARATUS_SANITY then Some APPARATUS_SANITY
     else None)"


section \<open>Lemmas\<close>

lemma need_simps [simp]:
  "fst (need name None ok uf) = fst uf @ [name]"
  "fst (need name (Some x) ok uf) = fst uf"
  "snd (need name None ok uf) = snd uf @ [is_unknown name]"
  "snd (need name (Some x) ok uf) = (if ok x then snd uf else snd uf @ [not_held name])"
  by (cases uf; simp add: need_def)+

definition holds_for :: "'a option \<Rightarrow> ('a \<Rightarrow> bool) \<Rightarrow> bool" where
  "holds_for v ok = (case v of None \<Rightarrow> False | Some x \<Rightarrow> ok x)"

lemma need_passes: "snd (need name v ok uf) = [] \<longleftrightarrow> holds_for v ok \<and> snd uf = []"
  by (cases v) (auto simp: holds_for_def)

lemma need_unknowns: "fst (need name v ok uf) = [] \<longleftrightarrow> v \<noteq> None \<and> fst uf = []"
  by (cases v) auto

lemma holds_known: "holds_for v ok \<Longrightarrow> v \<noteq> None"
  by (auto simp: holds_for_def split: option.splits)

lemma decided_fields [simp]:
  "ed_policy (decided p uf) = p" "ed_enter (decided p uf) = (snd uf = [])" "ed_unknowns (decided p uf) = fst uf"
  by (simp_all add: decided_def)

text \<open>The state of the loop after a prefix without a deterioration.\<close>

definition note_known :: "MarkPoint \<Rightarrow> (int \<times> int) option \<Rightarrow> (int \<times> int) option" where
  "note_known m lastKnown = (case mp_exitCapacity m of None \<Rightarrow> lastKnown | Some cap \<Rightarrow> Some (mp_at m, cap))"

lemma deterioration_Cons:
  "deterioration (m # ms) lastKnown improved =
    (case deterioration [m] lastKnown improved of Inl r \<Rightarrow> Inl r
     | Inr improved' \<Rightarrow> deterioration ms (note_known m lastKnown) improved')"
  by (cases "mp_exitCapacity m"; cases lastKnown) (auto simp: Let_def note_known_def)

lemma deterioration_append:
  "deterioration (xs @ ys) lastKnown improved =
    (case deterioration xs lastKnown improved of Inl r \<Rightarrow> Inl r
     | Inr improved' \<Rightarrow> deterioration ys (fold note_known xs lastKnown) improved')"
proof (induction xs arbitrary: lastKnown improved)
  case (Cons x xs)
  show ?case
    unfolding append_Cons deterioration_Cons [of x "xs @ ys"] deterioration_Cons [of x xs]
    by (cases "deterioration [x] lastKnown improved") (simp_all add: Cons split: sum.split)
qed simp

lemma deterioration_step_found:
  "deterioration [x] lastKnown improved = Inl (m, d, s) \<Longrightarrow>
   m = x \<and> (\<exists>cap at0 cap0. mp_exitCapacity m = Some cap \<and> lastKnown = Some (at0, cap0) \<and> 0 < cap0 \<and>
     d = bdiv ((cap0 - cap) * 10000) cap0 \<and> EXIT_CAPACITY_DROP_BPS \<le> d \<and> s = mp_at m - at0)"
  by (cases "mp_exitCapacity x"; cases lastKnown) (auto simp: Let_def split: if_splits)

lemma deterioration_found:
  "deterioration ms lastKnown improved = Inl (m, d, s) \<Longrightarrow>
   \<exists>pre post cap at0 cap0. ms = pre @ m # post \<and> mp_exitCapacity m = Some cap \<and>
     fold note_known pre lastKnown = Some (at0, cap0) \<and> 0 < cap0 \<and> d = bdiv ((cap0 - cap) * 10000) cap0 \<and>
     EXIT_CAPACITY_DROP_BPS \<le> d \<and> s = mp_at m - at0 \<and> is_ok (deterioration pre lastKnown improved)"
proof (induction ms arbitrary: lastKnown improved)
  case (Cons x xs)
  show ?case
  proof (cases "deterioration [x] lastKnown improved")
    case (Inl r)
    then have "deterioration [x] lastKnown improved = Inl (m, d, s)"
      using Cons.prems deterioration_Cons [of x xs] by simp
    from deterioration_step_found [OF this] show ?thesis
      by (intro exI [of _ "[]"] exI [of _ xs]) auto
  next
    case (Inr improved')
    then have "deterioration xs (note_known x lastKnown) improved' = Inl (m, d, s)"
      using Cons.prems deterioration_Cons [of x xs] by simp
    from Cons.IH [OF this] obtain pre post cap at0 cap0 where found: "xs = pre @ m # post"
        "mp_exitCapacity m = Some cap" "fold note_known pre (note_known x lastKnown) = Some (at0, cap0)" "0 < cap0"
        "d = bdiv ((cap0 - cap) * 10000) cap0" "EXIT_CAPACITY_DROP_BPS \<le> d" "s = mp_at m - at0"
        "is_ok (deterioration pre (note_known x lastKnown) improved')"
      by blast
    have "is_ok (deterioration (x # pre) lastKnown improved)"
      using deterioration_Cons [of x pre] Inr found(8) by simp
    with found show ?thesis by (intro exI [of _ "x # pre"] exI [of _ post]) auto
  qed
qed simp


text \<open>The instant of the earliest mark with a property.\<close>

definition earliest :: "(MarkPoint \<Rightarrow> bool) \<Rightarrow> MarkPoint list \<Rightarrow> int option" where
  "earliest P marks = (if filter P marks = [] then None else Some (Min (mp_at ` set (filter P marks))))"

lemma find_sorted:
  assumes "sorted (map mp_at ms)"
  shows "map_option mp_at (find P ms) = earliest P ms"
  using assms
proof (induction ms)
  case (Cons m ms)
  show ?case
  proof (cases "P m")
    case True
    have "Min (mp_at ` set (filter P (m # ms))) = mp_at m"
      using Cons.prems True by (intro Min_eqI) auto
    then show ?thesis using True by (simp add: earliest_def)
  next
    case False
    then show ?thesis using Cons by (simp add: earliest_def)
  qed
qed (simp add: earliest_def)

lemma find_earliest: "map_option mp_at (find P (sort_key mp_at marks)) = earliest P marks"
proof -
  have "filter P (sort_key mp_at marks) = [] \<longleftrightarrow> filter P marks = []"
    by (auto simp: filter_empty_conv)
  moreover have "set (filter P (sort_key mp_at marks)) = set (filter P marks)" by auto
  ultimately have "earliest P (sort_key mp_at marks) = earliest P marks"
    unfolding earliest_def by presburger
  then show ?thesis by (simp add: find_sorted)
qed

lemma at_or_after_earliest: "map_option mp_at (at_or_after t (sort_key mp_at marks)) = earliest (\<lambda>m. t \<le> mp_at m) marks"
  unfolding at_or_after_def by (rule find_earliest)

lemma fill_earliest: "map_option mp_at (firstValidFillAfter (sort_key mp_at marks) t) =
    earliest (\<lambda>m. t < mp_at m \<and> 0 < mp_executable m) marks"
  unfolding firstValidFillAfter_def by (rule find_earliest)

lemma earliest_Some: "earliest P marks = Some t \<Longrightarrow> \<exists>m \<in> set marks. P m \<and> mp_at m = t"
proof -
  assume "earliest P marks = Some t"
  then have "t = Min (mp_at ` set (filter P marks))" "mp_at ` set (filter P marks) \<noteq> {}"
    by (auto simp: earliest_def filter_empty_conv split: if_splits)
  then have "t \<in> mp_at ` set (filter P marks)" using Min_in [of "mp_at ` set (filter P marks)"] by simp
  then show ?thesis by auto
qed

lemma earliest_None: "earliest P marks = None \<longleftrightarrow> (\<forall>m \<in> set marks. \<not> P m)"
  by (auto simp: earliest_def filter_empty_conv)

lemma earliest_le: "m \<in> set marks \<Longrightarrow> P m \<Longrightarrow> \<exists>t \<le> mp_at m. earliest P marks = Some t"
  by (auto simp: earliest_def filter_empty_conv)

lemma is_Some_earliest: "(at_or_after t (sort_key mp_at marks) \<noteq> None) = (earliest (\<lambda>m. t \<le> mp_at m) marks \<noteq> None)"
  using at_or_after_earliest [of t marks] by (cases "at_or_after t (sort_key mp_at marks)") (auto dest: sym)

text \<open>The control, and the two ways the challenger decides.\<close>

abbreviation horizon_mark :: "int \<Rightarrow> MarkPoint list \<Rightarrow> int option" where
  "horizon_mark openedAtMs marks \<equiv> earliest (\<lambda>m. openedAtMs + FIXED_HORIZON_MS \<le> mp_at m) marks"

abbreviation extended_mark :: "int \<Rightarrow> MarkPoint list \<Rightarrow> int option" where
  "extended_mark openedAtMs marks \<equiv> earliest (\<lambda>m. openedAtMs + FIXED_HORIZON_MS + EXIT_EXTENSION_MS \<le> mp_at m) marks"

lemma control_exit:
  "triggeredAt (decideExit FIXED_15M_CONTROL openedAtMs marks) = horizon_mark openedAtMs marks"
  "filledAt (decideExit FIXED_15M_CONTROL openedAtMs marks) = horizon_mark openedAtMs marks"
  by (simp_all add: decideExit_def Let_def at_or_after_earliest)

lemma challenger_deteriorated:
  assumes "deterioration (sort_key mp_at marks) None False = Inl (m, d, s)"
  shows "triggeredAt (decideExit FLOW_LIQUIDITY_DETERIORATION_V1 openedAtMs marks) = Some (mp_at m)"
    and "filledAt (decideExit FLOW_LIQUIDITY_DETERIORATION_V1 openedAtMs marks) =
      earliest (\<lambda>k. mp_at m < mp_at k \<and> 0 < mp_executable k) marks"
  using assms by (simp_all add: decideExit_def Let_def fill_earliest)

lemma challenger_clock:
  assumes "deterioration (sort_key mp_at marks) None False = Inr improved"
  shows "triggeredAt (decideExit FLOW_LIQUIDITY_DETERIORATION_V1 openedAtMs marks) =
      (if improved \<and> extended_mark openedAtMs marks \<noteq> None then extended_mark openedAtMs marks
       else horizon_mark openedAtMs marks)"
    and "filledAt (decideExit FLOW_LIQUIDITY_DETERIORATION_V1 openedAtMs marks) =
      triggeredAt (decideExit FLOW_LIQUIDITY_DETERIORATION_V1 openedAtMs marks)"
  using assms is_Some_earliest [of "openedAtMs + FIXED_HORIZON_MS + EXIT_EXTENSION_MS" marks]
  by (auto simp: decideExit_def Let_def at_or_after_earliest)


definition upto_mark :: "int \<Rightarrow> MarkPoint list \<Rightarrow> MarkPoint list" where
  "upto_mark t marks = filter (\<lambda>m. mp_at m \<le> t) marks"

lemma deterioration_by:
  assumes "deterioration (sort_key mp_at marks) None False = Inl (m, d, s)" and "mp_at m \<le> t"
  shows "deterioration (sort_key mp_at (upto_mark t marks)) None False = Inl (m, d, s)"
proof (cases "deterioration (sort_key mp_at (upto_mark t marks)) None False")
  case (Inl r)
  then show ?thesis
    using assms deterioration_append [of "sort_key mp_at (upto_mark t marks)"]
    by (simp add: sort_key_split [of mp_at marks t] upto_mark_def)
next
  case (Inr improved)
  then have "deterioration (sort_key mp_at (filter (\<lambda>m. \<not> mp_at m \<le> t) marks))
      (fold note_known (sort_key mp_at (upto_mark t marks)) None) improved = Inl (m, d, s)"
    using assms deterioration_append [of "sort_key mp_at (upto_mark t marks)"]
    by (simp add: sort_key_split [of mp_at marks t] upto_mark_def)
  then have "m \<in> set (filter (\<lambda>m. \<not> mp_at m \<le> t) marks)"
    by (metis deterioration_found in_set_conv_decomp set_sort)
  then show ?thesis using assms(2) by simp
qed

lemma deterioration_extends:
  "deterioration (sort_key mp_at (upto_mark t marks)) None False = Inl r \<Longrightarrow>
   deterioration (sort_key mp_at marks) None False = Inl r"
  using deterioration_append [of "sort_key mp_at (upto_mark t marks)"]
  by (simp add: sort_key_split [of mp_at marks t] upto_mark_def)

lemma known_from: "fold note_known ms lastKnown = Some (a, c) \<Longrightarrow>
    lastKnown = Some (a, c) \<or> (\<exists>k \<in> set ms. mp_at k = a \<and> mp_exitCapacity k = Some c)"
  by (induction ms arbitrary: lastKnown) (fastforce simp: note_known_def split: option.splits)+

lemma bdiv_drop:
  assumes "0 < c" and "EXIT_CAPACITY_DROP_BPS \<le> bdiv ((c - c') * 10000) c"
  shows "2000 * c \<le> 10000 * (c - c')"
proof -
  have "c' < c"
  proof (rule ccontr)
    assume "\<not> c' < c"
    then have "bdiv (- ((c' - c) * 10000)) c = - (((c' - c) * 10000) div c)" using assms(1) by (intro bdiv_neg) auto
    moreover have "(c - c') * 10000 = - ((c' - c) * 10000)" by simp
    ultimately have "bdiv ((c - c') * 10000) c \<le> 0"
      using assms(1) \<open>\<not> c' < c\<close> by (simp add: pos_imp_zdiv_nonneg_iff)
    then show False using assms(2) by (simp add: EXIT_CAPACITY_DROP_BPS_def)
  qed
  then have "2000 \<le> ((c - c') * 10000) div c"
    using assms by (simp add: bdiv_nonneg EXIT_CAPACITY_DROP_BPS_def)
  then have "2000 * c \<le> ((c - c') * 10000) div c * c" using assms(1) by (intro mult_right_mono) auto
  also have "\<dots> \<le> (c - c') * 10000" using assms(1) by (simp add: minus_mod_eq_div_mult [symmetric])
  finally show ?thesis by simp
qed

definition exits_on_deterioration :: "ExitDecision \<Rightarrow> bool" where
  "exits_on_deterioration d = (case xd_reason d of capacity_fell _ _ _ \<Rightarrow> True | _ \<Rightarrow> False)"

lemma exits_on_deterioration_iff:
  "exits_on_deterioration (decideExit FLOW_LIQUIDITY_DETERIORATION_V1 openedAtMs marks) \<longleftrightarrow>
    (\<exists>r. deterioration (sort_key mp_at marks) None False = Inl r)"
  by (auto simp: exits_on_deterioration_def decideExit_def Let_def split: sum.split)

text \<open>The challenger's exit on a deterioration uses nothing it could not have seen: any stream with the same
  marks up to the trigger gives the same trigger, the measured capacity really fell by a fifth
  between two marks of the stream, and the exit is priced at a strictly later mark that carries a price.\<close>

theorem deterioration_exit_is_causal:
  assumes "exits_on_deterioration (decideExit FLOW_LIQUIDITY_DETERIORATION_V1 openedAtMs marks)"
    and "triggeredAt (decideExit FLOW_LIQUIDITY_DETERIORATION_V1 openedAtMs marks) = Some t"
    and "upto_mark t marks' = upto_mark t marks"
  shows "exits_on_deterioration (decideExit FLOW_LIQUIDITY_DETERIORATION_V1 openedAtMs marks') \<and>
    triggeredAt (decideExit FLOW_LIQUIDITY_DETERIORATION_V1 openedAtMs marks') = Some t \<and>
    (\<exists>k \<in> set (upto_mark t marks). \<exists>m \<in> set marks. \<exists>c c'. mp_at m = t \<and> mp_exitCapacity k = Some c \<and>
      mp_exitCapacity m = Some c' \<and> 0 < c \<and> 2000 * c \<le> 10000 * (c - c')) \<and>
    filledAt (decideExit FLOW_LIQUIDITY_DETERIORATION_V1 openedAtMs marks') =
      earliest (\<lambda>m. t < mp_at m \<and> 0 < mp_executable m) marks'"
proof -
  obtain m d s where found: "deterioration (sort_key mp_at marks) None False = Inl (m, d, s)"
    using assms(1) unfolding exits_on_deterioration_iff by auto
  then have t: "mp_at m = t" using challenger_deteriorated(1) assms(2) by force
  have early: "deterioration (sort_key mp_at (upto_mark t marks)) None False = Inl (m, d, s)"
    using deterioration_by [OF found] t by simp
  then have found': "deterioration (sort_key mp_at marks') None False = Inl (m, d, s)"
    using deterioration_extends assms(3) by metis
  obtain pre post c' a c where at: "sort_key mp_at (upto_mark t marks) = pre @ m # post"
      "mp_exitCapacity m = Some c'" "fold note_known pre None = Some (a, c)" "0 < c"
      "d = bdiv ((c - c') * 10000) c" "EXIT_CAPACITY_DROP_BPS \<le> d"
    using deterioration_found [OF early] by blast
  obtain k where "k \<in> set pre" "mp_exitCapacity k = Some c" using known_from [OF at(3)] by auto
  moreover have "set pre \<subseteq> set (upto_mark t marks)" "m \<in> set marks"
    using at(1) set_sort [of mp_at "upto_mark t marks"] by (auto simp: upto_mark_def)
  moreover have "2000 * c \<le> 10000 * (c - c')" using at(4-6) by (intro bdiv_drop) auto
  ultimately have "\<exists>k \<in> set (upto_mark t marks). \<exists>m \<in> set marks. \<exists>c c'. mp_at m = t \<and> mp_exitCapacity k = Some c \<and>
      mp_exitCapacity m = Some c' \<and> 0 < c \<and> 2000 * c \<le> 10000 * (c - c')"
    using t at(2,4) by blast
  moreover have "exits_on_deterioration (decideExit FLOW_LIQUIDITY_DETERIORATION_V1 openedAtMs marks')"
    unfolding exits_on_deterioration_iff using found' by blast
  ultimately show ?thesis using challenger_deteriorated [OF found'] t by simp
qed


text \<open>A stream marked at the seven horizons of the collector, priced at its capacity.\<close>

definition demo_path :: "int \<Rightarrow> int list \<Rightarrow> MarkPoint list" where
  "demo_path openedAtMs caps = map (\<lambda>(off, c). \<lparr>mp_at = openedAtMs + off, mp_executable = c,
     mp_exitCapacity = Some c, mp_effectiveReserve = None\<rparr>)
     (zip [60000, 180000, 300000, 600000, 900000, 1800000, 3600000] caps)"

lemmas demo_exit_defs = demo_path_def decideExit_def at_or_after_def firstValidFillAfter_def
  FIXED_HORIZON_MS_def EXIT_EXTENSION_MS_def EXIT_CAPACITY_DROP_BPS_def bdiv_def

theorem deterioration_exit_is_causal_witness:
  "triggeredAt (decideExit FLOW_LIQUIDITY_DETERIORATION_V1 0 (demo_path 0 [1000, 700, 0])) = Some 180000 \<and>
   filledAt (decideExit FLOW_LIQUIDITY_DETERIORATION_V1 0 (demo_path 0 [1000, 700, 0])) = None"
proof -
  have a: "exits_on_deterioration (decideExit FLOW_LIQUIDITY_DETERIORATION_V1 0 (demo_path 0 [1000, 700, 650]))"
    by (simp add: exits_on_deterioration_def demo_exit_defs Let_def)
  have b: "triggeredAt (decideExit FLOW_LIQUIDITY_DETERIORATION_V1 0 (demo_path 0 [1000, 700, 650])) = Some 180000"
    by (simp add: demo_exit_defs Let_def)
  have c: "upto_mark 180000 (demo_path 0 [1000, 700, 0]) = upto_mark 180000 (demo_path 0 [1000, 700, 650])"
    by (simp add: upto_mark_def demo_path_def)
  have "earliest (\<lambda>m. 180000 < mp_at m \<and> 0 < mp_executable m) (demo_path 0 [1000, 700, 0]) = None"
    by (simp add: earliest_def demo_path_def)
  then show ?thesis using deterioration_exit_is_causal [OF a b c] by simp
qed

text \<open>The constant \<open>EXIT_EXTENSION_MS\<close> is documented as the longest the challenger may hold past the
  control, and only when the liquidity improved. The loop runs over the whole stream before either
  horizon is looked at: with a flat capacity that collapses at the last mark, the challenger does not exit
  at fifteen minutes, as it does on the same stream without that mark; it triggers at sixty minutes and
  never fills. And an improvement first seen at sixty minutes moves the exit from the fifteenth to
  the thirtieth minute, before that mark exists.\<close>

theorem challenger_uses_later_marks:
  "triggeredAt (decideExit FLOW_LIQUIDITY_DETERIORATION_V1 t0 (demo_path t0 [900, 900, 900, 900, 900, 900, 0])) =
     Some (t0 + 3600000) \<and>
   filledAt (decideExit FLOW_LIQUIDITY_DETERIORATION_V1 t0 (demo_path t0 [900, 900, 900, 900, 900, 900, 0])) = None \<and>
   filledAt (decideExit FLOW_LIQUIDITY_DETERIORATION_V1 t0 (demo_path t0 [900, 900, 900, 900, 900, 900])) =
     Some (t0 + 900000) \<and>
   filledAt (decideExit FLOW_LIQUIDITY_DETERIORATION_V1 t0 (demo_path t0 [900, 900, 900, 900, 900, 900, 901])) =
     Some (t0 + 1800000)"
  by (simp add: demo_exit_defs Let_def)

text \<open>What makes each entry policy enter: the hard gates and the mechanics bind all four, every
  condition of the policy holds on a known value, and nothing it asked for was unknown.\<close>

theorem entering_needs_every_fact:
  "ed_enter (decideEntry sha256 policy f seed th) \<longleftrightarrow>
    hardGatesPass f \<and> mechanicsViable f \<and> ed_unknowns (decideEntry sha256 policy f seed th) = [] \<and>
    (case policy of
      HARD_GATES_RANDOM \<Rightarrow> seededInclusion sha256 seed (pf_mint f) CONTROL_INCLUSION_RATE
    | CORRECTED_CURRENT_QUALITY_SCORE \<Rightarrow>
        scoreCoverageOk f \<and> holds_for (correctedQualityScore f) (\<lambda>s. QUALITY_SCORE_THRESHOLD \<le> s)
    | SURVIVOR_FLOW_CONTINUATION_V1 \<Rightarrow>
        holds_for (independentBuyerPersistence f) (\<lambda>x. minBuyerPersistence th \<le> x) \<and>
        holds_for (nonMayhemNetQuoteInflowLamports f) (\<lambda>x. 0 < x) \<and>
        holds_for (effectiveQuoteReserveTrend f) (\<lambda>x. minReserveTrend th \<le> x) \<and>
        holds_for (executableExitCapacityTrend f) (\<lambda>x. minExitCapacityTrend th \<le> x) \<and>
        holds_for (continuationSlope f) (\<lambda>x. minContinuationSlope th < x \<and> x \<le> maxContinuationSlope th) \<and>
        holds_for (creatorNetSellingLamports f) (\<lambda>x. x \<le> 0) \<and>
        holds_for (entityConcentration f) (\<lambda>x. x \<le> st_maxEntityConcentration th) \<and>
        holds_for (mintBehaviourSafe f) (\<lambda>x. x)
    | MIGRATION_MICROSTRUCTURE_RISK_V1 \<Rightarrow>
        holds_for (creatorNetSellingLamports f) (\<lambda>x. x \<le> 0) \<and>
        holds_for (mintBehaviourSafe f) (\<lambda>x. x) \<and>
        holds_for (entityConcentration f) (\<lambda>x. x \<le> fl (6 / 10)) \<and>
        holds_for (largestFirstBuyerEntityShare f) (\<lambda>x. x \<le> fl (7 / 10)) \<and>
        holds_for (buyerRetention f) (\<lambda>x. fl (2 / 10) \<le> x) \<and>
        holds_for (lateSellPressure f) (\<lambda>x. x \<le> fl (8 / 10)) \<and>
        holds_for (migrationPathEntityDominance f) (\<lambda>x. x \<le> fl (7 / 10)))"
proof (cases policy)
  case CORRECTED_CURRENT_QUALITY_SCORE
  then show ?thesis
    by (auto simp: decideEntry_def Let_def holds_for_def split: option.splits)
next
  case SURVIVOR_FLOW_CONTINUATION_V1
  then show ?thesis
    unfolding decideEntry_def survivorFlowContinuation_def
    by (auto simp: Let_def need_passes need_unknowns dest: holds_known)
next
  case MIGRATION_MICROSTRUCTURE_RISK_V1
  then show ?thesis
    unfolding decideEntry_def migrationMicrostructureRisk_def MICROSTRUCTURE_RISK_DEFAULTS_def
    by (auto simp: Let_def need_passes need_unknowns dest: holds_known)
qed (auto simp: decideEntry_def Let_def)

end
