(* ===== verification/MarkPath.thy ===== *)
theory MarkPath
  imports Treatments
begin

text \<open>
  What one trajectory is worth: evidence grades, the entry's own impact and the attribution of an entry
  to one pool (\<open>packages/domain/src/trajectory-evidence.ts\<close>), the counterfactual exit
  (\<open>packages/pipeline/src/counterfactual.ts\<close>), and the shared mark path on which every policy is
  evaluated (\<open>packages/pipeline/src/mark-path.ts\<close>). Amounts are bigints; ratios are doubles, with \<open>None\<close>
  for the infinity a zero reserve gives. Messages are left out.
\<close>

section \<open>Evidence grades\<close>

datatype EvidenceGrade = SYNTHETIC | OBSERVED_PRICE | SIMULATED_EXECUTION | BOUNDED_COUNTERFACTUAL
  | FULL_EVENT_REPLAY | LANDED_MAINNET

definition ORDER :: "EvidenceGrade list" where
  "ORDER = [SYNTHETIC, OBSERVED_PRICE, SIMULATED_EXECUTION, BOUNDED_COUNTERFACTUAL, FULL_EVENT_REPLAY,
    LANDED_MAINNET]"

definition evidenceRank :: "EvidenceGrade \<Rightarrow> nat" where
  "evidenceRank g = length (takeWhile (\<lambda>x. x \<noteq> g) ORDER)"

definition atLeast :: "EvidenceGrade \<Rightarrow> EvidenceGrade \<Rightarrow> bool" where
  "atLeast actual required = (evidenceRank actual \<ge> evidenceRank required)"

fun weakestGrade :: "EvidenceGrade list \<Rightarrow> EvidenceGrade option" where
  "weakestGrade [] = None"
| "weakestGrade (g # gs) = Some (foldl (\<lambda>worst x. if evidenceRank x < evidenceRank worst then x else worst) g (g # gs))"

datatype TerminalClaim = MEASUREMENT_REPAIR_REQUIRED | VALID_TRAJECTORY_KERNEL_RUNNING | DEVELOPMENT_EDGE_CANDIDATE
  | PUMP_CONFIRMATORY_COLLECTION_STARTED | CANARY_READY | STRATEGY_KILLED_BY_CORRECTED_ECONOMICS

fun CLAIM_REQUIREMENTS :: "TerminalClaim \<Rightarrow> EvidenceGrade" where
  "CLAIM_REQUIREMENTS MEASUREMENT_REPAIR_REQUIRED = SYNTHETIC"
| "CLAIM_REQUIREMENTS VALID_TRAJECTORY_KERNEL_RUNNING = SIMULATED_EXECUTION"
| "CLAIM_REQUIREMENTS DEVELOPMENT_EDGE_CANDIDATE = BOUNDED_COUNTERFACTUAL"
| "CLAIM_REQUIREMENTS PUMP_CONFIRMATORY_COLLECTION_STARTED = BOUNDED_COUNTERFACTUAL"
| "CLAIM_REQUIREMENTS CANARY_READY = FULL_EVENT_REPLAY"
| "CLAIM_REQUIREMENTS STRATEGY_KILLED_BY_CORRECTED_ECONOMICS = SIMULATED_EXECUTION"

definition claimIsSupported :: "TerminalClaim \<Rightarrow> EvidenceGrade list \<Rightarrow> bool \<times> EvidenceGrade option \<times> EvidenceGrade" where
  "claimIsSupported claim evidence =
    (let required = CLAIM_REQUIREMENTS claim in
     case weakestGrade evidence of None \<Rightarrow> (False, None, required)
     | Some weakest \<Rightarrow> (atLeast weakest required, Some weakest, required))"

section \<open>The entry's own impact\<close>

record EntryImpactBound =
  quoteImpactRatio :: "rat option"
  baseImpactRatio :: "rat option"
  maxImpactRatio :: "rat option"
  ib_haircutBps :: int
  withinSmallImpactBound :: bool
  boundUsed :: rat

definition SMALL_IMPACT_BOUND :: rat where
  "SMALL_IMPACT_BOUND = fl (5 / 1000)"

definition impact_ratio :: "int \<Rightarrow> int \<Rightarrow> rat option" where
  "impact_ratio a b = (if b \<le> 0 then None
     else Some (fl (of_int (js_number (bdiv (a * 1000000) b)) / 1000000)))"

text \<open>\<open>Math.max\<close>, \<open>None\<close> standing for infinity.\<close>

definition ratio_max :: "rat option \<Rightarrow> rat option \<Rightarrow> rat option" where
  "ratio_max q b = (case (q, b) of (Some x, Some y) \<Rightarrow> Some (max x y) | _ \<Rightarrow> None)"

definition boundEntryImpact :: "int \<Rightarrow> int \<Rightarrow> int \<Rightarrow> int \<Rightarrow> rat \<Rightarrow> EntryImpactBound" where
  "boundEntryImpact entryQuoteIn effectiveQuoteReserve tokensAcquired baseReserve bound =
    (let q = impact_ratio entryQuoteIn effectiveQuoteReserve;
         b = impact_ratio tokensAcquired baseReserve;
         mx = ratio_max q b
     in \<lparr>quoteImpactRatio = q, baseImpactRatio = b, maxImpactRatio = mx,
         ib_haircutBps = (case mx of Some r \<Rightarrow> \<lceil>fl (fl (r * 2) * 10000)\<rceil> | None \<Rightarrow> 10000),
         withinSmallImpactBound = (case mx of Some r \<Rightarrow> r \<le> bound | None \<Rightarrow> False),
         boundUsed = bound\<rparr>)"

definition haircutExitValue :: "int \<Rightarrow> int \<Rightarrow> int" where
  "haircutExitValue exitLamports haircutBps =
    (let bps = max 0 (min 10000 haircutBps) in bdiv (exitLamports * (10000 - bps)) 10000)"

datatype venue_refusal = base_did_not_fall | quote_did_not_rise | base_out_differs | outflow_not_supplied
  | unnamed_residue int

text \<open>\<open>None\<close> is an attributed entry. The last two arguments are the optional ones with their defaults applied.\<close>

definition attributeSoleVenue :: "int \<Rightarrow> int \<Rightarrow> int \<Rightarrow> int option \<Rightarrow> int \<Rightarrow> int \<Rightarrow> venue_refusal option" where
  "attributeSoleVenue baseOut quoteIn takerCredit entryQuoteOut feeFlows tolerance =
    (if baseOut \<le> 0 then Some base_did_not_fall
     else if quoteIn \<le> 0 then Some quote_did_not_rise
     else if baseOut \<noteq> takerCredit then Some base_out_differs
     else case entryQuoteOut of None \<Rightarrow> Some outflow_not_supplied
     | Some spent \<Rightarrow>
       (let accountedFor = quoteIn + feeFlows;
            residue = (if spent > accountedFor then spent - accountedFor else accountedFor - spent)
        in if residue > tolerance then Some (unnamed_residue residue) else None))"

section \<open>The counterfactual exit\<close>

definition BOUNDED_IMPACT_CAP_BPS :: int where
  "BOUNDED_IMPACT_CAP_BPS = 10"

definition HAIRCUT_FLOOR_BPS :: int where
  "HAIRCUT_FLOOR_BPS = 25"

datatype EvidenceClass = BOUNDED_COUNTERFACTUAL_V1 | RESERVE_DELTA_REPLAY_V1

datatype counterfactual_refusal = IMPACT_ABOVE_BOUND | STATE_UNKNOWN

record BoundedCounterfactualInput =
  ci_entryBaseDeltaAtoms :: int
  ci_entryQuoteDeltaLamports :: int
  ci_observedBaseReserve :: int
  ci_observedQuoteReserve :: int
  tokensHeldAtoms :: int
  ci_entryImpactBps :: int

record BoundedCounterfactual =
  adjustedBaseReserve :: int
  adjustedQuoteReserve :: int
  bc_haircutBps :: int
  bc_haircutLamports :: int
  counterfactualExitLamports :: int

definition constantProductOut :: "int \<Rightarrow> int \<Rightarrow> int \<Rightarrow> int" where
  "constantProductOut inAtoms inReserve outReserve =
    (if inAtoms \<le> 0 \<or> inReserve \<le> 0 \<or> outReserve \<le> 0 then 0
     else bdiv (inAtoms * outReserve) (inReserve + inAtoms))"

definition boundedCounterfactual :: "BoundedCounterfactualInput \<Rightarrow> counterfactual_refusal + BoundedCounterfactual" where
  "boundedCounterfactual input =
    (if ci_entryImpactBps input > BOUNDED_IMPACT_CAP_BPS then Inl IMPACT_ABOVE_BOUND
     else if ci_observedBaseReserve input \<le> 0 \<or> ci_observedQuoteReserve input \<le> 0 then Inl STATE_UNKNOWN
     else
       let withUsBase = ci_observedBaseReserve input + ci_entryBaseDeltaAtoms input;
           withUsQuote = ci_observedQuoteReserve input + ci_entryQuoteDeltaLamports input
       in if withUsBase \<le> 0 \<or> withUsQuote \<le> 0 then Inl STATE_UNKNOWN
       else
         let adjustedQuote = bdiv (withUsQuote * (10000 - HAIRCUT_FLOOR_BPS)) 10000;
             adjustedBase = bdiv (withUsBase * (10000 + HAIRCUT_FLOOR_BPS)) 10000;
             unhaircut = constantProductOut (tokensHeldAtoms input) withUsBase withUsQuote;
             exit = constantProductOut (tokensHeldAtoms input) adjustedBase adjustedQuote
         in Inr \<lparr>adjustedBaseReserve = adjustedBase, adjustedQuoteReserve = adjustedQuote,
              bc_haircutBps = HAIRCUT_FLOOR_BPS,
              bc_haircutLamports = (if unhaircut > exit then unhaircut - exit else 0),
              counterfactualExitLamports = exit\<rparr>)"

record PoolEvent =
  pe_slot :: int
  baseVaultDelta :: int
  quoteVaultDelta :: int

record ReplayedCounterfactual =
  finalBaseReserve :: int
  finalQuoteReserve :: int
  eventsApplied :: int
  rc_exitLamports :: int

definition apply_event :: "PoolEvent \<Rightarrow> int \<times> int \<Rightarrow> int \<times> int" where
  "apply_event e = (\<lambda>(base, quote).
    (let b = base + baseVaultDelta e; q = quote + quoteVaultDelta e
     in (if b < 0 then 0 else b, if q < 0 then 0 else q)))"

definition replayCounterfactual :: "int \<Rightarrow> int \<Rightarrow> PoolEvent list \<Rightarrow> int \<Rightarrow> ReplayedCounterfactual" where
  "replayCounterfactual postEntryBase postEntryQuote events tokensHeld =
    (let ordered = sort_key pe_slot events;
         (base, quote) = fold apply_event ordered (postEntryBase, postEntryQuote)
     in \<lparr>finalBaseReserve = base, finalQuoteReserve = quote, eventsApplied = int (length ordered),
         rc_exitLamports = constantProductOut tokensHeld base quote\<rparr>)"

definition CALIBRATION_TOLERANCE_BPS :: int where
  "CALIBRATION_TOLERANCE_BPS = 200"

record CalibrationResult =
  errorLamports :: int
  errorBps :: int
  conservative :: bool
  withinTolerance :: bool

definition calibrate :: "int \<Rightarrow> int \<Rightarrow> CalibrationResult" where
  "calibrate bounded replayed =
    (let error = bounded - replayed;
         bps = (if replayed = 0 then 0 else js_number (bdiv (error * 10000) replayed))
     in \<lparr>errorLamports = error, errorBps = bps, conservative = (bounded \<le> replayed),
         withinTolerance = (\<bar>bps\<bar> \<le> CALIBRATION_TOLERANCE_BPS)\<rparr>)"

datatype CounterfactualGrade = DEVELOPMENT | CALIBRATED

definition admissibleForPnl :: "EvidenceClass option \<Rightarrow> CounterfactualGrade option \<Rightarrow> bool" where
  "admissibleForPnl cls grade =
    (case cls of None \<Rightarrow> False
     | Some BOUNDED_COUNTERFACTUAL_V1 \<Rightarrow> grade = Some CALIBRATED
     | Some RESERVE_DELTA_REPLAY_V1 \<Rightarrow> True)"

section \<open>The shared mark path\<close>

definition MARK_OFFSETS_MS :: "int list" where
  "MARK_OFFSETS_MS = [60000, 180000, 300000, 600000, 900000, 1800000, 3600000]"

definition MAX_MARK_LATENESS_MS :: int where
  "MAX_MARK_LATENESS_MS = 120000"

record CollectedMark =
  cm_at :: int
  cm_offset :: int
  cm_lateness :: int
  cm_executable :: "int option"
  cm_exitCapacity :: "int option"
  cm_effectiveReserve :: "int option"
  cm_observedBase :: "int option"
  cm_observedQuote :: "int option"
  cm_refusal :: "string option"

text \<open>What \<open>directSellMark\<close> read from the pool, and \<open>takeMark\<close> on its answer at time \<open>now\<close>: the refusal's reason
  or the pool's price and reserves.\<close>

record PoolFacts =
  dm_executable :: int
  dm_baseReserve :: int
  dm_quoteReserveRaw :: int
  dm_virtualQuoteReserves :: int

definition takeMark :: "int \<Rightarrow> int \<Rightarrow> int \<Rightarrow> string + PoolFacts \<Rightarrow> CollectedMark" where
  "takeMark now openedAtMs offset answer =
    (let lateness = max 0 (now - (openedAtMs + offset)) in
     case answer of
       Inr m \<Rightarrow> \<lparr>cm_at = now, cm_offset = offset, cm_lateness = lateness,
         cm_executable = Some (dm_executable m), cm_exitCapacity = Some (dm_executable m),
         cm_effectiveReserve = Some (dm_quoteReserveRaw m + dm_virtualQuoteReserves m),
         cm_observedBase = Some (dm_baseReserve m),
         cm_observedQuote = Some (dm_quoteReserveRaw m + dm_virtualQuoteReserves m), cm_refusal = None\<rparr>
     | Inl reason \<Rightarrow> \<lparr>cm_at = now, cm_offset = offset, cm_lateness = lateness, cm_executable = None,
         cm_exitCapacity = None, cm_effectiveReserve = None, cm_observedBase = None, cm_observedQuote = None,
         cm_refusal = Some reason\<rparr>)"

record PolicyOutcome =
  po_exitPolicy :: ExitPolicy
  po_triggeredAt :: "int option"
  po_triggeredOffset :: "int option"
  po_filledAt :: "int option"
  po_filledOffset :: "int option"
  po_reason :: exit_reason
  exitMarkLamports :: "int option"
  grossDeltaLamports :: "int option"
  po_evidenceClass :: "EvidenceClass option"

definition mark_points :: "int \<Rightarrow> CollectedMark list \<Rightarrow> MarkPoint list" where
  "mark_points openedAtMs path = map (\<lambda>m. \<lparr>mp_at = openedAtMs + cm_offset m,
     mp_executable = nullish (cm_executable m) 0, mp_exitCapacity = cm_exitCapacity m,
     mp_effectiveReserve = cm_effectiveReserve m\<rparr>) path"

definition offset_at :: "int \<Rightarrow> CollectedMark list \<Rightarrow> int option \<Rightarrow> int option" where
  "offset_at openedAtMs path instant = (case instant of None \<Rightarrow> None
     | Some t \<Rightarrow> map_option cm_offset (find (\<lambda>m. openedAtMs + cm_offset m = t) path))"

definition evaluate_policy ::
    "CollectedMark list \<Rightarrow> int \<Rightarrow> int \<Rightarrow> (int \<times> int \<times> EvidenceClass) list \<Rightarrow> ExitPolicy \<Rightarrow> PolicyOutcome" where
  "evaluate_policy path openedAtMs entryCashOut counterfactuals policy =
    (let d = decideExit policy openedAtMs (mark_points openedAtMs path);
         fillOffset = offset_at openedAtMs path (filledAt d);
         cf = (case fillOffset of None \<Rightarrow> None | Some off \<Rightarrow> js_get counterfactuals off)
     in \<lparr>po_exitPolicy = policy, po_triggeredAt = triggeredAt d,
         po_triggeredOffset = offset_at openedAtMs path (triggeredAt d),
         po_filledAt = filledAt d, po_filledOffset = fillOffset, po_reason = xd_reason d,
         exitMarkLamports = map_option fst cf,
         grossDeltaLamports = map_option (\<lambda>x. x - entryCashOut) (map_option fst cf),
         po_evidenceClass = map_option snd cf\<rparr>)"

definition evaluateExitPolicies ::
    "CollectedMark list \<Rightarrow> int \<Rightarrow> ExitPolicy list \<Rightarrow> int \<Rightarrow> (int \<times> int \<times> EvidenceClass) list \<Rightarrow> PolicyOutcome list" where
  "evaluateExitPolicies path openedAtMs policies entryCashOut counterfactuals =
    map (evaluate_policy path openedAtMs entryCashOut counterfactuals) policies"

text \<open>\<open>complete\<close> and \<open>backfilled\<close>.\<close>

definition pathIsComplete :: "CollectedMark list \<Rightarrow> bool \<times> bool" where
  "pathIsComplete path =
    (if \<not> list_all (\<lambda>off. off \<in> set (map cm_offset path)) MARK_OFFSETS_MS then (False, False)
     else if list_all (\<lambda>m. cm_executable m = None) path then (False, False)
     else (True, list_ex (\<lambda>m. cm_lateness m > MAX_MARK_LATENESS_MS) path))"


section \<open>Lemmas\<close>

lemma constantProductOut_nonneg: "0 \<le> constantProductOut x i r"
  by (simp add: constantProductOut_def bdiv_nonneg pos_imp_zdiv_nonneg_iff)

text \<open>More of the sold token in the pool and less of the bought one can only lower the output.\<close>

lemma constantProductOut_mono:
  assumes "i \<le> i'" and "r' \<le> r" and "0 < i"
  shows "constantProductOut x i' r' \<le> constantProductOut x i r"
proof (cases "0 < x \<and> 0 < r'")
  case True
  have "(x * r') div (i' + x) \<le> (x * r') div (i + x)"
    using True assms by (intro zdiv_mono2) auto
  also have "\<dots> \<le> (x * r) div (i + x)"
    using True assms by (intro zdiv_mono1 mult_left_mono) auto
  finally show ?thesis using True assms by (simp add: constantProductOut_def bdiv_nonneg)
next
  case False
  then have "constantProductOut x i' r' = 0" by (auto simp: constantProductOut_def)
  then show ?thesis using constantProductOut_nonneg by simp
qed

lemma scaled_down: "0 \<le> q \<Longrightarrow> bdiv (q * (10000 - HAIRCUT_FLOOR_BPS)) 10000 \<le> q"
  by (simp add: bdiv_nonneg HAIRCUT_FLOOR_BPS_def)

lemma scaled_up: "0 \<le> b \<Longrightarrow> b \<le> bdiv (b * (10000 + HAIRCUT_FLOOR_BPS)) 10000"
  by (simp add: bdiv_nonneg HAIRCUT_FLOOR_BPS_def)

lemma haircut_le: "0 < b \<Longrightarrow> 0 < q \<Longrightarrow>
    constantProductOut x (bdiv (b * (10000 + HAIRCUT_FLOOR_BPS)) 10000) (bdiv (q * (10000 - HAIRCUT_FLOOR_BPS)) 10000)
      \<le> constantProductOut x b q"
  by (intro constantProductOut_mono scaled_down scaled_up) auto

lemma bounded_exit_le:
  assumes "boundedCounterfactual input = Inr c"
  shows "counterfactualExitLamports c \<le> constantProductOut (tokensHeldAtoms input)
      (ci_observedBaseReserve input + ci_entryBaseDeltaAtoms input)
      (ci_observedQuoteReserve input + ci_entryQuoteDeltaLamports input)"
    and "ci_entryImpactBps input \<le> BOUNDED_IMPACT_CAP_BPS"
  using assms haircut_le [of "ci_observedBaseReserve input + ci_entryBaseDeltaAtoms input"
      "ci_observedQuoteReserve input + ci_entryQuoteDeltaLamports input" "tokensHeldAtoms input"]
  by (auto simp: boundedCounterfactual_def Let_def simp del: not_less split: if_splits)

text \<open>A replay whose reserves never go below zero adds up the events.\<close>

definition never_drained :: "int \<Rightarrow> int \<Rightarrow> PoolEvent list \<Rightarrow> bool" where
  "never_drained base quote events =
    list_all (\<lambda>n. 0 \<le> base + sum_list (map baseVaultDelta (take n events)) \<and>
      0 \<le> quote + sum_list (map quoteVaultDelta (take n events))) [0..<Suc (length events)]"

lemma replay_sums:
  "never_drained base quote events \<Longrightarrow>
   fold apply_event events (base, quote) =
     (base + sum_list (map baseVaultDelta events), quote + sum_list (map quoteVaultDelta events))"
proof (induction events arbitrary: base quote)
  case (Cons e es)
  have all: "\<forall>n \<le> Suc (length es). 0 \<le> base + sum_list (map baseVaultDelta (take n (e # es))) \<and>
      0 \<le> quote + sum_list (map quoteVaultDelta (take n (e # es)))"
    using Cons.prems by (simp add: never_drained_def list_all_iff less_Suc_eq_le del: upt_Suc)
  have "0 \<le> base + baseVaultDelta e" "0 \<le> quote + quoteVaultDelta e"
    using all [rule_format, of 1] by simp_all
  moreover have "0 \<le> base + baseVaultDelta e + sum_list (map baseVaultDelta (take n es)) \<and>
      0 \<le> quote + quoteVaultDelta e + sum_list (map quoteVaultDelta (take n es))" if "n \<le> length es" for n
    using all [rule_format, of "Suc n"] that by (simp add: add.assoc)
  then have "never_drained (base + baseVaultDelta e) (quote + quoteVaultDelta e) es"
    by (simp add: never_drained_def list_all_iff less_Suc_eq_le del: upt_Suc)
  ultimately show ?case using Cons.IH by (simp add: apply_event_def Let_def add.assoc)
qed simp


section \<open>Properties\<close>

text \<open>C25: The bounded contract never flatters an exit. Whenever it prices one, the entry moved the pool by at most ten
  basis points, and the price is at most what the exact replay pays: the pool events applied in order to
  the local state after the entry, as long as no reserve is exhausted on the way and the same
  events lead from the pool before the entry to the reserves observed at the mark.\<close>

theorem bounded_below_replay:
  assumes "boundedCounterfactual input = Inr c"
    and "ci_observedBaseReserve input = preBase + sum_list (map baseVaultDelta events)"
    and "ci_observedQuoteReserve input = preQuote + sum_list (map quoteVaultDelta events)"
    and "never_drained (preBase + ci_entryBaseDeltaAtoms input) (preQuote + ci_entryQuoteDeltaLamports input)
      (sort_key pe_slot events)"
  shows "ci_entryImpactBps input \<le> BOUNDED_IMPACT_CAP_BPS \<and>
    conservative (calibrate (counterfactualExitLamports c)
      (rc_exitLamports (replayCounterfactual (preBase + ci_entryBaseDeltaAtoms input)
        (preQuote + ci_entryQuoteDeltaLamports input) events (tokensHeldAtoms input))))"
proof -
  have "rc_exitLamports (replayCounterfactual (preBase + ci_entryBaseDeltaAtoms input)
        (preQuote + ci_entryQuoteDeltaLamports input) events (tokensHeldAtoms input)) =
      constantProductOut (tokensHeldAtoms input)
        (ci_observedBaseReserve input + ci_entryBaseDeltaAtoms input)
        (ci_observedQuoteReserve input + ci_entryQuoteDeltaLamports input)"
    using assms(2,3) by (simp add: replayCounterfactual_def replay_sums [OF assms(4)] algebra_simps)
  then show ?thesis using bounded_exit_le [OF assms(1)] by (simp add: calibrate_def Let_def)
qed

definition demo_counterfactual :: "int \<Rightarrow> BoundedCounterfactualInput" where
  "demo_counterfactual impact = \<lparr>ci_entryBaseDeltaAtoms = - 1000, ci_entryQuoteDeltaLamports = 20000,
     ci_observedBaseReserve = 1900000, ci_observedQuoteReserve = 22000000, tokensHeldAtoms = 1000,
     ci_entryImpactBps = impact\<rparr>"

definition demo_events :: "PoolEvent list" where
  "demo_events = [\<lparr>pe_slot = 7, baseVaultDelta = - 150000, quoteVaultDelta = 3000000\<rparr>,
     \<lparr>pe_slot = 5, baseVaultDelta = 50000, quoteVaultDelta = - 1000000\<rparr>]"

lemma demo_counterfactual_exit: "boundedCounterfactual (demo_counterfactual 10) = Inr
    \<lparr>adjustedBaseReserve = 1903747, adjustedQuoteReserve = 21964950, bc_haircutBps = 25,
     bc_haircutLamports = 58, counterfactualExitLamports = 11531\<rparr>"
  by (simp add: boundedCounterfactual_def demo_counterfactual_def constantProductOut_def bdiv_def
      BOUNDED_IMPACT_CAP_BPS_def HAIRCUT_FLOOR_BPS_def)

theorem bounded_below_replay_witness:
  "conservative (calibrate 11531 (rc_exitLamports (replayCounterfactual 1999000 20020000 demo_events 1000)))"
proof -
  have "never_drained 1999000 20020000 (sort_key pe_slot demo_events)"
    by (simp add: never_drained_def demo_events_def upt_rec)
  then show ?thesis
    using bounded_below_replay [OF demo_counterfactual_exit, of 2000000 demo_events 20000000]
    by (simp add: demo_counterfactual_def demo_events_def)
qed

text \<open>An entry is attributed to one pool exactly when both sides of the trade reconcile: the pool gave
  exactly what the taker gained, and what the payer spent is the quote the pool received and the named
  fees, up to the tolerance.\<close>

theorem attribution_reconciles:
  "attributeSoleVenue baseOut quoteIn takerCredit entryQuoteOut feeFlows tolerance = None \<longleftrightarrow>
    0 < baseOut \<and> 0 < quoteIn \<and> baseOut = takerCredit \<and>
    (case entryQuoteOut of None \<Rightarrow> False | Some spent \<Rightarrow> \<bar>spent - (quoteIn + feeFlows)\<bar> \<le> tolerance)"
  by (auto simp: attributeSoleVenue_def Let_def split: option.split)


section \<open>Exits on a complete path\<close>

lemma set_mark_points: "set (mark_points t0 path) =
    (\<lambda>m. \<lparr>mp_at = t0 + cm_offset m, mp_executable = nullish (cm_executable m) 0,
      mp_exitCapacity = cm_exitCapacity m, mp_effectiveReserve = cm_effectiveReserve m\<rparr>) ` set path"
  by (simp add: mark_points_def)

lemma point_offset: "m \<in> set (mark_points t0 path) \<Longrightarrow> \<exists>x \<in> cm_offset ` set path. mp_at m = t0 + x"
  by (auto simp: set_mark_points)

lemma earliest_points:
  "P (t0 + off) \<Longrightarrow> off \<in> cm_offset ` set path \<Longrightarrow> \<forall>o' \<in> cm_offset ` set path. P (t0 + o') \<longrightarrow> off \<le> o' \<Longrightarrow>
   earliest (\<lambda>m. P (mp_at m)) (mark_points t0 path) = Some (t0 + off)"
proof -
  assume P: "P (t0 + off)" and here: "off \<in> cm_offset ` set path"
    and least: "\<forall>o' \<in> cm_offset ` set path. P (t0 + o') \<longrightarrow> off \<le> o'"
  have times: "mp_at ` set (filter (\<lambda>m. P (mp_at m)) (mark_points t0 path)) =
      {t0 + x | x. x \<in> cm_offset ` set path \<and> P (t0 + x)}"
    by (force simp: set_mark_points)
  have "Min {t0 + x | x. x \<in> cm_offset ` set path \<and> P (t0 + x)} = t0 + off"
    using P here least by (intro Min_eqI) auto
  moreover have "filter (\<lambda>m. P (mp_at m)) (mark_points t0 path) \<noteq> []"
    using P here by (auto simp: filter_empty_conv set_mark_points)
  ultimately show ?thesis using times by (simp add: earliest_def)
qed

lemma offset_at_Some: "off \<in> cm_offset ` set path \<Longrightarrow> offset_at t0 path (Some (t0 + off)) = Some off"
proof -
  assume "off \<in> cm_offset ` set path"
  then obtain m where "find (\<lambda>m. t0 + cm_offset m = t0 + off) path = Some m"
    by (cases "find (\<lambda>m. t0 + cm_offset m = t0 + off) path") (auto simp: find_None_iff)
  moreover from this have "cm_offset m = off" by (auto simp: find_Some_iff)
  ultimately show ?thesis by (simp add: offset_at_def)
qed

definition on_grid :: "CollectedMark list \<Rightarrow> bool" where
  "on_grid path \<longleftrightarrow> distinct (map cm_offset path) \<and> set (map cm_offset path) \<subseteq> set MARK_OFFSETS_MS"

lemma complete_offsets: "on_grid path \<Longrightarrow> fst (pathIsComplete path) \<Longrightarrow> cm_offset ` set path = set MARK_OFFSETS_MS"
  by (auto simp: on_grid_def pathIsComplete_def list_all_iff split: if_splits)

lemma horizon_on_grid:
  assumes "cm_offset ` set path = set MARK_OFFSETS_MS"
  shows "horizon_mark t0 (mark_points t0 path) = Some (t0 + 900000)"
    and "extended_mark t0 (mark_points t0 path) = Some (t0 + 1800000)"
  by (rule earliest_points; simp add: assms MARK_OFFSETS_MS_def FIXED_HORIZON_MS_def EXIT_EXTENSION_MS_def)+

lemma deterioration_after_two:
  assumes "on_grid path" and "cm_offset ` set path = set MARK_OFFSETS_MS"
    and "deterioration (sort_key mp_at (mark_points t0 path)) None False = Inl (m, d, s)"
  shows "t0 + 180000 \<le> mp_at m" and "m \<in> set (mark_points t0 path)"
proof -
  obtain pre post a c where at: "sort_key mp_at (mark_points t0 path) = pre @ m # post"
      "fold note_known pre None = Some (a, c)"
    using deterioration_found [OF assms(3)] by blast
  then obtain k where k: "k \<in> set pre" using known_from [OF at(2)] by auto
  have "sorted (map mp_at (pre @ m # post))" using sorted_sort_key [of mp_at] at(1) by metis
  then have le: "mp_at k \<le> mp_at m" using k by (auto simp: sorted_append)
  have "map mp_at (mark_points t0 path) = map (\<lambda>x. t0 + x) (map cm_offset path)"
    by (simp add: mark_points_def)
  then have "distinct (map mp_at (mark_points t0 path))"
    using assms(1) by (simp add: on_grid_def distinct_map comp_inj_on inj_on_def)
  moreover have "mset (map mp_at (pre @ m # post)) = mset (map mp_at (mark_points t0 path))"
    by (metis at(1) mset_map mset_sort)
  ultimately have "distinct (map mp_at (pre @ m # post))" by (metis mset_eq_imp_distinct_iff)
  then have "mp_at m \<notin> mp_at ` set pre" by simp
  moreover have "mp_at k \<in> mp_at ` set pre" using k by (rule imageI)
  ultimately have "mp_at k \<noteq> mp_at m" by metis
  then have less: "mp_at k < mp_at m" using le by simp
  have members: "m \<in> set (mark_points t0 path)" "k \<in> set (mark_points t0 path)"
    using at(1) k set_sort [of mp_at "mark_points t0 path"] by auto
  then obtain x y where "mp_at m = t0 + x" "mp_at k = t0 + y" "x \<in> set MARK_OFFSETS_MS" "y \<in> set MARK_OFFSETS_MS"
    using point_offset assms(2) by metis
  then show "t0 + 180000 \<le> mp_at m" using less by (auto simp: MARK_OFFSETS_MS_def)
  show "m \<in> set (mark_points t0 path)" by (rule members)
qed

lemma challenger_fill_on_grid:
  assumes "on_grid path" and "cm_offset ` set path = set MARK_OFFSETS_MS"
  shows "filledAt (decideExit FLOW_LIQUIDITY_DETERIORATION_V1 t0 (mark_points t0 path)) = None \<or>
    (\<exists>x \<in> {300000, 600000, 900000, 1800000, 3600000}.
      filledAt (decideExit FLOW_LIQUIDITY_DETERIORATION_V1 t0 (mark_points t0 path)) = Some (t0 + x))"
proof (cases "deterioration (sort_key mp_at (mark_points t0 path)) None False")
  case (Inl r)
  obtain m d s where r: "r = (m, d, s)" by (cases r) auto
  let ?fill = "earliest (\<lambda>k. mp_at m < mp_at k \<and> 0 < mp_executable k) (mark_points t0 path)"
  have "?fill = None \<or> (\<exists>x \<in> {300000, 600000, 900000, 1800000, 3600000}. ?fill = Some (t0 + x))"
  proof (cases ?fill)
    case (Some f)
    then obtain k where k: "k \<in> set (mark_points t0 path)" "mp_at m < mp_at k" "mp_at k = f"
      using earliest_Some by blast
    then obtain x where "f = t0 + x" "x \<in> set MARK_OFFSETS_MS" using point_offset [OF k(1)] assms(2) by auto
    moreover have "t0 + 180000 < f" using deterioration_after_two(1) [OF assms] Inl r k by fastforce
    ultimately show ?thesis using Some by (auto simp: MARK_OFFSETS_MS_def)
  qed simp
  then show ?thesis using challenger_deteriorated(2) Inl r by simp
next
  case (Inr improved)
  then show ?thesis
    using challenger_clock [OF Inr, of t0] horizon_on_grid [OF assms(2), of t0] by (cases improved) auto
qed

text \<open>On a complete path of the seven horizons every policy sees the same marks and the outcomes are
  paired: the control always exits at fifteen minutes; the challenger exits at five minutes at the earliest,
  on a horizon of the grid, or is blocked; and the price of each is the counterfactual recorded for the
  horizon of its own fill, never the mark's quote, and nothing when no contract covers that horizon.\<close>

theorem paired_outcomes_on_one_path:
  assumes "on_grid path" and "fst (pathIsComplete path)"
  shows "po_filledOffset (evaluate_policy path t0 entryCashOut cfs FIXED_15M_CONTROL) = Some 900000 \<and>
    exitMarkLamports (evaluate_policy path t0 entryCashOut cfs FIXED_15M_CONTROL) =
      map_option fst (js_get cfs 900000) \<and>
    (case po_filledOffset (evaluate_policy path t0 entryCashOut cfs FLOW_LIQUIDITY_DETERIORATION_V1) of
      None \<Rightarrow> exitMarkLamports (evaluate_policy path t0 entryCashOut cfs FLOW_LIQUIDITY_DETERIORATION_V1) = None
    | Some x \<Rightarrow> x \<in> {300000, 600000, 900000, 1800000, 3600000} \<and>
        exitMarkLamports (evaluate_policy path t0 entryCashOut cfs FLOW_LIQUIDITY_DETERIORATION_V1) =
          map_option fst (js_get cfs x))"
proof -
  note offsets = complete_offsets [OF assms]
  have fill: "offset_at t0 path (filledAt (decideExit FIXED_15M_CONTROL t0 (mark_points t0 path))) = Some 900000"
    using offset_at_Some [of 900000 path t0] horizon_on_grid(1) [OF offsets, of t0]
    by (simp add: offsets control_exit MARK_OFFSETS_MS_def)
  define off where "off = offset_at t0 path (filledAt (decideExit FLOW_LIQUIDITY_DETERIORATION_V1 t0 (mark_points t0 path)))"
  have off: "off = None \<or> (\<exists>x \<in> {300000, 600000, 900000, 1800000, 3600000}. off = Some x)"
    using challenger_fill_on_grid [OF assms(1) offsets, of t0]
  proof
    assume "\<exists>x \<in> {300000, 600000, 900000, 1800000, 3600000}.
      filledAt (decideExit FLOW_LIQUIDITY_DETERIORATION_V1 t0 (mark_points t0 path)) = Some (t0 + x)"
    then obtain x where x: "x \<in> {300000, 600000, 900000, 1800000, 3600000}"
      "filledAt (decideExit FLOW_LIQUIDITY_DETERIORATION_V1 t0 (mark_points t0 path)) = Some (t0 + x)" by blast
    then have "x \<in> cm_offset ` set path" by (auto simp: offsets MARK_OFFSETS_MS_def)
    then show ?thesis using x offset_at_Some [of x path t0] by (simp add: off_def)
  qed (simp add: off_def offset_at_def)
  have control: "po_filledOffset (evaluate_policy path t0 entryCashOut cfs FIXED_15M_CONTROL) = Some 900000"
    "exitMarkLamports (evaluate_policy path t0 entryCashOut cfs FIXED_15M_CONTROL) = map_option fst (js_get cfs 900000)"
    using fill by (simp_all add: evaluate_policy_def Let_def)
  have challenger: "po_filledOffset (evaluate_policy path t0 entryCashOut cfs FLOW_LIQUIDITY_DETERIORATION_V1) = off"
    "exitMarkLamports (evaluate_policy path t0 entryCashOut cfs FLOW_LIQUIDITY_DETERIORATION_V1) =
      map_option fst (case off of None \<Rightarrow> None | Some x \<Rightarrow> js_get cfs x)"
    by (simp_all add: evaluate_policy_def off_def Let_def)
  show ?thesis
  proof (cases off)
    case None
    then show ?thesis using control challenger by simp
  next
    case (Some x)
    then have "x \<in> {300000, 600000, 900000, 1800000, 3600000}" using off by auto
    then show ?thesis using Some control challenger by simp
  qed
qed

definition demo_mark :: "int \<Rightarrow> int \<Rightarrow> CollectedMark" where
  "demo_mark off price = takeMark off 0 off (Inr \<lparr>dm_executable = price, dm_baseReserve = 1900000,
     dm_quoteReserveRaw = 22000000, dm_virtualQuoteReserves = 0\<rparr>)"

definition demo_complete :: "CollectedMark list" where
  "demo_complete = map (\<lambda>(off, p). demo_mark off p) (zip MARK_OFFSETS_MS [900, 700, 680, 670, 660, 660, 660])"

text \<open>On this path the challenger exits at five minutes, before the control.\<close>

theorem paired_outcomes_on_one_path_witness:
  "exitMarkLamports (evaluate_policy demo_complete 0 900 [(300000, 655, BOUNDED_COUNTERFACTUAL_V1),
      (900000, 640, BOUNDED_COUNTERFACTUAL_V1)] FIXED_15M_CONTROL) = Some 640 \<and>
   po_filledOffset (evaluate_policy demo_complete 0 900 [(300000, 655, BOUNDED_COUNTERFACTUAL_V1),
      (900000, 640, BOUNDED_COUNTERFACTUAL_V1)] FLOW_LIQUIDITY_DETERIORATION_V1) = Some 300000"
proof -
  have grid: "on_grid demo_complete" "fst (pathIsComplete demo_complete)"
    by (simp_all add: on_grid_def pathIsComplete_def demo_complete_def demo_mark_def takeMark_def MARK_OFFSETS_MS_def Let_def)
  have "po_filledOffset (evaluate_policy demo_complete 0 900 cfs FLOW_LIQUIDITY_DETERIORATION_V1) = Some 300000" for cfs
    by (simp add: evaluate_policy_def offset_at_def mark_points_def demo_complete_def demo_mark_def takeMark_def
        MARK_OFFSETS_MS_def demo_exit_defs Let_def)
  then show ?thesis using paired_outcomes_on_one_path [OF grid] by (simp add: js_get_def)
qed

end
