(* ===== verification/MarkStore.thy ===== *)
theory MarkStore
  imports MarkPath "HOL-Library.Product_Lexorder"
begin

text \<open>
  The trajectory corpus: the rows of \<open>development_trajectories\<close>, \<open>trajectory_marks\<close>,
  \<open>counterfactual_marks\<close> and \<open>trajectory_policy_outcomes\<close> with their writers and readers
  (\<open>packages/storage/src/mark-repo.ts\<close>, \<open>trajectory-repo.ts\<close>, the insert of \<open>counterfactual.ts\<close>), the
  scheduler (\<open>packages/pipeline/src/mark-scheduler.ts\<close>), and \<open>runMarkPass\<close> of
  \<open>apps/collector/src/trajectory-collect.ts\<close>. A row keeps the columns this code reads; the acquired
  amount is the number \<open>openTrajectories\<close> parses out of the row's JSON. Every write is one statement; a
  pass runs with the number of statements it executes before the process dies.
\<close>

section \<open>Rows\<close>

definition AWAITING :: string where
  "AWAITING = ''AWAITING_FILL_OBSERVATION''"

definition SETTLED_STATE :: string where
  "SETTLED_STATE = ''SETTLED''"

lemma states_differ [simp]: "AWAITING \<noteq> SETTLED_STATE" "SETTLED_STATE \<noteq> AWAITING"
  by (simp_all add: AWAITING_def SETTLED_STATE_def)

record TrajRow =
  tr_id :: string
  tr_mint :: string
  tr_state :: string
  tr_opened :: int
  tr_notional :: int
  tr_acquired :: int
  tr_baseDelta :: "int option"
  tr_quoteDelta :: "int option"
  tr_impactBps :: "int option"
  tr_context :: "string option"
  tr_settledAt :: "int option"

datatype MarkSlaStatus = ON_TIME | MISSED_HORIZON

record TrajMark =
  tm_traj :: string
  tm_mark :: CollectedMark
  tm_sla :: "(MarkSlaStatus \<times> int \<times> int) option"

record CounterfactualMark =
  cf_traj :: string
  cf_offset :: int
  cf_class :: EvidenceClass
  cf_entryBaseDelta :: int
  cf_entryQuoteDelta :: int
  cf_observedBase :: int
  cf_observedQuote :: int
  cf_adjustedBase :: int
  cf_adjustedQuote :: int
  cf_haircutBps :: int
  cf_haircutLamports :: int
  cf_impactBps :: int
  cf_exit :: "int option"
  cf_grade :: CounterfactualGrade
  cf_refusal :: "counterfactual_refusal option"
  cf_computedAt :: int

record OutcomeRow =
  oc_traj :: string
  oc_policy :: ExitPolicy
  oc_triggeredAt :: "int option"
  oc_triggeredOffset :: "int option"
  oc_reason :: exit_reason
  oc_exitMark :: "int option"
  oc_entryCashOut :: int
  oc_grossDelta :: "int option"
  oc_settledAt :: int
  oc_evidenceClass :: "EvidenceClass option"

record MarkDb =
  trajs :: "TrajRow list"
  marks :: "TrajMark list"
  cfs :: "CounterfactualMark list"
  outcomes :: "OutcomeRow list"

datatype store_error = EvidenceReplaceRefused string | MarkConflict string int
  | PolicyOutcomeConflict string ExitPolicy | check_constraint_failed | changed_many_rows string

section \<open>Writers and readers\<close>

definition insertTrajectory :: "TrajRow \<Rightarrow> MarkDb \<Rightarrow> store_error + MarkDb" where
  "insertTrajectory r db =
    (if list_ex (\<lambda>t. tr_id t = tr_id r) (trajs db) then Inl (EvidenceReplaceRefused (tr_id r))
     else Inr (db\<lparr>trajs := trajs db @ [r]\<rparr>))"

definition in_context :: "string option \<Rightarrow> TrajRow \<Rightarrow> bool" where
  "in_context evidenceContextId t = (evidenceContextId = None \<or> tr_context t = evidenceContextId)"

definition openTrajectories :: "MarkDb \<Rightarrow> nat \<Rightarrow> string option \<Rightarrow> TrajRow list" where
  "openTrajectories db limit evidenceContextId =
    take limit (sort_key tr_opened (filter (\<lambda>t. tr_state t = AWAITING \<and> in_context evidenceContextId t) (trajs db)))"

definition recordedOffsets :: "MarkDb \<Rightarrow> string \<Rightarrow> int set" where
  "recordedOffsets db trajectoryId =
    set (map (\<lambda>r. cm_offset (tm_mark r)) (filter (\<lambda>r. tm_traj r = trajectoryId) (marks db)))"

definition same_mark :: "CollectedMark \<Rightarrow> CollectedMark \<Rightarrow> bool" where
  "same_mark a b = (cm_executable a = cm_executable b \<and> cm_exitCapacity a = cm_exitCapacity b \<and>
     cm_effectiveReserve a = cm_effectiveReserve b \<and> cm_refusal a = cm_refusal b)"

definition insertMark ::
    "string \<Rightarrow> CollectedMark \<Rightarrow> (MarkSlaStatus \<times> int \<times> int) option \<Rightarrow> MarkDb \<Rightarrow> store_error + MarkDb" where
  "insertMark trajectoryId m sla db =
    (case find (\<lambda>r. tm_traj r = trajectoryId \<and> cm_offset (tm_mark r) = cm_offset m) (marks db) of
      Some existing \<Rightarrow> if same_mark (tm_mark existing) m then Inr db
        else Inl (MarkConflict trajectoryId (cm_offset m))
    | None \<Rightarrow> Inr (db\<lparr>marks := marks db @ [\<lparr>tm_traj = trajectoryId, tm_mark = m, tm_sla = sla\<rparr>]\<rparr>))"

definition marksFor :: "MarkDb \<Rightarrow> string \<Rightarrow> CollectedMark list" where
  "marksFor db trajectoryId =
    sort_key cm_offset (map tm_mark (filter (\<lambda>r. tm_traj r = trajectoryId) (marks db)))"

text \<open>The \<open>CHECK\<close> of \<open>counterfactual_marks\<close>: a priced bounded row exists only at or under the frozen bound.\<close>

definition cf_check :: "CounterfactualMark \<Rightarrow> bool" where
  "cf_check r = (cf_class r \<noteq> BOUNDED_COUNTERFACTUAL_V1 \<or> cf_impactBps r \<le> BOUNDED_IMPACT_CAP_BPS \<or>
     (cf_refusal r \<noteq> None \<and> cf_exit r = None))"

definition insertCounterfactualMark :: "CounterfactualMark \<Rightarrow> MarkDb \<Rightarrow> store_error + MarkDb" where
  "insertCounterfactualMark r db =
    (if list_ex (\<lambda>c. cf_traj c = cf_traj r \<and> cf_offset c = cf_offset r \<and> cf_class c = cf_class r) (cfs db) then Inr db
     else if \<not> cf_check r then Inl check_constraint_failed
     else Inr (db\<lparr>cfs := cfs db @ [r]\<rparr>))"

definition class_order :: "CounterfactualMark \<Rightarrow> nat" where
  "class_order r = (if cf_class r = RESERVE_DELTA_REPLAY_V1 then 0 else 1)"

definition first_exit :: "CounterfactualMark \<Rightarrow> (int \<times> int \<times> EvidenceClass) list \<Rightarrow> (int \<times> int \<times> EvidenceClass) list" where
  "first_exit r out = (case (cf_exit r, js_get out (cf_offset r)) of
     (Some x, None) \<Rightarrow> js_set (cf_offset r) (x, cf_class r) out | _ \<Rightarrow> out)"

definition counterfactualExits :: "MarkDb \<Rightarrow> string \<Rightarrow> (int \<times> int \<times> EvidenceClass) list" where
  "counterfactualExits db trajectoryId =
    fold first_exit (sort_key class_order
      (filter (\<lambda>r. cf_traj r = trajectoryId \<and> cf_exit r \<noteq> None \<and> cf_refusal r = None) (cfs db))) []"

definition outcome_row :: "string \<Rightarrow> int \<Rightarrow> PolicyOutcome \<Rightarrow> int \<Rightarrow> OutcomeRow" where
  "outcome_row trajectoryId entryCashOut ou settledUtcMs =
    \<lparr>oc_traj = trajectoryId, oc_policy = po_exitPolicy ou, oc_triggeredAt = po_triggeredAt ou,
     oc_triggeredOffset = po_triggeredOffset ou, oc_reason = po_reason ou, oc_exitMark = exitMarkLamports ou,
     oc_entryCashOut = entryCashOut, oc_grossDelta = grossDeltaLamports ou, oc_settledAt = settledUtcMs,
     oc_evidenceClass = po_evidenceClass ou\<rparr>"

definition insertPolicyOutcome :: "string \<Rightarrow> int \<Rightarrow> PolicyOutcome \<Rightarrow> int \<Rightarrow> MarkDb \<Rightarrow> store_error + MarkDb" where
  "insertPolicyOutcome trajectoryId entryCashOut ou settledUtcMs db =
    (case find (\<lambda>r. oc_traj r = trajectoryId \<and> oc_policy r = po_exitPolicy ou) (outcomes db) of
      Some existing \<Rightarrow>
        if oc_triggeredOffset existing = po_triggeredOffset ou \<and> oc_exitMark existing = exitMarkLamports ou \<and>
          oc_grossDelta existing = grossDeltaLamports ou then Inr db
        else Inl (PolicyOutcomeConflict trajectoryId (po_exitPolicy ou))
    | None \<Rightarrow> Inr (db\<lparr>outcomes := outcomes db @ [outcome_row trajectoryId entryCashOut ou settledUtcMs]\<rparr>))"

text \<open>The update of one row, rolled back when it changes more.\<close>

definition closes :: "string \<Rightarrow> TrajRow \<Rightarrow> bool" where
  "closes trajectoryId t = (tr_id t = trajectoryId \<and> tr_state t = AWAITING)"

definition closeTrajectory :: "string \<Rightarrow> int \<Rightarrow> MarkDb \<Rightarrow> store_error + MarkDb" where
  "closeTrajectory trajectoryId settledUtcMs db =
    (if length (filter (closes trajectoryId) (trajs db)) > 1 then Inl (changed_many_rows trajectoryId)
     else Inr (db\<lparr>trajs := map (\<lambda>t. if closes trajectoryId t
       then t\<lparr>tr_state := SETTLED_STATE, tr_settledAt := Some settledUtcMs\<rparr> else t) (trajs db)\<rparr>))"

section \<open>The scheduler\<close>

datatype WorkKind = TRIGGERED_AWAITING_FILL | BLOCKED_EXIT | URGENT_RESERVE_ALARM | NEXT_DUE_HORIZON | DISCOVERY

fun WORK_PRIORITY :: "WorkKind \<Rightarrow> int" where
  "WORK_PRIORITY TRIGGERED_AWAITING_FILL = 100"
| "WORK_PRIORITY BLOCKED_EXIT = 90"
| "WORK_PRIORITY URGENT_RESERVE_ALARM = 80"
| "WORK_PRIORITY NEXT_DUE_HORIZON = 50"
| "WORK_PRIORITY DISCOVERY = 10"

record DueMark =
  du_traj :: string
  du_mint :: string
  du_offset :: int
  du_opened :: int
  du_due :: int
  du_kind :: WorkKind
  du_priority :: int

definition classifyMark :: "int \<Rightarrow> int \<Rightarrow> int \<Rightarrow> MarkSlaStatus \<times> int" where
  "classifyMark dueUtcMs observedUtcMs slaMs =
    (let lateness = observedUtcMs - dueUtcMs
     in (if lateness > slaMs then MISSED_HORIZON else ON_TIME, if lateness < 0 then 0 else lateness))"

definition work_kind :: "string \<Rightarrow> WorkKind" where
  "work_kind state = (if state = ''TRIGGERED_AWAITING_FILL'' then TRIGGERED_AWAITING_FILL
     else if state = ''EXIT_BLOCKED'' then BLOCKED_EXIT else NEXT_DUE_HORIZON)"

text \<open>The rows both queries select, and the deadlines of one of them that are not recorded.\<close>

definition unsettled :: "MarkDb \<Rightarrow> string option \<Rightarrow> TrajRow list" where
  "unsettled db ctx = filter (\<lambda>t. tr_state t \<noteq> SETTLED_STATE \<and> in_context ctx t) (trajs db)"

definition missing_offsets :: "MarkDb \<Rightarrow> int list \<Rightarrow> TrajRow \<Rightarrow> int list" where
  "missing_offsets db offsets t = filter (\<lambda>off. off \<notin> recordedOffsets db (tr_id t)) offsets"

definition due_of :: "MarkDb \<Rightarrow> int \<Rightarrow> int list \<Rightarrow> TrajRow \<Rightarrow> DueMark list" where
  "due_of db now offsets t =
    map (\<lambda>off. \<lparr>du_traj = tr_id t, du_mint = tr_mint t, du_offset = off, du_opened = tr_opened t,
       du_due = tr_opened t + off, du_kind = work_kind (tr_state t),
       du_priority = WORK_PRIORITY (work_kind (tr_state t))\<rparr>)
     (filter (\<lambda>off. \<not> tr_opened t + off > now) (missing_offsets db offsets t))"

definition dueMarks :: "MarkDb \<Rightarrow> int \<Rightarrow> int list \<Rightarrow> nat option \<Rightarrow> string option \<Rightarrow> DueMark list" where
  "dueMarks db now offsets limit ctx =
    (let out = sort_key (\<lambda>d. (- du_priority d, du_due d))
         (concat (map (due_of db now offsets) (sort_key tr_opened (unsettled db ctx))))
     in case limit of None \<Rightarrow> out | Some n \<Rightarrow> take n out)"

text \<open>The loop of \<open>nextWakeMs\<close> over the deadlines: \<open>Inl\<close> is the early return at one that has arrived.\<close>

fun soonest_due :: "int \<Rightarrow> int option \<Rightarrow> int list \<Rightarrow> unit + int option" where
  "soonest_due now soonest [] = Inr soonest"
| "soonest_due now soonest (due # ds) =
    (if due \<le> now then Inl ()
     else soonest_due now (case soonest of None \<Rightarrow> Some due | Some s \<Rightarrow> Some (if due < s then due else s)) ds)"

definition deadlines :: "MarkDb \<Rightarrow> int list \<Rightarrow> string option \<Rightarrow> int list" where
  "deadlines db offsets ctx =
    concat (map (\<lambda>t. map (\<lambda>off. tr_opened t + off) (missing_offsets db offsets t)) (unsettled db ctx))"

definition nextWakeMs :: "MarkDb \<Rightarrow> int \<Rightarrow> int list \<Rightarrow> int \<Rightarrow> string option \<Rightarrow> int" where
  "nextWakeMs db now offsets maxTick ctx =
    (if unsettled db ctx = [] then maxTick
     else case soonest_due now None (deadlines db offsets ctx) of
       Inl _ \<Rightarrow> 0
     | Inr None \<Rightarrow> maxTick
     | Inr (Some soonest) \<Rightarrow> max 0 (min maxTick (soonest - now)))"

definition discoveryAdmissible :: "MarkDb \<Rightarrow> int \<Rightarrow> int list \<Rightarrow> int \<Rightarrow> string option \<Rightarrow> bool \<times> int" where
  "discoveryAdmissible db now offsets slaMs ctx =
    (let overdue = int (length (filter (\<lambda>d. now - du_due d > slaMs) (dueMarks db now offsets None ctx)))
     in (\<not> overdue > 0, if overdue > 0 then overdue else 0))"

section \<open>The mark pass\<close>

text \<open>What the process meets: its clock, the context and urgent queue it works for, and at each mark the time it
  reads the pool and what it reads.\<close>

record PassEnv =
  ev_now :: int
  ev_slaMs :: int
  ev_context :: "string option"
  ev_urgent :: "string list"
  ev_clock :: "string \<Rightarrow> int \<Rightarrow> int"
  ev_pool :: "string \<Rightarrow> int \<Rightarrow> string + PoolFacts"

datatype 'e halt = Died | Threw 'e

type_synonym ('e, 's) pass = "'s \<times> nat \<Rightarrow> ('e halt \<times> 's) + ('s \<times> nat)"

type_synonym mark_pass = "(store_error, MarkDb) pass"

definition stmt :: "('s \<Rightarrow> 'e + 's) \<Rightarrow> ('e, 's) pass" where
  "stmt w = (\<lambda>(db, left). case left of 0 \<Rightarrow> Inl (Died, db)
     | Suc k \<Rightarrow> (case w db of Inl e \<Rightarrow> Inl (Threw e, db) | Inr db' \<Rightarrow> Inr (db', k)))"

fun each :: "('a \<Rightarrow> ('e, 's) pass) \<Rightarrow> 'a list \<Rightarrow> ('e, 's) pass" where
  "each f [] st = Inr st"
| "each f (x # xs) st = ebind (f x st) (each f xs)"

definition taken_mark :: "PassEnv \<Rightarrow> TrajRow \<Rightarrow> int \<Rightarrow> CollectedMark" where
  "taken_mark env t off = takeMark (ev_clock env (tr_id t) off) (tr_opened t) off (ev_pool env (tr_id t) off)"

definition sla_of :: "PassEnv \<Rightarrow> TrajRow \<Rightarrow> CollectedMark \<Rightarrow> MarkSlaStatus \<times> int \<times> int" where
  "sla_of env t m = (let due = tr_opened t + cm_offset m
     in (fst (classifyMark due (cm_at m) (ev_slaMs env)), due, ev_slaMs env))"

text \<open>The counterfactual row of a mark: none when an input is missing, a refusal row when the contract refuses.\<close>

definition cf_input :: "TrajRow \<Rightarrow> CollectedMark \<Rightarrow> BoundedCounterfactualInput option" where
  "cf_input t m =
    (case (cm_observedBase m, cm_observedQuote m, tr_baseDelta t, tr_quoteDelta t, tr_impactBps t) of
      (Some b, Some q, Some db, Some dq, Some impact) \<Rightarrow>
        Some \<lparr>ci_entryBaseDeltaAtoms = db, ci_entryQuoteDeltaLamports = dq, ci_observedBaseReserve = b,
          ci_observedQuoteReserve = q, tokensHeldAtoms = tr_acquired t, ci_entryImpactBps = impact\<rparr>
    | _ \<Rightarrow> None)"

definition cf_row :: "TrajRow \<Rightarrow> CollectedMark \<Rightarrow> BoundedCounterfactualInput \<Rightarrow> CounterfactualMark" where
  "cf_row t m input =
    \<lparr>cf_traj = tr_id t, cf_offset = cm_offset m, cf_class = BOUNDED_COUNTERFACTUAL_V1,
     cf_entryBaseDelta = ci_entryBaseDeltaAtoms input, cf_entryQuoteDelta = ci_entryQuoteDeltaLamports input,
     cf_observedBase = ci_observedBaseReserve input, cf_observedQuote = ci_observedQuoteReserve input,
     cf_adjustedBase = (case boundedCounterfactual input of Inr c \<Rightarrow> adjustedBaseReserve c | Inl _ \<Rightarrow> 0),
     cf_adjustedQuote = (case boundedCounterfactual input of Inr c \<Rightarrow> adjustedQuoteReserve c | Inl _ \<Rightarrow> 0),
     cf_haircutBps = (case boundedCounterfactual input of Inr c \<Rightarrow> bc_haircutBps c | Inl _ \<Rightarrow> 0),
     cf_haircutLamports = (case boundedCounterfactual input of Inr c \<Rightarrow> bc_haircutLamports c | Inl _ \<Rightarrow> 0),
     cf_impactBps = ci_entryImpactBps input,
     cf_exit = (case boundedCounterfactual input of Inr c \<Rightarrow> Some (counterfactualExitLamports c) | Inl _ \<Rightarrow> None),
     cf_grade = DEVELOPMENT,
     cf_refusal = (case boundedCounterfactual input of Inr _ \<Rightarrow> None | Inl e \<Rightarrow> Some e),
     cf_computedAt = cm_at m\<rparr>"

definition mark_one :: "PassEnv \<Rightarrow> TrajRow \<Rightarrow> int \<Rightarrow> mark_pass" where
  "mark_one env t off st =
    (let m = taken_mark env t off in
     ebind (stmt (insertMark (tr_id t) m (Some (sla_of env t m))) st)
       (case cf_input t m of None \<Rightarrow> Inr | Some input \<Rightarrow> stmt (insertCounterfactualMark (cf_row t m input))))"

definition settle_one :: "PassEnv \<Rightarrow> TrajRow \<Rightarrow> mark_pass" where
  "settle_one env t st =
    (let path = marksFor (fst st) (tr_id t) in
     if \<not> fst (pathIsComplete path) then Inr st
     else ebind (each (\<lambda>ou. stmt (insertPolicyOutcome (tr_id t) (tr_notional t) ou (ev_now env)))
         (evaluateExitPolicies path (tr_opened t) [FIXED_15M_CONTROL, FLOW_LIQUIDITY_DETERIORATION_V1]
           (tr_notional t) (counterfactualExits (fst st) (tr_id t))) st)
       (stmt (closeTrajectory (tr_id t) (ev_now env))))"

definition due_now :: "PassEnv \<Rightarrow> MarkDb \<Rightarrow> TrajRow \<Rightarrow> int list" where
  "due_now env db t =
    filter (\<lambda>off. off \<notin> recordedOffsets db (tr_id t) \<and> ev_now env \<ge> tr_opened t + off) MARK_OFFSETS_MS"

definition work :: "PassEnv \<Rightarrow> TrajRow \<Rightarrow> mark_pass" where
  "work env t st = ebind (each (mark_one env t) (due_now env (fst st) t) st) (settle_one env t)"

definition work_list :: "PassEnv \<Rightarrow> MarkDb \<Rightarrow> TrajRow list" where
  "work_list env db =
    (let openRaw = openTrajectories db 100 (ev_context env)
     in filter (\<lambda>t. tr_id t \<in> set (ev_urgent env)) openRaw @ filter (\<lambda>t. tr_id t \<notin> set (ev_urgent env)) openRaw)"

definition runMarkPass ::
    "PassEnv \<Rightarrow> MarkDb \<Rightarrow> nat \<Rightarrow> (store_error halt \<times> MarkDb) + (MarkDb \<times> nat)" where
  "runMarkPass env db left = each (work env) (work_list env db) (db, left)"


section \<open>Histories\<close>

text \<open>The writes of a collector that holds its lock, one statement at a time. The second component is the mark
  whose counterfactual row the pass would write next; a crash forgets it.\<close>

definition awaiting_row :: "MarkDb \<Rightarrow> TrajRow \<Rightarrow> bool" where
  "awaiting_row db t \<longleftrightarrow> t \<in> set (trajs db) \<and> tr_state t = AWAITING"

definition whole_path :: "MarkDb \<Rightarrow> string \<Rightarrow> bool" where
  "whole_path db i = fst (pathIsComplete (marksFor db i))"

definition outcome_of :: "MarkDb \<Rightarrow> TrajRow \<Rightarrow> ExitPolicy \<Rightarrow> PolicyOutcome" where
  "outcome_of db t p = evaluate_policy (marksFor db (tr_id t)) (tr_opened t) (tr_notional t)
     (counterfactualExits db (tr_id t)) p"

definition has_outcome :: "MarkDb \<Rightarrow> string \<Rightarrow> ExitPolicy \<Rightarrow> bool" where
  "has_outcome db i p \<longleftrightarrow> (\<exists>r \<in> set (outcomes db). oc_traj r = i \<and> oc_policy r = p)"

inductive mark_write :: "MarkDb \<times> (string \<times> int) option \<Rightarrow> MarkDb \<times> (string \<times> int) option \<Rightarrow> bool" where
  w_open: "insertTrajectory t db = Inr db' \<Longrightarrow> tr_state t = AWAITING \<Longrightarrow> mark_write (db, p) (db', None)"
| w_mark: "awaiting_row db t \<Longrightarrow> off \<in> set MARK_OFFSETS_MS \<Longrightarrow> off \<notin> recordedOffsets db (tr_id t) \<Longrightarrow>
    tr_opened t + off \<le> now \<Longrightarrow> m = takeMark now (tr_opened t) off answer \<Longrightarrow>
    insertMark (tr_id t) m (Some (fst (classifyMark (tr_opened t + off) now bound), tr_opened t + off, bound)) db = Inr db' \<Longrightarrow>
    mark_write (db, p) (db', Some (tr_id t, off))"
| w_counterfactual: "awaiting_row db t \<Longrightarrow> r \<in> set (marks db) \<Longrightarrow> tm_traj r = tr_id t \<Longrightarrow>
    cm_offset (tm_mark r) = off \<Longrightarrow> cf_input t (tm_mark r) = Some input \<Longrightarrow>
    insertCounterfactualMark (cf_row t (tm_mark r) input) db = Inr db' \<Longrightarrow>
    mark_write (db, Some (tr_id t, off)) (db', None)"
| w_outcome: "awaiting_row db t \<Longrightarrow> whole_path db (tr_id t) \<Longrightarrow>
    insertPolicyOutcome (tr_id t) (tr_notional t) (outcome_of db t pol) now db = Inr db' \<Longrightarrow>
    mark_write (db, p) (db', None)"
| w_close: "whole_path db i \<Longrightarrow> \<forall>pol. has_outcome db i pol \<Longrightarrow> closeTrajectory i now db = Inr db' \<Longrightarrow>
    mark_write (db, p) (db', None)"
| w_crash: "mark_write (db, p) (db, None)"

definition history :: "MarkDb \<Rightarrow> MarkDb \<Rightarrow> bool" where
  "history db db' \<longleftrightarrow> mark_write\<^sup>*\<^sup>* (db, None) (db', None)"

definition empty_corpus :: MarkDb where
  "empty_corpus = \<lparr>trajs = [], marks = [], cfs = [], outcomes = []\<rparr>"

section \<open>The invariant of the corpus\<close>

definition truthful_mark :: "MarkDb \<Rightarrow> TrajMark \<Rightarrow> bool" where
  "truthful_mark db r \<longleftrightarrow> (\<exists>t \<in> set (trajs db). tr_id t = tm_traj r \<and>
     (let off = cm_offset (tm_mark r); due = tr_opened t + off in
      off \<in> set MARK_OFFSETS_MS \<and> due \<le> cm_at (tm_mark r) \<and>
      (\<exists>answer. tm_mark r = takeMark (cm_at (tm_mark r)) (tr_opened t) off answer) \<and>
      (\<exists>bound. tm_sla r = Some (if due + bound < cm_at (tm_mark r) then MISSED_HORIZON else ON_TIME, due, bound))))"

definition contracted :: "MarkDb \<Rightarrow> CounterfactualMark \<Rightarrow> bool" where
  "contracted db c \<longleftrightarrow> (\<exists>t \<in> set (trajs db). \<exists>r \<in> set (marks db). \<exists>input. tm_traj r = tr_id t \<and>
     cf_input t (tm_mark r) = Some input \<and> c = cf_row t (tm_mark r) input)"

definition decided_outcome :: "MarkDb \<Rightarrow> OutcomeRow \<Rightarrow> bool" where
  "decided_outcome db r \<longleftrightarrow> (\<exists>t \<in> set (trajs db). tr_id t = oc_traj r \<and> whole_path db (tr_id t) \<and>
     r = outcome_row (tr_id t) (tr_notional t) (outcome_of db t (oc_policy r)) (oc_settledAt r))"

definition settled_whole :: "MarkDb \<Rightarrow> TrajRow \<Rightarrow> bool" where
  "settled_whole db t \<longleftrightarrow> tr_state t = AWAITING \<or>
     tr_state t = SETTLED_STATE \<and> whole_path db (tr_id t) \<and> (\<forall>pol. has_outcome db (tr_id t) pol)"

definition mark_key :: "TrajMark \<Rightarrow> string \<times> int" where
  "mark_key r = (tm_traj r, cm_offset (tm_mark r))"

definition cf_key :: "CounterfactualMark \<Rightarrow> string \<times> int \<times> EvidenceClass" where
  "cf_key c = (cf_traj c, cf_offset c, cf_class c)"

definition outcome_key :: "OutcomeRow \<Rightarrow> string \<times> ExitPolicy" where
  "outcome_key r = (oc_traj r, oc_policy r)"

definition corpus_ok :: "MarkDb \<Rightarrow> bool" where
  "corpus_ok db \<longleftrightarrow> distinct (map tr_id (trajs db)) \<and> distinct (map mark_key (marks db)) \<and>
     distinct (map cf_key (cfs db)) \<and> distinct (map outcome_key (outcomes db)) \<and>
     (\<forall>r \<in> set (marks db). truthful_mark db r) \<and> (\<forall>c \<in> set (cfs db). contracted db c) \<and>
     (\<forall>r \<in> set (outcomes db). decided_outcome db r) \<and> (\<forall>t \<in> set (trajs db). settled_whole db t)"

text \<open>The pending mark belongs to a path without outcomes, so its counterfactual row changes none.\<close>

definition pending_ok :: "MarkDb \<Rightarrow> (string \<times> int) option \<Rightarrow> bool" where
  "pending_ok db p \<longleftrightarrow> (\<forall>i off pol. p = Some (i, off) \<longrightarrow> \<not> has_outcome db i pol)"


section \<open>Lemmas on the writers\<close>

lemma insertTrajectory_Inr:
  "insertTrajectory t db = Inr db' \<Longrightarrow> tr_id t \<notin> tr_id ` set (trajs db) \<and> db' = db\<lparr>trajs := trajs db @ [t]\<rparr>"
  by (auto simp: insertTrajectory_def list_ex_iff split: if_splits)

lemma recorded_iff: "off \<in> recordedOffsets db i \<longleftrightarrow> (i, off) \<in> mark_key ` set (marks db)"
  by (force simp: recordedOffsets_def mark_key_def)

lemma insertMark_fresh:
  "cm_offset m \<notin> recordedOffsets db i \<Longrightarrow>
   insertMark i m sla db = Inr (db\<lparr>marks := marks db @ [\<lparr>tm_traj = i, tm_mark = m, tm_sla = sla\<rparr>]\<rparr>)"
proof -
  assume "cm_offset m \<notin> recordedOffsets db i"
  then have "find (\<lambda>r. tm_traj r = i \<and> cm_offset (tm_mark r) = cm_offset m) (marks db) = None"
    by (force simp: recordedOffsets_def find_None_iff)
  then show ?thesis by (simp add: insertMark_def)
qed

lemma insertCounterfactual_Inr:
  "insertCounterfactualMark c db = Inr db' \<Longrightarrow>
   db' = db \<or> cf_key c \<notin> cf_key ` set (cfs db) \<and> cf_check c \<and> db' = db\<lparr>cfs := cfs db @ [c]\<rparr>"
  by (auto simp: insertCounterfactualMark_def list_ex_iff cf_key_def split: if_splits)

lemma insertOutcome_Inr:
  "insertPolicyOutcome i cash ou now db = Inr db' \<Longrightarrow>
   (db' = db \<and> has_outcome db i (po_exitPolicy ou)) \<or>
   (i, po_exitPolicy ou) \<notin> outcome_key ` set (outcomes db) \<and>
     db' = db\<lparr>outcomes := outcomes db @ [outcome_row i cash ou now]\<rparr>"
proof (cases "find (\<lambda>r. oc_traj r = i \<and> oc_policy r = po_exitPolicy ou) (outcomes db)")
  case None
  then have "(i, po_exitPolicy ou) \<notin> outcome_key ` set (outcomes db)"
    by (force simp: find_None_iff outcome_key_def)
  moreover assume "insertPolicyOutcome i cash ou now db = Inr db'"
  ultimately show ?thesis using None by (simp add: insertPolicyOutcome_def)
next
  case (Some r)
  then have "has_outcome db i (po_exitPolicy ou)" using find_SomeD [OF Some] by (auto simp: has_outcome_def)
  moreover assume "insertPolicyOutcome i cash ou now db = Inr db'"
  ultimately show ?thesis using Some by (auto simp: insertPolicyOutcome_def split: if_splits)
qed

definition settle_row :: "string \<Rightarrow> int \<Rightarrow> TrajRow \<Rightarrow> TrajRow" where
  "settle_row i now t = (if closes i t then t\<lparr>tr_state := SETTLED_STATE, tr_settledAt := Some now\<rparr> else t)"

lemma closeTrajectory_Inr:
  "closeTrajectory i now db = Inr db' \<Longrightarrow> db' = db\<lparr>trajs := map (settle_row i now) (trajs db)\<rparr>"
  by (auto simp: closeTrajectory_def settle_row_def fun_eq_iff split: if_splits)

lemma settle_row_fields [simp]:
  "tr_id (settle_row i now t) = tr_id t" "tr_opened (settle_row i now t) = tr_opened t"
  "tr_notional (settle_row i now t) = tr_notional t" "cf_input (settle_row i now t) = cf_input t"
  "cf_row (settle_row i now t) = cf_row t" "outcome_of db (settle_row i now t) = outcome_of db t"
  by (auto simp: settle_row_def cf_input_def cf_row_def outcome_of_def fun_eq_iff split: option.split)

text \<open>What a reader of one path depends on.\<close>

lemma readers_updates [simp]:
  "marksFor (db\<lparr>trajs := ts\<rparr>) i = marksFor db i" "marksFor (db\<lparr>cfs := cs\<rparr>) i = marksFor db i"
  "marksFor (db\<lparr>outcomes := ocs\<rparr>) i = marksFor db i"
  "counterfactualExits (db\<lparr>trajs := ts\<rparr>) i = counterfactualExits db i"
  "counterfactualExits (db\<lparr>marks := ms\<rparr>) i = counterfactualExits db i"
  "counterfactualExits (db\<lparr>outcomes := ocs\<rparr>) i = counterfactualExits db i"
  "has_outcome (db\<lparr>trajs := ts\<rparr>) i p = has_outcome db i p" "has_outcome (db\<lparr>marks := ms\<rparr>) i p = has_outcome db i p"
  "has_outcome (db\<lparr>cfs := cs\<rparr>) i p = has_outcome db i p"
  by (simp_all add: marksFor_def counterfactualExits_def has_outcome_def)

lemma has_outcome_snoc [simp]:
  "has_outcome (db\<lparr>outcomes := outcomes db @ [r]\<rparr>) i p \<longleftrightarrow> has_outcome db i p \<or> (oc_traj r = i \<and> oc_policy r = p)"
  by (auto simp: has_outcome_def)

lemma marksFor_other: "tm_traj r \<noteq> i \<Longrightarrow> marksFor (db\<lparr>marks := marks db @ [r]\<rparr>) i = marksFor db i"
  by (simp add: marksFor_def)

lemma cfExits_other: "cf_traj c \<noteq> i \<Longrightarrow> counterfactualExits (db\<lparr>cfs := cfs db @ [c]\<rparr>) i = counterfactualExits db i"
  by (simp add: counterfactualExits_def)

lemma whole_recorded: "whole_path db i \<Longrightarrow> off \<in> set MARK_OFFSETS_MS \<Longrightarrow> off \<in> recordedOffsets db i"
  by (auto simp: whole_path_def pathIsComplete_def list_all_iff marksFor_def recordedOffsets_def split: if_splits)

lemma whole_path_updates [simp]:
  "whole_path (db\<lparr>trajs := ts\<rparr>) = whole_path db" "whole_path (db\<lparr>cfs := cs\<rparr>) = whole_path db"
  "whole_path (db\<lparr>outcomes := ocs\<rparr>) = whole_path db"
  by (simp_all add: whole_path_def fun_eq_iff)

lemma outcome_of_updates [simp]:
  "outcome_of (db\<lparr>trajs := ts\<rparr>) = outcome_of db" "outcome_of (db\<lparr>outcomes := ocs\<rparr>) = outcome_of db"
  by (simp_all add: outcome_of_def fun_eq_iff)

lemma outcome_fields [simp]:
  "oc_traj (outcome_row i cash ou now) = i" "oc_policy (outcome_row i cash ou now) = po_exitPolicy ou"
  "oc_settledAt (outcome_row i cash ou now) = now" "po_exitPolicy (outcome_of db t p) = p"
  by (simp_all add: outcome_row_def outcome_of_def evaluate_policy_def Let_def)

lemma cf_row_fields [simp]:
  "cf_traj (cf_row t m input) = tr_id t" "cf_offset (cf_row t m input) = cm_offset m"
  "cf_class (cf_row t m input) = BOUNDED_COUNTERFACTUAL_V1" "cf_grade (cf_row t m input) = DEVELOPMENT"
  by (simp_all add: cf_row_def)

lemma cf_row_checks: "cf_check (cf_row t m input)"
proof (cases "boundedCounterfactual input")
  case (Inr c)
  then show ?thesis using bounded_exit_le(2) [OF Inr] by (simp add: cf_check_def cf_row_def)
qed (simp add: cf_check_def cf_row_def)

lemma takeMark_fields [simp]: "cm_offset (takeMark now opened off answer) = off" "cm_at (takeMark now opened off answer) = now"
  by (simp_all add: takeMark_def Let_def split: sum.split)


section \<open>Every write keeps the invariant\<close>

lemma same_row: "corpus_ok db \<Longrightarrow> t \<in> set (trajs db) \<Longrightarrow> u \<in> set (trajs db) \<Longrightarrow> tr_id t = tr_id u \<Longrightarrow> t = u"
  by (auto simp: corpus_ok_def distinct_map inj_on_def)

lemma ok_decided: "corpus_ok db \<Longrightarrow> r \<in> set (outcomes db) \<Longrightarrow> whole_path db (oc_traj r)"
  by (auto simp: corpus_ok_def decided_outcome_def)

lemma ok_open:
  assumes "corpus_ok db" and "insertTrajectory t db = Inr db'" and "tr_state t = AWAITING"
  shows "corpus_ok db'"
proof -
  have db': "tr_id t \<notin> tr_id ` set (trajs db)" "db' = db\<lparr>trajs := trajs db @ [t]\<rparr>"
    using insertTrajectory_Inr [OF assms(2)] by auto
  have "truthful_mark db r \<Longrightarrow> truthful_mark db' r" "contracted db c \<Longrightarrow> contracted db' c"
    "decided_outcome db ou \<Longrightarrow> decided_outcome db' ou" "settled_whole db u \<Longrightarrow> settled_whole db' u" for r c ou u
    by (auto simp: db' truthful_mark_def contracted_def decided_outcome_def settled_whole_def)
  then show ?thesis using assms(1,3) db' by (simp add: corpus_ok_def) (simp add: settled_whole_def)
qed

lemma ok_mark:
  assumes ok: "corpus_ok db" and t: "awaiting_row db t" and off: "off \<in> set MARK_OFFSETS_MS"
    and fresh: "off \<notin> recordedOffsets db (tr_id t)" and early: "tr_opened t + off \<le> now"
    and r: "r = \<lparr>tm_traj = tr_id t, tm_mark = takeMark now (tr_opened t) off answer,
      tm_sla = Some (fst (classifyMark (tr_opened t + off) now bound), tr_opened t + off, bound)\<rparr>"
  shows "corpus_ok (db\<lparr>marks := marks db @ [r]\<rparr>) \<and> (\<forall>pol. \<not> has_outcome db (tr_id t) pol)"
proof -
  let ?db' = "db\<lparr>marks := marks db @ [r]\<rparr>"
  have traj: "tm_traj r = tr_id t" "t \<in> set (trajs db)" "tr_state t = AWAITING"
    using r t by (simp_all add: awaiting_row_def)
  have none: "oc_traj q \<noteq> tr_id t" if "q \<in> set (outcomes db)" for q
    using ok_decided [OF ok that] whole_recorded [OF _ off] fresh by auto
  have readers: "marksFor ?db' i = marksFor db i" if "i \<noteq> tr_id t" for i
    using marksFor_other [of r i db] traj(1) that by simp
  then have same: "whole_path ?db' i = whole_path db i" if "i \<noteq> tr_id t" for i
    using that by (simp add: whole_path_def)
  have decided: "decided_outcome ?db' q" if q: "q \<in> set (outcomes db)" for q
  proof -
    obtain u where u: "u \<in> set (trajs db)" "tr_id u = oc_traj q" "whole_path db (tr_id u)"
        "q = outcome_row (tr_id u) (tr_notional u) (outcome_of db u (oc_policy q)) (oc_settledAt q)"
      using ok q unfolding corpus_ok_def decided_outcome_def by blast
    have "outcome_of ?db' u = outcome_of db u"
      using readers none [OF q] u(2) by (simp add: outcome_of_def fun_eq_iff)
    then show ?thesis unfolding decided_outcome_def using u same none [OF q] by (intro bexI [of _ u]) auto
  qed
  have settled: "settled_whole ?db' u" if u: "u \<in> set (trajs db)" for u
  proof (cases "tr_id u = tr_id t")
    case True
    then show ?thesis using same_row [OF ok u traj(2)] traj(3) by (simp add: settled_whole_def)
  next
    case False
    then show ?thesis using ok u same by (auto simp: corpus_ok_def settled_whole_def)
  qed
  have "truthful_mark ?db' r"
    unfolding truthful_mark_def using traj(2) off early
    by (intro bexI [of _ t]) (auto simp: r classifyMark_def Let_def)
  moreover have "truthful_mark db q \<Longrightarrow> truthful_mark ?db' q" "contracted db c \<Longrightarrow> contracted ?db' c" for q c
    by (auto simp: truthful_mark_def contracted_def)
  moreover have "mark_key r \<notin> mark_key ` set (marks db)"
    using fresh unfolding recorded_iff by (simp add: r mark_key_def)
  ultimately have "corpus_ok ?db'" using ok decided settled by (auto simp: corpus_ok_def)
  then show ?thesis using none by (auto simp: has_outcome_def)
qed

lemma ok_counterfactual:
  assumes ok: "corpus_ok db" and t: "awaiting_row db t" and r: "r \<in> set (marks db)" "tm_traj r = tr_id t"
    and input: "cf_input t (tm_mark r) = Some input" and none: "\<forall>pol. \<not> has_outcome db (tr_id t) pol"
    and ins: "insertCounterfactualMark (cf_row t (tm_mark r) input) db = Inr db'"
  shows "corpus_ok db'"
proof (cases "db' = db")
  case False
  let ?c = "cf_row t (tm_mark r) input"
  have db': "cf_key ?c \<notin> cf_key ` set (cfs db)" "db' = db\<lparr>cfs := cfs db @ [?c]\<rparr>"
    using insertCounterfactual_Inr [OF ins] False by auto
  have decided: "decided_outcome db' q" if q: "q \<in> set (outcomes db)" for q
  proof -
    have "oc_traj q \<noteq> tr_id t" using none q by (auto simp: has_outcome_def)
    then have "counterfactualExits db' (oc_traj q) = counterfactualExits db (oc_traj q)"
      using cfExits_other [of ?c] by (simp add: db')
    then show ?thesis using ok q by (fastforce simp: corpus_ok_def decided_outcome_def outcome_of_def db')
  qed
  have "contracted db' ?c"
    using t r input by (auto simp: contracted_def db' awaiting_row_def)
  moreover have "contracted db c \<Longrightarrow> contracted db' c" "truthful_mark db q \<Longrightarrow> truthful_mark db' q"
    "settled_whole db u \<Longrightarrow> settled_whole db' u" for c q u
    by (auto simp: contracted_def truthful_mark_def settled_whole_def db')
  ultimately show ?thesis using ok decided db' by (auto simp: corpus_ok_def)
qed (use ok in simp)

lemma ok_outcome:
  assumes ok: "corpus_ok db" and t: "awaiting_row db t" and whole: "whole_path db (tr_id t)"
    and ins: "insertPolicyOutcome (tr_id t) (tr_notional t) (outcome_of db t pol) now db = Inr db'"
  shows "corpus_ok db'"
proof (cases "db' = db")
  case False
  let ?q = "outcome_row (tr_id t) (tr_notional t) (outcome_of db t pol) now"
  have db': "(tr_id t, pol) \<notin> outcome_key ` set (outcomes db)" "db' = db\<lparr>outcomes := outcomes db @ [?q]\<rparr>"
    using insertOutcome_Inr [OF ins] False by auto
  have "decided_outcome db' ?q"
    using t whole by (auto simp: decided_outcome_def db' awaiting_row_def)
  moreover have "decided_outcome db q \<Longrightarrow> decided_outcome db' q" "truthful_mark db m \<Longrightarrow> truthful_mark db' m"
    "contracted db c \<Longrightarrow> contracted db' c" "settled_whole db u \<Longrightarrow> settled_whole db' u" for q m c u
    by (auto simp: decided_outcome_def truthful_mark_def contracted_def settled_whole_def db')
  moreover have "outcome_key ?q \<notin> outcome_key ` set (outcomes db)" using db'(1) by (simp add: outcome_key_def)
  ultimately show ?thesis using ok db' by (auto simp: corpus_ok_def)
qed (use ok in simp)

lemma ok_close:
  assumes ok: "corpus_ok db" and "whole_path db i" and "\<forall>pol. has_outcome db i pol"
    and "closeTrajectory i now db = Inr db'"
  shows "corpus_ok db'"
proof -
  have db': "db' = db\<lparr>trajs := map (settle_row i now) (trajs db)\<rparr>" using closeTrajectory_Inr [OF assms(4)] .
  have "truthful_mark db m \<Longrightarrow> truthful_mark db' m" "contracted db c \<Longrightarrow> contracted db' c"
    "decided_outcome db q \<Longrightarrow> decided_outcome db' q" for m c q
    by (auto simp: truthful_mark_def contracted_def decided_outcome_def db')
  moreover have "settled_whole db' (settle_row i now u)" if "settled_whole db u" for u
    using that assms(2,3) by (auto simp: settled_whole_def db' settle_row_def closes_def)
  moreover have "tr_id \<circ> settle_row i now = tr_id" by (simp add: fun_eq_iff)
  ultimately show ?thesis using ok by (auto simp: corpus_ok_def db')
qed

lemma mark_write_ok:
  "mark_write s s' \<Longrightarrow> corpus_ok (fst s) \<and> pending_ok (fst s) (snd s) \<Longrightarrow> corpus_ok (fst s') \<and> pending_ok (fst s') (snd s')"
proof (induction rule: mark_write.induct)
  case (w_mark db t off now m answer bound db' p)
  let ?sla = "Some (fst (classifyMark (tr_opened t + off) now bound), tr_opened t + off, bound)"
  have "db' = db\<lparr>marks := marks db @ [\<lparr>tm_traj = tr_id t, tm_mark = m, tm_sla = ?sla\<rparr>]\<rparr>"
    using w_mark insertMark_fresh [of m db "tr_id t" ?sla] by simp
  then show ?case using ok_mark [OF _ w_mark(1-4) refl, of answer bound] w_mark by (simp add: pending_ok_def)
next
  case (w_counterfactual db t r off input db')
  then show ?case using ok_counterfactual [of db t r input db'] by (auto simp: pending_ok_def)
next
  case (w_open t db db' p)
  then show ?case using ok_open [of db t db'] by (simp add: pending_ok_def)
next
  case (w_outcome db t pol now db' p)
  then show ?case using ok_outcome [of db t pol now db'] by (simp add: pending_ok_def)
next
  case (w_close db i now db' p)
  then show ?case using ok_close [of db i now db'] by (simp add: pending_ok_def)
qed (simp add: pending_ok_def)

lemma history_ok: "history db db' \<Longrightarrow> corpus_ok db \<Longrightarrow> corpus_ok db'"
proof -
  have "mark_write\<^sup>*\<^sup>* s s' \<Longrightarrow> corpus_ok (fst s) \<and> pending_ok (fst s) (snd s) \<Longrightarrow>
      corpus_ok (fst s') \<and> pending_ok (fst s') (snd s')" for s s'
    by (induction rule: rtranclp_induct) (use mark_write_ok in blast)+
  then show "history db db' \<Longrightarrow> corpus_ok db \<Longrightarrow> corpus_ok db'"
    by (fastforce simp: history_def pending_ok_def)
qed

lemma empty_ok: "corpus_ok empty_corpus"
  by (simp add: corpus_ok_def empty_corpus_def)


section \<open>Passes that can die\<close>

text \<open>What a pass with an allowance of statements guarantees: it only dies, by running out of fewer than \<open>n\<close>
  statements, or it ends in \<open>Q\<close> having used at most \<open>n\<close>; what it left behind is reachable either way.\<close>

definition pass_triple :: "('s \<Rightarrow> 's \<Rightarrow> bool) \<Rightarrow> nat \<Rightarrow> ('s \<Rightarrow> bool) \<Rightarrow> ('e, 's) pass \<Rightarrow> ('s \<Rightarrow> bool) \<Rightarrow> bool" where
  "pass_triple leads n P f Q \<longleftrightarrow> (\<forall>db k. P db \<longrightarrow>
     (case f (db, k) of Inl (h, d) \<Rightarrow> h = Died \<and> leads db d \<and> k < n
      | Inr (d, k') \<Rightarrow> Q d \<and> leads db d \<and> k \<le> k' + n))"

locale durable_pass =
  fixes leads :: "'s \<Rightarrow> 's \<Rightarrow> bool"
  assumes leads_refl: "leads db db"
    and leads_trans: "leads db d \<Longrightarrow> leads d e \<Longrightarrow> leads db e"
begin

lemma triple_stmt:
  assumes "\<And>db. P db \<Longrightarrow> \<exists>d. w db = Inr d \<and> leads db d \<and> Q d"
  shows "pass_triple leads 1 P (stmt w) Q"
  unfolding pass_triple_def
proof (intro allI impI)
  fix db k assume "P db"
  then obtain d where "w db = Inr d" "leads db d" "Q d" using assms by blast
  then show "case stmt w (db, k) of Inl (h, d) \<Rightarrow> h = Died \<and> leads db d \<and> k < 1
      | Inr (d, k') \<Rightarrow> Q d \<and> leads db d \<and> k \<le> k' + 1"
    by (cases k) (simp_all add: stmt_def leads_refl)
qed

lemma triple_seq:
  assumes "pass_triple leads n P f Q" and "pass_triple leads m Q g R"
  shows "pass_triple leads (n + m) P (\<lambda>st. ebind (f st) g) R"
  unfolding pass_triple_def
proof (intro allI impI)
  fix db k assume P: "P db"
  show "case ebind (f (db, k)) g of Inl (h, d) \<Rightarrow> h = Died \<and> leads db d \<and> k < n + m
      | Inr (d, k') \<Rightarrow> R d \<and> leads db d \<and> k \<le> k' + (n + m)"
  proof (cases "f (db, k)")
    case (Inl r)
    obtain h d where r: "r = (h, d)" by (cases r) auto
    show ?thesis using assms(1) [unfolded pass_triple_def, rule_format, OF P, of k] Inl r by simp
  next
    case (Inr r)
    obtain d k' where r: "r = (d, k')" by (cases r) auto
    have first: "Q d" "leads db d" "k \<le> k' + n"
      using assms(1) [unfolded pass_triple_def, rule_format, OF P, of k] Inr r by simp_all
    have "case g (d, k') of Inl (h, e) \<Rightarrow> h = Died \<and> leads d e \<and> k' < m
        | Inr (e, j) \<Rightarrow> R e \<and> leads d e \<and> k' \<le> j + m"
      using assms(2) [unfolded pass_triple_def, rule_format, OF first(1), of k'] .
    then show ?thesis using Inr r first(2,3) leads_trans [OF first(2)]
      by (auto split: sum.split_asm prod.split_asm sum.split prod.split)
  qed
qed

lemma triple_each:
  assumes "\<And>x xs. pass_triple leads n (J (x # xs)) (f x) (J xs)"
  shows "pass_triple leads (n * length xs) (J xs) (each f xs) (J [])"
proof (induction xs)
  case Nil
  then show ?case by (simp add: pass_triple_def leads_refl)
next
  case (Cons x xs)
  show ?case using triple_seq [OF assms Cons] by simp
qed

lemma triple_mono:
  assumes "pass_triple leads n P f Q" and "n \<le> m" and "\<And>db. P' db \<Longrightarrow> P db" and "\<And>db. Q db \<Longrightarrow> Q' db"
  shows "pass_triple leads m P' f Q'"
  unfolding pass_triple_def
proof (intro allI impI)
  fix db k assume "P' db"
  then have "P db" by (rule assms(3))
  show "case f (db, k) of Inl (h, d) \<Rightarrow> h = Died \<and> leads db d \<and> k < m
      | Inr (d, k') \<Rightarrow> Q' d \<and> leads db d \<and> k \<le> k' + m"
    using assms(1) [unfolded pass_triple_def, rule_format, OF \<open>P db\<close>, of k] assms(2,4)
    by (auto split: sum.split_asm sum.split prod.split)
qed

lemma triple_read:
  assumes "\<And>db. P db \<Longrightarrow> pass_triple leads n (\<lambda>d. d = db) (f db) Q"
  shows "pass_triple leads n P (\<lambda>st. f (fst st) st) Q"
  using assms by (simp add: pass_triple_def)

lemma triple_from:
  assumes "pass_triple leads n (\<lambda>d. d = db) f Q"
  shows "pass_triple leads n (\<lambda>d. d = db) f (\<lambda>d. Q d \<and> leads db d)"
  unfolding pass_triple_def
proof (intro allI impI)
  fix d k assume "d = db"
  then show "case f (d, k) of Inl (h, e) \<Rightarrow> h = Died \<and> leads d e \<and> k < n
      | Inr (e, k') \<Rightarrow> (Q e \<and> leads db e) \<and> leads d e \<and> k \<le> k' + n"
    using assms [unfolded pass_triple_def, rule_format, of d k] by (auto split: sum.split_asm sum.split prod.split)
qed

lemma triple_skip: "(\<And>db. P db \<Longrightarrow> Q db) \<Longrightarrow> pass_triple leads n P Inr Q"
  by (simp add: pass_triple_def leads_refl)

end

interpretation mp: durable_pass history
  by unfold_locales (auto simp: history_def)


section \<open>Evidence only grows\<close>

definition grown :: "MarkDb \<Rightarrow> MarkDb \<Rightarrow> bool" where
  "grown db db' \<longleftrightarrow> (\<exists>m. marks db' = marks db @ m) \<and> (\<exists>c. cfs db' = cfs db @ c) \<and> (\<exists>q. outcomes db' = outcomes db @ q) \<and>
     (\<forall>t \<in> set (trajs db). \<exists>t' \<in> set (trajs db').
       t' = t \<or> (tr_state t = AWAITING \<and> (\<exists>now. t' = t\<lparr>tr_state := SETTLED_STATE, tr_settledAt := Some now\<rparr>)))"

lemma grown_refl: "grown db db"
  by (auto simp: grown_def)

lemma grown_trans:
  assumes "grown a b" and "grown b c"
  shows "grown a c"
proof -
  have "\<exists>t' \<in> set (trajs c). t' = t \<or>
      (tr_state t = AWAITING \<and> (\<exists>now. t' = t\<lparr>tr_state := SETTLED_STATE, tr_settledAt := Some now\<rparr>))"
    if t: "t \<in> set (trajs a)" for t
  proof -
    obtain u where u: "u \<in> set (trajs b)" "u = t \<or>
        (tr_state t = AWAITING \<and> (\<exists>now. u = t\<lparr>tr_state := SETTLED_STATE, tr_settledAt := Some now\<rparr>))"
      using assms(1) t unfolding grown_def by blast
    obtain v where "v \<in> set (trajs c)" "v = u \<or>
        (tr_state u = AWAITING \<and> (\<exists>now. v = u\<lparr>tr_state := SETTLED_STATE, tr_settledAt := Some now\<rparr>))"
      using assms(2) u(1) unfolding grown_def by blast
    then show ?thesis using u(2) by auto
  qed
  then show ?thesis using assms unfolding grown_def by auto
qed

lemma mark_write_grown: "mark_write s s' \<Longrightarrow> grown (fst s) (fst s')"
proof (induction rule: mark_write.induct)
  case (w_open t db db' p)
  then show ?case using insertTrajectory_Inr by (fastforce simp: grown_def)
next
  case (w_mark db t off now m answer bound db' p)
  then show ?case
    using insertMark_fresh [of m db "tr_id t" "Some (fst (classifyMark (tr_opened t + off) now bound), tr_opened t + off, bound)"]
    by (auto simp: grown_def)
next
  case (w_counterfactual db t r off input db')
  then show ?case using insertCounterfactual_Inr by (fastforce simp: grown_def)
next
  case (w_outcome db t pol now db' p)
  then show ?case using insertOutcome_Inr by (fastforce simp: grown_def)
next
  case (w_close db i now db' p)
  then have "db' = db\<lparr>trajs := map (settle_row i now) (trajs db)\<rparr>" by (intro closeTrajectory_Inr)
  then show ?case by (auto simp: grown_def settle_row_def closes_def)
qed (simp add: grown_refl)

lemma history_grown: "history db db' \<Longrightarrow> grown db db'"
proof -
  have "mark_write\<^sup>*\<^sup>* s s' \<Longrightarrow> grown (fst s) (fst s')" for s s'
    by (induction rule: rtranclp_induct) (auto intro: grown_refl grown_trans dest: mark_write_grown)
  then show "history db db' \<Longrightarrow> grown db db'" unfolding history_def by fastforce
qed

lemma grown_recorded: "grown db db' \<Longrightarrow> off \<in> recordedOffsets db i \<Longrightarrow> off \<in> recordedOffsets db' i"
  by (auto simp: grown_def recordedOffsets_def)

lemma grown_marksFor: "grown db db' \<Longrightarrow> m \<in> set (marksFor db i) \<Longrightarrow> m \<in> set (marksFor db' i)"
  by (auto simp: grown_def marksFor_def)

section \<open>The pass\<close>

definition clock_forward :: "PassEnv \<Rightarrow> bool" where
  "clock_forward env \<longleftrightarrow> (\<forall>i off. ev_now env \<le> ev_clock env i off)"

definition owes :: "PassEnv \<Rightarrow> MarkDb \<Rightarrow> TrajRow \<Rightarrow> int list \<Rightarrow> bool" where
  "owes env db t offs \<longleftrightarrow> distinct offs \<and> (\<forall>off \<in> set offs. off \<in> set MARK_OFFSETS_MS \<and>
     off \<notin> recordedOffsets db (tr_id t) \<and> tr_opened t + off \<le> ev_now env)"

text \<open>Work on one trajectory leaves the marks of the others alone.\<close>

definition other_marks :: "string \<Rightarrow> MarkDb \<Rightarrow> MarkDb \<Rightarrow> bool" where
  "other_marks i db d \<longleftrightarrow> filter (\<lambda>r. tm_traj r \<noteq> i) (marks d) = filter (\<lambda>r. tm_traj r \<noteq> i) (marks db)"

text \<open>The marks already taken, and those the pool will price.\<close>

definition covered :: "PassEnv \<Rightarrow> MarkDb \<Rightarrow> TrajRow \<Rightarrow> int list \<Rightarrow> bool" where
  "covered env db t offs \<longleftrightarrow> (\<forall>off \<in> set MARK_OFFSETS_MS. off \<in> recordedOffsets db (tr_id t) \<or> off \<in> set offs) \<and>
     ((\<exists>m \<in> set (marksFor db (tr_id t)). cm_executable m \<noteq> None) \<or>
      (\<exists>off \<in> set offs. is_ok (ev_pool env (tr_id t) off)))"

definition marking :: "PassEnv \<Rightarrow> MarkDb \<Rightarrow> TrajRow \<Rightarrow> bool \<Rightarrow> int list \<Rightarrow> MarkDb \<Rightarrow> bool" where
  "marking env b t ready offs db \<longleftrightarrow> corpus_ok db \<and> awaiting_row db t \<and> trajs db = trajs b \<and>
     other_marks (tr_id t) b db \<and> owes env db t offs \<and>
     (if ready then covered env db t offs else True)"

lemma taken_fields [simp]: "cm_offset (taken_mark env t off) = off" "cm_at (taken_mark env t off) = ev_clock env (tr_id t) off"
  by (simp_all add: taken_mark_def)

lemma taken_priced: "is_ok (ev_pool env (tr_id t) off) \<Longrightarrow> cm_executable (taken_mark env t off) \<noteq> None"
  by (cases "ev_pool env (tr_id t) off") (simp_all add: taken_mark_def takeMark_def Let_def)

definition new_mark :: "PassEnv \<Rightarrow> TrajRow \<Rightarrow> int \<Rightarrow> TrajMark" where
  "new_mark env t off = \<lparr>tm_traj = tr_id t, tm_mark = taken_mark env t off, tm_sla = Some (sla_of env t (taken_mark env t off))\<rparr>"

lemma mark_insert:
  assumes "marking env b t ready (off # offs) db" and "clock_forward env"
  shows "insertMark (tr_id t) (taken_mark env t off) (Some (sla_of env t (taken_mark env t off))) db =
      Inr (db\<lparr>marks := marks db @ [new_mark env t off]\<rparr>)"
    and "mark_write (db, p) (db\<lparr>marks := marks db @ [new_mark env t off]\<rparr>, Some (tr_id t, off))"
    and "marking env b t ready offs (db\<lparr>marks := marks db @ [new_mark env t off]\<rparr>)"
proof -
  let ?d = "db\<lparr>marks := marks db @ [new_mark env t off]\<rparr>"
  have t: "awaiting_row db t" and owed: "owes env db t (off # offs)" and ok: "corpus_ok db" and T: "trajs db = trajs b" "other_marks (tr_id t) b db"
    using assms(1) by (simp_all add: marking_def)
  have fresh: "off \<notin> recordedOffsets db (tr_id t)" and grid: "off \<in> set MARK_OFFSETS_MS"
    and due: "tr_opened t + off \<le> ev_clock env (tr_id t) off"
    using owed assms(2) by (auto simp: owes_def clock_forward_def intro: order_trans)
  show ins: "insertMark (tr_id t) (taken_mark env t off) (Some (sla_of env t (taken_mark env t off))) db = Inr ?d"
    using insertMark_fresh [of "taken_mark env t off"] fresh by (simp add: new_mark_def)
  have sla: "sla_of env t (taken_mark env t off) = (fst (classifyMark (tr_opened t + off)
      (ev_clock env (tr_id t) off) (ev_slaMs env)), tr_opened t + off, ev_slaMs env)"
    by (simp add: sla_of_def Let_def)
  show wrote: "mark_write (db, p) (?d, Some (tr_id t, off))"
    by (rule w_mark [OF t grid fresh due taken_mark_def]) (use ins sla in simp)
  have rec: "recordedOffsets ?d (tr_id t) = insert off (recordedOffsets db (tr_id t))"
    by (auto simp: recordedOffsets_def new_mark_def)
  have "corpus_ok ?d"
    using ok_mark [OF ok t grid fresh due, of "new_mark env t off" "ev_pool env (tr_id t) off" "ev_slaMs env"] sla
    by (simp add: new_mark_def taken_mark_def)
  moreover have "owes env ?d t offs" using owed by (auto simp: owes_def rec)
  moreover have "covered env ?d t offs" if "covered env db t (off # offs)"
  proof -
    have "set (marksFor ?d (tr_id t)) = insert (taken_mark env t off) (set (marksFor db (tr_id t)))"
      by (auto simp: marksFor_def new_mark_def)
    then show ?thesis using that taken_priced [of env t off] by (auto simp: covered_def rec)
  qed
  ultimately show "marking env b t ready offs ?d"
    using t T assms(1) by (cases ready) (auto simp: marking_def awaiting_row_def other_marks_def new_mark_def)
qed

lemma cf_insert:
  assumes "awaiting_row db t" and "r \<in> set (marks db)" and "tm_traj r = tr_id t"
    and "cf_input t (tm_mark r) = Some input"
  shows "\<exists>d. insertCounterfactualMark (cf_row t (tm_mark r) input) db = Inr d \<and>
     mark_write (db, Some (tr_id t, cm_offset (tm_mark r))) (d, None) \<and>
     trajs d = trajs db \<and> marks d = marks db \<and> outcomes d = outcomes db"
proof -
  have "\<exists>d. insertCounterfactualMark (cf_row t (tm_mark r) input) db = Inr d \<and>
      trajs d = trajs db \<and> marks d = marks db \<and> outcomes d = outcomes db"
    using cf_row_checks [of t "tm_mark r" input] by (simp add: insertCounterfactualMark_def)
  then show ?thesis using w_counterfactual [OF assms(1-3) refl assms(4)] by blast
qed

lemma marking_same:
  assumes "marking env b t ready offs d" and "corpus_ok e" and "trajs e = trajs d" and "marks e = marks d"
  shows "marking env b t ready offs e"
proof -
  have "recordedOffsets e = recordedOffsets d" "marksFor e = marksFor d"
    using assms(4) by (simp_all add: recordedOffsets_def marksFor_def fun_eq_iff)
  then have "owes env e = owes env d" "covered env e = covered env d" "awaiting_row e = awaiting_row d"
    using assms(3) by (simp_all add: owes_def covered_def awaiting_row_def fun_eq_iff)
  then show ?thesis using assms by (simp add: marking_def other_marks_def)
qed

lemma one_write: "mark_write (db, None) (d, None) \<Longrightarrow> history db d"
  by (auto simp: history_def)

lemma two_writes: "mark_write (db, None) (d, p) \<Longrightarrow> mark_write (d, p) (e, None) \<Longrightarrow> history db e"
  by (auto simp: history_def intro: converse_rtranclp_into_rtranclp)

text \<open>One horizon: at most two statements, and the invariant in between.\<close>

lemma mark_one_triple:
  assumes "clock_forward env"
  shows "pass_triple history 2 (marking env b t ready (off # offs)) (mark_one env t off) (marking env b t ready offs)"
  unfolding pass_triple_def
proof (intro allI impI)
  fix db k assume m: "marking env b t ready (off # offs) db"
  let ?d = "db\<lparr>marks := marks db @ [new_mark env t off]\<rparr>" and ?m = "taken_mark env t off"
  note ins = mark_insert [OF m assms]
  have crashed: "history db ?d" by (rule two_writes [OF ins(2) w_crash])
  show "case mark_one env t off (db, k) of Inl (h, d) \<Rightarrow> h = Died \<and> history db d \<and> k < 2
      | Inr (d, k') \<Rightarrow> marking env b t ready offs d \<and> history db d \<and> k \<le> k' + 2"
  proof (cases "cf_input t ?m")
    case None
    then show ?thesis using ins(1,3) crashed mp.leads_refl
      by (cases k) (simp_all add: mark_one_def stmt_def)
  next
    case (Some input)
    have t: "awaiting_row ?d t" using ins(3) by (simp add: marking_def)
    obtain e where e: "insertCounterfactualMark (cf_row t ?m input) ?d = Inr e"
        "mark_write (?d, Some (tr_id t, off)) (e, None)" "trajs e = trajs ?d" "marks e = marks ?d"
      using cf_insert [OF t, of "new_mark env t off" input] Some by (auto simp: new_mark_def)
    have "history db e" by (rule two_writes [OF ins(2) e(2)])
    moreover have "marking env b t ready offs e"
    proof -
      have "corpus_ok e" using history_ok [OF \<open>history db e\<close>] m by (simp add: marking_def)
      then show ?thesis using marking_same [OF ins(3) _ e(3,4)] by simp
    qed
    ultimately show ?thesis using Some ins(1) e(1) crashed mp.leads_refl
      by (cases k; cases "k - 1") (simp_all add: mark_one_def stmt_def)
  qed
qed


text \<open>The end of a path.\<close>

definition settling :: "MarkDb \<Rightarrow> TrajRow \<Rightarrow> MarkDb \<Rightarrow> PolicyOutcome list \<Rightarrow> MarkDb \<Rightarrow> bool" where
  "settling b t db0 todo db \<longleftrightarrow> corpus_ok db \<and> awaiting_row db t \<and> trajs db = trajs b \<and>
     other_marks (tr_id t) b db \<and> whole_path db (tr_id t) \<and>
     marks db = marks db0 \<and> cfs db = cfs db0 \<and>
     (\<exists>done. map (outcome_of db0 t) [FIXED_15M_CONTROL, FLOW_LIQUIDITY_DETERIORATION_V1] = done @ todo \<and>
       (\<forall>ou \<in> set done. has_outcome db (tr_id t) (po_exitPolicy ou)))"

lemma outcome_triple:
  "pass_triple history 1 (settling b t db0 (ou # todo))
     (stmt (insertPolicyOutcome (tr_id t) (tr_notional t) ou now)) (settling b t db0 todo)"
proof (rule mp.triple_stmt)
  fix db assume s: "settling b t db0 (ou # todo) db"
  then obtain before where before: "map (outcome_of db0 t) [FIXED_15M_CONTROL, FLOW_LIQUIDITY_DETERIORATION_V1] = before @ ou # todo"
    "\<forall>q \<in> set before. has_outcome db (tr_id t) (po_exitPolicy q)" unfolding settling_def by blast
  have t: "awaiting_row db t" "whole_path db (tr_id t)" "corpus_ok db" "trajs db = trajs b" "other_marks (tr_id t) b db"
    and same: "marks db = marks db0" "cfs db = cfs db0"
    using s by (simp_all add: settling_def)
  have "ou \<in> set (map (outcome_of db0 t) [FIXED_15M_CONTROL, FLOW_LIQUIDITY_DETERIORATION_V1])"
    using before(1) by (metis in_set_conv_decomp)
  then obtain pol where "ou = outcome_of db0 t pol" by auto
  then have ou: "ou = outcome_of db t pol"
    using same by (simp add: outcome_of_def marksFor_def counterfactualExits_def)
  have "\<exists>d. insertPolicyOutcome (tr_id t) (tr_notional t) ou now db = Inr d \<and> has_outcome d (tr_id t) pol \<and>
      trajs d = trajs db \<and> marks d = marks db \<and> cfs d = cfs db \<and> (\<forall>i p. has_outcome db i p \<longrightarrow> has_outcome d i p)"
  proof (cases "find (\<lambda>r. oc_traj r = tr_id t \<and> oc_policy r = po_exitPolicy ou) (outcomes db)")
    case None
    then show ?thesis by (simp add: insertPolicyOutcome_def ou)
  next
    case (Some r)
    have r: "r \<in> set (outcomes db)" "oc_traj r = tr_id t" "oc_policy r = pol"
      using find_SomeD [OF Some] by (simp_all add: ou)
    then obtain u where "u \<in> set (trajs db)" "tr_id u = tr_id t"
        "r = outcome_row (tr_id u) (tr_notional u) (outcome_of db u pol) (oc_settledAt r)"
      using t(3) unfolding corpus_ok_def decided_outcome_def by metis
    moreover from this have "u = t" using same_row [OF t(3)] t(1) by (auto simp: awaiting_row_def)
    ultimately have "oc_triggeredOffset r = po_triggeredOffset ou" "oc_exitMark r = exitMarkLamports ou"
        "oc_grossDelta r = grossDeltaLamports ou"
      unfolding ou by (metis OutcomeRow.select_convs outcome_row_def)+
    then show ?thesis using Some r by (auto simp: insertPolicyOutcome_def has_outcome_def)
  qed
  then obtain d where d: "insertPolicyOutcome (tr_id t) (tr_notional t) ou now db = Inr d" "has_outcome d (tr_id t) pol"
      "trajs d = trajs db" "marks d = marks db" "cfs d = cfs db" "\<forall>i p. has_outcome db i p \<longrightarrow> has_outcome d i p" by blast
  have hist: "history db d" using one_write [OF w_outcome [OF t(1,2)]] d(1) ou by simp
  have "whole_path d (tr_id t)" using t(2) d(4) by (simp add: whole_path_def marksFor_def)
  moreover have "\<forall>q \<in> set (before @ [ou]). has_outcome d (tr_id t) (po_exitPolicy q)"
    using before(2) d(2,6) by (simp add: ou)
  ultimately have "settling b t db0 todo d"
    unfolding settling_def using history_ok [OF hist t(3)] t(1,4,5) same d(3-5) before(1)
    by (auto simp: awaiting_row_def other_marks_def intro!: exI [of _ "before @ [ou]"])
  then show "\<exists>d. insertPolicyOutcome (tr_id t) (tr_notional t) ou now db = Inr d \<and> history db d \<and> settling b t db0 todo d"
    using d(1) hist by blast
qed

definition settled_in :: "MarkDb \<Rightarrow> string \<Rightarrow> bool" where
  "settled_in db i \<longleftrightarrow> (\<exists>u \<in> set (trajs db). tr_id u = i \<and> tr_state u = SETTLED_STATE)"

definition others_kept :: "MarkDb \<Rightarrow> TrajRow \<Rightarrow> MarkDb \<Rightarrow> bool" where
  "others_kept b t d \<longleftrightarrow> other_marks (tr_id t) b d \<and> (\<forall>u \<in> set (trajs b). tr_id u \<noteq> tr_id t \<longrightarrow> u \<in> set (trajs d))"

lemma close_triple:
  "pass_triple history 1 (settling b t db0 []) (stmt (closeTrajectory (tr_id t) now))
     (\<lambda>d. corpus_ok d \<and> settled_in d (tr_id t) \<and> others_kept b t d)"
proof (rule mp.triple_stmt)
  fix db assume s: "settling b t db0 [] db"
  have t: "awaiting_row db t" "whole_path db (tr_id t)" "corpus_ok db" "trajs db = trajs b" "other_marks (tr_id t) b db"
    using s by (simp_all add: settling_def)
  have "has_outcome db (tr_id t) pol" for pol
    using s by (cases pol) (auto simp: settling_def)
  moreover have "length (filter (closes (tr_id t)) (trajs db)) \<le> 1"
  proof -
    have "distinct (map tr_id (filter (closes (tr_id t)) (trajs db)))"
      using t(3) by (simp add: corpus_ok_def distinct_map_filter)
    moreover have "set (map tr_id (filter (closes (tr_id t)) (trajs db))) \<subseteq> {tr_id t}"
      by (auto simp: closes_def)
    ultimately show ?thesis by (metis card_mono distinct_card finite.intros is_singletonI is_singleton_altdef length_map)
  qed
  ultimately have close: "closeTrajectory (tr_id t) now db = Inr (db\<lparr>trajs := map (settle_row (tr_id t) now) (trajs db)\<rparr>)"
    and hist: "history db (db\<lparr>trajs := map (settle_row (tr_id t) now) (trajs db)\<rparr>)"
    using one_write [OF w_close [OF t(2)]]
    by (simp_all add: closeTrajectory_def settle_row_def [abs_def])
  have "settled_in (db\<lparr>trajs := map (settle_row (tr_id t) now) (trajs db)\<rparr>) (tr_id t)"
    unfolding settled_in_def using t(1)
    by (intro bexI [of _ "settle_row (tr_id t) now t"]) (simp_all add: awaiting_row_def, simp add: settle_row_def closes_def)
  moreover have "u \<in> set (map (settle_row (tr_id t) now) (trajs db))" if "u \<in> set (trajs b)" "tr_id u \<noteq> tr_id t" for u
    using that t(4) by (force simp: settle_row_def closes_def image_iff)
  ultimately show "\<exists>d. closeTrajectory (tr_id t) now db = Inr d \<and> history db d \<and> (corpus_ok d \<and> settled_in d (tr_id t) \<and>
      others_kept b t d)"
    using close hist history_ok [OF hist t(3)] t(5) by (simp add: others_kept_def other_marks_def)
qed


lemma settle_triple:
  "pass_triple history 3 (marking env b t ready []) (settle_one env t)
     (\<lambda>d. corpus_ok d \<and> (ready \<longrightarrow> settled_in d (tr_id t)) \<and> others_kept b t d)"
  (is "pass_triple history 3 ?P _ ?Q")
proof -
  let ?body = "\<lambda>db st. if \<not> whole_path db (tr_id t) then Inr st
      else ebind (each (\<lambda>ou. stmt (insertPolicyOutcome (tr_id t) (tr_notional t) ou (ev_now env)))
        (map (outcome_of db t) [FIXED_15M_CONTROL, FLOW_LIQUIDITY_DETERIORATION_V1]) st)
        (stmt (closeTrajectory (tr_id t) (ev_now env)))"
  have body: "settle_one env t st = ?body (fst st) st" for st
    by (simp add: settle_one_def whole_path_def Let_def evaluateExitPolicies_def outcome_of_def)
  have "pass_triple history 3 ?P (\<lambda>st. ?body (fst st) st) ?Q"
  proof (rule mp.triple_read)
    fix db assume P: "?P db"
    show "pass_triple history 3 (\<lambda>d. d = db) (?body db) ?Q"
    proof (cases "whole_path db (tr_id t)")
      case True
      let ?outs = "map (outcome_of db t) [FIXED_15M_CONTROL, FLOW_LIQUIDITY_DETERIORATION_V1]"
      let ?ins = "\<lambda>ou. stmt (insertPolicyOutcome (tr_id t) (tr_notional t) ou (ev_now env))"
      have outs: "pass_triple history (1 * length ?outs) (settling b t db ?outs) (each ?ins ?outs) (settling b t db [])"
        by (rule mp.triple_each [where J = "settling b t db"]) (rule outcome_triple)
      have seq: "pass_triple history 3 (settling b t db ?outs)
          (\<lambda>st. ebind (each ?ins ?outs st) (stmt (closeTrajectory (tr_id t) (ev_now env))))
          (\<lambda>d. corpus_ok d \<and> settled_in d (tr_id t) \<and> others_kept b t d)"
        using mp.triple_seq [OF outs close_triple] by (simp add: numeral_3_eq_3)
      have start: "settling b t db ?outs db"
        using P True by (simp add: settling_def marking_def)
      have "?body db = (\<lambda>st. ebind (each ?ins ?outs st) (stmt (closeTrajectory (tr_id t) (ev_now env))))"
        using True by (simp del: each.simps)
      then show ?thesis using mp.triple_mono [OF seq, of 3 "\<lambda>d. d = db" ?Q] start by simp
    next
      case False
      have "\<not> ready"
      proof
        assume ready
        then have "covered env db t []" using P by (simp add: marking_def)
        then have "whole_path db (tr_id t)"
          by (auto simp: covered_def whole_path_def pathIsComplete_def list_all_iff recordedOffsets_def marksFor_def)
        then show False using False by simp
      qed
      then show ?thesis using False P
        by (auto simp: marking_def others_kept_def intro!: mp.triple_skip)
    qed
  qed
  then show ?thesis unfolding body [abs_def] .
qed


text \<open>The pass works its list in order; \<open>ready\<close> are the paths whose last horizon has come and that carry, or get, a price.\<close>

definition ready_path :: "PassEnv \<Rightarrow> MarkDb \<Rightarrow> TrajRow \<Rightarrow> bool" where
  "ready_path env db t \<longleftrightarrow> tr_opened t + 3600000 \<le> ev_now env \<and>
     ((\<exists>m \<in> set (marksFor db (tr_id t)). cm_executable m \<noteq> None) \<or>
      (\<exists>off \<in> set MARK_OFFSETS_MS. off \<notin> recordedOffsets db (tr_id t) \<and> is_ok (ev_pool env (tr_id t) off)))"

lemma due_marking:
  assumes "corpus_ok db" and "awaiting_row db t"
  shows "marking env db t (ready_path env db t) (due_now env db t) db"
proof -
  have "owes env db t (due_now env db t)"
    by (auto simp: owes_def due_now_def) (simp add: MARK_OFFSETS_MS_def)
  moreover have "covered env db t (due_now env db t)" if "ready_path env db t"
  proof -
    have "tr_opened t + off \<le> ev_now env" if "off \<in> set MARK_OFFSETS_MS" for off
      using that \<open>ready_path env db t\<close> by (auto simp: ready_path_def MARK_OFFSETS_MS_def)
    then show ?thesis using that by (auto simp: covered_def due_now_def ready_path_def)
  qed
  ultimately show ?thesis using assms by (simp add: marking_def other_marks_def)
qed

lemma due_length: "length (due_now env db t) \<le> 7"
  unfolding due_now_def by (rule order_trans [OF length_filter_le]) (simp add: MARK_OFFSETS_MS_def)

definition working :: "PassEnv \<Rightarrow> TrajRow \<Rightarrow> bool \<Rightarrow> TrajRow list \<Rightarrow> MarkDb \<Rightarrow> bool" where
  "working env target ready todo db \<longleftrightarrow> corpus_ok db \<and> distinct (map tr_id todo) \<and> (\<forall>t \<in> set todo. awaiting_row db t) \<and>
     (ready \<longrightarrow> settled_in db (tr_id target) \<or> (target \<in> set todo \<and> ready_path env db target))"

lemma grown_settled: "grown db d \<Longrightarrow> settled_in db i \<Longrightarrow> settled_in d i"
  by (fastforce simp: grown_def settled_in_def)


lemma others_ready:
  assumes "other_marks i db d" and "tr_id u \<noteq> i"
  shows "ready_path env d u = ready_path env db u"
proof -
  have "filter (\<lambda>r. tm_traj r = tr_id u) (marks x) =
      filter (\<lambda>r. tm_traj r = tr_id u) (filter (\<lambda>r. tm_traj r \<noteq> i) (marks x))" for x
    using assms(2) by (auto intro!: filter_cong)
  then have "filter (\<lambda>r. tm_traj r = tr_id u) (marks d) = filter (\<lambda>r. tm_traj r = tr_id u) (marks db)"
    using assms(1) by (metis other_marks_def)
  then show ?thesis by (simp add: ready_path_def marksFor_def recordedOffsets_def)
qed

lemma working_next:
  assumes w: "working env target ready (t # ts) db" and d: "corpus_ok d" "history db d" "others_kept db t d"
    and t: "ready_path env db t \<Longrightarrow> settled_in d (tr_id t)"
  shows "working env target ready ts d"
proof -
  have ids: "tr_id u \<noteq> tr_id t" if "u \<in> set ts" for u
    using w imageI [OF that, of tr_id] by (auto simp: working_def)
  have "awaiting_row d u" if "u \<in> set ts" for u
    using w d(3) ids [OF that] that by (auto simp: working_def others_kept_def awaiting_row_def)
  moreover have "settled_in d (tr_id target) \<or> (target \<in> set ts \<and> ready_path env d target)" if ready
  proof (cases "settled_in db (tr_id target)")
    case True
    then show ?thesis using grown_settled [OF history_grown [OF d(2)]] by simp
  next
    case False
    then have "target \<in> set (t # ts)" "ready_path env db target" using w that by (auto simp: working_def)
    then show ?thesis using t others_ready [of "tr_id t" db d target env] ids d(3) by (auto simp: others_kept_def)
  qed
  ultimately show ?thesis using w d(1) by (simp add: working_def)
qed

lemma work_triple:
  assumes "clock_forward env"
  shows "pass_triple history 17 (working env target ready (t # ts)) (work env t) (working env target ready ts)"
proof -
  let ?f = "\<lambda>db st. ebind (each (mark_one env t) (due_now env db t) st) (settle_one env t)"
  have "pass_triple history 17 (working env target ready (t # ts)) (\<lambda>st. ?f (fst st) st) (working env target ready ts)"
  proof (rule mp.triple_read)
    fix db assume w: "working env target ready (t # ts) db"
    let ?ready = "ready_path env db t"
    have "corpus_ok db" "awaiting_row db t" using w by (simp_all add: working_def)
    note start = due_marking [OF this, of env]
    have marks: "pass_triple history (2 * length (due_now env db t)) (marking env db t ?ready (due_now env db t))
        (each (mark_one env t) (due_now env db t)) (marking env db t ?ready [])"
      by (rule mp.triple_each [where J = "marking env db t ?ready"]) (rule mark_one_triple [OF assms])
    have "pass_triple history 17 (\<lambda>d. d = db) (?f db)
        (\<lambda>d. corpus_ok d \<and> (?ready \<longrightarrow> settled_in d (tr_id t)) \<and> others_kept db t d)"
      by (rule mp.triple_mono [OF mp.triple_seq [OF marks settle_triple]]) (use due_length [of env db t] start in auto)
    from mp.triple_from [OF this] show "pass_triple history 17 (\<lambda>d. d = db) (?f db) (working env target ready ts)"
      by (rule mp.triple_mono) (use working_next [OF w] in auto)
  qed
  then show ?thesis by (simp add: work_def [abs_def])
qed

lemma work_list_working:
  assumes "corpus_ok db" and "ready \<Longrightarrow> target \<in> set (work_list env db) \<and> ready_path env db target"
  shows "working env target ready (work_list env db) db"
proof -
  let ?open = "openTrajectories db 100 (ev_context env)"
  have "distinct (map tr_id (filter (\<lambda>t. tr_state t = AWAITING \<and> in_context (ev_context env) t) (trajs db)))"
    using assms(1) by (simp add: corpus_ok_def distinct_map_filter)
  then have "distinct (map tr_id (sort_key tr_opened (filter (\<lambda>t. tr_state t = AWAITING \<and> in_context (ev_context env) t) (trajs db))))"
    by (simp only: distinct_map_sort_key)
  then have "distinct (map tr_id ?open)" unfolding openTrajectories_def take_map [symmetric] by (rule distinct_take)
  moreover have "mset (filter P xs @ filter (\<lambda>t. \<not> P t) xs) = mset xs" for P and xs :: "TrajRow list"
    by (induction xs) auto
  then have "mset (work_list env db) = mset ?open" by (simp only: work_list_def Let_def)
  then have "mset (map tr_id (work_list env db)) = mset (map tr_id ?open)" by simp
  ultimately have "distinct (map tr_id (work_list env db))" by (metis mset_eq_imp_distinct_iff)
  moreover have "awaiting_row db t" if "t \<in> set (work_list env db)" for t
    using that by (auto simp: work_list_def Let_def openTrajectories_def awaiting_row_def dest!: in_set_takeD)
  ultimately show ?thesis using assms by (simp add: working_def)
qed

lemma work_list_length: "length (work_list env db) \<le> 100"
  by (simp add: work_list_def Let_def sum_length_filter_compl openTrajectories_def)

lemma pass_outcome:
  assumes "corpus_ok db" and "clock_forward env" and "ready \<Longrightarrow> target \<in> set (work_list env db) \<and> ready_path env db target"
  shows "case runMarkPass env db k of Inl (h, d) \<Rightarrow> h = Died \<and> history db d \<and> k < 1700
    | Inr (d, k') \<Rightarrow> working env target ready [] d \<and> history db d \<and> k \<le> k' + 1700"
proof -
  have "pass_triple history (17 * length (work_list env db)) (working env target ready (work_list env db))
      (each (work env) (work_list env db)) (working env target ready [])"
    by (rule mp.triple_each [where J = "working env target ready"]) (rule work_triple [OF assms(2)])
  then have "pass_triple history 1700 (working env target ready (work_list env db))
      (each (work env) (work_list env db)) (working env target ready [])"
    by (rule mp.triple_mono) (use work_list_length [of env db] in auto)
  then show ?thesis using work_list_working [OF assms(1,3)] by (simp add: pass_triple_def runMarkPass_def)
qed


section \<open>Properties of the corpus\<close>

lemma first_exit_fold:
  "js_get (fold first_exit cs out) off = Some (x, cls) \<Longrightarrow>
   js_get out off = Some (x, cls) \<or> (\<exists>c \<in> set cs. cf_offset c = off \<and> cf_exit c = Some x \<and> cf_class c = cls)"
proof (induction cs arbitrary: out)
  case (Cons c cs)
  from Cons.IH [of "first_exit c out"] Cons.prems show ?case
    by (auto simp: first_exit_def split: option.splits if_splits)
qed simp

lemma exits_recorded:
  "js_get (counterfactualExits db i) off = Some (x, cls) \<Longrightarrow>
   \<exists>c \<in> set (cfs db). cf_traj c = i \<and> cf_offset c = off \<and> cf_exit c = Some x \<and> cf_class c = cls \<and> cf_refusal c = None"
  using first_exit_fold [of _ "[]" off x cls] by (fastforce simp: counterfactualExits_def)

lemma marksFor_iff: "m \<in> set (marksFor db i) \<longleftrightarrow> (\<exists>r \<in> set (marks db). tm_traj r = i \<and> tm_mark r = m)"
  by (auto simp: marksFor_def)

lemma marksFor_grid:
  assumes "corpus_ok db"
  shows "on_grid (marksFor db i)"
proof -
  have "distinct (map mark_key (filter (\<lambda>r. tm_traj r = i) (marks db)))"
    using assms by (simp add: corpus_ok_def distinct_map_filter)
  moreover have "map mark_key (filter (\<lambda>r. tm_traj r = i) (marks db)) =
      map (Pair i) (map cm_offset (map tm_mark (filter (\<lambda>r. tm_traj r = i) (marks db))))"
    by (simp add: mark_key_def)
  ultimately have "distinct (map cm_offset (marksFor db i))"
    unfolding marksFor_def distinct_map_sort_key by (metis distinct_map)
  moreover have "cm_offset m \<in> set MARK_OFFSETS_MS" if "m \<in> set (marksFor db i)" for m
    using assms that unfolding corpus_ok_def truthful_mark_def marksFor_iff Let_def by metis
  ultimately show ?thesis by (auto simp: on_grid_def)
qed

text \<open>A price of an outcome rests on one recorded contract over a mark of the same path.\<close>

definition priced_by_contract :: "MarkDb \<Rightarrow> TrajRow \<Rightarrow> int \<Rightarrow> bool" where
  "priced_by_contract db t x \<longleftrightarrow> (\<exists>m \<in> set (marksFor db (tr_id t)). \<exists>input c. cf_input t m = Some input \<and>
     boundedCounterfactual input = Inr c \<and> ci_entryImpactBps input \<le> BOUNDED_IMPACT_CAP_BPS \<and>
     x = counterfactualExitLamports c \<and> cf_row t m input \<in> set (cfs db))"

lemma outcome_priced:
  assumes ok: "corpus_ok db" and t: "t \<in> set (trajs db)" and x: "exitMarkLamports (outcome_of db t pol) = Some x"
  shows "priced_by_contract db t x"
proof -
  obtain off cls where "js_get (counterfactualExits db (tr_id t)) off = Some (x, cls)"
    using x by (auto simp: outcome_of_def evaluate_policy_def Let_def split: option.splits)
  then obtain c where c: "c \<in> set (cfs db)" "cf_traj c = tr_id t" "cf_exit c = Some x"
    using exits_recorded by blast
  then obtain u r input where u: "u \<in> set (trajs db)" "r \<in> set (marks db)" "tm_traj r = tr_id u"
      "cf_input u (tm_mark r) = Some input" "c = cf_row u (tm_mark r) input"
    using ok unfolding corpus_ok_def contracted_def by blast
  then have "u = t" using same_row [OF ok u(1) t] c(2) by simp
  obtain b where b: "boundedCounterfactual input = Inr b" "x = counterfactualExitLamports b"
    using c(3) u(5) by (auto simp: cf_row_def split: sum.split_asm)
  have "tm_mark r \<in> set (marksFor db (tr_id t))" using u \<open>u = t\<close> marksFor_iff by blast
  moreover have "cf_row t (tm_mark r) input \<in> set (cfs db)" "cf_input t (tm_mark r) = Some input"
    using u c(1) \<open>u = t\<close> by simp_all
  ultimately show ?thesis
    unfolding priced_by_contract_def using b bounded_exit_le(2) [OF b(1)] by blast
qed

text \<open>C6: In every history of the corpus, crashes included, a settled trajectory rests on its whole path: one mark
  per horizon, none taken before its horizon, at least one priced; each policy has exactly the
  outcome it decides on those marks; and an outcome's price is a bounded counterfactual exit over a
  mark of that path, of an entry within the impact bound.\<close>

theorem settled_paths_are_whole:
  assumes "history empty_corpus db" and "t \<in> set (trajs db)" and "tr_state t = SETTLED_STATE"
  shows "on_grid (marksFor db (tr_id t)) \<and> fst (pathIsComplete (marksFor db (tr_id t))) \<and>
    (\<forall>m \<in> set (marksFor db (tr_id t)). tr_opened t + cm_offset m \<le> cm_at m) \<and>
    (\<forall>pol. \<exists>r \<in> set (outcomes db). oc_traj r = tr_id t \<and> oc_policy r = pol \<and>
      r = outcome_row (tr_id t) (tr_notional t) (outcome_of db t pol) (oc_settledAt r) \<and>
      (case oc_exitMark r of None \<Rightarrow> True | Some x \<Rightarrow> priced_by_contract db t x))"
proof -
  have ok: "corpus_ok db" using history_ok [OF assms(1) empty_ok] .
  then have whole: "whole_path db (tr_id t)" and has: "\<forall>pol. has_outcome db (tr_id t) pol"
    using assms(2,3) by (auto simp: corpus_ok_def settled_whole_def)
  have early: "tr_opened t + cm_offset m \<le> cm_at m" if m: "m \<in> set (marksFor db (tr_id t))" for m
  proof -
    obtain r where r: "r \<in> set (marks db)" "tm_traj r = tr_id t" "tm_mark r = m"
      using m unfolding marksFor_iff by blast
    then obtain u where "u \<in> set (trajs db)" "tr_id u = tr_id t" "tr_opened u + cm_offset m \<le> cm_at m"
      using ok unfolding corpus_ok_def truthful_mark_def Let_def by metis
    then show ?thesis using same_row [OF ok _ assms(2)] by blast
  qed
  have "\<exists>r \<in> set (outcomes db). oc_traj r = tr_id t \<and> oc_policy r = pol \<and>
      r = outcome_row (tr_id t) (tr_notional t) (outcome_of db t pol) (oc_settledAt r) \<and>
      (case oc_exitMark r of None \<Rightarrow> True | Some x \<Rightarrow> priced_by_contract db t x)" for pol
  proof -
    obtain r where r: "r \<in> set (outcomes db)" "oc_traj r = tr_id t" "oc_policy r = pol"
      using has by (auto simp: has_outcome_def)
    then obtain u where u: "u \<in> set (trajs db)" "tr_id u = tr_id t"
        "r = outcome_row (tr_id u) (tr_notional u) (outcome_of db u pol) (oc_settledAt r)"
      using ok unfolding corpus_ok_def decided_outcome_def by metis
    then have "u = t" using same_row [OF ok _ assms(2)] by blast
    then have row: "r = outcome_row (tr_id t) (tr_notional t) (outcome_of db t pol) (oc_settledAt r)" using u(3) by simp
    then have "oc_exitMark r = exitMarkLamports (outcome_of db t pol)" by (metis OutcomeRow.select_convs(6) outcome_row_def)
    then have "case oc_exitMark r of None \<Rightarrow> True | Some x \<Rightarrow> priced_by_contract db t x"
      using outcome_priced [OF ok assms(2), of pol] by (simp split: option.split)
    then show ?thesis using r row by blast
  qed
  then show ?thesis using marksFor_grid [OF ok] whole early by (simp add: whole_path_def)
qed


text \<open>A trajectory opened at 0 and a pass over it at its last horizon, with a pool that prices every mark.\<close>

definition demo_row :: TrajRow where
  "demo_row = \<lparr>tr_id = ''t1'', tr_mint = ''m1'', tr_state = AWAITING, tr_opened = 0, tr_notional = 20000000,
     tr_acquired = 1000, tr_baseDelta = Some (- 1000), tr_quoteDelta = Some 20000, tr_impactBps = Some 10,
     tr_context = None, tr_settledAt = None\<rparr>"

definition demo_open :: MarkDb where
  "demo_open = empty_corpus\<lparr>trajs := [demo_row]\<rparr>"

definition demo_env :: "int \<Rightarrow> PassEnv" where
  "demo_env now = \<lparr>ev_now = now, ev_slaMs = 10000, ev_context = None, ev_urgent = [], ev_clock = (\<lambda>i off. now),
     ev_pool = (\<lambda>i off. Inr \<lparr>dm_executable = 900, dm_baseReserve = 1900000, dm_quoteReserveRaw = 22000000,
       dm_virtualQuoteReserves = 0\<rparr>)\<rparr>"

lemma demo_opened: "history empty_corpus demo_open"
  by (rule one_write [OF w_open [of demo_row]]) (simp_all add: insertTrajectory_def demo_open_def demo_row_def empty_corpus_def)

lemma demo_ok: "corpus_ok demo_open"
  by (rule history_ok [OF demo_opened empty_ok])

lemma demo_ready: "demo_row \<in> set (work_list (demo_env 3600000) demo_open) \<and> ready_path (demo_env 3600000) demo_open demo_row"
  by (auto simp: work_list_def openTrajectories_def demo_env_def demo_open_def empty_corpus_def demo_row_def
      in_context_def ready_path_def recordedOffsets_def MARK_OFFSETS_MS_def Let_def)

lemma demo_clock: "clock_forward (demo_env now)"
  by (simp add: clock_forward_def demo_env_def)

lemma demo_settles:
  "\<exists>d k. runMarkPass (demo_env 3600000) demo_open 1700 = Inr (d, k) \<and> history empty_corpus d \<and> settled_in d ''t1''"
  using pass_outcome [OF demo_ok demo_clock, of True demo_row 3600000 1700] demo_ready demo_opened
  by (auto simp: working_def demo_row_def intro: mp.leads_trans split: sum.split_asm prod.split_asm)

theorem settled_paths_are_whole_witness:
  "\<exists>d k. runMarkPass (demo_env 3600000) demo_open 1700 = Inr (d, k) \<and> length (marksFor d ''t1'') = 7"
proof -
  obtain d k t where d: "runMarkPass (demo_env 3600000) demo_open 1700 = Inr (d, k)" "history empty_corpus d"
      "t \<in> set (trajs d)" "tr_id t = ''t1''" "tr_state t = SETTLED_STATE"
    using demo_settles by (auto simp: settled_in_def)
  have "on_grid (marksFor d ''t1'')" "fst (pathIsComplete (marksFor d ''t1''))"
    using settled_paths_are_whole [OF d(2,3,5)] d(4) by simp_all
  then have "distinct (map cm_offset (marksFor d ''t1''))" "set (map cm_offset (marksFor d ''t1'')) = set MARK_OFFSETS_MS"
    using complete_offsets by (simp_all add: on_grid_def)
  then have "length (map cm_offset (marksFor d ''t1'')) = 7"
    using distinct_card [of "map cm_offset (marksFor d ''t1'')"] by (simp add: MARK_OFFSETS_MS_def)
  then show ?thesis using d(1) by auto
qed

text \<open>The corpus is append-only: along any history the marks, the counterfactual rows and the outcomes already
  written stay where they are, and the only change to a trajectory is the close of one that was
  awaiting; a settled one is never touched again.\<close>

theorem corpus_is_append_only:
  assumes "history db db'"
  shows "(\<exists>m. marks db' = marks db @ m) \<and> (\<exists>c. cfs db' = cfs db @ c) \<and> (\<exists>q. outcomes db' = outcomes db @ q) \<and>
    (\<forall>t \<in> set (trajs db). \<exists>t' \<in> set (trajs db').
      t' = t \<or> (tr_state t = AWAITING \<and> (\<exists>now. t' = t\<lparr>tr_state := SETTLED_STATE, tr_settledAt := Some now\<rparr>)))"
  using history_grown [OF assms] by (simp add: grown_def)

text \<open>C12: A pass over a corpus with a history, wherever the process dies in it, leaves a corpus with a history: it
  never meets a conflict with its own earlier writes, never fails a constraint, and every statement it
  executed is one of the corpus' writes.\<close>

theorem mark_pass_is_crash_safe:
  assumes "history empty_corpus db" and "clock_forward env"
  shows "case runMarkPass env db k of Inl (h, d) \<Rightarrow> h = Died \<and> history db d | Inr (d, left) \<Rightarrow> history db d"
  using pass_outcome [OF history_ok [OF assms(1) empty_ok] assms(2), of False undefined k]
  by (auto split: sum.split prod.split)

text \<open>C34: A pass that runs to its end settles every path of its list whose last horizon has come, as long as one of its
  marks carries a price: no conflict, refusal or earlier crash keeps it open. 1700 statements always
  suffice for the hundred trajectories a pass works.\<close>

theorem ready_path_settles:
  assumes "history empty_corpus db" and "clock_forward env" and "1700 \<le> k"
    and "t \<in> set (work_list env db)" and "ready_path env db t"
  shows "\<exists>d left. runMarkPass env db k = Inr (d, left) \<and> history db d \<and> settled_in d (tr_id t)"
  using pass_outcome [OF history_ok [OF assms(1) empty_ok] assms(2), of True t k] assms(3-5)
  by (auto simp: working_def split: sum.split_asm prod.split_asm)

theorem ready_path_settles_witness:
  "\<exists>d left. runMarkPass (demo_env 3600000) demo_open 1700 = Inr (d, left) \<and> settled_in d ''t1''"
  using ready_path_settles [OF demo_opened demo_clock, of 1700 demo_row 3600000] demo_ready
  by (auto simp: demo_row_def)

theorem corpus_is_append_only_witness: "\<exists>m. marks demo_open = marks empty_corpus @ m"
  using corpus_is_append_only [OF demo_opened] by blast

lemma demo_dies: "runMarkPass (demo_env 60000) demo_open 1 =
    Inl (Died, demo_open\<lparr>marks := [new_mark (demo_env 60000) demo_row 60000]\<rparr>)"
  by (simp add: runMarkPass_def work_list_def openTrajectories_def demo_env_def demo_open_def empty_corpus_def demo_row_def
      in_context_def work_def due_now_def recordedOffsets_def MARK_OFFSETS_MS_def mark_one_def stmt_def insertMark_def
      new_mark_def taken_mark_def takeMark_def cf_input_def Let_def)

theorem mark_pass_is_crash_safe_witness:
  "history demo_open (demo_open\<lparr>marks := [new_mark (demo_env 60000) demo_row 60000]\<rparr>)"
  using mark_pass_is_crash_safe [OF demo_opened demo_clock, of 60000 1] unfolding demo_dies by simp


section \<open>The scheduler and the pass\<close>

lemma Min_insert_min: "finite A \<Longrightarrow> Min (insert x (insert y A)) = Min (insert (min y x) A)" for x y :: int
  by (cases "A = {}") (auto simp: min_def)

lemma soonest_Some: "soonest_due now (Some s) ds =
    (if \<exists>d \<in> set ds. d \<le> now then Inl () else Inr (Some (Min (insert s (set ds)))))"
proof (induction ds arbitrary: s)
  case (Cons d ds)
  have "(if d < s then d else s) = min d s" by (simp add: min_def)
  then show ?case using Cons [of "min d s"] by (simp add: Min_insert_min [symmetric])
qed simp

lemma soonest_spec:
  "soonest_due now None ds = (if \<exists>d \<in> set ds. d \<le> now then Inl ()
     else Inr (if ds = [] then None else Some (Min (set ds))))"
  by (cases ds) (simp_all add: soonest_Some)

lemma deadlines_iff: "d \<in> set (deadlines db offsets ctx) \<longleftrightarrow>
    (\<exists>t \<in> set (unsettled db ctx). \<exists>off \<in> set (missing_offsets db offsets t). d = tr_opened t + off)"
  by (auto simp: deadlines_def)

lemma dueMarks_all: "x \<in> set (dueMarks db now offsets None ctx) \<longleftrightarrow>
    (\<exists>t \<in> set (unsettled db ctx). x \<in> set (due_of db now offsets t))"
  by (auto simp: dueMarks_def)

lemma dueMarks_empty: "dueMarks db now offsets None ctx = [] \<longleftrightarrow> (\<forall>d \<in> set (deadlines db offsets ctx). now < d)"
proof -
  have "dueMarks db now offsets None ctx = [] \<longleftrightarrow> (\<forall>t \<in> set (unsettled db ctx). due_of db now offsets t = [])"
    unfolding dueMarks_def Let_def option.case length_0_conv [symmetric] length_sort
    by (auto simp: length_concat)
  then show ?thesis by (fastforce simp: deadlines_iff due_of_def filter_empty_conv)
qed

text \<open>The daemon's sleep never runs past a deadline: it is zero exactly when a mark is due, never longer than the
  tick, and never longer than the time to any missing horizon of an unsettled trajectory in scope.\<close>

theorem sleep_ends_before_a_deadline:
  assumes "0 < maxTick"
  shows "(nextWakeMs db now offsets maxTick ctx = 0 \<longleftrightarrow> dueMarks db now offsets None ctx \<noteq> []) \<and>
    0 \<le> nextWakeMs db now offsets maxTick ctx \<and> nextWakeMs db now offsets maxTick ctx \<le> maxTick \<and>
    (\<forall>t \<in> set (unsettled db ctx). \<forall>off \<in> set (missing_offsets db offsets t).
      now + nextWakeMs db now offsets maxTick ctx \<le> max now (tr_opened t + off))"
proof (cases "\<exists>d \<in> set (deadlines db offsets ctx). d \<le> now")
  case True
  then have "unsettled db ctx \<noteq> []" by (auto simp: deadlines_def)
  then have "nextWakeMs db now offsets maxTick ctx = 0" using True by (auto simp: nextWakeMs_def soonest_spec)
  then show ?thesis using True assms dueMarks_empty by fastforce
next
  case False
  then have none: "dueMarks db now offsets None ctx = []" using dueMarks_empty by fastforce
  show ?thesis
  proof (cases "deadlines db offsets ctx = []")
    case True
    then have "nextWakeMs db now offsets maxTick ctx = maxTick" by (simp add: nextWakeMs_def)
    moreover have "\<forall>t \<in> set (unsettled db ctx). missing_offsets db offsets t = []"
      using True by (auto simp: deadlines_def)
    ultimately show ?thesis using none assms by simp
  next
    case ne: False
    let ?m = "Min (set (deadlines db offsets ctx))"
    have "unsettled db ctx \<noteq> []" using ne by (auto simp: deadlines_def)
    then have wake: "nextWakeMs db now offsets maxTick ctx = max 0 (min maxTick (?m - now))"
      using ne False by (simp add: nextWakeMs_def soonest_spec)
    have "now < ?m" using ne False by (simp add: not_le)
    moreover have "?m \<le> tr_opened t + off"
      if "t \<in> set (unsettled db ctx)" "off \<in> set (missing_offsets db offsets t)" for t off
      using that deadlines_iff [of "tr_opened t + off" db offsets ctx] by (intro Min_le) auto
    moreover have "nextWakeMs db now offsets maxTick ctx = min maxTick (?m - now)"
      using \<open>now < ?m\<close> assms by (simp add: wake)
    ultimately show ?thesis using none assms by (fastforce simp: min_le_iff_disj)
  qed
qed

theorem sleep_ends_before_a_deadline_witness:
  "nextWakeMs demo_open 59000 MARK_OFFSETS_MS 3000 None \<le> 1000"
proof -
  have "demo_row \<in> set (unsettled demo_open None)" "60000 \<in> set (missing_offsets demo_open MARK_OFFSETS_MS demo_row)"
    by (simp_all add: unsettled_def demo_open_def empty_corpus_def demo_row_def in_context_def missing_offsets_def
        recordedOffsets_def MARK_OFFSETS_MS_def)
  then have "59000 + nextWakeMs demo_open 59000 MARK_OFFSETS_MS 3000 None \<le> max 59000 (tr_opened demo_row + 60000)"
    using sleep_ends_before_a_deadline [of 3000 demo_open 59000 MARK_OFFSETS_MS None] by simp
  then show ?thesis by (simp add: demo_row_def)
qed

text \<open>A path whose seven marks are all recorded and all unpriced, for instance of a pool that was drained within a
  minute, is never complete, so it stays open.\<close>

definition dead_path :: "MarkDb \<Rightarrow> TrajRow \<Rightarrow> bool" where
  "dead_path db t \<longleftrightarrow> (\<forall>off \<in> set MARK_OFFSETS_MS. off \<in> recordedOffsets db (tr_id t)) \<and>
     (\<forall>m \<in> set (marksFor db (tr_id t)). cm_executable m = None)"

lemma dead_work:
  assumes "dead_path db t"
  shows "work env t (db, k) = Inr (db, k)"
proof -
  have "due_now env db t = []" using assms by (auto simp: due_now_def dead_path_def filter_empty_conv)
  moreover have "\<not> fst (pathIsComplete (marksFor db (tr_id t)))"
    using assms by (auto simp: pathIsComplete_def dead_path_def list_all_iff)
  ultimately show ?thesis by (simp add: work_def settle_one_def Let_def)
qed

lemma dead_each: "\<forall>t \<in> set ts. dead_path db t \<Longrightarrow> each (work env) ts (db, k) = Inr (db, k)"
  by (induction ts) (simp_all add: dead_work)

lemma due_of_mem: "off \<in> set (missing_offsets db offsets t) \<Longrightarrow> tr_opened t + off \<le> now \<Longrightarrow>
    \<exists>x \<in> set (due_of db now offsets t). du_due x = tr_opened t + off"
  unfolding due_of_def set_map bex_simps set_filter by auto

text \<open>\<open>openTrajectories\<close> returns the hundred oldest open rows, \<open>oldest first so no path starves\<close>. Once those are dead
  paths, every later pass does nothing at all: a younger trajectory is never marked, its overdue horizon
  refuses every discovery, and the daemon's sleep is zero.\<close>

theorem dead_paths_starve_the_rest:
  assumes "\<forall>u \<in> set (openTrajectories db 100 (ev_context env)). dead_path db u"
    and "t \<in> set (unsettled db (ev_context env))" and "off \<in> set (missing_offsets db MARK_OFFSETS_MS t)"
    and "tr_opened t + off + sla < now" and "0 \<le> sla" and "0 < maxTick"
  shows "runMarkPass env db k = Inr (db, k) \<and>
    \<not> fst (discoveryAdmissible db now MARK_OFFSETS_MS sla (ev_context env)) \<and>
    nextWakeMs db now MARK_OFFSETS_MS maxTick (ev_context env) = 0"
proof -
  have "\<forall>u \<in> set (work_list env db). dead_path db u" using assms(1) by (auto simp: work_list_def Let_def)
  then have pass: "runMarkPass env db k = Inr (db, k)" by (simp add: runMarkPass_def dead_each)
  have d: "tr_opened t + off \<in> set (deadlines db MARK_OFFSETS_MS (ev_context env))"
    using assms(2,3) unfolding deadlines_iff by blast
  then have "unsettled db (ev_context env) \<noteq> []" by (auto simp: deadlines_def)
  then have wake: "nextWakeMs db now MARK_OFFSETS_MS maxTick (ev_context env) = 0"
    using d assms(4,5) by (auto simp: nextWakeMs_def soonest_spec intro!: bexI [OF _ d])
  obtain x where "x \<in> set (due_of db now MARK_OFFSETS_MS t)" "du_due x = tr_opened t + off"
    using due_of_mem [OF assms(3), of now] assms(4,5) by auto
  then have "x \<in> set (filter (\<lambda>d. now - du_due d > sla) (dueMarks db now MARK_OFFSETS_MS None (ev_context env)))"
    using assms(2,4) dueMarks_all by auto
  then have "filter (\<lambda>d. now - du_due d > sla) (dueMarks db now MARK_OFFSETS_MS None (ev_context env)) \<noteq> []"
    by (metis empty_iff empty_set)
  then show ?thesis using pass wake by (simp add: discoveryAdmissible_def Let_def)
qed


text \<open>A hundred dead paths opened at 0 and one younger trajectory.\<close>

definition dead_row :: "nat \<Rightarrow> TrajRow" where
  "dead_row n = demo_row\<lparr>tr_id := replicate n CHR ''d''\<rparr>"

definition dead_marks :: "nat \<Rightarrow> TrajMark list" where
  "dead_marks n = map (\<lambda>off. \<lparr>tm_traj = replicate n CHR ''d'', tm_mark = takeMark off 0 off (Inl ''pool drained''),
     tm_sla = Some (ON_TIME, off, 10000)\<rparr>) MARK_OFFSETS_MS"

definition young_row :: TrajRow where "young_row = demo_row\<lparr>tr_opened := 1\<rparr>"

definition dead_corpus :: "nat \<Rightarrow> MarkDb" where
  "dead_corpus n = \<lparr>trajs = map dead_row [0..<n] @ [young_row],
     marks = concat (map dead_marks [0..<n]), cfs = [], outcomes = []\<rparr>"

lemma dead_open: "openTrajectories (dead_corpus n) n None = map dead_row [0..<n]"
proof -
  have "\<forall>t \<in> set (trajs (dead_corpus n)). tr_state t = AWAITING \<and> in_context None t"
    by (auto simp: dead_corpus_def dead_row_def young_row_def demo_row_def in_context_def)
  then have "filter (\<lambda>t. tr_state t = AWAITING \<and> in_context None t) (trajs (dead_corpus n)) = trajs (dead_corpus n)"
    by (simp add: filter_id_conv)
  moreover have "map tr_opened (trajs (dead_corpus n)) = map (\<lambda>_. 0) [0..<n] @ [1]"
    by (simp add: dead_corpus_def dead_row_def young_row_def demo_row_def)
  moreover have "sorted (map (\<lambda>_. 0 :: int) [0..<n] @ [1])" by (simp add: sorted_append sorted_wrt_map)
  ultimately have "openTrajectories (dead_corpus n) n None = take n (trajs (dead_corpus n))"
    by (simp add: openTrajectories_def sort_key_id_if_sorted)
  then show ?thesis by (simp add: dead_corpus_def)
qed

lemma dead_mark_mem: "r \<in> set (marks (dead_corpus n)) \<longleftrightarrow> (\<exists>k < n. \<exists>off \<in> set MARK_OFFSETS_MS.
    r = \<lparr>tm_traj = replicate k CHR ''d'', tm_mark = takeMark off 0 off (Inl ''pool drained''),
          tm_sla = Some (ON_TIME, off, 10000)\<rparr>)"
  unfolding dead_corpus_def dead_marks_def by auto

lemma dead_take: "cm_executable (takeMark off 0 off (Inl e)) = None" "cm_offset (takeMark now a off ans) = off"
  by (simp_all add: takeMark_def Let_def split: sum.split)

lemma recordedI: "r \<in> set (marks db) \<Longrightarrow> tm_traj r = i \<Longrightarrow> cm_offset (tm_mark r) = off \<Longrightarrow> off \<in> recordedOffsets db i"
  by (auto simp: recordedOffsets_def)

lemma dead_marks_dead:
  assumes "k < n" shows "dead_path (dead_corpus n) (dead_row k)"
proof -
  have "off \<in> recordedOffsets (dead_corpus n) (tr_id (dead_row k))" if "off \<in> set MARK_OFFSETS_MS" for off
  proof -
    let ?r = "\<lparr>tm_traj = replicate k CHR ''d'', tm_mark = takeMark off 0 off (Inl ''pool drained''),
          tm_sla = Some (ON_TIME, off, 10000)\<rparr>"
    have "?r \<in> set (marks (dead_corpus n))" using that assms unfolding dead_mark_mem by blast
    moreover have "tm_traj ?r = tr_id (dead_row k)" "cm_offset (tm_mark ?r) = off"
      by (simp_all add: dead_row_def dead_take)
    ultimately show ?thesis by (rule recordedI)
  qed
  moreover have "\<forall>r \<in> set (marks (dead_corpus n)). cm_executable (tm_mark r) = None"
    unfolding Ball_def dead_mark_mem by (auto simp: dead_take)
  ultimately show ?thesis by (auto simp: dead_path_def marksFor_def)
qed

lemma young_missing: "60000 \<in> set (missing_offsets (dead_corpus n) MARK_OFFSETS_MS young_row)"
proof -
  have "replicate k CHR ''d'' \<noteq> ''t1''" for k by (cases k) simp_all
  then have "\<forall>r \<in> set (marks (dead_corpus n)). tm_traj r \<noteq> ''t1''" unfolding Ball_def dead_mark_mem by auto
  then show ?thesis by (auto simp: missing_offsets_def MARK_OFFSETS_MS_def recordedOffsets_def young_row_def demo_row_def)
qed

theorem dead_paths_starve_the_rest_witness:
  "runMarkPass (demo_env 1000000) (dead_corpus 100) 5 = Inr (dead_corpus 100, 5) \<and>
   nextWakeMs (dead_corpus 100) 1000000 MARK_OFFSETS_MS 3000 None = 0"
proof -
  have ctx: "ev_context (demo_env 1000000) = None" by (simp add: demo_env_def)
  have "\<forall>u \<in> set (openTrajectories (dead_corpus 100) 100 None). dead_path (dead_corpus 100) u"
    unfolding dead_open by (auto intro: dead_marks_dead simp del: upt_rec_numeral)
  moreover have "young_row \<in> set (unsettled (dead_corpus 100) None)"
    by (simp add: unsettled_def dead_corpus_def young_row_def demo_row_def in_context_def del: upt_rec_numeral)
  moreover have "tr_opened young_row + 60000 + 10000 < 1000000" by (simp add: young_row_def demo_row_def)
  ultimately show ?thesis
    using dead_paths_starve_the_rest [of "dead_corpus 100" "demo_env 1000000" young_row 60000 10000 1000000 3000 5,
        unfolded ctx, OF _ _ young_missing]
    by linarith
qed

text \<open>The mark and its counterfactual are two statements, and a recorded horizon is never taken again: when the process
  dies between them, no later history gives that mark a contract, and any policy that fills on it is
  settled without a price, although the comment in the pass says that every priced mark gets a row.\<close>

theorem crash_loses_counterfactual:
  assumes "history db db'" and "off \<in> recordedOffsets db i"
    and "\<forall>c \<in> set (cfs db). \<not> (cf_traj c = i \<and> cf_offset c = off)"
  shows "(\<forall>c \<in> set (cfs db'). \<not> (cf_traj c = i \<and> cf_offset c = off)) \<and>
    (\<forall>t pol. tr_id t = i \<longrightarrow> po_filledOffset (outcome_of db' t pol) = Some off \<longrightarrow>
      exitMarkLamports (outcome_of db' t pol) = None)"
proof -
  have step: "mark_write s s' \<Longrightarrow> off \<in> recordedOffsets (fst s) i \<and> snd s \<noteq> Some (i, off) \<and>
      (\<forall>c \<in> set (cfs (fst s)). \<not> (cf_traj c = i \<and> cf_offset c = off)) \<Longrightarrow>
    off \<in> recordedOffsets (fst s') i \<and> snd s' \<noteq> Some (i, off) \<and>
      (\<forall>c \<in> set (cfs (fst s')). \<not> (cf_traj c = i \<and> cf_offset c = off))" for s s'
  proof (induction rule: mark_write.induct)
    case (w_open t db db' p)
    then show ?case using insertTrajectory_Inr by (fastforce simp: recordedOffsets_def)
  next
    case (w_mark db t o' now m answer bound db' p)
    have "marks db' = marks db @ [\<lparr>tm_traj = tr_id t, tm_mark = m,
        tm_sla = Some (fst (classifyMark (tr_opened t + o') now bound), tr_opened t + o', bound)\<rparr>] \<and> cfs db' = cfs db"
      using w_mark insertMark_fresh [of m db "tr_id t"] by auto
    then show ?case using w_mark by (auto simp: recordedOffsets_def)
  next
    case (w_counterfactual db t r o' input db')
    then show ?case using insertCounterfactual_Inr by (fastforce simp: recordedOffsets_def)
  next
    case (w_outcome db t pol now db' p)
    then show ?case using insertOutcome_Inr by (fastforce simp: recordedOffsets_def)
  next
    case (w_close db j now db' p)
    then show ?case using closeTrajectory_Inr by (fastforce simp: recordedOffsets_def)
  qed simp
  have "mark_write\<^sup>*\<^sup>* s s' \<Longrightarrow> off \<in> recordedOffsets (fst s) i \<and> snd s \<noteq> Some (i, off) \<and>
      (\<forall>c \<in> set (cfs (fst s)). \<not> (cf_traj c = i \<and> cf_offset c = off)) \<Longrightarrow>
    off \<in> recordedOffsets (fst s') i \<and> snd s' \<noteq> Some (i, off) \<and>
      (\<forall>c \<in> set (cfs (fst s')). \<not> (cf_traj c = i \<and> cf_offset c = off))" for s s'
    by (induction rule: rtranclp_induct) (use step in blast)+
  from this [of "(db, None)" "(db', None)"]
  have none: "\<forall>c \<in> set (cfs db'). \<not> (cf_traj c = i \<and> cf_offset c = off)"
    using assms by (simp add: history_def)
  then have "js_get (counterfactualExits db' i) off = None"
    using exits_recorded [of db' i off] by (cases "js_get (counterfactualExits db' i) off") force+
  then show ?thesis using none by (auto simp: outcome_of_def evaluate_policy_def Let_def)
qed

lemma lone_mark: "60000 \<in> recordedOffsets (demo_open\<lparr>marks := [new_mark env demo_row 60000]\<rparr>) ''t1''"
  by (simp add: recordedOffsets_def new_mark_def demo_row_def taken_mark_def dead_take)

theorem crash_loses_counterfactual_witness:
  "\<forall>db'. history (demo_open\<lparr>marks := [new_mark (demo_env 60000) demo_row 60000]\<rparr>) db' \<longrightarrow>
    (\<forall>c \<in> set (cfs db'). \<not> (cf_traj c = ''t1'' \<and> cf_offset c = 60000))"
proof (intro allI impI)
  fix db' assume "history (demo_open\<lparr>marks := [new_mark (demo_env 60000) demo_row 60000]\<rparr>) db'"
  moreover have "cfs (demo_open\<lparr>marks := [new_mark (demo_env 60000) demo_row 60000]\<rparr>) = []"
    by (simp add: demo_open_def empty_corpus_def)
  ultimately show "\<forall>c \<in> set (cfs db'). \<not> (cf_traj c = ''t1'' \<and> cf_offset c = 60000)"
    using crash_loses_counterfactual [OF _ lone_mark] by (metis empty_iff empty_set)
qed

end
