(* ===== verification/RateLimit.thy ===== *)
theory RateLimit
  imports Prelude Doubles
begin

text \<open>
  Request budgets: the per-process token buckets with priorities of
  \<open>packages/adapters/src/ratelimit.ts\<close>, and the budget per endpoint that all processes share through one
  table of the database, with its local fallback, of \<open>endpoint-budget.ts\<close>. Tokens, rates and clock readings
  are doubles, every operation rounded by \<open>fl\<close>. A refill reads the clock once; the readings are arguments. Not
  modelled: the configuration file, statistics, jitter, and the digest in an endpoint's key.
\<close>

section \<open>One bucket\<close>

record Bucket =
  bk_rate :: rat
  bk_capacity :: int
  bk_tokens :: rat
  bk_lastRefill :: rat
  bk_granted :: nat
  bk_refused :: nat
  bk_waited :: rat

definition new_Bucket :: "rat \<Rightarrow> int \<Rightarrow> rat \<Rightarrow> Bucket" where
  "new_Bucket ratePerSecond capacity now = \<lparr>bk_rate = ratePerSecond, bk_capacity = capacity,
     bk_tokens = of_int capacity, bk_lastRefill = now, bk_granted = 0, bk_refused = 0, bk_waited = 0\<rparr>"

text \<open>The arithmetic of a refill, the same in the three buckets of the two files.\<close>

definition elapsed_s :: "rat \<Rightarrow> rat \<Rightarrow> rat" where
  "elapsed_s since now = fl (fl (now - since) / 1000)"

definition topped_up :: "rat \<Rightarrow> int \<Rightarrow> rat \<Rightarrow> rat \<Rightarrow> rat" where
  "topped_up rate capacity tokens elapsed = min (of_int capacity) (fl (tokens + fl (elapsed * rate)))"

definition refill :: "rat \<Rightarrow> Bucket \<Rightarrow> Bucket" where
  "refill now b = (if elapsed_s (bk_lastRefill b) now \<le> 0 then b
     else b\<lparr>bk_tokens := topped_up (bk_rate b) (bk_capacity b) (bk_tokens b) (elapsed_s (bk_lastRefill b) now),
            bk_lastRefill := now\<rparr>)"

text \<open>Milliseconds until enough tokens are there; \<open>None\<close> is the infinity of an empty bucket that never refills.\<close>

definition ms_short :: "rat \<Rightarrow> rat \<Rightarrow> int \<Rightarrow> int option" where
  "ms_short rate tokens required =
    (if rate \<le> 0 then None else Some \<lceil>fl (fl (fl (of_int required - tokens) / rate) * 1000)\<rceil>)"

definition msUntilAvailable :: "int \<Rightarrow> rat \<Rightarrow> Bucket \<Rightarrow> Bucket \<times> int option" where
  "msUntilAvailable required now b =
    (let b' = refill now b
     in (b', if of_int required \<le> bk_tokens b' then Some 0 else ms_short (bk_rate b') (bk_tokens b') required))"

definition tryTake :: "int \<Rightarrow> rat \<Rightarrow> Bucket \<Rightarrow> Bucket \<times> bool" where
  "tryTake required now b =
    (let b' = refill now b
     in if of_int required \<le> bk_tokens b'
        then (b'\<lparr>bk_tokens := fl (bk_tokens b' - 1), bk_granted := bk_granted b' + 1\<rparr>, True)
        else (b', False))"

section \<open>Priorities\<close>

datatype RequestPriority = emergency_exit | open_position | risk | discovery | enrichment

fun RESERVED_TOKENS :: "RequestPriority \<Rightarrow> int" where
  "RESERVED_TOKENS emergency_exit = 1"
| "RESERVED_TOKENS open_position = 2"
| "RESERVED_TOKENS risk = 2"
| "RESERVED_TOKENS discovery = 3"
| "RESERVED_TOKENS enrichment = 4"

type_synonym RateLimiter = "(string \<times> Bucket) list"

definition new_RateLimiter :: "(string \<times> rat \<times> int) list \<Rightarrow> rat \<Rightarrow> RateLimiter" where
  "new_RateLimiter definitions now =
    foldl (\<lambda>m (name, rps, burst). case js_get m name of Some _ \<Rightarrow> m
       | None \<Rightarrow> js_set name (new_Bucket rps burst now) m) [] definitions"

text \<open>\<open>need\<close> of the class: what a caller of a priority must find in the bucket.\<close>

definition needed :: "RequestPriority \<Rightarrow> Bucket \<Rightarrow> int" where
  "needed priority b = min (RESERVED_TOKENS priority) (bk_capacity b)"

definition take_or_count :: "RequestPriority \<Rightarrow> rat \<Rightarrow> Bucket \<Rightarrow> Bucket \<times> bool" where
  "take_or_count priority now b =
    (let (b', ok) = tryTake (needed priority b) now b
     in (if ok then b' else b'\<lparr>bk_refused := bk_refused b' + 1\<rparr>, ok))"

datatype limiter_error = unknown_bucket string | RateLimitRefused string int

definition tryAcquire :: "string \<Rightarrow> RequestPriority \<Rightarrow> rat \<Rightarrow> RateLimiter \<Rightarrow> limiter_error + RateLimiter \<times> bool" where
  "tryAcquire bucket priority now m =
    (case js_get m bucket of None \<Rightarrow> Inl (unknown_bucket bucket)
     | Some b \<Rightarrow> let (b', ok) = take_or_count priority now b in Inr (js_set bucket b' m, ok))"

text \<open>The waiting loop, over the readings of the clock: one for the take, one for the wait and one for the test
  of the deadline. \<open>Waiting\<close> is a loop whose readings have run out.\<close>

datatype acquire_result = Acquired Bucket | Refused Bucket int | Waiting Bucket

fun acquire_loop :: "int \<Rightarrow> rat \<Rightarrow> int \<Rightarrow> (rat \<times> rat \<times> rat) list \<Rightarrow> Bucket \<Rightarrow> acquire_result" where
  "acquire_loop required started maxWaitMs [] b = Waiting b"
| "acquire_loop required started maxWaitMs ((t1, t2, t3) # readings) b =
    (case tryTake required t1 b of
       (b1, True) \<Rightarrow> Acquired (b1\<lparr>bk_waited := fl (bk_waited b1 + fl (t2 - started))\<rparr>)
     | (b1, False) \<Rightarrow>
        (case msUntilAvailable required t2 b1 of
           (b2, None) \<Rightarrow> Refused (b2\<lparr>bk_refused := bk_refused b2 + 1\<rparr>) (- 1)
         | (b2, Some wait) \<Rightarrow>
            if fl (fl (t3 - started) + of_int wait) > of_int maxWaitMs
            then Refused (b2\<lparr>bk_refused := bk_refused b2 + 1\<rparr>) wait
            else acquire_loop required started maxWaitMs readings b2))"

definition acquire ::
    "string \<Rightarrow> int \<Rightarrow> RequestPriority \<Rightarrow> rat \<Rightarrow> (rat \<times> rat \<times> rat) list \<Rightarrow> RateLimiter \<Rightarrow>
     (limiter_error \<times> RateLimiter) + (RateLimiter \<times> bool)" where
  "acquire bucket maxWaitMs priority started readings m =
    (case js_get m bucket of None \<Rightarrow> Inl (unknown_bucket bucket, m)
     | Some b \<Rightarrow> (case acquire_loop (needed priority b) started maxWaitMs readings b of
         Acquired b' \<Rightarrow> Inr (js_set bucket b' m, True)
       | Waiting b' \<Rightarrow> Inr (js_set bucket b' m, False)
       | Refused b' wait \<Rightarrow> Inl (RateLimitRefused bucket wait, js_set bucket b' m)))"

section \<open>The budget of an endpoint\<close>

datatype MethodFamily = history_family | account_family | token_family | light_family

definition methodFamily :: "string \<Rightarrow> MethodFamily" where
  "methodFamily m =
    (if m \<in> {''getTransaction'', ''getSignaturesForAddress'', ''getBlock'', ''getBlockTime''} then history_family
     else if m \<in> {''getAccountInfo'', ''getMultipleAccounts'', ''getProgramAccounts''} then account_family
     else if m \<in> {''getTokenLargestAccounts'', ''getTokenSupply'', ''getTokenAccountsByOwner'', ''getTokenAccountBalance''}
     then token_family else light_family)"

record BudgetLimits =
  totalRatePerSecond :: rat
  totalBurst :: int
  family_limit :: "MethodFamily \<Rightarrow> rat \<times> int"

fun conservative_family :: "MethodFamily \<Rightarrow> rat \<times> int" where
  "conservative_family history_family = (8, 8)"
| "conservative_family account_family = (8, 10)"
| "conservative_family token_family = (8, 6)"
| "conservative_family light_family = (8, 10)"

definition CONSERVATIVE_LIMITS :: BudgetLimits where
  "CONSERVATIVE_LIMITS = \<lparr>totalRatePerSecond = 8, totalBurst = 16, family_limit = conservative_family\<rparr>"

text \<open>A row's key is the endpoint and the family, or the endpoint's total.\<close>

datatype budget_row_name = ENDPOINT_TOTAL_FAMILY | Family MethodFamily

type_synonym budget_table = "((string \<times> budget_row_name) \<times> Bucket) list"

definition load :: "string \<Rightarrow> budget_row_name \<Rightarrow> rat \<Rightarrow> int \<Rightarrow> rat \<Rightarrow> budget_table \<Rightarrow> Bucket" where
  "load endpoint row rate burst now table =
    (case js_get table (endpoint, row) of
       Some r \<Rightarrow> r\<lparr>bk_capacity := burst, bk_rate := rate\<rparr>
     | None \<Rightarrow> new_Bucket rate burst now)"

definition store :: "string \<Rightarrow> budget_row_name \<Rightarrow> Bucket \<Rightarrow> budget_table \<Rightarrow> budget_table" where
  "store endpoint row r table = js_set (endpoint, row) r table"

record LeaseResult =
  lr_granted :: bool
  lr_waitMs :: int
  lr_boundBy :: budget_row_name
  lr_degraded :: bool

definition finite_or_minus_one :: "int option \<Rightarrow> int" where
  "finite_or_minus_one w = nullish w (- 1)"

definition debit :: "Bucket \<Rightarrow> Bucket" where
  "debit r = r\<lparr>bk_tokens := fl (bk_tokens r - 1), bk_granted := bk_granted r + 1\<rparr>"

definition leaseShared :: "BudgetLimits \<Rightarrow> string \<Rightarrow> MethodFamily \<Rightarrow> rat \<Rightarrow> budget_table \<Rightarrow> budget_table \<times> LeaseResult" where
  "leaseShared limits endpoint family now table =
    (let total = refill now (load endpoint ENDPOINT_TOTAL_FAMILY (totalRatePerSecond limits) (totalBurst limits) now table);
         fam = refill now (load endpoint (Family family) (fst (family_limit limits family))
           (snd (family_limit limits family)) now table)
     in if bk_tokens total < 1 then
          (store endpoint (Family family) fam
             (store endpoint ENDPOINT_TOTAL_FAMILY (total\<lparr>bk_refused := bk_refused total + 1\<rparr>) table),
           \<lparr>lr_granted = False, lr_waitMs = finite_or_minus_one (ms_short (bk_rate total) (bk_tokens total) 1),
            lr_boundBy = ENDPOINT_TOTAL_FAMILY, lr_degraded = False\<rparr>)
        else if bk_tokens fam < 1 then
          (store endpoint (Family family) (fam\<lparr>bk_refused := bk_refused fam + 1\<rparr>)
             (store endpoint ENDPOINT_TOTAL_FAMILY total table),
           \<lparr>lr_granted = False, lr_waitMs = finite_or_minus_one (ms_short (bk_rate fam) (bk_tokens fam) 1),
            lr_boundBy = Family family, lr_degraded = False\<rparr>)
        else
          (store endpoint (Family family) (debit fam) (store endpoint ENDPOINT_TOTAL_FAMILY (debit total) table),
           \<lparr>lr_granted = True, lr_waitMs = 0, lr_boundBy = Family family, lr_degraded = False\<rparr>))"

text \<open>The fallback of a process whose database call failed.\<close>

definition DEGRADED_SHARE :: rat where
  "DEGRADED_SHARE = 1 / 4"

definition new_LocalBucket :: "rat \<times> int \<Rightarrow> rat \<Rightarrow> Bucket" where
  "new_LocalBucket spec now =
    new_Bucket (fl (fst spec * DEGRADED_SHARE)) (max 1 \<lfloor>fl (of_int (snd spec) * DEGRADED_SHARE)\<rfloor>) now"

type_synonym local_buckets = "((string \<times> MethodFamily) \<times> Bucket) list"

definition leaseLocal :: "BudgetLimits \<Rightarrow> string \<Rightarrow> MethodFamily \<Rightarrow> rat \<Rightarrow> rat \<Rightarrow> local_buckets \<Rightarrow> local_buckets \<times> LeaseResult" where
  "leaseLocal limits endpoint family made now locals =
    (let b = (case js_get locals (endpoint, family) of Some b \<Rightarrow> b
                | None \<Rightarrow> new_LocalBucket (family_limit limits family) made);
         (b', ok) = tryTake 1 now b
     in (js_set (endpoint, family) b' locals,
         \<lparr>lr_granted = ok, lr_waitMs = (if ok then 0 else finite_or_minus_one (ms_short (bk_rate b') (bk_tokens b') 1)),
          lr_boundBy = Family family, lr_degraded = True\<rparr>))"

text \<open>One lease of a process: against the table, or, when a statement throws, against its own buckets.\<close>

definition lease ::
    "BudgetLimits \<Rightarrow> string \<Rightarrow> string \<Rightarrow> bool \<Rightarrow> rat \<Rightarrow> budget_table \<times> local_buckets \<Rightarrow> (budget_table \<times> local_buckets) \<times> LeaseResult" where
  "lease limits endpoint m reachable now = (\<lambda>(table, locals).
    if reachable then (let (table', r) = leaseShared limits endpoint (methodFamily m) now table in ((table', locals), r))
    else (let (locals', r) = leaseLocal limits endpoint (methodFamily m) now now locals in ((table, locals'), r)))"

section \<open>Budgets as potentials\<close>

text \<open>A source of tokens: a step at a clock reading either grants or does not, and what it grants is paid by the level or
  by the time that the clock of the bucket moved, up to the rounding of one step.\<close>

fun runs :: "('b \<Rightarrow> rat \<Rightarrow> bool \<Rightarrow> 'b \<Rightarrow> bool) \<Rightarrow> 'b \<Rightarrow> (rat \<times> bool) list \<Rightarrow> 'b \<Rightarrow> bool" where
  "runs step b [] b' \<longleftrightarrow> b' = b"
| "runs step b ((now, granted) # es) b' \<longleftrightarrow> (\<exists>c. step b now granted c \<and> runs step c es b')"

abbreviation grants :: "(rat \<times> bool) list \<Rightarrow> nat" where
  "grants es \<equiv> length (filter snd es)"

locale token_source =
  fixes step :: "'b \<Rightarrow> rat \<Rightarrow> bool \<Rightarrow> 'b \<Rightarrow> bool" and level clock :: "'b \<Rightarrow> rat" and ok :: "'b \<Rightarrow> bool"
    and rate slack :: rat
  assumes ok_step: "step b now g b' \<Longrightarrow> ok b \<Longrightarrow> ok b'"
    and level_nonneg: "ok b \<Longrightarrow> 0 \<le> level b"
    and pays: "step b now g b' \<Longrightarrow> ok b \<Longrightarrow>
      level b' + of_bool g \<le> level b + rate * (clock b' - clock b) + slack"
    and clock_step: "step b now g b' \<Longrightarrow> ok b \<Longrightarrow> clock b' = clock b \<or> clock b' = now"
    and rate_nonneg: "ok b \<Longrightarrow> 0 \<le> rate"
begin

lemma runs_pay: "runs step b es b' \<Longrightarrow> ok b \<Longrightarrow>
    ok b' \<and> level b' + of_nat (grants es) \<le> level b + rate * (clock b' - clock b) + of_nat (length es) * slack"
proof (induction es arbitrary: b)
  case (Cons e es)
  obtain now g c where e: "e = (now, g)" "step b now g c" "runs step c es b'" using Cons.prems(1) by (cases e) auto
  have "ok b'" "level b' + of_nat (grants es) \<le> level c + rate * (clock b' - clock c) + of_nat (length es) * slack"
    using Cons.IH [OF e(3) ok_step [OF e(2) Cons.prems(2)]] by auto
  moreover have "level c + of_bool g \<le> level b + rate * (clock c - clock b) + slack" using pays [OF e(2) Cons.prems(2)] .
  ultimately show ?case by (cases g) (simp_all add: e(1) algebra_simps)
qed simp

lemma runs_clock: "runs step b es b' \<Longrightarrow> ok b \<Longrightarrow> clock b \<le> t \<Longrightarrow> \<forall>e \<in> set es. fst e \<le> t \<Longrightarrow> clock b' \<le> t"
proof (induction es arbitrary: b)
  case (Cons e es)
  obtain now g c where e: "e = (now, g)" "step b now g c" "runs step c es b'" using Cons.prems(1) by (cases e) auto
  have "clock c \<le> t" using clock_step [OF e(2) Cons.prems(2)] Cons.prems(3,4) e(1) by auto
  then show ?case using Cons.IH [OF e(3) ok_step [OF e(2) Cons.prems(2)]] Cons.prems(4) by simp
qed simp

text \<open>What a run grants is at most what was there, what the time up to the latest reading pays, and the roundings.\<close>

lemma grants_bounded:
  assumes "runs step b es b'" and "ok b" and "clock b \<le> t" and "\<forall>e \<in> set es. fst e \<le> t"
  shows "of_nat (grants es) \<le> level b + rate * (t - clock b) + of_nat (length es) * slack"
proof -
  have "rate * (clock b' - clock b) \<le> rate * (t - clock b)"
    using runs_clock [OF assms] rate_nonneg [OF assms(2)] by (simp add: mult_left_mono)
  then show ?thesis using runs_pay [OF assms(1,2)] level_nonneg [of b'] by linarith
qed

end

text \<open>The arithmetic of one step. \<open>per_ms\<close> is the rate in tokens per millisecond with the roundings of three
  operations; \<open>step_slack\<close> bounds the rounding of the new level, once for the refill and once for the debit.\<close>

definition per_ms :: "rat \<Rightarrow> rat" where
  "per_ms rate = rate / 1000 * (1 + 1 / 2 ^ 53) ^ 3"

definition step_slack :: "int \<Rightarrow> rat" where
  "step_slack capacity = 2 * of_int capacity / 2 ^ 53"

lemma per_ms_nonneg: "0 \<le> rate \<Longrightarrow> 0 \<le> per_ms rate"
  by (simp add: per_ms_def)

lemma fl_le_factor: "0 \<le> x \<Longrightarrow> fl x \<le> x * (1 + 1 / 2 ^ 53)"
  using fl_le [of x] by (simp add: algebra_simps)

lemma elapsed_pos: "0 < elapsed_s since now \<Longrightarrow> since < now"
proof (rule ccontr)
  assume "0 < elapsed_s since now" "\<not> since < now"
  then have "fl (fl (now - since) / 1000) \<le> fl 0"
    using fl_mono [of "now - since" 0] by (intro fl_mono) (simp add: divide_nonpos_pos)
  then show False using \<open>0 < elapsed_s since now\<close> by (simp add: elapsed_s_def)
qed

lemma elapsed_le: "0 \<le> now - since \<Longrightarrow> elapsed_s since now \<le> (now - since) / 1000 * (1 + 1 / 2 ^ 53) ^ 2"
proof -
  assume d: "0 \<le> now - since"
  have "fl (now - since) / 1000 \<le> (now - since) / 1000 * (1 + 1 / 2 ^ 53)" using fl_le_factor [OF d] by simp
  then have "fl (now - since) / 1000 * (1 + 1 / 2 ^ 53) \<le> (now - since) / 1000 * (1 + 1 / 2 ^ 53) * (1 + 1 / 2 ^ 53)"
    by (rule mult_right_mono) simp
  moreover have "elapsed_s since now \<le> fl (now - since) / 1000 * (1 + 1 / 2 ^ 53)"
    unfolding elapsed_s_def by (rule fl_le_factor) (simp add: fl_nonneg [OF d])
  ultimately show ?thesis by (simp add: power2_eq_square mult.assoc)
qed

lemma minted_le:
  assumes "0 < elapsed_s since now" and "0 \<le> rate"
  shows "fl (elapsed_s since now * rate) \<le> per_ms rate * (now - since)" and "0 \<le> fl (elapsed_s since now * rate)"
proof -
  have d: "0 \<le> now - since" using elapsed_pos [OF assms(1)] by simp
  have pos: "0 \<le> elapsed_s since now * rate" using assms by simp
  show "0 \<le> fl (elapsed_s since now * rate)" by (rule fl_nonneg [OF pos])
  have "elapsed_s since now * rate \<le> (now - since) / 1000 * (1 + 1 / 2 ^ 53) ^ 2 * rate"
    using elapsed_le [OF d] assms(2) by (rule mult_right_mono)
  then have "elapsed_s since now * rate * (1 + 1 / 2 ^ 53) \<le>
      (now - since) / 1000 * (1 + 1 / 2 ^ 53) ^ 2 * rate * (1 + 1 / 2 ^ 53)"
    by (rule mult_right_mono) simp
  also have "\<dots> = per_ms rate * (now - since)" by (simp add: per_ms_def power3_eq_cube power2_eq_square)
  finally show "fl (elapsed_s since now * rate) \<le> per_ms rate * (now - since)"
    using fl_le_factor [OF pos] by simp
qed

lemma capped_fl:
  assumes "0 \<le> x" and "0 \<le> c"
  shows "min c (fl x) \<le> x + c / 2 ^ 53"
proof (cases "x \<le> c")
  case True
  then have "x / 2 ^ 53 \<le> c / 2 ^ 53" by (simp add: divide_right_mono)
  then show ?thesis using fl_le [OF assms(1)] by linarith
next
  case False
  moreover have "0 \<le> c / 2 ^ 53" using assms(2) by simp
  ultimately show ?thesis by linarith
qed

text \<open>A bucket of a given rate and capacity whose level is between zero and full.\<close>

definition bucket_ok :: "rat \<Rightarrow> int \<Rightarrow> Bucket \<Rightarrow> bool" where
  "bucket_ok rate capacity b \<longleftrightarrow> 0 \<le> rate \<and> 1 \<le> capacity \<and> capacity < 2 ^ 53 \<and> bk_rate b = rate \<and>
     bk_capacity b = capacity \<and> 0 \<le> bk_tokens b \<and> bk_tokens b \<le> of_int capacity"

lemma new_Bucket_ok: "0 \<le> rate \<Longrightarrow> 1 \<le> capacity \<Longrightarrow> capacity < 2 ^ 53 \<Longrightarrow> bucket_ok rate capacity (new_Bucket rate capacity now)"
  by (simp add: bucket_ok_def new_Bucket_def)

lemma fl_capacity: "bucket_ok rate capacity b \<Longrightarrow> fl (of_int capacity) = of_int capacity"
  by (simp add: bucket_ok_def fl_int)

lemma refill_ok:
  assumes "bucket_ok rate capacity b"
  shows "bucket_ok rate capacity (refill now b)"
    and "bk_tokens (refill now b) \<le> bk_tokens b + per_ms rate * (bk_lastRefill (refill now b) - bk_lastRefill b) + of_int capacity / 2 ^ 53"
    and "bk_lastRefill (refill now b) = bk_lastRefill b \<or> bk_lastRefill (refill now b) = now"
    and "bk_lastRefill b \<le> bk_lastRefill (refill now b)"
proof -
  have b: "0 \<le> rate" "bk_rate b = rate" "bk_capacity b = capacity" "0 \<le> bk_tokens b" "bk_tokens b \<le> of_int capacity" "1 \<le> capacity"
    using assms by (auto simp: bucket_ok_def)
  show "bk_lastRefill (refill now b) = bk_lastRefill b \<or> bk_lastRefill (refill now b) = now" by (simp add: refill_def)
  show "bk_lastRefill b \<le> bk_lastRefill (refill now b)"
    using elapsed_pos [of "bk_lastRefill b" now] by (auto simp: refill_def)
  let ?i = "fl (elapsed_s (bk_lastRefill b) now * rate)"
  have full: "bk_tokens (refill now b) = topped_up rate capacity (bk_tokens b) (elapsed_s (bk_lastRefill b) now)"
    "bk_lastRefill (refill now b) = now" if "0 < elapsed_s (bk_lastRefill b) now"
    using that b by (simp_all add: refill_def)
  have "0 \<le> topped_up rate capacity (bk_tokens b) (elapsed_s (bk_lastRefill b) now)"
    if "0 < elapsed_s (bk_lastRefill b) now"
    using minted_le(2) [OF that b(1)] b by (auto simp: topped_up_def intro: fl_nonneg)
  then show "bucket_ok rate capacity (refill now b)"
    using assms by (auto simp: bucket_ok_def refill_def topped_up_def)
  show "bk_tokens (refill now b) \<le> bk_tokens b + per_ms rate * (bk_lastRefill (refill now b) - bk_lastRefill b) + of_int capacity / 2 ^ 53"
  proof (cases "0 < elapsed_s (bk_lastRefill b) now")
    case True
    have "0 \<le> bk_tokens b + ?i" using minted_le(2) [OF True b(1)] b by simp
    then have "topped_up rate capacity (bk_tokens b) (elapsed_s (bk_lastRefill b) now) \<le> bk_tokens b + ?i + of_int capacity / 2 ^ 53"
      unfolding topped_up_def using b(6) by (intro capped_fl) auto
    then show ?thesis unfolding full [OF True] using minted_le(1) [OF True b(1)] by linarith
  next
    case False
    then show ?thesis using b by (simp add: refill_def)
  qed
qed

lemma refill_backward: "now \<le> bk_lastRefill b \<Longrightarrow> refill now b = b"
  using elapsed_pos [of "bk_lastRefill b" now] by (auto simp: refill_def)

lemma debit_level:
  assumes "bucket_ok rate capacity b" and "1 \<le> bk_tokens b"
  shows "0 \<le> fl (bk_tokens b - 1)" and "fl (bk_tokens b - 1) \<le> of_int capacity"
    and "fl (bk_tokens b - 1) + 1 \<le> bk_tokens b + of_int capacity / 2 ^ 53"
proof -
  show "0 \<le> fl (bk_tokens b - 1)" using assms(2) by (intro fl_nonneg) simp
  show "fl (bk_tokens b - 1) \<le> of_int capacity"
    using fl_mono [of "bk_tokens b - 1" "of_int capacity"] fl_capacity [OF assms(1)] assms(1) by (simp add: bucket_ok_def)
  have "(bk_tokens b - 1) / 2 ^ 53 \<le> of_int capacity / 2 ^ 53" using assms(1) by (intro divide_right_mono) (auto simp: bucket_ok_def)
  then show "fl (bk_tokens b - 1) + 1 \<le> bk_tokens b + of_int capacity / 2 ^ 53"
    using fl_le [of "bk_tokens b - 1"] assms(2) by linarith
qed

lemma step_pays:
  assumes "bucket_ok rate capacity b"
  shows "bk_tokens (refill now b) \<le> bk_tokens b + per_ms rate * (bk_lastRefill (refill now b) - bk_lastRefill b) + step_slack capacity"
    and "1 \<le> bk_tokens (refill now b) \<Longrightarrow> fl (bk_tokens (refill now b) - 1) + 1 \<le>
      bk_tokens b + per_ms rate * (bk_lastRefill (refill now b) - bk_lastRefill b) + step_slack capacity"
proof -
  have "0 \<le> (of_int capacity :: rat) / 2 ^ 53" using assms by (simp add: bucket_ok_def)
  moreover have "step_slack capacity = of_int capacity / 2 ^ 53 + of_int capacity / 2 ^ 53" by (simp add: step_slack_def)
  ultimately show "bk_tokens (refill now b) \<le> bk_tokens b + per_ms rate * (bk_lastRefill (refill now b) - bk_lastRefill b) + step_slack capacity"
    using refill_ok(2) [OF assms, of now] by linarith
  assume "1 \<le> bk_tokens (refill now b)"
  from debit_level(3) [OF refill_ok(1) [OF assms] this] refill_ok(2) [OF assms, of now] \<open>step_slack capacity = _\<close>
  show "fl (bk_tokens (refill now b) - 1) + 1 \<le>
      bk_tokens b + per_ms rate * (bk_lastRefill (refill now b) - bk_lastRefill b) + step_slack capacity" by linarith
qed

section \<open>The buckets of one process\<close>

definition take_step :: "Bucket \<Rightarrow> rat \<Rightarrow> bool \<Rightarrow> Bucket \<Rightarrow> bool" where
  "take_step b now granted b' \<longleftrightarrow> (\<exists>priority. take_or_count priority now b = (b', granted)) \<or> tryTake 1 now b = (b', granted)"

lemma needed_pos: "bucket_ok rate capacity b \<Longrightarrow> 1 \<le> needed priority b"
  by (cases priority) (simp_all add: needed_def bucket_ok_def)

lemma tryTake_cases:
  assumes "tryTake required now b = (b', g)" and "1 \<le> required" and "bucket_ok rate capacity b"
  shows "(g \<and> 1 \<le> bk_tokens (refill now b) \<and> bk_tokens b' = fl (bk_tokens (refill now b) - 1) \<and>
      bk_lastRefill b' = bk_lastRefill (refill now b) \<and> bk_rate b' = bk_rate b \<and> bk_capacity b' = bk_capacity b) \<or>
    (\<not> g \<and> b' = refill now b)"
  using assms(1,2) refill_ok(1) [OF assms(3), of now] assms(3)
  by (auto simp: tryTake_def bucket_ok_def Let_def split: if_splits)

lemma take_step_cases:
  assumes "take_step b now g b'" and "bucket_ok rate capacity b"
  shows "bucket_ok rate capacity b'"
    and "bk_tokens b' = (if g then fl (bk_tokens (refill now b) - 1) else bk_tokens (refill now b))"
    and "bk_lastRefill b' = bk_lastRefill (refill now b)"
    and "g \<Longrightarrow> 1 \<le> bk_tokens (refill now b)"
proof -
  obtain required c where c: "tryTake required now b = (c, g)" "1 \<le> required"
      "b' = c \<or> b' = c\<lparr>bk_refused := bk_refused c + 1\<rparr>"
    using assms(1)
  proof (cases "tryTake 1 now b = (b', g)")
    case False
    then obtain priority where "take_or_count priority now b = (b', g)" using assms(1) by (auto simp: take_step_def)
    then show thesis using that [of "needed priority b"] needed_pos [OF assms(2)]
      by (cases "tryTake (needed priority b) now b") (auto simp: take_or_count_def split: if_splits)
  qed (use that [of 1] in simp)
  note cases = tryTake_cases [OF c(1,2) assms(2)]
  show "bk_tokens b' = (if g then fl (bk_tokens (refill now b) - 1) else bk_tokens (refill now b))"
    "bk_lastRefill b' = bk_lastRefill (refill now b)" "g \<Longrightarrow> 1 \<le> bk_tokens (refill now b)"
    using cases c(3) by auto
  have "bucket_ok rate capacity c"
    using cases refill_ok(1) [OF assms(2), of now] debit_level(1,2) [OF refill_ok(1) [OF assms(2), of now]] assms(2)
    by (auto simp: bucket_ok_def)
  then show "bucket_ok rate capacity b'" using c(3) by (auto simp: bucket_ok_def)
qed

interpretation process: token_source take_step bk_tokens bk_lastRefill "bucket_ok rate capacity" "per_ms rate"
  "step_slack capacity" for rate capacity
proof
  fix b now g b' assume step: "take_step b now g b'" "bucket_ok rate capacity b"
  note c = take_step_cases [OF step]
  show "bucket_ok rate capacity b'" by (rule c)
  show "bk_lastRefill b' = bk_lastRefill b \<or> bk_lastRefill b' = now" using c(3) refill_ok(3) [OF step(2)] by simp
  show "bk_tokens b' + of_bool g \<le> bk_tokens b + per_ms rate * (bk_lastRefill b' - bk_lastRefill b) + step_slack capacity"
    using c(2-4) step_pays [OF step(2), of now] by (cases g) simp_all
qed (simp_all add: bucket_ok_def per_ms_nonneg)

section \<open>The shared row of an endpoint\<close>

definition total_row :: "string \<Rightarrow> budget_table \<Rightarrow> Bucket" where
  "total_row endpoint table = the (js_get table (endpoint, ENDPOINT_TOTAL_FAMILY))"

definition lease_step :: "BudgetLimits \<Rightarrow> string \<Rightarrow> budget_table \<Rightarrow> rat \<Rightarrow> bool \<Rightarrow> budget_table \<Rightarrow> bool" where
  "lease_step limits endpoint table now granted table' \<longleftrightarrow> (\<exists>e family r. leaseShared limits e family now table = (table', r) \<and>
     granted = (e = endpoint \<and> lr_granted r))"

definition row_ok :: "BudgetLimits \<Rightarrow> string \<Rightarrow> budget_table \<Rightarrow> bool" where
  "row_ok limits endpoint table \<longleftrightarrow> js_get table (endpoint, ENDPOINT_TOTAL_FAMILY) \<noteq> None \<and>
     bucket_ok (totalRatePerSecond limits) (totalBurst limits) (total_row endpoint table)"

lemma load_total: "row_ok limits endpoint table \<Longrightarrow>
    load endpoint ENDPOINT_TOTAL_FAMILY (totalRatePerSecond limits) (totalBurst limits) now table = total_row endpoint table"
  by (auto simp: row_ok_def load_def total_row_def bucket_ok_def)

definition loaded_total :: "BudgetLimits \<Rightarrow> string \<Rightarrow> rat \<Rightarrow> budget_table \<Rightarrow> Bucket" where
  "loaded_total limits endpoint now table =
    refill now (load endpoint ENDPOINT_TOTAL_FAMILY (totalRatePerSecond limits) (totalBurst limits) now table)"

lemma lease_other: "leaseShared limits e family now table = (table', r) \<Longrightarrow> e \<noteq> endpoint \<Longrightarrow>
    js_get table' (endpoint, row) = js_get table (endpoint, row)"
  by (auto simp: leaseShared_def store_def Let_def split: if_splits)

lemma lease_total:
  assumes "leaseShared limits e family now table = (table', r)"
  shows "js_get table' (e, ENDPOINT_TOTAL_FAMILY) \<noteq> None"
    and "bk_tokens (total_row e table') =
      (if lr_granted r then fl (bk_tokens (loaded_total limits e now table) - 1) else bk_tokens (loaded_total limits e now table))"
    and "bk_lastRefill (total_row e table') = bk_lastRefill (loaded_total limits e now table)"
    and "bk_rate (total_row e table') = bk_rate (loaded_total limits e now table)"
    and "bk_capacity (total_row e table') = bk_capacity (loaded_total limits e now table)"
    and "lr_granted r \<Longrightarrow> 1 \<le> bk_tokens (loaded_total limits e now table)"
  using assms unfolding leaseShared_def Let_def loaded_total_def [symmetric]
  by (auto simp: store_def total_row_def debit_def split: if_splits)

lemma lease_step_cases:
  assumes "lease_step limits endpoint table now g table'" and "row_ok limits endpoint table"
  shows "row_ok limits endpoint table' \<and>
    (total_row endpoint table' = total_row endpoint table \<and> \<not> g \<or>
     bk_tokens (total_row endpoint table') = (if g then fl (bk_tokens (refill now (total_row endpoint table)) - 1)
       else bk_tokens (refill now (total_row endpoint table))) \<and>
     bk_lastRefill (total_row endpoint table') = bk_lastRefill (refill now (total_row endpoint table)) \<and>
     (g \<longrightarrow> 1 \<le> bk_tokens (refill now (total_row endpoint table))))"
proof -
  obtain e family r where l: "leaseShared limits e family now table = (table', r)" "g = (e = endpoint \<and> lr_granted r)"
    using assms(1) by (auto simp: lease_step_def)
  show ?thesis
  proof (cases "e = endpoint")
    case False
    then have "js_get table' (endpoint, ENDPOINT_TOTAL_FAMILY) = js_get table (endpoint, ENDPOINT_TOTAL_FAMILY)"
      using lease_other [OF l(1)] by simp
    then show ?thesis using assms(2) l(2) False by (simp add: row_ok_def total_row_def)
  next
    case True
    have loaded: "loaded_total limits endpoint now table = refill now (total_row endpoint table)"
      using load_total [OF assms(2)] by (simp add: loaded_total_def)
    note t = lease_total [OF l(1), unfolded True loaded]
    have ok: "bucket_ok (totalRatePerSecond limits) (totalBurst limits) (refill now (total_row endpoint table))"
      using assms(2) refill_ok(1) by (auto simp: row_ok_def)
    then have "row_ok limits endpoint table'"
      using t debit_level(1,2) [OF ok] by (auto simp: row_ok_def bucket_ok_def)
    then show ?thesis using t l(2) True by simp
  qed
qed

interpretation shared: token_source "lease_step limits endpoint" "\<lambda>t. bk_tokens (total_row endpoint t)"
  "\<lambda>t. bk_lastRefill (total_row endpoint t)" "row_ok limits endpoint" "per_ms (totalRatePerSecond limits)"
  "step_slack (totalBurst limits)" for limits endpoint
proof
  fix b now g b' assume step: "lease_step limits endpoint b now g b'" "row_ok limits endpoint b"
  note c = lease_step_cases [OF step]
  have ok: "bucket_ok (totalRatePerSecond limits) (totalBurst limits) (total_row endpoint b)"
    using step(2) by (simp add: row_ok_def)
  have "0 \<le> step_slack (totalBurst limits)" using ok by (simp add: step_slack_def bucket_ok_def)
  then show "bk_tokens (total_row endpoint b') + of_bool g \<le> bk_tokens (total_row endpoint b) +
      per_ms (totalRatePerSecond limits) * (bk_lastRefill (total_row endpoint b') - bk_lastRefill (total_row endpoint b)) +
      step_slack (totalBurst limits)"
    using c step_pays [OF ok, of now] by (cases g) auto
  show "row_ok limits endpoint b'" using c by simp
  show "bk_lastRefill (total_row endpoint b') = bk_lastRefill (total_row endpoint b) \<or> bk_lastRefill (total_row endpoint b') = now"
    using c refill_ok(3) [OF ok, of now] by auto
qed (auto simp: row_ok_def bucket_ok_def per_ms_nonneg)

section \<open>Properties\<close>

text \<open>The leases of any number of processes, in the order their transactions commit.\<close>

fun shared_leases :: "BudgetLimits \<Rightarrow> (string \<times> MethodFamily \<times> rat) list \<Rightarrow> budget_table \<Rightarrow> budget_table \<times> (string \<times> rat \<times> bool) list" where
  "shared_leases limits [] table = (table, [])"
| "shared_leases limits ((e, family, now) # calls) table =
    (let (table1, r) = leaseShared limits e family now table;
         (table2, results) = shared_leases limits calls table1
     in (table2, (e, now, lr_granted r) # results))"

definition granted_to :: "string \<Rightarrow> (string \<times> rat \<times> bool) list \<Rightarrow> nat" where
  "granted_to endpoint results = length (filter (\<lambda>(e, now, g). e = endpoint \<and> g) results)"

lemma leases_run: "runs (lease_step limits endpoint) table
    (map (\<lambda>(e, now, g). (now, e = endpoint \<and> g)) (snd (shared_leases limits calls table))) (fst (shared_leases limits calls table))"
proof (induction limits calls table rule: shared_leases.induct)
  case (2 limits e family now calls table)
  obtain table1 r where l: "leaseShared limits e family now table = (table1, r)" by fastforce
  then have "lease_step limits endpoint table now (e = endpoint \<and> lr_granted r) table1" by (auto simp: lease_step_def)
  then show ?case using 2 [OF l [symmetric] refl] l by (auto split: prod.split)
qed simp

lemma granted_to_grants: "granted_to endpoint results = grants (map (\<lambda>(e, now, g). (now, e = endpoint \<and> g)) results)"
  by (induction results) (auto simp: granted_to_def)

lemma leases_times: "map (\<lambda>(e, now, g). (e, now)) (snd (shared_leases limits calls table)) = map (\<lambda>(e, family, now). (e, now)) calls"
proof (induction calls arbitrary: table)
  case (Cons c calls)
  obtain e family now where c: "c = (e, family, now)" by (cases c)
  obtain table1 r where l: "leaseShared limits e family now table = (table1, r)" by fastforce
  obtain table2 results where "shared_leases limits calls table1 = (table2, results)" by fastforce
  then show ?case using Cons.IH [of table1] by (simp add: c l)
qed simp

lemma leases_length [simp]: "length (snd (shared_leases limits calls table)) = length calls"
  using leases_times [of limits calls table] by (metis length_map)

text \<open>A lease of an endpoint that has no row yet is a lease against a full row stamped with its clock.\<close>

lemma js_set_twice: "js_set k v (js_set k w m) = js_set k v m"
  by (induction k w m rule: js_set.induct) auto

lemma js_set_swap: "k \<noteq> k' \<Longrightarrow> js_get m k' \<noteq> None \<Longrightarrow> js_set k v (js_set k' w m) = js_set k' w (js_set k v m)"
  by (induction k v m rule: js_set.induct) (auto simp: js_get_def)

lemma first_lease:
  assumes "js_get table (endpoint, ENDPOINT_TOTAL_FAMILY) = None"
  shows "leaseShared limits endpoint family now table = leaseShared limits endpoint family now
    (store endpoint ENDPOINT_TOTAL_FAMILY (new_Bucket (totalRatePerSecond limits) (totalBurst limits) now) table)"
  using assms by (simp add: leaseShared_def load_def store_def js_set_twice new_Bucket_def Let_def split: option.split)

lemma leases_latest:
  assumes "\<forall>(e, family, t) \<in> set calls. t \<le> t1"
  shows "\<forall>x \<in> set (map (\<lambda>(e, now, g). (now, e = endpoint \<and> g)) (snd (shared_leases limits calls table))). fst x \<le> t1"
proof -
  have "(e, now) \<in> set (map (\<lambda>(e, family, now). (e, now)) calls)"
    if "(e, now, g) \<in> set (snd (shared_leases limits calls table))" for e now g
    using that unfolding leases_times [of limits calls table, symmetric] by force
  then show ?thesis using assms by fastforce
qed

lemma budget_from_row:
  assumes "row_ok limits endpoint table" and "bk_lastRefill (total_row endpoint table) \<le> t1"
    and "\<forall>(e, family, t) \<in> set calls. t \<le> t1"
  shows "of_nat (granted_to endpoint (snd (shared_leases limits calls table))) \<le>
    bk_tokens (total_row endpoint table) +
    per_ms (totalRatePerSecond limits) * (t1 - bk_lastRefill (total_row endpoint table)) +
    of_nat (length calls) * step_slack (totalBurst limits)"
  using shared.grants_bounded [OF leases_run assms(1,2) leases_latest [OF assms(3)]]
  by (simp add: granted_to_grants)

text \<open>C18: The budget of an endpoint binds all processes together: whatever they call, in whatever order their
  transactions commit, the leases the table grants for one endpoint between two clock readings are at most the
  burst and the tokens of that time, up to a rounding of one part in \<open>2 ^ 52\<close> of the burst per call.
  The readings need not be ordered: a clock that steps back and forth gains nothing.\<close>

theorem endpoint_budget_holds:
  assumes "0 \<le> totalRatePerSecond limits" and "1 \<le> totalBurst limits" and "totalBurst limits < 2 ^ 53"
    and "js_get table (endpoint, ENDPOINT_TOTAL_FAMILY) = None" and "\<forall>(e, family, t) \<in> set calls. t0 \<le> t \<and> t \<le> t1"
    and "t0 \<le> t1"
  shows "of_nat (granted_to endpoint (snd (shared_leases limits calls table))) \<le>
    of_int (totalBurst limits) + totalRatePerSecond limits / 1000 * (1 + 1 / 2 ^ 53) ^ 3 * (t1 - t0) +
    of_nat (length calls) * (2 * of_int (totalBurst limits) / 2 ^ 53)"
  using assms(4,5)
proof (induction calls arbitrary: table)
  case Nil
  have "0 \<le> totalRatePerSecond limits / 1000 * (1 + 1 / 2 ^ 53) ^ 3 * (t1 - t0)" using assms(1,6) by simp
  then show ?case using assms(2) by (simp add: granted_to_def)
next
  case (Cons c calls)
  obtain e family now where c: "c = (e, family, now)" by (cases c)
  let ?slack = "2 * of_int (totalBurst limits) / 2 ^ 53 :: rat"
  have slack: "0 \<le> ?slack" using assms(2) by simp
  show ?case
  proof (cases "e = endpoint")
    case False
    obtain table1 r where l: "leaseShared limits e family now table = (table1, r)" by fastforce
    then have "js_get table1 (endpoint, ENDPOINT_TOTAL_FAMILY) = None" using lease_other [OF l False] Cons.prems(1) by simp
    then have "of_nat (granted_to endpoint (snd (shared_leases limits calls table1))) \<le>
      of_int (totalBurst limits) + totalRatePerSecond limits / 1000 * (1 + 1 / 2 ^ 53) ^ 3 * (t1 - t0) + of_nat (length calls) * ?slack"
      using Cons.IH Cons.prems(2) by simp
    moreover have "granted_to endpoint (snd (shared_leases limits (c # calls) table)) =
        granted_to endpoint (snd (shared_leases limits calls table1))"
      using False by (simp add: c l granted_to_def split: prod.split)
    moreover have "of_nat (length calls) * ?slack \<le> of_nat (length (c # calls)) * ?slack"
      using slack by (intro mult_right_mono) simp_all
    ultimately show ?thesis by linarith
  next
    case True
    let ?full = "new_Bucket (totalRatePerSecond limits) (totalBurst limits) now"
    let ?table = "store endpoint ENDPOINT_TOTAL_FAMILY ?full table"
    have row: "total_row endpoint ?table = ?full" by (simp add: total_row_def store_def)
    have ok: "row_ok limits endpoint ?table"
      using new_Bucket_ok [OF assms(1-3)] row by (simp add: row_ok_def store_def)
    have time: "t0 \<le> now" "now \<le> t1" "\<forall>(e, family, t) \<in> set (c # calls). t \<le> t1" using Cons.prems(2) c by auto
    have same: "shared_leases limits (c # calls) ?table = shared_leases limits (c # calls) table"
      using first_lease [OF Cons.prems(1), of limits family now] by (simp add: c True)
    have "of_nat (granted_to endpoint (snd (shared_leases limits (c # calls) table))) \<le>
      of_int (totalBurst limits) + per_ms (totalRatePerSecond limits) * (t1 - now) +
      of_nat (length (c # calls)) * step_slack (totalBurst limits)"
      using budget_from_row [OF ok _ time(3)] time(2) by (simp add: row same) (simp add: new_Bucket_def)
    moreover have "per_ms (totalRatePerSecond limits) * (t1 - now) \<le> per_ms (totalRatePerSecond limits) * (t1 - t0)"
      using per_ms_nonneg [OF assms(1)] time(1) by (simp add: mult_left_mono)
    ultimately show ?thesis by (simp add: per_ms_def step_slack_def)
  qed
qed

text \<open>Forty calls of four families in one second on one endpoint are granted at most twenty-four times.\<close>

definition busy_second :: "(string \<times> MethodFamily \<times> rat) list" where
  "busy_second = map (\<lambda>n. (''rpc'', [history_family, account_family, token_family, light_family] ! (n mod 4), of_nat (n * 25))) [0..<40]"

theorem endpoint_budget_holds_witness:
  "granted_to ''rpc'' (snd (shared_leases CONSERVATIVE_LIMITS busy_second [])) \<le> 24"
proof -
  have "\<forall>(e, family, t) \<in> set busy_second. 0 \<le> t \<and> t \<le> (1000 :: rat)" by (auto simp: busy_second_def)
  then have "of_nat (granted_to ''rpc'' (snd (shared_leases CONSERVATIVE_LIMITS busy_second []))) \<le>
    (16 + 8 / 1000 * (1 + 1 / 2 ^ 53) ^ 3 * 1000 + 40 * (32 / 2 ^ 53) :: rat)"
    using endpoint_budget_holds [of CONSERVATIVE_LIMITS "[]" "''rpc''" busy_second 0 1000]
    by (simp add: CONSERVATIVE_LIMITS_def busy_second_def)
  also have "\<dots> < 25" by (simp add: power3_eq_cube)
  finally show ?thesis by simp
qed

text \<open>A lease that is refused takes nothing: both rows keep their tokens and what the time since their last
  refill added, whichever of the two was short.\<close>

lemma refusal_takes_nothing:
  assumes "leaseShared limits endpoint family now table = (table', r)" and "\<not> lr_granted r"
  shows "bk_tokens (the (js_get table' (endpoint, Family family))) = bk_tokens (refill now (load endpoint (Family family)
      (fst (family_limit limits family)) (snd (family_limit limits family)) now table)) \<and>
    bk_tokens (total_row endpoint table') = bk_tokens (loaded_total limits endpoint now table)"
  using assms lease_total(2) [OF assms(1)]
  by (auto simp: leaseShared_def store_def Let_def split: if_splits)

fun take_all :: "(RequestPriority \<times> rat) list \<Rightarrow> Bucket \<Rightarrow> Bucket \<times> bool list" where
  "take_all [] b = (b, [])"
| "take_all ((priority, now) # calls) b =
    (let (b1, ok) = take_or_count priority now b; (b2, oks) = take_all calls b1 in (b2, ok # oks))"

lemma refill_keeps:
  assumes "bucket_ok rate capacity b" and "of_nat n \<le> bk_tokens b"
  shows "of_nat n \<le> bk_tokens (refill now b)"
proof (cases "elapsed_s (bk_lastRefill b) now \<le> 0")
  case False
  have n: "of_nat n \<le> (of_int capacity :: rat)" using assms by (auto simp: bucket_ok_def)
  then have "int n < 2 ^ 53" using assms(1) by (simp add: bucket_ok_def)
  then have "fl (of_nat n) = of_nat n" using fl_int [of "int n"] by simp
  moreover have "of_nat n \<le> bk_tokens b + fl (elapsed_s (bk_lastRefill b) now * rate)"
    using assms minted_le(2) [of "bk_lastRefill b" now rate] False by (auto simp: bucket_ok_def)
  ultimately have "of_nat n \<le> fl (bk_tokens b + fl (elapsed_s (bk_lastRefill b) now * rate))" by (metis fl_mono)
  then show ?thesis using n assms(1) False by (simp add: refill_def topped_up_def bucket_ok_def)
qed (use assms in \<open>simp add: refill_def\<close>)

lemma take_keeps:
  assumes "bucket_ok rate capacity b" and "of_nat n \<le> bk_tokens b" and "int n < needed priority b"
    and "take_or_count priority now b = (b', g)"
  shows "of_nat n \<le> bk_tokens b'"
proof (cases g)
  case True
  have "of_int (needed priority b) \<le> bk_tokens (refill now b)" "bk_tokens b' = fl (bk_tokens (refill now b) - 1)"
    using assms(4) True by (auto simp: take_or_count_def tryTake_def Let_def split: if_splits)
  moreover have "(of_nat n :: rat) + 1 \<le> of_int (needed priority b)"
    using assms(3) of_int_le_iff [of "int n + 1" "needed priority b", where ?'a = rat] by simp
  ultimately have "of_nat n \<le> bk_tokens (refill now b) - 1" by linarith
  moreover have "fl (of_nat n) = of_nat n" using fl_int [of "int n"] assms(1,3) by (simp add: needed_def bucket_ok_def)
  ultimately show ?thesis using \<open>bk_tokens b' = _\<close> fl_mono by metis
next
  case False
  then show ?thesis using take_step_cases(2) [of b now g b'] assms(1,4) refill_keeps [OF assms(1,2)] take_step_def by metis
qed

lemma take_or_count_ok: "bucket_ok rate capacity b \<Longrightarrow> take_or_count priority now b = (b', g) \<Longrightarrow> bucket_ok rate capacity b'"
  using take_step_cases(1) [of b now g b'] by (auto simp: take_step_def)

lemma needed_ok: "bucket_ok rate capacity b \<Longrightarrow> needed priority b = min (RESERVED_TOKENS priority) capacity"
  by (simp add: needed_def bucket_ok_def)

lemma take_all_keeps:
  assumes "bucket_ok rate capacity b" and "of_nat n \<le> bk_tokens b"
    and "\<forall>(p, t) \<in> set calls. int n < min (RESERVED_TOKENS p) capacity"
  shows "bucket_ok rate capacity (fst (take_all calls b)) \<and> of_nat n \<le> bk_tokens (fst (take_all calls b))"
  using assms
proof (induction calls arbitrary: b)
  case (Cons c calls)
  obtain p t where c: "c = (p, t)" by (cases c)
  obtain b1 g where t: "take_or_count p t b = (b1, g)" by fastforce
  have "of_nat n \<le> bk_tokens b1" using take_keeps [OF Cons.prems(1,2) _ t] Cons.prems(3) needed_ok [OF Cons.prems(1)] c by simp
  then show ?case using Cons.IH [OF take_or_count_ok [OF Cons.prems(1) t]] Cons.prems(3) by (simp add: c t split: prod.split) auto
qed simp

lemma exits_granted:
  assumes "bucket_ok rate capacity b" and "of_nat (length exits) \<le> bk_tokens b"
  shows "list_all (\<lambda>ok. ok) (snd (take_all (map (Pair emergency_exit) exits) b))"
  using assms
proof (induction exits arbitrary: b)
  case (Cons t exits)
  have need: "needed emergency_exit b = 1" using Cons.prems(1) by (simp add: needed_def bucket_ok_def)
  have level: "of_nat (length (t # exits)) \<le> bk_tokens (refill t b)" by (rule refill_keeps [OF Cons.prems])
  then have "1 \<le> bk_tokens (refill t b)" by simp
  then obtain b1 where t: "take_or_count emergency_exit t b = (b1, True)" "bk_tokens b1 = fl (bk_tokens (refill t b) - 1)"
    by (auto simp: take_or_count_def tryTake_def need Let_def)
  have ok: "bucket_ok rate capacity (refill t b)" by (rule refill_ok(1) [OF Cons.prems(1)])
  then have "of_nat (length (t # exits)) \<le> (of_int capacity :: rat)" using level by (auto simp: bucket_ok_def)
  then have "int (length exits) < 2 ^ 53" using ok by (simp add: bucket_ok_def)
  then have "fl (of_nat (length exits)) = of_nat (length exits)" using fl_int [of "int (length exits)"] by simp
  moreover have "of_nat (length exits) \<le> bk_tokens (refill t b) - 1" using level by simp
  ultimately have "of_nat (length exits) \<le> bk_tokens b1" using t(2) fl_mono by metis
  then show ?case using Cons.IH [OF take_or_count_ok [OF Cons.prems(1) t(1)]] t(1)
    by (cases "take_all (map (Pair emergency_exit) exits) b1") simp
qed simp

text \<open>What a lower class may not take is there for an exit: after any history of calls whose classes must each find more
  than \<open>n\<close> tokens, the next \<open>n\<close> emergency exits are granted at once, whatever the clock reads.\<close>

theorem exit_budget_is_held_back:
  assumes "0 \<le> rate" and "1 \<le> capacity" and "capacity < 2 ^ 53"
    and "\<forall>(p, t) \<in> set calls. int n < min (RESERVED_TOKENS p) capacity" and "length exits \<le> n" and "int n \<le> capacity"
  shows "list_all (\<lambda>ok. ok)
    (snd (take_all (map (Pair emergency_exit) exits) (fst (take_all calls (new_Bucket rate capacity t0)))))"
proof -
  have "of_nat n \<le> bk_tokens (new_Bucket rate capacity t0)"
    using assms(6) of_int_le_iff [of "int n" capacity, where ?'a = rat] by (simp add: new_Bucket_def)
  from take_all_keeps [OF new_Bucket_ok [OF assms(1-3)] this assms(4)] assms(5)
  show ?thesis by (intro exits_granted) (auto intro: order_trans [of _ "of_nat n"])
qed

theorem exit_budget_is_held_back_witness:
  "list_all (\<lambda>ok. ok) (snd (take_all (map (Pair emergency_exit) [3, 3, 3])
    (fst (take_all [(enrichment, 1), (enrichment, 1), (enrichment, 2)] (new_Bucket 4 10 0)))))"
  by (rule exit_budget_is_held_back [of _ _ _ 3]) simp_all

text \<open>The floors are documented for a burst of five. The committed keyless Jupiter bucket has a burst of two, to
  which every floor is clamped: an enrichment call takes the token that the mark of an open position needs.\<close>

theorem floors_collapse_at_burst_two:
  "snd (take_all [(enrichment, t), (open_position, t), (emergency_exit, t)] (new_Bucket rate 2 t)) = [True, False, True]"
  using fl_int [of 1] fl_int [of 0]
  by (simp add: take_or_count_def tryTake_def needed_def new_Bucket_def refill_def elapsed_s_def)

lemma msUntilAvailable_nonneg: "msUntilAvailable required now b = (b', Some wait) \<Longrightarrow> 0 \<le> wait"
proof -
  assume m: "msUntilAvailable required now b = (b', Some wait)"
  show ?thesis
  proof (cases "of_int required \<le> bk_tokens (refill now b)")
    case False
    then have rate: "0 < bk_rate (refill now b)"
      "wait = \<lceil>fl (fl (fl (of_int required - bk_tokens (refill now b)) / bk_rate (refill now b)) * 1000)\<rceil>"
      using m by (auto simp: msUntilAvailable_def ms_short_def Let_def split: if_splits)
    have "0 \<le> fl (fl (fl (of_int required - bk_tokens (refill now b)) / bk_rate (refill now b)) * 1000)"
      using rate(1) False by (intro fl_nonneg mult_nonneg_nonneg divide_nonneg_nonneg) simp_all
    then show ?thesis unfolding rate(2) by linarith
  qed (use m in \<open>auto simp: msUntilAvailable_def Let_def\<close>)
qed

lemma deadline_passed:
  assumes "of_int (maxWaitMs + 1) \<le> d" and "0 \<le> wait" and "\<bar>maxWaitMs + 1\<bar> < 2 ^ 53"
  shows "of_int maxWaitMs < fl (fl d + of_int wait)"
proof -
  have fl: "fl (of_int (maxWaitMs + 1)) = (of_int (maxWaitMs + 1) :: rat)" by (rule fl_int [OF assms(3)])
  then have "of_int (maxWaitMs + 1) \<le> fl d" using fl_mono [OF assms(1)] by simp
  moreover have "(0 :: rat) \<le> of_int wait" using assms(2) by simp
  ultimately have "of_int (maxWaitMs + 1) \<le> fl d + of_int wait" by linarith
  then have "of_int (maxWaitMs + 1) \<le> fl (fl d + of_int wait)" using fl fl_mono by metis
  then show ?thesis by simp
qed

lemma waiting_within_deadline:
  assumes "acquire_loop required started maxWaitMs readings b = Waiting b'" and "\<bar>maxWaitMs + 1\<bar> < 2 ^ 53"
  shows "\<forall>(t1, t2, t3) \<in> set readings. t3 - started < of_int (maxWaitMs + 1)"
  using assms(1)
proof (induction readings arbitrary: b)
  case (Cons x readings)
  obtain t1 t2 t3 where x: "x = (t1, t2, t3)" by (cases x)
  obtain b1 where b1: "tryTake required t1 b = (b1, False)" using Cons.prems x by (auto split: prod.splits bool.splits)
  obtain b2 w where b2: "msUntilAvailable required t2 b1 = (b2, Some w)"
    using Cons.prems x b1 by (auto split: prod.splits option.splits)
  have on: "\<not> fl (fl (t3 - started) + of_int w) > of_int maxWaitMs"
    using Cons.prems x b1 b2 by (auto split: if_splits)
  then have "t3 - started < of_int (maxWaitMs + 1)"
    using deadline_passed [OF _ msUntilAvailable_nonneg [OF b2] assms(2), of "t3 - started"] by linarith
  moreover have "acquire_loop required started maxWaitMs readings b2 = Waiting b'" using Cons.prems x b1 b2 on by simp
  ultimately show ?case using Cons.IH x by simp
qed simp

text \<open>A caller that waits comes back: as long as every sleep moves the monotonic clock by some positive amount, the
  loop has granted, refused or failed before the sleeps add up to its deadline and one millisecond.\<close>

theorem acquire_returns:
  assumes "0 < \<delta>" and "0 \<le> maxWaitMs" and "maxWaitMs + 1 < 2 ^ 53" and "readings \<noteq> []"
    and "\<forall>i < length readings. started + of_nat i * \<delta> \<le> snd (snd (readings ! i))"
    and "of_int maxWaitMs + 1 \<le> of_nat (length readings - 1) * \<delta>"
  shows "acquire bucket maxWaitMs priority started readings m \<noteq> Inr (m', False)"
proof
  assume "acquire bucket maxWaitMs priority started readings m = Inr (m', False)"
  then obtain b b' where w: "acquire_loop (needed priority b) started maxWaitMs readings b = Waiting b'"
    by (auto simp: acquire_def split: option.splits acquire_result.splits)
  have "last readings \<in> set readings" using assms(4) by simp
  then have "snd (snd (last readings)) - started < of_int (maxWaitMs + 1)"
    using waiting_within_deadline [OF w] assms(2,3) by (auto simp: split_beta)
  moreover have "started + of_nat (length readings - 1) * \<delta> \<le> snd (snd (last readings))"
    using assms(4,5) by (simp add: last_conv_nth)
  ultimately show False using assms(6) by simp
qed

text \<open>Three polls a tenth of a second apart: the second call of a two-token bucket that never refills.\<close>

theorem acquire_returns_witness:
  "\<forall>m m'. acquire ''jupiter_main'' 150 discovery 0 [(0, 0, 0), (100, 100, 100), (200, 200, 200)] m \<noteq> Inr (m', False)"
  by (intro allI acquire_returns [of 100]) (auto simp: less_Suc_eq numeral_3_eq_3)

text \<open>The fallback is documented to spend as the least of several processes. Its share is a quarter of each
  family's rate, every family's rate is the endpoint's total, there are four families, and nothing bounds
  their sum: one process that lost the table has the whole rate of the endpoint, and seven calls at once.\<close>

definition all_families :: "MethodFamily list" where
  "all_families = [history_family, account_family, token_family, light_family]"

fun local_leases :: "BudgetLimits \<Rightarrow> string \<Rightarrow> MethodFamily list \<Rightarrow> rat \<Rightarrow> local_buckets \<Rightarrow> bool list" where
  "local_leases limits endpoint [] now locals = []"
| "local_leases limits endpoint (f # fs) now locals =
    (let (locals', r) = leaseLocal limits endpoint f now now locals
     in lr_granted r # local_leases limits endpoint fs now locals')"

lemma local_buckets:
  "new_LocalBucket (8, 8) t = new_Bucket 2 2 t" "new_LocalBucket (8, 10) t = new_Bucket 2 2 t"
  "new_LocalBucket (8, 6) t = new_Bucket 2 1 t"
proof -
  have "fl 2 = 2" "fl (5 / 2) = 5 / 2" "fl (3 / 2) = 3 / 2"
    using fl_int [of 2] fl_exact [of 5 "-1"] fl_exact [of 3 "-1"] by (simp_all add: power_int_minus field_simps)
  moreover have "\<lfloor>5 / 2 :: rat\<rfloor> = 2" "\<lfloor>3 / 2 :: rat\<rfloor> = 1" by (simp_all add: floor_eq_iff)
  ultimately show "new_LocalBucket (8, 8) t = new_Bucket 2 2 t" "new_LocalBucket (8, 10) t = new_Bucket 2 2 t"
    "new_LocalBucket (8, 6) t = new_Bucket 2 1 t"
    unfolding new_LocalBucket_def DEGRADED_SHARE_def by (simp_all del: eq_divide_eq_numeral1)
qed

theorem degraded_process_has_the_total:
  "sum_list (map (\<lambda>f. bk_rate (new_LocalBucket (family_limit CONSERVATIVE_LIMITS f) t)) all_families) =
     totalRatePerSecond CONSERVATIVE_LIMITS \<and>
   local_leases CONSERVATIVE_LIMITS endpoint [history_family, history_family, account_family, account_family,
     token_family, light_family, light_family] t [] = replicate 7 True"
proof
  show "sum_list (map (\<lambda>f. bk_rate (new_LocalBucket (family_limit CONSERVATIVE_LIMITS f) t)) all_families) =
     totalRatePerSecond CONSERVATIVE_LIMITS"
    by (simp add: all_families_def CONSERVATIVE_LIMITS_def local_buckets new_Bucket_def)
  show "local_leases CONSERVATIVE_LIMITS endpoint [history_family, history_family, account_family, account_family,
     token_family, light_family, light_family] t [] = replicate 7 True"
    using fl_int [of 1] fl_int [of 0]
    by (simp add: leaseLocal_def CONSERVATIVE_LIMITS_def local_buckets tryTake_def refill_def elapsed_s_def new_Bucket_def
        js_get_def Let_def numeral_eq_Suc)
qed

end
