(* ===== verification/MintFacts.thy ===== *)
theory MintFacts
  imports TokenAccounts
begin

text \<open>
  What the chain says about a mint, in three values: \<open>packages/intelligence/src/mintfacts.ts\<close>, and the
  reader of every candidate's mint with its bounded cache, \<open>mintfacts-source.ts\<close>. The account read is an
  argument (the bytes and the owning program, or a failure); the decoder is \<open>decodeMint\<close>. The
  human-readable reasons are left out.
\<close>

section \<open>Verdicts\<close>

datatype FactVerdict = SAFE | HOSTILE | UNKNOWN

datatype read_failure = account_unreadable | undecodable mint_error

record MintFacts =
  mf_mintAuthority :: FactVerdict
  mf_freezeAuthority :: FactVerdict
  mf_permanentDelegate :: FactVerdict
  mf_defaultAccountState :: FactVerdict
  mf_transferHook :: FactVerdict
  mf_nonTransferable :: FactVerdict
  mf_pausable :: FactVerdict
  mf_confidential :: FactVerdict
  mf_transferFeeBps :: "nat option"
  mf_decodeFailure :: "read_failure option"
  mf_overall :: FactVerdict

definition verdictFor :: "DecodedMint \<Rightarrow> string \<Rightarrow> FactVerdict" where
  "verdictFor m name = (if name \<in> set (map ext_name (dm_extensions m)) then HOSTILE else SAFE)"

definition overall_of :: "FactVerdict list \<Rightarrow> FactVerdict" where
  "overall_of vs = (if HOSTILE \<in> set vs then HOSTILE else if UNKNOWN \<in> set vs then UNKNOWN else SAFE)"

definition unread_facts :: "read_failure option \<Rightarrow> MintFacts" where
  "unread_facts decodeFailure = \<lparr>mf_mintAuthority = UNKNOWN, mf_freezeAuthority = UNKNOWN, mf_permanentDelegate = UNKNOWN,
     mf_defaultAccountState = UNKNOWN, mf_transferHook = UNKNOWN, mf_nonTransferable = UNKNOWN, mf_pausable = UNKNOWN,
     mf_confidential = UNKNOWN, mf_transferFeeBps = None, mf_decodeFailure = decodeFailure, mf_overall = UNKNOWN\<rparr>"

definition read_facts :: "DecodedMint \<Rightarrow> MintFacts" where
  "read_facts m =
    (let authority = (if mintAuthority m = None then SAFE else HOSTILE);
         freeze = (if freezeAuthority m = None then SAFE else HOSTILE);
         delegate = verdictFor m ''PermanentDelegate''; account_state = verdictFor m ''DefaultAccountState'';
         hook = verdictFor m ''TransferHook''; fixed = verdictFor m ''NonTransferable'';
         pause = verdictFor m ''Pausable'';
         hidden = (if ''ConfidentialTransferMint'' \<in> set (map ext_name (dm_extensions m)) \<or>
             ''ConfidentialTransferFeeConfig'' \<in> set (map ext_name (dm_extensions m)) then HOSTILE else SAFE)
     in \<lparr>mf_mintAuthority = authority, mf_freezeAuthority = freeze, mf_permanentDelegate = delegate,
         mf_defaultAccountState = account_state, mf_transferHook = hook, mf_nonTransferable = fixed, mf_pausable = pause,
         mf_confidential = hidden,
         mf_transferFeeBps = map_option (\<lambda>c. basisPoints (worstCaseTransferFee c)) (transferFeeConfig m),
         mf_decodeFailure = None,
         mf_overall = overall_of [authority, freeze, delegate, account_state, hook, fixed, pause, hidden]\<rparr>)"

fun mintFacts :: "DecodedMint option \<Rightarrow> read_failure option \<Rightarrow> MintFacts" where
  "mintFacts None decodeFailure = unread_facts decodeFailure"
| "mintFacts (Some m) decodeFailure = read_facts m"

datatype authority_field = field_mintAuthority | field_freezeAuthority

text \<open>A disagreement names the field and whether the provider, and the chain, say the authority is disabled.\<close>

definition check_authority :: "authority_field \<Rightarrow> bool option \<Rightarrow> FactVerdict \<Rightarrow> (authority_field \<times> bool \<times> bool) list" where
  "check_authority field providerDisabled chain =
    (case providerDisabled of None \<Rightarrow> []
     | Some p \<Rightarrow> if chain = UNKNOWN then [] else if p \<noteq> (chain = SAFE) then [(field, p, chain = SAFE)] else [])"

definition disagreements :: "MintFacts \<Rightarrow> (bool option \<times> bool option) option \<Rightarrow> (authority_field \<times> bool \<times> bool) list" where
  "disagreements facts audit =
    (case audit of None \<Rightarrow> []
     | Some (mintDisabled, freezeDisabled) \<Rightarrow>
         check_authority field_mintAuthority mintDisabled (mf_mintAuthority facts) @
         check_authority field_freezeAuthority freezeDisabled (mf_freezeAuthority facts))"

definition mintBehaviourSafe :: "MintFacts \<Rightarrow> bool option" where
  "mintBehaviourSafe facts =
    (if mf_overall facts = SAFE then Some True else if mf_overall facts = HOSTILE then Some False else None)"

section \<open>The reader and its cache\<close>

text \<open>The facts the reader adds, over the spread of the base record.\<close>

record DirectMintFacts =
  df_facts :: MintFacts
  df_mint :: string
  df_tokenProgram :: "string option"
  df_currentEpochTransferFeeBps :: "nat option"
  df_worstCaseTransferFeeBps :: "nat option"
  df_maximumFeeAtoms :: "int option"
  df_readUtcMs :: int
  df_extensionTypes :: "nat list"
  df_hasUnknownExtension :: bool

definition UNREAD :: "string \<Rightarrow> read_failure \<Rightarrow> int \<Rightarrow> DirectMintFacts" where
  "UNREAD m why now = \<lparr>df_facts = mintFacts None (Some why), df_mint = m, df_tokenProgram = None,
     df_currentEpochTransferFeeBps = None, df_worstCaseTransferFeeBps = None, df_maximumFeeAtoms = None,
     df_readUtcMs = now, df_extensionTypes = [], df_hasUnknownExtension = False\<rparr>"

text \<open>A \<open>Map\<close> keeps its keys in the order they were first inserted.\<close>

record MintFactsCache =
  mc_ttlMs :: int
  mc_maxEntries :: nat
  mc_entries :: "(string \<times> DirectMintFacts) list"

definition cache_get :: "string \<Rightarrow> int \<Rightarrow> MintFactsCache \<Rightarrow> MintFactsCache \<times> DirectMintFacts option" where
  "cache_get m now c =
    (case js_get (mc_entries c) m of None \<Rightarrow> (c, None)
     | Some hit \<Rightarrow>
         if now - df_readUtcMs hit > mc_ttlMs c
         then (c\<lparr>mc_entries := filter (\<lambda>(k, _). k \<noteq> m) (mc_entries c)\<rparr>, None)
         else (c, Some hit))"

definition cache_put :: "DirectMintFacts \<Rightarrow> MintFactsCache \<Rightarrow> MintFactsCache" where
  "cache_put facts c =
    (let kept = (if length (mc_entries c) \<ge> mc_maxEntries c then tl (mc_entries c) else mc_entries c)
     in c\<lparr>mc_entries := js_set (df_mint facts) facts kept\<rparr>)"

definition facts_of :: "string \<Rightarrow> string \<Rightarrow> int option \<Rightarrow> int \<Rightarrow> DecodedMint \<Rightarrow> DirectMintFacts" where
  "facts_of m program currentEpoch now mint_data =
    (let worst = map_option worstCaseTransferFee (transferFeeConfig mint_data);
         current = (case (transferFeeConfig mint_data, currentEpoch) of
             (Some cfg, Some e) \<Rightarrow> Some (transferFeeAtEpoch cfg e) | _ \<Rightarrow> None)
     in \<lparr>df_facts = mintFacts (Some mint_data) None, df_mint = m, df_tokenProgram = Some program,
         df_currentEpochTransferFeeBps = (case current of Some f \<Rightarrow> Some (basisPoints f)
           | None \<Rightarrow> map_option basisPoints worst),
         df_worstCaseTransferFeeBps = map_option basisPoints worst, df_maximumFeeAtoms = map_option maximumFee worst,
         df_readUtcMs = now, df_extensionTypes = map discriminant (dm_extensions mint_data),
         df_hasUnknownExtension = False\<rparr>)"

text \<open>A failed read is not cached; a failed decode is.\<close>

definition readMintFacts ::
    "(string \<Rightarrow> (bytes \<times> string) option) \<Rightarrow> string \<Rightarrow> int \<Rightarrow> int option \<Rightarrow> MintFactsCache \<Rightarrow> MintFactsCache \<times> DirectMintFacts" where
  "readMintFacts getAccountRaw m now currentEpoch c =
    (case cache_get m now c of
       (c', Some cached) \<Rightarrow> (c', cached)
     | (c', None) \<Rightarrow>
        (case getAccountRaw m of None \<Rightarrow> (c', UNREAD m account_unreadable now)
         | Some (data, program) \<Rightarrow>
            (case decodeMint data program of
               Inl e \<Rightarrow> let out = (UNREAD m (undecodable e) now)\<lparr>df_tokenProgram := Some program, df_hasUnknownExtension := True\<rparr>
                        in (cache_put out c', out)
             | Inr mint_data \<Rightarrow> let out = facts_of m program currentEpoch now mint_data in (cache_put out c', out))))"

text \<open>What the gates read of it.\<close>

record Token2022Facts =
  hasMoneyCriticalBehaviour :: bool
  hasUnknownExtension :: bool
  t2_transferFeeBps :: "nat option"

definition gateFactsFrom :: "DirectMintFacts \<Rightarrow> Token2022Facts" where
  "gateFactsFrom d =
    (let f = df_facts d;
         hostile = HOSTILE \<in> set [mf_permanentDelegate f, mf_defaultAccountState f, mf_transferHook f, mf_nonTransferable f,
           mf_pausable f, mf_confidential f]
     in \<lparr>hasMoneyCriticalBehaviour = (hostile \<or> df_hasUnknownExtension d), hasUnknownExtension = df_hasUnknownExtension d,
         t2_transferFeeBps = df_currentEpochTransferFeeBps d\<rparr>)"

section \<open>Verdicts and bytes\<close>

lemma overall_of_SAFE: "overall_of vs = SAFE \<longleftrightarrow> HOSTILE \<notin> set vs \<and> UNKNOWN \<notin> set vs"
  by (simp add: overall_of_def)

text \<open>The extensions the verdicts look at, by discriminant.\<close>

definition graded :: "nat list" where
  "graded = [4, 6, 9, 12, 14, 16, 26]"

definition graded_names :: "string list" where
  "graded_names = [''PermanentDelegate'', ''DefaultAccountState'', ''TransferHook'', ''NonTransferable'', ''Pausable'',
     ''ConfidentialTransferMint'', ''ConfidentialTransferFeeConfig'']"

lemma graded_iff: "d \<le> MAX_KNOWN_EXTENSION \<Longrightarrow> entry_name d \<in> set graded_names \<longleftrightarrow> d \<in> set graded"
proof -
  assume "d \<le> MAX_KNOWN_EXTENSION"
  then have "d \<in> set [0..<29]" by (simp add: MAX_KNOWN_EXTENSION_def)
  moreover have "list_all (\<lambda>d. (entry_name d \<in> set graded_names) = (d \<in> set graded)) [0..<29]" by code_simp
  ultimately show ?thesis unfolding list_all_iff by blast
qed

lemma read_facts_SAFE:
  "mf_overall (read_facts m) = SAFE \<longleftrightarrow> mintAuthority m = None \<and> freezeAuthority m = None \<and>
    (\<forall>n \<in> set graded_names. n \<notin> ext_name ` set (dm_extensions m))"
  by (auto simp: read_facts_def overall_of_SAFE verdictFor_def graded_names_def Let_def)

lemma entries_at_names: "ext_name ` set (entries_at k es) = (\<lambda>e. entry_name (fst e)) ` set es"
  by (induction es arbitrary: k) simp_all

lemma valid_entry_known: "valid_entry e \<Longrightarrow> fst e \<le> MAX_KNOWN_EXTENSION"
  by (auto simp: valid_entry_def)

lemma decodeMint_authorities:
  "decodeMint data program = Inr m \<Longrightarrow>
    readCOptionPubkey data 0 = Inr (mintAuthority m) \<and> readCOptionPubkey data 46 = Inr (freezeAuthority m)"
  by (auto simp: decodeMint_def Let_def elim!: ebind_eq_InrE split: if_splits)

lemma decodeMint_entries:
  assumes "decodeMint data TOKEN_2022_PROGRAM = Inr m" and "BASE_MINT_LEN < length data"
  obtains es t where "drop TLV_START data = concat (map tlv_bytes es) @ t" "list_all valid_entry es" "tlv_end t"
    "dm_extensions m = entries_at TLV_START es"
  using tlv_loop_abs [OF decodeMint_2022(1) [OF assms] decodeMint_2022(4) [OF assms]] that by blast

text \<open>A verdict of SAFE is a fact about bytes: a Token-2022 mint account gets it exactly when both authorities are
  absent and none of its entries is one of the seven graded extensions. An account that was not read, or
  not decoded, never gets it.\<close>

theorem safe_verdict_is_read:
  assumes "decodeMint data TOKEN_2022_PROGRAM = Inr m" and "BASE_MINT_LEN < length data"
  shows "mf_overall (mintFacts None why) = UNKNOWN \<and>
    (\<exists>es t. drop TLV_START data = concat (map tlv_bytes es) @ t \<and> list_all valid_entry es \<and> tlv_end t \<and>
      (mf_overall (mintFacts (Some m) None) = SAFE \<longleftrightarrow> readCOptionPubkey data 0 = Inr None \<and>
        readCOptionPubkey data 46 = Inr None \<and> (\<forall>e \<in> set es. fst e \<notin> {4, 6, 9, 12, 14, 16, 26})) \<and>
      (mf_overall (mintFacts (Some m) None) \<noteq> UNKNOWN))"
proof -
  obtain es t where es: "drop TLV_START data = concat (map tlv_bytes es) @ t" "list_all valid_entry es" "tlv_end t"
    "dm_extensions m = entries_at TLV_START es"
    using decodeMint_entries [OF assms] .
  have "(\<forall>n \<in> set graded_names. n \<notin> ext_name ` set (dm_extensions m)) \<longleftrightarrow> (\<forall>e \<in> set es. entry_name (fst e) \<notin> set graded_names)"
    unfolding es(4) entries_at_names by blast
  also have "\<dots> \<longleftrightarrow> (\<forall>e \<in> set es. fst e \<notin> set graded)"
    using es(2) graded_iff valid_entry_known by (fastforce simp: list_all_iff)
  finally have safe: "mf_overall (read_facts m) = SAFE \<longleftrightarrow> readCOptionPubkey data 0 = Inr None \<and>
      readCOptionPubkey data 46 = Inr None \<and> (\<forall>e \<in> set es. fst e \<notin> {4, 6, 9, 12, 14, 16, 26})"
    unfolding read_facts_SAFE using decodeMint_authorities [OF assms(1)] by (simp add: graded_def)
  have "mf_overall (read_facts m) \<noteq> UNKNOWN"
    by (auto simp: read_facts_def overall_of_def verdictFor_def Let_def)
  then show ?thesis using es(1-3) safe by (auto simp: unread_facts_def)
qed

lemma sample_2022_len: "BASE_MINT_LEN < length (sample_mint_data area)"
  by (simp add: sample_mint_fields BASE_MINT_LEN_def)

text \<open>The hooked mint of \<open>TokenAccounts\<close> is not safe.\<close>

theorem safe_verdict_is_read_witness:
  "\<exists>m es t. decodeMint (sample_mint_data (concat (map tlv_bytes sample_entries))) TOKEN_2022_PROGRAM = Inr m \<and>
    concat (map tlv_bytes sample_entries) = concat (map tlv_bytes es) @ t \<and>
    (mf_overall (mintFacts (Some m) None) = SAFE \<longleftrightarrow> (\<forall>e \<in> set es. fst e \<notin> {4, 6, 9, 12, 14, 16, 26}))"
proof -
  obtain m where m: "decodeMint (sample_mint_data (concat (map tlv_bytes sample_entries))) TOKEN_2022_PROGRAM = Inr m"
    using decode_sample_mint [OF sample_entries] by blast
  then show ?thesis
    using safe_verdict_is_read [OF m sample_2022_len, of None] by (auto simp: sample_mint_fields)
qed

text \<open>A mint whose one extension lets the issuer burn any holder's balance. The decoder lists it among those whose
  presence is to be \<open>a hard refusal\<close>; no verdict looks at it, so the mint is safe and the gates see nothing.\<close>

theorem permissioned_burn_is_safe:
  "\<exists>m. decodeMint (sample_mint_data (concat (map tlv_bytes [(28, replicate 32 7)]))) TOKEN_2022_PROGRAM = Inr m \<and>
    hostileExtensions m = [''PermissionedBurn''] \<and> mf_overall (mintFacts (Some m) None) = SAFE \<and>
    mintBehaviourSafe (mintFacts (Some m) None) = Some True \<and>
    \<not> hasMoneyCriticalBehaviour (gateFactsFrom (facts_of k p e now m))"
proof -
  let ?es = "[(28, replicate 32 7)] :: (nat \<times> bytes) list" and ?data = "sample_mint_data (concat (map tlv_bytes [(28, replicate 32 7)]))"
  have es: "list_all valid_entry ?es" by (simp add: valid_entry_def MAX_KNOWN_EXTENSION_def)
  obtain m where m: "decodeMint ?data TOKEN_2022_PROGRAM = Inr m" "dm_extensions m = entries_at TLV_START ?es"
    using decode_sample_mint [OF es] by blast
  have name: "entry_name 28 = ''PermissionedBurn''" by (simp add: entry_name_def EXTENSION_NAMES_def)
  have "hostileExtensions m = [''PermissionedBurn'']"
    using decodeMint_2022(3) [OF m(1) sample_2022_len] m(2) name by (simp add: HOSTILE_EXTENSIONS_def)
  moreover have "mintAuthority m = None" "freezeAuthority m = None"
    using decodeMint_authorities [OF m(1)] sample_mint_fields(3,4) by simp_all
  then have safe: "mf_overall (read_facts m) = SAFE"
    using m(2) name by (simp add: read_facts_SAFE graded_names_def)
  moreover have "\<not> hasMoneyCriticalBehaviour (gateFactsFrom (facts_of k p e now m))"
    using m(2) name by (simp add: gateFactsFrom_def facts_of_def read_facts_def verdictFor_def Let_def)
  ultimately show ?thesis using m(1) by (auto simp: mintBehaviourSafe_def)
qed

text \<open>And a mint that could not be read at all shows the gates no money-critical behaviour either.\<close>

theorem unread_mint_shows_nothing:
  "gateFactsFrom (UNREAD m account_unreadable now) =
    \<lparr>hasMoneyCriticalBehaviour = False, hasUnknownExtension = False, t2_transferFeeBps = None\<rparr>"
  by (simp add: gateFactsFrom_def UNREAD_def unread_facts_def)

section \<open>The cache\<close>

text \<open>One read: what the chain answers, which mint, when, and the epoch the caller knows.\<close>

type_synonym mint_read = "(string \<Rightarrow> (bytes \<times> string) option) \<times> string \<times> int \<times> int option"

definition empty_cache :: "int \<Rightarrow> nat \<Rightarrow> MintFactsCache" where
  "empty_cache ttlMs maxEntries = \<lparr>mc_ttlMs = ttlMs, mc_maxEntries = maxEntries, mc_entries = []\<rparr>"

definition one_read :: "mint_read \<Rightarrow> MintFactsCache \<Rightarrow> MintFactsCache \<times> DirectMintFacts" where
  "one_read r c = (case r of (chain, m, now, e) \<Rightarrow> readMintFacts chain m now e c)"

fun all_reads :: "mint_read list \<Rightarrow> MintFactsCache \<Rightarrow> MintFactsCache \<times> DirectMintFacts list" where
  "all_reads [] c = (c, [])"
| "all_reads (r # rs) c = (let (c1, f) = one_read r c; (c2, fs) = all_reads rs c1 in (c2, f # fs))"

text \<open>What a read gives without a cache.\<close>

definition fresh :: "mint_read \<Rightarrow> DirectMintFacts" where
  "fresh r = snd (one_read r (empty_cache 0 1))"

definition read_mint :: "mint_read \<Rightarrow> string" where "read_mint r = fst (snd r)"
definition read_at :: "mint_read \<Rightarrow> int" where "read_at r = fst (snd (snd r))"

definition cache_ok :: "mint_read set \<Rightarrow> MintFactsCache \<Rightarrow> bool" where
  "cache_ok R c \<longleftrightarrow> distinct (map fst (mc_entries c)) \<and> length (mc_entries c) \<le> mc_maxEntries c \<and>
    (\<forall>(k, f) \<in> set (mc_entries c). \<exists>r \<in> R. read_mint r = k \<and> f = fresh r)"

lemma fresh_unfold: "fresh (chain, m, now, e) =
    (case chain m of None \<Rightarrow> UNREAD m account_unreadable now
     | Some (data, program) \<Rightarrow> (case decodeMint data program of
         Inl err \<Rightarrow> (UNREAD m (undecodable err) now)\<lparr>df_tokenProgram := Some program, df_hasUnknownExtension := True\<rparr>
       | Inr mint_data \<Rightarrow> facts_of m program e now mint_data))"
  by (simp add: fresh_def one_read_def readMintFacts_def cache_get_def empty_cache_def Let_def
      split: option.split sum.split prod.split)

lemma fresh_fields: "df_mint (fresh r) = read_mint r \<and> df_readUtcMs (fresh r) = read_at r"
  by (cases r) (auto simp: fresh_unfold read_mint_def read_at_def UNREAD_def facts_of_def Let_def split: option.split sum.split)

lemma set_js_set_sub: "set (js_set k v m) \<subseteq> insert (k, v) (set m)"
  by (induction k v m rule: js_set.induct) auto

lemma length_js_set_le: "length (js_set k v m) \<le> Suc (length m)"
  by (induction k v m rule: js_set.induct) auto

lemma length_js_set_mem: "k \<in> fst ` set m \<Longrightarrow> length (js_set k v m) = length m"
  by (induction k v m rule: js_set.induct) auto

lemma cache_put_ok:
  assumes "cache_ok R c" and "r \<in> R" and "1 \<le> mc_maxEntries c"
  shows "cache_ok R (cache_put (fresh r) c)"
proof -
  define kept where "kept = (if length (mc_entries c) \<ge> mc_maxEntries c then tl (mc_entries c) else mc_entries c)"
  have sub: "set kept \<subseteq> set (mc_entries c)" by (cases "mc_entries c") (auto simp: kept_def)
  have "distinct (map fst kept)" using assms(1) by (simp add: kept_def cache_ok_def map_tl distinct_tl)
  moreover have "length kept < mc_maxEntries c" using assms(1,3) by (auto simp: kept_def cache_ok_def)
  ultimately show ?thesis
    using assms(1,2) sub set_js_set_sub [of "df_mint (fresh r)" "fresh r" kept]
      length_js_set_le [of "df_mint (fresh r)" "fresh r" kept] fresh_fields [of r]
    by (fastforce simp: cache_put_def cache_ok_def kept_def [symmetric] js_set_distinct)
qed

lemma cache_get_ok:
  assumes "cache_ok R c" and "cache_get m now c = (c', hit)"
  shows "cache_ok R c'" and "mc_maxEntries c' = mc_maxEntries c" and "mc_ttlMs c' = mc_ttlMs c"
    and "hit = Some f \<Longrightarrow> \<exists>r \<in> R. read_mint r = m \<and> f = fresh r \<and> now - read_at r \<le> mc_ttlMs c"
proof -
  have "distinct (map fst (filter P xs))" if "distinct (map fst xs)" for P and xs :: "(string \<times> DirectMintFacts) list"
    using that by (simp add: distinct_map inj_on_def)
  moreover have "length (filter P (mc_entries c)) \<le> mc_maxEntries c" for P
    using assms(1) length_filter_le [of P "mc_entries c"] unfolding cache_ok_def by linarith
  ultimately show "cache_ok R c'" "mc_maxEntries c' = mc_maxEntries c" "mc_ttlMs c' = mc_ttlMs c"
    using assms by (auto simp: cache_get_def cache_ok_def split: option.splits if_splits)
  assume "hit = Some f"
  then have "(m, f) \<in> set (mc_entries c)" "now - df_readUtcMs f \<le> mc_ttlMs c"
    using assms js_get_mem [of "mc_entries c" m f] by (auto simp: cache_get_def cache_ok_def split: option.splits if_splits)
  then show "\<exists>r \<in> R. read_mint r = m \<and> f = fresh r \<and> now - read_at r \<le> mc_ttlMs c"
    using assms(1) fresh_fields unfolding cache_ok_def by fastforce
qed

lemma one_read_ok:
  assumes "cache_ok R c" and "one_read r c = (c', f)" and "1 \<le> mc_maxEntries c"
  shows "cache_ok (insert r R) c' \<and> mc_maxEntries c' = mc_maxEntries c \<and> mc_ttlMs c' = mc_ttlMs c \<and>
    (f = fresh r \<or> (\<exists>q \<in> R. read_mint q = read_mint r \<and> f = fresh q \<and> read_at r - read_at q \<le> mc_ttlMs c))"
proof -
  obtain chain m now e where r: "r = (chain, m, now, e)" by (cases r) auto
  obtain c1 hit where get: "cache_get m now c = (c1, hit)" by fastforce
  have mono: "cache_ok (insert r R) c" using assms(1) by (auto simp: cache_ok_def)
  note ok = cache_get_ok [OF mono get]
  note old = cache_get_ok(4) [OF assms(1) get]
  show ?thesis
  proof (cases hit)
    case (Some g)
    then show ?thesis using assms(2) get ok old r by (auto simp: one_read_def readMintFacts_def read_mint_def read_at_def)
  next
    case None
    have put: "cache_ok (insert r R) (cache_put (fresh r) c1)" using cache_put_ok [OF ok(1), of r] ok(2) assms(3) by simp
    have "c' = c1 \<or> c' = cache_put (fresh r) c1" "f = fresh r"
      using assms(2) get None r
      by (auto simp: one_read_def readMintFacts_def fresh_unfold Let_def split: option.splits sum.splits)
    moreover have "mc_maxEntries (cache_put x c1) = mc_maxEntries c1" "mc_ttlMs (cache_put x c1) = mc_ttlMs c1" for x
      by (simp_all add: cache_put_def)
    ultimately show ?thesis using ok put by auto
  qed
qed

lemma all_reads_ok:
  assumes "cache_ok R c" and "1 \<le> mc_maxEntries c" and "all_reads rs c = (c', fs)"
  shows "cache_ok (set rs \<union> R) c' \<and> mc_maxEntries c' = mc_maxEntries c \<and> length fs = length rs \<and>
    (\<forall>i < length rs. \<exists>q \<in> set (take (Suc i) rs) \<union> R. fs ! i = fresh q \<and> read_mint q = read_mint (rs ! i) \<and>
      (q = rs ! i \<or> read_at (rs ! i) - read_at q \<le> mc_ttlMs c))"
  using assms
proof (induction rs arbitrary: R c c' fs)
  case (Cons r rs)
  obtain c1 f where one: "one_read r c = (c1, f)" by fastforce
  obtain fs' where rest: "all_reads rs c1 = (c', fs')" "fs = f # fs'" using Cons.prems(3) one by (auto split: prod.splits)
  note r = one_read_ok [OF Cons.prems(1) one Cons.prems(2)]
  then have ih: "cache_ok (set rs \<union> insert r R) c' \<and> mc_maxEntries c' = mc_maxEntries c1 \<and> length fs' = length rs \<and>
    (\<forall>i < length rs. \<exists>q \<in> set (take (Suc i) rs) \<union> insert r R. fs' ! i = fresh q \<and> read_mint q = read_mint (rs ! i) \<and>
      (q = rs ! i \<or> read_at (rs ! i) - read_at q \<le> mc_ttlMs c1))"
    using Cons.IH [of "insert r R" c1 c' fs'] rest(1) Cons.prems(2) by simp
  have ttl: "mc_ttlMs c1 = mc_ttlMs c" using r by simp
  have "\<exists>q \<in> set (take (Suc i) (r # rs)) \<union> R. fs ! i = fresh q \<and> read_mint q = read_mint ((r # rs) ! i) \<and>
      (q = (r # rs) ! i \<or> read_at ((r # rs) ! i) - read_at q \<le> mc_ttlMs c)" if "i < length (r # rs)" for i
  proof (cases i)
    case 0
    then show ?thesis using r rest(2) by auto
  next
    case (Suc j)
    then have "j < length rs" using that by simp
    then obtain q where "q \<in> set (take (Suc j) rs) \<union> insert r R" "fs' ! j = fresh q" "read_mint q = read_mint (rs ! j)"
        "q = rs ! j \<or> read_at (rs ! j) - read_at q \<le> mc_ttlMs c"
      using ih ttl by (elim conjE) (drule spec, drule (1) mp, metis)
    then show ?thesis using Suc rest(2) by (intro bexI [of _ q]) auto
  qed
  then show ?case using ih r rest(2) by (simp add: Un_insert_right)
qed simp

text \<open>The cache never lies and never grows: whatever the chain answered and whenever, each read returns exactly what
  a read of the same mint gave when it reached the chain, this one or an earlier one at most the
  time to live before, and the cache stays within its bound.\<close>

theorem cached_facts_are_reads:
  assumes "1 \<le> maxEntries" and "all_reads rs (empty_cache ttlMs maxEntries) = (c, fs)"
  shows "length (mc_entries c) \<le> maxEntries \<and> length fs = length rs \<and>
    (\<forall>i < length rs. \<exists>q \<in> set (take (Suc i) rs). fs ! i = fresh q \<and> read_mint q = read_mint (rs ! i) \<and>
      (q = rs ! i \<or> read_at (rs ! i) - read_at q \<le> ttlMs))"
  using all_reads_ok [of "{}" "empty_cache ttlMs maxEntries" rs c fs] assms
  by (simp add: cache_ok_def empty_cache_def)

text \<open>Two reads of one mint ten minutes apart, a third after the time to live, through a cache of one entry.\<close>

definition sample_reads :: "mint_read list" where
  "sample_reads = [(\<lambda>_. None, ''a'', 0, None), (\<lambda>_. Some ([], ''p''), ''a'', 600000, None),
     (\<lambda>_. None, ''a'', 700000, Some 5), (\<lambda>_. None, ''b'', 4000000, None)]"

theorem cached_facts_are_reads_witness:
  "\<exists>q \<in> set (take 3 sample_reads). snd (all_reads sample_reads (empty_cache 1800000 1)) ! 2 = fresh q \<and> read_mint q = ''a''"
proof -
  obtain c fs where all: "all_reads sample_reads (empty_cache 1800000 1) = (c, fs)" by fastforce
  have "\<forall>i < length sample_reads. \<exists>q \<in> set (take (Suc i) sample_reads). fs ! i = fresh q \<and>
      read_mint q = read_mint (sample_reads ! i) \<and> (q = sample_reads ! i \<or> read_at (sample_reads ! i) - read_at q \<le> 1800000)"
    using cached_facts_are_reads [OF _ all] by simp
  moreover have "2 < length sample_reads" "read_mint (sample_reads ! 2) = ''a''" by (simp_all add: sample_reads_def read_mint_def)
  ultimately show ?thesis using all by (metis eval_nat_numeral(3) snd_conv)
qed

end
