(* ===== verification/EntryGates.thy ===== *)
theory EntryGates
  imports MintFacts Doubles
begin

text \<open>
  The two layers of entry gates, \<open>packages/intelligence/src/gates.ts\<close>, on what the token feed, the chain
  and a measured round trip say, and the reading of price impact, \<open>packages/domain/src/impact.ts\<close>. A
  provider field is an option (JSON numbers are finite doubles, as rationals; operations on them are rounded
  by \<open>fl\<close>); \<open>Date.parse\<close> is an argument. Detail strings are left out.
\<close>

section \<open>Price impact\<close>

datatype ImpactSchemaStatus = Impact_OK | Impact_ABSENT | OUT_OF_RANGE | NOT_A_NUMBER | FIELDS_DISAGREE

datatype impact_field = from_priceImpact | from_priceImpactPct

record ImpactReading =
  ir_sourceField :: "impact_field option"
  ir_signedPct :: "rat option"
  ir_signedBps :: "rat option"
  ir_adverseBps :: "rat option"
  ir_favourableBps :: "rat option"
  ir_status :: ImpactSchemaStatus

definition PERCENT_TO_FRACTION :: rat where "PERCENT_TO_FRACTION = 100"
definition AGREEMENT_TOLERANCE :: rat where "AGREEMENT_TOLERANCE = fl (1 / 10 ^ 9)"

definition reading :: "impact_field option \<Rightarrow> ImpactSchemaStatus \<Rightarrow> ImpactReading" where
  "reading source status = \<lparr>ir_sourceField = source, ir_signedPct = None, ir_signedBps = None, ir_adverseBps = None,
     ir_favourableBps = None, ir_status = status\<rparr>"

text \<open>\<open>priceImpact\<close> is a number or is taken as missing; \<open>priceImpactPct\<close> is missing, or a value whose \<open>Number\<close> is
  finite or not.\<close>

definition parseImpact :: "rat option \<Rightarrow> rat option option \<Rightarrow> ImpactReading" where
  "parseImpact priceImpact priceImpactPct =
    (case (priceImpact, priceImpactPct) of
       (None, None) \<Rightarrow> reading None Impact_ABSENT
     | _ \<Rightarrow>
      (let source = (if priceImpact \<noteq> None then from_priceImpact else from_priceImpactPct);
           fraction = (case priceImpact of Some p \<Rightarrow> Some (fl (p / PERCENT_TO_FRACTION)) | None \<Rightarrow> the priceImpactPct)
       in case fraction of None \<Rightarrow> reading (Some source) NOT_A_NUMBER
        | Some f \<Rightarrow>
          if f < - 1 \<or> f > 1 then reading (Some source) OUT_OF_RANGE
          else if priceImpact \<noteq> None \<and> (case priceImpactPct of Some (Some other) \<Rightarrow> \<bar>fl (other - f)\<bar> > AGREEMENT_TOLERANCE | _ \<Rightarrow> False)
          then reading (Some source) FIELDS_DISAGREE
          else
            (let signedBps = fl (f * 10000)
             in \<lparr>ir_sourceField = Some source, ir_signedPct = Some f, ir_signedBps = Some signedBps,
                 ir_adverseBps = Some (if signedBps < 0 then - signedBps else 0),
                 ir_favourableBps = Some (if signedBps > 0 then signedBps else 0), ir_status = Impact_OK\<rparr>)))"

definition impactIsUsable :: "ImpactReading \<Rightarrow> bool" where
  "impactIsUsable r = (ir_status r = Impact_OK)"

definition impactIsSchemaError :: "ImpactReading \<Rightarrow> bool" where
  "impactIsSchemaError r = (ir_status r \<in> {OUT_OF_RANGE, NOT_A_NUMBER, FIELDS_DISAGREE})"

section \<open>What a gate says\<close>

datatype GateSeverity = hard_veto | soft_risk

record GateResult =
  gr_gate :: string
  gr_severity :: GateSeverity
  gr_passed :: bool
  gr_reason :: string
  gr_risk :: rat

definition veto :: "string \<Rightarrow> bool \<Rightarrow> string \<Rightarrow> GateResult" where
  "veto gate passed reason = \<lparr>gr_gate = gate, gr_severity = hard_veto, gr_passed = passed, gr_reason = reason,
     gr_risk = (if passed then 0 else 1)\<rparr>"

definition soft :: "string \<Rightarrow> rat \<Rightarrow> string \<Rightarrow> GateResult" where
  "soft gate risk reason =
    (let clamped = max 0 (min 1 risk)
     in \<lparr>gr_gate = gate, gr_severity = soft_risk, gr_passed = (clamped < 1), gr_reason = reason, gr_risk = clamped\<rparr>)"

definition normalize :: "rat \<Rightarrow> rat \<Rightarrow> rat \<Rightarrow> rat" where
  "normalize value low high =
    (if high \<le> low then 0 else max 0 (min 1 (fl (fl (value - low) / fl (high - low)))))"

definition parseUtc :: "(string \<Rightarrow> int option) \<Rightarrow> string option \<Rightarrow> int option" where
  "parseUtc date_parse stamp = (case stamp of None \<Rightarrow> None | Some s \<Rightarrow> if s = [] then None else date_parse s)"

section \<open>Inputs\<close>

record GateConfig =
  minTokenAgeMs :: int
  maxTokenAgeMs :: int
  minLiquidityUsd :: rat
  minHolderCount :: rat
  maxTopHolderPct :: rat
  maxDevBalancePct :: rat
  maxPriceImpactBps :: rat
  maxRoundTripLossBps :: rat
  minOrganicScore :: rat
  maxSourceAgeMs :: int
  requireMintAuthorityDisabled :: bool
  requireFreezeAuthorityDisabled :: bool
  allowedTokenPrograms :: "string list"
  minBuyCount5m :: rat
  minNetBuyers5m :: rat

record Audit =
  mintAuthorityDisabled :: "bool option"
  freezeAuthorityDisabled :: "bool option"
  topHoldersPercentage :: "rat option"
  devBalancePercentage :: "rat option"
  isSus :: "bool option"

record StatsWindow =
  sw_priceChange :: "rat option"
  sw_holderChange :: "rat option"
  sw_liquidityChange :: "rat option"
  sw_buyVolume :: "rat option"
  sw_sellVolume :: "rat option"
  sw_numBuys :: "rat option"
  sw_numSells :: "rat option"
  sw_numTraders :: "rat option"
  sw_numNetBuyers :: "rat option"

text \<open>A missing \<open>audit\<close>, \<open>stats5m\<close> or \<open>firstPool\<close> is the record of missing fields, as the source reads it.\<close>

record MintInformation =
  mi_id :: string
  mi_tokenProgram :: "string option"
  mi_createdAt :: "string option"
  mi_updatedAt :: "string option"
  mi_firstPoolCreatedAt :: "string option"
  mi_holderCount :: "rat option"
  mi_organicScore :: "rat option"
  mi_liquidity :: "rat option"
  mi_audit :: Audit
  mi_stats5m :: StatsWindow

record GateInputs =
  gi_info :: MintInformation
  gi_nowUtcMs :: int
  gi_sourceAgeMs :: "int option"
  gi_capitalAtRisk :: bool
  gi_config :: GateConfig
  gi_chainFacts :: "(FactVerdict \<times> FactVerdict) option"
  gi_cohortAgeBounds :: "(int \<times> int) option"
  gi_token2022 :: "Token2022Facts option"

section \<open>The cheap layer\<close>

definition freshness_gate :: "GateInputs \<Rightarrow> GateResult" where
  "freshness_gate g =
    (case gi_sourceAgeMs g of
       None \<Rightarrow> if gi_capitalAtRisk g then veto ''data_freshness'' False ''source_age_unknown''
         else soft ''data_freshness_unknown'' (1 / 4) ''source_age_unknown''
     | Some age \<Rightarrow> veto ''data_freshness'' (age \<le> maxSourceAgeMs (gi_config g)) ''stale_source'')"

definition program_gate :: "GateInputs \<Rightarrow> GateResult" where
  "program_gate g = veto ''token_program_allowlist''
     (nullish (mi_tokenProgram (gi_info g)) ''unknown'' \<in> set (allowedTokenPrograms (gi_config g))) ''unknown_token_program''"

text \<open>The chain's verdict, when there is one, and the provider's claim otherwise.\<close>

definition authority_disabled :: "FactVerdict \<Rightarrow> bool option \<Rightarrow> bool option" where
  "authority_disabled chain provider = (if chain \<noteq> UNKNOWN then Some (chain = SAFE) else provider)"

definition authority_gates :: "GateInputs \<Rightarrow> GateResult list" where
  "authority_gates g =
    (let (chainMint, chainFreeze) = nullish (gi_chainFacts g) (UNKNOWN, UNKNOWN); audit = mi_audit (gi_info g)
     in (if requireMintAuthorityDisabled (gi_config g)
         then [veto ''mint_authority_disabled'' (authority_disabled chainMint (mintAuthorityDisabled audit) = Some True)
           ''mint_authority_live''] else []) @
        (if requireFreezeAuthorityDisabled (gi_config g)
         then [veto ''freeze_authority_disabled'' (authority_disabled chainFreeze (freezeAuthorityDisabled audit) = Some True)
           ''freeze_authority_live''] else []))"

definition orElse :: "'a option \<Rightarrow> 'a option \<Rightarrow> 'a option" where
  "orElse a b = (case a of Some x \<Rightarrow> Some x | None \<Rightarrow> b)"

definition gate_age :: "(string \<Rightarrow> int option) \<Rightarrow> GateInputs \<Rightarrow> int option" where
  "gate_age date_parse g = map_option (\<lambda>created. gi_nowUtcMs g - created)
     (parseUtc date_parse (orElse (mi_firstPoolCreatedAt (gi_info g)) (mi_createdAt (gi_info g))))"

definition age_gates :: "(string \<Rightarrow> int option) \<Rightarrow> GateInputs \<Rightarrow> GateResult list" where
  "age_gates date_parse g =
    (let ageFloor = (case gi_cohortAgeBounds g of Some (from, to) \<Rightarrow> from | None \<Rightarrow> minTokenAgeMs (gi_config g));
         ageCeiling = (case gi_cohortAgeBounds g of Some (from, to) \<Rightarrow> to | None \<Rightarrow> maxTokenAgeMs (gi_config g))
     in [veto ''min_token_age'' (case gate_age date_parse g of None \<Rightarrow> False | Some a \<Rightarrow> a \<ge> ageFloor) ''too_young'',
         veto ''max_token_age'' (case gate_age date_parse g of None \<Rightarrow> False | Some a \<Rightarrow> a \<le> ageCeiling) ''too_old''])"

definition at_least :: "rat \<Rightarrow> rat option \<Rightarrow> bool" where
  "at_least m v = (case v of None \<Rightarrow> False | Some x \<Rightarrow> m \<le> x)"

definition depth_gates :: "GateInputs \<Rightarrow> GateResult list" where
  "depth_gates g =
    [veto ''min_liquidity'' (at_least (minLiquidityUsd (gi_config g)) (mi_liquidity (gi_info g))) ''insufficient_liquidity'',
     veto ''min_holders'' (at_least (minHolderCount (gi_config g)) (mi_holderCount (gi_info g))) ''too_few_holders'']"

definition holder_gates :: "GateInputs \<Rightarrow> GateResult list" where
  "holder_gates g =
    (let audit = mi_audit (gi_info g) in
     [case devBalancePercentage audit of
        Some p \<Rightarrow> veto ''dev_balance'' (p \<le> maxDevBalancePct (gi_config g)) ''dev_holds_too_much''
      | None \<Rightarrow> soft ''dev_balance_unavailable'' (fl (2 / 10)) ''dev_balance_unavailable'',
      case topHoldersPercentage audit of
        Some p \<Rightarrow> soft ''provider_top_holders'' (if p > maxTopHolderPct (gi_config g) then fl (3 / 10) else 0)
          ''provider_concentration_high''
      | None \<Rightarrow> soft ''top_holders_unavailable'' (fl (15 / 100)) ''top_holders_unavailable''])"

definition flow_gates :: "GateInputs \<Rightarrow> GateResult list" where
  "flow_gates g =
    (let s5 = mi_stats5m (gi_info g) in
     [veto ''min_buys_5m'' (nullish (sw_numBuys s5) 0 \<ge> minBuyCount5m (gi_config g)) ''insufficient_flow'',
      case sw_numNetBuyers s5 of
        None \<Rightarrow> soft ''net_buyers_unavailable'' (1 / 4) ''net_buyers_unknown''
      | Some n \<Rightarrow> veto ''min_net_buyers_5m'' (n \<ge> minNetBuyers5m (gi_config g)) ''insufficient_net_buyers''])"

definition organic_gate :: "GateInputs \<Rightarrow> GateResult" where
  "organic_gate g =
    (case mi_organicScore (gi_info g) of
       Some organic \<Rightarrow> if organic > 0 then veto ''min_organic_score'' (organic \<ge> minOrganicScore (gi_config g)) ''low_organic_score''
         else soft ''organic_score_unavailable'' (1 / 4) ''organic_score_unavailable''
     | None \<Rightarrow> soft ''organic_score_unavailable'' (1 / 4) ''organic_score_unavailable'')"

definition token2022_gates :: "GateInputs \<Rightarrow> GateResult list" where
  "token2022_gates g =
    (case gi_token2022 g of None \<Rightarrow> []
     | Some t \<Rightarrow>
        (if hasMoneyCriticalBehaviour t
         then [if gi_capitalAtRisk g then veto ''token2022_money_critical'' False ''token2022_money_critical''
               else soft ''token2022_money_critical'' (fl (6 / 10)) ''token2022_money_critical''] else []) @
        (case t2_transferFeeBps t of
           Some fee \<Rightarrow> if fee > 0 then [soft ''token2022_transfer_fee'' (normalize (of_nat fee) 0 500) ''token2022_transfer_fee''] else []
         | None \<Rightarrow> []))"

definition sus_gate :: "GateInputs \<Rightarrow> GateResult list" where
  "sus_gate g = (if isSus (mi_audit (gi_info g)) = Some True
     then [veto ''provider_sus_flag'' False ''provider_flagged_suspicious''] else [])"

definition market_gates :: "GateInputs \<Rightarrow> GateResult list" where
  "market_gates g =
    (let s5 = mi_stats5m (gi_info g);
         buys = nullish (sw_numBuys s5) 0; sells = nullish (sw_numSells s5) 0; totalTx5 = fl (buys + sells);
         buyVol = nullish (sw_buyVolume s5) 0; sellVol = nullish (sw_sellVolume s5) 0
     in (case sw_numTraders s5 of
           Some traders \<Rightarrow> if traders > 0 \<and> totalTx5 > 0
             then [soft ''wash_tx_per_trader'' (normalize (fl (totalTx5 / traders)) 3 12) ''high_tx_per_trader''] else []
         | None \<Rightarrow> []) @
        (if buyVol > 0 \<and> sellVol = 0 \<and> buys > 10
         then [soft ''no_sells_observed'' (fl (8 / 10)) ''zero_sell_volume''] else []) @
        (case mi_liquidity (gi_info g) of
           Some liq \<Rightarrow> if liq > 0 then [soft ''volume_to_liquidity'' (normalize (fl (fl (buyVol + sellVol) / liq)) 2 10) ''extreme_churn''] else []
         | None \<Rightarrow> []) @
        (case sw_priceChange s5 of
           Some chg \<Rightarrow> [soft ''price_exhaustion'' (normalize chg 40 200) ''vertical_move''] @
             (case sw_liquidityChange s5 of
                Some l \<Rightarrow> if chg > 20 \<and> l < 0 then [soft ''liquidity_diverging'' (fl (7 / 10)) ''price_up_liquidity_down''] else []
              | None \<Rightarrow> []) @
             (case sw_holderChange s5 of
                Some h \<Rightarrow> if chg > 30 \<and> h \<le> 0 then [soft ''price_without_holders'' (3 / 4) ''no_holder_growth''] else []
              | None \<Rightarrow> [])
         | None \<Rightarrow> []))"

definition evaluateCheapGates :: "(string \<Rightarrow> int option) \<Rightarrow> GateInputs \<Rightarrow> GateResult list" where
  "evaluateCheapGates date_parse g =
    [freshness_gate g, program_gate g] @ authority_gates g @ age_gates date_parse g @ depth_gates g @ holder_gates g @
    flow_gates g @ [organic_gate g] @ token2022_gates g @ sus_gate g @ market_gates g"

section \<open>The measured layer\<close>

record RoundTrip =
  rt_buyOutAmount :: int
  rt_buyImpact :: ImpactReading
  rt_exitExists :: bool
  rt_lossBps :: "rat option"

definition at_most :: "rat \<Rightarrow> rat option \<Rightarrow> bool" where
  "at_most m v = (case v of None \<Rightarrow> False | Some x \<Rightarrow> x \<le> m)"

definition evaluateQuoteGates :: "RoundTrip option \<Rightarrow> GateConfig \<Rightarrow> GateResult list" where
  "evaluateQuoteGates roundTrip config =
    (case roundTrip of None \<Rightarrow> [veto ''quote_available'' False ''no_quote'']
     | Some rt \<Rightarrow>
        [veto ''buy_route_exists'' (rt_buyOutAmount rt > 0) ''no_buy_route'',
         veto ''exit_route_exists'' (rt_exitExists rt) ''no_exit_route'',
         veto ''price_impact'' (ir_adverseBps (rt_buyImpact rt) = None \<or>
           at_most (maxPriceImpactBps config) (ir_adverseBps (rt_buyImpact rt))) ''excessive_impact''] @
        (if ir_adverseBps (rt_buyImpact rt) = None then [soft ''impact_unavailable'' (fl (2 / 10)) ''impact_unknown''] else []) @
        [veto ''round_trip_cost'' (at_most (maxRoundTripLossBps config) (rt_lossBps rt)) ''round_trip_too_expensive''] @
        (case rt_lossBps rt of Some l \<Rightarrow> [soft ''round_trip_drag'' (normalize l 150 400) ''high_round_trip''] | None \<Rightarrow> []))"

record EntityReading =
  er_topTenBps :: rat
  er_trustworthy :: bool

record ConcentrationInput =
  ci_topWalletPct :: "rat option"
  ci_topTenWalletPct :: "rat option"
  ci_entity :: "EntityReading option"

definition concentration_unknown :: "bool \<Rightarrow> GateResult list" where
  "concentration_unknown capitalAtRisk =
    [if capitalAtRisk then veto ''holder_concentration'' False ''concentration_unknown''
     else soft ''holder_concentration_unavailable'' (fl (3 / 10)) ''concentration_unknown'']"

definition effective_top_ten :: "rat \<Rightarrow> rat option \<Rightarrow> rat" where
  "effective_top_ten topTen entityTopTen = (case entityTopTen of None \<Rightarrow> topTen | Some e \<Rightarrow> max topTen e)"

definition evaluateConcentrationGate :: "ConcentrationInput option \<Rightarrow> GateConfig \<Rightarrow> bool \<Rightarrow> GateResult list" where
  "evaluateConcentrationGate facts config capitalAtRisk =
    (case facts of None \<Rightarrow> concentration_unknown capitalAtRisk
     | Some f \<Rightarrow> (case ci_topTenWalletPct f of None \<Rightarrow> concentration_unknown capitalAtRisk
       | Some topTen \<Rightarrow>
        (let entityTopTen = map_option (\<lambda>e. fl (er_topTenBps e / 100)) (ci_entity f)
         in [veto ''holder_concentration'' (effective_top_ten topTen entityTopTen \<le> maxTopHolderPct config) ''concentrated_ownership''] @
            (case entityTopTen of
               Some e \<Rightarrow> if e > topTen then [soft ''entity_clustering'' (normalize (fl (e - topTen)) 5 40) ''holders_are_clustered''] else []
             | None \<Rightarrow> []) @
            (case ci_entity f of
               Some e \<Rightarrow> if \<not> er_trustworthy e then [soft ''entity_history_incomplete'' (fl (2 / 10)) ''entity_history_incomplete''] else []
             | None \<Rightarrow> []) @
            (case ci_topWalletPct f of
               Some w \<Rightarrow> [soft ''single_wallet_dominance'' (normalize w (fl (maxTopHolderPct config / 2)) (maxTopHolderPct config))
                 ''single_wallet_dominant'']
             | None \<Rightarrow> []))))"

section \<open>Summary\<close>

record GateSummary =
  gs_gates :: "GateResult list"
  gs_hardVetoes :: "string list"
  gs_softRiskScore :: rat
  gs_passedHardGates :: bool

definition contributions :: "GateResult list \<Rightarrow> rat list" where
  "contributions gates = sort_key uminus
     (map (\<lambda>g. max 0 (min 1 (gr_risk g))) (filter (\<lambda>g. gr_severity g = soft_risk) gates))"

text \<open>One of the risks below the worst: (headroom, secondary).\<close>

definition take_risk :: "rat \<Rightarrow> rat \<times> rat \<Rightarrow> rat \<times> rat" where
  "take_risk c = (\<lambda>(headroom, secondary).
    (let t = fl (headroom * c) in (fl (headroom - t), fl (secondary + t))))"

definition soft_score :: "rat list \<Rightarrow> rat" where
  "soft_score cs =
    (let primary = (case cs of [] \<Rightarrow> 0 | c # _ \<Rightarrow> c);
         (_, secondary) = fold take_risk (tl cs) (fl (1 - primary), 0)
     in max 0 (min 1 (fl (primary + secondary))))"

definition summarize :: "GateResult list \<Rightarrow> GateSummary" where
  "summarize gates =
    (let hardVetoes = map gr_reason (filter (\<lambda>g. gr_severity g = hard_veto \<and> \<not> gr_passed g) gates)
     in \<lparr>gs_gates = gates, gs_hardVetoes = hardVetoes, gs_softRiskScore = soft_score (contributions gates),
         gs_passedHardGates = (hardVetoes = [])\<rparr>)"

section \<open>Hard gates\<close>

definition hard_pass :: "GateResult list \<Rightarrow> bool" where
  "hard_pass gates \<longleftrightarrow> (\<forall>g \<in> set gates. gr_severity g = hard_veto \<longrightarrow> gr_passed g)"

lemma hard_pass_simps [simp]:
  "hard_pass []" "hard_pass (a @ b) \<longleftrightarrow> hard_pass a \<and> hard_pass b"
  "hard_pass (veto n ok r # gs) \<longleftrightarrow> ok \<and> hard_pass gs" "hard_pass (soft n x r # gs) \<longleftrightarrow> hard_pass gs"
  by (auto simp: hard_pass_def veto_def soft_def Let_def)

lemma summarize_passed: "gs_passedHardGates (summarize gates) = hard_pass gates"
  by (auto simp: summarize_def hard_pass_def filter_empty_conv Let_def)

lemma at_least_iff: "at_least m v \<longleftrightarrow> (\<exists>x. v = Some x \<and> m \<le> x)"
  by (simp add: at_least_def split: option.split)

lemma at_most_iff: "at_most m v \<longleftrightarrow> (\<exists>x. v = Some x \<and> x \<le> m)"
  by (simp add: at_most_def split: option.split)

text \<open>The window a candidate is screened under.\<close>

definition age_window :: "GateInputs \<Rightarrow> int \<times> int" where
  "age_window g = nullish (gi_cohortAgeBounds g) (minTokenAgeMs (gi_config g), maxTokenAgeMs (gi_config g))"

lemma age_gates_pass: "hard_pass (age_gates dp g) \<longleftrightarrow>
    (\<exists>a. gate_age dp g = Some a \<and> fst (age_window g) \<le> a \<and> a \<le> snd (age_window g))"
  by (auto simp: age_gates_def age_window_def Let_def split: option.splits prod.splits)

lemma market_gates_pass [simp]: "hard_pass (market_gates g)"
  by (simp add: market_gates_def Let_def split: option.splits)

lemma cheap_pass: "hard_pass (evaluateCheapGates dp g) \<longleftrightarrow>
    (case gi_sourceAgeMs g of None \<Rightarrow> \<not> gi_capitalAtRisk g | Some a \<Rightarrow> a \<le> maxSourceAgeMs (gi_config g)) \<and>
    nullish (mi_tokenProgram (gi_info g)) ''unknown'' \<in> set (allowedTokenPrograms (gi_config g)) \<and>
    hard_pass (authority_gates g) \<and>
    (\<exists>a. gate_age dp g = Some a \<and> fst (age_window g) \<le> a \<and> a \<le> snd (age_window g)) \<and>
    at_least (minLiquidityUsd (gi_config g)) (mi_liquidity (gi_info g)) \<and>
    at_least (minHolderCount (gi_config g)) (mi_holderCount (gi_info g)) \<and>
    (\<forall>p. devBalancePercentage (mi_audit (gi_info g)) = Some p \<longrightarrow> p \<le> maxDevBalancePct (gi_config g)) \<and>
    minBuyCount5m (gi_config g) \<le> nullish (sw_numBuys (mi_stats5m (gi_info g))) 0 \<and>
    (\<forall>n. sw_numNetBuyers (mi_stats5m (gi_info g)) = Some n \<longrightarrow> minNetBuyers5m (gi_config g) \<le> n) \<and>
    (\<forall>x. mi_organicScore (gi_info g) = Some x \<and> 0 < x \<longrightarrow> minOrganicScore (gi_config g) \<le> x) \<and>
    (\<forall>t. gi_token2022 g = Some t \<longrightarrow> \<not> (hasMoneyCriticalBehaviour t \<and> gi_capitalAtRisk g)) \<and>
    isSus (mi_audit (gi_info g)) \<noteq> Some True"
proof -
  have fresh: "hard_pass [freshness_gate g, program_gate g] \<longleftrightarrow>
      (case gi_sourceAgeMs g of None \<Rightarrow> \<not> gi_capitalAtRisk g | Some a \<Rightarrow> a \<le> maxSourceAgeMs (gi_config g)) \<and>
      nullish (mi_tokenProgram (gi_info g)) ''unknown'' \<in> set (allowedTokenPrograms (gi_config g))"
    by (simp add: freshness_gate_def program_gate_def split: option.split)
  have depth: "hard_pass (depth_gates g) \<longleftrightarrow> at_least (minLiquidityUsd (gi_config g)) (mi_liquidity (gi_info g)) \<and>
      at_least (minHolderCount (gi_config g)) (mi_holderCount (gi_info g))"
    by (simp add: depth_gates_def)
  have holders: "hard_pass (holder_gates g) \<longleftrightarrow>
      (\<forall>p. devBalancePercentage (mi_audit (gi_info g)) = Some p \<longrightarrow> p \<le> maxDevBalancePct (gi_config g))"
    by (simp add: holder_gates_def Let_def split: option.split)
  have flow: "hard_pass (flow_gates g) \<longleftrightarrow> minBuyCount5m (gi_config g) \<le> nullish (sw_numBuys (mi_stats5m (gi_info g))) 0 \<and>
      (\<forall>n. sw_numNetBuyers (mi_stats5m (gi_info g)) = Some n \<longrightarrow> minNetBuyers5m (gi_config g) \<le> n)"
    by (simp add: flow_gates_def Let_def split: option.split)
  have organic: "hard_pass [organic_gate g] \<longleftrightarrow>
      (\<forall>x. mi_organicScore (gi_info g) = Some x \<and> 0 < x \<longrightarrow> minOrganicScore (gi_config g) \<le> x)"
    by (simp add: organic_gate_def split: option.split)
  have t22: "hard_pass (token2022_gates g) \<longleftrightarrow>
      (\<forall>t. gi_token2022 g = Some t \<longrightarrow> \<not> (hasMoneyCriticalBehaviour t \<and> gi_capitalAtRisk g))"
    by (simp add: token2022_gates_def split: option.split)
  have sus: "hard_pass (sus_gate g) \<longleftrightarrow> isSus (mi_audit (gi_info g)) \<noteq> Some True" by (simp add: sus_gate_def)
  show ?thesis
    unfolding evaluateCheapGates_def hard_pass_simps(2) fresh depth holders flow organic t22 sus age_gates_pass
    by simp
qed

lemma quote_pass: "hard_pass (evaluateQuoteGates roundTrip config) \<longleftrightarrow>
    (\<exists>rt l. roundTrip = Some rt \<and> 0 < rt_buyOutAmount rt \<and> rt_exitExists rt \<and>
      (\<forall>x. ir_adverseBps (rt_buyImpact rt) = Some x \<longrightarrow> x \<le> maxPriceImpactBps config) \<and>
      rt_lossBps rt = Some l \<and> l \<le> maxRoundTripLossBps config)"
  by (auto simp: evaluateQuoteGates_def at_most_iff split: option.split)

lemma concentration_pass: "hard_pass (evaluateConcentrationGate facts config capitalAtRisk) \<longleftrightarrow>
    (case facts of None \<Rightarrow> \<not> capitalAtRisk
     | Some f \<Rightarrow> (case ci_topTenWalletPct f of None \<Rightarrow> \<not> capitalAtRisk
       | Some topTen \<Rightarrow> effective_top_ten topTen (map_option (\<lambda>e. fl (er_topTenBps e / 100)) (ci_entity f)) \<le> maxTopHolderPct config))"
  by (auto simp: evaluateConcentrationGate_def concentration_unknown_def Let_def split: option.split)

section \<open>The soft score\<close>

definition clamped_risks :: "GateResult list \<Rightarrow> rat list" where
  "clamped_risks gates = map (\<lambda>g. max 0 (min 1 (gr_risk g))) (filter (\<lambda>g. gr_severity g = soft_risk) gates)"

lemma contributions_sorted: "contributions gates = sort_key uminus (clamped_risks gates)"
  by (simp add: contributions_def clamped_risks_def)

lemma clamped_risks_append: "clamped_risks (a @ b) = clamped_risks a @ clamped_risks b"
  by (simp add: clamped_risks_def)

lemma clamped_unit: "\<forall>c \<in> set (clamped_risks gates). 0 \<le> c \<and> c \<le> 1"
  by (auto simp: clamped_risks_def)

lemma sort_desc_zero:
  assumes "\<forall>c \<in> set (xs @ ys). 0 \<le> (c :: rat)"
  shows "sort_key uminus (xs @ 0 # ys) = sort_key uminus (xs @ ys) @ [0]"
proof (rule sort_key_inj_key_eq)
  show "mset (xs @ 0 # ys) = mset (sort_key uminus (xs @ ys) @ [0])" by simp
  show "inj_on uminus (set (xs @ 0 # ys))" by (rule inj_onI) simp
  have "\<forall>x \<in> set (map uminus (sort_key uminus (xs @ ys))). x \<le> 0" using assms by auto
  then show "sorted (map uminus (sort_key uminus (xs @ ys) @ [0]))"
    unfolding map_append sorted_append by (auto simp: sorted_sort_key)
qed

lemma take_risk_doubles: "is_double h \<Longrightarrow> is_double s \<Longrightarrow> is_double (fst (take_risk c (h, s))) \<and> is_double (snd (take_risk c (h, s)))"
  by (simp add: take_risk_def Let_def)

lemma take_risk_zero: "is_double h \<Longrightarrow> is_double s \<Longrightarrow> take_risk 0 (h, s) = (h, s)"
  by (simp add: take_risk_def is_double_def)

lemma fold_take_doubles: "is_double h \<Longrightarrow> is_double s \<Longrightarrow>
    is_double (fst (fold take_risk cs (h, s))) \<and> is_double (snd (fold take_risk cs (h, s)))"
proof (induction cs arbitrary: h s)
  case (Cons c cs)
  obtain h' s' where "take_risk c (h, s) = (h', s')" by fastforce
  then show ?case using Cons take_risk_doubles [OF Cons.prems, of c] by simp
qed simp

lemma soft_score_zero: "soft_score (cs @ [0]) = soft_score cs"
proof (cases cs)
  case (Cons c cs')
  obtain h s where f: "fold take_risk cs' (fl (1 - c), 0) = (h, s)" by fastforce
  then have "take_risk 0 (h, s) = (h, s)" using fold_take_doubles [of "fl (1 - c)" 0 cs'] take_risk_zero by simp
  then show ?thesis using Cons f by (simp add: soft_score_def)
qed (simp add: soft_score_def)

lemma fold_take_nonneg: "0 \<le> h \<Longrightarrow> is_double h \<Longrightarrow> 0 \<le> s \<Longrightarrow> \<forall>c \<in> set cs. 0 \<le> c \<and> c \<le> 1 \<Longrightarrow>
    0 \<le> fst (fold take_risk cs (h, s)) \<and> 0 \<le> snd (fold take_risk cs (h, s))"
proof (induction cs arbitrary: h s)
  case (Cons c cs)
  have t: "0 \<le> fl (h * c)" using Cons.prems by (intro fl_nonneg) simp
  have "fl (h * c) \<le> fl h" using Cons.prems by (intro fl_mono) (simp add: mult_left_le)
  then have "fl (h * c) \<le> h" using Cons.prems(2) by (simp add: is_double_def)
  then have "0 \<le> fl (h - fl (h * c))" by (intro fl_nonneg) simp
  moreover have "0 \<le> fl (s + fl (h * c))" using t Cons.prems(3) by (intro fl_nonneg) simp
  ultimately show ?case using Cons.IH [of "fl (h - fl (h * c))" "fl (s + fl (h * c))"] Cons.prems(4)
    by (simp add: take_risk_def Let_def)
qed simp

lemma soft_score_floor:
  assumes "\<forall>c \<in> set cs. 0 \<le> c \<and> c \<le> 1 \<and> is_double c" and "sorted (map uminus cs)" and "c \<in> set cs"
  shows "c \<le> soft_score cs"
proof -
  obtain p cs' where cs: "cs = p # cs'" using assms(3) by (cases cs) auto
  have p: "0 \<le> p" "p \<le> 1" "fl p = p" and top: "c \<le> p"
    using assms cs by (auto simp: is_double_def sorted_wrt_map)
  obtain h s where f: "fold take_risk cs' (fl (1 - p), 0) = (h, s)" by fastforce
  have "0 \<le> s" using fold_take_nonneg [of "fl (1 - p)" 0 cs'] p(2) f assms(1) cs by (simp add: fl_nonneg)
  then have "p \<le> fl (p + s)" using fl_mono [of p "p + s"] p(3) by simp
  then show ?thesis using top p(2) cs f by (auto simp: soft_score_def le_max_iff_disj)
qed

text \<open>Soft risk is never diluted. A gate that reports no risk changes neither the score nor the verdict, to the
  last bit, wherever it stands in the list and whatever its neighbours say: the mean it replaced
  would have shrunk every other risk.\<close>

theorem zero_risk_changes_nothing:
  assumes "gr_severity g = soft_risk" and "gr_risk g \<le> 0"
  shows "gs_softRiskScore (summarize (a @ g # b)) = gs_softRiskScore (summarize (a @ b)) \<and>
    gs_passedHardGates (summarize (a @ g # b)) = gs_passedHardGates (summarize (a @ b)) \<and>
    gs_hardVetoes (summarize (a @ g # b)) = gs_hardVetoes (summarize (a @ b))"
proof -
  have "clamped_risks (a @ g # b) = clamped_risks a @ 0 # clamped_risks b" using assms by (simp add: clamped_risks_def)
  then have "contributions (a @ g # b) = contributions (a @ b) @ [0]"
    using sort_desc_zero [of "clamped_risks a" "clamped_risks b"] clamped_unit
    by (fastforce simp: contributions_sorted clamped_risks_append)
  then show ?thesis using assms(1) by (simp add: summarize_def soft_score_zero Let_def)
qed

theorem zero_risk_changes_nothing_witness:
  "gs_softRiskScore (summarize ([soft ''a'' (9 / 10) ''r''] @ soft ''b'' (- 1) ''r'' # [veto ''c'' True ''r''])) =
   gs_softRiskScore (summarize [soft ''a'' (9 / 10) ''r'', veto ''c'' True ''r''])"
  using zero_risk_changes_nothing [of "soft ''b'' (- 1) ''r''" "[soft ''a'' (9 / 10) ''r'']" "[veto ''c'' True ''r'']"]
  by (simp add: soft_def)

text \<open>The worst single risk sets the floor: the score of any list of gates whose risks are doubles lies between
  zero and one and is at least every soft risk in it.\<close>

theorem worst_risk_sets_the_floor:
  assumes "\<forall>g \<in> set gates. is_double (gr_risk g)" and "g \<in> set gates" and "gr_severity g = soft_risk"
  shows "max 0 (min 1 (gr_risk g)) \<le> gs_softRiskScore (summarize gates) \<and> gs_softRiskScore (summarize gates) \<le> 1"
proof -
  have "\<forall>c \<in> set (contributions gates). 0 \<le> c \<and> c \<le> 1 \<and> is_double c"
    using assms(1) clamped_unit [of gates] by (auto simp: contributions_sorted clamped_risks_def is_double_clamp)
  moreover have "sorted (map uminus (contributions gates))" by (simp add: contributions_sorted)
  moreover have "max 0 (min 1 (gr_risk g)) \<in> set (contributions gates)" using assms(2,3) by (auto simp: contributions_def)
  ultimately have "max 0 (min 1 (gr_risk g)) \<le> soft_score (contributions gates)" by (rule soft_score_floor)
  moreover have "soft_score cs \<le> 1" for cs by (simp add: soft_score_def Let_def split: prod.split)
  ultimately show ?thesis by (simp add: summarize_def)
qed

lemma quarters_double [simp]: "is_double (1 / 4)" "is_double (3 / 4)"
  using fl_exact [of 1 "-2"] fl_exact [of 3 "-2"] by (simp_all add: is_double_def power_int_minus)

lemma normalize_double [simp]: "is_double (normalize v l h)"
  by (simp add: normalize_def is_double_clamp)

theorem worst_risk_sets_the_floor_witness:
  "3 / 4 \<le> gs_softRiskScore (summarize [soft ''a'' (1 / 4) ''r'', soft ''b'' (3 / 4) ''r'', soft ''c'' 0 ''r''])"
  using worst_risk_sets_the_floor [of "[soft ''a'' (1 / 4) ''r'', soft ''b'' (3 / 4) ''r'', soft ''c'' 0 ''r'']" "soft ''b'' (3 / 4) ''r''"]
  by (simp add: soft_def)

end
