(* ===== verification/Screening.thy ===== *)
theory Screening
  imports EntryGates
begin

text \<open>
  The one screening path: \<open>packages/strategy/src/screen.ts\<close> on the gates of \<open>EntryGates\<close>, the opportunity score
  of \<open>score.ts\<close>, and the pipeline's call of the cheap layer (\<open>packages/pipeline/src/cycle.ts\<close>). \<open>Math.log10\<close>
  is an argument, since its last digit is the implementation's. The snapshot (identifiers, clock readings
  and copies of the inputs) is left out of the outcome.
\<close>

section \<open>Score\<close>

definition MIN_SCORE_COVERAGE :: rat where "MIN_SCORE_COVERAGE = 1 / 2"

text \<open>A running (weighted sum, weight), over the terms that were observed.\<close>

fun add_term :: "rat \<times> rat option \<Rightarrow> rat \<times> rat \<Rightarrow> rat \<times> rat" where
  "add_term (w, None) acc = acc"
| "add_term (w, Some v) (weighted, weight) = (fl (weighted + fl (w * v)), fl (weight + w))"

definition weigh :: "(rat \<times> rat option) list \<Rightarrow> rat \<times> rat" where
  "weigh terms = fold add_term terms (0, 0)"

definition total_weight :: "(rat \<times> rat option) list \<Rightarrow> rat" where
  "total_weight terms = fold (\<lambda>(w, _) acc. fl (acc + w)) terms 0"

definition round4 :: "rat \<Rightarrow> rat" where
  "round4 n = fl (of_int \<lfloor>fl (n * 10000) + 1 / 2\<rfloor> / 10000)"

definition breadth_of :: "StatsWindow \<Rightarrow> rat option" where
  "breadth_of s5 =
    (let (weighted, weight) = weigh
           [(fl (6 / 10), map_option (\<lambda>n. normalize n 0 60) (sw_numNetBuyers s5)),
            (fl (4 / 10), map_option (\<lambda>n. normalize n 0 150) (sw_numTraders s5))]
     in if weight = 0 then None else Some (fl (weighted / weight)))"

definition liquidity_of :: "(rat \<Rightarrow> rat) \<Rightarrow> MintInformation \<Rightarrow> rat option" where
  "liquidity_of log10 info = map_option (\<lambda>liq. normalize (log10 (max liq 1)) (log10 5000) (log10 150000)) (mi_liquidity info)"

definition organic_of :: "MintInformation \<Rightarrow> rat option" where
  "organic_of info = (case mi_organicScore info of None \<Rightarrow> None
     | Some organic \<Rightarrow> if organic = 0 then None else Some (normalize organic 0 80))"

definition tradability_of :: "RoundTrip option \<Rightarrow> rat option" where
  "tradability_of roundTrip = (case roundTrip of None \<Rightarrow> None
     | Some rt \<Rightarrow> map_option (\<lambda>loss. fl (1 - normalize loss 100 600)) (rt_lossBps rt))"

definition freshness_of :: "int option \<Rightarrow> rat option" where
  "freshness_of tokenAgeMs = map_option (\<lambda>age.
     let ageMin = fl (of_int age / 60000)
     in if ageMin \<le> 0 then 0 else if ageMin \<le> 10 then normalize ageMin 2 10 else fl (1 - normalize ageMin 10 60)) tokenAgeMs"

definition score_terms :: "(rat \<Rightarrow> rat) \<Rightarrow> MintInformation \<Rightarrow> RoundTrip option \<Rightarrow> int option \<Rightarrow> (rat \<times> rat option) list" where
  "score_terms log10 info roundTrip tokenAgeMs =
    [(fl (3 / 10), breadth_of (mi_stats5m info)), (fl (2 / 10), liquidity_of log10 info),
     (fl (2 / 10), organic_of info), (fl (2 / 10), tradability_of roundTrip), (fl (1 / 10), freshness_of tokenAgeMs)]"

definition unknown_components :: "MintInformation \<Rightarrow> RoundTrip option \<Rightarrow> int option \<Rightarrow> string list" where
  "unknown_components info roundTrip tokenAgeMs =
    (if sw_numNetBuyers (mi_stats5m info) = None then [''numNetBuyers''] else []) @
    (if sw_numTraders (mi_stats5m info) = None then [''numTraders''] else []) @
    (if mi_liquidity info = None then [''liquidity''] else []) @
    (if mi_organicScore info \<in> {None, Some 0} then [''organicScore''] else []) @
    (if tradability_of roundTrip = None then [''roundTripLossBps''] else []) @
    (if tokenAgeMs = None then [''tokenAgeMs''] else [])"

text \<open>The five component entries are the terms in order, an unobserved one as zero.\<close>

record ScoreResult =
  sc_score :: rat
  sc_components :: "rat list"
  sc_raw :: rat
  sc_softRisk :: rat
  sc_observedWeight :: rat
  sc_unknownComponents :: nat
  sc_coverage :: rat
  sc_insufficientCoverage :: bool

definition raw_score :: "(rat \<times> rat option) list \<Rightarrow> rat" where
  "raw_score terms = (let (weighted, observed) = weigh terms in if observed = 0 then 0 else fl (weighted / observed))"

definition coverage_of :: "(rat \<times> rat option) list \<Rightarrow> rat" where
  "coverage_of terms = (if total_weight terms = 0 then 0 else fl (snd (weigh terms) / total_weight terms))"

definition opportunityScore ::
    "(rat \<Rightarrow> rat) \<Rightarrow> MintInformation \<Rightarrow> RoundTrip option \<Rightarrow> rat \<Rightarrow> int option \<Rightarrow> ScoreResult" where
  "opportunityScore log10 info roundTrip softRiskScore tokenAgeMs =
    (let terms = score_terms log10 info roundTrip tokenAgeMs;
         raw = raw_score terms;
         coverage = coverage_of terms;
         riskAdjusted = fl (raw * fl (1 - max 0 (min 1 softRiskScore)))
     in \<lparr>sc_score = round4 riskAdjusted, sc_components = map (\<lambda>(_, v). round4 (nullish v 0)) terms,
         sc_raw = round4 raw, sc_softRisk = round4 softRiskScore,
         sc_observedWeight = round4 (snd (weigh terms)),
         sc_unknownComponents = length (unknown_components info roundTrip tokenAgeMs),
         sc_coverage = round4 coverage, sc_insufficientCoverage = (coverage < MIN_SCORE_COVERAGE)\<rparr>)"

section \<open>Screening\<close>

datatype Mode = mode_observe | mode_paper | mode_replay | mode_backtest | mode_canary | mode_live

definition SIGNING_MODES :: "Mode list" where
  "SIGNING_MODES = [mode_canary, mode_live]"

definition capitalAtRisk :: "Mode \<Rightarrow> bool" where
  "capitalAtRisk m = (m \<in> set SIGNING_MODES)"

record AppConfig =
  ac_mode :: Mode
  ac_gates :: GateConfig
  ac_minOpportunityScore :: rat

definition tokenAgeMs :: "(string \<Rightarrow> int option) \<Rightarrow> MintInformation \<Rightarrow> int \<Rightarrow> int option" where
  "tokenAgeMs date_parse info nowUtcMs = map_option (\<lambda>created. nowUtcMs - created)
     (orElse (parseUtc date_parse (mi_firstPoolCreatedAt info)) (parseUtc date_parse (mi_createdAt info)))"

definition gate_inputs ::
    "MintInformation \<Rightarrow> AppConfig \<Rightarrow> int \<Rightarrow> int option \<Rightarrow> (FactVerdict \<times> FactVerdict) option \<Rightarrow> Token2022Facts option \<Rightarrow>
     (int \<times> int) option \<Rightarrow> GateInputs" where
  "gate_inputs info config nowUtcMs sourceAgeMs chainFacts token2022 bounds =
    \<lparr>gi_info = info, gi_nowUtcMs = nowUtcMs, gi_sourceAgeMs = sourceAgeMs, gi_capitalAtRisk = capitalAtRisk (ac_mode config),
     gi_config = ac_gates config, gi_chainFacts = chainFacts, gi_cohortAgeBounds = bounds, gi_token2022 = token2022\<rparr>"

definition screenCheap ::
    "(string \<Rightarrow> int option) \<Rightarrow> MintInformation \<Rightarrow> AppConfig \<Rightarrow> int \<Rightarrow> int option \<Rightarrow> (FactVerdict \<times> FactVerdict) option \<Rightarrow>
     Token2022Facts option \<Rightarrow> (int \<times> int) option \<Rightarrow> GateResult list \<times> bool" where
  "screenCheap date_parse info config nowUtcMs sourceAgeMs chainFacts token2022 bounds =
    (let gates = evaluateCheapGates date_parse (gate_inputs info config nowUtcMs sourceAgeMs chainFacts token2022 bounds);
         unread = (capitalAtRisk (ac_mode config) \<and> token2022 = None \<and> mi_tokenProgram info = Some TOKEN_2022_PROGRAM);
         all = (if unread then gates @ [veto ''token2022_unread'' False ''token2022_unread''] else gates)
     in (all, gs_passedHardGates (summarize all)))"

record ScreeningOutcome =
  so_gates :: "GateResult list"
  so_hardVetoes :: "string list"
  so_softRiskScore :: rat
  so_score :: ScoreResult
  so_eligible :: bool
  so_deservesQuote :: bool

definition finalizeScreen ::
    "(string \<Rightarrow> int option) \<Rightarrow> (rat \<Rightarrow> rat) \<Rightarrow> MintInformation \<Rightarrow> AppConfig \<Rightarrow> int \<Rightarrow> GateResult list \<Rightarrow> RoundTrip option \<Rightarrow>
     ConcentrationInput option \<Rightarrow> ScreeningOutcome" where
  "finalizeScreen date_parse log10 info config nowUtcMs cheapGates roundTrip concentration =
    (let deservesQuote = gs_passedHardGates (summarize cheapGates);
         quoteGates = (if deservesQuote then evaluateQuoteGates roundTrip (ac_gates config) else []);
         concentrationGates = (if deservesQuote
           then evaluateConcentrationGate concentration (ac_gates config) (capitalAtRisk (ac_mode config)) else []);
         gates = cheapGates @ quoteGates @ concentrationGates;
         summary = summarize gates;
         result = opportunityScore log10 info roundTrip (gs_softRiskScore summary) (tokenAgeMs date_parse info nowUtcMs)
     in \<lparr>so_gates = gates, so_hardVetoes = gs_hardVetoes summary, so_softRiskScore = gs_softRiskScore summary,
         so_score = result, so_eligible = (gs_passedHardGates summary \<and> sc_score result \<ge> ac_minOpportunityScore config),
         so_deservesQuote = deservesQuote\<rparr>)"

text \<open>The pipeline's screening of one candidate: the mint is read (\<open>None\<close> without an RPC), the chain verdicts are
  not handed on.\<close>

definition cycle_screen ::
    "(string \<Rightarrow> int option) \<Rightarrow> MintInformation \<Rightarrow> AppConfig \<Rightarrow> int \<Rightarrow> DirectMintFacts option \<Rightarrow> (int \<times> int) option \<Rightarrow>
     GateResult list \<times> bool" where
  "cycle_screen date_parse info config nowUtcMs direct bounds =
    (let sourceAgeMs = map_option (\<lambda>updated. nowUtcMs - updated) (parseUtc date_parse (mi_updatedAt info))
     in screenCheap date_parse info config nowUtcMs sourceAgeMs None (map_option gateFactsFrom direct) bounds)"

section \<open>Scores\<close>

lemma normalize_unit: "0 \<le> normalize v l h \<and> normalize v l h \<le> 1"
  by (simp add: normalize_def)

lemma one_minus_unit: "0 \<le> x \<Longrightarrow> x \<le> 1 \<Longrightarrow> 0 \<le> fl (1 - x) \<and> fl (1 - x) \<le> 1"
  using fl_mono [of "1 - x" 1] fl_int [of 1] by (simp add: fl_nonneg)

text \<open>Terms whose values lie between zero and one, with weights that are positive doubles.\<close>

definition unit_terms :: "(rat \<times> rat option) list \<Rightarrow> bool" where
  "unit_terms terms \<longleftrightarrow> (\<forall>(w, v) \<in> set terms. 0 < w \<and> is_double w \<and> (\<forall>x. v = Some x \<longrightarrow> 0 \<le> x \<and> x \<le> 1))"

lemma fold_terms_ordered:
  "unit_terms terms \<Longrightarrow> 0 \<le> s \<Longrightarrow> s \<le> o' \<Longrightarrow>
    0 \<le> fst (fold add_term terms (s, o')) \<and> fst (fold add_term terms (s, o')) \<le> snd (fold add_term terms (s, o'))"
proof (induction terms arbitrary: s o')
  case (Cons t terms)
  obtain w v where t: "t = (w, v)" by fastforce
  show ?case
  proof (cases v)
    case None
    then show ?thesis using Cons t by (simp add: unit_terms_def)
  next
    case (Some x)
    have w: "0 < w" "fl w = w" "0 \<le> x" "x \<le> 1" using Cons.prems(1) t Some by (auto simp: unit_terms_def is_double_def)
    have "fl (w * x) \<le> w" using fl_mono [of "w * x" w] w by (simp add: mult_left_le)
    then have "fl (s + fl (w * x)) \<le> fl (o' + w)" using Cons.prems(3) by (intro fl_mono) simp
    moreover have "0 \<le> fl (s + fl (w * x))" using Cons.prems(2) w by (intro fl_nonneg) (simp add: fl_nonneg)
    ultimately show ?thesis using Cons.IH [of "fl (s + fl (w * x))" "fl (o' + w)"] Cons.prems(1) t Some
      by (simp add: unit_terms_def)
  qed
qed simp

lemma quotient_unit: "0 \<le> a \<Longrightarrow> a \<le> b \<Longrightarrow> b \<noteq> 0 \<Longrightarrow> 0 \<le> fl (a / b) \<and> fl (a / b) \<le> 1"
  using fl_mono [of "a / b" 1] fl_int [of 1] by (simp add: fl_nonneg)

lemma weigh_unit:
  assumes "unit_terms terms" and "weigh terms = (s, w)" and "w \<noteq> 0"
  shows "0 \<le> fl (s / w) \<and> fl (s / w) \<le> 1"
  using fold_terms_ordered [OF assms(1), of 0 0] assms(2,3) by (intro quotient_unit) (simp_all add: weigh_def)

lemma raw_unit: "unit_terms terms \<Longrightarrow> 0 \<le> raw_score terms \<and> raw_score terms \<le> 1"
  using weigh_unit [of terms] by (auto simp: raw_score_def split: prod.split)

lemma fl_positive [simp]: "0 < x \<Longrightarrow> 0 < fl x"
  using fl_between(1) [of x] zero_less_power_int [of "2 :: rat" "ilog2 x"] by (meson less_le_trans zero_less_numeral)

text \<open>A list of positive double weights with optional unit values.\<close>

lemma unit_terms_simps [simp]:
  "unit_terms []"
  "unit_terms ((w, v) # ts) \<longleftrightarrow> 0 < w \<and> is_double w \<and> (\<forall>x. v = Some x \<longrightarrow> 0 \<le> x \<and> x \<le> 1) \<and> unit_terms ts"
  by (auto simp: unit_terms_def)

lemma breadth_unit:
  assumes "breadth_of s5 = Some x"
  shows "0 \<le> x \<and> x \<le> 1"
proof -
  let ?ts = "[(fl (6 / 10), map_option (\<lambda>n. normalize n 0 60) (sw_numNetBuyers s5)),
      (fl (4 / 10), map_option (\<lambda>n. normalize n 0 150) (sw_numTraders s5))]"
  have u: "unit_terms ?ts" using normalize_unit by auto
  obtain s w where w: "weigh ?ts = (s, w)" by fastforce
  have "w \<noteq> 0 \<and> x = fl (s / w)" using assms unfolding breadth_of_def w by (simp split: if_splits)
  then show ?thesis using weigh_unit [OF u w] by simp
qed

lemma freshness_unit: "freshness_of a = Some x \<Longrightarrow> 0 \<le> x \<and> x \<le> 1"
  using normalize_unit one_minus_unit by (auto simp: freshness_of_def Let_def)

lemma tradability_unit: "tradability_of rt = Some x \<Longrightarrow> 0 \<le> x \<and> x \<le> 1"
  using normalize_unit one_minus_unit by (auto simp: tradability_of_def split: option.splits)

lemma score_terms_unit: "unit_terms (score_terms log10 info rt a)"
  using breadth_unit freshness_unit tradability_unit normalize_unit
  by (auto simp: score_terms_def liquidity_of_def organic_of_def split: option.splits if_splits)

lemma round4_mono: "a \<le> b \<Longrightarrow> round4 a \<le> round4 b"
  unfolding round4_def by (intro fl_mono divide_right_mono) (simp_all add: floor_mono fl_mono)

lemma round4_ends [simp]: "round4 0 = 0" "round4 1 = 1"
proof -
  have "\<lfloor>(1 :: rat) / 2\<rfloor> = 0" "\<lfloor>(20001 :: rat) / 2\<rfloor> = 10000" by (simp_all add: floor_eq_iff)
  then show "round4 0 = 0" "round4 1 = 1" using fl_int [of 10000] fl_int [of 1] by (simp_all add: round4_def)
qed

lemma risk_factor: "0 \<le> fl (1 - max 0 (min 1 r)) \<and> fl (1 - max 0 (min 1 r)) \<le> 1"
  by (intro one_minus_unit) simp_all

lemma score_unit: "0 \<le> sc_score (opportunityScore log10 info rt r a) \<and> sc_score (opportunityScore log10 info rt r a) \<le> 1"
proof -
  note raw = raw_unit [OF score_terms_unit [of log10 info rt a]]
  have "0 \<le> fl (raw_score (score_terms log10 info rt a) * fl (1 - max 0 (min 1 r)))"
    using raw risk_factor by (intro fl_nonneg) simp
  moreover have "fl (raw_score (score_terms log10 info rt a) * fl (1 - max 0 (min 1 r))) \<le> fl 1"
    using raw risk_factor by (intro fl_mono mult_le_one) simp_all
  ultimately have "round4 0 \<le> round4 (fl (raw_score (score_terms log10 info rt a) * fl (1 - max 0 (min 1 r))))"
    and "round4 (fl (raw_score (score_terms log10 info rt a) * fl (1 - max 0 (min 1 r)))) \<le> round4 1"
    using fl_int [of 1] by (intro round4_mono; simp)+
  then show ?thesis by (simp add: opportunityScore_def Let_def)
qed

text \<open>Evaluating a rounding: the significand \<open>m\<close> of \<open>x\<close> at the scale \<open>2 ^ k\<close>, ties to even.\<close>

lemma round_even_eval:
  assumes "\<bar>x - of_int m\<bar> < 1 / 2 \<or> \<bar>x - of_int m\<bar> = 1 / 2 \<and> even m"
  shows "round_even x = m"
proof -
  consider (up) "\<lfloor>x\<rfloor> = m" | (down) "\<lfloor>x\<rfloor> = m - 1" using assms by (fastforce simp: floor_eq_iff abs_if split: if_splits)
  then show ?thesis
  proof cases
    case up
    then show ?thesis using assms by (auto simp: round_even_def Let_def abs_if split: if_splits)
  next
    case down
    then have "of_int m - x \<le> 1 / 2" "odd \<lfloor>x\<rfloor> \<or> of_int m - x < 1 / 2"
      using assms by (auto simp: abs_if split: if_splits)
    moreover have "x - of_int \<lfloor>x\<rfloor> = 1 - (of_int m - x)" using down by simp
    ultimately show ?thesis using down by (auto simp: round_even_def Let_def)
  qed
qed

lemma fl_eval:
  assumes "2 ^ 52 \<le> x * 2 ^ k" and "x * 2 ^ k < 2 ^ 53"
    and "\<bar>x * 2 ^ k - of_int m\<bar> < 1 / 2 \<or> \<bar>x * 2 ^ k - of_int m\<bar> = 1 / 2 \<and> even m"
  shows "fl x = of_int m / 2 ^ k"
proof -
  have x: "0 < x" using assms(1) mult_nonpos_nonneg [of x "2 ^ k"] by (cases "0 < x") simp_all
  have p: "(2 :: rat) powi (int j - int k) = 2 ^ j / 2 ^ k" for j by (simp add: power_int_diff)
  have "ilog2 x = 52 - int k"
  proof (rule ilog2_unique)
    show "2 powi (52 - int k) \<le> x" using assms(1) p [of 52] by (simp add: pos_divide_le_eq)
    have "52 - int k + 1 = int 53 - int k" by simp
    then show "x < 2 powi (52 - int k + 1)" using assms(2) p [of 53] by (simp add: pos_less_divide_eq)
  qed
  then show ?thesis using round_even_eval [OF assms(3)] x p [of 0] by (simp add: fl_pos_eq power_int_minus divide_inverse)
qed

lemma weights: "fl (1 / 10) = 7205759403792794 / 2 ^ 56" "fl (2 / 10) = 7205759403792794 / 2 ^ 55"
    "fl (3 / 10) = 5404319552844595 / 2 ^ 54"
  using fl_eval [of "1 / 10" 56 7205759403792794] fl_eval [of "2 / 10" 55 7205759403792794]
    fl_eval [of "3 / 10" 54 5404319552844595] by simp_all

text \<open>The score lies between zero and one whatever was and was not observed, and more soft risk never raises it.\<close>

theorem risk_never_raises_score:
  assumes "r \<le> r'"
  shows "0 \<le> sc_score (opportunityScore log10 info rt r' a) \<and>
    sc_score (opportunityScore log10 info rt r' a) \<le> sc_score (opportunityScore log10 info rt r a) \<and>
    sc_score (opportunityScore log10 info rt r a) \<le> 1"
proof -
  have "fl (1 - max 0 (min 1 r')) \<le> fl (1 - max 0 (min 1 r))" 
    using assms by (intro fl_mono) linarith
  then have "fl (raw_score (score_terms log10 info rt a) * fl (1 - max 0 (min 1 r'))) \<le>
      fl (raw_score (score_terms log10 info rt a) * fl (1 - max 0 (min 1 r)))"
    by (rule fl_mono [OF mult_left_mono]) (simp add: raw_unit [OF score_terms_unit])
  from round4_mono [OF this] show ?thesis using score_unit [of log10 info rt r a] score_unit [of log10 info rt r' a]
    by (simp add: opportunityScore_def Let_def)
qed

text \<open>What the five terms weigh when only the three that an eligible candidate must have were observed.\<close>

lemma weigh_lower:
  assumes "0 \<le> o1" and "0 \<le> o2"
  shows "1 / 2 \<le> fl (fl (fl (fl (o1 + fl (2 / 10)) + o2) + fl (2 / 10)) + fl (1 / 10))"
proof -
  have "fl (2 / 10) \<le> fl (o1 + fl (2 / 10))" using fl_mono [of "fl (2 / 10)" "o1 + fl (2 / 10)"] assms(1) by simp
  then have "fl (2 / 10) \<le> fl (fl (o1 + fl (2 / 10)) + o2)"
    using fl_mono [of "fl (2 / 10)" "fl (o1 + fl (2 / 10)) + o2"] assms(2) by simp
  then have "fl (fl (2 / 10) + fl (2 / 10)) \<le> fl (fl (fl (o1 + fl (2 / 10)) + o2) + fl (2 / 10))" by (intro fl_mono) simp
  then have "fl (fl (fl (2 / 10) + fl (2 / 10)) + fl (1 / 10)) \<le> fl (fl (fl (fl (o1 + fl (2 / 10)) + o2) + fl (2 / 10)) + fl (1 / 10))"
    by (intro fl_mono) simp
  moreover have "fl (7205759403792794 / 2 ^ 55 + 7205759403792794 / 2 ^ 55) = 7205759403792794 / 2 ^ 54"
    by (rule fl_eval [of _ 54 7205759403792794, simplified of_int_numeral]) simp_all
  moreover have "fl (7205759403792794 / 2 ^ 54 + 7205759403792794 / 2 ^ 56) = 4503599627370496 / 2 ^ 53"
    by (rule fl_eval [of _ 53 4503599627370496, simplified of_int_numeral]) simp_all
  ultimately have "4503599627370496 / 2 ^ 53 \<le> fl (fl (fl (fl (o1 + fl (2 / 10)) + o2) + fl (2 / 10)) + fl (1 / 10))"
    unfolding weights by (simp only:)
  then show ?thesis by simp
qed

lemma total_of_terms: "total_weight (score_terms log10 info rt a) = 9007199254740991 / 2 ^ 53"
proof -
  have e: "fl (5404319552844595 / 2 ^ 54) = 5404319552844595 / 2 ^ 54"
    "fl (5404319552844595 / 2 ^ 54 + 7205759403792794 / 2 ^ 55) = 1 / 2"
    "fl (1 / 2 + 7205759403792794 / 2 ^ 55) = 6305039478318694 / 2 ^ 53"
    "fl (6305039478318694 / 2 ^ 53 + 7205759403792794 / 2 ^ 55) = 8106479329266892 / 2 ^ 53"
    "fl (8106479329266892 / 2 ^ 53 + 7205759403792794 / 2 ^ 56) = 9007199254740991 / 2 ^ 53"
    using fl_eval [of "5404319552844595 / 2 ^ 54" 54 5404319552844595]
      fl_eval [of "5404319552844595 / 2 ^ 54 + 7205759403792794 / 2 ^ 55" 53 4503599627370496]
      fl_eval [of "1 / 2 + 7205759403792794 / 2 ^ 55" 53 6305039478318694]
      fl_eval [of "6305039478318694 / 2 ^ 53 + 7205759403792794 / 2 ^ 55" 53 8106479329266892]
      fl_eval [of "8106479329266892 / 2 ^ 53 + 7205759403792794 / 2 ^ 56" 53 9007199254740991]
    by simp_all
  have "total_weight (score_terms log10 info rt a) =
      fl (fl (fl (fl (fl (0 + fl (3 / 10)) + fl (2 / 10)) + fl (2 / 10)) + fl (2 / 10)) + fl (1 / 10))"
    unfolding total_weight_def score_terms_def by simp
  then show ?thesis unfolding weights add_0 e .
qed

lemma coverage_known:
  assumes "liquidity_of log10 info \<noteq> None" and "tradability_of rt \<noteq> None" and "freshness_of a \<noteq> None"
  shows "1 / 2 \<le> coverage_of (score_terms log10 info rt a)"
proof -
  obtain l t f where k: "liquidity_of log10 info = Some l" "tradability_of rt = Some t" "freshness_of a = Some f"
    using assms by blast
  define o1 where "o1 = (if breadth_of (mi_stats5m info) = None then 0 else fl (0 + fl (3 / 10)))"
  define o2 where "o2 = (if organic_of info = None then 0 else fl (2 / 10))"
  have o: "0 \<le> o1" "0 \<le> o2" by (simp_all add: o1_def o2_def less_imp_le)
  have add: "snd (add_term (w, v) acc) = (if v = None then snd acc else fl (snd acc + w))" for w v acc
    by (cases v; cases acc) simp_all
  have idem: "fl (fl (o1 + fl (2 / 10)) + 0) = fl (o1 + fl (2 / 10))" by simp
  have "snd (weigh (score_terms log10 info rt a)) = fl (fl (fl (fl (o1 + fl (2 / 10)) + o2) + fl (2 / 10)) + fl (1 / 10))"
    unfolding weigh_def score_terms_def k by (simp add: add o1_def o2_def)
  then have w: "1 / 2 \<le> snd (weigh (score_terms log10 info rt a))" using weigh_lower [OF o] by simp
  have "1 / 2 \<le> snd (weigh (score_terms log10 info rt a)) / total_weight (score_terms log10 info rt a)"
    using w unfolding total_of_terms by (simp add: pos_le_divide_eq)
  from fl_mono [OF this] have "fl (1 / 2) \<le> fl (snd (weigh (score_terms log10 info rt a)) / total_weight (score_terms log10 info rt a))" .
  moreover have "fl (1 / 2) = 1 / 2" using fl_exact [of 1 "-1"] by (simp add: power_int_minus)
  ultimately show ?thesis by (simp add: coverage_of_def total_of_terms)
qed

section \<open>Eligible candidates\<close>

lemma gate_inputs_simps [simp]:
  "gi_info (gate_inputs info config now age cf t22 b) = info"
  "gi_sourceAgeMs (gate_inputs info config now age cf t22 b) = age"
  "gi_capitalAtRisk (gate_inputs info config now age cf t22 b) = capitalAtRisk (ac_mode config)"
  "gi_config (gate_inputs info config now age cf t22 b) = ac_gates config"
  "gi_token2022 (gate_inputs info config now age cf t22 b) = t22"
  by (simp_all add: gate_inputs_def)

lemma screenCheap_pass:
  "hard_pass (fst (screenCheap dp info config now age cf t22 b)) \<longleftrightarrow>
    hard_pass (evaluateCheapGates dp (gate_inputs info config now age cf t22 b)) \<and>
    \<not> (capitalAtRisk (ac_mode config) \<and> t22 = None \<and> mi_tokenProgram info = Some TOKEN_2022_PROGRAM)"
  by (auto simp: screenCheap_def Let_def)

lemma screenCheap_deserves: "snd (screenCheap dp info config now age cf t22 b) = hard_pass (fst (screenCheap dp info config now age cf t22 b))"
  by (simp add: screenCheap_def Let_def summarize_passed)

lemma screen_eligible_iff:
  "so_eligible (finalizeScreen dp log10 info config now cheap rt conc) \<longleftrightarrow>
    hard_pass cheap \<and> hard_pass (evaluateQuoteGates rt (ac_gates config)) \<and>
    hard_pass (evaluateConcentrationGate conc (ac_gates config) (capitalAtRisk (ac_mode config))) \<and>
    ac_minOpportunityScore config \<le> sc_score (so_score (finalizeScreen dp log10 info config now cheap rt conc))"
  by (auto simp: finalizeScreen_def Let_def summarize_passed)

text \<open>The gates' age is the score's age, when there is one.\<close>

lemma gate_age_is_token_age:
  "gate_age dp (gate_inputs info config now age cf t22 b) = Some a \<Longrightarrow> tokenAgeMs dp info now = Some a"
  by (auto simp: gate_age_def gate_inputs_def tokenAgeMs_def orElse_def parseUtc_def split: option.splits if_splits)

text \<open>A canary candidate that passes everything.\<close>

definition sample_config :: AppConfig where
  "sample_config = \<lparr>ac_mode = mode_canary, ac_gates = \<lparr>minTokenAgeMs = 120000, maxTokenAgeMs = 3600000, minLiquidityUsd = 15000,
     minHolderCount = 75, maxTopHolderPct = 25, maxDevBalancePct = 5, maxPriceImpactBps = 150, maxRoundTripLossBps = 300,
     minOrganicScore = 20, maxSourceAgeMs = 15000, requireMintAuthorityDisabled = True, requireFreezeAuthorityDisabled = True,
     allowedTokenPrograms = [''tok'', TOKEN_2022_PROGRAM], minBuyCount5m = 10, minNetBuyers5m = 5\<rparr>, ac_minOpportunityScore = 0\<rparr>"

definition sample_info :: MintInformation where
  "sample_info = \<lparr>mi_id = ''m'', mi_tokenProgram = Some ''tok'', mi_createdAt = Some ''t'', mi_updatedAt = Some ''t'',
     mi_firstPoolCreatedAt = None, mi_holderCount = Some 300, mi_organicScore = Some 40, mi_liquidity = Some 20000,
     mi_audit = \<lparr>mintAuthorityDisabled = Some True, freezeAuthorityDisabled = Some True, topHoldersPercentage = Some 12,
       devBalancePercentage = Some 1, isSus = None\<rparr>,
     mi_stats5m = \<lparr>sw_priceChange = None, sw_holderChange = None, sw_liquidityChange = None, sw_buyVolume = None,
       sw_sellVolume = None, sw_numBuys = Some 30, sw_numSells = Some 9, sw_numTraders = None, sw_numNetBuyers = Some 20\<rparr>\<rparr>"

definition sample_trip :: RoundTrip where
  "sample_trip = \<lparr>rt_buyOutAmount = 1000, rt_buyImpact = reading None Impact_ABSENT, rt_exitExists = True, rt_lossBps = Some 120\<rparr>"

definition sample_holders :: ConcentrationInput where
  "sample_holders = \<lparr>ci_topWalletPct = None, ci_topTenWalletPct = Some 18, ci_entity = None\<rparr>"

lemma sample_info_simps:
  "mi_tokenProgram sample_info = Some ''tok''" "mi_liquidity sample_info = Some 20000" "mi_holderCount sample_info = Some 300"
  "mi_organicScore sample_info = Some 40" "devBalancePercentage (mi_audit sample_info) = Some 1"
  "isSus (mi_audit sample_info) = None" "sw_numBuys (mi_stats5m sample_info) = Some 30"
  "sw_numNetBuyers (mi_stats5m sample_info) = Some 20"
  by (simp_all add: sample_info_def)

lemma sample_config_simps:
  "maxSourceAgeMs (ac_gates sample_config) = 15000" "allowedTokenPrograms (ac_gates sample_config) = [''tok'', TOKEN_2022_PROGRAM]"
  "minLiquidityUsd (ac_gates sample_config) = 15000" "minHolderCount (ac_gates sample_config) = 75"
  "maxDevBalancePct (ac_gates sample_config) = 5" "minOrganicScore (ac_gates sample_config) = 20"
  "minBuyCount5m (ac_gates sample_config) = 10" "minNetBuyers5m (ac_gates sample_config) = 5"
  by (simp_all add: sample_config_def)

lemma sample_eligible:
  "so_eligible (finalizeScreen (\<lambda>_. Some 0) (\<lambda>x. x) sample_info sample_config 300000
    (fst (screenCheap (\<lambda>_. Some 0) sample_info sample_config 300000 (Some 5) None None None)) (Some sample_trip) (Some sample_holders))"
proof -
  have "hard_pass (authority_gates (gate_inputs sample_info sample_config 300000 (Some 5) None None None))"
    by (simp add: authority_gates_def authority_disabled_def sample_info_def sample_config_def gate_inputs_def)
  moreover have "gate_age (\<lambda>_. Some 0) (gate_inputs sample_info sample_config 300000 (Some 5) None None None) = Some 300000"
    by (simp add: gate_age_def sample_info_def gate_inputs_def orElse_def parseUtc_def)
  moreover have window: "age_window (gate_inputs sample_info sample_config 300000 (Some 5) None None None) = (120000, 3600000)"
    by (simp add: age_window_def gate_inputs_def sample_config_def)
  ultimately have "hard_pass (fst (screenCheap (\<lambda>_. Some 0) sample_info sample_config 300000 (Some 5) None None None))"
    using window unfolding screenCheap_pass cheap_pass gate_inputs_simps sample_info_simps sample_config_simps
    by (simp add: at_least_def TOKEN_2022_PROGRAM_def)
  moreover have "hard_pass (evaluateQuoteGates (Some sample_trip) (ac_gates sample_config))"
    by (simp add: quote_pass sample_trip_def sample_config_def reading_def)
  moreover have "hard_pass (evaluateConcentrationGate (Some sample_holders) (ac_gates sample_config) (capitalAtRisk (ac_mode sample_config)))"
    by (simp add: concentration_pass sample_holders_def sample_config_def effective_top_ten_def)
  moreover have "ac_minOpportunityScore sample_config \<le> sc_score (so_score (finalizeScreen dp l i c n g rt k))" for dp l i c n g rt k
    using score_unit by (simp add: finalizeScreen_def sample_config_def Let_def)
  ultimately show ?thesis unfolding screen_eligible_iff by blast
qed

text \<open>The gates find nothing in decoded facts exactly when none of the graded extensions is among the entries.\<close>

lemma gate_facts_graded:
  "hasMoneyCriticalBehaviour (gateFactsFrom (facts_of k p e n m)) \<longleftrightarrow> (\<exists>x \<in> set graded_names. x \<in> ext_name ` set (dm_extensions m))"
  by (auto simp: gateFactsFrom_def facts_of_def read_facts_def verdictFor_def graded_names_def Let_def)

lemma undecoded_is_critical: "hasMoneyCriticalBehaviour (gateFactsFrom (d\<lparr>df_hasUnknownExtension := True\<rparr>))"
  by (simp add: gateFactsFrom_def Let_def)

definition ungraded_area :: "bytes \<Rightarrow> bool" where
  "ungraded_area data \<longleftrightarrow> (\<exists>es t. drop TLV_START data = concat (map tlv_bytes es) @ t \<and> list_all valid_entry es \<and> tlv_end t \<and>
     (\<forall>e \<in> set es. fst e \<notin> {4, 6, 9, 12, 14, 16, 26}))"

lemma harmless_read:
  assumes "\<not> hasMoneyCriticalBehaviour (gateFactsFrom (snd (readMintFacts raw k n e cache)))"
    and "snd (cache_get k n cache) = None" and "raw k = Some (data, TOKEN_2022_PROGRAM)"
  shows "\<exists>m. decodeMint data TOKEN_2022_PROGRAM = Inr m \<and> (BASE_MINT_LEN < length data \<longrightarrow> ungraded_area data)"
proof -
  obtain c' where c: "cache_get k n cache = (c', None)" using assms(2) by (cases "cache_get k n cache") simp
  obtain m where m: "decodeMint data TOKEN_2022_PROGRAM = Inr m" "\<not> hasMoneyCriticalBehaviour (gateFactsFrom (facts_of k TOKEN_2022_PROGRAM e n m))"
    using assms(1,3) c undecoded_is_critical [of "(UNREAD k _ n)\<lparr>df_tokenProgram := Some TOKEN_2022_PROGRAM\<rparr>"]
    by (auto simp: readMintFacts_def Let_def split: sum.splits)
  have "ungraded_area data" if long: "BASE_MINT_LEN < length data"
  proof -
    obtain es t where es: "drop TLV_START data = concat (map tlv_bytes es) @ t" "list_all valid_entry es" "tlv_end t"
      "dm_extensions m = entries_at TLV_START es"
      using decodeMint_entries [OF m(1) long] .
    have "entry_name (fst x) \<notin> set graded_names" if "x \<in> set es" for x
      using m(2) that unfolding gate_facts_graded es(4) entries_at_names by blast
    then have "\<forall>x \<in> set es. fst x \<notin> set graded" using es(2) graded_iff valid_entry_known by (fastforce simp: list_all_iff)
    then show ?thesis using es(1-3) unfolding ungraded_area_def graded_def by (intro exI [of _ es] exI [of _ t]) simp
  qed
  then show ?thesis using m(1) by blast
qed

text \<open>C17: What an eligible candidate has in a mode that can lose money: fresh data, an age inside the window it was
  screened under, the liquidity asked for, a measured way out at a bounded loss, and a measured and bounded
  holder concentration. When its mint belongs to Token-2022, facts about the mint were handed to the screen and
  they show no money-critical behaviour; and when these facts are those of an account that was read now, its bytes
  decode and none of its entries is one of the seven graded extensions. A read that failed hands over facts as
  well (\<open>failed_read_is_not_unread\<close>), so the last part speaks of reads that returned bytes.\<close>

theorem eligible_is_known:
  assumes "capitalAtRisk (ac_mode config)"
    and "so_eligible (finalizeScreen dp log10 info config now (fst (screenCheap dp info config now sourceAge cf t22 b)) rt conc)"
  shows "(\<exists>s. sourceAge = Some s \<and> s \<le> maxSourceAgeMs (ac_gates config)) \<and>
    (\<exists>a. tokenAgeMs dp info now = Some a \<and>
      fst (nullish b (minTokenAgeMs (ac_gates config), maxTokenAgeMs (ac_gates config))) \<le> a \<and>
      a \<le> snd (nullish b (minTokenAgeMs (ac_gates config), maxTokenAgeMs (ac_gates config)))) \<and>
    at_least (minLiquidityUsd (ac_gates config)) (mi_liquidity info) \<and>
    (\<exists>r. rt = Some r \<and> rt_exitExists r \<and> at_most (maxRoundTripLossBps (ac_gates config)) (rt_lossBps r)) \<and>
    (\<exists>c t. conc = Some c \<and> ci_topTenWalletPct c = Some t \<and> t \<le> maxTopHolderPct (ac_gates config)) \<and>
    (mi_tokenProgram info = Some TOKEN_2022_PROGRAM \<longrightarrow> (\<exists>t. t22 = Some t \<and> \<not> hasMoneyCriticalBehaviour t)) \<and>
    (\<forall>raw k n e cache data. t22 = Some (gateFactsFrom (snd (readMintFacts raw k n e cache))) \<and> snd (cache_get k n cache) = None \<and>
       raw k = Some (data, TOKEN_2022_PROGRAM) \<longrightarrow>
      (\<exists>m. decodeMint data TOKEN_2022_PROGRAM = Inr m \<and> (BASE_MINT_LEN < length data \<longrightarrow> ungraded_area data)))"
proof -
  let ?g = "gate_inputs info config now sourceAge cf t22 b"
  have cheap: "hard_pass (evaluateCheapGates dp ?g)" and read: "mi_tokenProgram info = Some TOKEN_2022_PROGRAM \<longrightarrow> t22 \<noteq> None"
    and quote: "hard_pass (evaluateQuoteGates rt (ac_gates config))"
    and conc: "hard_pass (evaluateConcentrationGate conc (ac_gates config) True)"
    using assms by (auto simp: screen_eligible_iff screenCheap_pass)
  note c = cheap [unfolded cheap_pass]
  have fields: "gi_sourceAgeMs ?g = sourceAge" "gi_capitalAtRisk ?g" "gi_config ?g = ac_gates config" "gi_info ?g = info"
      "gi_token2022 ?g = t22" "age_window ?g = nullish b (minTokenAgeMs (ac_gates config), maxTokenAgeMs (ac_gates config))"
    using assms(1) by (simp_all add: gate_inputs_def age_window_def)
  have "\<exists>s. sourceAge = Some s \<and> s \<le> maxSourceAgeMs (ac_gates config)"
    using conjunct1 [OF c] fields by (simp split: option.splits)
  moreover have "\<exists>a. tokenAgeMs dp info now = Some a \<and> fst (age_window ?g) \<le> a \<and> a \<le> snd (age_window ?g)"
    using c gate_age_is_token_age by blast
  moreover have "at_least (minLiquidityUsd (ac_gates config)) (mi_liquidity info)" using c fields by simp
  moreover have "\<exists>r. rt = Some r \<and> rt_exitExists r \<and> at_most (maxRoundTripLossBps (ac_gates config)) (rt_lossBps r)"
    using quote by (auto simp: quote_pass at_most_iff)
  moreover have "\<exists>c t. conc = Some c \<and> ci_topTenWalletPct c = Some t \<and> t \<le> maxTopHolderPct (ac_gates config)"
    using conc by (auto simp: concentration_pass effective_top_ten_def split: option.splits)
  moreover have harmless: "\<forall>t. t22 = Some t \<longrightarrow> \<not> hasMoneyCriticalBehaviour t" using c fields by blast
  moreover have "\<forall>raw k n e cache data. t22 = Some (gateFactsFrom (snd (readMintFacts raw k n e cache))) \<and> snd (cache_get k n cache) = None \<and>
       raw k = Some (data, TOKEN_2022_PROGRAM) \<longrightarrow>
      (\<exists>m. decodeMint data TOKEN_2022_PROGRAM = Inr m \<and> (BASE_MINT_LEN < length data \<longrightarrow> ungraded_area data))"
    using harmless harmless_read by blast
  ultimately show ?thesis using read fields by auto
qed

text \<open>A Token-2022 mint whose one extension, a metadata pointer, is not graded.\<close>

definition sample_2022 :: MintInformation where
  "sample_2022 = sample_info\<lparr>mi_tokenProgram := Some TOKEN_2022_PROGRAM\<rparr>"

definition sample_2022_data :: bytes where
  "sample_2022_data = sample_mint_data (concat (map tlv_bytes [(18, replicate 64 0)]))"

definition empty_cache :: MintFactsCache where
  "empty_cache = \<lparr>mc_ttlMs = 1000, mc_maxEntries = 8, mc_entries = []\<rparr>"

lemma sample_2022_harmless:
  "\<not> hasMoneyCriticalBehaviour (gateFactsFrom (snd (readMintFacts (\<lambda>_. Some (sample_2022_data, TOKEN_2022_PROGRAM)) ''m'' 5 None empty_cache)))"
proof -
  have v: "list_all valid_entry [(18, replicate 64 0)]" by (simp add: valid_entry_def MAX_KNOWN_EXTENSION_def)
  obtain m where m: "decodeMint sample_2022_data TOKEN_2022_PROGRAM = Inr m" "dm_extensions m = entries_at TLV_START [(18, replicate 64 0)]"
    using decode_sample_mint [OF v] unfolding sample_2022_data_def by blast
  have "entry_name 18 \<notin> set graded_names" by code_simp
  then have "\<not> hasMoneyCriticalBehaviour (gateFactsFrom (facts_of ''m'' TOKEN_2022_PROGRAM None 5 m))"
    unfolding gate_facts_graded m(2) entries_at_names by auto
  then show ?thesis using m(1) by (simp add: readMintFacts_def cache_get_def empty_cache_def Let_def js_get_def)
qed

lemma sample_2022_eligible:
  assumes "\<not> hasMoneyCriticalBehaviour t"
  shows "so_eligible (finalizeScreen (\<lambda>_. Some 0) (\<lambda>x. x) sample_2022 sample_config 300000
    (fst (screenCheap (\<lambda>_. Some 0) sample_2022 sample_config 300000 (Some 5) None (Some t) None)) (Some sample_trip) (Some sample_holders))"
proof -
  have "hard_pass (authority_gates (gate_inputs sample_2022 sample_config 300000 (Some 5) None (Some t) None))"
    by (simp add: authority_gates_def authority_disabled_def sample_2022_def sample_info_def sample_config_def gate_inputs_def)
  moreover have "gate_age (\<lambda>_. Some 0) (gate_inputs sample_2022 sample_config 300000 (Some 5) None (Some t) None) = Some 300000"
    by (simp add: gate_age_def sample_2022_def sample_info_def gate_inputs_def orElse_def parseUtc_def)
  moreover have window: "age_window (gate_inputs sample_2022 sample_config 300000 (Some 5) None (Some t) None) = (120000, 3600000)"
    by (simp add: age_window_def gate_inputs_def sample_config_def)
  moreover have "mi_tokenProgram sample_2022 = Some TOKEN_2022_PROGRAM" "mi_liquidity sample_2022 = mi_liquidity sample_info"
    "mi_holderCount sample_2022 = mi_holderCount sample_info" "mi_organicScore sample_2022 = mi_organicScore sample_info"
    "mi_audit sample_2022 = mi_audit sample_info" "mi_stats5m sample_2022 = mi_stats5m sample_info"
    by (simp_all add: sample_2022_def)
  ultimately have "hard_pass (fst (screenCheap (\<lambda>_. Some 0) sample_2022 sample_config 300000 (Some 5) None (Some t) None))"
    using window assms unfolding screenCheap_pass cheap_pass gate_inputs_simps
    by (simp add: at_least_def sample_info_simps sample_config_simps)
  moreover have "hard_pass (evaluateQuoteGates (Some sample_trip) (ac_gates sample_config))"
    by (simp add: quote_pass sample_trip_def sample_config_def reading_def)
  moreover have "hard_pass (evaluateConcentrationGate (Some sample_holders) (ac_gates sample_config) (capitalAtRisk (ac_mode sample_config)))"
    by (simp add: concentration_pass sample_holders_def sample_config_def effective_top_ten_def)
  moreover have "ac_minOpportunityScore sample_config \<le> sc_score (so_score (finalizeScreen dp l i c n g rt k))" for dp l i c n g rt k
    using score_unit by (simp add: finalizeScreen_def sample_config_def Let_def)
  ultimately show ?thesis unfolding screen_eligible_iff by blast
qed

theorem eligible_is_known_witness:
  "\<exists>t22. capitalAtRisk (ac_mode sample_config) \<and> mi_tokenProgram sample_2022 = Some TOKEN_2022_PROGRAM \<and>
    so_eligible (finalizeScreen (\<lambda>_. Some 0) (\<lambda>x. x) sample_2022 sample_config 300000
      (fst (screenCheap (\<lambda>_. Some 0) sample_2022 sample_config 300000 (Some 5) None (Some t22) None)) (Some sample_trip) (Some sample_holders)) \<and>
    \<not> hasMoneyCriticalBehaviour t22 \<and> BASE_MINT_LEN < length sample_2022_data \<and> ungraded_area sample_2022_data"
proof -
  let ?raw = "\<lambda>_ :: string. Some (sample_2022_data, TOKEN_2022_PROGRAM)"
  let ?t = "gateFactsFrom (snd (readMintFacts ?raw ''m'' 5 None empty_cache))"
  have risk: "capitalAtRisk (ac_mode sample_config)" by (simp add: sample_config_def capitalAtRisk_def SIGNING_MODES_def)
  have len: "BASE_MINT_LEN < length sample_2022_data" by (simp add: sample_2022_data_def sample_mint_fields BASE_MINT_LEN_def)
  note e = sample_2022_eligible [OF sample_2022_harmless]
  have "snd (cache_get ''m'' 5 empty_cache) = None" by (simp add: cache_get_def empty_cache_def js_get_def)
  then have "ungraded_area sample_2022_data" using eligible_is_known [OF risk e] len by blast
  then show ?thesis using risk e len sample_2022_harmless by (intro exI [of _ ?t]) (simp add: sample_2022_def)
qed
text \<open>An eligible candidate's score is supported: eligibility never reads \<open>insufficientCoverage\<close>, and yet whatever
  passes the hard gates has liquidity, a measured round trip and an age, which is half of the weight in the
  program's own arithmetic.\<close>

theorem eligible_is_covered:
  assumes "so_eligible (finalizeScreen dp log10 info config now (fst (screenCheap dp info config now sourceAge cf t22 b)) rt conc)"
  shows "\<not> sc_insufficientCoverage
    (so_score (finalizeScreen dp log10 info config now (fst (screenCheap dp info config now sourceAge cf t22 b)) rt conc))"
proof -
  let ?g = "gate_inputs info config now sourceAge cf t22 b"
  have cheap: "hard_pass (evaluateCheapGates dp ?g)" and quote: "hard_pass (evaluateQuoteGates rt (ac_gates config))"
    using assms by (auto simp: screen_eligible_iff screenCheap_pass)
  have info: "gi_info ?g = info" by (simp add: gate_inputs_def)
  have "mi_liquidity info \<noteq> None" using cheap info by (auto simp: cheap_pass at_least_iff)
  moreover have "tradability_of rt \<noteq> None" using quote by (auto simp: quote_pass tradability_of_def)
  moreover have "tokenAgeMs dp info now \<noteq> None" using cheap gate_age_is_token_age by (fastforce simp: cheap_pass)
  ultimately have "1 / 2 \<le> coverage_of (score_terms log10 info rt (tokenAgeMs dp info now))"
    by (intro coverage_known) (auto simp: liquidity_of_def freshness_of_def)
  then show ?thesis by (simp add: finalizeScreen_def opportunityScore_def MIN_SCORE_COVERAGE_def Let_def)
qed

theorem eligible_is_covered_witness:
  "\<not> sc_insufficientCoverage (so_score (finalizeScreen (\<lambda>_. Some 0) (\<lambda>x. x) sample_info sample_config 300000
    (fst (screenCheap (\<lambda>_. Some 0) sample_info sample_config 300000 (Some 5) None None None)) (Some sample_trip) (Some sample_holders)))"
  by (rule eligible_is_covered [OF sample_eligible])

theorem risk_never_raises_score_witness:
  "sc_score (opportunityScore (\<lambda>x. x) sample_info (Some sample_trip) (1 / 2) None) \<le>
   sc_score (opportunityScore (\<lambda>x. x) sample_info (Some sample_trip) (1 / 4) None)"
  using risk_never_raises_score [of "1 / 4" "1 / 2" "\<lambda>x. x" sample_info "Some sample_trip" None] by simp

section \<open>What the pipeline does not ask\<close>

text \<open>The chain's verdicts on the mint and freeze authority are read for every candidate and not handed to the gates: a
  mint whose authorities are live on chain gets the gates of the same mint without them, although the
  cheap layer refuses it as soon as the verdict is passed.\<close>

theorem cycle_ignores_chain_authority:
  "cycle_screen dp info config now (Some (d\<lparr>df_facts := (df_facts d)\<lparr>mf_mintAuthority := HOSTILE, mf_freezeAuthority := HOSTILE\<rparr>\<rparr>)) b =
   cycle_screen dp info config now (Some d) b \<and>
   (requireMintAuthorityDisabled (ac_gates config) \<longrightarrow>
     \<not> snd (screenCheap dp info config now age (Some (HOSTILE, HOSTILE)) t22 b))"
proof
  have "gateFactsFrom (d\<lparr>df_facts := (df_facts d)\<lparr>mf_mintAuthority := HOSTILE, mf_freezeAuthority := HOSTILE\<rparr>\<rparr>) = gateFactsFrom d"
    by (simp add: gateFactsFrom_def Let_def)
  then show "cycle_screen dp info config now (Some (d\<lparr>df_facts := (df_facts d)\<lparr>mf_mintAuthority := HOSTILE, mf_freezeAuthority := HOSTILE\<rparr>\<rparr>)) b =
      cycle_screen dp info config now (Some d) b"
    by (simp add: cycle_screen_def)
  have "requireMintAuthorityDisabled (ac_gates config) \<Longrightarrow>
      \<not> hard_pass (authority_gates (gate_inputs info config now age (Some (HOSTILE, HOSTILE)) t22 b))"
    by (simp add: authority_gates_def authority_disabled_def gate_inputs_def)
  then show "requireMintAuthorityDisabled (ac_gates config) \<longrightarrow>
      \<not> snd (screenCheap dp info config now age (Some (HOSTILE, HOSTILE)) t22 b)"
    unfolding screenCheap_deserves screenCheap_pass cheap_pass by blast
qed

text \<open>The veto on an unread Token-2022 mint does not fire for a mint whose read failed: the failed read is handed on as
  facts that show nothing, and the candidate passes whenever the other gates let it.\<close>

theorem failed_read_is_not_unread:
  "snd (screenCheap dp info config now age cf (Some (gateFactsFrom (UNREAD m account_unreadable now))) b) =
     hard_pass (evaluateCheapGates dp (gate_inputs info config now age cf None b)) \<and>
   (capitalAtRisk (ac_mode config) \<longrightarrow> mi_tokenProgram info = Some TOKEN_2022_PROGRAM \<longrightarrow>
     \<not> snd (screenCheap dp info config now age cf None b))"
proof -
  have t: "\<not> hasMoneyCriticalBehaviour (gateFactsFrom (UNREAD m account_unreadable now))"
    by (simp add: gateFactsFrom_def UNREAD_def unread_facts_def)
  have "authority_gates (gate_inputs info config now age cf t22 b) = authority_gates (gate_inputs info config now age cf None b)"
    "gate_age dp (gate_inputs info config now age cf t22 b) = gate_age dp (gate_inputs info config now age cf None b)"
    "age_window (gate_inputs info config now age cf t22 b) = age_window (gate_inputs info config now age cf None b)" for t22
    by (simp_all add: authority_gates_def gate_age_def age_window_def gate_inputs_def)
  note same = this [of "Some (gateFactsFrom (UNREAD m account_unreadable now))"]
  have "hard_pass (evaluateCheapGates dp (gate_inputs info config now age cf (Some (gateFactsFrom (UNREAD m account_unreadable now))) b)) =
      hard_pass (evaluateCheapGates dp (gate_inputs info config now age cf None b))"
    unfolding cheap_pass same gate_inputs_simps using t by simp
  then show ?thesis unfolding screenCheap_deserves screenCheap_pass by simp
qed

end
