(* ===== verification/Exploration.thy ===== *)
theory Exploration
  imports Doubles "HOL-Library.Word" "HOL-Library.Multiset" "HOL-Library.List_Lexorder" "HOL-Library.Char_ord"
begin

text \<open>
  The quote budget of a cycle, \<open>packages/strategy/src/exploration.ts\<close>: most of it goes to the best-ranked
  candidates, a quarter to a stratified draw among the rest, with the fraction that does not make a whole
  slot carried as a debt from cycle to cycle (\<open>packages/pipeline/src/cycle.ts\<close>). The generator is a 32-bit
  xorshift, so the draw is a function of the seed. Items are compared by identity in the source and by
  equality here.
\<close>

unbundle bit_operations_syntax

section \<open>The seeded order\<close>

definition xorshift32 :: "32 word \<Rightarrow> 32 word" where
  "xorshift32 x =
    (let x1 = x XOR push_bit 13 x; x2 = x1 XOR drop_bit 17 x1 in x2 XOR push_bit 5 x2)"

definition seed_state :: "int \<Rightarrow> 32 word" where
  "seed_state seed = (if word_of_int seed = (0 :: 32 word) then 0x9e3779b9 else word_of_int seed)"

definition swap_at :: "nat \<Rightarrow> nat \<Rightarrow> 'a list \<Rightarrow> 'a list" where
  "swap_at i j xs = xs[i := xs ! j, j := xs ! i]"

text \<open>The loop for \<open>i = n - 1\<close> down to \<open>1\<close>.\<close>

fun shuffle :: "nat \<Rightarrow> 32 word \<Rightarrow> nat list \<Rightarrow> nat list" where
  "shuffle 0 x idx = idx"
| "shuffle (Suc i) x idx =
    (let x' = xorshift32 x; j = nat \<bar>sint x'\<bar> mod (Suc i + 1) in shuffle i x' (swap_at (Suc i) j idx))"

definition seededOrder :: "nat \<Rightarrow> int \<Rightarrow> nat list" where
  "seededOrder n seed = shuffle (n - 1) (seed_state seed) [0..<n]"

text \<open>The strategy version's hash, which seeds a cycle with the minute.\<close>

definition hashSeed :: "string \<Rightarrow> int" where
  "hashSeed s = sint (fold (\<lambda>c h. (h XOR word_of_int (of_char c)) * 16777619) s (2166136261 :: 32 word))"

definition cycle_seed :: "string \<Rightarrow> int \<Rightarrow> int" where
  "cycle_seed strategyVersion nowUtcMs = hashSeed strategyVersion + nowUtcMs div 60000"

section \<open>Allocation\<close>

definition EXPLORATION_FRACTION :: rat where "EXPLORATION_FRACTION = 1 / 4"

record 'a Candidate =
  cd_item :: 'a
  cd_stratum :: string
  cd_rank :: rat

datatype quote_arm = exploit | explore

record 'a Selected =
  sl_item :: 'a
  sl_arm :: quote_arm
  sl_inclusion :: rat
  sl_stratum :: string

definition entitlement_of :: "int \<Rightarrow> rat \<Rightarrow> rat" where
  "entitlement_of budget carriedDebt = fl (fl (of_int budget * EXPLORATION_FRACTION) + carriedDebt)"

definition explore_budget :: "nat \<Rightarrow> int \<Rightarrow> rat \<Rightarrow> int" where
  "explore_budget n budget carriedDebt = min (min \<lfloor>entitlement_of budget carriedDebt\<rfloor> budget) (max (int n - 1) 0)"

definition exploited_of :: "'a Candidate list \<Rightarrow> int \<Rightarrow> 'a Candidate list" where
  "exploited_of candidates exploitBudget = take (nat exploitBudget) (sort_key (\<lambda>c. - cd_rank c) candidates)"

text \<open>One stratum's turn; the state is the pools, the selections so far and the number drawn.\<close>

definition draw_one :: "int \<Rightarrow> nat \<Rightarrow> int \<Rightarrow> string \<Rightarrow>
    (string \<Rightarrow> 'a Candidate list) \<times> 'a Selected list \<times> nat \<Rightarrow> (string \<Rightarrow> 'a Candidate list) \<times> 'a Selected list \<times> nat" where
  "draw_one seed turn exploreBudget name = (\<lambda>(pools, out, drawn).
    if int drawn \<ge> exploreBudget \<or> pools name = [] then (pools, out, drawn)
    else
      (let pool = pools name;
           k = hd (seededOrder (length pool) (seed + int turn * 7919 + int (length name)));
           pick = pool ! k
       in (pools(name := take k pool @ drop (Suc k) pool),
           out @ [\<lparr>sl_item = cd_item pick, sl_arm = explore, sl_inclusion = fl (1 / of_nat (length pool)), sl_stratum = cd_stratum pick\<rparr>],
           Suc drawn)))"

fun draw_rounds :: "nat \<Rightarrow> nat \<Rightarrow> int \<Rightarrow> int \<Rightarrow> string list \<Rightarrow>
    (string \<Rightarrow> 'a Candidate list) \<times> 'a Selected list \<times> nat \<Rightarrow> (string \<Rightarrow> 'a Candidate list) \<times> 'a Selected list \<times> nat" where
  "draw_rounds 0 turn seed exploreBudget names st = st"
| "draw_rounds (Suc left) turn seed exploreBudget names st =
    (if int (snd (snd st)) < exploreBudget
     then (let st' = fold (draw_one seed turn exploreBudget) names st
           in if snd (snd st') = snd (snd st) then st' else draw_rounds left (Suc turn) seed exploreBudget names st')
     else st)"

definition exploit_selection :: "nat \<Rightarrow> int \<Rightarrow> 'a Candidate \<Rightarrow> 'a Selected" where
  "exploit_selection n budget c = \<lparr>sl_item = cd_item c, sl_arm = exploit,
     sl_inclusion = min 1 (fl (of_int budget / of_nat n)), sl_stratum = cd_stratum c\<rparr>"

text \<open>The selections, and the remainder the caller carries (absent on the early return).\<close>

definition allocate :: "'a Candidate list \<Rightarrow> int \<Rightarrow> int \<Rightarrow> rat \<Rightarrow> 'a Selected list \<times> rat option" where
  "allocate candidates budget seed carriedDebt =
    (if budget \<le> 0 \<or> candidates = [] then ([], None)
     else
      (let exploreBudget = explore_budget (length candidates) budget carriedDebt;
           exploited = exploited_of candidates (budget - exploreBudget);
           out = map (exploit_selection (length candidates) budget) exploited;
           remaining = filter (\<lambda>c. cd_item c \<notin> cd_item ` set exploited) candidates;
           nextDebt = fl (entitlement_of budget carriedDebt - of_int exploreBudget);
           names = sort (remdups (map cd_stratum remaining));
           (_, all, _) = draw_rounds 1000 0 seed exploreBudget names (\<lambda>s. filter (\<lambda>c. cd_stratum c = s) remaining, out, 0)
       in (if exploreBudget = 0 \<or> remaining = [] then out else all, Some nextDebt)))"

text \<open>A cycle: the stored debt is read (an absent row is zero), the remainder stored back (an absent one as zero).\<close>

definition cycle_allocate :: "'a Candidate list \<Rightarrow> int \<Rightarrow> int \<Rightarrow> rat option \<Rightarrow> 'a Selected list \<times> rat option" where
  "cycle_allocate candidates budget seed debt_row =
    (let (out, nextDebt) = allocate candidates budget seed (nullish debt_row 0) in (out, Some (nullish nextDebt 0)))"

section \<open>The order is a permutation\<close>

lemma swap_at_mset: "i < length xs \<Longrightarrow> j < length xs \<Longrightarrow> mset (swap_at i j xs) = mset xs"
  by (simp add: swap_at_def mset_swap)

lemma swap_at_length [simp]: "length (swap_at i j xs) = length xs"
  by (simp add: swap_at_def)

lemma shuffle_mset: "i < length idx \<or> i = 0 \<Longrightarrow> mset (shuffle i x idx) = mset idx"
proof (induction i arbitrary: x idx)
  case (Suc i)
  have "nat \<bar>sint (xorshift32 x)\<bar> mod (Suc i + 1) < Suc i + 1" by simp
  then have "nat \<bar>sint (xorshift32 x)\<bar> mod (Suc i + 1) < length idx" using Suc.prems by linarith
  then show ?case using Suc by (simp add: Let_def swap_at_mset del: mod_Suc_eq)
qed simp

lemma seededOrder_mset: "mset (seededOrder n seed) = mset [0..<n]"
  unfolding seededOrder_def by (rule shuffle_mset) auto

lemma seededOrder_hd: "0 < n \<Longrightarrow> hd (seededOrder n seed) < n"
proof -
  assume n: "0 < n"
  have "set (seededOrder n seed) = {0..<n}" using arg_cong [OF seededOrder_mset [of n seed], of set_mset] by simp
  moreover have "seededOrder n seed \<noteq> []" using n arg_cong [OF seededOrder_mset [of n seed], of size] by auto
  ultimately show ?thesis using list.set_sel(1) by fastforce
qed

section \<open>One cycle\<close>

definition candidate_ok :: "'a Candidate list \<Rightarrow> bool" where
  "candidate_ok candidates \<longleftrightarrow> distinct (map cd_item candidates)"

text \<open>What is left in the pools of the strata in a list.\<close>

definition pooled :: "string list \<Rightarrow> (string \<Rightarrow> 'a Candidate list) \<Rightarrow> 'a multiset" where
  "pooled names pools = (\<Sum>s \<leftarrow> names. image_mset cd_item (mset (pools s)))"

definition explored :: "'a Selected list \<Rightarrow> nat" where
  "explored out = length (filter (\<lambda>s. sl_arm s = explore) out)"

text \<open>What a draw keeps: nothing is lost or duplicated, the count is the number of selections added, and
  the explore budget bounds it.\<close>

definition draw_inv :: "int \<Rightarrow> string list \<Rightarrow> 'a multiset \<Rightarrow> 'a Selected list \<Rightarrow>
    (string \<Rightarrow> 'a Candidate list) \<times> 'a Selected list \<times> nat \<Rightarrow> bool" where
  "draw_inv budget names all out0 = (\<lambda>(pools, out, drawn).
    (\<exists>new. out = out0 @ new \<and> length new = drawn \<and> (\<forall>s \<in> set new. sl_arm s = explore) \<and>
      mset (map sl_item new) + pooled names pools = all) \<and> int drawn \<le> max 0 budget)"

lemma mset_drop_nth: "k < length xs \<Longrightarrow> mset xs = add_mset (xs ! k) (mset (take k xs @ drop (Suc k) xs))"
  by (metis id_take_nth_drop mset_append mset.simps(2) union_mset_add_mset_right)

lemma pooled_upd: "distinct names \<Longrightarrow> name \<in> set names \<Longrightarrow> pools name = ps \<Longrightarrow>
    pooled names pools = image_mset cd_item (mset ps) + pooled (remove1 name names) (pools(name := qs))"
  by (induction names) (auto simp: pooled_def intro!: arg_cong [where f = sum_list] map_cong)

lemma pooled_upd_same: "distinct names \<Longrightarrow> name \<in> set names \<Longrightarrow>
    pooled names (pools(name := qs)) = image_mset cd_item (mset qs) + pooled (remove1 name names) (pools(name := qs))"
  using pooled_upd [of names name "pools(name := qs)" qs qs] by simp

lemma draw_one_inv:
  assumes "distinct names" and "name \<in> set names" and "draw_inv budget names all out0 (pools, out, drawn)"
  shows "draw_inv budget names all out0 (draw_one seed turn budget name (pools, out, drawn))"
proof (cases "int drawn \<ge> budget \<or> pools name = []")
  case True
  then show ?thesis using assms(3) by (simp add: draw_one_def)
next
  case False
  define ps where "ps = pools name"
  define k where "k = hd (seededOrder (length ps) (seed + int turn * 7919 + int (length name)))"
  have k: "k < length ps" using False seededOrder_hd by (simp add: k_def ps_def)
  obtain new where new: "out = out0 @ new" "length new = drawn" "\<forall>s \<in> set new. sl_arm s = explore"
      "mset (map sl_item new) + pooled names pools = all"
    using assms(3) by (auto simp: draw_inv_def)
  let ?qs = "take k ps @ drop (Suc k) ps"
  have "pooled names pools = image_mset cd_item (mset ps) + pooled (remove1 name names) (pools(name := ?qs))"
    using pooled_upd [OF assms(1,2)] ps_def by blast
  also have "\<dots> = add_mset (cd_item (ps ! k)) (image_mset cd_item (mset ?qs)) + pooled (remove1 name names) (pools(name := ?qs))"
    using mset_drop_nth [OF k] by simp
  finally have p: "pooled names pools = add_mset (cd_item (ps ! k)) (pooled names (pools(name := ?qs)))"
    unfolding pooled_upd_same [OF assms(1,2)] by simp
  have "draw_one seed turn budget name (pools, out, drawn) =
      (pools(name := ?qs), out @ [\<lparr>sl_item = cd_item (ps ! k), sl_arm = explore, sl_inclusion = fl (1 / of_nat (length ps)),
        sl_stratum = cd_stratum (ps ! k)\<rparr>], Suc drawn)"
    using False by (simp add: draw_one_def ps_def k_def Let_def)
  then show ?thesis using new p False by (auto simp: draw_inv_def)
qed

lemma fold_draw_inv: "distinct names \<Longrightarrow> set ns \<subseteq> set names \<Longrightarrow> draw_inv budget names all out0 st \<Longrightarrow>
    draw_inv budget names all out0 (fold (draw_one seed turn budget) ns st)"
proof (induction ns arbitrary: st)
  case (Cons n ns)
  obtain pools out drawn where st: "st = (pools, out, drawn)" by (cases st) auto
  then show ?case using Cons draw_one_inv [of names n budget all out0 pools out drawn seed turn] by simp
qed simp

lemma draw_rounds_inv: "distinct names \<Longrightarrow> draw_inv budget names all out0 st \<Longrightarrow>
    draw_inv budget names all out0 (draw_rounds f turn seed budget names st)"
  by (induction f arbitrary: turn st) (simp_all add: Let_def fold_draw_inv)

text \<open>A round that draws nothing found every pool empty.\<close>

lemma draw_one_count: "snd (snd st) \<le> snd (snd (draw_one seed turn budget name st)) \<and>
    (snd (snd (draw_one seed turn budget name st)) = snd (snd st) \<longrightarrow> draw_one seed turn budget name st = st \<and>
      (int (snd (snd st)) < budget \<longrightarrow> fst st name = []))"
  by (cases st) (auto simp: draw_one_def Let_def)

lemma fold_draw_count: "snd (snd st) \<le> snd (snd (fold (draw_one seed turn budget) ns st)) \<and>
    (snd (snd (fold (draw_one seed turn budget) ns st)) = snd (snd st) \<longrightarrow> fold (draw_one seed turn budget) ns st = st \<and>
      (int (snd (snd st)) < budget \<longrightarrow> (\<forall>n \<in> set ns. fst st n = [])))"
proof (induction ns arbitrary: st)
  case (Cons n ns)
  note one = draw_one_count [of st seed turn budget n]
  note rest = Cons.IH [of "draw_one seed turn budget n st"]
  have "snd (snd (fold (draw_one seed turn budget) (n # ns) st)) = snd (snd st) \<Longrightarrow>
      snd (snd (draw_one seed turn budget n st)) = snd (snd st)"
    using one rest by simp
  then show ?case using one rest by auto
qed simp

lemma draw_rounds_final: "budget \<le> int (f + snd (snd st)) \<Longrightarrow>
    (let (pools, out, drawn) = draw_rounds f turn seed budget names st
     in budget \<le> int drawn \<or> (\<forall>n \<in> set names. pools n = []))"
proof (induction f arbitrary: turn st)
  case 0
  then show ?case by (cases st) simp
next
  case (Suc f)
  let ?st = "fold (draw_one seed turn budget) names st"
  note c = fold_draw_count [of st seed turn budget names]
  show ?case
  proof (cases "int (snd (snd st)) < budget \<and> snd (snd ?st) \<noteq> snd (snd st)")
    case True
    then have "budget \<le> int (f + snd (snd ?st))" using c Suc.prems by linarith
    then show ?thesis using Suc.IH [of ?st] True by (simp add: Let_def)
  next
    case False
    then show ?thesis using c by (auto simp: Let_def split: prod.split)
  qed
qed

lemma pooled_empty: "\<forall>n \<in> set names. pools n = [] \<Longrightarrow> pooled names pools = {#}"
  by (induction names) (simp_all add: pooled_def)

lemma pooled_strata:
  assumes "distinct names" and "set names = cd_stratum ` set cs"
  shows "pooled names (\<lambda>s. filter (\<lambda>c. cd_stratum c = s) cs) = mset (map cd_item cs)"
proof -
  have "\<forall>c \<in> set cs. cd_stratum c \<in> set names \<Longrightarrow>
      pooled names (\<lambda>s. filter (\<lambda>c. cd_stratum c = s) cs) = mset (map cd_item cs)"
  proof (induction cs)
    case (Cons c cs)
    have "pooled names (\<lambda>s. filter (\<lambda>d. cd_stratum d = s) (c # cs)) =
        add_mset (cd_item c) (pooled names (\<lambda>s. filter (\<lambda>d. cd_stratum d = s) cs))"
    proof -
      let ?p = "\<lambda>s. filter (\<lambda>d. cd_stratum d = s) cs"
      have m: "cd_stratum c \<in> set names" using Cons.prems by simp
      have "(\<lambda>s. filter (\<lambda>d. cd_stratum d = s) (c # cs)) = ?p(cd_stratum c := c # ?p (cd_stratum c))" by auto
      moreover have "pooled names (?p(cd_stratum c := c # ?p (cd_stratum c))) = image_mset cd_item (mset (c # ?p (cd_stratum c))) +
          pooled (remove1 (cd_stratum c) names) (?p(cd_stratum c := c # ?p (cd_stratum c)))"
        by (rule pooled_upd_same [OF assms(1) m])
      moreover have "pooled names ?p = image_mset cd_item (mset (?p (cd_stratum c))) +
          pooled (remove1 (cd_stratum c) names) (?p(cd_stratum c := c # ?p (cd_stratum c)))"
        by (rule pooled_upd [OF assms(1) m refl])
      ultimately show ?thesis by (simp only: mset.simps image_mset_add_mset union_mset_add_mset_left)
    qed
    then show ?case using Cons by simp
  qed (simp add: pooled_empty)
  then show ?thesis using assms(2) by simp
qed

lemma explore_budget_bounds:
  assumes "0 < budget" and "0 \<le> carriedDebt"
  shows "0 \<le> explore_budget n budget carriedDebt \<and> explore_budget n budget carriedDebt \<le> budget"
proof -
  have "0 \<le> fl (of_int budget * EXPLORATION_FRACTION)" using assms(1) by (intro fl_nonneg) (simp add: EXPLORATION_FRACTION_def)
  then have "0 \<le> entitlement_of budget carriedDebt" using assms(2) unfolding entitlement_of_def by (intro fl_nonneg) simp
  then show ?thesis using assms(1) by (simp add: explore_budget_def)
qed

lemma exploited_split:
  assumes "candidate_ok candidates"
  shows "mset (map cd_item (exploited_of candidates k)) +
    mset (map cd_item (filter (\<lambda>c. cd_item c \<notin> cd_item ` set (exploited_of candidates k)) candidates)) = mset (map cd_item candidates)"
proof -
  let ?ex = "exploited_of candidates k"
  have sub: "mset ?ex \<subseteq># mset candidates"
    unfolding exploited_of_def by (metis append_take_drop_id mset_append mset_sort mset_subset_eq_add_left)
  have d: "distinct candidates" "inj_on cd_item (set candidates)" using assms by (simp_all add: candidate_ok_def distinct_map)
  have "distinct ?ex" using d(1) by (simp add: exploited_of_def)
  moreover have "set ?ex \<subseteq> set candidates" using sub by (metis set_mset_mono set_mset_mset)
  ultimately have "mset ?ex = mset (filter (\<lambda>c. c \<in> set ?ex) candidates)" using d(1) by (intro set_eq_iff_mset_eq_distinct [THEN iffD1]) auto
  also have "filter (\<lambda>c. c \<in> set ?ex) candidates = filter (\<lambda>c. cd_item c \<in> cd_item ` set ?ex) candidates"
    using d(2) \<open>set ?ex \<subseteq> set candidates\<close> by (intro filter_cong refl) (auto dest: inj_onD)
  finally show ?thesis by (simp only: mset_map mset_filter flip: image_mset_union) (simp flip: multiset_partition)
qed

lemma exploited_length: "length (exploited_of candidates k) = min (nat k) (length candidates)"
  by (simp add: exploited_of_def)

lemma exploit_selection_item [simp]: "sl_item \<circ> exploit_selection n budget = cd_item"
  by (simp add: exploit_selection_def fun_eq_iff)

text \<open>What an allocation is made of.\<close>

lemma allocate_parts:
  assumes "candidate_ok candidates" and "0 \<le> carriedDebt" and "0 < budget" and "budget \<le> 1000" and "candidates \<noteq> []"
  obtains new where "fst (allocate candidates budget seed carriedDebt) =
      map (exploit_selection (length candidates) budget) (exploited_of candidates (budget - explore_budget (length candidates) budget carriedDebt)) @ new"
    and "\<forall>s \<in> set new. sl_arm s = explore"
    and "int (length new) = min (explore_budget (length candidates) budget carriedDebt)
      (int (length candidates) - min (budget - explore_budget (length candidates) budget carriedDebt) (int (length candidates)))"
    and "mset (map sl_item new) \<subseteq># mset (map cd_item candidates) -
      mset (map cd_item (exploited_of candidates (budget - explore_budget (length candidates) budget carriedDebt)))"
proof -
  define E where "E = explore_budget (length candidates) budget carriedDebt"
  define ex where "ex = exploited_of candidates (budget - E)"
  define rest where "rest = filter (\<lambda>c. cd_item c \<notin> cd_item ` set ex) candidates"
  define out where "out = map (exploit_selection (length candidates) budget) ex"
  define names where "names = sort (remdups (map cd_stratum rest))"
  define pools where "pools = (\<lambda>s. filter (\<lambda>c. cd_stratum c = s) rest)"
  have E: "0 \<le> E" "E \<le> budget" using explore_budget_bounds [OF assms(3,2)] by (simp_all add: E_def)
  have split: "mset (map cd_item ex) + mset (map cd_item rest) = mset (map cd_item candidates)"
    unfolding ex_def rest_def by (rule exploited_split [OF assms(1)])
  then have "length ex + length rest = length candidates" by (metis length_map size_mset size_union)
  then have len: "int (length rest) = int (length candidates) - min (budget - E) (int (length candidates))"
    using E by (simp add: ex_def exploited_length)
  have alloc: "fst (allocate candidates budget seed carriedDebt) =
      (if E = 0 \<or> rest = [] then out else fst (snd (draw_rounds 1000 0 seed E names (pools, out, 0))))"
    using assms(3,5) by (simp add: allocate_def Let_def E_def ex_def rest_def out_def names_def pools_def split: prod.split)
  show ?thesis
  proof (cases "E = 0 \<or> rest = []")
    case True
    then show ?thesis using that [of "[]"] alloc E len by (auto simp: out_def ex_def E_def)
  next
    case False
    obtain pools' out' drawn where r: "draw_rounds 1000 0 seed E names (pools, out, 0) = (pools', out', drawn)"
      by (cases "draw_rounds 1000 0 seed E names (pools, out, 0)") auto
    have names: "distinct names" "set names = cd_stratum ` set rest" by (simp_all add: names_def)
    have "draw_inv E names (mset (map cd_item rest)) out (pools, out, 0)"
      using pooled_strata [OF names] by (simp add: draw_inv_def pools_def)
    from draw_rounds_inv [OF names(1) this, of 1000 0 seed] obtain new where new: "out' = out @ new" "length new = drawn"
      "\<forall>s \<in> set new. sl_arm s = explore" "mset (map sl_item new) + pooled names pools' = mset (map cd_item rest)" "int drawn \<le> E"
      using E(1) unfolding r by (auto simp: draw_inv_def)
    have "E \<le> int drawn \<or> (\<forall>n \<in> set names. pools' n = [])"
      using draw_rounds_final [of E 1000 "(pools, out, 0)" 0 seed names] E(2) assms(4) r by simp
    moreover have "length new + size (pooled names pools') = length rest" using arg_cong [OF new(4), of size] by simp
    ultimately have "int (length new) = min E (int (length rest))" using new(2,5) pooled_empty [of names pools'] by fastforce
    moreover have "mset (map sl_item new) \<subseteq># mset (map cd_item candidates) - mset (map cd_item ex)"
      using new(4) split by (metis add_diff_cancel_left' mset_subset_eq_add_left)
    moreover have "fst (allocate candidates budget seed carriedDebt) = out @ new" using alloc False r new(1) by simp
    ultimately show ?thesis using that [of new] new(3) len by (simp add: out_def ex_def E_def)
  qed
qed

text \<open>An allocation spends the whole budget, or all the candidates, and no candidate twice.\<close>

theorem allocation_is_exact:
  assumes "distinct (map cd_item candidates)" and "0 \<le> carriedDebt" and "budget \<le> 1000"
  shows "length (fst (allocate candidates budget seed carriedDebt)) = min (nat budget) (length candidates) \<and>
    mset (map sl_item (fst (allocate candidates budget seed carriedDebt))) \<subseteq># mset (map cd_item candidates)"
proof (cases "0 < budget \<and> candidates \<noteq> []")
  case True
  let ?E = "explore_budget (length candidates) budget carriedDebt"
  have ok: "candidate_ok candidates" using assms(1) by (simp add: candidate_ok_def)
  obtain new where new: "fst (allocate candidates budget seed carriedDebt) =
      map (exploit_selection (length candidates) budget) (exploited_of candidates (budget - ?E)) @ new"
    "int (length new) = min ?E (int (length candidates) - min (budget - ?E) (int (length candidates)))"
    "mset (map sl_item new) \<subseteq># mset (map cd_item candidates) - mset (map cd_item (exploited_of candidates (budget - ?E)))"
    using allocate_parts [OF ok assms(2) _ assms(3), of seed] True by metis
  have "0 \<le> ?E" "?E \<le> budget" using explore_budget_bounds [of budget] True assms(2) by simp_all
  then have "length (exploited_of candidates (budget - ?E)) + length new = min (nat budget) (length candidates)"
    using new(2) by (simp add: exploited_length)
  moreover have "mset (map cd_item (exploited_of candidates (budget - ?E))) \<subseteq># mset (map cd_item candidates)"
    using exploited_split [OF ok, of "budget - ?E"] by (metis mset_subset_eq_add_left)
  ultimately show ?thesis using new(1,3) by (simp add: subset_mset.le_diff_conv2 add.commute)
next
  case False
  then show ?thesis by (auto simp: allocate_def)
qed

section \<open>The share over many cycles\<close>

definition quarters :: "int \<Rightarrow> rat" where
  "quarters k = of_int k / 4"

lemma fl_quarters: "\<bar>k\<bar> < 2 ^ 53 \<Longrightarrow> fl (quarters k) = quarters k"
  using fl_exact [of k "-2"] by (simp add: quarters_def power_int_minus)

lemma entitlement_quarters:
  assumes "0 \<le> budget" and "budget \<le> 1000" and "0 \<le> k" and "k < 4"
  shows "entitlement_of budget (quarters k) = quarters (budget + k)"
proof -
  have "fl (of_int budget * EXPLORATION_FRACTION) = quarters budget"
    using fl_quarters [of budget] assms by (simp add: EXPLORATION_FRACTION_def quarters_def)
  moreover have "quarters budget + quarters k = quarters (budget + k)" by (simp add: quarters_def)
  ultimately show ?thesis using fl_quarters [of "budget + k"] assms by (simp add: entitlement_of_def)
qed

lemma floor_quarters: "\<lfloor>quarters k\<rfloor> = k div 4"
  unfolding quarters_def by (simp add: floor_divide_of_int_eq [of k 4, simplified])

lemma next_quarters: "\<bar>k\<bar> < 2000 \<Longrightarrow> fl (quarters k - of_int (k div 4)) = quarters (k mod 4)"
proof -
  have "(of_int k :: rat) = of_int (4 * (k div 4) + k mod 4)" by simp
  also have "\<dots> = 4 * of_int (k div 4) + of_int (k mod 4)" by (simp only: of_int_add of_int_mult of_int_numeral)
  finally have "quarters k - of_int (k div 4) = quarters (k mod 4)" unfolding quarters_def by (simp add: add_divide_distrib)
  then show ?thesis using fl_quarters [of "k mod 4"] by simp
qed

text \<open>The cycles of a run, each with the candidates its screening left and its seed: how many explorations they
  bought, and the row they leave.\<close>

fun run_cycles :: "int \<Rightarrow> ('a Candidate list \<times> int) list \<Rightarrow> rat option \<Rightarrow> nat \<times> rat option" where
  "run_cycles budget [] row = (0, row)"
| "run_cycles budget ((candidates, seed) # cycles) row =
    (let (out, row') = cycle_allocate candidates budget seed row; (n, row'') = run_cycles budget cycles row'
     in (explored out + n, row''))"

lemma explored_parts: "\<forall>s \<in> set new. sl_arm s = explore \<Longrightarrow> explored (map (exploit_selection n budget) ex @ new) = length new"
  by (auto simp: explored_def exploit_selection_def filter_map comp_def)

lemma cycle_quarters:
  assumes "candidate_ok candidates" and "1 \<le> budget" and "budget \<le> 1000" and "budget < int (length candidates)"
    and "0 \<le> k" and "k < 4" and "nullish row 0 = quarters k"
  shows "int (explored (fst (cycle_allocate candidates budget seed row))) = (budget + k) div 4"
    and "snd (cycle_allocate candidates budget seed row) = Some (quarters ((budget + k) mod 4))"
proof -
  have E: "explore_budget (length candidates) budget (quarters k) = (budget + k) div 4"
    using assms(2-6) by (simp add: explore_budget_def entitlement_quarters floor_quarters)
  have ne: "candidates \<noteq> []" "0 < budget" "0 \<le> quarters k" using assms by (auto simp: quarters_def)
  obtain new where new: "fst (allocate candidates budget seed (quarters k)) =
      map (exploit_selection (length candidates) budget) (exploited_of candidates (budget - (budget + k) div 4)) @ new"
    "\<forall>s \<in> set new. sl_arm s = explore"
    "int (length new) = min ((budget + k) div 4) (int (length candidates) - min (budget - (budget + k) div 4) (int (length candidates)))"
    using allocate_parts [OF assms(1) ne(3,2) assms(3) ne(1), of seed] unfolding E by metis
  have "int (length new) = (budget + k) div 4" using new(3) assms(2-6) by linarith
  then show "int (explored (fst (cycle_allocate candidates budget seed row))) = (budget + k) div 4"
    unfolding cycle_allocate_def assms(7) using explored_parts [OF new(2)] new(1) by (simp add: case_prod_beta)
  have "snd (allocate candidates budget seed (quarters k)) = Some (fl (quarters (budget + k) - of_int ((budget + k) div 4)))"
    using ne assms(2-6) by (simp add: allocate_def Let_def E entitlement_quarters split: prod.split)
  also have "\<dots> = Some (quarters ((budget + k) mod 4))" using assms(2-6) by (simp add: next_quarters)
  finally show "snd (cycle_allocate candidates budget seed row) = Some (quarters ((budget + k) mod 4))"
    by (simp add: cycle_allocate_def assms(7) case_prod_beta)
qed

lemma quarter_carry: "(t + m mod 4) div 4 + m div 4 = (t + m) div (4 :: int)" "(t + m mod 4) mod 4 = (t + m) mod (4 :: int)"
  using div_mult_self4 [of 4 "m div 4" "t + m mod 4"] by (simp_all add: mod_add_right_eq add.assoc)

lemma run_cycles_quarters:
  "\<forall>(candidates, seed) \<in> set cycles. candidate_ok candidates \<and> budget < int (length candidates) \<Longrightarrow> 1 \<le> budget \<Longrightarrow> budget \<le> 1000 \<Longrightarrow>
    0 \<le> k \<Longrightarrow> k < 4 \<Longrightarrow> nullish row 0 = quarters k \<Longrightarrow>
    int (fst (run_cycles budget cycles row)) = (budget * int (length cycles) + k) div 4 \<and>
    nullish (snd (run_cycles budget cycles row)) 0 = quarters ((budget * int (length cycles) + k) mod 4)"
proof (induction cycles arbitrary: row k)
  case (Cons c cycles)
  obtain cs seed where c: "c = (cs, seed)" by fastforce
  note one = cycle_quarters [of cs budget k row seed]
  obtain out row' where o1: "cycle_allocate cs budget seed row = (out, row')" by fastforce
  have first: "int (explored out) = (budget + k) div 4" "row' = Some (quarters ((budget + k) mod 4))"
    using one Cons.prems c o1 by auto
  have rest: "int (fst (run_cycles budget cycles row')) = (budget * int (length cycles) + (budget + k) mod 4) div 4 \<and>
      nullish (snd (run_cycles budget cycles row')) 0 = quarters ((budget * int (length cycles) + (budget + k) mod 4) mod 4)"
    using Cons.IH [of "(budget + k) mod 4" row'] Cons.prems first(2) by simp
  define t where "t = budget * int (length cycles)"
  note carry = quarter_carry [of t "budget + k"]
  have all: "budget * int (length (c # cycles)) + k = t + (budget + k)" by (simp add: t_def algebra_simps)
  obtain n row'' where o2: "run_cycles budget cycles row' = (n, row'')" by fastforce
  have "run_cycles budget (c # cycles) row = (explored out + n, row'')" by (simp add: c o1 o2)
  moreover have "int n = (t + (budget + k) mod 4) div 4" "nullish row'' 0 = quarters ((t + (budget + k) mod 4) mod 4)"
    using rest unfolding t_def [symmetric] o2 by simp_all
  ultimately show ?case unfolding all using first(1) carry by (simp only: fst_conv snd_conv of_nat_add add.commute simp_thms)
qed simp

text \<open>C26: A quarter of the quotes, to the slot: over any run of cycles that each have more candidates than quotes, the
  explorations bought are the integer part of a quarter of the quotes spent, and the row carries the
  rest.\<close>

theorem rolling_share:
  assumes "\<forall>(candidates, seed) \<in> set cycles. distinct (map cd_item candidates) \<and> budget < int (length candidates)"
    and "1 \<le> budget" and "budget \<le> 1000"
  shows "int (fst (run_cycles budget cycles None)) = (budget * int (length cycles)) div 4 \<and>
    nullish (snd (run_cycles budget cycles None)) 0 = of_int ((budget * int (length cycles)) mod 4) / 4"
proof -
  have "\<forall>(candidates, seed) \<in> set cycles. candidate_ok candidates \<and> budget < int (length candidates)"
    using assms(1) by (simp add: candidate_ok_def)
  from run_cycles_quarters [OF this assms(2,3), of 0 None] show ?thesis by (simp add: quarters_def)
qed

section \<open>Where the debt is lost\<close>

lemma cycle_empty [simp]: "cycle_allocate [] budget seed row = ([], Some 0)"
  by (simp add: cycle_allocate_def allocate_def)

text \<open>A cycle whose screening promoted nothing returns before the remainder is set, and the caller stores zero: the
  debt of every cycle before it is gone. Two quotes a cycle, every other cycle empty, never explore.\<close>

theorem empty_cycle_forgets_debt:
  "cycle_allocate [] budget seed row = ([], Some 0) \<and>
   fst (run_cycles 2 (concat (map (\<lambda>c. [c, ([], 0)]) cycles)) None) = 0"
proof
  have none: "explored (fst (cycle_allocate cs 2 seed row)) = 0" if "nullish row 0 = 0" for cs :: "'b Candidate list" and seed row
  proof -
    have "entitlement_of 2 0 = quarters 2" using entitlement_quarters [of 2 0] by (simp add: quarters_def)
    then have "explore_budget (length cs) 2 0 = 0" using floor_quarters [of 2] by (simp add: explore_budget_def)
    then show ?thesis using that
      by (auto simp: cycle_allocate_def allocate_def Let_def explored_def exploit_selection_def filter_map comp_def split: prod.split)
  qed
  show "cycle_allocate [] budget seed row = ([], Some 0)" by simp
  have "nullish row 0 = 0 \<Longrightarrow> fst (run_cycles 2 (concat (map (\<lambda>c. [c, ([], 0)]) cycles)) row) = 0" for row
  proof (induction cycles arbitrary: row)
    case (Cons c cycles)
    obtain cs seed where c: "c = (cs, seed)" by fastforce
    obtain out row' where o: "cycle_allocate cs 2 seed row = (out, row')" by fastforce
    have "explored out = 0" using none [OF Cons.prems, of cs seed] o by simp
    then show ?case using Cons.IH [of "Some 0"] o by (simp add: c explored_def)
  qed simp
  then show "fst (run_cycles 2 (concat (map (\<lambda>c. [c, ([], 0)]) cycles)) None) = 0" by simp
qed

text \<open>A slot that was earned and could not be drawn is charged all the same: four quotes and three candidates explore
  nothing, and leave no debt.\<close>

theorem undrawn_slot_is_charged:
  assumes "length candidates = 3"
  shows "explored (fst (cycle_allocate candidates 4 seed None)) = 0 \<and> snd (cycle_allocate candidates 4 seed None) = Some 0"
proof -
  have e: "entitlement_of 4 0 = 1" using entitlement_quarters [of 4 0] by (simp add: quarters_def)
  then have E: "explore_budget 3 4 0 = 1" by (simp add: explore_budget_def)
  have "set (exploited_of candidates 3) = set candidates" using assms by (simp add: exploited_of_def)
  then have none: "filter (\<lambda>c. cd_item c \<notin> cd_item ` set (exploited_of candidates 3)) candidates = []"
    by (auto simp: filter_empty_conv)
  have "candidates \<noteq> []" using assms by auto
  then have "allocate candidates 4 seed 0 = (map (exploit_selection 3 4) (exploited_of candidates 3), Some 0)"
    using none by (simp add: allocate_def assms E e Let_def split: prod.split)
  then show ?thesis by (auto simp: cycle_allocate_def explored_def exploit_selection_def filter_map comp_def)
qed

section \<open>Witnesses\<close>

definition sample_candidates :: "nat Candidate list" where
  "sample_candidates = map (\<lambda>i. \<lparr>cd_item = i, cd_stratum = ''AGE'', cd_rank = of_nat i\<rparr>) [1, 2, 3]"

theorem allocation_is_exact_witness: "length (fst (allocate sample_candidates 2 7 (1 / 2))) = 2"
  using allocation_is_exact [of sample_candidates "1 / 2" 2 7] by (simp add: sample_candidates_def)

theorem rolling_share_witness:
  "fst (run_cycles 2 (map (\<lambda>i. (sample_candidates, i)) [0, 1, 2, 3]) None) = 2"
  using rolling_share [of "map (\<lambda>i. (sample_candidates, i)) [0, 1, 2, 3]" 2] by (simp add: sample_candidates_def)

theorem undrawn_slot_is_charged_witness: "snd (cycle_allocate sample_candidates 4 7 None) = Some 0"
  using undrawn_slot_is_charged [of sample_candidates 7] by (simp add: sample_candidates_def)

end
