(* ===== verification/EventReplay.thy ===== *)
theory EventReplay
  imports TokenAccounts "HOL-Library.Product_Lexorder"
begin

text \<open>
  The trades a position slept through: read off the pool's two vaults by \<open>packages/pipeline/src/event-source.ts\<close>,
  turned into an ordered list of swaps to execute locally or refused by \<open>event-replay.ts\<close>, and paid for by
  the stand-in actor of \<open>replay-actor.ts\<close>. The RPC is two arguments, the signature listing (by cursor) and
  the transaction reader; refusal details are left out.
\<close>

section \<open>Events\<close>

datatype PoolEventKind = ev_BUY | ev_SELL | ev_DEPOSIT | ev_WITHDRAW | ev_NO_POOL_EFFECT | ev_INDETERMINATE

datatype ReplayRefusal = EVENT_DELTA_UNOBSERVED | LIQUIDITY_EVENT_NOT_REPLAYABLE | EVENT_ORDER_AMBIGUOUS
  | EVENT_LIST_INCOMPLETE | EVENT_LIST_TRUNCATED | REPLAY_EVENT_FAILED | EVENT_INPUT_NOT_POSITIVE

record ObservedPoolEvent =
  pe_signature :: string
  pe_slot :: int
  pe_orderInSlot :: nat
  pe_base :: "int option"
  pe_quote :: "int option"

definition classify :: "int option \<Rightarrow> int option \<Rightarrow> PoolEventKind" where
  "classify base quote =
    (case (base, quote) of
       (Some b, Some q) \<Rightarrow>
         if b = 0 \<and> q = 0 then ev_NO_POOL_EFFECT
         else if b > 0 \<and> q > 0 then ev_DEPOSIT
         else if b < 0 \<and> q < 0 then ev_WITHDRAW
         else if b = 0 \<or> q = 0 then ev_INDETERMINATE
         else if q > 0 then ev_BUY else ev_SELL
     | _ \<Rightarrow> ev_INDETERMINATE)"

definition classifyPoolEvent :: "ObservedPoolEvent \<Rightarrow> PoolEventKind" where
  "classifyPoolEvent e = classify (pe_base e) (pe_quote e)"

datatype trade_side = side_BUY | side_SELL

record ReplayStep =
  rp_signature :: string
  rp_slot :: int
  rp_kind :: trade_side
  rp_inputAmount :: int

text \<open>The map from positions to signatures, and whether a position was claimed twice.\<close>

fun claim_positions :: "ObservedPoolEvent list \<Rightarrow> (int \<times> nat \<Rightarrow> string option) \<Rightarrow> (int \<times> nat) list" where
  "claim_positions [] seen = []"
| "claim_positions (e # es) seen =
    (let key = (pe_slot e, pe_orderInSlot e)
     in case seen key of
          Some prior \<Rightarrow> if prior \<noteq> pe_signature e then key # claim_positions es seen
            else claim_positions es (seen(key \<mapsto> pe_signature e))
        | None \<Rightarrow> claim_positions es (seen(key \<mapsto> pe_signature e)))"

definition orderEvents :: "ObservedPoolEvent list \<Rightarrow> ObservedPoolEvent list \<times> (int \<times> nat) list" where
  "orderEvents events =
    (sort_key (\<lambda>e. (pe_slot e, pe_orderInSlot e)) events, claim_positions events (\<lambda>_. None))"

record ReplayWindow =
  rw_entrySlot :: int
  rw_exitSlot :: int
  rw_listedFromSlot :: "int option"
  rw_listedToSlot :: "int option"
  rw_truncated :: bool

record ReplayPlan =
  rpl_steps :: "ReplayStep list"
  rpl_refusals :: "ReplayRefusal list"
  rpl_inert :: nat

text \<open>The loop over the ordered events: steps, refusals and inert events, each in order.\<close>

fun plan_loop :: "ObservedPoolEvent list \<Rightarrow> ReplayStep list \<times> ReplayRefusal list \<times> nat" where
  "plan_loop [] = ([], [], 0)"
| "plan_loop (e # es) =
    (let (steps, refusals, inert) = plan_loop es;
         refused = (\<lambda>r. (steps, r # refusals, inert));
         swap = (\<lambda>side input. if input \<le> 0 then refused EVENT_INPUT_NOT_POSITIVE
           else (\<lparr>rp_signature = pe_signature e, rp_slot = pe_slot e, rp_kind = side, rp_inputAmount = input\<rparr> # steps, refusals, inert))
     in case classifyPoolEvent e of
          ev_NO_POOL_EFFECT \<Rightarrow> (steps, refusals, Suc inert)
        | ev_INDETERMINATE \<Rightarrow> refused EVENT_DELTA_UNOBSERVED
        | ev_DEPOSIT \<Rightarrow> refused LIQUIDITY_EVENT_NOT_REPLAYABLE
        | ev_WITHDRAW \<Rightarrow> refused LIQUIDITY_EVENT_NOT_REPLAYABLE
        | ev_BUY \<Rightarrow> swap side_BUY (the (pe_quote e))
        | ev_SELL \<Rightarrow> swap side_SELL (the (pe_base e)))"

definition replayPlan :: "ObservedPoolEvent list \<Rightarrow> ReplayWindow \<Rightarrow> ReplayPlan" where
  "replayPlan events w =
    (let inWindow = filter (\<lambda>e. pe_slot e > rw_entrySlot w \<and> pe_slot e \<le> rw_exitSlot w) events;
         (ordered, ambiguous) = orderEvents inWindow;
         (steps, refused, inert) = plan_loop ordered
     in \<lparr>rpl_steps = steps,
         rpl_refusals =
           (if rw_truncated w then [EVENT_LIST_TRUNCATED] else []) @
           (case rw_listedFromSlot w of None \<Rightarrow> [EVENT_LIST_INCOMPLETE]
            | Some from \<Rightarrow> if from > rw_entrySlot w then [EVENT_LIST_INCOMPLETE] else []) @
           (if rw_listedToSlot w = None then [EVENT_LIST_INCOMPLETE] else []) @
           map (\<lambda>_. EVENT_ORDER_AMBIGUOUS) ambiguous @ refused,
         rpl_inert = inert\<rparr>)"

definition vaultDelta :: "int option \<Rightarrow> int option \<Rightarrow> int option" where
  "vaultDelta pre post = (case (pre, post) of (Some a, Some b) \<Rightarrow> Some (b - a) | _ \<Rightarrow> None)"

definition planIsUsable :: "ReplayPlan \<Rightarrow> bool" where
  "planIsUsable plan = (rpl_refusals plan = [])"

datatype replay_class = FULL_EVENT_REPLAY_TRAJECTORY | BOUNDED_COUNTERFACTUAL_TRAJECTORY

definition replayEvidenceClass :: "ReplayPlan \<Rightarrow> replay_class \<times> ReplayRefusal list" where
  "replayEvidenceClass plan =
    (if planIsUsable plan then (FULL_EVENT_REPLAY_TRAJECTORY, [])
     else (BOUNDED_COUNTERFACTUAL_TRAJECTORY, js_set_of (rpl_refusals plan)))"

section \<open>Reading the chain\<close>

record signature_row =
  sg_signature :: string
  sg_slot :: "int option"
  sg_failed :: "bool option"

record TokenBalanceRow =
  tb_accountIndex :: nat
  tb_amount :: int

record LandedTransaction =
  lt_signature :: string
  lt_accountKeys :: "string list"
  lt_preTokenBalances :: "TokenBalanceRow list"
  lt_postTokenBalances :: "TokenBalanceRow list"

definition vaultAmounts :: "LandedTransaction \<Rightarrow> string \<Rightarrow> int option \<times> int option" where
  "vaultAmounts tx vault =
    (if vault \<notin> set (lt_accountKeys tx) then (None, None)
     else
      (let idx = length (takeWhile (\<lambda>k. k \<noteq> vault) (lt_accountKeys tx));
           amount = (\<lambda>rows. map_option tb_amount (find (\<lambda>b. tb_accountIndex b = idx) rows))
       in (Some (nullish (amount (lt_preTokenBalances tx)) 0), Some (nullish (amount (lt_postTokenBalances tx)) 0))))"

definition poolEventFrom :: "LandedTransaction \<Rightarrow> string \<Rightarrow> string \<Rightarrow> nat \<Rightarrow> int \<Rightarrow> ObservedPoolEvent" where
  "poolEventFrom tx baseVault quoteVault orderInSlot slot =
    \<lparr>pe_signature = lt_signature tx, pe_slot = slot, pe_orderInSlot = orderInSlot,
     pe_base = (let (pre, post) = vaultAmounts tx baseVault in vaultDelta pre post),
     pe_quote = (let (pre, post) = vaultAmounts tx quoteVault in vaultDelta pre post)\<rparr>"

text \<open>How many rows of each slot were seen; a missing slot counts under \<open>-1\<close>.\<close>

fun assign_loop :: "(int \<Rightarrow> nat) \<Rightarrow> signature_row list \<Rightarrow> (signature_row \<times> nat) list" where
  "assign_loop seen [] = []"
| "assign_loop seen (s # ss) =
    (let key = nullish (sg_slot s) (- 1) in (s, seen key) # assign_loop (seen(key := Suc (seen key))) ss)"

definition assignOrderInSlot :: "signature_row list \<Rightarrow> (signature_row \<times> nat) list" where
  "assignOrderInSlot newestFirst = assign_loop (\<lambda>_. 0) (rev newestFirst)"

fun page_loop :: "(string option \<Rightarrow> signature_row list) \<Rightarrow> nat \<Rightarrow> int \<Rightarrow> nat \<Rightarrow> string option \<Rightarrow> signature_row list \<Rightarrow>
    signature_row list \<times> bool" where
  "page_loop signatures pageSize entrySlot 0 before listed = (listed, True)"
| "page_loop signatures pageSize entrySlot (Suc pages) before listed =
    (let rows = signatures before; listed' = listed @ rows
     in if length rows < pageSize then (listed', False)
        else if rows = [] then (listed', False)
        else if (case sg_slot (last rows) of Some s \<Rightarrow> s \<le> entrySlot | None \<Rightarrow> False) then (listed', False)
        else page_loop signatures pageSize entrySlot pages (Some (sg_signature (last rows))) listed')"

record EventListing =
  el_events :: "ObservedPoolEvent list"
  el_listedFromSlot :: "int option"
  el_listedToSlot :: "int option"
  el_truncated :: bool
  el_failedExcluded :: nat
  el_unreadable :: "string list"

text \<open>One positioned row's event; a transaction that cannot be read keeps its place with unknown deltas.\<close>

definition event_at :: "(string \<Rightarrow> LandedTransaction option) \<Rightarrow> string \<Rightarrow> string \<Rightarrow> signature_row \<times> nat \<Rightarrow> ObservedPoolEvent" where
  "event_at getTransaction baseVault quoteVault = (\<lambda>(s, n).
    (case getTransaction (sg_signature s) of
       None \<Rightarrow> \<lparr>pe_signature = sg_signature s, pe_slot = the (sg_slot s), pe_orderInSlot = n, pe_base = None, pe_quote = None\<rparr>
     | Some tx \<Rightarrow> poolEventFrom tx baseVault quoteVault n (the (sg_slot s))))"

definition in_window :: "int \<Rightarrow> int \<Rightarrow> signature_row \<Rightarrow> bool" where
  "in_window entrySlot exitSlot s = (case sg_slot s of None \<Rightarrow> False | Some slot \<Rightarrow> slot > entrySlot \<and> slot \<le> exitSlot)"

definition fetchInterveningEvents ::
    "(string option \<Rightarrow> signature_row list) \<Rightarrow> (string \<Rightarrow> LandedTransaction option) \<Rightarrow> string \<Rightarrow> string \<Rightarrow> int \<Rightarrow> int \<Rightarrow> nat \<Rightarrow> nat \<Rightarrow>
     EventListing" where
  "fetchInterveningEvents signatures getTransaction baseVault quoteVault entrySlot exitSlot pageSize maxPages =
    (let (listed, truncated) = page_loop signatures pageSize entrySlot maxPages None [];
         candidates = filter (\<lambda>s. sg_failed s \<noteq> Some True) listed;
         positioned = filter (\<lambda>(s, _). in_window entrySlot exitSlot s) (assignOrderInSlot candidates);
         slots = List.map_filter sg_slot listed
     in \<lparr>el_events = map (event_at getTransaction baseVault quoteVault) positioned,
         el_listedFromSlot = (if slots = [] then None else Some (Min (set slots))),
         el_listedToSlot = (if slots = [] then None else Some (Max (set slots))),
         el_truncated = truncated,
         el_failedExcluded = length (filter (\<lambda>s. sg_failed s = Some True) listed),
         el_unreadable = map (\<lambda>(s, _). sg_signature s) (filter (\<lambda>(s, _). getTransaction (sg_signature s) = None) positioned)\<rparr>)"

definition windowFrom :: "EventListing \<Rightarrow> int \<Rightarrow> int \<Rightarrow> ReplayWindow" where
  "windowFrom listing entrySlot exitSlot =
    \<lparr>rw_entrySlot = entrySlot, rw_exitSlot = exitSlot, rw_listedFromSlot = el_listedFromSlot listing,
     rw_listedToSlot = el_listedToSlot listing, rw_truncated = el_truncated listing\<rparr>"

section \<open>The stand-in actor\<close>

definition seedRequirement :: "ReplayStep list \<Rightarrow> int \<times> int" where
  "seedRequirement steps = fold (\<lambda>s (baseAtoms, quoteLamports).
     if rp_kind s = side_SELL then (baseAtoms + rp_inputAmount s, quoteLamports)
     else (baseAtoms, quoteLamports + rp_inputAmount s)) steps (0, 0)"

definition SEED_LAMPORT_HEADROOM :: int where "SEED_LAMPORT_HEADROOM = 2 * 1000000000"

definition REPLAY_ACTOR :: string where "REPLAY_ACTOR = ''RepLay1111111111111111111111111111111111111''"

definition TOKEN_ACCOUNT_RENT_LAMPORTS :: int where "TOKEN_ACCOUNT_RENT_LAMPORTS = 2039280"

datatype SeedRefusal = SEED_AMOUNT_UNREPRESENTABLE | SEED_TOKEN_PROGRAM_UNKNOWN

record FrozenAccount =
  fa_pubkey :: string
  fa_data :: bytes
  fa_owner :: string
  fa_lamports :: int

record ActorSeed =
  as_baseAta :: string
  as_accounts :: "FrozenAccount list"
  as_baseAtomsSeeded :: int
  as_lamportsSeeded :: int
  as_refusals :: "SeedRefusal list"

text \<open>The derivation of the associated address (a program-derived address) is an argument. Encoding the token account
  can throw.\<close>

definition seedActor :: "(string \<Rightarrow> string \<Rightarrow> string \<Rightarrow> string) \<Rightarrow> ReplayStep list \<Rightarrow> string \<Rightarrow> string option \<Rightarrow>
    TokenAccountExtension list option \<Rightarrow> token_account_error + ActorSeed" where
  "seedActor associatedTokenAddressOf steps baseMint baseTokenProgram extensions =
    (let (baseAtoms, quoteLamports) = seedRequirement steps in
     case baseTokenProgram of
       None \<Rightarrow> Inr \<lparr>as_baseAta = [], as_accounts = [], as_baseAtomsSeeded = 0, as_lamportsSeeded = 0,
         as_refusals = [SEED_TOKEN_PROGRAM_UNKNOWN]\<rparr>
     | Some program \<Rightarrow>
        (let refusals = (if baseAtoms > 2 ^ 64 - 1 then [SEED_AMOUNT_UNREPRESENTABLE] else []);
             baseAta = associatedTokenAddressOf REPLAY_ACTOR baseMint program;
             lamports = quoteLamports + SEED_LAMPORT_HEADROOM;
             seed = (\<lambda>accounts. \<lparr>as_baseAta = baseAta, as_accounts = accounts, as_baseAtomsSeeded = baseAtoms,
               as_lamportsSeeded = lamports, as_refusals = refusals\<rparr>)
         in if refusals \<noteq> [] then Inr (seed [])
            else ebind (encodeTokenAccount \<lparr>ta_mint = baseMint, ta_owner = REPLAY_ACTOR, ta_amount = baseAtoms, ta_extensions = extensions\<rparr>)
              (\<lambda>data. Inr (seed
                [\<lparr>fa_pubkey = REPLAY_ACTOR, fa_data = [], fa_owner = ''11111111111111111111111111111111'', fa_lamports = lamports\<rparr>,
                 \<lparr>fa_pubkey = baseAta, fa_data = data, fa_owner = program, fa_lamports = TOKEN_ACCOUNT_RENT_LAMPORTS\<rparr>]))))"

section \<open>Plans\<close>

text \<open>What a plan makes of one event that can be replayed: a swap with its positive input, or nothing for an event that
  did not move the pool.\<close>

definition replayable :: "ObservedPoolEvent \<Rightarrow> bool" where
  "replayable e \<longleftrightarrow> (case (pe_base e, pe_quote e) of
     (Some b, Some q) \<Rightarrow> b = 0 \<and> q = 0 \<or> b < 0 \<and> 0 < q \<or> 0 < b \<and> q < 0
   | _ \<Rightarrow> False)"

definition swap_of :: "ObservedPoolEvent \<Rightarrow> ReplayStep option" where
  "swap_of e = (case (pe_base e, pe_quote e) of
     (Some b, Some q) \<Rightarrow>
       if b = 0 \<and> q = 0 then None
       else Some \<lparr>rp_signature = pe_signature e, rp_slot = pe_slot e,
         rp_kind = (if 0 < q then side_BUY else side_SELL), rp_inputAmount = (if 0 < q then q else b)\<rparr>
   | _ \<Rightarrow> None)"

lemma classify_swap: "classifyPoolEvent e = ev_BUY \<Longrightarrow> \<exists>b q. pe_base e = Some b \<and> pe_quote e = Some q \<and> b < 0 \<and> 0 < q"
  "classifyPoolEvent e = ev_SELL \<Longrightarrow> \<exists>b q. pe_base e = Some b \<and> pe_quote e = Some q \<and> 0 < b \<and> q < 0"
  by (auto simp: classifyPoolEvent_def classify_def split: option.splits if_splits)

lemma classify_rest: "replayable e \<longleftrightarrow> classifyPoolEvent e \<in> {ev_BUY, ev_SELL, ev_NO_POOL_EFFECT}"
  by (auto simp: replayable_def classifyPoolEvent_def classify_def split: option.splits)

lemma swap_of_Some: "pe_base e = Some b \<Longrightarrow> pe_quote e = Some q \<Longrightarrow> swap_of e = (if b = 0 \<and> q = 0 then None
    else Some \<lparr>rp_signature = pe_signature e, rp_slot = pe_slot e,
      rp_kind = (if 0 < q then side_BUY else side_SELL), rp_inputAmount = (if 0 < q then q else b)\<rparr>)"
  by (simp add: swap_of_def)

lemma plan_loop_usable:
  "fst (snd (plan_loop es)) = [] \<longleftrightarrow> (\<forall>e \<in> set es. replayable e)"
  "fst (snd (plan_loop es)) = [] \<Longrightarrow> fst (plan_loop es) = List.map_filter swap_of es"
proof (induction es)
  case (Cons e es)
  obtain st rf n where p: "plan_loop es = (st, rf, n)" by (cases "plan_loop es") auto
  show "fst (snd (plan_loop (e # es))) = [] \<longleftrightarrow> (\<forall>e \<in> set (e # es). replayable e)"
    using Cons.IH(1) classify_swap [of e] by (auto simp: p classify_rest Let_def split: PoolEventKind.splits)
  show "fst (plan_loop (e # es)) = List.map_filter swap_of (e # es)" if "fst (snd (plan_loop (e # es))) = []"
    using that Cons.IH(2) classify_swap [of e]
    by (auto simp: p classify_rest Let_def map_filter_simps swap_of_Some classifyPoolEvent_def classify_def
        split: PoolEventKind.splits option.splits if_splits)
qed (simp_all add: map_filter_simps)

text \<open>A plan is used whole or not at all. A usable one rests on a listing that reaches back to the entry and
  was not cut short; every event of the window either left both vaults alone or is a swap, and the steps are
  those swaps, in block order, each with the positive amount the trader put in.\<close>

lemma plan_is_window:
  assumes "planIsUsable (replayPlan events w)"
  shows "\<not> rw_truncated w \<and> (\<exists>from. rw_listedFromSlot w = Some from \<and> from \<le> rw_entrySlot w) \<and>
    (\<forall>e \<in> set events. rw_entrySlot w < pe_slot e \<and> pe_slot e \<le> rw_exitSlot w \<longrightarrow> replayable e) \<and>
    rpl_steps (replayPlan events w) = List.map_filter swap_of (sort_key (\<lambda>e. (pe_slot e, pe_orderInSlot e))
      (filter (\<lambda>e. rw_entrySlot w < pe_slot e \<and> pe_slot e \<le> rw_exitSlot w) events)) \<and>
    (\<forall>s \<in> set (rpl_steps (replayPlan events w)). 0 < rp_inputAmount s)"
proof -
  let ?win = "filter (\<lambda>e. rw_entrySlot w < pe_slot e \<and> pe_slot e \<le> rw_exitSlot w) events"
  let ?es = "sort_key (\<lambda>e. (pe_slot e, pe_orderInSlot e)) ?win"
  have none: "fst (snd (plan_loop ?es)) = []" and list: "\<not> rw_truncated w" "\<exists>from. rw_listedFromSlot w = Some from \<and> from \<le> rw_entrySlot w"
    using assms by (auto simp: planIsUsable_def replayPlan_def orderEvents_def Let_def split: prod.splits option.splits if_splits)
  have "\<forall>e \<in> set ?es. replayable e" using none plan_loop_usable(1) by blast
  moreover have "rpl_steps (replayPlan events w) = List.map_filter swap_of ?es"
    using plan_loop_usable(2) [OF none] by (simp add: replayPlan_def orderEvents_def Let_def case_prod_beta)
  moreover have "replayable e \<Longrightarrow> swap_of e = Some s \<Longrightarrow> 0 < rp_inputAmount s" for e s
    by (auto simp: replayable_def swap_of_def split: option.splits if_splits)
  ultimately show ?thesis using list by (auto simp: map_filter_def)
qed


section \<open>The seed\<close>

lemma seedRequirement_fold: "fold (\<lambda>s (baseAtoms, quoteLamports).
     if rp_kind s = side_SELL then (baseAtoms + rp_inputAmount s, quoteLamports)
     else (baseAtoms, quoteLamports + rp_inputAmount s)) steps (b, q) =
   (b + (\<Sum>s \<leftarrow> filter (\<lambda>s. rp_kind s = side_SELL) steps. rp_inputAmount s),
    q + (\<Sum>s \<leftarrow> filter (\<lambda>s. rp_kind s = side_BUY) steps. rp_inputAmount s))"
proof (induction steps arbitrary: b q)
  case (Cons s steps)
  then show ?case by (cases "rp_kind s") simp_all
qed simp

lemma seedRequirement_sums: "seedRequirement steps =
   (\<Sum>s \<leftarrow> filter (\<lambda>s. rp_kind s = side_SELL) steps. rp_inputAmount s,
    \<Sum>s \<leftarrow> filter (\<lambda>s. rp_kind s = side_BUY) steps. rp_inputAmount s)"
  by (simp add: seedRequirement_def seedRequirement_fold)

text \<open>The base account the actor sells from holds the sum of the sells, as the bytes decode, and keeps the rent of a plain
  account even when the mint's extensions make it longer: below the exemption its comment claims.\<close>

theorem seeded_account_below_rent:
  assumes "seedActor ata steps baseMint (Some TOKEN_2022_PROGRAM) (Some (x # xs)) = Inr seed" and "as_refusals seed = []"
  shows "\<exists>a \<in> set (as_accounts seed). fa_pubkey a = as_baseAta seed \<and>
    decodeTokenAccountAmount (fa_data a) = Some (\<Sum>s \<leftarrow> filter (\<lambda>s. rp_kind s = side_SELL) steps. rp_inputAmount s) \<and>
    fa_lamports a < rentExemptLamports (length (fa_data a))"
proof -
  let ?f = "\<lparr>ta_mint = baseMint, ta_owner = REPLAY_ACTOR, ta_amount = fst (seedRequirement steps), ta_extensions = Some (x # xs)\<rparr>"
  obtain data where d: "encodeTokenAccount ?f = Inr data"
    and seed: "seed = \<lparr>as_baseAta = ata REPLAY_ACTOR baseMint TOKEN_2022_PROGRAM, as_accounts =
       [\<lparr>fa_pubkey = REPLAY_ACTOR, fa_data = [], fa_owner = ''11111111111111111111111111111111'',
           fa_lamports = snd (seedRequirement steps) + SEED_LAMPORT_HEADROOM\<rparr>,
        \<lparr>fa_pubkey = ata REPLAY_ACTOR baseMint TOKEN_2022_PROGRAM, fa_data = data, fa_owner = TOKEN_2022_PROGRAM,
           fa_lamports = TOKEN_ACCOUNT_RENT_LAMPORTS\<rparr>],
       as_baseAtomsSeeded = fst (seedRequirement steps), as_lamportsSeeded = snd (seedRequirement steps) + SEED_LAMPORT_HEADROOM,
       as_refusals = []\<rparr>"
    using assms by (auto simp: seedActor_def case_prod_beta Let_def ebind_eq_Inr split: if_splits)
  have "170 \<le> length data" using d account_bytes_fields(4) by (fastforce simp: encodeTokenAccount_Inr)
  then have "TOKEN_ACCOUNT_RENT_LAMPORTS < rentExemptLamports (length data)"
    by (simp add: TOKEN_ACCOUNT_RENT_LAMPORTS_def rentExemptLamports_def)
  then show ?thesis using token_account_roundtrip_parts(1) [OF d] seed by (simp add: seedRequirement_sums)
qed

section \<open>Trades counted twice, trades dropped\<close>

text \<open>One signature listed twice at one position is not ambiguous, and its trade is replayed twice.\<close>

theorem listed_twice_is_replayed_twice:
  assumes "pe_base e = Some b" "b < 0" "pe_quote e = Some q" "0 < q" and "entry < pe_slot e" "pe_slot e \<le> exit"
  shows "let plan = replayPlan [e, e] \<lparr>rw_entrySlot = entry, rw_exitSlot = exit, rw_listedFromSlot = Some entry,
       rw_listedToSlot = Some (pe_slot e), rw_truncated = False\<rparr>
     in planIsUsable plan \<and> map rp_signature (rpl_steps plan) = [pe_signature e, pe_signature e]"
  using assms by (simp add: replayPlan_def orderEvents_def planIsUsable_def classifyPoolEvent_def classify_def Let_def)

text \<open>A listed transaction without a slot is neither replayed nor refused: the window filter drops the row before it
  becomes an event.\<close>

theorem slotless_row_is_dropped:
  "let listing = fetchInterveningEvents (\<lambda>_. [\<lparr>sg_signature = ''trade'', sg_slot = None, sg_failed = Some False\<rparr>,
         \<lparr>sg_signature = ''old'', sg_slot = Some entry, sg_failed = Some False\<rparr>]) getTransaction base quote entry exit 100 10;
       plan = replayPlan (el_events listing) (windowFrom listing entry exit)
   in planIsUsable plan \<and> rpl_steps plan = [] \<and> el_unreadable listing = []"
proof -
  have "page_loop sigs 100 entry 10 None [] = (sigs None, False)" if "length (sigs None) = 2" for sigs
    using that by (simp add: eval_nat_numeral Let_def)
  then show ?thesis
    by (simp add: fetchInterveningEvents_def assignOrderInSlot_def in_window_def replayPlan_def orderEvents_def planIsUsable_def
      windowFrom_def map_filter_simps Let_def)
qed

section \<open>The listing is the chain's history\<close>

text \<open>The documented answer of \<open>getSignaturesForAddress\<close>: from the newest, or from just before the cursor, at most
  \<open>pageSize\<close> rows of the address's history.\<close>

definition signature_pages :: "signature_row list \<Rightarrow> nat \<Rightarrow> string option \<Rightarrow> signature_row list" where
  "signature_pages history pageSize before =
    take pageSize (case before of None \<Rightarrow> history | Some s \<Rightarrow> tl (dropWhile (\<lambda>r. sg_signature r \<noteq> s) history))"

lemma dropWhile_at:
  "distinct (map f xs) \<Longrightarrow> k < length xs \<Longrightarrow> tl (dropWhile (\<lambda>r. f r \<noteq> f (xs ! k)) xs) = drop (Suc k) xs"
proof (induction xs arbitrary: k)
  case (Cons x xs)
  then show ?case by (cases k) auto
qed simp

definition cursor_at :: "signature_row list \<Rightarrow> nat \<Rightarrow> string option" where
  "cursor_at history k = (case k of 0 \<Rightarrow> None | Suc i \<Rightarrow> Some (sg_signature (history ! i)))"

lemma page_at: "distinct (map sg_signature history) \<Longrightarrow> k \<le> length history \<Longrightarrow>
    signature_pages history pageSize (cursor_at history k) = take pageSize (drop k history)"
  using dropWhile_at [of sg_signature history "k - 1"] by (cases k) (simp_all add: signature_pages_def cursor_at_def)

lemma page_loop_prefix:
  assumes "distinct (map sg_signature history)" and "0 < pageSize"
  shows "k \<le> length history \<Longrightarrow>
    page_loop (signature_pages history pageSize) pageSize entry pages (cursor_at history k) (take k history) = (listed, truncated) \<Longrightarrow>
    \<exists>n \<le> length history. listed = take n history \<and>
      (\<not> truncated \<longrightarrow> n = length history \<or> (0 < n \<and> (\<exists>s. sg_slot (history ! (n - 1)) = Some s \<and> s \<le> entry)))"
proof (induction pages arbitrary: k)
  case (Suc pages)
  let ?rows = "take pageSize (drop k history)"
  let ?n = "min (k + pageSize) (length history)"
  note page = page_at [OF assms(1) Suc.prems(1), of pageSize]
  have app: "take k history @ ?rows = take ?n history" by (simp add: take_add min_def flip: take_add)
  show ?case
  proof (cases "length ?rows < pageSize")
    case True
    then show ?thesis using Suc.prems page app by (intro exI [of _ "length history"]) (auto simp: Let_def min_def split: if_splits)
  next
    case False
    then have n: "?n = k + pageSize" "k + pageSize \<le> length history" using Suc.prems(1) by simp_all
    then have ne: "?rows \<noteq> []" and last: "last ?rows = history ! (k + pageSize - 1)" using assms(2)
      by (auto simp: last_conv_nth)
    show ?thesis
    proof (cases "case sg_slot (last ?rows) of Some s \<Rightarrow> s \<le> entry | None \<Rightarrow> False")
      case True
      then have "listed = take (k + pageSize) history" using Suc.prems(2) False ne app n by (simp add: page Let_def)
      moreover have "\<exists>s. sg_slot (history ! (k + pageSize - 1)) = Some s \<and> s \<le> entry" using True last by (simp split: option.splits)
      ultimately show ?thesis using n assms(2) by (intro exI [of _ "k + pageSize"]) simp
    next
      case F2: False
      have "cursor_at history (k + pageSize) = Some (sg_signature (last ?rows))"
        using last assms(2) by (cases "k + pageSize") (simp_all add: cursor_at_def)
      then show ?thesis using Suc.IH [of "k + pageSize"] Suc.prems(2) False F2 ne app n by (simp add: page Let_def)
    qed
  qed
qed auto

text \<open>Rows at or before the entry, which come last, leave the window's rows where they are.\<close>

definition keyed :: "signature_row list \<Rightarrow> int \<Rightarrow> bool" where
  "keyed rows entry \<longleftrightarrow> (\<forall>r \<in> set rows. \<exists>s. sg_slot r = Some s \<and> s \<le> entry)"

lemma assign_loop_old:
  "keyed old entry \<Longrightarrow> \<forall>s > entry. seen s = seen' s \<Longrightarrow>
    filter (\<lambda>(s, _). in_window entry exit s) (assign_loop seen (old @ new)) = filter (\<lambda>(s, _). in_window entry exit s) (assign_loop seen' new)"
proof (induction old arbitrary: seen)
  case Nil
  have "\<forall>s > entry. seen s = seen' s \<Longrightarrow>
      filter (\<lambda>(s, _). in_window entry exit s) (assign_loop seen new) = filter (\<lambda>(s, _). in_window entry exit s) (assign_loop seen' new)" for seen seen'
  proof (induction new arbitrary: seen seen')
    case (Cons r new)
    have "seen (nullish (sg_slot r) (- 1)) = seen' (nullish (sg_slot r) (- 1)) \<or> \<not> in_window entry exit r"
      using Cons.prems by (auto simp: in_window_def split: option.splits)
    moreover have "filter (\<lambda>(s, _). in_window entry exit s) (assign_loop (seen(k := Suc (seen k))) new) =
        filter (\<lambda>(s, _). in_window entry exit s) (assign_loop (seen'(k := Suc (seen' k))) new)" for k
      using Cons.prems by (intro Cons.IH) auto
    ultimately show ?case by (auto simp: Let_def)
  qed simp
  then show ?case using Nil by simp
next
  case (Cons r old)
  obtain s where s: "sg_slot r = Some s" "s \<le> entry" using Cons.prems(1) by (auto simp: keyed_def)
  have "keyed old entry" using Cons.prems(1) by (simp add: keyed_def)
  moreover have "\<not> in_window entry exit r" using s by (simp add: in_window_def)
  moreover have "\<forall>t > entry. (seen(s := Suc (seen s))) t = seen' t" using Cons.prems(2) s(2) by simp
  ultimately show ?case using Cons.IH [of "seen(s := Suc (seen s))"] s(1) by (simp add: Let_def del: fun_upd_apply)
qed

text \<open>When the listing was not cut short, its events are those of the whole history: every transaction of the window
  that the chain does not call failed, in the order the chain lists them, at the same positions.\<close>

lemma listing_is_the_history:
  assumes "distinct (map sg_signature history)" and "0 < pageSize" and "\<forall>r \<in> set history. sg_slot r \<noteq> None"
    and "sorted_wrt (\<lambda>a b. the (sg_slot b) \<le> the (sg_slot a)) history"
    and "\<not> el_truncated (fetchInterveningEvents (signature_pages history pageSize) getTransaction base quote entry exit pageSize pages)"
  shows "el_events (fetchInterveningEvents (signature_pages history pageSize) getTransaction base quote entry exit pageSize pages) =
    map (event_at getTransaction base quote)
      (filter (\<lambda>(s, _). in_window entry exit s) (assignOrderInSlot (filter (\<lambda>s. sg_failed s \<noteq> Some True) history)))"
proof -
  obtain listed tr where l: "page_loop (signature_pages history pageSize) pageSize entry pages None [] = (listed, tr)" by fastforce
  have "\<not> tr" using assms(5) l by (simp add: fetchInterveningEvents_def Let_def)
  moreover have "cursor_at history 0 = None" by (simp add: cursor_at_def)
  ultimately obtain n where n: "n \<le> length history" "listed = take n history"
    "n = length history \<or> (0 < n \<and> (\<exists>s. sg_slot (history ! (n - 1)) = Some s \<and> s \<le> entry))"
    using page_loop_prefix [OF assms(1,2), of 0 entry pages listed tr] l by auto
  have old: "\<forall>r \<in> set (drop n history). \<exists>s. sg_slot r = Some s \<and> s \<le> entry"
  proof
    fix r assume r: "r \<in> set (drop n history)"
    then obtain i where i: "r = history ! (n + i)" "n + i < length history" by (metis in_set_conv_nth length_drop nth_drop n(1) less_diff_conv add.commute)
    then obtain s where s: "0 < n" "sg_slot (history ! (n - 1)) = Some s" "s \<le> entry" using n(3) by auto
    have "n - 1 < n + i" using s(1) by simp
    from sorted_wrt_nth_less [OF assms(4) this i(2)] have "the (sg_slot r) \<le> s" using i s by simp
    moreover have "sg_slot r \<noteq> None" using assms(3) i by simp
    ultimately show "\<exists>s. sg_slot r = Some s \<and> s \<le> entry" using s(3) by auto
  qed
  let ?good = "filter (\<lambda>s. sg_failed s \<noteq> Some True)"
  have "?good history = ?good (take n history) @ ?good (drop n history)" by (metis append_take_drop_id filter_append)
  then have "rev (?good history) = rev (?good (drop n history)) @ rev (?good listed)" using n(2) by simp
  moreover have "keyed (rev (?good (drop n history))) entry" using old by (auto simp: keyed_def)
  ultimately show ?thesis
    using assign_loop_old [of "rev (?good (drop n history))" entry "\<lambda>_. 0" "\<lambda>_. 0" exit "rev (?good listed)"] l
    by (simp add: fetchInterveningEvents_def assignOrderInSlot_def Let_def)
qed

text \<open>The positions are already in block order.\<close>

lemma assign_loop_mem: "(s, n) \<in> set (assign_loop seen rows) \<Longrightarrow> s \<in> set rows \<and> seen (nullish (sg_slot s) (- 1)) \<le> n"
proof (induction rows arbitrary: seen)
  case (Cons r rows)
  show ?case
  proof (cases "(s, n) = (r, seen (nullish (sg_slot r) (- 1)))")
    case False
    then have "(s, n) \<in> set (assign_loop (seen(nullish (sg_slot r) (- 1) := Suc (seen (nullish (sg_slot r) (- 1))))) rows)"
      using Cons.prems by (auto simp: Let_def)
    from Cons.IH [OF this] show ?thesis by (auto split: if_splits)
  qed simp
qed simp

definition position :: "signature_row \<times> nat \<Rightarrow> int \<times> nat" where
  "position = (\<lambda>(s, n). (the (sg_slot s), n))"

lemma assign_loop_sorted:
  "sorted_wrt (\<lambda>a b. the (sg_slot a) \<le> the (sg_slot b)) rows \<Longrightarrow> \<forall>r \<in> set rows. sg_slot r \<noteq> None \<Longrightarrow>
    sorted (map position (assign_loop seen rows))"
proof (induction rows arbitrary: seen)
  case (Cons r rows)
  obtain s where s: "sg_slot r = Some s" using Cons.prems(2) by auto
  let ?seen = "seen(s := Suc (seen s))"
  have "position (r, seen s) \<le> position (t, n)" if "(t, n) \<in> set (assign_loop ?seen rows)" for t n
  proof -
    have t: "t \<in> set rows" "?seen (nullish (sg_slot t) (- 1)) \<le> n" using assign_loop_mem [OF that] by simp_all
    then obtain u where u: "sg_slot t = Some u" using Cons.prems(2) by auto
    have "s \<le> u" using Cons.prems(1) t(1) s u by fastforce
    then show ?thesis using t(2) s u by (auto simp: position_def less_eq_prod_def split: if_splits)
  qed
  then show ?case using Cons s by (auto simp: Let_def simp del: fun_upd_apply)
qed simp

lemma assign_loop_fst [simp]: "map fst (assign_loop seen rows) = rows"
  by (induction rows arbitrary: seen) (simp_all add: Let_def)

lemma event_at_fields: "pe_slot (event_at g base quote (s, n)) = the (sg_slot s)" "pe_orderInSlot (event_at g base quote (s, n)) = n"
  by (simp_all add: event_at_def poolEventFrom_def split: option.split)

lemma event_at_position: "(\<lambda>e. (pe_slot e, pe_orderInSlot e)) \<circ> event_at g base quote = position"
  by (auto simp: fun_eq_iff position_def event_at_fields)

lemma swap_of_position: "swap_of (event_at g base quote (s, n)) = swap_of (event_at g base quote (s, 0))"
  "replayable (event_at g base quote (s, n)) = replayable (event_at g base quote (s, 0))"
  by (simp_all add: event_at_def poolEventFrom_def swap_of_def replayable_def split: option.split)

lemma map_filter_positions:
  "List.map_filter swap_of (map (event_at g base quote) ps) = List.map_filter (\<lambda>r. swap_of (event_at g base quote (r, 0))) (map fst ps)"
proof (induction ps)
  case (Cons p ps)
  obtain s n where p: "p = (s, n)" by fastforce
  show ?case using Cons by (simp add: p map_filter_simps swap_of_position(1) [of g base quote s n] split: option.split)
qed (simp add: map_filter_simps)

lemma filter_rows: "map fst (filter (\<lambda>(s, _). P s) ps) = filter P (map fst ps)"
  by (induction ps) auto

text \<open>The rows of the window, oldest first.\<close>

definition window_rows :: "signature_row list \<Rightarrow> int \<Rightarrow> int \<Rightarrow> signature_row list" where
  "window_rows history entry exit = filter (in_window entry exit) (rev (filter (\<lambda>s. sg_failed s \<noteq> Some True) history))"

text \<open>C9: A usable replay is complete. Whatever the page size and however many pages it took, when the RPC pages through a
  history of the quote vault and the plan refuses nothing, the steps are the swaps of every transaction
  that touched the vault after the entry and up to the exit and did not fail, in the chain's order, none
  missing and none added; and every one of those transactions could be read and was a swap or moved
  nothing.\<close>

theorem usable_replay_is_complete:
  assumes "distinct (map sg_signature history)" and "0 < pageSize" and "\<forall>r \<in> set history. sg_slot r \<noteq> None"
    and "sorted_wrt (\<lambda>a b. the (sg_slot b) \<le> the (sg_slot a)) history"
    and "listing = fetchInterveningEvents (signature_pages history pageSize) getTransaction base quote entry exit pageSize pages"
    and "planIsUsable (replayPlan (el_events listing) (windowFrom listing entry exit))"
  shows "rpl_steps (replayPlan (el_events listing) (windowFrom listing entry exit)) =
      List.map_filter (\<lambda>r. swap_of (event_at getTransaction base quote (r, 0))) (window_rows history entry exit) \<and>
    (\<forall>r \<in> set (window_rows history entry exit). replayable (event_at getTransaction base quote (r, 0)))"
proof -
  let ?w = "windowFrom listing entry exit"
  let ?rows = "rev (filter (\<lambda>s. sg_failed s \<noteq> Some True) history)"
  let ?pos = "filter (\<lambda>(s, _). in_window entry exit s) (assign_loop (\<lambda>_. 0) ?rows)"
  let ?ev = "event_at getTransaction base quote"
  have window: "rw_entrySlot ?w = entry" "rw_exitSlot ?w = exit" by (simp_all add: windowFrom_def)
  have usable: "\<not> rw_truncated ?w \<and> (\<forall>e \<in> set (el_events listing). entry < pe_slot e \<and> pe_slot e \<le> exit \<longrightarrow> replayable e) \<and>
      rpl_steps (replayPlan (el_events listing) ?w) = List.map_filter swap_of (sort_key (\<lambda>e. (pe_slot e, pe_orderInSlot e))
        (filter (\<lambda>e. entry < pe_slot e \<and> pe_slot e \<le> exit) (el_events listing)))"
    using plan_is_window [OF assms(6)] unfolding window by blast
  then have events: "el_events listing = map ?ev ?pos"
    using listing_is_the_history [OF assms(1-4), of getTransaction base quote entry exit pages] assms(5)
    by (simp add: windowFrom_def assignOrderInSlot_def)
  have in_w: "\<forall>e \<in> set (el_events listing). entry < pe_slot e \<and> pe_slot e \<le> exit"
    unfolding events by (auto simp: event_at_fields in_window_def split: option.splits)
  have "sorted_wrt (\<lambda>a b. the (sg_slot a) \<le> the (sg_slot b)) ?rows"
    using assms(4) by (simp add: sorted_wrt_rev sorted_wrt_filter)
  moreover have "\<forall>r \<in> set ?rows. sg_slot r \<noteq> None" using assms(3) by simp
  ultimately have "sorted (map position ?pos)" using assign_loop_sorted sorted_filter by blast
  then have "sort_key (\<lambda>e. (pe_slot e, pe_orderInSlot e)) (el_events listing) = el_events listing"
    unfolding events by (intro sort_key_id_if_sorted) (simp add: event_at_position)
  then have "rpl_steps (replayPlan (el_events listing) ?w) = List.map_filter swap_of (map ?ev ?pos)"
    using usable in_w events by (metis (no_types, lifting) filter_True)
  also have "\<dots> = List.map_filter (\<lambda>r. swap_of (?ev (r, 0))) (map fst ?pos)"
    by (rule map_filter_positions)
  also have fst: "map fst ?pos = window_rows history entry exit"
    by (simp add: filter_rows window_rows_def)
  finally have steps: "rpl_steps (replayPlan (el_events listing) ?w) = List.map_filter (\<lambda>r. swap_of (?ev (r, 0))) (window_rows history entry exit)" .
  have "replayable (?ev (r, 0))" if "r \<in> set (window_rows history entry exit)" for r
  proof -
    have "r \<in> fst ` set ?pos" using that unfolding fst [symmetric] by simp
    then obtain p where p: "r = fst p" "p \<in> set ?pos" by (rule imageE)
    obtain n where n: "p = (r, n)" using p(1) by (cases p) simp
    then have "?ev (r, n) \<in> ?ev ` set ?pos" using p(2) by blast
    then have "?ev (r, n) \<in> set (el_events listing)" unfolding events list.set_map .
    then have "replayable (?ev (r, n))" using usable in_w by blast
    then show ?thesis using swap_of_position(2) [of getTransaction base quote r n] by simp
  qed
  then show ?thesis using steps by blast
qed

text \<open>A vault with one buy after the entry.\<close>

definition sample_history :: "signature_row list" where
  "sample_history = [\<lparr>sg_signature = ''buy'', sg_slot = Some 12, sg_failed = Some False\<rparr>,
     \<lparr>sg_signature = ''fail'', sg_slot = Some 11, sg_failed = Some True\<rparr>,
     \<lparr>sg_signature = ''old'', sg_slot = Some 9, sg_failed = Some False\<rparr>]"

definition sample_transaction :: "string \<Rightarrow> LandedTransaction option" where
  "sample_transaction s = Some \<lparr>lt_signature = s, lt_accountKeys = [''b'', ''q''],
     lt_preTokenBalances = [\<lparr>tb_accountIndex = 0, tb_amount = 100\<rparr>, \<lparr>tb_accountIndex = 1, tb_amount = 50\<rparr>],
     lt_postTokenBalances = [\<lparr>tb_accountIndex = 0, tb_amount = 90\<rparr>, \<lparr>tb_accountIndex = 1, tb_amount = 56\<rparr>]\<rparr>"

definition sample_listing :: EventListing where
  "sample_listing = fetchInterveningEvents (signature_pages sample_history 2) sample_transaction ''b'' ''q'' 10 20 2 5"

lemma sample_pages: "page_loop (signature_pages sample_history 2) 2 10 5 None [] = (sample_history, False)"
  by (simp add: sample_history_def signature_pages_def eval_nat_numeral Let_def)

lemma sample_usable: "planIsUsable (replayPlan (el_events sample_listing) (windowFrom sample_listing 10 20))"
  unfolding sample_listing_def fetchInterveningEvents_def sample_pages
  by (simp add: sample_history_def assignOrderInSlot_def in_window_def event_at_def sample_transaction_def poolEventFrom_def vaultAmounts_def
    vaultDelta_def replayPlan_def orderEvents_def planIsUsable_def windowFrom_def classifyPoolEvent_def classify_def map_filter_simps Let_def)

theorem usable_replay_is_complete_witness:
  "length (rpl_steps (replayPlan (el_events sample_listing) (windowFrom sample_listing 10 20))) = 1"
  using usable_replay_is_complete [of sample_history 2 sample_listing sample_transaction "''b''" "''q''" 10 20 5] sample_usable
  by (simp add: sample_listing_def sample_history_def window_rows_def in_window_def event_at_def sample_transaction_def poolEventFrom_def
    vaultAmounts_def vaultDelta_def swap_of_def map_filter_simps)

end
