(* ===== verification/SequentialTrip.thy ===== *)
theory SequentialTrip
  imports EventReplay
begin

text \<open>
  The one-pass round trip on a persistent simulator, \<open>packages/pipeline/src/sequential-round-trip.ts\<close>, the worker
  client it drives (\<open>packages/simulator/src/sequential-worker.ts\<close>, \<open>sequential-runtime.ts\<close>) and the
  queue that pairs the worker's lines with the requests that wait for them. The worker process is an
  argument: how it answers a command. Account bytes are decoded where the source keeps base64; error
  details are left out.
\<close>

section \<open>What the worker says\<close>

record ObservedAccount =
  oa_pubkey :: string
  oa_lamports :: int
  oa_owner :: string
  oa_executable :: bool
  oa_rentEpoch :: int
  oa_dataLen :: nat
  oa_data :: "bytes option"
  oa_accountHash :: string

record SequentialStepResult =
  ss_status :: string
  ss_pre :: "ObservedAccount list"
  ss_post :: "ObservedAccount list"
  ss_unobserved :: "string list"

record ObserveResult =
  ob_accounts :: "ObservedAccount list"
  ob_unobserved :: "string list"
  ob_stateHash :: string
  ob_instanceId :: "string option"

text \<open>The snapshot's programs, clock and sysvars go to the worker as they are.\<close>

record FrozenRuntimeSnapshot =
  fr_accounts :: "FrozenAccount list"
  fr_rest :: string

datatype step_label = label_buy | label_replay int string | label_sell | label_close

datatype command = cmd_init FrozenRuntimeSnapshot string
  | cmd_observe "string list" "string list option"
  | cmd_step step_label string "string list" "string list option"

record RawResponse =
  rr_ok :: "bool option"
  rr_identity :: "string option"
  rr_step :: "SequentialStepResult option"
  rr_accounts :: "ObservedAccount list option"
  rr_unobserved :: "string list option"
  rr_stateHash :: "string option"
  rr_incompleteness :: "string list option"
  rr_instanceId :: "string option"

text \<open>What is thrown: the worker is unavailable, another instance answered, or a balance was read out of bytes nobody
  asked for.\<close>

datatype worker_error = worker_unavailable | runtime_instance_changed string string | bytes_not_requested string
  | builder_threw

section \<open>The client\<close>

record 'w SequentialWorker =
  sw_process :: 'w
  sw_identity :: "string option"
  sw_incompleteness :: "string list"
  sw_instance :: "string option"

type_synonym 'w sender = "'w \<Rightarrow> command \<Rightarrow> 'w \<times> RawResponse option"

text \<open>An asynchronous method: it changes the client and returns or throws.\<close>

type_synonym ('w, 'a) async = "'w SequentialWorker \<Rightarrow> 'w SequentialWorker \<times> (worker_error + 'a)"

definition ret :: "'a \<Rightarrow> ('w, 'a) async" where
  "ret x = (\<lambda>c. (c, Inr x))"

definition throw :: "worker_error \<Rightarrow> ('w, 'a) async" where
  "throw e = (\<lambda>c. (c, Inl e))"

definition await :: "('w, 'a) async \<Rightarrow> ('a \<Rightarrow> ('w, 'b) async) \<Rightarrow> ('w, 'b) async" where
  "await m f = (\<lambda>c. case m c of (c', Inl e) \<Rightarrow> (c', Inl e) | (c', Inr x) \<Rightarrow> f x c')"

definition lifted :: "worker_error + 'a \<Rightarrow> ('w, 'a) async" where
  "lifted r = (\<lambda>c. (c, r))"

definition send :: "'w sender \<Rightarrow> command \<Rightarrow> ('w, RawResponse) async" where
  "send sender cmd = (\<lambda>c. let (p, r) = sender (sw_process c) cmd in
     (c\<lparr>sw_process := p\<rparr>, case r of None \<Rightarrow> Inl worker_unavailable | Some x \<Rightarrow> Inr x))"

definition assertSameInstance :: "RawResponse \<Rightarrow> ('w, unit) async" where
  "assertSameInstance r = (\<lambda>c. (c, case (sw_instance c, rr_instanceId r) of
     (Some expected, Some got) \<Rightarrow> if got \<noteq> expected then Inl (runtime_instance_changed expected got) else Inr ()
   | _ \<Rightarrow> Inr ()))"

definition worker_init :: "'w sender \<Rightarrow> FrozenRuntimeSnapshot \<Rightarrow> string \<Rightarrow> ('w, string) async" where
  "worker_init sender snapshot jobId = (\<lambda>c.
    await (send sender (cmd_init snapshot jobId)) (\<lambda>r c'.
      case rr_identity r of
        Some identity \<Rightarrow> if rr_ok r = Some True
          then (c'\<lparr>sw_incompleteness := nullish (rr_incompleteness r) [], sw_instance := rr_instanceId r, sw_identity := Some identity\<rparr>, Inr identity)
          else (c', Inl worker_unavailable)
      | None \<Rightarrow> (c', Inl worker_unavailable)) (c\<lparr>sw_instance := None\<rparr>))"

definition worker_observe :: "'w sender \<Rightarrow> string list \<Rightarrow> string list option \<Rightarrow> ('w, ObserveResult) async" where
  "worker_observe sender keys economic =
    await (send sender (cmd_observe keys economic)) (\<lambda>r.
      if rr_ok r \<noteq> Some True then throw worker_unavailable
      else await (assertSameInstance r) (\<lambda>_. ret \<lparr>ob_accounts = nullish (rr_accounts r) [], ob_unobserved = nullish (rr_unobserved r) [],
        ob_stateHash = nullish (rr_stateHash r) [], ob_instanceId = rr_instanceId r\<rparr>))"

definition worker_step :: "'w sender \<Rightarrow> step_label \<Rightarrow> string \<Rightarrow> string list \<Rightarrow> string list option \<Rightarrow> ('w, SequentialStepResult) async" where
  "worker_step sender label transaction observe economic =
    await (send sender (cmd_step label transaction observe economic)) (\<lambda>r.
      case rr_step r of None \<Rightarrow> throw worker_unavailable
      | Some s \<Rightarrow> await (assertSameInstance r) (\<lambda>_. ret s))"

section \<open>Sources and balances\<close>

record AccountBytes =
  ab_owner :: string
  ab_data :: bytes
  ab_lamports :: int

type_synonym source = "string \<Rightarrow> AccountBytes option"

definition account_bytes_of :: "ObservedAccount \<Rightarrow> bytes \<Rightarrow> AccountBytes" where
  "account_bytes_of a data = \<lparr>ab_owner = oa_owner a, ab_data = data, ab_lamports = oa_lamports a\<rparr>"

text \<open>The last record of a key wins; bytes that were not requested throw.\<close>

fun accountSourceOf :: "ObservedAccount list \<Rightarrow> source \<Rightarrow> worker_error + source" where
  "accountSourceOf [] m = Inr m"
| "accountSourceOf (a # as) m =
    (case oa_data a of None \<Rightarrow> Inl (bytes_not_requested (oa_pubkey a))
     | Some data \<Rightarrow> accountSourceOf as (m(oa_pubkey a \<mapsto> account_bytes_of a data)))"

definition snapshot_source :: "FrozenAccount list \<Rightarrow> source" where
  "snapshot_source frozen = fold (\<lambda>a m. m(fa_pubkey a \<mapsto> \<lparr>ab_owner = fa_owner a, ab_data = fa_data a, ab_lamports = fa_lamports a\<rparr>))
     frozen (\<lambda>_. None)"

definition overlaySource :: "source \<Rightarrow> source \<Rightarrow> source" where
  "overlaySource base over = (\<lambda>p. case over p of Some a \<Rightarrow> Some a | None \<Rightarrow> base p)"

definition tokenAmount :: "ObservedAccount option \<Rightarrow> worker_error + int option" where
  "tokenAmount account =
    (case account of None \<Rightarrow> Inr None
     | Some a \<Rightarrow> (case oa_data a of None \<Rightarrow> Inl (bytes_not_requested (oa_pubkey a))
       | Some b \<Rightarrow> Inr (if length b < 72 then None else Some (int (le_uint (take 8 (drop 64 b)))))))"

section \<open>The state the sell was priced in\<close>

definition hash_by_key :: "ObserveResult \<Rightarrow> string \<Rightarrow> string option" where
  "hash_by_key quoted = fold (\<lambda>a m. m(oa_pubkey a \<mapsto> oa_accountHash a)) (ob_accounts quoted) (\<lambda>_. None)"

text \<open>The accounts that moved between the quote and the sell; the assertion throws when there is one.\<close>

definition quote_differing :: "ObserveResult \<Rightarrow> SequentialStepResult \<Rightarrow> string list" where
  "quote_differing quoted sold =
    map oa_pubkey (filter (\<lambda>pre. case hash_by_key quoted (oa_pubkey pre) of None \<Rightarrow> False | Some q \<Rightarrow> q \<noteq> oa_accountHash pre) (ss_pre sold)) @
    filter (\<lambda>key. \<not> (\<exists>p \<in> set (ss_pre sold). oa_pubkey p = key)) (js_set_of (map oa_pubkey (ob_accounts quoted)))"

definition assertQuoteStateSurvived :: "ObserveResult \<Rightarrow> SequentialStepResult \<Rightarrow> bool" where
  "assertQuoteStateSurvived quoted sold = (quote_differing quoted sold = [])"

section \<open>The trip\<close>

record BuiltSell =
  bs_transaction :: string
  bs_selfImpact :: "int option"
  bs_instructions :: "string list option"
  bs_observeExtra :: "string list option"

text \<open>The builders are injected; \<open>None\<close> is a throw.\<close>

record Intervening =
  iv_steps :: "ReplayStep list"
  iv_build :: "ReplayStep \<Rightarrow> source \<Rightarrow> string option"
  iv_observe :: "string list option"

record RoundTripRequest =
  rq_snapshot :: FrozenRuntimeSnapshot
  rq_takerAta :: string
  rq_buyTransaction :: string
  rq_priceBearing :: "string list"
  rq_observe :: "string list"
  rq_economic :: "string list option"
  rq_buildClose :: "(int \<Rightarrow> string option) option"
  rq_takerBaseAtaToClose :: "string option"
  rq_buildSell :: "source \<Rightarrow> int \<Rightarrow> BuiltSell option"
  rq_intervening :: "Intervening option"
  rq_jobId :: string

datatype RoundTripFailure = BUY_FAILED | REPLAY_EVENT_FAILED | REPLAY_STATE_UNOBSERVED | NO_MEASURED_CREDIT
  | QUOTE_STATE_UNOBSERVED | BUY_DID_NOT_MOVE_THE_SELL_POOL | SELL_BUILD_FAILED | SELL_FAILED | QUOTE_STATE_MOVED | CLOSE_FAILED | RUNTIME_UNAVAILABLE

record ReplayedEvent =
  re_signature :: string
  re_slot :: int
  re_kind :: trade_side
  re_inputAmount :: int
  re_status :: string

datatype trip_note = note_init string | unobserved_at_quote string | unobserved_on_buy string | unobserved_on_sell string
  | unobserved_on_close string | ata_survived string

record RoundTripResult =
  tr_failure :: "RoundTripFailure option"
  tr_ok :: bool
  tr_buy :: "SequentialStepResult option"
  tr_sell :: "SequentialStepResult option"
  tr_close :: "SequentialStepResult option"
  tr_acquiredAtoms :: "int option"
  tr_quoted :: "ObserveResult option"
  tr_quoteStateSurvived :: bool
  tr_selfImpact :: "int option"
  tr_baseAtaClosedInSell :: "bool option"
  tr_sellInstructions :: "string list option"
  tr_replayed :: "ReplayedEvent list option"
  tr_identity :: "string option"
  tr_incompleteness :: "trip_note list"

definition trip_fail :: "RoundTripFailure \<Rightarrow> RoundTripResult" where
  "trip_fail f = \<lparr>tr_failure = Some f, tr_ok = False, tr_buy = None, tr_sell = None, tr_close = None, tr_acquiredAtoms = None,
     tr_quoted = None, tr_quoteStateSurvived = False, tr_selfImpact = None, tr_baseAtaClosedInSell = None,
     tr_sellInstructions = None, tr_replayed = None, tr_identity = None, tr_incompleteness = []\<rparr>"

text \<open>What every refusal after the buy carries.\<close>

record trip_state =
  ts_identity :: string
  ts_incompleteness :: "trip_note list"
  ts_buy :: SequentialStepResult
  ts_acquired :: int
  ts_quoted :: ObserveResult

definition refused_after_buy :: "RoundTripFailure \<Rightarrow> trip_state \<Rightarrow> RoundTripResult" where
  "refused_after_buy f t = (trip_fail f)\<lparr>tr_buy := Some (ts_buy t), tr_acquiredAtoms := Some (ts_acquired t),
     tr_quoted := Some (ts_quoted t), tr_identity := Some (ts_identity t), tr_incompleteness := ts_incompleteness t\<rparr>"

definition unquoted :: "RoundTripRequest \<Rightarrow> ObserveResult \<Rightarrow> string list" where
  "unquoted req q = filter (\<lambda>a. a \<notin> oa_pubkey ` set (ob_accounts q)) (rq_priceBearing req)"

definition economic_of :: "RoundTripRequest \<Rightarrow> string list" where
  "economic_of req = nullish (rq_economic req) (rq_priceBearing req)"

datatype replay_outcome = replay_refused RoundTripFailure "ReplayedEvent list"
  | replay_done source ObserveResult "ReplayedEvent list"

definition replayed_event :: "ReplayStep \<Rightarrow> string \<Rightarrow> ReplayedEvent" where
  "replayed_event ev status = \<lparr>re_signature = rp_signature ev, re_slot = rp_slot ev, re_kind = rp_kind ev,
     re_inputAmount = rp_inputAmount ev, re_status = status\<rparr>"

text \<open>One intervening trade after another: built on the state as it stands, committed, and the state read again.\<close>

fun replay_loop :: "'w sender \<Rightarrow> RoundTripRequest \<Rightarrow> Intervening \<Rightarrow> ReplayStep list \<Rightarrow> source \<Rightarrow> ObserveResult \<Rightarrow>
    ReplayedEvent list \<Rightarrow> ('w, replay_outcome) async" where
  "replay_loop sender req iv [] pricing priced replayed = ret (replay_done pricing priced replayed)"
| "replay_loop sender req iv (ev # evs) pricing priced replayed =
    (case iv_build iv ev pricing of None \<Rightarrow> ret (replay_refused REPLAY_EVENT_FAILED replayed)
     | Some tx \<Rightarrow>
        await (worker_step sender (label_replay (rp_slot ev) (take 8 (rp_signature ev))) tx
          (nullish (iv_observe iv) (rq_priceBearing req)) (Some (economic_of req))) (\<lambda>r.
        let replayed' = replayed @ [replayed_event ev (ss_status r)]
        in if ss_status r \<noteq> ''SIMULATED_OK'' then ret (replay_refused REPLAY_EVENT_FAILED replayed')
           else await (worker_observe sender (rq_priceBearing req) (Some (economic_of req))) (\<lambda>observed.
             if ob_accounts observed = [] \<or> unquoted req observed \<noteq> [] then ret (replay_refused REPLAY_STATE_UNOBSERVED replayed')
             else await (lifted (accountSourceOf (ob_accounts observed) (\<lambda>_. None))) (\<lambda>over.
               replay_loop sender req iv evs (overlaySource pricing over) observed replayed'))))"

definition base_ata_closed :: "RoundTripRequest \<Rightarrow> SequentialStepResult \<Rightarrow> bool option" where
  "base_ata_closed req sold = map_option (\<lambda>ata.
     case find (\<lambda>a. oa_pubkey a = ata) (ss_post sold) of None \<Rightarrow> True | Some a \<Rightarrow> oa_lamports a = 0) (rq_takerBaseAtaToClose req)"

definition close_step :: "'w sender \<Rightarrow> RoundTripRequest \<Rightarrow> int \<Rightarrow> ('w, SequentialStepResult option) async" where
  "close_step sender req acquired =
    (case rq_buildClose req of None \<Rightarrow> ret None
     | Some build \<Rightarrow> (case build acquired of None \<Rightarrow> throw builder_threw
       | Some tx \<Rightarrow> await (worker_step sender label_close tx (rq_observe req) None) (\<lambda>s. ret (Some s))))"

definition trip_finish :: "'w sender \<Rightarrow> RoundTripRequest \<Rightarrow> trip_state \<Rightarrow> ObserveResult \<Rightarrow> ReplayedEvent list option \<Rightarrow> BuiltSell \<Rightarrow>
    SequentialStepResult \<Rightarrow> ('w, RoundTripResult) async" where
  "trip_finish sender req t priced replayed built sold =
    (let closed = base_ata_closed req sold in
     await (close_step sender req (ts_acquired t)) (\<lambda>close.
       let closeOk = (case close of None \<Rightarrow> True | Some s \<Rightarrow> ss_status s = ''SIMULATED_OK'')
       in ret \<lparr>tr_failure = (if closeOk then None else Some CLOSE_FAILED), tr_ok = closeOk, tr_buy = Some (ts_buy t), tr_sell = Some sold,
            tr_close = close, tr_acquiredAtoms = Some (ts_acquired t), tr_quoted = Some priced, tr_quoteStateSurvived = True,
            tr_selfImpact = bs_selfImpact built, tr_baseAtaClosedInSell = closed, tr_sellInstructions = bs_instructions built,
            tr_replayed = replayed, tr_identity = Some (ts_identity t),
            tr_incompleteness = ts_incompleteness t @ map unobserved_on_buy (ss_unobserved (ts_buy t)) @
              map unobserved_on_sell (ss_unobserved sold) @
              map unobserved_on_close (case close of None \<Rightarrow> [] | Some s \<Rightarrow> ss_unobserved s) @
              (if closed = Some False then [ata_survived (the (rq_takerBaseAtaToClose req))] else [])\<rparr>))"

definition trip_sell :: "'w sender \<Rightarrow> RoundTripRequest \<Rightarrow> trip_state \<Rightarrow> source \<Rightarrow> ObserveResult \<Rightarrow> ReplayedEvent list option \<Rightarrow>
    ('w, RoundTripResult) async" where
  "trip_sell sender req t pricing priced replayed =
    (case rq_buildSell req pricing (ts_acquired t) of None \<Rightarrow> ret (refused_after_buy SELL_BUILD_FAILED t)
     | Some built \<Rightarrow>
        await (worker_step sender label_sell (bs_transaction built) (js_set_of (rq_observe req @ nullish (bs_observeExtra built) []))
          (Some (economic_of req))) (\<lambda>sold.
        if \<not> assertQuoteStateSurvived priced sold
        then ret ((refused_after_buy QUOTE_STATE_MOVED t)\<lparr>tr_sell := Some sold, tr_selfImpact := bs_selfImpact built\<rparr>)
        else if ss_status sold \<noteq> ''SIMULATED_OK''
        then ret ((refused_after_buy SELL_FAILED t)\<lparr>tr_sell := Some sold, tr_quoteStateSurvived := True, tr_selfImpact := bs_selfImpact built\<rparr>)
        else trip_finish sender req t priced replayed built sold))"

definition trip_replay :: "'w sender \<Rightarrow> RoundTripRequest \<Rightarrow> trip_state \<Rightarrow> source \<Rightarrow> ('w, RoundTripResult) async" where
  "trip_replay sender req t pricing =
    (case rq_intervening req of None \<Rightarrow> trip_sell sender req t pricing (ts_quoted t) None
     | Some iv \<Rightarrow>
        await (replay_loop sender req iv (iv_steps iv) pricing (ts_quoted t) []) (\<lambda>outcome. case outcome of
          replay_refused f replayed \<Rightarrow> ret ((refused_after_buy f t)\<lparr>tr_replayed := Some replayed\<rparr>)
        | replay_done pricing' priced replayed \<Rightarrow> trip_sell sender req t pricing' priced (Some replayed)))"

definition trip_quote :: "'w sender \<Rightarrow> RoundTripRequest \<Rightarrow> string \<Rightarrow> trip_note list \<Rightarrow> SequentialStepResult \<Rightarrow> int \<Rightarrow>
    ('w, RoundTripResult) async" where
  "trip_quote sender req identity inc entered acquired =
    await (worker_observe sender (rq_priceBearing req) (Some (economic_of req))) (\<lambda>quoted.
      let t = \<lparr>ts_identity = identity, ts_incompleteness = inc, ts_buy = entered, ts_acquired = acquired, ts_quoted = quoted\<rparr>
      in if ob_accounts quoted = [] \<or> unquoted req quoted \<noteq> []
         then ret ((refused_after_buy QUOTE_STATE_UNOBSERVED t)\<lparr>tr_incompleteness := inc @ map unobserved_at_quote (ob_unobserved quoted)\<rparr>)
         else await (lifted (accountSourceOf (ob_accounts quoted) (\<lambda>_. None))) (\<lambda>over.
           trip_replay sender req t (overlaySource (snapshot_source (fr_accounts (rq_snapshot req))) over)))"

definition trip :: "'w sender \<Rightarrow> RoundTripRequest \<Rightarrow> ('w, RoundTripResult) async" where
  "trip sender req =
    await (worker_init sender (rq_snapshot req) (rq_jobId req)) (\<lambda>identity.
    await (\<lambda>c. (c, Inr (map note_init (sw_incompleteness c)))) (\<lambda>inc.
    await (worker_step sender label_buy (rq_buyTransaction req) (rq_observe req) (Some (economic_of req))) (\<lambda>entered.
      let bought = (\<lambda>f. (trip_fail f)\<lparr>tr_buy := Some entered, tr_identity := Some identity, tr_incompleteness := inc\<rparr>)
      in if ss_status entered \<noteq> ''SIMULATED_OK'' then ret (bought BUY_FAILED)
         else await (lifted (tokenAmount (find (\<lambda>a. oa_pubkey a = rq_takerAta req) (ss_post entered)))) (\<lambda>acquired.
           case acquired of None \<Rightarrow> ret (bought NO_MEASURED_CREDIT)
           | Some a \<Rightarrow> if a \<le> 0 then ret (bought NO_MEASURED_CREDIT) else trip_quote sender req identity inc entered a))))"

definition sequentialRoundTrip :: "'w sender \<Rightarrow> RoundTripRequest \<Rightarrow> 'w SequentialWorker \<Rightarrow> RoundTripResult" where
  "sequentialRoundTrip sender req w =
    (case trip sender req w of (_, Inl _) \<Rightarrow> trip_fail RUNTIME_UNAVAILABLE | (_, Inr r) \<Rightarrow> r)"

section \<open>What a method can return\<close>

text \<open>Every value a method returns satisfies the predicate, from whatever client it starts.\<close>

definition yields :: "('a \<Rightarrow> bool) \<Rightarrow> ('w, 'a) async \<Rightarrow> bool" where
  "yields P m \<longleftrightarrow> (\<forall>c c' x. m c = (c', Inr x) \<longrightarrow> P x)"

named_theorems yields_intro

lemma yields_ret [yields_intro]: "P x \<Longrightarrow> yields P (ret x)"
  by (simp add: yields_def ret_def)

lemma yields_throw [yields_intro]: "yields P (throw e)"
  by (simp add: yields_def throw_def)

lemma yields_await:
  assumes "yields Q m" and "\<And>x. Q x \<Longrightarrow> yields P (f x)"
  shows "yields P (await m f)"
  using assms unfolding yields_def await_def by (fastforce split: prod.splits sum.splits)

lemma yields_await_any: "(\<And>x. yields P (f x)) \<Longrightarrow> yields P (await m f)"
  by (rule yields_await [of "\<lambda>_. True"]) (simp_all add: yields_def)

lemma yields_lifted: "yields (\<lambda>x. r = Inr x) (lifted r)"
  by (simp add: yields_def lifted_def)

lemma yieldsD: "yields P m \<Longrightarrow> m c = (c', Inr x) \<Longrightarrow> P x"
  by (auto simp: yields_def)

text \<open>The result of a trip, given that failing without one is ruled out.\<close>

lemma trip_yields: "yields P (trip sender req) \<Longrightarrow> P (trip_fail RUNTIME_UNAVAILABLE) \<Longrightarrow> P (sequentialRoundTrip sender req w)"
  unfolding sequentialRoundTrip_def by (auto split: prod.split sum.split dest: yieldsD)

section \<open>The source and the observation agree\<close>

text \<open>The last record of a key.\<close>

definition latest :: "ObservedAccount list \<Rightarrow> string \<Rightarrow> ObservedAccount option" where
  "latest as k = find (\<lambda>a. oa_pubkey a = k) (rev as)"

lemma latest_snoc: "latest (as @ [a]) k = (if oa_pubkey a = k then Some a else latest as k)"
  by (simp add: latest_def)

lemma latest_mem: "latest as k = Some a \<Longrightarrow> a \<in> set as \<and> oa_pubkey a = k"
  unfolding latest_def by (drule find_SomeD) simp

lemma latest_None: "latest as k = None \<longleftrightarrow> k \<notin> oa_pubkey ` set as"
  by (auto simp: latest_def find_None_iff)

lemma hash_by_key_latest: "hash_by_key q k = map_option oa_accountHash (latest (ob_accounts q) k)"
proof -
  have "fold (\<lambda>a m. m(oa_pubkey a \<mapsto> oa_accountHash a)) as (\<lambda>_. None) k = map_option oa_accountHash (latest as k)" for as
    by (induction as rule: rev_induct) (auto simp: latest_snoc, simp add: latest_def)
  then show ?thesis by (simp add: hash_by_key_def)
qed

lemma accountSourceOf_append: "accountSourceOf (as @ [a]) m =
    (case accountSourceOf as m of Inl e \<Rightarrow> Inl e
     | Inr m' \<Rightarrow> (case oa_data a of None \<Rightarrow> Inl (bytes_not_requested (oa_pubkey a))
       | Some data \<Rightarrow> Inr (m'(oa_pubkey a \<mapsto> account_bytes_of a data))))"
  by (induction as arbitrary: m) (auto split: option.split)

lemma accountSourceOf_latest: "accountSourceOf as (\<lambda>_. None) = Inr m \<Longrightarrow>
    m k = (case latest as k of None \<Rightarrow> None | Some a \<Rightarrow> map_option (account_bytes_of a) (oa_data a))"
proof (induction as arbitrary: m rule: rev_induct)
  case (snoc a as)
  then show ?case by (auto simp: accountSourceOf_append latest_snoc split: sum.splits option.splits)
qed (simp add: latest_def)

lemma accountSourceOf_data: "accountSourceOf as m = Inr m' \<Longrightarrow> \<forall>a \<in> set as. oa_data a \<noteq> None"
  by (induction as arbitrary: m) (auto split: option.splits)

text \<open>A source holds, for every price-bearing account, the bytes of the observation.\<close>

definition backs :: "RoundTripRequest \<Rightarrow> source \<Rightarrow> ObserveResult \<Rightarrow> bool" where
  "backs req src q \<longleftrightarrow> (\<forall>k \<in> set (rq_priceBearing req). \<exists>a data. latest (ob_accounts q) k = Some a \<and> oa_data a = Some data \<and>
     src k = Some (account_bytes_of a data))"

lemma backs_overlay:
  assumes "accountSourceOf (ob_accounts q) (\<lambda>_. None) = Inr over" and "unquoted req q = []"
  shows "backs req (overlaySource base over) q"
  unfolding backs_def
proof
  fix k assume "k \<in> set (rq_priceBearing req)"
  then have "k \<in> oa_pubkey ` set (ob_accounts q)" using assms(2) by (auto simp: unquoted_def filter_empty_conv)
  then obtain a where a: "latest (ob_accounts q) k = Some a" using latest_None [of "ob_accounts q" k] by auto
  moreover obtain data where "oa_data a = Some data" using accountSourceOf_data [OF assms(1)] latest_mem [OF a] by auto
  ultimately show "\<exists>a data. latest (ob_accounts q) k = Some a \<and> oa_data a = Some data \<and>
      overlaySource base over k = Some (account_bytes_of a data)"
    using accountSourceOf_latest [OF assms(1), of k] by (simp add: overlaySource_def)
qed

text \<open>The sell met every account of the observation in the state that was observed, by the complete hash.\<close>

definition same_state :: "ObserveResult \<Rightarrow> SequentialStepResult \<Rightarrow> bool" where
  "same_state q s \<longleftrightarrow> (\<forall>k a. latest (ob_accounts q) k = Some a \<longrightarrow>
     (\<exists>p \<in> set (ss_pre s). oa_pubkey p = k) \<and> (\<forall>p \<in> set (ss_pre s). oa_pubkey p = k \<longrightarrow> oa_accountHash p = oa_accountHash a))"

lemma survived_same_state: "assertQuoteStateSurvived q s \<longleftrightarrow> same_state q s"
proof
  assume "assertQuoteStateSurvived q s"
  then have moved: "\<forall>p \<in> set (ss_pre s). case hash_by_key q (oa_pubkey p) of None \<Rightarrow> True | Some h \<Rightarrow> h = oa_accountHash p"
    and gone: "\<forall>k \<in> oa_pubkey ` set (ob_accounts q). \<exists>p \<in> set (ss_pre s). oa_pubkey p = k"
    by (auto simp: assertQuoteStateSurvived_def quote_differing_def filter_empty_conv split: option.splits)
  show "same_state q s" unfolding same_state_def
  proof (intro allI impI)
    fix k a assume a: "latest (ob_accounts q) k = Some a"
    have "k \<in> oa_pubkey ` set (ob_accounts q)" using latest_mem [OF a] by blast
    moreover have "oa_accountHash p = oa_accountHash a" if "p \<in> set (ss_pre s)" "oa_pubkey p = k" for p
      using moved that a by (fastforce simp: hash_by_key_latest)
    ultimately show "(\<exists>p \<in> set (ss_pre s). oa_pubkey p = k) \<and> (\<forall>p \<in> set (ss_pre s). oa_pubkey p = k \<longrightarrow> oa_accountHash p = oa_accountHash a)"
      using gone by blast
  qed
next
  assume same: "same_state q s"
  have "\<exists>p \<in> set (ss_pre s). oa_pubkey p = k" if "k \<in> oa_pubkey ` set (ob_accounts q)" for k
    using same that latest_None [of "ob_accounts q" k] by (fastforce simp: same_state_def)
  then show "assertQuoteStateSurvived q s" using same
    by (auto simp: assertQuoteStateSurvived_def quote_differing_def filter_empty_conv hash_by_key_latest same_state_def split: option.splits)
qed

section \<open>What a finished trip shows\<close>

text \<open>A result that got past the sell: the bytes it was built from are the observation's, the sell met the state
  that was observed, and every intervening trade was committed, once and in order.\<close>

definition committed :: "ReplayStep list \<Rightarrow> ReplayedEvent list" where
  "committed = map (\<lambda>ev. replayed_event ev ''SIMULATED_OK'')"

definition priced_where_executed :: "RoundTripRequest \<Rightarrow> RoundTripResult \<Rightarrow> bool" where
  "priced_where_executed req r \<longleftrightarrow> (\<exists>q s src a built. tr_quoted r = Some q \<and> tr_sell r = Some s \<and> tr_acquiredAtoms r = Some a \<and> 0 < a \<and>
     backs req src q \<and> rq_buildSell req src a = Some built \<and> tr_selfImpact r = bs_selfImpact built \<and>
     same_state q s \<and> ss_status s = ''SIMULATED_OK'')"

definition replayed_whole :: "RoundTripRequest \<Rightarrow> RoundTripResult \<Rightarrow> bool" where
  "replayed_whole req r \<longleftrightarrow> tr_replayed r = map_option (\<lambda>iv. committed (iv_steps iv)) (rq_intervening req)"

text \<open>Where the notes come from: the buy, the sell and the close; no replayed step.\<close>

definition notes_of_legs :: "RoundTripResult \<Rightarrow> trip_note set" where
  "notes_of_legs r = range note_init \<union> range ata_survived \<union>
    (\<Union>s \<in> set_option (tr_buy r). unobserved_on_buy ` set (ss_unobserved s)) \<union>
    (\<Union>s \<in> set_option (tr_sell r). unobserved_on_sell ` set (ss_unobserved s)) \<union>
    (\<Union>s \<in> set_option (tr_close r). unobserved_on_close ` set (ss_unobserved s))"

definition past_the_sell :: "RoundTripResult \<Rightarrow> bool" where
  "past_the_sell r \<longleftrightarrow> tr_failure r = None \<or> tr_failure r = Some CLOSE_FAILED"

definition good_result :: "RoundTripRequest \<Rightarrow> RoundTripResult \<Rightarrow> bool" where
  "good_result req r \<longleftrightarrow> (tr_ok r \<longleftrightarrow> tr_failure r = None) \<and>
    (past_the_sell r \<longrightarrow> priced_where_executed req r \<and> replayed_whole req r \<and> set (tr_incompleteness r) \<subseteq> notes_of_legs r)"

lemma good_refused: "tr_failure r \<noteq> None \<Longrightarrow> tr_failure r \<noteq> Some CLOSE_FAILED \<Longrightarrow> \<not> tr_ok r \<Longrightarrow> good_result req r"
  by (auto simp: good_result_def past_the_sell_def)

lemma refused_fields [simp]: "tr_failure (trip_fail f) = Some f" "\<not> tr_ok (trip_fail f)"
  "tr_failure (refused_after_buy f t) = Some f" "\<not> tr_ok (refused_after_buy f t)" "tr_replayed (refused_after_buy f t) = None"
  "tr_replayed (trip_fail f) = None"
  by (simp_all add: trip_fail_def refused_after_buy_def)

definition good_state :: "trip_state \<Rightarrow> bool" where
  "good_state t \<longleftrightarrow> 0 < ts_acquired t \<and> set (ts_incompleteness t) \<subseteq> range note_init"

lemma good_finish:
  assumes "good_state t" and "backs req src priced" and "rq_buildSell req src (ts_acquired t) = Some built"
    and "replayed = map_option (\<lambda>iv. committed (iv_steps iv)) (rq_intervening req)"
    and "assertQuoteStateSurvived priced sold" and "ss_status sold = ''SIMULATED_OK''"
  shows "yields (good_result req) (trip_finish sender req t priced replayed built sold)"
  unfolding trip_finish_def Let_def
  using assms by (intro yields_await_any yields_ret)
    (auto simp: good_result_def past_the_sell_def priced_where_executed_def replayed_whole_def notes_of_legs_def good_state_def
      survived_same_state split: option.splits if_splits)

lemma good_sell:
  assumes "good_state t" and "backs req pricing priced"
    and "replayed = map_option (\<lambda>iv. committed (iv_steps iv)) (rq_intervening req)"
  shows "yields (good_result req) (trip_sell sender req t pricing priced replayed)"
  using assms unfolding trip_sell_def
  by (auto intro!: yields_await_any yields_ret good_finish good_refused split: option.split)

text \<open>What a replay ends with.\<close>

definition replayed_ok :: "RoundTripRequest \<Rightarrow> ReplayedEvent list \<Rightarrow> replay_outcome \<Rightarrow> bool" where
  "replayed_ok req all outcome = (case outcome of
     replay_refused f replayed \<Rightarrow> f = REPLAY_EVENT_FAILED \<or> f = REPLAY_STATE_UNOBSERVED
   | replay_done src q replayed \<Rightarrow> backs req src q \<and> replayed = all)"

lemma replayed_ok_simps [simp]:
  "replayed_ok req all (replay_refused f replayed) \<longleftrightarrow> f = REPLAY_EVENT_FAILED \<or> f = REPLAY_STATE_UNOBSERVED"
  "replayed_ok req all (replay_done src q replayed) \<longleftrightarrow> backs req src q \<and> replayed = all"
  by (simp_all add: replayed_ok_def)

lemma good_replay_loop: "backs req pricing priced \<Longrightarrow>
    yields (replayed_ok req (replayed @ committed evs)) (replay_loop sender req iv evs pricing priced replayed)"
proof (induction evs arbitrary: pricing priced replayed)
  case Nil
  then show ?case by (simp add: yields_ret committed_def)
next
  case (Cons ev evs)
  show ?case
  proof (cases "iv_build iv ev pricing")
    case None
    then show ?thesis by (simp add: yields_ret)
  next
    case (Some tx)
    have next_event: "yields (replayed_ok req (replayed @ committed (ev # evs)))
        (await (lifted (accountSourceOf (ob_accounts q) (\<lambda>_. None))) (\<lambda>over.
          replay_loop sender req iv evs (overlaySource pricing over) q (replayed @ [replayed_event ev ''SIMULATED_OK''])))"
      if "unquoted req q = []" for q
      using Cons.IH [of "overlaySource pricing _" q "replayed @ [replayed_event ev ''SIMULATED_OK'']"] backs_overlay that
      by (intro yields_await [OF yields_lifted]) (simp add: committed_def)
    then show ?thesis by (simp add: Some Let_def yields_ret yields_await_any next_event)
  qed
qed

lemma good_replay:
  assumes "good_state t" and "backs req pricing (ts_quoted t)"
  shows "yields (good_result req) (trip_replay sender req t pricing)"
proof (cases "rq_intervening req")
  case None
  then have "yields (good_result req) (trip_sell sender req t pricing (ts_quoted t) None)" by (intro good_sell [OF assms]) simp
  then show ?thesis by (simp add: trip_replay_def None)
next
  case (Some iv)
  have sells: "yields (good_result req) (trip_sell sender req t src q (Some (committed (iv_steps iv))))" if "backs req src q" for src q
    using good_sell [OF assms(1) that, of "Some (committed (iv_steps iv))"] Some by simp
  show ?thesis unfolding trip_replay_def Some option.case
    by (rule yields_await [OF good_replay_loop [OF assms(2), of "[]"]])
      (auto intro!: yields_ret good_refused sells split: replay_outcome.split)
qed

lemma good_quote:
  assumes "0 < acquired" and "set inc \<subseteq> range note_init"
  shows "yields (good_result req) (trip_quote sender req identity inc entered acquired)"
proof -
  have rest: "yields (good_result req) (await (lifted (accountSourceOf (ob_accounts q) (\<lambda>_. None))) (\<lambda>over.
      trip_replay sender req \<lparr>ts_identity = identity, ts_incompleteness = inc, ts_buy = entered, ts_acquired = acquired, ts_quoted = q\<rparr>
        (overlaySource base over)))" if "unquoted req q = []" for q base
    using backs_overlay that assms by (intro yields_await [OF yields_lifted] good_replay) (simp_all add: good_state_def)
  show ?thesis unfolding trip_quote_def Let_def
    by (simp add: yields_await_any yields_ret good_refused rest)
qed

lemma good_trip: "yields (good_result req) (trip sender req)"
proof -
  have inc: "yields (\<lambda>inc. set inc \<subseteq> range note_init) (\<lambda>c. (c, Inr (map note_init (sw_incompleteness c))))"
    by (auto simp: yields_def)
  show ?thesis unfolding trip_def Let_def
    by (rule yields_await_any, rule yields_await [OF inc])
      (auto intro!: yields_await_any yields_ret good_refused good_quote split: option.split)
qed

lemma trip_is_good: "good_result req (sequentialRoundTrip sender req w)"
  using good_trip by (rule trip_yields) (simp add: good_refused)

section \<open>What was said to the worker\<close>

text \<open>A conversation: the commands the worker was given, in order, with its answers, from one state of the process
  to another.\<close>

type_synonym conversation = "(command \<times> RawResponse) list"

fun exchange :: "'w sender \<Rightarrow> 'w \<Rightarrow> conversation \<Rightarrow> 'w \<Rightarrow> bool" where
  "exchange sender p [] p' = (p = p')"
| "exchange sender p ((cmd, a) # log) p' =
    (case sender p cmd of (p1, r) \<Rightarrow> r = Some a \<and> exchange sender p1 log p')"

lemma exchange_append: "exchange sender p log p1 \<Longrightarrow> exchange sender p1 log' p' \<Longrightarrow> exchange sender p (log @ log') p'"
  by (induction sender p log p1 rule: exchange.induct) auto

text \<open>Whenever a method returns, it held a conversation with the worker that satisfies the predicate.\<close>

definition speaks :: "'w sender \<Rightarrow> (conversation \<Rightarrow> 'a \<Rightarrow> bool) \<Rightarrow> ('w, 'a) async \<Rightarrow> bool" where
  "speaks sender P m \<longleftrightarrow> (\<forall>c c' x. m c = (c', Inr x) \<longrightarrow> (\<exists>log. exchange sender (sw_process c) log (sw_process c') \<and> P log x))"

lemma speaks_ret: "P [] x \<Longrightarrow> speaks sender P (ret x)"
  by (auto simp: speaks_def ret_def intro!: exI [of _ "[]"])

lemma speaks_throw: "speaks sender P (throw e)"
  by (simp add: speaks_def throw_def)

lemma speaks_lifted: "(\<And>x. r = Inr x \<Longrightarrow> P [] x) \<Longrightarrow> speaks sender P (lifted r)"
  by (auto simp: speaks_def lifted_def intro!: exI [of _ "[]"])

lemma speaks_read: "speaks sender (\<lambda>log _. log = []) (\<lambda>c. (c, Inr (f c)))"
  by (auto simp: speaks_def intro!: exI [of _ "[]"])

lemma speaks_await:
  assumes "speaks sender Q m" and "\<And>log x. Q log x \<Longrightarrow> speaks sender (\<lambda>l. P (log @ l)) (f x)"
  shows "speaks sender P (await m f)"
  unfolding speaks_def
proof (intro allI impI)
  fix c c' y assume "await m f c = (c', Inr y)"
  then obtain c1 x where m: "m c = (c1, Inr x)" and f: "f x c1 = (c', Inr y)"
    by (auto simp: await_def split: prod.splits sum.splits)
  obtain log where log: "exchange sender (sw_process c) log (sw_process c1)" "Q log x" using assms(1) m unfolding speaks_def by blast
  obtain log' where log': "exchange sender (sw_process c1) log' (sw_process c')" "P (log @ log') y"
    using assms(2) [OF log(2)] f unfolding speaks_def by blast
  then show "\<exists>log. exchange sender (sw_process c) log (sw_process c') \<and> P log y" using exchange_append [OF log(1)] by blast
qed

lemma speaks_mono: "speaks sender Q m \<Longrightarrow> (\<And>log x. Q log x \<Longrightarrow> P log x) \<Longrightarrow> speaks sender P m"
  unfolding speaks_def by blast

lemma speaks_send: "speaks sender (\<lambda>log r. log = [(cmd, r)]) (send sender cmd)"
  by (auto simp: speaks_def send_def split: prod.splits option.splits)

lemma speaks_same_instance: "speaks sender (\<lambda>log _. log = []) (assertSameInstance r)"
  by (auto simp: speaks_def assertSameInstance_def split: option.splits if_splits)

definition observed_in :: "RawResponse \<Rightarrow> ObserveResult" where
  "observed_in r = \<lparr>ob_accounts = nullish (rr_accounts r) [], ob_unobserved = nullish (rr_unobserved r) [],
     ob_stateHash = nullish (rr_stateHash r) [], ob_instanceId = rr_instanceId r\<rparr>"

lemma speaks_step: "speaks sender (\<lambda>log s. \<exists>r. log = [(cmd_step label tx keys economic, r)] \<and> rr_step r = Some s)
    (worker_step sender label tx keys economic)"
  unfolding worker_step_def
proof (rule speaks_await [OF speaks_send])
  fix log :: conversation and r assume "log = [(cmd_step label tx keys economic, r)]"
  then show "speaks sender (\<lambda>l s. \<exists>r. log @ l = [(cmd_step label tx keys economic, r)] \<and> rr_step r = Some s)
      (case rr_step r of None \<Rightarrow> throw worker_unavailable | Some s \<Rightarrow> await (assertSameInstance r) (\<lambda>_. ret s))"
    by (auto intro: speaks_throw speaks_ret speaks_await [OF speaks_same_instance] split: option.split)
qed

lemma speaks_observe: "speaks sender (\<lambda>log q. \<exists>r. log = [(cmd_observe keys economic, r)] \<and> q = observed_in r)
    (worker_observe sender keys economic)"
  unfolding worker_observe_def
proof (rule speaks_await [OF speaks_send])
  fix log :: conversation and r assume "log = [(cmd_observe keys economic, r)]"
  then show "speaks sender (\<lambda>l q. \<exists>r. log @ l = [(cmd_observe keys economic, r)] \<and> q = observed_in r)
      (if rr_ok r \<noteq> Some True then throw worker_unavailable
       else await (assertSameInstance r) (\<lambda>_. ret \<lparr>ob_accounts = nullish (rr_accounts r) [], ob_unobserved = nullish (rr_unobserved r) [],
         ob_stateHash = nullish (rr_stateHash r) [], ob_instanceId = rr_instanceId r\<rparr>))"
    by (auto intro: speaks_throw speaks_await [OF speaks_same_instance] speaks_ret simp: observed_in_def)
qed

lemma speaks_init: "speaks sender (\<lambda>log _. \<exists>r. log = [(cmd_init snapshot job, r)]) (worker_init sender snapshot job)"
  unfolding speaks_def worker_init_def await_def send_def
  by (auto split: prod.splits option.splits sum.splits if_splits intro!: exI [of _ "[(cmd_init snapshot job, _)]"])

text \<open>The intervening trades: each is the transaction its builder made from the bytes of the observation before it,
  committed by the worker, and followed by the next observation.\<close>

inductive replay_talk :: "RoundTripRequest \<Rightarrow> Intervening \<Rightarrow> ReplayStep list \<Rightarrow> ObserveResult \<Rightarrow> conversation \<Rightarrow> ObserveResult \<Rightarrow> bool"
  for req iv where
  no_trade: "replay_talk req iv [] q [] q"
| one_trade: "backs req src q \<Longrightarrow> iv_build iv ev src = Some tx \<Longrightarrow> rr_step r = Some s \<Longrightarrow> ss_status s = ''SIMULATED_OK'' \<Longrightarrow>
    replay_talk req iv evs (observed_in r') log q' \<Longrightarrow>
    replay_talk req iv (ev # evs) q
      ((cmd_step (label_replay (rp_slot ev) (take 8 (rp_signature ev))) tx (nullish (iv_observe iv) (rq_priceBearing req)) (Some (economic_of req)), r) #
       (cmd_observe (rq_priceBearing req) (Some (economic_of req)), r') # log) q'"

inductive_simps replay_talk_Nil: "replay_talk req iv [] q log q'"
inductive_simps replay_talk_Cons: "replay_talk req iv (ev # evs) q log q'"

definition intervening_talk :: "RoundTripRequest \<Rightarrow> ObserveResult \<Rightarrow> conversation \<Rightarrow> ObserveResult \<Rightarrow> bool" where
  "intervening_talk req q log q' \<longleftrightarrow> (case rq_intervening req of None \<Rightarrow> log = [] \<and> q' = q | Some iv \<Rightarrow> replay_talk req iv (iv_steps iv) q log q')"

definition close_talk :: "RoundTripRequest \<Rightarrow> int \<Rightarrow> conversation \<Rightarrow> SequentialStepResult option \<Rightarrow> bool" where
  "close_talk req a log close \<longleftrightarrow> (case rq_buildClose req of None \<Rightarrow> log = [] \<and> close = None
     | Some build \<Rightarrow> \<exists>tx r. build a = Some tx \<and> log = [(cmd_step label_close tx (rq_observe req) None, r)] \<and> close = rr_step r \<and> close \<noteq> None)"

text \<open>From the last observation on: the sell the worker executed is the transaction the builder made from it.\<close>

definition sell_talk :: "RoundTripRequest \<Rightarrow> int \<Rightarrow> ObserveResult \<Rightarrow> conversation \<Rightarrow> RoundTripResult \<Rightarrow> bool" where
  "sell_talk req a q log r \<longleftrightarrow> (\<exists>src built answer sold clog.
     log = (cmd_step label_sell (bs_transaction built) (js_set_of (rq_observe req @ nullish (bs_observeExtra built) [])) (Some (economic_of req)), answer) # clog \<and>
     backs req src q \<and> rq_buildSell req src a = Some built \<and> rr_step answer = Some sold \<and> ss_status sold = ''SIMULATED_OK'' \<and> same_state q sold \<and>
     tr_sell r = Some sold \<and> tr_quoted r = Some q \<and> tr_selfImpact r = bs_selfImpact built \<and> tr_sellInstructions r = bs_instructions built \<and>
     close_talk req a clog (tr_close r))"

definition trip_talk :: "RoundTripRequest \<Rightarrow> conversation \<Rightarrow> RoundTripResult \<Rightarrow> bool" where
  "trip_talk req log r \<longleftrightarrow> (\<exists>ai ab aq rlog slog bought a q.
     log = (cmd_init (rq_snapshot req) (rq_jobId req), ai) #
       (cmd_step label_buy (rq_buyTransaction req) (rq_observe req) (Some (economic_of req)), ab) #
       (cmd_observe (rq_priceBearing req) (Some (economic_of req)), aq) # rlog @ slog \<and>
     rr_step ab = Some bought \<and> ss_status bought = ''SIMULATED_OK'' \<and> tr_buy r = Some bought \<and> tr_acquiredAtoms r = Some a \<and> 0 < a \<and>
     tokenAmount (find (\<lambda>x. oa_pubkey x = rq_takerAta req) (ss_post bought)) = Inr (Some a) \<and>
     intervening_talk req (observed_in aq) rlog q \<and> sell_talk req a q slog r)"

lemma refused_not_past [simp]:
  "f \<noteq> CLOSE_FAILED \<Longrightarrow> \<not> past_the_sell (trip_fail f)" "f \<noteq> CLOSE_FAILED \<Longrightarrow> \<not> past_the_sell (refused_after_buy f t)"
  "past_the_sell (r\<lparr>tr_sell := x\<rparr>) = past_the_sell r" "past_the_sell (r\<lparr>tr_selfImpact := i\<rparr>) = past_the_sell r"
  "past_the_sell (r\<lparr>tr_quoteStateSurvived := b\<rparr>) = past_the_sell r" "past_the_sell (r\<lparr>tr_replayed := y\<rparr>) = past_the_sell r"
  "past_the_sell (r\<lparr>tr_incompleteness := n\<rparr>) = past_the_sell r" "past_the_sell (r\<lparr>tr_buy := z\<rparr>) = past_the_sell r"
  "past_the_sell (r\<lparr>tr_identity := u\<rparr>) = past_the_sell r"
  by (simp_all add: past_the_sell_def trip_fail_def refused_after_buy_def)

definition kept :: "trip_state \<Rightarrow> RoundTripResult \<Rightarrow> bool" where
  "kept t r \<longleftrightarrow> tr_buy r = Some (ts_buy t) \<and> tr_acquiredAtoms r = Some (ts_acquired t)"

lemma speaks_close: "speaks sender (\<lambda>log close. close_talk req a log close) (close_step sender req a)"
proof (cases "rq_buildClose req")
  case None
  then show ?thesis by (simp add: close_step_def speaks_ret close_talk_def)
next
  case (Some build)
  show ?thesis
  proof (cases "build a")
    case None
    then show ?thesis by (simp add: close_step_def Some speaks_throw)
  next
    case (Some tx)
    show ?thesis unfolding close_step_def using \<open>rq_buildClose req = Some build\<close> Some
      by (auto intro!: speaks_await [OF speaks_step] speaks_ret simp: close_talk_def)
  qed
qed

lemma speaks_sell:
  assumes "backs req pricing priced"
  shows "speaks sender (\<lambda>log r. past_the_sell r \<longrightarrow> kept t r \<and> sell_talk req (ts_acquired t) priced log r)
    (trip_sell sender req t pricing priced replayed)"
proof (cases "rq_buildSell req pricing (ts_acquired t)")
  case None
  then show ?thesis by (simp add: trip_sell_def speaks_ret)
next
  case (Some built)
  have finish: "speaks sender (\<lambda>l r. past_the_sell r \<longrightarrow> kept t r \<and>
      sell_talk req (ts_acquired t) priced ((cmd_step label_sell (bs_transaction built) (js_set_of (rq_observe req @ nullish (bs_observeExtra built) []))
        (Some (economic_of req)), answer) # l) r) (trip_finish sender req t priced replayed built sold)"
    if "rr_step answer = Some sold" "assertQuoteStateSurvived priced sold" "ss_status sold = ''SIMULATED_OK''" for answer sold
    unfolding trip_finish_def Let_def
  proof (rule speaks_await [OF speaks_close])
    fix log :: conversation and close assume c: "close_talk req (ts_acquired t) log close"
    show "speaks sender (\<lambda>l r. past_the_sell r \<longrightarrow> kept t r \<and> sell_talk req (ts_acquired t) priced
        ((cmd_step label_sell (bs_transaction built) (js_set_of (rq_observe req @ nullish (bs_observeExtra built) [])) (Some (economic_of req)), answer) # log @ l) r)
      (ret \<lparr>tr_failure = (if (case close of None \<Rightarrow> True | Some s \<Rightarrow> ss_status s = ''SIMULATED_OK'') then None else Some CLOSE_FAILED),
            tr_ok = (case close of None \<Rightarrow> True | Some s \<Rightarrow> ss_status s = ''SIMULATED_OK''), tr_buy = Some (ts_buy t), tr_sell = Some sold,
            tr_close = close, tr_acquiredAtoms = Some (ts_acquired t), tr_quoted = Some priced, tr_quoteStateSurvived = True,
            tr_selfImpact = bs_selfImpact built, tr_baseAtaClosedInSell = base_ata_closed req sold, tr_sellInstructions = bs_instructions built,
            tr_replayed = replayed, tr_identity = Some (ts_identity t),
            tr_incompleteness = ts_incompleteness t @ map unobserved_on_buy (ss_unobserved (ts_buy t)) @
              map unobserved_on_sell (ss_unobserved sold) @
              map unobserved_on_close (case close of None \<Rightarrow> [] | Some s \<Rightarrow> ss_unobserved s) @
              (if base_ata_closed req sold = Some False then [ata_survived (the (rq_takerBaseAtaToClose req))] else [])\<rparr>)"
      using that c assms Some by (intro speaks_ret impI conjI) (auto simp: kept_def sell_talk_def survived_same_state)
  qed
  show ?thesis unfolding trip_sell_def Some option.case
    by (rule speaks_await [OF speaks_step]) (auto intro!: speaks_ret finish)
qed

definition replay_ends :: "RoundTripRequest \<Rightarrow> Intervening \<Rightarrow> ReplayStep list \<Rightarrow> ObserveResult \<Rightarrow> conversation \<Rightarrow> replay_outcome \<Rightarrow> bool" where
  "replay_ends req iv evs q log outcome = (case outcome of replay_refused f rep \<Rightarrow> f \<noteq> CLOSE_FAILED
     | replay_done src q' rep \<Rightarrow> backs req src q' \<and> replay_talk req iv evs q log q')"

lemma speaks_replay_loop: "backs req pricing priced \<Longrightarrow>
    speaks sender (replay_ends req iv evs priced) (replay_loop sender req iv evs pricing priced replayed)"
proof (induction evs arbitrary: pricing priced replayed)
  case Nil
  then show ?case by (simp add: speaks_ret replay_ends_def replay_talk.no_trade)
next
  case (Cons ev evs)
  show ?case
  proof (cases "iv_build iv ev pricing")
    case None
    then show ?thesis by (simp add: speaks_ret replay_ends_def)
  next
    case (Some tx)
    let ?c1 = "cmd_step (label_replay (rp_slot ev) (take 8 (rp_signature ev))) tx (nullish (iv_observe iv) (rq_priceBearing req)) (Some (economic_of req))"
    let ?c2 = "cmd_observe (rq_priceBearing req) (Some (economic_of req))"
    have rest: "speaks sender (\<lambda>l. replay_ends req iv (ev # evs) priced ([(?c1, r)] @ [(?c2, r')] @ l))
        (await (lifted (accountSourceOf (ob_accounts (observed_in r')) (\<lambda>_. None))) (\<lambda>over.
          replay_loop sender req iv evs (overlaySource pricing over) (observed_in r') rep))"
      if "unquoted req (observed_in r') = []" "rr_step r = Some s" "ss_status s = ''SIMULATED_OK''" for r r' s rep
    proof (rule speaks_await [OF speaks_lifted])
      fix log :: conversation and over assume "log = ([] :: conversation) \<and> accountSourceOf (ob_accounts (observed_in r')) (\<lambda>_. None) = Inr over"
      then have "backs req (overlaySource pricing over) (observed_in r')" and log: "log = []" using backs_overlay that(1) by blast+
      then have "speaks sender (replay_ends req iv evs (observed_in r')) (replay_loop sender req iv evs (overlaySource pricing over) (observed_in r') rep)"
        by (intro Cons.IH)
      then show "speaks sender (\<lambda>l. replay_ends req iv (ev # evs) priced ([(?c1, r)] @ [(?c2, r')] @ log @ l))
          (replay_loop sender req iv evs (overlaySource pricing over) (observed_in r') rep)"
        by (rule speaks_mono)
          (auto simp: log replay_ends_def intro: replay_talk.one_trade [OF Cons.prems Some that(2,3)] split: replay_outcome.splits)
    qed simp
    have observe: "speaks sender (\<lambda>l. replay_ends req iv (ev # evs) priced ([(?c1, r)] @ l))
        (await (worker_observe sender (rq_priceBearing req) (Some (economic_of req))) (\<lambda>observed.
             if ob_accounts observed = [] \<or> unquoted req observed \<noteq> [] then ret (replay_refused REPLAY_STATE_UNOBSERVED rep)
             else await (lifted (accountSourceOf (ob_accounts observed) (\<lambda>_. None))) (\<lambda>over.
               replay_loop sender req iv evs (overlaySource pricing over) observed rep)))"
      if "rr_step r = Some s" "ss_status s = ''SIMULATED_OK''" for r s rep
    proof (rule speaks_await [OF speaks_observe])
      fix log :: conversation and q assume "\<exists>r'. log = [(?c2, r')] \<and> q = observed_in r'"
      then obtain r' where r': "log = [(?c2, r')]" "q = observed_in r'" by blast
      show "speaks sender (\<lambda>l. replay_ends req iv (ev # evs) priced ([(?c1, r)] @ log @ l))
          (if ob_accounts q = [] \<or> unquoted req q \<noteq> [] then ret (replay_refused REPLAY_STATE_UNOBSERVED rep)
           else await (lifted (accountSourceOf (ob_accounts q) (\<lambda>_. None))) (\<lambda>over. replay_loop sender req iv evs (overlaySource pricing over) q rep))"
        using rest [OF _ that, of r' rep] by (auto simp: r' intro: speaks_ret simp: replay_ends_def)
    qed
    show ?thesis unfolding replay_loop.simps Some option.case
    proof (rule speaks_await [OF speaks_step])
      fix log :: conversation and s assume "\<exists>r. log = [(?c1, r)] \<and> rr_step r = Some s"
      then obtain r where r: "log = [(?c1, r)]" "rr_step r = Some s" by blast
      show "speaks sender (\<lambda>l. replay_ends req iv (ev # evs) priced (log @ l))
          (let replayed' = replayed @ [replayed_event ev (ss_status s)]
           in if ss_status s \<noteq> ''SIMULATED_OK'' then ret (replay_refused REPLAY_EVENT_FAILED replayed')
           else await (worker_observe sender (rq_priceBearing req) (Some (economic_of req))) (\<lambda>observed.
             if ob_accounts observed = [] \<or> unquoted req observed \<noteq> [] then ret (replay_refused REPLAY_STATE_UNOBSERVED replayed')
             else await (lifted (accountSourceOf (ob_accounts observed) (\<lambda>_. None))) (\<lambda>over.
               replay_loop sender req iv evs (overlaySource pricing over) observed replayed')))"
        using observe [OF r(2)] by (auto simp: r(1) Let_def replay_ends_def intro: speaks_ret)
    qed
  qed
qed

lemma speaks_replay:
  assumes "backs req pricing (ts_quoted t)"
  shows "speaks sender (\<lambda>log r. past_the_sell r \<longrightarrow> kept t r \<and>
      (\<exists>rlog slog q. log = rlog @ slog \<and> intervening_talk req (ts_quoted t) rlog q \<and> sell_talk req (ts_acquired t) q slog r))
    (trip_replay sender req t pricing)"
proof (cases "rq_intervening req")
  case None
  show ?thesis unfolding trip_replay_def None option.case
    by (rule speaks_mono [OF speaks_sell [OF assms]]) (auto simp: intervening_talk_def None)
next
  case (Some iv)
  show ?thesis unfolding trip_replay_def Some option.case
  proof (rule speaks_await [OF speaks_replay_loop [OF assms]])
    fix log :: conversation and outcome assume e: "replay_ends req iv (iv_steps iv) (ts_quoted t) log outcome"
    show "speaks sender (\<lambda>l r. past_the_sell r \<longrightarrow> kept t r \<and> (\<exists>rlog slog q. log @ l = rlog @ slog \<and>
          intervening_talk req (ts_quoted t) rlog q \<and> sell_talk req (ts_acquired t) q slog r))
      (case outcome of replay_refused f replayed \<Rightarrow> ret ((refused_after_buy f t)\<lparr>tr_replayed := Some replayed\<rparr>)
        | replay_done pricing' priced replayed \<Rightarrow> trip_sell sender req t pricing' priced (Some replayed))"
    proof (cases outcome)
      case (replay_done src q rep)
      then have q: "backs req src q" "intervening_talk req (ts_quoted t) log q" using e Some by (simp_all add: replay_ends_def intervening_talk_def)
      show ?thesis unfolding replay_done replay_outcome.case
        by (rule speaks_mono [OF speaks_sell [OF q(1)]]) (use q(2) in blast)
    qed (use e in \<open>simp add: replay_ends_def speaks_ret\<close>)
  qed
qed

lemma speaks_quote:
  "speaks sender (\<lambda>log r. past_the_sell r \<longrightarrow> tr_buy r = Some entered \<and> tr_acquiredAtoms r = Some acquired \<and>
      (\<exists>aq rlog slog q. log = (cmd_observe (rq_priceBearing req) (Some (economic_of req)), aq) # rlog @ slog \<and>
        intervening_talk req (observed_in aq) rlog q \<and> sell_talk req acquired q slog r))
    (trip_quote sender req identity inc entered acquired)"
  unfolding trip_quote_def
proof (rule speaks_await [OF speaks_observe])
  fix log :: conversation and q assume "\<exists>r. log = [(cmd_observe (rq_priceBearing req) (Some (economic_of req)), r)] \<and> q = observed_in r"
  then obtain aq where aq: "log = [(cmd_observe (rq_priceBearing req) (Some (economic_of req)), aq)]" "q = observed_in aq" by blast
  let ?t = "\<lparr>ts_identity = identity, ts_incompleteness = inc, ts_buy = entered, ts_acquired = acquired, ts_quoted = q\<rparr>"
  let ?P = "\<lambda>l r. past_the_sell r \<longrightarrow> tr_buy r = Some entered \<and> tr_acquiredAtoms r = Some acquired \<and>
      (\<exists>aq rlog slog q. log @ l = (cmd_observe (rq_priceBearing req) (Some (economic_of req)), aq) # rlog @ slog \<and>
        intervening_talk req (observed_in aq) rlog q \<and> sell_talk req acquired q slog r)"
  have rest: "speaks sender ?P (await (lifted (accountSourceOf (ob_accounts q) (\<lambda>_. None))) (\<lambda>over. trip_replay sender req ?t (overlaySource base over)))"
    if "unquoted req q = []" for base
  proof (rule speaks_await [OF speaks_lifted])
    fix log' :: conversation and over assume o: "log' = ([] :: conversation) \<and> accountSourceOf (ob_accounts q) (\<lambda>_. None) = Inr over"
    then have "backs req (overlaySource base over) (ts_quoted ?t)" using backs_overlay that by simp
    then show "speaks sender (\<lambda>l. ?P (log' @ l)) (trip_replay sender req ?t (overlaySource base over))"
      by (rule speaks_mono [OF speaks_replay]) (auto simp: kept_def aq o)
  qed simp
  show "speaks sender ?P (let t = ?t in if ob_accounts q = [] \<or> unquoted req q \<noteq> []
         then ret ((refused_after_buy QUOTE_STATE_UNOBSERVED t)\<lparr>tr_incompleteness := inc @ map unobserved_at_quote (ob_unobserved q)\<rparr>)
         else await (lifted (accountSourceOf (ob_accounts q) (\<lambda>_. None))) (\<lambda>over.
           trip_replay sender req t (overlaySource (snapshot_source (fr_accounts (rq_snapshot req))) over)))"
    using rest by (simp add: Let_def speaks_ret)
qed

lemma speaks_trip: "speaks sender (\<lambda>log r. past_the_sell r \<longrightarrow> trip_talk req log r) (trip sender req)"
  unfolding trip_def
proof (rule speaks_await [OF speaks_init], rule speaks_await [OF speaks_read], rule speaks_await [OF speaks_step])
  fix log1 :: conversation and identity and log2 :: conversation and inc and log3 :: conversation and entered
  assume "\<exists>r. log1 = [(cmd_init (rq_snapshot req) (rq_jobId req), r)]" and l2: "log2 = ([] :: conversation)"
    and "\<exists>r. log3 = [(cmd_step label_buy (rq_buyTransaction req) (rq_observe req) (Some (economic_of req)), r)] \<and> rr_step r = Some entered"
  then obtain ai ab where l: "log1 = [(cmd_init (rq_snapshot req) (rq_jobId req), ai)]"
      "log3 = [(cmd_step label_buy (rq_buyTransaction req) (rq_observe req) (Some (economic_of req)), ab)]" "rr_step ab = Some entered" by blast
  let ?bought = "\<lambda>f. (trip_fail f)\<lparr>tr_buy := Some entered, tr_identity := Some identity, tr_incompleteness := inc\<rparr>"
  let ?P = "\<lambda>l r. past_the_sell r \<longrightarrow> trip_talk req (log1 @ log2 @ log3 @ l) r"
  have "speaks sender ?P (await (lifted (tokenAmount (find (\<lambda>a. oa_pubkey a = rq_takerAta req) (ss_post entered))))
      (\<lambda>acquired. case acquired of None \<Rightarrow> ret (?bought NO_MEASURED_CREDIT)
       | Some a \<Rightarrow> if a \<le> 0 then ret (?bought NO_MEASURED_CREDIT) else trip_quote sender req identity inc entered a))"
    if ok: "ss_status entered = ''SIMULATED_OK''"
  proof (rule speaks_await [OF speaks_lifted])
    fix log4 :: conversation and acquired
    assume a: "log4 = ([] :: conversation) \<and> tokenAmount (find (\<lambda>a. oa_pubkey a = rq_takerAta req) (ss_post entered)) = Inr acquired"
    have "speaks sender (\<lambda>l. ?P (log4 @ l)) (trip_quote sender req identity inc entered x)" if "acquired = Some x" "0 < x" for x
      by (rule speaks_mono [OF speaks_quote]) (use that ok a l l2 in \<open>fastforce simp: trip_talk_def\<close>)
    then show "speaks sender (\<lambda>l. ?P (log4 @ l)) (case acquired of None \<Rightarrow> ret (?bought NO_MEASURED_CREDIT)
       | Some a \<Rightarrow> if a \<le> 0 then ret (?bought NO_MEASURED_CREDIT) else trip_quote sender req identity inc entered a)"
      by (auto intro!: speaks_ret split: option.split)
  qed simp
  then show "speaks sender ?P (let bought = ?bought in if ss_status entered \<noteq> ''SIMULATED_OK'' then ret (bought BUY_FAILED)
         else await (lifted (tokenAmount (find (\<lambda>a. oa_pubkey a = rq_takerAta req) (ss_post entered)))) (\<lambda>acquired.
           case acquired of None \<Rightarrow> ret (bought NO_MEASURED_CREDIT)
           | Some a \<Rightarrow> if a \<le> 0 then ret (bought NO_MEASURED_CREDIT) else trip_quote sender req identity inc entered a))"
    by (simp add: Let_def speaks_ret)
qed

lemma trip_was_said:
  assumes "r = sequentialRoundTrip sender req w" and "past_the_sell r"
  shows "\<exists>log p'. exchange sender (sw_process w) log p' \<and> trip_talk req log r"
proof -
  have "\<not> past_the_sell (trip_fail RUNTIME_UNAVAILABLE)" by simp
  then obtain c' where "trip sender req w = (c', Inr r)"
    using assms by (auto simp: sequentialRoundTrip_def split: prod.splits sum.splits)
  then show ?thesis using speaks_trip [of sender req] assms(2) unfolding speaks_def by blast
qed

text \<open>The same, spelled out.\<close>

lemma trip_was_saidE:
  assumes "r = sequentialRoundTrip sender req w" and "past_the_sell r"
  obtains p' ai ab aq rlog answer clog bought q s src a built where
    "exchange sender (sw_process w)
      ((cmd_init (rq_snapshot req) (rq_jobId req), ai) #
       (cmd_step label_buy (rq_buyTransaction req) (rq_observe req) (Some (economic_of req)), ab) #
       (cmd_observe (rq_priceBearing req) (Some (economic_of req)), aq) # rlog @
       (cmd_step label_sell (bs_transaction built) (js_set_of (rq_observe req @ nullish (bs_observeExtra built) [])) (Some (economic_of req)), answer) # clog) p'"
    "rr_step ab = Some bought" "tr_buy r = Some bought" "ss_status bought = ''SIMULATED_OK''"
    "tokenAmount (find (\<lambda>x. oa_pubkey x = rq_takerAta req) (ss_post bought)) = Inr (Some a)" "tr_acquiredAtoms r = Some a" "0 < a"
    "intervening_talk req (observed_in aq) rlog q" "tr_quoted r = Some q" "backs req src q" "rq_buildSell req src a = Some built"
    "rr_step answer = Some s" "tr_sell r = Some s" "ss_status s = ''SIMULATED_OK''" "same_state q s"
    "close_talk req a clog (tr_close r)"
proof -
  obtain log p' where log: "exchange sender (sw_process w) log p'" "trip_talk req log r" using trip_was_said [OF assms] by blast
  then obtain ai ab aq rlog slog bought a q where t: "log = (cmd_init (rq_snapshot req) (rq_jobId req), ai) #
       (cmd_step label_buy (rq_buyTransaction req) (rq_observe req) (Some (economic_of req)), ab) #
       (cmd_observe (rq_priceBearing req) (Some (economic_of req)), aq) # rlog @ slog"
    "rr_step ab = Some bought" "ss_status bought = ''SIMULATED_OK''" "tr_buy r = Some bought" "tr_acquiredAtoms r = Some a" "0 < a"
    "tokenAmount (find (\<lambda>x. oa_pubkey x = rq_takerAta req) (ss_post bought)) = Inr (Some a)"
    "intervening_talk req (observed_in aq) rlog q" "sell_talk req a q slog r"
    unfolding trip_talk_def by blast
  obtain src built answer s clog where u: "slog = (cmd_step label_sell (bs_transaction built) (js_set_of (rq_observe req @ nullish (bs_observeExtra built) []))
       (Some (economic_of req)), answer) # clog"
    "backs req src q" "rq_buildSell req src a = Some built" "rr_step answer = Some s" "ss_status s = ''SIMULATED_OK''" "same_state q s"
    "tr_sell r = Some s" "tr_quoted r = Some q" "close_talk req a clog (tr_close r)"
    using t(9) unfolding sell_talk_def by blast
  show thesis by (rule that [OF log(1) [unfolded t(1) u(1)] t(2,4,3,7,5,6,8) u(8,2,3,4,7,5,6,9)])
qed

text \<open>C7: The sell is priced where it executes. Behind a trip that reports a success stands one conversation with the
  simulator: the snapshot, the requested buy, an observation, for each requested trade in order the transaction
  its builder made from the bytes of the observation before it and a new observation, and the sell. The buy and the
  sell that are reported are the answers to these commands, the amount is the balance the buy left, the sell that
  was executed is the one built for that amount from the bytes of the last observation for every
  price-bearing account, and it met each of those accounts in the state whose hash the observation
  carried. Every trade was committed. Nothing is assumed of the simulator.\<close>

theorem sell_is_priced_where_it_executes:
  assumes "r = sequentialRoundTrip sender req w" and "tr_ok r"
  shows "\<exists>p' ai ab aq rlog answer clog bought q s src a built.
    exchange sender (sw_process w)
      ((cmd_init (rq_snapshot req) (rq_jobId req), ai) #
       (cmd_step label_buy (rq_buyTransaction req) (rq_observe req) (Some (economic_of req)), ab) #
       (cmd_observe (rq_priceBearing req) (Some (economic_of req)), aq) # rlog @
       (cmd_step label_sell (bs_transaction built) (js_set_of (rq_observe req @ nullish (bs_observeExtra built) [])) (Some (economic_of req)), answer) # clog) p' \<and>
    rr_step ab = Some bought \<and> tr_buy r = Some bought \<and> ss_status bought = ''SIMULATED_OK'' \<and>
    tokenAmount (find (\<lambda>x. oa_pubkey x = rq_takerAta req) (ss_post bought)) = Inr (Some a) \<and> tr_acquiredAtoms r = Some a \<and> 0 < a \<and>
    intervening_talk req (observed_in aq) rlog q \<and>
    tr_quoted r = Some q \<and> rq_buildSell req src a = Some built \<and>
    rr_step answer = Some s \<and> tr_sell r = Some s \<and> ss_status s = ''SIMULATED_OK'' \<and>
    (\<forall>k \<in> set (rq_priceBearing req). \<exists>acc data. acc \<in> set (ob_accounts q) \<and> oa_pubkey acc = k \<and> oa_data acc = Some data \<and>
        src k = Some (account_bytes_of acc data) \<and> (\<exists>p \<in> set (ss_pre s). oa_pubkey p = k) \<and>
        (\<forall>p \<in> set (ss_pre s). oa_pubkey p = k \<longrightarrow> oa_accountHash p = oa_accountHash acc)) \<and>
    close_talk req a clog (tr_close r) \<and>
    tr_replayed r = map_option (\<lambda>iv. map (\<lambda>ev. replayed_event ev ''SIMULATED_OK'') (iv_steps iv)) (rq_intervening req)"
proof -
  have past: "past_the_sell r" and whole: "replayed_whole req r"
    using trip_is_good [of req sender w] assms by (auto simp: good_result_def past_the_sell_def)
  obtain p' ai ab aq rlog answer clog bought q s src a built where t: "exchange sender (sw_process w)
      ((cmd_init (rq_snapshot req) (rq_jobId req), ai) #
       (cmd_step label_buy (rq_buyTransaction req) (rq_observe req) (Some (economic_of req)), ab) #
       (cmd_observe (rq_priceBearing req) (Some (economic_of req)), aq) # rlog @
       (cmd_step label_sell (bs_transaction built) (js_set_of (rq_observe req @ nullish (bs_observeExtra built) [])) (Some (economic_of req)), answer) # clog) p'"
    "rr_step ab = Some bought" "tr_buy r = Some bought" "ss_status bought = ''SIMULATED_OK''"
    "tokenAmount (find (\<lambda>x. oa_pubkey x = rq_takerAta req) (ss_post bought)) = Inr (Some a)" "tr_acquiredAtoms r = Some a" "0 < a"
    "intervening_talk req (observed_in aq) rlog q" "tr_quoted r = Some q" "rq_buildSell req src a = Some built"
    "rr_step answer = Some s" "tr_sell r = Some s" "ss_status s = ''SIMULATED_OK''"
    and bytes: "backs req src q" and same: "same_state q s" and close: "close_talk req a clog (tr_close r)"
    by (rule trip_was_saidE [OF assms(1) past]) (rule that)
  have priced: "\<forall>k \<in> set (rq_priceBearing req). \<exists>acc data. acc \<in> set (ob_accounts q) \<and> oa_pubkey acc = k \<and> oa_data acc = Some data \<and>
      src k = Some (account_bytes_of acc data) \<and> (\<exists>p \<in> set (ss_pre s). oa_pubkey p = k) \<and>
      (\<forall>p \<in> set (ss_pre s). oa_pubkey p = k \<longrightarrow> oa_accountHash p = oa_accountHash acc)"
  proof
    fix k assume k: "k \<in> set (rq_priceBearing req)"
    obtain acc data where acc: "latest (ob_accounts q) k = Some acc" "oa_data acc = Some data" "src k = Some (account_bytes_of acc data)"
      using bytes k unfolding backs_def by blast
    then show "\<exists>acc data. acc \<in> set (ob_accounts q) \<and> oa_pubkey acc = k \<and> oa_data acc = Some data \<and>
        src k = Some (account_bytes_of acc data) \<and> (\<exists>p \<in> set (ss_pre s). oa_pubkey p = k) \<and>
        (\<forall>p \<in> set (ss_pre s). oa_pubkey p = k \<longrightarrow> oa_accountHash p = oa_accountHash acc)"
      using same latest_mem [OF acc(1)] unfolding same_state_def by blast
  qed
  have rep: "tr_replayed r = map_option (\<lambda>iv. map (\<lambda>ev. replayed_event ev ''SIMULATED_OK'') (iv_steps iv)) (rq_intervening req)"
    using whole unfolding replayed_whole_def committed_def .
  show ?thesis
    by (rule exI [of _ p'], rule exI [of _ ai], rule exI [of _ ab], rule exI [of _ aq], rule exI [of _ rlog], rule exI [of _ answer],
        rule exI [of _ clog], rule exI [of _ bought], rule exI [of _ q], rule exI [of _ s], rule exI [of _ src], rule exI [of _ a],
        rule exI [of _ built], intro conjI t priced close rep)
qed

text \<open>The result says it is a success exactly when it names no failure, and a failure before the end never carries a
  close.\<close>

lemma ok_iff_no_failure: "tr_ok (sequentialRoundTrip sender req w) \<longleftrightarrow> tr_failure (sequentialRoundTrip sender req w) = None"
  using trip_is_good [of req sender w] by (simp add: good_result_def)

section \<open>What a failed sell forgets\<close>

text \<open>A result without a replay says the trip never asked for one. A trip that replayed its trades and then failed
  to build, to survive or to commit the sell says the same.\<close>

definition forgetful :: "RoundTripResult \<Rightarrow> bool" where
  "forgetful r \<longleftrightarrow> tr_failure r \<in> {Some SELL_BUILD_FAILED, Some QUOTE_STATE_MOVED, Some SELL_FAILED} \<longrightarrow> tr_replayed r = None"

lemma forgetful_other: "tr_failure r \<notin> {Some SELL_BUILD_FAILED, Some QUOTE_STATE_MOVED, Some SELL_FAILED} \<Longrightarrow> forgetful r"
  "tr_replayed r = None \<Longrightarrow> forgetful r"
  by (simp_all add: forgetful_def)

lemma forgetful_finish: "yields forgetful (trip_finish sender req t priced replayed built sold)"
  unfolding trip_finish_def Let_def by (simp add: yields_await_any yields_ret forgetful_other(1))

lemma forgetful_sell: "yields forgetful (trip_sell sender req t pricing priced replayed)"
  unfolding trip_sell_def
  by (simp add: yields_await_any yields_ret forgetful_other(2) forgetful_finish split: option.split)

lemma forgetful_replay: "yields forgetful (trip_replay sender req t pricing)"
proof (cases "rq_intervening req")
  case (Some iv)
  have loop: "yields (replayed_ok' :: replay_outcome \<Rightarrow> bool) (replay_loop sender req iv evs pricing priced replayed)"
    if "replayed_ok' = (\<lambda>o'. \<forall>f rep. o' = replay_refused f rep \<longrightarrow> f = REPLAY_EVENT_FAILED \<or> f = REPLAY_STATE_UNOBSERVED)"
    for evs pricing priced replayed replayed_ok'
    unfolding that by (induction evs arbitrary: pricing priced replayed)
      (simp_all add: yields_ret yields_await_any Let_def split: option.split)
  show ?thesis unfolding trip_replay_def Some option.case
    by (rule yields_await [OF loop [OF refl]])
      (auto intro!: yields_ret forgetful_sell forgetful_other(1) split: replay_outcome.split)
qed (simp add: trip_replay_def forgetful_sell)

lemma forgetful_trip: "yields forgetful (trip sender req)"
  unfolding trip_def trip_quote_def Let_def
  by (simp add: yields_await_any yields_ret forgetful_other forgetful_replay split: option.split)

theorem failed_sell_forgets_the_replay:
  "tr_failure (sequentialRoundTrip sender req w) \<in> {Some SELL_BUILD_FAILED, Some QUOTE_STATE_MOVED, Some SELL_FAILED} \<longrightarrow>
    tr_replayed (sequentialRoundTrip sender req w) = None"
proof -
  have "forgetful (sequentialRoundTrip sender req w)" using forgetful_trip by (rule trip_yields) (simp add: forgetful_other)
  then show ?thesis by (simp add: forgetful_def)
qed

text \<open>The incompleteness of a finished trip names accounts nobody saw at the start, on the buy, on the sell or on
  the close. What a replayed trade left unobserved is in no note.\<close>

theorem replay_notes_are_dropped:
  "tr_ok (sequentialRoundTrip sender req w) \<longrightarrow>
    set (tr_incompleteness (sequentialRoundTrip sender req w)) \<subseteq> notes_of_legs (sequentialRoundTrip sender req w)"
  using trip_is_good [of req sender w] by (simp add: good_result_def past_the_sell_def)

section \<open>The queue of waiting requests\<close>

text \<open>Requests by number: the slots that wait, the commands the worker has been given and not answered (it answers in
  order, a line each), and how every settled request was settled: with the answer to which command, or
  rejected.\<close>

datatype settlement = answered nat | rejected

record WorkerQueue =
  wq_pending :: "nat list"
  wq_written :: "nat list"
  wq_bytesSeen :: nat
  wq_closed :: bool
  wq_settled :: "(nat \<times> settlement) list"

datatype queue_event = ev_init nat | ev_send nat | ev_line nat | ev_timeout nat | ev_write_failed nat | ev_exit

definition queue_die :: "WorkerQueue \<Rightarrow> WorkerQueue" where
  "queue_die q = q\<lparr>wq_closed := True, wq_pending := [], wq_settled := wq_settled q @ map (\<lambda>i. (i, rejected)) (wq_pending q)\<rparr>"

definition queue_send :: "nat \<Rightarrow> WorkerQueue \<Rightarrow> WorkerQueue" where
  "queue_send i q = (if wq_closed q then q\<lparr>wq_settled := wq_settled q @ [(i, rejected)]\<rparr>
     else q\<lparr>wq_pending := wq_pending q @ [i], wq_written := wq_written q @ [i]\<rparr>)"

fun queue_step :: "nat \<Rightarrow> queue_event \<Rightarrow> WorkerQueue \<Rightarrow> WorkerQueue" where
  "queue_step maxBytes (ev_init i) q = queue_send i (q\<lparr>wq_bytesSeen := 0\<rparr>)"
| "queue_step maxBytes (ev_send i) q = queue_send i q"
| "queue_step maxBytes (ev_line n) q =
    (let q' = q\<lparr>wq_bytesSeen := wq_bytesSeen q + n, wq_written := tl (wq_written q)\<rparr>
     in if wq_bytesSeen q + n > maxBytes then queue_die q'
        else (case wq_pending q of [] \<Rightarrow> q'
          | p # ps \<Rightarrow> q'\<lparr>wq_pending := ps, wq_settled := wq_settled q @ [(p, answered (hd (wq_written q)))]\<rparr>))"
| "queue_step maxBytes (ev_timeout i) q =
    q\<lparr>wq_pending := remove1 i (wq_pending q), wq_closed := True, wq_settled := wq_settled q @ [(i, rejected)]\<rparr>"
| "queue_step maxBytes (ev_write_failed i) q =
    (if i \<in> set (wq_pending q)
     then q\<lparr>wq_pending := remove1 i (wq_pending q), wq_written := remove1 i (wq_written q), wq_settled := wq_settled q @ [(i, rejected)]\<rparr>
     else q)"
| "queue_step maxBytes ev_exit q = (if wq_pending q = [] then q\<lparr>wq_closed := True\<rparr> else (queue_die q)\<lparr>wq_closed := True\<rparr>)"

text \<open>The requests an event adds. An event can happen when its line answers a command, its timer runs while the
  request waits, and a new request has a number of its own. The discipline of the callers: nobody waits behind
  a request that times out.\<close>

fun issued :: "queue_event \<Rightarrow> nat list" where
  "issued (ev_init i) = [i]"
| "issued (ev_send i) = [i]"
| "issued e = []"

definition known_requests :: "WorkerQueue \<Rightarrow> nat list" where
  "known_requests q = wq_pending q @ map fst (wq_settled q)"

fun can_happen :: "queue_event \<Rightarrow> WorkerQueue \<Rightarrow> bool" where
  "can_happen (ev_line n) q \<longleftrightarrow> wq_written q \<noteq> []"
| "can_happen (ev_timeout i) q \<longleftrightarrow> i \<in> set (wq_pending q)"
| "can_happen e q \<longleftrightarrow> set (issued e) \<inter> set (known_requests q) = {}"

fun alone :: "queue_event \<Rightarrow> WorkerQueue \<Rightarrow> bool" where
  "alone (ev_timeout i) q \<longleftrightarrow> wq_pending q = [i]"
| "alone e q \<longleftrightarrow> True"

definition new_queue :: WorkerQueue where
  "new_queue = \<lparr>wq_pending = [], wq_written = [], wq_bytesSeen = 0, wq_closed = False, wq_settled = []\<rparr>"

text \<open>A history: the events from the start, with the queue they end in.\<close>

inductive queue_history :: "nat \<Rightarrow> queue_event list \<Rightarrow> WorkerQueue \<Rightarrow> bool" for maxBytes where
  queue_start: "queue_history maxBytes [] new_queue"
| queue_next: "queue_history maxBytes es q \<Longrightarrow> can_happen e q \<Longrightarrow> alone e q \<Longrightarrow> queue_history maxBytes (es @ [e]) (queue_step maxBytes e q)"

definition queue_inv :: "WorkerQueue \<Rightarrow> bool" where
  "queue_inv q \<longleftrightarrow> (wq_pending q = wq_written q \<or> wq_closed q \<and> wq_pending q = []) \<and>
    (\<forall>(i, s) \<in> set (wq_settled q). s = rejected \<or> s = answered i)"

lemma queue_inv_send: "queue_inv q \<Longrightarrow> queue_inv (queue_send i q)"
  by (auto simp: queue_inv_def queue_send_def)

lemma queue_inv_step:
  assumes "queue_inv q" and "can_happen e q" and "alone e q"
  shows "queue_inv (queue_step maxBytes e q)"
proof (cases e)
  case (ev_init i)
  then show ?thesis using assms(1) queue_inv_send [of "q\<lparr>wq_bytesSeen := 0\<rparr>" i] by (simp add: queue_inv_def)
next
  case (ev_line n)
  then show ?thesis using assms(1,2)
    by (cases "wq_written q"; cases "wq_pending q") (auto simp: queue_inv_def queue_die_def Let_def)
next
  case (ev_timeout i)
  then have "wq_pending q = [i]" using assms(3) by simp
  then have "remove1 i (wq_pending q) = []" by simp
  then show ?thesis using assms(1) ev_timeout by (auto simp add: queue_inv_def simp del: remove1.simps)
qed (use assms queue_inv_send in \<open>auto simp: queue_inv_def queue_die_def\<close>)

text \<open>An event neither loses a request nor settles one twice: the requests, waiting and settled, are those of before
  and the new one.\<close>

lemma mset_remove1_insert: "i \<in> set xs \<Longrightarrow> add_mset i (mset (remove1 i xs)) = mset xs"
  by simp

lemma known_send: "mset (known_requests (queue_send i q)) = add_mset i (mset (known_requests q))"
  by (simp add: known_requests_def queue_send_def)

lemma known_die: "mset (known_requests (queue_die q)) = mset (known_requests q)"
  by (simp add: known_requests_def queue_die_def comp_def)

lemma known_step:
  assumes "can_happen e q"
  shows "mset (known_requests (queue_step maxBytes e q)) = mset (known_requests q) + mset (issued e)"
proof (cases e)
  case (ev_init i)
  then show ?thesis using known_send [of i "q\<lparr>wq_bytesSeen := 0\<rparr>"] by (simp add: known_requests_def)
next
  case (ev_line n)
  then show ?thesis using known_die [of "q\<lparr>wq_bytesSeen := wq_bytesSeen q + n, wq_written := tl (wq_written q)\<rparr>"]
    by (auto simp: known_requests_def Let_def split: list.split)
next
  case (ev_timeout i)
  then have "i \<in> set (wq_pending q)" using assms by simp
  then show ?thesis using ev_timeout by (simp add: known_requests_def)
next
  case (ev_write_failed i)
  then show ?thesis by (simp add: known_requests_def)
next
  case ev_exit
  then show ?thesis using known_die [of q] by (simp add: known_requests_def)
qed (simp add: known_send)

lemma history_inv:
  assumes "queue_history maxBytes es q"
  shows "queue_inv q \<and> mset (known_requests q) = mset (concat (map issued es)) \<and> distinct (known_requests q)"
  using assms
proof (induction rule: queue_history.induct)
  case queue_start
  show ?case by (simp add: queue_inv_def new_queue_def known_requests_def)
next
  case (queue_next es q e)
  have known: "mset (known_requests (queue_step maxBytes e q)) = mset (known_requests q @ issued e)"
    using known_step [OF queue_next.hyps(2), of maxBytes] by simp
  have "distinct (known_requests q @ issued e)"
    using queue_next.IH queue_next.hyps(2) by (cases e) auto
  then have "distinct (known_requests (queue_step maxBytes e q))" using mset_eq_imp_distinct_iff [OF known] by blast
  then show ?case using queue_next.IH queue_inv_step [OF _ queue_next.hyps(2,3)] known by simp
qed

text \<open>C38: Every answer reaches the request it answers. After any history of requests, lines, write failures, deaths
  and output limits in which no request waits behind one that times out, every request that was made either
  waits or was settled, once: with the answer to itself or with a rejection. A line that arrives while
  requests wait settles the one that waits longest with its own answer; only a line past the output limit is
  dropped, and then every request that waits is rejected, as it is when the worker exits.\<close>

theorem answers_reach_their_request:
  assumes "queue_history maxBytes es q"
  shows "set (wq_pending q) \<union> fst ` set (wq_settled q) = set (concat (map issued es)) \<and>
    distinct (wq_pending q @ map fst (wq_settled q)) \<and>
    (\<forall>i s. (i, s) \<in> set (wq_settled q) \<longrightarrow> s = rejected \<or> s = answered i) \<and>
    (\<forall>n i ps. wq_pending q = i # ps \<longrightarrow>
      wq_pending (queue_step maxBytes (ev_line n) q) = (if wq_bytesSeen q + n \<le> maxBytes then ps else []) \<and>
      wq_settled (queue_step maxBytes (ev_line n) q) = wq_settled q @
        (if wq_bytesSeen q + n \<le> maxBytes then [(i, answered i)] else map (\<lambda>k. (k, rejected)) (i # ps))) \<and>
    wq_pending (queue_step maxBytes ev_exit q) = [] \<and>
    wq_settled (queue_step maxBytes ev_exit q) = wq_settled q @ map (\<lambda>k. (k, rejected)) (wq_pending q)"
proof (intro conjI allI impI)
  note inv = history_inv [OF assms]
  have "set (known_requests q) = set (concat (map issued es))" using inv by (metis set_mset_mset)
  then show "set (wq_pending q) \<union> fst ` set (wq_settled q) = set (concat (map issued es))" by (simp add: known_requests_def)
  show "distinct (wq_pending q @ map fst (wq_settled q))" using inv by (simp add: known_requests_def)
  show "s = rejected \<or> s = answered i" if "(i, s) \<in> set (wq_settled q)" for i s using inv that by (auto simp: queue_inv_def)
  fix n i ps assume p: "wq_pending q = i # ps"
  then have w: "wq_written q = i # ps" using inv by (auto simp: queue_inv_def)
  show "wq_pending (queue_step maxBytes (ev_line n) q) = (if wq_bytesSeen q + n \<le> maxBytes then ps else [])"
    using p by (simp add: Let_def queue_die_def)
  show "wq_settled (queue_step maxBytes (ev_line n) q) = wq_settled q @
        (if wq_bytesSeen q + n \<le> maxBytes then [(i, answered i)] else map (\<lambda>k. (k, rejected)) (i # ps))"
    using p w by (simp add: Let_def queue_die_def)
qed (simp_all add: queue_die_def)

theorem answers_reach_their_request_witness:
  "\<exists>q. queue_history 100 [ev_init 1, ev_send 2, ev_line 10] q \<and> wq_pending q = [2] \<and> wq_settled q = [(1, answered 1)] \<and>
    wq_settled (queue_step 100 (ev_line 20) q) = [(1, answered 1), (2, answered 2)] \<and>
    wq_settled (queue_step 100 (ev_line 200) q) = [(1, answered 1), (2, rejected)]"
proof -
  let ?q = "queue_step 100 (ev_line 10) (queue_step 100 (ev_send 2) (queue_step 100 (ev_init 1) new_queue))"
  have "queue_history 100 ((([] @ [ev_init 1]) @ [ev_send 2]) @ [ev_line 10]) ?q"
    by (intro queue_next queue_start) (simp_all add: queue_send_def new_queue_def known_requests_def)
  then have h: "queue_history 100 [ev_init 1, ev_send 2, ev_line 10] ?q" by simp
  have q: "wq_pending ?q = [2]" "wq_settled ?q = [(1, answered 1)]" "wq_bytesSeen ?q = 10"
    by (simp_all add: queue_send_def new_queue_def)
  then show ?thesis using answers_reach_their_request [OF h] h by (intro exI [of _ ?q]) (simp del: queue_step.simps)
qed

text \<open>With two requests in flight the slot a timeout frees hands the late answer to the next caller, which is what
  freeing it is said to prevent.\<close>

theorem late_answer_goes_to_the_next_caller:
  "wq_settled (fold (queue_step 100) [ev_send 1, ev_send 2, ev_timeout 1, ev_line 10] new_queue) = [(1, rejected), (2, answered 1)]"
  by (simp add: queue_send_def new_queue_def)

section \<open>A trip on a small simulator\<close>

definition sample_pool :: ObservedAccount where
  "sample_pool = \<lparr>oa_pubkey = ''pool'', oa_lamports = 5, oa_owner = ''amm'', oa_executable = False, oa_rentEpoch = 0, oa_dataLen = 1,
     oa_data = Some [7], oa_accountHash = ''h''\<rparr>"

definition sample_ata :: ObservedAccount where
  "sample_ata = \<lparr>oa_pubkey = ''ata'', oa_lamports = 5, oa_owner = ''taker'', oa_executable = False, oa_rentEpoch = 0, oa_dataLen = 72,
     oa_data = Some (replicate 64 0 @ [9, 0, 0, 0, 0, 0, 0, 0]), oa_accountHash = ''t''\<rparr>"

text \<open>A worker that always answers the same.\<close>

definition sample_sender :: "unit sender" where
  "sample_sender = (\<lambda>_ _. ((), Some \<lparr>rr_ok = Some True, rr_identity = Some ''sim'',
     rr_step = Some \<lparr>ss_status = ''SIMULATED_OK'', ss_pre = [sample_pool], ss_post = [sample_ata], ss_unobserved = []\<rparr>,
     rr_accounts = Some [sample_pool], rr_unobserved = None, rr_stateHash = None, rr_incompleteness = None, rr_instanceId = Some ''i''\<rparr>))"

definition sample_trade :: ReplayStep where
  "sample_trade = \<lparr>rp_signature = ''sig'', rp_slot = 5, rp_kind = side_SELL, rp_inputAmount = 3\<rparr>"

definition sample_request :: RoundTripRequest where
  "sample_request = \<lparr>rq_snapshot = \<lparr>fr_accounts = [], fr_rest = []\<rparr>, rq_takerAta = ''ata'', rq_buyTransaction = ''tx'',
     rq_priceBearing = [''pool''], rq_observe = [''pool'', ''ata''], rq_economic = None, rq_buildClose = None, rq_takerBaseAtaToClose = None,
     rq_buildSell = (\<lambda>_ _. Some \<lparr>bs_transaction = ''sell'', bs_selfImpact = None, bs_instructions = None, bs_observeExtra = None\<rparr>),
     rq_intervening = Some \<lparr>iv_steps = [sample_trade], iv_build = (\<lambda>_ _. Some ''trade''), iv_observe = None\<rparr>, rq_jobId = ''job''\<rparr>"

definition sample_worker :: "unit SequentialWorker" where
  "sample_worker = \<lparr>sw_process = (), sw_identity = None, sw_incompleteness = [], sw_instance = None\<rparr>"

lemma sample_trip_ok: "tr_ok (sequentialRoundTrip sample_sender sample_request sample_worker)"
  by (simp add: sequentialRoundTrip_def trip_def trip_quote_def trip_replay_def trip_sell_def trip_finish_def close_step_def base_ata_closed_def
    worker_init_def worker_step_def worker_observe_def send_def await_def ret_def lifted_def assertSameInstance_def sample_sender_def
    sample_request_def sample_worker_def sample_pool_def sample_ata_def tokenAmount_def unquoted_def economic_of_def
    assertQuoteStateSurvived_def quote_differing_def hash_by_key_def js_set_of_def js_add_def le_uint_Cons Let_def)

text \<open>With a trade in between: the whole conversation, the sell last.\<close>

theorem sell_is_priced_where_it_executes_witness:
  "\<exists>p' answer s a1 a2 a3 a4 a5. exchange sample_sender ()
      [(cmd_init \<lparr>fr_accounts = [], fr_rest = []\<rparr> ''job'', a1), (cmd_step label_buy ''tx'' [''pool'', ''ata''] (Some [''pool'']), a2),
       (cmd_observe [''pool''] (Some [''pool'']), a3), (cmd_step (label_replay 5 ''sig'') ''trade'' [''pool''] (Some [''pool'']), a4),
       (cmd_observe [''pool''] (Some [''pool'']), a5), (cmd_step label_sell ''sell'' [''pool'', ''ata''] (Some [''pool'']), answer)] p' \<and>
    rr_step answer = Some s \<and> tr_sell (sequentialRoundTrip sample_sender sample_request sample_worker) = Some s"
proof -
  have built: "built = \<lparr>bs_transaction = ''sell'', bs_selfImpact = None, bs_instructions = None, bs_observeExtra = None\<rparr>"
    if "rq_buildSell sample_request src a = Some built" for src a built
    using that by (simp add: sample_request_def)
  have talk: "\<exists>a4 a5. rlog = [(cmd_step (label_replay 5 ''sig'') ''trade'' [''pool''] (Some [''pool'']), a4), (cmd_observe [''pool''] (Some [''pool'']), a5)]"
    if "intervening_talk sample_request q0 rlog q" for q0 q :: ObserveResult and rlog :: conversation
    using that by (auto simp: intervening_talk_def sample_request_def sample_trade_def economic_of_def replay_talk_Nil replay_talk_Cons)
  obtain p' a1 a2 a3 rlog answer clog q s src a built q0 where *: "exchange sample_sender (sw_process sample_worker)
      ((cmd_init (rq_snapshot sample_request) (rq_jobId sample_request), a1) #
       (cmd_step label_buy (rq_buyTransaction sample_request) (rq_observe sample_request) (Some (economic_of sample_request)), a2) #
       (cmd_observe (rq_priceBearing sample_request) (Some (economic_of sample_request)), a3) # rlog @
       (cmd_step label_sell (bs_transaction built) (js_set_of (rq_observe sample_request @ nullish (bs_observeExtra built) []))
         (Some (economic_of sample_request)), answer) # clog) p'"
    "intervening_talk sample_request q0 rlog q" "rq_buildSell sample_request src a = Some built" "rr_step answer = Some s"
    "tr_sell (sequentialRoundTrip sample_sender sample_request sample_worker) = Some s"
    "close_talk sample_request a clog (tr_close (sequentialRoundTrip sample_sender sample_request sample_worker))"
    by (insert sell_is_priced_where_it_executes [OF refl sample_trip_ok], elim exE conjE, rule that; assumption)
  have w: "sw_process sample_worker = ()" by simp
  obtain a4 a5 where r: "rlog = [(cmd_step (label_replay 5 ''sig'') ''trade'' [''pool''] (Some [''pool'']), a4), (cmd_observe [''pool''] (Some [''pool'']), a5)]"
    using talk [OF *(2)] by blast
  have c: "clog = []" using *(6) by (simp add: close_talk_def sample_request_def)
  have "rq_snapshot sample_request = \<lparr>fr_accounts = [], fr_rest = []\<rparr>" "rq_jobId sample_request = ''job''" "rq_buyTransaction sample_request = ''tx''"
    "rq_observe sample_request = [''pool'', ''ata'']" "rq_priceBearing sample_request = [''pool'']" "economic_of sample_request = [''pool'']"
    "js_set_of (''pool'' # ''ata'' # nullish None []) = [''pool'', ''ata'']"
    by (simp_all add: sample_request_def economic_of_def js_set_of_def js_add_def)
  note vals = this
  from *(1) have "exchange sample_sender ()
      [(cmd_init \<lparr>fr_accounts = [], fr_rest = []\<rparr> ''job'', a1), (cmd_step label_buy ''tx'' [''pool'', ''ata''] (Some [''pool'']), a2),
       (cmd_observe [''pool''] (Some [''pool'']), a3), (cmd_step (label_replay 5 ''sig'') ''trade'' [''pool''] (Some [''pool'']), a4),
       (cmd_observe [''pool''] (Some [''pool'']), a5), (cmd_step label_sell ''sell'' [''pool'', ''ata''] (Some [''pool'']), answer)] p'"
    by (simp only: w r c built [OF *(3)] vals BuiltSell.simps append.simps)
  then show ?thesis using *(4,5) by (intro exI conjI)
qed

end
