(* ===== verification/LegSettlement.thy ===== *)
theory LegSettlement
  imports SequentialTrip Settlement MarkPath
begin

text \<open>
  From a simulated trip to a settlement: what a leg created
  (\<open>packages/solana/src/created-accounts.ts\<close>), a leg settled from what the worker observed before and
  after it (\<open>packages/pipeline/src/leg-settlement.ts\<close>), and the part of
  \<open>packages/pipeline/src/open-trajectory.ts\<close> that turns a sequential trip into the two legs of a
  trajectory and settles them. Incompleteness messages are kept, since a leg is complete when there is
  none.
\<close>

section \<open>What a transaction created\<close>

datatype EconomicScope = WALLET_GLOBAL | WALLET_QUOTE_MINT | WALLET_TOKEN_MINT | CREATOR_GLOBAL | CREATOR_QUOTE_MINT
  | POOL_GLOBAL | POOL_QUOTE_MINT | MINT_SPECIFIC | TRANSACTION_ONLY | UNKNOWN_SCOPE

datatype Recoverability = RECOVERABLE_BY_US | RECOVERABLE_BY_OTHER | NOT_RECOVERABLE | UNKNOWN_RECOVERABILITY

record ScopeContext =
  sx_taker :: string
  sx_takerBaseAta :: string
  sx_takerQuoteAta :: string
  sx_pool :: string
  sx_poolBaseVault :: string
  sx_poolQuoteVault :: string
  sx_baseMint :: string
  sx_quoteMint :: string
  sx_coinCreator :: "string option"
  sx_coinCreatorVaultAta :: "string option"
  sx_coinCreatorVaultAuthority :: "string option"
  sx_userVolumeAccumulator :: "string option"
  sx_globalVolumeAccumulator :: "string option"
  sx_accumulatorWsolAta :: "string option"
  sx_poolV2 :: "string option"
  sx_protocolFeeAccounts :: "string list option"

record CreatedAccount =
  ca_pubkey :: string
  ca_owner :: string
  ca_space :: nat
  ca_rent :: int
  ca_excess :: int
  ca_scope :: EconomicScope
  ca_recoverability :: Recoverability
  ca_shared :: bool

text \<open>\<open>rentExemptLamports\<close> of the simulator's own file.\<close>

definition runtime_rentExemptLamports :: "nat \<Rightarrow> int" where
  "runtime_rentExemptLamports dataLen = (128 + int dataLen) * 3480 * 2"

definition roleOf :: "string \<Rightarrow> ScopeContext \<Rightarrow> EconomicScope \<times> Recoverability \<times> bool" where
  "roleOf key ctx =
    (if key = sx_takerBaseAta ctx then (WALLET_TOKEN_MINT, RECOVERABLE_BY_US, False)
     else if key = sx_takerQuoteAta ctx then (WALLET_QUOTE_MINT, RECOVERABLE_BY_US, False)
     else if key = sx_taker ctx then (WALLET_GLOBAL, RECOVERABLE_BY_US, False)
     else if sx_coinCreatorVaultAta ctx = Some key then (CREATOR_QUOTE_MINT, RECOVERABLE_BY_OTHER, True)
     else if sx_coinCreatorVaultAuthority ctx = Some key then (CREATOR_GLOBAL, RECOVERABLE_BY_OTHER, True)
     else if sx_userVolumeAccumulator ctx = Some key then (WALLET_GLOBAL, NOT_RECOVERABLE, False)
     else if sx_globalVolumeAccumulator ctx = Some key then (MINT_SPECIFIC, NOT_RECOVERABLE, True)
     else if sx_accumulatorWsolAta ctx = Some key then (WALLET_QUOTE_MINT, NOT_RECOVERABLE, False)
     else if sx_poolV2 ctx = Some key then (MINT_SPECIFIC, NOT_RECOVERABLE, True)
     else if key = sx_poolBaseVault ctx \<or> key = sx_poolQuoteVault ctx then (POOL_QUOTE_MINT, NOT_RECOVERABLE, True)
     else if key = sx_pool ctx then (POOL_GLOBAL, NOT_RECOVERABLE, True)
     else if key \<in> set (nullish (sx_protocolFeeAccounts ctx) []) then (POOL_GLOBAL, NOT_RECOVERABLE, True)
     else (UNKNOWN_SCOPE, UNKNOWN_RECOVERABILITY, False))"

definition classifyCreatedAccount :: "ObservedAccount \<Rightarrow> ScopeContext \<Rightarrow> CreatedAccount" where
  "classifyCreatedAccount a ctx =
    (let rent = runtime_rentExemptLamports (oa_dataLen a);
         charged = (if oa_lamports a < rent then oa_lamports a else rent);
         excess = oa_lamports a - charged;
         (scope, recoverability, shared) = roleOf (oa_pubkey a) ctx
     in \<lparr>ca_pubkey = oa_pubkey a, ca_owner = oa_owner a, ca_space = oa_dataLen a, ca_rent = charged,
         ca_excess = (if excess < 0 then 0 else excess), ca_scope = scope, ca_recoverability = recoverability, ca_shared = shared\<rparr>)"

record SetupEconomics =
  se_accounts :: "CreatedAccount list"
  se_totalRent :: int
  se_recoverable :: int
  se_unrecoverable :: int
  se_subsidy :: int
  se_unknownScopeCount :: nat

definition unknown_account :: "CreatedAccount \<Rightarrow> bool" where
  "unknown_account a \<longleftrightarrow> ca_scope a = UNKNOWN_SCOPE \<or> ca_recoverability a = UNKNOWN_RECOVERABILITY"

definition summariseSetup :: "CreatedAccount list \<Rightarrow> SetupEconomics" where
  "summariseSetup as =
    (let total = sum_list (map ca_rent as);
         recoverable = sum_list (map ca_rent (filter (\<lambda>a. ca_recoverability a = RECOVERABLE_BY_US) as))
     in \<lparr>se_accounts = as, se_totalRent = total, se_recoverable = recoverable, se_unrecoverable = total - recoverable,
         se_subsidy = sum_list (map ca_rent (filter ca_shared as)),
         se_unknownScopeCount = length (filter unknown_account as)\<rparr>)"

definition sharedOrUnknown :: "CreatedAccount \<Rightarrow> bool" where
  "sharedOrUnknown a \<longleftrightarrow> ca_shared a \<or> unknown_account a"

definition requiresSharedAccountCreation :: "CreatedAccount list \<Rightarrow> bool" where
  "requiresSharedAccountCreation as \<longleftrightarrow> (\<exists>a \<in> set as. sharedOrUnknown a)"

text \<open>Accounts of the post state that the pre state did not have; the last of two entries of a key decides.\<close>

definition created_in :: "ScopeContext \<Rightarrow> SequentialStepResult \<Rightarrow> CreatedAccount list" where
  "created_in ctx s =
    (let preByKey = fold (\<lambda>a m. m(oa_pubkey a \<mapsto> a)) (ss_pre s) (\<lambda>_. None);
         existed = (\<lambda>post. case preByKey (oa_pubkey post) of None \<Rightarrow> False | Some prior \<Rightarrow> oa_lamports prior > 0 \<or> oa_dataLen prior > 0)
     in map (\<lambda>post. classifyCreatedAccount post ctx) (filter (\<lambda>post. \<not> (existed post \<or> oa_lamports post \<le> 0)) (ss_post s)))"

section \<open>A leg from what was observed\<close>

definition BASE_FEE_PER_SIGNATURE_LAMPORTS :: int where "BASE_FEE_PER_SIGNATURE_LAMPORTS = 5000"

definition account_of :: "ObservedAccount list \<Rightarrow> string \<Rightarrow> ObservedAccount option" where
  "account_of xs key = find (\<lambda>a. oa_pubkey a = key) xs"

definition leg_tokenAmount :: "ObservedAccount option \<Rightarrow> int option" where
  "leg_tokenAmount account =
    (case account of None \<Rightarrow> None
     | Some a \<Rightarrow> (case oa_data a of None \<Rightarrow> None
       | Some b \<Rightarrow> if length b \<ge> 72 then Some (int (le_uint (take 8 (drop 64 b)))) else None))"

definition lamportsOf :: "ObservedAccount list \<Rightarrow> string \<Rightarrow> int option" where
  "lamportsOf xs key = map_option oa_lamports (account_of xs key)"

record LegSettlementInput =
  li_observationId :: string
  li_simulationJobId :: string
  li_side :: side
  li_capabilityFingerprint :: string
  li_taker :: string
  li_takerBaseAta :: string
  li_mint :: string
  li_baseTokenProgram :: string
  li_poolQuoteVault :: string
  li_requested :: int
  li_minimumOut :: int
  li_pre :: "ObservedAccount list"
  li_post :: "ObservedAccount list"
  li_createdAccounts :: "CreatedAccount list"
  li_closedAccounts :: "string list"
  li_rentSourceAccounts :: "CreatedAccount list option"
  li_notSkimAccounts :: "string list option"
  li_runtimeOk :: bool
  li_incompleteness :: "string list"
  li_fullAccountCoverage :: bool
  li_snapshotManifestHash :: "string option"

definition rent_source :: "LegSettlementInput \<Rightarrow> CreatedAccount list" where
  "rent_source p = li_createdAccounts p @ nullish (li_rentSourceAccounts p) []"

definition source_of :: "LegSettlementInput \<Rightarrow> string \<Rightarrow> CreatedAccount option" where
  "source_of p key = find (\<lambda>a. ca_pubkey a = key) (rent_source p)"

definition rent_recovered :: "LegSettlementInput \<Rightarrow> int" where
  "rent_recovered p = sum_list (map (\<lambda>key. case source_of p key of None \<Rightarrow> 0 | Some c \<Rightarrow> ca_rent c) (li_closedAccounts p))"

definition gained :: "LegSettlementInput \<Rightarrow> ObservedAccount \<Rightarrow> int" where
  "gained p a = oa_lamports a - nullish (lamportsOf (li_pre p) (oa_pubkey a)) 0"

definition not_a_skim :: "LegSettlementInput \<Rightarrow> string set" where
  "not_a_skim p = {li_taker p, li_takerBaseAta p, li_poolQuoteVault p} \<union> set (nullish (li_notSkimAccounts p) [])"

definition skim_of :: "LegSettlementInput \<Rightarrow> ObservedAccount \<Rightarrow> int" where
  "skim_of p a =
    (if oa_pubkey a \<in> not_a_skim p \<or> gained p a \<le> 0 then 0
     else case source_of p (oa_pubkey a) of None \<Rightarrow> gained p a | Some c \<Rightarrow> ca_excess c)"

definition venue_fee :: "LegSettlementInput \<Rightarrow> int" where
  "venue_fee p = sum_list (map (skim_of p) (li_post p))"

definition observed_keys :: "LegSettlementInput \<Rightarrow> string list" where
  "observed_keys p = js_set_of (map oa_pubkey (li_pre p) @ map oa_pubkey (li_post p))"

definition key_delta :: "LegSettlementInput \<Rightarrow> string \<Rightarrow> int" where
  "key_delta p key = nullish (lamportsOf (li_post p) key) 0 - nullish (lamportsOf (li_pre p) key) 0"

definition total_delta :: "LegSettlementInput \<Rightarrow> int" where
  "total_delta p = sum_list (map (key_delta p) (observed_keys p))"

definition to_unnamed :: "LegSettlementInput \<Rightarrow> int" where
  "to_unnamed p = sum_list (map (\<lambda>a.
     if oa_pubkey a \<in> {li_taker p, li_takerBaseAta p, li_poolQuoteVault p} \<or> gained p a \<le> 0 then 0 else gained p a) (li_post p))"

definition leg_incompleteness :: "LegSettlementInput \<Rightarrow> string list" where
  "leg_incompleteness p =
     li_incompleteness p @
     (if lamportsOf (li_pre p) (li_taker p) = None \<or> lamportsOf (li_post p) (li_taker p) = None
      then [''the payer was not observed on both sides, so no cash figure is derivable''] else []) @
     (if leg_tokenAmount (account_of (li_pre p) (li_poolQuoteVault p)) = None \<or>
         leg_tokenAmount (account_of (li_post p) (li_poolQuoteVault p)) = None
      then [''the pool quote vault was not readable, so the trade leg is unmeasured''] else []) @
     (if \<not> li_runtimeOk p then [''the leg did not commit in the runtime''] else []) @
     (if \<not> li_fullAccountCoverage p then [''not every writable the leg touched was observed''] else [])"

definition both :: "int option \<Rightarrow> int option \<Rightarrow> int" where
  "both pre post = (case (pre, post) of (Some a, Some b) \<Rightarrow> b - a | _ \<Rightarrow> 0)"

definition payer_delta :: "LegSettlementInput \<Rightarrow> int" where
  "payer_delta p = both (lamportsOf (li_pre p) (li_taker p)) (lamportsOf (li_post p) (li_taker p))"

definition quote_vault_delta :: "LegSettlementInput \<Rightarrow> int" where
  "quote_vault_delta p = both (leg_tokenAmount (account_of (li_pre p) (li_poolQuoteVault p)))
     (leg_tokenAmount (account_of (li_post p) (li_poolQuoteVault p)))"

definition base_atoms :: "ObservedAccount list \<Rightarrow> LegSettlementInput \<Rightarrow> int" where
  "base_atoms xs p = nullish (leg_tokenAmount (account_of xs (li_takerBaseAta p))) 0"

definition legSettlementFromRuntime :: "LegSettlementInput \<Rightarrow> MeasuredLegSettlement" where
  "legSettlementFromRuntime p =
    (let isBuy = (li_side p = buy); basePre = base_atoms (li_pre p) p; basePost = base_atoms (li_post p) p;
         acquired = basePost - basePre; payerDelta = payer_delta p; inc = leg_incompleteness p
     in \<lparr>leg_observationId = li_observationId p, leg_simulationJobId = li_simulationJobId p, leg_side = li_side p,
         leg_family = ''BUILD_CUSTOM'', leg_capabilityFingerprint = li_capabilityFingerprint p,
         leg_input = (if isBuy
           then asset_native_sol (li_requested p) (quote_vault_delta p) (if payerDelta < 0 then - payerDelta else 0)
           else asset_token (li_mint p) (li_baseTokenProgram p) (li_takerBaseAta p) (li_requested p) (basePre - basePost)),
         leg_output = (if isBuy
           then credit_token (li_mint p) (li_baseTokenProgram p) (li_takerBaseAta p) (li_minimumOut p) None (if acquired > 0 then acquired else 0)
           else credit_native_sol (li_minimumOut p) None (- quote_vault_delta p)),
         costs = \<lparr>baseFeeLamports = BASE_FEE_PER_SIGNATURE_LAMPORTS, priorityFeeLamports = 0, tipLamports = 0,
           protocolFeeLamports = Some (venue_fee p), creatorFeeLamports = None, lpFeeLamports = None, platformFeeLamports = 0,
           transferFeeAtoms = Some 0, transferFeeLamportsEquivalent = Some 0,
           rentCreatedLamports = sum_list (map ca_rent (li_createdAccounts p)), rentRecoveredLamports = rent_recovered p,
           failedAttemptCostLamports = 0, unexplainedLamports = total_delta p + BASE_FEE_PER_SIGNATURE_LAMPORTS,
           valueToUnnamedAccountsLamports = to_unnamed p\<rparr>,
         createdAccounts = map ca_pubkey (li_createdAccounts p), closedAccounts = li_closedAccounts p,
         residualTokenAtoms = Some (if isBuy then acquired else basePost),
         payerNativeDeltaLamports = payerDelta, fullAccountCoverage = li_fullAccountCoverage p,
         effectValid = li_runtimeOk p,
         effectRefusals = (if li_runtimeOk p then [] else [''the leg did not commit in the runtime'']),
         snapshotManifestHash = li_snapshotManifestHash p, replayable = li_runtimeOk p,
         leg_complete = (inc = []), incompleteness = inc\<rparr>)"

text \<open>An entry of the worker's list counts when it contains the key of an account that existed before.\<close>

definition contains :: "string \<Rightarrow> string \<Rightarrow> bool" where
  "contains u k \<longleftrightarrow> (\<exists>i \<in> {0..length u}. take (length k) (drop i u) = k)"

definition coverageGap :: "string list \<Rightarrow> ObservedAccount list \<Rightarrow> string list" where
  "coverageGap unobserved pre =
    filter (\<lambda>u. \<exists>a \<in> set pre. oa_lamports a > 0 \<and> contains u (oa_pubkey a)) unobserved"

section \<open>What moved through the cashback accounts\<close>

record LegCashbackDeltas =
  lc_leg :: side
  lc_accumulatorWsol :: "int option"
  lc_accumulator :: "int option"
  lc_creatorVault :: "int option"
  lc_feeRecipient :: "int option"
  lc_accruedToUs :: "bool option"

text \<open>An account with no balance before counts by its excess when this leg created it, and is unknown otherwise.\<close>

definition cashback_delta :: "(string \<Rightarrow> int option) \<Rightarrow> (string \<Rightarrow> int option) \<Rightarrow> (string \<Rightarrow> int option) \<Rightarrow> string option \<Rightarrow> int option" where
  "cashback_delta before after createdExcess key =
    (case key of None \<Rightarrow> None
     | Some k \<Rightarrow> (case after k of None \<Rightarrow> None
       | Some a \<Rightarrow> (case before k of None \<Rightarrow> createdExcess k | Some b \<Rightarrow> Some (a - b))))"

definition legCashbackDeltas :: "side \<Rightarrow> (string \<Rightarrow> int option) \<Rightarrow> (string \<Rightarrow> int option) \<Rightarrow> (string \<Rightarrow> int option) \<Rightarrow>
    string option \<Rightarrow> string option \<Rightarrow> string option \<Rightarrow> string option \<Rightarrow> LegCashbackDeltas" where
  "legCashbackDeltas leg before after createdExcess accumulatorWsolAta userVolumeAccumulator coinCreatorVaultAta feeRecipient =
    (let delta = cashback_delta before after createdExcess; acc = delta accumulatorWsolAta; creator = delta coinCreatorVaultAta
     in \<lparr>lc_leg = leg, lc_accumulatorWsol = acc, lc_accumulator = delta userVolumeAccumulator, lc_creatorVault = creator,
         lc_feeRecipient = delta feeRecipient,
         lc_accruedToUs = (case (acc, creator) of (Some a, Some c) \<Rightarrow> Some (a > 0 \<and> c \<le> 0) | _ \<Rightarrow> None)\<rparr>)"

section \<open>The trip settled\<close>

text \<open>What \<open>openTrajectory\<close> knows when the trip returns: the roles of the accounts, the identifiers it minted (hashes), how an
  instruction list is frozen into a plan, and the plan the cashback check verified.\<close>

record MeasureContext =
  mx_scope :: ScopeContext
  mx_selectedTail :: "string list"
  mx_feeDestinations :: "string list"
  mx_feeRecipient :: "string option"
  mx_mint :: string
  mx_mintOwner :: string
  mx_notional :: int
  mx_trajectoryId :: string
  mx_entryObservationId :: string
  mx_jobId :: string
  mx_buyPlan :: string
  mx_freeze :: "string list \<Rightarrow> string"
  mx_verifiedSellPlan :: "string option"
  mx_exitObservation :: "string \<Rightarrow> string"

datatype open_refusal = OPEN_RUNTIME_UNAVAILABLE | OPEN_MECHANICS_FAILED | OPEN_NOT_SOLE_VENUE venue_refusal
  | open_threw worker_error | plan_changed | settlement_threw settlement_error

text \<open>\<open>observedTokenAtoms\<close>: an account nobody saw holds nothing, bytes nobody asked for throw.\<close>

definition observedTokenAtoms :: "ObservedAccount option \<Rightarrow> worker_error + int" where
  "observedTokenAtoms account =
    (case account of None \<Rightarrow> Inr 0
     | Some a \<Rightarrow> (case oa_data a of None \<Rightarrow> Inl (bytes_not_requested (oa_pubkey a))
       | Some b \<Rightarrow> Inr (if length b \<ge> 72 then int (le_uint (take 8 (drop 64 b))) else 0)))"

definition rise :: "int \<Rightarrow> int \<Rightarrow> int" where
  "rise before after = (if after > before then after - before else 0)"

definition atoms_rise :: "SequentialStepResult \<Rightarrow> string \<Rightarrow> worker_error + int" where
  "atoms_rise s key =
    ebind (observedTokenAtoms (account_of (ss_pre s) key)) (\<lambda>before.
    ebind (observedTokenAtoms (account_of (ss_post s) key)) (\<lambda>after. Inr (rise before after)))"

fun fee_flows :: "SequentialStepResult \<Rightarrow> string list \<Rightarrow> worker_error + int" where
  "fee_flows s [] = Inr 0"
| "fee_flows s (k # ks) = ebind (atoms_rise s k) (\<lambda>d. ebind (fee_flows s ks) (\<lambda>n. Inr (d + n)))"

definition entry_attribution :: "MeasureContext \<Rightarrow> SequentialStepResult \<Rightarrow> worker_error + venue_refusal option" where
  "entry_attribution mx s =
    ebind (observedTokenAtoms (account_of (ss_pre s) (sx_poolBaseVault (mx_scope mx)))) (\<lambda>baseBefore.
    ebind (observedTokenAtoms (account_of (ss_post s) (sx_poolBaseVault (mx_scope mx)))) (\<lambda>baseAfter.
    ebind (atoms_rise s (sx_poolQuoteVault (mx_scope mx))) (\<lambda>quoteIn.
    ebind (atoms_rise s (sx_takerBaseAta (mx_scope mx))) (\<lambda>takerCredit.
    ebind (fee_flows s (mx_feeDestinations mx)) (\<lambda>feeFlows.
      Inr (attributeSoleVenue (rise baseAfter baseBefore) quoteIn takerCredit (Some (mx_notional mx)) feeFlows 4))))))"

definition prefixed :: "string \<Rightarrow> string list \<Rightarrow> string list" where
  "prefixed what us = map (\<lambda>u. what @ u) us"

definition not_skim_accounts :: "MeasureContext \<Rightarrow> string list" where
  "not_skim_accounts mx = [sx_takerQuoteAta (mx_scope mx), sx_poolBaseVault (mx_scope mx)]"

definition entry_input :: "MeasureContext \<Rightarrow> SequentialStepResult \<Rightarrow> LegSettlementInput" where
  "entry_input mx s =
    (let gap = coverageGap (ss_unobserved s) (ss_pre s)
     in \<lparr>li_observationId = mx_entryObservationId mx, li_simulationJobId = mx_jobId mx, li_side = buy,
         li_capabilityFingerprint = mx_buyPlan mx, li_taker = sx_taker (mx_scope mx), li_takerBaseAta = sx_takerBaseAta (mx_scope mx),
         li_mint = mx_mint mx, li_baseTokenProgram = mx_mintOwner mx, li_poolQuoteVault = sx_poolQuoteVault (mx_scope mx),
         li_requested = mx_notional mx, li_minimumOut = 0, li_pre = ss_pre s, li_post = ss_post s,
         li_createdAccounts = created_in (mx_scope mx) s, li_closedAccounts = [], li_rentSourceAccounts = None,
         li_notSkimAccounts = Some (not_skim_accounts mx), li_runtimeOk = (ss_status s = ''SIMULATED_OK''),
         li_incompleteness = prefixed ''unobserved on buy: '' gap, li_fullAccountCoverage = (gap = []), li_snapshotManifestHash = None\<rparr>)"

definition sell_scope :: "MeasureContext \<Rightarrow> ScopeContext" where
  "sell_scope mx = (mx_scope mx)\<lparr>sx_protocolFeeAccounts := Some (mx_selectedTail mx)\<rparr>"

definition exit_input :: "MeasureContext \<Rightarrow> SequentialStepResult \<Rightarrow> SequentialStepResult \<Rightarrow> string option \<Rightarrow> int \<Rightarrow> bool \<Rightarrow> LegSettlementInput" where
  "exit_input mx bought sold exitObservation acquired wasClosed =
    (let gap = coverageGap (ss_unobserved sold) (ss_pre sold)
     in \<lparr>li_observationId = nullish exitObservation (mx_exitObservation mx (mx_buyPlan mx)), li_simulationJobId = mx_jobId mx, li_side = sell,
         li_capabilityFingerprint = mx_buyPlan mx, li_taker = sx_taker (mx_scope mx), li_takerBaseAta = sx_takerBaseAta (mx_scope mx),
         li_mint = mx_mint mx, li_baseTokenProgram = mx_mintOwner mx, li_poolQuoteVault = sx_poolQuoteVault (mx_scope mx),
         li_requested = acquired, li_minimumOut = 0, li_pre = ss_pre sold, li_post = ss_post sold,
         li_createdAccounts = created_in (sell_scope mx) sold,
         li_closedAccounts = (if wasClosed then [sx_takerBaseAta (mx_scope mx)] else []),
         li_rentSourceAccounts = Some (created_in (mx_scope mx) bought),
         li_notSkimAccounts = Some (not_skim_accounts mx), li_runtimeOk = (ss_status sold = ''SIMULATED_OK''),
         li_incompleteness = prefixed ''unobserved on sell: '' gap, li_fullAccountCoverage = (gap = []), li_snapshotManifestHash = None\<rparr>)"

definition buy_cashback :: "MeasureContext \<Rightarrow> SequentialStepResult \<Rightarrow> LegCashbackDeltas" where
  "buy_cashback mx s =
    legCashbackDeltas buy (lamportsOf (ss_pre s)) (lamportsOf (ss_post s))
      (\<lambda>key. map_option ca_excess (find (\<lambda>a. ca_pubkey a = key) (created_in (mx_scope mx) s)))
      (sx_accumulatorWsolAta (mx_scope mx)) (sx_userVolumeAccumulator (mx_scope mx)) (sx_coinCreatorVaultAta (mx_scope mx)) (mx_feeRecipient mx)"

definition sell_cashback :: "MeasureContext \<Rightarrow> SequentialStepResult \<Rightarrow> LegCashbackDeltas" where
  "sell_cashback mx s =
    legCashbackDeltas sell (lamportsOf (ss_pre s)) (lamportsOf (ss_post s)) (\<lambda>_. None)
      (sx_accumulatorWsolAta (mx_scope mx)) (sx_userVolumeAccumulator (mx_scope mx)) (sx_coinCreatorVaultAta (mx_scope mx)) (mx_feeRecipient mx)"

definition cashback_legs :: "MeasureContext \<Rightarrow> SequentialStepResult \<Rightarrow> SequentialStepResult option \<Rightarrow> LegCashbackDeltas list" where
  "cashback_legs mx bought sold = buy_cashback mx bought # (case sold of None \<Rightarrow> [] | Some s \<Rightarrow> [sell_cashback mx s])"

definition accrued_of :: "LegCashbackDeltas list \<Rightarrow> int" where
  "accrued_of ls = sum_list (map (\<lambda>l. case lc_accumulatorWsol l of None \<Rightarrow> 0 | Some d \<Rightarrow> if d > 0 then d else 0) ls)"

text \<open>The balance of the accumulator after the trip; without an accumulator it is unknown, and then zero.\<close>

definition claimable_of :: "MeasureContext \<Rightarrow> SequentialStepResult \<Rightarrow> SequentialStepResult option \<Rightarrow> worker_error + int" where
  "claimable_of mx bought sold =
    (case sx_accumulatorWsolAta (mx_scope mx) of None \<Rightarrow> Inr 0
     | Some ata \<Rightarrow> observedTokenAtoms (account_of (case sold of None \<Rightarrow> ss_post bought | Some s \<Rightarrow> ss_post s) ata))"

definition raw_durable :: "SequentialStepResult \<Rightarrow> SequentialStepResult option \<Rightarrow> bool" where
  "raw_durable bought sold \<longleftrightarrow> ss_pre bought \<noteq> [] \<and> ss_post bought \<noteq> [] \<and>
    (case sold of None \<Rightarrow> True | Some s \<Rightarrow> ss_pre s \<noteq> [] \<and> ss_post s \<noteq> [])"

record MeasuredTrajectory =
  mt_created :: "CreatedAccount list"
  mt_setup :: SetupEconomics
  mt_cashbackLegs :: "LegCashbackDeltas list"
  mt_input :: TrajectoryInput
  mt_settlement :: TrajectorySettlement
  mt_violations :: "identity_violation list"
  mt_requiresSharedSetup :: bool

definition settlement_input :: "MeasureContext \<Rightarrow> RoundTripResult \<Rightarrow> SequentialStepResult \<Rightarrow> int \<Rightarrow> int \<Rightarrow> TrajectoryInput" where
  "settlement_input mx rt bought acquired claimable =
    (let sold = tr_sell rt;
         exitPlan = map_option (mx_freeze mx) (tr_sellInstructions rt);
         exitIds = (if sold = None then None else map_option (mx_exitObservation mx) exitPlan);
         wasClosed = (tr_baseAtaClosedInSell rt = Some True);
         setup = summariseSetup (created_in (mx_scope mx) bought @ (case sold of None \<Rightarrow> [] | Some s \<Rightarrow> created_in (sell_scope mx) s));
         stillLocked = se_totalRent setup - (if wasClosed then se_recoverable setup else 0);
         durable = raw_durable bought sold
     in \<lparr>p_trajectoryId = mx_trajectoryId mx,
         p_entry = legSettlementFromRuntime (entry_input mx bought),
         p_exit = map_option (\<lambda>s. legSettlementFromRuntime (exit_input mx bought s exitIds acquired wasClosed)) sold,
         p_cashback = Some \<lparr>accruedLamports = accrued_of (cashback_legs mx bought sold), claimableLamports = claimable,
           claimedLamports = 0, claimCostLamports = 0\<rparr>,
         failedAttemptFeesLamports = None,
         rentStillLockedLamports = Some (if stillLocked < 0 then 0 else stillLocked),
         venueFeeDecompositionKnown = Some False,
         evidence_entry = Some \<lparr>rawStateDurable = durable, linksResolve = True, residualSemanticsKnown = True\<rparr>,
         evidence_exit = map_option (\<lambda>_. \<lparr>rawStateDurable = durable, linksResolve = (exitIds \<noteq> None), residualSemanticsKnown = True\<rparr>) sold\<rparr>)"

text \<open>\<open>assertPlanUnchanged\<close>: the sell that ran is the one whose tail was verified.\<close>

definition plan_unchanged :: "MeasureContext \<Rightarrow> RoundTripResult \<Rightarrow> bool" where
  "plan_unchanged mx rt =
    (case (map_option (mx_freeze mx) (tr_sellInstructions rt), mx_verifiedSellPlan mx) of
       (Some executed, Some frozen) \<Rightarrow> executed = frozen | _ \<Rightarrow> True)"

text \<open>The end of \<open>openTrajectory\<close>, from the returned rt on.\<close>

definition measure_trip :: "MeasureContext \<Rightarrow> RoundTripResult \<Rightarrow> open_refusal + MeasuredTrajectory" where
  "measure_trip mx rt =
    (if tr_failure rt = Some RUNTIME_UNAVAILABLE then Inl OPEN_RUNTIME_UNAVAILABLE
     else case (tr_buy rt, tr_acquiredAtoms rt) of
       (Some bought, Some acquired) \<Rightarrow>
         if ss_status bought \<noteq> ''SIMULATED_OK'' then Inl OPEN_MECHANICS_FAILED
         else (case entry_attribution mx bought of
           Inl e \<Rightarrow> Inl (open_threw e)
         | Inr (Some r) \<Rightarrow> Inl (OPEN_NOT_SOLE_VENUE r)
         | Inr None \<Rightarrow>
           if \<not> plan_unchanged mx rt then Inl plan_changed
           else
           (case claimable_of mx bought (tr_sell rt) of Inl e \<Rightarrow> Inl (open_threw e)
            | Inr claimable \<Rightarrow>
              (let input = settlement_input mx rt bought acquired claimable
               in case buildTrajectorySettlement input of Inl e \<Rightarrow> Inl (settlement_threw e)
                  | Inr s \<Rightarrow> Inr \<lparr>mt_created = created_in (mx_scope mx) bought,
                      mt_setup = summariseSetup (created_in (mx_scope mx) bought @
                        (case tr_sell rt of None \<Rightarrow> [] | Some x \<Rightarrow> created_in (sell_scope mx) x)),
                      mt_cashbackLegs = cashback_legs mx bought (tr_sell rt), mt_input = input, mt_settlement = s,
                      mt_violations = snd (checkIdentities s),
                      mt_requiresSharedSetup = requiresSharedAccountCreation (created_in (mx_scope mx) bought)\<rparr>)))
     | _ \<Rightarrow> Inl OPEN_MECHANICS_FAILED)"

section \<open>What a trip says of its legs\<close>

text \<open>Instructions are only reported by a finished trip, a finished trip without a close of its own succeeded, and an
  amount acquired is the balance the buy left.\<close>

definition acquired_by :: "RoundTripRequest \<Rightarrow> SequentialStepResult \<Rightarrow> int \<Rightarrow> bool" where
  "acquired_by req s a \<longleftrightarrow> 0 < a \<and> ss_status s = ''SIMULATED_OK'' \<and> leg_tokenAmount (account_of (ss_post s) (rq_takerAta req)) = Some a"

definition tells_its_legs :: "RoundTripRequest \<Rightarrow> RoundTripResult \<Rightarrow> bool" where
  "tells_its_legs req r \<longleftrightarrow>
     (tr_sellInstructions r \<noteq> None \<longrightarrow> past_the_sell r) \<and>
     (past_the_sell r \<longrightarrow> (rq_buildClose req = None \<longrightarrow> tr_failure r = None) \<and>
       (\<exists>s. tr_sell r = Some s \<and> tr_baseAtaClosedInSell r = base_ata_closed req s)) \<and>
     (\<forall>a. tr_acquiredAtoms r = Some a \<longrightarrow> (\<exists>b. tr_buy r = Some b \<and> acquired_by req b a))"

definition bought_state :: "RoundTripRequest \<Rightarrow> trip_state \<Rightarrow> bool" where
  "bought_state req t \<longleftrightarrow> acquired_by req (ts_buy t) (ts_acquired t)"

lemma tells_refused: "f \<noteq> CLOSE_FAILED \<Longrightarrow> bought_state req t \<Longrightarrow> tells_its_legs req (refused_after_buy f t)"
  by (simp add: tells_its_legs_def past_the_sell_def refused_after_buy_def trip_fail_def bought_state_def)

lemma tells_update [simp]:
  "tells_its_legs req (r\<lparr>tr_replayed := x\<rparr>) = tells_its_legs req r"
  "tells_its_legs req (r\<lparr>tr_selfImpact := i\<rparr>) = tells_its_legs req r"
  "tells_its_legs req (r\<lparr>tr_quoteStateSurvived := b\<rparr>) = tells_its_legs req r"
  "tells_its_legs req (r\<lparr>tr_incompleteness := n\<rparr>) = tells_its_legs req r"
  by (simp_all add: tells_its_legs_def past_the_sell_def)

lemma tells_sell: "f \<noteq> CLOSE_FAILED \<Longrightarrow> bought_state req t \<Longrightarrow> tells_its_legs req ((refused_after_buy f t)\<lparr>tr_sell := s\<rparr>)"
  by (simp add: tells_its_legs_def past_the_sell_def refused_after_buy_def trip_fail_def bought_state_def)

lemma tells_bought: "f \<noteq> CLOSE_FAILED \<Longrightarrow> tells_its_legs req ((trip_fail f)\<lparr>tr_buy := b, tr_identity := i\<rparr>)"
  by (simp add: tells_its_legs_def past_the_sell_def trip_fail_def)

lemma close_step_none: "rq_buildClose req = None \<Longrightarrow> yields (\<lambda>c. c = None) (close_step sender req a)"
  by (simp add: close_step_def yields_ret)

lemma tells_finish:
  assumes "bought_state req t"
  shows "yields (tells_its_legs req) (trip_finish sender req t priced replayed built sold)"
  unfolding trip_finish_def Let_def
proof (rule yields_await)
  show "yields (\<lambda>c. rq_buildClose req = None \<longrightarrow> c = None) (close_step sender req (ts_acquired t))"
    using close_step_none [of req sender "ts_acquired t"] by (auto simp: yields_def)
qed (use assms in \<open>auto intro!: yields_ret simp: tells_its_legs_def past_the_sell_def bought_state_def\<close>)

lemma tells_sold: "bought_state req t \<Longrightarrow> yields (tells_its_legs req) (trip_sell sender req t pricing priced replayed)"
  unfolding trip_sell_def
  by (auto intro!: yields_await_any yields_ret tells_finish simp: tells_refused tells_sell split: option.split)

lemma tells_replay:
  assumes "bought_state req t"
  shows "yields (tells_its_legs req) (trip_replay sender req t pricing)"
proof (cases "rq_intervening req")
  case (Some iv)
  have loop: "yields (\<lambda>out. \<forall>f rep. out = replay_refused f rep \<longrightarrow> f \<noteq> CLOSE_FAILED) (replay_loop sender req iv evs pricing priced replayed)"
    for evs pricing priced replayed
    by (induction evs arbitrary: pricing priced replayed) (simp_all add: yields_ret yields_await_any Let_def split: option.split)
  show ?thesis unfolding trip_replay_def Some option.case
    by (rule yields_await [OF loop])
      (use assms in \<open>auto intro!: yields_ret tells_sold simp: tells_refused split: replay_outcome.split\<close>)
qed (simp add: trip_replay_def tells_sold [OF assms])

lemma tokenAmount_leg: "tokenAmount (find (\<lambda>a. oa_pubkey a = k) xs) = Inr (Some a) \<Longrightarrow> leg_tokenAmount (account_of xs k) = Some a"
  by (auto simp: tokenAmount_def leg_tokenAmount_def account_of_def split: option.splits if_splits)

lemma tells_trip: "yields (tells_its_legs req) (trip sender req)"
proof -
  have quote: "yields (tells_its_legs req) (trip_quote sender req identity inc entered a)" if "acquired_by req entered a" for identity inc entered a
    unfolding trip_quote_def Let_def using that
    by (auto intro!: yields_await_any yields_ret tells_replay simp: tells_refused bought_state_def)
  show ?thesis unfolding trip_def Let_def
  proof (rule yields_await_any, rule yields_await_any, rule yields_await_any)
    fix identity :: string and inc :: "trip_note list" and entered :: SequentialStepResult
    let ?bought = "\<lambda>f. (trip_fail f)\<lparr>tr_buy := Some entered, tr_identity := Some identity, tr_incompleteness := inc\<rparr>"
    have "yields (tells_its_legs req) (await (lifted (tokenAmount (find (\<lambda>a. oa_pubkey a = rq_takerAta req) (ss_post entered))))
        (\<lambda>acquired. case acquired of None \<Rightarrow> ret (?bought NO_MEASURED_CREDIT)
         | Some a \<Rightarrow> if a \<le> 0 then ret (?bought NO_MEASURED_CREDIT)
             else trip_quote sender req identity inc entered a))" if "ss_status entered = ''SIMULATED_OK''"
      by (rule yields_await [OF yields_lifted])
        (use that in \<open>auto intro!: yields_ret quote simp: tells_bought acquired_by_def dest!: tokenAmount_leg split: option.split\<close>)
    then show "yields (tells_its_legs req) (if ss_status entered \<noteq> ''SIMULATED_OK''
        then ret (?bought BUY_FAILED)
        else await (lifted (tokenAmount (find (\<lambda>a. oa_pubkey a = rq_takerAta req) (ss_post entered))))
          (\<lambda>acquired. case acquired of None \<Rightarrow> ret (?bought NO_MEASURED_CREDIT)
           | Some a \<Rightarrow> if a \<le> 0 then ret (?bought NO_MEASURED_CREDIT)
               else trip_quote sender req identity inc entered a))"
      by (simp add: yields_ret tells_bought)
  qed
qed

lemma trip_tells: "tells_its_legs req (sequentialRoundTrip sender req w)"
  using tells_trip by (rule trip_yields) (simp add: tells_its_legs_def past_the_sell_def trip_fail_def)

section \<open>What a published result rests on\<close>

lemma measure_tripD:
  assumes "measure_trip mx r = Inr m"
  obtains bought a claimable where "tr_buy r = Some bought" and "tr_acquiredAtoms r = Some a" and "ss_status bought = ''SIMULATED_OK''"
    and "entry_attribution mx bought = Inr None" and "plan_unchanged mx r"
    and "mt_input m = settlement_input mx r bought a claimable" and "buildTrajectorySettlement (mt_input m) = Inr (mt_settlement m)"
  using assms by (auto simp: measure_trip_def Let_def split: if_splits option.splits sum.splits)

lemma leg_fields:
  "leg_side (legSettlementFromRuntime p) = li_side p"
  "payerNativeDeltaLamports (legSettlementFromRuntime p) = payer_delta p"
  "fullAccountCoverage (legSettlementFromRuntime p) = li_fullAccountCoverage p"
  "effectValid (legSettlementFromRuntime p) = li_runtimeOk p"
  "leg_complete (legSettlementFromRuntime p) = (leg_incompleteness p = [])"
  "unexplainedLamports (costs (legSettlementFromRuntime p)) = total_delta p + BASE_FEE_PER_SIGNATURE_LAMPORTS"
  "transferFeeOrUnknown (legSettlementFromRuntime p) = Some 0"
  by (simp_all add: legSettlementFromRuntime_def Let_def transferFeeOrUnknown_def)

text \<open>A leg is eligible exactly when its payer and the pool's quote vault were read on both sides, it committed, nothing
  that existed went unobserved, and the observed lamports fell by the base fee.\<close>

lemma leg_eligible_iff: "fst (isPnlEligible (legSettlementFromRuntime p)) \<longleftrightarrow>
    li_incompleteness p = [] \<and> li_runtimeOk p \<and> li_fullAccountCoverage p \<and> total_delta p = - BASE_FEE_PER_SIGNATURE_LAMPORTS \<and>
    lamportsOf (li_pre p) (li_taker p) \<noteq> None \<and> lamportsOf (li_post p) (li_taker p) \<noteq> None \<and>
    leg_tokenAmount (account_of (li_pre p) (li_poolQuoteVault p)) \<noteq> None \<and>
    leg_tokenAmount (account_of (li_post p) (li_poolQuoteVault p)) \<noteq> None"
  by (auto simp: eligible_iff leg_fields leg_incompleteness_def)

lemma entry_input_simps [simp]:
  "li_pre (entry_input mx s) = ss_pre s" "li_post (entry_input mx s) = ss_post s" "li_taker (entry_input mx s) = sx_taker (mx_scope mx)"
  "li_side (entry_input mx s) = buy" "li_runtimeOk (entry_input mx s) = (ss_status s = ''SIMULATED_OK'')"
  "li_fullAccountCoverage (entry_input mx s) = (coverageGap (ss_unobserved s) (ss_pre s) = [])"
  "li_takerBaseAta (entry_input mx s) = sx_takerBaseAta (mx_scope mx)"
  "li_poolQuoteVault (entry_input mx s) = sx_poolQuoteVault (mx_scope mx)"
  by (simp_all add: entry_input_def Let_def)

lemma exit_input_simps [simp]:
  "li_pre (exit_input mx b s obs a c) = ss_pre s" "li_post (exit_input mx b s obs a c) = ss_post s"
  "li_taker (exit_input mx b s obs a c) = sx_taker (mx_scope mx)" "li_side (exit_input mx b s obs a c) = sell"
  "li_runtimeOk (exit_input mx b s obs a c) = (ss_status s = ''SIMULATED_OK'')"
  "li_fullAccountCoverage (exit_input mx b s obs a c) = (coverageGap (ss_unobserved s) (ss_pre s) = [])"
  "li_takerBaseAta (exit_input mx b s obs a c) = sx_takerBaseAta (mx_scope mx)"
  "li_poolQuoteVault (exit_input mx b s obs a c) = sx_poolQuoteVault (mx_scope mx)"
  by (simp_all add: exit_input_def Let_def)

text \<open>The payer's balance moved over a step by this much.\<close>

definition wallet_moved :: "string \<Rightarrow> SequentialStepResult \<Rightarrow> int \<Rightarrow> bool" where
  "wallet_moved taker s d \<longleftrightarrow> (\<exists>x y. lamportsOf (ss_pre s) taker = Some x \<and> lamportsOf (ss_post s) taker = Some y \<and> d = y - x)"

lemma payer_delta_moved: "lamportsOf (li_pre p) (li_taker p) \<noteq> None \<Longrightarrow> lamportsOf (li_post p) (li_taker p) \<noteq> None \<Longrightarrow>
    ss_pre s = li_pre p \<Longrightarrow> ss_post s = li_post p \<Longrightarrow> wallet_moved (li_taker p) s (payer_delta p)"
  by (auto simp: wallet_moved_def payer_delta_def both_def)

text \<open>The two legs of a step balance: what all observed accounts together lost is the base fee.\<close>

definition lamports_conserved :: "SequentialStepResult \<Rightarrow> bool" where
  "lamports_conserved s \<longleftrightarrow>
    (\<Sum>k \<in> oa_pubkey ` (set (ss_pre s) \<union> set (ss_post s)). nullish (lamportsOf (ss_post s) k) 0 - nullish (lamportsOf (ss_pre s) k) 0) =
      - BASE_FEE_PER_SIGNATURE_LAMPORTS"

lemma total_delta_sum: "total_delta p = (\<Sum>k \<in> oa_pubkey ` (set (li_pre p) \<union> set (li_post p)). key_delta p k)"
proof -
  have "total_delta p = (\<Sum>k \<in> set (observed_keys p). key_delta p k)"
    unfolding total_delta_def observed_keys_def by (rule sum_list_distinct_conv_sum_set [OF distinct_js_set_of])
  then show ?thesis by (simp add: observed_keys_def set_js_set_of image_Un)
qed

lemma conserved_iff: "ss_pre s = li_pre p \<Longrightarrow> ss_post s = li_post p \<Longrightarrow>
    lamports_conserved s \<longleftrightarrow> total_delta p = - BASE_FEE_PER_SIGNATURE_LAMPORTS"
  by (simp add: lamports_conserved_def total_delta_sum key_delta_def)

lemma durable_iff: "d = DURABLE_EVIDENCE \<longleftrightarrow> rawStateDurable d \<and> linksResolve d \<and> residualSemanticsKnown d"
  by (cases d) (simp add: DURABLE_EVIDENCE_def)

lemma eligible_step:
  assumes "fst (isPnlEligible (legSettlementFromRuntime p))" and "ss_pre s = li_pre p" and "ss_post s = li_post p"
  shows "wallet_moved (li_taker p) s (payer_delta p) \<and> lamports_conserved s \<and> li_fullAccountCoverage p"
proof -
  note ok = assms(1) [unfolded leg_eligible_iff]
  then have "wallet_moved (li_taker p) s (payer_delta p)" by (intro payer_delta_moved assms) blast+
  then show ?thesis using ok conserved_iff [OF assms(2,3)] by blast
qed

text \<open>C5: From the simulator to the published number. When the settlement of a trip publishes a net result, one
  conversation with the simulator stands behind it: the requested buy was executed on the requested snapshot, left
  the amount the trip sold, and the sell that was executed is the transaction the builder made for this amount
  from the bytes of the last observation, which it met unchanged. The number is what the wallet gained over these
  two steps, as their answers say; on each of them nothing that existed went unobserved, the observed lamports
  together lost the base fee and no more, and the token account the sell leaves behind, where it was observed with a
  balance, holds nothing. Without a close of its own, as the caller asks for it, the trip was a success. The
  answers of the simulator are arbitrary.\<close>

theorem published_result_was_executed:
  assumes "r = sequentialRoundTrip sender req w"
    and "measure_trip mx r = Inr m" and "netPnlLamports (mt_settlement m) = Some net"
  shows "\<exists>p' ai ab aq rlog answer clog bought sold a q src built d1 d2.
    exchange sender (sw_process w)
      ((cmd_init (rq_snapshot req) (rq_jobId req), ai) #
       (cmd_step label_buy (rq_buyTransaction req) (rq_observe req) (Some (economic_of req)), ab) #
       (cmd_observe (rq_priceBearing req) (Some (economic_of req)), aq) # rlog @
       (cmd_step label_sell (bs_transaction built) (js_set_of (rq_observe req @ nullish (bs_observeExtra built) [])) (Some (economic_of req)), answer) # clog) p' \<and>
    rr_step ab = Some bought \<and> tr_buy r = Some bought \<and> rr_step answer = Some sold \<and> tr_sell r = Some sold \<and>
    acquired_by req bought a \<and> ss_status sold = ''SIMULATED_OK'' \<and> intervening_talk req (observed_in aq) rlog q \<and>
    tr_quoted r = Some q \<and> rq_buildSell req src a = Some built \<and> backs req src q \<and> same_state q sold \<and>
    wallet_moved (sx_taker (mx_scope mx)) bought d1 \<and> wallet_moved (sx_taker (mx_scope mx)) sold d2 \<and> net = d1 + d2 \<and>
    lamports_conserved bought \<and> lamports_conserved sold \<and>
    coverageGap (ss_unobserved bought) (ss_pre bought) = [] \<and> coverageGap (ss_unobserved sold) (ss_pre sold) = [] \<and>
    leg_tokenAmount (account_of (ss_post sold) (sx_takerBaseAta (mx_scope mx))) \<in> {None, Some 0} \<and>
    (rq_buildClose req = None \<longrightarrow> tr_ok r)"
proof -
  obtain bought a claimable where m: "tr_buy r = Some bought" "tr_acquiredAtoms r = Some a"
    "mt_input m = settlement_input mx r bought a claimable" "buildTrajectorySettlement (mt_input m) = Inr (mt_settlement m)"
    using measure_tripD [OF assms(2)] by metis
  obtain e where e: "p_exit (mt_input m) = Some e" and reasons: "pnl_reasons (mt_input m) (ts_residualTokenAtoms (mt_settlement m)) = []"
    and n: "net = payerNativeDeltaLamports (p_entry (mt_input m)) + payerNativeDeltaLamports e +
      cashbackClaimedLamports (mt_settlement m) - cashbackClaimCostLamports (mt_settlement m)"
    using published_cases [OF m(4) assms(3)] by metis
  obtain sold where sold: "tr_sell r = Some sold" using e m(3) by (auto simp: settlement_input_def Let_def)
  define obs where "obs = map_option (mx_exitObservation mx) (map_option (mx_freeze mx) (tr_sellInstructions r))"
  define c where "c \<longleftrightarrow> tr_baseAtaClosedInSell r = Some True"
  let ?x = "exit_input mx bought sold obs a c" and ?b = "entry_input mx bought"
  have legs: "p_entry (mt_input m) = legSettlementFromRuntime ?b" "e = legSettlementFromRuntime ?x"
    using e m(3) sold by (auto simp: settlement_input_def Let_def obs_def c_def)
  have links: "map_option linksResolve (evidence_exit (mt_input m)) = Some (tr_sellInstructions r \<noteq> None)"
    using m(3) sold by (simp add: settlement_input_def Let_def)
  have ok: "fst (isPnlEligible (legSettlementFromRuntime ?b))" "fst (isPnlEligible (legSettlementFromRuntime ?x))"
    and dur: "evidence_exit (mt_input m) = Some DURABLE_EVIDENCE" and res: "ts_residualTokenAtoms (mt_settlement m) = 0"
    using reasons e legs by (auto simp: pnl_reasons_Nil leg_reasons_Nil)
  have "tr_sellInstructions r \<noteq> None" using links dur by (simp add: durable_iff [symmetric] DURABLE_EVIDENCE_def)
  then have past: "past_the_sell r" and fin: "rq_buildClose req = None \<longrightarrow> tr_ok r" and acq: "acquired_by req bought a"
    using trip_tells [of req sender w] trip_is_good [of req sender w] assms(1) m(1,2) by (auto simp: tells_its_legs_def good_result_def)
  obtain p' ai ab aq rlog answer clog b' q s' src a' built where t: "exchange sender (sw_process w)
      ((cmd_init (rq_snapshot req) (rq_jobId req), ai) #
       (cmd_step label_buy (rq_buyTransaction req) (rq_observe req) (Some (economic_of req)), ab) #
       (cmd_observe (rq_priceBearing req) (Some (economic_of req)), aq) # rlog @
       (cmd_step label_sell (bs_transaction built) (js_set_of (rq_observe req @ nullish (bs_observeExtra built) [])) (Some (economic_of req)), answer) # clog) p'"
    "rr_step ab = Some b'" "tr_buy r = Some b'" "rr_step answer = Some s'" "tr_sell r = Some s'" "tr_acquiredAtoms r = Some a'"
    "intervening_talk req (observed_in aq) rlog q" "tr_quoted r = Some q" "rq_buildSell req src a' = Some built" "backs req src q"
    "same_state q s'" "ss_status s' = ''SIMULATED_OK''"
    by (rule trip_was_saidE [OF assms(1) past]) (rule that)
  have same: "b' = bought" "s' = sold" "a' = a" using t(3,5,6) m(1,2) sold by simp_all
  have step: "wallet_moved (sx_taker (mx_scope mx)) bought (payer_delta ?b)" "lamports_conserved bought"
      "coverageGap (ss_unobserved bought) (ss_pre bought) = []"
    and sell_step: "wallet_moved (sx_taker (mx_scope mx)) sold (payer_delta ?x)" "lamports_conserved sold"
      "coverageGap (ss_unobserved sold) (ss_pre sold) = []"
    using eligible_step [OF ok(1), of bought] eligible_step [OF ok(2), of sold] by simp_all
  have net: "net = payer_delta ?b + payer_delta ?x"
    using n legs build_cashback [OF m(4)] m(3) by (simp add: leg_fields settlement_input_def Let_def)
  have "nullish (leg_tokenAmount (account_of (ss_post sold) (sx_takerBaseAta (mx_scope mx)))) 0 = 0"
    using res build_eq_InrD(4) [OF m(4)] e legs by (simp add: residual_of_def legSettlementFromRuntime_def Let_def base_atoms_def)
  then have residual: "leg_tokenAmount (account_of (ss_post sold) (sx_takerBaseAta (mx_scope mx))) \<in> {None, Some 0}"
    by (cases "leg_tokenAmount (account_of (ss_post sold) (sx_takerBaseAta (mx_scope mx)))") simp_all
  note t = t [unfolded same]
  show ?thesis
    by (rule exI [of _ p'], rule exI [of _ ai], rule exI [of _ ab], rule exI [of _ aq], rule exI [of _ rlog], rule exI [of _ answer], rule exI [of _ clog], rule exI [of _ bought], rule exI [of _ sold], rule exI [of _ a], rule exI [of _ q], rule exI [of _ src], rule exI [of _ built], rule exI [of _ "payer_delta ?b"], rule exI [of _ "payer_delta ?x"],
      intro conjI t(1-2) m(1) t(4,5) acq t(12) t(7-11) step(1) sell_step(1) net step(2) sell_step(2) step(3) sell_step(3) residual fin)
qed

section \<open>A measured trip\<close>

text \<open>A worker that buys one lot for 20 lamports and sells it for 19, opens the token account on the buy and closes it on
  the sell. The fee account, when there is one, is opened by the buy and paid on both legs.\<close>

definition plain_account :: "string \<Rightarrow> int \<Rightarrow> string \<Rightarrow> ObservedAccount" where
  "plain_account key lamports h = \<lparr>oa_pubkey = key, oa_lamports = lamports, oa_owner = ''system'', oa_executable = False, oa_rentEpoch = 0,
     oa_dataLen = 0, oa_data = Some [], oa_accountHash = h\<rparr>"

definition token_account :: "string \<Rightarrow> int \<Rightarrow> 8 word \<Rightarrow> string \<Rightarrow> ObservedAccount" where
  "token_account key lamports amount h = \<lparr>oa_pubkey = key, oa_lamports = lamports, oa_owner = ''token'', oa_executable = False,
     oa_rentEpoch = 0, oa_dataLen = 165, oa_data = Some (replicate 64 0 @ [amount, 0, 0, 0, 0, 0, 0, 0]), oa_accountHash = h\<rparr>"

definition market_step :: "ObservedAccount list \<Rightarrow> ObservedAccount list \<Rightarrow> SequentialStepResult" where
  "market_step pre post = \<lparr>ss_status = ''SIMULATED_OK'', ss_pre = pre, ss_post = post, ss_unobserved = []\<rparr>"

definition market_buy :: "int \<Rightarrow> SequentialStepResult" where
  "market_buy fee = market_step
     [plain_account ''taker'' 5000000 ''t0'', token_account ''qv'' 2039380 100 ''q0'', token_account ''bv'' 2039280 90 ''b0'']
     ([plain_account ''taker'' (if fee = 0 then 2955700 else 916420 - fee) ''t1'', token_account ''ata'' 2039280 40 ''a1'',
       token_account ''qv'' 2039400 120 ''q1'', token_account ''bv'' 2039280 50 ''b1''] @
      (if fee = 0 then [] else [token_account ''fee'' (2039280 + fee) 0 ''f1'']))"

definition market_sell :: "int \<Rightarrow> int \<Rightarrow> SequentialStepResult" where
  "market_sell fee fee' = market_step
     ([plain_account ''taker'' (if fee = 0 then 2955700 else 916420 - fee) ''t1'', token_account ''ata'' 2039280 40 ''a1'',
       token_account ''qv'' 2039400 120 ''q1'', token_account ''bv'' 2039280 50 ''b1''] @
      (if fee = 0 then [] else [token_account ''fee'' (2039280 + fee) 0 ''f1'']))
     ([plain_account ''taker'' ((if fee = 0 then 4989999 else 2950719 - fee) - fee') ''t2'',
       token_account ''qv'' 2039381 101 ''q2'', token_account ''bv'' 2039280 90 ''b2''] @
      (if fee = 0 then [] else [token_account ''fee'' (2039280 + fee + fee') 0 ''f2'']))"

definition empty_response :: RawResponse where
  "empty_response = \<lparr>rr_ok = Some True, rr_identity = None, rr_step = None, rr_accounts = None, rr_unobserved = None, rr_stateHash = None,
     rr_incompleteness = None, rr_instanceId = Some ''i''\<rparr>"

definition market :: "int \<Rightarrow> int \<Rightarrow> unit sender" where
  "market fee fee' _ cmd = ((), Some (case cmd of
     cmd_init _ _ \<Rightarrow> empty_response\<lparr>rr_identity := Some ''sim''\<rparr>
   | cmd_observe _ _ \<Rightarrow> empty_response\<lparr>rr_accounts := Some [token_account ''qv'' 2039400 120 ''q1'', token_account ''bv'' 2039280 50 ''b1'']\<rparr>
   | cmd_step label_buy _ _ _ \<Rightarrow> empty_response\<lparr>rr_step := Some (market_buy fee)\<rparr>
   | cmd_step _ _ _ _ \<Rightarrow> empty_response\<lparr>rr_step := Some (market_sell fee fee')\<rparr>))"

definition market_request :: RoundTripRequest where
  "market_request = \<lparr>rq_snapshot = \<lparr>fr_accounts = [], fr_rest = []\<rparr>, rq_takerAta = ''ata'', rq_buyTransaction = ''tx'',
     rq_priceBearing = [''qv'', ''bv''], rq_observe = [''taker'', ''ata'', ''qv'', ''bv''], rq_economic = None, rq_buildClose = None,
     rq_takerBaseAtaToClose = Some ''ata'',
     rq_buildSell = (\<lambda>_ _. Some \<lparr>bs_transaction = ''sell'', bs_selfImpact = None, bs_instructions = Some [''ix''], bs_observeExtra = None\<rparr>),
     rq_intervening = None, rq_jobId = ''job''\<rparr>"

definition market_scope :: ScopeContext where
  "market_scope = \<lparr>sx_taker = ''taker'', sx_takerBaseAta = ''ata'', sx_takerQuoteAta = ''wsol'', sx_pool = ''pool'', sx_poolBaseVault = ''bv'',
     sx_poolQuoteVault = ''qv'', sx_baseMint = ''mint'', sx_quoteMint = ''sol'', sx_coinCreator = None, sx_coinCreatorVaultAta = Some ''fee'',
     sx_coinCreatorVaultAuthority = None, sx_userVolumeAccumulator = None, sx_globalVolumeAccumulator = None,
     sx_accumulatorWsolAta = None, sx_poolV2 = None, sx_protocolFeeAccounts = None\<rparr>"

definition market_context :: MeasureContext where
  "market_context = \<lparr>mx_scope = market_scope, mx_selectedTail = [], mx_feeDestinations = [], mx_feeRecipient = None, mx_mint = ''mint'',
     mx_mintOwner = ''token'', mx_notional = 20, mx_trajectoryId = ''t'', mx_entryObservationId = ''o'', mx_jobId = ''job'', mx_buyPlan = ''plan'',
     mx_freeze = concat, mx_verifiedSellPlan = None, mx_exitObservation = (\<lambda>x. x)\<rparr>"

lemmas trip_eval = sequentialRoundTrip_def trip_def trip_quote_def trip_replay_def trip_sell_def trip_finish_def close_step_def
  worker_init_def worker_step_def worker_observe_def send_def await_def ret_def lifted_def assertSameInstance_def tokenAmount_def
  unquoted_def economic_of_def assertQuoteStateSurvived_def quote_differing_def hash_by_key_def js_set_of_def js_add_def le_uint_Cons Let_def

lemmas market_defs = market_def market_request_def market_buy_def market_sell_def market_step_def empty_response_def token_account_def
  plain_account_def


text \<open>What the two legs say the wallet should have lost: the trade, the fees and the rent.\<close>

definition named_by_legs :: "LegSettlementInput \<Rightarrow> LegSettlementInput \<Rightarrow> int" where
  "named_by_legs p x = - quote_vault_delta x - quote_vault_delta p - 2 * BASE_FEE_PER_SIGNATURE_LAMPORTS - venue_fee p - venue_fee x -
     (sum_list (map ca_rent (li_createdAccounts p)) + sum_list (map ca_rent (li_createdAccounts x)) - rent_recovered p - rent_recovered x)"

lemma unexplained_legs: "li_side p = buy \<Longrightarrow> li_side x = sell \<Longrightarrow>
    unexplained_of (legSettlementFromRuntime p) (Some (legSettlementFromRuntime x)) = payer_delta p + payer_delta x - named_by_legs p x"
  by (simp add: unexplained_of_def namedPayerDelta_def namedFees_def namedRent_def native_credit_def native_debit_def exit_cost_def
    legSettlementFromRuntime_def Let_def named_by_legs_def)

text \<open>Two eligible legs with durable evidence: the result is published exactly when the sell left nothing and the wallet
  moved by what the legs name.\<close>

lemma settled_legs:
  assumes "li_side p = buy" and "li_side x = sell" and "p_entry input = legSettlementFromRuntime p" and "p_exit input = Some (legSettlementFromRuntime x)"
    and "evidence_entry input = Some DURABLE_EVIDENCE" and "evidence_exit input = Some DURABLE_EVIDENCE"
    and "claimedLamports (nullish (p_cashback input) NO_CASHBACK) = 0" and "claimCostLamports (nullish (p_cashback input) NO_CASHBACK) = 0"
    and "fst (isPnlEligible (legSettlementFromRuntime p))" and "fst (isPnlEligible (legSettlementFromRuntime x))"
  shows "\<exists>s. buildTrajectorySettlement input = Inr s \<and>
    pnlBlockedReasons s = (let residual = base_atoms (li_post x) x; open_lamports = payer_delta p + payer_delta x - named_by_legs p x
      in (if residual \<noteq> 0 then [token_atoms_remain residual] else []) @ (if open_lamports \<noteq> 0 then [payer_identity_open open_lamports] else [])) \<and>
    netPnlLamports s = (if pnlBlockedReasons s = [] then Some (payer_delta p + payer_delta x) else None)"
proof -
  have "leg_reasons nm (legSettlementFromRuntime y) (Some DURABLE_EVIDENCE) = []" if "fst (isPnlEligible (legSettlementFromRuntime y))" for nm y
    using that by (simp add: leg_reasons_Nil)
  moreover have "residual_of (legSettlementFromRuntime p) (Some (legSettlementFromRuntime x)) = Inr (base_atoms (li_post x) x)"
    using assms(2) by (simp add: residual_of_def legSettlementFromRuntime_def Let_def)
  ultimately show ?thesis
    using assms by (simp add: buildTrajectorySettlement_def entryCashOut_def exit_cash_def exitCashIn_def pnl_reasons_def leg_fields
      exit_fee_def unexplained_legs Let_def)
qed

lemma market_trip:
  "tr_failure (sequentialRoundTrip (market fee fee') market_request sample_worker) = None"
  "tr_buy (sequentialRoundTrip (market fee fee') market_request sample_worker) = Some (market_buy fee)"
  "tr_sell (sequentialRoundTrip (market fee fee') market_request sample_worker) = Some (market_sell fee fee')"
  "tr_acquiredAtoms (sequentialRoundTrip (market fee fee') market_request sample_worker) = Some 40"
  "tr_sellInstructions (sequentialRoundTrip (market fee fee') market_request sample_worker) = Some [''ix'']"
  "tr_baseAtaClosedInSell (sequentialRoundTrip (market fee fee') market_request sample_worker) = Some True"
  by (simp_all add: trip_eval market_defs sample_worker_def base_ata_closed_def)

lemmas measure_eval = measure_trip_def entry_attribution_def atoms_rise_def observedTokenAtoms_def account_of_def rise_def
  attributeSoleVenue_def plan_unchanged_def claimable_of_def market_context_def market_scope_def ebind_def le_uint_Cons

lemma market_input:
  assumes "input = settlement_input market_context (sequentialRoundTrip (market fee fee') market_request sample_worker) (market_buy fee) 40 0"
  shows "p_entry input = legSettlementFromRuntime (entry_input market_context (market_buy fee))"
    and "p_exit input = Some (legSettlementFromRuntime (exit_input market_context (market_buy fee) (market_sell fee fee') (Some ''ix'') 40 True))"
    and "evidence_entry input = Some DURABLE_EVIDENCE" and "evidence_exit input = Some DURABLE_EVIDENCE"
    and "claimedLamports (nullish (p_cashback input) NO_CASHBACK) = 0" and "claimCostLamports (nullish (p_cashback input) NO_CASHBACK) = 0"
  using market_trip [of fee fee'] unfolding assms
  by (simp_all add: settlement_input_def Let_def raw_durable_def market_buy_def market_sell_def market_step_def market_context_def DURABLE_EVIDENCE_def)

lemma market_opens:
  "measure_trip market_context (sequentialRoundTrip (market fee fee') market_request sample_worker) = Inr m \<longleftrightarrow>
    (let input = settlement_input market_context (sequentialRoundTrip (market fee fee') market_request sample_worker) (market_buy fee) 40 0
     in \<exists>s. buildTrajectorySettlement input = Inr s \<and> m = \<lparr>mt_created = created_in market_scope (market_buy fee),
       mt_setup = summariseSetup (created_in market_scope (market_buy fee) @ created_in (sell_scope market_context) (market_sell fee fee')),
       mt_cashbackLegs = cashback_legs market_context (market_buy fee) (Some (market_sell fee fee')), mt_input = input, mt_settlement = s,
       mt_violations = snd (checkIdentities s), mt_requiresSharedSetup = requiresSharedAccountCreation (created_in market_scope (market_buy fee))\<rparr>)"
proof -
  have "entry_attribution market_context (market_buy fee) = Inr None" "ss_status (market_buy fee) = ''SIMULATED_OK''"
    "claimable_of market_context (market_buy fee) (Some (market_sell fee fee')) = Inr 0"
    by (simp_all add: measure_eval market_defs)
  then show ?thesis using market_trip [of fee fee']
    by (auto simp: measure_trip_def plan_unchanged_def market_context_def Let_def split: sum.split)
qed


lemma market_values:
  "map (\<lambda>p. (total_delta p, payer_delta p, quote_vault_delta p, venue_fee p)) [entry_input market_context (market_buy 0),
     exit_input market_context (market_buy 0) (market_sell 0 0) (Some ''ix'') 40 True, entry_input market_context (market_buy 7),
     exit_input market_context (market_buy 7) (market_sell 7 3) (Some ''ix'') 40 True] =
   [(- 5000, - 2044300, 20, 0), (- 5000, 2034299, - 19, 0), (- 5000, - 4083587, 20, 7), (- 5000, 2034296, - 19, 7)]"
  by code_simp

lemma market_rent:
  "map (\<lambda>p. (sum_list (map ca_rent (li_createdAccounts p)), rent_recovered p, base_atoms (li_post p) p)) [entry_input market_context (market_buy 0),
     exit_input market_context (market_buy 0) (market_sell 0 0) (Some ''ix'') 40 True, entry_input market_context (market_buy 7),
     exit_input market_context (market_buy 7) (market_sell 7 3) (Some ''ix'') 40 True] =
   [(2039280, 0, 40), (0, 2039280, 0), (4078560, 0, 40), (0, 2039280, 0)]"
  by code_simp

lemma market_complete:
  "list_all (\<lambda>p. li_fullAccountCoverage p \<and> leg_incompleteness p = []) [entry_input market_context (market_buy 0),
     exit_input market_context (market_buy 0) (market_sell 0 0) (Some ''ix'') 40 True, entry_input market_context (market_buy 7),
     exit_input market_context (market_buy 7) (market_sell 7 3) (Some ''ix'') 40 True]"
  by code_simp

lemma market_eligible:
  "fst (isPnlEligible (legSettlementFromRuntime (entry_input market_context (market_buy 0))))"
  "fst (isPnlEligible (legSettlementFromRuntime (exit_input market_context (market_buy 0) (market_sell 0 0) (Some ''ix'') 40 True)))"
  "fst (isPnlEligible (legSettlementFromRuntime (entry_input market_context (market_buy 7))))"
  "fst (isPnlEligible (legSettlementFromRuntime (exit_input market_context (market_buy 7) (market_sell 7 3) (Some ''ix'') 40 True)))"
  using market_complete market_values
  by (simp_all add: eligible_iff leg_fields BASE_FEE_PER_SIGNATURE_LAMPORTS_def) (simp_all add: market_buy_def market_sell_def market_step_def)

lemma market_measured:
  "\<exists>m. measure_trip market_context (sequentialRoundTrip (market 0 0) market_request sample_worker) = Inr m \<and>
    netPnlLamports (mt_settlement m) = Some (- 10001)"
proof -
  note s = settled_legs [OF _ _ market_input [OF refl, of 0 0] market_eligible(1,2)]
  show ?thesis using s market_values market_rent
    by (auto simp: market_opens Let_def named_by_legs_def BASE_FEE_PER_SIGNATURE_LAMPORTS_def)
qed

theorem published_result_was_executed_witness:
  "\<exists>log tail p' answer bought sold d1 d2. exchange (market 0 0) (sw_process sample_worker)
      (log @ (cmd_step label_sell ''sell'' [''taker'', ''ata'', ''qv'', ''bv''] (Some [''qv'', ''bv'']), answer) # tail) p' \<and>
    rr_step answer = Some sold \<and> tr_buy (sequentialRoundTrip (market 0 0) market_request sample_worker) = Some bought \<and>
    wallet_moved ''taker'' bought d1 \<and> wallet_moved ''taker'' sold d2 \<and> d1 + d2 = - 10001"
proof -
  obtain m where m: "measure_trip market_context (sequentialRoundTrip (market 0 0) market_request sample_worker) = Inr m"
    "netPnlLamports (mt_settlement m) = Some (- 10001)" using market_measured by blast
  have tk: "sx_taker (mx_scope market_context) = ''taker''" by (simp add: market_context_def market_scope_def)
  have say: "cmd_step label_sell (bs_transaction built) (js_set_of (rq_observe market_request @ nullish (bs_observeExtra built) []))
      (Some (economic_of market_request)) = cmd_step label_sell ''sell'' [''taker'', ''ata'', ''qv'', ''bv''] (Some [''qv'', ''bv''])"
    if "rq_buildSell market_request src a = Some built" for src a built
    using that by (auto simp: market_request_def economic_of_def js_set_of_def js_add_def)
  obtain p' ai ab aq rlog answer clog bought sold a q src built d1 d2 where t: "exchange (market 0 0) (sw_process sample_worker)
      ((cmd_init (rq_snapshot market_request) (rq_jobId market_request), ai) #
       (cmd_step label_buy (rq_buyTransaction market_request) (rq_observe market_request) (Some (economic_of market_request)), ab) #
       (cmd_observe (rq_priceBearing market_request) (Some (economic_of market_request)), aq) # rlog @
       (cmd_step label_sell (bs_transaction built) (js_set_of (rq_observe market_request @ nullish (bs_observeExtra built) []))
         (Some (economic_of market_request)), answer) # clog) p'"
    "rr_step answer = Some sold" "tr_buy (sequentialRoundTrip (market 0 0) market_request sample_worker) = Some bought"
    "rq_buildSell market_request src a = Some built"
    "wallet_moved (sx_taker (mx_scope market_context)) bought d1" "wallet_moved (sx_taker (mx_scope market_context)) sold d2" "- 10001 = d1 + d2"
    by (insert published_result_was_executed [OF refl m], elim exE conjE, rule that; assumption)
  let ?log = "(cmd_init (rq_snapshot market_request) (rq_jobId market_request), ai) #
       (cmd_step label_buy (rq_buyTransaction market_request) (rq_observe market_request) (Some (economic_of market_request)), ab) #
       (cmd_observe (rq_priceBearing market_request) (Some (economic_of market_request)), aq) # rlog"
  have "exchange (market 0 0) (sw_process sample_worker)
      (?log @ (cmd_step label_sell ''sell'' [''taker'', ''ata'', ''qv'', ''bv''] (Some [''qv'', ''bv'']), answer) # clog) p'"
    using t(1) by (simp only: say [OF t(4)] append_Cons)
  then show ?thesis using t(2,3) t(5,6) [unfolded tk] t(7) [symmetric] by (intro exI conjI)
qed

section \<open>Where the settlement is not the trip\<close>

text \<open>A fee account the buy had to open is paid again by the sell. The rent source of the sell contains the accounts of the buy,
  and an account found there counts with what it received when it was opened: the sell's fee of 3 is booked as the
  buy's 7, the two legs are eligible and conserve every lamport, and the result is refused for 4 lamports nobody
  can name.\<close>

theorem second_fee_is_booked_as_the_first:
  "\<exists>m. measure_trip market_context (sequentialRoundTrip (market 7 3) market_request sample_worker) = Inr m \<and>
    lamports_conserved (market_buy 7) \<and> lamports_conserved (market_sell 7 3) \<and>
    protocolFeeLamports (costs (the (p_exit (mt_input m)))) = Some 7 \<and>
    pnlBlockedReasons (mt_settlement m) = [payer_identity_open 4] \<and> netPnlLamports (mt_settlement m) = None"
proof -
  note legs = market_input [OF refl, of 7 3]
  note s = settled_legs [OF _ _ legs market_eligible(3,4)]
  have fee: "protocolFeeLamports (costs (legSettlementFromRuntime x)) = Some (venue_fee x)" for x
    by (simp add: legSettlementFromRuntime_def Let_def)
  have "lamports_conserved (market_buy 7)" "lamports_conserved (market_sell 7 3)"
    using market_values conserved_iff [of "market_buy 7" "entry_input market_context (market_buy 7)"]
      conserved_iff [of "market_sell 7 3" "exit_input market_context (market_buy 7) (market_sell 7 3) (Some ''ix'') 40 True"]
    by (simp_all add: BASE_FEE_PER_SIGNATURE_LAMPORTS_def)
  then show ?thesis using s market_values market_rent legs
    by (auto simp: market_opens Let_def named_by_legs_def BASE_FEE_PER_SIGNATURE_LAMPORTS_def fee)
qed

text \<open>An account whose bytes were not asked for holds nothing, as far as the leg is concerned: the sell's residue is zero and
  the leg is as complete as if the account had been read, although an absence is said never to become a zero.\<close>

theorem unread_base_account_is_empty:
  assumes "li_side p = sell" and "account_of (li_post p) (li_takerBaseAta p) = Some a" and "oa_data a = None"
  shows "residualTokenAtoms (legSettlementFromRuntime p) = Some 0 \<and>
    leg_incompleteness p = leg_incompleteness (p\<lparr>li_takerBaseAta := other\<rparr>)"
  using assms by (simp add: legSettlementFromRuntime_def leg_incompleteness_def base_atoms_def leg_tokenAmount_def Let_def)

theorem unread_base_account_is_empty_witness:
  "residualTokenAtoms (legSettlementFromRuntime ((exit_input market_context (market_buy 0) (market_sell 0 0) None 40 False)
     \<lparr>li_post := [(token_account ''ata'' 2039280 40 ''a'')\<lparr>oa_data := None\<rparr>]\<rparr>)) = Some 0"
  using unread_base_account_is_empty [of "(exit_input market_context (market_buy 0) (market_sell 0 0) None 40 False)
     \<lparr>li_post := [(token_account ''ata'' 2039280 40 ''a'')\<lparr>oa_data := None\<rparr>]\<rparr>"
     "(token_account ''ata'' 2039280 40 ''a'')\<lparr>oa_data := None\<rparr>"]
  by (simp add: account_of_def token_account_def market_context_def market_scope_def)

text \<open>The receivable of an accumulator nobody observed is said to be unknown rather than zero; it is zero.\<close>

theorem unobserved_receivable_is_zero:
  "ata \<notin> oa_pubkey ` set (ss_post s) \<Longrightarrow> sx_accumulatorWsolAta (mx_scope mx) = Some ata \<Longrightarrow> claimable_of mx bought (Some s) = Inr 0"
proof -
  assume "ata \<notin> oa_pubkey ` set (ss_post s)" and ata: "sx_accumulatorWsolAta (mx_scope mx) = Some ata"
  then have "account_of (ss_post s) ata = None" by (auto simp: account_of_def find_None_iff)
  then show "claimable_of mx bought (Some s) = Inr 0" by (simp add: claimable_of_def observedTokenAtoms_def ata)
qed

theorem unobserved_receivable_is_zero_witness:
  "claimable_of (market_context\<lparr>mx_scope := market_scope\<lparr>sx_accumulatorWsolAta := Some ''acc''\<rparr>\<rparr>) (market_buy 0) (Some (market_sell 0 0)) = Inr 0"
  using unobserved_receivable_is_zero [of "''acc''" "market_sell 0 0"] by (simp add: market_defs)

section \<open>What the residue of a leg is\<close>

text \<open>C15: The residue is exactly what accounts nobody observed gained, up to the difference between the fee that was charged
  and the one that is assumed. In a ledger that loses only the transaction fee, a leg that observed every account that
  moved has a residue of zero if and only if the fee was the base fee; value that left through an unobserved account
  cannot hide, whatever the itemised costs say.\<close>

theorem residue_is_unobserved_value:
  assumes "finite K" and "set (observed_keys p) \<subseteq> K" and "(\<Sum>k \<in> K. after k - before k) = - fee"
    and "\<forall>k \<in> set (observed_keys p). key_delta p k = after k - before k"
  shows "unexplainedLamports (costs (legSettlementFromRuntime p)) =
    (BASE_FEE_PER_SIGNATURE_LAMPORTS - fee) - (\<Sum>k \<in> K - set (observed_keys p). after k - before k)"
proof -
  have "total_delta p = (\<Sum>k \<in> set (observed_keys p). after k - before k)"
    using assms(4) unfolding total_delta_def observed_keys_def
    by (simp add: sum_list_distinct_conv_sum_set [OF distinct_js_set_of])
  moreover have "(\<Sum>k \<in> K. after k - before k) = (\<Sum>k \<in> K - set (observed_keys p). after k - before k) + (\<Sum>k \<in> set (observed_keys p). after k - before k)"
    by (rule sum.subset_diff [OF assms(2,1)])
  ultimately show ?thesis using assms(3) by (simp add: leg_fields)
qed

theorem residue_is_unobserved_value_witness:
  "unexplainedLamports (costs (legSettlementFromRuntime ((entry_input market_context (market_buy 0))
     \<lparr>li_pre := [plain_account ''taker'' 9000 ''t''], li_post := [plain_account ''taker'' 3000 ''u'']\<rparr>))) = - 1000"
proof -
  define p where "p = (entry_input market_context (market_buy 0))
     \<lparr>li_pre := [plain_account ''taker'' 9000 ''t''], li_post := [plain_account ''taker'' 3000 ''u'']\<rparr>"
  define after where "after = (\<lambda>k :: string. if k = ''taker'' then 3000 else 1000 :: int)"
  define before where "before = (\<lambda>k :: string. if k = ''taker'' then 9000 else 0 :: int)"
  have keys: "observed_keys p = [''taker'']" "key_delta p ''taker'' = - 6000"
    by (simp_all add: p_def observed_keys_def key_delta_def lamportsOf_def account_of_def plain_account_def js_set_of_def js_add_def)
  have "{''taker'', ''thief''} - {''taker''} = {''thief''}" by auto
  then show ?thesis
    using residue_is_unobserved_value [of "{''taker'', ''thief''}" p after before 5000] keys
    unfolding p_def [symmetric] by (simp add: after_def before_def BASE_FEE_PER_SIGNATURE_LAMPORTS_def)
qed

end
