(* ===== verification/TrajectoryKernel.thy ===== *)
theory TrajectoryKernel
  imports LegSettlement
begin

text \<open>
  The trajectory kernel, \<open>packages/pipeline/src/trajectory-kernel.ts\<close>: a stateless object whose four methods
  open a trajectory on a measured entry, accept or refuse a mark, select the observation that fills an
  exit, and settle. Reasons are constructors; identifiers that only travel are kept.
\<close>

section \<open>The identity\<close>

record TrajectoryIdentity =
  td_trajectoryId :: string
  td_entryObservationId :: string
  td_entrySimulationJobId :: string
  td_entrySettlementId :: string
  td_venue :: string
  td_pool :: string
  td_capabilityFingerprint :: string
  td_snapshotHash :: string
  td_mint :: string
  td_cohort :: string
  td_migrationAgeMs :: "int option"
  td_notionalLamports :: int
  td_entryPolicyInputs :: "(string \<times> string) list"
  td_stratum :: string

datatype identity_field = id_trajectory | id_entryObservation | id_entrySimulationJob | id_snapshotHash | id_pool | id_mint

text \<open>\<open>None\<close> is a pass, \<open>Some\<close> the field \<open>IdentitySubstituted\<close> names.\<close>

definition assertSameIdentity :: "TrajectoryIdentity \<Rightarrow> TrajectoryIdentity \<Rightarrow> identity_field option" where
  "assertSameIdentity a b =
    (if td_trajectoryId a \<noteq> td_trajectoryId b then Some id_trajectory
     else if td_entryObservationId a \<noteq> td_entryObservationId b then Some id_entryObservation
     else if td_entrySimulationJobId a \<noteq> td_entrySimulationJobId b then Some id_entrySimulationJob
     else if td_snapshotHash a \<noteq> td_snapshotHash b then Some id_snapshotHash
     else if td_pool a \<noteq> td_pool b then Some id_pool
     else if td_mint a \<noteq> td_mint b then Some id_mint
     else None)"

section \<open>The methods\<close>

datatype TrajectoryState = TS_OPEN | TS_AWAITING_FILL_OBSERVATION | TS_EXIT_BLOCKED | TS_SETTLED | TS_ABANDONED

datatype mark_source = DIRECT_POOL | ROUTER

record TrajectoryMark =
  tm_observationId :: string
  tm_atMs :: int
  tm_executableLamports :: int
  tm_source :: mark_source
  tm_routeAvailable :: bool
  tm_refusalReason :: "string option"

datatype kernel_refusal = acquired_no_tokens | moves_the_pool "rat option" rat

record TrajectoryOpenResult =
  to_identity :: TrajectoryIdentity
  to_state :: TrajectoryState
  to_impact :: EntryImpactBound
  to_maximumAttainableGrade :: EvidenceGrade
  to_refusals :: "kernel_refusal list"

definition kernel_open :: "TrajectoryIdentity \<Rightarrow> MeasuredLegSettlement \<Rightarrow> int \<Rightarrow> int \<Rightarrow> TrajectoryOpenResult" where
  "kernel_open identity entry effectiveQuoteLamports baseAtoms =
    (let acquired = (case leg_output entry of credit_token _ _ _ _ _ a \<Rightarrow> a | credit_native_sol _ _ _ \<Rightarrow> 0);
         spent = (case leg_input entry of asset_native_sol _ d _ \<Rightarrow> d | asset_token _ _ _ _ _ \<Rightarrow> 0);
         impact = boundEntryImpact spent effectiveQuoteLamports acquired baseAtoms SMALL_IMPACT_BOUND;
         refusals = (if acquired = 0 then [acquired_no_tokens] else []) @
           (if \<not> withinSmallImpactBound impact then [moves_the_pool (maxImpactRatio impact) (boundUsed impact)] else [])
     in \<lparr>to_identity = identity, to_state = (if refusals \<noteq> [] \<and> acquired = 0 then TS_ABANDONED else TS_OPEN), to_impact = impact,
         to_maximumAttainableGrade = (if withinSmallImpactBound impact then BOUNDED_COUNTERFACTUAL else SIMULATED_EXECUTION),
         to_refusals = refusals\<rparr>)"

datatype mark_verdict = mark_accepted | mark_refused "string option" | mark_worthless | mark_reuses_entry

definition observeMark :: "TrajectoryIdentity \<Rightarrow> TrajectoryMark \<Rightarrow> mark_verdict" where
  "observeMark identity mark =
    (if \<not> tm_routeAvailable mark \<or> tm_refusalReason mark \<noteq> None then mark_refused (tm_refusalReason mark)
     else if tm_executableLamports mark \<le> 0 then mark_worthless
     else if tm_observationId mark = td_entryObservationId identity then mark_reuses_entry
     else mark_accepted)"

record SettledCandidate =
  sd_observationId :: string
  sd_atMs :: int
  sd_settlement :: MeasuredLegSettlement
  sd_executable :: bool

record TrajectoryAdvanceResult =
  ta_state :: TrajectoryState
  ta_selectedObservationId :: "string option"
  ta_exit :: "MeasuredLegSettlement option"

definition fill_eligible :: "int \<Rightarrow> int \<Rightarrow> SettledCandidate \<Rightarrow> bool" where
  "fill_eligible triggeredAtMs minimumFillLatencyMs c \<longleftrightarrow> sd_atMs c \<ge> triggeredAtMs + minimumFillLatencyMs \<and> sd_executable c"

text \<open>\<open>Array.sort\<close> is stable.\<close>

definition kernel_advance :: "SettledCandidate list \<Rightarrow> int \<Rightarrow> int \<Rightarrow> TrajectoryAdvanceResult" where
  "kernel_advance candidates triggeredAtMs minimumFillLatencyMs =
    (case sort_key sd_atMs (filter (fill_eligible triggeredAtMs minimumFillLatencyMs) candidates) of
       [] \<Rightarrow> \<lparr>ta_state = TS_AWAITING_FILL_OBSERVATION, ta_selectedObservationId = None, ta_exit = None\<rparr>
     | c # _ \<Rightarrow> \<lparr>ta_state = TS_SETTLED, ta_selectedObservationId = Some (sd_observationId c), ta_exit = Some (sd_settlement c)\<rparr>)"

record SettleTrajectoryInput =
  sti_identity :: TrajectoryIdentity
  sti_entry :: MeasuredLegSettlement
  sti_exit :: "MeasuredLegSettlement option"
  sti_impact :: EntryImpactBound
  sti_evidenceGrade :: EvidenceGrade
  sti_cashback :: "CashbackFacts option"
  sti_failedAttemptFees :: "int option"
  sti_venueFeeDecompositionKnown :: "bool option"

record SettledTrajectory =
  str_identity :: TrajectoryIdentity
  str_settlement :: TrajectorySettlement
  str_evidenceGrade :: EvidenceGrade
  str_impact :: EntryImpactBound
  str_haircutExitCashIn :: "int option"
  str_identityViolations :: "identity_violation list"

definition kernel_input :: "SettleTrajectoryInput \<Rightarrow> TrajectoryInput" where
  "kernel_input i = \<lparr>p_trajectoryId = td_trajectoryId (sti_identity i), p_entry = sti_entry i, p_exit = sti_exit i,
     p_cashback = Some (nullish (sti_cashback i) NO_CASHBACK), failedAttemptFeesLamports = sti_failedAttemptFees i,
     rentStillLockedLamports = None, venueFeeDecompositionKnown = sti_venueFeeDecompositionKnown i,
     evidence_entry = None, evidence_exit = None\<rparr>"

definition kernel_settle :: "SettleTrajectoryInput \<Rightarrow> settlement_error + SettledTrajectory" where
  "kernel_settle i =
    ebind (buildTrajectorySettlement (kernel_input i)) (\<lambda>s.
      Inr \<lparr>str_identity = sti_identity i, str_settlement = s, str_evidenceGrade = sti_evidenceGrade i, str_impact = sti_impact i,
        str_haircutExitCashIn = (case exitCashInLamports s of
            Some cash \<Rightarrow> if sti_evidenceGrade i = BOUNDED_COUNTERFACTUAL then Some (haircutExitValue cash (ib_haircutBps (sti_impact i))) else None
          | None \<Rightarrow> None),
        str_identityViolations = snd (checkIdentities s)\<rparr>)"

section \<open>Which observation fills\<close>

lemma advance_cases:
  obtains (waits) "\<forall>c \<in> set cs. \<not> fill_eligible trig lat c" and
      "kernel_advance cs trig lat = \<lparr>ta_state = TS_AWAITING_FILL_OBSERVATION, ta_selectedObservationId = None, ta_exit = None\<rparr>"
  | (fills) c where "c \<in> set cs" and "fill_eligible trig lat c" and "\<forall>d \<in> set cs. fill_eligible trig lat d \<longrightarrow> sd_atMs c \<le> sd_atMs d" and
      "kernel_advance cs trig lat = \<lparr>ta_state = TS_SETTLED, ta_selectedObservationId = Some (sd_observationId c), ta_exit = Some (sd_settlement c)\<rparr>"
proof (cases "sort_key sd_atMs (filter (fill_eligible trig lat) cs)")
  case Nil
  then have "set (filter (fill_eligible trig lat) cs) = {}" by (metis set_sort set_empty)
  then show thesis using Nil by (intro waits) (auto simp: kernel_advance_def filter_empty_conv)
next
  case (Cons c rest)
  have mem: "set (c # rest) = set (filter (fill_eligible trig lat) cs)" using Cons by (metis set_sort)
  have "sorted (map sd_atMs (c # rest))" using sorted_sort_key [of sd_atMs "filter (fill_eligible trig lat) cs"] Cons by simp
  then have "\<forall>d \<in> set (c # rest). sd_atMs c \<le> sd_atMs d" by auto
  then show thesis using Cons mem by (intro fills [of c]) (auto simp: kernel_advance_def)
qed

text \<open>The observation that is booked is the observation that was selected: the earliest one that is both executable and past
  the latency floor, with its own settlement. While there is none the trajectory waits and nothing is booked.\<close>

theorem advance_books_what_it_selects:
  assumes "r = kernel_advance candidates triggered latency"
  shows "(ta_state r = TS_SETTLED \<and> (\<exists>c \<in> set candidates. fill_eligible triggered latency c \<and>
      ta_selectedObservationId r = Some (sd_observationId c) \<and> ta_exit r = Some (sd_settlement c) \<and>
      (\<forall>d \<in> set candidates. fill_eligible triggered latency d \<longrightarrow> sd_atMs c \<le> sd_atMs d))) \<or>
    (ta_state r = TS_AWAITING_FILL_OBSERVATION \<and> ta_selectedObservationId r = None \<and> ta_exit r = None \<and>
      (\<forall>d \<in> set candidates. \<not> fill_eligible triggered latency d))"
  unfolding assms by (cases rule: advance_cases [of candidates triggered latency]) auto

definition sample_candidate :: "string \<Rightarrow> int \<Rightarrow> bool \<Rightarrow> SettledCandidate" where
  "sample_candidate obs t executable = \<lparr>sd_observationId = obs, sd_atMs = t, sd_settlement = sample_sell (Some 0), sd_executable = executable\<rparr>"

theorem advance_books_what_it_selects_witness:
  "ta_selectedObservationId (kernel_advance [sample_candidate ''late'' 900 True, sample_candidate ''dead'' 400 False,
     sample_candidate ''first'' 600 True, sample_candidate ''early'' 100 True] 0 200) = Some ''first''"
  using advance_books_what_it_selects [OF refl, of "[sample_candidate ''late'' 900 True, sample_candidate ''dead'' 400 False,
     sample_candidate ''first'' 600 True, sample_candidate ''early'' 100 True]" 0 200]
  by (auto simp: sample_candidate_def fill_eligible_def)

section \<open>What the kernel does not hold\<close>

text \<open>The kernel hands the canonical builder no evidence of durability, which it requires: no trajectory the kernel settles
  ever has a net result.\<close>

theorem kernel_never_publishes:
  "kernel_settle i = Inr t \<Longrightarrow> netPnlLamports (str_settlement t) = None \<and>
    durability_not_established entry_leg \<in> set (pnlBlockedReasons (str_settlement t))"
proof -
  assume "kernel_settle i = Inr t"
  then obtain s where s: "buildTrajectorySettlement (kernel_input i) = Inr s" and t: "str_settlement t = s"
    unfolding kernel_settle_def by (auto elim!: ebind_eq_InrE)
  note b = build_eq_InrD [OF s]
  have "durability_not_established entry_leg \<in> set (pnlBlockedReasons s)"
    by (simp add: b(5) pnl_reasons_def leg_reasons_def kernel_input_def Let_def)
  then show ?thesis using b(8) t by (auto split: option.splits)
qed

definition sample_identity :: "string \<Rightarrow> TrajectoryIdentity" where
  "sample_identity obs = \<lparr>td_trajectoryId = ''t'', td_entryObservationId = obs, td_entrySimulationJobId = ''j'', td_entrySettlementId = ''s'',
     td_venue = ''PUMPSWAP'', td_pool = ''p'', td_capabilityFingerprint = ''c'', td_snapshotHash = ''h'', td_mint = ''m'', td_cohort = ''k'',
     td_migrationAgeMs = None, td_notionalLamports = 20, td_entryPolicyInputs = [], td_stratum = ''x''\<rparr>"

definition sample_settle :: "EvidenceGrade \<Rightarrow> int \<Rightarrow> SettleTrajectoryInput" where
  "sample_settle grade haircut = \<lparr>sti_identity = sample_identity ''o'', sti_entry = sample_buy, sti_exit = Some (sample_sell (Some 0)),
     sti_impact = \<lparr>quoteImpactRatio = None, baseImpactRatio = None, maxImpactRatio = None, ib_haircutBps = haircut,
       withinSmallImpactBound = False, boundUsed = SMALL_IMPACT_BOUND\<rparr>, sti_evidenceGrade = grade, sti_cashback = None,
     sti_failedAttemptFees = None, sti_venueFeeDecompositionKnown = None\<rparr>"

lemma sample_settle_ok: "\<exists>t. kernel_settle (sample_settle grade haircut) = Inr t"
  by (simp add: kernel_settle_def kernel_input_def sample_settle_def sample_trajectory_defs build_defs ebind_def Let_def)

theorem kernel_never_publishes_witness:
  "\<exists>t. kernel_settle (sample_settle SIMULATED_EXECUTION 0) = Inr t \<and> netPnlLamports (str_settlement t) = None"
  using sample_settle_ok [of SIMULATED_EXECUTION 0] kernel_never_publishes by blast

text \<open>No method is to put a new observation into an existing identity. Settling never compares the entry it is given with the
  entry the identity names: the observation, the job, the pool or the notional of the identity can be anything, the
  settlement is the same.\<close>

theorem settle_takes_any_identity:
  "td_trajectoryId a = td_trajectoryId b \<Longrightarrow>
    map_sum id str_settlement (kernel_settle (i\<lparr>sti_identity := a\<rparr>)) = map_sum id str_settlement (kernel_settle (i\<lparr>sti_identity := b\<rparr>))"
  by (simp add: kernel_settle_def kernel_input_def ebind_def split: sum.split)

theorem settle_takes_any_identity_witness:
  "map_sum id str_settlement (kernel_settle ((sample_settle SIMULATED_EXECUTION 0)\<lparr>sti_identity := sample_identity ''o''\<rparr>)) =
   map_sum id str_settlement (kernel_settle ((sample_settle SIMULATED_EXECUTION 0)\<lparr>sti_identity := sample_identity ''another''\<rparr>))"
  by (rule settle_takes_any_identity) (simp add: sample_identity_def)

text \<open>And a fill may be the entry's own observation, which marking refuses.\<close>

theorem entry_observation_can_fill:
  "ta_selectedObservationId (kernel_advance [sample_candidate (td_entryObservationId identity) t True] t 0) = Some (td_entryObservationId identity) \<and>
    observeMark identity \<lparr>tm_observationId = td_entryObservationId identity, tm_atMs = t, tm_executableLamports = 1, tm_source = DIRECT_POOL,
      tm_routeAvailable = True, tm_refusalReason = None\<rparr> = mark_reuses_entry"
  by (simp add: kernel_advance_def sample_candidate_def fill_eligible_def observeMark_def)

text \<open>The ceiling decided at open binds nobody: a trajectory whose entry moved the pool without bound settles as a bounded
  counterfactual when its caller says so.\<close>

theorem ceiling_is_not_enforced:
  "\<exists>t. kernel_settle (sample_settle BOUNDED_COUNTERFACTUAL 5000) = Inr t \<and> str_evidenceGrade t = BOUNDED_COUNTERFACTUAL \<and>
    \<not> withinSmallImpactBound (str_impact t)"
  by (simp add: kernel_settle_def kernel_input_def sample_settle_def sample_trajectory_defs build_defs ebind_def Let_def)

text \<open>A haircut is documented to make an exit worse. A sell that costs more than it brings has a negative cash value, and the
  haircut halves the loss.\<close>

theorem haircut_shrinks_a_loss:
  "0 < n \<Longrightarrow> - 2 * n < haircutExitValue (- 2 * n) 5000"
  by (simp add: haircutExitValue_def bdiv_def Let_def)

end
