(* ===== verification/CoherentSnapshot.thy ===== *)
theory CoherentSnapshot
  imports TokenAccounts Amounts "HOL-Library.List_Lexorder" "HOL-Library.Char_ord"
begin

text \<open>
  The coherent snapshot, \<open>packages/solana/src/coherent-snapshot.ts\<close>, over the batched account read of
  \<open>packages/solana/src/rpc.ts\<close>. The node is an argument: a function from its state, the keys and the
  least slot to the slot it served at and the accounts, or a failure. SHA-256 is an argument. Numbers of a
  JSON answer are doubles: lamports and rent epochs go through \<open>js_number\<close>.
\<close>

section \<open>The batched read\<close>

text \<open>A rent epoch comes as a number or as a string of digits.\<close>

datatype json_integer = json_number int | json_string string

fun parses :: "json_integer \<Rightarrow> bool" where
  "parses (json_number n) = True"
| "parses (json_string s) = list_all is_digit s"

fun to_bigint :: "json_integer \<Rightarrow> int" where
  "to_bigint (json_number n) = js_number n"
| "to_bigint (json_string s) = int (bigint_of s)"

record NodeAccount =
  na_owner :: string
  na_executable :: bool
  na_lamports :: int
  na_dataBase64 :: string
  na_rentEpoch :: "json_integer option"
  na_space :: "nat option"

record CoherentRawAccount =
  rw_pubkey :: string
  rw_slot :: int
  rw_owner :: string
  rw_executable :: bool
  rw_lamports :: int
  rw_dataBase64 :: string
  rw_rentEpoch :: "int option"
  rw_space :: "nat option"

type_synonym 'n node = "'n \<Rightarrow> string list \<Rightarrow> int option \<Rightarrow> 'n \<times> (int \<times> NodeAccount option list) option"

datatype fatal_part = no_clock | no_rent | no_schedule | no_fee_config | missing_accounts nat

datatype snapshot_error = rpc_threw | invalid_key string | too_many_economic nat | no_economic | drift_exceeds int int
  | required_absent string | required_empty string | undecodable string | below_floor string nat
  | bad_clock nat | bad_rent nat | bad_schedule nat | incomplete_snapshot "fatal_part list" | bad_lookup_table nat

definition raw_account :: "string \<Rightarrow> int \<Rightarrow> NodeAccount \<Rightarrow> CoherentRawAccount" where
  "raw_account key slot v = \<lparr>rw_pubkey = key, rw_slot = slot, rw_owner = na_owner v, rw_executable = na_executable v,
     rw_lamports = js_number (na_lamports v), rw_dataBase64 = na_dataBase64 v, rw_rentEpoch = map_option to_bigint (na_rentEpoch v),
     rw_space = na_space v\<rparr>"

fun chunks_of :: "nat \<Rightarrow> 'a list \<Rightarrow> 'a list list" where
  "chunks_of n [] = []"
| "chunks_of n (x # xs) = (x # take (n - 1) xs) # chunks_of n (drop (n - 1) xs)"

type_synonym account_map = "string \<Rightarrow> CoherentRawAccount option"

text \<open>One chunk after another; the highest slot of a chunk is the slot of the read.\<close>

fun read_chunks :: "'n node \<Rightarrow> int option \<Rightarrow> string list list \<Rightarrow> 'n \<Rightarrow> int option \<Rightarrow> account_map \<Rightarrow>
    'n \<times> (snapshot_error + int \<times> account_map)" where
  "read_chunks node minSlot [] n high out = (n, Inr (nullish high 0, out))"
| "read_chunks node minSlot (ks # rest) n high out =
    (case find (\<lambda>k. \<not> isValidPubkey k) ks of Some k \<Rightarrow> (n, Inl (invalid_key k))
     | None \<Rightarrow>
       (case node n ks minSlot of
          (n', None) \<Rightarrow> (n', Inl rpc_threw)
        | (n', Some (slot, vals)) \<Rightarrow>
            if length vals \<noteq> length ks \<or> \<not> list_all (\<lambda>v. pred_option (\<lambda>a. pred_option parses (na_rentEpoch a)) v) vals then (n', Inl rpc_threw)
            else read_chunks node minSlot rest n' (Some (case high of None \<Rightarrow> slot | Some h \<Rightarrow> max h slot))
              (fold (\<lambda>(k, v) m. m(k := map_option (raw_account k slot) v)) (zip ks vals) out)))"

definition getMultipleAccountsAtSlot :: "'n node \<Rightarrow> string list \<Rightarrow> int option \<Rightarrow> 'n \<Rightarrow> 'n \<times> (snapshot_error + int \<times> account_map)" where
  "getMultipleAccountsAtSlot node keys minSlot n = read_chunks node minSlot (chunks_of 100 keys) n None (\<lambda>_. None)"

section \<open>Decoders and hashes\<close>

definition CLOCK_SYSVAR :: string where "CLOCK_SYSVAR = ''SysvarC1ock11111111111111111111111111111111''"
definition RENT_SYSVAR :: string where "RENT_SYSVAR = ''SysvarRent111111111111111111111111111111111''"
definition EPOCH_SCHEDULE_SYSVAR :: string where "EPOCH_SCHEDULE_SYSVAR = ''SysvarEpochSchedu1e111111111111111111111111''"
definition REQUIRED_SYSVARS :: "string list" where "REQUIRED_SYSVARS = [CLOCK_SYSVAR, RENT_SYSVAR, EPOCH_SCHEDULE_SYSVAR]"

record DecodedClock =
  dc_slot :: int
  dc_epochStartTimestamp :: int
  dc_epoch :: int
  dc_leaderScheduleEpoch :: int
  dc_unixTimestamp :: int

text \<open>The threshold of the rent is kept by the eight bytes of its double.\<close>

record DecodedRent =
  dr_lamportsPerByteYear :: int
  dr_exemptionThreshold :: bytes
  dr_burnPercent :: nat

record DecodedEpochSchedule =
  ds_slotsPerEpoch :: int
  ds_leaderScheduleSlotOffset :: int
  ds_warmup :: bool
  ds_firstNormalEpoch :: int
  ds_firstNormalSlot :: int

definition u64le :: "bytes \<Rightarrow> nat \<Rightarrow> int" where
  "u64le b off = int (le_uint (take 8 (drop off b)))"

definition i64le :: "bytes \<Rightarrow> nat \<Rightarrow> int" where
  "i64le b off = sint (word_of_int (u64le b off) :: 64 word)"

definition decodeClock :: "bytes \<Rightarrow> snapshot_error + DecodedClock" where
  "decodeClock b = (if length b < 40 then Inl (bad_clock (length b))
     else Inr \<lparr>dc_slot = u64le b 0, dc_epochStartTimestamp = i64le b 8, dc_epoch = u64le b 16, dc_leaderScheduleEpoch = u64le b 24,
       dc_unixTimestamp = i64le b 32\<rparr>)"

definition decodeRent :: "bytes \<Rightarrow> snapshot_error + DecodedRent" where
  "decodeRent b = (if length b < 17 then Inl (bad_rent (length b))
     else Inr \<lparr>dr_lamportsPerByteYear = u64le b 0, dr_exemptionThreshold = take 8 (drop 8 b), dr_burnPercent = unat (b ! 16)\<rparr>)"

definition decodeEpochSchedule :: "bytes \<Rightarrow> snapshot_error + DecodedEpochSchedule" where
  "decodeEpochSchedule b = (if length b < 33 then Inl (bad_schedule (length b))
     else Inr \<lparr>ds_slotsPerEpoch = u64le b 0, ds_leaderScheduleSlotOffset = u64le b 8, ds_warmup = (b ! 16 \<noteq> 0),
       ds_firstNormalEpoch = u64le b 17, ds_firstNormalSlot = u64le b 25\<rparr>)"

definition decodeLookupTableAddresses :: "(bytes \<Rightarrow> string) \<Rightarrow> bytes \<Rightarrow> snapshot_error + string list" where
  "decodeLookupTableAddresses encode b =
    (if length b < 56 then Inl (bad_lookup_table (length b))
     else if (length b - 56) mod 32 \<noteq> 0 then Inl (bad_lookup_table (length b))
     else Inr (map encode (chunks_of 32 (drop 56 b))))"

definition int_string :: "int \<Rightarrow> string" where
  "int_string n = (if n < 0 then CHR ''-'' # decimal (nat (- n)) else decimal (nat n))"

definition hash_preimage :: "string \<Rightarrow> int \<Rightarrow> int option \<Rightarrow> string \<Rightarrow> string" where
  "hash_preimage owner lamports rentEpoch dataBase64 =
     owner @ [CHR 0x00] @ int_string lamports @ [CHR 0x00] @ (case rentEpoch of None \<Rightarrow> ''null'' | Some e \<Rightarrow> int_string e) @ [CHR 0x00] @ dataBase64"

definition hashAccount :: "(string \<Rightarrow> string) \<Rightarrow> CoherentRawAccount \<Rightarrow> string" where
  "hashAccount sha a = sha (hash_preimage (rw_owner a) (rw_lamports a) (rw_rentEpoch a) (rw_dataBase64 a))"

definition snapshot_preimage :: "(string \<times> string) list \<Rightarrow> DecodedClock option \<Rightarrow> DecodedRent option \<Rightarrow> DecodedEpochSchedule option \<Rightarrow> string" where
  "snapshot_preimage ordered clock rent schedule =
     concat (map (\<lambda>(key, h). key @ h) ordered) @
     (case clock of None \<Rightarrow> ''no-clock'' | Some c \<Rightarrow> int_string (dc_slot c) @ '':'' @ int_string (dc_unixTimestamp c)) @
     (case rent of None \<Rightarrow> ''no-rent'' | Some r \<Rightarrow> int_string (dr_lamportsPerByteYear r)) @
     (case schedule of None \<Rightarrow> ''no-schedule'' | Some e \<Rightarrow> int_string (ds_slotsPerEpoch e))"

definition computeSnapshotHash :: "(string \<Rightarrow> string) \<Rightarrow> (string \<times> string) list \<Rightarrow> DecodedClock option \<Rightarrow> DecodedRent option \<Rightarrow>
    DecodedEpochSchedule option \<Rightarrow> string" where
  "computeSnapshotHash sha ordered clock rent schedule = sha (snapshot_preimage ordered clock rent schedule)"

section \<open>The capture\<close>

record SnapshotAccount =
  sa_pubkey :: string
  sa_owner :: string
  sa_executable :: bool
  sa_lamports :: string
  sa_dataBase64 :: string
  sa_rentEpoch :: "string option"
  sa_space :: "nat option"
  sa_hash :: string
  sa_slot :: int
  sa_economicallyMutable :: bool

definition toRow :: "(string \<Rightarrow> string) \<Rightarrow> bool \<Rightarrow> CoherentRawAccount \<Rightarrow> SnapshotAccount" where
  "toRow sha economic v = \<lparr>sa_pubkey = rw_pubkey v, sa_owner = rw_owner v, sa_executable = rw_executable v, sa_lamports = int_string (rw_lamports v),
     sa_dataBase64 = rw_dataBase64 v, sa_rentEpoch = map_option int_string (rw_rentEpoch v), sa_space = rw_space v, sa_hash = hashAccount sha v,
     sa_slot = rw_slot v, sa_economicallyMutable = economic\<rparr>"

definition dedupe :: "string list \<Rightarrow> string list" where
  "dedupe xs = js_set_of (filter (\<lambda>x. x \<noteq> []) xs)"

text \<open>A request; the decoder of a key says whether the bytes decode.\<close>

record CoherentCaptureRequest =
  cr_economicAccounts :: "string list"
  cr_staticAccounts :: "string list option"
  cr_addressLookupTables :: "string list option"
  cr_feeConfig :: "string option"
  cr_requireDecodable :: "string list option"
  cr_driftBoundSlots :: "int option"
  cr_decoders :: "string \<Rightarrow> (bytes \<Rightarrow> CoherentRawAccount \<Rightarrow> bool) option"
  cr_minimumDataBytes :: "string \<Rightarrow> nat option"
  cr_allowIncomplete :: "bool option"

definition DEFAULT_DRIFT_BOUND_SLOTS :: int where "DEFAULT_DRIFT_BOUND_SLOTS = 0"
definition DEFAULT_MINIMUM_DECODABLE_BYTES :: nat where "DEFAULT_MINIMUM_DECODABLE_BYTES = 32"
definition MAX_ECONOMIC_BATCH :: nat where "MAX_ECONOMIC_BATCH = 5"

datatype snapshot_note = length_floor_only string | clock_not_captured | rent_not_captured | schedule_not_captured
  | block_time_threw int | block_time_null int | lookup_table_absent string | fee_config_absent | accounts_missing nat
  | feature_set_not_captured

record CoherentSnapshotV2 =
  cs_snapshotId :: string
  cs_requestedSlot :: int
  cs_captureSlotLow :: int
  cs_captureSlotHigh :: int
  cs_economicDriftSlots :: int
  cs_driftBoundSlots :: int
  cs_blockTimeUnix :: "int option"
  cs_epoch :: int
  cs_clock :: "DecodedClock option"
  cs_rent :: "DecodedRent option"
  cs_epochSchedule :: "DecodedEpochSchedule option"
  cs_accounts :: "SnapshotAccount list"
  cs_batchSlots :: "int list"
  cs_altBytes :: "(string \<times> string) list"
  cs_altResolved :: "(string \<times> string list) list"
  cs_programDataHashes :: "(string \<times> string) list"
  cs_feeConfigHash :: "string option"
  cs_omissions :: "string list"
  cs_incompleteness :: "snapshot_note list"
  cs_snapshotHash :: string

text \<open>An absent and an empty fee config are both no fee config.\<close>

definition fee_config :: "CoherentCaptureRequest \<Rightarrow> string option" where
  "fee_config req = (case cr_feeConfig req of None \<Rightarrow> None | Some f \<Rightarrow> if f = [] then None else Some f)"

definition economic_keys :: "CoherentCaptureRequest \<Rightarrow> string list" where
  "economic_keys req = dedupe (cr_economicAccounts req @ [CLOCK_SYSVAR])"

definition static_keys :: "CoherentCaptureRequest \<Rightarrow> string list" where
  "static_keys req = filter (\<lambda>k. k \<notin> set (economic_keys req) \<and> k \<noteq> CLOCK_SYSVAR)
     (dedupe (REQUIRED_SYSVARS @ (case fee_config req of None \<Rightarrow> [] | Some f \<Rightarrow> [f]) @ nullish (cr_staticAccounts req) [] @
        nullish (cr_addressLookupTables req) []))"

definition found :: "account_map \<Rightarrow> string list \<Rightarrow> CoherentRawAccount list" where
  "found m keys = List.map_filter m keys"

definition absent :: "account_map \<Rightarrow> string list \<Rightarrow> string list" where
  "absent m keys = filter (\<lambda>k. m k = None) keys"

fun check_required :: "CoherentCaptureRequest \<Rightarrow> account_map \<Rightarrow> string list \<Rightarrow> snapshot_error + snapshot_note list" where
  "check_required req raws [] = Inr []"
| "check_required req raws (key # keys) =
    (case raws key of None \<Rightarrow> Inl (required_absent key)
     | Some raw \<Rightarrow>
       if rw_dataBase64 raw = [] then Inl (required_empty key)
       else (case cr_decoders req key of
          Some decoder \<Rightarrow> if decoder (base64_decode (rw_dataBase64 raw)) raw then check_required req raws keys else Inl (undecodable key)
        | None \<Rightarrow>
            let n = length (base64_decode (rw_dataBase64 raw))
            in if n < nullish (cr_minimumDataBytes req key) DEFAULT_MINIMUM_DECODABLE_BYTES then Inl (below_floor key n)
               else ebind (check_required req raws keys) (\<lambda>notes. Inr (length_floor_only key # notes))))"

definition sysvar :: "(bytes \<Rightarrow> snapshot_error + 'a) \<Rightarrow> CoherentRawAccount option \<Rightarrow> snapshot_error + 'a option" where
  "sysvar decode raw = (case raw of None \<Rightarrow> Inr None | Some r \<Rightarrow> ebind (decode (base64_decode (rw_dataBase64 r))) (\<lambda>x. Inr (Some x)))"

fun resolve_tables :: "(bytes \<Rightarrow> string) \<Rightarrow> account_map \<Rightarrow> string list \<Rightarrow> snapshot_error + (string \<times> string \<times> string list) list \<times> snapshot_note list" where
  "resolve_tables encode raws [] = Inr ([], [])"
| "resolve_tables encode raws (alt # alts) =
    (case raws alt of
       None \<Rightarrow> ebind (resolve_tables encode raws alts) (\<lambda>(ts, notes). Inr (ts, lookup_table_absent alt # notes))
     | Some raw \<Rightarrow> ebind (decodeLookupTableAddresses encode (base64_decode (rw_dataBase64 raw))) (\<lambda>keys.
         ebind (resolve_tables encode raws alts) (\<lambda>(ts, notes). Inr ((alt, rw_dataBase64 raw, keys) # ts, notes))))"

definition fatal_parts :: "CoherentCaptureRequest \<Rightarrow> account_map \<Rightarrow> DecodedClock option \<Rightarrow> DecodedRent option \<Rightarrow> DecodedEpochSchedule option \<Rightarrow>
    string list \<Rightarrow> fatal_part list" where
  "fatal_parts req raws clock rent schedule omissions =
     (if clock = None then [no_clock] else []) @ (if rent = None then [no_rent] else []) @ (if schedule = None then [no_schedule] else []) @
     (case fee_config req of None \<Rightarrow> [] | Some f \<Rightarrow> if raws f = None then [no_fee_config] else []) @
     (if omissions \<noteq> [] then [missing_accounts (length omissions)] else [])"

text \<open>What the reads leave: the slot asked for, the slot of the first batch, the slots of the batches, the rows, the absent keys.\<close>

record Gathered =
  ga_requested :: int
  ga_pinned :: int
  ga_batchSlots :: "int list"
  ga_rows :: "SnapshotAccount list"
  ga_omissions :: "string list"
  ga_raws :: account_map

definition gather :: "(string \<Rightarrow> string) \<Rightarrow> 'n node \<Rightarrow> ('n \<Rightarrow> 'n \<times> int option) \<Rightarrow> CoherentCaptureRequest \<Rightarrow> 'n \<Rightarrow>
    'n \<times> (snapshot_error + Gathered)" where
  "gather sha node getSlot req n =
    (let economic = economic_keys req; statics = static_keys req
     in if MAX_ECONOMIC_BATCH < length economic then (n, Inl (too_many_economic (length economic)))
     else if economic = [] then (n, Inl no_economic)
     else (case getSlot n of
        (n1, None) \<Rightarrow> (n1, Inl rpc_threw)
      | (n1, Some requested) \<Rightarrow>
         (case getMultipleAccountsAtSlot node economic (Some requested) n1 of
            (n2, Inl e) \<Rightarrow> (n2, Inl e)
          | (n2, Inr (pinned, m1)) \<Rightarrow>
             if statics = [] then
               (n2, Inr \<lparr>ga_requested = requested, ga_pinned = pinned, ga_batchSlots = [pinned],
                  ga_rows = map (toRow sha True) (found m1 economic), ga_omissions = absent m1 economic,
                  ga_raws = (\<lambda>k. if k \<in> set economic then m1 k else None)\<rparr>)
             else (case getMultipleAccountsAtSlot node statics (Some pinned) n2 of
                (n3, Inl e) \<Rightarrow> (n3, Inl e)
              | (n3, Inr (slot, m2)) \<Rightarrow>
                 (n3, Inr \<lparr>ga_requested = requested, ga_pinned = pinned, ga_batchSlots = [pinned, slot],
                    ga_rows = map (toRow sha True) (found m1 economic) @ map (toRow sha False) (found m2 statics),
                    ga_omissions = absent m1 economic @ absent m2 statics,
                    ga_raws = (\<lambda>k. if k \<in> set economic then m1 k else if k \<in> set statics then m2 k else None)\<rparr>)))))"

definition econ_slots :: "SnapshotAccount list \<Rightarrow> int list" where
  "econ_slots rows = map sa_slot (filter sa_economicallyMutable rows)"

definition lowest :: "int \<Rightarrow> int list \<Rightarrow> int" where
  "lowest d xs = (case xs of [] \<Rightarrow> d | x # r \<Rightarrow> fold min r x)"

definition highest :: "int \<Rightarrow> int list \<Rightarrow> int" where
  "highest d xs = (case xs of [] \<Rightarrow> d | x # r \<Rightarrow> fold max r x)"

record Judged =
  ju_low :: int
  ju_high :: int
  ju_notes :: "snapshot_note list"
  ju_clock :: "DecodedClock option"
  ju_rent :: "DecodedRent option"
  ju_schedule :: "DecodedEpochSchedule option"

definition sysvar_notes :: "DecodedClock option \<Rightarrow> DecodedRent option \<Rightarrow> DecodedEpochSchedule option \<Rightarrow> snapshot_note list" where
  "sysvar_notes clock rent schedule = (if clock = None then [clock_not_captured] else []) @
     (if rent = None then [rent_not_captured] else []) @ (if schedule = None then [schedule_not_captured] else [])"

definition bound_of :: "CoherentCaptureRequest \<Rightarrow> int" where
  "bound_of req = nullish (cr_driftBoundSlots req) DEFAULT_DRIFT_BOUND_SLOTS"

text \<open>The drift, the required accounts, the sysvars, and the refusal of an incomplete capture.\<close>

definition judge :: "CoherentCaptureRequest \<Rightarrow> Gathered \<Rightarrow> snapshot_error + Judged" where
  "judge req g =
    (let low = lowest (ga_pinned g) (econ_slots (ga_rows g)); high = highest (ga_pinned g) (econ_slots (ga_rows g))
     in if bound_of req < high - low then Inl (drift_exceeds low high)
     else ebind (check_required req (ga_raws g) (nullish (cr_requireDecodable req) [])) (\<lambda>notes.
       ebind (sysvar decodeClock (ga_raws g CLOCK_SYSVAR)) (\<lambda>clock.
       ebind (sysvar decodeRent (ga_raws g RENT_SYSVAR)) (\<lambda>rent.
       ebind (sysvar decodeEpochSchedule (ga_raws g EPOCH_SCHEDULE_SYSVAR)) (\<lambda>schedule.
         let fatal = fatal_parts req (ga_raws g) clock rent schedule (ga_omissions g)
         in if \<not> nullish (cr_allowIncomplete req) False \<and> fatal \<noteq> [] then Inl (incomplete_snapshot fatal)
         else Inr \<lparr>ju_low = low, ju_high = high, ju_notes = notes @ sysvar_notes clock rent schedule,
                ju_clock = clock, ju_rent = rent, ju_schedule = schedule\<rparr>)))))"

definition block_time_notes :: "int \<Rightarrow> int option option \<Rightarrow> snapshot_note list" where
  "block_time_notes slot answer = (case answer of None \<Rightarrow> [block_time_threw slot] | Some None \<Rightarrow> [block_time_null slot] | Some (Some _) \<Rightarrow> [])"

definition fee_config_hash :: "CoherentCaptureRequest \<Rightarrow> SnapshotAccount list \<Rightarrow> string option" where
  "fee_config_hash req rows = (case fee_config req of None \<Rightarrow> None | Some f \<Rightarrow> map_option sa_hash (find (\<lambda>r. sa_pubkey r = f) rows))"

definition seal :: "(string \<Rightarrow> string) \<Rightarrow> (bytes \<Rightarrow> string) \<Rightarrow> CoherentCaptureRequest \<Rightarrow> Gathered \<Rightarrow> Judged \<Rightarrow> int option option \<Rightarrow>
    snapshot_error + CoherentSnapshotV2" where
  "seal sha encode req g j answer =
    ebind (resolve_tables encode (ga_raws g) (nullish (cr_addressLookupTables req) [])) (\<lambda>(tables, table_notes).
      let ordered = sort_key sa_pubkey (ga_rows g);
          fee_hash = fee_config_hash req (ga_rows g);
          hash = computeSnapshotHash sha (map (\<lambda>a. (sa_pubkey a, sa_hash a)) ordered) (ju_clock j) (ju_rent j) (ju_schedule j)
      in Inr \<lparr>cs_snapshotId = take 32 hash, cs_requestedSlot = ga_requested g, cs_captureSlotLow = ju_low j, cs_captureSlotHigh = ju_high j,
           cs_economicDriftSlots = ju_high j - ju_low j, cs_driftBoundSlots = bound_of req,
           cs_blockTimeUnix = nullish answer None, cs_epoch = (case ju_clock j of None \<Rightarrow> 0 | Some c \<Rightarrow> dc_epoch c),
           cs_clock = ju_clock j, cs_rent = ju_rent j, cs_epochSchedule = ju_schedule j, cs_accounts = ordered, cs_batchSlots = ga_batchSlots g,
           cs_altBytes = map (\<lambda>(k, b, _). (k, b)) tables, cs_altResolved = map (\<lambda>(k, _, ks). (k, ks)) tables,
           cs_programDataHashes = map (\<lambda>r. (sa_pubkey r, sa_hash r)) (filter sa_executable (ga_rows g)),
           cs_feeConfigHash = fee_hash, cs_omissions = ga_omissions g,
           cs_incompleteness = ju_notes j @ block_time_notes (ju_high j) answer @ table_notes @
             (if fee_config req \<noteq> None \<and> fee_hash = None then [fee_config_absent] else []) @
             (if ga_omissions g \<noteq> [] then [accounts_missing (length (ga_omissions g))] else []) @ [feature_set_not_captured],
           cs_snapshotHash = hash\<rparr>)"

definition captureCoherentSnapshotV2 :: "(string \<Rightarrow> string) \<Rightarrow> (bytes \<Rightarrow> string) \<Rightarrow> 'n node \<Rightarrow> ('n \<Rightarrow> 'n \<times> int option) \<Rightarrow>
    ('n \<Rightarrow> int \<Rightarrow> 'n \<times> int option option) \<Rightarrow> CoherentCaptureRequest \<Rightarrow> 'n \<Rightarrow> 'n \<times> (snapshot_error + CoherentSnapshotV2)" where
  "captureCoherentSnapshotV2 sha encode node getSlot getBlockTime req n =
    (case gather sha node getSlot req n of
       (n1, Inl e) \<Rightarrow> (n1, Inl e)
     | (n1, Inr g) \<Rightarrow>
        (case judge req g of
           Inl e \<Rightarrow> (n1, Inl e)
         | Inr j \<Rightarrow> (case getBlockTime n1 (ju_high j) of (n2, answer) \<Rightarrow> (n2, seal sha encode req g j answer))))"

section \<open>One moment\<close>

text \<open>What the RPC documents of \<open>getMultipleAccounts\<close>: one slot per call, the accounts of that slot in the order asked,
  and a slot no older than \<open>minContextSlot\<close>.\<close>

definition serves :: "(int \<Rightarrow> string \<Rightarrow> NodeAccount option) \<Rightarrow> 'n node \<Rightarrow> bool" where
  "serves chain node \<longleftrightarrow> (\<forall>n ks ms n' s vals. node n ks ms = (n', Some (s, vals)) \<longrightarrow>
     vals = map (chain s) ks \<and> (\<forall>m. ms = Some m \<longrightarrow> m \<le> s))"

lemma servesD:
  assumes "serves chain node" "node n ks ms = (n', Some (s, vals))"
  shows "vals = map (chain s) ks" "ms = Some m \<Longrightarrow> m \<le> s"
  using assms unfolding serves_def by blast+

lemma fold_answers:
  "fold (\<lambda>(k, v) m. m(k := g k v)) (zip ks (map f ks)) m0 k = (if k \<in> set ks then g k (f k) else m0 k)"
  by (induction ks arbitrary: m0) auto

lemma concat_chunks_of: "0 < n \<Longrightarrow> concat (chunks_of n xs) = xs"
  by (induction n xs rule: chunks_of.induct) (simp_all add: append_take_drop_id)

lemma chunks_of_short: "xs \<noteq> [] \<Longrightarrow> length xs \<le> n \<Longrightarrow> chunks_of n xs = [xs]"
  by (cases xs) auto

definition seen_at :: "(int \<Rightarrow> string \<Rightarrow> NodeAccount option) \<Rightarrow> string \<Rightarrow> int \<Rightarrow> CoherentRawAccount option" where
  "seen_at chain k s = map_option (raw_account k s) (chain s k)"

lemma read_chunks_serves:
  assumes "serves chain node"
  shows "read_chunks node (Some low) kss n high out = (n', Inr (slot, m)) \<Longrightarrow>
    \<forall>k. if k \<in> set (concat kss) then \<exists>s \<ge> low. m k = seen_at chain k s else m k = out k"
proof (induction kss arbitrary: n high out)
  case Nil
  then show ?case by simp
next
  case (Cons ks kss)
  obtain n1 s vals where node: "node n ks (Some low) = (n1, Some (s, vals))"
    and rest: "read_chunks node (Some low) kss n1 (Some (case high of None \<Rightarrow> s | Some h \<Rightarrow> max h s))
       (fold (\<lambda>(k, v) m. m(k := map_option (raw_account k s) v)) (zip ks vals) out) = (n', Inr (slot, m))"
    using Cons.prems by (auto split: option.splits if_splits prod.splits)
  have low: "low \<le> s" and vals: "vals = map (chain s) ks" using servesD [OF assms node] by auto
  let ?out = "fold (\<lambda>(k, v) m. m(k := map_option (raw_account k s) v)) (zip ks vals) out"
  have "?out k = (if k \<in> set ks then seen_at chain k s else out k)" for k
    unfolding vals seen_at_def by (rule fold_answers)
  then show ?case using Cons.IH [OF rest] low by (auto split: if_splits)
qed

lemma read_serves:
  assumes "serves chain node" "getMultipleAccountsAtSlot node keys (Some low) n = (n', Inr (slot, m))" "k \<in> set keys"
  shows "\<exists>s \<ge> low. m k = seen_at chain k s"
  using read_chunks_serves [OF assms(1) assms(2) [unfolded getMultipleAccountsAtSlot_def], rule_format, of k] assms(3)
  by (simp add: concat_chunks_of)

lemma one_batch_serves:
  assumes "serves chain node" "getMultipleAccountsAtSlot node keys (Some low) n = (n', Inr (slot, m))" "keys \<noteq> []" "length keys \<le> 100"
  shows "low \<le> slot \<and> (\<forall>k \<in> set keys. m k = seen_at chain k slot)"
proof -
  obtain n1 vals where node: "node n keys (Some low) = (n1, Some (slot, vals))"
    and m: "m = fold (\<lambda>(k, v) m. m(k := map_option (raw_account k slot) v)) (zip keys vals) (\<lambda>_. None)"
    using assms(2-4) by (auto simp: getMultipleAccountsAtSlot_def chunks_of_short split: option.splits if_splits prod.splits)
  have vals: "vals = map (chain slot) keys" and low: "low \<le> slot" using servesD [OF assms(1) node] by auto
  show ?thesis using low unfolding m vals seen_at_def by (simp add: fold_answers)
qed

lemma CLOCK_economic: "CLOCK_SYSVAR \<in> set (economic_keys req)"
  by (simp add: economic_keys_def dedupe_def CLOCK_SYSVAR_def)

lemma economic_nonempty [simp]: "economic_keys req \<noteq> []"
  using CLOCK_economic [of req] by auto

lemma static_not_economic: "k \<in> set (static_keys req) \<Longrightarrow> k \<notin> set (economic_keys req)"
  by (simp add: static_keys_def)

lemma wanted_keys:
  "fee_config req = Some f \<Longrightarrow> f \<in> set (economic_keys req) \<or> f \<in> set (static_keys req)"
  "RENT_SYSVAR \<in> set (economic_keys req) \<or> RENT_SYSVAR \<in> set (static_keys req)"
  "EPOCH_SCHEDULE_SYSVAR \<in> set (economic_keys req) \<or> EPOCH_SCHEDULE_SYSVAR \<in> set (static_keys req)"
  using CLOCK_economic [of req]
  by (auto simp: static_keys_def dedupe_def REQUIRED_SYSVARS_def RENT_SYSVAR_def EPOCH_SCHEDULE_SYSVAR_def CLOCK_SYSVAR_def fee_config_def
      split: option.splits if_splits)

text \<open>A gathered capture, described by the chain alone.\<close>

definition from_chain :: "(int \<Rightarrow> string \<Rightarrow> NodeAccount option) \<Rightarrow> (string \<Rightarrow> string) \<Rightarrow> CoherentCaptureRequest \<Rightarrow> Gathered \<Rightarrow> bool" where
  "from_chain chain sha req g \<longleftrightarrow> (\<exists>slot_of. ga_requested g \<le> ga_pinned g \<and> (\<forall>k \<in> set (economic_keys req). slot_of k = ga_pinned g) \<and>
     (\<forall>k. ga_pinned g \<le> slot_of k) \<and>
     (\<forall>k. ga_raws g k = (if k \<in> set (economic_keys req) \<union> set (static_keys req) then seen_at chain k (slot_of k) else None)) \<and>
     ga_rows g = map (toRow sha True) (found (ga_raws g) (economic_keys req)) @ map (toRow sha False) (found (ga_raws g) (static_keys req)) \<and>
     ga_omissions g = absent (ga_raws g) (economic_keys req) @ absent (ga_raws g) (static_keys req))"

lemma found_cong: "(\<And>k. k \<in> set ks \<Longrightarrow> m k = m' k) \<Longrightarrow> found m ks = found m' ks"
  by (induction ks) (auto simp: found_def List.map_filter_simps split: option.splits)

lemma absent_cong: "(\<And>k. k \<in> set ks \<Longrightarrow> m k = m' k) \<Longrightarrow> absent m ks = absent m' ks"
  by (auto simp: absent_def intro: filter_cong)

lemma gather_from_chain:
  assumes serves: "serves chain node" and gather: "gather sha node getSlot req n = (n', Inr g)"
  shows "from_chain chain sha req g"
proof -
  let ?e = "economic_keys req" and ?s = "static_keys req"
  have short: "length ?e \<le> 100"
    using gather by (auto simp: gather_def Let_def MAX_ECONOMIC_BATCH_def split: if_splits)
  obtain n1 requested n2 pinned m1
    where first: "getMultipleAccountsAtSlot node ?e (Some requested) n1 = (n2, Inr (pinned, m1))"
      and g: "(?s = [] \<and> g = \<lparr>ga_requested = requested, ga_pinned = pinned, ga_batchSlots = [pinned],
                  ga_rows = map (toRow sha True) (found m1 ?e), ga_omissions = absent m1 ?e, ga_raws = (\<lambda>k. if k \<in> set ?e then m1 k else None)\<rparr>) \<or>
         (\<exists>n3 slot m2. getMultipleAccountsAtSlot node ?s (Some pinned) n2 = (n3, Inr (slot, m2)) \<and>
            g = \<lparr>ga_requested = requested, ga_pinned = pinned, ga_batchSlots = [pinned, slot],
                    ga_rows = map (toRow sha True) (found m1 ?e) @ map (toRow sha False) (found m2 ?s),
                    ga_omissions = absent m1 ?e @ absent m2 ?s,
                    ga_raws = (\<lambda>k. if k \<in> set ?e then m1 k else if k \<in> set ?s then m2 k else None)\<rparr>)"
    using gather by (fastforce simp: gather_def Let_def split: if_splits option.splits prod.splits sum.splits)
  have one: "requested \<le> pinned" "\<forall>k \<in> set ?e. m1 k = seen_at chain k pinned"
    using one_batch_serves [OF serves first economic_nonempty short] by auto
  from g show ?thesis
  proof (elim disjE exE conjE)
    assume "?s = []"
    assume g: "g = \<lparr>ga_requested = requested, ga_pinned = pinned, ga_batchSlots = [pinned],
                  ga_rows = map (toRow sha True) (found m1 ?e), ga_omissions = absent m1 ?e, ga_raws = (\<lambda>k. if k \<in> set ?e then m1 k else None)\<rparr>"
    have r: "found (ga_raws g) ?e = found m1 ?e" "absent (ga_raws g) ?e = absent m1 ?e"
      by (auto simp: g intro!: found_cong absent_cong)
    show ?thesis unfolding from_chain_def r using one \<open>?s = []\<close>
      by (intro exI [of _ "\<lambda>_. pinned"]) (auto simp: g found_def absent_def List.map_filter_simps)
  next
    fix n3 slot m2
    assume statics: "getMultipleAccountsAtSlot node ?s (Some pinned) n2 = (n3, Inr (slot, m2))"
      and g: "g = \<lparr>ga_requested = requested, ga_pinned = pinned, ga_batchSlots = [pinned, slot],
                    ga_rows = map (toRow sha True) (found m1 ?e) @ map (toRow sha False) (found m2 ?s),
                    ga_omissions = absent m1 ?e @ absent m2 ?s,
                    ga_raws = (\<lambda>k. if k \<in> set ?e then m1 k else if k \<in> set ?s then m2 k else None)\<rparr>"
    have "\<forall>k. \<exists>s \<ge> pinned. k \<in> set ?s \<longrightarrow> m2 k = seen_at chain k s"
      using read_serves [OF serves statics] by (metis order_refl)
    then obtain sl where sl: "\<forall>k. pinned \<le> sl k \<and> (k \<in> set ?s \<longrightarrow> m2 k = seen_at chain k (sl k))" by metis
    have r: "found (ga_raws g) ?e = found m1 ?e" "absent (ga_raws g) ?e = absent m1 ?e"
      "found (ga_raws g) ?s = found m2 ?s" "absent (ga_raws g) ?s = absent m2 ?s"
      using static_not_economic by (auto simp: g intro!: found_cong absent_cong)
    show ?thesis unfolding from_chain_def r
      using one sl static_not_economic
      by (intro exI [of _ "\<lambda>k. if k \<in> set ?e then pinned else sl k"]) (auto simp: g)
  qed
qed

lemma lowest_const: "(\<And>x. x \<in> set xs \<Longrightarrow> x = d) \<Longrightarrow> lowest d xs = d"
  by (cases xs) (auto simp: lowest_def intro: fold_invariant [where P = "\<lambda>x. x = d" and Q = "\<lambda>x. x = d"])

lemma highest_const: "(\<And>x. x \<in> set xs \<Longrightarrow> x = d) \<Longrightarrow> highest d xs = d"
  by (cases xs) (auto simp: highest_def intro: fold_invariant [where P = "\<lambda>x. x = d" and Q = "\<lambda>x. x = d"])

lemma in_found: "v \<in> set (found m ks) \<longleftrightarrow> (\<exists>k \<in> set ks. m k = Some v)"
  by (induction ks) (auto simp: found_def List.map_filter_simps split: option.splits)

lemma in_absent [simp]: "k \<in> set (absent m ks) \<longleftrightarrow> k \<in> set ks \<and> m k = None"
  by (simp add: absent_def)

lemma seen_at_eq: "seen_at chain k s = Some v \<longleftrightarrow> (\<exists>a. chain s k = Some a \<and> v = raw_account k s a)"
  by (auto simp: seen_at_def)

lemma toRow_simps [simp]:
  "sa_pubkey (toRow sha e (raw_account k s v)) = k" "sa_slot (toRow sha e (raw_account k s v)) = s"
  "sa_economicallyMutable (toRow sha e r) = e"
  by (simp_all add: toRow_def raw_account_def)

text \<open>The rows of a gathered capture.\<close>

lemma rows_from_chain:
  assumes "from_chain chain sha req g"
  shows "a \<in> set (ga_rows g) \<Longrightarrow> ga_pinned g \<le> sa_slot a \<and> (sa_economicallyMutable a \<longleftrightarrow> sa_pubkey a \<in> set (economic_keys req)) \<and>
      (sa_economicallyMutable a \<longrightarrow> sa_slot a = ga_pinned g) \<and>
      (\<exists>v. chain (sa_slot a) (sa_pubkey a) = Some v \<and> a = toRow sha (sa_economicallyMutable a) (raw_account (sa_pubkey a) (sa_slot a) v))"
    and "set (economic_keys req) \<union> set (static_keys req) = sa_pubkey ` set (ga_rows g) \<union> set (ga_omissions g)"
    and "ga_raws g CLOCK_SYSVAR = seen_at chain CLOCK_SYSVAR (ga_pinned g)"
    and "ga_requested g \<le> ga_pinned g"
proof -
  let ?E = "set (economic_keys req)" and ?S = "set (static_keys req)"
  obtain slot_of where r: "ga_requested g \<le> ga_pinned g" and e: "\<And>k. k \<in> ?E \<Longrightarrow> slot_of k = ga_pinned g" and p: "\<And>k. ga_pinned g \<le> slot_of k"
    and raws: "\<And>k. ga_raws g k = (if k \<in> ?E \<union> ?S then seen_at chain k (slot_of k) else None)"
    and rows: "ga_rows g = map (toRow sha True) (found (ga_raws g) (economic_keys req)) @ map (toRow sha False) (found (ga_raws g) (static_keys req))"
    and om: "ga_omissions g = absent (ga_raws g) (economic_keys req) @ absent (ga_raws g) (static_keys req)"
    using assms unfolding from_chain_def by blast
  show "ga_requested g \<le> ga_pinned g" by (rule r)
  show "ga_raws g CLOCK_SYSVAR = seen_at chain CLOCK_SYSVAR (ga_pinned g)" using CLOCK_economic e by (simp add: raws)
  have row: "a \<in> set (ga_rows g) \<longleftrightarrow> (\<exists>k v. k \<in> ?E \<union> ?S \<and> chain (slot_of k) k = Some v \<and> a = toRow sha (k \<in> ?E) (raw_account k (slot_of k) v))" for a
    using static_not_economic [of _ req] by (fastforce simp: rows in_found raws seen_at_eq)
  show "ga_pinned g \<le> sa_slot a \<and> (sa_economicallyMutable a \<longleftrightarrow> sa_pubkey a \<in> ?E) \<and>
      (sa_economicallyMutable a \<longrightarrow> sa_slot a = ga_pinned g) \<and>
      (\<exists>v. chain (sa_slot a) (sa_pubkey a) = Some v \<and> a = toRow sha (sa_economicallyMutable a) (raw_account (sa_pubkey a) (sa_slot a) v))"
    if "a \<in> set (ga_rows g)"
    using that p e unfolding row by (elim exE conjE) simp
  have omitted: "k \<in> set (ga_omissions g) \<longleftrightarrow> k \<in> ?E \<union> ?S \<and> chain (slot_of k) k = None" for k
    by (auto simp: om raws seen_at_def)
  show "?E \<union> ?S = sa_pubkey ` set (ga_rows g) \<union> set (ga_omissions g)"
  proof (intro set_eqI iffI)
    fix k
    assume k: "k \<in> ?E \<union> ?S"
    show "k \<in> sa_pubkey ` set (ga_rows g) \<union> set (ga_omissions g)"
    proof (cases "chain (slot_of k) k")
      case None
      then show ?thesis using k omitted by blast
    next
      case (Some v)
      then have "toRow sha (k \<in> ?E) (raw_account k (slot_of k) v) \<in> set (ga_rows g)" using k row by blast
      then show ?thesis by (metis UnI1 image_eqI toRow_simps(1))
    qed
  next
    fix k
    assume "k \<in> sa_pubkey ` set (ga_rows g) \<union> set (ga_omissions g)"
    then show "k \<in> ?E \<union> ?S" using omitted row by auto
  qed
qed

lemma one_slot:
  assumes "from_chain chain sha req g"
  shows "lowest (ga_pinned g) (econ_slots (ga_rows g)) = ga_pinned g" "highest (ga_pinned g) (econ_slots (ga_rows g)) = ga_pinned g"
  using rows_from_chain(1) [OF assms] by (auto simp: econ_slots_def intro!: lowest_const highest_const)

lemma judge_Inr:
  assumes "judge req g = Inr j"
  shows "ju_low j = lowest (ga_pinned g) (econ_slots (ga_rows g)) \<and> ju_high j = highest (ga_pinned g) (econ_slots (ga_rows g)) \<and>
    sysvar decodeClock (ga_raws g CLOCK_SYSVAR) = Inr (ju_clock j) \<and>
    (nullish (cr_allowIncomplete req) False \<or> fatal_parts req (ga_raws g) (ju_clock j) (ju_rent j) (ju_schedule j) (ga_omissions g) = [])"
  using assms by (auto simp: judge_def Let_def ebind_eq_Inr split: if_splits)

lemma fatal_parts_Nil:
  "fatal_parts req raws clock rent schedule om = [] \<longleftrightarrow> clock \<noteq> None \<and> rent \<noteq> None \<and> schedule \<noteq> None \<and> om = [] \<and>
     (\<forall>f. fee_config req = Some f \<longrightarrow> raws f \<noteq> None)"
  by (auto simp: fatal_parts_def split: option.splits)

lemma fee_config_hash_Some:
  "fee_config req = Some f \<Longrightarrow> f \<in> sa_pubkey ` set rows \<Longrightarrow> fee_config_hash req rows \<noteq> None"
  by (auto simp: fee_config_hash_def find_None_iff)

text \<open>C8: 
  C41. For every RPC node that serves a chain as documented, a snapshot that is returned describes one
  moment: every economic row, and the Clock, is the chain's account at one slot, no older than the slot
  asked for, and its low and its high slot are that slot; every other row is the chain's account at the
  slot it is stamped with, no older than that moment; each account asked for is a row or an omission; and
  unless an incomplete capture was asked for, nothing is omitted, the three sysvars are decoded and the
  fee config is hashed.
\<close>

lemma snapshot_is_one_moment:
  assumes serves: "serves chain node"
    and capture: "captureCoherentSnapshotV2 sha encode node getSlot getBlockTime req n = (n', Inr snap)"
  shows "\<exists>s \<ge> cs_requestedSlot snap. cs_captureSlotLow snap = s \<and> cs_captureSlotHigh snap = s \<and>
    (\<forall>a \<in> set (cs_accounts snap). s \<le> sa_slot a \<and> (sa_economicallyMutable a \<longleftrightarrow> sa_pubkey a \<in> set (economic_keys req)) \<and>
       (sa_economicallyMutable a \<longrightarrow> sa_slot a = s) \<and>
       (\<exists>v. chain (sa_slot a) (sa_pubkey a) = Some v \<and> a = toRow sha (sa_economicallyMutable a) (raw_account (sa_pubkey a) (sa_slot a) v))) \<and>
    (\<forall>c. cs_clock snap = Some c \<longrightarrow> (\<exists>v. chain s CLOCK_SYSVAR = Some v \<and> decodeClock (base64_decode (na_dataBase64 v)) = Inr c)) \<and>
    set (economic_keys req) \<union> set (static_keys req) = sa_pubkey ` set (cs_accounts snap) \<union> set (cs_omissions snap) \<and>
    (nullish (cr_allowIncomplete req) False \<or>
       cs_omissions snap = [] \<and> cs_clock snap \<noteq> None \<and> cs_rent snap \<noteq> None \<and> cs_epochSchedule snap \<noteq> None \<and>
       (fee_config req = None \<or> cs_feeConfigHash snap \<noteq> None))"
proof -
  obtain n1 g j n2 answer where gather: "gather sha node getSlot req n = (n1, Inr g)" and judge: "judge req g = Inr j"
    and seal: "seal sha encode req g j answer = Inr snap"
    using capture by (auto simp: captureCoherentSnapshotV2_def split: prod.splits sum.splits)
  note chain = gather_from_chain [OF serves gather]
  note rows = rows_from_chain [OF chain]
  note j = judge_Inr [OF judge]
  have snap: "cs_requestedSlot snap = ga_requested g" "cs_captureSlotLow snap = ju_low j" "cs_captureSlotHigh snap = ju_high j"
    "set (cs_accounts snap) = set (ga_rows g)" "cs_clock snap = ju_clock j" "cs_rent snap = ju_rent j"
    "cs_epochSchedule snap = ju_schedule j" "cs_omissions snap = ga_omissions g" "cs_feeConfigHash snap = fee_config_hash req (ga_rows g)"
    using seal by (auto simp: seal_def ebind_eq_Inr Let_def split: prod.splits)
  have slots: "ju_low j = ga_pinned g" "ju_high j = ga_pinned g" using j one_slot [OF chain] by auto
  have clock: "\<exists>v. chain (ga_pinned g) CLOCK_SYSVAR = Some v \<and> decodeClock (base64_decode (na_dataBase64 v)) = Inr c"
    if "ju_clock j = Some c" for c
    using j that rows(3) by (auto simp: sysvar_def ebind_eq_Inr seen_at_def raw_account_def split: option.splits)
  have fee: "fee_config req = None \<or> fee_config_hash req (ga_rows g) \<noteq> None" if "ga_omissions g = []"
  proof (cases "fee_config req")
    case (Some f)
    then have "f \<in> sa_pubkey ` set (ga_rows g)" using wanted_keys(1) rows(2) that by auto
    then show ?thesis using fee_config_hash_Some [OF Some] by simp
  qed simp
  have complete: "nullish (cr_allowIncomplete req) False \<or> ga_omissions g = [] \<and> ju_clock j \<noteq> None \<and> ju_rent j \<noteq> None \<and>
      ju_schedule j \<noteq> None \<and> (fee_config req = None \<or> fee_config_hash req (ga_rows g) \<noteq> None)"
    using j fee unfolding fatal_parts_Nil by blast
  show ?thesis unfolding snap slots using rows(1,2,4) clock complete by blast
qed

section \<open>A capture\<close>

lemma sysvars_valid: "isValidPubkey CLOCK_SYSVAR" "isValidPubkey RENT_SYSVAR" "isValidPubkey EPOCH_SCHEDULE_SYSVAR"
proof -
  show "isValidPubkey CLOCK_SYSVAR"
    by (rule isValidPubkey_digits [where ds = "[25, 56, 50, 53, 33, 49, 11, 0, 46, 35, 43, 0, 0, 0, 0, 0, 0, 0, 0, 0, 0, 0, 0, 0, 0, 0, 0, 0, 0, 0, 0, 0, 0, 0, 0, 0, 0, 0, 0, 0, 0, 0, 0]"])
      (simp_all add: CLOCK_SYSVAR_def ALPHABET_def)
  show "isValidPubkey RENT_SYSVAR"
    by (rule isValidPubkey_digits [where ds = "[25, 56, 50, 53, 33, 49, 24, 37, 45, 51, 0, 0, 0, 0, 0, 0, 0, 0, 0, 0, 0, 0, 0, 0, 0, 0, 0, 0, 0, 0, 0, 0, 0, 0, 0, 0, 0, 0, 0, 0, 0, 0, 0]"])
      (simp_all add: RENT_SYSVAR_def ALPHABET_def)
  show "isValidPubkey EPOCH_SCHEDULE_SYSVAR"
    by (rule isValidPubkey_digits [where ds = "[25, 56, 50, 53, 33, 49, 13, 47, 46, 35, 40, 25, 35, 40, 37, 36, 52, 0, 37, 0, 0, 0, 0, 0, 0, 0, 0, 0, 0, 0, 0, 0, 0, 0, 0, 0, 0, 0, 0, 0, 0, 0, 0]"])
      (simp_all add: EPOCH_SCHEDULE_SYSVAR_def ALPHABET_def)
qed

definition sample_fee_config :: string where "sample_fee_config = replicate 32 CHR ''1''"

lemma sample_fee_config_valid: "isValidPubkey sample_fee_config"
proof -
  have "base58Encode (replicate 32 0) = sample_fee_config" unfolding sample_fee_config_def by code_simp
  then show ?thesis unfolding isValidPubkey_iff by (metis length_replicate)
qed

definition sample_reply :: "nat \<Rightarrow> NodeAccount" where
  "sample_reply k = \<lparr>na_owner = ''owner'', na_executable = False, na_lamports = 1, na_dataBase64 = base64_encode (replicate k 0),
     na_rentEpoch = Some (json_number 0), na_space = None\<rparr>"

text \<open>The fee config is twenty bytes up to slot seven and twenty-one after it.\<close>

definition sample_chain :: "int \<Rightarrow> string \<Rightarrow> NodeAccount option" where
  "sample_chain s k = (if k = CLOCK_SYSVAR then Some (sample_reply 40) else if k = RENT_SYSVAR then Some (sample_reply 17)
     else if k = EPOCH_SCHEDULE_SYSVAR then Some (sample_reply 33)
     else if k = sample_fee_config then Some (sample_reply (if s \<le> 7 then 20 else 21)) else None)"

text \<open>A node at slot \<open>n\<close>; each answer takes a slot.\<close>

definition sample_node :: "int node" where
  "sample_node n ks ms = (n + 1, if nullish ms n \<le> n then Some (n, map (sample_chain n) ks) else None)"

definition sample_request :: CoherentCaptureRequest where
  "sample_request = \<lparr>cr_economicAccounts = [], cr_staticAccounts = None, cr_addressLookupTables = None, cr_feeConfig = Some sample_fee_config,
     cr_requireDecodable = Some [CLOCK_SYSVAR], cr_driftBoundSlots = None, cr_decoders = (\<lambda>_. None), cr_minimumDataBytes = (\<lambda>_. None),
     cr_allowIncomplete = None\<rparr>"

lemma sample_parses: "pred_option parses (na_rentEpoch (sample_reply k))"
  by (simp add: sample_reply_def)

lemma sample_serves: "serves sample_chain sample_node"
  by (auto simp: serves_def sample_node_def)

lemma sample_keys: "economic_keys sample_request = [CLOCK_SYSVAR]"
    "static_keys sample_request = [RENT_SYSVAR, EPOCH_SCHEDULE_SYSVAR, sample_fee_config]"
  unfolding sample_request_def economic_keys_def static_keys_def by code_simp+

lemma sysvars_differ [simp]: "RENT_SYSVAR \<noteq> CLOCK_SYSVAR" "EPOCH_SCHEDULE_SYSVAR \<noteq> CLOCK_SYSVAR" "EPOCH_SCHEDULE_SYSVAR \<noteq> RENT_SYSVAR"
    "sample_fee_config \<noteq> CLOCK_SYSVAR" "sample_fee_config \<noteq> RENT_SYSVAR" "sample_fee_config \<noteq> EPOCH_SCHEDULE_SYSVAR"
  by code_simp+

lemma sample_nonempty [simp]: "sample_fee_config \<noteq> []" "base64_encode (replicate 40 0) \<noteq> []"
  by code_simp+

lemmas sysvars_differ_sym [simp] = sysvars_differ [symmetric]

lemmas sample_defs = sample_node_def sample_chain_def sysvars_valid sample_fee_config_valid getMultipleAccountsAtSlot_def

lemma sample_reads:
  "getMultipleAccountsAtSlot sample_node [CLOCK_SYSVAR] (Some n) n =
     (n + 1, Inr (n, [CLOCK_SYSVAR \<mapsto> raw_account CLOCK_SYSVAR n (sample_reply 40)]))"
  "7 \<le> n \<Longrightarrow> getMultipleAccountsAtSlot sample_node [RENT_SYSVAR, EPOCH_SCHEDULE_SYSVAR, sample_fee_config] (Some n) (n + 1) =
     (n + 2, Inr (n + 1, [RENT_SYSVAR \<mapsto> raw_account RENT_SYSVAR (n + 1) (sample_reply 17),
        EPOCH_SCHEDULE_SYSVAR \<mapsto> raw_account EPOCH_SCHEDULE_SYSVAR (n + 1) (sample_reply 33),
        sample_fee_config \<mapsto> raw_account sample_fee_config (n + 1) (sample_reply 21)]))"
  by (simp_all add: sample_defs sample_parses)

definition sample_gathered :: "(string \<Rightarrow> string) \<Rightarrow> int \<Rightarrow> Gathered" where
  "sample_gathered sha n = \<lparr>ga_requested = n, ga_pinned = n, ga_batchSlots = [n, n + 1],
     ga_rows = [toRow sha True (raw_account CLOCK_SYSVAR n (sample_reply 40)), toRow sha False (raw_account RENT_SYSVAR (n + 1) (sample_reply 17)),
       toRow sha False (raw_account EPOCH_SCHEDULE_SYSVAR (n + 1) (sample_reply 33)), toRow sha False (raw_account sample_fee_config (n + 1) (sample_reply 21))],
     ga_omissions = [],
     ga_raws = [CLOCK_SYSVAR \<mapsto> raw_account CLOCK_SYSVAR n (sample_reply 40), RENT_SYSVAR \<mapsto> raw_account RENT_SYSVAR (n + 1) (sample_reply 17),
        EPOCH_SCHEDULE_SYSVAR \<mapsto> raw_account EPOCH_SCHEDULE_SYSVAR (n + 1) (sample_reply 33),
        sample_fee_config \<mapsto> raw_account sample_fee_config (n + 1) (sample_reply 21)]\<rparr>"

lemma sample_gather: "7 \<le> n \<Longrightarrow> gather sha sample_node (\<lambda>n. (n, Some n)) sample_request n = (n + 2, Inr (sample_gathered sha n))"
  by (auto simp: gather_def Let_def sample_keys MAX_ECONOMIC_BATCH_def sample_reads found_def absent_def List.map_filter_simps sample_gathered_def fun_eq_iff)

definition sample_clock :: DecodedClock where
  "sample_clock = \<lparr>dc_slot = 0, dc_epochStartTimestamp = 0, dc_epoch = 0, dc_leaderScheduleEpoch = 0, dc_unixTimestamp = 0\<rparr>"
definition sample_rent :: DecodedRent where
  "sample_rent = \<lparr>dr_lamportsPerByteYear = 0, dr_exemptionThreshold = replicate 8 0, dr_burnPercent = 0\<rparr>"
definition sample_schedule :: DecodedEpochSchedule where
  "sample_schedule = \<lparr>ds_slotsPerEpoch = 0, ds_leaderScheduleSlotOffset = 0, ds_warmup = False, ds_firstNormalEpoch = 0, ds_firstNormalSlot = 0\<rparr>"

lemma sample_decodes: "decodeClock (replicate 40 0) = Inr sample_clock" "decodeRent (replicate 17 0) = Inr sample_rent"
    "decodeEpochSchedule (replicate 33 0) = Inr sample_schedule"
  by code_simp+

lemma sample_judge: "judge sample_request (sample_gathered sha n) = Inr \<lparr>ju_low = n, ju_high = n, ju_notes = [length_floor_only CLOCK_SYSVAR],
    ju_clock = Some sample_clock, ju_rent = Some sample_rent, ju_schedule = Some sample_schedule\<rparr>"
  by (simp add: judge_def sample_gathered_def sample_request_def econ_slots_def lowest_def highest_def bound_of_def DEFAULT_DRIFT_BOUND_SLOTS_def
      raw_account_def sample_reply_def toRow_def DEFAULT_MINIMUM_DECODABLE_BYTES_def sysvar_def sample_decodes
      fatal_parts_def fee_config_def sysvar_notes_def)

definition sample_capture :: "(string \<Rightarrow> string) \<Rightarrow> int \<Rightarrow> int \<times> (snapshot_error + CoherentSnapshotV2)" where
  "sample_capture sha = captureCoherentSnapshotV2 sha (\<lambda>_. []) sample_node (\<lambda>n. (n, Some n)) (\<lambda>n s. (n, Some (Some 0))) sample_request"

lemma sample_captured:
  assumes "7 \<le> n"
  shows "\<exists>snap. sample_capture sha n = (n + 2, Inr snap) \<and> cs_accounts snap = sort_key sa_pubkey (ga_rows (sample_gathered sha n)) \<and>
    cs_captureSlotHigh snap = n \<and> cs_economicDriftSlots snap = 0 \<and>
    cs_clock snap = Some sample_clock \<and> cs_rent snap = Some sample_rent \<and> cs_epochSchedule snap = Some sample_schedule"
  using assms by (simp add: sample_capture_def captureCoherentSnapshotV2_def sample_gather sample_judge seal_def Let_def)
    (simp add: sample_request_def)

lemma snapshot_is_one_moment_witness:
  "\<exists>snap. sample_capture (\<lambda>_. []) 7 = (9, Inr snap) \<and> cs_omissions snap = [] \<and> cs_feeConfigHash snap \<noteq> None \<and>
     (\<exists>v. sample_chain (cs_captureSlotLow snap) CLOCK_SYSVAR = Some v)"
proof -
  obtain snap where snap: "sample_capture (\<lambda>_. []) 7 = (9, Inr snap)" and clock: "cs_clock snap = Some sample_clock"
    using sample_captured [of 7 "\<lambda>_. []"] by auto
  have req: "\<not> nullish (cr_allowIncomplete sample_request) False" "fee_config sample_request \<noteq> None"
    by (simp_all add: sample_request_def fee_config_def)
  show ?thesis
    using snapshot_is_one_moment [OF sample_serves snap [unfolded sample_capture_def]] req clock snap by auto
qed

text \<open>
  The header of the module lists the fee configs among the accounts that must come from one slot. The fee
  config of a capture with drift zero can be that of a later slot, and differ from the one at the moment
  of the prices.
\<close>

lemma fee_config_is_of_another_slot:
  "\<exists>snap a. sample_capture sha 7 = (9, Inr snap) \<and> cs_economicDriftSlots snap = 0 \<and> cs_captureSlotHigh snap = 7 \<and>
     a \<in> set (cs_accounts snap) \<and> sa_pubkey a = sample_fee_config \<and> sa_slot a = 8 \<and>
     sample_chain 7 sample_fee_config \<noteq> sample_chain 8 sample_fee_config"
proof -
  have "sample_chain 7 sample_fee_config \<noteq> sample_chain 8 sample_fee_config"
    unfolding sample_chain_def sample_reply_def by code_simp
  moreover have "toRow sha False (raw_account sample_fee_config 8 (sample_reply 21)) \<in> set (sort_key sa_pubkey (ga_rows (sample_gathered sha 7)))"
    by (simp add: sample_gathered_def)
  moreover obtain snap where "sample_capture sha 7 = (9, Inr snap)"
      "cs_accounts snap = sort_key sa_pubkey (ga_rows (sample_gathered sha 7))" "cs_economicDriftSlots snap = 0" "cs_captureSlotHigh snap = 7"
    using sample_captured [of 7 sha] by auto
  ultimately show ?thesis
    by (intro exI [of _ snap] exI [of _ "toRow sha False (raw_account sample_fee_config 8 (sample_reply 21))"]) simp
qed

section \<open>What the snapshot hash binds\<close>

text \<open>The string a row's hash is taken of, and the strings a snapshot hashes.\<close>

definition row_preimage :: "SnapshotAccount \<Rightarrow> string" where
  "row_preimage a = sa_owner a @ CHR 0x00 # sa_lamports a @ CHR 0x00 # nullish (sa_rentEpoch a) ''null'' @ CHR 0x00 # sa_dataBase64 a"

definition manifest_preimage :: "CoherentSnapshotV2 \<Rightarrow> string" where
  "manifest_preimage s = snapshot_preimage (map (\<lambda>a. (sa_pubkey a, sa_hash a)) (cs_accounts s)) (cs_clock s) (cs_rent s) (cs_epochSchedule s)"

definition hashed :: "CoherentSnapshotV2 \<Rightarrow> string set" where
  "hashed s = insert (manifest_preimage s) (row_preimage ` set (cs_accounts s))"

lemma int_string_chars: "c \<in> set (int_string n) \<Longrightarrow> c = CHR ''-'' \<or> is_digit c" "int_string n \<noteq> ''null''" "CHR 0x00 \<notin> set (int_string n)"
proof -
  show s: "c = CHR ''-'' \<or> is_digit c" if "c \<in> set (int_string n)" for c
    using that decimal_digits by (auto simp: int_string_def list_all_iff split: if_splits)
  have no: "\<not> is_digit CHR ''n''" "\<not> is_digit CHR 0x00" by code_simp+
  show "int_string n \<noteq> ''null''" "CHR 0x00 \<notin> set (int_string n)" using s [of "CHR ''n''"] s [of "CHR 0x00"] no by auto
qed

definition row_shape :: "(string \<Rightarrow> string) \<Rightarrow> SnapshotAccount \<Rightarrow> bool" where
  "row_shape sha a \<longleftrightarrow> sa_hash a = sha (row_preimage a) \<and> CHR 0x00 \<notin> set (sa_lamports a) \<and>
     CHR 0x00 \<notin> set (nullish (sa_rentEpoch a) ''null'') \<and> sa_rentEpoch a \<noteq> Some ''null''"

lemma toRow_shape: "row_shape sha (toRow sha e r)"
  using int_string_chars(2,3)
  by (cases "rw_rentEpoch r") (simp_all add: row_shape_def toRow_def hashAccount_def hash_preimage_def row_preimage_def)

lemma gathered_rows: "gather sha node getSlot req n = (n', Inr g) \<Longrightarrow> \<forall>a \<in> set (ga_rows g). row_shape sha a"
  by (auto simp: gather_def Let_def toRow_shape split: if_splits option.splits prod.splits sum.splits)

lemma capture_rows:
  assumes "captureCoherentSnapshotV2 sha encode node getSlot getBlockTime req n = (n', Inr snap)"
  shows "\<forall>a \<in> set (cs_accounts snap). row_shape sha a" and "cs_snapshotHash snap = sha (manifest_preimage snap)"
proof -
  obtain n1 g j answer where gather: "gather sha node getSlot req n = (n1, Inr g)" and seal: "seal sha encode req g j answer = Inr snap"
    using assms by (auto simp: captureCoherentSnapshotV2_def split: prod.splits sum.splits)
  have "\<forall>a \<in> set (ga_rows g). row_shape sha a"
    by (rule gathered_rows [OF gather])
  moreover have "set (cs_accounts snap) = set (ga_rows g)"
    using seal by (auto simp: seal_def ebind_eq_Inr Let_def split: prod.splits)
  ultimately show "\<forall>a \<in> set (cs_accounts snap). row_shape sha a" by simp
  show "cs_snapshotHash snap = sha (manifest_preimage snap)"
    using seal by (auto simp: seal_def ebind_eq_Inr Let_def computeSnapshotHash_def manifest_preimage_def split: prod.splits)
qed

lemma blocks_unique:
  assumes "map fst xs = map fst ys" "\<forall>p \<in> set xs \<union> set ys. length (snd p) = (k :: nat)"
    and "concat (map (\<lambda>(a, h). a @ h) xs) @ t = concat (map (\<lambda>(a, h). a @ h) ys) @ u"
  shows "xs = ys"
proof -
  have "length xs = length ys" using assms(1) by (metis length_map)
  then show ?thesis using assms by (induction xs ys rule: list_induct2) auto
qed

lemma until_nul: "CHR 0x00 \<notin> set xs \<Longrightarrow> CHR 0x00 \<notin> set ys \<Longrightarrow> xs @ CHR 0x00 # t = ys @ CHR 0x00 # u \<longleftrightarrow> xs = ys \<and> t = u"
proof (induction xs arbitrary: ys)
  case Nil
  then show ?case by (cases ys) auto
next
  case (Cons x xs)
  then show ?case by (cases ys) auto
qed

abbreviation committed :: "SnapshotAccount \<Rightarrow> string \<times> string \<times> string option \<times> string" where
  "committed a \<equiv> (sa_owner a, sa_lamports a, sa_rentEpoch a, sa_dataBase64 a)"

lemma row_preimage_inj:
  assumes "row_preimage a = row_preimage b" "row_shape sha a" "row_shape sha b" "CHR 0x00 \<notin> set (sa_owner a)" "CHR 0x00 \<notin> set (sa_owner b)"
  shows "committed a = committed b"
proof -
  have "nullish (sa_rentEpoch a) ''null'' = nullish (sa_rentEpoch b) ''null''" "sa_owner a = sa_owner b" "sa_lamports a = sa_lamports b"
      "sa_dataBase64 a = sa_dataBase64 b"
    using assms by (auto simp: row_preimage_def row_shape_def until_nul)
  moreover from this have "sa_rentEpoch a = sa_rentEpoch b"
    using assms(2,3) by (cases "sa_rentEpoch a"; cases "sa_rentEpoch b") (auto simp: row_shape_def)
  ultimately show ?thesis by simp
qed

lemma rows_equal:
  assumes "\<forall>a \<in> set xs. row_shape sha a" "\<forall>b \<in> set ys. row_shape sha b" "\<forall>a \<in> set xs \<union> set ys. CHR 0x00 \<notin> set (sa_owner a)"
    and "inj_on sha (row_preimage ` (set xs \<union> set ys))" "map sa_hash xs = map sa_hash ys"
  shows "map committed xs = map committed ys"
proof -
  have "length xs = length ys" using assms(5) by (metis length_map)
  then show ?thesis using assms
  proof (induction xs ys rule: list_induct2)
    case Nil
    then show ?case by simp
  next
    case (Cons x xs y ys)
    have shapes: "row_shape sha x" "row_shape sha y" "sa_hash x = sa_hash y" using Cons.prems by simp_all
    then have "sha (row_preimage x) = sha (row_preimage y)" by (simp add: row_shape_def)
    then have "row_preimage x = row_preimage y" by (rule inj_onD [OF Cons.prems(4)]) simp_all
    then have "committed x = committed y" by (rule row_preimage_inj) (use shapes Cons.prems(3) in simp_all)
    moreover have "inj_on sha (row_preimage ` (set xs \<union> set ys))" by (rule inj_on_subset [OF Cons.prems(4)]) auto
    then have "map committed xs = map committed ys" using Cons.prems by (intro Cons.IH) simp_all
    ultimately show ?case by simp
  qed
qed

text \<open>C28: 
  C42. Two snapshots of the same keys with the same \<open>snapshotHash\<close> hold the same owner, lamports, rent
  epoch and data of every account, as long as SHA-256, whose hexadecimal digest has 64 characters, does
  not collide on the strings these two snapshots hash, and no owner contains the separator.
\<close>

lemma snapshot_hash_binds:
  assumes "captureCoherentSnapshotV2 sha encode node getSlot getBlockTime req n = (n', Inr s)"
    and "captureCoherentSnapshotV2 sha encode2 node2 getSlot2 getBlockTime2 req2 m = (m', Inr t)"
    and digest: "\<And>x. length (sha x) = 64"
    and free: "inj_on sha (hashed s \<union> hashed t)"
    and owners: "\<forall>a \<in> set (cs_accounts s) \<union> set (cs_accounts t). CHR 0x00 \<notin> set (sa_owner a)"
    and keys: "map sa_pubkey (cs_accounts s) = map sa_pubkey (cs_accounts t)"
    and hash: "cs_snapshotHash s = cs_snapshotHash t"
  shows "map committed (cs_accounts s) = map committed (cs_accounts t)"
proof -
  let ?p = "\<lambda>a. (sa_pubkey a, sa_hash a)"
  note rows = capture_rows [OF assms(1)] capture_rows [OF assms(2)]
  have "sha (manifest_preimage s) = sha (manifest_preimage t)" using rows(2,4) hash by simp
  then have same: "manifest_preimage s = manifest_preimage t" by (rule inj_onD [OF free]) (simp_all add: hashed_def)
  have "\<forall>p \<in> set (map ?p (cs_accounts s)) \<union> set (map ?p (cs_accounts t)). length (snd p) = 64"
    using rows(1,3) digest by (auto simp: row_shape_def)
  moreover have "map fst (map ?p (cs_accounts s)) = map fst (map ?p (cs_accounts t))" using keys by (simp add: o_def)
  ultimately have "map ?p (cs_accounts s) = map ?p (cs_accounts t)"
    using same unfolding manifest_preimage_def snapshot_preimage_def by (blast intro: blocks_unique)
  then have "map snd (map ?p (cs_accounts s)) = map snd (map ?p (cs_accounts t))" by (rule arg_cong)
  then have "map sa_hash (cs_accounts s) = map sa_hash (cs_accounts t)" by (simp add: o_def)
  moreover have "inj_on sha (row_preimage ` (set (cs_accounts s) \<union> set (cs_accounts t)))"
    by (rule inj_on_subset [OF free]) (auto simp: hashed_def)
  ultimately show ?thesis using rows_equal [OF rows(1) rows(3) owners] by blast
qed

text \<open>The capture of the sample at slots seven and eight, under a digest that tells the five strings apart.\<close>

definition sample_sha :: "string \<Rightarrow> string" where
  "sample_sha x = replicate 64 (if take 1 x = ''1'' then CHR ''z'' else char_of (length x))"

lemma sample_row: "row_preimage (toRow sha e (raw_account k n (sample_reply j))) =
    ''owner'' @ CHR 0x00 # ''1'' @ CHR 0x00 # ''0'' @ CHR 0x00 # base64_encode (replicate j 0)"
proof -
  have "int_string (js_number 1) = ''1''" "int_string (js_number 0) = ''0''" by code_simp+
  then show ?thesis by (simp add: row_preimage_def toRow_def raw_account_def sample_reply_def)
qed

lemma sample_order: "sample_fee_config \<le> CLOCK_SYSVAR" "CLOCK_SYSVAR \<le> EPOCH_SCHEDULE_SYSVAR" "EPOCH_SCHEDULE_SYSVAR \<le> RENT_SYSVAR"
    "\<not> RENT_SYSVAR \<le> sample_fee_config" "\<not> EPOCH_SCHEDULE_SYSVAR \<le> sample_fee_config" "CLOCK_SYSVAR \<le> RENT_SYSVAR" "\<not> CLOCK_SYSVAR \<le> sample_fee_config"
    "\<not> RENT_SYSVAR \<le> EPOCH_SCHEDULE_SYSVAR" "\<not> RENT_SYSVAR \<le> CLOCK_SYSVAR" "\<not> EPOCH_SCHEDULE_SYSVAR \<le> CLOCK_SYSVAR"
  by code_simp+

lemma sample_sorted: "sort_key sa_pubkey (ga_rows (sample_gathered sha n)) =
    [toRow sha False (raw_account sample_fee_config (n + 1) (sample_reply 21)), toRow sha True (raw_account CLOCK_SYSVAR n (sample_reply 40)),
     toRow sha False (raw_account EPOCH_SCHEDULE_SYSVAR (n + 1) (sample_reply 33)), toRow sha False (raw_account RENT_SYSVAR (n + 1) (sample_reply 17))]"
  by (simp add: sample_gathered_def sample_order)

lemma sample_hash [simp]: "sa_hash (toRow sha e (raw_account k n (sample_reply j))) = sha (''owner'' @ CHR 0x00 # ''1'' @ CHR 0x00 # ''0'' @ CHR 0x00 # base64_encode (replicate j 0))"
  using toRow_shape [of sha e "raw_account k n (sample_reply j)"] by (simp add: row_shape_def sample_row)

lemma sample_strings: "sample_sha (''owner'' @ CHR 0x00 # ''1'' @ CHR 0x00 # ''0'' @ CHR 0x00 # base64_encode (replicate j 0)) =
    replicate 64 (char_of (10 + length (base64_encode (replicate j 0))))"
  by (simp add: sample_sha_def)

lemma sample_lengths: "length (base64_encode (replicate 21 0)) = 28" "length (base64_encode (replicate 40 0)) = 56"
    "length (base64_encode (replicate 33 0)) = 44" "length (base64_encode (replicate 17 0)) = 24"
  by code_simp+

lemma snapshot_hash_binds_witness:
  "\<exists>s t. sample_capture sample_sha 7 = (9, Inr s) \<and> sample_capture sample_sha 8 = (10, Inr t) \<and> cs_captureSlotHigh s \<noteq> cs_captureSlotHigh t \<and>
     map committed (cs_accounts s) = map committed (cs_accounts t)"
proof -
  obtain s where s: "sample_capture sample_sha 7 = (9, Inr s)" "cs_accounts s = sort_key sa_pubkey (ga_rows (sample_gathered sample_sha 7))"
      "cs_captureSlotHigh s = 7" "cs_clock s = Some sample_clock" "cs_rent s = Some sample_rent" "cs_epochSchedule s = Some sample_schedule"
    using sample_captured [of 7 sample_sha] by auto
  obtain t where t: "sample_capture sample_sha 8 = (10, Inr t)" "cs_accounts t = sort_key sa_pubkey (ga_rows (sample_gathered sample_sha 8))"
      "cs_captureSlotHigh t = 8" "cs_clock t = Some sample_clock" "cs_rent t = Some sample_rent" "cs_epochSchedule t = Some sample_schedule"
    using sample_captured [of 8 sample_sha] by auto
  have m: "manifest_preimage s = manifest_preimage t"
    by (simp add: manifest_preimage_def s t sample_sorted)
  have fee_head: "sample_fee_config = CHR ''1'' # replicate 31 CHR ''1''" by code_simp
  have one: "take 1 (manifest_preimage s) = ''1''"
    by (simp add: manifest_preimage_def snapshot_preimage_def s sample_sorted fee_head)
  then have sm: "sample_sha (manifest_preimage s) = replicate 64 CHR ''z''" by (simp add: sample_sha_def)
  have rows: "row_preimage ` set (cs_accounts t) = row_preimage ` set (cs_accounts s)"
    by (simp add: s t sample_sorted sample_row)
  have chars: "char_of (38 :: nat) = CHR ''&''" "char_of (66 :: nat) = CHR ''B''" "char_of (54 :: nat) = CHR ''6''"
      "char_of (34 :: nat) = CHR 0x22"
    by code_simp+
  let ?r = "\<lambda>j. ''owner'' @ CHR 0x00 # ''1'' @ CHR 0x00 # ''0'' @ CHR 0x00 # base64_encode (replicate j 0)"
  have "distinct (map sample_sha (manifest_preimage s # map ?r [21, 40, 33, 17]))"
    by (simp add: sm sample_strings sample_lengths chars replicate_eq_replicate del: append_Cons append_Nil)
  moreover have "hashed s = set (manifest_preimage s # map ?r [21, 40, 33, 17])"
    by (simp add: hashed_def s sample_sorted sample_row)
  ultimately have "inj_on sample_sha (hashed s)" by (simp only: distinct_map)
  then have "inj_on sample_sha (hashed s \<union> hashed t)" by (simp add: hashed_def m rows)
  moreover have "cs_snapshotHash s = cs_snapshotHash t"
    using capture_rows(2) [OF s(1) [unfolded sample_capture_def]] capture_rows(2) [OF t(1) [unfolded sample_capture_def]] m by simp
  moreover have "\<forall>a \<in> set (cs_accounts s) \<union> set (cs_accounts t). CHR 0x00 \<notin> set (sa_owner a)"
    by (simp add: s t sample_sorted toRow_def raw_account_def sample_reply_def)
  moreover have "map sa_pubkey (cs_accounts s) = map sa_pubkey (cs_accounts t)" by (simp add: s t sample_sorted)
  ultimately have "map committed (cs_accounts s) = map committed (cs_accounts t)"
    using snapshot_hash_binds [OF s(1) [unfolded sample_capture_def] t(1) [unfolded sample_capture_def]] by (simp add: sample_sha_def)
  then show ?thesis using s t by (intro exI [of _ s] exI [of _ t] conjI) simp_all
qed

text \<open>
  The rent epoch of a rent-exempt account is the greatest 64-bit number. A node writes it as a JSON
  number, so the row that is hashed and replayed holds a number that has no 64-bit representation.
\<close>

lemma rent_epoch_is_past_u64:
  "na_rentEpoch v = Some (json_number (2 ^ 64 - 1)) \<Longrightarrow> rw_rentEpoch (raw_account k s v) = Some (2 ^ 64)"
proof -
  have "bit_length 18446744073709551615 = 64" by (simp add: bit_length.simps)
  then have "js_number 18446744073709551615 = 18446744073709551616" by (simp add: js_number_def)
  then show "na_rentEpoch v = Some (json_number (2 ^ 64 - 1)) \<Longrightarrow> rw_rentEpoch (raw_account k s v) = Some (2 ^ 64)"
    by (simp add: raw_account_def)
qed

lemma rent_epoch_is_past_u64_witness:
  "rw_rentEpoch (raw_account CLOCK_SYSVAR 7 (sample_reply 40 \<lparr>na_rentEpoch := Some (json_number (2 ^ 64 - 1))\<rparr>)) = Some (2 ^ 64)"
  by (rule rent_epoch_is_past_u64) simp

end
