(* ===== verification/EventPipeline.thy ===== *)
theory EventPipeline
  imports Base58 Amounts Doubles "HOL-Library.Sublist"
begin

text \<open>
  The bounded event pipeline, \<open>packages/adapters/src/event-pipeline.ts\<close>: the program stack of a log block,
  the parser, and the queue between the socket and the recorder. The two callbacks are arguments over a
  world, and may throw. A turn of the event loop is an explicit step.
\<close>

section \<open>The program stack\<close>

definition is_word :: "char \<Rightarrow> bool" where
  "is_word c = (let n = of_char c :: nat in 48 \<le> n \<and> n \<le> 57 \<or> 65 \<le> n \<and> n \<le> 90 \<or> 97 \<le> n \<and> n \<le> 122 \<or> n = 95)"

definition after :: "string \<Rightarrow> string \<Rightarrow> string option" where
  "after p s = (if take (length p) s = p then Some (drop (length p) s) else None)"

text \<open>\<open>/^Program (\S+) invoke \[(\d+)\]$/\<close>, \<open>/^Program \S+ (success|failed)/\<close> and \<open>/^Program log: Instruction: (\w+)$/\<close>.\<close>

definition invoke_of :: "string \<Rightarrow> string option" where
  "invoke_of line = (case after ''Program '' line of None \<Rightarrow> None
     | Some r \<Rightarrow>
       (let p = takeWhile (\<lambda>c. \<not> is_space c) r
        in case after '' invoke ['' (dropWhile (\<lambda>c. \<not> is_space c) r) of None \<Rightarrow> None
           | Some t \<Rightarrow> if p \<noteq> [] \<and> t \<noteq> [] \<and> last t = CHR '']'' \<and> butlast t \<noteq> [] \<and> list_all is_digit (butlast t) then Some p else None))"

definition closes_frame :: "string \<Rightarrow> bool" where
  "closes_frame line = (case after ''Program '' line of None \<Rightarrow> False
     | Some r \<Rightarrow>
       (let t = dropWhile (\<lambda>c. \<not> is_space c) r
        in takeWhile (\<lambda>c. \<not> is_space c) r \<noteq> [] \<and> (after '' success'' t \<noteq> None \<or> after '' failed'' t \<noteq> None)))"

definition logged_instruction :: "string \<Rightarrow> string option" where
  "logged_instruction line = (case after ''Program log: Instruction: '' line of None \<Rightarrow> None
     | Some w \<Rightarrow> if w \<noteq> [] \<and> list_all is_word w then Some w else None)"

fun scan_stack :: "string \<Rightarrow> string list \<Rightarrow> string list \<Rightarrow> string option" where
  "scan_stack programId stack [] = None"
| "scan_stack programId stack (line # logs) =
    (case invoke_of line of Some p \<Rightarrow> scan_stack programId (p # stack) logs
     | None \<Rightarrow>
       if closes_frame line then scan_stack programId (tl stack) logs
       else (case logged_instruction line of
           Some ix \<Rightarrow> if stack \<noteq> [] \<and> hd stack = programId then Some ix else scan_stack programId stack logs
         | None \<Rightarrow> scan_stack programId stack logs))"

definition instructionForProgram :: "string list \<Rightarrow> string \<Rightarrow> string option" where
  "instructionForProgram logs programId = scan_stack programId [] logs"

fun pumpInstructionFromLogs :: "string list \<Rightarrow> string option" where
  "pumpInstructionFromLogs [] = None"
| "pumpInstructionFromLogs (line # logs) = (case logged_instruction line of Some ix \<Rightarrow> Some ix | None \<Rightarrow> pumpInstructionFromLogs logs)"

section \<open>The parser\<close>

record ProgramLogEvent =
  le_signature :: string
  le_slot :: int
  le_programId :: string
  le_logs :: "string list"
  le_commitment :: string
  le_receivedMonotonicMs :: int
  le_receivedUtcMs :: int
  le_err :: "string option"

datatype EventKind = TRADE | MIGRATION | LAUNCH | CONFIG | UNKNOWN

record ParsedEvent =
  pe_signature :: string
  pe_slot :: int
  pe_programId :: string
  pe_kind :: EventKind
  pe_instruction :: "string option"
  pe_mint :: "string option"
  pe_pool :: "string option"
  pe_commitment :: string
  pe_receivedMonotonicMs :: int
  pe_receivedUtcMs :: int
  pe_err :: "string option"

definition TRADE_INSTRUCTIONS :: "string list" where
  "TRADE_INSTRUCTIONS = [''Buy'', ''Sell'', ''BuyV2'', ''SellV2'', ''BuyExactQuoteInV2'', ''buy'', ''sell'']"

definition MIGRATION_INSTRUCTIONS :: "string list" where
  "MIGRATION_INSTRUCTIONS = [''Migrate'', ''migrate'', ''CreatePool'', ''create_pool'']"

definition SYSTEM_ADDRESSES :: "string list" where
  "SYSTEM_ADDRESSES = [''11111111111111111111111111111111'', ''TokenkegQfeZyiNwAJbNbGKPFXCWuBvf9Ss623VQ5DA'',
     ''TokenzQdBNbLqP5VEhdkAS6EPFLC1PHnBqCXEpPxuEb'', ''ATokenGPvbdGVxr1b2hvZbsiqW5xWH25efTNsLJA8knL'',
     ''ComputeBudget111111111111111111111111111111'', ''So11111111111111111111111111111111111111112'']"

text \<open>A match between two word boundaries of word characters alone is a whole run of word characters.\<close>

function word_runs :: "string \<Rightarrow> string list" where
  "word_runs [] = []"
| "word_runs (c # s) = (if is_word c then (c # takeWhile is_word s) # word_runs (dropWhile is_word s) else word_runs s)"
  by pat_completeness auto
termination
  by (relation "measure length") (auto simp: le_imp_less_Suc length_dropWhile_le)

definition addressesIn :: "string list \<Rightarrow> string list" where
  "addressesIn logs = concat (map (\<lambda>line. filter (\<lambda>w. 32 \<le> length w \<and> length w \<le> 44 \<and> list_all (\<lambda>c. c \<in> set ALPHABET) w) (word_runs line)) logs)"

definition lower :: "string \<Rightarrow> string" where
  "lower s = map (\<lambda>c. let n = of_char c :: nat in if 65 \<le> n \<and> n \<le> 90 then char_of (n + 32) else c) s"

definition mentions :: "string \<Rightarrow> string list \<Rightarrow> bool" where
  "mentions s ps = list_ex (\<lambda>p. list_ex (\<lambda>t. prefix p t) (suffixes (lower s))) ps"

definition kind_of :: "string option \<Rightarrow> EventKind" where
  "kind_of ix = (case ix of None \<Rightarrow> UNKNOWN
     | Some i \<Rightarrow>
       if i \<in> set MIGRATION_INSTRUCTIONS then MIGRATION
       else if i \<in> set TRADE_INSTRUCTIONS then TRADE
       else if mentions i [''create'', ''initialize''] then LAUNCH
       else if mentions i [''config'', ''fee'', ''authority'', ''pause''] then CONFIG
       else UNKNOWN)"

definition nth_of :: "'a list \<Rightarrow> nat \<Rightarrow> 'a option" where
  "nth_of xs k = (if k < length xs then Some (xs ! k) else None)"

definition parseEvent :: "ProgramLogEvent \<Rightarrow> ParsedEvent option" where
  "parseEvent e =
    (let ix = (case instructionForProgram (le_logs e) (le_programId e) of Some i \<Rightarrow> Some i | None \<Rightarrow> pumpInstructionFromLogs (le_logs e));
         kind = kind_of ix
     in if kind = UNKNOWN then None
     else let addrs = filter (\<lambda>a. a \<notin> set SYSTEM_ADDRESSES \<and> a \<noteq> le_programId e) (addressesIn (le_logs e));
              trustworthy = (kind = TRADE \<or> kind = LAUNCH)
          in Some \<lparr>pe_signature = le_signature e, pe_slot = le_slot e, pe_programId = le_programId e, pe_kind = kind, pe_instruction = ix,
               pe_mint = (if trustworthy then nth_of addrs 0 else None), pe_pool = (if trustworthy then nth_of addrs 1 else None),
               pe_commitment = le_commitment e, pe_receivedMonotonicMs = le_receivedMonotonicMs e, pe_receivedUtcMs = le_receivedUtcMs e,
               pe_err = le_err e\<rparr>)"

section \<open>The queue\<close>

record PipelineCounters =
  pc_received :: nat
  pc_parsed :: nat
  pc_unknown :: nat
  pc_duplicates :: nat
  pc_dropped :: nat
  pc_persisted :: nat
  pc_unknownSampled :: nat
  pc_queueHighWater :: nat
  pc_bytesIn :: nat

text \<open>\<open>onEvent\<close> and \<open>onUnknownSample\<close> act on a world; their boolean is false when they throw.\<close>

record 'w PipelineOptions =
  po_maxQueue :: "int option"
  po_unknownSampleRate :: "nat option"
  po_onEvent :: "ParsedEvent \<Rightarrow> 'w \<Rightarrow> 'w \<times> bool"
  po_onUnknownSample :: "ProgramLogEvent \<Rightarrow> 'w \<Rightarrow> 'w \<times> bool"

text \<open>The pipeline, the world its callbacks act on, and the turns set by \<open>setImmediate\<close> that have not run.\<close>

record 'w EventPipeline =
  ep_counters :: PipelineCounters
  ep_queue :: "ProgramLogEvent list"
  ep_seen :: "string list"
  ep_unknownSeen :: nat
  ep_draining :: bool
  ep_scheduled :: bool
  ep_turns :: nat
  ep_world :: 'w

definition new_pipeline :: "'w \<Rightarrow> 'w EventPipeline" where
  "new_pipeline w = \<lparr>ep_counters = \<lparr>pc_received = 0, pc_parsed = 0, pc_unknown = 0, pc_duplicates = 0, pc_dropped = 0, pc_persisted = 0,
     pc_unknownSampled = 0, pc_queueHighWater = 0, pc_bytesIn = 0\<rparr>, ep_queue = [], ep_seen = [], ep_unknownSeen = 0, ep_draining = False,
     ep_scheduled = False, ep_turns = 0, ep_world = w\<rparr>"

definition schedule :: "'w EventPipeline \<Rightarrow> 'w EventPipeline" where
  "schedule s = (if ep_scheduled s then s else s\<lparr>ep_scheduled := True, ep_turns := Suc (ep_turns s)\<rparr>)"

definition max_queue :: "'w PipelineOptions \<Rightarrow> int" where
  "max_queue opts = nullish (po_maxQueue opts) 10000"

definition count :: "(PipelineCounters \<Rightarrow> PipelineCounters) \<Rightarrow> 'w EventPipeline \<Rightarrow> 'w EventPipeline" where
  "count f s = s\<lparr>ep_counters := f (ep_counters s)\<rparr>"

definition offer :: "'w PipelineOptions \<Rightarrow> ProgramLogEvent \<Rightarrow> 'w EventPipeline \<Rightarrow> 'w EventPipeline \<times> bool" where
  "offer opts e s =
    (let s1 = count (\<lambda>c. c\<lparr>pc_received := pc_received c + 1, pc_bytesIn := pc_bytesIn c + sum_list (map length (le_logs e))\<rparr>) s
     in if int (length (ep_queue s1)) \<ge> max_queue opts then (count (\<lambda>c. c\<lparr>pc_dropped := pc_dropped c + 1\<rparr>) s1, False)
     else let s2 = s1\<lparr>ep_queue := ep_queue s1 @ [e]\<rparr>;
              s3 = (if pc_queueHighWater (ep_counters s2) < length (ep_queue s2)
                    then count (\<lambda>c. c\<lparr>pc_queueHighWater := length (ep_queue s2)\<rparr>) s2 else s2)
          in (schedule s3, True))"

definition event_key :: "ProgramLogEvent \<Rightarrow> string" where
  "event_key e = le_signature e @ CHR '':'' # le_programId e"

definition SEEN_LIMIT :: nat where "SEEN_LIMIT = 50000"

definition remember :: "string \<Rightarrow> 'w EventPipeline \<Rightarrow> 'w EventPipeline" where
  "remember key s = (let seen = js_add key (ep_seen s) in s\<lparr>ep_seen := (if SEEN_LIMIT < length seen then [] else seen)\<rparr>)"

text \<open>One event of the queue; false when a callback threw.\<close>

definition decide :: "'w PipelineOptions \<Rightarrow> ProgramLogEvent \<Rightarrow> 'w EventPipeline \<Rightarrow> 'w EventPipeline \<times> bool" where
  "decide opts e s =
    (if event_key e \<in> set (ep_seen s) then (count (\<lambda>c. c\<lparr>pc_duplicates := pc_duplicates c + 1\<rparr>) s, True)
     else let s1 = remember (event_key e) s
          in case parseEvent e of
              None \<Rightarrow>
                (let s2 = count (\<lambda>c. c\<lparr>pc_unknown := pc_unknown c + 1\<rparr>) s1\<lparr>ep_unknownSeen := ep_unknownSeen s1 + 1\<rparr>;
                     rate = nullish (po_unknownSampleRate opts) 1000
                 in if rate \<noteq> 0 \<and> ep_unknownSeen s2 mod rate = 0
                    then (case po_onUnknownSample opts e (ep_world s2) of
                       (w, ok) \<Rightarrow> (count (\<lambda>c. c\<lparr>pc_unknownSampled := pc_unknownSampled c + 1\<rparr>) s2\<lparr>ep_world := w\<rparr>, ok))
                    else (s2, True))
            | Some p \<Rightarrow>
                (let s2 = count (\<lambda>c. c\<lparr>pc_parsed := pc_parsed c + 1, pc_persisted := pc_persisted c + 1\<rparr>) s1
                 in case po_onEvent opts p (ep_world s2) of (w, ok) \<Rightarrow> (s2\<lparr>ep_world := w\<rparr>, ok)))"

fun drain_loop :: "'w PipelineOptions \<Rightarrow> nat \<Rightarrow> 'w EventPipeline \<Rightarrow> 'w EventPipeline \<times> bool" where
  "drain_loop opts 0 s = (s, True)"
| "drain_loop opts (Suc budget) s =
    (case ep_queue s of [] \<Rightarrow> (s, True)
     | e # rest \<Rightarrow>
       (case decide opts e (s\<lparr>ep_queue := rest\<rparr>) of
          (s', ok) \<Rightarrow> if ok then drain_loop opts budget s' else (s', False)))"

definition drain :: "'w PipelineOptions \<Rightarrow> 'w EventPipeline \<Rightarrow> 'w EventPipeline \<times> bool" where
  "drain opts s =
    (if ep_draining s then (s, True)
     else case drain_loop opts 256 (s\<lparr>ep_draining := True\<rparr>) of (s', ok) \<Rightarrow> (s'\<lparr>ep_draining := False\<rparr>, ok))"

text \<open>The callback of \<open>setImmediate\<close>; a throw of the drain skips the rescheduling.\<close>

definition immediate :: "'w PipelineOptions \<Rightarrow> 'w EventPipeline \<Rightarrow> 'w EventPipeline \<times> bool" where
  "immediate opts s =
    (case drain opts (s\<lparr>ep_turns := ep_turns s - 1, ep_scheduled := False\<rparr>) of
       (s', ok) \<Rightarrow> if \<not> ok then (s', False) else (if ep_queue s' \<noteq> [] then schedule s' else s', True))"

definition parsedFraction :: "'w EventPipeline \<Rightarrow> rat option" where
  "parsedFraction s =
    (let c = ep_counters s; decided = pc_parsed c + pc_unknown c
     in if decided = 0 then None else Some (fl (of_nat (pc_parsed c) / of_nat decided)))"

text \<open>What can happen to a pipeline.\<close>

inductive pipeline_step :: "'w PipelineOptions \<Rightarrow> 'w EventPipeline \<Rightarrow> 'w EventPipeline \<Rightarrow> bool" for opts where
  offered: "pipeline_step opts s (fst (offer opts e s))"
| turn: "0 < ep_turns s \<Longrightarrow> pipeline_step opts s (fst (immediate opts s))"
| drainNow: "pipeline_step opts s (fst (drain opts s))"

inductive_cases pipeline_stepE: "pipeline_step opts s t"

section \<open>Every event is accounted for\<close>

definition sample_rate :: "'w PipelineOptions \<Rightarrow> nat" where
  "sample_rate opts = nullish (po_unknownSampleRate opts) 1000"

text \<open>Each event received was dropped, waits, was a repetition, or was decided; the queue is bounded, and so is the filter.\<close>

definition accounted :: "'w PipelineOptions \<Rightarrow> 'w EventPipeline \<Rightarrow> bool" where
  "accounted opts s \<longleftrightarrow> (let c = ep_counters s in
     pc_received c = pc_dropped c + length (ep_queue s) + pc_duplicates c + pc_unknown c + pc_parsed c \<and>
     pc_persisted c = pc_parsed c \<and> ep_unknownSeen s = pc_unknown c \<and> pc_unknownSampled c = pc_unknown c div sample_rate opts \<and>
     length (ep_queue s) \<le> pc_queueHighWater c \<and> int (pc_queueHighWater c) \<le> max 0 (max_queue opts) \<and>
     distinct (ep_seen s) \<and> length (ep_seen s) = (pc_parsed c + pc_unknown c) mod (SEEN_LIMIT + 1))"

definition scheduled_once :: "'w EventPipeline \<Rightarrow> bool" where
  "scheduled_once s \<longleftrightarrow> ep_turns s = (if ep_scheduled s then 1 else 0)"

named_theorems pipe

declare count_def [pipe] remember_def [pipe] accounted_def [pipe] Let_def [pipe] max_queue_def [pipe] sample_rate_def [pipe] nullish_def [pipe]

lemma Suc_div_rate: "Suc n div r = (if r \<noteq> 0 \<and> Suc n mod r = 0 then Suc (n div r) else n div r)"
  by (cases "r = 0") (simp_all add: div_Suc)

lemma remember_length:
  assumes "key \<notin> set seen" "length seen = n mod (SEEN_LIMIT + 1)"
  shows "length (if SEEN_LIMIT < length (js_add key seen) then [] else js_add key seen) = Suc n mod (SEEN_LIMIT + 1)"
proof -
  define m where "m = n mod (SEEN_LIMIT + 1)"
  have "length (js_add key seen) = Suc m" using assms by (simp add: js_add_def m_def)
  moreover have "m < SEEN_LIMIT + 1" unfolding m_def by simp
  moreover have "Suc n mod (SEEN_LIMIT + 1) = (if Suc m = SEEN_LIMIT + 1 then 0 else Suc m)" unfolding m_def by (rule mod_Suc)
  ultimately show ?thesis by auto
qed

lemma decide_accounted:
  assumes "accounted opts s" "ep_queue s = e # rest" "decide opts e (s\<lparr>ep_queue := rest\<rparr>) = (t, ok)"
  shows "accounted opts t"
proof (cases "event_key e \<in> set (ep_seen s)")
  case True
  then show ?thesis using assms by (auto simp: decide_def pipe)
next
  case False
  let ?seen = "js_add (event_key e) (ep_seen s)" and ?c = "ep_counters s"
  let ?kept = "if SEEN_LIMIT < length ?seen then [] else ?seen"
  have kept: "length ?kept = Suc (pc_parsed ?c + pc_unknown ?c) mod (SEEN_LIMIT + 1)" "distinct ?kept"
    using assms(1) by (auto simp: remember_length [OF False] accounted_def Let_def)
  show ?thesis
  proof (cases "parseEvent e")
    case None
    note rate = Suc_div_rate [of "pc_unknown ?c" "sample_rate opts"]
    show ?thesis
      using assms False None kept rate by (auto simp: decide_def pipe split: if_splits prod.splits)
  next
    case (Some p)
    then show ?thesis using assms False kept by (auto simp: decide_def pipe split: if_splits prod.splits)
  qed
qed

lemma decide_frame:
  "decide opts e s = (t, ok) \<Longrightarrow> ep_queue t = ep_queue s \<and> ep_scheduled t = ep_scheduled s \<and> ep_turns t = ep_turns s \<and> ep_draining t = ep_draining s"
  by (auto simp: decide_def count_def remember_def Let_def split: if_splits option.splits prod.splits)

lemma drain_loop_accounted:
  "accounted opts s \<Longrightarrow> drain_loop opts budget s = (t, ok) \<Longrightarrow> accounted opts t"
proof (induction opts budget s rule: drain_loop.induct)
  case (2 opts budget s)
  show ?case
  proof (cases "ep_queue s")
    case (Cons e rest)
    obtain s' ok' where d: "decide opts e (s\<lparr>ep_queue := rest\<rparr>) = (s', ok')" by fastforce
    have "accounted opts s'" by (rule decide_accounted [OF 2(2) Cons d])
    then show ?thesis using 2 Cons d by (auto split: if_splits)
  qed (use 2 in simp)
qed simp

lemma drain_loop_frame:
  "drain_loop opts budget s = (t, ok) \<Longrightarrow> ep_scheduled t = ep_scheduled s \<and> ep_turns t = ep_turns s \<and> ep_draining t = ep_draining s"
proof (induction opts budget s rule: drain_loop.induct)
  case (2 opts budget s)
  show ?case
  proof (cases "ep_queue s")
    case (Cons e rest)
    obtain s' ok' where d: "decide opts e (s\<lparr>ep_queue := rest\<rparr>) = (s', ok')" by fastforce
    have frame: "ep_scheduled s' = ep_scheduled s" "ep_turns s' = ep_turns s" "ep_draining s' = ep_draining s"
      using decide_frame [OF d] by simp_all
    show ?thesis
    proof (cases ok')
      case True
      then have "drain_loop opts budget s' = (t, ok)" using 2(2) Cons d by simp
      then show ?thesis using 2(1) [OF Cons d [symmetric]] True frame by simp
    next
      case False
      then show ?thesis using 2(2) Cons d frame by simp
    qed
  qed (use 2 in simp)
qed simp

lemma accounted_flags [simp]:
  "accounted opts (s\<lparr>ep_draining := b\<rparr>) = accounted opts s" "accounted opts (s\<lparr>ep_scheduled := b\<rparr>) = accounted opts s"
  "accounted opts (s\<lparr>ep_turns := n\<rparr>) = accounted opts s" "accounted opts (schedule s) = accounted opts s"
  by (simp_all add: accounted_def schedule_def)

lemma drain_keeps:
  assumes "drain opts s = (t, ok)"
  shows "accounted opts s \<Longrightarrow> accounted opts t" and "ep_draining s \<or> \<not> ep_draining t" and "ep_scheduled t = ep_scheduled s" and "ep_turns t = ep_turns s"
proof -
  have "(accounted opts s \<longrightarrow> accounted opts t) \<and> (ep_draining s \<or> \<not> ep_draining t) \<and> ep_scheduled t = ep_scheduled s \<and> ep_turns t = ep_turns s"
  proof (cases "ep_draining s")
    case True
    then show ?thesis using assms by (simp add: drain_def)
  next
    case False
    then obtain u where u: "drain_loop opts 256 (s\<lparr>ep_draining := True\<rparr>) = (u, ok)" "t = u\<lparr>ep_draining := False\<rparr>"
      using assms by (auto simp: drain_def split: prod.splits)
    show ?thesis using drain_loop_frame [OF u(1)] drain_loop_accounted [OF _ u(1)] by (simp add: u(2))
  qed
  then show "accounted opts s \<Longrightarrow> accounted opts t" and "ep_draining s \<or> \<not> ep_draining t" and "ep_scheduled t = ep_scheduled s" and "ep_turns t = ep_turns s"
    by blast+
qed

lemma scheduled_once_schedule: "scheduled_once s \<Longrightarrow> scheduled_once (schedule s)"
  by (simp add: scheduled_once_def schedule_def)

lemma schedule_simps [simp]: "ep_counters (schedule s) = ep_counters s" "ep_queue (schedule s) = ep_queue s" "ep_seen (schedule s) = ep_seen s"
    "ep_unknownSeen (schedule s) = ep_unknownSeen s" "ep_draining (schedule s) = ep_draining s" "ep_world (schedule s) = ep_world s"
  by (simp_all add: schedule_def)

lemma offer_keeps:
  "accounted opts s \<Longrightarrow> accounted opts (fst (offer opts e s))"
  "scheduled_once s \<Longrightarrow> scheduled_once (fst (offer opts e s))"
  "ep_draining (fst (offer opts e s)) = ep_draining s"
proof -
  show "accounted opts s \<Longrightarrow> accounted opts (fst (offer opts e s))" by (auto simp: offer_def pipe)
  show "scheduled_once s \<Longrightarrow> scheduled_once (fst (offer opts e s))"
    by (auto simp: offer_def Let_def count_def scheduled_once_def schedule_def)
  show "ep_draining (fst (offer opts e s)) = ep_draining s" by (simp add: offer_def Let_def count_def schedule_def)
qed

definition pipeline_inv :: "'w PipelineOptions \<Rightarrow> 'w EventPipeline \<Rightarrow> bool" where
  "pipeline_inv opts s \<longleftrightarrow> accounted opts s \<and> scheduled_once s \<and> \<not> ep_draining s"

lemma immediate_keeps:
  assumes "pipeline_inv opts s" "0 < ep_turns s"
  shows "pipeline_inv opts (fst (immediate opts s))"
proof -
  let ?s = "s\<lparr>ep_turns := ep_turns s - 1, ep_scheduled := False\<rparr>"
  obtain t ok where d: "drain opts ?s = (t, ok)" by fastforce
  have "ep_turns s = 1" using assms by (auto simp: pipeline_inv_def scheduled_once_def split: if_splits)
  then have "pipeline_inv opts t"
    using drain_keeps [OF d] assms by (auto simp: pipeline_inv_def scheduled_once_def)
  then show ?thesis using d by (simp add: immediate_def pipeline_inv_def scheduled_once_schedule)
qed

lemma pipeline_inv_step: "pipeline_step opts s t \<Longrightarrow> pipeline_inv opts s \<Longrightarrow> pipeline_inv opts t"
proof (induction rule: pipeline_step.induct)
  case (offered s e)
  then show ?case by (simp add: pipeline_inv_def offer_keeps)
next
  case (turn s)
  then show ?case using immediate_keeps by blast
next
  case (drainNow s)
  obtain t ok where d: "drain opts s = (t, ok)" by fastforce
  show ?case using drain_keeps [OF d] drainNow d by (auto simp: pipeline_inv_def scheduled_once_def)
qed

lemma pipeline_reachable: "(pipeline_step opts)\<^sup>*\<^sup>* (new_pipeline w) s \<Longrightarrow> pipeline_inv opts s"
proof (induction rule: rtranclp_induct)
  case base
  show ?case by (simp add: new_pipeline_def pipeline_inv_def scheduled_once_def pipe)
next
  case (step s t)
  then show ?case by (blast intro: pipeline_inv_step)
qed

text \<open>C19: 
  C1. In every history of offers, turns of the event loop and flushes, whatever the callbacks do, every
  event received is counted in exactly one place: dropped, waiting, repeated, unknown or parsed. The queue
  and its high-water mark stay within the bound, the filter of seen keys stays within fifty thousand and
  holds one key per event decided since it was last cleared, the sample of unknown events is the integer
  part of its rate, and at most one turn is pending.
\<close>

lemma pipeline_accounts_for_every_event:
  assumes "(pipeline_step opts)\<^sup>*\<^sup>* (new_pipeline w) s"
  shows "pc_received (ep_counters s) = pc_dropped (ep_counters s) + length (ep_queue s) + pc_duplicates (ep_counters s) +
      pc_unknown (ep_counters s) + pc_parsed (ep_counters s) \<and>
    length (ep_queue s) \<le> pc_queueHighWater (ep_counters s) \<and> int (pc_queueHighWater (ep_counters s)) \<le> max 0 (max_queue opts) \<and>
    distinct (ep_seen s) \<and> length (ep_seen s) = (pc_parsed (ep_counters s) + pc_unknown (ep_counters s)) mod 50001 \<and>
    pc_unknownSampled (ep_counters s) = pc_unknown (ep_counters s) div sample_rate opts \<and>
    ep_turns s \<le> 1 \<and> \<not> ep_draining s"
  using pipeline_reachable [OF assms] by (auto simp: pipeline_inv_def accounted_def scheduled_once_def SEEN_LIMIT_def Let_def)

definition sample_event :: "string \<Rightarrow> ProgramLogEvent" where
  "sample_event sig = \<lparr>le_signature = sig, le_slot = 9, le_programId = ''P'',
     le_logs = [''Program P invoke [1]'', ''Program log: Instruction: Buy'', ''Program P success''],
     le_commitment = ''processed'', le_receivedMonotonicMs = 0, le_receivedUtcMs = 0, le_err = None\<rparr>"

text \<open>A recorder that keeps what it is given, behind a queue of two.\<close>

definition sample_options :: "ParsedEvent list PipelineOptions" where
  "sample_options = \<lparr>po_maxQueue = Some 2, po_unknownSampleRate = None, po_onEvent = (\<lambda>p w. (w @ [p], True)), po_onUnknownSample = (\<lambda>e w. (w, True))\<rparr>"

definition sample_run :: "ParsedEvent list EventPipeline" where
  "sample_run = fst (offer sample_options (sample_event ''b'') (fst (offer sample_options (sample_event ''a'')
     (fst (offer sample_options (sample_event ''a'') (new_pipeline []))))))"

lemma offered_reachable: "(pipeline_step opts)\<^sup>*\<^sup>* s t \<Longrightarrow> (pipeline_step opts)\<^sup>*\<^sup>* s (fst (offer opts e t))"
  by (rule rtranclp.rtrancl_into_rtrancl [of _ s t]) (simp_all add: pipeline_step.offered)

lemma sample_run_reached: "(pipeline_step sample_options)\<^sup>*\<^sup>* (new_pipeline []) sample_run"
  unfolding sample_run_def by (intro offered_reachable rtranclp.rtrancl_refl)

lemma sample_run_counts: "pc_received (ep_counters sample_run) = 3 \<and> pc_dropped (ep_counters sample_run) = 1 \<and>
    pc_duplicates (ep_counters sample_run) = 0 \<and> pc_unknown (ep_counters sample_run) = 0 \<and> pc_parsed (ep_counters sample_run) = 0"
  by (simp add: sample_run_def offer_def new_pipeline_def sample_options_def count_def Let_def max_queue_def schedule_def)

lemma pipeline_accounts_for_every_event_witness: "length (ep_queue sample_run) = 2 \<and> pc_queueHighWater (ep_counters sample_run) = 2"
  using pipeline_accounts_for_every_event [OF sample_run_reached] sample_run_counts
  by (simp add: max_queue_def sample_options_def)

section \<open>The queue empties\<close>

definition returns :: "'w PipelineOptions \<Rightarrow> bool" where
  "returns opts \<longleftrightarrow> (\<forall>p w. snd (po_onEvent opts p w)) \<and> (\<forall>e w. snd (po_onUnknownSample opts e w))"

lemma decide_returns: "returns opts \<Longrightarrow> snd (decide opts e s)"
  by (simp add: decide_def returns_def Let_def case_prod_beta split: option.splits)

lemma drain_loop_takes: "returns opts \<Longrightarrow> drain_loop opts budget s = (t, ok) \<Longrightarrow> ok \<and> ep_queue t = drop budget (ep_queue s)"
proof (induction opts budget s rule: drain_loop.induct)
  case (2 opts budget s)
  show ?case
  proof (cases "ep_queue s")
    case (Cons e rest)
    obtain s' ok' where d: "decide opts e (s\<lparr>ep_queue := rest\<rparr>) = (s', ok')" by fastforce
    have "ok'" using decide_returns [OF 2(2), of e "s\<lparr>ep_queue := rest\<rparr>"] d by simp
    then have "drain_loop opts budget s' = (t, ok)" using 2(3) Cons d by simp
    then show ?thesis using 2(1) [OF Cons d [symmetric] \<open>ok'\<close> 2(2)] decide_frame [OF d] Cons by simp
  qed (use 2 in simp)
qed simp

lemma drain_takes: "returns opts \<Longrightarrow> \<not> ep_draining s \<Longrightarrow> drain opts s = (t, ok) \<Longrightarrow> ok \<and> ep_queue t = drop 256 (ep_queue s)"
  using drain_loop_takes [of opts 256 "s\<lparr>ep_draining := True\<rparr>"] by (auto simp: drain_def split: prod.splits)

definition awaited :: "'w EventPipeline \<Rightarrow> bool" where
  "awaited s \<longleftrightarrow> (ep_queue s = [] \<or> ep_scheduled s)"

lemma awaited_step:
  assumes "returns opts" "pipeline_step opts s t" "pipeline_inv opts s" "awaited s"
  shows "awaited t"
  using assms(2)
proof cases
  case (offered e)
  then show ?thesis using assms(4) by (auto simp: offer_def Let_def count_def awaited_def schedule_def)
next
  case turn
  let ?s = "s\<lparr>ep_turns := ep_turns s - 1, ep_scheduled := False\<rparr>"
  obtain u ok where d: "drain opts ?s = (u, ok)" by fastforce
  have "ok" using drain_takes [OF assms(1) _ d] assms(3) by (simp add: pipeline_inv_def)
  then show ?thesis using turn d by (auto simp: immediate_def awaited_def schedule_def)
next
  case drainNow
  obtain u ok where d: "drain opts s = (u, ok)" by fastforce
  have "ep_queue u = drop 256 (ep_queue s)" "ep_scheduled u = ep_scheduled s"
    using drain_takes [OF assms(1) _ d] drain_keeps(3) [OF d] assms(3) by (simp_all add: pipeline_inv_def)
  then show ?thesis using drainNow d assms(4) by (auto simp: awaited_def)
qed

lemma reachable_awaited:
  assumes "returns opts"
  shows "(pipeline_step opts)\<^sup>*\<^sup>* (new_pipeline w) s \<Longrightarrow> awaited s"
proof (induction rule: rtranclp_induct)
  case base
  show ?case by (simp add: new_pipeline_def awaited_def)
next
  case (step s t)
  then show ?case using awaited_step [OF assms step(2) pipeline_reachable [OF step(1)]] by simp
qed

lemma immediate_takes:
  assumes "returns opts" "\<not> ep_draining s"
  shows "ep_queue (fst (immediate opts s)) = drop 256 (ep_queue s)"
proof -
  let ?s = "s\<lparr>ep_turns := ep_turns s - 1, ep_scheduled := False\<rparr>"
  obtain u ok where d: "drain opts ?s = (u, ok)" by fastforce
  then show ?thesis using drain_takes [OF assms(1) _ d] assms(2) by (simp add: immediate_def)
qed

lemma turns_take:
  assumes "returns opts"
  shows "(pipeline_step opts)\<^sup>*\<^sup>* (new_pipeline w) s \<Longrightarrow> (\<forall>k < n. 256 * k < length (ep_queue s)) \<Longrightarrow>
    ep_queue (((\<lambda>s. fst (immediate opts s)) ^^ n) s) = drop (256 * n) (ep_queue s) \<and>
    (pipeline_step opts)\<^sup>*\<^sup>* (new_pipeline w) (((\<lambda>s. fst (immediate opts s)) ^^ n) s)"
proof (induction n)
  case (Suc n)
  let ?t = "((\<lambda>s. fst (immediate opts s)) ^^ n) s"
  have t: "ep_queue ?t = drop (256 * n) (ep_queue s)" "(pipeline_step opts)\<^sup>*\<^sup>* (new_pipeline w) ?t" using Suc by auto
  have inv: "pipeline_inv opts ?t" by (rule pipeline_reachable [OF t(2)])
  have "256 * n < length (ep_queue s)" using Suc.prems(2) by simp
  then have "ep_queue ?t \<noteq> []" using t(1) by simp
  then have "0 < ep_turns ?t" using reachable_awaited [OF assms t(2)] inv by (simp add: awaited_def pipeline_inv_def scheduled_once_def)
  then have "pipeline_step opts ?t (fst (immediate opts ?t))" by (rule pipeline_step.turn)
  then have "(pipeline_step opts)\<^sup>*\<^sup>* (new_pipeline w) (fst (immediate opts ?t))" using t(2) by (rule rtranclp.rtrancl_into_rtrancl [rotated])
  moreover have "ep_queue (fst (immediate opts ?t)) = drop (256 * Suc n) (ep_queue s)"
    using immediate_takes [OF assms] inv t(1) by (simp add: pipeline_inv_def)
  ultimately show ?case by simp
qed simp

lemma turns_needed: "k < (n + 255) div 256 \<Longrightarrow> 256 * k < (n :: nat)" "n \<le> 256 * ((n + 255) div 256)"
proof -
  have "(n + 255) div 256 * 256 + (n + 255) mod 256 = n + 255" "(n + 255) mod 256 < 256" by simp_all
  then show "k < (n + 255) div 256 \<Longrightarrow> 256 * k < n" "n \<le> 256 * ((n + 255) div 256)" by linarith+
qed

text \<open>C35: 
  C2. When the callbacks return, no event waits for more than the turns the budget needs: as long as an
  event waits, a turn of the event loop is pending, each turn takes the 256 oldest events (or all of them),
  and after as many turns as the queue has started multiples of 256 it is empty.
\<close>

lemma queue_empties:
  assumes "returns opts" and "(pipeline_step opts)\<^sup>*\<^sup>* (new_pipeline w) s"
  shows "(ep_queue s = [] \<or> 0 < ep_turns s) \<and> ep_queue (fst (immediate opts s)) = drop 256 (ep_queue s) \<and>
    ep_queue (((\<lambda>s. fst (immediate opts s)) ^^ ((length (ep_queue s) + 255) div 256)) s) = []"
proof -
  have inv: "pipeline_inv opts s" by (rule pipeline_reachable [OF assms(2)])
  have 1: "ep_queue s = [] \<or> 0 < ep_turns s"
    using reachable_awaited [OF assms] inv by (auto simp: awaited_def pipeline_inv_def scheduled_once_def)
  have 2: "ep_queue (fst (immediate opts s)) = drop 256 (ep_queue s)"
    using immediate_takes [OF assms(1)] inv by (simp add: pipeline_inv_def)
  let ?n = "(length (ep_queue s) + 255) div 256"
  have "ep_queue (((\<lambda>s. fst (immediate opts s)) ^^ ?n) s) = drop (256 * ?n) (ep_queue s)"
    using turns_take [OF assms] turns_needed(1) by blast
  then have "ep_queue (((\<lambda>s. fst (immediate opts s)) ^^ ?n) s) = []" using turns_needed(2) by simp
  then show ?thesis using 1 2 by blast
qed

lemma queue_empties_witness: "0 < ep_turns sample_run"
proof -
  have "returns sample_options" by (simp add: returns_def sample_options_def)
  moreover have "ep_queue sample_run \<noteq> []"
    by (simp add: sample_run_def offer_def new_pipeline_def sample_options_def count_def Let_def max_queue_def schedule_def)
  ultimately show ?thesis using queue_empties [OF _ sample_run_reached] by simp
qed

section \<open>Whose instruction\<close>

text \<open>
  What the runtime logs, apart from the parser: messages, data and return values of the program that runs, and frames: an
  opening line with the depth, what is logged inside, the units it consumed (built-in programs have no such
  line) and the outcome.
\<close>

datatype outcome = Succeeded | Failed string

datatype log_item = Message string | Data string | Returned string | Frame string "log_item list" "string option" outcome

fun outcome_text :: "outcome \<Rightarrow> string" where
  "outcome_text Succeeded = ''success''"
| "outcome_text (Failed reason) = ''failed: '' @ reason"

fun render :: "nat \<Rightarrow> log_item \<Rightarrow> string list" where
  "render d (Message m) = [''Program log: '' @ m]"
| "render d (Data b) = [''Program data: '' @ b]"
| "render d (Returned t) = [''Program return: '' @ t]"
| "render d (Frame p items consumed outcome) =
     (''Program '' @ p @ '' invoke ['' @ decimal d @ '']'') # concat (map (render (Suc d)) items) @
     (case consumed of None \<Rightarrow> [] | Some c \<Rightarrow> [''Program '' @ p @ '' consumed '' @ c]) @
     [''Program '' @ p @ '' '' @ outcome_text outcome]"

definition render_all :: "nat \<Rightarrow> log_item list \<Rightarrow> string list" where
  "render_all d items = concat (map (render d) items)"

text \<open>The instruction a message announces, and the first one a program announces in a frame of its own, in the order of
  the log.\<close>

definition announced :: "string \<Rightarrow> string option" where
  "announced m = (if prefix ''Instruction: '' m \<and> drop 13 m \<noteq> [] \<and> (\<forall>c \<in> set (drop 13 m). is_word c) then Some (drop 13 m) else None)"

fun first_some :: "'a option list \<Rightarrow> 'a option" where
  "first_some [] = None"
| "first_some (Some x # xs) = Some x"
| "first_some (None # xs) = first_some xs"

fun own_instruction :: "string \<Rightarrow> string option \<Rightarrow> log_item \<Rightarrow> string option" where
  "own_instruction program frame (Message m) = (if frame = Some program then announced m else None)"
| "own_instruction program frame (Data b) = None"
| "own_instruction program frame (Returned t) = None"
| "own_instruction program frame (Frame q items consumed outcome) = first_some (map (own_instruction program (Some q)) items)"

text \<open>What has to be known of the texts in it: none that a program writes starts with \<open>success\<close>, \<open>failed\<close> or \<open>invoke [\<close>, and
  a program's name is a word.\<close>

definition plain_text :: "string \<Rightarrow> bool" where
  "plain_text t \<longleftrightarrow> \<not> prefix ''success'' t \<and> \<not> prefix ''failed'' t \<and> \<not> prefix ''invoke ['' t"

fun plain_log :: "log_item \<Rightarrow> bool" where
  "plain_log (Message m) = plain_text m"
| "plain_log (Data b) = plain_text b"
| "plain_log (Returned t) = plain_text t"
| "plain_log (Frame p items consumed outcome) = (p \<noteq> [] \<and> list_all (\<lambda>c. \<not> is_space c) p \<and> list_all plain_log items)"

lemma after_append [simp]: "after p (p @ s) = Some s"
  by (simp add: after_def)

lemma after_eq: "after p s = Some r \<longleftrightarrow> s = p @ r"
  by (auto simp: after_def) (metis append_take_drop_id)

lemma after_None: "after p s = None \<longleftrightarrow> \<not> prefix p s"
  using after_eq [of p s] by (cases "after p s") (auto simp: prefix_def)

lemma span_word:
  assumes "list_all (\<lambda>c. \<not> is_space c) p" "is_space c"
  shows "takeWhile (\<lambda>c. \<not> is_space c) (p @ c # s) = p" "dropWhile (\<lambda>c. \<not> is_space c) (p @ c # s) = c # s"
  using assms by (induction p) auto

lemma is_space_blank [simp]: "is_space CHR '' ''"
  by code_simp

text \<open>A line \<open>Program\<close>, a word and a text: when the parser takes it for an opening or a closing line.\<close>

lemma program_line: "after ''Program '' (''Program '' @ r) = Some r"
  by (rule after_append)

lemma invoke_of_render:
  assumes "p \<noteq> []" "list_all (\<lambda>c. \<not> is_space c) p"
  shows "invoke_of (''Program '' @ p @ '' invoke ['' @ decimal d @ '']'') = Some p"
proof -
  have "after ''Program '' (''Program '' @ p @ '' invoke ['' @ decimal d @ '']'') = Some (p @ CHR '' '' # ''invoke ['' @ decimal d @ '']'')"
    unfolding after_eq by simp
  moreover have "after '' invoke ['' (CHR '' '' # ''invoke ['' @ decimal d @ '']'') = Some (decimal d @ '']'')"
    unfolding after_eq by simp
  ultimately show ?thesis
    using assms span_word [OF assms(2) is_space_blank] decimal_digits by (simp add: invoke_of_def Let_def butlast_append)
qed

lemma not_invoke:
  assumes "list_all (\<lambda>c. \<not> is_space c) p" and "\<not> prefix ''invoke ['' t"
  shows "invoke_of (''Program '' @ p @ '' '' @ t) = None"
proof -
  have 1: "after ''Program '' (''Program '' @ p @ '' '' @ t) = Some (p @ CHR '' '' # t)" unfolding after_eq by simp
  have 2: "after '' invoke ['' (CHR '' '' # t) = None" using assms(2) unfolding after_None by simp
  show ?thesis unfolding invoke_of_def 1 using span_word [OF assms(1) is_space_blank] 2 by (simp add: Let_def)
qed

lemma closes_iff:
  assumes "p \<noteq> []" "list_all (\<lambda>c. \<not> is_space c) p"
  shows "closes_frame (''Program '' @ p @ '' '' @ t) \<longleftrightarrow> prefix ''success'' t \<or> prefix ''failed'' t"
proof -
  have 1: "after ''Program '' (''Program '' @ p @ '' '' @ t) = Some (p @ CHR '' '' # t)" unfolding after_eq by simp
  have 2: "after '' success'' (CHR '' '' # t) \<noteq> None \<longleftrightarrow> prefix ''success'' t" "after '' failed'' (CHR '' '' # t) \<noteq> None \<longleftrightarrow> prefix ''failed'' t"
    unfolding after_None by simp_all
  show ?thesis unfolding closes_frame_def 1 using assms(1) span_word [OF assms(2) is_space_blank] 2 by (simp add: Let_def)
qed

lemma outcome_closes: "prefix ''success'' (outcome_text outcome) \<or> prefix ''failed'' (outcome_text outcome)"
  "\<not> prefix ''invoke ['' (outcome_text outcome)"
  by (cases outcome; simp)+

text \<open>The lines of a running program: none opens or closes a frame, and a message is an instruction when it announces one.\<close>

lemma line_of_program:
  assumes "plain_text t"
  shows "invoke_of (''Program log: '' @ t) = None" "\<not> closes_frame (''Program log: '' @ t)"
    "invoke_of (''Program data: '' @ t) = None" "\<not> closes_frame (''Program data: '' @ t)"
    "invoke_of (''Program return: '' @ t) = None" "\<not> closes_frame (''Program return: '' @ t)"
proof -
  have w: "list_all (\<lambda>c. \<not> is_space c) ''log:''" "list_all (\<lambda>c. \<not> is_space c) ''data:''" "list_all (\<lambda>c. \<not> is_space c) ''return:''"
    by code_simp+
  show "invoke_of (''Program log: '' @ t) = None" "\<not> closes_frame (''Program log: '' @ t)"
    using not_invoke [OF w(1), of t] closes_iff [OF _ w(1), of t] assms by (simp_all add: plain_text_def)
  show "invoke_of (''Program data: '' @ t) = None" "\<not> closes_frame (''Program data: '' @ t)"
    using not_invoke [OF w(2), of t] closes_iff [OF _ w(2), of t] assms by (simp_all add: plain_text_def)
  show "invoke_of (''Program return: '' @ t) = None" "\<not> closes_frame (''Program return: '' @ t)"
    using not_invoke [OF w(3), of t] closes_iff [OF _ w(3), of t] assms by (simp_all add: plain_text_def)
qed

lemma logged_message: "logged_instruction (''Program log: '' @ m) = announced m"
proof (cases "prefix ''Instruction: '' m")
  case True
  then obtain w where m: "m = ''Instruction: '' @ w" by (auto simp: prefix_def)
  have "after ''Program log: Instruction: '' (''Program log: '' @ m) = Some w" unfolding m after_eq by simp
  then show ?thesis by (simp add: logged_instruction_def announced_def m list_all_iff)
next
  case False
  then have "after ''Program log: Instruction: '' (''Program log: '' @ m) = None" unfolding after_None by simp
  then show ?thesis using False by (simp add: logged_instruction_def announced_def)
qed

lemma logged_other: "logged_instruction (''Program data: '' @ t) = None" "logged_instruction (''Program return: '' @ t) = None"
  by (simp_all add: logged_instruction_def after_def)

lemma consumed_line:
  assumes "p \<noteq> []" "list_all (\<lambda>c. \<not> is_space c) p"
  shows "scan_stack program stack ((''Program '' @ p @ '' consumed '' @ c) # rest) = scan_stack program stack rest"
proof -
  have "invoke_of (''Program '' @ p @ '' '' @ ''consumed '' @ c) = None" by (rule not_invoke [OF assms(2)]) simp
  moreover have "\<not> closes_frame (''Program '' @ p @ '' '' @ ''consumed '' @ c)" unfolding closes_iff [OF assms] by simp
  moreover have "logged_instruction (''Program '' @ p @ '' '' @ ''consumed '' @ c) = None"
  proof -
    have "''Program '' @ p @ '' '' @ ''consumed '' @ c \<noteq> ''Program log: Instruction: '' @ w" for w
    proof
      assume "''Program '' @ p @ '' '' @ ''consumed '' @ c = ''Program log: Instruction: '' @ w"
      then have eq: "p @ CHR '' '' # ''consumed '' @ c = ''log:'' @ CHR '' '' # ''Instruction: '' @ w" by simp
      have "list_all (\<lambda>c. \<not> is_space c) ''log:''" by code_simp
      then have "CHR '' '' # ''consumed '' @ c = CHR '' '' # ''Instruction: '' @ w"
        using span_word(2) [OF assms(2) is_space_blank] span_word(2) [OF _ is_space_blank, of "''log:''"] eq by metis
      then show False by simp
    qed
    then have "after ''Program log: Instruction: '' (''Program '' @ p @ '' '' @ ''consumed '' @ c) = None"
      using after_eq [of "''Program log: Instruction: ''"] by (metis not_None_eq)
    then show ?thesis by (simp only: logged_instruction_def option.case)
  qed
  ultimately show ?thesis by simp
qed

definition or_else :: "'a option \<Rightarrow> 'a option \<Rightarrow> 'a option" where
  "or_else a b = (case a of None \<Rightarrow> b | Some x \<Rightarrow> Some x)"

lemma or_else_simps [simp]: "or_else None b = b" "or_else (Some x) b = Some x"
  by (simp_all add: or_else_def)

definition top_of :: "string list \<Rightarrow> string option" where
  "top_of stack = (if stack = [] then None else Some (hd stack))"

lemma scan_items:
  assumes "\<And>i. i \<in> set items \<Longrightarrow> \<forall>stack rest. scan_stack program stack (render d i @ rest) =
      or_else (own_instruction program (top_of stack) i) (scan_stack program stack rest)"
  shows "scan_stack program stack (concat (map (render d) items) @ rest) =
      or_else (first_some (map (own_instruction program (top_of stack)) items)) (scan_stack program stack rest)"
  using assms
proof (induction items)
  case (Cons i items)
  then show ?case by (cases "own_instruction program (top_of stack) i") simp_all
qed simp

lemma scan_message: "plain_text m \<Longrightarrow> scan_stack program stack ((''Program log: '' @ m) # rest) =
    or_else (if top_of stack = Some program then announced m else None) (scan_stack program stack rest)"
  using line_of_program(1,2) [of m] logged_message [of m]
  by (cases "announced m") (simp_all add: top_of_def del: append.simps)

lemma scan_render:
  "plain_log i \<Longrightarrow> \<forall>stack rest. scan_stack program stack (render d i @ rest) =
     or_else (own_instruction program (top_of stack) i) (scan_stack program stack rest)"
proof (induction i arbitrary: d)
  case (Message m)
  then show ?case using scan_message by (simp del: append.simps add: append_Cons append_Nil)
next
  case (Data b)
  then show ?case using line_of_program(3,4) [of b] logged_other(1) [of b] by (simp del: append.simps add: append_Cons append_Nil)
next
  case (Returned t)
  then show ?case using line_of_program(5,6) [of t] logged_other(2) [of t] by (simp del: append.simps add: append_Cons append_Nil)
next
  case (Frame p items consumed outcome)
  have p: "p \<noteq> []" "list_all (\<lambda>c. \<not> is_space c) p" and items: "list_all plain_log items"
    using Frame.prems by simp_all
  have each: "\<forall>stack rest. scan_stack program stack (render (Suc d) i @ rest) =
     or_else (own_instruction program (top_of stack) i) (scan_stack program stack rest)" if "i \<in> set items" for i
    using Frame.IH [OF that] items that by (simp add: list_all_iff)
  let ?close = "''Program '' @ p @ '' '' @ outcome_text outcome"
  let ?spent = "case consumed of None \<Rightarrow> [] | Some c \<Rightarrow> [''Program '' @ p @ '' consumed '' @ c]"
  have close: "scan_stack program (p # stack) (?close # rest) = scan_stack program stack rest" for stack rest
    using not_invoke [OF p(2) outcome_closes(2)] closes_iff [OF p, of "outcome_text outcome"] outcome_closes(1) [of outcome] by simp
  have spent: "scan_stack program (p # stack) (?spent @ ?close # rest) = scan_stack program stack rest" for stack rest
    using consumed_line [OF p] close by (cases consumed) (simp_all del: scan_stack.simps append.simps add: append_Cons append_Nil)
  show ?case
  proof (intro allI)
    fix stack rest
    have "scan_stack program stack (render d (Frame p items consumed outcome) @ rest) =
        scan_stack program (p # stack) (concat (map (render (Suc d)) items) @ ?spent @ ?close # rest)"
      using invoke_of_render [OF p, of d] by simp
    also have "\<dots> = or_else (first_some (map (own_instruction program (Some p)) items)) (scan_stack program (p # stack) (?spent @ ?close # rest))"
      using scan_items [OF each] by (simp add: top_of_def)
    also have "scan_stack program (p # stack) (?spent @ ?close # rest) = scan_stack program stack rest" by (rule spent)
    finally show "scan_stack program stack (render d (Frame p items consumed outcome) @ rest) =
        or_else (own_instruction program (top_of stack) (Frame p items consumed outcome)) (scan_stack program stack rest)" by simp
  qed
qed

text \<open>C10: For the whole log of a transaction, any nesting of frames with the messages, data and return values of the
  programs in them, the parser answers the first instruction that the program announced in a frame of its own: never
  one that a program it called, or that called it, announced. The condition is that no text a program writes
  starts with \<open>success\<close>, \<open>failed\<close> or \<open>invoke [\<close>.\<close>

lemma instruction_is_of_the_program:
  assumes "list_all plain_log items"
  shows "instructionForProgram (render_all 1 items) program = first_some (map (own_instruction program None) items)"
proof -
  have each: "\<forall>stack rest. scan_stack program stack (render 1 i @ rest) =
     or_else (own_instruction program (top_of stack) i) (scan_stack program stack rest)" if "i \<in> set items" for i
    using scan_render that assms by (simp add: list_all_iff)
  have "scan_stack program [] (concat (map (render 1) items) @ []) =
     or_else (first_some (map (own_instruction program (top_of [])) items)) (scan_stack program [] [])"
    by (rule scan_items [OF each])
  then show ?thesis by (simp add: instructionForProgram_def render_all_def top_of_def or_else_def split: option.splits)
qed

text \<open>A router that calls a token program, fails in it, and then calls the program of interest.\<close>

lemma instruction_is_of_the_program_witness:
  "instructionForProgram (render_all 1 [Frame ''Router'' [Message ''Instruction: Route'',
       Frame ''Token'' [Message ''Instruction: Transfer''] (Some ''1 of 2 compute units'') (Failed ''custom program error''),
       Frame ''Pump'' [Data ''c2Vs'', Message ''Instruction: Buy''] (Some ''1 of 2 compute units'') Succeeded] None Succeeded]) ''Pump'' = Some ''Buy''"
proof -
  let ?items = "[Frame ''Router'' [Message ''Instruction: Route'',
       Frame ''Token'' [Message ''Instruction: Transfer''] (Some ''1 of 2 compute units'') (Failed ''custom program error''),
       Frame ''Pump'' [Data ''c2Vs'', Message ''Instruction: Buy''] (Some ''1 of 2 compute units'') Succeeded] None Succeeded]"
  have "list_all plain_log ?items" by code_simp
  moreover have "first_some (map (own_instruction ''Pump'' None) ?items) = Some ''Buy''" by code_simp
  ultimately show ?thesis using instruction_is_of_the_program by metis
qed

text \<open>
  Without the condition it fails: the pattern for a closing line takes the word
  after \<open>Program\<close> for a program, and that of a program's own log lines is \<open>log:\<close>. A program that logs
  that its check failed closes its own frame: its next instruction is then nobody's, or that of the program below it.
\<close>

lemma own_log_closes_the_frame:
  "instructionForProgram (render_all 1 [Frame ''Router'' [Frame ''Pump'' [Message ''failed check, retrying'',
       Message ''Instruction: Buy''] None Succeeded] None Succeeded]) ''Pump'' = None \<and>
   instructionForProgram (render_all 1 [Frame ''Router'' [Frame ''Pump'' [Message ''failed check, retrying'',
       Message ''Instruction: Buy''] None Succeeded] None Succeeded]) ''Router'' = Some ''Buy''"
  by code_simp

text \<open>
  An event that names no address is parsed and counted as a decision-useful event, although the parser is
  said to drop every event that carries no identity.
\<close>

lemma event_without_identity_is_parsed:
  "\<exists>p. parseEvent (sample_event ''a'') = Some p \<and> pe_kind p = TRADE \<and> pe_mint p = None \<and> pe_pool p = None"
proof -
  have k: "map_option (\<lambda>p. (pe_kind p, pe_mint p, pe_pool p)) (parseEvent (sample_event ''a'')) = Some (TRADE, None, None)" by code_simp
  then show ?thesis by (auto simp: map_option_eq_Some)
qed

end
