(* ===== verification/Spec2Isabelle.thy ===== *)
theory Spec2Isabelle
  imports Executor Settlement Accounting TokenAccounts FeeTiers Reservation CollectorLock MarkScheduling PaperBook MarkStore RateLimit Screening Exploration TrajectoryKernel CoherentSnapshot EventPipeline
begin

text \<open>
  \<^bold>\<open>Epitaxy: a verification development\<close>

  Epitaxy observes newly migrated Solana tokens, opens paper and shadow positions on them, settles
  what their legs would have moved, and can sign and send a bounded transaction. This development
  models the parts that decide something: bytes, policies, signatures, money, rows and locks. The
  program's own calls to the network, to the database engine, to SHA-256 and Ed25519, and to the
  vendor SDK are arguments of the definitions that use them.

  \<^bold>\<open>Theories and sources\<close> (paths under \<open>src/packages\<close> unless they start with \<open>apps\<close>)

  \<^item> \<open>Prelude\<close>: bytes, errors as sums, JavaScript maps and sets, \<open>??\<close>, bigint division, \<open>Number\<close> of a
    bigint, the fold locale shared by the settlement sweeps. \<open>Doubles\<close>: rounding to the nearest
    double as an executable function on rationals, with monotonicity and exactness.
  \<^item> \<open>Base58\<close>, \<open>Wire\<close>, \<open>Transaction\<close>, \<open>Compile\<close>: \<open>solana/src/base58.ts\<close>, \<open>transaction.ts\<close>,
    \<open>encode.ts\<close>. A transaction is a list of bytes; compiling, encoding and decoding are partial
    functions whose errors are constructors.
  \<^item> \<open>ComputeBudget\<close>, \<open>Policy\<close>: \<open>computebudget.ts\<close>, \<open>txpolicy.ts\<close>, \<open>instructionpolicy.ts\<close>,
    \<open>buildpolicy.ts\<close>. \<open>TokenAccounts\<close>: \<open>mint.ts\<close>, \<open>tokenaccount.ts\<close>, \<open>closeaccount.ts\<close>.
    \<open>FeeTiers\<close>: \<open>fee-tiers.ts\<close>.
  \<^item> \<open>Signing\<close>, \<open>Executor\<close>: \<open>execution/src/signer.ts\<close>, \<open>binding.ts\<close>, \<open>effect.ts\<close>, \<open>machine.ts\<close> with
    the intent and attempt tables of \<open>storage/src/repo.ts\<close>: a run over any answers of the network
    and any number of restarts.
  \<^item> \<open>Amounts\<close>, \<open>Settlement\<close>, \<open>Accounting\<close>: \<open>domain/src/amounts.ts\<close>, \<open>settlement.ts\<close>,
    \<open>trajectory-settlement.ts\<close>, \<open>accounting.ts\<close>, \<open>execution.ts\<close>.
  \<^item> \<open>Reservation\<close>, \<open>CollectorLock\<close>: \<open>storage/src/reservation-repo.ts\<close> on the table and indexes of
    \<open>db.ts\<close>, and \<open>collector-lock.ts\<close>. Database transactions are atomic steps of an inductive
    relation, system calls of the lock file are single steps.
  \<^item> \<open>Lifecycle\<close>: \<open>domain/src/cohort.ts\<close>, \<open>cohort-queue.ts\<close>, \<open>evidence.ts\<close>, \<open>shadow-lifecycle.ts\<close>,
    \<open>halt.ts\<close>. \<open>ShadowExit\<close>: \<open>strategy/src/exits.ts\<close>, \<open>domain/src/fill-latency.ts\<close>, the shadow
    rows of \<open>storage/src/observation-repo.ts\<close>, and the body of \<open>manageShadowBooks\<close> in
    \<open>apps/engine/src/paper.ts\<close> that works them. \<open>MarkScheduling\<close>:
    \<open>strategy/src/markscheduler.ts\<close> and what the engine feeds it.
  \<^item> \<open>Portfolio\<close>: \<open>strategy/src/portfolio.ts\<close> (sizing, caps, halts, over doubles) and the comparisons of
    risk configurations in \<open>domain/src/config.ts\<close>. \<open>PaperCore\<close>: \<open>apps/engine/src/paper-core.ts\<close>
    (what admits an entry, a mark, an exit) with the measured readers of \<open>paper.ts\<close>. \<open>PaperBook\<close>:
    \<open>ledger.ts\<close>, \<open>exposure.ts\<close>, \<open>ata.ts\<close>, the position rows, and \<open>tryEnter\<close> and
    \<open>manageOpenPositions\<close> of \<open>paper.ts\<close>, as an inductive relation of entries, passes, day rolls and
    restarts.
  \<^item> \<open>Treatments\<close>: \<open>strategy/src/treatments.ts\<close>, the frozen entry and exit policies that are compared.
    \<open>MarkPath\<close>: \<open>domain/src/trajectory-evidence.ts\<close>, \<open>pipeline/src/counterfactual.ts\<close> and
    \<open>mark-path.ts\<close>. \<open>MarkStore\<close>: the trajectory corpus (\<open>storage/src/mark-repo.ts\<close>,
    \<open>trajectory-repo.ts\<close>), its scheduler \<open>pipeline/src/mark-scheduler.ts\<close> and \<open>runMarkPass\<close> of
    \<open>apps/collector/src/trajectory-collect.ts\<close>. A pass runs with the number of database statements it
    executes before the process dies; histories are an inductive relation of single statements.
  \<^item> \<open>RateLimit\<close>: \<open>adapters/src/ratelimit.ts\<close> and \<open>endpoint-budget.ts\<close>, token buckets over doubles, one per
    process or in a row that all processes share. \<open>MintFacts\<close>: \<open>intelligence/src/mintfacts.ts\<close> and
    \<open>mintfacts-source.ts\<close>, the verdicts on a decoded mint and their cache. \<open>EntryGates\<close>:
    \<open>intelligence/src/gates.ts\<close> and \<open>domain/src/impact.ts\<close>. \<open>Screening\<close>: \<open>strategy/src/screen.ts\<close>,
    \<open>score.ts\<close> and the screening call of \<open>pipeline/src/cycle.ts\<close>. \<open>Exploration\<close>:
    \<open>strategy/src/exploration.ts\<close> and the debt row of the cycle.
  \<^item> \<open>EventReplay\<close>: \<open>pipeline/src/event-source.ts\<close>, \<open>event-replay.ts\<close>, \<open>replay-actor.ts\<close>: the trades
    that landed on a pool during a hold, as a plan of local swaps. \<open>SequentialTrip\<close>:
    \<open>pipeline/src/sequential-round-trip.ts\<close> on the worker client \<open>simulator/src/sequential-worker.ts\<close>. An
    asynchronous method is a function from the client's state to its next state and a value or an error;
    the worker process is any function of the commands. What a run said to it is a conversation, the
    list of its commands with their answers. The queue that pairs its lines with the waiting
    requests is a step relation of its own.
  \<^item> \<open>LegSettlement\<close>: \<open>pipeline/src/leg-settlement.ts\<close>, \<open>solana/src/created-accounts.ts\<close>, the leg deltas of
    \<open>cashback.ts\<close>, and \<open>pipeline/src/open-trajectory.ts\<close> from the finished trip to its settlement (\<open>measure_trip\<close>).
    \<open>TrajectoryKernel\<close>: \<open>pipeline/src/trajectory-kernel.ts\<close>. \<open>CoherentSnapshot\<close>:
    \<open>solana/src/coherent-snapshot.ts\<close> on the batched account read of \<open>rpc.ts\<close>; the node is any function of its
    state, the keys and the least slot. \<open>EventPipeline\<close>: \<open>adapters/src/event-pipeline.ts\<close> with the flat scan of
    \<open>logswatch.ts\<close>; offers, turns of the event loop and flushes are an inductive relation.

  \<^bold>\<open>How the parts meet\<close>

  A router's instructions are compiled (\<open>Compile\<close>), judged (\<open>Policy\<close>, \<open>ComputeBudget\<close>), bound to an
  intent, simulated, signed (\<open>Signing\<close>) and sent at most once (\<open>Executor\<close>). A collector that holds
  the lock (\<open>CollectorLock\<close>) reserves a sampling slot (\<open>Reservation\<close>) and opens a trajectory, whose
  legs \<open>Settlement\<close> turns into a published result or a list of reasons. The collector's passes mark every
  open trajectory at seven horizons, price each mark by the counterfactual contract (\<open>MarkPath\<close>), and once
  the path is whole evaluate both exit policies (\<open>Treatments\<close>) on it and close it (\<open>MarkStore\<close>). The engine ranks its shadow
  positions (\<open>MarkScheduling\<close>), marks them, lets the exit rules trigger, and closes them at a later
  fill along the shadow machine of \<open>Lifecycle\<close> (\<open>ShadowExit\<close>). The paper book sizes an entry
  (\<open>Portfolio\<close>), admits it on two measured settlements (\<open>PaperCore\<close> over \<open>Settlement\<close> and
  \<open>Accounting\<close>), books it, and works it with the same exit rules (\<open>PaperBook\<close>). Before any of this a
  candidate is screened on its mint's facts and its feed (\<open>MintFacts\<close> over \<open>TokenAccounts\<close>,
  \<open>EntryGates\<close>, \<open>Screening\<close>), the survivors share a cycle's quotes (\<open>Exploration\<close>) under the request
  budgets (\<open>RateLimit\<close>), and a trip buys, replays the intervening trades and sells in one simulator
  (\<open>EventReplay\<close>, \<open>SequentialTrip\<close>) on a state captured at one slot (\<open>CoherentSnapshot\<close>); \<open>LegSettlement\<close>
  turns its two steps into the legs that \<open>Settlement\<close> combines, so \<open>published_result_was_executed\<close> reads
  from a published number back to the simulator's answers. The alarm stream that says where to look passes
  through \<open>EventPipeline\<close>.

  \<^bold>\<open>What the groups of lemmas show\<close>

  \<^item> Bytes: encoders and decoders are inverse on what they accept, compiled indexes resolve and grant
    exactly the requested privileges, the mint decoder accepts exactly the mints whose extension area is a list of
    entries of known types.
  \<^item> Authority: what is signed passed every check and only its first signature slot changed; one
    broadcast per idempotency key in every history; at most one lock holder, when \<open>ps\<close> prints command lines and
    the collectors run from their source; every sample is numbered within its cap, and a crashed owner never
    blocks a mint.
  \<^item> Money: amounts survive printing and parsing, a result is published exactly when the named flows
    reconcile (an unobserved residual passing as zero), every cost counts once; the exit rules over doubles decide as exact rules over lamports do.
  \<^item> Lifecycles: reservations answer as the abstract slot of their mint and move it and no other, a cycle of
    the engine loop is a row of the table of the shadow machine, a close is at a later mark than its trigger, a
    fillable exit closes, a due position is marked within one pass of the book as long as the blocked and
    near-trigger ones leave room under the cap, evidence is append-only.
  \<^item> Capital: an allowed size is below every cap, budget and reserve; what an entry books was measured;
    the running ledger is the one a restart computes; only an admitted fill releases capital; the
    exposure overshoots its cap by at most one entry's overhead.
  \<^item> Comparison: a deterioration exit uses no later mark, both policies of a path see the same marks, a
    counterfactual exit is never above the exact replay, a settled trajectory is whole and priced by its own
    contract, a crash anywhere in a pass leaves a corpus that later passes finish.
  \<^item> Measurement: a replay plan that refuses nothing has every swap of the hold in chain order, behind a
    reported trip stands one conversation with the simulator in which the requested buy and trades were
    executed and the sell met the state it was priced on, whatever the simulator answers; and every
    answer within the output limit reaches the request it answers. A published result is what the wallet gained
    over two executed, wholly observed steps of such a conversation; a residue is exactly what unobserved accounts gained; a snapshot is of one
    moment and its hash binds its contents; every event is counted once, and its instruction is the
    one its program announced itself, unless a program writes a text that reads as the end of a frame.
  \<^item> Selection: what an eligible candidate passed on was measured, and its mint, when the read returned
    bytes, decodes without a graded extension; an allocation spends its budget
    and a quarter of it on exploration to the slot, all processes together stay within an endpoint's
    budget and leave the reserved tokens to exits.
  \<^item> Divergences between the code and its comments are theorems too (for instance
    \<open>near_trigger_never\<close>, \<open>file_lock_race\<close>, \<open>unpriced_trigger_bias\<close>,
    \<open>breach_report_false_alarm\<close>, \<open>entry_spends_the_reserve\<close>, \<open>zero_halts_pass_as_tighter\<close>,
    \<open>challenger_uses_later_marks\<close>, \<open>dead_paths_starve_the_rest\<close>, \<open>crash_loses_counterfactual\<close>,
    \<open>empty_cycle_forgets_debt\<close>, \<open>failed_read_is_not_unread\<close>, \<open>late_answer_goes_to_the_next_caller\<close>,
    \<open>second_fee_is_booked_as_the_first\<close>, \<open>kernel_never_publishes\<close>, \<open>own_log_closes_the_frame\<close>,
    \<open>compiled_collector_is_displaced\<close>, \<open>unobserved_residual_is_zero\<close>, \<open>short_fee_config_accepted\<close>): each states what the
    code does.

  \<^bold>\<open>Bounds and fuel\<close>

  Loops over input are structural recursion or have a termination proof by the remaining input; the
  only fuel is the number of steps of an uninterrupted \<open>acquireFileLock\<close> (5, its longest path),
  and the statements of a mark pass: a trajectory takes at most seven marks with their counterfactuals, two
  outcomes and a close (17), a pass at most a hundred trajectories, so 1700 are always enough. A
  stratified draw runs at most a thousand rounds, as in the source, which is enough for every budget up to
  a thousand. A wait for a token runs over a list of clock readings, and \<open>acquire_returns\<close> bounds how
  many it can use.
  Whole numbers that the source keeps in doubles are integers where the model's bounds keep them
  below \<open>2 ^ 53\<close>; where rounding could matter they go through \<open>js_number\<close> or \<open>fl\<close>. Doubles have an
  unbounded exponent. Strings are lists of 8-bit characters.

  \<^bold>\<open>Not modelled\<close>

  Network, processes, timers, log lines and the text of messages; the SQL engine and the migrations;
  the vendor SDK's quoting and the simulator's virtual machine (no source here); SHA-256, Ed25519 and
  curve arithmetic; the floating-point statistics of \<open>intelligence\<close> and \<open>research\<close>; the
  orchestration of \<open>pipeline/src/open-trajectory.ts\<close> before the trip and of the cycle around the parts
  above; the socket of \<open>logswatch.ts\<close>; entry points and operator scripts.
\<close>

end
